(* ===== verification/Brotli_Prelude.thy ===== *)
theory Brotli_Prelude
  imports Main "HOL-Library.Word" "HOL-Library.Monad_Syntax"
begin

text \<open>
  The vocabulary every component shares: the C integer types as words, checked array accesses,
  little-endian bit strings, and the generic lemmas on them.

  Conventions of the whole development:
  \<^item> a C function that can run into undefined behaviour (an access outside an array, a shift by
    at least the width of the operand) returns \<open>'a option\<close>; \<open>None\<close> is undefined behaviour and never
    a C result.  Everything the C code returns, errors included, is a value under \<open>Some\<close>;
  \<^item> an out-parameter that is written only on success is a value of type \<open>'a option\<close> beside the
    new state: \<open>None\<close> is the C result \<open>BROTLI_FALSE\<close>;
  \<^item> \<open>uint32_t\<close> and friends are words of their width, C's \<open>int\<close> is \<open>int\<close>, indices into buffers are
    \<open>nat\<close>.
\<close>

unbundle bit_operations_syntax

section \<open>Machine types\<close>

type_synonym uint8 = "8 word"
type_synonym uint16 = "16 word"
type_synonym uint32 = "32 word"
type_synonym uint64 = "64 word"

named_theorems br_simps "unfolding rules for the bit reader's operations"
named_theorems step_simps "unfolding rules for the decoder's steps"

section \<open>Checked arrays\<close>

definition arr_get :: "'a list \<Rightarrow> nat \<Rightarrow> 'a option" where
  "arr_get xs i = (if i < length xs then Some (xs ! i) else None)"

definition arr_set :: "'a list \<Rightarrow> nat \<Rightarrow> 'a \<Rightarrow> 'a list option" where
  "arr_set xs i v = (if i < length xs then Some (xs[i := v]) else None)"

text \<open>An access with a C \<open>int\<close> index.\<close>

definition arr_geti :: "'a list \<Rightarrow> int \<Rightarrow> 'a option" where
  "arr_geti xs i = (if 0 \<le> i then arr_get xs (nat i) else None)"

definition arr_seti :: "'a list \<Rightarrow> int \<Rightarrow> 'a \<Rightarrow> 'a list option" where
  "arr_seti xs i v = (if 0 \<le> i then arr_set xs (nat i) v else None)"

text \<open>\<open>memcpy\<close> between two arrays: the slice \<open>[from, from + n)\<close> of \<open>src\<close> to position \<open>at\<close>.\<close>

definition arr_copy :: "'a list \<Rightarrow> nat \<Rightarrow> 'a list \<Rightarrow> nat \<Rightarrow> nat \<Rightarrow> 'a list option" where
  "arr_copy dst to src fro n =
     (if fro + n \<le> length src \<and> to + n \<le> length dst
      then Some (take to dst @ take n (drop fro src) @ drop (to + n) dst) else None)"

lemma arr_get_Some [simp]: "i < length xs \<Longrightarrow> arr_get xs i = Some (xs ! i)"
  by (simp add: arr_get_def)

lemma arr_set_Some [simp]: "i < length xs \<Longrightarrow> arr_set xs i v = Some (xs[i := v])"
  by (simp add: arr_set_def)

lemma arr_get_eq_Some: "arr_get xs i = Some v \<longleftrightarrow> i < length xs \<and> v = xs ! i"
  by (auto simp: arr_get_def)

lemma arr_set_eq_Some: "arr_set xs i v = Some ys \<longleftrightarrow> i < length xs \<and> ys = xs[i := v]"
  by (auto simp: arr_set_def)

lemma arr_set_length: "arr_set xs i v = Some ys \<Longrightarrow> length ys = length xs"
  by (simp add: arr_set_eq_Some)

lemma arr_seti_length: "arr_seti xs i v = Some ys \<Longrightarrow> length ys = length xs"
  by (simp add: arr_seti_def arr_set_eq_Some split: if_splits)

lemma arr_copy_length: "arr_copy dst to src fro n = Some ys \<Longrightarrow> length ys = length dst"
  by (auto simp: arr_copy_def split: if_splits)

lemma arr_copy_eq_Some:
  "arr_copy dst to src fro n = Some ys \<longleftrightarrow>
     fro + n \<le> length src \<and> to + n \<le> length dst \<and>
     ys = take to dst @ take n (drop fro src) @ drop (to + n) dst"
  by (auto simp: arr_copy_def)

lemma arr_copy_nth:
  assumes "arr_copy dst to src fro n = Some ys" and "i < length dst"
  shows "ys ! i = (if to \<le> i \<and> i < to + n then src ! (fro + (i - to)) else dst ! i)"
proof -
  have le: "fro + n \<le> length src" "to + n \<le> length dst"
    and ys: "ys = take to dst @ take n (drop fro src) @ drop (to + n) dst"
    using assms(1) by (simp_all add: arr_copy_eq_Some)
  have len: "length (take to dst) = to" "length (take n (drop fro src)) = n"
    using le by simp_all
  consider "i < to" | "to \<le> i" "i < to + n" | "to + n \<le> i" by linarith
  then show ?thesis
  proof cases
    case 1
    then show ?thesis using len by (simp add: ys nth_append)
  next
    case 2
    then have "i - to < n" by linarith
    then show ?thesis using 2 len le by (simp add: ys nth_append)
  next
    case 3
    then have "\<not> i - to < n" by linarith
    then show ?thesis using 3 len le assms(2)
      by (simp add: ys nth_append add.commute)
  qed
qed

section \<open>Option-monad steps\<close>

lemma bind_Some_iff: "Option.bind m f = Some y \<longleftrightarrow> (\<exists>x. m = Some x \<and> f x = Some y)"
  by (rule bind_eq_Some_conv)

declare Option.bind_cong [fundef_cong]

text \<open>A \<open>for\<close> loop whose body may fail.\<close>

fun foldM :: "('a \<Rightarrow> 's \<Rightarrow> 's option) \<Rightarrow> 'a list \<Rightarrow> 's \<Rightarrow> 's option" where
  "foldM f [] s = Some s"
| "foldM f (x # xs) s = Option.bind (f x s) (foldM f xs)"

lemma foldM_append: "foldM f (xs @ ys) s = Option.bind (foldM f xs s) (foldM f ys)"
  by (induction xs arbitrary: s) (auto split: Option.bind_split)

text \<open>An invariant of the body is an invariant of the loop.\<close>

lemma foldM_invariant:
  assumes "foldM f xs s = Some s'" and "P s"
    and "\<And>x s s'. x \<in> set xs \<Longrightarrow> P s \<Longrightarrow> f x s = Some s' \<Longrightarrow> P s'"
  shows "P s'"
  using assms by (induction xs arbitrary: s) (auto simp: bind_Some_iff)

text \<open>A body that always succeeds under an invariant gives a loop that does.\<close>

lemma foldM_total:
  assumes "P s" and "\<And>x s. x \<in> set xs \<Longrightarrow> P s \<Longrightarrow> \<exists>s'. f x s = Some s' \<and> P s'"
  shows "\<exists>s'. foldM f xs s = Some s' \<and> P s'"
  using assms
proof (induction xs arbitrary: s)
  case (Cons x xs)
  then obtain s1 where "f x s = Some s1" "P s1" by (meson list.set_intros(1))
  then show ?case using Cons.IH [of s1] Cons.prems(2) by auto
qed simp

text \<open>A loop over a range, with an invariant of the loop counter.\<close>

lemma foldM_upt:
  assumes "lo \<le> hi" and "P lo s"
    and "\<And>x s. lo \<le> x \<Longrightarrow> x < hi \<Longrightarrow> P x s \<Longrightarrow> \<exists>s'. f x s = Some s' \<and> P (Suc x) s'"
  shows "\<exists>s'. foldM f [lo..<hi] s = Some s' \<and> P hi s'"
  using assms
proof (induction "hi - lo" arbitrary: lo s)
  case (Suc n)
  then have lt: "lo < hi" by linarith
  then obtain s1 where s1: "f lo s = Some s1" "P (Suc lo) s1" using Suc.prems by blast
  have "\<exists>s'. foldM f [Suc lo..<hi] s1 = Some s' \<and> P hi s'"
    by (rule Suc.hyps(1)) (use Suc.hyps(2) Suc.prems s1 lt in auto)
  then show ?case using s1 lt by (simp add: upt_conv_Cons)
qed simp

section \<open>Checked shifts\<close>

definition shl32 :: "uint32 \<Rightarrow> uint32 \<Rightarrow> uint32 option" where
  "shl32 x n = (if n < 32 then Some (push_bit (unat n) x) else None)"

definition shr32 :: "uint32 \<Rightarrow> uint32 \<Rightarrow> uint32 option" where
  "shr32 x n = (if n < 32 then Some (drop_bit (unat n) x) else None)"

lemma shl32_Some [simp]: "n < 32 \<Longrightarrow> shl32 x n = Some (push_bit (unat n) x)"
  by (simp add: shl32_def)

lemma shr32_Some [simp]: "n < 32 \<Longrightarrow> shr32 x n = Some (drop_bit (unat n) x)"
  by (simp add: shr32_def)

section \<open>Bit strings\<close>

text \<open>
  A Brotli stream is a string of bits, the least significant bit of each byte first; a number is
  packed with its least significant bit first.
\<close>

type_synonym bits = "bool list"

definition bits_val :: "bits \<Rightarrow> nat" where
  "bits_val bs = horner_sum of_bool 2 bs"

definition val_bits :: "nat \<Rightarrow> nat \<Rightarrow> bits" where
  "val_bits n v = map (bit v) [0..<n]"

definition word_bits :: "'a::len word \<Rightarrow> nat \<Rightarrow> nat \<Rightarrow> bits" where
  "word_bits w lo hi = map (bit w) [lo..<hi]"

definition byte_bits :: "uint8 \<Rightarrow> bits" where
  "byte_bits b = word_bits b 0 8"

definition bytes_bits :: "uint8 list \<Rightarrow> bits" where
  "bytes_bits xs = concat (map byte_bits xs)"

lemma length_val_bits [simp]: "length (val_bits n v) = n"
  by (simp add: val_bits_def)

lemma length_word_bits [simp]: "length (word_bits w lo hi) = hi - lo"
  by (simp add: word_bits_def)

lemma length_byte_bits [simp]: "length (byte_bits b) = 8"
  by (simp add: byte_bits_def)

lemma length_bytes_bits [simp]: "length (bytes_bits xs) = 8 * length xs"
  by (induction xs) (simp_all add: bytes_bits_def)

lemma bytes_bits_Nil [simp]: "bytes_bits [] = []"
  by (simp add: bytes_bits_def)

lemma bytes_bits_Cons [simp]: "bytes_bits (b # xs) = byte_bits b @ bytes_bits xs"
  by (simp add: bytes_bits_def)

lemma bytes_bits_append [simp]: "bytes_bits (xs @ ys) = bytes_bits xs @ bytes_bits ys"
  by (simp add: bytes_bits_def)

lemma take_bytes_bits: "take (8 * k) (bytes_bits xs) = bytes_bits (take k xs)"
proof (induction xs arbitrary: k)
  case (Cons b xs)
  then show ?case by (cases k) simp_all
qed simp

lemma drop_bytes_bits: "drop (8 * k) (bytes_bits xs) = bytes_bits (drop k xs)"
proof (induction xs arbitrary: k)
  case (Cons b xs)
  then show ?case by (cases k) simp_all
qed simp

lemma word_bits_append: "lo \<le> mid \<Longrightarrow> mid \<le> hi \<Longrightarrow> word_bits w lo mid @ word_bits w mid hi = word_bits w lo hi"
  by (metis map_append upt_add_eq_append le_Suc_ex word_bits_def)

lemma drop_word_bits: "drop n (word_bits w lo hi) = word_bits w (lo + n) hi"
  by (simp add: word_bits_def drop_map)

lemma take_word_bits: "lo + n \<le> hi \<Longrightarrow> take n (word_bits w lo hi) = word_bits w lo (lo + n)"
  by (simp add: word_bits_def take_map)

lemma bits_val_Nil [simp]: "bits_val [] = 0"
  by (simp add: bits_val_def)

lemma bits_val_Cons: "bits_val (b # bs) = of_bool b + 2 * bits_val bs"
  by (simp add: bits_val_def)

lemma bits_val_append: "bits_val (xs @ ys) = bits_val xs + 2 ^ length xs * bits_val ys"
  by (induction xs) (simp_all add: bits_val_Cons)

lemma bits_val_less: "bits_val bs < 2 ^ length bs"
proof (induction bs)
  case (Cons b bs)
  then show ?case by (cases b) (simp_all add: bits_val_Cons)
qed simp

lemma bits_val_val_bits: "bits_val (val_bits n v) = v mod 2 ^ n"
  by (simp add: bits_val_def val_bits_def horner_sum_bit_eq_take_bit take_bit_eq_mod)

lemma bits_val_val_bits_id [simp]: "v < 2 ^ n \<Longrightarrow> bits_val (val_bits n v) = v"
  by (simp add: bits_val_val_bits)

lemma val_bits_bits_val [simp]: "val_bits (length bs) (bits_val bs) = bs"
  by (rule nth_equalityI) (simp_all add: val_bits_def bits_val_def bit_horner_sum_bit_iff)

lemma val_bits_eqI: "length bs = n \<Longrightarrow> val_bits n (bits_val bs) = bs"
  using val_bits_bits_val by blast

lemma bits_val_inj: "length xs = length ys \<Longrightarrow> bits_val xs = bits_val ys \<Longrightarrow> xs = ys"
  by (metis val_bits_bits_val)

lemma val_bits_append:
  assumes "a < 2 ^ m"
  shows "val_bits (m + n) (a + 2 ^ m * b) = val_bits m a @ val_bits n b"
proof (rule bits_val_inj)
  have "bits_val (val_bits (m + n) (a + 2 ^ m * b)) = (a + 2 ^ m * b) mod (2 ^ m * 2 ^ n)"
    by (simp add: bits_val_val_bits power_add)
  also have "\<dots> = a + 2 ^ m * (b mod 2 ^ n)"
    using assms by (simp add: mod_mult2_eq)
  finally show "bits_val (val_bits (m + n) (a + 2 ^ m * b)) = bits_val (val_bits m a @ val_bits n b)"
    using assms by (simp add: bits_val_append bits_val_val_bits)
qed simp

lemma unat_bit_iff: "bit (unat w) n \<longleftrightarrow> bit w n"
  by (auto simp: bit_unsigned_iff dest: bit_imp_le_length)

lemma word_bits_val_bits: "word_bits w 0 n = val_bits n (unat w)"
  by (simp add: word_bits_def val_bits_def unat_bit_iff)

lemma bits_val_word_bits:
  "bits_val (word_bits w lo (lo + n)) = take_bit n (unat (drop_bit lo w))"
proof -
  have "word_bits w lo (lo + n) = map (bit (unat (drop_bit lo w))) [0..<n]"
    unfolding word_bits_def
    by (rule nth_equalityI) (simp_all add: unat_bit_iff bit_drop_bit_eq)
  then show ?thesis
    by (simp add: bits_val_def horner_sum_bit_eq_take_bit)
qed

lemma byte_bits_inj: "byte_bits a = byte_bits b \<Longrightarrow> a = b"
proof (rule bit_word_eqI)
  fix n assume "byte_bits a = byte_bits b" and "n < LENGTH(8)"
  then have "n < 8" and "byte_bits a ! n = byte_bits b ! n" by simp_all
  then show "bit a n = bit b n" by (simp add: byte_bits_def word_bits_def)
qed

lemma unat_byte_bits: "bits_val (byte_bits b) = unat b"
proof -
  have "bits_val (byte_bits b) = take_bit 8 (unat b)"
    using bits_val_word_bits [of b 0 8] by (simp add: byte_bits_def)
  also have "\<dots> = unat b" by (rule take_bit_nat_eq_self) (use unsigned_less [of b, where 'a = nat] in simp)
  finally show ?thesis .
qed

section \<open>Little-endian loads\<close>

text \<open>The value \<open>memcpy\<close> gives on a little-endian machine.\<close>

fun le_word :: "uint8 list \<Rightarrow> 'a::len word" where
  "le_word [] = 0"
| "le_word (b # bs) = ucast b OR push_bit 8 (le_word bs)"

lemma bit_le_word:
  "bit (le_word bs :: 'a::len word) n \<longleftrightarrow> n < LENGTH('a) \<and> n < 8 * length bs \<and> bytes_bits bs ! n"
proof (induction bs arbitrary: n)
  case (Cons b bs)
  show ?case
  proof (cases "n < 8")
    case True
    then show ?thesis
      by (auto simp: bit_simps nth_append byte_bits_def word_bits_def)
  next
    case False
    have "\<not> bit b n" using False by (auto dest: bit_imp_le_length)
    then show ?thesis using False Cons.IH [of "n - 8"]
      by (auto simp: bit_simps nth_append)
  qed
qed simp

section \<open>Numbers as words\<close>

lemma unat_of_nat_small: "k < 2 ^ LENGTH('a) \<Longrightarrow> unat (of_nat k :: 'a::len word) = k"
  by (simp add: unat_of_nat take_bit_nat_eq_self)

lemma word_of_natI: "unat (w :: 'a::len word) = k \<Longrightarrow> w = of_nat k"
  by auto

lemma unat_drop_bit_div: "unat (drop_bit n (w :: 'a::len word)) = unat w div 2 ^ n"
  by (subst unat_drop_bit_eq) (rule drop_bit_eq_div)

lemma of_nat_or_shift:
  assumes "x < 2 ^ e"
  shows "push_bit e (of_nat y) OR of_nat x = (of_nat (x + 2 ^ e * y) :: 'a::len word)"
proof -
  have "push_bit e (of_nat y) AND of_nat x = (0 :: 'a word)"
  proof (rule bit_word_eqI)
    fix i
    have "\<not> bit x i" if "e \<le> i"
    proof -
      have "(2::nat) ^ e \<le> 2 ^ i" by (rule power_increasing) (use that in simp_all)
      then have "x < 2 ^ i" using assms by linarith
      then show ?thesis by (simp add: bit_iff_odd)
    qed
    then show "bit (push_bit e (of_nat y) AND of_nat x) i = bit (0 :: 'a word) i"
      by (auto simp: bit_simps)
  qed
  then show ?thesis using disjunctive_add_eq_or [of "push_bit e (of_nat y)" "of_nat x :: 'a word"]
    by (simp add: push_bit_eq_mult mult.commute add.commute)
qed

end
