(* ===== verification/Bit_Reader.thy ===== *)
theory Bit_Reader
  imports Brotli_Prelude
begin

text \<open>
  The bit reader of \<^verbatim>\<open>dec/bit_reader.h\<close> and \<^verbatim>\<open>dec/bit_reader.c\<close>, for the 64-bit little-endian
  build with unaligned reads (\<open>BROTLI_64_BITS = 1\<close>, \<open>BROTLI_ALIGNED_READ = 0\<close>; arm64 and x86-64).

  \<open>next_in\<close> is the position of the C pointer \<open>br->next_in\<close> in the buffer \<open>input\<close> it points into,
  \<open>avail_in\<close> the count of bytes the reader may still take from there.  An access outside \<open>input\<close>, a
  wrap-around of \<open>avail_in\<close> and a shift by 64 are undefined behaviour or memory errors of the C code
  and are \<open>None\<close>.  \<open>BROTLI_DCHECK\<close> is empty in a build without \<open>BROTLI_DEBUG\<close>, so the checks of the counts
  (at most 24 bits for \<open>BrotliReadBits24\<close> and \<open>BrotliSafeReadBits\<close>, at most 32 for their variants) are not part of the
  definitions; the theorems about these routines have them as hypotheses.

  The abstract contract is \<open>br_bits\<close>: the string of bits the reader has still to deliver, first the
  ones in the accumulator, then the ones of the available input.
\<close>

section \<open>State\<close>

record BrotliBitReader =
  br_val :: uint64       \<comment> \<open>pre-fetched bits\<close>
  br_bit_pos :: uint32   \<comment> \<open>current bit-reading position in \<open>br_val\<close>\<close>
  input :: "uint8 list"
  next_in :: nat
  avail_in :: nat

type_synonym BrotliBitReaderState = BrotliBitReader

definition kBrotliBitMask :: "uint32 list" where
  "kBrotliBitMask = [0x00000000,
     0x00000001, 0x00000003, 0x00000007, 0x0000000F,
     0x0000001F, 0x0000003F, 0x0000007F, 0x000000FF,
     0x000001FF, 0x000003FF, 0x000007FF, 0x00000FFF,
     0x00001FFF, 0x00003FFF, 0x00007FFF, 0x0000FFFF,
     0x0001FFFF, 0x0003FFFF, 0x0007FFFF, 0x000FFFFF,
     0x001FFFFF, 0x003FFFFF, 0x007FFFFF, 0x00FFFFFF,
     0x01FFFFFF, 0x03FFFFFF, 0x07FFFFFF, 0x0FFFFFFF,
     0x1FFFFFFF, 0x3FFFFFFF, 0x7FFFFFFF, 0xFFFFFFFF]"

definition BitMask :: "uint32 \<Rightarrow> uint32 option" where
  "BitMask n = arr_get kBrotliBitMask (unat n)"

text \<open>The other branch of \<open>BitMask\<close>, taken for constants and where \<open>BROTLI_HAS_UBFX\<close> holds.\<close>

definition BitMask_ubfx :: "uint32 \<Rightarrow> uint32 option" where
  "BitMask_ubfx n = (if n < 32 then Some (NOT (push_bit (unat n) 0xFFFFFFFF)) else None)"

section \<open>Operations\<close>

definition BrotliInitBitReader :: "BrotliBitReader \<Rightarrow> BrotliBitReader" where
  "BrotliInitBitReader br = br\<lparr>br_val := 0, br_bit_pos := 64\<rparr>"

definition BrotliBitReaderSaveState :: "BrotliBitReader \<Rightarrow> BrotliBitReaderState" where
  "BrotliBitReaderSaveState from =
     \<lparr>br_val = br_val from, br_bit_pos = br_bit_pos from, input = input from,
      next_in = next_in from, avail_in = avail_in from\<rparr>"

definition BrotliBitReaderRestoreState ::
  "BrotliBitReader \<Rightarrow> BrotliBitReaderState \<Rightarrow> BrotliBitReader" where
  "BrotliBitReaderRestoreState to from =
     to\<lparr>br_val := br_val from, br_bit_pos := br_bit_pos from, input := input from,
        next_in := next_in from, avail_in := avail_in from\<rparr>"

definition BrotliGetAvailableBits :: "BrotliBitReader \<Rightarrow> uint32" where
  "BrotliGetAvailableBits br = 64 - br_bit_pos br"

definition BROTLI_LARGE_MAX_WBITS_cap :: nat where
  "BROTLI_LARGE_MAX_WBITS_cap = 2 ^ 30"

definition BrotliGetRemainingBytes :: "BrotliBitReader \<Rightarrow> nat" where
  "BrotliGetRemainingBytes br =
     (if avail_in br > BROTLI_LARGE_MAX_WBITS_cap then BROTLI_LARGE_MAX_WBITS_cap
      else avail_in br + unat (drop_bit 3 (BrotliGetAvailableBits br)))"

definition BrotliCheckInputAmount :: "BrotliBitReader \<Rightarrow> nat \<Rightarrow> bool" where
  "BrotliCheckInputAmount br num \<longleftrightarrow> num \<le> avail_in br"

text \<open>An unaligned little-endian load of \<open>n\<close> bytes at \<open>br->next_in\<close>.\<close>

definition br_load :: "nat \<Rightarrow> BrotliBitReader \<Rightarrow> uint64 option" where
  "br_load n br = (if next_in br + n \<le> length (input br)
     then Some (le_word (take n (drop (next_in br) (input br)))) else None)"

definition br_refill :: "nat \<Rightarrow> nat \<Rightarrow> BrotliBitReader \<Rightarrow> BrotliBitReader option" where
  "br_refill ld k br = do {
     w \<leftarrow> br_load ld br;
     if k \<le> avail_in br
     then Some (br\<lparr>br_val := drop_bit (8 * k) (br_val br) OR push_bit (64 - 8 * k) w,
                   br_bit_pos := br_bit_pos br XOR of_nat (8 * k),
                   avail_in := avail_in br - k, next_in := next_in br + k\<rparr>)
     else None }"

text \<open>
  \<open>BrotliFillBitWindow\<close> has three variants; the first two are taken when the compiler sees a constant
  \<open>n_bits\<close> (\<open>BROTLI_IS_CONSTANT\<close>), which the call's \<open>cnst\<close> flag says.
\<close>

definition BrotliFillBitWindow :: "bool \<Rightarrow> BrotliBitReader \<Rightarrow> uint32 \<Rightarrow> BrotliBitReader option" where
  "BrotliFillBitWindow cnst br n_bits =
     (if cnst \<and> n_bits \<le> 8 then
        (if br_bit_pos br \<ge> 56 then br_refill 8 7 br else Some br)
      else if cnst \<and> n_bits \<le> 16 then
        (if br_bit_pos br \<ge> 48 then br_refill 8 6 br else Some br)
      else
        (if br_bit_pos br \<ge> 32 then br_refill 4 4 br else Some br))"

definition BrotliFillBitWindow16 :: "BrotliBitReader \<Rightarrow> BrotliBitReader option" where
  "BrotliFillBitWindow16 br = BrotliFillBitWindow True br 17"

definition BrotliPullByte :: "BrotliBitReader \<Rightarrow> (bool \<times> BrotliBitReader) option" where
  "BrotliPullByte br =
     (if avail_in br = 0 then Some (False, br)
      else do {
        b \<leftarrow> arr_get (input br) (next_in br);
        Some (True, br\<lparr>br_val := drop_bit 8 (br_val br) OR push_bit 56 (ucast b),
                       br_bit_pos := br_bit_pos br - 8,
                       avail_in := avail_in br - 1, next_in := next_in br + 1\<rparr>) })"

definition BrotliGetBitsUnmasked :: "BrotliBitReader \<Rightarrow> uint64 option" where
  "BrotliGetBitsUnmasked br =
     (if br_bit_pos br < 64 then Some (drop_bit (unat (br_bit_pos br)) (br_val br)) else None)"

definition BrotliGet16BitsUnmasked :: "BrotliBitReader \<Rightarrow> (uint32 \<times> BrotliBitReader) option" where
  "BrotliGet16BitsUnmasked br = do {
     br \<leftarrow> BrotliFillBitWindow True br 16;
     v \<leftarrow> BrotliGetBitsUnmasked br;
     Some (ucast v, br) }"

definition BrotliGetBits :: "bool \<Rightarrow> BrotliBitReader \<Rightarrow> uint32 \<Rightarrow> (uint32 \<times> BrotliBitReader) option" where
  "BrotliGetBits cnst br n_bits = do {
     br \<leftarrow> BrotliFillBitWindow cnst br n_bits;
     v \<leftarrow> BrotliGetBitsUnmasked br;
     m \<leftarrow> BitMask n_bits;
     Some (ucast v AND m, br) }"

lemma BrotliPullByte_avail_less:
  "BrotliPullByte br = Some (True, br') \<Longrightarrow> avail_in br' < avail_in br"
  by (auto simp: BrotliPullByte_def bind_Some_iff split: if_splits)

text \<open>
  The loop \<open>while (available < n_bits) if (!BrotliPullByte(br)) return BROTLI_FALSE;\<close> that the safe
  readers share.
\<close>

function pull_until :: "BrotliBitReader \<Rightarrow> uint32 \<Rightarrow> (bool \<times> BrotliBitReader) option" where
  "pull_until br n_bits =
     (if BrotliGetAvailableBits br < n_bits
      then do {
        r \<leftarrow> BrotliPullByte br;
        (if fst r then pull_until (snd r) n_bits else Some (False, snd r)) }
      else Some (True, br))"
  by pat_completeness auto
termination
  by (relation "measure (\<lambda>(br, n). avail_in br)")
    (auto dest!: BrotliPullByte_avail_less)

declare pull_until.simps [simp del]

definition BrotliSafeGetBits ::
  "BrotliBitReader \<Rightarrow> uint32 \<Rightarrow> (uint32 option \<times> BrotliBitReader) option" where
  "BrotliSafeGetBits br n_bits = do {
     (ok, br) \<leftarrow> pull_until br n_bits;
     if \<not> ok then Some (None, br)
     else do {
       v \<leftarrow> BrotliGetBitsUnmasked br;
       m \<leftarrow> BitMask n_bits;
       Some (Some (ucast v AND m), br) } }"

definition BrotliDropBits :: "BrotliBitReader \<Rightarrow> uint32 \<Rightarrow> BrotliBitReader" where
  "BrotliDropBits br n_bits = br\<lparr>br_bit_pos := br_bit_pos br + n_bits\<rparr>"

definition BrotliBitReaderUnload :: "BrotliBitReader \<Rightarrow> BrotliBitReader option" where
  "BrotliBitReaderUnload br =
     (let unused_bytes = drop_bit 3 (BrotliGetAvailableBits br);
          unused_bits = push_bit 3 unused_bytes
      in if unat unused_bytes \<le> next_in br
         then Some (br\<lparr>avail_in := avail_in br + unat unused_bytes,
                       next_in := next_in br - unat unused_bytes,
                       br_val := (if unused_bits = 64 then 0
                                else push_bit (unat unused_bits) (br_val br)),
                       br_bit_pos := br_bit_pos br + unused_bits\<rparr>)
         else None)"

definition BrotliTakeBits :: "BrotliBitReader \<Rightarrow> uint32 \<Rightarrow> (uint32 \<times> BrotliBitReader) option" where
  "BrotliTakeBits br n_bits = do {
     v \<leftarrow> BrotliGetBitsUnmasked br;
     m \<leftarrow> BitMask n_bits;
     Some (ucast v AND m, BrotliDropBits br n_bits) }"

definition BrotliReadBits24 :: "BrotliBitReader \<Rightarrow> uint32 \<Rightarrow> (uint32 \<times> BrotliBitReader) option" where
  "BrotliReadBits24 br n_bits = do {
     br \<leftarrow> BrotliFillBitWindow False br n_bits;
     BrotliTakeBits br n_bits }"

definition BrotliReadBits32 :: "BrotliBitReader \<Rightarrow> uint32 \<Rightarrow> (uint32 \<times> BrotliBitReader) option" where
  "BrotliReadBits32 br n_bits = do {
     br \<leftarrow> BrotliFillBitWindow False br n_bits;
     BrotliTakeBits br n_bits }"

definition BrotliSafeReadBits ::
  "BrotliBitReader \<Rightarrow> uint32 \<Rightarrow> (uint32 option \<times> BrotliBitReader) option" where
  "BrotliSafeReadBits br n_bits = do {
     (ok, br) \<leftarrow> pull_until br n_bits;
     if \<not> ok then Some (None, br)
     else do {
       (v, br) \<leftarrow> BrotliTakeBits br n_bits;
       Some (Some v, br) } }"

text \<open>With \<open>BROTLI_64_BITS\<close> the slow variant is never called by \<open>BrotliSafeReadBits32\<close>.\<close>

definition BrotliSafeReadBits32 ::
  "BrotliBitReader \<Rightarrow> uint32 \<Rightarrow> (uint32 option \<times> BrotliBitReader) option" where
  "BrotliSafeReadBits32 br n_bits = do {
     (ok, br) \<leftarrow> pull_until br n_bits;
     if \<not> ok then Some (None, br)
     else do {
       (v, br) \<leftarrow> BrotliTakeBits br n_bits;
       Some (Some v, br) } }"

definition BrotliSafeReadBits32Slow ::
  "BrotliBitReader \<Rightarrow> uint32 \<Rightarrow> (uint32 option \<times> BrotliBitReader) option" where
  "BrotliSafeReadBits32Slow br n_bits = (let memento = BrotliBitReaderSaveState br in do {
     (low_val, br) \<leftarrow> BrotliSafeReadBits br 16;
     (case low_val of
        None \<Rightarrow> Some (None, BrotliBitReaderRestoreState br memento)
      | Some low \<Rightarrow> do {
          (high_val, br) \<leftarrow> BrotliSafeReadBits br (n_bits - 16);
          (case high_val of
             None \<Rightarrow> Some (None, BrotliBitReaderRestoreState br memento)
           | Some high \<Rightarrow> Some (Some (low OR push_bit 16 high), br)) }) })"

definition BrotliWarmupBitReader :: "BrotliBitReader \<Rightarrow> (bool \<times> BrotliBitReader) option" where
  "BrotliWarmupBitReader br =
     (if BrotliGetAvailableBits br = 0 then do {
        (ok, br) \<leftarrow> BrotliPullByte br;
        if \<not> ok then Some (False, br) else Some (True, br) }
      else Some (True, br))"

definition BrotliJumpToByteBoundary :: "BrotliBitReader \<Rightarrow> (bool \<times> BrotliBitReader) option" where
  "BrotliJumpToByteBoundary br =
     (let pad_bits_count = BrotliGetAvailableBits br AND 0x7
      in if pad_bits_count \<noteq> 0 then do {
           (pad_bits, br) \<leftarrow> BrotliTakeBits br pad_bits_count;
           Some (pad_bits = 0, br) }
         else Some (True, br))"

text \<open>The byte loop of \<open>BrotliCopyBytes\<close>, then the \<open>memcpy\<close> of the rest.\<close>

fun copy_acc_bytes ::
  "uint8 list \<Rightarrow> nat \<Rightarrow> BrotliBitReader \<Rightarrow> nat \<Rightarrow> (uint8 list \<times> nat \<times> BrotliBitReader \<times> nat) option" where
  "copy_acc_bytes dst dest br 0 = Some (dst, dest, br, 0)"
| "copy_acc_bytes dst dest br (Suc num) =
     (if BrotliGetAvailableBits br \<ge> 8 then do {
        v \<leftarrow> BrotliGetBitsUnmasked br;
        dst \<leftarrow> arr_set dst dest (ucast v);
        copy_acc_bytes dst (dest + 1) (BrotliDropBits br 8) num }
      else Some (dst, dest, br, Suc num))"

definition BrotliCopyBytes ::
  "uint8 list \<Rightarrow> nat \<Rightarrow> BrotliBitReader \<Rightarrow> nat \<Rightarrow> (uint8 list \<times> BrotliBitReader) option" where
  "BrotliCopyBytes dst dest br num = do {
     (dst, dest, br, num) \<leftarrow> copy_acc_bytes dst dest br num;
     dst \<leftarrow> arr_copy dst dest (input br) (next_in br) num;
     if num \<le> avail_in br
     then Some (dst, br\<lparr>avail_in := avail_in br - num, next_in := next_in br + num\<rparr>)
     else None }"

end
