(* ===== verification/Bit_Reader_Facts.thy ===== *)
theory Bit_Reader_Facts
  imports Bit_Reader
begin

text \<open>
  The contract of the bit reader: every operation of \<open>Bit_Reader\<close> seen as an operation on the string
  of bits \<open>br_bits\<close> the reader has still to deliver.  The readers share two locales, \<open>bit_taker\<close> and
  \<open>bit_source\<close>, interpreted by the safe readers, the fast readers and the slow 32-bit reader.
\<close>

section \<open>The abstract contract\<close>

text \<open>
  The whole bytes in the accumulator are the last bytes taken from the input: what makes it sound to
  move \<open>next_in\<close> back.
\<close>

definition acc_bytes :: "BrotliBitReader \<Rightarrow> nat" where
  "acc_bytes br = (64 - unat (br_bit_pos br)) div 8"

definition br_linked :: "BrotliBitReader \<Rightarrow> bool" where
  "br_linked br \<longleftrightarrow> acc_bytes br \<le> next_in br \<and>
     word_bits (br_val br) (64 - 8 * acc_bytes br) 64
       = bytes_bits (take (acc_bytes br) (drop (next_in br - acc_bytes br) (input br)))"

definition br_ok :: "BrotliBitReader \<Rightarrow> bool" where
  "br_ok br \<longleftrightarrow> unat (br_bit_pos br) \<le> 64 \<and> next_in br + avail_in br \<le> length (input br) \<and>
     br_linked br"

lemma br_linked_drained: "56 < unat (br_bit_pos br) \<Longrightarrow> br_linked br"
  by (simp add: br_linked_def acc_bytes_def word_bits_def)

lemma br_linked_advance:
  assumes l: "br_linked br" and n: "unat (br_bit_pos br) \<le> unat (br_bit_pos br')"
    and same: "br_val br' = br_val br" "input br' = input br" "next_in br' = next_in br"
  shows "br_linked br'"
proof -
  define k where "k = acc_bytes br"
  define k' where "k' = acc_bytes br'"
  have le: "k' \<le> k" "8 * k \<le> 64" using n by (auto simp: k_def k'_def acc_bytes_def div_le_mono)
  have kn: "k \<le> next_in br" using l by (simp add: br_linked_def k_def)
  have "word_bits (br_val br) (64 - 8 * k') 64 = drop (8 * (k - k')) (word_bits (br_val br) (64 - 8 * k) 64)"
    using le by (simp add: drop_word_bits algebra_simps)
  also have "\<dots> = bytes_bits (drop (k - k') (take k (drop (next_in br - k) (input br))))"
    using l by (simp add: br_linked_def k_def drop_bytes_bits)
  also have "drop (k - k') (take k (drop (next_in br - k) (input br))) = take k' (drop (next_in br - k') (input br))"
    using le kn by (simp add: drop_take)
  finally show ?thesis using le kn same by (simp add: br_linked_def k'_def [symmetric])
qed

text \<open>The bytes and then the bits still to be delivered.\<close>

definition br_rest :: "BrotliBitReader \<Rightarrow> uint8 list" where
  "br_rest br = take (avail_in br) (drop (next_in br) (input br))"

definition br_bits :: "BrotliBitReader \<Rightarrow> bits" where
  "br_bits br = word_bits (br_val br) (unat (br_bit_pos br)) 64 @ bytes_bits (br_rest br)"

text \<open>Two readers over the same input with the same end.\<close>

definition br_same :: "BrotliBitReader \<Rightarrow> BrotliBitReader \<Rightarrow> bool" where
  "br_same br br' \<longleftrightarrow> input br' = input br \<and> next_in br' + avail_in br' = next_in br + avail_in br"

lemma br_same_refl [simp]: "br_same br br"
  by (simp add: br_same_def)

lemma br_same_trans: "br_same a b \<Longrightarrow> br_same b c \<Longrightarrow> br_same a c"
  by (simp add: br_same_def)

lemma unat_avail_bits:
  assumes "br_ok br"
  shows "unat (BrotliGetAvailableBits br) = 64 - unat (br_bit_pos br)"
proof -
  have "br_bit_pos br \<le> 64" using assms by (simp add: br_ok_def word_le_nat_alt)
  then show ?thesis by (simp add: BrotliGetAvailableBits_def unat_sub)
qed

lemma avail_bits_less_iff:
  "br_ok br \<Longrightarrow> BrotliGetAvailableBits br < n \<longleftrightarrow> 64 - unat (br_bit_pos br) < unat n"
  by (simp add: word_less_nat_alt unat_avail_bits)

lemma avail_bits_eq_0_iff:
  "br_ok br \<Longrightarrow> BrotliGetAvailableBits br = 0 \<longleftrightarrow> unat (br_bit_pos br) = 64"
  by (auto simp: unat_eq_zero [symmetric] unat_avail_bits br_ok_def simp del: unat_eq_zero)

lemma length_br_rest [simp]: "br_ok br \<Longrightarrow> length (br_rest br) = avail_in br"
  by (auto simp: br_rest_def br_ok_def)

lemma length_br_bits: "br_ok br \<Longrightarrow> length (br_bits br) = (64 - unat (br_bit_pos br)) + 8 * avail_in br"
  by (simp add: br_bits_def)

lemma kBrotliBitMask_mask: "kBrotliBitMask = map mask [0..<33]"
  by code_simp

lemma BitMask_mask: "unat n \<le> 32 \<Longrightarrow> BitMask n = Some (mask (unat n))"
  by (simp add: BitMask_def kBrotliBitMask_mask arr_get_def del: upt_conv_Cons)

lemma BitMask_ubfx_eq: "n < 32 \<Longrightarrow> BitMask_ubfx n = BitMask n"
proof -
  assume n: "n < 32"
  then have u: "unat n < 32" by (simp add: word_less_nat_alt)
  have ff: "(0xFFFFFFFF :: uint32) = NOT 0" by simp
  have "NOT (push_bit (unat n) 0xFFFFFFFF) = (mask (unat n) :: uint32)"
    unfolding ff by (rule bit_word_eqI) (use u in \<open>auto simp: bit_simps\<close>)
  with n u show ?thesis by (simp add: BitMask_ubfx_def BitMask_mask)
qed

section \<open>Refilling the accumulator\<close>

lemma refill_word_bits:
  fixes v w :: uint64
  assumes "8 * k \<le> p" and "p \<le> 64"
  shows "word_bits (drop_bit (8 * k) v OR push_bit (64 - 8 * k) w) (p - 8 * k) 64
         = word_bits v p 64 @ word_bits w 0 (8 * k)"
proof (rule nth_equalityI)
  show "length (word_bits (drop_bit (8 * k) v OR push_bit (64 - 8 * k) w) (p - 8 * k) 64)
      = length (word_bits v p 64 @ word_bits w 0 (8 * k))" using assms by simp
next
  fix i assume "i < length (word_bits (drop_bit (8 * k) v OR push_bit (64 - 8 * k) w) (p - 8 * k) 64)"
  then have i: "i < 64 - (p - 8 * k)" by simp
  show "word_bits (drop_bit (8 * k) v OR push_bit (64 - 8 * k) w) (p - 8 * k) 64 ! i
      = (word_bits v p 64 @ word_bits w 0 (8 * k)) ! i"
  proof (cases "i < 64 - p")
    case True
    then show ?thesis using assms i
      by (auto simp: word_bits_def nth_append bit_simps)
  next
    case False
    have "\<not> bit v (p + i)" using False bit_imp_le_length [of v "p + i"] by auto
    moreover have "p - 8 * k + i - (64 - 8 * k) = i - (64 - p)" using assms False by linarith
    ultimately show ?thesis using assms i False
      by (auto simp: word_bits_def nth_append bit_simps add.commute)
  qed
qed

lemma word_bits_le_word:
  "8 * k \<le> LENGTH('a) \<Longrightarrow> k \<le> length bs \<Longrightarrow> word_bits (le_word bs :: 'a::len word) 0 (8 * k) = bytes_bits (take k bs)"
proof (rule nth_equalityI)
  assume k: "8 * k \<le> LENGTH('a)" "k \<le> length bs"
  then show "length (word_bits (le_word bs :: 'a word) 0 (8 * k)) = length (bytes_bits (take k bs))" by simp
  fix i assume "i < length (word_bits (le_word bs :: 'a word) 0 (8 * k))"
  then have i: "i < 8 * k" by simp
  have "bytes_bits bs = bytes_bits (take k bs) @ bytes_bits (drop k bs)"
    by (metis append_take_drop_id bytes_bits_append)
  then have "bytes_bits bs ! i = bytes_bits (take k bs) ! i"
    using i k by (simp add: nth_append)
  then show "word_bits (le_word bs :: 'a word) 0 (8 * k) ! i = bytes_bits (take k bs) ! i"
    using i k by (simp add: word_bits_def bit_le_word)
qed

text \<open>Moving \<open>k\<close> bytes of input behind the bits of the accumulator keeps the bit string.\<close>

lemma shift_in_bits:
  assumes ok: "br_ok br" and k: "8 * k \<le> unat (br_bit_pos br)" "k \<le> avail_in br"
    and w: "word_bits w 0 (8 * k) = bytes_bits (take k (br_rest br))"
    and br': "br_val br' = drop_bit (8 * k) (br_val br) OR push_bit (64 - 8 * k) w"
      "unat (br_bit_pos br') = unat (br_bit_pos br) - 8 * k"
      "input br' = input br" "next_in br' = next_in br + k" "avail_in br' = avail_in br - k"
  shows "br_ok br' \<and> br_same br br' \<and> br_bits br' = br_bits br"
proof -
  have p: "unat (br_bit_pos br) \<le> 64" using ok by (simp add: br_ok_def)
  have "br_rest br' = drop k (br_rest br)"
    using br' by (simp add: br_rest_def drop_take add.commute)
  moreover have "word_bits (br_val br') (unat (br_bit_pos br')) 64
      = word_bits (br_val br) (unat (br_bit_pos br)) 64 @ bytes_bits (take k (br_rest br))"
    using refill_word_bits [OF k(1) p] br' w by simp
  ultimately have "br_bits br' = br_bits br"
    by (simp add: br_bits_def flip: bytes_bits_append)
  moreover have "br_linked br'"
  proof -
    define j where "j = acc_bytes br"
    have j': "acc_bytes br' = j + k" using p k br' by (simp add: acc_bytes_def j_def)
    have j: "8 * j \<le> 64 - unat (br_bit_pos br)" "j \<le> next_in br" "8 * k \<le> 64 - 8 * j"
      "word_bits (br_val br) (64 - 8 * j) 64 = bytes_bits (take j (drop (next_in br - j) (input br)))"
      using ok k p by (auto simp: br_ok_def br_linked_def j_def [symmetric]) (auto simp: j_def acc_bytes_def)
    have "word_bits (br_val br') (64 - 8 * (j + k)) 64
        = word_bits (br_val br) (64 - 8 * j) 64 @ bytes_bits (take k (br_rest br))"
      using refill_word_bits [OF j(3), of "br_val br" w] br' w by (simp add: algebra_simps)
    also have "\<dots> = bytes_bits (take (j + k) (drop (next_in br - j) (input br)))"
      using j k by (simp add: take_add br_rest_def flip: bytes_bits_append)
    finally show ?thesis using j j' br' by (simp add: br_linked_def)
  qed
  ultimately show ?thesis using ok k br' by (auto simp: br_ok_def br_same_def)
qed

lemma BrotliPullByte_empty: "avail_in br = 0 \<Longrightarrow> BrotliPullByte br = Some (False, br)"
  by (simp add: BrotliPullByte_def)

lemma BrotliPullByte_spec:
  assumes ok: "br_ok br" and p: "8 \<le> unat (br_bit_pos br)" and a: "0 < avail_in br"
  shows "\<exists>br'. BrotliPullByte br = Some (True, br') \<and> br_ok br' \<and> br_same br br' \<and>
           br_bits br' = br_bits br \<and> unat (br_bit_pos br') = unat (br_bit_pos br) - 8 \<and>
           avail_in br' = avail_in br - 1"
proof -
  have nx: "next_in br < length (input br)" using ok a by (simp add: br_ok_def)
  define b where "b = input br ! next_in br"
  define br' where "br' = br\<lparr>br_val := drop_bit 8 (br_val br) OR push_bit 56 (ucast b),
      br_bit_pos := br_bit_pos br - 8, avail_in := avail_in br - 1, next_in := next_in br + 1\<rparr>"
  have pull: "BrotliPullByte br = Some (True, br')"
    using a nx by (simp add: BrotliPullByte_def br'_def b_def)
  have "take 1 (br_rest br) = [b]"
    using a nx by (cases "avail_in br") (simp_all add: br_rest_def b_def take_Suc_conv_app_nth hd_drop_conv_nth take_Suc)
  then have w: "word_bits (ucast b :: uint64) 0 (8 * 1) = bytes_bits (take 1 (br_rest br))"
    by (simp add: byte_bits_def word_bits_def bit_simps)
  have up: "unat (br_bit_pos br') = unat (br_bit_pos br) - 8 * 1"
    using p by (simp add: br'_def unat_sub word_le_nat_alt)
  have "br_ok br' \<and> br_same br br' \<and> br_bits br' = br_bits br"
    by (rule shift_in_bits [OF ok _ _ w _ up]) (use p a in \<open>simp_all add: br'_def\<close>)
  then show ?thesis using pull up by (simp add: br'_def)
qed

lemma pull_until_spec:
  assumes "br_ok br" and "unat n \<le> 32"
  shows "\<exists>br'. pull_until br n = Some (unat n \<le> length (br_bits br), br') \<and> br_ok br' \<and>
           br_same br br' \<and> br_bits br' = br_bits br \<and>
           (if unat n \<le> length (br_bits br) then unat n \<le> 64 - unat (br_bit_pos br')
            else avail_in br' = 0) \<and>
           (unat (br_bit_pos br) < 64 \<longrightarrow> unat (br_bit_pos br') < 64)"
  using assms
proof (induction br n rule: pull_until.induct)
  case (1 br n)
  show ?case
  proof (cases "BrotliGetAvailableBits br < n")
    case False
    then have "unat n \<le> 64 - unat (br_bit_pos br)" using 1 by (simp add: avail_bits_less_iff)
    then show ?thesis using False 1
      by (subst pull_until.simps) (auto simp: length_br_bits)
  next
    case True
    then have short: "64 - unat (br_bit_pos br) < unat n" using 1 by (simp add: avail_bits_less_iff)
    show ?thesis
    proof (cases "avail_in br = 0")
      case e: True
      then have "\<not> unat n \<le> length (br_bits br)" using short 1 by (simp add: length_br_bits)
      then show ?thesis using True e 1 short
        by (subst pull_until.simps) (auto simp: BrotliPullByte_empty length_br_bits)
    next
      case False
      have "8 \<le> unat (br_bit_pos br)" using short 1 by linarith
      then obtain b1 where b1: "BrotliPullByte br = Some (True, b1)" "br_ok b1" "br_same br b1"
        "br_bits b1 = br_bits br" "unat (br_bit_pos b1) = unat (br_bit_pos br) - 8"
        using BrotliPullByte_spec 1 False by blast
      have "unat (br_bit_pos b1) < 64" using b1(5) 1(2) \<open>8 \<le> unat (br_bit_pos br)\<close>
        unfolding br_ok_def by linarith
      moreover have "pull_until br n = pull_until b1 n"
        by (subst pull_until.simps) (use True b1 in simp)
      ultimately show ?thesis using "1.IH" [OF True, of "(True, b1)"] b1 1
        by (auto intro: br_same_trans)
    qed
  qed
qed

lemma BrotliTakeBits_spec:
  assumes ok: "br_ok br" and n: "unat n \<le> 32" "unat n \<le> 64 - unat (br_bit_pos br)"
    and p: "unat (br_bit_pos br) < 64"
  shows "\<exists>v br'. BrotliTakeBits br n = Some (v, br') \<and> br_ok br' \<and> br_same br br' \<and>
           unat v = bits_val (take (unat n) (br_bits br)) \<and> br_bits br' = drop (unat n) (br_bits br) \<and>
           br' = br\<lparr>br_bit_pos := br_bit_pos br + n\<rparr> \<and>
           unat (br_bit_pos br') = unat (br_bit_pos br) + unat n"
proof -
  define pos where "pos = unat (br_bit_pos br)"
  define v :: uint32 where "v = ucast (drop_bit pos (br_val br)) AND mask (unat n)"
  define br' where "br' = br\<lparr>br_bit_pos := br_bit_pos br + n\<rparr>"
  have take: "BrotliTakeBits br n = Some (v, br')"
    using p n by (simp add: BrotliTakeBits_def BrotliGetBitsUnmasked_def BrotliDropBits_def
        BitMask_mask word_less_nat_alt v_def br'_def pos_def)
  have pos': "unat (br_bit_pos br') = pos + unat n"
    using n p by (simp add: br'_def pos_def unat_word_ariths)
  have le: "pos + unat n \<le> 64" using n p by (simp add: pos_def)
  have "take (unat n) (br_bits br) = word_bits (br_val br) pos (pos + unat n)"
    using le n by (simp add: br_bits_def pos_def [symmetric] take_word_bits)
  then have "bits_val (take (unat n) (br_bits br)) = take_bit (unat n) (unat (drop_bit pos (br_val br)))"
    by (simp add: bits_val_word_bits)
  also have "\<dots> = unat v"
  proof (rule bit_eqI)
    fix i
    show "bit (take_bit (unat n) (unat (drop_bit pos (br_val br)))) i = bit (unat v) i"
      using n(1) by (auto simp: v_def bit_simps unat_bit_iff dest: bit_imp_le_length)
  qed
  finally have v: "unat v = bits_val (take (unat n) (br_bits br))" ..
  have "br_bits br' = drop (unat n) (br_bits br)"
    using n pos' by (simp add: br_bits_def pos_def [symmetric] drop_word_bits br'_def br_rest_def)
  moreover have "br_linked br'" using ok pos'
    by (auto simp: br_ok_def br'_def pos_def intro: br_linked_advance)
  then have "br_ok br'" using ok pos' n p by (simp add: br_ok_def br'_def pos_def)
  ultimately show ?thesis using take v pos' by (auto simp: br'_def br_same_def pos_def)
qed

section \<open>The readers deliver the bit string\<close>

text \<open>
  The contract of a reader of \<open>n\<close> bits: where \<open>ready\<close> holds and the stream is long enough it returns
  the next \<open>n\<close> bits as a number and the rest as the new stream; a \<open>bit_source\<close> also says what happens
  on a short stream: it reports failure and loses nothing.
\<close>

locale bit_taker =
  fixes rd :: "'s \<Rightarrow> uint32 \<Rightarrow> (uint32 option \<times> 's) option"
    and stream :: "'s \<Rightarrow> bits"
    and ok :: "'s \<Rightarrow> bool"
    and ready :: "'s \<Rightarrow> uint32 \<Rightarrow> bool"
  assumes rd_enough: "\<lbrakk>ok s; ready s n; unat n \<le> length (stream s)\<rbrakk> \<Longrightarrow>
      \<exists>v s'. rd s n = Some (Some v, s') \<and> ok s' \<and> unat v = bits_val (take (unat n) (stream s)) \<and>
        stream s' = drop (unat n) (stream s)"
begin

text \<open>Reading back a number that was written with \<open>n\<close> bits.\<close>

lemma rd_val_bits:
  assumes "ok s" and "ready s n" and "stream s = val_bits (unat n) x @ rest" and "x < 2 ^ unat n"
  shows "\<exists>v s'. rd s n = Some (Some v, s') \<and> ok s' \<and> unat v = x \<and> stream s' = rest"
proof -
  have "unat n \<le> length (stream s)" using assms(3) by simp
  from rd_enough [OF assms(1,2) this] show ?thesis using assms(3,4) by auto
qed

lemma rd_enoughE:
  assumes "ok s" and "ready s n" and "unat n \<le> length (stream s)"
  obtains v s' where "rd s n = Some (Some v, s')" "ok s'"
    "unat v = bits_val (take (unat n) (stream s))" "stream s' = drop (unat n) (stream s)"
    "unat v < 2 ^ unat n"
proof -
  obtain v s' where r: "rd s n = Some (Some v, s')" "ok s'"
    "unat v = bits_val (take (unat n) (stream s))" "stream s' = drop (unat n) (stream s)"
    using rd_enough [OF assms] by blast
  have "unat v < 2 ^ unat n"
    using bits_val_less [of "take (unat n) (stream s)"] r(3) assms(3) by simp
  with r that show ?thesis by blast
qed

end

locale bit_source = bit_taker +
  assumes rd_short: "\<lbrakk>ok s; ready s n; length (stream s) < unat n\<rbrakk> \<Longrightarrow>
      \<exists>s'. rd s n = Some (None, s') \<and> ok s' \<and> stream s' = stream s"
begin

lemma rd_total: "ok s \<Longrightarrow> ready s n \<Longrightarrow> \<exists>r s'. rd s n = Some (r, s') \<and> ok s'"
  using rd_enough rd_short by (metis not_less)

lemma rd_success_iff:
  assumes "ok s" and "ready s n" and "rd s n = Some (r, s')"
  shows "r \<noteq> None \<longleftrightarrow> unat n \<le> length (stream s)"
  using rd_enough [OF assms(1,2)] rd_short [OF assms(1,2)] assms(3)
  by (cases "unat n \<le> length (stream s)") auto

lemma rd_cases [consumes 2, case_names enough short]:
  assumes "ok s" and "ready s n"
  obtains (enough) v s' where "rd s n = Some (Some v, s')" "ok s'" "unat n \<le> length (stream s)"
      "unat v = bits_val (take (unat n) (stream s))" "stream s' = drop (unat n) (stream s)"
      "unat v < 2 ^ unat n"
    | (short) s' where "rd s n = Some (None, s')" "ok s'" "length (stream s) < unat n"
      "stream s' = stream s"
proof (cases "unat n \<le> length (stream s)")
  case True
  then show ?thesis using rd_enoughE [OF assms True] enough by blast
next
  case False
  then show ?thesis using rd_short [OF assms] short by (meson not_less)
qed

end

text \<open>The safe readers: every stream, up to 32 bits.\<close>

definition br_ready :: "BrotliBitReader \<Rightarrow> uint32 \<Rightarrow> bool" where
  "br_ready br n \<longleftrightarrow> 0 < n \<and> n \<le> 32"

lemma br_readyD: "br_ready br n \<Longrightarrow> 0 < unat n \<and> unat n \<le> 32"
  by (simp add: br_ready_def word_le_nat_alt word_less_nat_alt unat_gt_0)

lemma BrotliSafeReadBits_spec:
  assumes "br_ok br" and "br_ready br n"
  shows "\<exists>r br'. BrotliSafeReadBits br n = Some (r, br') \<and> br_ok br' \<and> br_same br br' \<and>
           (if unat n \<le> length (br_bits br)
            then (\<exists>v. r = Some v \<and> unat v = bits_val (take (unat n) (br_bits br))) \<and>
                 br_bits br' = drop (unat n) (br_bits br)
            else r = None \<and> br_bits br' = br_bits br \<and> avail_in br' = 0)"
proof -
  have n: "0 < unat n" "unat n \<le> 32" using br_readyD [OF assms(2)] by simp_all
  obtain b1 where b1: "pull_until br n = Some (unat n \<le> length (br_bits br), b1)" "br_ok b1"
      "br_same br b1" "br_bits b1 = br_bits br"
      "if unat n \<le> length (br_bits br) then unat n \<le> 64 - unat (br_bit_pos b1) else avail_in b1 = 0"
    using pull_until_spec [OF assms(1) n(2)] by blast
  show ?thesis
  proof (cases "unat n \<le> length (br_bits br)")
    case True
    then have p: "unat n \<le> 64 - unat (br_bit_pos b1)" "unat (br_bit_pos b1) < 64"
      using b1(5) n(1) by auto
    obtain v b2 where "BrotliTakeBits b1 n = Some (v, b2)" "br_ok b2" "br_same b1 b2"
        "unat v = bits_val (take (unat n) (br_bits b1))" "br_bits b2 = drop (unat n) (br_bits b1)"
      using BrotliTakeBits_spec [OF b1(2) n(2) p] by blast
    then show ?thesis using b1 True
      by (auto simp: BrotliSafeReadBits_def intro: br_same_trans)
  next
    case False
    then show ?thesis using b1 by (simp add: BrotliSafeReadBits_def)
  qed
qed

interpretation safe: bit_source BrotliSafeReadBits br_bits br_ok br_ready
proof
  fix br n assume "br_ok br" "br_ready br n"
  note spec = BrotliSafeReadBits_spec [OF this]
  show "unat n \<le> length (br_bits br) \<Longrightarrow> \<exists>v br'. BrotliSafeReadBits br n = Some (Some v, br') \<and> br_ok br' \<and>
      unat v = bits_val (take (unat n) (br_bits br)) \<and> br_bits br' = drop (unat n) (br_bits br)"
    using spec by auto
  show "length (br_bits br) < unat n \<Longrightarrow>
      \<exists>br'. BrotliSafeReadBits br n = Some (None, br') \<and> br_ok br' \<and> br_bits br' = br_bits br"
    using spec by auto
qed

lemma BrotliSafeReadBits32_eq: "BrotliSafeReadBits32 = BrotliSafeReadBits"
  by (intro ext) (simp add: BrotliSafeReadBits32_def BrotliSafeReadBits_def)

interpretation safe32: bit_source BrotliSafeReadBits32 br_bits br_ok br_ready
  unfolding BrotliSafeReadBits32_eq by (rule safe.bit_source_axioms)

section \<open>The fast readers\<close>

text \<open>
  \<open>BrotliFillBitWindow\<close> subtracts from the bit position with an exclusive or; that is a subtraction
  only while the accumulator holds at least one bit, the precondition the source states.
\<close>

definition br_warm :: "BrotliBitReader \<Rightarrow> bool" where
  "br_warm br \<longleftrightarrow> br_ok br \<and> unat (br_bit_pos br) < 64"

lemma xor_is_minus:
  "\<forall>m \<in> set [32..<64]. unat ((of_nat m :: uint32) XOR 32) = m - 32"
  "\<forall>m \<in> set [48..<64]. unat ((of_nat m :: uint32) XOR 48) = m - 48"
  "\<forall>m \<in> set [56..<64]. unat ((of_nat m :: uint32) XOR 56) = m - 56"
  by code_simp+

lemma xor_bit_pos:
  assumes "k \<in> {4, 6, 7}" and "8 * k \<le> unat p" and "unat (p :: uint32) < 64"
  shows "unat (p XOR of_nat (8 * k)) = unat p - 8 * k"
proof -
  have m: "unat p \<in> set [8 * k..<64]" using assms by simp
  have p: "p = of_nat (unat p)" by simp
  consider "k = 4" | "k = 6" | "k = 7" using assms(1) by blast
  then show ?thesis
  proof cases
    case 1
    then show ?thesis using bspec [OF xor_is_minus(1), of "unat p"] m by (simp del: upt_rec_numeral)
  next
    case 2
    then show ?thesis using bspec [OF xor_is_minus(2), of "unat p"] m by (simp del: upt_rec_numeral)
  next
    case 3
    then show ?thesis using bspec [OF xor_is_minus(3), of "unat p"] m by (simp del: upt_rec_numeral)
  qed
qed

lemma xor_bit_pos_full: "unat ((64 :: uint32) XOR 56) = 120"
  by simp

lemma br_load_spec:
  assumes "br_ok br" and "n \<le> avail_in br" and "k \<le> n" and "n \<le> 8"
  shows "\<exists>w. br_load n br = Some w \<and> word_bits w 0 (8 * k) = bytes_bits (take k (br_rest br))"
proof -
  have nx: "next_in br + n \<le> length (input br)" using assms by (simp add: br_ok_def)
  have "word_bits (le_word (take n (drop (next_in br) (input br))) :: uint64) 0 (8 * k)
      = bytes_bits (take k (take n (drop (next_in br) (input br))))"
    by (rule word_bits_le_word) (use assms nx in simp_all)
  also have "take k (take n (drop (next_in br) (input br))) = take k (br_rest br)"
    using assms by (simp add: br_rest_def min_def)
  finally show ?thesis using nx by (simp add: br_load_def)
qed

lemma br_refill_spec:
  assumes warm: "br_warm br" and a: "ld \<le> avail_in br" and k: "k \<in> {4, 6, 7}" "k \<le> ld" "ld \<le> 8"
    and p: "8 * k \<le> unat (br_bit_pos br)"
  shows "\<exists>br'. br_refill ld k br = Some br' \<and> br_warm br' \<and> br_same br br' \<and>
           br_bits br' = br_bits br \<and> unat (br_bit_pos br') = unat (br_bit_pos br) - 8 * k \<and>
           avail_in br' = avail_in br - k"
proof -
  have ok: "br_ok br" and p64: "unat (br_bit_pos br) < 64" using warm by (simp_all add: br_warm_def)
  obtain w where w: "br_load ld br = Some w" "word_bits w 0 (8 * k) = bytes_bits (take k (br_rest br))"
    using br_load_spec [OF ok a k(2,3)] by blast
  define br' where "br' = br\<lparr>br_val := drop_bit (8 * k) (br_val br) OR push_bit (64 - 8 * k) w,
      br_bit_pos := br_bit_pos br XOR of_nat (8 * k),
      avail_in := avail_in br - k, next_in := next_in br + k\<rparr>"
  have up: "unat (br_bit_pos br') = unat (br_bit_pos br) - 8 * k"
    using xor_bit_pos [OF k(1) p p64] by (simp add: br'_def)
  have "br_ok br' \<and> br_same br br' \<and> br_bits br' = br_bits br"
    by (rule shift_in_bits [OF ok p _ w(2) _ up]) (use a k in \<open>simp_all add: br'_def\<close>)
  moreover have "br_refill ld k br = Some br'"
    using a k w by (simp add: br_refill_def br'_def)
  ultimately show ?thesis using up p64 by (simp add: br_warm_def br'_def)
qed

text \<open>
  After a fill with at least 8 readable bytes the accumulator holds more than \<open>n_bits\<close> bits, and the
  bit string is unchanged.
\<close>

lemma BrotliFillBitWindow_spec:
  assumes warm: "br_warm br" and a: "8 \<le> avail_in br" and n: "unat n \<le> 32"
  shows "\<exists>br'. BrotliFillBitWindow c br n = Some br' \<and> br_warm br' \<and> br_same br br' \<and>
           br_bits br' = br_bits br \<and> unat n < 64 - unat (br_bit_pos br') \<and>
           avail_in br \<le> avail_in br' + 7"
proof -
  note unfold = BrotliFillBitWindow_def word_le_nat_alt
  consider "c" "unat n \<le> 8" | "c" "8 < unat n" "unat n \<le> 16" | "\<not> c \<or> 16 < unat n" by linarith
  then show ?thesis
  proof cases
    case 1
    then show ?thesis using br_refill_spec [OF warm a, of 7] warm
      by (cases "56 \<le> unat (br_bit_pos br)") (auto simp: unfold br_warm_def)
  next
    case 2
    then show ?thesis using br_refill_spec [OF warm a, of 6] warm
      by (cases "48 \<le> unat (br_bit_pos br)") (auto simp: unfold br_warm_def)
  next
    case 3
    then have f: "BrotliFillBitWindow c br n = (if 32 \<le> unat (br_bit_pos br) then br_refill 4 4 br else Some br)"
      by (auto simp: unfold)
    show ?thesis
    proof (cases "32 \<le> unat (br_bit_pos br)")
      case True
      have "4 \<le> avail_in br" using a by simp
      then show ?thesis using br_refill_spec [OF warm, of 4 4] True n warm
        by (auto simp: f br_warm_def)
    next
      case False
      then show ?thesis using n warm by (simp add: f)
    qed
  qed
qed

lemma BrotliReadBits24_spec:
  assumes "br_warm br" and "8 \<le> avail_in br" and n: "unat n \<le> 32"
  shows "\<exists>v br'. BrotliReadBits24 br n = Some (v, br') \<and> br_warm br' \<and> br_same br br' \<and>
           unat v = bits_val (take (unat n) (br_bits br)) \<and> br_bits br' = drop (unat n) (br_bits br) \<and>
           avail_in br \<le> avail_in br' + 7"
proof -
  obtain b1 where b1: "BrotliFillBitWindow False br n = Some b1" "br_warm b1" "br_same br b1"
      "br_bits b1 = br_bits br" "unat n < 64 - unat (br_bit_pos b1)" "avail_in br \<le> avail_in b1 + 7"
    using BrotliFillBitWindow_spec [OF assms] by blast
  obtain v b2 where b2: "BrotliTakeBits b1 n = Some (v, b2)" "br_ok b2" "br_same b1 b2"
      "unat v = bits_val (take (unat n) (br_bits b1))" "br_bits b2 = drop (unat n) (br_bits b1)"
      "b2 = b1\<lparr>br_bit_pos := br_bit_pos b1 + n\<rparr>" "unat (br_bit_pos b2) = unat (br_bit_pos b1) + unat n"
    using BrotliTakeBits_spec [of b1 n] b1 n by (auto simp: br_warm_def)
  have "br_warm b2" "avail_in b2 = avail_in b1" using b2 b1 by (auto simp: br_warm_def)
  then show ?thesis using b1 b2
    by (auto simp: BrotliReadBits24_def intro: br_same_trans)
qed

lemma BrotliReadBits32_eq: "BrotliReadBits32 = BrotliReadBits24"
  by (intro ext) (simp add: BrotliReadBits32_def BrotliReadBits24_def)

definition fast_read :: "BrotliBitReader \<Rightarrow> uint32 \<Rightarrow> (uint32 option \<times> BrotliBitReader) option" where
  "fast_read br n = map_option (\<lambda>(v, br). (Some v, br)) (BrotliReadBits24 br n)"

definition fast_ready :: "BrotliBitReader \<Rightarrow> uint32 \<Rightarrow> bool" where
  "fast_ready br n \<longleftrightarrow> 8 \<le> avail_in br \<and> unat n \<le> 32"

interpretation fast: bit_taker fast_read br_bits br_warm fast_ready
proof
  fix br n assume "br_warm br" "fast_ready br n" "unat n \<le> length (br_bits br)"
  then show "\<exists>v br'. fast_read br n = Some (Some v, br') \<and> br_warm br' \<and>
      unat v = bits_val (take (unat n) (br_bits br)) \<and> br_bits br' = drop (unat n) (br_bits br)"
    using BrotliReadBits24_spec [of br n] by (auto simp: fast_read_def fast_ready_def)
qed

lemma BrotliGet16BitsUnmasked_spec:
  assumes "br_warm br" and "8 \<le> avail_in br"
  shows "\<exists>v br'. BrotliGet16BitsUnmasked br = Some (v, br') \<and> br_warm br' \<and> br_same br br' \<and>
           br_bits br' = br_bits br \<and> 16 < 64 - unat (br_bit_pos br') \<and>
           avail_in br \<le> avail_in br' + 7 \<and>
           (\<forall>k \<le> 16. bits_val (take k (br_bits br)) = take_bit k (unat v))"
proof -
  obtain b1 where b1: "BrotliFillBitWindow True br 16 = Some b1" "br_warm b1" "br_same br b1"
      "br_bits b1 = br_bits br" "16 < 64 - unat (br_bit_pos b1)" "avail_in br \<le> avail_in b1 + 7"
    using BrotliFillBitWindow_spec [OF assms, of 16 True] by auto
  define v :: uint32 where "v = ucast (drop_bit (unat (br_bit_pos b1)) (br_val b1))"
  have g: "BrotliGet16BitsUnmasked br = Some (v, b1)"
    using b1 by (simp add: BrotliGet16BitsUnmasked_def BrotliGetBitsUnmasked_def v_def
        br_warm_def word_less_nat_alt)
  have "bits_val (take k (br_bits br)) = take_bit k (unat v)" if "k \<le> 16" for k
  proof -
    have "take k (br_bits b1) = word_bits (br_val b1) (unat (br_bit_pos b1)) (unat (br_bit_pos b1) + k)"
      using that b1(5) by (simp add: br_bits_def take_word_bits)
    then have "bits_val (take k (br_bits b1)) = take_bit k (unat (drop_bit (unat (br_bit_pos b1)) (br_val b1)))"
      by (simp add: bits_val_word_bits)
    also have "\<dots> = take_bit k (unat v)"
      by (rule bit_eqI) (use that in \<open>auto simp: v_def bit_simps unat_bit_iff dest: bit_imp_le_length\<close>)
    finally show ?thesis using b1 by simp
  qed
  with g b1 show ?thesis by blast
qed

section \<open>Peeking, warm-up, alignment\<close>

lemma BrotliSafeGetBits_spec:
  assumes "br_ok br" and "br_ready br n"
  shows "\<exists>r br'. BrotliSafeGetBits br n = Some (r, br') \<and> br_ok br' \<and> br_same br br' \<and>
           br_bits br' = br_bits br \<and>
           (if unat n \<le> length (br_bits br)
            then (\<exists>v. r = Some v \<and> unat v = bits_val (take (unat n) (br_bits br))) \<and>
                 unat n \<le> 64 - unat (br_bit_pos br')
            else r = None \<and> avail_in br' = 0)"
proof -
  have n: "0 < unat n" "unat n \<le> 32" using br_readyD [OF assms(2)] by simp_all
  obtain b1 where b1: "pull_until br n = Some (unat n \<le> length (br_bits br), b1)" "br_ok b1"
      "br_same br b1" "br_bits b1 = br_bits br"
      "if unat n \<le> length (br_bits br) then unat n \<le> 64 - unat (br_bit_pos b1) else avail_in b1 = 0"
    using pull_until_spec [OF assms(1) n(2)] by blast
  show ?thesis
  proof (cases "unat n \<le> length (br_bits br)")
    case True
    then have p: "unat n \<le> 64 - unat (br_bit_pos b1)" "unat (br_bit_pos b1) < 64"
      using b1(5) n(1) by auto
    obtain v b2 where t: "BrotliTakeBits b1 n = Some (v, b2)"
        "unat v = bits_val (take (unat n) (br_bits b1))"
      using BrotliTakeBits_spec [OF b1(2) n(2) p] by blast
    have "BrotliSafeGetBits br n = Some (Some v, b1)"
      using t b1 True by (auto simp: BrotliSafeGetBits_def BrotliTakeBits_def bind_Some_iff)
    then show ?thesis using b1 True p t by auto
  next
    case False
    then show ?thesis using b1 by (simp add: BrotliSafeGetBits_def)
  qed
qed

lemma BrotliDropBits_spec:
  assumes "br_ok br" and "unat n \<le> 64 - unat (br_bit_pos br)"
  shows "br_ok (BrotliDropBits br n) \<and> br_same br (BrotliDropBits br n) \<and>
    br_bits (BrotliDropBits br n) = drop (unat n) (br_bits br) \<and>
    unat (br_bit_pos (BrotliDropBits br n)) = unat (br_bit_pos br) + unat n"
proof -
  have p: "unat (br_bit_pos br) \<le> 64" using assms by (simp add: br_ok_def)
  then have "unat (br_bit_pos br + n) = unat (br_bit_pos br) + unat n"
    using assms(2) by (simp add: unat_word_ariths)
  then show ?thesis using assms p
    by (auto simp: BrotliDropBits_def br_ok_def br_same_def br_bits_def br_rest_def drop_word_bits
        intro: br_linked_advance)
qed

lemma BrotliWarmupBitReader_spec:
  assumes "br_ok br"
  shows "\<exists>br'. BrotliWarmupBitReader br = Some (br_bits br \<noteq> [], br') \<and> br_ok br' \<and> br_same br br' \<and>
    br_bits br' = br_bits br \<and> (br_bits br \<noteq> [] \<longrightarrow> br_warm br')"
proof (cases "unat (br_bit_pos br) = 64")
  case False
  then have "br_bits br \<noteq> []" "br_warm br" "BrotliGetAvailableBits br \<noteq> 0"
    using assms by (auto simp: br_bits_def br_warm_def br_ok_def avail_bits_eq_0_iff word_bits_def)
  then show ?thesis using assms by (simp add: BrotliWarmupBitReader_def)
next
  case True
  then have z: "BrotliGetAvailableBits br = 0" using assms by (simp add: avail_bits_eq_0_iff)
  show ?thesis
  proof (cases "avail_in br = 0")
    case e: True
    then have "br_bits br = []" using True by (simp add: br_bits_def br_rest_def word_bits_def)
    then show ?thesis using z e assms by (simp add: BrotliWarmupBitReader_def BrotliPullByte_empty)
  next
    case False
    then obtain b1 where b1: "BrotliPullByte br = Some (True, b1)" "br_ok b1" "br_same br b1"
      "br_bits b1 = br_bits br" "unat (br_bit_pos b1) = unat (br_bit_pos br) - 8"
      using BrotliPullByte_spec [OF assms] True by auto
    have "length (br_bits br) \<noteq> 0" using assms True False by (simp add: length_br_bits)
    then show ?thesis using z b1 True by (auto simp: BrotliWarmupBitReader_def br_warm_def)
  qed
qed

lemma and_7_mod_8: "unat (w AND 0x7 :: uint32) = unat w mod 8"
proof -
  have "(0x7 :: uint32) = mask 3" by (simp add: mask_eq_exp_minus_1)
  then have "unat (w AND 0x7) = take_bit 3 (unat w)"
    by (metis take_bit_eq_mask unsigned_take_bit_eq)
  then show ?thesis by (simp add: take_bit_eq_mod)
qed

lemma BrotliJumpToByteBoundary_spec:
  assumes ok: "br_ok br"
  defines "pad \<equiv> (64 - unat (br_bit_pos br)) mod 8"
  shows "\<exists>br'. BrotliJumpToByteBoundary br = Some (bits_val (take pad (br_bits br)) = 0, br') \<and>
    br_ok br' \<and> br_same br br' \<and> br_bits br' = drop pad (br_bits br) \<and>
    unat (br_bit_pos br') = unat (br_bit_pos br) + pad"
proof -
  define n where "n = BrotliGetAvailableBits br AND 0x7"
  have n: "unat n = pad" by (simp add: n_def pad_def and_7_mod_8 unat_avail_bits [OF ok])
  show ?thesis
  proof (cases "n = 0")
    case True
    then show ?thesis using n ok by (simp add: BrotliJumpToByteBoundary_def n_def [symmetric] Let_def)
  next
    case False
    then have "pad \<noteq> 0" using n by (metis unat_eq_zero)
    then have p: "unat n \<le> 32" "unat n \<le> 64 - unat (br_bit_pos br)" "unat (br_bit_pos br) < 64"
      using n by (auto simp: pad_def)
    obtain v b1 where t: "BrotliTakeBits br n = Some (v, b1)" "br_ok b1" "br_same br b1"
      "unat v = bits_val (take (unat n) (br_bits br))" "br_bits b1 = drop (unat n) (br_bits br)"
      "unat (br_bit_pos b1) = unat (br_bit_pos br) + unat n"
      using BrotliTakeBits_spec [OF ok p] by blast
    have "(v = 0) = (bits_val (take pad (br_bits br)) = 0)" using t(4) n by (metis unat_eq_zero)
    then show ?thesis using t n False
      by (simp add: BrotliJumpToByteBoundary_def n_def [symmetric] Let_def)
  qed
qed

section \<open>Giving bits back and copying bytes\<close>

lemma unat_drop_3: "unat (drop_bit 3 (w :: uint32)) = unat w div 8"
  by (simp add: drop_bit_eq_div unat_div)

lemma word_bits_push:
  assumes "u \<le> 64" and "p + u \<le> 64"
  shows "word_bits (push_bit u (v :: uint64)) (p + u) 64 = word_bits v p (64 - u)"
  by (rule nth_equalityI) (use assms in \<open>auto simp: word_bits_def bit_simps\<close>)

lemma BrotliBitReaderUnload_spec:
  assumes ok: "br_ok br"
  shows "\<exists>br'. BrotliBitReaderUnload br = Some br' \<and> br_ok br' \<and> br_same br br' \<and>
    br_bits br' = br_bits br \<and> 64 - unat (br_bit_pos br') = (64 - unat (br_bit_pos br)) mod 8"
proof -
  have l: "br_linked br" using ok by (simp add: br_ok_def)
  define k where "k = acc_bytes br"
  define p where "p = unat (br_bit_pos br)"
  have p64: "p \<le> 64" using ok by (simp add: br_ok_def p_def)
  have k: "k = (64 - p) div 8" "8 * k \<le> 64 - p" "k \<le> 8" using p64 by (auto simp: k_def acc_bytes_def p_def)
  have ub: "unat (drop_bit 3 (BrotliGetAvailableBits br)) = k"
    by (simp add: unat_drop_3 unat_avail_bits [OF ok] k p_def)
  then have ubw: "drop_bit 3 (BrotliGetAvailableBits br) = of_nat k"
    by (simp add: word_eq_iff_unsigned unat_of_nat take_bit_nat_eq_self flip: ub)
  have us: "unat (push_bit 3 (of_nat k :: uint32)) = 8 * k"
    using k(3) by (simp add: push_bit_eq_mult unat_word_ariths unat_of_nat)
  have kn: "k \<le> next_in br" using l by (simp add: br_linked_def k_def)
  define br' where "br' = br\<lparr>avail_in := avail_in br + k, next_in := next_in br - k,
      br_val := (if push_bit 3 (of_nat k :: uint32) = 64 then 0 else push_bit (8 * k) (br_val br)),
      br_bit_pos := br_bit_pos br + push_bit 3 (of_nat k)\<rparr>"
  have un: "BrotliBitReaderUnload br = Some br'"
    using kn k(3) us by (simp add: BrotliBitReaderUnload_def Let_def ubw unat_of_nat br'_def)
  have p': "unat (br_bit_pos br') = p + 8 * k"
    using k(2) p64 us by (simp add: br'_def p_def unat_word_ariths)
  have v: "br_val br' = push_bit (8 * k) (br_val br)"
  proof (cases "push_bit 3 (of_nat k :: uint32) = 64")
    case True
    then have "unat (push_bit 3 (of_nat k :: uint32)) = 64" by simp
    then have "k = 8" using us by simp
    moreover have "push_bit 64 (br_val br) = 0" by (rule bit_word_eqI) (simp add: bit_simps)
    ultimately show ?thesis using True by (simp add: br'_def)
  qed (simp add: br'_def)
  have rest: "br_rest br' = take k (drop (next_in br - k) (input br)) @ br_rest br"
    using kn by (simp add: br_rest_def br'_def add.commute take_add)
  have "br_bits br' = word_bits (br_val br) p (64 - 8 * k) @ bytes_bits (br_rest br')"
    using word_bits_push [of "8 * k" p "br_val br"] k p64 by (simp add: br_bits_def p' v)
  also have "bytes_bits (br_rest br') = word_bits (br_val br) (64 - 8 * k) 64 @ bytes_bits (br_rest br)"
    using l by (simp add: rest br_linked_def k_def)
  also have "word_bits (br_val br) p (64 - 8 * k) @ word_bits (br_val br) (64 - 8 * k) 64 @ bytes_bits (br_rest br)
      = br_bits br"
    using word_bits_append [of p "64 - 8 * k" 64 "br_val br"] k p64
    by (simp add: br_bits_def p_def flip: append_assoc)
  finally have "br_bits br' = br_bits br" .
  moreover have "br_ok br' \<and> br_same br br'"
  proof -
    have "br_linked br'" using k p' p64 by (auto simp: br_linked_def acc_bytes_def word_bits_def)
    moreover have "p + 8 * k \<le> 64" using k p64 by linarith
    ultimately show ?thesis using ok kn p' by (auto simp: br_ok_def br_same_def br'_def)
  qed
  moreover have "64 - (p + 8 * k) = (64 - p) mod 8"
    using k by (simp add: minus_mult_div_eq_mod [symmetric])
  ultimately show ?thesis using un p' by (simp add: p_def)
qed

text \<open>On a byte boundary \<open>BrotliCopyBytes\<close> delivers exactly the next \<open>num\<close> bytes.\<close>

lemma copy_acc_bytes_spec:
  assumes "br_ok br" and "(64 - unat (br_bit_pos br)) mod 8 = 0" and "dest + num \<le> length dst"
  shows "\<exists>xs br' num'. copy_acc_bytes dst dest br num =
      Some (take dest dst @ xs @ drop (dest + length xs) dst, dest + length xs, br', num') \<and>
    num = length xs + num' \<and> br_ok br' \<and> br_same br br' \<and> next_in br' = next_in br \<and>
    (64 - unat (br_bit_pos br')) mod 8 = 0 \<and>
    br_bits br = bytes_bits xs @ br_bits br' \<and> (num' = 0 \<or> unat (br_bit_pos br') = 64)"
  using assms
proof (induction dst dest br num rule: copy_acc_bytes.induct)
  case (1 dst dest br)
  then show ?case by (intro exI [of _ "[]"]) auto
next
  case (2 dst dest br num)
  have av: "unat (BrotliGetAvailableBits br) = 64 - unat (br_bit_pos br)" using 2 by (simp add: unat_avail_bits)
  show ?case
  proof (cases "BrotliGetAvailableBits br \<ge> 8")
    case False
    then have "\<not> 8 \<le> 64 - unat (br_bit_pos br)" using av by (simp add: word_le_nat_alt)
    then have "64 - unat (br_bit_pos br) = 0" using 2(3) by presburger
    then show ?thesis using False 2 by (intro exI [of _ "[]"]) (auto simp: br_ok_def)
  next
    case True
    then have a8: "8 \<le> 64 - unat (br_bit_pos br)" using av by (simp add: word_le_nat_alt)
    define b :: uint8 where "b = ucast (drop_bit (unat (br_bit_pos br)) (br_val br))"
    define br1 where "br1 = BrotliDropBits br 8"
    have g: "BrotliGetBitsUnmasked br = Some (drop_bit (unat (br_bit_pos br)) (br_val br))"
      using a8 by (simp add: BrotliGetBitsUnmasked_def word_less_nat_alt)
    have br1: "br_ok br1" "br_same br br1" "br_bits br1 = drop 8 (br_bits br)"
      "unat (br_bit_pos br1) = unat (br_bit_pos br) + 8" "next_in br1 = next_in br"
      using BrotliDropBits_spec [of br 8] 2(2) a8 by (simp_all add: br1_def BrotliDropBits_def)
    have "byte_bits b = word_bits (br_val br) (unat (br_bit_pos br)) (unat (br_bit_pos br) + 8)"
      by (rule nth_equalityI) (auto simp: byte_bits_def word_bits_def b_def bit_simps)
    then have bits: "br_bits br = byte_bits b @ br_bits br1"
      using a8 br1(3) append_take_drop_id [of 8 "br_bits br"] by (simp add: br_bits_def take_word_bits)
    have m: "(64 - unat (br_bit_pos br1)) mod 8 = 0" using br1(4) a8 2(3) by presburger
    have st: "arr_set dst dest (ucast (drop_bit (unat (br_bit_pos br)) (br_val br))) = Some (dst[dest := b])"
      using 2(4) by (simp add: b_def)
    have le: "dest + 1 + num \<le> length (dst[dest := b])" using 2(4) by simp
    obtain xs br' num' where IH: "copy_acc_bytes (dst[dest := b]) (dest + 1) br1 num =
        Some (take (dest + 1) (dst[dest := b]) @ xs @ drop (dest + 1 + length xs) (dst[dest := b]),
              dest + 1 + length xs, br', num')"
      "num = length xs + num'" "br_ok br'" "br_same br1 br'" "next_in br' = next_in br1"
      "(64 - unat (br_bit_pos br')) mod 8 = 0"
      "br_bits br1 = bytes_bits xs @ br_bits br'" "num' = 0 \<or> unat (br_bit_pos br') = 64"
      using "2.IH" [OF True g st, folded br1_def, OF br1(1) m le] by (elim exE conjE) (rule that)
    have "take (dest + 1) (dst[dest := b]) @ xs @ drop (dest + 1 + length xs) (dst[dest := b])
        = take dest dst @ (b # xs) @ drop (dest + length (b # xs)) dst"
      using 2(4) by (simp add: take_Suc_conv_app_nth)
    moreover have "copy_acc_bytes dst dest br (Suc num) = copy_acc_bytes (dst[dest := b]) (dest + 1) br1 num"
      using True g 2(4) by (simp add: b_def br1_def)
    ultimately have "copy_acc_bytes dst dest br (Suc num)
        = Some (take dest dst @ (b # xs) @ drop (dest + length (b # xs)) dst, dest + length (b # xs), br', num')"
      using IH(1) by simp
    moreover have "br_same br br'" using IH(4) br1(2) by (rule br_same_trans [rotated])
    ultimately show ?thesis using IH(2-) bits br1(5)
      by (intro exI [of _ "b # xs"] exI [of _ br'] exI [of _ num']) simp
  qed
qed

lemma BrotliCopyBytes_spec:
  assumes ok: "br_ok br" and al: "(64 - unat (br_bit_pos br)) mod 8 = 0"
    and num: "num \<le> (64 - unat (br_bit_pos br)) div 8 + avail_in br" and d: "dest + num \<le> length dst"
  shows "\<exists>xs br'. BrotliCopyBytes dst dest br num = Some (take dest dst @ xs @ drop (dest + num) dst, br') \<and>
    length xs = num \<and> bytes_bits xs = take (8 * num) (br_bits br) \<and>
    br_ok br' \<and> br_same br br' \<and> br_bits br' = drop (8 * num) (br_bits br)"
proof -
  obtain xs b1 n1 where c: "copy_acc_bytes dst dest br num =
      Some (take dest dst @ xs @ drop (dest + length xs) dst, dest + length xs, b1, n1)"
    "num = length xs + n1" "br_ok b1" "br_same br b1" "next_in b1 = next_in br"
    "br_bits br = bytes_bits xs @ br_bits b1" "n1 = 0 \<or> unat (br_bit_pos b1) = 64"
    using copy_acc_bytes_spec [OF ok al d] by blast
  have "8 * ((64 - unat (br_bit_pos br)) div 8) = 64 - unat (br_bit_pos br)"
    using al by presburger
  then have "8 * num \<le> length (br_bits br)" using num by (simp add: length_br_bits [OF ok])
  then have n1: "8 * n1 \<le> length (br_bits b1)" using c(2) c(6) by simp
  have a1: "n1 \<le> avail_in b1"
  proof (cases "n1 = 0")
    case False
    then show ?thesis using n1 c(7) by (simp add: length_br_bits [OF c(3)])
  qed simp
  define ys where "ys = take n1 (drop (next_in b1) (input b1))"
  have len: "next_in b1 + n1 \<le> length (input b1)" using c(3) a1 by (simp add: br_ok_def)
  then have ly: "length ys = n1" by (simp add: ys_def)
  define dst1 where "dst1 = take dest dst @ xs @ drop (dest + length xs) dst"
  have ld: "length dst1 = length dst" "take (dest + length xs) dst1 = take dest dst @ xs"
    "drop (dest + length xs + n1) dst1 = drop (dest + num) dst"
    using d c(2) by (simp_all add: dst1_def add.assoc) (simp add: add.left_commute add.commute)
  define br' where "br' = b1\<lparr>avail_in := avail_in b1 - n1, next_in := next_in b1 + n1\<rparr>"
  have cp: "BrotliCopyBytes dst dest br num = Some (take dest dst @ (xs @ ys) @ drop (dest + num) dst, br')"
    using c(1,2) len a1 d ld
    by (simp add: BrotliCopyBytes_def arr_copy_def dst1_def [symmetric] ys_def br'_def)
  have bits: "br_bits b1 = bytes_bits ys @ br_bits br'"
  proof (cases "n1 = 0")
    case True
    then show ?thesis by (simp add: ys_def br'_def)
  next
    case False
    then have "unat (br_bit_pos b1) = 64" using c(7) by simp
    moreover have "br_rest b1 = ys @ br_rest br'"
      using a1 take_add [of n1 "avail_in b1 - n1" "drop (next_in b1) (input b1)"]
      by (simp add: br_rest_def ys_def br'_def add.commute)
    ultimately show ?thesis by (simp add: br_bits_def br'_def word_bits_def)
  qed
  have "br_ok br'"
  proof (cases "n1 = 0")
    case True
    then show ?thesis using c(3) by (simp add: br'_def)
  next
    case False
    then have "unat (br_bit_pos br') = 64" using c(7) by (simp add: br'_def)
    then show ?thesis using c(3) a1 br_linked_drained [of br'] by (simp add: br_ok_def br'_def)
  qed
  moreover have "br_same br br'" using c(4) a1 by (simp add: br_same_def br'_def)
  moreover have "take (8 * num) (br_bits br) = bytes_bits (xs @ ys)" "drop (8 * num) (br_bits br) = br_bits br'"
    using c(2,6) bits ly by (simp_all add: algebra_simps)
  ultimately show ?thesis using cp c(2) ly by (intro exI [of _ "xs @ ys"]) auto
qed

section \<open>The slow 32-bit reader\<close>

definition slow_ready :: "BrotliBitReader \<Rightarrow> uint32 \<Rightarrow> bool" where
  "slow_ready br n \<longleftrightarrow> 24 < n \<and> n \<le> 32"

lemma BrotliBitReaderRestoreState_SaveState [simp]:
  "BrotliBitReaderRestoreState br (BrotliBitReaderSaveState br0) = br0"
  by (simp add: BrotliBitReaderRestoreState_def BrotliBitReaderSaveState_def)

lemma unat_low_or_high:
  fixes low high :: uint32
  assumes "unat low < 2 ^ 16" and "unat high < 2 ^ 16"
  shows "unat (low OR push_bit 16 high) = unat low + 2 ^ 16 * unat high"
proof -
  have "low AND push_bit 16 high = 0"
  proof (rule bit_word_eqI)
    fix i assume "i < LENGTH(32)"
    have "\<not> bit (unat low) i" if "16 \<le> i"
      using that assms(1) by (metis bit_take_bit_iff leD take_bit_nat_eq_self)
    then show "bit (low AND push_bit 16 high) i = bit (0 :: uint32) i"
      by (auto simp: bit_simps unat_bit_iff)
  qed
  then have "low OR push_bit 16 high = low + push_bit 16 high"
    by (simp add: disjunctive_add_eq_or)
  moreover have "unat (push_bit 16 high) = 2 ^ 16 * unat high"
    using assms(2) by (simp add: push_bit_eq_mult unat_word_ariths)
  moreover have "unat low + 2 ^ 16 * unat high < 2 ^ 32" using assms by simp
  ultimately show ?thesis by (simp add: unat_word_ariths)
qed

lemma BrotliSafeReadBits32Slow_spec:
  assumes ok: "br_ok br" and rdy: "slow_ready br n"
  shows "\<exists>r br'. BrotliSafeReadBits32Slow br n = Some (r, br') \<and> br_ok br' \<and>
           (if unat n \<le> length (br_bits br)
            then (\<exists>v. r = Some v \<and> unat v = bits_val (take (unat n) (br_bits br))) \<and>
                 br_bits br' = drop (unat n) (br_bits br)
            else r = None \<and> br' = br)"
proof -
  have n: "24 < unat n" "unat n \<le> 32" using rdy
    by (simp_all add: slow_ready_def word_le_nat_alt word_less_nat_alt)
  then have m: "unat (n - 16) = unat n - 16" by (simp add: unat_sub word_le_nat_alt)
  have u16: "unat (16 :: uint32) = 16" by simp
  have r16: "br_ready br' 16" for br' by (simp add: br_ready_def)
  have rm: "br_ready br' (n - 16)" for br'
    using n m by (simp add: br_ready_def word_le_nat_alt word_less_nat_alt)
  from ok r16 [of br] show ?thesis
  proof (cases rule: safe.rd_cases)
    case (short b1)
    note short = short [unfolded u16]
    then show ?thesis using n ok by (simp add: BrotliSafeReadBits32Slow_def Let_def)
  next
    case (enough low b1)
    note low = enough [unfolded u16]
    from low(2) rm [of b1] show ?thesis
    proof (cases rule: safe.rd_cases)
      case (short b2)
      then show ?thesis using low m n ok by (simp add: BrotliSafeReadBits32Slow_def Let_def)
    next
      case (enough high b2)
      have "(2 :: nat) ^ unat (n - 16) \<le> 2 ^ 16" by (rule power_increasing) (use m n in simp_all)
      then have "unat high < 2 ^ 16" using enough(6) by linarith
      then have v: "unat (low OR push_bit 16 high) = unat low + 2 ^ 16 * unat high"
        using unat_low_or_high low(6) by simp
      have "take (unat n) (br_bits br) = take 16 (br_bits br) @ take (unat n - 16) (br_bits b1)"
        using low(5) n take_add [of 16 "unat n - 16" "br_bits br"] by simp
      then have "unat (low OR push_bit 16 high) = bits_val (take (unat n) (br_bits br))"
        using v low(3,4) enough(4) m by (simp add: bits_val_append)
      moreover have "br_bits b2 = drop (unat n) (br_bits br)" "unat n \<le> length (br_bits br)"
        using low(3,5) enough(3,5) m n by (simp_all add: add.commute)
      ultimately show ?thesis using low enough n
        by (simp add: BrotliSafeReadBits32Slow_def Let_def)
    qed
  qed
qed

interpretation slow32: bit_source BrotliSafeReadBits32Slow br_bits br_ok slow_ready
proof
  fix br n assume "br_ok br" "slow_ready br n"
  note spec = BrotliSafeReadBits32Slow_spec [OF this]
  show "unat n \<le> length (br_bits br) \<Longrightarrow> \<exists>v br'. BrotliSafeReadBits32Slow br n = Some (Some v, br') \<and>
      br_ok br' \<and> unat v = bits_val (take (unat n) (br_bits br)) \<and> br_bits br' = drop (unat n) (br_bits br)"
    using spec by auto
  show "length (br_bits br) < unat n \<Longrightarrow>
      \<exists>br'. BrotliSafeReadBits32Slow br n = Some (None, br') \<and> br_ok br' \<and> br_bits br' = br_bits br"
    using spec by auto
qed

end
