(* ===== verification/Bit_Reader_Properties.thy ===== *)
theory Bit_Reader_Properties
  imports Bit_Reader_Facts
begin

text \<open>
  What the bit reader promises its clients, on the reader of \<^verbatim>\<open>dec/bit_reader.h\<close>.  The stream
  a reader has still to deliver is \<open>br_bits\<close>; \<open>br_ok\<close> is the reader's invariant and \<open>br_warm\<close> adds
  the precondition of the fast operations.  The concrete readers below hold a part of the input in the
  accumulator, so that every theorem is applied where the refill or the unloading has work to do.
\<close>

text \<open>One byte is in the accumulator, five of its bits are left, two bytes follow.\<close>

definition sample_reader :: BrotliBitReader where
  "sample_reader = \<lparr>br_val = 0xA500000000000000, br_bit_pos = 59,
     input = [0xA5, 0x3C, 0x81], next_in = 1, avail_in = 2\<rparr>"

definition sample_fast_reader :: BrotliBitReader where
  "sample_fast_reader = \<lparr>br_val = 0xA500000000000000, br_bit_pos = 59,
     input = [0xA5, 0x3C, 0x81, 1, 2, 3, 4, 5, 6, 7, 8], next_in = 1, avail_in = 10\<rparr>"

lemmas sample_simps = sample_reader_def sample_fast_reader_def br_ok_def br_warm_def br_linked_def
  acc_bytes_def word_bits_def bytes_bits_def byte_bits_def br_bits_def br_rest_def upt_rec

lemma sample_reader_ok: "br_ok sample_reader"
  by code_simp

lemma sample_fast_reader_warm: "br_warm sample_fast_reader"
  by code_simp

section \<open>The safe readers\<close>

text \<open>C12: \<open>BrotliSafeReadBits\<close> with a count of 1..24, the counts it allows, never goes wrong: when the stream still holds
  that many bits it delivers their little-endian value and removes exactly them; otherwise it reports
  failure, has lost none of the bits and has moved the whole input into the accumulator.\<close>

theorem safe_read_refines_stream:
  assumes "br_ok br" and "0 < n" and "n \<le> 24"
  shows "\<exists>r br'. BrotliSafeReadBits br n = Some (r, br') \<and> br_ok br' \<and>
     (if unat n \<le> length (br_bits br)
      then (\<exists>v. r = Some v \<and> unat v = bits_val (take (unat n) (br_bits br))) \<and>
           br_bits br' = drop (unat n) (br_bits br)
      else r = None \<and> br_bits br' = br_bits br \<and> avail_in br' = 0)"
proof -
  have "n \<le> 32" using assms(3) by (simp add: word_le_nat_alt)
  then show ?thesis using BrotliSafeReadBits_spec [of br n] assms(1,2) unfolding br_ready_def by blast
qed

lemma safe_read_refines_stream_witness:
  "\<exists>r br'. BrotliSafeReadBits sample_reader 12 = Some (r, br') \<and> br_ok br' \<and>
     (if unat (12 :: uint32) \<le> length (br_bits sample_reader)
      then (\<exists>v. r = Some v \<and> unat v = bits_val (take (unat (12 :: uint32)) (br_bits sample_reader))) \<and>
           br_bits br' = drop (unat (12 :: uint32)) (br_bits sample_reader)
      else r = None \<and> br_bits br' = br_bits sample_reader \<and> avail_in br' = 0)"
  by (rule safe_read_refines_stream [OF sample_reader_ok]) simp_all

text \<open>C13: The fast and the safe reader agree.  Where the fast one may be called (a warm reader, eight
  bytes of input, a count of 1..24 bits), \<open>BrotliReadBits24\<close> and \<open>BrotliSafeReadBits\<close> return the same value and leave the
  same stream, although one refills four bytes at a time with an exclusive or on the bit position and
  the other byte by byte.\<close>

theorem fast_read_equals_safe_read:
  assumes "br_warm br" and "8 \<le> avail_in br" and "0 < n" and "n \<le> 24"
  shows "\<exists>v br1 br2. BrotliReadBits24 br n = Some (v, br1) \<and>
     BrotliSafeReadBits br n = Some (Some v, br2) \<and> br_bits br1 = br_bits br2 \<and>
     br_warm br1 \<and> br_ok br2"
proof -
  have n: "unat n \<le> 32" "br_ready br n" using assms(3,4) by (simp_all add: word_le_nat_alt br_ready_def)
  have ok: "br_ok br" using assms(1) by (simp add: br_warm_def)
  have "unat n \<le> length (br_bits br)" using length_br_bits [OF ok] assms(2) n(1) by simp
  then show ?thesis
    using BrotliReadBits24_spec [OF assms(1,2) n(1)] BrotliSafeReadBits_spec [OF ok n(2)]
    by (metis word_unat_eq_iff)
qed

lemma fast_read_equals_safe_read_witness:
  "\<exists>v br1 br2. BrotliReadBits24 sample_fast_reader 15 = Some (v, br1) \<and>
     BrotliSafeReadBits sample_fast_reader 15 = Some (Some v, br2) \<and> br_bits br1 = br_bits br2 \<and>
     br_warm br1 \<and> br_ok br2"
  by (rule fast_read_equals_safe_read [OF sample_fast_reader_warm]) (simp_all add: sample_fast_reader_def)

text \<open>C29: \<open>BrotliSafeReadBits32Slow\<close>, which reads in two halves, is atomic: it either delivers the value
  of the next 25..32 bits, or restores the saved state, so that the reader is exactly what it was.\<close>

theorem slow_read_is_atomic:
  assumes "br_ok br" and "24 < n" and "n \<le> 32"
  shows "\<exists>r br'. BrotliSafeReadBits32Slow br n = Some (r, br') \<and> br_ok br' \<and>
     (if unat n \<le> length (br_bits br)
      then (\<exists>v. r = Some v \<and> unat v = bits_val (take (unat n) (br_bits br))) \<and>
           br_bits br' = drop (unat n) (br_bits br)
      else r = None \<and> br' = br)"
  using BrotliSafeReadBits32Slow_spec [of br n] assms by (simp add: slow_ready_def)

lemma slow_read_is_atomic_witness:
  "\<exists>r br'. BrotliSafeReadBits32Slow sample_reader 26 = Some (r, br') \<and> br_ok br' \<and>
     (if unat (26 :: uint32) \<le> length (br_bits sample_reader)
      then (\<exists>v. r = Some v \<and> unat v = bits_val (take (unat (26 :: uint32)) (br_bits sample_reader))) \<and>
           br_bits br' = drop (unat (26 :: uint32)) (br_bits sample_reader)
      else r = None \<and> br' = sample_reader)"
  by (rule slow_read_is_atomic [OF sample_reader_ok]) simp_all

section \<open>Refilling, unloading, aligning and copying\<close>

text \<open>C30: \<open>BrotliFillBitWindow\<close>, in each of its three variants, for the counts 1..24 it allows, a warm reader and
  eight bytes of input: one refill makes more bits available than asked for, changes neither the stream nor the end
  of the input, and takes at most seven bytes.\<close>

theorem fill_window_keeps_stream:
  assumes "br_warm br" and "8 \<le> avail_in br" and "0 < n" and "n \<le> 24"
  shows "\<exists>br'. BrotliFillBitWindow cnst br n = Some br' \<and> br_warm br' \<and> br_bits br' = br_bits br \<and>
     unat n < unat (BrotliGetAvailableBits br') \<and> avail_in br \<le> avail_in br' + 7 \<and>
     next_in br' + avail_in br' = next_in br + avail_in br"
proof -
  have "unat n \<le> 32" using assms(4) by (simp add: word_le_nat_alt)
  from BrotliFillBitWindow_spec [OF assms(1,2) this, of cnst] show ?thesis
    by (auto simp: unat_avail_bits br_warm_def br_same_def)
qed

lemma fill_window_keeps_stream_witness:
  "\<exists>br'. BrotliFillBitWindow True sample_fast_reader 7 = Some br' \<and> br_warm br' \<and>
     br_bits br' = br_bits sample_fast_reader \<and>
     unat (7 :: uint32) < unat (BrotliGetAvailableBits br') \<and> avail_in sample_fast_reader \<le> avail_in br' + 7 \<and>
     next_in br' + avail_in br' = next_in sample_fast_reader + avail_in sample_fast_reader"
  by (rule fill_window_keeps_stream [OF sample_fast_reader_warm]) (simp_all add: sample_fast_reader_def)

text \<open>\<open>BrotliBitReaderUnload\<close> gives the unused whole bytes back to the input: fewer than
  eight bits stay in the accumulator and the stream is what it was.  That the pointer may be moved
  back over those bytes rests on the accumulator's top bytes being the last bytes taken, which \<open>br_ok\<close>
  states and every operation keeps.\<close>

lemma unload_loses_no_bit:
  assumes "br_ok br"
  shows "\<exists>br'. BrotliBitReaderUnload br = Some br' \<and> br_ok br' \<and> br_bits br' = br_bits br \<and>
     BrotliGetAvailableBits br' < 8 \<and> next_in br' + avail_in br' = next_in br + avail_in br"
proof -
  obtain br' where r: "BrotliBitReaderUnload br = Some br'" "br_ok br'" "br_same br br'"
    "br_bits br' = br_bits br" "64 - unat (br_bit_pos br') = (64 - unat (br_bit_pos br)) mod 8"
    using BrotliBitReaderUnload_spec [OF assms] by blast
  have "BrotliGetAvailableBits br' < 8"
    using r(5) by (simp add: word_less_nat_alt unat_avail_bits [OF r(2)])
  with r show ?thesis by (auto simp: br_same_def)
qed

lemma unload_loses_no_bit_witness:
  "\<exists>br'. BrotliBitReaderUnload sample_reader = Some br' \<and> br_ok br' \<and>
     br_bits br' = br_bits sample_reader \<and> BrotliGetAvailableBits br' < 8 \<and>
     next_in br' + avail_in br' = next_in sample_reader + avail_in sample_reader"
  by (rule unload_loses_no_bit [OF sample_reader_ok])

text \<open>\<open>BrotliJumpToByteBoundary\<close> drops exactly the bits up to the byte boundary and answers
  whether all of them are zero.\<close>

lemma jump_to_byte_boundary_drops_padding:
  assumes "br_ok br"
  shows "\<exists>br'. BrotliJumpToByteBoundary br =
       Some (\<not> True \<in> set (take (length (br_bits br) mod 8) (br_bits br)), br') \<and>
     br_ok br' \<and> br_bits br' = drop (length (br_bits br) mod 8) (br_bits br) \<and>
     length (br_bits br') mod 8 = 0"
proof -
  define pad where "pad = length (br_bits br) mod 8"
  have pad: "(64 - unat (br_bit_pos br)) mod 8 = pad" by (simp add: pad_def length_br_bits [OF assms])
  have zero: "bits_val xs = 0 \<longleftrightarrow> \<not> True \<in> set xs" for xs
    by (induction xs) (auto simp: bits_val_def)
  have "length (drop pad (br_bits br)) mod 8 = 0"
    unfolding pad_def length_drop by presburger
  with BrotliJumpToByteBoundary_spec [OF assms, unfolded pad] show ?thesis
    unfolding pad_def [symmetric] zero by auto
qed

lemma jump_to_byte_boundary_drops_padding_witness:
  "\<exists>br'. BrotliJumpToByteBoundary sample_reader =
       Some (\<not> True \<in> set (take (length (br_bits sample_reader) mod 8) (br_bits sample_reader)), br') \<and>
     br_ok br' \<and> br_bits br' = drop (length (br_bits sample_reader) mod 8) (br_bits sample_reader) \<and>
     length (br_bits br') mod 8 = 0"
  by (rule jump_to_byte_boundary_drops_padding [OF sample_reader_ok])

text \<open>C31: \<open>BrotliCopyBytes\<close>, called at a byte boundary for no more bytes than are left, writes exactly
  the next bytes of the stream, the accumulator's first, to the destination, touches no other cell of
  it, and removes them from the stream.\<close>

theorem copy_bytes_delivers_stream:
  assumes "br_ok br" and "length (br_bits br) mod 8 = 0" and "8 * num \<le> length (br_bits br)"
    and "dest + num \<le> length dst"
  shows "\<exists>xs br'. BrotliCopyBytes dst dest br num = Some (take dest dst @ xs @ drop (dest + num) dst, br') \<and>
     length xs = num \<and> bytes_bits xs = take (8 * num) (br_bits br) \<and>
     br_ok br' \<and> br_bits br' = drop (8 * num) (br_bits br)"
proof -
  have al: "(64 - unat (br_bit_pos br)) mod 8 = 0" using assms(2) by (simp add: length_br_bits [OF assms(1)])
  then have "num \<le> (64 - unat (br_bit_pos br)) div 8 + avail_in br"
    using assms(3) unfolding length_br_bits [OF assms(1)] by presburger
  from BrotliCopyBytes_spec [OF assms(1) al this assms(4)] show ?thesis by blast
qed

definition sample_aligned_reader :: BrotliBitReader where
  "sample_aligned_reader = \<lparr>br_val = 0xA500000000000000, br_bit_pos = 56,
     input = [0xA5, 0x3C, 0x81], next_in = 1, avail_in = 2\<rparr>"

lemma copy_bytes_delivers_stream_witness:
  "\<exists>xs br'. BrotliCopyBytes [9, 9, 9, 9] 1 sample_aligned_reader 2 =
       Some (take 1 [9, 9, 9, 9] @ xs @ drop (1 + 2) [9, 9, 9, 9], br') \<and>
     length xs = 2 \<and> bytes_bits xs = take (8 * 2) (br_bits sample_aligned_reader) \<and>
     br_ok br' \<and> br_bits br' = drop (8 * 2) (br_bits sample_aligned_reader)"
proof (rule copy_bytes_delivers_stream)
  show "br_ok sample_aligned_reader" by code_simp
  show "length (br_bits sample_aligned_reader) mod 8 = 0" by code_simp
  show "8 * 2 \<le> length (br_bits sample_aligned_reader)" by code_simp
qed simp

text \<open>The two definitions of \<open>BitMask\<close>, the table and the shift that constant arguments and
  \<open>BROTLI_HAS_UBFX\<close> builds use, agree on all counts below 32, and both are the mask of the low bits.\<close>

lemma bit_mask_variants_agree:
  "n < 32 \<Longrightarrow> BitMask n = Some (mask (unat n)) \<and> BitMask_ubfx n = BitMask n"
  by (simp add: BitMask_ubfx_eq BitMask_mask word_less_nat_alt)

lemma bit_mask_variants_agree_witness:
  "BitMask 13 = Some (mask (unat (13 :: uint32))) \<and> BitMask_ubfx 13 = BitMask 13"
  by (rule bit_mask_variants_agree) simp

end
