(* ===== verification/Brotli_Constants.thy ===== *)
theory Brotli_Constants
  imports Brotli_Prelude
begin

text \<open>
  \<^verbatim>\<open>common/constants.h\<close> and \<^verbatim>\<open>common/constants.c\<close>: the format's constants, the size of the distance
  alphabet, its limit for large windows, and the ranges of the block-length prefix code.
\<close>

abbreviation (input) BROTLI_CONTEXT_MAP_MAX_RLE :: nat where "BROTLI_CONTEXT_MAP_MAX_RLE \<equiv> 16"
abbreviation (input) BROTLI_MAX_NUMBER_OF_BLOCK_TYPES :: nat where "BROTLI_MAX_NUMBER_OF_BLOCK_TYPES \<equiv> 256"
abbreviation (input) BROTLI_NUM_LITERAL_SYMBOLS :: nat where "BROTLI_NUM_LITERAL_SYMBOLS \<equiv> 256"
abbreviation (input) BROTLI_NUM_COMMAND_SYMBOLS :: nat where "BROTLI_NUM_COMMAND_SYMBOLS \<equiv> 704"
abbreviation (input) BROTLI_NUM_BLOCK_LEN_SYMBOLS :: nat where "BROTLI_NUM_BLOCK_LEN_SYMBOLS \<equiv> 26"
abbreviation (input) BROTLI_REPEAT_PREVIOUS_CODE_LENGTH :: uint32 where "BROTLI_REPEAT_PREVIOUS_CODE_LENGTH \<equiv> 16"
abbreviation (input) BROTLI_REPEAT_ZERO_CODE_LENGTH :: uint32 where "BROTLI_REPEAT_ZERO_CODE_LENGTH \<equiv> 17"
abbreviation (input) BROTLI_CODE_LENGTH_CODES :: nat where "BROTLI_CODE_LENGTH_CODES \<equiv> 18"
abbreviation (input) BROTLI_INITIAL_REPEATED_CODE_LENGTH :: uint32 where "BROTLI_INITIAL_REPEATED_CODE_LENGTH \<equiv> 8"
abbreviation (input) BROTLI_LARGE_MAX_DISTANCE_BITS :: uint32 where "BROTLI_LARGE_MAX_DISTANCE_BITS \<equiv> 62"
abbreviation (input) BROTLI_LARGE_MIN_WBITS :: uint32 where "BROTLI_LARGE_MIN_WBITS \<equiv> 10"
abbreviation (input) BROTLI_LARGE_MAX_WBITS :: uint32 where "BROTLI_LARGE_MAX_WBITS \<equiv> 30"
abbreviation (input) BROTLI_NUM_DISTANCE_SHORT_CODES :: uint32 where "BROTLI_NUM_DISTANCE_SHORT_CODES \<equiv> 16"
abbreviation (input) BROTLI_MAX_NPOSTFIX :: uint32 where "BROTLI_MAX_NPOSTFIX \<equiv> 3"
abbreviation (input) BROTLI_MAX_NDIRECT :: uint32 where "BROTLI_MAX_NDIRECT \<equiv> 120"
abbreviation (input) BROTLI_MAX_DISTANCE_BITS :: uint32 where "BROTLI_MAX_DISTANCE_BITS \<equiv> 24"
abbreviation (input) BROTLI_MAX_DISTANCE :: uint32 where "BROTLI_MAX_DISTANCE \<equiv> 0x3FFFFFC"
abbreviation (input) BROTLI_MAX_ALLOWED_DISTANCE :: uint32 where "BROTLI_MAX_ALLOWED_DISTANCE \<equiv> 0x7FFFFFFC"
abbreviation (input) BROTLI_LITERAL_CONTEXT_BITS :: nat where "BROTLI_LITERAL_CONTEXT_BITS \<equiv> 6"
abbreviation (input) BROTLI_DISTANCE_CONTEXT_BITS :: nat where "BROTLI_DISTANCE_CONTEXT_BITS \<equiv> 2"
abbreviation (input) BROTLI_WINDOW_GAP :: int where "BROTLI_WINDOW_GAP \<equiv> 16"

section \<open>The distance alphabet\<close>

definition BROTLI_DISTANCE_ALPHABET_SIZE :: "uint32 \<Rightarrow> uint32 \<Rightarrow> uint32 \<Rightarrow> uint32 option" where
  "BROTLI_DISTANCE_ALPHABET_SIZE NPOSTFIX NDIRECT MAXNBITS = do {
     r \<leftarrow> shl32 MAXNBITS (NPOSTFIX + 1);
     Some (BROTLI_NUM_DISTANCE_SHORT_CODES + NDIRECT + r) }"

text \<open>The macro as the source writes it: the number of direct codes stands where the number of postfix
  bits is expected.\<close>

definition BROTLI_NUM_DISTANCE_SYMBOLS :: "uint32 option" where
  "BROTLI_NUM_DISTANCE_SYMBOLS = BROTLI_DISTANCE_ALPHABET_SIZE
     BROTLI_MAX_NDIRECT BROTLI_MAX_NPOSTFIX BROTLI_LARGE_MAX_DISTANCE_BITS"

record BrotliDistanceCodeLimit =
  dcl_max_alphabet_size :: uint32
  dcl_max_distance :: uint32

text \<open>The loop \<open>while (tmp != 0) {ndistbits++; tmp = tmp >> 1;}\<close>.\<close>

function log2_loop :: "uint32 \<Rightarrow> uint32 \<Rightarrow> uint32" where
  "log2_loop x result = (if x \<noteq> 0 then log2_loop (drop_bit 1 x) (result + 1) else result)"
  by pat_completeness auto
termination
proof (relation "measure (\<lambda>(x, r). unat x)")
  fix x result :: uint32
  assume "x \<noteq> 0"
  then have "0 < unat x" by (simp add: unat_gt_0)
  moreover have "unat (drop_bit 1 x) = unat x div 2" by (simp add: drop_bit_eq_div unat_div)
  ultimately have "unat (drop_bit 1 x) < unat x" by linarith
  then show "((drop_bit 1 x, result + 1), x, result) \<in> measure (\<lambda>(x, r). unat x)" by simp
qed simp

declare log2_loop.simps [simp del]

definition BrotliCalculateDistanceCodeLimit ::
  "uint32 \<Rightarrow> uint32 \<Rightarrow> uint32 \<Rightarrow> BrotliDistanceCodeLimit option" where
  "BrotliCalculateDistanceCodeLimit max_distance npostfix ndirect =
     (if max_distance \<le> ndirect then
        Some \<lparr>dcl_max_alphabet_size = max_distance + BROTLI_NUM_DISTANCE_SHORT_CODES,
              dcl_max_distance = max_distance\<rparr>
      else do {
        let forbidden_distance = max_distance + 1;
        let offset = forbidden_distance - ndirect - 1;
        p \<leftarrow> shl32 1 npostfix;
        let postfix = p - 1;
        o1 \<leftarrow> shr32 offset npostfix;
        let offset = o1 + 4;
        let tmp = offset div 2;
        let ndistbits = log2_loop tmp 0;
        let ndistbits = ndistbits - 1;
        h \<leftarrow> shr32 offset ndistbits;
        let half = h AND 1;
        let grp = push_bit 1 (ndistbits - 1) OR half;
        if grp = 0 then
          Some \<lparr>dcl_max_alphabet_size = ndirect + BROTLI_NUM_DISTANCE_SHORT_CODES,
                dcl_max_distance = ndirect\<rparr>
        else do {
          let grp = grp - 1;
          let ndistbits = drop_bit 1 grp + 1;
          e \<leftarrow> shl32 1 ndistbits;
          let extra = e - 1;
          st \<leftarrow> shl32 1 (ndistbits + 1);
          let start = st - 4;
          sub \<leftarrow> shl32 (grp AND 1) ndistbits;
          let start = start + sub;
          g \<leftarrow> shl32 grp npostfix;
          d \<leftarrow> shl32 (start + extra) npostfix;
          Some \<lparr>dcl_max_alphabet_size = (g OR postfix) + ndirect + BROTLI_NUM_DISTANCE_SHORT_CODES + 1,
                dcl_max_distance = d + postfix + ndirect + 1\<rparr> } })"

section \<open>Block-length codes\<close>

record BrotliPrefixCodeRange =
  pcr_offset :: uint16
  pcr_nbits :: uint8

definition kBrotliPrefixCodeRanges :: "BrotliPrefixCodeRange list" where
  "kBrotliPrefixCodeRanges = map (\<lambda>(off, n). \<lparr>pcr_offset = off, pcr_nbits = n\<rparr>)
    [(1, 2), (5, 2), (9, 2), (13, 2), (17, 3), (25, 3),
     (33, 3), (41, 3), (49, 4), (65, 4), (81, 4), (97, 4),
     (113, 5), (145, 5), (177, 5), (209, 5), (241, 6), (305, 6),
     (369, 7), (497, 8), (753, 9), (1265, 10), (2289, 11), (4337, 12),
     (8433, 13), (16625, 24)]"

end
