(* ===== verification/Huffman_Tables.thy ===== *)
theory Huffman_Tables
  imports Brotli_Constants
begin

text \<open>
  \<^verbatim>\<open>dec/huffman.h\<close> and \<^verbatim>\<open>dec/huffman.c\<close>: building the two-level lookup tables of the decoder, for the
  build without an \<open>RBIT\<close> instruction (\<open>BROTLI_REVERSE_BITS_BASE = 0\<close>).

  A table is a window of a larger array: the builders take the array and the offset \<open>base\<close> of the C
  pointer into it.  C's \<open>int\<close> variables are \<open>int\<close>, \<open>brotli_reg_t\<close> is \<open>uint64\<close>.
\<close>

abbreviation (input) BROTLI_HUFFMAN_MAX_CODE_LENGTH :: int where "BROTLI_HUFFMAN_MAX_CODE_LENGTH \<equiv> 15"
abbreviation (input) BROTLI_HUFFMAN_MAX_SIZE_26 :: nat where "BROTLI_HUFFMAN_MAX_SIZE_26 \<equiv> 396"
abbreviation (input) BROTLI_HUFFMAN_MAX_SIZE_258 :: nat where "BROTLI_HUFFMAN_MAX_SIZE_258 \<equiv> 632"
abbreviation (input) BROTLI_HUFFMAN_MAX_SIZE_272 :: nat where "BROTLI_HUFFMAN_MAX_SIZE_272 \<equiv> 646"
abbreviation (input) BROTLI_HUFFMAN_MAX_CODE_LENGTH_CODE_LENGTH :: int where
  "BROTLI_HUFFMAN_MAX_CODE_LENGTH_CODE_LENGTH \<equiv> 5"
abbreviation (input) BROTLI_REVERSE_BITS_MAX :: nat where "BROTLI_REVERSE_BITS_MAX \<equiv> 8"

record HuffmanCode =
  hc_bits :: uint8     \<comment> \<open>number of bits used for this symbol\<close>
  hc_value :: uint16   \<comment> \<open>symbol value or table offset\<close>

definition ConstructHuffmanCode :: "uint8 \<Rightarrow> uint16 \<Rightarrow> HuffmanCode" where
  "ConstructHuffmanCode bits value = \<lparr>hc_bits = bits, hc_value = value\<rparr>"

definition kReverseBits :: "uint8 list" where
  "kReverseBits = [
     0x00, 0x80, 0x40, 0xC0, 0x20, 0xA0, 0x60, 0xE0,
     0x10, 0x90, 0x50, 0xD0, 0x30, 0xB0, 0x70, 0xF0,
     0x08, 0x88, 0x48, 0xC8, 0x28, 0xA8, 0x68, 0xE8,
     0x18, 0x98, 0x58, 0xD8, 0x38, 0xB8, 0x78, 0xF8,
     0x04, 0x84, 0x44, 0xC4, 0x24, 0xA4, 0x64, 0xE4,
     0x14, 0x94, 0x54, 0xD4, 0x34, 0xB4, 0x74, 0xF4,
     0x0C, 0x8C, 0x4C, 0xCC, 0x2C, 0xAC, 0x6C, 0xEC,
     0x1C, 0x9C, 0x5C, 0xDC, 0x3C, 0xBC, 0x7C, 0xFC,
     0x02, 0x82, 0x42, 0xC2, 0x22, 0xA2, 0x62, 0xE2,
     0x12, 0x92, 0x52, 0xD2, 0x32, 0xB2, 0x72, 0xF2,
     0x0A, 0x8A, 0x4A, 0xCA, 0x2A, 0xAA, 0x6A, 0xEA,
     0x1A, 0x9A, 0x5A, 0xDA, 0x3A, 0xBA, 0x7A, 0xFA,
     0x06, 0x86, 0x46, 0xC6, 0x26, 0xA6, 0x66, 0xE6,
     0x16, 0x96, 0x56, 0xD6, 0x36, 0xB6, 0x76, 0xF6,
     0x0E, 0x8E, 0x4E, 0xCE, 0x2E, 0xAE, 0x6E, 0xEE,
     0x1E, 0x9E, 0x5E, 0xDE, 0x3E, 0xBE, 0x7E, 0xFE,
     0x01, 0x81, 0x41, 0xC1, 0x21, 0xA1, 0x61, 0xE1,
     0x11, 0x91, 0x51, 0xD1, 0x31, 0xB1, 0x71, 0xF1,
     0x09, 0x89, 0x49, 0xC9, 0x29, 0xA9, 0x69, 0xE9,
     0x19, 0x99, 0x59, 0xD9, 0x39, 0xB9, 0x79, 0xF9,
     0x05, 0x85, 0x45, 0xC5, 0x25, 0xA5, 0x65, 0xE5,
     0x15, 0x95, 0x55, 0xD5, 0x35, 0xB5, 0x75, 0xF5,
     0x0D, 0x8D, 0x4D, 0xCD, 0x2D, 0xAD, 0x6D, 0xED,
     0x1D, 0x9D, 0x5D, 0xDD, 0x3D, 0xBD, 0x7D, 0xFD,
     0x03, 0x83, 0x43, 0xC3, 0x23, 0xA3, 0x63, 0xE3,
     0x13, 0x93, 0x53, 0xD3, 0x33, 0xB3, 0x73, 0xF3,
     0x0B, 0x8B, 0x4B, 0xCB, 0x2B, 0xAB, 0x6B, 0xEB,
     0x1B, 0x9B, 0x5B, 0xDB, 0x3B, 0xBB, 0x7B, 0xFB,
     0x07, 0x87, 0x47, 0xC7, 0x27, 0xA7, 0x67, 0xE7,
     0x17, 0x97, 0x57, 0xD7, 0x37, 0xB7, 0x77, 0xF7,
     0x0F, 0x8F, 0x4F, 0xCF, 0x2F, 0xAF, 0x6F, 0xEF,
     0x1F, 0x9F, 0x5F, 0xDF, 0x3F, 0xBF, 0x7F, 0xFF]"

definition BROTLI_REVERSE_BITS_LOWEST :: uint64 where
  "BROTLI_REVERSE_BITS_LOWEST = push_bit (BROTLI_REVERSE_BITS_MAX - 1) 1"

definition BrotliReverseBits :: "uint64 \<Rightarrow> uint64 option" where
  "BrotliReverseBits num = map_option ucast (arr_get kReverseBits (unat num))"

section \<open>Helpers\<close>

text \<open>
  The \<open>do .. while (end > 0)\<close> loop of \<open>ReplicateValue\<close>; with \<open>step \<le> 0\<close> it would never stop, which is
  \<open>None\<close>.
\<close>

function ReplicateValue ::
  "HuffmanCode list \<Rightarrow> int \<Rightarrow> int \<Rightarrow> int \<Rightarrow> HuffmanCode \<Rightarrow> HuffmanCode list option" where
  "ReplicateValue tbl base step en code =
     (if step \<le> 0 then None
      else do {
        tbl \<leftarrow> arr_seti tbl (base + (en - step)) code;
        if en - step > 0 then ReplicateValue tbl base step (en - step) code else Some tbl })"
  by pat_completeness auto
termination
  by (relation "measure (\<lambda>(tbl, base, step, en, code). nat en)") auto

declare ReplicateValue.simps [simp del]

function next_table_loop :: "uint16 list \<Rightarrow> int \<Rightarrow> int \<Rightarrow> int option" where
  "next_table_loop count len left =
     (if len < BROTLI_HUFFMAN_MAX_CODE_LENGTH then do {
        c \<leftarrow> arr_geti count len;
        let left = left - uint c;
        if left \<le> 0 then Some len else next_table_loop count (len + 1) (left * 2) }
      else Some len)"
  by pat_completeness auto
termination
  by (relation "measure (\<lambda>(count, len, left). nat (15 - len))") auto

declare next_table_loop.simps [simp del]

definition NextTableBitSize :: "uint16 list \<Rightarrow> int \<Rightarrow> int \<Rightarrow> int option" where
  "NextTableBitSize count len root_bits =
     (if len < root_bits then None
      else map_option (\<lambda>l. l - root_bits) (next_table_loop count len (2 ^ nat (len - root_bits))))"

section \<open>The table of code-length codes\<close>

text \<open>
  \<open>offset\<close> has six entries and \<open>sorted_syms\<close> eighteen; a cell of an uninitialised array is \<open>None\<close>, and reading
  it is undefined.
\<close>

definition clh_offsets :: "uint16 list \<Rightarrow> (int \<times> int list) option" where
  "clh_offsets count = foldM (\<lambda>bits (symbol, offset). do {
       c \<leftarrow> arr_get count bits;
       let symbol = symbol + uint c;
       offset \<leftarrow> arr_set offset bits symbol;
       Some (symbol, offset) }) [1..<6] (- 1, [17, 0, 0, 0, 0, 0])"

definition clh_sort ::
  "uint8 list \<Rightarrow> int list \<Rightarrow> (int list \<times> int option list) option" where
  "clh_sort code_lengths offset = foldM (\<lambda>symbol (offset, sorted_syms). do {
       l \<leftarrow> arr_get code_lengths symbol;
       off \<leftarrow> arr_get offset (unat l);
       sorted_syms \<leftarrow> arr_seti sorted_syms off (Some (int symbol));
       offset \<leftarrow> arr_set offset (unat l) (off - 1);
       Some (offset, sorted_syms) }) (rev [0..<BROTLI_CODE_LENGTH_CODES])
     (offset, replicate BROTLI_CODE_LENGTH_CODES None)"

definition sorted_get :: "int option list \<Rightarrow> int \<Rightarrow> int option" where
  "sorted_get sorted_syms i = Option.bind (arr_geti sorted_syms i) id"

text \<open>The symbols of one code length: \<open>n\<close> more of them.\<close>

fun clh_fill_len :: "int \<Rightarrow> int \<Rightarrow> int \<Rightarrow> uint64 \<Rightarrow> int option list \<Rightarrow> nat \<Rightarrow>
    HuffmanCode list \<times> uint64 \<times> int \<Rightarrow> (HuffmanCode list \<times> uint64 \<times> int) option" where
  "clh_fill_len bits step table_size key_step sorted_syms 0 st = Some st"
| "clh_fill_len bits step table_size key_step sorted_syms (Suc n) (tbl, key, symbol) = do {
     s \<leftarrow> sorted_get sorted_syms symbol;
     let code = ConstructHuffmanCode (of_int bits) (of_int s);
     pos \<leftarrow> BrotliReverseBits key;
     tbl \<leftarrow> ReplicateValue tbl (uint pos) step table_size code;
     clh_fill_len bits step table_size key_step sorted_syms n (tbl, key + key_step, symbol + 1) }"

definition BrotliBuildCodeLengthsHuffmanTable ::
  "HuffmanCode list \<Rightarrow> uint8 list \<Rightarrow> uint16 list \<Rightarrow> HuffmanCode list option" where
  "BrotliBuildCodeLengthsHuffmanTable tbl code_lengths count = do {
     (symbol, offset) \<leftarrow> clh_offsets count;
     (offset, sorted_syms) \<leftarrow> clh_sort code_lengths offset;
     let table_size = 2 ^ 5;
     off0 \<leftarrow> arr_get offset 0;
     if off0 = 0 then do {
       s \<leftarrow> sorted_get sorted_syms 0;
       let code = ConstructHuffmanCode 0 (of_int s);
       foldM (\<lambda>key tbl. arr_set tbl key code) [0..<table_size] tbl }
     else do {
       (tbl, key, symbol, step, key_step) \<leftarrow> foldM (\<lambda>bits (tbl, key, symbol, step, key_step). do {
           n \<leftarrow> arr_get count bits;
           (tbl, key, symbol) \<leftarrow>
             clh_fill_len (int bits) step (int table_size) key_step sorted_syms (unat n) (tbl, key, symbol);
           Some (tbl, key, symbol, step * 2, drop_bit 1 key_step) }) [1..<6]
         (tbl, 0, 0, 2, BROTLI_REVERSE_BITS_LOWEST);
       Some tbl } }"

section \<open>The table of a complete prefix code\<close>

text \<open>
  \<open>symbol_lists\<close> points 16 entries into the array \<open>symbols_lists_array\<close>: negative indices down to -16
  are the heads of the chains of symbols with one code length.
\<close>

definition symbol_list_get :: "uint16 list \<Rightarrow> int \<Rightarrow> uint16 option" where
  "symbol_list_get sl i = arr_geti sl (i + 16)"

function max_length_loop :: "uint16 list \<Rightarrow> int \<Rightarrow> int option" where
  "max_length_loop sl m = do {
     s \<leftarrow> symbol_list_get sl m;
     if s = 0xFFFF then (if m < - 16 then None else max_length_loop sl (m - 1)) else Some m }"
  by pat_completeness auto
termination
  by (relation "measure (\<lambda>(sl, m). nat (m + 17))") auto

declare max_length_loop.simps [simp del]

fun root_fill_len :: "uint16 list \<Rightarrow> nat \<Rightarrow> int \<Rightarrow> int \<Rightarrow> int \<Rightarrow> uint64 \<Rightarrow> nat \<Rightarrow>
    HuffmanCode list \<times> uint64 \<times> int \<Rightarrow> (HuffmanCode list \<times> uint64 \<times> int) option" where
  "root_fill_len sl base bits step table_size key_step 0 st = Some st"
| "root_fill_len sl base bits step table_size key_step (Suc n) (tbl, key, symbol) = do {
     s \<leftarrow> symbol_list_get sl symbol;
     let symbol = uint s;
     let code = ConstructHuffmanCode (of_int bits) (of_int symbol);
     pos \<leftarrow> BrotliReverseBits key;
     tbl \<leftarrow> ReplicateValue tbl (int base + uint pos) step table_size code;
     root_fill_len sl base bits step table_size key_step n (tbl, key + key_step, symbol) }"

text \<open>The loop that doubles a table until it has \<open>goal\<close> entries.\<close>

function double_table :: "HuffmanCode list \<Rightarrow> nat \<Rightarrow> nat \<Rightarrow> nat \<Rightarrow> HuffmanCode list option" where
  "double_table tbl base goal table_size =
     (if table_size = goal then Some tbl
      else if table_size = 0 \<or> goal < table_size then None
      else do {
        tbl \<leftarrow> arr_copy tbl (base + table_size) tbl base table_size;
        double_table tbl base goal (2 * table_size) })"
  by pat_completeness auto
termination
  by (relation "measure (\<lambda>(tbl, base, goal, n). goal - n)") auto

declare double_table.simps [simp del]

record hb_state =
  hb_tbl :: "HuffmanCode list"
  hb_count :: "uint16 list"
  hb_table :: nat          \<comment> \<open>offset of the pointer \<open>table\<close> from \<open>root_table\<close>\<close>
  hb_table_size :: nat
  hb_total_size :: nat
  hb_key :: uint64
  hb_sub_key :: uint64
  hb_symbol :: int

text \<open>The body of the loop over the symbols of length \<open>len\<close> in the second-level part; \<open>k\<close> is the value
  \<open>count[len]\<close> has after the iteration.\<close>

definition hb_open_table :: "nat \<Rightarrow> int \<Rightarrow> int \<Rightarrow> uint64 \<Rightarrow> hb_state \<Rightarrow> hb_state option" where
  "hb_open_table base root_bits len key_step st =
     (if hb_sub_key st = push_bit 1 BROTLI_REVERSE_BITS_LOWEST then do {
        let table = hb_table st + hb_table_size st;
        table_bits \<leftarrow> NextTableBitSize (hb_count st) len root_bits;
        let table_size = 2 ^ nat table_bits;
        sub_key \<leftarrow> BrotliReverseBits (hb_key st);
        tbl \<leftarrow> arr_set (hb_tbl st) (base + unat sub_key)
          (ConstructHuffmanCode (of_int (table_bits + root_bits))
             (ucast ((of_nat table :: uint64) - sub_key)));
        Some (st\<lparr>hb_tbl := tbl, hb_table := table, hb_table_size := table_size,
                 hb_total_size := hb_total_size st + table_size,
                 hb_key := hb_key st + key_step, hb_sub_key := 0\<rparr>) }
      else Some st)"

definition hb_second_step ::
  "uint16 list \<Rightarrow> nat \<Rightarrow> int \<Rightarrow> int \<Rightarrow> int \<Rightarrow> uint64 \<Rightarrow> uint64 \<Rightarrow> hb_state \<Rightarrow> hb_state option" where
  "hb_second_step sl base root_bits len step key_step sub_key_step st = do {
     st \<leftarrow> hb_open_table base root_bits len key_step st;
     s \<leftarrow> symbol_list_get sl (hb_symbol st);
     let code = ConstructHuffmanCode (of_int (len - root_bits)) s;
     pos \<leftarrow> BrotliReverseBits (hb_sub_key st);
     tbl \<leftarrow> ReplicateValue (hb_tbl st) (int (base + hb_table st) + uint pos) step
              (int (hb_table_size st)) code;
     Some (st\<lparr>hb_tbl := tbl, hb_symbol := uint s, hb_sub_key := hb_sub_key st + sub_key_step\<rparr>) }"

fun hb_second_len :: "uint16 list \<Rightarrow> nat \<Rightarrow> int \<Rightarrow> int \<Rightarrow> int \<Rightarrow> uint64 \<Rightarrow> uint64 \<Rightarrow> nat \<Rightarrow>
    hb_state \<Rightarrow> hb_state option" where
  "hb_second_len sl base root_bits len step key_step sub_key_step 0 st = Some st"
| "hb_second_len sl base root_bits len step key_step sub_key_step (Suc k) st = do {
     st \<leftarrow> hb_second_step sl base root_bits len step key_step sub_key_step st;
     count \<leftarrow> arr_seti (hb_count st) len (of_nat k);
     hb_second_len sl base root_bits len step key_step sub_key_step k (st\<lparr>hb_count := count\<rparr>) }"

definition hb_root :: "HuffmanCode list \<Rightarrow> nat \<Rightarrow> nat \<Rightarrow> uint16 list \<Rightarrow> uint16 list \<Rightarrow> nat \<Rightarrow>
    (HuffmanCode list \<times> uint64) option" where
  "hb_root tbl base table_bits sl count table_size = do {
     (tbl, key, step, key_step) \<leftarrow> foldM (\<lambda>bits (tbl, key, step, key_step). do {
         n \<leftarrow> arr_get count bits;
         (tbl, key, symbol) \<leftarrow> root_fill_len sl base (int bits) step (int table_size) key_step (unat n)
           (tbl, key, int bits - 16);
         Some (tbl, key, step * 2, drop_bit 1 key_step) }) ([1] @ [2..<Suc table_bits])
       (tbl, 0, 2, BROTLI_REVERSE_BITS_LOWEST);
     Some (tbl, key) }"

definition BrotliBuildHuffmanTable ::
  "HuffmanCode list \<Rightarrow> nat \<Rightarrow> nat \<Rightarrow> uint16 list \<Rightarrow> uint16 list \<Rightarrow>
     (uint32 \<times> HuffmanCode list \<times> uint16 list) option" where
  "BrotliBuildHuffmanTable root_table base root_bits symbol_lists count = do {
     m \<leftarrow> max_length_loop symbol_lists (- 1);
     let max_length = m + 16;
     let total_size = 2 ^ root_bits;
     let table_bits = (if int root_bits > max_length then nat max_length else root_bits);
     let table_size = 2 ^ table_bits;
     (tbl, key) \<leftarrow> hb_root root_table base table_bits symbol_lists count table_size;
     tbl \<leftarrow> double_table tbl base total_size table_size;
     let key_step = drop_bit (root_bits - 1) BROTLI_REVERSE_BITS_LOWEST;
     (st, step, sub_key_step) \<leftarrow> foldM (\<lambda>len (st, step, sub_key_step). do {
         n \<leftarrow> arr_get (hb_count st) len;
         st \<leftarrow> hb_second_len symbol_lists base (int root_bits) (int len) step key_step sub_key_step
           (unat n) (st\<lparr>hb_symbol := int len - 16\<rparr>);
         Some (st, step * 2, drop_bit 1 sub_key_step) }) [Suc root_bits..<Suc (nat max_length)]
       (\<lparr>hb_tbl = tbl, hb_count = count, hb_table = 0, hb_table_size = total_size,
         hb_total_size = total_size, hb_key = key,
         hb_sub_key = push_bit 1 BROTLI_REVERSE_BITS_LOWEST, hb_symbol = 0\<rparr>,
        2, BROTLI_REVERSE_BITS_LOWEST);
     Some (of_nat (hb_total_size st), hb_tbl st, hb_count st) }"

section \<open>Simple tables\<close>

text \<open>\<open>if (val[k] < val[i]) swap\<close>.\<close>

definition swap_if_less :: "nat \<times> nat \<Rightarrow> uint16 list \<Rightarrow> uint16 list option" where
  "swap_if_less ik val = (case ik of (i, k) \<Rightarrow> do {
     vi \<leftarrow> arr_get val i;
     vk \<leftarrow> arr_get val k;
     if vk < vi then do {
       val \<leftarrow> arr_set val k vi;
       arr_set val i vk }
     else Some val })"

definition put_codes ::
  "HuffmanCode list \<Rightarrow> nat \<Rightarrow> (nat \<times> uint8 \<times> uint16) list \<Rightarrow> HuffmanCode list option" where
  "put_codes tbl base cs =
     foldM (\<lambda>(i, b, v) tbl. arr_set tbl (base + i) (ConstructHuffmanCode b v)) cs tbl"

definition simple_cases ::
  "HuffmanCode list \<Rightarrow> nat \<Rightarrow> uint16 list \<Rightarrow> uint32 \<Rightarrow> (HuffmanCode list \<times> uint16 list \<times> nat) option" where
  "simple_cases tbl base val num_symbols =
     (if num_symbols = 0 then do {
        v0 \<leftarrow> arr_get val 0;
        tbl \<leftarrow> put_codes tbl base [(0, 0, v0)];
        Some (tbl, val, 1) }
      else if num_symbols = 1 then do {
        v0 \<leftarrow> arr_get val 0;
        v1 \<leftarrow> arr_get val 1;
        tbl \<leftarrow> (if v1 > v0 then put_codes tbl base [(0, 1, v0), (1, 1, v1)]
                else put_codes tbl base [(0, 1, v1), (1, 1, v0)]);
        Some (tbl, val, 2) }
      else if num_symbols = 2 then do {
        v0 \<leftarrow> arr_get val 0;
        v1 \<leftarrow> arr_get val 1;
        v2 \<leftarrow> arr_get val 2;
        tbl \<leftarrow> put_codes tbl base [(0, 1, v0), (2, 1, v0)];
        tbl \<leftarrow> (if v2 > v1 then put_codes tbl base [(1, 2, v1), (3, 2, v2)]
                else put_codes tbl base [(1, 2, v2), (3, 2, v1)]);
        Some (tbl, val, 4) }
      else if num_symbols = 3 then do {
        val \<leftarrow> foldM swap_if_less [(0, 1), (0, 2), (0, 3), (1, 2), (1, 3), (2, 3)] val;
        v0 \<leftarrow> arr_get val 0;
        v1 \<leftarrow> arr_get val 1;
        v2 \<leftarrow> arr_get val 2;
        v3 \<leftarrow> arr_get val 3;
        tbl \<leftarrow> put_codes tbl base [(0, 2, v0), (2, 2, v1), (1, 2, v2), (3, 2, v3)];
        Some (tbl, val, 4) }
      else if num_symbols = 4 then do {
        val \<leftarrow> swap_if_less (2, 3) val;
        v0 \<leftarrow> arr_get val 0;
        v1 \<leftarrow> arr_get val 1;
        v2 \<leftarrow> arr_get val 2;
        v3 \<leftarrow> arr_get val 3;
        tbl \<leftarrow> put_codes tbl base [(0, 1, v0), (1, 2, v1), (2, 1, v0), (3, 3, v2),
                                   (4, 1, v0), (5, 2, v1), (6, 1, v0), (7, 3, v3)];
        Some (tbl, val, 8) }
      else Some (tbl, val, 1))"

definition BrotliBuildSimpleHuffmanTable ::
  "HuffmanCode list \<Rightarrow> nat \<Rightarrow> nat \<Rightarrow> uint16 list \<Rightarrow> uint32 \<Rightarrow>
     (uint32 \<times> HuffmanCode list \<times> uint16 list) option" where
  "BrotliBuildSimpleHuffmanTable tbl base root_bits val num_symbols = do {
     let goal_size = 2 ^ root_bits;
     (tbl, val, table_size) \<leftarrow> simple_cases tbl base val num_symbols;
     tbl \<leftarrow> double_table tbl base goal_size table_size;
     Some (of_nat goal_size, tbl, val) }"

text \<open>A group of trees with one alphabet; \<open>htrees\<close> are offsets into \<open>codes\<close>.\<close>

record HuffmanTreeGroup =
  htrees :: "nat option list"
  codes :: "HuffmanCode list"
  alphabet_size_max :: uint16
  alphabet_size_limit :: uint16
  num_htrees :: uint16

end
