(* ===== verification/Cmd_Lut.thy ===== *)
theory Cmd_Lut
  imports Brotli_Constants
begin

text \<open>
  \<^verbatim>\<open>dec/prefix.h\<close>: the table \<open>kCmdLut\<close> from an insert-and-copy symbol to the extra bits and offsets of
  its two lengths, the implicit distance code and the distance context.  The 704 rows are written in
  parts; a row is \<open>(insert_len_extra_bits, copy_len_extra_bits, distance_code, context,
  insert_len_offset, copy_len_offset)\<close>.
\<close>

record CmdLutElement =
  insert_len_extra_bits :: uint8
  copy_len_extra_bits :: uint8
  cmd_distance_code :: int
  cmd_context :: uint8
  insert_len_offset :: uint16
  copy_len_offset :: uint16

type_synonym cmd_row = "uint8 \<times> uint8 \<times> int \<times> uint8 \<times> uint16 \<times> uint16"

definition cmd_element :: "cmd_row \<Rightarrow> CmdLutElement" where
  "cmd_element r = (case r of (ib, cb, d, c, io, co) \<Rightarrow>
     \<lparr>insert_len_extra_bits = ib, copy_len_extra_bits = cb, cmd_distance_code = d,
      cmd_context = c, insert_len_offset = io, copy_len_offset = co\<rparr>)"

definition kCmdLut_0 :: "cmd_row list" where
  "kCmdLut_0 = [
     (0, 0, 0, 0, 0, 2), (0, 0, 0, 1, 0, 3), (0, 0, 0, 2, 0, 4), (0, 0, 0, 3, 0, 5),
     (0, 0, 0, 3, 0, 6), (0, 0, 0, 3, 0, 7), (0, 0, 0, 3, 0, 8), (0, 0, 0, 3, 0, 9),
     (0, 0, 0, 0, 1, 2), (0, 0, 0, 1, 1, 3), (0, 0, 0, 2, 1, 4), (0, 0, 0, 3, 1, 5),
     (0, 0, 0, 3, 1, 6), (0, 0, 0, 3, 1, 7), (0, 0, 0, 3, 1, 8), (0, 0, 0, 3, 1, 9),
     (0, 0, 0, 0, 2, 2), (0, 0, 0, 1, 2, 3), (0, 0, 0, 2, 2, 4), (0, 0, 0, 3, 2, 5),
     (0, 0, 0, 3, 2, 6), (0, 0, 0, 3, 2, 7), (0, 0, 0, 3, 2, 8), (0, 0, 0, 3, 2, 9),
     (0, 0, 0, 0, 3, 2), (0, 0, 0, 1, 3, 3), (0, 0, 0, 2, 3, 4), (0, 0, 0, 3, 3, 5),
     (0, 0, 0, 3, 3, 6), (0, 0, 0, 3, 3, 7), (0, 0, 0, 3, 3, 8), (0, 0, 0, 3, 3, 9),
     (0, 0, 0, 0, 4, 2), (0, 0, 0, 1, 4, 3), (0, 0, 0, 2, 4, 4), (0, 0, 0, 3, 4, 5),
     (0, 0, 0, 3, 4, 6), (0, 0, 0, 3, 4, 7), (0, 0, 0, 3, 4, 8), (0, 0, 0, 3, 4, 9),
     (0, 0, 0, 0, 5, 2), (0, 0, 0, 1, 5, 3), (0, 0, 0, 2, 5, 4), (0, 0, 0, 3, 5, 5),
     (0, 0, 0, 3, 5, 6), (0, 0, 0, 3, 5, 7), (0, 0, 0, 3, 5, 8), (0, 0, 0, 3, 5, 9),
     (1, 0, 0, 0, 6, 2), (1, 0, 0, 1, 6, 3), (1, 0, 0, 2, 6, 4), (1, 0, 0, 3, 6, 5),
     (1, 0, 0, 3, 6, 6), (1, 0, 0, 3, 6, 7), (1, 0, 0, 3, 6, 8), (1, 0, 0, 3, 6, 9),
     (1, 0, 0, 0, 8, 2), (1, 0, 0, 1, 8, 3), (1, 0, 0, 2, 8, 4), (1, 0, 0, 3, 8, 5),
     (1, 0, 0, 3, 8, 6), (1, 0, 0, 3, 8, 7), (1, 0, 0, 3, 8, 8), (1, 0, 0, 3, 8, 9),
     (0, 1, 0, 3, 0, 10), (0, 1, 0, 3, 0, 12), (0, 2, 0, 3, 0, 14), (0, 2, 0, 3, 0, 18),
     (0, 3, 0, 3, 0, 22), (0, 3, 0, 3, 0, 30), (0, 4, 0, 3, 0, 38), (0, 4, 0, 3, 0, 54),
     (0, 1, 0, 3, 1, 10), (0, 1, 0, 3, 1, 12), (0, 2, 0, 3, 1, 14), (0, 2, 0, 3, 1, 18),
     (0, 3, 0, 3, 1, 22), (0, 3, 0, 3, 1, 30), (0, 4, 0, 3, 1, 38), (0, 4, 0, 3, 1, 54),
     (0, 1, 0, 3, 2, 10), (0, 1, 0, 3, 2, 12), (0, 2, 0, 3, 2, 14), (0, 2, 0, 3, 2, 18),
     (0, 3, 0, 3, 2, 22), (0, 3, 0, 3, 2, 30), (0, 4, 0, 3, 2, 38), (0, 4, 0, 3, 2, 54),
     (0, 1, 0, 3, 3, 10), (0, 1, 0, 3, 3, 12), (0, 2, 0, 3, 3, 14), (0, 2, 0, 3, 3, 18),
     (0, 3, 0, 3, 3, 22), (0, 3, 0, 3, 3, 30), (0, 4, 0, 3, 3, 38), (0, 4, 0, 3, 3, 54),
     (0, 1, 0, 3, 4, 10), (0, 1, 0, 3, 4, 12), (0, 2, 0, 3, 4, 14), (0, 2, 0, 3, 4, 18),
     (0, 3, 0, 3, 4, 22), (0, 3, 0, 3, 4, 30), (0, 4, 0, 3, 4, 38), (0, 4, 0, 3, 4, 54),
     (0, 1, 0, 3, 5, 10), (0, 1, 0, 3, 5, 12), (0, 2, 0, 3, 5, 14), (0, 2, 0, 3, 5, 18),
     (0, 3, 0, 3, 5, 22), (0, 3, 0, 3, 5, 30), (0, 4, 0, 3, 5, 38), (0, 4, 0, 3, 5, 54),
     (1, 1, 0, 3, 6, 10), (1, 1, 0, 3, 6, 12), (1, 2, 0, 3, 6, 14), (1, 2, 0, 3, 6, 18),
     (1, 3, 0, 3, 6, 22), (1, 3, 0, 3, 6, 30), (1, 4, 0, 3, 6, 38), (1, 4, 0, 3, 6, 54),
     (1, 1, 0, 3, 8, 10), (1, 1, 0, 3, 8, 12), (1, 2, 0, 3, 8, 14), (1, 2, 0, 3, 8, 18),
     (1, 3, 0, 3, 8, 22), (1, 3, 0, 3, 8, 30), (1, 4, 0, 3, 8, 38), (1, 4, 0, 3, 8, 54)]"

definition kCmdLut_128 :: "cmd_row list" where
  "kCmdLut_128 = [
     (0, 0, - 1, 0, 0, 2), (0, 0, - 1, 1, 0, 3), (0, 0, - 1, 2, 0, 4), (0, 0, - 1, 3, 0, 5),
     (0, 0, - 1, 3, 0, 6), (0, 0, - 1, 3, 0, 7), (0, 0, - 1, 3, 0, 8), (0, 0, - 1, 3, 0, 9),
     (0, 0, - 1, 0, 1, 2), (0, 0, - 1, 1, 1, 3), (0, 0, - 1, 2, 1, 4), (0, 0, - 1, 3, 1, 5),
     (0, 0, - 1, 3, 1, 6), (0, 0, - 1, 3, 1, 7), (0, 0, - 1, 3, 1, 8), (0, 0, - 1, 3, 1, 9),
     (0, 0, - 1, 0, 2, 2), (0, 0, - 1, 1, 2, 3), (0, 0, - 1, 2, 2, 4), (0, 0, - 1, 3, 2, 5),
     (0, 0, - 1, 3, 2, 6), (0, 0, - 1, 3, 2, 7), (0, 0, - 1, 3, 2, 8), (0, 0, - 1, 3, 2, 9),
     (0, 0, - 1, 0, 3, 2), (0, 0, - 1, 1, 3, 3), (0, 0, - 1, 2, 3, 4), (0, 0, - 1, 3, 3, 5),
     (0, 0, - 1, 3, 3, 6), (0, 0, - 1, 3, 3, 7), (0, 0, - 1, 3, 3, 8), (0, 0, - 1, 3, 3, 9),
     (0, 0, - 1, 0, 4, 2), (0, 0, - 1, 1, 4, 3), (0, 0, - 1, 2, 4, 4), (0, 0, - 1, 3, 4, 5),
     (0, 0, - 1, 3, 4, 6), (0, 0, - 1, 3, 4, 7), (0, 0, - 1, 3, 4, 8), (0, 0, - 1, 3, 4, 9),
     (0, 0, - 1, 0, 5, 2), (0, 0, - 1, 1, 5, 3), (0, 0, - 1, 2, 5, 4), (0, 0, - 1, 3, 5, 5),
     (0, 0, - 1, 3, 5, 6), (0, 0, - 1, 3, 5, 7), (0, 0, - 1, 3, 5, 8), (0, 0, - 1, 3, 5, 9),
     (1, 0, - 1, 0, 6, 2), (1, 0, - 1, 1, 6, 3), (1, 0, - 1, 2, 6, 4), (1, 0, - 1, 3, 6, 5),
     (1, 0, - 1, 3, 6, 6), (1, 0, - 1, 3, 6, 7), (1, 0, - 1, 3, 6, 8), (1, 0, - 1, 3, 6, 9),
     (1, 0, - 1, 0, 8, 2), (1, 0, - 1, 1, 8, 3), (1, 0, - 1, 2, 8, 4), (1, 0, - 1, 3, 8, 5),
     (1, 0, - 1, 3, 8, 6), (1, 0, - 1, 3, 8, 7), (1, 0, - 1, 3, 8, 8), (1, 0, - 1, 3, 8, 9),
     (0, 1, - 1, 3, 0, 10), (0, 1, - 1, 3, 0, 12), (0, 2, - 1, 3, 0, 14), (0, 2, - 1, 3, 0, 18),
     (0, 3, - 1, 3, 0, 22), (0, 3, - 1, 3, 0, 30), (0, 4, - 1, 3, 0, 38), (0, 4, - 1, 3, 0, 54),
     (0, 1, - 1, 3, 1, 10), (0, 1, - 1, 3, 1, 12), (0, 2, - 1, 3, 1, 14), (0, 2, - 1, 3, 1, 18),
     (0, 3, - 1, 3, 1, 22), (0, 3, - 1, 3, 1, 30), (0, 4, - 1, 3, 1, 38), (0, 4, - 1, 3, 1, 54),
     (0, 1, - 1, 3, 2, 10), (0, 1, - 1, 3, 2, 12), (0, 2, - 1, 3, 2, 14), (0, 2, - 1, 3, 2, 18),
     (0, 3, - 1, 3, 2, 22), (0, 3, - 1, 3, 2, 30), (0, 4, - 1, 3, 2, 38), (0, 4, - 1, 3, 2, 54),
     (0, 1, - 1, 3, 3, 10), (0, 1, - 1, 3, 3, 12), (0, 2, - 1, 3, 3, 14), (0, 2, - 1, 3, 3, 18),
     (0, 3, - 1, 3, 3, 22), (0, 3, - 1, 3, 3, 30), (0, 4, - 1, 3, 3, 38), (0, 4, - 1, 3, 3, 54),
     (0, 1, - 1, 3, 4, 10), (0, 1, - 1, 3, 4, 12), (0, 2, - 1, 3, 4, 14), (0, 2, - 1, 3, 4, 18),
     (0, 3, - 1, 3, 4, 22), (0, 3, - 1, 3, 4, 30), (0, 4, - 1, 3, 4, 38), (0, 4, - 1, 3, 4, 54),
     (0, 1, - 1, 3, 5, 10), (0, 1, - 1, 3, 5, 12), (0, 2, - 1, 3, 5, 14), (0, 2, - 1, 3, 5, 18),
     (0, 3, - 1, 3, 5, 22), (0, 3, - 1, 3, 5, 30), (0, 4, - 1, 3, 5, 38), (0, 4, - 1, 3, 5, 54),
     (1, 1, - 1, 3, 6, 10), (1, 1, - 1, 3, 6, 12), (1, 2, - 1, 3, 6, 14), (1, 2, - 1, 3, 6, 18),
     (1, 3, - 1, 3, 6, 22), (1, 3, - 1, 3, 6, 30), (1, 4, - 1, 3, 6, 38), (1, 4, - 1, 3, 6, 54),
     (1, 1, - 1, 3, 8, 10), (1, 1, - 1, 3, 8, 12), (1, 2, - 1, 3, 8, 14), (1, 2, - 1, 3, 8, 18),
     (1, 3, - 1, 3, 8, 22), (1, 3, - 1, 3, 8, 30), (1, 4, - 1, 3, 8, 38), (1, 4, - 1, 3, 8, 54)]"

definition kCmdLut_256 :: "cmd_row list" where
  "kCmdLut_256 = [
     (2, 0, - 1, 0, 10, 2), (2, 0, - 1, 1, 10, 3), (2, 0, - 1, 2, 10, 4), (2, 0, - 1, 3, 10, 5),
     (2, 0, - 1, 3, 10, 6), (2, 0, - 1, 3, 10, 7), (2, 0, - 1, 3, 10, 8), (2, 0, - 1, 3, 10, 9),
     (2, 0, - 1, 0, 14, 2), (2, 0, - 1, 1, 14, 3), (2, 0, - 1, 2, 14, 4), (2, 0, - 1, 3, 14, 5),
     (2, 0, - 1, 3, 14, 6), (2, 0, - 1, 3, 14, 7), (2, 0, - 1, 3, 14, 8), (2, 0, - 1, 3, 14, 9),
     (3, 0, - 1, 0, 18, 2), (3, 0, - 1, 1, 18, 3), (3, 0, - 1, 2, 18, 4), (3, 0, - 1, 3, 18, 5),
     (3, 0, - 1, 3, 18, 6), (3, 0, - 1, 3, 18, 7), (3, 0, - 1, 3, 18, 8), (3, 0, - 1, 3, 18, 9),
     (3, 0, - 1, 0, 26, 2), (3, 0, - 1, 1, 26, 3), (3, 0, - 1, 2, 26, 4), (3, 0, - 1, 3, 26, 5),
     (3, 0, - 1, 3, 26, 6), (3, 0, - 1, 3, 26, 7), (3, 0, - 1, 3, 26, 8), (3, 0, - 1, 3, 26, 9),
     (4, 0, - 1, 0, 34, 2), (4, 0, - 1, 1, 34, 3), (4, 0, - 1, 2, 34, 4), (4, 0, - 1, 3, 34, 5),
     (4, 0, - 1, 3, 34, 6), (4, 0, - 1, 3, 34, 7), (4, 0, - 1, 3, 34, 8), (4, 0, - 1, 3, 34, 9),
     (4, 0, - 1, 0, 50, 2), (4, 0, - 1, 1, 50, 3), (4, 0, - 1, 2, 50, 4), (4, 0, - 1, 3, 50, 5),
     (4, 0, - 1, 3, 50, 6), (4, 0, - 1, 3, 50, 7), (4, 0, - 1, 3, 50, 8), (4, 0, - 1, 3, 50, 9),
     (5, 0, - 1, 0, 66, 2), (5, 0, - 1, 1, 66, 3), (5, 0, - 1, 2, 66, 4), (5, 0, - 1, 3, 66, 5),
     (5, 0, - 1, 3, 66, 6), (5, 0, - 1, 3, 66, 7), (5, 0, - 1, 3, 66, 8), (5, 0, - 1, 3, 66, 9),
     (5, 0, - 1, 0, 98, 2), (5, 0, - 1, 1, 98, 3), (5, 0, - 1, 2, 98, 4), (5, 0, - 1, 3, 98, 5),
     (5, 0, - 1, 3, 98, 6), (5, 0, - 1, 3, 98, 7), (5, 0, - 1, 3, 98, 8), (5, 0, - 1, 3, 98, 9),
     (2, 1, - 1, 3, 10, 10), (2, 1, - 1, 3, 10, 12), (2, 2, - 1, 3, 10, 14), (2, 2, - 1, 3, 10, 18),
     (2, 3, - 1, 3, 10, 22), (2, 3, - 1, 3, 10, 30), (2, 4, - 1, 3, 10, 38), (2, 4, - 1, 3, 10, 54),
     (2, 1, - 1, 3, 14, 10), (2, 1, - 1, 3, 14, 12), (2, 2, - 1, 3, 14, 14), (2, 2, - 1, 3, 14, 18),
     (2, 3, - 1, 3, 14, 22), (2, 3, - 1, 3, 14, 30), (2, 4, - 1, 3, 14, 38), (2, 4, - 1, 3, 14, 54),
     (3, 1, - 1, 3, 18, 10), (3, 1, - 1, 3, 18, 12), (3, 2, - 1, 3, 18, 14), (3, 2, - 1, 3, 18, 18),
     (3, 3, - 1, 3, 18, 22), (3, 3, - 1, 3, 18, 30), (3, 4, - 1, 3, 18, 38), (3, 4, - 1, 3, 18, 54),
     (3, 1, - 1, 3, 26, 10), (3, 1, - 1, 3, 26, 12), (3, 2, - 1, 3, 26, 14), (3, 2, - 1, 3, 26, 18),
     (3, 3, - 1, 3, 26, 22), (3, 3, - 1, 3, 26, 30), (3, 4, - 1, 3, 26, 38), (3, 4, - 1, 3, 26, 54),
     (4, 1, - 1, 3, 34, 10), (4, 1, - 1, 3, 34, 12), (4, 2, - 1, 3, 34, 14), (4, 2, - 1, 3, 34, 18),
     (4, 3, - 1, 3, 34, 22), (4, 3, - 1, 3, 34, 30), (4, 4, - 1, 3, 34, 38), (4, 4, - 1, 3, 34, 54),
     (4, 1, - 1, 3, 50, 10), (4, 1, - 1, 3, 50, 12), (4, 2, - 1, 3, 50, 14), (4, 2, - 1, 3, 50, 18),
     (4, 3, - 1, 3, 50, 22), (4, 3, - 1, 3, 50, 30), (4, 4, - 1, 3, 50, 38), (4, 4, - 1, 3, 50, 54),
     (5, 1, - 1, 3, 66, 10), (5, 1, - 1, 3, 66, 12), (5, 2, - 1, 3, 66, 14), (5, 2, - 1, 3, 66, 18),
     (5, 3, - 1, 3, 66, 22), (5, 3, - 1, 3, 66, 30), (5, 4, - 1, 3, 66, 38), (5, 4, - 1, 3, 66, 54),
     (5, 1, - 1, 3, 98, 10), (5, 1, - 1, 3, 98, 12), (5, 2, - 1, 3, 98, 14), (5, 2, - 1, 3, 98, 18),
     (5, 3, - 1, 3, 98, 22), (5, 3, - 1, 3, 98, 30), (5, 4, - 1, 3, 98, 38), (5, 4, - 1, 3, 98, 54)]"

definition kCmdLut_384 :: "cmd_row list" where
  "kCmdLut_384 = [
     (0, 5, - 1, 3, 0, 70), (0, 5, - 1, 3, 0, 102), (0, 6, - 1, 3, 0, 134), (0, 7, - 1, 3, 0, 198),
     (0, 8, - 1, 3, 0, 326), (0, 9, - 1, 3, 0, 582), (0, 10, - 1, 3, 0, 1094), (0, 24, - 1, 3, 0, 2118),
     (0, 5, - 1, 3, 1, 70), (0, 5, - 1, 3, 1, 102), (0, 6, - 1, 3, 1, 134), (0, 7, - 1, 3, 1, 198),
     (0, 8, - 1, 3, 1, 326), (0, 9, - 1, 3, 1, 582), (0, 10, - 1, 3, 1, 1094), (0, 24, - 1, 3, 1, 2118),
     (0, 5, - 1, 3, 2, 70), (0, 5, - 1, 3, 2, 102), (0, 6, - 1, 3, 2, 134), (0, 7, - 1, 3, 2, 198),
     (0, 8, - 1, 3, 2, 326), (0, 9, - 1, 3, 2, 582), (0, 10, - 1, 3, 2, 1094), (0, 24, - 1, 3, 2, 2118),
     (0, 5, - 1, 3, 3, 70), (0, 5, - 1, 3, 3, 102), (0, 6, - 1, 3, 3, 134), (0, 7, - 1, 3, 3, 198),
     (0, 8, - 1, 3, 3, 326), (0, 9, - 1, 3, 3, 582), (0, 10, - 1, 3, 3, 1094), (0, 24, - 1, 3, 3, 2118),
     (0, 5, - 1, 3, 4, 70), (0, 5, - 1, 3, 4, 102), (0, 6, - 1, 3, 4, 134), (0, 7, - 1, 3, 4, 198),
     (0, 8, - 1, 3, 4, 326), (0, 9, - 1, 3, 4, 582), (0, 10, - 1, 3, 4, 1094), (0, 24, - 1, 3, 4, 2118),
     (0, 5, - 1, 3, 5, 70), (0, 5, - 1, 3, 5, 102), (0, 6, - 1, 3, 5, 134), (0, 7, - 1, 3, 5, 198),
     (0, 8, - 1, 3, 5, 326), (0, 9, - 1, 3, 5, 582), (0, 10, - 1, 3, 5, 1094), (0, 24, - 1, 3, 5, 2118),
     (1, 5, - 1, 3, 6, 70), (1, 5, - 1, 3, 6, 102), (1, 6, - 1, 3, 6, 134), (1, 7, - 1, 3, 6, 198),
     (1, 8, - 1, 3, 6, 326), (1, 9, - 1, 3, 6, 582), (1, 10, - 1, 3, 6, 1094), (1, 24, - 1, 3, 6, 2118),
     (1, 5, - 1, 3, 8, 70), (1, 5, - 1, 3, 8, 102), (1, 6, - 1, 3, 8, 134), (1, 7, - 1, 3, 8, 198),
     (1, 8, - 1, 3, 8, 326), (1, 9, - 1, 3, 8, 582), (1, 10, - 1, 3, 8, 1094), (1, 24, - 1, 3, 8, 2118),
     (6, 0, - 1, 0, 130, 2), (6, 0, - 1, 1, 130, 3), (6, 0, - 1, 2, 130, 4), (6, 0, - 1, 3, 130, 5),
     (6, 0, - 1, 3, 130, 6), (6, 0, - 1, 3, 130, 7), (6, 0, - 1, 3, 130, 8), (6, 0, - 1, 3, 130, 9),
     (7, 0, - 1, 0, 194, 2), (7, 0, - 1, 1, 194, 3), (7, 0, - 1, 2, 194, 4), (7, 0, - 1, 3, 194, 5),
     (7, 0, - 1, 3, 194, 6), (7, 0, - 1, 3, 194, 7), (7, 0, - 1, 3, 194, 8), (7, 0, - 1, 3, 194, 9),
     (8, 0, - 1, 0, 322, 2), (8, 0, - 1, 1, 322, 3), (8, 0, - 1, 2, 322, 4), (8, 0, - 1, 3, 322, 5),
     (8, 0, - 1, 3, 322, 6), (8, 0, - 1, 3, 322, 7), (8, 0, - 1, 3, 322, 8), (8, 0, - 1, 3, 322, 9),
     (9, 0, - 1, 0, 578, 2), (9, 0, - 1, 1, 578, 3), (9, 0, - 1, 2, 578, 4), (9, 0, - 1, 3, 578, 5),
     (9, 0, - 1, 3, 578, 6), (9, 0, - 1, 3, 578, 7), (9, 0, - 1, 3, 578, 8), (9, 0, - 1, 3, 578, 9),
     (10, 0, - 1, 0, 1090, 2), (10, 0, - 1, 1, 1090, 3), (10, 0, - 1, 2, 1090, 4), (10, 0, - 1, 3, 1090, 5),
     (10, 0, - 1, 3, 1090, 6), (10, 0, - 1, 3, 1090, 7), (10, 0, - 1, 3, 1090, 8), (10, 0, - 1, 3, 1090, 9),
     (12, 0, - 1, 0, 2114, 2), (12, 0, - 1, 1, 2114, 3), (12, 0, - 1, 2, 2114, 4), (12, 0, - 1, 3, 2114, 5),
     (12, 0, - 1, 3, 2114, 6), (12, 0, - 1, 3, 2114, 7), (12, 0, - 1, 3, 2114, 8), (12, 0, - 1, 3, 2114, 9),
     (14, 0, - 1, 0, 6210, 2), (14, 0, - 1, 1, 6210, 3), (14, 0, - 1, 2, 6210, 4), (14, 0, - 1, 3, 6210, 5),
     (14, 0, - 1, 3, 6210, 6), (14, 0, - 1, 3, 6210, 7), (14, 0, - 1, 3, 6210, 8), (14, 0, - 1, 3, 6210, 9),
     (24, 0, - 1, 0, 22594, 2), (24, 0, - 1, 1, 22594, 3), (24, 0, - 1, 2, 22594, 4), (24, 0, - 1, 3, 22594, 5),
     (24, 0, - 1, 3, 22594, 6), (24, 0, - 1, 3, 22594, 7), (24, 0, - 1, 3, 22594, 8), (24, 0, - 1, 3, 22594, 9)]"

definition kCmdLut_512 :: "cmd_row list" where
  "kCmdLut_512 = [
     (2, 5, - 1, 3, 10, 70), (2, 5, - 1, 3, 10, 102), (2, 6, - 1, 3, 10, 134), (2, 7, - 1, 3, 10, 198),
     (2, 8, - 1, 3, 10, 326), (2, 9, - 1, 3, 10, 582), (2, 10, - 1, 3, 10, 1094), (2, 24, - 1, 3, 10, 2118),
     (2, 5, - 1, 3, 14, 70), (2, 5, - 1, 3, 14, 102), (2, 6, - 1, 3, 14, 134), (2, 7, - 1, 3, 14, 198),
     (2, 8, - 1, 3, 14, 326), (2, 9, - 1, 3, 14, 582), (2, 10, - 1, 3, 14, 1094), (2, 24, - 1, 3, 14, 2118),
     (3, 5, - 1, 3, 18, 70), (3, 5, - 1, 3, 18, 102), (3, 6, - 1, 3, 18, 134), (3, 7, - 1, 3, 18, 198),
     (3, 8, - 1, 3, 18, 326), (3, 9, - 1, 3, 18, 582), (3, 10, - 1, 3, 18, 1094), (3, 24, - 1, 3, 18, 2118),
     (3, 5, - 1, 3, 26, 70), (3, 5, - 1, 3, 26, 102), (3, 6, - 1, 3, 26, 134), (3, 7, - 1, 3, 26, 198),
     (3, 8, - 1, 3, 26, 326), (3, 9, - 1, 3, 26, 582), (3, 10, - 1, 3, 26, 1094), (3, 24, - 1, 3, 26, 2118),
     (4, 5, - 1, 3, 34, 70), (4, 5, - 1, 3, 34, 102), (4, 6, - 1, 3, 34, 134), (4, 7, - 1, 3, 34, 198),
     (4, 8, - 1, 3, 34, 326), (4, 9, - 1, 3, 34, 582), (4, 10, - 1, 3, 34, 1094), (4, 24, - 1, 3, 34, 2118),
     (4, 5, - 1, 3, 50, 70), (4, 5, - 1, 3, 50, 102), (4, 6, - 1, 3, 50, 134), (4, 7, - 1, 3, 50, 198),
     (4, 8, - 1, 3, 50, 326), (4, 9, - 1, 3, 50, 582), (4, 10, - 1, 3, 50, 1094), (4, 24, - 1, 3, 50, 2118),
     (5, 5, - 1, 3, 66, 70), (5, 5, - 1, 3, 66, 102), (5, 6, - 1, 3, 66, 134), (5, 7, - 1, 3, 66, 198),
     (5, 8, - 1, 3, 66, 326), (5, 9, - 1, 3, 66, 582), (5, 10, - 1, 3, 66, 1094), (5, 24, - 1, 3, 66, 2118),
     (5, 5, - 1, 3, 98, 70), (5, 5, - 1, 3, 98, 102), (5, 6, - 1, 3, 98, 134), (5, 7, - 1, 3, 98, 198),
     (5, 8, - 1, 3, 98, 326), (5, 9, - 1, 3, 98, 582), (5, 10, - 1, 3, 98, 1094), (5, 24, - 1, 3, 98, 2118),
     (6, 1, - 1, 3, 130, 10), (6, 1, - 1, 3, 130, 12), (6, 2, - 1, 3, 130, 14), (6, 2, - 1, 3, 130, 18),
     (6, 3, - 1, 3, 130, 22), (6, 3, - 1, 3, 130, 30), (6, 4, - 1, 3, 130, 38), (6, 4, - 1, 3, 130, 54),
     (7, 1, - 1, 3, 194, 10), (7, 1, - 1, 3, 194, 12), (7, 2, - 1, 3, 194, 14), (7, 2, - 1, 3, 194, 18),
     (7, 3, - 1, 3, 194, 22), (7, 3, - 1, 3, 194, 30), (7, 4, - 1, 3, 194, 38), (7, 4, - 1, 3, 194, 54),
     (8, 1, - 1, 3, 322, 10), (8, 1, - 1, 3, 322, 12), (8, 2, - 1, 3, 322, 14), (8, 2, - 1, 3, 322, 18),
     (8, 3, - 1, 3, 322, 22), (8, 3, - 1, 3, 322, 30), (8, 4, - 1, 3, 322, 38), (8, 4, - 1, 3, 322, 54),
     (9, 1, - 1, 3, 578, 10), (9, 1, - 1, 3, 578, 12), (9, 2, - 1, 3, 578, 14), (9, 2, - 1, 3, 578, 18),
     (9, 3, - 1, 3, 578, 22), (9, 3, - 1, 3, 578, 30), (9, 4, - 1, 3, 578, 38), (9, 4, - 1, 3, 578, 54),
     (10, 1, - 1, 3, 1090, 10), (10, 1, - 1, 3, 1090, 12), (10, 2, - 1, 3, 1090, 14), (10, 2, - 1, 3, 1090, 18),
     (10, 3, - 1, 3, 1090, 22), (10, 3, - 1, 3, 1090, 30), (10, 4, - 1, 3, 1090, 38), (10, 4, - 1, 3, 1090, 54),
     (12, 1, - 1, 3, 2114, 10), (12, 1, - 1, 3, 2114, 12), (12, 2, - 1, 3, 2114, 14), (12, 2, - 1, 3, 2114, 18),
     (12, 3, - 1, 3, 2114, 22), (12, 3, - 1, 3, 2114, 30), (12, 4, - 1, 3, 2114, 38), (12, 4, - 1, 3, 2114, 54),
     (14, 1, - 1, 3, 6210, 10), (14, 1, - 1, 3, 6210, 12), (14, 2, - 1, 3, 6210, 14), (14, 2, - 1, 3, 6210, 18),
     (14, 3, - 1, 3, 6210, 22), (14, 3, - 1, 3, 6210, 30), (14, 4, - 1, 3, 6210, 38), (14, 4, - 1, 3, 6210, 54),
     (24, 1, - 1, 3, 22594, 10), (24, 1, - 1, 3, 22594, 12), (24, 2, - 1, 3, 22594, 14), (24, 2, - 1, 3, 22594, 18),
     (24, 3, - 1, 3, 22594, 22), (24, 3, - 1, 3, 22594, 30), (24, 4, - 1, 3, 22594, 38), (24, 4, - 1, 3, 22594, 54)]"

definition kCmdLut_640 :: "cmd_row list" where
  "kCmdLut_640 = [
     (6, 5, - 1, 3, 130, 70), (6, 5, - 1, 3, 130, 102), (6, 6, - 1, 3, 130, 134), (6, 7, - 1, 3, 130, 198),
     (6, 8, - 1, 3, 130, 326), (6, 9, - 1, 3, 130, 582), (6, 10, - 1, 3, 130, 1094), (6, 24, - 1, 3, 130, 2118),
     (7, 5, - 1, 3, 194, 70), (7, 5, - 1, 3, 194, 102), (7, 6, - 1, 3, 194, 134), (7, 7, - 1, 3, 194, 198),
     (7, 8, - 1, 3, 194, 326), (7, 9, - 1, 3, 194, 582), (7, 10, - 1, 3, 194, 1094), (7, 24, - 1, 3, 194, 2118),
     (8, 5, - 1, 3, 322, 70), (8, 5, - 1, 3, 322, 102), (8, 6, - 1, 3, 322, 134), (8, 7, - 1, 3, 322, 198),
     (8, 8, - 1, 3, 322, 326), (8, 9, - 1, 3, 322, 582), (8, 10, - 1, 3, 322, 1094), (8, 24, - 1, 3, 322, 2118),
     (9, 5, - 1, 3, 578, 70), (9, 5, - 1, 3, 578, 102), (9, 6, - 1, 3, 578, 134), (9, 7, - 1, 3, 578, 198),
     (9, 8, - 1, 3, 578, 326), (9, 9, - 1, 3, 578, 582), (9, 10, - 1, 3, 578, 1094), (9, 24, - 1, 3, 578, 2118),
     (10, 5, - 1, 3, 1090, 70), (10, 5, - 1, 3, 1090, 102), (10, 6, - 1, 3, 1090, 134), (10, 7, - 1, 3, 1090, 198),
     (10, 8, - 1, 3, 1090, 326), (10, 9, - 1, 3, 1090, 582), (10, 10, - 1, 3, 1090, 1094), (10, 24, - 1, 3, 1090, 2118),
     (12, 5, - 1, 3, 2114, 70), (12, 5, - 1, 3, 2114, 102), (12, 6, - 1, 3, 2114, 134), (12, 7, - 1, 3, 2114, 198),
     (12, 8, - 1, 3, 2114, 326), (12, 9, - 1, 3, 2114, 582), (12, 10, - 1, 3, 2114, 1094), (12, 24, - 1, 3, 2114, 2118),
     (14, 5, - 1, 3, 6210, 70), (14, 5, - 1, 3, 6210, 102), (14, 6, - 1, 3, 6210, 134), (14, 7, - 1, 3, 6210, 198),
     (14, 8, - 1, 3, 6210, 326), (14, 9, - 1, 3, 6210, 582), (14, 10, - 1, 3, 6210, 1094), (14, 24, - 1, 3, 6210, 2118),
     (24, 5, - 1, 3, 22594, 70), (24, 5, - 1, 3, 22594, 102), (24, 6, - 1, 3, 22594, 134), (24, 7, - 1, 3, 22594, 198),
     (24, 8, - 1, 3, 22594, 326), (24, 9, - 1, 3, 22594, 582), (24, 10, - 1, 3, 22594, 1094), (24, 24, - 1, 3, 22594, 2118)]"

definition kCmdLut :: "CmdLutElement list" where
  "kCmdLut = map cmd_element (concat [kCmdLut_0, kCmdLut_128, kCmdLut_256, kCmdLut_384, kCmdLut_512, kCmdLut_640])"

end
