(* ===== verification/Transforms.thy ===== *)
theory Transforms
  imports Brotli_Constants
begin

text \<open>
  \<^verbatim>\<open>common/transform.h\<close> and \<^verbatim>\<open>common/transform.c\<close>: the word transforms of the static dictionary.  The output
  goes to an array \<open>dst\<close> at offset \<open>base\<close> (the ring buffer at the current position in the decoder).
\<close>

section \<open>Data\<close>

abbreviation (input) BROTLI_TRANSFORM_IDENTITY :: int where "BROTLI_TRANSFORM_IDENTITY \<equiv> 0"
abbreviation (input) BROTLI_TRANSFORM_OMIT_LAST_9 :: int where "BROTLI_TRANSFORM_OMIT_LAST_9 \<equiv> 9"
abbreviation (input) BROTLI_TRANSFORM_UPPERCASE_FIRST :: int where "BROTLI_TRANSFORM_UPPERCASE_FIRST \<equiv> 10"
abbreviation (input) BROTLI_TRANSFORM_UPPERCASE_ALL :: int where "BROTLI_TRANSFORM_UPPERCASE_ALL \<equiv> 11"
abbreviation (input) BROTLI_TRANSFORM_OMIT_FIRST_1 :: int where "BROTLI_TRANSFORM_OMIT_FIRST_1 \<equiv> 12"
abbreviation (input) BROTLI_TRANSFORM_OMIT_FIRST_9 :: int where "BROTLI_TRANSFORM_OMIT_FIRST_9 \<equiv> 20"
abbreviation (input) BROTLI_TRANSFORM_SHIFT_FIRST :: int where "BROTLI_TRANSFORM_SHIFT_FIRST \<equiv> 21"
abbreviation (input) BROTLI_TRANSFORM_SHIFT_ALL :: int where "BROTLI_TRANSFORM_SHIFT_ALL \<equiv> 22"

record BrotliTransforms =
  prefix_suffix_size :: uint16
  prefix_suffix :: "uint8 list"
  prefix_suffix_map :: "uint16 list"
  num_transforms :: uint32
  transforms :: "uint8 list"
  params :: "uint8 list option"
  cutOffTransforms :: "int list"

definition kPrefixSuffix :: "uint8 list" where
  "kPrefixSuffix = [
     1, 32, 2, 44, 32, 8, 32, 111, 102, 32, 116, 104, 101, 32, 4, 32, 111, 102, 32, 2,
     115, 32, 1, 46, 5, 32, 97, 110, 100, 32, 4, 32, 105, 110, 32, 1, 34, 4, 32, 116,
     111, 32, 2, 34, 62, 1, 10, 2, 46, 32, 1, 93, 5, 32, 102, 111, 114, 32, 3, 32,
     97, 32, 6, 32, 116, 104, 97, 116, 32, 1, 39, 6, 32, 119, 105, 116, 104, 32, 6, 32,
     102, 114, 111, 109, 32, 4, 32, 98, 121, 32, 1, 40, 6, 46, 32, 84, 104, 101, 32, 4,
     32, 111, 110, 32, 4, 32, 97, 115, 32, 4, 32, 105, 115, 32, 4, 105, 110, 103, 32, 2,
     10, 9, 1, 58, 3, 101, 100, 32, 2, 61, 34, 4, 32, 97, 116, 32, 3, 108, 121, 32,
     1, 44, 2, 61, 39, 5, 46, 99, 111, 109, 47, 7, 46, 32, 84, 104, 105, 115, 32, 5,
     32, 110, 111, 116, 32, 3, 101, 114, 32, 3, 97, 108, 32, 4, 102, 117, 108, 32, 4, 105,
     118, 101, 32, 5, 108, 101, 115, 115, 32, 4, 101, 115, 116, 32, 4, 105, 122, 101, 32, 2,
     194, 160, 4, 111, 117, 115, 32, 5, 32, 116, 104, 101, 32, 2, 101, 32, 0]"

definition kPrefixSuffixMap :: "uint16 list" where
  "kPrefixSuffixMap = [
     0, 2, 5, 14, 19, 22, 24, 30, 35, 37, 42, 45, 47, 50, 52,
     58, 62, 69, 71, 78, 85, 90, 92, 99, 104, 109, 114, 119, 122, 124,
     128, 131, 136, 140, 142, 145, 151, 159, 165, 169, 173, 178, 183, 189, 194,
     199, 202, 207, 213, 216]"

text \<open>The triplets \<open>(prefix, transform, suffix)\<close>; the C array is their concatenation.\<close>

definition kTransformsRows :: "(uint8 \<times> uint8 \<times> uint8) list" where
  "kTransformsRows = [
     (49, 0, 49), (49, 0, 0), (0, 0, 0), (49, 12, 49), (49, 10, 0), (49, 0, 47),
     (0, 0, 49), (4, 0, 0), (49, 0, 3), (49, 10, 49), (49, 0, 6), (49, 13, 49),
     (49, 1, 49), (1, 0, 0), (49, 0, 1), (0, 10, 0), (49, 0, 7), (49, 0, 9),
     (48, 0, 0), (49, 0, 8), (49, 0, 5), (49, 0, 10), (49, 0, 11), (49, 3, 49),
     (49, 0, 13), (49, 0, 14), (49, 14, 49), (49, 2, 49), (49, 0, 15), (49, 0, 16),
     (0, 10, 49), (49, 0, 12), (5, 0, 49), (0, 0, 1), (49, 15, 49), (49, 0, 18),
     (49, 0, 17), (49, 0, 19), (49, 0, 20), (49, 16, 49), (49, 17, 49), (47, 0, 49),
     (49, 4, 49), (49, 0, 22), (49, 11, 49), (49, 0, 23), (49, 0, 24), (49, 0, 25),
     (49, 7, 49), (49, 1, 26), (49, 0, 27), (49, 0, 28), (0, 0, 12), (49, 0, 29),
     (49, 20, 49), (49, 18, 49), (49, 6, 49), (49, 0, 21), (49, 10, 1), (49, 8, 49),
     (49, 0, 31), (49, 0, 32), (47, 0, 3), (49, 5, 49), (49, 9, 49), (0, 10, 1),
     (49, 10, 8), (5, 0, 21), (49, 11, 0), (49, 10, 10), (49, 0, 30), (0, 0, 5),
     (35, 0, 49), (47, 0, 2), (49, 10, 17), (49, 0, 36), (49, 0, 33), (5, 0, 0),
     (49, 10, 21), (49, 10, 5), (49, 0, 37), (0, 0, 30), (49, 0, 38), (0, 11, 0),
     (49, 0, 39), (0, 11, 49), (49, 0, 34), (49, 11, 8), (49, 10, 12), (0, 0, 21),
     (49, 0, 40), (0, 10, 12), (49, 0, 41), (49, 0, 42), (49, 11, 17), (49, 0, 43),
     (0, 10, 5), (49, 11, 10), (0, 0, 34), (49, 10, 33), (49, 0, 44), (49, 11, 5),
     (45, 0, 49), (0, 0, 33), (49, 10, 30), (49, 11, 30), (49, 0, 46), (49, 11, 1),
     (49, 10, 34), (0, 10, 33), (0, 11, 30), (0, 11, 1), (49, 11, 33), (49, 11, 21),
     (49, 11, 12), (0, 11, 5), (49, 11, 34), (0, 11, 12), (0, 10, 30), (0, 11, 34),
     (0, 10, 34)]"

definition kTransformsData :: "uint8 list" where
  "kTransformsData = concat (map (\<lambda>(p, t, s). [p, t, s]) kTransformsRows)"

definition kBrotliTransforms :: BrotliTransforms where
  "kBrotliTransforms =
     \<lparr>prefix_suffix_size = 217,
      prefix_suffix = kPrefixSuffix,
      prefix_suffix_map = kPrefixSuffixMap,
      num_transforms = of_nat (length kTransformsData div 3),
      transforms = kTransformsData,
      params = None,
      cutOffTransforms = [0, 12, 27, 23, 42, 63, 56, 48, 59, 64]\<rparr>"

definition BrotliGetTransforms :: BrotliTransforms where
  "BrotliGetTransforms = kBrotliTransforms"

definition transform_type :: "BrotliTransforms \<Rightarrow> nat \<Rightarrow> uint8 option" where
  "transform_type T i = arr_get (transforms T) (i * 3 + 1)"

text \<open>Offsets of the prefix and of the suffix in \<open>prefix_suffix\<close>.\<close>

definition transform_prefix :: "BrotliTransforms \<Rightarrow> nat \<Rightarrow> nat option" where
  "transform_prefix T i = do {
     x \<leftarrow> arr_get (transforms T) (i * 3);
     m \<leftarrow> arr_get (prefix_suffix_map T) (unat x);
     Some (unat m) }"

definition transform_suffix :: "BrotliTransforms \<Rightarrow> nat \<Rightarrow> nat option" where
  "transform_suffix T i = do {
     x \<leftarrow> arr_get (transforms T) (i * 3 + 2);
     m \<leftarrow> arr_get (prefix_suffix_map T) (unat x);
     Some (unat m) }"

section \<open>Case and shift of one rune\<close>

definition ToUpperCase :: "uint8 list \<Rightarrow> nat \<Rightarrow> (int \<times> uint8 list) option" where
  "ToUpperCase dst p = do {
     p0 \<leftarrow> arr_get dst p;
     if p0 < 0xC0 then
       (if 97 \<le> p0 \<and> p0 \<le> 122 then do {
          dst \<leftarrow> arr_set dst p (p0 XOR 32);
          Some (1, dst) }
        else Some (1, dst))
     else if p0 < 0xE0 then do {
       p1 \<leftarrow> arr_get dst (p + 1);
       dst \<leftarrow> arr_set dst (p + 1) (p1 XOR 32);
       Some (2, dst) }
     else do {
       p2 \<leftarrow> arr_get dst (p + 2);
       dst \<leftarrow> arr_set dst (p + 2) (p2 XOR 5);
       Some (3, dst) } }"

definition Shift :: "uint8 list \<Rightarrow> nat \<Rightarrow> int \<Rightarrow> uint16 \<Rightarrow> (int \<times> uint8 list) option" where
  "Shift dst p word_len parameter = do {
     let scalar = ((ucast parameter AND 0x7FFF) + (0x1000000 - (ucast parameter AND 0x8000)) :: uint32);
     w0 \<leftarrow> arr_get dst p;
     if w0 < 0x80 then do {
       let scalar = scalar + ucast w0;
       dst \<leftarrow> arr_set dst p (ucast (scalar AND 0x7F));
       Some (1, dst) }
     else if w0 < 0xC0 then Some (1, dst)
     else if w0 < 0xE0 then
       (if word_len < 2 then Some (1, dst)
        else do {
          w1 \<leftarrow> arr_get dst (p + 1);
          let scalar = scalar + ((ucast w1 AND 0x3F) OR push_bit 6 (ucast w0 AND 0x1F));
          dst \<leftarrow> arr_set dst p (ucast (0xC0 OR (drop_bit 6 scalar AND 0x1F)));
          dst \<leftarrow> arr_set dst (p + 1) (ucast ((ucast w1 AND 0xC0) OR (scalar AND 0x3F)));
          Some (2, dst) })
     else if w0 < 0xF0 then
       (if word_len < 3 then Some (word_len, dst)
        else do {
          w1 \<leftarrow> arr_get dst (p + 1);
          w2 \<leftarrow> arr_get dst (p + 2);
          let scalar = scalar + ((ucast w2 AND 0x3F) OR push_bit 6 (ucast w1 AND 0x3F)
                                 OR push_bit 12 (ucast w0 AND 0x0F));
          dst \<leftarrow> arr_set dst p (ucast (0xE0 OR (drop_bit 12 scalar AND 0x0F)));
          dst \<leftarrow> arr_set dst (p + 1) (ucast ((ucast w1 AND 0xC0) OR (drop_bit 6 scalar AND 0x3F)));
          dst \<leftarrow> arr_set dst (p + 2) (ucast ((ucast w2 AND 0xC0) OR (scalar AND 0x3F)));
          Some (3, dst) })
     else if w0 < 0xF8 then
       (if word_len < 4 then Some (word_len, dst)
        else do {
          w1 \<leftarrow> arr_get dst (p + 1);
          w2 \<leftarrow> arr_get dst (p + 2);
          w3 \<leftarrow> arr_get dst (p + 3);
          let scalar = scalar + ((ucast w3 AND 0x3F) OR push_bit 6 (ucast w2 AND 0x3F)
                                 OR push_bit 12 (ucast w1 AND 0x3F) OR push_bit 18 (ucast w0 AND 0x07));
          dst \<leftarrow> arr_set dst p (ucast (0xF0 OR (drop_bit 18 scalar AND 0x07)));
          dst \<leftarrow> arr_set dst (p + 1) (ucast ((ucast w1 AND 0xC0) OR (drop_bit 12 scalar AND 0x3F)));
          dst \<leftarrow> arr_set dst (p + 2) (ucast ((ucast w2 AND 0xC0) OR (drop_bit 6 scalar AND 0x3F)));
          dst \<leftarrow> arr_set dst (p + 3) (ucast ((ucast w3 AND 0xC0) OR (scalar AND 0x3F)));
          Some (4, dst) })
     else Some (1, dst) }"

lemma ToUpperCase_step: "ToUpperCase dst p = Some (s, dst') \<Longrightarrow> 1 \<le> s \<and> s \<le> 3"
  by (auto simp: ToUpperCase_def bind_Some_iff split: if_splits)

lemma Shift_step: "Shift dst p n par = Some (s, dst') \<Longrightarrow> 0 < n \<Longrightarrow> 1 \<le> s"
  by (auto simp: Shift_def Let_def bind_Some_iff split: if_splits)

section \<open>Transforming a word\<close>

text \<open>The loops \<open>while (n--) dst[idx++] = src[i++];\<close>.\<close>

fun copy_run :: "uint8 list \<Rightarrow> nat \<Rightarrow> uint8 list \<Rightarrow> nat \<Rightarrow> nat \<Rightarrow> uint8 list option" where
  "copy_run dst idx src i 0 = Some dst"
| "copy_run dst idx src i (Suc n) = do {
     b \<leftarrow> arr_get src i;
     dst \<leftarrow> arr_set dst idx b;
     copy_run dst (idx + 1) src (i + 1) n }"

function upper_all :: "uint8 list \<Rightarrow> nat \<Rightarrow> int \<Rightarrow> uint8 list option" where
  "upper_all dst p len =
     (if len > 0 then do {
        r \<leftarrow> ToUpperCase dst p;
        upper_all (snd r) (p + nat (fst r)) (len - fst r) }
      else Some dst)"
  by pat_completeness auto
termination
  by (relation "measure (\<lambda>(dst, p, len). nat len)") (auto dest: ToUpperCase_step)

function shift_all :: "uint8 list \<Rightarrow> nat \<Rightarrow> int \<Rightarrow> uint16 \<Rightarrow> uint8 list option" where
  "shift_all dst p len param =
     (if len > 0 then do {
        r \<leftarrow> Shift dst p len param;
        shift_all (snd r) (p + nat (fst r)) (len - fst r) param }
      else Some dst)"
  by pat_completeness auto
termination
  by (relation "measure (\<lambda>(dst, p, len, param). nat len)") (auto dest!: Shift_step)

declare upper_all.simps [simp del] shift_all.simps [simp del]

text \<open>\<open>transforms->params[2 * i] + (transforms->params[2 * i + 1] << 8)\<close>.\<close>

definition transform_param :: "BrotliTransforms \<Rightarrow> nat \<Rightarrow> uint16 option" where
  "transform_param T i = do {
     ps \<leftarrow> params T;
     lo \<leftarrow> arr_get ps (i * 2);
     hi \<leftarrow> arr_get ps (i * 2 + 1);
     Some (ucast lo + push_bit 8 (ucast hi)) }"

text \<open>What a transform does with the word copied to \<open>[p, p + len)\<close>.\<close>

definition transform_apply ::
  "BrotliTransforms \<Rightarrow> nat \<Rightarrow> int \<Rightarrow> uint8 list \<Rightarrow> nat \<Rightarrow> int \<Rightarrow> uint8 list option" where
  "transform_apply T transform_idx t dst p len =
     (if t = BROTLI_TRANSFORM_UPPERCASE_FIRST then map_option snd (ToUpperCase dst p)
      else if t = BROTLI_TRANSFORM_UPPERCASE_ALL then upper_all dst p len
      else if t = BROTLI_TRANSFORM_SHIFT_FIRST then do {
        param \<leftarrow> transform_param T transform_idx;
        map_option snd (Shift dst p len param) }
      else if t = BROTLI_TRANSFORM_SHIFT_ALL then do {
        param \<leftarrow> transform_param T transform_idx;
        shift_all dst p len param }
      else Some dst)"

definition BrotliTransformDictionaryWord ::
  "uint8 list \<Rightarrow> nat \<Rightarrow> uint8 list \<Rightarrow> nat \<Rightarrow> int \<Rightarrow> BrotliTransforms \<Rightarrow> nat \<Rightarrow> (int \<times> uint8 list) option" where
  "BrotliTransformDictionaryWord dst base data word len T transform_idx = do {
     prefix \<leftarrow> transform_prefix T transform_idx;
     type \<leftarrow> transform_type T transform_idx;
     suffix \<leftarrow> transform_suffix T transform_idx;
     prefix_len \<leftarrow> arr_get (prefix_suffix T) prefix;
     dst \<leftarrow> copy_run dst base (prefix_suffix T) (prefix + 1) (unat prefix_len);
     let idx = unat prefix_len;
     let t = uint type;
     let skip = (if BROTLI_TRANSFORM_OMIT_FIRST_1 \<le> t \<and> t \<le> BROTLI_TRANSFORM_OMIT_FIRST_9
                 then t - (BROTLI_TRANSFORM_OMIT_FIRST_1 - 1) else 0);
     let len = (if t \<le> BROTLI_TRANSFORM_OMIT_LAST_9 then len - t else len - skip);
     dst \<leftarrow> copy_run dst (base + idx) data (word + nat skip) (nat len);
     let idx = idx + nat len;
     let at = int (base + idx) - len;
     dst \<leftarrow> (if 0 \<le> at then transform_apply T transform_idx t dst (nat at) len else None);
     suffix_len \<leftarrow> arr_get (prefix_suffix T) suffix;
     dst \<leftarrow> copy_run dst (base + idx) (prefix_suffix T) (suffix + 1) (unat suffix_len);
     Some (int (idx + unat suffix_len), dst) }"

end
