(* ===== verification/Decoder_State.thy ===== *)
theory Decoder_State
  imports Bit_Reader Huffman_Tables Context_Lut Transforms Cmd_Lut
begin

text \<open>
  \<^verbatim>\<open>dec/state.h\<close>, \<^verbatim>\<open>dec/state.c\<close>, \<^verbatim>\<open>include/brotli/decode.h\<close> and \<^verbatim>\<open>common/dictionary.h\<close>: the decoder's
  state, its life cycle and the result codes.

  Fields of \<open>BrotliDecoderState\<close> carry the prefix \<open>d_\<close>, those of the header and the body arena \<open>h_\<close> and
  \<open>b_\<close>.  A pointer that may be \<open>NULL\<close> is an \<open>option\<close>; a pointer into an array of the state is the offset.
  The arenas are a union in C: the body arena is written after the last use of the header arena in a
  meta-block, and the header arena is set up again before its first use in the next, so the model
  keeps both.

  Memory comes from \<open>alloc_func\<close>, code the client supplies: the parameter \<open>d_alloc\<close> maps the number of the
  call and the size to \<open>None\<close> (\<open>NULL\<close>) or to the bytes the fresh block happens to hold, as a function
  of their position.  A freed block is gone from the state, so an access to it is undefined (\<open>None\<close>).
\<close>

section \<open>Result and error codes\<close>

datatype BrotliDecoderResult =
    BROTLI_DECODER_RESULT_ERROR
  | BROTLI_DECODER_RESULT_SUCCESS
  | BROTLI_DECODER_RESULT_NEEDS_MORE_INPUT
  | BROTLI_DECODER_RESULT_NEEDS_MORE_OUTPUT

datatype BrotliDecoderErrorCode =
    BROTLI_DECODER_NO_ERROR
  | BROTLI_DECODER_SUCCESS
  | BROTLI_DECODER_NEEDS_MORE_INPUT
  | BROTLI_DECODER_NEEDS_MORE_OUTPUT
  | BROTLI_DECODER_ERROR_FORMAT_EXUBERANT_NIBBLE
  | BROTLI_DECODER_ERROR_FORMAT_RESERVED
  | BROTLI_DECODER_ERROR_FORMAT_EXUBERANT_META_NIBBLE
  | BROTLI_DECODER_ERROR_FORMAT_SIMPLE_HUFFMAN_ALPHABET
  | BROTLI_DECODER_ERROR_FORMAT_SIMPLE_HUFFMAN_SAME
  | BROTLI_DECODER_ERROR_FORMAT_CL_SPACE
  | BROTLI_DECODER_ERROR_FORMAT_HUFFMAN_SPACE
  | BROTLI_DECODER_ERROR_FORMAT_CONTEXT_MAP_REPEAT
  | BROTLI_DECODER_ERROR_FORMAT_BLOCK_LENGTH_1
  | BROTLI_DECODER_ERROR_FORMAT_BLOCK_LENGTH_2
  | BROTLI_DECODER_ERROR_FORMAT_TRANSFORM
  | BROTLI_DECODER_ERROR_FORMAT_DICTIONARY
  | BROTLI_DECODER_ERROR_FORMAT_WINDOW_BITS
  | BROTLI_DECODER_ERROR_FORMAT_PADDING_1
  | BROTLI_DECODER_ERROR_FORMAT_PADDING_2
  | BROTLI_DECODER_ERROR_FORMAT_DISTANCE
  | BROTLI_DECODER_ERROR_DICTIONARY_NOT_SET
  | BROTLI_DECODER_ERROR_INVALID_ARGUMENTS
  | BROTLI_DECODER_ERROR_ALLOC_CONTEXT_MODES
  | BROTLI_DECODER_ERROR_ALLOC_TREE_GROUPS
  | BROTLI_DECODER_ERROR_ALLOC_CONTEXT_MAP
  | BROTLI_DECODER_ERROR_ALLOC_RING_BUFFER_1
  | BROTLI_DECODER_ERROR_ALLOC_RING_BUFFER_2
  | BROTLI_DECODER_ERROR_ALLOC_BLOCK_TYPE_TREES
  | BROTLI_DECODER_ERROR_UNREACHABLE

fun error_value :: "BrotliDecoderErrorCode \<Rightarrow> int" where
  "error_value BROTLI_DECODER_NO_ERROR = 0"
| "error_value BROTLI_DECODER_SUCCESS = 1"
| "error_value BROTLI_DECODER_NEEDS_MORE_INPUT = 2"
| "error_value BROTLI_DECODER_NEEDS_MORE_OUTPUT = 3"
| "error_value BROTLI_DECODER_ERROR_FORMAT_EXUBERANT_NIBBLE = - 1"
| "error_value BROTLI_DECODER_ERROR_FORMAT_RESERVED = - 2"
| "error_value BROTLI_DECODER_ERROR_FORMAT_EXUBERANT_META_NIBBLE = - 3"
| "error_value BROTLI_DECODER_ERROR_FORMAT_SIMPLE_HUFFMAN_ALPHABET = - 4"
| "error_value BROTLI_DECODER_ERROR_FORMAT_SIMPLE_HUFFMAN_SAME = - 5"
| "error_value BROTLI_DECODER_ERROR_FORMAT_CL_SPACE = - 6"
| "error_value BROTLI_DECODER_ERROR_FORMAT_HUFFMAN_SPACE = - 7"
| "error_value BROTLI_DECODER_ERROR_FORMAT_CONTEXT_MAP_REPEAT = - 8"
| "error_value BROTLI_DECODER_ERROR_FORMAT_BLOCK_LENGTH_1 = - 9"
| "error_value BROTLI_DECODER_ERROR_FORMAT_BLOCK_LENGTH_2 = - 10"
| "error_value BROTLI_DECODER_ERROR_FORMAT_TRANSFORM = - 11"
| "error_value BROTLI_DECODER_ERROR_FORMAT_DICTIONARY = - 12"
| "error_value BROTLI_DECODER_ERROR_FORMAT_WINDOW_BITS = - 13"
| "error_value BROTLI_DECODER_ERROR_FORMAT_PADDING_1 = - 14"
| "error_value BROTLI_DECODER_ERROR_FORMAT_PADDING_2 = - 15"
| "error_value BROTLI_DECODER_ERROR_FORMAT_DISTANCE = - 16"
| "error_value BROTLI_DECODER_ERROR_DICTIONARY_NOT_SET = - 19"
| "error_value BROTLI_DECODER_ERROR_INVALID_ARGUMENTS = - 20"
| "error_value BROTLI_DECODER_ERROR_ALLOC_CONTEXT_MODES = - 21"
| "error_value BROTLI_DECODER_ERROR_ALLOC_TREE_GROUPS = - 22"
| "error_value BROTLI_DECODER_ERROR_ALLOC_CONTEXT_MAP = - 25"
| "error_value BROTLI_DECODER_ERROR_ALLOC_RING_BUFFER_1 = - 26"
| "error_value BROTLI_DECODER_ERROR_ALLOC_RING_BUFFER_2 = - 27"
| "error_value BROTLI_DECODER_ERROR_ALLOC_BLOCK_TYPE_TREES = - 30"
| "error_value BROTLI_DECODER_ERROR_UNREACHABLE = - 31"

section \<open>The running states\<close>

datatype BrotliRunningState =
    BROTLI_STATE_UNINITED
  | BROTLI_STATE_LARGE_WINDOW_BITS
  | BROTLI_STATE_INITIALIZE
  | BROTLI_STATE_METABLOCK_BEGIN
  | BROTLI_STATE_METABLOCK_HEADER
  | BROTLI_STATE_METABLOCK_HEADER_2
  | BROTLI_STATE_CONTEXT_MODES
  | BROTLI_STATE_COMMAND_BEGIN
  | BROTLI_STATE_COMMAND_INNER
  | BROTLI_STATE_COMMAND_POST_DECODE_LITERALS
  | BROTLI_STATE_COMMAND_POST_WRAP_COPY
  | BROTLI_STATE_UNCOMPRESSED
  | BROTLI_STATE_METADATA
  | BROTLI_STATE_COMMAND_INNER_WRITE
  | BROTLI_STATE_METABLOCK_DONE
  | BROTLI_STATE_COMMAND_POST_WRITE_1
  | BROTLI_STATE_COMMAND_POST_WRITE_2
  | BROTLI_STATE_BEFORE_COMPRESSED_METABLOCK_HEADER
  | BROTLI_STATE_HUFFMAN_CODE_0
  | BROTLI_STATE_HUFFMAN_CODE_1
  | BROTLI_STATE_HUFFMAN_CODE_2
  | BROTLI_STATE_HUFFMAN_CODE_3
  | BROTLI_STATE_CONTEXT_MAP_1
  | BROTLI_STATE_CONTEXT_MAP_2
  | BROTLI_STATE_TREE_GROUP
  | BROTLI_STATE_BEFORE_COMPRESSED_METABLOCK_BODY
  | BROTLI_STATE_DONE

datatype BrotliRunningMetablockHeaderState =
    BROTLI_STATE_METABLOCK_HEADER_NONE
  | BROTLI_STATE_METABLOCK_HEADER_EMPTY
  | BROTLI_STATE_METABLOCK_HEADER_NIBBLES
  | BROTLI_STATE_METABLOCK_HEADER_SIZE
  | BROTLI_STATE_METABLOCK_HEADER_UNCOMPRESSED
  | BROTLI_STATE_METABLOCK_HEADER_RESERVED
  | BROTLI_STATE_METABLOCK_HEADER_BYTES
  | BROTLI_STATE_METABLOCK_HEADER_METADATA

datatype BrotliRunningUncompressedState =
    BROTLI_STATE_UNCOMPRESSED_NONE
  | BROTLI_STATE_UNCOMPRESSED_WRITE

datatype BrotliRunningTreeGroupState =
    BROTLI_STATE_TREE_GROUP_NONE
  | BROTLI_STATE_TREE_GROUP_LOOP

datatype BrotliRunningContextMapState =
    BROTLI_STATE_CONTEXT_MAP_NONE
  | BROTLI_STATE_CONTEXT_MAP_READ_PREFIX
  | BROTLI_STATE_CONTEXT_MAP_HUFFMAN
  | BROTLI_STATE_CONTEXT_MAP_DECODE
  | BROTLI_STATE_CONTEXT_MAP_TRANSFORM

datatype BrotliRunningHuffmanState =
    BROTLI_STATE_HUFFMAN_NONE
  | BROTLI_STATE_HUFFMAN_SIMPLE_SIZE
  | BROTLI_STATE_HUFFMAN_SIMPLE_READ
  | BROTLI_STATE_HUFFMAN_SIMPLE_BUILD
  | BROTLI_STATE_HUFFMAN_COMPLEX
  | BROTLI_STATE_HUFFMAN_LENGTH_SYMBOLS

datatype BrotliRunningDecodeUint8State =
    BROTLI_STATE_DECODE_UINT8_NONE
  | BROTLI_STATE_DECODE_UINT8_SHORT
  | BROTLI_STATE_DECODE_UINT8_LONG

datatype BrotliRunningReadBlockLengthState =
    BROTLI_STATE_READ_BLOCK_LENGTH_NONE
  | BROTLI_STATE_READ_BLOCK_LENGTH_SUFFIX

section \<open>The static dictionary\<close>

record BrotliDictionary =
  size_bits_by_length :: "uint8 list"
  offsets_by_length :: "uint32 list"
  data_size :: nat
  dict_data :: "uint8 list option"

text \<open>
  The dictionary of RFC 7932; its 122784 bytes are a parameter, as in the build with
  \<open>BROTLI_EXTERNAL_DICTIONARY_DATA\<close>, where \<open>None\<close> is the state before \<open>BrotliSetDictionaryData\<close>.
\<close>

definition kBrotliDictionary :: "uint8 list option \<Rightarrow> BrotliDictionary" where
  "kBrotliDictionary words =
     \<lparr>size_bits_by_length =
        [0, 0, 0, 0, 10, 10, 11, 11,
         10, 10, 10, 10, 10, 9, 9, 8,
         7, 7, 8, 7, 7, 6, 6, 5,
         5, 0, 0, 0, 0, 0, 0, 0],
      offsets_by_length =
        [0, 0, 0, 0, 0, 4096, 9216, 21504,
         35840, 44032, 53248, 63488, 74752, 87040, 93696, 100864,
         104704, 106752, 108928, 113536, 115968, 118528, 119872, 121280,
         122016, 122784, 122784, 122784, 122784, 122784, 122784, 122784],
      data_size = 122784,
      dict_data = words\<rparr>"

definition BrotliSetDictionaryData :: "BrotliDictionary \<Rightarrow> uint8 list option \<Rightarrow> BrotliDictionary" where
  "BrotliSetDictionaryData d new =
     (if new \<noteq> None \<and> dict_data d = None then d\<lparr>dict_data := new\<rparr> else d)"

section \<open>The state\<close>

record BrotliMetablockHeaderArena =
  h_substate_tree_group :: BrotliRunningTreeGroupState
  h_substate_context_map :: BrotliRunningContextMapState
  h_substate_huffman :: BrotliRunningHuffmanState
  h_sub_loop_counter :: uint32
  h_repeat_code_len :: uint32
  h_prev_code_len :: uint32
  h_symbol :: uint32
  h_repeat :: uint32
  h_space :: uint32
  h_table :: "HuffmanCode list"
  h_symbols_lists_array :: "uint16 list"
  h_next_symbol :: "int list"
  h_code_length_code_lengths :: "uint8 list"
  h_code_length_histo :: "uint16 list"
  h_htree_index :: int
  h_next :: nat
  h_context_index :: uint32
  h_max_run_length_prefix :: uint32
  h_code :: uint32
  h_context_map_table :: "HuffmanCode list"

record BrotliMetablockBodyArena =
  b_dist_extra_bits :: "uint8 list"
  b_dist_offset :: "uint32 list"

type_synonym allocator = "nat \<Rightarrow> nat \<Rightarrow> (nat \<Rightarrow> uint8) option"

record BrotliDecoderState =
  d_state :: BrotliRunningState
  d_loop_counter :: int
  d_br :: BrotliBitReader
  d_alloc :: allocator
  d_alloc_calls :: nat
  d_buffer :: "uint8 list"
  d_buffer_length :: uint32
  d_pos :: int
  d_max_backward_distance :: int
  d_max_distance :: int
  d_ringbuffer_size :: int
  d_ringbuffer_mask :: int
  d_dist_rb_idx :: int
  d_dist_rb :: "int list"
  d_error_code :: int
  d_ringbuffer :: "uint8 list option"
  d_ringbuffer_end :: int
  d_htree_command :: "nat option"
  d_context_lookup :: "ContextLut option"
  d_context_map_slice :: "nat option"
  d_dist_context_map_slice :: "nat option"
  d_literal_hgroup :: HuffmanTreeGroup
  d_insert_copy_hgroup :: HuffmanTreeGroup
  d_distance_hgroup :: HuffmanTreeGroup
  d_block_type_trees :: "HuffmanCode list option"
  d_block_len_trees :: "HuffmanCode list option"
  d_trivial_literal_context :: bool
  d_distance_context :: int
  d_meta_block_remaining_len :: int
  d_block_length_index :: uint32
  d_block_length :: "uint32 list"
  d_num_block_types :: "uint32 list"
  d_block_type_rb :: "uint32 list"
  d_distance_postfix_bits :: uint32
  d_num_direct_distance_codes :: uint32
  d_num_dist_htrees :: uint32
  d_dist_context_map :: "uint8 list option"
  d_literal_htree :: "nat option"
  d_dist_htree_index :: uint8
  d_copy_length :: int
  d_distance_code :: int
  d_rb_roundtrips :: uint64
  d_partial_pos_out :: uint64
  d_mtf_upper_bound :: uint32
  d_mtf :: "uint8 list"
  d_substate_metablock_header :: BrotliRunningMetablockHeaderState
  d_substate_uncompressed :: BrotliRunningUncompressedState
  d_substate_decode_uint8 :: BrotliRunningDecodeUint8State
  d_substate_read_block_length :: BrotliRunningReadBlockLengthState
  d_is_last_metablock :: bool
  d_is_uncompressed :: bool
  d_is_metadata :: bool
  d_should_wrap_ringbuffer :: bool
  d_canny_ringbuffer_allocation :: bool
  d_large_window :: bool
  d_size_nibbles :: uint8
  d_window_bits :: uint32
  d_new_ringbuffer_size :: int
  d_num_literal_htrees :: uint32
  d_context_map :: "uint8 list option"
  d_context_modes :: "uint8 list option"
  d_dictionary :: BrotliDictionary
  d_transforms :: BrotliTransforms
  d_trivial_literal_contexts :: "uint32 list"
  d_header :: BrotliMetablockHeaderArena
  d_body :: BrotliMetablockBodyArena

section \<open>Memory\<close>

definition BROTLI_DECODER_ALLOC ::
  "BrotliDecoderState \<Rightarrow> nat \<Rightarrow> uint8 list option \<times> BrotliDecoderState" where
  "BROTLI_DECODER_ALLOC s n =
     (map_option (\<lambda>content. map content [0..<n]) (d_alloc s (d_alloc_calls s) n),
      s\<lparr>d_alloc_calls := d_alloc_calls s + 1\<rparr>)"

lemma BROTLI_DECODER_ALLOC_length:
  "BROTLI_DECODER_ALLOC s n = (Some bytes, s') \<Longrightarrow> length bytes = n"
  by (auto simp: BROTLI_DECODER_ALLOC_def)

text \<open>Four bytes read as a \<open>HuffmanCode\<close>: \<open>bits\<close>, a byte of padding, \<open>value\<close>.\<close>

fun huffman_cells :: "uint8 list \<Rightarrow> HuffmanCode list" where
  "huffman_cells (b # p # lo # hi # bs) = ConstructHuffmanCode b (le_word [lo, hi]) # huffman_cells bs"
| "huffman_cells bs = []"

lemma length_huffman_cells [simp]: "length (huffman_cells bs) = length bs div 4"
  by (induction bs rule: huffman_cells.induct) simp_all

section \<open>Life cycle\<close>

text \<open>
  \<open>s\<close> is the uninitialised memory of the state: fields the function does not assign keep what it holds.
  \<open>malloc\<close> stands behind \<open>BrotliDefaultAllocFunc\<close>.
\<close>

definition BrotliDecoderStateInit ::
  "uint8 list option \<Rightarrow> allocator \<Rightarrow> allocator option \<Rightarrow> BrotliDecoderState \<Rightarrow> BrotliDecoderState" where
  "BrotliDecoderStateInit words malloc alloc_func s =
     s\<lparr>d_alloc := (case alloc_func of None \<Rightarrow> malloc | Some f \<Rightarrow> f),
       d_error_code := 0,
       d_br := BrotliInitBitReader (d_br s),
       d_state := BROTLI_STATE_UNINITED,
       d_large_window := False,
       d_substate_metablock_header := BROTLI_STATE_METABLOCK_HEADER_NONE,
       d_substate_uncompressed := BROTLI_STATE_UNCOMPRESSED_NONE,
       d_substate_decode_uint8 := BROTLI_STATE_DECODE_UINT8_NONE,
       d_substate_read_block_length := BROTLI_STATE_READ_BLOCK_LENGTH_NONE,
       d_buffer_length := 0,
       d_loop_counter := 0,
       d_pos := 0,
       d_rb_roundtrips := 0,
       d_partial_pos_out := 0,
       d_block_type_trees := None,
       d_block_len_trees := None,
       d_ringbuffer := None,
       d_ringbuffer_size := 0,
       d_new_ringbuffer_size := 0,
       d_ringbuffer_mask := 0,
       d_context_map := None,
       d_context_modes := None,
       d_dist_context_map := None,
       d_context_map_slice := None,
       d_dist_context_map_slice := None,
       d_literal_hgroup := (d_literal_hgroup s)\<lparr>codes := [], htrees := []\<rparr>,
       d_insert_copy_hgroup := (d_insert_copy_hgroup s)\<lparr>codes := [], htrees := []\<rparr>,
       d_distance_hgroup := (d_distance_hgroup s)\<lparr>codes := [], htrees := []\<rparr>,
       d_is_last_metablock := False,
       d_is_uncompressed := False,
       d_is_metadata := False,
       d_should_wrap_ringbuffer := False,
       d_canny_ringbuffer_allocation := True,
       d_window_bits := 0,
       d_max_distance := 0,
       d_dist_rb := [16, 15, 11, 4],
       d_dist_rb_idx := 0,
       d_mtf_upper_bound := 63,
       d_dictionary := kBrotliDictionary words,
       d_transforms := kBrotliTransforms\<rparr>"

definition BrotliDecoderStateMetablockBegin :: "BrotliDecoderState \<Rightarrow> BrotliDecoderState" where
  "BrotliDecoderStateMetablockBegin s =
     s\<lparr>d_meta_block_remaining_len := 0,
       d_block_length := [0x1000000, 0x1000000, 0x1000000],
       d_num_block_types := [1, 1, 1],
       d_block_type_rb := [1, 0, 1, 0, 1, 0],
       d_context_map := None,
       d_context_modes := None,
       d_dist_context_map := None,
       d_context_map_slice := None,
       d_literal_htree := None,
       d_dist_context_map_slice := None,
       d_dist_htree_index := 0,
       d_context_lookup := None,
       d_literal_hgroup := (d_literal_hgroup s)\<lparr>codes := [], htrees := []\<rparr>,
       d_insert_copy_hgroup := (d_insert_copy_hgroup s)\<lparr>codes := [], htrees := []\<rparr>,
       d_distance_hgroup := (d_distance_hgroup s)\<lparr>codes := [], htrees := []\<rparr>\<rparr>"

definition BrotliDecoderStateCleanupAfterMetablock :: "BrotliDecoderState \<Rightarrow> BrotliDecoderState" where
  "BrotliDecoderStateCleanupAfterMetablock s =
     s\<lparr>d_context_modes := None,
       d_context_map := None,
       d_dist_context_map := None,
       d_literal_hgroup := (d_literal_hgroup s)\<lparr>codes := [], htrees := []\<rparr>,
       d_insert_copy_hgroup := (d_insert_copy_hgroup s)\<lparr>codes := [], htrees := []\<rparr>,
       d_distance_hgroup := (d_distance_hgroup s)\<lparr>codes := [], htrees := []\<rparr>\<rparr>"

definition BrotliDecoderStateCleanup :: "BrotliDecoderState \<Rightarrow> BrotliDecoderState" where
  "BrotliDecoderStateCleanup s =
     (BrotliDecoderStateCleanupAfterMetablock s)
       \<lparr>d_ringbuffer := None, d_block_type_trees := None, d_block_len_trees := None\<rparr>"

text \<open>
  The block of a tree grp holds \<open>ntrees\<close> pointers (8 bytes each) and then the code cells (4 bytes each);
  the pointers are not yet set.
\<close>

definition BrotliDecoderHuffmanTreeGroupInit ::
  "BrotliDecoderState \<Rightarrow> HuffmanTreeGroup \<Rightarrow> uint32 \<Rightarrow> uint32 \<Rightarrow> uint32 \<Rightarrow>
     bool \<times> HuffmanTreeGroup \<times> BrotliDecoderState" where
  "BrotliDecoderHuffmanTreeGroupInit s grp alphabet_max alphabet_limit ntrees =
     (let max_table_size = unat (alphabet_limit + 376);
          code_size = 4 * unat ntrees * max_table_size;
          htree_size = 8 * unat ntrees;
          (p, s) = BROTLI_DECODER_ALLOC s (code_size + htree_size)
      in (p \<noteq> None,
          grp\<lparr>alphabet_size_max := ucast alphabet_max,
                alphabet_size_limit := ucast alphabet_limit,
                num_htrees := ucast ntrees,
                htrees := (if p = None then [] else replicate (unat ntrees) None),
                codes := (case p of None \<Rightarrow> [] | Some bytes \<Rightarrow> huffman_cells (drop htree_size bytes))\<rparr>,
          s))"

section \<open>The instance\<close>

abbreviation (input) BROTLI_DECODER_PARAM_DISABLE_RING_BUFFER_REALLOCATION :: nat where
  "BROTLI_DECODER_PARAM_DISABLE_RING_BUFFER_REALLOCATION \<equiv> 0"
abbreviation (input) BROTLI_DECODER_PARAM_LARGE_WINDOW :: nat where
  "BROTLI_DECODER_PARAM_LARGE_WINDOW \<equiv> 1"

definition BrotliDecoderSetParameter ::
  "BrotliDecoderState \<Rightarrow> nat \<Rightarrow> uint32 \<Rightarrow> bool \<times> BrotliDecoderState" where
  "BrotliDecoderSetParameter s p val =
     (if d_state s \<noteq> BROTLI_STATE_UNINITED then (False, s)
      else if p = BROTLI_DECODER_PARAM_DISABLE_RING_BUFFER_REALLOCATION then
        (True, s\<lparr>d_canny_ringbuffer_allocation := (val = 0)\<rparr>)
      else if p = BROTLI_DECODER_PARAM_LARGE_WINDOW then
        (True, s\<lparr>d_large_window := (val \<noteq> 0)\<rparr>)
      else (False, s))"

text \<open>
  \<open>sizeof_state\<close> is \<open>sizeof(BrotliDecoderState)\<close> and \<open>fresh\<close> what the block for the state holds.  The two
  function pointers must be both given or both \<open>NULL\<close>; the allocation of the state is the first call.
\<close>

definition BrotliDecoderCreateInstance ::
  "uint8 list option \<Rightarrow> allocator \<Rightarrow> nat \<Rightarrow> BrotliDecoderState \<Rightarrow> allocator option \<Rightarrow> bool \<Rightarrow>
     BrotliDecoderState option" where
  "BrotliDecoderCreateInstance words malloc sizeof_state fresh alloc_func free_func =
     (let got = (case alloc_func of
                   None \<Rightarrow> \<not> free_func \<and> malloc 0 sizeof_state \<noteq> None
                 | Some f \<Rightarrow> free_func \<and> f 0 sizeof_state \<noteq> None)
      in if \<not> got then None
         else Some ((BrotliDecoderStateInit words malloc alloc_func fresh)\<lparr>d_alloc_calls := 1\<rparr>))"

definition SaveErrorCode ::
  "BrotliDecoderState \<Rightarrow> BrotliDecoderErrorCode \<Rightarrow> BrotliDecoderResult \<times> BrotliDecoderState" where
  "SaveErrorCode s e =
     (case e of
        BROTLI_DECODER_SUCCESS \<Rightarrow> BROTLI_DECODER_RESULT_SUCCESS
      | BROTLI_DECODER_NEEDS_MORE_INPUT \<Rightarrow> BROTLI_DECODER_RESULT_NEEDS_MORE_INPUT
      | BROTLI_DECODER_NEEDS_MORE_OUTPUT \<Rightarrow> BROTLI_DECODER_RESULT_NEEDS_MORE_OUTPUT
      | _ \<Rightarrow> BROTLI_DECODER_RESULT_ERROR,
      s\<lparr>d_error_code := error_value e\<rparr>)"

definition BrotliDecoderGetErrorCode :: "BrotliDecoderState \<Rightarrow> int" where
  "BrotliDecoderGetErrorCode s = d_error_code s"

end
