(* ===== verification/Decode_Header.thy ===== *)
theory Decode_Header
  imports Decoder_State
begin

text \<open>
  \<^verbatim>\<open>dec/decode.c\<close>: the stream header (\<open>DecodeWindowBits\<close>), the variable-length \<open>uint8\<close> and the
  meta-block header.

  The bit reader of these functions is the state's own (\<open>s->br\<close>).  A \<open>switch\<close> over a sub-state is one
  definition per \<open>case\<close> label, which calls the next one where the C code falls through; a \<open>break\<close> that
  goes round the \<open>for (;;)\<close> is a call of the definition for the label the sub-state then names.
\<close>

section \<open>Reading from the state's bit reader\<close>

definition s_read :: "BrotliDecoderState \<Rightarrow> uint32 \<Rightarrow> (uint32 option \<times> BrotliDecoderState) option" where
  "s_read s n = do {
     (r, br) \<leftarrow> BrotliSafeReadBits (d_br s) n;
     Some (r, s\<lparr>d_br := br\<rparr>) }"

definition s_take :: "BrotliDecoderState \<Rightarrow> uint32 \<Rightarrow> (uint32 \<times> BrotliDecoderState) option" where
  "s_take s n = do {
     (v, br) \<leftarrow> BrotliTakeBits (d_br s) n;
     Some (v, s\<lparr>d_br := br\<rparr>) }"

section \<open>Window bits\<close>

definition DecodeWindowBits ::
  "BrotliDecoderState \<Rightarrow> (BrotliDecoderErrorCode \<times> BrotliDecoderState) option" where
  "DecodeWindowBits s = (let large_window = d_large_window s; s = s\<lparr>d_large_window := False\<rparr> in do {
     (n, s) \<leftarrow> s_take s 1;
     if n = 0 then Some (BROTLI_DECODER_SUCCESS, s\<lparr>d_window_bits := 16\<rparr>)
     else do {
       (n, s) \<leftarrow> s_take s 3;
       if n \<noteq> 0 then Some (BROTLI_DECODER_SUCCESS, s\<lparr>d_window_bits := 17 + n\<rparr>)
       else do {
         (n, s) \<leftarrow> s_take s 3;
         if n = 1 then
           (if large_window then do {
              (n, s) \<leftarrow> s_take s 1;
              if n = 1 then Some (BROTLI_DECODER_ERROR_FORMAT_WINDOW_BITS, s)
              else Some (BROTLI_DECODER_SUCCESS, s\<lparr>d_large_window := True\<rparr>) }
            else Some (BROTLI_DECODER_ERROR_FORMAT_WINDOW_BITS, s))
         else if n \<noteq> 0 then Some (BROTLI_DECODER_SUCCESS, s\<lparr>d_window_bits := 8 + n\<rparr>)
         else Some (BROTLI_DECODER_SUCCESS, s\<lparr>d_window_bits := 17\<rparr>) } } })"

section \<open>Variable-length uint8\<close>

text \<open>The out-parameter \<open>value\<close> is also the temporary of a suspended call, so it is an argument too.\<close>

definition dvu_long ::
  "BrotliDecoderState \<Rightarrow> uint32 \<Rightarrow> (BrotliDecoderErrorCode \<times> uint32 \<times> BrotliDecoderState) option" where
  "dvu_long s val = do {
     (r, s) \<leftarrow> s_read s val;
     (case r of
        None \<Rightarrow> Some (BROTLI_DECODER_NEEDS_MORE_INPUT, val,
                      s\<lparr>d_substate_decode_uint8 := BROTLI_STATE_DECODE_UINT8_LONG\<rparr>)
      | Some bits \<Rightarrow> do {
          one \<leftarrow> shl32 1 val;
          Some (BROTLI_DECODER_SUCCESS, one + bits,
                s\<lparr>d_substate_decode_uint8 := BROTLI_STATE_DECODE_UINT8_NONE\<rparr>) }) }"

definition dvu_short ::
  "BrotliDecoderState \<Rightarrow> uint32 \<Rightarrow> (BrotliDecoderErrorCode \<times> uint32 \<times> BrotliDecoderState) option" where
  "dvu_short s val = do {
     (r, s) \<leftarrow> s_read s 3;
     (case r of
        None \<Rightarrow> Some (BROTLI_DECODER_NEEDS_MORE_INPUT, val,
                      s\<lparr>d_substate_decode_uint8 := BROTLI_STATE_DECODE_UINT8_SHORT\<rparr>)
      | Some bits \<Rightarrow>
          if bits = 0 then
            Some (BROTLI_DECODER_SUCCESS, 1, s\<lparr>d_substate_decode_uint8 := BROTLI_STATE_DECODE_UINT8_NONE\<rparr>)
          else dvu_long s bits) }"

definition DecodeVarLenUint8 ::
  "BrotliDecoderState \<Rightarrow> uint32 \<Rightarrow> (BrotliDecoderErrorCode \<times> uint32 \<times> BrotliDecoderState) option" where
  "DecodeVarLenUint8 s val =
     (case d_substate_decode_uint8 s of
        BROTLI_STATE_DECODE_UINT8_NONE \<Rightarrow> do {
          (r, s) \<leftarrow> s_read s 1;
          (case r of
             None \<Rightarrow> Some (BROTLI_DECODER_NEEDS_MORE_INPUT, val, s)
           | Some bits \<Rightarrow>
               if bits = 0 then Some (BROTLI_DECODER_SUCCESS, 0, s) else dvu_short s val) }
      | BROTLI_STATE_DECODE_UINT8_SHORT \<Rightarrow> dvu_short s val
      | BROTLI_STATE_DECODE_UINT8_LONG \<Rightarrow> dvu_long s val)"

section \<open>Meta-block header\<close>

text \<open>
  The two loops over nibbles and over bytes, \<open>width\<close> bits per digit: \<open>min_digits\<close> and \<open>err\<close> tell them
  apart.  \<open>None\<close> as the code is the loop running to its end.
\<close>

function mlh_digits ::
  "nat \<Rightarrow> uint8 \<Rightarrow> BrotliDecoderErrorCode \<Rightarrow> uint8 \<Rightarrow> int \<Rightarrow> BrotliDecoderState \<Rightarrow>
     (BrotliDecoderErrorCode option \<times> BrotliDecoderState) option" where
  "mlh_digits width min_digits err size_nibbles i s =
     (if i < uint size_nibbles then do {
        (r, s) \<leftarrow> s_read s (of_nat width);
        (case r of
           None \<Rightarrow> Some (Some BROTLI_DECODER_NEEDS_MORE_INPUT, s\<lparr>d_loop_counter := i\<rparr>)
         | Some bits \<Rightarrow>
             if i + 1 = uint size_nibbles \<and> size_nibbles > min_digits \<and> bits = 0 then Some (Some err, s)
             else do {
               d \<leftarrow> shl32 bits (of_int (i * int width));
               mlh_digits width min_digits err size_nibbles (i + 1)
                 (s\<lparr>d_meta_block_remaining_len := d_meta_block_remaining_len s OR sint d\<rparr>) }) }
      else Some (None, s))"
  by pat_completeness auto
termination
  by (relation "measure (\<lambda>(width, m, err, size_nibbles, i, s). nat (uint size_nibbles - i))") auto

declare mlh_digits.simps [simp del]

definition mlh_uncompressed ::
  "BrotliDecoderState \<Rightarrow> (BrotliDecoderErrorCode \<times> BrotliDecoderState) option" where
  "mlh_uncompressed s =
     (let fin = (\<lambda>s. (BROTLI_DECODER_SUCCESS,
                      s\<lparr>d_meta_block_remaining_len := d_meta_block_remaining_len s + 1,
                        d_substate_metablock_header := BROTLI_STATE_METABLOCK_HEADER_NONE\<rparr>))
      in if \<not> d_is_last_metablock s then do {
           (r, s) \<leftarrow> s_read s 1;
           (case r of
              None \<Rightarrow> Some (BROTLI_DECODER_NEEDS_MORE_INPUT, s)
            | Some bits \<Rightarrow> Some (fin (s\<lparr>d_is_uncompressed := (bits \<noteq> 0)\<rparr>))) }
         else Some (fin s))"

definition mlh_size ::
  "BrotliDecoderState \<Rightarrow> (BrotliDecoderErrorCode \<times> BrotliDecoderState) option" where
  "mlh_size s = do {
     (e, s) \<leftarrow> mlh_digits 4 4 BROTLI_DECODER_ERROR_FORMAT_EXUBERANT_NIBBLE
                (d_size_nibbles s) (d_loop_counter s) s;
     (case e of
        Some e \<Rightarrow> Some (e, s)
      | None \<Rightarrow> mlh_uncompressed
          (s\<lparr>d_substate_metablock_header := BROTLI_STATE_METABLOCK_HEADER_UNCOMPRESSED\<rparr>)) }"

definition mlh_metadata ::
  "BrotliDecoderState \<Rightarrow> (BrotliDecoderErrorCode \<times> BrotliDecoderState) option" where
  "mlh_metadata s = do {
     (e, s) \<leftarrow> mlh_digits 8 1 BROTLI_DECODER_ERROR_FORMAT_EXUBERANT_META_NIBBLE
                (d_size_nibbles s) (d_loop_counter s) s;
     (case e of
        Some e \<Rightarrow> Some (e, s)
      | None \<Rightarrow> Some (BROTLI_DECODER_SUCCESS,
                      s\<lparr>d_meta_block_remaining_len := d_meta_block_remaining_len s + 1,
                        d_substate_metablock_header := BROTLI_STATE_METABLOCK_HEADER_NONE\<rparr>)) }"

definition mlh_bytes ::
  "BrotliDecoderState \<Rightarrow> (BrotliDecoderErrorCode \<times> BrotliDecoderState) option" where
  "mlh_bytes s = do {
     (r, s) \<leftarrow> s_read s 2;
     (case r of
        None \<Rightarrow> Some (BROTLI_DECODER_NEEDS_MORE_INPUT, s)
      | Some bits \<Rightarrow>
          if bits = 0 then
            Some (BROTLI_DECODER_SUCCESS,
                  s\<lparr>d_substate_metablock_header := BROTLI_STATE_METABLOCK_HEADER_NONE\<rparr>)
          else mlh_metadata (s\<lparr>d_size_nibbles := ucast bits,
                 d_substate_metablock_header := BROTLI_STATE_METABLOCK_HEADER_METADATA\<rparr>)) }"

definition mlh_reserved ::
  "BrotliDecoderState \<Rightarrow> (BrotliDecoderErrorCode \<times> BrotliDecoderState) option" where
  "mlh_reserved s = do {
     (r, s) \<leftarrow> s_read s 1;
     (case r of
        None \<Rightarrow> Some (BROTLI_DECODER_NEEDS_MORE_INPUT, s)
      | Some bits \<Rightarrow>
          if bits \<noteq> 0 then Some (BROTLI_DECODER_ERROR_FORMAT_RESERVED, s)
          else mlh_bytes (s\<lparr>d_substate_metablock_header := BROTLI_STATE_METABLOCK_HEADER_BYTES\<rparr>)) }"

definition mlh_nibbles ::
  "BrotliDecoderState \<Rightarrow> (BrotliDecoderErrorCode \<times> BrotliDecoderState) option" where
  "mlh_nibbles s = do {
     (r, s) \<leftarrow> s_read s 2;
     (case r of
        None \<Rightarrow> Some (BROTLI_DECODER_NEEDS_MORE_INPUT, s)
      | Some bits \<Rightarrow>
          let s = s\<lparr>d_size_nibbles := ucast (bits + 4), d_loop_counter := 0\<rparr>
          in if bits = 3 then
               mlh_reserved (s\<lparr>d_is_metadata := True,
                 d_substate_metablock_header := BROTLI_STATE_METABLOCK_HEADER_RESERVED\<rparr>)
             else mlh_size (s\<lparr>d_substate_metablock_header := BROTLI_STATE_METABLOCK_HEADER_SIZE\<rparr>)) }"

definition mlh_empty ::
  "BrotliDecoderState \<Rightarrow> (BrotliDecoderErrorCode \<times> BrotliDecoderState) option" where
  "mlh_empty s = do {
     (r, s) \<leftarrow> s_read s 1;
     (case r of
        None \<Rightarrow> Some (BROTLI_DECODER_NEEDS_MORE_INPUT, s)
      | Some bits \<Rightarrow>
          if bits \<noteq> 0 then
            Some (BROTLI_DECODER_SUCCESS,
                  s\<lparr>d_substate_metablock_header := BROTLI_STATE_METABLOCK_HEADER_NONE\<rparr>)
          else mlh_nibbles (s\<lparr>d_substate_metablock_header := BROTLI_STATE_METABLOCK_HEADER_NIBBLES\<rparr>)) }"

definition mlh_none ::
  "BrotliDecoderState \<Rightarrow> (BrotliDecoderErrorCode \<times> BrotliDecoderState) option" where
  "mlh_none s = do {
     (r, s) \<leftarrow> s_read s 1;
     (case r of
        None \<Rightarrow> Some (BROTLI_DECODER_NEEDS_MORE_INPUT, s)
      | Some bits \<Rightarrow>
          let s = s\<lparr>d_is_last_metablock := (bits \<noteq> 0), d_meta_block_remaining_len := 0,
                    d_is_uncompressed := False, d_is_metadata := False\<rparr>
          in if \<not> d_is_last_metablock s then
               mlh_nibbles (s\<lparr>d_substate_metablock_header := BROTLI_STATE_METABLOCK_HEADER_NIBBLES\<rparr>)
             else mlh_empty (s\<lparr>d_substate_metablock_header := BROTLI_STATE_METABLOCK_HEADER_EMPTY\<rparr>)) }"

definition DecodeMetaBlockLength ::
  "BrotliDecoderState \<Rightarrow> (BrotliDecoderErrorCode \<times> BrotliDecoderState) option" where
  "DecodeMetaBlockLength s =
     (case d_substate_metablock_header s of
        BROTLI_STATE_METABLOCK_HEADER_NONE \<Rightarrow> mlh_none s
      | BROTLI_STATE_METABLOCK_HEADER_EMPTY \<Rightarrow> mlh_empty s
      | BROTLI_STATE_METABLOCK_HEADER_NIBBLES \<Rightarrow> mlh_nibbles s
      | BROTLI_STATE_METABLOCK_HEADER_SIZE \<Rightarrow> mlh_size s
      | BROTLI_STATE_METABLOCK_HEADER_UNCOMPRESSED \<Rightarrow> mlh_uncompressed s
      | BROTLI_STATE_METABLOCK_HEADER_RESERVED \<Rightarrow> mlh_reserved s
      | BROTLI_STATE_METABLOCK_HEADER_BYTES \<Rightarrow> mlh_bytes s
      | BROTLI_STATE_METABLOCK_HEADER_METADATA \<Rightarrow> mlh_metadata s)"

end
