(* ===== verification/Decode_Symbols.thy ===== *)
theory Decode_Symbols
  imports Decode_Header
begin

text \<open>
  \<^verbatim>\<open>dec/decode.c\<close>: decoding one symbol with a two-level table.  A C pointer to a table is the array it
  points into and the offset \<open>base\<close>.  \<open>HUFFMAN_TABLE_BITS\<close> is 8.
\<close>

abbreviation (input) HUFFMAN_TABLE_BITS :: uint32 where "HUFFMAN_TABLE_BITS \<equiv> 8"
abbreviation (input) HUFFMAN_TABLE_MASK :: uint32 where "HUFFMAN_TABLE_MASK \<equiv> 0xFF"

definition kCodeLengthCodeOrder :: "uint8 list" where
  "kCodeLengthCodeOrder = [1, 2, 3, 4, 0, 5, 17, 6, 16, 7, 8, 9, 10, 11, 12, 13, 14, 15]"

definition kCodeLengthPrefixLength :: "uint8 list" where
  "kCodeLengthPrefixLength = [2, 2, 2, 3, 2, 2, 2, 4, 2, 2, 2, 3, 2, 2, 2, 4]"

definition kCodeLengthPrefixValue :: "uint8 list" where
  "kCodeLengthPrefixValue = [0, 4, 3, 2, 0, 4, 3, 1, 0, 4, 3, 2, 0, 4, 3, 5]"

abbreviation fast_bits :: "HuffmanCode \<Rightarrow> uint32" where "fast_bits c \<equiv> ucast (hc_bits c)"
abbreviation fast_value :: "HuffmanCode \<Rightarrow> uint32" where "fast_value c \<equiv> ucast (hc_value c)"

definition DecodeSymbol ::
  "uint32 \<Rightarrow> HuffmanCode list \<Rightarrow> nat \<Rightarrow> BrotliBitReader \<Rightarrow> (uint32 \<times> BrotliBitReader) option" where
  "DecodeSymbol bits tbl base br = do {
     let p = base + unat (bits AND HUFFMAN_TABLE_MASK);
     c \<leftarrow> arr_get tbl p;
     (c, br) \<leftarrow>
       (if fast_bits c > HUFFMAN_TABLE_BITS then do {
          m \<leftarrow> BitMask (fast_bits c - HUFFMAN_TABLE_BITS);
          c \<leftarrow> arr_get tbl (p + unat (fast_value c + (drop_bit 8 bits AND m)));
          Some (c, BrotliDropBits br HUFFMAN_TABLE_BITS) }
        else Some (c, br));
     Some (fast_value c, BrotliDropBits br (fast_bits c)) }"

definition ReadSymbol ::
  "HuffmanCode list \<Rightarrow> nat \<Rightarrow> BrotliBitReader \<Rightarrow> (uint32 \<times> BrotliBitReader) option" where
  "ReadSymbol tbl base br = do {
     (bits, br) \<leftarrow> BrotliGet16BitsUnmasked br;
     DecodeSymbol bits tbl base br }"

definition SafeDecodeSymbol ::
  "HuffmanCode list \<Rightarrow> nat \<Rightarrow> BrotliBitReader \<Rightarrow> (uint32 option \<times> BrotliBitReader) option" where
  "SafeDecodeSymbol tbl base br =
     (let available_bits = BrotliGetAvailableBits br
      in if available_bits = 0 then do {
           c \<leftarrow> arr_get tbl base;
           if fast_bits c = 0 then Some (Some (fast_value c), br) else Some (None, br) }
         else do {
           v \<leftarrow> BrotliGetBitsUnmasked br;
           let val = ucast v;
           let p = base + unat (val AND HUFFMAN_TABLE_MASK);
           c \<leftarrow> arr_get tbl p;
           if fast_bits c \<le> HUFFMAN_TABLE_BITS then
             (if fast_bits c \<le> available_bits
              then Some (Some (fast_value c), BrotliDropBits br (fast_bits c))
              else Some (None, br))
           else if available_bits \<le> HUFFMAN_TABLE_BITS then Some (None, br)
           else do {
             m \<leftarrow> BitMask (fast_bits c);
             let val = drop_bit 8 (val AND m);
             let available_bits = available_bits - HUFFMAN_TABLE_BITS;
             c \<leftarrow> arr_get tbl (p + unat (fast_value c + val));
             if available_bits < fast_bits c then Some (None, br)
             else Some (Some (fast_value c), BrotliDropBits br (HUFFMAN_TABLE_BITS + fast_bits c)) } })"

definition SafeReadSymbol ::
  "HuffmanCode list \<Rightarrow> nat \<Rightarrow> BrotliBitReader \<Rightarrow> (uint32 option \<times> BrotliBitReader) option" where
  "SafeReadSymbol tbl base br = do {
     (r, br) \<leftarrow> BrotliSafeGetBits br 15;
     (case r of
        Some val \<Rightarrow> do {
          (v, br) \<leftarrow> DecodeSymbol val tbl base br;
          Some (Some v, br) }
      | None \<Rightarrow> SafeDecodeSymbol tbl base br) }"

definition PreloadSymbol ::
  "bool \<Rightarrow> HuffmanCode list \<Rightarrow> nat \<Rightarrow> BrotliBitReader \<Rightarrow> uint32 \<Rightarrow> uint32 \<Rightarrow>
     (BrotliBitReader \<times> uint32 \<times> uint32) option" where
  "PreloadSymbol safe tbl base br bits val =
     (if safe then Some (br, bits, val)
      else do {
        (i, br) \<leftarrow> BrotliGetBits True br HUFFMAN_TABLE_BITS;
        c \<leftarrow> arr_get tbl (base + unat i);
        Some (br, fast_bits c, fast_value c) })"

definition ReadPreloadedSymbol ::
  "HuffmanCode list \<Rightarrow> nat \<Rightarrow> BrotliBitReader \<Rightarrow> uint32 \<Rightarrow> uint32 \<Rightarrow>
     (uint32 \<times> BrotliBitReader \<times> uint32 \<times> uint32) option" where
  "ReadPreloadedSymbol tbl base br bits val = do {
     (result, br) \<leftarrow>
       (if bits > HUFFMAN_TABLE_BITS then do {
          (v, br) \<leftarrow> BrotliGet16BitsUnmasked br;
          let ext = base + unat (v AND HUFFMAN_TABLE_MASK) + unat val;
          m \<leftarrow> BitMask (bits - HUFFMAN_TABLE_BITS);
          let br = BrotliDropBits br HUFFMAN_TABLE_BITS;
          c \<leftarrow> arr_get tbl (ext + unat (drop_bit 8 v AND m));
          Some (fast_value c, BrotliDropBits br (fast_bits c)) }
        else Some (val, BrotliDropBits br bits));
     (br, bits, val) \<leftarrow> PreloadSymbol False tbl base br bits val;
     Some (result, br, bits, val) }"

function log2_floor_loop :: "uint32 \<Rightarrow> uint32 \<Rightarrow> uint32" where
  "log2_floor_loop x result =
     (if x \<noteq> 0 then log2_floor_loop (drop_bit 1 x) (result + 1) else result)"
  by pat_completeness auto
termination
proof (relation "measure (\<lambda>(x, r). unat x)")
  fix x r :: uint32
  assume "x \<noteq> 0"
  then have "0 < unat x" by (simp add: unat_gt_0)
  moreover have "unat (drop_bit 1 x) = unat x div 2"
    by (simp add: drop_bit_Suc unat_div_distrib)
  ultimately show "((drop_bit 1 x, r + 1), x, r) \<in> measure (\<lambda>(x, r). unat x)" by simp
qed simp

declare log2_floor_loop.simps [simp del]

definition Log2Floor :: "uint32 \<Rightarrow> uint32" where
  "Log2Floor x = log2_floor_loop x 0"

end
