(* ===== verification/Decode_Huffman.thy ===== *)
theory Decode_Huffman
  imports Decode_Symbols
begin

text \<open>
  \<^verbatim>\<open>dec/decode.c\<close>: reading a prefix code.  Loops whose end depends on the values read are
  \<open>partial_function (option)\<close>: a loop that would never end is \<open>None\<close>.
\<close>

section \<open>Simple codes\<close>

abbreviation h_upd ::
  "(BrotliMetablockHeaderArena \<Rightarrow> BrotliMetablockHeaderArena) \<Rightarrow> BrotliDecoderState \<Rightarrow> BrotliDecoderState" where
  "h_upd f s \<equiv> s\<lparr>d_header := f (d_header s)\<rparr>"

partial_function (option) rshs_loop ::
  "uint32 \<Rightarrow> uint32 \<Rightarrow> uint32 \<Rightarrow> uint32 \<Rightarrow> BrotliDecoderState \<Rightarrow>
     (BrotliDecoderErrorCode option \<times> BrotliDecoderState) option" where
  [code]: "rshs_loop max_bits alphabet_limit num_symbols i s =
     (if i \<le> num_symbols then do {
        (r, s) \<leftarrow> s_read s max_bits;
        (case r of
           None \<Rightarrow> Some (Some BROTLI_DECODER_NEEDS_MORE_INPUT,
             h_upd (\<lambda>h. h\<lparr>h_sub_loop_counter := i, h_substate_huffman := BROTLI_STATE_HUFFMAN_SIMPLE_READ\<rparr>) s)
         | Some v \<Rightarrow>
             if v \<ge> alphabet_limit then Some (Some BROTLI_DECODER_ERROR_FORMAT_SIMPLE_HUFFMAN_ALPHABET, s)
             else do {
               xs \<leftarrow> arr_set (h_symbols_lists_array (d_header s)) (unat i) (ucast v);
               rshs_loop max_bits alphabet_limit num_symbols (i + 1)
                 (h_upd (\<lambda>h. h\<lparr>h_symbols_lists_array := xs\<rparr>) s) }) }
      else Some (None, s))"

definition has_duplicates :: "uint16 list \<Rightarrow> nat \<Rightarrow> bool option" where
  "has_duplicates xs num_symbols =
     foldM (\<lambda>i e. foldM (\<lambda>k e. do {
         a \<leftarrow> arr_get xs i;
         b \<leftarrow> arr_get xs k;
         Some (e \<or> a = b) }) [i + 1..<num_symbols + 1] e) [0..<num_symbols] False"

definition ReadSimpleHuffmanSymbols ::
  "uint32 \<Rightarrow> uint32 \<Rightarrow> BrotliDecoderState \<Rightarrow> (BrotliDecoderErrorCode \<times> BrotliDecoderState) option" where
  "ReadSimpleHuffmanSymbols alphabet_max alphabet_limit s = do {
     let max_bits = Log2Floor (alphabet_max - 1);
     let num_symbols = h_symbol (d_header s);
     (e, s) \<leftarrow> rshs_loop max_bits alphabet_limit num_symbols (h_sub_loop_counter (d_header s)) s;
     (case e of
        Some e \<Rightarrow> Some (e, s)
      | None \<Rightarrow> do {
          dup \<leftarrow> has_duplicates (h_symbols_lists_array (d_header s)) (unat num_symbols);
          Some (if dup then BROTLI_DECODER_ERROR_FORMAT_SIMPLE_HUFFMAN_SAME
                else BROTLI_DECODER_SUCCESS, s) }) }"

section \<open>Code lengths\<close>

text \<open>
  The variables the code-length readers share, passed by reference in C: locals of the fast reader,
  fields of the arena for the safe one.
\<close>

record code_lengths =
  cl_symbol :: uint32
  cl_repeat :: uint32
  cl_space :: uint32
  cl_prev_code_len :: uint32
  cl_repeat_code_len :: uint32
  cl_symbol_lists :: "uint16 list"
  cl_histo :: "uint16 list"
  cl_next_symbol :: "int list"

definition symbol_list_set :: "uint16 list \<Rightarrow> int \<Rightarrow> uint16 \<Rightarrow> uint16 list option" where
  "symbol_list_set sl i v = arr_seti sl (i + 16) v"

definition ProcessSingleCodeLength :: "uint32 \<Rightarrow> code_lengths \<Rightarrow> code_lengths option" where
  "ProcessSingleCodeLength code_len c = (let c = c\<lparr>cl_repeat := 0\<rparr> in do {
     c \<leftarrow> (if code_len \<noteq> 0 then do {
             next \<leftarrow> arr_get (cl_next_symbol c) (unat code_len);
             sl \<leftarrow> symbol_list_set (cl_symbol_lists c) next (ucast (cl_symbol c));
             ns \<leftarrow> arr_set (cl_next_symbol c) (unat code_len) (sint (cl_symbol c));
             d \<leftarrow> shr32 32768 code_len;
             n \<leftarrow> arr_get (cl_histo c) (unat code_len);
             histo \<leftarrow> arr_set (cl_histo c) (unat code_len) (n + 1);
             Some (c\<lparr>cl_symbol_lists := sl, cl_next_symbol := ns, cl_prev_code_len := code_len,
                     cl_space := cl_space c - d, cl_histo := histo\<rparr>) }
           else Some c);
     Some (c\<lparr>cl_symbol := cl_symbol c + 1\<rparr>) })"


text \<open>The \<open>do .. while (++symbol != last)\<close> loop over one chain.\<close>

partial_function (option) extend_chain ::
  "uint16 list \<Rightarrow> int \<Rightarrow> uint32 \<Rightarrow> uint32 \<Rightarrow> (uint16 list \<times> int \<times> uint32) option" where
  [code]: "extend_chain sl next symbol en = do {
     sl \<leftarrow> symbol_list_set sl next (ucast symbol);
     (if symbol + 1 \<noteq> en then extend_chain sl (sint symbol) (symbol + 1) en
      else Some (sl, sint symbol, symbol + 1)) }"

definition ProcessRepeatedCodeLength ::
  "uint32 \<Rightarrow> uint32 \<Rightarrow> uint32 \<Rightarrow> code_lengths \<Rightarrow> code_lengths option" where
  "ProcessRepeatedCodeLength code_len repeat_delta alphabet_size c =
     (let (new_len, extra_bits) =
            (if code_len = BROTLI_REPEAT_PREVIOUS_CODE_LENGTH then (cl_prev_code_len c, 2) else (0, 3));
          c = (if cl_repeat_code_len c \<noteq> new_len then c\<lparr>cl_repeat := 0, cl_repeat_code_len := new_len\<rparr> else c);
          old_repeat = cl_repeat c;
          c = (if cl_repeat c > 0 then c\<lparr>cl_repeat := push_bit extra_bits (cl_repeat c - 2)\<rparr> else c);
          c = c\<lparr>cl_repeat := cl_repeat c + (repeat_delta + 3)\<rparr>;
          repeat_delta = cl_repeat c - old_repeat
      in if cl_symbol c + repeat_delta > alphabet_size
         then Some (c\<lparr>cl_symbol := alphabet_size, cl_space := 0xFFFFF\<rparr>)
         else if cl_repeat_code_len c \<noteq> 0 then do {
           let len = unat (cl_repeat_code_len c);
           next \<leftarrow> arr_get (cl_next_symbol c) len;
           (sl, next, symbol) \<leftarrow>
             extend_chain (cl_symbol_lists c) next (cl_symbol c) (cl_symbol c + repeat_delta);
           ns \<leftarrow> arr_set (cl_next_symbol c) len next;
           d \<leftarrow> shl32 repeat_delta (15 - cl_repeat_code_len c);
           n \<leftarrow> arr_get (cl_histo c) len;
           histo \<leftarrow> arr_set (cl_histo c) len (ucast (ucast n + repeat_delta));
           Some (c\<lparr>cl_symbol := symbol, cl_symbol_lists := sl, cl_next_symbol := ns,
                   cl_space := cl_space c - d, cl_histo := histo\<rparr>) }
         else Some (c\<lparr>cl_symbol := cl_symbol c + repeat_delta\<rparr>))"

definition h_lengths :: "BrotliMetablockHeaderArena \<Rightarrow> code_lengths" where
  "h_lengths h = \<lparr>cl_symbol = h_symbol h, cl_repeat = h_repeat h, cl_space = h_space h,
     cl_prev_code_len = h_prev_code_len h, cl_repeat_code_len = h_repeat_code_len h,
     cl_symbol_lists = h_symbols_lists_array h, cl_histo = h_code_length_histo h,
     cl_next_symbol = h_next_symbol h\<rparr>"

definition h_put_arrays :: "code_lengths \<Rightarrow> BrotliMetablockHeaderArena \<Rightarrow> BrotliMetablockHeaderArena" where
  "h_put_arrays c h = h\<lparr>h_symbols_lists_array := cl_symbol_lists c, h_code_length_histo := cl_histo c,
     h_next_symbol := cl_next_symbol c\<rparr>"

definition h_put_lengths :: "code_lengths \<Rightarrow> BrotliMetablockHeaderArena \<Rightarrow> BrotliMetablockHeaderArena" where
  "h_put_lengths c h = (h_put_arrays c h)\<lparr>h_symbol := cl_symbol c, h_repeat := cl_repeat c,
     h_prev_code_len := cl_prev_code_len c, h_repeat_code_len := cl_repeat_code_len c,
     h_space := cl_space c\<rparr>"

text \<open>
  One round of the fast loop reads from a full window; \<open>BROTLI_SHORT_FILL_BIT_WINDOW_READ\<close> is 4 on a
  64-bit target.
\<close>

definition rscl_step ::
  "HuffmanCode list \<Rightarrow> uint32 \<Rightarrow> BrotliBitReader \<Rightarrow> code_lengths \<Rightarrow> (BrotliBitReader \<times> code_lengths) option" where
  "rscl_step tbl alphabet_size br c = do {
     br \<leftarrow> BrotliFillBitWindow16 br;
     v \<leftarrow> BrotliGetBitsUnmasked br;
     m \<leftarrow> BitMask 5;
     p \<leftarrow> arr_get tbl (unat (v AND ucast m));
     let br = BrotliDropBits br (fast_bits p);
     let code_len = fast_value p;
     if code_len < BROTLI_REPEAT_PREVIOUS_CODE_LENGTH then do {
       c \<leftarrow> ProcessSingleCodeLength code_len c;
       Some (br, c) }
     else do {
       let extra_bits = (if code_len = BROTLI_REPEAT_PREVIOUS_CODE_LENGTH then 2 else 3);
       v \<leftarrow> BrotliGetBitsUnmasked br;
       m \<leftarrow> BitMask extra_bits;
       let br = BrotliDropBits br extra_bits;
       c \<leftarrow> ProcessRepeatedCodeLength code_len (ucast v AND m) alphabet_size c;
       Some (br, c) } }"

partial_function (option) rscl_loop ::
  "HuffmanCode list \<Rightarrow> uint32 \<Rightarrow> BrotliBitReader \<Rightarrow> code_lengths \<Rightarrow>
     (bool \<times> BrotliBitReader \<times> code_lengths) option" where
  [code]: "rscl_loop tbl alphabet_size br c =
     (if cl_symbol c < alphabet_size \<and> cl_space c > 0 then
        (if \<not> BrotliCheckInputAmount br 4 then Some (False, br, c)
         else do {
           (br, c) \<leftarrow> rscl_step tbl alphabet_size br c;
           rscl_loop tbl alphabet_size br c })
      else Some (True, br, c))"

definition ReadSymbolCodeLengths ::
  "uint32 \<Rightarrow> BrotliDecoderState \<Rightarrow> (BrotliDecoderErrorCode \<times> BrotliDecoderState) option" where
  "ReadSymbolCodeLengths alphabet_size s = do {
     (ok, br) \<leftarrow> BrotliWarmupBitReader (d_br s);
     if \<not> ok then Some (BROTLI_DECODER_NEEDS_MORE_INPUT, s\<lparr>d_br := br\<rparr>)
     else do {
       (done, br, c) \<leftarrow> rscl_loop (h_table (d_header s)) alphabet_size br (h_lengths (d_header s));
       let s = s\<lparr>d_br := br\<rparr>;
       if done then Some (BROTLI_DECODER_SUCCESS,
                          h_upd (\<lambda>h. (h_put_arrays c h)\<lparr>h_space := cl_space c\<rparr>) s)
       else Some (BROTLI_DECODER_NEEDS_MORE_INPUT, h_upd (h_put_lengths c) s) } }"

text \<open>
  One round of the safe loop; the flag is \<open>get_byte\<close> for the next round.  The second component is
  \<open>False\<close> for the early return.
\<close>

definition safe_rscl_step ::
  "HuffmanCode list \<Rightarrow> uint32 \<Rightarrow> bool \<Rightarrow> BrotliBitReader \<Rightarrow> code_lengths \<Rightarrow>
     (bool \<times> bool \<times> BrotliBitReader \<times> code_lengths) option" where
  "safe_rscl_step tbl alphabet_size get_byte br c = do {
     (ok, br) \<leftarrow> (if get_byte then BrotliPullByte br else Some (True, br));
     if \<not> ok then Some (get_byte, False, br, c)
     else do {
       let available_bits = BrotliGetAvailableBits br;
       bits \<leftarrow> (if available_bits \<noteq> 0 then map_option ucast (BrotliGetBitsUnmasked br) else Some 0);
       m \<leftarrow> BitMask 5;
       p \<leftarrow> arr_get tbl (unat (bits AND m));
       if fast_bits p > available_bits then Some (True, True, br, c)
       else (let code_len = fast_value p in
         if code_len < BROTLI_REPEAT_PREVIOUS_CODE_LENGTH then do {
           c \<leftarrow> ProcessSingleCodeLength code_len c;
           Some (False, True, BrotliDropBits br (fast_bits p), c) }
         else do {
           let extra_bits = code_len - 14;
           v \<leftarrow> shr32 bits (fast_bits p);
           m \<leftarrow> BitMask extra_bits;
           if available_bits < fast_bits p + extra_bits then Some (True, True, br, c)
           else do {
             c \<leftarrow> ProcessRepeatedCodeLength code_len (v AND m) alphabet_size c;
             Some (False, True, BrotliDropBits br (fast_bits p + extra_bits), c) } }) } }"

partial_function (option) safe_rscl_loop ::
  "HuffmanCode list \<Rightarrow> uint32 \<Rightarrow> bool \<Rightarrow> BrotliBitReader \<Rightarrow> code_lengths \<Rightarrow>
     (bool \<times> BrotliBitReader \<times> code_lengths) option" where
  [code]: "safe_rscl_loop tbl alphabet_size get_byte br c =
     (if cl_symbol c < alphabet_size \<and> cl_space c > 0 then do {
        (get_byte, ok, br, c) \<leftarrow> safe_rscl_step tbl alphabet_size get_byte br c;
        (if \<not> ok then Some (False, br, c) else safe_rscl_loop tbl alphabet_size get_byte br c) }
      else Some (True, br, c))"

definition SafeReadSymbolCodeLengths ::
  "uint32 \<Rightarrow> BrotliDecoderState \<Rightarrow> (BrotliDecoderErrorCode \<times> BrotliDecoderState) option" where
  "SafeReadSymbolCodeLengths alphabet_size s = do {
     (done, br, c) \<leftarrow>
       safe_rscl_loop (h_table (d_header s)) alphabet_size False (d_br s) (h_lengths (d_header s));
     Some (if done then BROTLI_DECODER_SUCCESS else BROTLI_DECODER_NEEDS_MORE_INPUT,
           h_upd (h_put_lengths c) (s\<lparr>d_br := br\<rparr>)) }"

section \<open>Code lengths of the code-length code\<close>

text \<open>The window of four bits, padded with zeros at the end of the input, and the length of its code.\<close>

definition rclcl_peek :: "BrotliBitReader \<Rightarrow> ((uint32 \<times> uint8) option \<times> BrotliBitReader) option" where
  "rclcl_peek br = do {
     (r, br) \<leftarrow> BrotliSafeGetBits br 4;
     (case r of
        Some ix \<Rightarrow> do {
          l \<leftarrow> arr_get kCodeLengthPrefixLength (unat ix);
          Some (Some (ix, l), br) }
      | None \<Rightarrow> do {
          let available_bits = BrotliGetAvailableBits br;
          ix \<leftarrow> (if available_bits \<noteq> 0
                  then map_option (\<lambda>v. ucast (v AND 0xF)) (BrotliGetBitsUnmasked br) else Some 0);
          l \<leftarrow> arr_get kCodeLengthPrefixLength (unat ix);
          Some (if ucast l > available_bits then None else Some (ix, l), br) }) }"

function rclcl_loop ::
  "nat \<Rightarrow> uint32 \<Rightarrow> uint32 \<Rightarrow> BrotliDecoderState \<Rightarrow>
     (bool \<times> uint32 \<times> uint32 \<times> BrotliDecoderState) option" where
  "rclcl_loop i num_codes space s =
     (if i < BROTLI_CODE_LENGTH_CODES then do {
        code_len_idx \<leftarrow> arr_get kCodeLengthCodeOrder i;
        (r, br) \<leftarrow> rclcl_peek (d_br s);
        let s = s\<lparr>d_br := br\<rparr>;
        (case r of
           None \<Rightarrow> Some (False, num_codes, space,
             h_upd (\<lambda>h. h\<lparr>h_sub_loop_counter := of_nat i, h_repeat := num_codes, h_space := space,
                           h_substate_huffman := BROTLI_STATE_HUFFMAN_COMPLEX\<rparr>) s)
         | Some (ix, l) \<Rightarrow> do {
             v \<leftarrow> arr_get kCodeLengthPrefixValue (unat ix);
             cl \<leftarrow> arr_set (h_code_length_code_lengths (d_header s)) (unat code_len_idx) v;
             let s = h_upd (\<lambda>h. h\<lparr>h_code_length_code_lengths := cl\<rparr>)
                       (s\<lparr>d_br := BrotliDropBits br (ucast l)\<rparr>);
             if v \<noteq> 0 then do {
               d \<leftarrow> shr32 32 (ucast v);
               let space = space - d;
               n \<leftarrow> arr_get (h_code_length_histo (d_header s)) (unat v);
               histo \<leftarrow> arr_set (h_code_length_histo (d_header s)) (unat v) (n + 1);
               let s = h_upd (\<lambda>h. h\<lparr>h_code_length_histo := histo\<rparr>) s;
               if space - 1 \<ge> 32 then Some (True, num_codes + 1, space, s)
               else rclcl_loop (i + 1) (num_codes + 1) space s }
             else rclcl_loop (i + 1) num_codes space s }) }
      else Some (True, num_codes, space, s))"
  by pat_completeness auto
termination
  by (relation "measure (\<lambda>(i, n, sp, s). 18 - i)") auto

declare rclcl_loop.simps [simp del]

definition ReadCodeLengthCodeLengths ::
  "BrotliDecoderState \<Rightarrow> (BrotliDecoderErrorCode \<times> BrotliDecoderState) option" where
  "ReadCodeLengthCodeLengths s = do {
     let h = d_header s;
     (done, num_codes, space, s) \<leftarrow> rclcl_loop (unat (h_sub_loop_counter h)) (h_repeat h) (h_space h) s;
     Some (if \<not> done then BROTLI_DECODER_NEEDS_MORE_INPUT
           else if \<not> (num_codes = 1 \<or> space = 0) then BROTLI_DECODER_ERROR_FORMAT_CL_SPACE
           else BROTLI_DECODER_SUCCESS, s) }"

section \<open>A whole prefix code\<close>

text \<open>
  The table is an array of the caller, given and returned; the table's size (\<open>*opt_table_size\<close>) is
  there on success only.
\<close>

type_synonym rhc_result =
  "BrotliDecoderErrorCode \<times> uint32 option \<times> HuffmanCode list \<times> BrotliDecoderState"

definition rhc_length_symbols ::
  "uint32 \<Rightarrow> HuffmanCode list \<Rightarrow> nat \<Rightarrow> BrotliDecoderState \<Rightarrow> rhc_result option" where
  "rhc_length_symbols alphabet_limit tbl base s = do {
     (result, s) \<leftarrow> ReadSymbolCodeLengths alphabet_limit s;
     (result, s) \<leftarrow> (if result = BROTLI_DECODER_NEEDS_MORE_INPUT
                     then SafeReadSymbolCodeLengths alphabet_limit s else Some (result, s));
     if result \<noteq> BROTLI_DECODER_SUCCESS then Some (result, None, tbl, s)
     else if h_space (d_header s) \<noteq> 0 then
       Some (BROTLI_DECODER_ERROR_FORMAT_HUFFMAN_SPACE, None, tbl, s)
     else do {
       (table_size, tbl, histo) \<leftarrow> BrotliBuildHuffmanTable tbl base 8
         (h_symbols_lists_array (d_header s)) (h_code_length_histo (d_header s));
       Some (BROTLI_DECODER_SUCCESS, Some table_size, tbl,
             h_upd (\<lambda>h. h\<lparr>h_code_length_histo := histo,
                           h_substate_huffman := BROTLI_STATE_HUFFMAN_NONE\<rparr>) s) } }"

definition rhc_complex ::
  "uint32 \<Rightarrow> HuffmanCode list \<Rightarrow> nat \<Rightarrow> BrotliDecoderState \<Rightarrow> rhc_result option" where
  "rhc_complex alphabet_limit tbl base s = do {
     (result, s) \<leftarrow> ReadCodeLengthCodeLengths s;
     if result \<noteq> BROTLI_DECODER_SUCCESS then Some (result, None, tbl, s)
     else do {
       table \<leftarrow> BrotliBuildCodeLengthsHuffmanTable (h_table (d_header s))
         (h_code_length_code_lengths (d_header s)) (h_code_length_histo (d_header s));
       (ns, sl) \<leftarrow> foldM (\<lambda>i (ns, sl). do {
           ns \<leftarrow> arr_set ns i (int i - 16);
           sl \<leftarrow> symbol_list_set sl (int i - 16) 0xFFFF;
           Some (ns, sl) }) [0..<16]
         (h_next_symbol (d_header s), h_symbols_lists_array (d_header s));
       rhc_length_symbols alphabet_limit tbl base
         (h_upd (\<lambda>h. h\<lparr>h_table := table, h_code_length_histo := replicate 16 0,
            h_next_symbol := ns, h_symbols_lists_array := sl,
            h_symbol := 0, h_prev_code_len := 8, h_repeat := 0, h_repeat_code_len := 0,
            h_space := 32768, h_substate_huffman := BROTLI_STATE_HUFFMAN_LENGTH_SYMBOLS\<rparr>) s) } }"

definition rhc_simple_build ::
  "HuffmanCode list \<Rightarrow> nat \<Rightarrow> BrotliDecoderState \<Rightarrow> rhc_result option" where
  "rhc_simple_build tbl base s = do {
     (ok, s) \<leftarrow>
       (if h_symbol (d_header s) = 3 then do {
          (r, s) \<leftarrow> s_read s 1;
          (case r of
             None \<Rightarrow> Some (False, h_upd (\<lambda>h. h\<lparr>h_substate_huffman := BROTLI_STATE_HUFFMAN_SIMPLE_BUILD\<rparr>) s)
           | Some bits \<Rightarrow> Some (True, h_upd (\<lambda>h. h\<lparr>h_symbol := h_symbol h + bits\<rparr>) s)) }
        else Some (True, s));
     if \<not> ok then Some (BROTLI_DECODER_NEEDS_MORE_INPUT, None, tbl, s)
     else do {
       (table_size, tbl, val) \<leftarrow> BrotliBuildSimpleHuffmanTable tbl base 8
         (h_symbols_lists_array (d_header s)) (h_symbol (d_header s));
       Some (BROTLI_DECODER_SUCCESS, Some table_size, tbl,
             h_upd (\<lambda>h. h\<lparr>h_symbols_lists_array := val,
                           h_substate_huffman := BROTLI_STATE_HUFFMAN_NONE\<rparr>) s) } }"

definition rhc_simple_read ::
  "uint32 \<Rightarrow> uint32 \<Rightarrow> HuffmanCode list \<Rightarrow> nat \<Rightarrow> BrotliDecoderState \<Rightarrow> rhc_result option" where
  "rhc_simple_read alphabet_max alphabet_limit tbl base s = do {
     (result, s) \<leftarrow> ReadSimpleHuffmanSymbols alphabet_max alphabet_limit s;
     if result \<noteq> BROTLI_DECODER_SUCCESS then Some (result, None, tbl, s)
     else rhc_simple_build tbl base s }"

definition rhc_simple_size ::
  "uint32 \<Rightarrow> uint32 \<Rightarrow> HuffmanCode list \<Rightarrow> nat \<Rightarrow> BrotliDecoderState \<Rightarrow> rhc_result option" where
  "rhc_simple_size alphabet_max alphabet_limit tbl base s = do {
     (r, s) \<leftarrow> s_read s 2;
     (case r of
        None \<Rightarrow> Some (BROTLI_DECODER_NEEDS_MORE_INPUT, None, tbl,
          h_upd (\<lambda>h. h\<lparr>h_substate_huffman := BROTLI_STATE_HUFFMAN_SIMPLE_SIZE\<rparr>) s)
      | Some symbol \<Rightarrow> rhc_simple_read alphabet_max alphabet_limit tbl base
          (h_upd (\<lambda>h. h\<lparr>h_symbol := symbol, h_sub_loop_counter := 0\<rparr>) s)) }"

definition rhc_none ::
  "uint32 \<Rightarrow> uint32 \<Rightarrow> HuffmanCode list \<Rightarrow> nat \<Rightarrow> BrotliDecoderState \<Rightarrow> rhc_result option" where
  "rhc_none alphabet_max alphabet_limit tbl base s = do {
     (r, s) \<leftarrow> s_read s 2;
     (case r of
        None \<Rightarrow> Some (BROTLI_DECODER_NEEDS_MORE_INPUT, None, tbl, s)
      | Some skip \<Rightarrow>
          let s = h_upd (\<lambda>h. h\<lparr>h_sub_loop_counter := skip\<rparr>) s
          in if skip \<noteq> 1 then
               rhc_complex alphabet_limit tbl base
                 (h_upd (\<lambda>h. h\<lparr>h_space := 32, h_repeat := 0,
                    h_code_length_histo := replicate 6 0 @ drop 6 (h_code_length_histo h),
                    h_code_length_code_lengths := replicate BROTLI_CODE_LENGTH_CODES 0,
                    h_substate_huffman := BROTLI_STATE_HUFFMAN_COMPLEX\<rparr>) s)
             else rhc_simple_size alphabet_max alphabet_limit tbl base s) }"

definition ReadHuffmanCode ::
  "uint32 \<Rightarrow> uint32 \<Rightarrow> HuffmanCode list \<Rightarrow> nat \<Rightarrow> BrotliDecoderState \<Rightarrow> rhc_result option" where
  "ReadHuffmanCode alphabet_max alphabet_limit tbl base s =
     (case h_substate_huffman (d_header s) of
        BROTLI_STATE_HUFFMAN_NONE \<Rightarrow> rhc_none alphabet_max alphabet_limit tbl base s
      | BROTLI_STATE_HUFFMAN_SIMPLE_SIZE \<Rightarrow> rhc_simple_size alphabet_max alphabet_limit tbl base s
      | BROTLI_STATE_HUFFMAN_SIMPLE_READ \<Rightarrow> rhc_simple_read alphabet_max alphabet_limit tbl base s
      | BROTLI_STATE_HUFFMAN_SIMPLE_BUILD \<Rightarrow> rhc_simple_build tbl base s
      | BROTLI_STATE_HUFFMAN_COMPLEX \<Rightarrow> rhc_complex alphabet_limit tbl base s
      | BROTLI_STATE_HUFFMAN_LENGTH_SYMBOLS \<Rightarrow> rhc_length_symbols alphabet_limit tbl base s)"

section \<open>Tree groups\<close>

text \<open>
  The group is one of the three of the state, given and returned; \<open>h->next\<close> is an offset into its
  \<open>codes\<close>.
\<close>

partial_function (option) htgd_loop ::
  "HuffmanTreeGroup \<Rightarrow> BrotliDecoderState \<Rightarrow>
     (BrotliDecoderErrorCode \<times> HuffmanTreeGroup \<times> BrotliDecoderState) option" where
  [code]: "htgd_loop grp s =
     (if h_htree_index (d_header s) < uint (num_htrees grp) then do {
        let nxt = h_next (d_header s);
        (result, table_size, tbl, s) \<leftarrow>
          ReadHuffmanCode (ucast (alphabet_size_max grp)) (ucast (alphabet_size_limit grp)) (codes grp) nxt s;
        let grp = grp\<lparr>codes := tbl\<rparr>;
        (case table_size of
           None \<Rightarrow> Some (result, grp, s)
         | Some table_size \<Rightarrow> do {
             ht \<leftarrow> arr_seti (htrees grp) (h_htree_index (d_header s)) (Some nxt);
             htgd_loop (grp\<lparr>htrees := ht\<rparr>)
               (h_upd (\<lambda>h. h\<lparr>h_next := nxt + unat table_size, h_htree_index := h_htree_index h + 1\<rparr>) s) }) }
      else Some (BROTLI_DECODER_SUCCESS, grp,
                 h_upd (\<lambda>h. h\<lparr>h_substate_tree_group := BROTLI_STATE_TREE_GROUP_NONE\<rparr>) s))"

definition HuffmanTreeGroupDecode ::
  "HuffmanTreeGroup \<Rightarrow> BrotliDecoderState \<Rightarrow>
     (BrotliDecoderErrorCode \<times> HuffmanTreeGroup \<times> BrotliDecoderState) option" where
  "HuffmanTreeGroupDecode grp s =
     htgd_loop grp
       (if h_substate_tree_group (d_header s) \<noteq> BROTLI_STATE_TREE_GROUP_LOOP
        then h_upd (\<lambda>h. h\<lparr>h_next := 0, h_htree_index := 0,
                          h_substate_tree_group := BROTLI_STATE_TREE_GROUP_LOOP\<rparr>) s
        else s)"

end
