(* ===== verification/Decode_Context_Map.thy ===== *)
theory Decode_Context_Map
  imports Decode_Huffman
begin

text \<open>
  \<^verbatim>\<open>dec/decode.c\<close>: context maps, with the inverse move-to-front transform in place on the bytes of
  \<open>mtf\<close>, and the context modes.
\<close>

section \<open>Inverse move-to-front\<close>

text \<open>
  \<open>d_mtf\<close> holds the 260 bytes of \<open>uint32_t mtf[65]\<close>.  The C pointer \<open>mtf_u8\<close> is at byte 4, so the byte
  \<open>mtf_u8[-1]\<close> is byte 3.
\<close>

definition mtf_put_word :: "uint8 list \<Rightarrow> nat \<Rightarrow> uint32 \<Rightarrow> uint8 list option" where
  "mtf_put_word mtf i pattern =
     arr_copy mtf (4 + 4 * i) [ucast pattern, ucast (drop_bit 8 pattern), ucast (drop_bit 16 pattern),
                               ucast (drop_bit 24 pattern)] 0 4"

function mtf_init_loop :: "uint8 list \<Rightarrow> nat \<Rightarrow> uint32 \<Rightarrow> nat \<Rightarrow> uint8 list option" where
  "mtf_init_loop mtf i pattern upper_bound = do {
     let pattern = pattern + 0x04040404;
     mtf \<leftarrow> mtf_put_word mtf i pattern;
     (if i + 1 \<le> upper_bound then mtf_init_loop mtf (i + 1) pattern upper_bound else Some mtf) }"
  by pat_completeness auto
termination
  by (relation "measure (\<lambda>(mtf, i, p, u). u - i)") auto

declare mtf_init_loop.simps [simp del]

text \<open>The loop \<open>do {index--; mtf_u8[index + 1] = mtf_u8[index];} while (index >= 0)\<close>.\<close>

fun mtf_shift :: "uint8 list \<Rightarrow> nat \<Rightarrow> uint8 list option" where
  "mtf_shift mtf 0 = do {
     b \<leftarrow> arr_get mtf 3;
     arr_set mtf 4 b }"
| "mtf_shift mtf (Suc index) = do {
     b \<leftarrow> arr_get mtf (4 + index);
     mtf \<leftarrow> arr_set mtf (4 + Suc index) b;
     mtf_shift mtf index }"

definition mtf_step ::
  "nat \<Rightarrow> uint8 list \<times> uint32 \<times> uint8 list \<Rightarrow> (uint8 list \<times> uint32 \<times> uint8 list) option" where
  "mtf_step i = (\<lambda>(v, upper_bound, mtf). do {
     vi \<leftarrow> arr_get v i;
     val \<leftarrow> arr_get mtf (4 + unat vi);
     v \<leftarrow> arr_set v i val;
     mtf \<leftarrow> arr_set mtf 3 val;
     mtf \<leftarrow> mtf_shift mtf (unat vi);
     Some (v, upper_bound OR ucast vi, mtf) })"

definition InverseMoveToFrontTransform ::
  "uint8 list \<Rightarrow> nat \<Rightarrow> BrotliDecoderState \<Rightarrow> (uint8 list \<times> BrotliDecoderState) option" where
  "InverseMoveToFrontTransform v v_len s = do {
     let pattern = 0x03020100;
     mtf \<leftarrow> mtf_put_word (d_mtf s) 0 pattern;
     mtf \<leftarrow> mtf_init_loop mtf 1 pattern (unat (d_mtf_upper_bound s));
     (v, upper_bound, mtf) \<leftarrow> foldM mtf_step [0..<v_len] (v, 0, mtf);
     Some (v, s\<lparr>d_mtf := mtf, d_mtf_upper_bound := drop_bit 2 upper_bound\<rparr>) }"

section \<open>Context maps\<close>

text \<open>
  \<open>*num_htrees\<close> and \<open>*context_map_arg\<close> are fields of the caller's choice in the state: arguments and
  results here.
\<close>

type_synonym dcm_result =
  "BrotliDecoderErrorCode \<times> uint32 \<times> uint8 list option \<times> BrotliDecoderState"

definition dcm_transform ::
  "uint32 \<Rightarrow> uint32 \<Rightarrow> uint8 list option \<Rightarrow> BrotliDecoderState \<Rightarrow> dcm_result option" where
  "dcm_transform context_map_size num_trees context_map s = do {
     (r, s) \<leftarrow> s_read s 1;
     (case r of
        None \<Rightarrow> Some (BROTLI_DECODER_NEEDS_MORE_INPUT, num_trees, context_map,
          h_upd (\<lambda>h. h\<lparr>h_substate_context_map := BROTLI_STATE_CONTEXT_MAP_TRANSFORM\<rparr>) s)
      | Some bits \<Rightarrow> do {
          (context_map, s) \<leftarrow>
            (if bits \<noteq> 0 then do {
               v \<leftarrow> context_map;
               (v, s) \<leftarrow> InverseMoveToFrontTransform v (unat context_map_size) s;
               Some (Some v, s) }
             else Some (context_map, s));
          Some (BROTLI_DECODER_SUCCESS, num_trees, context_map,
            h_upd (\<lambda>h. h\<lparr>h_substate_context_map := BROTLI_STATE_CONTEXT_MAP_NONE\<rparr>) s) }) }"

text \<open>The loop \<open>do {context_map[context_index++] = 0;} while (--reps)\<close>.\<close>

definition zero_run :: "uint8 list \<Rightarrow> uint32 \<Rightarrow> uint32 \<Rightarrow> uint8 list option" where
  "zero_run cmap i reps =
     (if reps = 0 then None
      else foldM (\<lambda>k cmap. arr_set cmap k 0) [unat i..<unat i + unat reps] cmap)"

text \<open>
  The \<open>DECODE\<close> loop.  It ends with \<open>None\<close> as the code when the map is complete; \<open>skip_preamble\<close> enters the
  loop in the middle, at a run whose length bits were not there yet.
\<close>

partial_function (option) dcm_decode_loop ::
  "uint32 \<Rightarrow> uint32 \<Rightarrow> uint32 \<Rightarrow> bool \<Rightarrow> uint8 list \<Rightarrow> uint32 \<Rightarrow> BrotliDecoderState \<Rightarrow>
     (BrotliDecoderErrorCode option \<times> uint8 list \<times> BrotliDecoderState) option" where
  [code]: "dcm_decode_loop context_map_size max_run_length_prefix context_index skip_preamble cmap code s =
     (if context_index < context_map_size \<or> skip_preamble then do {
        (r, s) \<leftarrow>
          (if \<not> skip_preamble then do {
             (r, br) \<leftarrow> SafeReadSymbol (h_context_map_table (d_header s)) 0 (d_br s);
             Some (r, s\<lparr>d_br := br\<rparr>) }
           else Some (Some code, s));
        (case r of
           None \<Rightarrow> Some (Some BROTLI_DECODER_NEEDS_MORE_INPUT, cmap,
             h_upd (\<lambda>h. h\<lparr>h_code := 0xFFFF, h_context_index := context_index\<rparr>) s)
         | Some code \<Rightarrow>
             if \<not> skip_preamble \<and> code = 0 then do {
               cmap \<leftarrow> arr_set cmap (unat context_index) 0;
               dcm_decode_loop context_map_size max_run_length_prefix (context_index + 1) False cmap code s }
             else if \<not> skip_preamble \<and> code > max_run_length_prefix then do {
               cmap \<leftarrow> arr_set cmap (unat context_index) (ucast (code - max_run_length_prefix));
               dcm_decode_loop context_map_size max_run_length_prefix (context_index + 1) False cmap code s }
             else do {
               (r, s) \<leftarrow> s_read s code;
               (case r of
                  None \<Rightarrow> Some (Some BROTLI_DECODER_NEEDS_MORE_INPUT, cmap,
                    h_upd (\<lambda>h. h\<lparr>h_code := code, h_context_index := context_index\<rparr>) s)
                | Some reps \<Rightarrow> do {
                    one \<leftarrow> shl32 1 code;
                    let reps = reps + one;
                    if context_index + reps > context_map_size then
                      Some (Some BROTLI_DECODER_ERROR_FORMAT_CONTEXT_MAP_REPEAT, cmap, s)
                    else do {
                      cmap \<leftarrow> zero_run cmap context_index reps;
                      dcm_decode_loop context_map_size max_run_length_prefix (context_index + reps) False
                        cmap code s } }) }) }
      else Some (None, cmap, s))"

definition dcm_decode ::
  "uint32 \<Rightarrow> uint32 \<Rightarrow> uint8 list option \<Rightarrow> BrotliDecoderState \<Rightarrow> dcm_result option" where
  "dcm_decode context_map_size num_trees context_map s = do {
     let h = d_header s;
     cmap \<leftarrow> context_map;
     (e, cmap, s) \<leftarrow> dcm_decode_loop context_map_size (h_max_run_length_prefix h) (h_context_index h)
        (h_code h \<noteq> 0xFFFF) cmap (h_code h) s;
     (case e of
        Some e \<Rightarrow> Some (e, num_trees, Some cmap, s)
      | None \<Rightarrow> dcm_transform context_map_size num_trees (Some cmap) s) }"

definition dcm_huffman ::
  "uint32 \<Rightarrow> uint32 \<Rightarrow> uint8 list option \<Rightarrow> BrotliDecoderState \<Rightarrow> dcm_result option" where
  "dcm_huffman context_map_size num_trees context_map s = do {
     let alphabet_size = num_trees + h_max_run_length_prefix (d_header s);
     (result, table_size, tbl, s) \<leftarrow>
       ReadHuffmanCode alphabet_size alphabet_size (h_context_map_table (d_header s)) 0 s;
     let s = h_upd (\<lambda>h. h\<lparr>h_context_map_table := tbl\<rparr>) s;
     if result \<noteq> BROTLI_DECODER_SUCCESS then Some (result, num_trees, context_map, s)
     else dcm_decode context_map_size num_trees context_map
       (h_upd (\<lambda>h. h\<lparr>h_code := 0xFFFF, h_substate_context_map := BROTLI_STATE_CONTEXT_MAP_DECODE\<rparr>) s) }"

definition dcm_read_prefix ::
  "uint32 \<Rightarrow> uint32 \<Rightarrow> uint8 list option \<Rightarrow> BrotliDecoderState \<Rightarrow> dcm_result option" where
  "dcm_read_prefix context_map_size num_trees context_map s = do {
     (r, br) \<leftarrow> BrotliSafeGetBits (d_br s) 5;
     (case r of
        None \<Rightarrow> Some (BROTLI_DECODER_NEEDS_MORE_INPUT, num_trees, context_map, s\<lparr>d_br := br\<rparr>)
      | Some bits \<Rightarrow>
          let s = (if bits AND 1 \<noteq> 0
                   then h_upd (\<lambda>h. h\<lparr>h_max_run_length_prefix := drop_bit 1 bits + 1\<rparr>)
                          (s\<lparr>d_br := BrotliDropBits br 5\<rparr>)
                   else h_upd (\<lambda>h. h\<lparr>h_max_run_length_prefix := 0\<rparr>)
                          (s\<lparr>d_br := BrotliDropBits br 1\<rparr>))
          in dcm_huffman context_map_size num_trees context_map
               (h_upd (\<lambda>h. h\<lparr>h_substate_context_map := BROTLI_STATE_CONTEXT_MAP_HUFFMAN\<rparr>) s)) }"

definition dcm_none ::
  "uint32 \<Rightarrow> uint32 \<Rightarrow> uint8 list option \<Rightarrow> BrotliDecoderState \<Rightarrow> dcm_result option" where
  "dcm_none context_map_size num_trees context_map s = do {
     (result, num_trees, s) \<leftarrow> DecodeVarLenUint8 s num_trees;
     if result \<noteq> BROTLI_DECODER_SUCCESS then Some (result, num_trees, context_map, s)
     else do {
       let num_trees = num_trees + 1;
       let s = h_upd (\<lambda>h. h\<lparr>h_context_index := 0\<rparr>) s;
       let (context_map, s) = BROTLI_DECODER_ALLOC s (unat context_map_size);
       if context_map = None then Some (BROTLI_DECODER_ERROR_ALLOC_CONTEXT_MAP, num_trees, context_map, s)
       else if num_trees \<le> 1 then
         Some (BROTLI_DECODER_SUCCESS, num_trees, Some (replicate (unat context_map_size) 0), s)
       else dcm_read_prefix context_map_size num_trees context_map
         (h_upd (\<lambda>h. h\<lparr>h_substate_context_map := BROTLI_STATE_CONTEXT_MAP_READ_PREFIX\<rparr>) s) } }"

definition DecodeContextMap ::
  "uint32 \<Rightarrow> uint32 \<Rightarrow> uint8 list option \<Rightarrow> BrotliDecoderState \<Rightarrow> dcm_result option" where
  "DecodeContextMap context_map_size num_trees context_map s =
     (case h_substate_context_map (d_header s) of
        BROTLI_STATE_CONTEXT_MAP_NONE \<Rightarrow> dcm_none context_map_size num_trees context_map s
      | BROTLI_STATE_CONTEXT_MAP_READ_PREFIX \<Rightarrow> dcm_read_prefix context_map_size num_trees context_map s
      | BROTLI_STATE_CONTEXT_MAP_HUFFMAN \<Rightarrow> dcm_huffman context_map_size num_trees context_map s
      | BROTLI_STATE_CONTEXT_MAP_DECODE \<Rightarrow> dcm_decode context_map_size num_trees context_map s
      | BROTLI_STATE_CONTEXT_MAP_TRANSFORM \<Rightarrow> dcm_transform context_map_size num_trees context_map s)"

section \<open>Context modes\<close>

function rcm_loop ::
  "int \<Rightarrow> int \<Rightarrow> BrotliDecoderState \<Rightarrow> (BrotliDecoderErrorCode \<times> BrotliDecoderState) option" where
  "rcm_loop n i s =
     (if i < n then do {
        (r, s) \<leftarrow> s_read s 2;
        (case r of
           None \<Rightarrow> Some (BROTLI_DECODER_NEEDS_MORE_INPUT, s\<lparr>d_loop_counter := i\<rparr>)
         | Some bits \<Rightarrow> do {
             modes \<leftarrow> d_context_modes s;
             modes \<leftarrow> arr_seti modes i (ucast bits);
             rcm_loop n (i + 1) (s\<lparr>d_context_modes := Some modes\<rparr>) }) }
      else Some (BROTLI_DECODER_SUCCESS, s))"
  by pat_completeness auto
termination
  by (relation "measure (\<lambda>(n, i, s). nat (n - i))") auto

declare rcm_loop.simps [simp del]

definition ReadContextModes ::
  "BrotliDecoderState \<Rightarrow> (BrotliDecoderErrorCode \<times> BrotliDecoderState) option" where
  "ReadContextModes s = do {
     n \<leftarrow> arr_get (d_num_block_types s) 0;
     rcm_loop (sint n) (d_loop_counter s) s }"

end
