(* ===== verification/Decode_Blocks.thy ===== *)
theory Decode_Blocks
  imports Decode_Context_Map
begin

text \<open>
  \<^verbatim>\<open>dec/decode.c\<close>: block types and block lengths, and what a switch to a new block changes.  The flag
  \<open>safe\<close> chooses between the two instances the C code makes of each \<open>..Internal\<close> function; \<open>False\<close> as the
  result is \<open>BROTLI_FALSE\<close>.
\<close>

section \<open>Block lengths\<close>

definition ReadBlockLength ::
  "HuffmanCode list \<Rightarrow> nat \<Rightarrow> BrotliBitReader \<Rightarrow> (uint32 \<times> BrotliBitReader) option" where
  "ReadBlockLength tbl base br = do {
     (code, br) \<leftarrow> ReadSymbol tbl base br;
     r \<leftarrow> arr_get kBrotliPrefixCodeRanges (unat code);
     (v, br) \<leftarrow> BrotliReadBits24 br (ucast (pcr_nbits r));
     Some (ucast (pcr_offset r) + v, br) }"

text \<open>\<open>br\<close> is \<open>&s->br\<close> in every call.\<close>

definition SafeReadBlockLength ::
  "BrotliDecoderState \<Rightarrow> HuffmanCode list \<Rightarrow> nat \<Rightarrow> (uint32 option \<times> BrotliDecoderState) option" where
  "SafeReadBlockLength s tbl base = do {
     (idx, s) \<leftarrow>
       (if d_substate_read_block_length s = BROTLI_STATE_READ_BLOCK_LENGTH_NONE then do {
          (r, br) \<leftarrow> SafeReadSymbol tbl base (d_br s);
          Some (r, s\<lparr>d_br := br\<rparr>) }
        else Some (Some (d_block_length_index s), s));
     (case idx of
        None \<Rightarrow> Some (None, s)
      | Some index \<Rightarrow> do {
          range \<leftarrow> arr_get kBrotliPrefixCodeRanges (unat index);
          (r, s) \<leftarrow> s_read s (ucast (pcr_nbits range));
          (case r of
             None \<Rightarrow> Some (None, s\<lparr>d_block_length_index := index,
                            d_substate_read_block_length := BROTLI_STATE_READ_BLOCK_LENGTH_SUFFIX\<rparr>)
           | Some bits \<Rightarrow> Some (Some (ucast (pcr_offset range) + bits),
                s\<lparr>d_substate_read_block_length := BROTLI_STATE_READ_BLOCK_LENGTH_NONE\<rparr>)) }) }"

section \<open>Block types\<close>

text \<open>
  Reading the two codes of a block switch; \<open>None\<close> is the early \<open>return BROTLI_FALSE\<close>.  The fast instance
  stores the length itself, the safe one only when both codes are complete.
\<close>

definition dbtl_read ::
  "bool \<Rightarrow> BrotliDecoderState \<Rightarrow> nat \<Rightarrow> (uint32 option \<times> BrotliDecoderState) option" where
  "dbtl_read safe s tree_type = do {
     type_trees \<leftarrow> d_block_type_trees s;
     len_trees \<leftarrow> d_block_len_trees s;
     let type_base = tree_type * BROTLI_HUFFMAN_MAX_SIZE_258;
     let len_base = tree_type * BROTLI_HUFFMAN_MAX_SIZE_26;
     if \<not> safe then do {
       (block_type, br) \<leftarrow> ReadSymbol type_trees type_base (d_br s);
       (len, br) \<leftarrow> ReadBlockLength len_trees len_base br;
       lens \<leftarrow> arr_set (d_block_length s) tree_type len;
       Some (Some block_type, s\<lparr>d_br := br, d_block_length := lens\<rparr>) }
     else do {
       let memento = BrotliBitReaderSaveState (d_br s);
       (r, br) \<leftarrow> SafeReadSymbol type_trees type_base (d_br s);
       let s = s\<lparr>d_br := br\<rparr>;
       (case r of
          None \<Rightarrow> Some (None, s)
        | Some block_type \<Rightarrow> do {
            (r, s) \<leftarrow> SafeReadBlockLength s len_trees len_base;
            (case r of
               None \<Rightarrow> Some (None, s\<lparr>d_substate_read_block_length := BROTLI_STATE_READ_BLOCK_LENGTH_NONE,
                                   d_br := BrotliBitReaderRestoreState (d_br s) memento\<rparr>)
             | Some len \<Rightarrow> do {
                 lens \<leftarrow> arr_set (d_block_length s) tree_type len;
                 Some (Some block_type, s\<lparr>d_block_length := lens\<rparr>) }) }) } }"

definition next_block_type :: "uint32 \<Rightarrow> uint32 \<Rightarrow> uint32 \<Rightarrow> uint32 \<Rightarrow> uint32" where
  "next_block_type code max_block_type rb0 rb1 =
     (let block_type = (if code = 1 then rb1 + 1 else if code = 0 then rb0 else code - 2)
      in if block_type \<ge> max_block_type then block_type - max_block_type else block_type)"

definition DecodeBlockTypeAndLength ::
  "bool \<Rightarrow> BrotliDecoderState \<Rightarrow> nat \<Rightarrow> (bool \<times> BrotliDecoderState) option" where
  "DecodeBlockTypeAndLength safe s tree_type = do {
     max_block_type \<leftarrow> arr_get (d_num_block_types s) tree_type;
     if max_block_type \<le> 1 then Some (False, s)
     else do {
       (r, s) \<leftarrow> dbtl_read safe s tree_type;
       (case r of
          None \<Rightarrow> Some (False, s)
        | Some code \<Rightarrow> do {
            rb0 \<leftarrow> arr_get (d_block_type_rb s) (tree_type * 2);
            rb1 \<leftarrow> arr_get (d_block_type_rb s) (tree_type * 2 + 1);
            rb \<leftarrow> arr_set (d_block_type_rb s) (tree_type * 2) rb1;
            rb \<leftarrow> arr_set rb (tree_type * 2 + 1) (next_block_type code max_block_type rb0 rb1);
            Some (True, s\<lparr>d_block_type_rb := rb\<rparr>) }) } }"

section \<open>Literal contexts\<close>

definition context_block_error :: "uint8 list \<Rightarrow> nat \<Rightarrow> uint8 option" where
  "context_block_error cmap offset = do {
     sample \<leftarrow> arr_get cmap offset;
     foldM (\<lambda>j err. do {
       c \<leftarrow> arr_get cmap (offset + j);
       Some (err OR (c XOR sample)) }) [0..<64] 0 }"

definition DetectTrivialLiteralBlockTypes :: "BrotliDecoderState \<Rightarrow> BrotliDecoderState option" where
  "DetectTrivialLiteralBlockTypes s = do {
     n \<leftarrow> arr_get (d_num_block_types s) 0;
     cmap \<leftarrow> d_context_map s;
     tlc \<leftarrow> foldM (\<lambda>i tlc. do {
         err \<leftarrow> context_block_error cmap (push_bit BROTLI_LITERAL_CONTEXT_BITS i);
         if err = 0 then do {
           w \<leftarrow> arr_get tlc (drop_bit 5 i);
           arr_set tlc (drop_bit 5 i) (w OR push_bit (i mod 32) 1) }
         else Some tlc }) [0..<unat n] (replicate 8 0);
     Some (s\<lparr>d_trivial_literal_contexts := tlc\<rparr>) }"

definition PrepareLiteralDecoding :: "BrotliDecoderState \<Rightarrow> BrotliDecoderState option" where
  "PrepareLiteralDecoding s = do {
     block_type \<leftarrow> arr_get (d_block_type_rb s) 1;
     let context_offset = unat (push_bit BROTLI_LITERAL_CONTEXT_BITS block_type);
     cmap \<leftarrow> d_context_map s;
     trivial \<leftarrow> arr_get (d_trivial_literal_contexts s) (unat (drop_bit 5 block_type));
     c0 \<leftarrow> arr_get cmap context_offset;
     htree \<leftarrow> arr_get (htrees (d_literal_hgroup s)) (unat c0);
     modes \<leftarrow> d_context_modes s;
     m \<leftarrow> arr_get modes (unat block_type);
     let context_mode = m AND 3;
     Some (s\<lparr>d_context_map_slice := Some context_offset,
             d_trivial_literal_context := (drop_bit (unat (block_type AND 31)) trivial AND 1 \<noteq> 0),
             d_literal_htree := htree,
             d_context_lookup := Some (BROTLI_CONTEXT_LUT (unat context_mode))\<rparr>) }"

section \<open>Block switches\<close>

definition DecodeLiteralBlockSwitchInternal ::
  "bool \<Rightarrow> BrotliDecoderState \<Rightarrow> (bool \<times> BrotliDecoderState) option" where
  "DecodeLiteralBlockSwitchInternal safe s = do {
     (ok, s) \<leftarrow> DecodeBlockTypeAndLength safe s 0;
     if \<not> ok then Some (False, s)
     else do {
       s \<leftarrow> PrepareLiteralDecoding s;
       Some (True, s) } }"

definition DecodeCommandBlockSwitchInternal ::
  "bool \<Rightarrow> BrotliDecoderState \<Rightarrow> (bool \<times> BrotliDecoderState) option" where
  "DecodeCommandBlockSwitchInternal safe s = do {
     (ok, s) \<leftarrow> DecodeBlockTypeAndLength safe s 1;
     if \<not> ok then Some (False, s)
     else do {
       block_type \<leftarrow> arr_get (d_block_type_rb s) 3;
       htree \<leftarrow> arr_get (htrees (d_insert_copy_hgroup s)) (unat block_type);
       Some (True, s\<lparr>d_htree_command := htree\<rparr>) } }"

definition DecodeDistanceBlockSwitchInternal ::
  "bool \<Rightarrow> BrotliDecoderState \<Rightarrow> (bool \<times> BrotliDecoderState) option" where
  "DecodeDistanceBlockSwitchInternal safe s = do {
     (ok, s) \<leftarrow> DecodeBlockTypeAndLength safe s 2;
     if \<not> ok then Some (False, s)
     else do {
       block_type \<leftarrow> arr_get (d_block_type_rb s) 5;
       let slice = unat (push_bit BROTLI_DISTANCE_CONTEXT_BITS block_type);
       cmap \<leftarrow> d_dist_context_map s;
       index \<leftarrow> arr_geti cmap (int slice + d_distance_context s);
       Some (True, s\<lparr>d_dist_context_map_slice := Some slice, d_dist_htree_index := index\<rparr>) } }"

end
