(* ===== verification/Ring_Buffer.thy ===== *)
theory Ring_Buffer
  imports Decode_Header
begin

text \<open>
  \<^verbatim>\<open>dec/decode.c\<close>: the ring buffer that holds the window, and what leaves it.

  The client's output (\<open>available_out\<close>, \<open>next_out\<close>, \<open>total_out\<close>) is the record \<open>output_io\<close>: the bytes
  written through \<open>*next_out\<close> are collected in \<open>Out_Bytes\<close>; a \<open>*next_out\<close> that is \<open>NULL\<close> is set to a position
  in the ring buffer.
\<close>

abbreviation (input) kRingBufferWriteAheadSlack :: nat where "kRingBufferWriteAheadSlack \<equiv> 42"

datatype out_ptr =
    Out_None                    \<comment> \<open>\<open>next_out\<close> is \<open>NULL\<close>\<close>
  | Out_Null                    \<comment> \<open>\<open>*next_out\<close> is \<open>NULL\<close>\<close>
  | Out_Bytes "uint8 list"      \<comment> \<open>\<open>*next_out\<close> is in a client buffer; the bytes written so far\<close>
  | Out_Ring nat                \<comment> \<open>\<open>*next_out\<close> is at this offset of the ring buffer\<close>

record output_io =
  available_out :: nat
  next_out :: out_ptr
  total_out :: "uint64 option"  \<comment> \<open>\<open>None\<close> for a \<open>NULL\<close> pointer\<close>

text \<open>\<open>1 << s->window_bits\<close>\<close>

definition window_size :: "BrotliDecoderState \<Rightarrow> int option" where
  "window_size s = (if d_window_bits s < 31 then Some (2 ^ unat (d_window_bits s)) else None)"

definition UnwrittenBytes :: "BrotliDecoderState \<Rightarrow> bool \<Rightarrow> uint64" where
  "UnwrittenBytes s wrap =
     (let pos = (if wrap \<and> d_pos s > d_ringbuffer_size s
                 then word_of_int (d_ringbuffer_size s) else word_of_int (d_pos s));
          partial_pos_rb = (d_rb_roundtrips s * word_of_int (d_ringbuffer_size s)) + pos
      in partial_pos_rb - d_partial_pos_out s)"

definition put_output :: "uint8 list \<Rightarrow> nat \<Rightarrow> nat \<Rightarrow> out_ptr \<Rightarrow> out_ptr option" where
  "put_output rb start n p =
     (case p of
        Out_None \<Rightarrow> Some Out_None
      | Out_Null \<Rightarrow> Some (Out_Ring start)
      | Out_Bytes bs \<Rightarrow>
          (if start + n \<le> length rb then Some (Out_Bytes (bs @ take n (drop start rb))) else None)
      | Out_Ring k \<Rightarrow> (if n = 0 then Some (Out_Ring k) else None))"

definition WriteRingBuffer ::
  "BrotliDecoderState \<Rightarrow> output_io \<Rightarrow> bool \<Rightarrow>
     (BrotliDecoderErrorCode \<times> BrotliDecoderState \<times> output_io) option" where
  "WriteRingBuffer s out force = do {
     let start = unat (d_partial_pos_out s AND word_of_int (d_ringbuffer_mask s));
     let to_write = UnwrittenBytes s True;
     let num_written = min (available_out out) (unat to_write);
     if d_meta_block_remaining_len s < 0 then
       Some (BROTLI_DECODER_ERROR_FORMAT_BLOCK_LENGTH_1, s, out)
     else do {
       rb \<leftarrow> d_ringbuffer s;
       p \<leftarrow> put_output rb start num_written (next_out out);
       let s = s\<lparr>d_partial_pos_out := d_partial_pos_out s + of_nat num_written\<rparr>;
       let out = out\<lparr>available_out := available_out out - num_written, next_out := p,
                     total_out := (case total_out out of None \<Rightarrow> None
                                   | Some _ \<Rightarrow> Some (d_partial_pos_out s))\<rparr>;
       wsize \<leftarrow> window_size s;
       if num_written < unat to_write then
         (if d_ringbuffer_size s = wsize \<or> force
          then Some (BROTLI_DECODER_NEEDS_MORE_OUTPUT, s, out)
          else Some (BROTLI_DECODER_SUCCESS, s, out))
       else if d_ringbuffer_size s = wsize \<and> d_pos s \<ge> d_ringbuffer_size s then
         (let pos = d_pos s - d_ringbuffer_size s
          in Some (BROTLI_DECODER_SUCCESS,
                   s\<lparr>d_pos := pos, d_rb_roundtrips := d_rb_roundtrips s + 1,
                     d_should_wrap_ringbuffer := (pos \<noteq> 0)\<rparr>, out))
       else Some (BROTLI_DECODER_SUCCESS, s, out) } }"

definition WrapRingBuffer :: "BrotliDecoderState \<Rightarrow> BrotliDecoderState option" where
  "WrapRingBuffer s =
     (if d_should_wrap_ringbuffer s then do {
        rb \<leftarrow> d_ringbuffer s;
        rb \<leftarrow> (if 0 \<le> d_pos s \<and> 0 \<le> d_ringbuffer_end s \<and> d_pos s \<le> d_ringbuffer_end s
               then arr_copy rb 0 rb (nat (d_ringbuffer_end s)) (nat (d_pos s)) else None);
        Some (s\<lparr>d_ringbuffer := Some rb, d_should_wrap_ringbuffer := False\<rparr>) }
      else Some s)"

definition BrotliEnsureRingBuffer :: "BrotliDecoderState \<Rightarrow> (bool \<times> BrotliDecoderState) option" where
  "BrotliEnsureRingBuffer s =
     (if d_ringbuffer_size s = d_new_ringbuffer_size s then Some (True, s)
      else do {
        let old = d_ringbuffer s;
        let new_size = d_new_ringbuffer_size s;
        let (rb, s) = BROTLI_DECODER_ALLOC s (nat new_size + kRingBufferWriteAheadSlack);
        (case rb of
           None \<Rightarrow> Some (False, s)
         | Some rb \<Rightarrow> do {
             rb \<leftarrow> arr_seti rb (new_size - 2) 0;
             rb \<leftarrow> arr_seti rb (new_size - 1) 0;
             rb \<leftarrow> (case old of
                     None \<Rightarrow> Some rb
                   | Some old \<Rightarrow> if 0 \<le> d_pos s then arr_copy rb 0 old 0 (nat (d_pos s)) else None);
             Some (True, s\<lparr>d_ringbuffer := Some rb, d_ringbuffer_size := new_size,
                           d_ringbuffer_mask := new_size - 1, d_ringbuffer_end := new_size\<rparr>) }) })"

section \<open>Uncompressed meta-blocks\<close>

text \<open>The part before the write: \<open>Some e\<close> is the \<open>return e\<close> in it.\<close>

definition cub_copy ::
  "BrotliDecoderState \<Rightarrow> (BrotliDecoderErrorCode option \<times> BrotliDecoderState) option" where
  "cub_copy s = do {
     let nbytes = int (BrotliGetRemainingBytes (d_br s));
     let nbytes = (if nbytes > d_meta_block_remaining_len s then d_meta_block_remaining_len s else nbytes);
     let nbytes = (if d_pos s + nbytes > d_ringbuffer_size s then d_ringbuffer_size s - d_pos s else nbytes);
     rb \<leftarrow> d_ringbuffer s;
     (rb, br) \<leftarrow> (if 0 \<le> d_pos s \<and> 0 \<le> nbytes
                  then BrotliCopyBytes rb (nat (d_pos s)) (d_br s) (nat nbytes) else None);
     let s = s\<lparr>d_ringbuffer := Some rb, d_br := br, d_pos := d_pos s + nbytes,
               d_meta_block_remaining_len := d_meta_block_remaining_len s - nbytes\<rparr>;
     wsize \<leftarrow> window_size s;
     if d_pos s < wsize then
       Some (Some (if d_meta_block_remaining_len s = 0 then BROTLI_DECODER_SUCCESS
                   else BROTLI_DECODER_NEEDS_MORE_INPUT), s)
     else Some (None, s\<lparr>d_substate_uncompressed := BROTLI_STATE_UNCOMPRESSED_WRITE\<rparr>) }"

partial_function (option) cub_loop ::
  "BrotliDecoderState \<Rightarrow> output_io \<Rightarrow> (BrotliDecoderErrorCode \<times> BrotliDecoderState \<times> output_io) option" where
  [code]: "cub_loop s out = do {
     (e, s) \<leftarrow> (if d_substate_uncompressed s = BROTLI_STATE_UNCOMPRESSED_NONE then cub_copy s
                else Some (None, s));
     (case e of
        Some e \<Rightarrow> Some (e, s, out)
      | None \<Rightarrow> do {
          (result, s, out) \<leftarrow> WriteRingBuffer s out False;
          if result \<noteq> BROTLI_DECODER_SUCCESS then Some (result, s, out)
          else do {
            wsize \<leftarrow> window_size s;
            let s = (if d_ringbuffer_size s = wsize
                     then s\<lparr>d_max_distance := d_max_backward_distance s\<rparr> else s);
            cub_loop (s\<lparr>d_substate_uncompressed := BROTLI_STATE_UNCOMPRESSED_NONE\<rparr>) out } }) }"

definition CopyUncompressedBlockToOutput ::
  "BrotliDecoderState \<Rightarrow> output_io \<Rightarrow> (BrotliDecoderErrorCode \<times> BrotliDecoderState \<times> output_io) option" where
  "CopyUncompressedBlockToOutput s out = do {
     (ok, s) \<leftarrow> BrotliEnsureRingBuffer s;
     if \<not> ok then Some (BROTLI_DECODER_ERROR_ALLOC_RING_BUFFER_1, s, out) else cub_loop s out }"

section \<open>The size of the ring buffer\<close>

text \<open>\<open>while ((new_ringbuffer_size >> 1) >= min_size) new_ringbuffer_size >>= 1;\<close>, \<open>None\<close> when it would not end.\<close>

function halve_while :: "int \<Rightarrow> int \<Rightarrow> int option" where
  "halve_while n min_size =
     (if n div 2 \<ge> min_size then (if n \<le> 0 then None else halve_while (n div 2) min_size) else Some n)"
  by pat_completeness auto
termination
  by (relation "measure (\<lambda>(n, m). nat n)") auto

declare halve_while.simps [simp del]

definition BrotliCalculateRingBufferSize :: "BrotliDecoderState \<Rightarrow> BrotliDecoderState option" where
  "BrotliCalculateRingBufferSize s = do {
     wsize \<leftarrow> window_size s;
     let min_size = (if d_ringbuffer_size s \<noteq> 0 then d_ringbuffer_size s else 1024);
     if d_ringbuffer_size s = wsize then Some s
     else if d_is_metadata s then Some s
     else do {
       let output_size = (if d_ringbuffer s = None then 0 else d_pos s);
       let output_size = output_size + d_meta_block_remaining_len s;
       let min_size = (if min_size < output_size then output_size else min_size);
       new_size \<leftarrow> (if d_canny_ringbuffer_allocation s then halve_while wsize min_size else Some wsize);
       Some (s\<lparr>d_new_ringbuffer_size := new_size\<rparr>) } }"

end
