(* ===== verification/Decode_Distance.thy ===== *)
theory Decode_Distance
  imports Decode_Blocks
begin

text \<open>
  \<^verbatim>\<open>dec/decode.c\<close>: distances and insert-and-copy commands.  The flag \<open>safe\<close> chooses the instance of an
  \<open>..Internal\<close> function.
\<close>

section \<open>Recent distances\<close>

definition TakeDistanceFromRingBuffer :: "BrotliDecoderState \<Rightarrow> BrotliDecoderState option" where
  "TakeDistanceFromRingBuffer s =
     (let offset = d_distance_code s - 3
      in if d_distance_code s \<le> 3 then
           (if d_distance_code s < 0 then None
            else do {
              let context = (if d_distance_code s = 0 then 1 else 0);
              d \<leftarrow> arr_geti (d_dist_rb s) ((d_dist_rb_idx s - offset) AND 3);
              Some (s\<lparr>d_distance_context := context, d_distance_code := d,
                      d_dist_rb_idx := d_dist_rb_idx s - context\<rparr>) })
         else do {
           let (base, index_delta) = (if d_distance_code s < 10 then (d_distance_code s - 4, 3)
                                      else (d_distance_code s - 10, 2));
           delta \<leftarrow> (if 0 \<le> base \<and> 4 * base < 32
                     then Some ((drop_bit (nat (4 * base)) 0x605142 AND 0xF) - 3) else None);
           d \<leftarrow> arr_geti (d_dist_rb s) ((d_dist_rb_idx s + index_delta) AND 0x3);
           let code = d + delta;
           Some (s\<lparr>d_distance_code := (if code \<le> 0 then 0x7FFFFFFF else code)\<rparr>) })"

section \<open>Readers that accept zero bits\<close>

definition SafeReadBits ::
  "BrotliBitReader \<Rightarrow> uint32 \<Rightarrow> (uint32 option \<times> BrotliBitReader) option" where
  "SafeReadBits br n_bits =
     (if n_bits \<noteq> 0 then BrotliSafeReadBits br n_bits else Some (Some 0, br))"

definition SafeReadBits32 ::
  "BrotliBitReader \<Rightarrow> uint32 \<Rightarrow> (uint32 option \<times> BrotliBitReader) option" where
  "SafeReadBits32 br n_bits =
     (if n_bits \<noteq> 0 then BrotliSafeReadBits32 br n_bits else Some (Some 0, br))"

section \<open>The distance table\<close>

text \<open>The inner loop that fills a group of \<open>postfix\<close> codes.\<close>

definition dist_fill ::
  "nat \<Rightarrow> nat \<Rightarrow> uint8 \<Rightarrow> uint32 \<Rightarrow> uint8 list \<times> uint32 list \<Rightarrow> (uint8 list \<times> uint32 list) option" where
  "dist_fill n i bits base = foldM (\<lambda>j (extra, offset). do {
       extra \<leftarrow> arr_set extra (i + j) bits;
       offset \<leftarrow> arr_set offset (i + j) (base + of_nat j);
       Some (extra, offset) }) [0..<n]"

function dist_groups ::
  "nat \<Rightarrow> uint32 \<Rightarrow> uint32 \<Rightarrow> nat \<Rightarrow> uint32 \<Rightarrow> uint32 \<Rightarrow> uint8 list \<times> uint32 list \<Rightarrow>
     (uint8 list \<times> uint32 list) option" where
  "dist_groups limit npostfix ndirect i bits half ts =
     (if i < limit then do {
        a \<leftarrow> shl32 (2 + half) bits;
        b \<leftarrow> shl32 (a - 4) npostfix;
        let base = ndirect + b + 1;
        ts \<leftarrow> dist_fill (2 ^ unat npostfix) i (ucast bits) base ts;
        dist_groups limit npostfix ndirect (i + 2 ^ unat npostfix) (bits + half) (half XOR 1) ts }
      else Some ts)"
  by pat_completeness auto
termination
  by (relation "measure (\<lambda>(limit, np, nd, i, b, h, ts). limit - i)") (auto intro!: diff_less_mono2)

declare dist_groups.simps [simp del]

definition CalculateDistanceLut :: "BrotliDecoderState \<Rightarrow> BrotliDecoderState option" where
  "CalculateDistanceLut s = do {
     let npostfix = d_distance_postfix_bits s;
     let ndirect = d_num_direct_distance_codes s;
     let limit = unat (alphabet_size_limit (d_distance_hgroup s));
     (if npostfix < 32 then Some () else None);
     ts \<leftarrow> dist_fill (unat ndirect) 16 0 1
       (b_dist_extra_bits (d_body s), b_dist_offset (d_body s));
     (extra, offset) \<leftarrow> dist_groups limit npostfix ndirect (16 + unat ndirect) 1 0 ts;
     Some (s\<lparr>d_body := (d_body s)\<lparr>b_dist_extra_bits := extra, b_dist_offset := offset\<rparr>\<rparr>) }"

section \<open>Reading a distance\<close>

definition upd_block_length :: "nat \<Rightarrow> (uint32 \<Rightarrow> uint32) \<Rightarrow> BrotliDecoderState \<Rightarrow> BrotliDecoderState option" where
  "upd_block_length k f s = do {
     n \<leftarrow> arr_get (d_block_length s) k;
     lens \<leftarrow> arr_set (d_block_length s) k (f n);
     Some (s\<lparr>d_block_length := lens\<rparr>) }"

definition ReadDistanceInternal ::
  "bool \<Rightarrow> BrotliDecoderState \<Rightarrow> (bool \<times> BrotliDecoderState) option" where
  "ReadDistanceInternal safe s = do {
     tree \<leftarrow> arr_get (htrees (d_distance_hgroup s)) (unat (d_dist_htree_index s));
     base \<leftarrow> tree;
     let memento = BrotliBitReaderSaveState (d_br s);
     (r, br) \<leftarrow> (if \<not> safe then do {
                   (code, br) \<leftarrow> ReadSymbol (codes (d_distance_hgroup s)) base (d_br s);
                   Some (Some code, br) }
                 else SafeReadSymbol (codes (d_distance_hgroup s)) base (d_br s));
     let s = s\<lparr>d_br := br\<rparr>;
     (case r of
        None \<Rightarrow> Some (False, s)
      | Some code \<Rightarrow> do {
          s \<leftarrow> upd_block_length 2 (\<lambda>n. n - 1) s;
          let s = s\<lparr>d_distance_context := 0\<rparr>;
          if code AND NOT 0xF = 0 then do {
            s \<leftarrow> TakeDistanceFromRingBuffer (s\<lparr>d_distance_code := sint code\<rparr>);
            Some (True, s) }
          else do {
            nbits \<leftarrow> arr_get (b_dist_extra_bits (d_body s)) (unat code);
            (r, br) \<leftarrow> (if \<not> safe then do {
                          (v, br) \<leftarrow> BrotliReadBits32 (d_br s) (ucast nbits);
                          Some (Some v, br) }
                        else SafeReadBits32 (d_br s) (ucast nbits));
            let s = s\<lparr>d_br := br\<rparr>;
            (case r of
               None \<Rightarrow> do {
                 s \<leftarrow> upd_block_length 2 (\<lambda>n. n + 1) s;
                 Some (False, s\<lparr>d_br := BrotliBitReaderRestoreState (d_br s) memento\<rparr>) }
             | Some bits \<Rightarrow> do {
                 offset \<leftarrow> arr_get (b_dist_offset (d_body s)) (unat code);
                 x \<leftarrow> shl32 bits (d_distance_postfix_bits s);
                 Some (True, s\<lparr>d_distance_code := sint (offset + x)\<rparr>) }) } }) }"

section \<open>Reading a command\<close>

text \<open>The extra bits of the two lengths; \<open>None\<close> when the safe readers run out of input.\<close>

definition rci_extra ::
  "bool \<Rightarrow> CmdLutElement \<Rightarrow> BrotliBitReader \<Rightarrow> ((uint32 \<times> uint32) option \<times> BrotliBitReader) option" where
  "rci_extra safe v br =
     (if \<not> safe then do {
        (ins, br) \<leftarrow> (if insert_len_extra_bits v \<noteq> 0
                      then BrotliReadBits24 br (ucast (insert_len_extra_bits v)) else Some (0, br));
        (cpy, br) \<leftarrow> BrotliReadBits24 br (ucast (copy_len_extra_bits v));
        Some (Some (ins, cpy), br) }
      else do {
        (ins, br) \<leftarrow> SafeReadBits br (ucast (insert_len_extra_bits v));
        (case ins of
           None \<Rightarrow> Some (None, br)
         | Some ins \<Rightarrow> do {
             (cpy, br) \<leftarrow> SafeReadBits br (ucast (copy_len_extra_bits v));
             Some (map_option (\<lambda>cpy. (ins, cpy)) cpy, br) }) })"

definition ReadCommandInternal ::
  "bool \<Rightarrow> BrotliDecoderState \<Rightarrow> int \<Rightarrow> (bool \<times> int \<times> BrotliDecoderState) option" where
  "ReadCommandInternal safe s insert_length = do {
     base \<leftarrow> d_htree_command s;
     let memento = BrotliBitReaderSaveState (d_br s);
     (r, br) \<leftarrow> (if \<not> safe then do {
                   (code, br) \<leftarrow> ReadSymbol (codes (d_insert_copy_hgroup s)) base (d_br s);
                   Some (Some code, br) }
                 else SafeReadSymbol (codes (d_insert_copy_hgroup s)) base (d_br s));
     let s = s\<lparr>d_br := br\<rparr>;
     (case r of
        None \<Rightarrow> Some (False, insert_length, s)
      | Some cmd_code \<Rightarrow> do {
          v \<leftarrow> arr_get kCmdLut (unat cmd_code);
          slice \<leftarrow> d_dist_context_map_slice s;
          cmap \<leftarrow> d_dist_context_map s;
          index \<leftarrow> arr_get cmap (slice + unat (cmd_context v));
          let s = s\<lparr>d_distance_code := cmd_distance_code v, d_distance_context := uint (cmd_context v),
                    d_dist_htree_index := index\<rparr>;
          let insert_length = uint (insert_len_offset v);
          (r, br) \<leftarrow> rci_extra safe v (d_br s);
          (case r of
             None \<Rightarrow> Some (False, insert_length, s\<lparr>d_br := BrotliBitReaderRestoreState br memento\<rparr>)
           | Some (ins, cpy) \<Rightarrow> do {
               s \<leftarrow> upd_block_length 1 (\<lambda>n. n - 1)
                     (s\<lparr>d_br := br, d_copy_length := sint cpy + uint (copy_len_offset v)\<rparr>);
               Some (True, insert_length + sint ins, s) }) }) }"

definition CheckInputAmount :: "bool \<Rightarrow> BrotliBitReader \<Rightarrow> nat \<Rightarrow> bool" where
  "CheckInputAmount safe br num \<longleftrightarrow> safe \<or> BrotliCheckInputAmount br num"

end
