(* ===== verification/Decode_Commands.thy ===== *)
theory Decode_Commands
  imports Decode_Distance Ring_Buffer
begin

text \<open>
  \<^verbatim>\<open>dec/decode.c\<close>: \<open>ProcessCommandsInternal\<close>, the loop over the commands of a meta-block.

  The function's labels are the constructors of \<open>pc_label\<close>, and each has a definition that runs from the
  label to the next jump.  The locals \<open>pos\<close> and \<open>i\<close> are arguments; a jump is a value of \<open>pc_next\<close>:
  \<open>Goto\<close> another label, \<open>Save\<close> for \<open>goto saveStateAndReturn\<close>, and \<open>Leave\<close> for a direct \<open>return\<close>.
\<close>

datatype pc_label =
    CommandBegin
  | CommandInner
  | CommandPostDecodeLiterals
  | CommandPostWrapCopy

datatype pc_next =
    Goto pc_label int int BrotliDecoderState
  | Save BrotliDecoderErrorCode int int BrotliDecoderState
  | Leave BrotliDecoderErrorCode BrotliDecoderState

definition rb_store :: "BrotliDecoderState \<Rightarrow> int \<Rightarrow> uint8 \<Rightarrow> BrotliDecoderState option" where
  "rb_store s pos b = do {
     rb \<leftarrow> d_ringbuffer s;
     rb \<leftarrow> arr_seti rb pos b;
     Some (s\<lparr>d_ringbuffer := Some rb\<rparr>) }"

definition rb_load :: "BrotliDecoderState \<Rightarrow> int \<Rightarrow> uint8 option" where
  "rb_load s pos = do {
     rb \<leftarrow> d_ringbuffer s;
     arr_geti rb pos }"

definition rb_move :: "BrotliDecoderState \<Rightarrow> int \<Rightarrow> int \<Rightarrow> int \<Rightarrow> BrotliDecoderState option" where
  "rb_move s dst src n = do {
     rb \<leftarrow> d_ringbuffer s;
     rb \<leftarrow> (if 0 \<le> dst \<and> 0 \<le> src \<and> 0 \<le> n then arr_copy rb (nat dst) rb (nat src) (nat n) else None);
     Some (s\<lparr>d_ringbuffer := Some rb\<rparr>) }"

section \<open>CommandBegin\<close>

definition pc_begin :: "bool \<Rightarrow> int \<Rightarrow> int \<Rightarrow> BrotliDecoderState \<Rightarrow> pc_next option" where
  "pc_begin safe pos i s = do {
     let s = (if safe then s\<lparr>d_state := BROTLI_STATE_COMMAND_BEGIN\<rparr> else s);
     if \<not> CheckInputAmount safe (d_br s) 28 then
       Some (Save BROTLI_DECODER_NEEDS_MORE_INPUT pos i (s\<lparr>d_state := BROTLI_STATE_COMMAND_BEGIN\<rparr>))
     else do {
       n \<leftarrow> arr_get (d_block_length s) 1;
       if n = 0 then do {
         (ok, s) \<leftarrow> DecodeCommandBlockSwitchInternal safe s;
         Some (if safe \<and> \<not> ok then Save BROTLI_DECODER_NEEDS_MORE_INPUT pos i s
               else Goto CommandBegin pos i s) }
       else do {
         (ok, i, s) \<leftarrow> ReadCommandInternal safe s i;
         Some (if safe \<and> \<not> ok then Save BROTLI_DECODER_NEEDS_MORE_INPUT pos i s
               else if i = 0 then Goto CommandPostDecodeLiterals pos i s
               else Goto CommandInner pos i
                      (s\<lparr>d_meta_block_remaining_len := d_meta_block_remaining_len s - i\<rparr>)) } } }"

section \<open>CommandInner\<close>

text \<open>What follows a stored literal; \<open>None\<close> stands for the next round of the loop.\<close>

definition literal_stored :: "int \<Rightarrow> int \<Rightarrow> BrotliDecoderState \<Rightarrow> pc_next option" where
  "literal_stored pos i s =
     (if pos + 1 = d_ringbuffer_size s then
        Some (Save BROTLI_DECODER_SUCCESS (pos + 1) (i - 1) (s\<lparr>d_state := BROTLI_STATE_COMMAND_INNER_WRITE\<rparr>))
      else if i - 1 = 0 then
        Some (if d_meta_block_remaining_len s \<le> 0
              then Save BROTLI_DECODER_SUCCESS (pos + 1) 0 (s\<lparr>d_state := BROTLI_STATE_METABLOCK_DONE\<rparr>)
              else Goto CommandPostDecodeLiterals (pos + 1) 0 s)
      else None)"

text \<open>
  The loop for a block type with one literal tree.  \<open>bits\<close> and \<open>val\<close> are the preloaded entry, which only
  the fast instance uses.  \<open>trivial_switch\<close> is the block switch in it: a jump out of the loop, or the
  locals to go on with.
\<close>

definition trivial_switch ::
  "bool \<Rightarrow> uint32 \<Rightarrow> uint32 \<Rightarrow> int \<Rightarrow> int \<Rightarrow> BrotliDecoderState \<Rightarrow>
     (pc_next + uint32 \<times> uint32 \<times> BrotliDecoderState) option" where
  "trivial_switch safe bits val pos i s = do {
     n \<leftarrow> arr_get (d_block_length s) 0;
     if n = 0 then do {
       (ok, s) \<leftarrow> DecodeLiteralBlockSwitchInternal safe s;
       if safe \<and> \<not> ok then Some (Inl (Save BROTLI_DECODER_NEEDS_MORE_INPUT pos i s))
       else do {
         tree \<leftarrow> d_literal_htree s;
         (br, bits, val) \<leftarrow> PreloadSymbol safe (codes (d_literal_hgroup s)) tree (d_br s) bits val;
         let s = s\<lparr>d_br := br\<rparr>;
         Some (if \<not> d_trivial_literal_context s then Inl (Goto CommandInner pos i s)
               else Inr (bits, val, s)) } }
     else Some (Inr (bits, val, s)) }"

definition trivial_read ::
  "bool \<Rightarrow> uint32 \<Rightarrow> uint32 \<Rightarrow> BrotliDecoderState \<Rightarrow>
     (uint32 option \<times> uint32 \<times> uint32 \<times> BrotliDecoderState) option" where
  "trivial_read safe bits val s = do {
     tree \<leftarrow> d_literal_htree s;
     if \<not> safe then do {
       (literal, br, bits, val) \<leftarrow>
         ReadPreloadedSymbol (codes (d_literal_hgroup s)) tree (d_br s) bits val;
       Some (Some literal, bits, val, s\<lparr>d_br := br\<rparr>) }
     else do {
       (r, br) \<leftarrow> SafeReadSymbol (codes (d_literal_hgroup s)) tree (d_br s);
       Some (r, bits, val, s\<lparr>d_br := br\<rparr>) } }"

partial_function (option) trivial_loop ::
  "bool \<Rightarrow> uint32 \<Rightarrow> uint32 \<Rightarrow> int \<Rightarrow> int \<Rightarrow> BrotliDecoderState \<Rightarrow> pc_next option" where
  [code]: "trivial_loop safe bits val pos i s =
     (if \<not> CheckInputAmount safe (d_br s) 28 then
        Some (Save BROTLI_DECODER_NEEDS_MORE_INPUT pos i (s\<lparr>d_state := BROTLI_STATE_COMMAND_INNER\<rparr>))
      else do {
        sw \<leftarrow> trivial_switch safe bits val pos i s;
        (case sw of
           Inl nxt \<Rightarrow> Some nxt
         | Inr (bits, val, s) \<Rightarrow> do {
             (r, bits, val, s) \<leftarrow> trivial_read safe bits val s;
             (case r of
                None \<Rightarrow> Some (Save BROTLI_DECODER_NEEDS_MORE_INPUT pos i s)
              | Some literal \<Rightarrow> do {
                  s \<leftarrow> rb_store s pos (ucast literal);
                  s \<leftarrow> upd_block_length 0 (\<lambda>n. n - 1) s;
                  (case literal_stored pos i s of
                     Some nxt \<Rightarrow> Some nxt
                   | None \<Rightarrow> trivial_loop safe bits val (pos + 1) (i - 1) s) }) }) })"

text \<open>The loop with a tree per context, which the two bytes before the literal choose.\<close>

definition context_switch ::
  "bool \<Rightarrow> int \<Rightarrow> int \<Rightarrow> BrotliDecoderState \<Rightarrow> (pc_next + BrotliDecoderState) option" where
  "context_switch safe pos i s = do {
     n \<leftarrow> arr_get (d_block_length s) 0;
     if n = 0 then do {
       (ok, s) \<leftarrow> DecodeLiteralBlockSwitchInternal safe s;
       Some (if safe \<and> \<not> ok then Inl (Save BROTLI_DECODER_NEEDS_MORE_INPUT pos i s)
             else if d_trivial_literal_context s then Inl (Goto CommandInner pos i s)
             else Inr s) }
     else Some (Inr s) }"

definition context_read ::
  "bool \<Rightarrow> uint8 \<Rightarrow> uint8 \<Rightarrow> BrotliDecoderState \<Rightarrow> (uint32 option \<times> BrotliDecoderState) option" where
  "context_read safe p1 p2 s = do {
     lut \<leftarrow> d_context_lookup s;
     context \<leftarrow> BROTLI_CONTEXT p1 p2 lut;
     slice \<leftarrow> d_context_map_slice s;
     cmap \<leftarrow> d_context_map s;
     k \<leftarrow> arr_get cmap (slice + unat context);
     hc \<leftarrow> arr_get (htrees (d_literal_hgroup s)) (unat k);
     tree \<leftarrow> hc;
     (r, br) \<leftarrow> (if \<not> safe then do {
                   (v, br) \<leftarrow> ReadSymbol (codes (d_literal_hgroup s)) tree (d_br s);
                   Some (Some v, br) }
                 else SafeReadSymbol (codes (d_literal_hgroup s)) tree (d_br s));
     Some (r, s\<lparr>d_br := br\<rparr>) }"

partial_function (option) context_loop ::
  "bool \<Rightarrow> uint8 \<Rightarrow> uint8 \<Rightarrow> int \<Rightarrow> int \<Rightarrow> BrotliDecoderState \<Rightarrow> pc_next option" where
  [code]: "context_loop safe p1 p2 pos i s =
     (if \<not> CheckInputAmount safe (d_br s) 28 then
        Some (Save BROTLI_DECODER_NEEDS_MORE_INPUT pos i (s\<lparr>d_state := BROTLI_STATE_COMMAND_INNER\<rparr>))
      else do {
        sw \<leftarrow> context_switch safe pos i s;
        (case sw of
           Inl nxt \<Rightarrow> Some nxt
         | Inr s \<Rightarrow> do {
             (r, s) \<leftarrow> context_read safe p1 p2 s;
             (case r of
                None \<Rightarrow> Some (Save BROTLI_DECODER_NEEDS_MORE_INPUT pos i s)
              | Some literal \<Rightarrow> do {
                  s \<leftarrow> rb_store s pos (ucast literal);
                  s \<leftarrow> upd_block_length 0 (\<lambda>n. n - 1) s;
                  (case literal_stored pos i s of
                     Some nxt \<Rightarrow> Some nxt
                   | None \<Rightarrow> context_loop safe (ucast literal) p1 (pos + 1) (i - 1) s) }) }) })"

definition pc_inner :: "bool \<Rightarrow> int \<Rightarrow> int \<Rightarrow> BrotliDecoderState \<Rightarrow> pc_next option" where
  "pc_inner safe pos i s = do {
     let s = (if safe then s\<lparr>d_state := BROTLI_STATE_COMMAND_INNER\<rparr> else s);
     if d_trivial_literal_context s then do {
       tree \<leftarrow> d_literal_htree s;
       (br, bits, val) \<leftarrow> PreloadSymbol safe (codes (d_literal_hgroup s)) tree (d_br s) 0 0;
       trivial_loop safe bits val pos i (s\<lparr>d_br := br\<rparr>) }
     else do {
       p1 \<leftarrow> rb_load s ((pos - 1) AND d_ringbuffer_mask s);
       p2 \<leftarrow> rb_load s ((pos - 2) AND d_ringbuffer_mask s);
       context_loop safe p1 p2 pos i s } }"

section \<open>CommandPostDecodeLiterals\<close>

text \<open>The distance of the command; \<open>False\<close> when the safe readers run out of input.\<close>

definition pc_distance :: "bool \<Rightarrow> BrotliDecoderState \<Rightarrow> (bool \<times> BrotliDecoderState) option" where
  "pc_distance safe s =
     (if d_distance_code s \<ge> 0 then do {
        let s = s\<lparr>d_distance_context := (if d_distance_code s \<noteq> 0 then 0 else 1),
                  d_dist_rb_idx := d_dist_rb_idx s - 1\<rparr>;
        d \<leftarrow> arr_geti (d_dist_rb s) (d_dist_rb_idx s AND 3);
        Some (True, s\<lparr>d_distance_code := d\<rparr>) }
      else do {
        n \<leftarrow> arr_get (d_block_length s) 2;
        (ok, s) \<leftarrow> (if n = 0 then DecodeDistanceBlockSwitchInternal safe s else Some (True, s));
        if safe \<and> \<not> ok then Some (False, s)
        else do {
          (ok, s) \<leftarrow> ReadDistanceInternal safe s;
          Some (\<not> (safe \<and> \<not> ok), s) } })"

text \<open>A reference to the static dictionary.\<close>

definition pc_dictionary :: "int \<Rightarrow> int \<Rightarrow> BrotliDecoderState \<Rightarrow> pc_next option" where
  "pc_dictionary pos i s =
     (if d_distance_code s > 0x7FFFFFFC then Some (Leave BROTLI_DECODER_ERROR_FORMAT_DISTANCE s)
      else if 4 \<le> i \<and> i \<le> 24 then do {
        let address = d_distance_code s - d_max_distance s - 1;
        let words = d_dictionary s;
        let T = d_transforms s;
        o1 \<leftarrow> arr_geti (offsets_by_length words) i;
        shift \<leftarrow> arr_geti (size_bits_by_length words) i;
        m \<leftarrow> BitMask (ucast shift);
        let word_idx = address AND sint m;
        let transform_idx = drop_bit (unat shift) address;
        let s = s\<lparr>d_dist_rb_idx := d_dist_rb_idx s + d_distance_context s\<rparr>;
        let offset = sint o1 + word_idx * i;
        (case dict_data words of
           None \<Rightarrow> Some (Leave BROTLI_DECODER_ERROR_DICTIONARY_NOT_SET s)
         | Some data \<Rightarrow>
             if transform_idx < sint (num_transforms T) then do {
               rb \<leftarrow> d_ringbuffer s;
               cut \<leftarrow> arr_get (cutOffTransforms T) 0;
               (len, rb) \<leftarrow>
                 (if pos < 0 \<or> offset < 0 then None
                  else if transform_idx = cut then do {
                    rb \<leftarrow> arr_copy rb (nat pos) data (nat offset) (nat i);
                    Some (i, rb) }
                  else if transform_idx < 0 then None
                  else BrotliTransformDictionaryWord rb (nat pos) data (nat offset) i T (nat transform_idx));
               let s = s\<lparr>d_ringbuffer := Some rb,
                         d_meta_block_remaining_len := d_meta_block_remaining_len s - len\<rparr>;
               if pos + len \<ge> d_ringbuffer_size s then
                 Some (Save BROTLI_DECODER_SUCCESS (pos + len) i
                        (s\<lparr>d_state := BROTLI_STATE_COMMAND_POST_WRITE_1\<rparr>))
               else if d_meta_block_remaining_len s \<le> 0 then
                 Some (Save BROTLI_DECODER_SUCCESS (pos + len) i
                        (s\<lparr>d_state := BROTLI_STATE_METABLOCK_DONE\<rparr>))
               else Some (Goto CommandBegin (pos + len) i s) }
             else Some (Leave BROTLI_DECODER_ERROR_FORMAT_TRANSFORM s)) }
      else Some (Leave BROTLI_DECODER_ERROR_FORMAT_DICTIONARY s))"

text \<open>A copy from the window.\<close>

definition pc_copy :: "int \<Rightarrow> int \<Rightarrow> BrotliDecoderState \<Rightarrow> pc_next option" where
  "pc_copy pos i s = do {
     let src_start = (pos - d_distance_code s) AND d_ringbuffer_mask s;
     let dst_end = pos + i;
     let src_end = src_start + i;
     dist_rb \<leftarrow> arr_seti (d_dist_rb s) (d_dist_rb_idx s AND 3) (d_distance_code s);
     let s = s\<lparr>d_dist_rb := dist_rb, d_dist_rb_idx := d_dist_rb_idx s + 1,
               d_meta_block_remaining_len := d_meta_block_remaining_len s - i\<rparr>;
     s \<leftarrow> rb_move s pos src_start 16;
     if src_end > pos \<and> dst_end > src_start then Some (Goto CommandPostWrapCopy pos i s)
     else if dst_end \<ge> d_ringbuffer_size s \<or> src_end \<ge> d_ringbuffer_size s then
       Some (Goto CommandPostWrapCopy pos i s)
     else do {
       s \<leftarrow> (if i > 16 then
               (if i > 32 then rb_move s (pos + 16) (src_start + 16) (i - 16)
                else rb_move s (pos + 16) (src_start + 16) 16)
             else Some s);
       if d_meta_block_remaining_len s \<le> 0 then
         Some (Save BROTLI_DECODER_SUCCESS (pos + i) i (s\<lparr>d_state := BROTLI_STATE_METABLOCK_DONE\<rparr>))
       else Some (Goto CommandBegin (pos + i) i s) } }"

definition pc_post_decode_literals :: "bool \<Rightarrow> int \<Rightarrow> int \<Rightarrow> BrotliDecoderState \<Rightarrow> pc_next option" where
  "pc_post_decode_literals safe pos i s = do {
     let s = (if safe then s\<lparr>d_state := BROTLI_STATE_COMMAND_POST_DECODE_LITERALS\<rparr> else s);
     (ok, s) \<leftarrow> pc_distance safe s;
     if \<not> ok then Some (Save BROTLI_DECODER_NEEDS_MORE_INPUT pos i s)
     else do {
       let s = (if d_max_distance s \<noteq> d_max_backward_distance s
                then s\<lparr>d_max_distance := (if pos < d_max_backward_distance s then pos
                                          else d_max_backward_distance s)\<rparr>
                else s);
       let i = d_copy_length s;
       if d_distance_code s > d_max_distance s then pc_dictionary pos i s else pc_copy pos i s } }"

section \<open>CommandPostWrapCopy\<close>

text \<open>
  The loop \<open>while (--i >= 0)\<close>, with \<open>i\<close> the value before the decrement; the flag tells whether the write
  position came to the end of the ring buffer.
\<close>

function wrap_copy_loop ::
  "int \<Rightarrow> int \<Rightarrow> int \<Rightarrow> BrotliDecoderState \<Rightarrow> (bool \<times> int \<times> int \<times> BrotliDecoderState) option" where
  "wrap_copy_loop wrap_guard pos i s =
     (if i - 1 \<ge> 0 then do {
        b \<leftarrow> rb_load s ((pos - d_distance_code s) AND d_ringbuffer_mask s);
        s \<leftarrow> rb_store s pos b;
        if wrap_guard - 1 = 0 then Some (True, pos + 1, i - 1, s)
        else wrap_copy_loop (wrap_guard - 1) (pos + 1) (i - 1) s }
      else Some (False, pos, i - 1, s))"
  by pat_completeness auto
termination
  by (relation "measure (\<lambda>(g, pos, i, s). nat i)") auto

declare wrap_copy_loop.simps [simp del]

definition pc_post_wrap_copy :: "int \<Rightarrow> int \<Rightarrow> BrotliDecoderState \<Rightarrow> pc_next option" where
  "pc_post_wrap_copy pos i s = do {
     (full, pos, i, s) \<leftarrow> wrap_copy_loop (d_ringbuffer_size s - pos) pos i s;
     Some (if full then Save BROTLI_DECODER_SUCCESS pos i (s\<lparr>d_state := BROTLI_STATE_COMMAND_POST_WRITE_2\<rparr>)
           else if d_meta_block_remaining_len s \<le> 0 then
             Save BROTLI_DECODER_SUCCESS pos i (s\<lparr>d_state := BROTLI_STATE_METABLOCK_DONE\<rparr>)
           else Goto CommandBegin pos i s) }"

section \<open>The whole function\<close>

definition pc_step :: "bool \<Rightarrow> pc_label \<Rightarrow> int \<Rightarrow> int \<Rightarrow> BrotliDecoderState \<Rightarrow> pc_next option" where
  "pc_step safe label pos i s =
     (case label of
        CommandBegin \<Rightarrow> pc_begin safe pos i s
      | CommandInner \<Rightarrow> pc_inner safe pos i s
      | CommandPostDecodeLiterals \<Rightarrow> pc_post_decode_literals safe pos i s
      | CommandPostWrapCopy \<Rightarrow> pc_post_wrap_copy pos i s)"

partial_function (option) pc_run ::
  "bool \<Rightarrow> pc_label \<Rightarrow> int \<Rightarrow> int \<Rightarrow> BrotliDecoderState \<Rightarrow>
     (BrotliDecoderErrorCode \<times> BrotliDecoderState) option" where
  [code]: "pc_run safe label pos i s = do {
     nxt \<leftarrow> pc_step safe label pos i s;
     (case nxt of
        Goto label pos i s \<Rightarrow> pc_run safe label pos i s
      | Save result pos i s \<Rightarrow> Some (result, s\<lparr>d_pos := pos, d_loop_counter := i\<rparr>)
      | Leave result s \<Rightarrow> Some (result, s)) }"

definition entry_label :: "BrotliRunningState \<Rightarrow> pc_label option" where
  "entry_label st =
     (if st = BROTLI_STATE_COMMAND_BEGIN then Some CommandBegin
      else if st = BROTLI_STATE_COMMAND_INNER then Some CommandInner
      else if st = BROTLI_STATE_COMMAND_POST_DECODE_LITERALS then Some CommandPostDecodeLiterals
      else if st = BROTLI_STATE_COMMAND_POST_WRAP_COPY then Some CommandPostWrapCopy
      else None)"

definition ProcessCommandsInternal ::
  "bool \<Rightarrow> BrotliDecoderState \<Rightarrow> (BrotliDecoderErrorCode \<times> BrotliDecoderState) option" where
  "ProcessCommandsInternal safe s =
     (if \<not> CheckInputAmount safe (d_br s) 28 then Some (BROTLI_DECODER_NEEDS_MORE_INPUT, s)
      else do {
        (ok, br) \<leftarrow> (if safe then Some (True, d_br s) else BrotliWarmupBitReader (d_br s));
        let s = s\<lparr>d_br := br\<rparr>;
        (case entry_label (d_state s) of
           None \<Rightarrow> Some (BROTLI_DECODER_ERROR_UNREACHABLE, s)
         | Some label \<Rightarrow> pc_run safe label (d_pos s) (d_loop_counter s) s) })"

definition ProcessCommands ::
  "BrotliDecoderState \<Rightarrow> (BrotliDecoderErrorCode \<times> BrotliDecoderState) option" where
  "ProcessCommands s = ProcessCommandsInternal False s"

definition SafeProcessCommands ::
  "BrotliDecoderState \<Rightarrow> (BrotliDecoderErrorCode \<times> BrotliDecoderState) option" where
  "SafeProcessCommands s = ProcessCommandsInternal True s"

end
