(* ===== verification/Decode_Stream.thy ===== *)
theory Decode_Stream
  imports Decode_Commands
begin

text \<open>
  \<^verbatim>\<open>dec/decode.c\<close>: \<open>BrotliDecoderDecompressStream\<close>, its one-shot wrapper and the queries on an instance.

  The outer \<open>switch\<close> is one definition \<open>st_..\<close> per state, calling the next where the code falls through.
  Its result \<open>sm_next\<close> tells a \<open>break\<close> with the value of \<open>result\<close> from a \<open>return SaveErrorCode(s, e)\<close>.  The
  client's input is the record \<open>input_io\<close>: the buffer \<open>next_in\<close> points into, the position, and the count.
\<close>

datatype sm_next =
    Break BrotliDecoderErrorCode BrotliDecoderState
  | Return BrotliDecoderErrorCode BrotliDecoderState

record input_io =
  in_buf :: "uint8 list"
  in_next :: nat
  in_avail :: nat

section \<open>Commands\<close>

definition st_commands :: "BrotliDecoderState \<Rightarrow> sm_next option" where
  "st_commands s = do {
     (result, s) \<leftarrow> ProcessCommands s;
     (result, s) \<leftarrow> (if result = BROTLI_DECODER_NEEDS_MORE_INPUT then SafeProcessCommands s
                     else Some (result, s));
     Some (Break result s) }"

definition st_before_body :: "BrotliDecoderState \<Rightarrow> sm_next option" where
  "st_before_body s = do {
     s \<leftarrow> PrepareLiteralDecoding s;
     tree \<leftarrow> arr_get (htrees (d_insert_copy_hgroup s)) 0;
     let s = s\<lparr>d_dist_context_map_slice := map_option (\<lambda>_. 0) (d_dist_context_map s),
               d_htree_command := tree\<rparr>;
     (ok, s) \<leftarrow> BrotliEnsureRingBuffer s;
     if \<not> ok then Some (Break BROTLI_DECODER_ERROR_ALLOC_RING_BUFFER_2 s)
     else do {
       s \<leftarrow> CalculateDistanceLut s;
       st_commands (s\<lparr>d_state := BROTLI_STATE_COMMAND_BEGIN\<rparr>) } }"

section \<open>The header of a compressed meta-block\<close>

definition st_tree_group :: "BrotliDecoderState \<Rightarrow> sm_next option" where
  "st_tree_group s =
     (if d_loop_counter s \<notin> {0, 1, 2} then Some (Return BROTLI_DECODER_ERROR_UNREACHABLE s)
      else do {
        let grp = (if d_loop_counter s = 0 then d_literal_hgroup s
                   else if d_loop_counter s = 1 then d_insert_copy_hgroup s else d_distance_hgroup s);
        (result, grp, s) \<leftarrow> HuffmanTreeGroupDecode grp s;
        let s = (if d_loop_counter s = 0 then s\<lparr>d_literal_hgroup := grp\<rparr>
                 else if d_loop_counter s = 1 then s\<lparr>d_insert_copy_hgroup := grp\<rparr>
                 else s\<lparr>d_distance_hgroup := grp\<rparr>);
        if result \<noteq> BROTLI_DECODER_SUCCESS then Some (Break result s)
        else do {
          let s = s\<lparr>d_loop_counter := d_loop_counter s + 1\<rparr>;
          if d_loop_counter s < 3 then Some (Break BROTLI_DECODER_SUCCESS s)
          else st_before_body (s\<lparr>d_state := BROTLI_STATE_BEFORE_COMPRESSED_METABLOCK_BODY\<rparr>) } })"

text \<open>The sizes \<open>(max, limit)\<close> of the distance alphabet.\<close>

definition distance_alphabet :: "BrotliDecoderState \<Rightarrow> (uint32 \<times> uint32) option" where
  "distance_alphabet s = do {
     let npostfix = d_distance_postfix_bits s;
     let ndirect = d_num_direct_distance_codes s;
     size_max \<leftarrow> BROTLI_DISTANCE_ALPHABET_SIZE npostfix ndirect 24;
     if d_large_window s then do {
       limit \<leftarrow> BrotliCalculateDistanceCodeLimit 0x7FFFFFFC npostfix ndirect;
       size_max \<leftarrow> BROTLI_DISTANCE_ALPHABET_SIZE npostfix ndirect 62;
       Some (size_max, dcl_max_alphabet_size limit) }
     else Some (size_max, size_max) }"

definition st_context_map_2 :: "BrotliDecoderState \<Rightarrow> sm_next option" where
  "st_context_map_2 s = do {
     (size_max, size_limit) \<leftarrow> distance_alphabet s;
     n2 \<leftarrow> arr_get (d_num_block_types s) 2;
     (result, num_trees, cmap, s) \<leftarrow> DecodeContextMap (push_bit BROTLI_DISTANCE_CONTEXT_BITS n2)
       (d_num_dist_htrees s) (d_dist_context_map s) s;
     let s = s\<lparr>d_num_dist_htrees := num_trees, d_dist_context_map := cmap\<rparr>;
     if result \<noteq> BROTLI_DECODER_SUCCESS then Some (Break result s)
     else do {
       n1 \<leftarrow> arr_get (d_num_block_types s) 1;
       let (ok1, grp, s) = BrotliDecoderHuffmanTreeGroupInit s (d_literal_hgroup s) 256 256
                             (d_num_literal_htrees s);
       let s = s\<lparr>d_literal_hgroup := grp\<rparr>;
       let (ok2, grp, s) = BrotliDecoderHuffmanTreeGroupInit s (d_insert_copy_hgroup s) 704 704 n1;
       let s = s\<lparr>d_insert_copy_hgroup := grp\<rparr>;
       let (ok3, grp, s) = BrotliDecoderHuffmanTreeGroupInit s (d_distance_hgroup s) size_max size_limit
                             (d_num_dist_htrees s);
       let s = s\<lparr>d_distance_hgroup := grp\<rparr>;
       if \<not> (ok1 \<and> ok2 \<and> ok3) then Some (Return BROTLI_DECODER_ERROR_ALLOC_TREE_GROUPS s)
       else st_tree_group (s\<lparr>d_loop_counter := 0, d_state := BROTLI_STATE_TREE_GROUP\<rparr>) } }"

definition st_context_map_1 :: "BrotliDecoderState \<Rightarrow> sm_next option" where
  "st_context_map_1 s = do {
     n0 \<leftarrow> arr_get (d_num_block_types s) 0;
     (result, num_trees, cmap, s) \<leftarrow> DecodeContextMap (push_bit BROTLI_LITERAL_CONTEXT_BITS n0)
       (d_num_literal_htrees s) (d_context_map s) s;
     let s = s\<lparr>d_num_literal_htrees := num_trees, d_context_map := cmap\<rparr>;
     if result \<noteq> BROTLI_DECODER_SUCCESS then Some (Break result s)
     else do {
       s \<leftarrow> DetectTrivialLiteralBlockTypes s;
       st_context_map_2 (s\<lparr>d_state := BROTLI_STATE_CONTEXT_MAP_2\<rparr>) } }"

definition st_context_modes :: "BrotliDecoderState \<Rightarrow> sm_next option" where
  "st_context_modes s = do {
     (result, s) \<leftarrow> ReadContextModes s;
     if result \<noteq> BROTLI_DECODER_SUCCESS then Some (Break result s)
     else st_context_map_1 (s\<lparr>d_state := BROTLI_STATE_CONTEXT_MAP_1\<rparr>) }"

definition st_metablock_header_2 :: "BrotliDecoderState \<Rightarrow> sm_next option" where
  "st_metablock_header_2 s = do {
     (r, s) \<leftarrow> s_read s 6;
     (case r of
        None \<Rightarrow> Some (Break BROTLI_DECODER_NEEDS_MORE_INPUT s)
      | Some bits \<Rightarrow> do {
          m \<leftarrow> BitMask 2;
          let s = s\<lparr>d_distance_postfix_bits := bits AND m\<rparr>;
          let bits = drop_bit 2 bits;
          nd \<leftarrow> shl32 bits (d_distance_postfix_bits s);
          n0 \<leftarrow> arr_get (d_num_block_types s) 0;
          let (modes, s) = BROTLI_DECODER_ALLOC (s\<lparr>d_num_direct_distance_codes := nd\<rparr>) (unat n0);
          let s = s\<lparr>d_context_modes := modes\<rparr>;
          if modes = None then Some (Break BROTLI_DECODER_ERROR_ALLOC_CONTEXT_MODES s)
          else st_context_modes (s\<lparr>d_loop_counter := 0, d_state := BROTLI_STATE_CONTEXT_MODES\<rparr>) }) }"

text \<open>The loop over the three categories of blocks; \<open>k\<close> is \<open>s->loop_counter\<close>.\<close>

definition st_huffman_code_3 :: "BrotliDecoderState \<Rightarrow> sm_next option" where
  "st_huffman_code_3 s = do {
     let k = nat (d_loop_counter s);
     len_trees \<leftarrow> d_block_len_trees s;
     (r, s) \<leftarrow> SafeReadBlockLength s len_trees (k * BROTLI_HUFFMAN_MAX_SIZE_26);
     (case r of
        None \<Rightarrow> Some (Break BROTLI_DECODER_NEEDS_MORE_INPUT s)
      | Some len \<Rightarrow> do {
          lens \<leftarrow> arr_set (d_block_length s) k len;
          Some (Break BROTLI_DECODER_SUCCESS
            (s\<lparr>d_block_length := lens, d_loop_counter := d_loop_counter s + 1,
               d_state := BROTLI_STATE_HUFFMAN_CODE_0\<rparr>)) }) }"

definition st_huffman_code_2 :: "BrotliDecoderState \<Rightarrow> sm_next option" where
  "st_huffman_code_2 s = do {
     let k = nat (d_loop_counter s);
     len_trees \<leftarrow> d_block_len_trees s;
     (result, table_size, tbl, s) \<leftarrow> ReadHuffmanCode 26 26 len_trees (k * BROTLI_HUFFMAN_MAX_SIZE_26) s;
     let s = s\<lparr>d_block_len_trees := Some tbl\<rparr>;
     if result \<noteq> BROTLI_DECODER_SUCCESS then Some (Break result s)
     else st_huffman_code_3 (s\<lparr>d_state := BROTLI_STATE_HUFFMAN_CODE_3\<rparr>) }"

definition st_huffman_code_1 :: "BrotliDecoderState \<Rightarrow> sm_next option" where
  "st_huffman_code_1 s = do {
     let k = nat (d_loop_counter s);
     n \<leftarrow> arr_get (d_num_block_types s) k;
     let alphabet_size = n + 2;
     type_trees \<leftarrow> d_block_type_trees s;
     (result, table_size, tbl, s) \<leftarrow>
       ReadHuffmanCode alphabet_size alphabet_size type_trees (k * BROTLI_HUFFMAN_MAX_SIZE_258) s;
     let s = s\<lparr>d_block_type_trees := Some tbl\<rparr>;
     if result \<noteq> BROTLI_DECODER_SUCCESS then Some (Break result s)
     else st_huffman_code_2 (s\<lparr>d_state := BROTLI_STATE_HUFFMAN_CODE_2\<rparr>) }"

definition st_huffman_code_0 :: "BrotliDecoderState \<Rightarrow> sm_next option" where
  "st_huffman_code_0 s =
     (if d_loop_counter s \<ge> 3 then
        Some (Break BROTLI_DECODER_SUCCESS (s\<lparr>d_state := BROTLI_STATE_METABLOCK_HEADER_2\<rparr>))
      else do {
        let k = nat (d_loop_counter s);
        n \<leftarrow> arr_geti (d_num_block_types s) (d_loop_counter s);
        (result, n, s) \<leftarrow> DecodeVarLenUint8 s n;
        let n = (if result = BROTLI_DECODER_SUCCESS then n + 1 else n);
        ns \<leftarrow> arr_set (d_num_block_types s) k n;
        let s = s\<lparr>d_num_block_types := ns\<rparr>;
        if result \<noteq> BROTLI_DECODER_SUCCESS then Some (Break result s)
        else if n < 2 then
          Some (Break BROTLI_DECODER_SUCCESS (s\<lparr>d_loop_counter := d_loop_counter s + 1\<rparr>))
        else st_huffman_code_1 (s\<lparr>d_state := BROTLI_STATE_HUFFMAN_CODE_1\<rparr>) })"

definition st_before_compressed_header :: "BrotliDecoderState \<Rightarrow> sm_next option" where
  "st_before_compressed_header s =
     st_huffman_code_0
       (h_upd (\<lambda>h. h\<lparr>h_sub_loop_counter := 0, h_substate_huffman := BROTLI_STATE_HUFFMAN_NONE,
                     h_substate_tree_group := BROTLI_STATE_TREE_GROUP_NONE,
                     h_substate_context_map := BROTLI_STATE_CONTEXT_MAP_NONE\<rparr>)
          (s\<lparr>d_loop_counter := 0, d_state := BROTLI_STATE_HUFFMAN_CODE_0\<rparr>))"

section \<open>Stream and meta-block headers\<close>

definition st_metablock_header :: "BrotliDecoderState \<Rightarrow> sm_next option" where
  "st_metablock_header s = do {
     (result, s) \<leftarrow> DecodeMetaBlockLength s;
     if result \<noteq> BROTLI_DECODER_SUCCESS then Some (Break result s)
     else do {
       (ok, br) \<leftarrow> (if d_is_metadata s \<or> d_is_uncompressed s then BrotliJumpToByteBoundary (d_br s)
                    else Some (True, d_br s));
       let s = s\<lparr>d_br := br\<rparr>;
       if \<not> ok then Some (Break BROTLI_DECODER_ERROR_FORMAT_PADDING_1 s)
       else if d_is_metadata s then Some (Break BROTLI_DECODER_SUCCESS (s\<lparr>d_state := BROTLI_STATE_METADATA\<rparr>))
       else if d_meta_block_remaining_len s = 0 then
         Some (Break BROTLI_DECODER_SUCCESS (s\<lparr>d_state := BROTLI_STATE_METABLOCK_DONE\<rparr>))
       else do {
         s \<leftarrow> BrotliCalculateRingBufferSize s;
         if d_is_uncompressed s then
           Some (Break BROTLI_DECODER_SUCCESS (s\<lparr>d_state := BROTLI_STATE_UNCOMPRESSED\<rparr>))
         else st_before_compressed_header
                (s\<lparr>d_state := BROTLI_STATE_BEFORE_COMPRESSED_METABLOCK_HEADER\<rparr>) } } }"

definition st_metablock_begin :: "BrotliDecoderState \<Rightarrow> sm_next option" where
  "st_metablock_begin s =
     st_metablock_header ((BrotliDecoderStateMetablockBegin s)\<lparr>d_state := BROTLI_STATE_METABLOCK_HEADER\<rparr>)"

definition st_initialize :: "BrotliDecoderState \<Rightarrow> sm_next option" where
  "st_initialize s = do {
     wsize \<leftarrow> window_size s;
     let (p, s) = BROTLI_DECODER_ALLOC (s\<lparr>d_max_backward_distance := wsize - BROTLI_WINDOW_GAP\<rparr>)
                    (4 * 3 * (BROTLI_HUFFMAN_MAX_SIZE_258 + BROTLI_HUFFMAN_MAX_SIZE_26));
     (case p of
        None \<Rightarrow> Some (Break BROTLI_DECODER_ERROR_ALLOC_BLOCK_TYPE_TREES (s\<lparr>d_block_type_trees := None\<rparr>))
      | Some bytes \<Rightarrow>
          let cells = huffman_cells bytes
          in st_metablock_begin
               (s\<lparr>d_block_type_trees := Some (take (3 * BROTLI_HUFFMAN_MAX_SIZE_258) cells),
                  d_block_len_trees := Some (drop (3 * BROTLI_HUFFMAN_MAX_SIZE_258) cells),
                  d_state := BROTLI_STATE_METABLOCK_BEGIN\<rparr>)) }"

definition st_large_window_bits :: "BrotliDecoderState \<Rightarrow> sm_next option" where
  "st_large_window_bits s = do {
     (r, s) \<leftarrow> s_read s 6;
     (case r of
        None \<Rightarrow> Some (Break BROTLI_DECODER_NEEDS_MORE_INPUT s)
      | Some bits \<Rightarrow>
          let s = s\<lparr>d_window_bits := bits\<rparr>
          in if d_window_bits s < BROTLI_LARGE_MIN_WBITS \<or> d_window_bits s > BROTLI_LARGE_MAX_WBITS
             then Some (Break BROTLI_DECODER_ERROR_FORMAT_WINDOW_BITS s)
             else st_initialize (s\<lparr>d_state := BROTLI_STATE_INITIALIZE\<rparr>)) }"

definition st_uninited :: "BrotliDecoderState \<Rightarrow> sm_next option" where
  "st_uninited s = do {
     (ok, br) \<leftarrow> BrotliWarmupBitReader (d_br s);
     let s = s\<lparr>d_br := br\<rparr>;
     if \<not> ok then Some (Break BROTLI_DECODER_NEEDS_MORE_INPUT s)
     else do {
       (result, s) \<leftarrow> DecodeWindowBits s;
       Some (if result \<noteq> BROTLI_DECODER_SUCCESS then Break result s
             else if d_large_window s then Break BROTLI_DECODER_SUCCESS (s\<lparr>d_state := BROTLI_STATE_LARGE_WINDOW_BITS\<rparr>)
             else Break BROTLI_DECODER_SUCCESS (s\<lparr>d_state := BROTLI_STATE_INITIALIZE\<rparr>)) } }"

section \<open>Metadata\<close>

function metadata_loop :: "BrotliDecoderState \<Rightarrow> int \<Rightarrow> sm_next option" where
  "metadata_loop s remaining =
     (if remaining > 0 then do {
        (r, s) \<leftarrow> s_read s 8;
        (case r of
           None \<Rightarrow> Some (Break BROTLI_DECODER_NEEDS_MORE_INPUT (s\<lparr>d_meta_block_remaining_len := remaining\<rparr>))
         | Some bits \<Rightarrow> metadata_loop s (remaining - 1)) }
      else Some (Break BROTLI_DECODER_SUCCESS
             (s\<lparr>d_meta_block_remaining_len := remaining, d_state := BROTLI_STATE_METABLOCK_DONE\<rparr>)))"
  by pat_completeness auto
termination
  by (relation "measure (\<lambda>(s, n). nat n)") auto

declare metadata_loop.simps [simp del]

definition st_metadata :: "BrotliDecoderState \<Rightarrow> sm_next option" where
  "st_metadata s = metadata_loop s (d_meta_block_remaining_len s)"

section \<open>States that write output or return input\<close>

type_synonym sm_io = "sm_next \<times> output_io \<times> input_io"

definition st_uncompressed :: "BrotliDecoderState \<Rightarrow> output_io \<Rightarrow> input_io \<Rightarrow> sm_io option" where
  "st_uncompressed s out inp = do {
     (result, s, out) \<leftarrow> CopyUncompressedBlockToOutput s out;
     Some (if result \<noteq> BROTLI_DECODER_SUCCESS then Break result s
           else Break BROTLI_DECODER_SUCCESS (s\<lparr>d_state := BROTLI_STATE_METABLOCK_DONE\<rparr>), out, inp) }"

definition after_write :: "BrotliDecoderState \<Rightarrow> BrotliRunningState" where
  "after_write s =
     (if d_state s = BROTLI_STATE_COMMAND_POST_WRITE_1 then
        (if d_meta_block_remaining_len s = 0 then BROTLI_STATE_METABLOCK_DONE else BROTLI_STATE_COMMAND_BEGIN)
      else if d_state s = BROTLI_STATE_COMMAND_POST_WRITE_2 then BROTLI_STATE_COMMAND_POST_WRAP_COPY
      else if d_loop_counter s = 0 then
        (if d_meta_block_remaining_len s = 0 then BROTLI_STATE_METABLOCK_DONE
         else BROTLI_STATE_COMMAND_POST_DECODE_LITERALS)
      else BROTLI_STATE_COMMAND_INNER)"

definition st_write :: "BrotliDecoderState \<Rightarrow> output_io \<Rightarrow> input_io \<Rightarrow> sm_io option" where
  "st_write s out inp = do {
     (result, s, out) \<leftarrow> WriteRingBuffer s out False;
     if result \<noteq> BROTLI_DECODER_SUCCESS then Some (Break result s, out, inp)
     else do {
       s \<leftarrow> WrapRingBuffer s;
       wsize \<leftarrow> window_size s;
       let s = (if d_ringbuffer_size s = wsize then s\<lparr>d_max_distance := d_max_backward_distance s\<rparr> else s);
       Some (Break BROTLI_DECODER_SUCCESS (s\<lparr>d_state := after_write s\<rparr>), out, inp) } }"

definition st_done :: "BrotliDecoderState \<Rightarrow> output_io \<Rightarrow> input_io \<Rightarrow> sm_io option" where
  "st_done s out inp = do {
     (result, s, out) \<leftarrow> (if d_ringbuffer s \<noteq> None then WriteRingBuffer s out True
                          else Some (BROTLI_DECODER_SUCCESS, s, out));
     Some (if result \<noteq> BROTLI_DECODER_SUCCESS then Break result s else Return result s, out, inp) }"

definition st_metablock_done :: "BrotliDecoderState \<Rightarrow> output_io \<Rightarrow> input_io \<Rightarrow> sm_io option" where
  "st_metablock_done s out inp =
     (if d_meta_block_remaining_len s < 0 then
        Some (Break BROTLI_DECODER_ERROR_FORMAT_BLOCK_LENGTH_2 s, out, inp)
      else let s = BrotliDecoderStateCleanupAfterMetablock s
           in if \<not> d_is_last_metablock s then
                Some (Break BROTLI_DECODER_SUCCESS (s\<lparr>d_state := BROTLI_STATE_METABLOCK_BEGIN\<rparr>), out, inp)
              else do {
                (ok, br) \<leftarrow> BrotliJumpToByteBoundary (d_br s);
                if \<not> ok then Some (Break BROTLI_DECODER_ERROR_FORMAT_PADDING_2 (s\<lparr>d_br := br\<rparr>), out, inp)
                else do {
                  (br, inp) \<leftarrow> (if d_buffer_length s = 0 then do {
                                  br \<leftarrow> BrotliBitReaderUnload br;
                                  Some (br, inp\<lparr>in_avail := avail_in br, in_next := next_in br\<rparr>) }
                                else Some (br, inp));
                  st_done (s\<lparr>d_br := br, d_state := BROTLI_STATE_DONE\<rparr>) out inp } })"

section \<open>The state machine\<close>

definition stream_switch :: "BrotliDecoderState \<Rightarrow> output_io \<Rightarrow> input_io \<Rightarrow> sm_io option" where
  "stream_switch s out inp =
     (let plain = map_option (\<lambda>r. (r, out, inp)) in
      case d_state s of
        BROTLI_STATE_UNINITED \<Rightarrow> plain (st_uninited s)
      | BROTLI_STATE_LARGE_WINDOW_BITS \<Rightarrow> plain (st_large_window_bits s)
      | BROTLI_STATE_INITIALIZE \<Rightarrow> plain (st_initialize s)
      | BROTLI_STATE_METABLOCK_BEGIN \<Rightarrow> plain (st_metablock_begin s)
      | BROTLI_STATE_METABLOCK_HEADER \<Rightarrow> plain (st_metablock_header s)
      | BROTLI_STATE_BEFORE_COMPRESSED_METABLOCK_HEADER \<Rightarrow> plain (st_before_compressed_header s)
      | BROTLI_STATE_HUFFMAN_CODE_0 \<Rightarrow> plain (st_huffman_code_0 s)
      | BROTLI_STATE_HUFFMAN_CODE_1 \<Rightarrow> plain (st_huffman_code_1 s)
      | BROTLI_STATE_HUFFMAN_CODE_2 \<Rightarrow> plain (st_huffman_code_2 s)
      | BROTLI_STATE_HUFFMAN_CODE_3 \<Rightarrow> plain (st_huffman_code_3 s)
      | BROTLI_STATE_METADATA \<Rightarrow> plain (st_metadata s)
      | BROTLI_STATE_METABLOCK_HEADER_2 \<Rightarrow> plain (st_metablock_header_2 s)
      | BROTLI_STATE_CONTEXT_MODES \<Rightarrow> plain (st_context_modes s)
      | BROTLI_STATE_CONTEXT_MAP_1 \<Rightarrow> plain (st_context_map_1 s)
      | BROTLI_STATE_CONTEXT_MAP_2 \<Rightarrow> plain (st_context_map_2 s)
      | BROTLI_STATE_TREE_GROUP \<Rightarrow> plain (st_tree_group s)
      | BROTLI_STATE_BEFORE_COMPRESSED_METABLOCK_BODY \<Rightarrow> plain (st_before_body s)
      | BROTLI_STATE_COMMAND_BEGIN \<Rightarrow> plain (st_commands s)
      | BROTLI_STATE_COMMAND_INNER \<Rightarrow> plain (st_commands s)
      | BROTLI_STATE_COMMAND_POST_DECODE_LITERALS \<Rightarrow> plain (st_commands s)
      | BROTLI_STATE_COMMAND_POST_WRAP_COPY \<Rightarrow> plain (st_commands s)
      | BROTLI_STATE_UNCOMPRESSED \<Rightarrow> st_uncompressed s out inp
      | BROTLI_STATE_COMMAND_INNER_WRITE \<Rightarrow> st_write s out inp
      | BROTLI_STATE_COMMAND_POST_WRITE_1 \<Rightarrow> st_write s out inp
      | BROTLI_STATE_COMMAND_POST_WRITE_2 \<Rightarrow> st_write s out inp
      | BROTLI_STATE_METABLOCK_DONE \<Rightarrow> st_metablock_done s out inp
      | BROTLI_STATE_DONE \<Rightarrow> st_done s out inp)"

text \<open>The bit reader connected to the client's buffer and to the internal one.\<close>

definition connect_input :: "input_io \<Rightarrow> BrotliDecoderState \<Rightarrow> BrotliDecoderState" where
  "connect_input inp s =
     s\<lparr>d_br := (d_br s)\<lparr>input := in_buf inp, next_in := in_next inp, avail_in := in_avail inp\<rparr>\<rparr>"

definition buffer_byte :: "BrotliDecoderState \<Rightarrow> input_io \<Rightarrow> (BrotliDecoderState \<times> input_io) option" where
  "buffer_byte s inp = do {
     b \<leftarrow> arr_get (in_buf inp) (in_next inp);
     buf \<leftarrow> arr_set (d_buffer s) (unat (d_buffer_length s)) b;
     Some (s\<lparr>d_buffer := buf, d_buffer_length := d_buffer_length s + 1\<rparr>,
           inp\<lparr>in_next := in_next inp + 1, in_avail := in_avail inp - 1\<rparr>) }"

text \<open>The loop that copies the tail of the input to the internal buffer; \<open>n\<close> bytes are left.\<close>

fun buffer_tail :: "nat \<Rightarrow> BrotliDecoderState \<Rightarrow> input_io \<Rightarrow> (BrotliDecoderState \<times> input_io) option" where
  "buffer_tail 0 s inp = Some (s, inp)"
| "buffer_tail (Suc n) s inp = do {
     (s, inp) \<leftarrow> buffer_byte s inp;
     buffer_tail n s inp }"

text \<open>
  The part of the loop for a \<open>result\<close> that is not \<open>SUCCESS\<close>: \<open>Inl\<close> leaves the loop with a result code,
  \<open>Inr\<close> goes on with \<open>BROTLI_DECODER_SUCCESS\<close>.
\<close>

type_synonym stream_end =
  "BrotliDecoderErrorCode \<times> BrotliDecoderState \<times> output_io \<times> input_io"

definition stream_more_input ::
  "BrotliDecoderState \<Rightarrow> output_io \<Rightarrow> input_io \<Rightarrow>
     (stream_end + BrotliDecoderState \<times> output_io \<times> input_io) option" where
  "stream_more_input s out inp = do {
     (e, s, out) \<leftarrow> (if d_ringbuffer s \<noteq> None then WriteRingBuffer s out True
                     else Some (BROTLI_DECODER_SUCCESS, s, out));
     if error_value e < 0 then Some (Inl (e, s, out, inp))
     else if d_buffer_length s \<noteq> 0 then
       (if avail_in (d_br s) = 0 then
          Some (Inr (connect_input inp (s\<lparr>d_buffer_length := 0\<rparr>), out, inp))
        else if in_avail inp \<noteq> 0 then do {
          (s, inp) \<leftarrow> buffer_byte s inp;
          Some (Inr (s\<lparr>d_br := (d_br s)\<lparr>input := d_buffer s, avail_in := unat (d_buffer_length s)\<rparr>\<rparr>, out, inp)) }
        else Some (Inl (BROTLI_DECODER_NEEDS_MORE_INPUT, s, out, inp)))
     else do {
       (s, inp) \<leftarrow> buffer_tail (avail_in (d_br s)) s
         (inp\<lparr>in_next := next_in (d_br s), in_avail := avail_in (d_br s)\<rparr>);
       Some (Inl (BROTLI_DECODER_NEEDS_MORE_INPUT, s, out, inp)) } }"

definition stream_stop ::
  "BrotliDecoderErrorCode \<Rightarrow> BrotliDecoderState \<Rightarrow> output_io \<Rightarrow> input_io \<Rightarrow> stream_end option" where
  "stream_stop result s out inp =
     (if d_buffer_length s \<noteq> 0 then Some (result, s\<lparr>d_buffer_length := 0\<rparr>, out, inp)
      else do {
        br \<leftarrow> BrotliBitReaderUnload (d_br s);
        Some (result, s\<lparr>d_br := br\<rparr>, out, inp\<lparr>in_avail := avail_in br, in_next := next_in br\<rparr>) })"

text \<open>One round of the \<open>for (;;)\<close>.\<close>

definition stream_round ::
  "BrotliDecoderErrorCode \<Rightarrow> BrotliDecoderState \<Rightarrow> output_io \<Rightarrow> input_io \<Rightarrow>
     (stream_end + stream_end) option" where
  "stream_round result s out inp =
     (if result = BROTLI_DECODER_NEEDS_MORE_INPUT then do {
        r \<leftarrow> stream_more_input s out inp;
        Some (case r of Inl e \<Rightarrow> Inl e
              | Inr (s, out, inp) \<Rightarrow> Inr (BROTLI_DECODER_SUCCESS, s, out, inp)) }
      else if result \<noteq> BROTLI_DECODER_SUCCESS then map_option Inl (stream_stop result s out inp)
      else do {
        (nxt, out, inp) \<leftarrow> stream_switch s out inp;
        Some (case nxt of Break result s \<Rightarrow> Inr (result, s, out, inp)
              | Return e s \<Rightarrow> Inl (e, s, out, inp)) })"

partial_function (option) stream_loop ::
  "BrotliDecoderErrorCode \<Rightarrow> BrotliDecoderState \<Rightarrow> output_io \<Rightarrow> input_io \<Rightarrow> stream_end option" where
  [code]: "stream_loop result s out inp = do {
     r \<leftarrow> stream_round result s out inp;
     (case r of
        Inl e \<Rightarrow> Some e
      | Inr (result, s, out, inp) \<Rightarrow> stream_loop result s out inp) }"

definition BrotliDecoderDecompressStream ::
  "BrotliDecoderState \<Rightarrow> input_io \<Rightarrow> output_io \<Rightarrow>
     (BrotliDecoderResult \<times> BrotliDecoderState \<times> input_io \<times> output_io) option" where
  "BrotliDecoderDecompressStream s inp out = (
     let out = out\<lparr>total_out := map_option (\<lambda>_. d_partial_pos_out s) (total_out out)\<rparr> in
     if d_error_code s < 0 then Some (BROTLI_DECODER_RESULT_ERROR, s, inp, out)
     else if available_out out \<noteq> 0 \<and> (next_out out = Out_None \<or> next_out out = Out_Null) then
       (let (r, s) = SaveErrorCode s BROTLI_DECODER_ERROR_INVALID_ARGUMENTS in Some (r, s, inp, out))
     else do {
       let out1 = (if available_out out = 0 then out\<lparr>next_out := Out_None\<rparr> else out);
       let (result, s) =
         (if d_buffer_length s = 0 then (BROTLI_DECODER_SUCCESS, connect_input inp s)
          else (BROTLI_DECODER_NEEDS_MORE_INPUT,
                s\<lparr>d_br := (d_br s)\<lparr>input := d_buffer s, next_in := 0\<rparr>\<rparr>));
       (result, s, out2, inp) \<leftarrow> stream_loop result s out1 inp;
       let (r, s) = SaveErrorCode s result;
       Some (r, s, inp, if available_out out = 0 then out2\<lparr>next_out := next_out out\<rparr> else out2) })"

text \<open>
  The one-shot decoder: \<open>fresh\<close> is the uninitialised state on the stack.  The result is the code, the new
  \<open>*decoded_size\<close> and the bytes written to \<open>decoded_buffer\<close>.
\<close>

definition BrotliDecoderDecompress ::
  "uint8 list option \<Rightarrow> allocator \<Rightarrow> BrotliDecoderState \<Rightarrow> uint8 list \<Rightarrow> nat \<Rightarrow>
     (BrotliDecoderResult \<times> uint64 \<times> uint8 list) option" where
  "BrotliDecoderDecompress words malloc fresh encoded decoded_size = do {
     let s = (BrotliDecoderStateInit words malloc None fresh)\<lparr>d_alloc_calls := 0\<rparr>;
     (result, s, inp, out) \<leftarrow> BrotliDecoderDecompressStream s
       \<lparr>in_buf = encoded, in_next = 0, in_avail = length encoded\<rparr>
       \<lparr>available_out = decoded_size, next_out = Out_Bytes [], total_out = Some 0\<rparr>;
     total \<leftarrow> total_out out;
     Some (if result \<noteq> BROTLI_DECODER_RESULT_SUCCESS then BROTLI_DECODER_RESULT_ERROR else result,
           total, case next_out out of Out_Bytes bs \<Rightarrow> bs | _ \<Rightarrow> []) }"

section \<open>Queries\<close>

definition BrotliDecoderHasMoreOutput :: "BrotliDecoderState \<Rightarrow> bool" where
  "BrotliDecoderHasMoreOutput s \<longleftrightarrow>
     \<not> d_error_code s < 0 \<and> d_ringbuffer s \<noteq> None \<and> UnwrittenBytes s False \<noteq> 0"

text \<open>\<open>result\<close> is a slice of the ring buffer, \<open>None\<close> for \<open>NULL\<close>.\<close>

definition BrotliDecoderTakeOutput ::
  "BrotliDecoderState \<Rightarrow> nat \<Rightarrow> (nat option \<times> nat \<times> BrotliDecoderState) option" where
  "BrotliDecoderTakeOutput s req =
     (let requested_out = (if req \<noteq> 0 then req else 2 ^ 24)
      in if d_ringbuffer s = None \<or> d_error_code s < 0 then Some (None, 0, s)
         else do {
           s \<leftarrow> WrapRingBuffer s;
           (status, s, out) \<leftarrow> WriteRingBuffer s
             \<lparr>available_out = requested_out, next_out = Out_Null, total_out = None\<rparr> True;
           if status = BROTLI_DECODER_SUCCESS \<or> status = BROTLI_DECODER_NEEDS_MORE_OUTPUT then
             Some (case next_out out of Out_Ring k \<Rightarrow> Some k | _ \<Rightarrow> None,
                   requested_out - available_out out, s)
           else Some (None, 0, if error_value status < 0 then snd (SaveErrorCode s status) else s) })"

definition BrotliDecoderIsUsed :: "BrotliDecoderState \<Rightarrow> bool" where
  "BrotliDecoderIsUsed s \<longleftrightarrow>
     d_state s \<noteq> BROTLI_STATE_UNINITED \<or> BrotliGetAvailableBits (d_br s) \<noteq> 0"

definition BrotliDecoderIsFinished :: "BrotliDecoderState \<Rightarrow> bool" where
  "BrotliDecoderIsFinished s \<longleftrightarrow> d_state s = BROTLI_STATE_DONE \<and> \<not> BrotliDecoderHasMoreOutput s"

end
