(* ===== verification/Decoder_Samples.thy ===== *)
theory Decoder_Samples
  imports Decoder_State Bit_Reader_Facts
begin

text \<open>
  A concrete decoder, at which the theorems with hypotheses are applied: the state
  \<open>BrotliDecoderCreateInstance\<close> makes from a zeroed block, with an allocator that never fails, and that
  state given some input to read.
\<close>

definition zero_header :: BrotliMetablockHeaderArena where
  "zero_header = \<lparr>h_substate_tree_group = BROTLI_STATE_TREE_GROUP_NONE,
  h_substate_context_map = BROTLI_STATE_CONTEXT_MAP_NONE, h_substate_huffman = BROTLI_STATE_HUFFMAN_NONE,
  h_sub_loop_counter = 0, h_repeat_code_len = 0, h_prev_code_len = 0, h_symbol = 0, h_repeat = 0, h_space = 0,
  h_table = replicate 32 \<lparr>hc_bits=0,hc_value=0\<rparr>, h_symbols_lists_array = replicate 720 0, h_next_symbol = replicate 32 0,
  h_code_length_code_lengths = replicate 18 0, h_code_length_histo = replicate 16 0, h_htree_index = 0, h_next = 0,
  h_context_index = 0, h_max_run_length_prefix = 0, h_code = 0, h_context_map_table = replicate 646 \<lparr>hc_bits=0,hc_value=0\<rparr>\<rparr>"

definition zero_body :: BrotliMetablockBodyArena where
  "zero_body = \<lparr>b_dist_extra_bits = replicate 544 0, b_dist_offset = replicate 544 0\<rparr>"

definition zero_group :: HuffmanTreeGroup where
  "zero_group = \<lparr>htrees = [], codes = [], alphabet_size_max = 0, alphabet_size_limit = 0, num_htrees = 0\<rparr>"

definition zero_state :: BrotliDecoderState where
  "zero_state = \<lparr>
  d_state = BROTLI_STATE_UNINITED, d_loop_counter = 0, d_br = \<lparr>br_val=0,br_bit_pos=0,input=[],next_in=0,avail_in=0\<rparr>,
  d_alloc = (\<lambda>_ _. None), d_alloc_calls = 0,  d_buffer = replicate 8 0, d_buffer_length = 0, d_pos = 0,
  d_max_backward_distance = 0, d_max_distance = 0, d_ringbuffer_size = 0, d_ringbuffer_mask = 0, d_dist_rb_idx = 0,
  d_dist_rb = replicate 4 0, d_error_code = 0, d_ringbuffer = None, d_ringbuffer_end = 0, d_htree_command = None,
  d_context_lookup = None, d_context_map_slice = None, d_dist_context_map_slice = None,
  d_literal_hgroup = zero_group, d_insert_copy_hgroup = zero_group, d_distance_hgroup = zero_group,
  d_block_type_trees = None, d_block_len_trees = None, d_trivial_literal_context = False, d_distance_context = 0,
  d_meta_block_remaining_len = 0, d_block_length_index = 0, d_block_length = replicate 3 0, d_num_block_types = replicate 3 0,
  d_block_type_rb = replicate 6 0, d_distance_postfix_bits = 0, d_num_direct_distance_codes = 0, d_num_dist_htrees = 0,
  d_dist_context_map = None, d_literal_htree = None, d_dist_htree_index = 0, d_copy_length = 0, d_distance_code = 0,
  d_rb_roundtrips = 0, d_partial_pos_out = 0, d_mtf_upper_bound = 0, d_mtf = replicate 260 0,
  d_substate_metablock_header = BROTLI_STATE_METABLOCK_HEADER_NONE, d_substate_uncompressed = BROTLI_STATE_UNCOMPRESSED_NONE,
  d_substate_decode_uint8 = BROTLI_STATE_DECODE_UINT8_NONE, d_substate_read_block_length = BROTLI_STATE_READ_BLOCK_LENGTH_NONE,
  d_is_last_metablock = False, d_is_uncompressed = False, d_is_metadata = False, d_should_wrap_ringbuffer = False,
  d_canny_ringbuffer_allocation = True, d_large_window = False, d_size_nibbles = 0, d_window_bits = 0, d_new_ringbuffer_size = 0,
  d_num_literal_htrees = 0, d_context_map = None, d_context_modes = None, d_dictionary = kBrotliDictionary None,
  d_transforms = kBrotliTransforms, d_trivial_literal_contexts = replicate 8 0, d_header = zero_header, d_body = zero_body\<rparr>"

definition sample_alloc :: allocator where
  "sample_alloc = (\<lambda>_ _. Some (\<lambda>_. 0))"

definition sample_state :: BrotliDecoderState where
  "sample_state = (BrotliDecoderStateInit None sample_alloc None zero_state)\<lparr>d_alloc_calls := 1\<rparr>"

lemma sample_state_created:
  "BrotliDecoderCreateInstance None sample_alloc 5000 zero_state None False = Some sample_state"
  by (simp add: BrotliDecoderCreateInstance_def sample_state_def sample_alloc_def)

text \<open>The first byte of the input is in the accumulator, as \<open>BrotliWarmupBitReader\<close> leaves it.\<close>

definition with_input :: "uint8 list \<Rightarrow> BrotliDecoderState" where
  "with_input bs = sample_state\<lparr>d_br := \<lparr>br_val = push_bit 56 (ucast (hd bs)), br_bit_pos = 56,
     input = bs, next_in = 1, avail_in = length bs - 1\<rparr>\<rparr>"

lemma word_bits_push_56: "word_bits (push_bit 56 (ucast b :: uint64)) 56 64 = byte_bits b"
  by (rule nth_equalityI) (simp_all add: word_bits_def byte_bits_def bit_simps del: upt_rec_numeral)

lemma with_input_bits: "br_bits (d_br (with_input (b # bs))) = bytes_bits (b # bs)"
  using word_bits_push_56 [of b] by (simp add: with_input_def br_bits_def br_rest_def bytes_bits_def)

lemma with_input_ok: "br_ok (d_br (with_input (b # bs)))"
  using word_bits_push_56 [of b]
  by (simp add: with_input_def br_ok_def br_linked_def acc_bytes_def bytes_bits_def)

lemma with_input_fields:
  "d_large_window (with_input bs) = False"
  "d_window_bits (with_input bs) = 0"
  "d_substate_metablock_header (with_input bs) = BROTLI_STATE_METABLOCK_HEADER_NONE"
  "d_substate_decode_uint8 (with_input bs) = BROTLI_STATE_DECODE_UINT8_NONE"
  "d_is_uncompressed (with_input bs) = False"
  "d_is_metadata (with_input bs) = False"
  "d_is_last_metablock (with_input bs) = False"
  by (simp_all add: with_input_def sample_state_def BrotliDecoderStateInit_def)

end
