(* ===== verification/Decode_Header_Facts.thy ===== *)
theory Decode_Header_Facts
  imports Bit_Reader_Facts Decode_Header
begin

text \<open>
  The header readers of \<^verbatim>\<open>dec/decode.c\<close> against a parser of bit strings.  A reader that runs out of input
  saves how far it came in its sub-state; \<open>varlen_pending\<close> gives back the bits such a state stands
  for, so that one statement covers both a fresh call and a resumed one: the call decides the string
  of the pending bits followed by the bits still to come, as the parser does.
\<close>

section \<open>Reading through the decoder state\<close>

abbreviation s_bits :: "BrotliDecoderState \<Rightarrow> bits" where "s_bits s \<equiv> br_bits (d_br s)"
abbreviation s_ok :: "BrotliDecoderState \<Rightarrow> bool" where "s_ok s \<equiv> br_ok (d_br s)"

lemma s_read_cases [consumes 2, case_names enough short]:
  assumes "s_ok s" and "0 < n \<and> n \<le> 32"
  obtains (enough) v br where "s_read s n = Some (Some v, s\<lparr>d_br := br\<rparr>)" "br_ok br"
      "unat n \<le> length (s_bits s)" "unat v = bits_val (take (unat n) (s_bits s))"
      "br_bits br = drop (unat n) (s_bits s)" "unat v < 2 ^ unat n"
    | (short) br where "s_read s n = Some (None, s\<lparr>d_br := br\<rparr>)" "br_ok br"
      "length (s_bits s) < unat n" "br_bits br = s_bits s"
proof -
  have "br_ready (d_br s) n" using assms(2) by (simp add: br_ready_def)
  with assms(1) show ?thesis
  proof (cases rule: safe.rd_cases)
    case (enough v br)
    then show ?thesis using that(1) [of v br] by (simp add: s_read_def)
  next
    case (short br)
    then show ?thesis using that(2) [of br] by (simp add: s_read_def)
  qed
qed

section \<open>Variable-length uint8\<close>

fun varlen_parse :: "bits \<Rightarrow> (nat \<times> bits) option" where
  "varlen_parse [] = None"
| "varlen_parse (False # bs) = Some (0, bs)"
| "varlen_parse (True # bs) =
     (if length bs < 3 then None
      else let n = bits_val (take 3 bs); bs = drop 3 bs
           in if length bs < n then None else Some (2 ^ n + bits_val (take n bs), drop n bs))"

lemma varlen_parse_range:
  assumes "varlen_parse bs = Some (v, rest)"
  shows "v \<le> 255 \<and> length bs \<le> 11 + length rest"
  using assms
proof (cases bs rule: varlen_parse.cases)
  case (3 bs')
  define n where "n = bits_val (take 3 bs')"
  have l: "\<not> length bs' < 3" "\<not> length bs' - 3 < n" "v = 2 ^ n + bits_val (take n (drop 3 bs'))"
    "rest = drop n (drop 3 bs')"
    using assms 3 by (auto simp: n_def Let_def split: if_splits)
  have n: "n \<le> 7" using bits_val_less [of "take 3 bs'"] l(1) by (simp add: n_def)
  have "bits_val (take n (drop 3 bs')) < 2 ^ n"
    using bits_val_less [of "take n (drop 3 bs')"] l(2) by simp
  then have "v < 2 ^ (n + 1)" using l(3) by simp
  moreover have "(2 :: nat) ^ (n + 1) \<le> 2 ^ 8" by (rule power_increasing) (use n in simp_all)
  ultimately have "v < 2 ^ 8" by linarith
  then show ?thesis using l n 3 by simp
qed auto

text \<open>The bits a suspended call has consumed.\<close>

definition varlen_pending :: "BrotliDecoderState \<Rightarrow> uint32 \<Rightarrow> bits" where
  "varlen_pending s val =
     (case d_substate_decode_uint8 s of
        BROTLI_STATE_DECODE_UINT8_NONE \<Rightarrow> []
      | BROTLI_STATE_DECODE_UINT8_SHORT \<Rightarrow> [True]
      | BROTLI_STATE_DECODE_UINT8_LONG \<Rightarrow> True # val_bits 3 (unat val))"

definition varlen_ok :: "BrotliDecoderState \<Rightarrow> uint32 \<Rightarrow> bool" where
  "varlen_ok s val \<longleftrightarrow> s_ok s \<and>
     (d_substate_decode_uint8 s = BROTLI_STATE_DECODE_UINT8_LONG \<longrightarrow> 0 < val \<and> val < 8)"

definition varlen_result ::
  "bits \<Rightarrow> (BrotliDecoderErrorCode \<times> uint32 \<times> BrotliDecoderState) option \<Rightarrow> bool" where
  "varlen_result bs r \<longleftrightarrow>
     (case varlen_parse bs of
        Some (v, rest) \<Rightarrow> \<exists>s'. r = Some (BROTLI_DECODER_SUCCESS, of_nat v, s') \<and> s_ok s' \<and>
          s_bits s' = rest \<and> d_substate_decode_uint8 s' = BROTLI_STATE_DECODE_UINT8_NONE
      | None \<Rightarrow> \<exists>val' s'. r = Some (BROTLI_DECODER_NEEDS_MORE_INPUT, val', s') \<and> varlen_ok s' val' \<and>
          varlen_pending s' val' @ s_bits s' = bs)"

lemma dvu_long_result:
  assumes ok: "s_ok s" and v: "0 < val" "val < 8"
  shows "varlen_result (True # val_bits 3 (unat val) @ s_bits s) (dvu_long s val)"
proof -
  have n: "unat val < 8" using v by (simp add: word_less_nat_alt)
  have bv: "bits_val (val_bits 3 (unat val)) = unat val" using n by simp
  have "0 < val \<and> val \<le> 32" using v by (simp add: word_le_nat_alt word_less_nat_alt)
  with ok show ?thesis
  proof (cases rule: s_read_cases)
    case (enough w br)
    have "unat val < 32" using n by simp
    then have sh: "shl32 1 val = Some (push_bit (unat val) 1)" by (simp add: word_less_nat_alt)
    have "push_bit (unat val) 1 + w = of_nat (2 ^ unat val + unat w)"
      by (simp add: push_bit_eq_mult)
    then show ?thesis
      using enough sh bv by (simp add: varlen_result_def dvu_long_def Let_def)
  next
    case (short br)
    then show ?thesis using v bv
      by (simp add: varlen_result_def dvu_long_def Let_def varlen_ok_def varlen_pending_def)
  qed
qed

lemma dvu_short_result:
  assumes ok: "s_ok s" 
  shows "varlen_result (True # s_bits s) (dvu_short s val)"
proof -
  have "0 < (3::uint32) \<and> (3::uint32) \<le> 32" by simp
  with ok show ?thesis
  proof (cases rule: s_read_cases)
    case (enough w br)
    note enough = enough [simplified]
    have l3: "length (take 3 (s_bits s)) = 3" using enough by simp
    show ?thesis
    proof (cases "w = 0")
      case True
      then show ?thesis using enough by (simp add: varlen_result_def dvu_short_def Let_def)
    next
      case False
      have w: "0 < w" using False by (simp add: word_neq_0_conv)
      have "w < 8" using enough(6) by (simp add: word_less_nat_alt)
      note w = w this
      have "val_bits 3 (unat w) @ br_bits br = s_bits s"
        using enough val_bits_eqI [OF l3] by simp
      then show ?thesis
        using dvu_long_result [of "s\<lparr>d_br := br\<rparr>" w] w enough False
        by (simp add: dvu_short_def)
    qed
  next
    case (short br)
    note short = short [simplified]
    then show ?thesis 
      by (simp add: varlen_result_def dvu_short_def Let_def varlen_ok_def varlen_pending_def)
  qed
qed

lemma DecodeVarLenUint8_result:
  assumes "varlen_ok s val"
  shows "varlen_result (varlen_pending s val @ s_bits s) (DecodeVarLenUint8 s val)"
proof (cases "d_substate_decode_uint8 s")
  case BROTLI_STATE_DECODE_UINT8_NONE
  have "s_ok s" "0 < (1::uint32) \<and> (1::uint32) \<le> 32" using assms by (simp_all add: varlen_ok_def)
  then show ?thesis
  proof (cases rule: s_read_cases)
    case (enough w br)
    note enough = enough [simplified]
    then obtain b bs where bs: "s_bits s = b # bs" by (cases "s_bits s") auto
    show ?thesis
    proof (cases b)
      case True
      then have "unat w = 1" using enough bs by (simp add: bits_val_Cons)
      then have "w \<noteq> 0" by auto
      then show ?thesis using True bs enough BROTLI_STATE_DECODE_UINT8_NONE
          dvu_short_result [of "s\<lparr>d_br := br\<rparr>" val]
        by (simp add: DecodeVarLenUint8_def varlen_pending_def)
    next
      case False
      then have "unat w = 0" using enough bs by (simp add: bits_val_Cons)
      then have "w = 0" by (simp add: unat_eq_zero)
      then show ?thesis using False bs enough BROTLI_STATE_DECODE_UINT8_NONE
        by (simp add: DecodeVarLenUint8_def varlen_pending_def varlen_result_def)
    qed
  next
    case (short br)
    note short = short [simplified]
    then show ?thesis using BROTLI_STATE_DECODE_UINT8_NONE
      by (simp add: varlen_result_def DecodeVarLenUint8_def varlen_ok_def varlen_pending_def)
  qed
next
  case BROTLI_STATE_DECODE_UINT8_SHORT
  then show ?thesis using dvu_short_result assms
    by (simp add: DecodeVarLenUint8_def varlen_pending_def varlen_ok_def)
next
  case BROTLI_STATE_DECODE_UINT8_LONG
  then show ?thesis using dvu_long_result assms
    by (simp add: DecodeVarLenUint8_def varlen_pending_def varlen_ok_def)
qed

section \<open>Numbers from digits\<close>

lemma val_bits_append_bits:
  assumes "a < 2 ^ m" and "n \<le> length bs"
  shows "val_bits (m + n) (a + 2 ^ m * bits_val (take n bs)) = val_bits m a @ take n bs"
  using val_bits_append [OF assms(1), of n "bits_val (take n bs)"] val_bits_eqI [of "take n bs" n] assms(2)
  by simp

lemma int_less_power: "L < 2 ^ n \<Longrightarrow> int L < 2 ^ n"
  by (metis of_nat_less_iff of_nat_numeral of_nat_power)

lemma int_or_shift:
  assumes "L < 2 ^ n"
  shows "int L OR int v * 2 ^ n = int (L + 2 ^ n * v)"
proof -
  have "take_bit n (int L) = int L"
    by (rule take_bit_int_eq_self [OF _ int_less_power [OF assms]]) simp
  then have "int L OR push_bit n (int v) = int L + push_bit n (int v)"
    using concat_bit_eq [of n "int L" "int v"] by (simp only: concat_bit_def)
  then show ?thesis
    by (simp only: push_bit_eq_mult of_nat_add of_nat_mult of_nat_power of_nat_numeral mult.commute)
qed

lemma sint_eq_unat:
  assumes "unat (x :: uint32) < 2 ^ 31"
  shows "sint x = int (unat x)"
proof -
  have "uint x < 2 ^ 31" using int_less_power [OF assms] by (simp only: uint_nat)
  moreover have "- (2 ^ 31) \<le> uint x" by (rule order_trans [OF _ uint_ge_0]) simp
  ultimately have "signed_take_bit 31 (uint x) = uint x" by (intro signed_take_bit_int_eq_self)
  moreover have "sint x = signed_take_bit 31 (uint x)" using sint_uint [of x] by simp
  ultimately show ?thesis by (simp only: uint_nat)
qed

lemma unat_shl_digit:
  fixes v :: uint32
  assumes "unat v < 2 ^ w" and "w + n \<le> 31"
  shows "unat (push_bit n v) = unat v * 2 ^ n" and "unat v * 2 ^ n < 2 ^ 31"
proof -
  have "unat v * 2 ^ n < 2 ^ w * 2 ^ n" using assms(1) by simp
  also have "\<dots> \<le> 2 ^ 31" unfolding power_add [symmetric] by (rule power_increasing) (use assms in simp_all)
  finally show lt: "unat v * 2 ^ n < 2 ^ 31" .
  have "unat (push_bit n v) = take_bit 32 (unat v * 2 ^ n)"
    by (subst unsigned_push_bit_eq) (simp add: push_bit_eq_mult)
  also have "\<dots> = unat v * 2 ^ n" by (rule take_bit_nat_eq_self) (use lt in simp)
  finally show "unat (push_bit n v) = unat v * 2 ^ n" .
qed

lemma sint_shl_digit:
  fixes v :: uint32
  assumes "unat v < 2 ^ w" and "w + n \<le> 31"
  shows "sint (push_bit n v) = int (unat v) * 2 ^ n"
  using unat_shl_digit [OF assms] sint_eq_unat [of "push_bit n v"] by simp

lemma mlh_digits_result:
  assumes "s_ok s" and "0 < w" "w \<le> 8" and "w * nib \<le> 24" and "k \<le> nib" and "L < 2 ^ (w * k)"
    and "d_meta_block_remaining_len s = int L" and "unat size_nibbles = nib"
  shows "if w * (nib - k) \<le> length (s_bits s)
    then let V = L + 2 ^ (w * k) * bits_val (take (w * (nib - k)) (s_bits s)) in
      if k < nib \<and> unat min_digits < nib \<and> V < 2 ^ (w * (nib - 1))
      then \<exists>s'. mlh_digits w min_digits err size_nibbles (int k) s = Some (Some err, s')
      else \<exists>br. mlh_digits w min_digits err size_nibbles (int k) s
             = Some (None, s\<lparr>d_br := br, d_meta_block_remaining_len := int V\<rparr>) \<and>
             br_ok br \<and> br_bits br = drop (w * (nib - k)) (s_bits s)
    else \<exists>br j L'. k \<le> j \<and> j < nib \<and> L' < 2 ^ (w * j) \<and> br_ok br \<and>
           mlh_digits w min_digits err size_nibbles (int k) s
             = Some (Some BROTLI_DECODER_NEEDS_MORE_INPUT,
                     s\<lparr>d_br := br, d_meta_block_remaining_len := int L', d_loop_counter := int j\<rparr>) \<and>
           val_bits (w * j) L' @ br_bits br = val_bits (w * k) L @ s_bits s"
  using assms
proof (induction "nib - k" arbitrary: k L s)
  case 0
  then have "mlh_digits w min_digits err size_nibbles (int k) s = Some (None, s)"
    by (subst mlh_digits.simps) (simp add: uint_nat)
  moreover have "s\<lparr>d_br := d_br s, d_meta_block_remaining_len := int L\<rparr> = s" using 0 by simp
  moreover have "k = nib" using 0 by simp
  ultimately show ?case using 0(2) by (simp add: Let_def) (rule exI [of _ "d_br s"], simp)
next
  case (Suc m)
  have kn: "k < nib" using Suc by simp
  have "w * Suc k \<le> w * nib" using kn by (intro mult_le_mono2) simp
  then have wk: "w + w * k \<le> 24" using Suc(6) by simp
  have un: "int k < uint size_nibbles" using kn Suc(10) by (simp add: uint_nat)
  have nw: "unat (of_nat w :: uint32) = w" using Suc(5) by (simp add: unat_of_nat)
  have "0 < (of_nat w :: uint32) \<and> (of_nat w :: uint32) \<le> 32"
    using Suc(4,5) nw by (simp add: word_le_nat_alt word_less_nat_alt)
  with \<open>s_ok s\<close> show ?case
  proof (cases rule: s_read_cases)
    case (short br)
    note short = short [unfolded nw]
    have "mlh_digits w min_digits err size_nibbles (int k) s =
        Some (Some BROTLI_DECODER_NEEDS_MORE_INPUT, s\<lparr>d_br := br, d_loop_counter := int k\<rparr>)"
      by (subst mlh_digits.simps) (use un short in simp)
    moreover have "\<not> w * (nib - k) \<le> length (s_bits s)"
    proof -
      have "w * 1 \<le> w * (nib - k)" using kn by (intro mult_le_mono2) simp
      then have "w \<le> w * (nib - k)" by (simp only: mult_1_right)
      then show ?thesis using short(3) by linarith
    qed
    moreover have "s\<lparr>d_br := br, d_meta_block_remaining_len := int L, d_loop_counter := int k\<rparr>
        = s\<lparr>d_br := br, d_loop_counter := int k\<rparr>" using Suc(9) by simp
    ultimately show ?thesis using short(2,4) kn Suc(8)
      by (simp only: if_False) (intro exI [of _ br] exI [of _ k] exI [of _ L], simp)
  next
    case (enough v br)
    note enough = enough [unfolded nw]
    define d where "d = push_bit (w * k) v"
    define L1 where "L1 = L + 2 ^ (w * k) * unat v"
    have sh: "shl32 v (of_int (int k * int w)) = Some d"
    proof -
      have "(of_int (int k * int w) :: uint32) = of_nat (w * k)" by (simp add: mult.commute)
      moreover have "unat (of_nat (w * k) :: uint32) = w * k"
        using wk by (simp add: unat_of_nat take_bit_nat_eq_self del: of_nat_mult)
      ultimately show ?thesis using wk by (simp add: shl32_def d_def word_less_nat_alt del: of_nat_mult)
    qed
    have or: "int L OR sint d = int L1"
      using sint_shl_digit [of v w "w * k"] enough(6) wk int_or_shift [OF Suc(8), of "unat v"]
      by (simp add: d_def L1_def)
    have L1: "L1 < 2 ^ (w * Suc k)"
    proof -
      have "L1 < 2 ^ (w * k) * (unat v + 1)" using Suc(8) by (simp add: L1_def)
      also have "\<dots> \<le> 2 ^ (w * k) * 2 ^ w" using enough(6) by (intro mult_le_mono2) simp
      finally show ?thesis by (simp add: power_add mult.commute)
    qed
    define s1 where "s1 = s\<lparr>d_br := br, d_meta_block_remaining_len := int L1\<rparr>"
    have vb: "val_bits (w * Suc k) L1 = val_bits (w * k) L @ take w (s_bits s)"
      using val_bits_append_bits [OF Suc(8) enough(3)] enough(4) by (simp add: L1_def add.commute)
    have split: "w * (nib - k) = w + w * (nib - Suc k)"
      using kn by (metis Suc_diff_Suc mult_Suc_right)
    have V: "L + 2 ^ (w * k) * bits_val (take (w * (nib - k)) (s_bits s))
        = L1 + 2 ^ (w * Suc k) * bits_val (take (w * (nib - Suc k)) (br_bits br))"
      if "w * (nib - k) \<le> length (s_bits s)"
    proof -
      have "take (w * (nib - k)) (s_bits s) = take w (s_bits s) @ take (w * (nib - Suc k)) (br_bits br)"
        using enough(5) by (simp add: split take_add)
      then show ?thesis using enough(3,4) by (simp add: bits_val_append L1_def power_add algebra_simps)
    qed
    show ?thesis
    proof (cases "k + 1 = nib \<and> min_digits < size_nibbles \<and> v = 0")
      case True
      then have "mlh_digits w min_digits err size_nibbles (int k) s = Some (Some err, s\<lparr>d_br := br\<rparr>)"
        by (subst mlh_digits.simps) (use un enough Suc(10) in \<open>simp add: uint_nat\<close>)
      moreover have "nib - k = 1" "nib - 1 = k" using True by auto
      moreover have "bits_val (take w (s_bits s)) = 0" using enough(4) True by simp
      ultimately show ?thesis using True enough(3) Suc(8,10) by (simp add: word_less_nat_alt)
    next
      case False
      have step: "mlh_digits w min_digits err size_nibbles (int k) s
          = mlh_digits w min_digits err size_nibbles (int (Suc k)) s1"
      proof -
        have c: "(1 + int k = uint size_nibbles \<and> min_digits < size_nibbles \<and> v = 0) = False"
          using False Suc(10) by (auto simp: uint_nat)
        have "s\<lparr>d_br := br, d_meta_block_remaining_len := int L1\<rparr>
           = s\<lparr>d_br := br, d_meta_block_remaining_len := d_meta_block_remaining_len (s\<lparr>d_br := br\<rparr>) OR sint d\<rparr>"
          using or Suc(9) by simp
        then show ?thesis
          by (subst mlh_digits.simps) (use un enough sh s1_def in \<open>simp add: add.commute c\<close>)
      qed
      have IH: "if w * (nib - Suc k) \<le> length (br_bits br)
        then let V = L1 + 2 ^ (w * Suc k) * bits_val (take (w * (nib - Suc k)) (br_bits br)) in
          if Suc k < nib \<and> unat min_digits < nib \<and> V < 2 ^ (w * (nib - 1))
          then \<exists>s'. mlh_digits w min_digits err size_nibbles (int (Suc k)) s1 = Some (Some err, s')
          else \<exists>br'. mlh_digits w min_digits err size_nibbles (int (Suc k)) s1
                 = Some (None, s1\<lparr>d_br := br', d_meta_block_remaining_len := int V\<rparr>) \<and>
                 br_ok br' \<and> br_bits br' = drop (w * (nib - Suc k)) (br_bits br)
        else \<exists>br' j L'. Suc k \<le> j \<and> j < nib \<and> L' < 2 ^ (w * j) \<and> br_ok br' \<and>
               mlh_digits w min_digits err size_nibbles (int (Suc k)) s1
                 = Some (Some BROTLI_DECODER_NEEDS_MORE_INPUT,
                         s1\<lparr>d_br := br', d_meta_block_remaining_len := int L', d_loop_counter := int j\<rparr>) \<and>
               val_bits (w * j) L' @ br_bits br' = val_bits (w * Suc k) L1 @ br_bits br"
      proof -
        have sb: "s_bits s1 = br_bits br" by (simp add: s1_def)
        have "m = nib - Suc k" "s_ok s1" "Suc k \<le> nib" "d_meta_block_remaining_len s1 = int L1"
          using Suc(2) kn enough(2) by (simp_all add: s1_def)
        from Suc.hyps(1) [OF this(1,2) Suc(4-6) this(3) L1 this(4) Suc(10)] show ?thesis
          by (simp only: sb)
      qed
      have lb: "length (br_bits br) = length (s_bits s) - w" using enough(5) by simp
      show ?thesis
      proof (cases "w * (nib - k) \<le> length (s_bits s)")
        case long: True
        then have l: "w * (nib - Suc k) \<le> length (br_bits br)" using split lb by simp
        have c: "(k < nib \<and> unat min_digits < nib \<and> L1 + 2 ^ (w * Suc k) * bits_val (take (w * (nib - Suc k)) (br_bits br)) < 2 ^ (w * (nib - 1)))
           \<longleftrightarrow> (Suc k < nib \<and> unat min_digits < nib \<and> L1 + 2 ^ (w * Suc k) * bits_val (take (w * (nib - Suc k)) (br_bits br)) < 2 ^ (w * (nib - 1)))"
        proof (cases "Suc k = nib")
          case last: True
          have "\<not> (unat min_digits < nib \<and> L1 < 2 ^ (w * k))"
          proof
            assume a: "unat min_digits < nib \<and> L1 < 2 ^ (w * k)"
            then have "unat v \<noteq> 0" using False last Suc(10) by (auto simp: word_less_nat_alt unat_eq_zero)
            then have "2 ^ (w * k) * 1 \<le> 2 ^ (w * k) * unat v" by (intro mult_le_mono2) simp
            then have "2 ^ (w * k) \<le> 2 ^ (w * k) * unat v" by (simp only: mult_1_right)
            moreover have "L + 2 ^ (w * k) * unat v < 2 ^ (w * k)" using a by (simp only: L1_def)
            ultimately show False by linarith
          qed
          then show ?thesis using last by auto
        qed (use kn in auto)
        have dr: "drop (w * (nib - k)) (s_bits s) = drop (w * (nib - Suc k)) (br_bits br)"
          using enough(5) split by (simp add: add.commute)
        have s1u: "s1\<lparr>d_br := b, d_meta_block_remaining_len := x\<rparr>
            = s\<lparr>d_br := b, d_meta_block_remaining_len := x\<rparr>" for b x by (simp add: s1_def)
        show ?thesis using IH [unfolded if_P [OF l] Let_def s1u]
          unfolding if_P [OF long] V [OF long] dr step Let_def c .
      next
        case short: False
        then have l: "\<not> w * (nib - Suc k) \<le> length (br_bits br)" using split lb enough(3) by simp
        obtain br' j L' where r: "Suc k \<le> j" "j < nib" "L' < 2 ^ (w * j)" "br_ok br'"
           "mlh_digits w min_digits err size_nibbles (int (Suc k)) s1
                 = Some (Some BROTLI_DECODER_NEEDS_MORE_INPUT,
                         s1\<lparr>d_br := br', d_meta_block_remaining_len := int L', d_loop_counter := int j\<rparr>)"
           "val_bits (w * j) L' @ br_bits br' = val_bits (w * Suc k) L1 @ br_bits br"
          using IH l by (simp only: if_False) (elim exE conjE, rule that)
        have "val_bits (w * Suc k) L1 @ br_bits br = val_bits (w * k) L @ s_bits s"
          using vb enough(5) by simp
        then show ?thesis using r short step
          by (simp only: if_False) (intro exI [of _ br'] exI [of _ j] exI [of _ L'], simp add: s1_def)
      qed
    qed
  qed
qed

end
