(* ===== verification/Metablock_Header_Facts.thy ===== *)
theory Metablock_Header_Facts
  imports Decode_Header_Facts
begin

text \<open>
  \<open>DecodeMetaBlockLength\<close> of \<^verbatim>\<open>dec/decode.c\<close> against the grammar of RFC 7932, section 9.2.
  \<open>mlh_parse\<close> is the grammar as a parser of bit strings; the decoder is a machine of eight sub-states that
  saves the digits it has read when the input ends.  \<open>mlh_ok\<close> is the invariant of its sub-states,
  \<open>mlh_pending\<close> the bits a sub-state has consumed.
\<close>

section \<open>The grammar\<close>

datatype mlh_outcome =
    Mlh_Short
  | Mlh_Error BrotliDecoderErrorCode
  | Mlh_Header bool bool bool nat bits

definition parse_digits ::
  "nat \<Rightarrow> nat \<Rightarrow> nat \<Rightarrow> BrotliDecoderErrorCode \<Rightarrow> bits \<Rightarrow> (nat \<Rightarrow> bits \<Rightarrow> mlh_outcome) \<Rightarrow> mlh_outcome" where
  "parse_digits w k m err bs cont =
     (if length bs < w * k then Mlh_Short
      else if m < k \<and> bits_val (take (w * k) bs) < 2 ^ (w * (k - 1)) then Mlh_Error err
      else cont (bits_val (take (w * k) bs)) (drop (w * k) bs))"

definition parse_uncompressed :: "bool \<Rightarrow> nat \<Rightarrow> bits \<Rightarrow> mlh_outcome" where
  "parse_uncompressed lst v bs =
     (if lst then Mlh_Header True False False (v + 1) bs
      else case bs of [] \<Rightarrow> Mlh_Short | b # bs \<Rightarrow> Mlh_Header False b False (v + 1) bs)"

definition parse_bytes :: "bool \<Rightarrow> bits \<Rightarrow> mlh_outcome" where
  "parse_bytes lst bs =
     (if length bs < 2 then Mlh_Short
      else if bits_val (take 2 bs) = 0 then Mlh_Header lst False True 0 (drop 2 bs)
      else parse_digits 8 (bits_val (take 2 bs)) 1 BROTLI_DECODER_ERROR_FORMAT_EXUBERANT_META_NIBBLE
             (drop 2 bs) (\<lambda>v bs. Mlh_Header lst False True (v + 1) bs))"

definition parse_reserved :: "bool \<Rightarrow> bits \<Rightarrow> mlh_outcome" where
  "parse_reserved lst bs =
     (case bs of [] \<Rightarrow> Mlh_Short
      | b # bs \<Rightarrow> if b then Mlh_Error BROTLI_DECODER_ERROR_FORMAT_RESERVED else parse_bytes lst bs)"

definition parse_nibbles :: "bool \<Rightarrow> bits \<Rightarrow> mlh_outcome" where
  "parse_nibbles lst bs =
     (if length bs < 2 then Mlh_Short
      else if bits_val (take 2 bs) = 3 then parse_reserved lst (drop 2 bs)
      else parse_digits 4 (bits_val (take 2 bs) + 4) 4 BROTLI_DECODER_ERROR_FORMAT_EXUBERANT_NIBBLE
             (drop 2 bs) (parse_uncompressed lst))"

fun mlh_parse :: "bits \<Rightarrow> mlh_outcome" where
  "mlh_parse [] = Mlh_Short"
| "mlh_parse [True] = Mlh_Short"
| "mlh_parse (True # True # bs) = Mlh_Header True False False 0 bs"
| "mlh_parse (True # False # bs) = parse_nibbles True bs"
| "mlh_parse (False # bs) = parse_nibbles False bs"

definition last_flag :: "bool \<Rightarrow> bits" where
  "last_flag lst = (if lst then [True, False] else [False])"

lemma mlh_parse_flag [simp]: "mlh_parse (last_flag lst @ bs) = parse_nibbles lst bs"
  by (cases lst) (simp_all add: last_flag_def)

definition mlh_pending :: "BrotliDecoderState \<Rightarrow> bits" where
  "mlh_pending s =
     (let fl = last_flag (d_is_last_metablock s); nib = unat (d_size_nibbles s);
          i = nat (d_loop_counter s); len = nat (d_meta_block_remaining_len s)
      in case d_substate_metablock_header s of
        BROTLI_STATE_METABLOCK_HEADER_NONE \<Rightarrow> []
      | BROTLI_STATE_METABLOCK_HEADER_EMPTY \<Rightarrow> [True]
      | BROTLI_STATE_METABLOCK_HEADER_NIBBLES \<Rightarrow> fl
      | BROTLI_STATE_METABLOCK_HEADER_SIZE \<Rightarrow> fl @ val_bits 2 (nib - 4) @ val_bits (4 * i) len
      | BROTLI_STATE_METABLOCK_HEADER_UNCOMPRESSED \<Rightarrow> fl @ val_bits 2 (nib - 4) @ val_bits (4 * nib) len
      | BROTLI_STATE_METABLOCK_HEADER_RESERVED \<Rightarrow> fl @ [True, True]
      | BROTLI_STATE_METABLOCK_HEADER_BYTES \<Rightarrow> fl @ [True, True, False]
      | BROTLI_STATE_METABLOCK_HEADER_METADATA \<Rightarrow>
          fl @ [True, True, False] @ val_bits 2 nib @ val_bits (8 * i) len)"

definition mlh_ok :: "BrotliDecoderState \<Rightarrow> bool" where
  "mlh_ok s \<longleftrightarrow> s_ok s \<and>
     (let nib = unat (d_size_nibbles s); i = nat (d_loop_counter s); len = d_meta_block_remaining_len s;
          clean = (\<not> d_is_uncompressed s \<and> \<not> d_is_metadata s)
      in case d_substate_metablock_header s of
        BROTLI_STATE_METABLOCK_HEADER_NONE \<Rightarrow> True
      | BROTLI_STATE_METABLOCK_HEADER_EMPTY \<Rightarrow> d_is_last_metablock s \<and> len = 0 \<and> clean
      | BROTLI_STATE_METABLOCK_HEADER_NIBBLES \<Rightarrow> len = 0 \<and> clean
      | BROTLI_STATE_METABLOCK_HEADER_SIZE \<Rightarrow> clean \<and> 4 \<le> nib \<and> nib \<le> 6 \<and>
          0 \<le> d_loop_counter s \<and> i < nib \<and> 0 \<le> len \<and> nat len < 2 ^ (4 * i)
      | BROTLI_STATE_METABLOCK_HEADER_UNCOMPRESSED \<Rightarrow> clean \<and> 4 \<le> nib \<and> nib \<le> 6 \<and>
          0 \<le> len \<and> nat len < 2 ^ (4 * nib) \<and> (4 < nib \<longrightarrow> 2 ^ (4 * (nib - 1)) \<le> nat len)
      | BROTLI_STATE_METABLOCK_HEADER_RESERVED \<Rightarrow>
          \<not> d_is_uncompressed s \<and> d_is_metadata s \<and> len = 0 \<and> d_loop_counter s = 0
      | BROTLI_STATE_METABLOCK_HEADER_BYTES \<Rightarrow>
          \<not> d_is_uncompressed s \<and> d_is_metadata s \<and> len = 0 \<and> d_loop_counter s = 0
      | BROTLI_STATE_METABLOCK_HEADER_METADATA \<Rightarrow>
          \<not> d_is_uncompressed s \<and> d_is_metadata s \<and> 1 \<le> nib \<and> nib \<le> 3 \<and>
          0 \<le> d_loop_counter s \<and> i < nib \<and> 0 \<le> len \<and> nat len < 2 ^ (8 * i))"

definition mlh_result ::
  "bits \<Rightarrow> (BrotliDecoderErrorCode \<times> BrotliDecoderState) option \<Rightarrow> bool" where
  "mlh_result bs r \<longleftrightarrow>
     (case mlh_parse bs of
        Mlh_Short \<Rightarrow> \<exists>s'. r = Some (BROTLI_DECODER_NEEDS_MORE_INPUT, s') \<and> mlh_ok s' \<and>
          mlh_pending s' @ s_bits s' = bs
      | Mlh_Error e \<Rightarrow> \<exists>s'. r = Some (e, s')
      | Mlh_Header lst unc meta len rest \<Rightarrow> \<exists>s'. r = Some (BROTLI_DECODER_SUCCESS, s') \<and> s_ok s' \<and>
          s_bits s' = rest \<and> d_is_last_metablock s' = lst \<and> d_is_uncompressed s' = unc \<and>
          d_is_metadata s' = meta \<and> d_meta_block_remaining_len s' = int len \<and>
          d_substate_metablock_header s' = BROTLI_STATE_METABLOCK_HEADER_NONE)"

lemma val_bits_0 [simp]: "val_bits 0 n = []"
  by (simp add: val_bits_def)

text \<open>One bit and two bits of input.\<close>

lemma s_read_bit [consumes 1, case_names bit short]:
  assumes "s_ok s"
  obtains (bit) b bs v br where "s_read s 1 = Some (Some v, s\<lparr>d_br := br\<rparr>)" "br_ok br"
      "s_bits s = b # bs" "br_bits br = bs" "v \<noteq> 0 \<longleftrightarrow> b" "v = 0 \<longleftrightarrow> \<not> b"
    | (short) br where "s_read s 1 = Some (None, s\<lparr>d_br := br\<rparr>)" "br_ok br" "s_bits s = []" "br_bits br = []"
proof -
  have "0 < (1::uint32) \<and> (1::uint32) \<le> 32" by simp
  with assms show ?thesis
  proof (cases rule: s_read_cases)
    case (enough v br)
    note enough = enough [simplified]
    obtain b bs where bs: "s_bits s = b # bs" using enough by (cases "s_bits s") auto
    have "unat v = of_bool b" using enough bs by (simp add: bits_val_Cons)
    then have "v = 0 \<longleftrightarrow> \<not> b" by (cases b) (auto simp: unat_eq_zero)
    then show ?thesis using that(1) [of v br b bs] enough bs by simp
  next
    case (short br)
    then show ?thesis using that(2) by simp
  qed
qed

lemma val_bits_2: "val_bits 2 0 = [False, False]" "val_bits 2 1 = [True, False]"
  "val_bits 2 2 = [False, True]" "val_bits 2 3 = [True, True]"
  by (simp_all add: val_bits_def upt_rec bit_numeral_rec bit_Suc_0_iff flip: numeral_eq_Suc)

lemma s_read_two [consumes 1, case_names two short]:
  assumes "s_ok s"
  obtains (two) v br where "s_read s 2 = Some (Some v, s\<lparr>d_br := br\<rparr>)" "br_ok br"
      "unat v < 4" "s_bits s = val_bits 2 (unat v) @ br_bits br"
    | (short) br where "s_read s 2 = Some (None, s\<lparr>d_br := br\<rparr>)" "br_ok br" "length (s_bits s) < 2"
        "br_bits br = s_bits s"
proof -
  have "0 < (2::uint32) \<and> (2::uint32) \<le> 32" by simp
  with assms show ?thesis
  proof (cases rule: s_read_cases)
    case (enough v br)
    note enough = enough [simplified]
    have "val_bits 2 (unat v) = take 2 (s_bits s)"
      using enough by (simp add: val_bits_eqI)
    then have eq: "s_bits s = val_bits 2 (unat v) @ br_bits br"
      using enough(5) by (metis append_take_drop_id)
    have "unat v < 4" using enough(6) by linarith
    then show ?thesis by (rule that(1) [OF enough(1,2) _ eq])
  next
    case (short br)
    then show ?thesis using that(2) by simp
  qed
qed

lemma parse_nibbles_val_bits:
  "n < 3 \<Longrightarrow> parse_nibbles lst (val_bits 2 n @ bs) =
     parse_digits 4 (n + 4) 4 BROTLI_DECODER_ERROR_FORMAT_EXUBERANT_NIBBLE bs (parse_uncompressed lst)"
  by (simp add: parse_nibbles_def)

lemma parse_nibbles_reserved: "parse_nibbles lst (val_bits 2 3 @ bs) = parse_reserved lst bs"
  by (simp add: parse_nibbles_def)

lemma parse_bytes_val_bits:
  "n < 4 \<Longrightarrow> n \<noteq> 0 \<Longrightarrow> parse_bytes lst (val_bits 2 n @ bs) =
     parse_digits 8 n 1 BROTLI_DECODER_ERROR_FORMAT_EXUBERANT_META_NIBBLE bs
       (\<lambda>v bs. Mlh_Header lst False True (v + 1) bs)"
  by (simp add: parse_bytes_def)

lemma mlh_uncompressed_result:
  assumes "mlh_ok s" and "d_substate_metablock_header s = BROTLI_STATE_METABLOCK_HEADER_UNCOMPRESSED"
  shows "mlh_result (mlh_pending s @ s_bits s) (mlh_uncompressed s)"
proof -
  define nib where "nib = unat (d_size_nibbles s)"
  define L where "L = nat (d_meta_block_remaining_len s)"
  have inv: "s_ok s" "4 \<le> nib" "nib \<le> 6" "d_meta_block_remaining_len s = int L" "L < 2 ^ (4 * nib)"
    "4 < nib \<longrightarrow> 2 ^ (4 * (nib - 1)) \<le> L" "\<not> d_is_uncompressed s" "\<not> d_is_metadata s"
    using assms by (auto simp: mlh_ok_def Let_def nib_def L_def)
  define lst where "lst = d_is_last_metablock s"
  have pend: "mlh_pending s = last_flag lst @ val_bits 2 (nib - 4) @ val_bits (4 * nib) L"
    using assms(2) by (simp add: mlh_pending_def Let_def nib_def L_def lst_def)
  have parse: "mlh_parse (mlh_pending s @ bs) = parse_uncompressed lst L bs" for bs
    using inv(2,3,5,6) parse_nibbles_val_bits [of "nib - 4" lst "val_bits (4 * nib) L @ bs"]
    by (auto simp: pend parse_digits_def)
  show ?thesis
  proof (cases lst)
    case True
    then show ?thesis using inv by (simp add: mlh_result_def parse parse_uncompressed_def mlh_uncompressed_def lst_def)
  next
    case False
    from inv(1) show ?thesis
    proof (cases rule: s_read_bit)
      case (bit b bs v br)
      then show ?thesis using False inv
        by (simp add: mlh_result_def parse parse_uncompressed_def mlh_uncompressed_def lst_def)
    next
      case (short br)
      have "mlh_ok (s\<lparr>d_br := br\<rparr>)" "mlh_pending (s\<lparr>d_br := br\<rparr>) = mlh_pending s"
        using assms short by (simp_all add: mlh_ok_def mlh_pending_def)
      then show ?thesis using short False
        by (simp add: mlh_result_def parse parse [of "[]", simplified] parse_uncompressed_def
            mlh_uncompressed_def lst_def)
    qed
  qed
qed


text \<open>A suspended state stays as it is when only the reader changed.\<close>

lemma mlh_suspend:
  assumes "mlh_ok s" and "br_ok br" and "br_bits br = s_bits s" and "mlh_parse (mlh_pending s @ s_bits s) = Mlh_Short"
  shows "mlh_result (mlh_pending s @ s_bits s) (Some (BROTLI_DECODER_NEEDS_MORE_INPUT, s\<lparr>d_br := br\<rparr>))"
proof -
  have "mlh_ok (s\<lparr>d_br := br\<rparr>)" "mlh_pending (s\<lparr>d_br := br\<rparr>) = mlh_pending s"
    using assms(1,2) by (cases "d_substate_metablock_header s"; simp add: mlh_ok_def mlh_pending_def Let_def)+
  then show ?thesis using assms(3,4) by (simp add: mlh_result_def)
qed

lemma mlh_size_result:
  assumes "mlh_ok s" and "d_substate_metablock_header s = BROTLI_STATE_METABLOCK_HEADER_SIZE"
  shows "mlh_result (mlh_pending s @ s_bits s) (mlh_size s)"
proof -
  define nib where "nib = unat (d_size_nibbles s)"
  define k where "k = nat (d_loop_counter s)"
  define L where "L = nat (d_meta_block_remaining_len s)"
  define lst where "lst = d_is_last_metablock s"
  have inv: "s_ok s" "4 \<le> nib" "nib \<le> 6" "d_meta_block_remaining_len s = int L" "L < 2 ^ (4 * k)"
    "d_loop_counter s = int k" "k < nib" "\<not> d_is_uncompressed s" "\<not> d_is_metadata s"
    using assms by (auto simp: mlh_ok_def Let_def nib_def L_def k_def)
  have pend: "mlh_pending s = last_flag lst @ val_bits 2 (nib - 4) @ val_bits (4 * k) L"
    using assms(2) by (simp add: mlh_pending_def Let_def nib_def L_def lst_def k_def)
  have parse: "mlh_parse (mlh_pending s @ bs) = parse_digits 4 nib 4 BROTLI_DECODER_ERROR_FORMAT_EXUBERANT_NIBBLE
      (val_bits (4 * k) L @ bs) (parse_uncompressed lst)" for bs
    using inv(2,3) parse_nibbles_val_bits [of "nib - 4" lst "val_bits (4 * k) L @ bs"] by (simp add: pend)
  have kn: "4 * nib = 4 * k + 4 * (nib - k)" using inv(7) by simp
  have p: "0 < (4 :: nat)" "(4 :: nat) \<le> 8" "4 * nib \<le> 24" "k \<le> nib" using inv by simp_all
  have u4: "unat (4 :: uint8) = 4" by simp
  note dig = mlh_digits_result [where min_digits = 4 and err = BROTLI_DECODER_ERROR_FORMAT_EXUBERANT_NIBBLE,
      OF inv(1) p inv(5,4) nib_def [symmetric], unfolded u4]
  show ?thesis
  proof (cases "4 * (nib - k) \<le> length (s_bits s)")
    case False
    obtain br j L' where r: "k \<le> j" "j < nib" "L' < 2 ^ (4 * j)" "br_ok br"
      "mlh_digits 4 4 BROTLI_DECODER_ERROR_FORMAT_EXUBERANT_NIBBLE (d_size_nibbles s) (int k) s
         = Some (Some BROTLI_DECODER_NEEDS_MORE_INPUT,
                 s\<lparr>d_br := br, d_meta_block_remaining_len := int L', d_loop_counter := int j\<rparr>)"
      "val_bits (4 * j) L' @ br_bits br = val_bits (4 * k) L @ s_bits s"
      using dig unfolding if_not_P [OF False] by (elim exE conjE) (rule that)
    define s' where "s' = s\<lparr>d_br := br, d_meta_block_remaining_len := int L', d_loop_counter := int j\<rparr>"
    have "mlh_ok s'" using r inv assms(2) by (simp add: mlh_ok_def s'_def Let_def nib_def)
    moreover have "mlh_pending s' @ s_bits s' = mlh_pending s @ s_bits s"
      using r(6) assms(2) by (simp add: pend) (simp add: mlh_pending_def Let_def s'_def nib_def lst_def)
    moreover have "mlh_parse (mlh_pending s @ s_bits s) = Mlh_Short"
      using False by (simp add: parse parse_digits_def kn)
    moreover have "mlh_size s = Some (BROTLI_DECODER_NEEDS_MORE_INPUT, s')"
      using r(5) inv(6) by (simp add: mlh_size_def s'_def)
    ultimately show ?thesis by (simp add: mlh_result_def)
  next
    case True
    define V where "V = L + 2 ^ (4 * k) * bits_val (take (4 * (nib - k)) (s_bits s))"
    have V: "bits_val (take (4 * nib) (val_bits (4 * k) L @ s_bits s)) = V"
      using inv(5) by (simp add: V_def bits_val_append kn)
    have dr: "drop (4 * nib) (val_bits (4 * k) L @ s_bits s) = drop (4 * (nib - k)) (s_bits s)"
      by (simp add: kn)
    have long: "\<not> length (val_bits (4 * k) L @ s_bits s) < 4 * nib" using True by (simp add: kn)
    have parse': "mlh_parse (mlh_pending s @ s_bits s) =
        (if 4 < nib \<and> V < 2 ^ (4 * (nib - 1)) then Mlh_Error BROTLI_DECODER_ERROR_FORMAT_EXUBERANT_NIBBLE
         else parse_uncompressed lst V (drop (4 * (nib - k)) (s_bits s)))"
      by (simp only: parse parse_digits_def V dr long if_False)
    have Vlt: "V < 2 ^ (4 * nib)"
      using bits_val_less [of "take (4 * nib) (val_bits (4 * k) L @ s_bits s)", unfolded V] long inv(7)
      by simp
    have res: "if 4 < nib \<and> V < 2 ^ (4 * (nib - 1))
      then \<exists>s'. mlh_digits 4 4 BROTLI_DECODER_ERROR_FORMAT_EXUBERANT_NIBBLE (d_size_nibbles s) (int k) s
             = Some (Some BROTLI_DECODER_ERROR_FORMAT_EXUBERANT_NIBBLE, s')
      else \<exists>br. mlh_digits 4 4 BROTLI_DECODER_ERROR_FORMAT_EXUBERANT_NIBBLE (d_size_nibbles s) (int k) s
             = Some (None, s\<lparr>d_br := br, d_meta_block_remaining_len := int V\<rparr>) \<and>
             br_ok br \<and> br_bits br = drop (4 * (nib - k)) (s_bits s)"
      using dig inv(7) unfolding if_P [OF True] Let_def V_def [symmetric] by simp
    show ?thesis
    proof (cases "4 < nib \<and> V < 2 ^ (4 * (nib - 1))")
      case bad: True
      then show ?thesis using res inv(6) by (auto simp: mlh_result_def parse' mlh_size_def)
    next
      case good: False
      then obtain br where r: "mlh_digits 4 4 BROTLI_DECODER_ERROR_FORMAT_EXUBERANT_NIBBLE (d_size_nibbles s) (int k) s
             = Some (None, s\<lparr>d_br := br, d_meta_block_remaining_len := int V\<rparr>)"
         "br_ok br" "br_bits br = drop (4 * (nib - k)) (s_bits s)"
        using res by (simp only: if_False) blast
      define s1 where "s1 = s\<lparr>d_br := br, d_meta_block_remaining_len := int V,
        d_substate_metablock_header := BROTLI_STATE_METABLOCK_HEADER_UNCOMPRESSED\<rparr>"
      have ok1: "mlh_ok s1" using good inv Vlt r(2) by (auto simp: mlh_ok_def s1_def Let_def nib_def)
      have sub: "d_substate_metablock_header s1 = BROTLI_STATE_METABLOCK_HEADER_UNCOMPRESSED" by (simp add: s1_def)
      have "mlh_pending s1 @ s_bits s1 = mlh_pending s @ s_bits s"
      proof -
        have "val_bits (4 * nib) V = val_bits (4 * k) L @ take (4 * (nib - k)) (s_bits s)"
          using val_bits_append_bits [OF inv(5) True] kn by (simp add: V_def)
        then show ?thesis using r(3)
          by (simp add: pend) (simp add: mlh_pending_def Let_def s1_def nib_def lst_def)
      qed
      then show ?thesis using mlh_uncompressed_result [OF ok1 sub] r(1) inv(6)
        by (simp add: mlh_size_def s1_def)
    qed
  qed
qed


lemma mlh_metadata_result:
  assumes "mlh_ok s" and "d_substate_metablock_header s = BROTLI_STATE_METABLOCK_HEADER_METADATA"
  shows "mlh_result (mlh_pending s @ s_bits s) (mlh_metadata s)"
proof -
  define nib where "nib = unat (d_size_nibbles s)"
  define k where "k = nat (d_loop_counter s)"
  define L where "L = nat (d_meta_block_remaining_len s)"
  define lst where "lst = d_is_last_metablock s"
  have inv: "s_ok s" "1 \<le> nib" "nib \<le> 3" "d_meta_block_remaining_len s = int L" "L < 2 ^ (8 * k)"
    "d_loop_counter s = int k" "k < nib" "\<not> d_is_uncompressed s" "d_is_metadata s"
    using assms by (auto simp: mlh_ok_def Let_def nib_def L_def k_def)
  have pend: "mlh_pending s = last_flag lst @ [True, True, False] @ val_bits 2 nib @ val_bits (8 * k) L"
    using assms(2) by (simp add: mlh_pending_def Let_def nib_def L_def lst_def k_def)
  have parse: "mlh_parse (mlh_pending s @ bs) = parse_digits 8 nib 1 BROTLI_DECODER_ERROR_FORMAT_EXUBERANT_META_NIBBLE
      (val_bits (8 * k) L @ bs) (\<lambda>v bs. Mlh_Header lst False True (v + 1) bs)" for bs
    using inv(2,3) parse_bytes_val_bits [of nib lst "val_bits (8 * k) L @ bs"]
      parse_nibbles_reserved [of lst "False # val_bits 2 nib @ val_bits (8 * k) L @ bs"]
    by (simp add: pend parse_reserved_def val_bits_2)
  have kn: "8 * nib = 8 * k + 8 * (nib - k)" using inv(7) by simp
  have p: "0 < (8 :: nat)" "(8 :: nat) \<le> 8" "8 * nib \<le> 24" "k \<le> nib" using inv by simp_all
  have u1: "unat (1 :: uint8) = 1" by simp
  note dig = mlh_digits_result [where min_digits = 1 and err = BROTLI_DECODER_ERROR_FORMAT_EXUBERANT_META_NIBBLE,
      OF inv(1) p inv(5,4) nib_def [symmetric], unfolded u1]
  show ?thesis
  proof (cases "8 * (nib - k) \<le> length (s_bits s)")
    case False
    obtain br j L' where r: "k \<le> j" "j < nib" "L' < 2 ^ (8 * j)" "br_ok br"
      "mlh_digits 8 1 BROTLI_DECODER_ERROR_FORMAT_EXUBERANT_META_NIBBLE (d_size_nibbles s) (int k) s
         = Some (Some BROTLI_DECODER_NEEDS_MORE_INPUT,
                 s\<lparr>d_br := br, d_meta_block_remaining_len := int L', d_loop_counter := int j\<rparr>)"
      "val_bits (8 * j) L' @ br_bits br = val_bits (8 * k) L @ s_bits s"
      using dig unfolding if_not_P [OF False] by (elim exE conjE) (rule that)
    define s' where "s' = s\<lparr>d_br := br, d_meta_block_remaining_len := int L', d_loop_counter := int j\<rparr>"
    have "mlh_ok s'" using r inv assms(2) by (simp add: mlh_ok_def s'_def Let_def nib_def)
    moreover have "mlh_pending s' @ s_bits s' = mlh_pending s @ s_bits s"
      using r(6) assms(2) by (simp add: pend) (simp add: mlh_pending_def Let_def s'_def nib_def lst_def)
    moreover have "mlh_parse (mlh_pending s @ s_bits s) = Mlh_Short"
      using False by (simp add: parse parse_digits_def kn)
    moreover have "mlh_metadata s = Some (BROTLI_DECODER_NEEDS_MORE_INPUT, s')"
      using r(5) inv(6) by (simp add: mlh_metadata_def s'_def)
    ultimately show ?thesis by (simp add: mlh_result_def)
  next
    case True
    define V where "V = L + 2 ^ (8 * k) * bits_val (take (8 * (nib - k)) (s_bits s))"
    have V: "bits_val (take (8 * nib) (val_bits (8 * k) L @ s_bits s)) = V"
      using inv(5) by (simp add: V_def bits_val_append kn)
    have dr: "drop (8 * nib) (val_bits (8 * k) L @ s_bits s) = drop (8 * (nib - k)) (s_bits s)"
      by (simp add: kn)
    have long: "\<not> length (val_bits (8 * k) L @ s_bits s) < 8 * nib" using True by (simp add: kn)
    have parse': "mlh_parse (mlh_pending s @ s_bits s) =
        (if 1 < nib \<and> V < 2 ^ (8 * (nib - 1)) then Mlh_Error BROTLI_DECODER_ERROR_FORMAT_EXUBERANT_META_NIBBLE
         else Mlh_Header lst False True (V + 1) (drop (8 * (nib - k)) (s_bits s)))"
      by (simp only: parse parse_digits_def V dr long if_False)
    have res: "if 1 < nib \<and> V < 2 ^ (8 * (nib - 1))
      then \<exists>s'. mlh_digits 8 1 BROTLI_DECODER_ERROR_FORMAT_EXUBERANT_META_NIBBLE (d_size_nibbles s) (int k) s
             = Some (Some BROTLI_DECODER_ERROR_FORMAT_EXUBERANT_META_NIBBLE, s')
      else \<exists>br. mlh_digits 8 1 BROTLI_DECODER_ERROR_FORMAT_EXUBERANT_META_NIBBLE (d_size_nibbles s) (int k) s
             = Some (None, s\<lparr>d_br := br, d_meta_block_remaining_len := int V\<rparr>) \<and>
             br_ok br \<and> br_bits br = drop (8 * (nib - k)) (s_bits s)"
      using dig inv(7) unfolding if_P [OF True] Let_def V_def [symmetric] by simp
    show ?thesis
    proof (cases "1 < nib \<and> V < 2 ^ (8 * (nib - 1))")
      case bad: True
      then show ?thesis using res inv(6) by (auto simp: mlh_result_def parse' mlh_metadata_def)
    next
      case good: False
      then obtain br where r: "mlh_digits 8 1 BROTLI_DECODER_ERROR_FORMAT_EXUBERANT_META_NIBBLE (d_size_nibbles s) (int k) s
             = Some (None, s\<lparr>d_br := br, d_meta_block_remaining_len := int V\<rparr>)"
         "br_ok br" "br_bits br = drop (8 * (nib - k)) (s_bits s)"
        using res by (simp only: if_False) blast
      then show ?thesis using good inv
        by (auto simp: mlh_result_def parse' mlh_metadata_def lst_def)
    qed
  qed
qed

lemma mlh_bytes_result:
  assumes "mlh_ok s" and "d_substate_metablock_header s = BROTLI_STATE_METABLOCK_HEADER_BYTES"
  shows "mlh_result (mlh_pending s @ s_bits s) (mlh_bytes s)"
proof -
  define lst where "lst = d_is_last_metablock s"
  have inv: "s_ok s" "\<not> d_is_uncompressed s" "d_is_metadata s" "d_meta_block_remaining_len s = 0"
    "d_loop_counter s = 0" using assms by (auto simp: mlh_ok_def Let_def)
  have pend: "mlh_pending s = last_flag lst @ [True, True, False]"
    using assms(2) by (simp add: mlh_pending_def Let_def lst_def)
  have parse: "mlh_parse (mlh_pending s @ bs) = parse_bytes lst bs" for bs
    using parse_nibbles_reserved [of lst "False # bs"] by (simp add: pend parse_reserved_def val_bits_2)
  from inv(1) show ?thesis
  proof (cases rule: s_read_two)
    case (short br)
    have "mlh_bytes s = Some (BROTLI_DECODER_NEEDS_MORE_INPUT, s\<lparr>d_br := br\<rparr>)"
      using short by (simp add: mlh_bytes_def)
    then show ?thesis using mlh_suspend [OF assms(1) short(2)] short by (simp add: parse parse_bytes_def)
  next
    case (two v br)
    show ?thesis
    proof (cases "v = 0")
      case True
      then show ?thesis using two inv
        by (simp add: mlh_result_def parse parse_bytes_def mlh_bytes_def lst_def)
    next
      case False
      have u: "unat (ucast v :: uint8) = unat v"
        using two(3) by (simp add: unsigned_ucast_eq take_bit_nat_eq_self)
      have nz: "0 < unat v" using False by (simp add: unat_gt_0)
      define s1 where "s1 = s\<lparr>d_br := br, d_size_nibbles := ucast v,
        d_substate_metablock_header := BROTLI_STATE_METABLOCK_HEADER_METADATA\<rparr>"
      have "mlh_ok s1" using two inv u nz by (simp add: mlh_ok_def s1_def Let_def)
      moreover have "mlh_pending s1 @ s_bits s1 = mlh_pending s @ s_bits s"
        using two inv u by (simp add: pend) (simp add: mlh_pending_def Let_def s1_def lst_def)
      moreover have "mlh_bytes s = mlh_metadata s1" using two False by (simp add: mlh_bytes_def s1_def)
      ultimately show ?thesis using mlh_metadata_result [of s1] by (simp add: s1_def)
    qed
  qed
qed


lemma mlh_reserved_result:
  assumes "mlh_ok s" and "d_substate_metablock_header s = BROTLI_STATE_METABLOCK_HEADER_RESERVED"
  shows "mlh_result (mlh_pending s @ s_bits s) (mlh_reserved s)"
proof -
  define lst where "lst = d_is_last_metablock s"
  have inv: "s_ok s" "\<not> d_is_uncompressed s" "d_is_metadata s" "d_meta_block_remaining_len s = 0"
    "d_loop_counter s = 0" using assms by (auto simp: mlh_ok_def Let_def)
  have pend: "mlh_pending s = last_flag lst @ [True, True]"
    using assms(2) by (simp add: mlh_pending_def Let_def lst_def)
  have parse: "mlh_parse (mlh_pending s @ bs) = parse_reserved lst bs" for bs
    using parse_nibbles_reserved [of lst bs] by (simp add: pend val_bits_2)
  from inv(1) show ?thesis
  proof (cases rule: s_read_bit)
    case (short br)
    have "mlh_reserved s = Some (BROTLI_DECODER_NEEDS_MORE_INPUT, s\<lparr>d_br := br\<rparr>)"
      using short by (simp add: mlh_reserved_def)
    then show ?thesis using mlh_suspend [OF assms(1) short(2)] short parse [of "[]"]
      by (simp add: parse_reserved_def)
  next
    case (bit b bs v br)
    define s1 where "s1 = s\<lparr>d_br := br, d_substate_metablock_header := BROTLI_STATE_METABLOCK_HEADER_BYTES\<rparr>"
    show ?thesis
    proof (cases b)
      case True
      then show ?thesis using bit by (simp add: mlh_result_def parse parse_reserved_def mlh_reserved_def)
    next
      case False
      have "mlh_ok s1" using bit inv by (simp add: mlh_ok_def s1_def Let_def)
      moreover have "mlh_pending s1 @ s_bits s1 = mlh_pending s @ s_bits s"
        using bit False by (simp add: pend) (simp add: mlh_pending_def Let_def s1_def lst_def)
      moreover have "mlh_reserved s = mlh_bytes s1" using bit False by (simp add: mlh_reserved_def s1_def)
      ultimately show ?thesis using mlh_bytes_result [of s1] by (simp add: s1_def)
    qed
  qed
qed

lemma mlh_nibbles_result:
  assumes "mlh_ok s" and "d_substate_metablock_header s = BROTLI_STATE_METABLOCK_HEADER_NIBBLES"
  shows "mlh_result (mlh_pending s @ s_bits s) (mlh_nibbles s)"
proof -
  define lst where "lst = d_is_last_metablock s"
  have inv: "s_ok s" "\<not> d_is_uncompressed s" "\<not> d_is_metadata s" "d_meta_block_remaining_len s = 0"
    using assms by (auto simp: mlh_ok_def Let_def)
  have pend: "mlh_pending s = last_flag lst"
    using assms(2) by (simp add: mlh_pending_def Let_def lst_def)
  have parse: "mlh_parse (mlh_pending s @ bs) = parse_nibbles lst bs" for bs by (simp add: pend)
  from inv(1) show ?thesis
  proof (cases rule: s_read_two)
    case (short br)
    have "mlh_nibbles s = Some (BROTLI_DECODER_NEEDS_MORE_INPUT, s\<lparr>d_br := br\<rparr>)"
      using short by (simp add: mlh_nibbles_def)
    then show ?thesis using mlh_suspend [OF assms(1) short(2)] short by (simp add: parse parse_nibbles_def)
  next
    case (two v br)
    define s0 where "s0 = s\<lparr>d_br := br, d_size_nibbles := ucast (v + 4), d_loop_counter := 0\<rparr>"
    show ?thesis
    proof (cases "v = 3")
      case True
      define s1 where "s1 = s0\<lparr>d_is_metadata := True,
        d_substate_metablock_header := BROTLI_STATE_METABLOCK_HEADER_RESERVED\<rparr>"
      have "mlh_ok s1" using two inv by (simp add: mlh_ok_def s1_def s0_def Let_def)
      moreover have "mlh_pending s1 @ s_bits s1 = mlh_pending s @ s_bits s"
        using two True by (simp add: pend) (simp add: mlh_pending_def Let_def s1_def s0_def lst_def val_bits_2)
      moreover have "mlh_nibbles s = mlh_reserved s1"
        using two True by (simp add: mlh_nibbles_def s1_def s0_def Let_def)
      ultimately show ?thesis using mlh_reserved_result [of s1] by (simp add: s1_def)
    next
      case False
      define s1 where "s1 = s0\<lparr>d_substate_metablock_header := BROTLI_STATE_METABLOCK_HEADER_SIZE\<rparr>"
      have "unat v \<noteq> unat (3 :: uint32)" using False word_unat_eq_iff by blast
      then have v3: "unat v < 3" using two(3) by simp
      have "unat (v + 4) = unat v + 4" using v3 by (simp add: unat_word_ariths)
      then have u: "unat (ucast (v + 4) :: uint8) = unat v + 4"
        using v3 by (simp add: unsigned_ucast_eq take_bit_nat_eq_self)
      have "mlh_ok s1" using two inv u v3 by (simp add: mlh_ok_def s1_def s0_def Let_def)
      moreover have "mlh_pending s1 @ s_bits s1 = mlh_pending s @ s_bits s"
        using two u inv by (simp add: pend) (simp add: mlh_pending_def Let_def s1_def s0_def lst_def)
      moreover have "mlh_nibbles s = mlh_size s1"
        using two False by (simp add: mlh_nibbles_def s1_def s0_def Let_def)
      ultimately show ?thesis using mlh_size_result [of s1] by (simp add: s1_def)
    qed
  qed
qed

lemma mlh_empty_result:
  assumes "mlh_ok s" and "d_substate_metablock_header s = BROTLI_STATE_METABLOCK_HEADER_EMPTY"
  shows "mlh_result (mlh_pending s @ s_bits s) (mlh_empty s)"
proof -
  have inv: "s_ok s" "\<not> d_is_uncompressed s" "\<not> d_is_metadata s" "d_meta_block_remaining_len s = 0"
    "d_is_last_metablock s"
    using assms by (auto simp: mlh_ok_def Let_def)
  have pend: "mlh_pending s = [True]" using assms(2) by (simp add: mlh_pending_def Let_def)
  from inv(1) show ?thesis
  proof (cases rule: s_read_bit)
    case (short br)
    have "mlh_empty s = Some (BROTLI_DECODER_NEEDS_MORE_INPUT, s\<lparr>d_br := br\<rparr>)"
      using short by (simp add: mlh_empty_def)
    then show ?thesis using mlh_suspend [OF assms(1) short(2)] short by (simp add: pend)
  next
    case (bit b bs v br)
    define s1 where "s1 = s\<lparr>d_br := br, d_substate_metablock_header := BROTLI_STATE_METABLOCK_HEADER_NIBBLES\<rparr>"
    show ?thesis
    proof (cases b)
      case True
      then show ?thesis using bit inv by (simp add: mlh_result_def pend mlh_empty_def)
    next
      case False
      have "mlh_ok s1" using bit inv by (simp add: mlh_ok_def s1_def Let_def)
      moreover have "mlh_pending s1 @ s_bits s1 = mlh_pending s @ s_bits s"
        using bit inv False by (simp add: pend) (simp add: mlh_pending_def Let_def s1_def last_flag_def)
      moreover have "mlh_empty s = mlh_nibbles s1" using bit False by (simp add: mlh_empty_def s1_def)
      ultimately show ?thesis using mlh_nibbles_result [of s1] by (simp add: s1_def)
    qed
  qed
qed

lemma mlh_none_result:
  assumes "mlh_ok s" and "d_substate_metablock_header s = BROTLI_STATE_METABLOCK_HEADER_NONE"
  shows "mlh_result (mlh_pending s @ s_bits s) (mlh_none s)"
proof -
  have inv: "s_ok s" using assms by (auto simp: mlh_ok_def Let_def)
  have pend: "mlh_pending s = []" using assms(2) by (simp add: mlh_pending_def Let_def)
  from inv(1) show ?thesis
  proof (cases rule: s_read_bit)
    case (short br)
    have "mlh_none s = Some (BROTLI_DECODER_NEEDS_MORE_INPUT, s\<lparr>d_br := br\<rparr>)"
      using short by (simp add: mlh_none_def)
    then show ?thesis using mlh_suspend [OF assms(1) short(2)] short by (simp add: pend)
  next
    case (bit b bs v br)
    define s0 where "s0 = s\<lparr>d_br := br, d_is_last_metablock := b, d_meta_block_remaining_len := 0,
      d_is_uncompressed := False, d_is_metadata := False\<rparr>"
    show ?thesis
    proof (cases b)
      case True
      define s1 where "s1 = s0\<lparr>d_substate_metablock_header := BROTLI_STATE_METABLOCK_HEADER_EMPTY\<rparr>"
      have "mlh_ok s1" using bit True by (simp add: mlh_ok_def s1_def s0_def Let_def)
      moreover have "mlh_pending s1 @ s_bits s1 = mlh_pending s @ s_bits s"
        using bit True by (simp add: pend) (simp add: mlh_pending_def Let_def s1_def s0_def)
      moreover have "mlh_none s = mlh_empty s1"
        using bit True by (simp add: mlh_none_def s1_def s0_def Let_def)
      ultimately show ?thesis using mlh_empty_result [of s1] by (simp add: s1_def)
    next
      case False
      define s1 where "s1 = s0\<lparr>d_substate_metablock_header := BROTLI_STATE_METABLOCK_HEADER_NIBBLES\<rparr>"
      have "mlh_ok s1" using bit False by (simp add: mlh_ok_def s1_def s0_def Let_def)
      moreover have "mlh_pending s1 @ s_bits s1 = mlh_pending s @ s_bits s"
        using bit False by (simp add: pend) (simp add: mlh_pending_def Let_def s1_def s0_def last_flag_def)
      moreover have "mlh_none s = mlh_nibbles s1"
        using bit False by (simp add: mlh_none_def s1_def s0_def Let_def)
      ultimately show ?thesis using mlh_nibbles_result [of s1] by (simp add: s1_def)
    qed
  qed
qed

lemma DecodeMetaBlockLength_result:
  assumes "mlh_ok s"
  shows "mlh_result (mlh_pending s @ s_bits s) (DecodeMetaBlockLength s)"
  using assms
  by (cases "d_substate_metablock_header s")
    (simp_all add: DecodeMetaBlockLength_def mlh_none_result mlh_empty_result mlh_nibbles_result
      mlh_size_result mlh_uncompressed_result mlh_reserved_result mlh_bytes_result mlh_metadata_result)

text \<open>What a header can say.\<close>

lemma parse_digits_header:
  assumes "parse_digits w k m err bs cont = Mlh_Header lst unc meta len rest"
  shows "\<exists>v bs'. v < 2 ^ (w * k) \<and> length bs = w * k + length bs' \<and>
    cont v bs' = Mlh_Header lst unc meta len rest"
  using assms bits_val_less [of "take (w * k) bs"]
  by (intro exI [of _ "bits_val (take (w * k) bs)"] exI [of _ "drop (w * k) bs"])
    (auto simp: parse_digits_def split: if_splits)

lemma parse_uncompressed_header:
  assumes "parse_uncompressed lst v bs = Mlh_Header lst' unc meta len rest"
  shows "lst' = lst \<and> (unc \<longrightarrow> \<not> lst) \<and> \<not> meta \<and> len = v + 1 \<and>
    length rest \<le> length bs \<and> length bs \<le> length rest + 1"
  using assms by (auto simp: parse_uncompressed_def split: if_splits list.splits)

lemma parse_bytes_header:
  assumes "parse_bytes lst bs = Mlh_Header lst' unc meta len rest"
  shows "lst' = lst \<and> \<not> unc \<and> meta \<and> len \<le> 2 ^ 24 \<and>
    length rest + 2 \<le> length bs \<and> length bs \<le> length rest + 26"
proof (cases "bits_val (take 2 bs) = 0")
  case False
  define n where "n = bits_val (take 2 bs)"
  have l2: "\<not> length bs < 2" using assms by (auto simp: parse_bytes_def split: if_splits)
  have n: "n \<le> 3" using bits_val_less [of "take 2 bs"] l2 by (simp add: n_def)
  have "parse_digits 8 n 1 BROTLI_DECODER_ERROR_FORMAT_EXUBERANT_META_NIBBLE (drop 2 bs)
      (\<lambda>v bs. Mlh_Header lst False True (v + 1) bs) = Mlh_Header lst' unc meta len rest"
    using assms False l2 by (simp add: parse_bytes_def n_def)
  from parse_digits_header [OF this] obtain v bs' where v: "v < 2 ^ (8 * n)"
    "length (drop 2 bs) = 8 * n + length bs'" "lst' = lst" "\<not> unc" "meta" "len = v + 1" "rest = bs'"
    by auto
  have "(2 :: nat) ^ (8 * n) \<le> 2 ^ 24" by (rule power_increasing) (use n in simp_all)
  then have "len \<le> 2 ^ 24" using v by linarith
  moreover have "8 * n \<le> 24" "length bs = 8 * n + length bs' + 2" using n v(2) l2 by simp_all
  ultimately show ?thesis using v(3-7) by simp
qed (use assms in \<open>auto simp: parse_bytes_def split: if_splits\<close>)

lemma parse_nibbles_header:
  assumes "parse_nibbles lst bs = Mlh_Header lst' unc meta len rest"
  shows "lst' = lst \<and> (unc \<longrightarrow> \<not> lst \<and> \<not> meta) \<and> (len = 0 \<longrightarrow> meta) \<and> len \<le> 2 ^ 24 \<and>
    length rest + 1 \<le> length bs \<and> length bs \<le> length rest + 29"
proof -
  define n where "n = bits_val (take 2 bs)"
  have l2: "\<not> length bs < 2" using assms by (auto simp: parse_nibbles_def split: if_splits)
  have n: "n \<le> 3" using bits_val_less [of "take 2 bs"] l2 by (simp add: n_def)
  show ?thesis
  proof (cases "n = 3")
    case True
    then have "parse_reserved lst (drop 2 bs) = Mlh_Header lst' unc meta len rest"
      using assms l2 by (simp add: parse_nibbles_def n_def)
    then obtain bs' where "drop 2 bs = False # bs'" "parse_bytes lst bs' = Mlh_Header lst' unc meta len rest"
      by (auto simp: parse_reserved_def split: list.splits if_splits)
    moreover from arg_cong [OF this(1), of length] have "length bs = length bs' + 3" using l2 by simp
    ultimately show ?thesis using parse_bytes_header [of lst bs'] by auto
  next
    case False
    then have n2: "n \<le> 2" using n by simp
    have "parse_digits 4 (n + 4) 4 BROTLI_DECODER_ERROR_FORMAT_EXUBERANT_NIBBLE (drop 2 bs)
        (parse_uncompressed lst) = Mlh_Header lst' unc meta len rest"
      using assms False l2 by (simp add: parse_nibbles_def n_def)
    from parse_digits_header [OF this] obtain v bs' where v: "v < 2 ^ (4 * (n + 4))"
      "length (drop 2 bs) = 4 * (n + 4) + length bs'"
      "parse_uncompressed lst v bs' = Mlh_Header lst' unc meta len rest" by blast
    have "(2 :: nat) ^ (4 * (n + 4)) \<le> 2 ^ 24" by (rule power_increasing) (use n2 in simp_all)
    then have "v + 1 \<le> 2 ^ 24" using v(1) by linarith
    moreover have "4 * (n + 4) \<le> 24" using n2 by simp
    ultimately show ?thesis using v(2) l2 parse_uncompressed_header [OF v(3)] by auto
  qed
qed

lemma mlh_parse_header:
  assumes "mlh_parse bs = Mlh_Header lst unc meta len rest"
  shows "(unc \<longrightarrow> \<not> lst \<and> \<not> meta) \<and> (len = 0 \<longrightarrow> lst \<or> meta) \<and> len \<le> 2 ^ 24 \<and>
    length rest + 2 \<le> length bs \<and> length bs \<le> length rest + 31"
  using assms
proof (cases bs rule: mlh_parse.cases)
  case (4 bs')
  then show ?thesis using assms parse_nibbles_header [of True bs' lst unc meta len rest] by auto
next
  case (5 bs')
  then show ?thesis using assms parse_nibbles_header [of False bs' lst unc meta len rest] by auto
qed auto

lemma parse_digits_error:
  assumes "parse_digits w k m err bs cont = Mlh_Error e" and "\<And>v bs. cont v bs \<noteq> Mlh_Error e"
  shows "e = err"
  using assms by (auto simp: parse_digits_def split: if_splits)

lemma parse_uncompressed_no_error: "parse_uncompressed lst v bs \<noteq> Mlh_Error e"
  by (auto simp: parse_uncompressed_def split: list.splits)

lemma parse_bytes_error:
  "parse_bytes lst bs = Mlh_Error e \<Longrightarrow> e = BROTLI_DECODER_ERROR_FORMAT_EXUBERANT_META_NIBBLE"
  by (auto simp: parse_bytes_def dest: parse_digits_error split: if_splits)

lemma parse_nibbles_error:
  "parse_nibbles lst bs = Mlh_Error e \<Longrightarrow> e \<in> {BROTLI_DECODER_ERROR_FORMAT_EXUBERANT_NIBBLE,
     BROTLI_DECODER_ERROR_FORMAT_RESERVED, BROTLI_DECODER_ERROR_FORMAT_EXUBERANT_META_NIBBLE}"
  by (auto simp: parse_nibbles_def parse_reserved_def parse_uncompressed_no_error
      dest: parse_digits_error parse_bytes_error split: if_splits list.splits)

lemma mlh_parse_error:
  assumes "mlh_parse bs = Mlh_Error e"
  shows "e \<in> {BROTLI_DECODER_ERROR_FORMAT_EXUBERANT_NIBBLE,
     BROTLI_DECODER_ERROR_FORMAT_RESERVED, BROTLI_DECODER_ERROR_FORMAT_EXUBERANT_META_NIBBLE}"
  using assms by (cases bs rule: mlh_parse.cases) (auto dest: parse_nibbles_error)


end
