(* ===== verification/Header_Properties.thy ===== *)
theory Header_Properties
  imports Metablock_Header_Facts Decoder_Samples
begin

text \<open>
  The stream header, the variable-length \<open>uint8\<close> and the meta-block header of \<^verbatim>\<open>dec/decode.c\<close>: what the
  decoder accepts, what it rejects, and that a call which ran out of input can be taken up again.
\<close>

section \<open>Window bits\<close>

text \<open>The code words of RFC 7932, section 9.1, and the one that large-window streams use.\<close>

definition wbits_code :: "nat \<Rightarrow> bits" where
  "wbits_code w =
     (if w = 16 then val_bits 1 0
      else if w = 17 then val_bits 1 1 @ val_bits 3 0 @ val_bits 3 0
      else if 17 < w then val_bits 1 1 @ val_bits 3 (w - 17)
      else val_bits 1 1 @ val_bits 3 0 @ val_bits 3 (w - 8))"

definition wbits_escape :: bits where
  "wbits_escape = val_bits 1 1 @ val_bits 3 0 @ val_bits 3 1"

lemma s_take_bits:
  assumes "s_ok s" and "unat (br_bit_pos (d_br s)) < 64" and "m \<le> 32" and "unat n = m"
    and "unat (br_bit_pos (d_br s)) + m \<le> 64"
  obtains v br where "s_take s n = Some (v, s\<lparr>d_br := br\<rparr>)" "br_ok br"
    "s_bits s = val_bits m (unat v) @ br_bits br" "unat v < 2 ^ m"
    "unat (br_bit_pos br) = unat (br_bit_pos (d_br s)) + m"
proof -
  have m: "unat n \<le> 32" "unat n \<le> 64 - unat (br_bit_pos (d_br s))" using assms by simp_all
  obtain v br where r: "BrotliTakeBits (d_br s) n = Some (v, br)" "br_ok br"
    "unat v = bits_val (take m (s_bits s))" "br_bits br = drop m (s_bits s)"
    "unat (br_bit_pos br) = unat (br_bit_pos (d_br s)) + m"
    using BrotliTakeBits_spec [OF assms(1) m assms(2), unfolded assms(4)] by blast
  have l: "length (take m (s_bits s)) = m"
    using assms(5) by (simp add: length_br_bits [OF assms(1)])
  have "s_bits s = val_bits m (unat v) @ br_bits br"
    unfolding r(3,4) val_bits_eqI [OF l] by simp
  moreover have "unat v < 2 ^ m" using bits_val_less [of "take m (s_bits s)"] l r(3) by simp
  ultimately show thesis using that r by (simp add: s_take_def)
qed

definition wbits_outcome ::
  "bool \<Rightarrow> uint32 \<Rightarrow> bits \<Rightarrow> BrotliDecoderErrorCode \<Rightarrow> BrotliDecoderState \<Rightarrow> bool" where
  "wbits_outcome large old c r s' \<longleftrightarrow>
     (\<exists>w \<in> {10..24}. c = wbits_code w \<and> r = BROTLI_DECODER_SUCCESS \<and> \<not> d_large_window s' \<and>
        d_window_bits s' = of_nat w) \<or>
     c = wbits_escape \<and> \<not> large \<and> r = BROTLI_DECODER_ERROR_FORMAT_WINDOW_BITS \<or>
     c = wbits_escape @ [True] \<and> large \<and> r = BROTLI_DECODER_ERROR_FORMAT_WINDOW_BITS \<or>
     c = wbits_escape @ [False] \<and> large \<and> r = BROTLI_DECODER_SUCCESS \<and> d_large_window s' \<and>
        d_window_bits s' = old"

lemma val_bits_1: "val_bits (Suc 0) 0 = [False]" "val_bits (Suc 0) (Suc 0) = [True]"
  by (simp_all add: val_bits_def bit_Suc_0_iff)

lemma unat_word_neq: "v \<noteq> w \<Longrightarrow> unat v \<noteq> unat w"
  by (simp add: word_unat_eq_iff)

lemma DecodeWindowBits_result:
  assumes "br_ok (d_br s)" and "8 \<le> BrotliGetAvailableBits (d_br s)"
  shows "\<exists>r s' c. DecodeWindowBits s = Some (r, s') \<and> br_ok (d_br s') \<and>
    br_bits (d_br s) = c @ br_bits (d_br s') \<and>
    wbits_outcome (d_large_window s) (d_window_bits s) c r s'"
proof -
  define s0 where "s0 = s\<lparr>d_large_window := False\<rparr>"
  have p: "unat (br_bit_pos (d_br s0)) \<le> 56" "s_ok s0"
    using assms by (simp_all add: word_le_nat_alt unat_avail_bits s0_def)
  obtain v1 b1 where t1: "s_take s0 1 = Some (v1, s0\<lparr>d_br := b1\<rparr>)" "br_ok b1"
    "s_bits s0 = val_bits 1 (unat v1) @ br_bits b1" "unat v1 < 2 ^ 1"
    "unat (br_bit_pos b1) = unat (br_bit_pos (d_br s0)) + 1"
    by (rule s_take_bits [of s0 1 1]) (use p in auto)
  obtain v2 b2 where t2: "s_take (s0\<lparr>d_br := b1\<rparr>) 3 = Some (v2, s0\<lparr>d_br := b1, d_br := b2\<rparr>)" "br_ok b2"
    "s_bits (s0\<lparr>d_br := b1\<rparr>) = val_bits 3 (unat v2) @ br_bits b2" "unat v2 < 2 ^ 3"
    "unat (br_bit_pos b2) = unat (br_bit_pos (d_br (s0\<lparr>d_br := b1\<rparr>))) + 3"
    by (rule s_take_bits [of "s0\<lparr>d_br := b1\<rparr>" 3 3]) (use t1 p in auto)
  obtain v3 b3 where t3: "s_take (s0\<lparr>d_br := b2\<rparr>) 3 = Some (v3, s0\<lparr>d_br := b2, d_br := b3\<rparr>)" "br_ok b3"
    "s_bits (s0\<lparr>d_br := b2\<rparr>) = val_bits 3 (unat v3) @ br_bits b3" "unat v3 < 2 ^ 3"
    "unat (br_bit_pos b3) = unat (br_bit_pos (d_br (s0\<lparr>d_br := b2\<rparr>))) + 3"
    by (rule s_take_bits [of "s0\<lparr>d_br := b2\<rparr>" 3 3]) (use t1 t2 p in auto)
  obtain v4 b4 where t4: "s_take (s0\<lparr>d_br := b3\<rparr>) 1 = Some (v4, s0\<lparr>d_br := b3, d_br := b4\<rparr>)" "br_ok b4"
    "s_bits (s0\<lparr>d_br := b3\<rparr>) = val_bits 1 (unat v4) @ br_bits b4" "unat v4 < 2 ^ 1"
    "unat (br_bit_pos b4) = unat (br_bit_pos (d_br (s0\<lparr>d_br := b3\<rparr>))) + 1"
    by (rule s_take_bits [of "s0\<lparr>d_br := b3\<rparr>" 1 1]) (use t1 t2 t3 p in auto)
  have s0: "s_bits s = s_bits s0" "\<not> d_large_window s0" "d_window_bits s = d_window_bits s0"
    by (simp_all add: s0_def)
  note D = s0 DecodeWindowBits_def Let_def s0_def [symmetric]
  have u1: "unat v1 = 1" if "v1 \<noteq> 0" using t1(4) unat_word_neq [OF that] by simp
  show ?thesis
  proof (cases "v1 = 0")
    case True
    then show ?thesis using t1
      by (intro exI [of _ BROTLI_DECODER_SUCCESS] exI [of _ "s0\<lparr>d_br := b1, d_window_bits := 16\<rparr>"] exI [of _ "wbits_code 16"])
        (auto simp: D wbits_outcome_def wbits_code_def intro!: bexI [of _ 16])
  next
    case v1: False
    show ?thesis
    proof (cases "v2 = 0")
      case False
      have "0 < unat v2" using False by (simp add: unat_gt_0)
      then show ?thesis using t1 t2 v1 u1 False
        by (intro exI [of _ BROTLI_DECODER_SUCCESS]
            exI [of _ "s0\<lparr>d_br := b2, d_window_bits := 17 + v2\<rparr>"] exI [of _ "wbits_code (17 + unat v2)"])
          (auto simp: D wbits_outcome_def wbits_code_def intro!: bexI [of _ "17 + unat v2"])
    next
      case v2: True
      consider "v3 = 0" | "v3 = 1" | "v3 \<noteq> 0" "v3 \<noteq> 1" by blast
      then show ?thesis
      proof cases
        case 1
        then show ?thesis using t1 t2 t3 v1 u1 v2
          by (intro exI [of _ BROTLI_DECODER_SUCCESS]
              exI [of _ "s0\<lparr>d_br := b3, d_window_bits := 17\<rparr>"] exI [of _ "wbits_code 17"])
            (auto simp: D wbits_outcome_def wbits_code_def intro!: bexI [of _ 17])
      next
        case 2
        show ?thesis
        proof (cases "d_large_window s")
          case True
          then show ?thesis using t1 t2 t3 t4 v1 u1 v2 2
            by (intro exI [of _ "if v4 = 1 then BROTLI_DECODER_ERROR_FORMAT_WINDOW_BITS else BROTLI_DECODER_SUCCESS"]
                exI [of _ "if v4 = 1 then s0\<lparr>d_br := b4\<rparr> else s0\<lparr>d_br := b4, d_large_window := True\<rparr>"]
                exI [of _ "wbits_escape @ [v4 = 1]"])
              (auto simp: D wbits_outcome_def wbits_escape_def val_bits_1 less_2_cases_iff unat_eq_zero
                dest: unat_word_neq)
        next
          case False
          then show ?thesis using t1 t2 t3 v1 u1 v2 2
            by (intro exI [of _ BROTLI_DECODER_ERROR_FORMAT_WINDOW_BITS] exI [of _ "s0\<lparr>d_br := b3\<rparr>"]
                exI [of _ wbits_escape]) (auto simp: D wbits_outcome_def wbits_escape_def)
        qed
      next
        case 3
        have "unat v3 \<noteq> 0" "unat v3 \<noteq> 1" using 3 unat_word_neq [of v3 0] unat_word_neq [of v3 1] by simp_all
        then show ?thesis using t1 t2 t3 v1 u1 v2 3
          by (intro exI [of _ BROTLI_DECODER_SUCCESS]
              exI [of _ "s0\<lparr>d_br := b3, d_window_bits := 8 + v3\<rparr>"] exI [of _ "wbits_code (8 + unat v3)"])
            (auto simp: D wbits_outcome_def wbits_code_def intro!: bexI [of _ "8 + unat v3"])
      qed
    qed
  qed
qed

text \<open>No code word of a window size is a prefix of another one, or of the escape.\<close>

definition wbits_words :: "bits list" where
  "wbits_words = map wbits_code [10..<25] @ [wbits_escape, wbits_escape @ [True], wbits_escape @ [False]]"

lemma wbits_prefix_free:
  "list_all (\<lambda>w. list_all (\<lambda>c. c = wbits_code w \<or>
     take (min (length c) (length (wbits_code w))) c \<noteq> take (min (length c) (length (wbits_code w))) (wbits_code w))
     wbits_words) [10..<25]"
  by code_simp

lemma wbits_distinct: "distinct wbits_words"
  by code_simp

lemma wbits_unique:
  assumes "w \<in> {10..24}" and "c \<in> set wbits_words" and "c @ x = wbits_code w @ y"
  shows "c = wbits_code w \<and> x = y"
proof -
  have eq: "take (min (length c) k) (c @ x) = take (min (length c) k) (wbits_code w @ y)" for k
    by (simp only: assms(3))
  have "w \<in> set [10..<25]" using assms(1) by (simp del: upt_rec_numeral)
  then have "c = wbits_code w \<or>
     take (min (length c) (length (wbits_code w))) c \<noteq> take (min (length c) (length (wbits_code w))) (wbits_code w)"
    using wbits_prefix_free assms(2) by (simp only: list_all_iff)
  then have "c = wbits_code w" using eq [of "length (wbits_code w)"] by simp
  then show ?thesis using assms(3) by simp
qed

lemma DecodeWindowBits_code:
  assumes "w \<in> {10..24}" and "br_ok (d_br s)" and "8 \<le> BrotliGetAvailableBits (d_br s)"
    and "br_bits (d_br s) = wbits_code w @ rest"
  shows "\<exists>s'. DecodeWindowBits s = Some (BROTLI_DECODER_SUCCESS, s') \<and> br_ok (d_br s') \<and>
    br_bits (d_br s') = rest \<and> d_window_bits s' = of_nat w \<and> \<not> d_large_window s'"
proof -
  obtain r s' c where r: "DecodeWindowBits s = Some (r, s')" "br_ok (d_br s')" "br_bits (d_br s) = c @ br_bits (d_br s')"
    "wbits_outcome (d_large_window s) (d_window_bits s) c r s'"
    using DecodeWindowBits_result [OF assms(2,3)] by blast
  have c: "c \<in> set wbits_words" using r(4) by (auto simp: wbits_outcome_def wbits_words_def simp del: upt_rec_numeral)
  have u: "c = wbits_code w" "br_bits (d_br s') = rest"
    using wbits_unique [OF assms(1) c, of "br_bits (d_br s')" rest] r(3) assms(4) by auto
  have d: "wbits_code w \<noteq> wbits_escape" "wbits_code w \<noteq> wbits_escape @ [True]" "wbits_code w \<noteq> wbits_escape @ [False]"
    and i: "\<And>v. v \<in> {10..24} \<Longrightarrow> wbits_code v = wbits_code w \<Longrightarrow> v = w"
  proof -
    have m: "wbits_code w \<in> wbits_code ` {10..<25}" using assms(1) by simp
    then show "wbits_code w \<noteq> wbits_escape" "wbits_code w \<noteq> wbits_escape @ [True]"
      "wbits_code w \<noteq> wbits_escape @ [False]"
      using wbits_distinct unfolding wbits_words_def distinct_append set_map set_upt list.set by blast+
    show "v = w" if "v \<in> {10..24}" "wbits_code v = wbits_code w" for v
      using wbits_distinct assms(1) that unfolding wbits_words_def distinct_append distinct_map set_upt inj_on_def
      by simp
  qed
  show ?thesis using r(1,2,4) u d i by (auto simp: wbits_outcome_def)
qed

text \<open>C32: \<open>DecodeWindowBits\<close>, given the eight available bits it asks for, always returns, and what it
  consumed is one of the code words of RFC 7932, section 9.1 with its window size between 10 and 24, or
  the escape code word; that one is an error for a decoder not set to large windows, and else decides
  by one more bit between an error and a large-window stream.\<close>

theorem window_bits_decoded:
  assumes "br_ok (d_br s)" and "8 \<le> BrotliGetAvailableBits (d_br s)"
  shows "\<exists>r s' c. DecodeWindowBits s = Some (r, s') \<and> br_ok (d_br s') \<and>
    br_bits (d_br s) = c @ br_bits (d_br s') \<and>
    wbits_outcome (d_large_window s) (d_window_bits s) c r s'"
  by (rule DecodeWindowBits_result [OF assms])

lemma window_bits_decoded_witness:
  "\<exists>r s' c. DecodeWindowBits (with_input [0x4D]) = Some (r, s') \<and> br_ok (d_br s') \<and>
    br_bits (d_br (with_input [0x4D])) = c @ br_bits (d_br s') \<and>
    wbits_outcome (d_large_window (with_input [0x4D])) (d_window_bits (with_input [0x4D])) c r s'"
proof (rule window_bits_decoded)
  show "br_ok (d_br (with_input [0x4D]))" by (rule with_input_ok)
qed (simp add: with_input_def BrotliGetAvailableBits_def)

section \<open>Variable-length numbers\<close>

text \<open>C33: \<open>DecodeVarLenUint8\<close>, fresh or resumed, decides the string of the bits it has already
  consumed followed by the bits to come as the grammar of RFC 7932, section 9.2 does: it returns the
  number and leaves exactly the rest of the stream, or, when the stream is too short, asks for more
  input in a state from which it can be resumed, with no bit lost.\<close>

theorem varlen_uint8_decoded:
  assumes "varlen_ok s val"
  shows "varlen_result (varlen_pending s val @ br_bits (d_br s)) (DecodeVarLenUint8 s val)"
  by (rule DecodeVarLenUint8_result [OF assms])

lemma varlen_uint8_decoded_witness:
  "varlen_result (varlen_pending (with_input [0x3B]\<lparr>d_substate_decode_uint8 := BROTLI_STATE_DECODE_UINT8_LONG\<rparr>) 6 @
     br_bits (d_br (with_input [0x3B]\<lparr>d_substate_decode_uint8 := BROTLI_STATE_DECODE_UINT8_LONG\<rparr>)))
   (DecodeVarLenUint8 (with_input [0x3B]\<lparr>d_substate_decode_uint8 := BROTLI_STATE_DECODE_UINT8_LONG\<rparr>) 6)"
proof (rule varlen_uint8_decoded)
  show "varlen_ok (with_input [0x3B]\<lparr>d_substate_decode_uint8 := BROTLI_STATE_DECODE_UINT8_LONG\<rparr>) 6"
    by (simp add: varlen_ok_def with_input_ok)
qed

text \<open>Every value \<open>DecodeVarLenUint8\<close> returns fits a byte, so \<open>num_block_types\<close> and the number of
  trees, one more than it, are between 1 and 256.\<close>

lemma varlen_uint8_fits_a_byte:
  assumes "varlen_ok s val" and "DecodeVarLenUint8 s val = Some (BROTLI_DECODER_SUCCESS, v, s')"
  shows "v \<le> 255 \<and> br_ok (d_br s') \<and> d_substate_decode_uint8 s' = BROTLI_STATE_DECODE_UINT8_NONE"
proof -
  obtain n rest where p: "varlen_parse (varlen_pending s val @ s_bits s) = Some (n, rest)"
    and r: "v = of_nat n" "br_ok (d_br s')" "d_substate_decode_uint8 s' = BROTLI_STATE_DECODE_UINT8_NONE"
    using DecodeVarLenUint8_result [OF assms(1)] assms(2)
    by (auto simp: varlen_result_def split: option.splits)
  have "n \<le> 255" using varlen_parse_range [OF p] by simp
  then show ?thesis using r by (simp add: word_le_nat_alt unat_of_nat take_bit_nat_eq_self)
qed

lemma varlen_uint8_fits_a_byte_witness:
  "\<exists>v s'. DecodeVarLenUint8 (with_input [0x69]) 0 = Some (BROTLI_DECODER_SUCCESS, v, s') \<and>
    v \<le> 255 \<and> br_ok (d_br s') \<and> d_substate_decode_uint8 s' = BROTLI_STATE_DECODE_UINT8_NONE"
proof -
  have ok: "varlen_ok (with_input [0x69]) 0" by (simp add: varlen_ok_def with_input_ok with_input_fields)
  have "varlen_parse (bytes_bits [0x69]) = Some (0x16, [])" by code_simp
  then obtain v s' where r: "DecodeVarLenUint8 (with_input [0x69]) 0 = Some (BROTLI_DECODER_SUCCESS, v, s')"
    using DecodeVarLenUint8_result [OF ok]
    by (auto simp: varlen_result_def varlen_pending_def with_input_bits with_input_fields)
  then show ?thesis using varlen_uint8_fits_a_byte [OF ok r] by blast
qed

section \<open>Meta-block headers\<close>

text \<open>C15: \<open>DecodeMetaBlockLength\<close>, fresh or resumed in any of its eight sub-states, decides the
  string of the bits consumed so far and the bits to come as the grammar of RFC 7932, section 9.2
  does: it returns the header and leaves the rest of the stream, reports the grammar's error, or asks
  for more input in a sub-state that stands for exactly the bits it has consumed.\<close>

theorem metablock_header_decoded:
  assumes "mlh_ok s"
  shows "mlh_result (mlh_pending s @ br_bits (d_br s)) (DecodeMetaBlockLength s)"
  by (rule DecodeMetaBlockLength_result [OF assms])

definition header_sample :: BrotliDecoderState where
  "header_sample = (with_input [0xA5, 0x03])
     \<lparr>d_substate_metablock_header := BROTLI_STATE_METABLOCK_HEADER_SIZE, d_size_nibbles := 5,
      d_loop_counter := 3, d_meta_block_remaining_len := 0xABC\<rparr>"

lemma header_sample_ok: "mlh_ok header_sample"
  using with_input_ok [of "0xA5" "[0x03]"] by (simp add: mlh_ok_def header_sample_def with_input_fields)

lemma metablock_header_decoded_witness:
  "mlh_result (mlh_pending header_sample @ br_bits (d_br header_sample)) (DecodeMetaBlockLength header_sample)"
  by (rule metablock_header_decoded [OF header_sample_ok])

text \<open>C16: A meta-block header \<open>DecodeMetaBlockLength\<close> accepts is consistent: the length is between
  0 and \<open>2^24\<close>, only the last or a metadata meta-block is empty, an uncompressed one is neither, and
  the sub-state is back at its start; the \<open>int\<close> that accumulates the digits never overflows.\<close>

theorem metablock_header_consistent:
  assumes "mlh_ok s" and "DecodeMetaBlockLength s = Some (BROTLI_DECODER_SUCCESS, s')"
  shows "0 \<le> d_meta_block_remaining_len s' \<and> d_meta_block_remaining_len s' \<le> 2 ^ 24 \<and>
    (d_meta_block_remaining_len s' = 0 \<longrightarrow> d_is_last_metablock s' \<or> d_is_metadata s') \<and>
    (d_is_uncompressed s' \<longrightarrow> \<not> d_is_last_metablock s' \<and> \<not> d_is_metadata s') \<and>
    d_substate_metablock_header s' = BROTLI_STATE_METABLOCK_HEADER_NONE \<and> mlh_ok s'"
proof -
  obtain lst unc meta len rest where p: "mlh_parse (mlh_pending s @ s_bits s) = Mlh_Header lst unc meta len rest"
    and r: "d_is_last_metablock s' = lst" "d_is_uncompressed s' = unc" "d_is_metadata s' = meta"
      "d_meta_block_remaining_len s' = int len" "s_ok s'"
      "d_substate_metablock_header s' = BROTLI_STATE_METABLOCK_HEADER_NONE"
    using DecodeMetaBlockLength_result [OF assms(1)] assms(2)
    by (auto simp: mlh_result_def dest!: mlh_parse_error split: mlh_outcome.splits)
  have "int len \<le> 2 ^ 24" using mlh_parse_header [OF p] by simp
  then show ?thesis using mlh_parse_header [OF p] r by (simp add: mlh_ok_def)
qed

lemma metablock_header_consistent_witness:
  "\<exists>s'. DecodeMetaBlockLength (with_input [0x38, 0x01, 0x08]) = Some (BROTLI_DECODER_SUCCESS, s') \<and>
    0 \<le> d_meta_block_remaining_len s' \<and> d_meta_block_remaining_len s' \<le> 2 ^ 24 \<and>
    (d_meta_block_remaining_len s' = 0 \<longrightarrow> d_is_last_metablock s' \<or> d_is_metadata s') \<and>
    (d_is_uncompressed s' \<longrightarrow> \<not> d_is_last_metablock s' \<and> \<not> d_is_metadata s') \<and>
    d_substate_metablock_header s' = BROTLI_STATE_METABLOCK_HEADER_NONE \<and> mlh_ok s'"
proof -
  have ok: "mlh_ok (with_input [0x38, 0x01, 0x08])"
    by (simp add: mlh_ok_def with_input_ok with_input_fields)
  have "mlh_parse (bytes_bits [0x38, 0x01, 0x08]) = Mlh_Header False True False 40 [False, False, False, False]"
    by code_simp
  then obtain s' where r: "DecodeMetaBlockLength (with_input [0x38, 0x01, 0x08]) = Some (BROTLI_DECODER_SUCCESS, s')"
    using DecodeMetaBlockLength_result [OF ok]
    by (auto simp: mlh_result_def mlh_pending_def with_input_fields with_input_bits)
  then show ?thesis using metablock_header_consistent [OF ok r] by blast
qed

end
