(* ===== verification/Command_Table_Facts.thy ===== *)
theory Command_Table_Facts
  imports Cmd_Lut
begin

text \<open>
  What \<open>kCmdLut\<close> tabulates: the rows computed from the numbers of extra bits of RFC 7932, section 5, and
  the proof that evaluation finds the table equal to them.  The decoder's and the encoder's properties of
  commands share it.
\<close>

section \<open>Insert and copy lengths\<close>

text \<open>
  RFC 7932, section 5.  A length code covers \<open>2 ^ extra\<close> lengths, and the codes cover the lengths without
  gap or overlap, so the offsets follow from the numbers of extra bits.
\<close>

definition insert_extra :: "nat list" where
  "insert_extra = [0, 0, 0, 0, 0, 0, 1, 1, 2, 2, 3, 3, 4, 4, 5, 5, 6, 7, 8, 9, 10, 12, 14, 24]"

definition copy_extra :: "nat list" where
  "copy_extra = [0, 0, 0, 0, 0, 0, 0, 0, 1, 1, 2, 2, 3, 3, 4, 4, 5, 5, 6, 7, 8, 9, 10, 24]"

fun range_offsets :: "int \<Rightarrow> nat list \<Rightarrow> int list" where
  "range_offsets off [] = []"
| "range_offsets off (n # ns) = off # range_offsets (off + 2 ^ n) ns"

text \<open>
  The eleven cells of 64 commands: whether the distance is implicitly the last one, and the first insert
  and the first copy code.  A cell has a row per insert code and a column per copy code.
\<close>

definition command_cells :: "(bool \<times> nat \<times> nat) list" where
  "command_cells = [(True, 0, 0), (True, 0, 8), (False, 0, 0), (False, 0, 8), (False, 8, 0), (False, 8, 8),
     (False, 0, 16), (False, 16, 0), (False, 8, 16), (False, 16, 8), (False, 16, 16)]"

definition rfc_command :: "bool \<Rightarrow> nat \<Rightarrow> nat \<Rightarrow> CmdLutElement" where
  "rfc_command implicit ins cpy =
     (let insert_offset = range_offsets 0 insert_extra ! ins;
          copy_offset = range_offsets 2 copy_extra ! cpy
      in \<lparr>insert_len_extra_bits = of_nat (insert_extra ! ins),
          copy_len_extra_bits = of_nat (copy_extra ! cpy),
          cmd_distance_code = (if implicit then 0 else - 1),
          cmd_context = of_int (min 3 (copy_offset - 2)),
          insert_len_offset = of_int insert_offset,
          copy_len_offset = of_int copy_offset\<rparr>)"

definition rfc_cell :: "bool \<times> nat \<times> nat \<Rightarrow> CmdLutElement list" where
  "rfc_cell c = (case c of (implicit, ins, cpy) \<Rightarrow>
     concat (map (\<lambda>i. map (\<lambda>j. rfc_command implicit (ins + i) (cpy + j)) [0..<8]) [0..<8]))"

lemma command_cells_table:
  "map cmd_element kCmdLut_0 = rfc_cell (True, 0, 0) @ rfc_cell (True, 0, 8)"
  "map cmd_element kCmdLut_128 = rfc_cell (False, 0, 0) @ rfc_cell (False, 0, 8)"
  "map cmd_element kCmdLut_256 = rfc_cell (False, 8, 0) @ rfc_cell (False, 8, 8)"
  "map cmd_element kCmdLut_384 = rfc_cell (False, 0, 16) @ rfc_cell (False, 16, 0)"
  "map cmd_element kCmdLut_512 = rfc_cell (False, 8, 16) @ rfc_cell (False, 16, 8)"
  "map cmd_element kCmdLut_640 = rfc_cell (False, 16, 16)"
  subgoal by code_simp
  subgoal by code_simp
  subgoal by code_simp
  subgoal by code_simp
  subgoal by code_simp
  subgoal by code_simp
  done

lemma kCmdLut_cells: "kCmdLut = concat (map rfc_cell command_cells)"
  by (simp add: kCmdLut_def command_cells_def map_concat command_cells_table del: map_map)

section \<open>The row of a command\<close>

lemma length_rfc_cell: "length (rfc_cell c) = 64"
  by (cases c) (simp add: rfc_cell_def length_concat comp_def sum_list_triv)

lemma nth_concat_blocks:
  assumes "\<forall>xs \<in> set xss. length xs = m" and "k < length xss" and "r < m"
  shows "concat xss ! (k * m + r) = xss ! k ! r"
  using assms
proof (induction xss arbitrary: k)
  case (Cons xs xss)
  show ?case
  proof (cases k)
    case (Suc k')
    then show ?thesis using Cons by (simp add: nth_append add.assoc)
  qed (use Cons in \<open>simp add: nth_append\<close>)
qed simp

lemma rfc_cell_nth:
  assumes "i < 8" and "j < 8"
  shows "rfc_cell (b, ins, cpy) ! (i * 8 + j) = rfc_command b (ins + i) (cpy + j)"
  using assms unfolding rfc_cell_def prod.case
  by (subst nth_concat_blocks) auto

lemma kCmdLut_nth:
  assumes "k < 11" and "i < 8" and "j < 8" and "command_cells ! k = (b, ins, cpy)"
  shows "kCmdLut ! (64 * k + 8 * i + j) = rfc_command b (ins + i) (cpy + j)"
proof -
  have "concat (map rfc_cell command_cells) ! (k * 64 + (i * 8 + j)) = map rfc_cell command_cells ! k ! (i * 8 + j)"
    by (rule nth_concat_blocks) (use assms in \<open>simp_all add: length_rfc_cell command_cells_def\<close>)
  also have "\<dots> = rfc_cell (command_cells ! k) ! (i * 8 + j)"
    using assms(1) by (subst nth_map) (simp_all add: command_cells_def)
  finally show ?thesis using assms rfc_cell_nth by (simp add: kCmdLut_cells add.assoc mult.commute)
qed

lemma length_kCmdLut: "length kCmdLut = 704"
  by (simp add: kCmdLut_cells length_concat comp_def length_rfc_cell sum_list_triv command_cells_def)

end
