(* ===== verification/Canonical_Codes.thy ===== *)
theory Canonical_Codes
  imports Brotli_Prelude
begin

text \<open>
  Canonical prefix codes as RFC 7932, section 3.2, defines them, without a table: from the code lengths of
  the symbols alone.  The codes of one length are consecutive numbers in the order of the symbols, and
  the first code of a length follows the last one of the length before.  A code is written with its
  most significant bit first.
\<close>

section \<open>Reversing bits\<close>

lemma unat_and_mask: "unat (w AND mask n) = unat w mod 2 ^ n"
  unfolding take_bit_eq_mask [symmetric] unsigned_take_bit_eq by (rule take_bit_eq_mod)

definition rev_bits :: "nat \<Rightarrow> nat \<Rightarrow> nat" where
  "rev_bits n x = bits_val (rev (val_bits n x))"

lemma rev_bits_less: "rev_bits n x < 2 ^ n"
  using bits_val_less [of "rev (val_bits n x)"] by (simp add: rev_bits_def)

lemma val_bits_rev_bits: "val_bits n (rev_bits n x) = rev (val_bits n x)"
  unfolding rev_bits_def by (rule val_bits_eqI) simp

lemma val_bits_mod: "val_bits n (x mod 2 ^ n) = val_bits n x"
  by (rule nth_equalityI) (simp_all add: val_bits_def bit_take_bit_iff flip: take_bit_eq_mod)

lemma rev_bits_mod: "rev_bits n (x mod 2 ^ n) = rev_bits n x"
  by (simp add: rev_bits_def val_bits_mod)

lemma rev_bits_rev_bits: "rev_bits n (rev_bits n x) = x mod 2 ^ n"
  by (simp add: rev_bits_def [of n "rev_bits n x"] val_bits_rev_bits bits_val_val_bits)

lemma rev_bits_0 [simp]: "rev_bits 0 x = 0"
  using rev_bits_less [of 0 x] by simp

lemma rev_bits_split: "rev_bits (m + n) x = 2 ^ n * rev_bits m x + rev_bits n (x div 2 ^ m)"
proof -
  have "val_bits (m + n) x = val_bits (m + n) (x mod 2 ^ m + 2 ^ m * (x div 2 ^ m))" by simp
  also have "\<dots> = val_bits m x @ val_bits n (x div 2 ^ m)"
    by (subst val_bits_append) (simp_all add: val_bits_mod)
  finally show ?thesis by (simp add: rev_bits_def bits_val_append)
qed

text \<open>The first bits of a code are the prefix of its number.\<close>

lemma rev_bits_prefix: "m \<le> n \<Longrightarrow> rev_bits m x = rev_bits n x div 2 ^ (n - m)"
  using rev_bits_split [of m "n - m" x] rev_bits_less [of "n - m"] by simp

lemma rev_bits_suffix: "m \<le> n \<Longrightarrow> rev_bits (n - m) (x div 2 ^ m) = rev_bits n x mod 2 ^ (n - m)"
  using rev_bits_split [of m "n - m" x] rev_bits_less [of "n - m" "x div 2 ^ m"] by simp

lemma rev_bits_eq_iff: "c < 2 ^ n \<Longrightarrow> rev_bits n x = c \<longleftrightarrow> x mod 2 ^ n = rev_bits n c"
  by (metis rev_bits_mod rev_bits_rev_bits mod_less)

lemma rev_bits_zero: "rev_bits n 0 = 0"
proof -
  have "val_bits n 0 = replicate n False" by (rule nth_equalityI) (simp_all add: val_bits_def)
  moreover have "bits_val (replicate n False) = 0" by (induction n) (simp_all add: bits_val_Cons)
  ultimately show ?thesis by (simp add: rev_bits_def)
qed

lemma rev_bits_shift: "m \<le> n \<Longrightarrow> rev_bits n (c * 2 ^ (n - m)) = rev_bits m c"
proof -
  assume "m \<le> n"
  then have "rev_bits n (c * 2 ^ (n - m)) = rev_bits ((n - m) + m) (c * 2 ^ (n - m))" by simp
  also have "\<dots> = 2 ^ m * rev_bits (n - m) (c * 2 ^ (n - m)) + rev_bits m c"
    unfolding rev_bits_split by simp
  also have "rev_bits (n - m) (c * 2 ^ (n - m)) = rev_bits (n - m) 0"
    by (metis mod_mult_self2_is_0 rev_bits_mod)
  finally show ?thesis by (simp add: rev_bits_zero)
qed

section \<open>The code\<close>

definition syms :: "nat list \<Rightarrow> nat \<Rightarrow> nat list" where
  "syms lens l = filter (\<lambda>s. lens ! s = l) [0..<length lens]"

abbreviation len_count :: "nat list \<Rightarrow> nat \<Rightarrow> nat" where
  "len_count lens l \<equiv> length (syms lens l)"

lemma len_count_le: "len_count lens l \<le> length lens"
  unfolding syms_def using length_filter_le [of _ "[0..<length lens]"] by simp

text \<open>The first code of each length, as the algorithm of the RFC computes it.\<close>

fun first_code :: "nat list \<Rightarrow> nat \<Rightarrow> nat" where
  "first_code lens 0 = 0"
| "first_code lens (Suc l) = (if l = 0 then 0 else 2 * (first_code lens l + len_count lens l))"

definition code_of :: "nat list \<Rightarrow> nat \<Rightarrow> nat" where
  "code_of lens s = first_code lens (lens ! s) + length (filter (\<lambda>t. lens ! t = lens ! s) [0..<s])"

definition code_bits :: "nat list \<Rightarrow> nat \<Rightarrow> bits" where
  "code_bits lens s = rev (val_bits (lens ! s) (code_of lens s))"

text \<open>A complete code: its code words fill the space of all strings of 15 bits.\<close>

definition complete_code :: "nat list \<Rightarrow> bool" where
  "complete_code lens \<longleftrightarrow> list_all (\<lambda>l. l \<le> 15) lens \<and>
     first_code lens 15 + len_count lens 15 = 2 ^ 15"

section \<open>Its order\<close>

text \<open>\<open>code_at l i\<close> is the code of the \<open>i\<close>-th symbol of length \<open>l\<close>.\<close>

abbreviation code_at :: "nat list \<Rightarrow> nat \<Rightarrow> nat \<Rightarrow> nat" where
  "code_at lens l i \<equiv> first_code lens l + i"

lemma first_code_Suc: "0 < l \<Longrightarrow> first_code lens (Suc l) = 2 * code_at lens l (len_count lens l)"
  by simp

lemma first_code_fold: "first_code lens (Suc n) = fold (\<lambda>l c. 2 * (c + len_count lens l)) [1..<Suc n] 0"
  by (induction n) simp_all

lemma filter_upt_nth:
  assumes "i < length (filter P [0..<n])"
  shows "length (filter P [0..<filter P [0..<n] ! i]) = i" and "filter P [0..<n] ! i < n"
    and "P (filter P [0..<n] ! i)"
proof -
  have "length (filter P [0..<filter P [0..<n] ! i]) = i \<and> filter P [0..<n] ! i < n"
    using assms
  proof (induction n)
    case (Suc n)
    show ?case
    proof (cases "i < length (filter P [0..<n])")
      case True
      then show ?thesis using Suc.IH by (simp add: nth_append)
    next
      case False
      then have "P n" "i = length (filter P [0..<n])" using Suc.prems by (auto split: if_splits)
      then show ?thesis by (simp add: nth_append)
    qed
  qed simp
  then show "length (filter P [0..<filter P [0..<n] ! i]) = i" "filter P [0..<n] ! i < n" by simp_all
  show "P (filter P [0..<n] ! i)" using nth_mem [OF assms] by simp
qed

lemma syms_nth:
  assumes "i < len_count lens l"
  shows "syms lens l ! i < length lens" and "lens ! (syms lens l ! i) = l"
    and "code_of lens (syms lens l ! i) = code_at lens l i"
  using filter_upt_nth [of i "\<lambda>s. lens ! s = l" "length lens"] assms by (simp_all add: syms_def code_of_def)

lemma syms_index:
  assumes "s < length lens"
  shows "\<exists>i < len_count lens (lens ! s). syms lens (lens ! s) ! i = s \<and> code_of lens s = code_at lens (lens ! s) i"
proof -
  have "s \<in> set (syms lens (lens ! s))" using assms by (simp add: syms_def)
  then obtain i where i: "i < len_count lens (lens ! s)" "syms lens (lens ! s) ! i = s"
    unfolding in_set_conv_nth by blast
  then show ?thesis using syms_nth(3) [OF i(1)] by auto
qed

lemma first_code_step:
  assumes "0 < j" and "j < l"
  shows "code_at lens j (len_count lens j) * 2 ^ (l - j) \<le> first_code lens l"
  using assms(2)
proof (induction l)
  case (Suc l)
  show ?case
  proof (cases "j = l")
    case True
    then show ?thesis using assms(1) by (simp add: first_code_Suc)
  next
    case False
    then have l: "j < l" "0 < l" "Suc l - j = Suc (l - j)" using Suc.prems by simp_all
    then show ?thesis using Suc.IH unfolding first_code_Suc [OF l(2)] l(3) by simp
  qed
qed simp

text \<open>A code is not a prefix of a later one.\<close>

lemma code_prefix_free:
  assumes "0 < j" and "j \<le> l" and "k < len_count lens j" and "j = l \<Longrightarrow> k < i"
  shows "code_at lens l i div 2 ^ (l - j) \<noteq> code_at lens j k"
proof (cases "j = l")
  case False
  then have "j < l" using assms(2) by simp
  then have "(code_at lens j k + 1) * 2 ^ (l - j) \<le> code_at lens j (len_count lens j) * 2 ^ (l - j)"
    using assms(3) by (intro mult_le_mono1) simp
  also have "\<dots> \<le> code_at lens l i" using first_code_step [OF assms(1) \<open>j < l\<close>, of lens] by simp
  finally have "code_at lens j k + 1 \<le> code_at lens l i div 2 ^ (l - j)"
    by (simp add: less_eq_div_iff_mult_less_eq)
  then show ?thesis by simp
qed (use assms in auto)

lemma code_less:
  assumes "complete_code lens" and "0 < l" and "l \<le> 15" and "i \<le> len_count lens l"
  shows "code_at lens l i \<le> 2 ^ l"
proof -
  have "code_at lens l i * 2 ^ (15 - l) \<le> code_at lens l (len_count lens l) * 2 ^ (15 - l)"
    using assms(4) by simp
  also have "\<dots> \<le> 2 ^ 15"
    using assms(1) first_code_step [OF assms(2), of 15 lens] assms(3) by (cases "l = 15") (auto simp: complete_code_def)
  also have "\<dots> = 2 ^ l * (2::nat) ^ (15 - l)" using assms(3) by (simp flip: power_add)
  finally show ?thesis by simp
qed

lemma code_strict:
  assumes "complete_code lens" and "0 < l" and "l \<le> 15" and "i < len_count lens l"
  shows "code_at lens l i < 2 ^ l"
  using code_less [OF assms(1-3), of "Suc i"] assms(4) by simp

lemma length_code_bits [simp]: "length (code_bits lens s) = lens ! s"
  by (simp add: code_bits_def)

lemma code_bits_rev: "val_bits l w = code_bits lens s \<Longrightarrow> lens ! s = l \<Longrightarrow> code_of lens s < 2 ^ l \<Longrightarrow>
    rev_bits l w = code_of lens s"
  unfolding rev_bits_def code_bits_def by simp

end
