(* ===== verification/Huffman_Table_Facts.thy ===== *)
theory Huffman_Table_Facts
  imports Canonical_Codes Huffman_Tables
begin

text \<open>
  The table builder of \<^verbatim>\<open>dec/huffman.c\<close> against the canonical code of the symbols' lengths.  The loops
  run through the symbols in the order of their codes; what each invariant says of the cells written so
  far is indexed by the length \<open>j\<close> of a code and the rank \<open>k\<close> of its symbol among those of length \<open>j\<close>.
\<close>

section \<open>Helpers\<close>

lemma kReverseBits_table:
  "list_all (\<lambda>(i, r). map (bit r) [0..<8] = rev (map (bit (of_int i :: uint8)) [0..<8]))
     (zip [0..255] kReverseBits)"
  "length kReverseBits = 256"
  by code_simp+

lemma kReverseBits_nth:
  assumes "n < 256" and "i < 8"
  shows "bit (kReverseBits ! n) i = bit (of_nat n :: uint8) (7 - i)"
proof -
  have "([0..255] :: int list) ! n = int n" "n < length (zip [0..255] kReverseBits)"
    using assms(1) kReverseBits_table(2) by simp_all
  then have "map (bit (kReverseBits ! n)) [0..<8] = rev (map (bit (of_nat n :: uint8)) [0..<8])"
    using kReverseBits_table(1) unfolding list_all_length by (auto simp: split_beta)
  from arg_cong [OF this, of "\<lambda>l. l ! i"] show ?thesis
    using assms(2) by (simp add: rev_nth del: upt_rec_numeral)
qed

lemma BrotliReverseBits_spec:
  assumes "n < 256"
  shows "\<exists>r. BrotliReverseBits (of_nat n) = Some r \<and> uint r = int (rev_bits 8 n) \<and> unat r = rev_bits 8 n"
proof -
  have "byte_bits (kReverseBits ! n) = rev (val_bits 8 n)"
    by (rule nth_equalityI)
      (use assms in \<open>auto simp: byte_bits_def word_bits_def val_bits_def rev_nth kReverseBits_nth bit_of_nat_iff\<close>)
  then have "unat (kReverseBits ! n) = rev_bits 8 n" unfolding rev_bits_def unat_byte_bits [symmetric] by simp
  then have "unat (ucast (kReverseBits ! n) :: uint64) = rev_bits 8 n"
    using rev_bits_less [of 8 n] by (simp add: unsigned_ucast_eq take_bit_nat_eq_self)
  moreover from this have "uint (ucast (kReverseBits ! n) :: uint64) = int (rev_bits 8 n)"
    unfolding uint_nat by (rule arg_cong)
  moreover have "unat (of_nat n :: uint64) = n" using assms by (simp add: unat_of_nat_small)
  ultimately show ?thesis using assms kReverseBits_table(2) by (simp add: BrotliReverseBits_def)
qed

lemma ReplicateValue_spec:
  assumes "0 < st" and "0 < m" and "b + (m - 1) * st < length tbl"
  shows "\<exists>t. ReplicateValue tbl (int b) (int st) (int (m * st)) c = Some t \<and> length t = length tbl \<and>
    (\<forall>q. t ! q = (if \<exists>k<m. q = b + k * st then c else tbl ! q))"
  using assms(2,3)
proof (induction m arbitrary: tbl)
  case (Suc m)
  have i: "int b + (int (Suc m * st) - int st) = int (b + m * st)" by simp
  have lt: "b + m * st < length tbl" using Suc.prems by simp
  have set: "arr_seti tbl (int b + (int (Suc m * st) - int st)) c = Some (tbl[b + m * st := c])"
    unfolding i using lt by (simp add: arr_seti_def nat_add_distrib nat_mult_distrib)
  show ?case
  proof (cases "m = 0")
    case True
    then show ?thesis using set assms(1) lt by (subst ReplicateValue.simps) auto
  next
    case False
    have "(m - 1) * st \<le> m * st" by (rule mult_le_mono1) simp
    then have "b + (m - 1) * st < length (tbl[b + m * st := c])" using lt unfolding length_list_update by linarith
    from Suc.IH [OF _ this] False obtain t where
      t: "ReplicateValue (tbl[b + m * st := c]) (int b) (int st) (int (m * st)) c = Some t" "length t = length tbl"
      "\<And>q. t ! q = (if \<exists>k<m. q = b + k * st then c else tbl[b + m * st := c] ! q)" by auto
    have "int (Suc m * st) - int st = int (m * st)" "0 < int (m * st)" using False assms(1) by simp_all
    then have "ReplicateValue tbl (int b) (int st) (int (Suc m * st)) c = Some t"
      using set t(1) assms(1) by (subst ReplicateValue.simps) simp
    moreover have "t ! q = (if \<exists>k<Suc m. q = b + k * st then c else tbl ! q)" for q
      unfolding t(3) using lt by (auto simp: nth_list_update less_Suc_eq)
    ultimately show ?thesis using t(2) by blast
  qed
qed simp

text \<open>The chain of the symbols of one length.\<close>

definition link :: "nat list \<Rightarrow> nat \<Rightarrow> nat \<Rightarrow> int" where
  "link lens l k = (if k = 0 then int l - 16 else int (syms lens l ! (k - 1)))"

definition chain_ok :: "uint16 list \<Rightarrow> nat list \<Rightarrow> bool" where
  "chain_ok sl lens \<longleftrightarrow> length lens < 2 ^ 16 \<and> (\<forall>l \<in> {1..15}.
     (len_count lens l = 0 \<longrightarrow> symbol_list_get sl (int l - 16) = Some 0xFFFF) \<and>
     (\<forall>k < len_count lens l. symbol_list_get sl (link lens l k) = Some (of_nat (syms lens l ! k))))"

definition counts_ok :: "uint16 list \<Rightarrow> nat list \<Rightarrow> bool" where
  "counts_ok count lens \<longleftrightarrow> length count = 16 \<and> (\<forall>l \<in> {1..15}. count ! l = of_nat (len_count lens l))"

lemma counts_okD:
  assumes "counts_ok count lens" and "length lens < 2 ^ 16" and "0 < l" and "l \<le> 15"
  shows "arr_get count l = Some (of_nat (len_count lens l))" and "unat (of_nat (len_count lens l) :: uint16) = len_count lens l"
  using assms len_count_le [of lens l] by (simp_all add: counts_ok_def unat_of_nat_small)

lemma chain_okD:
  assumes "chain_ok sl lens" and "0 < l" and "l \<le> 15" and "k < len_count lens l"
  shows "symbol_list_get sl (link lens l k) = Some (of_nat (syms lens l ! k))"
    and "uint (of_nat (syms lens l ! k) :: uint16) = link lens l (Suc k)"
proof -
  show "symbol_list_get sl (link lens l k) = Some (of_nat (syms lens l ! k))"
    using assms unfolding chain_ok_def by auto
  have "syms lens l ! k < 2 ^ 16" using syms_nth(1) [OF assms(4)] assms(1) by (simp add: chain_ok_def)
  then have "unat (of_nat (syms lens l ! k) :: uint16) = syms lens l ! k" by (simp add: unat_of_nat_small)
  then show "uint (of_nat (syms lens l ! k) :: uint16) = link lens l (Suc k)" unfolding uint_nat by (simp add: link_def)
qed

abbreviation cell :: "nat list \<Rightarrow> nat \<Rightarrow> nat \<Rightarrow> nat \<Rightarrow> HuffmanCode" where
  "cell lens n j k \<equiv> ConstructHuffmanCode (of_nat n) (of_nat (syms lens j ! k))"

section \<open>The root table\<close>

definition before :: "nat list \<Rightarrow> nat \<Rightarrow> nat \<Rightarrow> nat \<Rightarrow> nat \<Rightarrow> bool" where
  "before lens l i j k \<longleftrightarrow> 0 < j \<and> (j < l \<and> k < len_count lens j \<or> j = l \<and> k < i)"

definition root_cells :: "nat list \<Rightarrow> nat \<Rightarrow> nat \<Rightarrow> HuffmanCode list \<Rightarrow> nat \<Rightarrow> nat \<Rightarrow> bool" where
  "root_cells lens tb base tbl l i \<longleftrightarrow> (\<forall>j k p. before lens l i j k \<longrightarrow> p < 2 ^ tb \<longrightarrow>
     rev_bits j p = code_at lens j k \<longrightarrow> tbl ! (base + p) = cell lens j j k)"

definition frame :: "nat \<Rightarrow> nat \<Rightarrow> 'a list \<Rightarrow> 'a list \<Rightarrow> bool" where
  "frame lo hi xs ys \<longleftrightarrow> length ys = length xs \<and> (\<forall>q < length xs. q < lo \<or> hi \<le> q \<longrightarrow> ys ! q = xs ! q)"

lemma frame_refl [simp]: "frame lo hi xs xs"
  by (simp add: frame_def)

lemma frame_trans: "frame lo hi xs ys \<Longrightarrow> frame lo hi ys zs \<Longrightarrow> frame lo hi xs zs"
  by (simp add: frame_def)

lemma frame_mono: "frame lo hi xs ys \<Longrightarrow> lo' \<le> lo \<Longrightarrow> hi \<le> hi' \<Longrightarrow> frame lo' hi' xs ys"
  by (auto simp: frame_def)

text \<open>\<open>ReplicateValue\<close> fills the cells whose index starts with a code.\<close>

lemma replicate_code:
  assumes "c < 2 ^ l" and "l \<le> tb" and "b + 2 ^ tb \<le> length tbl"
  shows "\<exists>t. ReplicateValue tbl (int b + int (rev_bits l c)) (2 ^ l) (2 ^ tb) v = Some t \<and>
    frame b (b + 2 ^ tb) tbl t \<and>
    (\<forall>p < 2 ^ tb. t ! (b + p) = (if rev_bits l p = c then v else tbl ! (b + p)))"
proof -
  define m where "m = (2::nat) ^ (tb - l)"
  have m: "0 < m" "2 ^ tb = m * 2 ^ l" using assms(2) by (simp_all add: m_def flip: power_add)
  note lt = rev_bits_less [of l c]
  have top: "rev_bits l c + k * 2 ^ l < m * 2 ^ l" if "k < m" for k
  proof -
    have "rev_bits l c + k * 2 ^ l < Suc k * 2 ^ l" using lt by simp
    also have "\<dots> \<le> m * 2 ^ l" by (rule mult_le_mono1) (use that in simp)
    finally show ?thesis .
  qed
  have "rev_bits l c + (m - 1) * 2 ^ l < m * 2 ^ l" by (rule top) (use m in simp)
  then have "b + rev_bits l c + (m - 1) * 2 ^ l < length tbl" using assms(3) m(2) by linarith
  from ReplicateValue_spec [OF _ m(1) this, of v] obtain t where
    t: "ReplicateValue tbl (int (b + rev_bits l c)) (int (2 ^ l)) (int (m * 2 ^ l)) v = Some t" "length t = length tbl"
    "\<And>q. t ! q = (if \<exists>k<m. q = b + rev_bits l c + k * 2 ^ l then v else tbl ! q)" by auto
  have iff: "(\<exists>k<m. b + p = b + rev_bits l c + k * 2 ^ l) \<longleftrightarrow> rev_bits l p = c" if "p < 2 ^ tb" for p
  proof -
    have "(\<exists>k<m. p = rev_bits l c + k * 2 ^ l) \<longleftrightarrow> p mod 2 ^ l = rev_bits l c"
    proof
      assume "p mod 2 ^ l = rev_bits l c"
      then have "p = rev_bits l c + p div 2 ^ l * 2 ^ l" by (metis mod_mult_div_eq add.commute mult.commute mod_div_mult_eq)
      moreover have "p div 2 ^ l < m" using that m(2) by (simp add: less_mult_imp_div_less)
      ultimately show "\<exists>k<m. p = rev_bits l c + k * 2 ^ l" by blast
    qed (use lt in auto)
    then show ?thesis using rev_bits_eq_iff [OF assms(1), of p] by (simp add: add.assoc)
  qed
  have out: "t ! q = tbl ! q" if "q < b \<or> b + 2 ^ tb \<le> q" for q
    unfolding t(3) using that top m(2) by fastforce
  show ?thesis
    using t(1,2) out iff by (intro exI [of _ t]) (simp add: frame_def t(3) flip: m(2))
qed

lemma root_cells_step:
  assumes "root_cells lens tb base tbl l i" and "i < len_count lens l" and "0 < l" and "l \<le> tb" and "tb \<le> 8"
    and "code_at lens l i < 2 ^ l" and "base + 2 ^ tb \<le> length tbl"
  shows "\<exists>t. ReplicateValue tbl (int base + int (rev_bits l (code_at lens l i))) (2 ^ l) (2 ^ tb) (cell lens l l i) = Some t \<and>
    frame base (base + 2 ^ tb) tbl t \<and> root_cells lens tb base t l (Suc i)"
proof -
  obtain t where t: "ReplicateValue tbl (int base + int (rev_bits l (code_at lens l i))) (2 ^ l) (2 ^ tb) (cell lens l l i) = Some t"
    "frame base (base + 2 ^ tb) tbl t"
    "\<And>p. p < 2 ^ tb \<Longrightarrow> t ! (base + p) = (if rev_bits l p = code_at lens l i then cell lens l l i else tbl ! (base + p))"
    using replicate_code [OF assms(6,4,7), of "cell lens l l i"] by auto
  have "t ! (base + p) = cell lens j j k"
    if b: "before lens l (Suc i) j k" and p: "p < 2 ^ tb" "rev_bits j p = code_at lens j k" for j k p
  proof (cases "j = l \<and> k = i")
    case True
    then show ?thesis using p by (simp add: t(3))
  next
    case False
    then have b': "before lens l i j k" using b by (auto simp: before_def)
    then have jl: "0 < j" "j \<le> l" "k < len_count lens j" "j = l \<Longrightarrow> k < i" using assms(2) by (auto simp: before_def)
    have "rev_bits l p \<noteq> code_at lens l i"
      using code_prefix_free [OF jl] rev_bits_prefix [OF jl(2), of p] p(2) by auto
    then show ?thesis using assms(1) b' p by (simp add: t(3) root_cells_def)
  qed
  then have "root_cells lens tb base t l (Suc i)" by (simp add: root_cells_def)
  then show ?thesis using t(1,2) by blast
qed

lemma root_fill_spec:
  assumes "complete_code lens" and "chain_ok sl lens" and "0 < l" and "l \<le> tb" and "tb \<le> 8"
    and "n + i = len_count lens l" and "root_cells lens tb base tbl l i" and "base + 2 ^ tb \<le> length tbl"
  shows "\<exists>t sy. root_fill_len sl base (int l) (2 ^ l) (2 ^ tb) (of_nat (2 ^ (8 - l))) n
      (tbl, of_nat (code_at lens l i * 2 ^ (8 - l)), link lens l i) =
        Some (t, of_nat (code_at lens l (len_count lens l) * 2 ^ (8 - l)), sy) \<and>
    frame base (base + 2 ^ tb) tbl t \<and> root_cells lens tb base t l (len_count lens l)"
  using assms(6-8)
proof (induction n arbitrary: i tbl)
  case (Suc n)
  define c where "c = code_at lens l i"
  have i: "i < len_count lens l" using Suc.prems(1) by simp
  have l: "l \<le> 15" "l \<le> 8" using assms(4,5) by simp_all
  have c: "c < 2 ^ l" using code_strict [OF assms(1,3) l(1) i] by (simp add: c_def)
  have "c * 2 ^ (8 - l) < 2 ^ l * 2 ^ (8 - l)" using c by simp
  also have "\<dots> = (256 :: nat)" using l(2) by (simp flip: power_add)
  finally obtain r where r: "BrotliReverseBits (of_nat (c * 2 ^ (8 - l))) = Some r" "uint r = int (rev_bits l c)"
    using BrotliReverseBits_spec [of "c * 2 ^ (8 - l)"] rev_bits_shift [OF l(2), of c] by auto
  note ch = chain_okD [OF assms(2,3) l(1) i]
  have v: "of_int (link lens l (Suc i)) = (of_nat (syms lens l ! i) :: uint16)" unfolding ch(2) [symmetric] by simp
  obtain t where t: "ReplicateValue tbl (int base + int (rev_bits l c)) (2 ^ l) (2 ^ tb) (cell lens l l i) = Some t"
    "frame base (base + 2 ^ tb) tbl t" "root_cells lens tb base t l (Suc i)"
    using root_cells_step [OF Suc.prems(2) i assms(3-5) c [unfolded c_def] Suc.prems(3)] unfolding c_def by blast
  have key: "of_nat (c * 2 ^ (8 - l)) + of_nat (2 ^ (8 - l)) = (of_nat (code_at lens l (Suc i) * 2 ^ (8 - l)) :: uint64)"
    by (simp add: c_def algebra_simps)
  have "n + Suc i = len_count lens l" "base + 2 ^ tb \<le> length t"
    using Suc.prems(1,3) t(2) by (simp_all add: frame_def)
  from Suc.IH [OF this(1) t(3) this(2)] obtain t' sy where
    t': "root_fill_len sl base (int l) (2 ^ l) (2 ^ tb) (of_nat (2 ^ (8 - l))) n
        (t, of_nat (code_at lens l (Suc i) * 2 ^ (8 - l)), link lens l (Suc i)) =
          Some (t', of_nat (code_at lens l (len_count lens l) * 2 ^ (8 - l)), sy)"
    "frame base (base + 2 ^ tb) t t'" "root_cells lens tb base t' l (len_count lens l)" by blast
  have "root_fill_len sl base (int l) (2 ^ l) (2 ^ tb) (of_nat (2 ^ (8 - l))) (Suc n)
      (tbl, of_nat (c * 2 ^ (8 - l)), link lens l i) =
        Some (t', of_nat (code_at lens l (len_count lens l) * 2 ^ (8 - l)), sy)"
    unfolding root_fill_len.simps ch bind.bind_lunit Let_def v r of_int_of_nat_eq t(1) key t'(1) ..
  then show ?case using frame_trans [OF t(2) t'(2)] t'(3) unfolding c_def by blast
qed auto

lemma root_key_step:
  "list_all (\<lambda>b. drop_bit (b - 1) BROTLI_REVERSE_BITS_LOWEST = of_nat (2 ^ (8 - b))) [1..<9]"
  by code_simp

lemma root_cells_next: "0 < l \<Longrightarrow> root_cells lens tb base t l (len_count lens l) \<Longrightarrow> root_cells lens tb base t (Suc l) 0"
  by (auto simp: root_cells_def before_def less_Suc_eq)

lemma hb_root_spec:
  assumes "complete_code lens" and "chain_ok sl lens" and "counts_ok count lens"
    and "0 < tb" and "tb \<le> 8" and "base + 2 ^ tb \<le> length tbl"
  shows "\<exists>t K. hb_root tbl base tb sl count (2 ^ tb) = Some (t, of_nat K) \<and>
    K * 2 ^ Suc tb = first_code lens (Suc tb) * 256 \<and>
    frame base (base + 2 ^ tb) tbl t \<and> root_cells lens tb base t (Suc tb) 0"
proof -
  define P where "P b st \<longleftrightarrow> (\<exists>t K. st = (t, of_nat K, (2 :: int) ^ b, drop_bit (b - 1) BROTLI_REVERSE_BITS_LOWEST) \<and>
    K * 2 ^ b = first_code lens b * 256 \<and> frame base (base + 2 ^ tb) tbl t \<and> root_cells lens tb base t b 0)"
    for b :: nat and st :: "HuffmanCode list \<times> uint64 \<times> int \<times> uint64"
  define body where "body = (\<lambda>bits (tbl, key, step, key_step). do {
         n \<leftarrow> arr_get count bits;
         (tbl, key, symbol) \<leftarrow> root_fill_len sl base (int bits) step (int (2 ^ tb)) key_step (unat n)
           (tbl, key, int bits - 16);
         Some (tbl, key, step * 2, drop_bit 1 key_step) })"
  have lens: "length lens < 2 ^ 16" using assms(2) by (simp add: chain_ok_def)
  have "\<exists>st'. foldM body [1..<Suc tb] (tbl, 0, 2, BROTLI_REVERSE_BITS_LOWEST) = Some st' \<and> P (Suc tb) st'"
  proof (rule foldM_upt [where P = P])
    show "P 1 (tbl, 0, 2, BROTLI_REVERSE_BITS_LOWEST)"
      unfolding P_def by (rule exI [of _ tbl], rule exI [of _ 0]) (simp add: root_cells_def before_def)
  next
    fix b st assume b: "1 \<le> b" "b < Suc tb" and "P b st"
    then obtain t K where st: "st = (t, of_nat K, 2 ^ b, drop_bit (b - 1) BROTLI_REVERSE_BITS_LOWEST)"
      "K * 2 ^ b = first_code lens b * 256" "frame base (base + 2 ^ tb) tbl t" "root_cells lens tb base t b 0"
      unfolding P_def by blast
    have b8: "b \<le> 8" "b \<le> 15" "0 < b" "b \<le> tb" using b assms(5) by simp_all
    have p8: "(256::nat) = 2 ^ (8 - b) * 2 ^ b" using b8(1) by (simp flip: power_add)
    have "b \<in> set [1..<9]" using b8 by (simp del: upt_rec_numeral)
    then have ks: "drop_bit (b - 1) BROTLI_REVERSE_BITS_LOWEST = of_nat (2 ^ (8 - b))"
      using root_key_step unfolding list_all_iff by blast
    have dd: "drop_bit 1 (drop_bit (b - 1) BROTLI_REVERSE_BITS_LOWEST) = drop_bit (Suc b - 1) BROTLI_REVERSE_BITS_LOWEST"
      unfolding drop_bit_drop_bit using b8(3) by simp
    have K: "K = code_at lens b 0 * 2 ^ (8 - b)" using st(2) unfolding p8 by simp
    have "base + 2 ^ tb \<le> length t" using assms(6) st(3) by (simp add: frame_def)
    from root_fill_spec [OF assms(1,2) b8(3,4) assms(5) _ st(4) this, of "len_count lens b"] obtain t' sy where
      t': "root_fill_len sl base (int b) (2 ^ b) (2 ^ tb) (of_nat (2 ^ (8 - b))) (len_count lens b)
        (t, of_nat K, int b - 16) = Some (t', of_nat (code_at lens b (len_count lens b) * 2 ^ (8 - b)), sy)"
      "frame base (base + 2 ^ tb) t t'" "root_cells lens tb base t' b (len_count lens b)"
      unfolding K link_def by auto
    have "body b st = Some (t', of_nat (code_at lens b (len_count lens b) * 2 ^ (8 - b)), 2 ^ Suc b,
        drop_bit (Suc b - 1) BROTLI_REVERSE_BITS_LOWEST)"
      using counts_okD [OF assms(3) lens b8(3,2)] t'(1) [folded ks] dd unfolding st(1) body_def by simp
    moreover have "code_at lens b (len_count lens b) * 2 ^ (8 - b) * 2 ^ Suc b = first_code lens (Suc b) * 256"
      unfolding first_code_Suc [OF b8(3)] p8 by simp
    ultimately show "\<exists>st'. body b st = Some st' \<and> P (Suc b) st'"
      unfolding P_def using frame_trans [OF st(3) t'(2)] root_cells_next [OF b8(3) t'(3)] by blast
  qed simp
  then obtain t K ks where r: "foldM body [1..<Suc tb] (tbl, 0, 2, BROTLI_REVERSE_BITS_LOWEST) = Some (t, of_nat K, 2 ^ Suc tb, ks)"
    "K * 2 ^ Suc tb = first_code lens (Suc tb) * 256" "frame base (base + 2 ^ tb) tbl t" "root_cells lens tb base t (Suc tb) 0"
    unfolding P_def by blast
  have upt: "[1] @ [2..<Suc tb] = [1..<Suc tb]" using assms(4) by (simp add: upt_conv_Cons numeral_2_eq_2)
  have "hb_root tbl base tb sl count (2 ^ tb) = Some (t, of_nat K)"
    unfolding hb_root_def upt body_def [symmetric] r(1) by simp
  then show ?thesis using r(2-4) by blast
qed

lemma double_table_spec:
  assumes "tb \<le> e" and "base + 2 ^ e \<le> length tbl"
  shows "\<exists>t. double_table tbl base (2 ^ e) (2 ^ tb) = Some t \<and> frame base (base + 2 ^ e) tbl t \<and>
    (\<forall>p < 2 ^ e. t ! (base + p) = tbl ! (base + p mod 2 ^ tb))"
  using assms
proof (induction "e - tb" arbitrary: tb tbl)
  case 0
  then show ?case by (subst double_table.simps) auto
next
  case (Suc n)
  then have tb: "tb < e" "n = e - Suc tb" "Suc tb \<le> e" by simp_all
  have lt: "(2::nat) ^ tb < 2 ^ e" using tb(1) by simp
  have le: "(2::nat) * 2 ^ tb \<le> 2 ^ e" using power_increasing [OF tb(3), of "2::nat"] by simp
  have room: "base + 2 ^ tb + 2 ^ tb \<le> length tbl" using le Suc.prems(2) by linarith
  then obtain t1 where c: "arr_copy tbl (base + 2 ^ tb) tbl base (2 ^ tb) = Some t1" by (simp add: arr_copy_def)
  have t1: "length t1 = length tbl" using arr_copy_length [OF c] .
  have n1: "t1 ! i = (if base + 2 ^ tb \<le> i \<and> i < base + 2 ^ tb + 2 ^ tb then tbl ! (base + (i - (base + 2 ^ tb))) else tbl ! i)"
    if "i < length tbl" for i using arr_copy_nth [OF c that] .
  have "base + 2 ^ e \<le> length t1" using Suc.prems(2) t1 by simp
  from Suc.hyps(1) [OF tb(2,3) this] obtain t where
    t: "double_table t1 base (2 ^ e) (2 ^ Suc tb) = Some t" "frame base (base + 2 ^ e) t1 t"
    "\<And>p. p < 2 ^ e \<Longrightarrow> t ! (base + p) = t1 ! (base + p mod 2 ^ Suc tb)" by blast
  have f1: "frame base (base + 2 ^ e) tbl t1"
    unfolding frame_def
  proof (intro conjI allI impI)
    fix q assume q: "q < length tbl" "q < base \<or> base + 2 ^ e \<le> q"
    then have "\<not> (base + 2 ^ tb \<le> q \<and> q < base + 2 ^ tb + 2 ^ tb)" using le by auto
    then show "t1 ! q = tbl ! q" unfolding n1 [OF q(1)] by (rule if_not_P)
  qed (rule t1)
  have "t ! (base + p) = tbl ! (base + p mod 2 ^ tb)" if p: "p < 2 ^ e" for p
  proof -
    define r where "r = p mod 2 ^ Suc tb"
    have r: "r < 2 * 2 ^ tb" by (simp add: r_def)
    have m: "p mod 2 ^ tb = r mod 2 ^ tb" unfolding r_def by (simp add: mod_mod_cancel)
    have "t1 ! (base + r) = tbl ! (base + r mod 2 ^ tb)"
    proof (cases "r < 2 ^ tb")
      case True
      then show ?thesis using n1 [of "base + r"] room by simp
    next
      case False
      then have "r mod 2 ^ tb = r - 2 ^ tb" using r by (simp add: mod_if)
      then show ?thesis using n1 [of "base + r"] room False r by simp
    qed
    then show ?thesis using t(3) [OF p] m unfolding r_def by simp
  qed
  moreover have "double_table tbl base (2 ^ e) (2 ^ tb) = Some t"
    using c t(1) lt by (subst double_table.simps) simp
  ultimately show ?case using frame_trans [OF f1 t(2)] by blast
qed

end
