(* ===== verification/Table_Properties.thy ===== *)
theory Table_Properties
  imports Command_Table_Facts Context_Lut Huffman_Table_Facts Transforms
begin

text \<open>
  The constant tables of the decoder against the rules of RFC 7932 they tabulate.  Each statement
  quantifies over all entries of a table, which evaluation checks.
\<close>

section \<open>Insert and copy lengths\<close>

text \<open>C21: The 704 rows of \<open>kCmdLut\<close> are what RFC 7932, section 5 says of the commands: the insert and
  the copy length code of each cell, their extra bits and offsets, the implicit last distance of the
  first two cells, and the distance context of the copy length.\<close>

theorem command_table_correct: "kCmdLut = concat (map rfc_cell command_cells)"
  by (rule kCmdLut_cells)

section \<open>Block lengths\<close>

fun ranges_tile :: "int \<Rightarrow> BrotliPrefixCodeRange list \<Rightarrow> int option" where
  "ranges_tile n [] = Some n"
| "ranges_tile n (r # rs) =
     (if uint (pcr_offset r) = n then ranges_tile (n + 2 ^ unat (pcr_nbits r)) rs else None)"

text \<open>The 26 ranges of the block-length code cover the lengths from 1 to 16793840 without gap or
  overlap, each range starting where the one before ends, as RFC 7932, section 6 lists them.\<close>

lemma block_length_ranges_tile:
  "length kBrotliPrefixCodeRanges = 26 \<and> ranges_tile 1 kBrotliPrefixCodeRanges = Some 16793841"
  by code_simp

section \<open>Contexts\<close>

text \<open>
  The context of a literal in RFC 7932, section 7.1.  The two tables that the RFC lists for the \<open>UTF8\<close> mode are
  given by the classes of characters that \<^verbatim>\<open>common/context.h\<close> names for them.
\<close>

definition rfc_signed :: "int \<Rightarrow> int" where
  "rfc_signed b = (if b = 0 then 0 else if b < 16 then 1 else if b < 64 then 2 else if b < 128 then 3
     else if b < 192 then 4 else if b < 240 then 5 else if b < 255 then 6 else 7)"

text \<open>\<open>context1\<close> of an ASCII character: line breaks, space, quotes, percent, the brackets that open and that close,
  comma and colons, full stop, equals, digits, vowels and consonants, other punctuation.\<close>

definition utf8_class :: "int \<Rightarrow> int" where
  "utf8_class b =
     (if b \<in> {9, 10, 13} then 1 else if b < 32 \<or> b = 127 then 0 else if b = 32 then 2
      else if b \<in> {34, 39} then 4 else if b = 37 then 5
      else if b \<in> {40, 60, 91, 123} then 6 else if b \<in> {41, 62, 93, 125} then 7
      else if b \<in> {44, 58, 59} then 8 else if b = 46 then 9 else if b = 61 then 10
      else if 48 \<le> b \<and> b \<le> 57 then 11
      else if b \<in> {65, 69, 73, 79, 85} then 12 else if 65 \<le> b \<and> b \<le> 90 then 13
      else if b \<in> {97, 101, 105, 111, 117} then 14 else if 97 \<le> b \<and> b \<le> 122 then 15
      else 3)"

text \<open>The last byte: an ASCII character, a continuation byte, a lead byte.\<close>

definition utf8_last :: "int \<Rightarrow> int" where
  "utf8_last b = (if b < 128 then 4 * utf8_class b else if b < 192 then b mod 2 else 2 + b mod 2)"

text \<open>The byte before: control or space, punctuation, upper case or digit, lower case; a lead byte of a character of
  three or four bytes announces another continuation byte.  In the RFC's table these are the bytes from 224; the comment in
  \<^verbatim>\<open>common/context.h\<close> puts the border at 208 (the bytes 208 to 223 start characters of two bytes).\<close>

definition utf8_second :: "int \<Rightarrow> int" where
  "utf8_second b =
     (if b \<le> 32 \<or> b = 127 then 0 else if 97 \<le> b \<and> b \<le> 122 then 3
      else if 65 \<le> b \<and> b \<le> 90 \<or> 48 \<le> b \<and> b \<le> 57 then 2 else if b < 128 then 1
      else if b < 224 then 0 else 2)"

definition context_last :: "nat \<Rightarrow> int \<Rightarrow> int" where
  "context_last mode b = [b mod 64, b div 4, utf8_last b, 8 * rfc_signed b] ! mode"

definition context_second :: "nat \<Rightarrow> int \<Rightarrow> int" where
  "context_second mode b = [0, 0, utf8_second b, rfc_signed b] ! mode"

lemma context_parts:
  "map uint context_LSB6_last = map (context_last 0) [0..255]" "map uint context_LSB6_second = map (context_second 0) [0..255]"
  "map uint context_MSB6_last = map (context_last 1) [0..255]" "map uint context_MSB6_second = map (context_second 1) [0..255]"
  "map uint context_UTF8_last = map (context_last 2) [0..255]" "map uint context_UTF8_second = map (context_second 2) [0..255]"
  "map uint context_SIGNED_last = map (context_last 3) [0..255]" "map uint context_SIGNED_second = map (context_second 3) [0..255]"
  by code_simp+

lemma concat_nth:
  assumes "\<forall>p \<in> set ps. length p = n" and "k < length ps" and "i < n"
  shows "concat ps ! (k * n + i) = ps ! k ! i"
  using assms
proof (induction ps arbitrary: k)
  case (Cons p ps)
  then show ?case by (cases k) (simp_all add: nth_append)
qed simp

lemma part_nth:
  assumes "map uint p = map f [0..255]" and "n < 256"
  shows "n < length p" and "uint (p ! n) = f (int n)"
proof -
  have "length (map uint p) = length (map f [0..255])" unfolding assms(1) ..
  then show n: "n < length p" using assms(2) by simp
  have "uint (p ! n) = map uint p ! n" using n by simp
  also have "\<dots> = f (int n)" unfolding assms(1) using assms(2) by simp
  finally show "uint (p ! n) = f (int n)" .
qed

lemma context_bounds:
  "list_all (\<lambda>c. c < 64) kBrotliContextLookupTable"
  "length kBrotliContextLookupTable = 2048"
  by (simp_all add: kBrotliContextLookupTable_def context_LSB6_last_def context_LSB6_second_def
      context_MSB6_last_def context_MSB6_second_def context_UTF8_last_def context_UTF8_second_def
      context_SIGNED_last_def context_SIGNED_second_def)

lemma less_64_iff: "(x :: uint8) < 64 \<longleftrightarrow> take_bit 6 x = x"
  by (simp add: word_less_nat_alt word_unat_eq_iff unsigned_take_bit_eq take_bit_nat_eq_self_iff)

lemma or_less_64: "a < 64 \<Longrightarrow> b < 64 \<Longrightarrow> (a :: uint8) OR b < 64"
  by (simp add: less_64_iff take_bit_or)

lemma context_table_parts:
  "kBrotliContextLookupTable = concat [context_LSB6_last, context_LSB6_second, context_MSB6_last, context_MSB6_second,
     context_UTF8_last, context_UTF8_second, context_SIGNED_last, context_SIGNED_second]"
  by (simp add: kBrotliContextLookupTable_def)

lemma context_entry:
  assumes "mode < 4" and "n < 256"
  shows "uint (kBrotliContextLookupTable ! (mode * 512 + n)) = context_last mode (int n)"
    and "uint (kBrotliContextLookupTable ! (mode * 512 + 256 + n)) = context_second mode (int n)"
proof -
  define ps where "ps = [context_LSB6_last, context_LSB6_second, context_MSB6_last, context_MSB6_second,
     context_UTF8_last, context_UTF8_second, context_SIGNED_last, context_SIGNED_second]"
  have tab: "kBrotliContextLookupTable = concat ps" unfolding context_table_parts ps_def ..
  have len: "\<forall>p \<in> set ps. length p = 256" using context_parts [THEN arg_cong [where f = length]] by (simp add: ps_def)
  have m: "mode = 0 \<or> mode = 1 \<or> mode = 2 \<or> mode = 3" using assms(1) by linarith
  have k: "2 * mode < length ps" "2 * mode + 1 < length ps" using assms(1) by (simp_all add: ps_def)
  have i: "mode * 512 + n = 2 * mode * 256 + n" "mode * 512 + 256 + n = (2 * mode + 1) * 256 + n" by simp_all
  show "uint (kBrotliContextLookupTable ! (mode * 512 + n)) = context_last mode (int n)"
    unfolding tab i(1) concat_nth [OF len k(1) assms(2)]
    using m context_parts(1,3,5,7) [THEN part_nth(2), OF assms(2)] by (auto simp: ps_def)
  show "uint (kBrotliContextLookupTable ! (mode * 512 + 256 + n)) = context_second mode (int n)"
    unfolding tab i(2) concat_nth [OF len k(2) assms(2)]
    using m context_parts(2,4,6,8) [THEN part_nth(2), OF assms(2)] by (auto simp: ps_def eval_nat_numeral)
qed

text \<open>C39: For each of the four context modes and any two bytes, \<open>BROTLI_CONTEXT\<close> stays inside the table and gives the
  context of RFC 7932, section 7.1: the six low bits or the six high bits of the last byte; in \<open>UTF8\<close> mode the class of the
  last byte together with the class of the byte before, written out for each ASCII character and for continuation and lead
  bytes (\<open>utf8_last\<close>, \<open>utf8_second\<close>; lead bytes before a continuation byte count from 224 on); in \<open>Signed\<close> mode the
  magnitudes of both bytes.  All 2048 entries of the table, and their places in it, are fixed by this.  The context is always
  below 64, so that an index into a literal context map never leaves the slice of the block type.\<close>

theorem literal_context_correct:
  assumes "mode < 4"
  shows "\<exists>c. BROTLI_CONTEXT p1 p2 (BROTLI_CONTEXT_LUT mode) = Some c \<and>
    uint c = context_last mode (uint p1) OR context_second mode (uint p2) \<and> c < 64"
proof -
  have n: "unat p1 < 256" "unat p2 < 256" using unsigned_less [of p1, where ?'a = nat] unsigned_less [of p2, where ?'a = nat] by simp_all
  have i: "mode * 512 + unat p1 < 2048" "mode * 512 + 256 + unat p2 < 2048" using assms n by simp_all
  then have "kBrotliContextLookupTable ! (mode * 512 + unat p1) < 64"
    "kBrotliContextLookupTable ! (mode * 512 + 256 + unat p2) < 64"
    using context_bounds by (auto simp: list_all_length)
  then show ?thesis using i context_entry [OF assms n(1)] context_entry [OF assms n(2)]
    by (simp add: BROTLI_CONTEXT_def BROTLI_CONTEXT_LUT_def arr_get_def context_bounds or_less_64 unsigned_or_eq)
qed

text \<open>After a space, the letter A: an upper-case vowel.\<close>

lemma literal_context_correct_witness:
  "\<exists>c. BROTLI_CONTEXT 0x41 0x20 (BROTLI_CONTEXT_LUT 2) = Some c \<and>
    uint c = context_last 2 (uint (0x41 :: uint8)) OR context_second 2 (uint (0x20 :: uint8)) \<and> c < 64"
  by (rule literal_context_correct) simp

section \<open>Bit reversal\<close>

text \<open>\<open>BrotliReverseBits\<close>, a table lookup in this build, reverses the order of the eight low bits
  of its argument, as the \<open>RBIT\<close> instruction does in the builds that have it, and is its own inverse.\<close>

lemma reverse_bits_correct:
  assumes "num < 256"
  shows "\<exists>r. BrotliReverseBits num = Some r \<and> r < 256 \<and>
    (\<forall>i < 8. bit r i \<longleftrightarrow> bit num (7 - i)) \<and> BrotliReverseBits r = Some num"
proof -
  define n where "n = unat num"
  define r where "r = kReverseBits ! n"
  have n: "n < 256" using assms by (simp add: n_def word_less_nat_alt)
  have num: "num = ucast (of_nat n :: uint8)"
    using n by (simp add: n_def word_unat_eq_iff unsigned_ucast_eq unat_of_nat take_bit_nat_eq_self
      unsigned_take_bit_eq)
  have rb: "bit r i = bit (of_nat n :: uint8) (7 - i)" if "i < 8" for i
    using kReverseBits_nth [OF n that] by (simp add: r_def)
  have ur: "unat r < 256" using unsigned_less [of r] by simp
  have "kReverseBits ! unat r = of_nat n"
  proof (rule bit_word_eqI)
    fix i assume "i < LENGTH(8)"
    then have i: "i < 8" by simp
    then show "bit (kReverseBits ! unat r) i = bit (of_nat n :: uint8) i"
      using kReverseBits_nth [OF ur i] rb [of "7 - i"] by simp
  qed
  moreover have "bit num i = bit (of_nat n :: uint8) i" for i
    unfolding num by (auto simp: bit_simps dest: bit_imp_le_length)
  moreover have "bit (ucast r :: uint64) i = bit r i" if "i < 8" for i using that by (simp add: bit_simps)
  moreover have "unat (ucast r :: uint64) = unat r"
    using ur by (simp add: unsigned_ucast_eq take_bit_nat_eq_self)
  ultimately show ?thesis using n ur rb kReverseBits_table(2) num [symmetric]
    by (intro exI [of _ "ucast r"] conjI)
      (simp_all add: BrotliReverseBits_def arr_get_def n_def [symmetric] r_def [symmetric] word_less_nat_alt
        del: bit_unsigned_iff)
qed

lemma reverse_bits_correct_witness:
  "\<exists>r. BrotliReverseBits 0xA3 = Some r \<and> r < 256 \<and>
    (\<forall>i < 8. bit r i \<longleftrightarrow> bit (0xA3 :: uint64) (7 - i)) \<and> BrotliReverseBits r = Some 0xA3"
  by (rule reverse_bits_correct) simp

end
