(* ===== verification/Distance_Properties.thy ===== *)
theory Distance_Properties
  imports Decode_Distance Decoder_Samples
begin

text \<open>
  Distances (RFC 7932, section 4): the ring of recent distances, the table of the extra bits and the
  offset of each distance code, and the limit on the alphabet of large-window streams.
\<close>

section \<open>Recent distances\<close>

text \<open>The \<open>k\<close>-th last distance, \<open>k\<close> from 1 to 4.\<close>

definition recent :: "BrotliDecoderState \<Rightarrow> int \<Rightarrow> int" where
  "recent s k = d_dist_rb s ! nat ((d_dist_rb_idx s - k) mod 4)"

definition rfc_short_distance :: "int \<Rightarrow> (int \<Rightarrow> int) \<Rightarrow> int" where
  "rfc_short_distance code r =
     [r 1, r 2, r 3, r 4,
      r 1 - 1, r 1 + 1, r 1 - 2, r 1 + 2, r 1 - 3, r 1 + 3,
      r 2 - 1, r 2 + 1, r 2 - 2, r 2 + 2, r 2 - 3, r 2 + 3] ! nat code"

lemma and_3_mod_4: "(x :: int) AND 3 = x mod 4"
  using take_bit_eq_mask [of 2 x] by (simp add: take_bit_eq_mod mask_eq_exp_minus_1)

definition short_delta :: "int \<Rightarrow> int" where
  "short_delta b = [- 1, 1, - 2, 2, - 3, 3] ! nat b"

lemma short_delta_nibble:
  assumes "0 \<le> b" and "b < 6"
  shows "(drop_bit (nat (4 * b)) (0x605142 :: int) AND 0xF) - 3 = short_delta b"
proof -
  have "b = 0 \<or> b = 1 \<or> b = 2 \<or> b = 3 \<or> b = 4 \<or> b = 5" using assms by presburger
  then show ?thesis by (elim disjE) (simp_all add: short_delta_def)
qed

lemma rfc_short_distance_split:
  "0 \<le> c \<Longrightarrow> c < 4 \<Longrightarrow> rfc_short_distance c r = r (c + 1)"
  "4 \<le> c \<Longrightarrow> c < 10 \<Longrightarrow> rfc_short_distance c r = r 1 + short_delta (c - 4)"
  "10 \<le> c \<Longrightarrow> c < 16 \<Longrightarrow> rfc_short_distance c r = r 2 + short_delta (c - 10)"
proof -
  assume "0 \<le> c" "c < 4"
  then have "c = 0 \<or> c = 1 \<or> c = 2 \<or> c = 3" by presburger
  then show "rfc_short_distance c r = r (c + 1)" by (elim disjE) (simp_all add: rfc_short_distance_def)
next
  assume "4 \<le> c" "c < 10"
  then have "c = 4 \<or> c = 5 \<or> c = 6 \<or> c = 7 \<or> c = 8 \<or> c = 9" by presburger
  then show "rfc_short_distance c r = r 1 + short_delta (c - 4)"
    by (elim disjE) (simp_all add: rfc_short_distance_def short_delta_def)
next
  assume "10 \<le> c" "c < 16"
  then have "c = 10 \<or> c = 11 \<or> c = 12 \<or> c = 13 \<or> c = 14 \<or> c = 15" by presburger
  then show "rfc_short_distance c r = r 2 + short_delta (c - 10)"
    by (elim disjE) (simp_all add: rfc_short_distance_def short_delta_def)
qed

text \<open>C37: \<open>TakeDistanceFromRingBuffer\<close> turns each of the sixteen short codes into the distance RFC
  7932, section 4 gives it, whatever the index of the ring; a sum that is not positive becomes the
  marker \<open>0x7FFFFFFF\<close>, which no limit allows.  Only code 0 moves the index, so that the store that
  follows leaves the ring as it was.\<close>

theorem short_distance_codes:
  assumes "length (d_dist_rb s) = 4" and "0 \<le> d_distance_code s" and "d_distance_code s < 16"
  shows "\<exists>s'. TakeDistanceFromRingBuffer s = Some s' \<and>
    d_distance_code s' =
      (let d = rfc_short_distance (d_distance_code s) (recent s)
       in if d_distance_code s < 4 \<or> 0 < d then d else 0x7FFFFFFF) \<and>
    d_dist_rb s' = d_dist_rb s \<and>
    d_dist_rb_idx s' = d_dist_rb_idx s - (if d_distance_code s = 0 then 1 else 0)"
proof -
  define c where "c = d_distance_code s"
  define i where "i = d_dist_rb_idx s"
  have g: "arr_geti (d_dist_rb s) (x mod 4) = Some (d_dist_rb s ! nat (x mod 4))" for x :: int
    using assms(1) by (simp add: arr_geti_def nat_less_iff)
  have m: "(i + 3) mod 4 = (i - 1) mod 4" "(i + 2) mod 4 = (i - 2) mod 4"
    "(i - (c - 3)) mod 4 = (i - (c + 1)) mod 4" by presburger+
  consider "0 \<le> c" "c < 4" | "4 \<le> c" "c < 10" | "10 \<le> c" "c < 16" using assms(2,3) c_def by linarith
  then show ?thesis
  proof cases
    case 1
    then show ?thesis using rfc_short_distance_split(1) [OF 1]
      by (auto simp: TakeDistanceFromRingBuffer_def Let_def c_def [symmetric] i_def [symmetric]
          and_3_mod_4 g m recent_def)
  next
    case 2
    then have b: "0 \<le> c - 4" "c - 4 < 6" by simp_all
    show ?thesis using 2 rfc_short_distance_split(2) [OF 2] short_delta_nibble [OF b]
      by (simp add: TakeDistanceFromRingBuffer_def Let_def c_def [symmetric] i_def [symmetric]
          and_3_mod_4 g m recent_def not_less)
  next
    case 3
    then have b: "0 \<le> c - 10" "c - 10 < 6" by simp_all
    show ?thesis using 3 rfc_short_distance_split(3) [OF 3] short_delta_nibble [OF b]
      by (simp add: TakeDistanceFromRingBuffer_def Let_def c_def [symmetric] i_def [symmetric]
          and_3_mod_4 g m recent_def not_less)
  qed
qed

lemma short_distance_codes_witness:
  "\<exists>s'. TakeDistanceFromRingBuffer (sample_state\<lparr>d_distance_code := 13\<rparr>) = Some s' \<and>
    d_distance_code s' =
      (let d = rfc_short_distance (d_distance_code (sample_state\<lparr>d_distance_code := 13\<rparr>))
                 (recent (sample_state\<lparr>d_distance_code := 13\<rparr>))
       in if d_distance_code (sample_state\<lparr>d_distance_code := 13\<rparr>) < 4 \<or> 0 < d then d else 0x7FFFFFFF) \<and>
    d_dist_rb s' = d_dist_rb (sample_state\<lparr>d_distance_code := 13\<rparr>) \<and>
    d_dist_rb_idx s' = d_dist_rb_idx (sample_state\<lparr>d_distance_code := 13\<rparr>) -
      (if d_distance_code (sample_state\<lparr>d_distance_code := 13\<rparr>) = 0 then 1 else 0)"
  by (rule short_distance_codes) (simp_all add: sample_state_def BrotliDecoderStateInit_def)

section \<open>The table of extra bits and offsets\<close>

text \<open>
  RFC 7932, section 4, for a distance code \<open>c\<close> from 16 on, with \<open>nd\<close> direct codes and \<open>np\<close> postfix bits:
  the number of extra bits, and the distance for extra bits that are zero.
\<close>

definition rfc_extra_bits :: "nat \<Rightarrow> nat \<Rightarrow> nat \<Rightarrow> nat" where
  "rfc_extra_bits np nd c = (if c < 16 + nd then 0 else 1 + (c - nd - 16) div 2 ^ (np + 1))"

definition rfc_offset :: "nat \<Rightarrow> nat \<Rightarrow> nat \<Rightarrow> int" where
  "rfc_offset np nd c =
     (if c < 16 + nd then int c - 15
      else let x = c - nd - 16; hcode = x div 2 ^ np; lcode = x mod 2 ^ np
           in ((2 + int (hcode mod 2)) * 2 ^ rfc_extra_bits np nd c - 4) * 2 ^ np + int lcode + int nd + 1)"

lemma dist_fill_spec:
  assumes "i + n \<le> length ex" and "i + n \<le> length off"
  shows "dist_fill n i bits base (ex, off) =
    Some (take i ex @ replicate n bits @ drop (i + n) ex,
          take i off @ map (\<lambda>j. base + of_nat j) [0..<n] @ drop (i + n) off)"
  using assms
proof (induction n)
  case 0
  then show ?case by (simp add: dist_fill_def)
next
  case (Suc n)
  have d: "dist_fill (Suc n) i bits base (ex, off) =
      Option.bind (dist_fill n i bits base (ex, off)) (\<lambda>(ex, off). do {
        ex \<leftarrow> arr_set ex (i + n) bits;
        off \<leftarrow> arr_set off (i + n) (base + of_nat n);
        Some (ex, off) })"
    by (simp add: dist_fill_def foldM_append) (cases "foldM (\<lambda>j (extra, offset). do {
       extra \<leftarrow> arr_set extra (i + j) bits;
       offset \<leftarrow> arr_set offset (i + j) (base + of_nat j);
       Some (extra, offset) }) [0..<n] (ex, off)"; simp add: split_beta)
  have upd: "(take i xs @ ys @ drop (i + n) xs)[i + n := y] = take i xs @ ys @ y # drop (i + Suc n) xs"
    if "length ys = n" "i + Suc n \<le> length xs" for xs ys :: "'b list" and y
    using that by (simp add: list_update_append Cons_nth_drop_Suc [symmetric])
  show ?case using Suc.prems
    by (simp add: d Suc.IH upd replicate_append_same [symmetric])
qed

lemma replaced_nth:
  assumes "i + length ys \<le> length xs" and "k < length xs"
  shows "(take i xs @ ys @ drop (i + length ys) xs) ! k
    = (if i \<le> k \<and> k < i + length ys then ys ! (k - i) else xs ! k)"
  using assms by (auto simp: nth_append min_def)

text \<open>The groups of \<open>2 ^ np\<close> codes, from group \<open>m\<close> on.\<close>

definition group_start :: "nat \<Rightarrow> nat \<Rightarrow> nat \<Rightarrow> nat" where
  "group_start np nd m = 16 + nd + m * 2 ^ np"

lemma group_start_Suc: "group_start np nd (Suc m) = group_start np nd m + 2 ^ np"
  by (simp add: group_start_def)

lemma group_code:
  assumes "j < 2 ^ np"
  shows "rfc_extra_bits np nd (group_start np nd m + j) = 1 + m div 2"
    and "rfc_offset np nd (group_start np nd m + j) =
      ((2 + int (m mod 2)) * 2 ^ (1 + m div 2) - 4) * 2 ^ np + int j + int nd + 1"
proof -
  have x: "group_start np nd m + j - nd - 16 = m * 2 ^ np + j" by (simp add: group_start_def)
  have d: "(m * 2 ^ np + j) div 2 ^ np = m" "(m * 2 ^ np + j) mod 2 ^ np = j" using assms by simp_all
  have "(m * 2 ^ np + j) div 2 ^ (np + 1) = m div 2"
    using div_mult2_eq [of "m * 2 ^ np + j" "2 ^ np" 2] d(1) by (simp add: mult.commute)
  then show *: "rfc_extra_bits np nd (group_start np nd m + j) = 1 + m div 2"
    by (simp add: rfc_extra_bits_def x) (simp add: group_start_def)
  show "rfc_offset np nd (group_start np nd m + j) =
      ((2 + int (m mod 2)) * 2 ^ (1 + m div 2) - 4) * 2 ^ np + int j + int nd + 1"
    unfolding rfc_offset_def Let_def x d * by (simp add: group_start_def)
qed

lemma dist_groups_spec:
  fixes ex :: "uint8 list" and off :: "uint32 list"
  assumes "unat npostfix = np" and "unat ndirect = nd" and "np \<le> 3" and "M \<le> 60"
    and "limit = group_start np nd M" and "limit \<le> length ex" and "limit \<le> length off" and "m \<le> M"
    and "bits = of_nat (1 + m div 2)" and "half = of_nat (m mod 2)"
  shows "\<exists>ex' off'. dist_groups limit npostfix ndirect (group_start np nd m) bits half (ex, off) = Some (ex', off') \<and>
    length ex' = length ex \<and> length off' = length off \<and>
    (\<forall>c < group_start np nd m. ex' ! c = ex ! c \<and> off' ! c = off ! c) \<and>
    (\<forall>c. group_start np nd m \<le> c \<longrightarrow> c < limit \<longrightarrow>
       ex' ! c = of_nat (rfc_extra_bits np nd c) \<and> off' ! c = of_int (rfc_offset np nd c))"
  using assms(6-)
proof (induction "M - m" arbitrary: m bits half ex off)
  case 0
  then have "m = M" by simp
  then show ?case using assms(5) by (simp add: dist_groups.simps)
next
  case (Suc n)
  define i where "i = group_start np nd m"
  have lt: "m < M" using Suc(2) by simp
  then have "group_start np nd m + 2 ^ np \<le> group_start np nd M"
    using mult_le_mono1 [of "Suc m" M "2 ^ np"] by (simp add: group_start_def)
  then have fit: "i + 2 ^ np \<le> limit" "i < limit"
    using assms(5) less_le_trans [of i "i + 2 ^ np" limit] by (simp_all add: i_def)
  define e where "e = 1 + m div 2"
  have e: "e \<le> 30" using lt assms(4) by (simp add: e_def)
  have bits: "unat bits = e" "bits < 32" "(ucast bits :: uint8) = of_nat e"
    using e unfolding Suc(6) [folded e_def]
    by (simp_all add: unat_of_nat take_bit_nat_eq_self word_less_nat_alt unsigned_ucast_eq word_unat_eq_iff)
  define base :: uint32 where "base = ndirect + push_bit np (push_bit e (2 + half) - 4) + 1"
  define ex1 where "ex1 = take i ex @ replicate (2 ^ np) (ucast bits) @ drop (i + 2 ^ np) ex"
  define off1 where "off1 = take i off @ map (\<lambda>j. base + of_nat j) [0..<2 ^ np] @ drop (i + 2 ^ np) off"
  have np32: "npostfix < 32" using assms(1,3) by (simp add: word_less_nat_alt)
  have step: "dist_groups limit npostfix ndirect i bits half (ex, off) =
      dist_groups limit npostfix ndirect (group_start np nd (Suc m)) (bits + half) (half XOR 1) (ex1, off1)"
    using fit Suc(3,4) bits(1,2) np32 assms(1)
    by (subst dist_groups.simps)
      (simp add: dist_fill_spec base_def ex1_def off1_def group_start_Suc i_def [symmetric])
  have len: "length ex1 = length ex" "length off1 = length off"
    using fit Suc(3,4) by (simp_all add: ex1_def off1_def)
  have half: "bits + half = of_nat (1 + Suc m div 2)" "half XOR 1 = of_nat (Suc m mod 2)"
  proof -
    have "1 + Suc m div 2 = 1 + m div 2 + m mod 2" by presburger
    then show "bits + half = of_nat (1 + Suc m div 2)" using Suc(6,7) by simp
    have "m mod 2 = 0 \<and> Suc m mod 2 = 1 \<or> m mod 2 = 1 \<and> Suc m mod 2 = 0" by presburger
    then show "half XOR 1 = of_nat (Suc m mod 2)" using Suc(7) by auto
  qed
  have new: "ex1 ! c = of_nat (rfc_extra_bits np nd c)" "off1 ! c = of_int (rfc_offset np nd c)"
    if "i \<le> c" "c < i + 2 ^ np" for c
  proof -
    define j where "j = c - i"
    have j: "c = group_start np nd m + j" "j < 2 ^ np"
      using that less_diff_conv2 [OF that(1)] by (simp_all add: j_def i_def add.commute)
    have g: "rfc_extra_bits np nd c = e" unfolding j(1) group_code(1) [OF j(2)] e_def ..
    have c: "c = i + j" using j(1) by (simp add: i_def)
    show "ex1 ! c = of_nat (rfc_extra_bits np nd c)"
      using replaced_nth [of i "replicate (2 ^ np) (ucast bits)" ex c] fit Suc(3) j(2) bits(3)
      unfolding g by (simp add: ex1_def c)
    have "off1 ! c = base + of_nat j"
      using replaced_nth [of i "map (\<lambda>j. base + of_nat j) [0..<2 ^ np]" off c] fit Suc(4) j(2)
      by (simp add: off1_def c)
    also have "base + of_nat j = of_int (rfc_offset np nd c)"
    proof -
      have "ndirect = of_nat nd" by (simp add: assms(2) [symmetric])
      then show ?thesis
        unfolding j(1) group_code(2) [OF j(2)]
        by (simp add: base_def push_bit_eq_mult Suc(7) e_def algebra_simps)
    qed
    finally show "off1 ! c = of_int (rfc_offset np nd c)" .
  qed
  have old: "ex1 ! c = ex ! c" "off1 ! c = off ! c" if "c < i" for c
    using that fit Suc(3,4) replaced_nth [of i "replicate (2 ^ np) (ucast bits)" ex c]
      replaced_nth [of i "map (\<lambda>j. base + of_nat j) [0..<2 ^ np]" off c] by (simp_all add: ex1_def off1_def)
  have n: "n = M - Suc m" using Suc(2) by simp
  obtain ex' off' where r: "dist_groups limit npostfix ndirect (group_start np nd (Suc m)) (bits + half)
        (half XOR 1) (ex1, off1) = Some (ex', off')" "length ex' = length ex" "length off' = length off"
      "\<forall>c < i + 2 ^ np. ex' ! c = ex1 ! c \<and> off' ! c = off1 ! c"
      "\<forall>c. i + 2 ^ np \<le> c \<longrightarrow> c < limit \<longrightarrow>
         ex' ! c = of_nat (rfc_extra_bits np nd c) \<and> off' ! c = of_int (rfc_offset np nd c)"
    using Suc(1) [OF n, of ex1 off1 "bits + half" "half XOR 1"] Suc(3,4) len half lt
    unfolding group_start_Suc i_def [symmetric] by auto
  have "ex' ! c = of_nat (rfc_extra_bits np nd c) \<and> off' ! c = of_int (rfc_offset np nd c)"
    if "i \<le> c" "c < limit" for c
    using that r(4,5) new by (cases "c < i + 2 ^ np") auto
  then show ?case using r old unfolding step [symmetric] i_def [symmetric] by auto
qed

lemma CalculateDistanceLut_spec:
  assumes "unat (d_distance_postfix_bits s) = np" and "np \<le> 3"
    and "unat (d_num_direct_distance_codes s) = nd"
    and "unat (alphabet_size_limit (d_distance_hgroup s)) = 16 + nd + M * 2 ^ np"
    and "16 + nd + M * 2 ^ np \<le> 544" and "M \<le> 60"
    and "length (b_dist_extra_bits (d_body s)) = 544" and "length (b_dist_offset (d_body s)) = 544"
  shows "\<exists>s'. CalculateDistanceLut s = Some s' \<and>
    length (b_dist_extra_bits (d_body s')) = 544 \<and> length (b_dist_offset (d_body s')) = 544 \<and>
    (\<forall>c. 16 \<le> c \<longrightarrow> c < 16 + nd + M * 2 ^ np \<longrightarrow>
       b_dist_extra_bits (d_body s') ! c = of_nat (rfc_extra_bits np nd c) \<and>
       b_dist_offset (d_body s') ! c = of_int (rfc_offset np nd c))"
proof -
  define ex where "ex = b_dist_extra_bits (d_body s)"
  define off where "off = b_dist_offset (d_body s)"
  define ex1 :: "uint8 list" where "ex1 = take 16 ex @ replicate nd 0 @ drop (16 + nd) ex"
  define off1 :: "uint32 list" where "off1 = take 16 off @ map (\<lambda>j. 1 + of_nat j) [0..<nd] @ drop (16 + nd) off"
  have len: "length ex = 544" "length off = 544" "length ex1 = 544" "length off1 = 544"
    using assms(5,7,8) by (simp_all add: ex_def off_def ex1_def off1_def)
  have direct: "dist_fill nd 16 0 1 (ex, off) = Some (ex1, off1)"
    using assms(5) len by (simp add: dist_fill_spec ex1_def off1_def)
  obtain ex' off' where r: "dist_groups (16 + nd + M * 2 ^ np) (d_distance_postfix_bits s)
        (d_num_direct_distance_codes s) (16 + nd) 1 0 (ex1, off1) = Some (ex', off')"
      "length ex' = 544" "length off' = 544"
      "\<forall>c < 16 + nd. ex' ! c = ex1 ! c \<and> off' ! c = off1 ! c"
      "\<forall>c. 16 + nd \<le> c \<longrightarrow> c < 16 + nd + M * 2 ^ np \<longrightarrow>
         ex' ! c = of_nat (rfc_extra_bits np nd c) \<and> off' ! c = of_int (rfc_offset np nd c)"
    using dist_groups_spec [OF assms(1,3,2,6) refl, where m = 0 and bits = 1 and half = 0 and ex = ex1 and off = off1]
      assms(5) len by (auto simp: group_start_def)
  have d: "ex1 ! c = of_nat (rfc_extra_bits np nd c) \<and> off1 ! c = of_int (rfc_offset np nd c)"
    if "16 \<le> c" "c < 16 + nd" for c
    using that replaced_nth [of 16 "replicate nd 0" ex c] assms(5) len
      replaced_nth [of 16 "map (\<lambda>j. 1 + of_nat j) [0..<nd]" off c]
    by (simp add: ex1_def off1_def rfc_extra_bits_def rfc_offset_def)
  have "npb < 32" if "npb = d_distance_postfix_bits s" for npb
    using that assms(1,2) by (simp add: word_less_nat_alt)
  then show ?thesis
    using direct r d assms(3,4)
    by (auto simp: CalculateDistanceLut_def ex_def [symmetric] off_def [symmetric] not_less)
      (metis not_less)+
qed

text \<open>C22: \<open>CalculateDistanceLut\<close> fills in, for every distance code of an alphabet that ends with a
  complete group, the number of extra bits and the distance for zero extra bits that RFC 7932, section
  4 defines, for any number of direct codes and postfix bits the header can set; it never writes
  outside its two tables of 544 entries.\<close>

theorem distance_table_correct:
  assumes "unat (d_distance_postfix_bits s) = np" and "np \<le> 3"
    and "unat (d_num_direct_distance_codes s) = nd"
    and "unat (alphabet_size_limit (d_distance_hgroup s)) = 16 + nd + M * 2 ^ np"
    and "16 + nd + M * 2 ^ np \<le> 544" and "M \<le> 60"
    and "length (b_dist_extra_bits (d_body s)) = 544" and "length (b_dist_offset (d_body s)) = 544"
  shows "\<exists>s'. CalculateDistanceLut s = Some s' \<and>
    length (b_dist_extra_bits (d_body s')) = 544 \<and> length (b_dist_offset (d_body s')) = 544 \<and>
    (\<forall>c. 16 \<le> c \<longrightarrow> c < 16 + nd + M * 2 ^ np \<longrightarrow>
       b_dist_extra_bits (d_body s') ! c = of_nat (rfc_extra_bits np nd c) \<and>
       b_dist_offset (d_body s') ! c = of_int (rfc_offset np nd c))"
  by (rule CalculateDistanceLut_spec [OF assms])

lemma distance_table_correct_witness:
  "\<exists>s'. CalculateDistanceLut (sample_state\<lparr>d_distance_postfix_bits := 2, d_num_direct_distance_codes := 12,
      d_distance_hgroup := zero_group\<lparr>alphabet_size_limit := 220\<rparr>\<rparr>) = Some s' \<and>
    length (b_dist_extra_bits (d_body s')) = 544 \<and> length (b_dist_offset (d_body s')) = 544 \<and>
    (\<forall>c. 16 \<le> c \<longrightarrow> c < 16 + 12 + 48 * 2 ^ 2 \<longrightarrow>
       b_dist_extra_bits (d_body s') ! c = of_nat (rfc_extra_bits 2 12 c) \<and>
       b_dist_offset (d_body s') ! c = of_int (rfc_offset 2 12 c))"
  by (rule distance_table_correct)
    (simp_all add: sample_state_def BrotliDecoderStateInit_def zero_state_def zero_body_def zero_group_def)

section \<open>The distance alphabet\<close>

text \<open>The largest distance a code from 16 on can stand for, as a number of arbitrary size.\<close>

definition rfc_max_distance :: "int \<Rightarrow> int \<Rightarrow> int \<Rightarrow> int" where
  "rfc_max_distance np nd c =
     (if c < 16 + nd then c - 15
      else let x = c - nd - 16; nbits = 1 + x div 2 ^ nat (np + 1)
           in ((2 + x div 2 ^ nat np mod 2) * 2 ^ nat nbits - 4 + 2 ^ nat nbits - 1) * 2 ^ nat np
              + x mod 2 ^ nat np + nd + 1)"

definition limit_ok :: "int \<Rightarrow> int \<Rightarrow> bool" where
  "limit_ok np nd =
     (case BrotliCalculateDistanceCodeLimit 0x7FFFFFFC (word_of_int np) (word_of_int nd) of
        None \<Rightarrow> False
      | Some l \<Rightarrow> let size = uint (dcl_max_alphabet_size l) in
          size \<le> 544 \<and> (size - 16 - nd) mod 2 ^ nat np = 0 \<and> size \<ge> 16 + nd \<and>
          uint (dcl_max_distance l) = rfc_max_distance np nd (size - 1) \<and>
          rfc_max_distance np nd (size - 1) \<le> 0x7FFFFFFC \<and>
          0x7FFFFFFC < rfc_max_distance np nd (size + 2 ^ nat np - 1))"

text \<open>The sixteen numbers of direct codes for each number of postfix bits.\<close>

lemma limit_ok_postfix:
  "list_all (\<lambda>k. limit_ok 0 (k * 2 ^ nat 0)) [0..15]"
  "list_all (\<lambda>k. limit_ok 1 (k * 2 ^ nat 1)) [0..15]"
  "list_all (\<lambda>k. limit_ok 2 (k * 2 ^ nat 2)) [0..15]"
  "list_all (\<lambda>k. limit_ok 3 (k * 2 ^ nat 3)) [0..15]"
  subgoal by code_simp
  subgoal by code_simp
  subgoal by code_simp
  subgoal by code_simp
  done

text \<open>C38: For all 64 combinations of postfix bits and direct codes that a header can set, the limited
  alphabet of a large-window stream fits the tables of 544 entries and ends with a complete group;
  its largest distance, which \<open>BrotliCalculateDistanceCodeLimit\<close> returns, is at most \<open>0x7FFFFFFC\<close>, and the
  last code of the next group would exceed that, so no smaller alphabet is forced on the stream.\<close>

theorem distance_code_limit_correct:
  "list_all (\<lambda>np. list_all (\<lambda>k. limit_ok np (k * 2 ^ nat np)) [0..15]) [0..3]"
proof -
  have "[0..3] = [0, 1, 2, 3 :: int]" by code_simp
  then show ?thesis using limit_ok_postfix by (simp only: list.pred_inject simp_thms)
qed

text \<open>The macro \<open>BROTLI_NUM_DISTANCE_SYMBOLS\<close> passes the number of direct codes where
  \<open>BROTLI_DISTANCE_ALPHABET_SIZE\<close> expects the number of postfix bits, so its shift is by 121 and
  undefined; with the arguments in their places the value is the 1128 its comment states.\<close>

lemma num_distance_symbols_arguments:
  "BROTLI_NUM_DISTANCE_SYMBOLS = None \<and> BROTLI_DISTANCE_ALPHABET_SIZE 3 120 62 = Some 1128"
  by (simp add: BROTLI_NUM_DISTANCE_SYMBOLS_def BROTLI_DISTANCE_ALPHABET_SIZE_def shl32_def)

end
