(* ===== verification/Context_Map_Properties.thy ===== *)
theory Context_Map_Properties
  imports Decode_Context_Map Decoder_Samples
begin

text \<open>
  The inverse move-to-front transform of context maps.  The code keeps its table of 256 bytes between
  calls and refreshes only the words that the call before may have changed; the abstract transform
  starts from the identity table every time.
\<close>

section \<open>The abstract transform\<close>

fun move_front :: "'a list \<Rightarrow> nat \<Rightarrow> 'a list" where
  "move_front T i = T ! i # take i T @ drop (Suc i) T"

fun imtf :: "uint8 list \<Rightarrow> uint8 list \<Rightarrow> uint8 list" where
  "imtf T [] = []"
| "imtf T (x # xs) = T ! unat x # imtf (move_front T (unat x)) xs"

fun imtf_table :: "uint8 list \<Rightarrow> uint8 list \<Rightarrow> uint8 list" where
  "imtf_table T [] = T"
| "imtf_table T (x # xs) = imtf_table (move_front T (unat x)) xs"

definition identity_table :: "uint8 list" where
  "identity_table = map of_nat [0..<256]"

declare move_front.simps [simp del]

lemma length_move_front [simp]: "i < length T \<Longrightarrow> length (move_front T i) = length T"
  by (simp add: move_front.simps)

lemma move_front_nth: "i < j \<Longrightarrow> j < length T \<Longrightarrow> move_front T i ! j = T ! j"
  by (auto simp: move_front.simps nth_append nth_Cons')

lemma unat_uint8 [simp]: "unat (x :: uint8) < 256"
  using unsigned_less [of x, where ?'a = nat] by simp

lemma unat_uint8_le [simp]: "unat (x :: uint8) \<le> 255"
  using unat_uint8 [of x] by linarith

lemma unat_ucast_uint8 [simp]: "unat (ucast (x :: uint8) :: uint32) = unat x"
proof -
  have "unat x < 2 ^ 32" by (rule less_trans [OF unat_uint8]) simp
  then show ?thesis by (simp add: unsigned_ucast_eq take_bit_nat_eq_self)
qed

lemma length_imtf [simp]: "length (imtf T xs) = length xs"
  by (induction T xs rule: imtf.induct) simp_all

lemma length_imtf_table [simp]: "length T = 256 \<Longrightarrow> length (imtf_table T xs) = 256"
  by (induction T xs rule: imtf_table.induct) simp_all

lemma imtf_snoc: "imtf T (xs @ [x]) = imtf T xs @ [imtf_table T xs ! unat x]"
  by (induction T xs rule: imtf.induct) simp_all

lemma imtf_table_snoc: "imtf_table T (xs @ [x]) = move_front (imtf_table T xs) (unat x)"
  by (induction T xs rule: imtf_table.induct) simp_all

section \<open>The loops\<close>

lemma mtf_shift_spec:
  assumes "5 + index \<le> length mtf"
  shows "mtf_shift mtf index =
    Some (take 4 mtf @ mtf ! 3 # take index (drop 4 mtf) @ drop (5 + index) mtf)"
  using assms
proof (induction index arbitrary: mtf)
  case 0
  then show ?case by (simp add: upd_conv_take_nth_drop)
next
  case (Suc n)
  define mtf1 where "mtf1 = mtf[5 + n := mtf ! (4 + n)]"
  have d: "drop (5 + n) mtf1 = mtf ! (4 + n) # drop (6 + n) mtf"
    using Suc.prems by (simp add: mtf1_def drop_update_swap Cons_nth_drop_Suc [symmetric])
  have t: "take n (drop 4 mtf1) @ [mtf ! (4 + n)] = take (Suc n) (drop 4 mtf)"
    using Suc.prems by (simp add: mtf1_def take_Suc_conv_app_nth drop_update_swap)
  have "mtf_shift mtf (Suc n) = mtf_shift mtf1 n" using Suc.prems by (simp add: mtf1_def)
  also have "\<dots> = Some (take 4 mtf1 @ mtf1 ! 3 # take n (drop 4 mtf1) @ drop (5 + n) mtf1)"
    by (rule Suc.IH) (use Suc.prems in \<open>simp add: mtf1_def\<close>)
  also have "\<dots> = Some (take 4 mtf @ mtf ! 3 # take (Suc n) (drop 4 mtf) @ drop (6 + n) mtf)"
    unfolding d t [symmetric] by (simp add: mtf1_def)
  finally show ?case by simp
qed

lemma mtf_patterns:
  "list_all (\<lambda>i. let p = 0x03020100 + word_of_int i * (0x04040404 :: uint32) in
     [ucast p, ucast (drop_bit 8 p), ucast (drop_bit 16 p), ucast (drop_bit 24 p)]
       = map (\<lambda>k. word_of_int (4 * i + k) :: uint8) [0..3]) [0..63]"
  by code_simp

lemma mtf_pattern_bytes:
  assumes "i \<le> 63" and "k < 4" and "p = 0x03020100 + of_nat i * (0x04040404 :: uint32)"
  shows "[ucast p, ucast (drop_bit 8 p), ucast (drop_bit 16 p), ucast (drop_bit 24 p)] ! k
    = (of_nat (4 * i + k) :: uint8)"
proof -
  have "int i \<in> set [0..63]" using assms(1) by simp
  from bspec [OF mtf_patterns [unfolded list_all_iff Let_def] this]
  have "[ucast p, ucast (drop_bit 8 p), ucast (drop_bit 16 p), ucast (drop_bit 24 p)]
      = map (\<lambda>k. word_of_int (4 * int i + k) :: uint8) [0..3]"
    unfolding assms(3) of_int_of_nat_eq .
  then have "[ucast p, ucast (drop_bit 8 p), ucast (drop_bit 16 p), ucast (drop_bit 24 p)] ! k
      = (word_of_int (4 * int i + int k) :: uint8)"
    using assms(2) by (simp only: nth_map length_upto nth_upto) simp
  then show ?thesis by simp
qed

definition mtf_table :: "uint8 list \<Rightarrow> nat \<Rightarrow> uint8" where
  "mtf_table mtf j = mtf ! (4 + j)"

lemma mtf_put_word_spec:
  assumes "length mtf = 260" and "i \<le> 63" and "p = 0x03020100 + of_nat i * 0x04040404"
  shows "\<exists>mtf'. mtf_put_word mtf i p = Some mtf' \<and> length mtf' = 260 \<and>
    (\<forall>j < 256. mtf_table mtf' j = (if 4 * i \<le> j \<and> j < 4 * i + 4 then of_nat j else mtf_table mtf j))"
proof -
  define bs :: "uint8 list" where "bs = [ucast p, ucast (drop_bit 8 p), ucast (drop_bit 16 p), ucast (drop_bit 24 p)]"
  obtain mtf' where c: "arr_copy mtf (4 + 4 * i) bs 0 4 = Some mtf'"
    using assms(1,2) by (auto simp: arr_copy_def bs_def)
  have l: "length mtf' = 260" using arr_copy_length [OF c] assms(1) by simp
  have "mtf' ! (4 + j) = (if 4 * i \<le> j \<and> j < 4 * i + 4 then of_nat j else mtf ! (4 + j))" if j: "j < 256" for j
  proof (cases "4 * i \<le> j \<and> j < 4 * i + 4")
    case True
    define k where "k = j - 4 * i"
    have k: "k < 4" "j = 4 * i + k" using True by (auto simp: k_def)
    have "mtf' ! (4 + j) = bs ! k"
      using arr_copy_nth [OF c, of "4 + j"] True j assms(1) by (simp add: k_def)
    then show ?thesis using mtf_pattern_bytes [OF assms(2) k(1) assms(3)] True k(2) by (simp add: bs_def)
  next
    case False
    then show ?thesis using arr_copy_nth [OF c, of "4 + j"] j assms(1) by auto
  qed
  then show ?thesis using c l by (simp add: mtf_put_word_def bs_def mtf_table_def)
qed

lemma mtf_init_loop_spec:
  assumes "length mtf = 260" and "1 \<le> i" and "i \<le> 63" and "ub \<le> 63"
    and "pattern = 0x03020100 + of_nat (i - 1) * 0x04040404"
  shows "\<exists>mtf'. mtf_init_loop mtf i pattern ub = Some mtf' \<and> length mtf' = 260 \<and>
    (\<forall>j < 256. mtf_table mtf' j =
       (if 4 * i \<le> j \<and> j < 4 * (max i ub + 1) then of_nat j else mtf_table mtf j))"
  using assms
proof (induction "ub - i" arbitrary: i mtf pattern)
  case 0
  have p: "pattern + 0x04040404 = 0x03020100 + of_nat i * 0x04040404"
    using 0 by (simp add: of_nat_diff algebra_simps)
  obtain m1 where "mtf_put_word mtf i (pattern + 0x04040404) = Some m1" "length m1 = 260"
    "\<forall>j < 256. mtf_table m1 j = (if 4 * i \<le> j \<and> j < 4 * i + 4 then of_nat j else mtf_table mtf j)"
    using mtf_put_word_spec [OF 0(2,4) p] by blast
  moreover have "\<not> i + 1 \<le> ub" "max i ub = i" using 0 by simp_all
  ultimately show ?case by (subst mtf_init_loop.simps) (simp add: add.commute)
next
  case (Suc n)
  have p: "pattern + 0x04040404 = 0x03020100 + of_nat i * 0x04040404"
    using Suc by (simp add: of_nat_diff algebra_simps)
  obtain m1 where m1: "mtf_put_word mtf i (pattern + 0x04040404) = Some m1" "length m1 = 260"
    "\<forall>j < 256. mtf_table m1 j = (if 4 * i \<le> j \<and> j < 4 * i + 4 then of_nat j else mtf_table mtf j)"
    using mtf_put_word_spec [OF Suc(3,5) p] by blast
  have lt: "i + 1 \<le> ub" "n = ub - (i + 1)" "1 \<le> i + 1" "i + 1 \<le> 63" using Suc(2,6) by simp_all
  have p1: "pattern + 0x04040404 = 0x03020100 + of_nat (i + 1 - 1) * 0x04040404" using p by simp
  obtain m2 where m2: "mtf_init_loop m1 (i + 1) (pattern + 0x04040404) ub = Some m2" "length m2 = 260"
    "\<forall>j < 256. mtf_table m2 j =
       (if 4 * (i + 1) \<le> j \<and> j < 4 * (max (i + 1) ub + 1) then of_nat j else mtf_table m1 j)"
    using Suc(1) [OF lt(2) m1(2) lt(3,4) Suc(6) p1] by blast
  have "mtf_init_loop mtf i pattern ub = Some m2"
    using m1(1) m2(1) lt(1) by (subst mtf_init_loop.simps) simp
  moreover have "mtf_table m2 j =
      (if 4 * i \<le> j \<and> j < 4 * (max i ub + 1) then of_nat j else mtf_table mtf j)" if "j < 256" for j
    using m1(3) m2(3) lt(1) that by auto
  ultimately show ?case using m2(2) by blast
qed

section \<open>The transform\<close>

text \<open>The invariant of the kept table: beyond the words to refresh it is the identity.\<close>

definition mtf_ok :: "BrotliDecoderState \<Rightarrow> bool" where
  "mtf_ok s \<longleftrightarrow> length (d_mtf s) = 260 \<and> d_mtf_upper_bound s \<le> 63 \<and>
     (\<forall>j < 256. 4 * (unat (d_mtf_upper_bound s) + 1) \<le> j \<longrightarrow> mtf_table (d_mtf s) j = of_nat j)"

lemma identity_table_nth: "j < 256 \<Longrightarrow> identity_table ! j = of_nat j"
  by (simp add: identity_table_def)

lemma length_identity_table [simp]: "length identity_table = 256"
  by (simp add: identity_table_def)

lemma mtf_init_spec:
  assumes "mtf_ok s"
  shows "\<exists>m0 m1. mtf_put_word (d_mtf s) 0 0x03020100 = Some m0 \<and>
    mtf_init_loop m0 1 0x03020100 (unat (d_mtf_upper_bound s)) = Some m1 \<and>
    length m1 = 260 \<and> drop 4 m1 = identity_table"
proof -
  have s: "length (d_mtf s) = 260" "unat (d_mtf_upper_bound s) \<le> 63"
    "\<And>j. j < 256 \<Longrightarrow> 4 * (unat (d_mtf_upper_bound s) + 1) \<le> j \<Longrightarrow> mtf_table (d_mtf s) j = of_nat j"
    using assms by (auto simp: mtf_ok_def word_le_nat_alt)
  obtain m0 where m0: "mtf_put_word (d_mtf s) 0 0x03020100 = Some m0" "length m0 = 260"
    "\<forall>j < 256. mtf_table m0 j = (if j < 4 then of_nat j else mtf_table (d_mtf s) j)"
    using mtf_put_word_spec [OF s(1), of 0 "0x03020100"] by auto
  obtain m1 where m1: "mtf_init_loop m0 1 0x03020100 (unat (d_mtf_upper_bound s)) = Some m1" "length m1 = 260"
    "\<forall>j < 256. mtf_table m1 j = (if 4 \<le> j \<and> j < 4 * (max 1 (unat (d_mtf_upper_bound s)) + 1)
       then of_nat j else mtf_table m0 j)"
    using mtf_init_loop_spec [OF m0(2), of 1 "unat (d_mtf_upper_bound s)" "0x03020100"] s(2) by auto
  have "mtf_table m1 j = of_nat j" if "j < 256" for j
    using m1(3) m0(3) s(3) [of j] that by (auto simp: not_le not_less)
  then have "drop 4 m1 = identity_table"
    using m1(2) by (intro nth_equalityI) (simp_all add: mtf_table_def identity_table_nth)
  then show ?thesis using m0(1) m1(1,2) by blast
qed

lemma imtf_table_beyond:
  assumes "\<forall>x \<in> set xs. unat x < j" and "j < 256" and "length T = 256"
  shows "imtf_table T xs ! j = T ! j"
  using assms by (induction T xs rule: imtf_table.induct) (simp_all add: move_front_nth)

lemma ucast_or_less_256: "ub < 256 \<Longrightarrow> ub OR ucast (x :: uint8) < (256 :: uint32)"
proof -
  have iff: "w < 256 \<longleftrightarrow> take_bit 8 w = w" for w :: uint32
    by (simp add: word_less_nat_alt word_unat_eq_iff unsigned_take_bit_eq take_bit_nat_eq_self_iff)
  have "take_bit 8 (ucast x :: uint32) = ucast x"
    by (simp add: iff [symmetric] word_less_nat_alt)
  then show "ub < 256 \<Longrightarrow> ub OR ucast x < 256" by (simp add: iff take_bit_or)
qed

definition mtf_inv :: "uint8 list \<Rightarrow> nat \<Rightarrow> uint8 list \<times> uint32 \<times> uint8 list \<Rightarrow> bool" where
  "mtf_inv v0 i = (\<lambda>(v, ub, mtf).
     v = imtf identity_table (take i v0) @ drop i v0 \<and> length mtf = 260 \<and>
     drop 4 mtf = imtf_table identity_table (take i v0) \<and> ub < 256 \<and>
     (\<forall>x \<in> set (take i v0). ucast x \<le> ub))"

lemma mtf_step_spec:
  assumes "mtf_inv v0 i st" and "i < length v0"
  shows "\<exists>st'. mtf_step i st = Some st' \<and> mtf_inv v0 (Suc i) st'"
proof -
  obtain v ub mtf where st: "st = (v, ub, mtf)" by (cases st)
  have inv: "v = imtf identity_table (take i v0) @ drop i v0" "length mtf = 260"
    "drop 4 mtf = imtf_table identity_table (take i v0)" "ub < 256" "\<forall>x \<in> set (take i v0). ucast x \<le> ub"
    using assms(1) by (simp_all add: st mtf_inv_def)
  define x where "x = v0 ! i"
  define T where "T = imtf_table identity_table (take i v0)"
  have x: "unat x < 256" "4 + unat x < 260" using unat_uint8 [of x] by simp_all
  have t: "take (Suc i) v0 = take i v0 @ [x]" "drop i v0 = x # drop (Suc i) v0"
    using assms(2) by (simp_all add: x_def take_Suc_conv_app_nth Cons_nth_drop_Suc)
  have li: "length (imtf identity_table (take i v0)) = i" using assms(2) by simp
  have vi: "arr_get v i = Some x" using assms(2) by (simp add: inv(1) arr_get_def nth_append li t(2))
  have val: "mtf ! (4 + unat x) = T ! unat x" using inv(2,3) x by (simp add: T_def flip: nth_drop)
  define m1 where "m1 = mtf[3 := T ! unat x]"
  define m2 where "m2 = take 4 m1 @ m1 ! 3 # take (unat x) (drop 4 m1) @ drop (5 + unat x) m1"
  have sh: "mtf_shift m1 (unat x) = Some m2"
    unfolding m2_def by (rule mtf_shift_spec) (use inv(2) x in \<open>simp add: m1_def\<close>)
  have d4: "drop 4 m1 = T" using inv(3) by (simp add: m1_def T_def)
  have "drop (5 + unat x) m1 = drop (Suc (unat x)) T"
    by (simp add: d4 [symmetric])
  moreover have "length T = 256" by (simp add: T_def)
  moreover have "min 256 (unat x) + (255 - unat x) = 255" using x(1) by linarith
  ultimately have m2: "drop 4 m2 = move_front T (unat x)" "length m2 = 260"
    using inv(2) d4 by (simp_all add: m2_def m1_def move_front.simps)
  have v': "v[i := T ! unat x] = imtf identity_table (take (Suc i) v0) @ drop (Suc i) v0"
    unfolding inv(1) t(1) imtf_snoc using assms(2) by (simp add: list_update_append min_def t(2) T_def)
  have "mtf_step i st = Some (v[i := T ! unat x], ub OR ucast x, m2)"
    using vi val sh inv(1,2) x assms(2) by (simp add: st mtf_step_def m1_def li)
  moreover have "mtf_inv v0 (Suc i) (v[i := T ! unat x], ub OR ucast x, m2)"
    using inv(4,5) m2 v' ucast_or_less_256 [OF inv(4)]
    by (auto simp: mtf_inv_def t(1) imtf_table_snoc T_def le_word_or1 intro: order_trans le_word_or2)
  ultimately show ?thesis by blast
qed

lemma InverseMoveToFrontTransform_spec:
  assumes "mtf_ok s" and "v_len \<le> length v"
  shows "\<exists>s' m u. InverseMoveToFrontTransform v v_len s =
      Some (imtf identity_table (take v_len v) @ drop v_len v, s') \<and>
    s' = s\<lparr>d_mtf := m, d_mtf_upper_bound := u\<rparr> \<and> mtf_ok s'"
proof -
  obtain m0 m1 where m: "mtf_put_word (d_mtf s) 0 0x03020100 = Some m0"
    "mtf_init_loop m0 1 0x03020100 (unat (d_mtf_upper_bound s)) = Some m1"
    "length m1 = 260" "drop 4 m1 = identity_table"
    using mtf_init_spec [OF assms(1)] by blast
  have "mtf_inv v 0 (v, 0, m1)" using m by (simp add: mtf_inv_def)
  then obtain st where st: "foldM mtf_step [0..<v_len] (v, 0, m1) = Some st" "mtf_inv v v_len st"
    using foldM_upt [of 0 v_len "mtf_inv v" "(v, 0, m1)" mtf_step] mtf_step_spec [of v] assms(2)
    by (auto simp: less_le_trans)
  obtain v' ub mtf where st': "st = (v', ub, mtf)" by (cases st)
  have r: "v' = imtf identity_table (take v_len v) @ drop v_len v" "length mtf = 260"
    "drop 4 mtf = imtf_table identity_table (take v_len v)" "ub < 256" "\<forall>x \<in> set (take v_len v). ucast x \<le> ub"
    using st(2) by (simp_all add: st' mtf_inv_def)
  have u: "unat (drop_bit 2 ub) = unat ub div 4" by (simp add: drop_bit_eq_div unat_div)
  have b: "unat ub < 256" using r(4) by (simp add: word_less_nat_alt)
  have "mtf_ok (s\<lparr>d_mtf := mtf, d_mtf_upper_bound := drop_bit 2 ub\<rparr>)"
  proof -
    have "mtf_table mtf j = of_nat j" if j: "j < 256" "4 * (unat ub div 4 + 1) \<le> j" for j
    proof -
      have "unat ub < j" using j(2) by presburger
      moreover have "unat x \<le> unat ub" if "x \<in> set (take v_len v)" for x
        using r(5) that by (auto simp: word_le_nat_alt)
      ultimately have "\<forall>x \<in> set (take v_len v). unat x < j" by (meson le_less_trans)
      from imtf_table_beyond [OF this j(1)] have "drop 4 mtf ! j = of_nat j"
        using j(1) by (simp add: r(3) identity_table_nth)
      then show ?thesis using r(2) j(1) by (simp add: mtf_table_def)
    qed
    then show ?thesis using r(2) b by (simp add: mtf_ok_def u word_le_nat_alt)
  qed
  moreover have "InverseMoveToFrontTransform v v_len s =
      Some (v', s\<lparr>d_mtf := mtf, d_mtf_upper_bound := drop_bit 2 ub\<rparr>)"
    using m st(1) by (simp add: InverseMoveToFrontTransform_def Let_def st')
  ultimately show ?thesis using r(1) by blast
qed

text \<open>C23: \<open>InverseMoveToFrontTransform\<close> is the textbook transform started from the identity table,
  applied to the first \<open>v_len\<close> bytes, although the code keeps its table between calls, sets it up
  four bytes at a time and only as far as the call before touched it; the invariant that makes this
  sound is kept, and nothing else of the state changes.\<close>

theorem inverse_move_to_front_correct:
  assumes "mtf_ok s" and "v_len \<le> length v"
  shows "\<exists>s' m u. InverseMoveToFrontTransform v v_len s =
      Some (imtf identity_table (take v_len v) @ drop v_len v, s') \<and>
    s' = s\<lparr>d_mtf := m, d_mtf_upper_bound := u\<rparr> \<and> mtf_ok s'"
  by (rule InverseMoveToFrontTransform_spec [OF assms])

lemma sample_mtf_ok: "mtf_ok sample_state"
  by (simp add: mtf_ok_def sample_state_def BrotliDecoderStateInit_def zero_state_def)

lemma inverse_move_to_front_correct_witness:
  "\<exists>s' m u. InverseMoveToFrontTransform [3, 0, 1, 3, 7] 4 sample_state =
      Some (imtf identity_table (take 4 [3, 0, 1, 3, 7]) @ drop 4 [3, 0, 1, 3, 7], s') \<and>
    s' = sample_state\<lparr>d_mtf := m, d_mtf_upper_bound := u\<rparr> \<and> mtf_ok s'"
  by (rule inverse_move_to_front_correct [OF sample_mtf_ok]) simp

end
