(* ===== verification/Ring_Buffer_Properties.thy ===== *)
theory Ring_Buffer_Properties
  imports Decode_Stream Decoder_Samples
begin

text \<open>
  The ring buffer: what is written to the client is exactly what was decoded, in order, whatever the
  sizes of the client's buffers.  \<open>ring_ok\<close> is the invariant of the buffer, \<open>ring_unwritten\<close> the decoded
  bytes the client has not got yet, including those beyond the end of the buffer.
\<close>

section \<open>The invariant and the abstract content\<close>

definition ring_ok :: "BrotliDecoderState \<Rightarrow> nat \<Rightarrow> uint8 list \<Rightarrow> nat \<Rightarrow> bool" where
  "ring_ok s R rb off \<longleftrightarrow>
     d_ringbuffer s = Some rb \<and> length rb = R + 42 \<and> (\<exists>k. R = 2 ^ k \<and> 10 \<le> k \<and> k \<le> 30) \<and>
     d_ringbuffer_size s = int R \<and> d_ringbuffer_mask s = int R - 1 \<and> d_ringbuffer_end s = int R \<and>
     0 \<le> d_pos s \<and> d_pos s \<le> int R + 42 \<and>
     (unat (d_rb_roundtrips s) + 2) * R < 2 ^ 64 \<and>
     unat (d_partial_pos_out s) = unat (d_rb_roundtrips s) * R + off \<and>
     int off \<le> d_pos s \<and> off \<le> R"

definition ring_unwritten :: "BrotliDecoderState \<Rightarrow> nat \<Rightarrow> uint8 list \<Rightarrow> nat \<Rightarrow> uint8 list" where
  "ring_unwritten s R rb off =
     drop off (take (nat (d_pos s)) (if d_should_wrap_ringbuffer s then drop R rb else rb))"

lemma ring_okD:
  assumes "ring_ok s R rb off"
  shows "d_ringbuffer s = Some rb" "length rb = R + 42" "1024 \<le> R" "R \<le> 2 ^ 30"
    "d_ringbuffer_size s = int R" "d_ringbuffer_mask s = int R - 1" "d_ringbuffer_end s = int R"
    "0 \<le> d_pos s" "d_pos s \<le> int R + 42" "int off \<le> d_pos s" "off \<le> R"
    "unat (d_partial_pos_out s) = unat (d_rb_roundtrips s) * R + off"
    "(unat (d_rb_roundtrips s) + 2) * R < 2 ^ 64"
proof -
  obtain k where k: "R = 2 ^ k" "10 \<le> k" "k \<le> 30" using assms by (auto simp: ring_ok_def)
  show "1024 \<le> R" "R \<le> 2 ^ 30"
    using power_increasing [OF k(2), of "2 :: nat"] power_increasing [OF k(3), of "2 :: nat"] k(1) by simp_all
qed (use assms in \<open>auto simp: ring_ok_def\<close>)

lemma unat_word_of_int64: "0 \<le> x \<Longrightarrow> x < 2 ^ 64 \<Longrightarrow> unat (word_of_int x :: uint64) = nat x"
  by (simp add: unsigned_of_int nat_take_bit_eq take_bit_nat_eq_self)

lemma UnwrittenBytes_spec:
  assumes "ring_ok s R rb off"
  shows "unat (UnwrittenBytes s True) = min (nat (d_pos s)) R - off"
proof -
  note ok = ring_okD [OF assms]
  define P where "P = min (nat (d_pos s)) R"
  have P: "off \<le> P" "P \<le> R" using ok(8,10,11) by (auto simp: P_def)
  have w: "(if True \<and> d_ringbuffer_size s < d_pos s then word_of_int (d_ringbuffer_size s)
      else word_of_int (d_pos s) :: uint64) = of_nat P"
    using ok(5,8) by (auto simp: P_def min_def nat_less_iff)
  have sz: "(word_of_int (d_ringbuffer_size s) :: uint64) = of_nat R" using ok(5) by simp
  have lt: "unat (d_rb_roundtrips s) * R + P < 2 ^ 64" using ok(13) P by (simp add: algebra_simps)
  have r: "d_rb_roundtrips s * of_nat R + of_nat P = of_nat (unat (d_rb_roundtrips s) * R + P)" by simp
  have p: "d_partial_pos_out s = of_nat (unat (d_rb_roundtrips s) * R + off)"
    unfolding ok(12) [symmetric] by simp
  have "UnwrittenBytes s True = of_nat (unat (d_rb_roundtrips s) * R + P) - of_nat (unat (d_rb_roundtrips s) * R + off)"
    unfolding UnwrittenBytes_def Let_def w unfolding sz r p ..
  also have "\<dots> = of_nat (P - off)" using P by (simp add: of_nat_diff)
  finally have "UnwrittenBytes s True = of_nat (P - off)" .
  moreover have "P - off < 2 ^ 64" using lt by simp
  ultimately show ?thesis by (simp add: P_def unat_of_nat take_bit_nat_eq_self)
qed

lemma ring_start:
  assumes "ring_ok s R rb off"
  shows "unat (d_partial_pos_out s AND word_of_int (d_ringbuffer_mask s)) = off mod R"
proof -
  note ok = ring_okD [OF assms]
  obtain k where k: "R = 2 ^ k" "k \<le> 30" using assms by (auto simp: ring_ok_def)
  have "word_of_int (d_ringbuffer_mask s) = (mask k :: uint64)"
    using ok(6) k(1) by (simp add: mask_eq_exp_minus_1)
  then have "d_partial_pos_out s AND word_of_int (d_ringbuffer_mask s) = take_bit k (d_partial_pos_out s)"
    by (simp add: take_bit_eq_mask)
  then have "unat (d_partial_pos_out s AND word_of_int (d_ringbuffer_mask s)) = take_bit k (unat (d_partial_pos_out s))"
    by (simp only: unsigned_take_bit_eq)
  then have "unat (d_partial_pos_out s AND word_of_int (d_ringbuffer_mask s)) = unat (d_partial_pos_out s) mod R"
    by (simp only: take_bit_eq_mod k(1))
  then show ?thesis using ok(12) by simp
qed

section \<open>Writing\<close>

text \<open>
  What \<open>WriteRingBuffer\<close> does to a consistent buffer; \<open>wraps\<close> says whether the whole buffer has been
  written and starts anew.
\<close>

definition ring_wraps :: "BrotliDecoderState \<Rightarrow> nat \<Rightarrow> nat \<Rightarrow> nat \<Rightarrow> bool" where
  "ring_wraps s R off n \<longleftrightarrow> n = min (nat (d_pos s)) R - off \<and> int R = 2 ^ unat (d_window_bits s) \<and> int R \<le> d_pos s"

lemma WriteRingBuffer_run:
  fixes out :: output_io
  assumes ok: "ring_ok s R rb off" and m: "0 \<le> d_meta_block_remaining_len s"
    and w: "d_window_bits s < 31"
  defines "n \<equiv> min (available_out out) (min (nat (d_pos s)) R - off)"
  defines "s1 \<equiv> s\<lparr>d_partial_pos_out := d_partial_pos_out s + of_nat n\<rparr>"
  assumes put: "put_output rb (off mod R) n (next_out out) = Some p"
  shows "WriteRingBuffer s out force = Some
    (if n < min (nat (d_pos s)) R - off \<and> (int R = 2 ^ unat (d_window_bits s) \<or> force)
     then BROTLI_DECODER_NEEDS_MORE_OUTPUT else BROTLI_DECODER_SUCCESS,
     if ring_wraps s R off n
     then s1\<lparr>d_pos := d_pos s - int R, d_rb_roundtrips := d_rb_roundtrips s + 1,
             d_should_wrap_ringbuffer := (d_pos s \<noteq> int R)\<rparr>
     else s1,
     out\<lparr>available_out := available_out out - n, next_out := p,
         total_out := map_option (\<lambda>_. d_partial_pos_out s + of_nat n) (total_out out)\<rparr>)"
proof -
  note k = ring_okD [OF ok]
  have nle: "n \<le> min (nat (d_pos s)) R - off" by (simp add: n_def)
  have ws: "window_size s1 = Some (2 ^ unat (d_window_bits s))" "window_size s = Some (2 ^ unat (d_window_bits s))"
    using w by (simp_all add: window_size_def s1_def)
  have lt: "n < min (nat (d_pos s)) R - off \<or> n = min (nat (d_pos s)) R - off" using nle by linarith
  have t: "(case total_out out of None \<Rightarrow> None | Some _ \<Rightarrow> Some x) = map_option (\<lambda>_. x) (total_out out)" for x
    by (cases "total_out out") simp_all
  define tw where "tw = min (nat (d_pos s)) R - off"
  have n: "min (available_out out) tw = n" by (simp add: n_def tw_def)
  have uw: "unat (UnwrittenBytes s True) = tw" unfolding tw_def by (rule UnwrittenBytes_spec [OF ok])
  have num: "min (available_out out) (unat (UnwrittenBytes s True)) = n" unfolding uw n ..
  note run = WriteRingBuffer_def Let_def ring_start [OF ok] uw num n
  consider "n < tw" | "n = tw" "ring_wraps s R off n" | "n = tw" "\<not> ring_wraps s R off n"
    using nle by (fold tw_def) linarith
  then show ?thesis
  proof cases
    case 1
    then have "\<not> ring_wraps s R off n" by (simp add: ring_wraps_def tw_def)
    then show ?thesis unfolding tw_def [symmetric] using 1 put w m k(1,5) by (simp add: run s1_def t window_size_def)
  next
    case 2
    have "int R = 2 ^ unat (d_window_bits s)" "int R \<le> d_pos s" using 2(2) unfolding ring_wraps_def by blast+
    then show ?thesis unfolding tw_def [symmetric] using 2 put w m k(1,5) by (simp add: run s1_def t window_size_def)
  next
    case 3
    have "\<not> (int R = 2 ^ unat (d_window_bits s) \<and> int R \<le> d_pos s)"
      using 3 unfolding ring_wraps_def tw_def by blast
    then show ?thesis unfolding tw_def [symmetric] using 3 put w m k(1,5) by (auto simp: run s1_def t window_size_def)
  qed
qed

lemma put_output_bytes:
  assumes "ring_ok s R rb off" and "n \<le> min (nat (d_pos s)) R - off"
  shows "put_output rb (off mod R) n (Out_Bytes bs) = Some (Out_Bytes (bs @ take n (drop off rb)))"
proof (cases "off = R")
  case True
  then have "n = 0" using assms(2) by simp
  then show ?thesis using ring_okD(2) [OF assms(1)] by (simp add: put_output_def True)
next
  case False
  then have "off mod R = off" "off + n \<le> length rb" using ring_okD(2,11) [OF assms(1)] assms(2) by simp_all
  then show ?thesis by (simp add: put_output_def)
qed

text \<open>The two kinds of client: with a buffer, and one that is handed a slice of the ring buffer.\<close>

lemma WriteRingBuffer_bytes:
  fixes out :: output_io
  assumes ok: "ring_ok s R rb off" and "0 \<le> d_meta_block_remaining_len s"
    and "d_window_bits s < 31" and o: "next_out out = Out_Bytes bs"
  defines "n \<equiv> min (available_out out) (min (nat (d_pos s)) R - off)"
  defines "s1 \<equiv> s\<lparr>d_partial_pos_out := d_partial_pos_out s + of_nat n\<rparr>"
  shows "WriteRingBuffer s out force = Some
    (if n < min (nat (d_pos s)) R - off \<and> (int R = 2 ^ unat (d_window_bits s) \<or> force)
     then BROTLI_DECODER_NEEDS_MORE_OUTPUT else BROTLI_DECODER_SUCCESS,
     if ring_wraps s R off n
     then s1\<lparr>d_pos := d_pos s - int R, d_rb_roundtrips := d_rb_roundtrips s + 1,
             d_should_wrap_ringbuffer := (d_pos s \<noteq> int R)\<rparr>
     else s1,
     out\<lparr>available_out := available_out out - n, next_out := Out_Bytes (bs @ take n (drop off rb)),
         total_out := map_option (\<lambda>_. d_partial_pos_out s + of_nat n) (total_out out)\<rparr>)"
proof -
  have "n \<le> min (nat (d_pos s)) R - off" by (simp add: n_def)
  then have "put_output rb (off mod R) n (next_out out) = Some (Out_Bytes (bs @ take n (drop off rb)))"
    unfolding o by (rule put_output_bytes [OF ok])
  from WriteRingBuffer_run [OF assms(1-3) this [unfolded n_def]]
  show ?thesis unfolding n_def s1_def .
qed

lemma WrapRingBuffer_spec:
  assumes "d_ringbuffer s = Some rb" and "length rb = R + 42" and "1024 \<le> R"
    and "d_ringbuffer_end s = int R" and "0 \<le> d_pos s" and "d_pos s \<le> 42"
  shows "WrapRingBuffer s = Some
    (if d_should_wrap_ringbuffer s
     then s\<lparr>d_ringbuffer := Some (take (nat (d_pos s)) (drop R rb) @ drop (nat (d_pos s)) rb),
            d_should_wrap_ringbuffer := False\<rparr>
     else s)"
proof -
  have "d_pos s \<le> d_ringbuffer_end s" "nat (d_pos s) \<le> 42" using assms by simp_all
  then show ?thesis using assms by (simp add: WrapRingBuffer_def arr_copy_def)
qed

text \<open>Having written \<open>n\<close> more bytes, without reaching the end of the buffer's first \<open>R\<close> bytes or without
  starting anew.\<close>

definition ring_advanced :: "BrotliDecoderState \<Rightarrow> nat \<Rightarrow> BrotliDecoderState" where
  "ring_advanced s n = s\<lparr>d_partial_pos_out := d_partial_pos_out s + of_nat n\<rparr>"

definition ring_restarted :: "BrotliDecoderState \<Rightarrow> nat \<Rightarrow> nat \<Rightarrow> BrotliDecoderState" where
  "ring_restarted s R n = (ring_advanced s n)\<lparr>d_pos := d_pos s - int R,
     d_rb_roundtrips := d_rb_roundtrips s + 1, d_should_wrap_ringbuffer := (d_pos s \<noteq> int R)\<rparr>"

lemma ring_partial_pos:
  assumes "ring_ok s R rb off" and "off + n \<le> R"
  shows "unat (d_partial_pos_out s + of_nat n) = unat (d_rb_roundtrips s) * R + (off + n)"
proof -
  note k = ring_okD [OF assms(1)]
  have "unat (d_rb_roundtrips s) * R + (off + n) < 2 ^ 64" using k(13) assms(2) by (simp add: algebra_simps)
  then show ?thesis using k(12) by (simp add: unat_word_ariths unat_of_nat)
qed

lemma ring_advance:
  assumes ok: "ring_ok s R rb off" and nw: "\<not> d_should_wrap_ringbuffer s"
    and n: "off + n \<le> R" "off + n \<le> nat (d_pos s)"
  shows "ring_ok (ring_advanced s n) R rb (off + n)"
    and "take n (drop off rb) @ ring_unwritten (ring_advanced s n) R rb (off + n) = ring_unwritten s R rb off"
    and "WrapRingBuffer (ring_advanced s n) = Some (ring_advanced s n)"
proof -
  define pos where "pos = nat (d_pos s)"
  have "int (off + n) \<le> d_pos s" using n(2) ring_okD(8) [OF ok] by linarith
  then show "ring_ok (ring_advanced s n) R rb (off + n)"
    using ok n(1) ring_partial_pos [OF ok n(1)] by (simp add: ring_ok_def ring_advanced_def)
  have "take n (drop off rb) = take n (drop off (take pos rb))" using n(2) by (simp add: drop_take pos_def)
  moreover have "drop n (drop off (take pos rb)) = drop (off + n) (take pos rb)"
    by (simp only: drop_drop add.commute)
  ultimately have "take n (drop off rb) @ drop (off + n) (take pos rb) = drop off (take pos rb)"
    by (metis append_take_drop_id)
  then show "take n (drop off rb) @ ring_unwritten (ring_advanced s n) R rb (off + n) = ring_unwritten s R rb off"
    using nw by (simp add: ring_unwritten_def ring_advanced_def pos_def)
  show "WrapRingBuffer (ring_advanced s n) = Some (ring_advanced s n)"
    using nw by (simp add: WrapRingBuffer_def ring_advanced_def)
qed

lemma ring_split:
  assumes "off + n = R" and "R \<le> length rb"
  shows "drop off (take (R + e) rb) = take n (drop off rb) @ take e (drop R rb)"
proof -
  have "take (R + e) rb = take R rb @ take e (drop R rb)" by (rule take_add)
  moreover have "drop off (take R rb) = take n (drop off rb)"
    using assms(1) by (metis add_diff_cancel_left' drop_take)
  ultimately show ?thesis using assms by simp
qed

lemma roundtrips_step:
  assumes "ring_ok s R rb off"
  shows "unat (d_rb_roundtrips s + 1) = unat (d_rb_roundtrips s) + 1"
proof -
  note k = ring_okD [OF assms]
  have "(unat (d_rb_roundtrips s) + 2) * 1 \<le> (unat (d_rb_roundtrips s) + 2) * R"
    using k(3) by (intro mult_le_mono2) simp
  then have "(unat (d_rb_roundtrips s) + 2) * 1 < 2 ^ 64" using k(13) by (rule le_less_trans)
  then have "unat (d_rb_roundtrips s) + 1 < 2 ^ 64" by simp
  then show ?thesis by (simp add: unat_word_ariths)
qed

text \<open>Before the data has been moved, the invariant and the unwritten bytes are those of the old buffer.\<close>

lemma ring_pending:
  assumes ok: "ring_ok s R rb off" and nw: "\<not> d_should_wrap_ringbuffer s"
    and rt: "(unat (d_rb_roundtrips s) + 3) * R < 2 ^ 64"
    and n: "off + n = R" and R: "int R \<le> d_pos s"
  defines "e \<equiv> nat (d_pos s) - R"
  shows "ring_ok (ring_restarted s R n) R rb 0"
    and "take n (drop off rb) @ ring_unwritten (ring_restarted s R n) R rb 0 = ring_unwritten s R rb off"
    and "ring_unwritten (ring_restarted s R n) R rb 0 = take e (drop R rb)"
proof -
  note k = ring_okD [OF ok]
  have e: "d_pos s = int (R + e)" "e \<le> 42" using R k(9) by (simp_all add: e_def)
  have np: "nat (d_pos s) = R + e" unfolding e(1) by (rule nat_int)
  have pos2: "d_pos (ring_restarted s R n) = int e" using e(1) by (simp add: ring_restarted_def)
  note r1 = roundtrips_step [OF ok]
  have f2: "d_ringbuffer (ring_restarted s R n) = Some rb" "d_ringbuffer_size (ring_restarted s R n) = int R"
    "d_ringbuffer_mask (ring_restarted s R n) = int R - 1" "d_ringbuffer_end (ring_restarted s R n) = int R"
    "d_rb_roundtrips (ring_restarted s R n) = d_rb_roundtrips s + 1"
    "d_partial_pos_out (ring_restarted s R n) = d_partial_pos_out s + of_nat n"
    using k(1,5-7) by (simp_all add: ring_restarted_def ring_advanced_def)
  have "(unat (d_rb_roundtrips s + 1) + 2) * R < 2 ^ 64" using rt unfolding r1 by (simp add: algebra_simps)
  moreover have "unat (d_partial_pos_out s + of_nat n) = unat (d_rb_roundtrips s + 1) * R + 0"
    using ring_partial_pos [OF ok, of n] n by (simp add: r1)
  moreover have "\<exists>k. R = 2 ^ k \<and> 10 \<le> k \<and> k \<le> 30" using ok by (simp add: ring_ok_def)
  ultimately show "ring_ok (ring_restarted s R n) R rb 0"
    using e(2) k(2) unfolding ring_ok_def f2 pos2 by simp
  show u: "ring_unwritten (ring_restarted s R n) R rb 0 = take e (drop R rb)"
  proof (cases "e = 0")
    case False
    then have "d_should_wrap_ringbuffer (ring_restarted s R n)" using e(1) by (simp add: ring_restarted_def)
    then show ?thesis by (simp add: ring_unwritten_def pos2)
  qed (simp add: ring_unwritten_def pos2)
  have "drop off (take (R + e) rb) = take n (drop off rb) @ take e (drop R rb)"
    by (rule ring_split) (use k(2) n in simp_all)
  then show "take n (drop off rb) @ ring_unwritten (ring_restarted s R n) R rb 0 = ring_unwritten s R rb off"
    using nw unfolding u by (simp add: ring_unwritten_def np)
qed

text \<open>Moving the data changes neither.\<close>

lemma ring_wrap:
  assumes ok: "ring_ok s R rb off" and p: "d_should_wrap_ringbuffer s \<Longrightarrow> d_pos s \<le> 42"
  shows "\<exists>rb'. let s2 = s\<lparr>d_ringbuffer := Some rb', d_should_wrap_ringbuffer := False\<rparr> in
    WrapRingBuffer s = Some s2 \<and> ring_ok s2 R rb' off \<and> ring_unwritten s2 R rb' off = ring_unwritten s R rb off \<and>
    (d_should_wrap_ringbuffer s \<or> rb' = rb)"
proof (cases "d_should_wrap_ringbuffer s")
  case True
  note k = ring_okD [OF ok]
  define e where "e = nat (d_pos s)"
  have e: "e \<le> 42" "d_pos s = int e" using p [OF True] k(8) by (simp_all add: e_def)
  define rb' where "rb' = take e (drop R rb) @ drop e rb"
  have l: "length rb' = R + 42" using k(2) e by (simp add: rb'_def)
  have "WrapRingBuffer s = Some (s\<lparr>d_ringbuffer := Some rb', d_should_wrap_ringbuffer := False\<rparr>)"
    using WrapRingBuffer_spec [OF k(1-3,7,8) p [OF True]] True by (simp add: rb'_def e_def)
  moreover have "take e rb' = take e (drop R rb)" using k(2) e by (simp add: rb'_def)
  ultimately show ?thesis
    using ok l True e by (intro exI [of _ rb']) (simp add: ring_ok_def ring_unwritten_def)
next
  case False
  then have "WrapRingBuffer s = Some s" "s\<lparr>d_ringbuffer := Some rb, d_should_wrap_ringbuffer := False\<rparr> = s"
    using ring_okD(1) [OF ok] by (simp_all add: WrapRingBuffer_def)
  then show ?thesis using ok by (intro exI [of _ rb]) simp
qed

text \<open>C19: As long as no wrap of the ring buffer is pending when it is called (\<open>should_wrap_ringbuffer\<close> is 0, as the pair
  of calls leaves it), nothing is lost or repeated on the way out: what \<open>WriteRingBuffer\<close> appends to the client's
  buffer, followed by what is still unwritten after \<open>WrapRingBuffer\<close>, is what was unwritten before,
  including the bytes a copy or a dictionary word put beyond the end of the buffer.  It writes as much
  as the client has room for and the buffer's end allows, keeps the invariant of the buffer, leaves no wrap pending,
  and \<open>total_out\<close> is the number of bytes written since the start.  Fewer than \<open>2 ^ 64\<close> bytes may have gone through
  the buffer.  (With a wrap pending the statement fails; \<open>take_output_then_write_repeats\<close> has that case.)\<close>

theorem ring_buffer_output_conserved:
  assumes "ring_ok s R rb off" and "\<not> d_should_wrap_ringbuffer s"
    and "(unat (d_rb_roundtrips s) + 3) * R < 2 ^ 64"
    and "0 \<le> d_meta_block_remaining_len s" and "d_window_bits s < 31" and "next_out out = Out_Bytes bs"
  shows "\<exists>r s1 out' s2 rb' off' w. WriteRingBuffer s out force = Some (r, s1, out') \<and>
    WrapRingBuffer s1 = Some s2 \<and> next_out out' = Out_Bytes (bs @ w) \<and>
    w @ ring_unwritten s2 R rb' off' = ring_unwritten s R rb off \<and>
    length w = min (available_out out) (min (nat (d_pos s)) R - off) \<and>
    available_out out' = available_out out - length w \<and>
    ring_ok s2 R rb' off' \<and> \<not> d_should_wrap_ringbuffer s2 \<and>
    (total_out out \<noteq> None \<longrightarrow> total_out out' = Some (d_partial_pos_out s2)) \<and>
    (r = BROTLI_DECODER_NEEDS_MORE_OUTPUT \<and> available_out out' = 0 \<or> r = BROTLI_DECODER_SUCCESS)"
proof -
  note k = ring_okD [OF assms(1)]
  define n where "n = min (available_out out) (min (nat (d_pos s)) R - off)"
  define w where "w = take n (drop off rb)"
  have n: "off + n \<le> R" "off + n \<le> nat (d_pos s)" using k(10,11) by (auto simp: n_def)
  have lw: "length w = n" using n k(2) by (simp add: w_def)
  define r where "r = (if n < min (nat (d_pos s)) R - off \<and> (int R = 2 ^ unat (d_window_bits s) \<or> force)
     then BROTLI_DECODER_NEEDS_MORE_OUTPUT else BROTLI_DECODER_SUCCESS)"
  define out' where "out' = out\<lparr>available_out := available_out out - n, next_out := Out_Bytes (bs @ w),
     total_out := map_option (\<lambda>_. d_partial_pos_out s + of_nat n) (total_out out)\<rparr>"
  define s1 where "s1 = (if ring_wraps s R off n then ring_restarted s R n else ring_advanced s n)"
  have run: "WriteRingBuffer s out force = Some (r, s1, out')"
    using WriteRingBuffer_bytes [OF assms(1,4-6), of force] unfolding n_def [symmetric]
    by (simp add: w_def r_def out'_def s1_def ring_advanced_def ring_restarted_def)
  have o: "next_out out' = Out_Bytes (bs @ w)" "available_out out' = available_out out - length w"
    "length w = min (available_out out) (min (nat (d_pos s)) R - off)"
    "total_out out \<noteq> None \<longrightarrow> total_out out' = Some (d_partial_pos_out s + of_nat n)"
    "r = BROTLI_DECODER_NEEDS_MORE_OUTPUT \<and> available_out out' = 0 \<or> r = BROTLI_DECODER_SUCCESS"
    using lw by (auto simp: out'_def n_def r_def min_less_iff_disj)
  have "\<exists>s2 rb' off'. WrapRingBuffer s1 = Some s2 \<and> ring_ok s2 R rb' off' \<and> \<not> d_should_wrap_ringbuffer s2 \<and>
    d_partial_pos_out s2 = d_partial_pos_out s + of_nat n \<and>
    w @ ring_unwritten s2 R rb' off' = ring_unwritten s R rb off"
  proof (cases "ring_wraps s R off n")
    case False
    then show ?thesis using ring_advance [OF assms(1,2) n] assms(2)
      by (intro exI [of _ s1] exI [of _ rb] exI [of _ "off + n"]) (simp add: s1_def w_def, simp add: ring_advanced_def)
  next
    case True
    then have wr: "off + n = R" "int R \<le> d_pos s" using k(11) unfolding ring_wraps_def by linarith+
    note rp = ring_pending [OF assms(1-3) wr, folded w_def]
    have "d_pos (ring_restarted s R n) \<le> 42" using k(9) wr(2) by (simp add: ring_restarted_def)
    with ring_wrap [OF rp(1)] obtain rb' where
      "WrapRingBuffer s1 = Some (s1\<lparr>d_ringbuffer := Some rb', d_should_wrap_ringbuffer := False\<rparr>)"
      "ring_ok (s1\<lparr>d_ringbuffer := Some rb', d_should_wrap_ringbuffer := False\<rparr>) R rb' 0"
      "ring_unwritten (s1\<lparr>d_ringbuffer := Some rb', d_should_wrap_ringbuffer := False\<rparr>) R rb' 0
        = ring_unwritten (ring_restarted s R n) R rb 0"
      using True by (auto simp: s1_def Let_def)
    moreover have "d_partial_pos_out s1 = d_partial_pos_out s + of_nat n"
      using True by (simp add: s1_def ring_restarted_def ring_advanced_def)
    ultimately show ?thesis using rp(2)
      by (intro exI [of _ "s1\<lparr>d_ringbuffer := Some rb', d_should_wrap_ringbuffer := False\<rparr>"]
          exI [of _ rb'] exI [of _ 0]) simp
  qed
  then obtain s2 rb' off' where e: "WrapRingBuffer s1 = Some s2" "ring_ok s2 R rb' off'"
    "\<not> d_should_wrap_ringbuffer s2" "d_partial_pos_out s2 = d_partial_pos_out s + of_nat n"
    "w @ ring_unwritten s2 R rb' off' = ring_unwritten s R rb off" by blast
  show ?thesis
    by (intro exI conjI)
      (rule run e(1) o(1) e(5) o(3) o(2) e(2) e(3) o(4) [folded e(4)] o(5))+
qed

text \<open>A full buffer of 1024 bytes with six bytes beyond its end, of which 1000 have been written, and
  a client with room for 100.\<close>

definition ring_sample :: BrotliDecoderState where
  "ring_sample = sample_state\<lparr>d_ringbuffer := Some (replicate 1030 7 @ replicate 36 0),
     d_ringbuffer_size := 1024, d_ringbuffer_mask := 1023, d_ringbuffer_end := 1024,
     d_pos := 1030, d_rb_roundtrips := 0, d_partial_pos_out := 1000,
     d_should_wrap_ringbuffer := False, d_meta_block_remaining_len := 5, d_window_bits := 10\<rparr>"

lemma ring_sample_ok: "ring_ok ring_sample 1024 (replicate 1030 7 @ replicate 36 0) 1000"
  using exI [of "\<lambda>k. (1024 :: nat) = 2 ^ k \<and> 10 \<le> k \<and> k \<le> 30" 10] by (simp add: ring_ok_def ring_sample_def)

theorem ring_buffer_output_conserved_witness:
  "\<exists>r s1 out' s2 rb' off' w.
    WriteRingBuffer ring_sample \<lparr>available_out = 100, next_out = Out_Bytes [], total_out = None\<rparr> False = Some (r, s1, out') \<and>
    WrapRingBuffer s1 = Some s2 \<and> next_out out' = Out_Bytes w \<and> length w = 24 \<and>
    w @ ring_unwritten s2 1024 rb' off' = replicate 30 7"
proof -
  define out where "out = \<lparr>available_out = 100, next_out = Out_Bytes [], total_out = None\<rparr>"
  have f: "\<not> d_should_wrap_ringbuffer ring_sample" "(unat (d_rb_roundtrips ring_sample) + 3) * 1024 < 2 ^ 64"
    "0 \<le> d_meta_block_remaining_len ring_sample" "d_window_bits ring_sample < 31"
    "d_pos ring_sample = 1030" by (simp_all add: ring_sample_def)
  have o: "next_out out = Out_Bytes []" "available_out out = 100" by (simp_all add: out_def)
  have u: "ring_unwritten ring_sample 1024 (replicate 1030 7 @ replicate 36 0) 1000 = replicate 30 7"
    by (simp add: ring_unwritten_def ring_sample_def)
  show ?thesis
    using ring_buffer_output_conserved [OF ring_sample_ok f(1-4) o(1), of False] unfolding f(5) o(2) u
    unfolding out_def by simp blast
qed

end
