(* ===== verification/Stream_Properties.thy ===== *)
theory Stream_Properties
  imports Ring_Buffer_Properties
begin

text \<open>
  The streaming interface: how errors reach the client and stay, and what \<open>BrotliDecoderTakeOutput\<close> hands
  out, alone and mixed with \<open>BrotliDecoderDecompressStream\<close>.
\<close>

section \<open>Errors\<close>

lemma SaveErrorCode_simps [simp]:
  "d_error_code (snd (SaveErrorCode s e)) = error_value e"
  "fst (SaveErrorCode s e) = BROTLI_DECODER_RESULT_SUCCESS \<longleftrightarrow> error_value e = 1"
  "fst (SaveErrorCode s e) = BROTLI_DECODER_RESULT_NEEDS_MORE_INPUT \<longleftrightarrow> error_value e = 2"
  "fst (SaveErrorCode s e) = BROTLI_DECODER_RESULT_NEEDS_MORE_OUTPUT \<longleftrightarrow> error_value e = 3"
  by (cases e; simp add: SaveErrorCode_def)+

lemma SaveErrorCodeE:
  assumes "SaveErrorCode s e = (r, s')"
  shows "r = BROTLI_DECODER_RESULT_SUCCESS \<longleftrightarrow> d_error_code s' = 1"
    and "r = BROTLI_DECODER_RESULT_NEEDS_MORE_INPUT \<longleftrightarrow> d_error_code s' = 2"
    and "r = BROTLI_DECODER_RESULT_NEEDS_MORE_OUTPUT \<longleftrightarrow> d_error_code s' = 3"
  using SaveErrorCode_simps [of s e] assms by simp_all

text \<open>C34: What \<open>BrotliDecoderDecompressStream\<close> returns is the sign and value of the code it keeps: the
  three non-error results go with the codes 1 to 3, every other code is reported as an error.\<close>

theorem result_tells_error_code:
  assumes "BrotliDecoderDecompressStream s inp out = Some (r, s', inp', out')" and "0 \<le> d_error_code s"
  shows "(r = BROTLI_DECODER_RESULT_SUCCESS \<longleftrightarrow> d_error_code s' = 1) \<and>
    (r = BROTLI_DECODER_RESULT_NEEDS_MORE_INPUT \<longleftrightarrow> d_error_code s' = 2) \<and>
    (r = BROTLI_DECODER_RESULT_NEEDS_MORE_OUTPUT \<longleftrightarrow> d_error_code s' = 3)"
proof -
  have "\<exists>t e. SaveErrorCode t e = (r, s')"
    using assms unfolding BrotliDecoderDecompressStream_def
    by (auto simp: Let_def split: if_splits prod.splits bind_splits)
  then show ?thesis using SaveErrorCodeE by metis
qed

theorem result_tells_error_code_witness:
  "\<exists>r s' inp' out'. BrotliDecoderDecompressStream sample_state \<lparr>in_buf = [], in_next = 0, in_avail = 0\<rparr>
      \<lparr>available_out = 1, next_out = Out_None, total_out = None\<rparr> = Some (r, s', inp', out') \<and>
    r \<noteq> BROTLI_DECODER_RESULT_SUCCESS \<and> d_error_code s' = - 20"
proof -
  have e: "d_error_code sample_state = 0" by (simp add: sample_state_def BrotliDecoderStateInit_def)
  obtain s' inp' out' where r: "BrotliDecoderDecompressStream sample_state \<lparr>in_buf = [], in_next = 0, in_avail = 0\<rparr>
      \<lparr>available_out = 1, next_out = Out_None, total_out = None\<rparr> = Some (BROTLI_DECODER_RESULT_ERROR, s', inp', out')"
    "d_error_code s' = - 20"
    using e by (simp add: BrotliDecoderDecompressStream_def SaveErrorCode_def Let_def)
  then show ?thesis using result_tells_error_code [OF r(1)] e by auto
qed

text \<open>C35: An error is final: once the stored code is negative, whatever the client calls with, the decoder
  reports the error, takes no input, writes no output, offers none, and does not change.\<close>

theorem error_is_final:
  assumes "d_error_code s < 0"
  shows "(\<exists>out'. BrotliDecoderDecompressStream s inp out = Some (BROTLI_DECODER_RESULT_ERROR, s, inp, out') \<and>
      available_out out' = available_out out \<and> next_out out' = next_out out) \<and>
    BrotliDecoderTakeOutput s req = Some (None, 0, s) \<and> \<not> BrotliDecoderHasMoreOutput s"
  using assms
  by (simp add: BrotliDecoderDecompressStream_def BrotliDecoderTakeOutput_def BrotliDecoderHasMoreOutput_def Let_def)

theorem error_is_final_witness:
  "\<exists>out'. BrotliDecoderDecompressStream (sample_state\<lparr>d_error_code := - 5\<rparr>) \<lparr>in_buf = [1], in_next = 0, in_avail = 1\<rparr>
      \<lparr>available_out = 9, next_out = Out_Bytes [], total_out = None\<rparr>
    = Some (BROTLI_DECODER_RESULT_ERROR, sample_state\<lparr>d_error_code := - 5\<rparr>, \<lparr>in_buf = [1], in_next = 0, in_avail = 1\<rparr>, out') \<and>
    available_out out' = 9"
proof -
  have "d_error_code (sample_state\<lparr>d_error_code := - 5\<rparr>) < 0" by simp
  from error_is_final [OF this, of "\<lparr>in_buf = [1], in_next = 0, in_avail = 1\<rparr>"
      "\<lparr>available_out = 9, next_out = Out_Bytes [], total_out = None\<rparr>"]
  show ?thesis by auto
qed

section \<open>BrotliDecoderTakeOutput\<close>

lemma take_output_run:
  fixes req :: nat
  assumes ok: "ring_ok s R rb off" and p: "d_should_wrap_ringbuffer s \<Longrightarrow> d_pos s \<le> 42"
    and "0 \<le> d_meta_block_remaining_len s" and "d_window_bits s < 31" and "0 \<le> d_error_code s"
  defines "n \<equiv> min (if req \<noteq> 0 then req else 2 ^ 24) (min (nat (d_pos s)) R - off)"
  shows "\<exists>rb' s1. s1 = s\<lparr>d_ringbuffer := Some rb', d_should_wrap_ringbuffer := False\<rparr> \<and>
    ring_ok s1 R rb' off \<and> ring_unwritten s1 R rb' off = ring_unwritten s R rb off \<and>
    (d_should_wrap_ringbuffer s \<or> rb' = rb) \<and>
    BrotliDecoderTakeOutput s req = Some (Some (off mod R), n,
      if ring_wraps s R off n then ring_restarted s1 R n else ring_advanced s1 n)"
proof -
  obtain rb' where w: "WrapRingBuffer s = Some (s\<lparr>d_ringbuffer := Some rb', d_should_wrap_ringbuffer := False\<rparr>)"
    "ring_ok (s\<lparr>d_ringbuffer := Some rb', d_should_wrap_ringbuffer := False\<rparr>) R rb' off"
    "ring_unwritten (s\<lparr>d_ringbuffer := Some rb', d_should_wrap_ringbuffer := False\<rparr>) R rb' off
      = ring_unwritten s R rb off"
    "d_should_wrap_ringbuffer s \<or> rb' = rb"
    using ring_wrap [OF ok p] by (auto simp: Let_def)
  define s1 where "s1 = s\<lparr>d_ringbuffer := Some rb', d_should_wrap_ringbuffer := False\<rparr>"
  have f: "0 \<le> d_meta_block_remaining_len s1" "d_window_bits s1 < 31" "d_pos s1 = d_pos s"
    "ring_wraps s1 R off n = ring_wraps s R off n"
    using assms(3,4) by (simp_all add: s1_def ring_wraps_def)
  define req' where "req' = (if req \<noteq> 0 then req else 2 ^ 24)"
  have n: "min req' (min (nat (d_pos s1)) R - off) = n" by (simp add: n_def req'_def f)
  define out where "out = \<lparr>available_out = req', next_out = Out_Null, total_out = None\<rparr>"
  have "put_output rb' (off mod R) (min (available_out out) (min (nat (d_pos s1)) R - off)) (next_out out)
      = Some (Out_Ring (off mod R))" by (simp add: put_output_def out_def)
  from WriteRingBuffer_run [OF w(2) [folded s1_def] f(1,2) this, of True]
  have run: "WriteRingBuffer s1 out True = Some
    (if n < min (nat (d_pos s)) R - off then BROTLI_DECODER_NEEDS_MORE_OUTPUT else BROTLI_DECODER_SUCCESS,
     if ring_wraps s R off n then ring_restarted s1 R n else ring_advanced s1 n,
     \<lparr>available_out = req' - n, next_out = Out_Ring (off mod R), total_out = None\<rparr>)"
    unfolding f by (simp add: out_def n [unfolded f] f(3,4) ring_restarted_def ring_advanced_def)
  have "n \<le> req'" by (simp add: n_def req'_def)
  moreover have "d_ringbuffer s \<noteq> None" using ring_okD(1) [OF ok] by simp
  ultimately have "BrotliDecoderTakeOutput s req = Some (Some (off mod R), n,
      if ring_wraps s R off n then ring_restarted s1 R n else ring_advanced s1 n)"
    unfolding BrotliDecoderTakeOutput_def Let_def req'_def [symmetric] w(1) s1_def [symmetric]
    using assms(5) run [unfolded out_def] by simp
  then show ?thesis using w(2-4) by (intro exI [of _ rb'] exI [of _ s1]) (simp add: s1_def)
qed

text \<open>C20: \<open>BrotliDecoderTakeOutput\<close> alone loses nothing either: the slice of the ring buffer it returns,
  followed by what is unwritten afterwards, is what was unwritten before, and the slice is as long as the
  client asked for and the end of the buffer allows.  Called again it starts by moving the bytes that a
  previous call left beyond the end of the buffer.\<close>

theorem take_output_conserved:
  assumes "ring_ok s R rb off" and "d_should_wrap_ringbuffer s \<Longrightarrow> d_pos s \<le> 42"
    and "(unat (d_rb_roundtrips s) + 3) * R < 2 ^ 64"
    and "0 \<le> d_meta_block_remaining_len s" and "d_window_bits s < 31" and "0 \<le> d_error_code s"
  shows "\<exists>k n s' rb' off'. BrotliDecoderTakeOutput s req = Some (Some k, n, s') \<and>
    n = min (if req \<noteq> 0 then req else 2 ^ 24) (min (nat (d_pos s)) R - off) \<and>
    take n (drop k rb') @ ring_unwritten s' R rb' off' = ring_unwritten s R rb off \<and>
    ring_ok s' R rb' off' \<and> (d_should_wrap_ringbuffer s' \<longrightarrow> d_pos s' \<le> 42)"
proof -
  define n where "n = min (if req \<noteq> 0 then req else 2 ^ 24) (min (nat (d_pos s)) R - off)"
  obtain rb' s1 where s1: "s1 = s\<lparr>d_ringbuffer := Some rb', d_should_wrap_ringbuffer := False\<rparr>"
    and w: "ring_ok s1 R rb' off" "ring_unwritten s1 R rb' off = ring_unwritten s R rb off"
    "BrotliDecoderTakeOutput s req = Some (Some (off mod R), n,
      if ring_wraps s R off n then ring_restarted s1 R n else ring_advanced s1 n)"
    using take_output_run [OF assms(1,2,4-6), of req, folded n_def] by blast
  note k = ring_okD [OF assms(1)]
  have f: "\<not> d_should_wrap_ringbuffer s1" "(unat (d_rb_roundtrips s1) + 3) * R < 2 ^ 64"
    "d_pos s1 = d_pos s" using assms(3) by (simp_all add: s1)
  have n: "off + n \<le> R" "off + n \<le> nat (d_pos s1)" using k(10,11) by (auto simp: n_def f)
  have sl: "take n (drop (off mod R) rb') = take n (drop off rb')"
    using n(1) k(11) by (cases "off = R") simp_all
  show ?thesis
  proof (cases "ring_wraps s R off n")
    case True
    then have wr: "off + n = R" "int R \<le> d_pos s1" using k(11) f(3) unfolding ring_wraps_def by linarith+
    have "d_pos (ring_restarted s1 R n) \<le> 42" using k(9) f(3) by (simp add: ring_restarted_def)
    then show ?thesis
      using ring_pending (1,2) [OF w(1) f(1,2) wr] w(2,3) True unfolding n_def [symmetric]
      by (intro exI [of _ "off mod R"] exI [of _ n] exI [of _ "ring_restarted s1 R n"] exI [of _ rb'] exI [of _ 0])
        (simp add: sl)
  next
    case False
    have "\<not> d_should_wrap_ringbuffer (ring_advanced s1 n)" using f(1) by (simp add: ring_advanced_def)
    then show ?thesis
      using ring_advance (1,2) [OF w(1) f(1) n] w(2,3) False unfolding n_def [symmetric]
      by (intro exI [of _ "off mod R"] exI [of _ n] exI [of _ "ring_advanced s1 n"] exI [of _ rb'] exI [of _ "off + n"])
        (simp add: sl)
  qed
qed

theorem take_output_conserved_witness:
  "\<exists>k n s' rb' off'. BrotliDecoderTakeOutput ring_sample 5 = Some (Some k, n, s') \<and> n = 5 \<and>
    take n (drop k rb') @ ring_unwritten s' 1024 rb' off' = replicate 30 7"
proof -
  have f: "d_should_wrap_ringbuffer ring_sample \<Longrightarrow> d_pos ring_sample \<le> 42"
    "(unat (d_rb_roundtrips ring_sample) + 3) * 1024 < 2 ^ 64" "0 \<le> d_meta_block_remaining_len ring_sample"
    "d_window_bits ring_sample < 31" "0 \<le> d_error_code ring_sample" "d_pos ring_sample = 1030"
    by (simp_all add: ring_sample_def sample_state_def BrotliDecoderStateInit_def)
  have r: "min (if (5 :: nat) \<noteq> 0 then 5 else 2 ^ 24) (min (nat 1030) 1024 - 1000) = 5" by simp
  have u: "ring_unwritten ring_sample 1024 (replicate 1030 7 @ replicate 36 0) 1000 = replicate 30 7"
    by (simp add: ring_unwritten_def ring_sample_def)
  show ?thesis
    using take_output_conserved [OF ring_sample_ok f(1-5), of 5, unfolded f(6) r u] by blast
qed

text \<open>C36: Mixing the two ways of taking output repeats old bytes.  When \<open>BrotliDecoderTakeOutput\<close> has drained
  a full buffer that holds bytes beyond its end, those bytes are still due, and not yet moved to the start;
  a following call of \<open>BrotliDecoderDecompressStream\<close> in a write state calls \<open>WriteRingBuffer\<close> before
  \<open>WrapRingBuffer\<close>, so the client gets the bytes at the start of the buffer, which it was given a
  round before, in the place of those that are due.\<close>

theorem take_output_then_write_repeats:
  assumes ok: "ring_ok s R rb off" and nw: "\<not> d_should_wrap_ringbuffer s"
    and rt: "(unat (d_rb_roundtrips s) + 3) * R < 2 ^ 64"
    and m: "0 \<le> d_meta_block_remaining_len s" and wb: "d_window_bits s < 31" and e: "0 \<le> d_error_code s"
    and full: "int R = 2 ^ unat (d_window_bits s)" and off: "off < R" and beyond: "int R < d_pos s"
    and req: "R - off \<le> req" and out: "next_out out = Out_Bytes bs"
    and avail: "nat (d_pos s) - R \<le> available_out out"
  shows "\<exists>s1 s2 out'. BrotliDecoderTakeOutput s req = Some (Some off, R - off, s1) \<and>
    ring_unwritten s1 R rb 0 = take (nat (d_pos s) - R) (drop R rb) \<and>
    st_write s1 out inp = Some (Break BROTLI_DECODER_SUCCESS s2, out', inp) \<and>
    next_out out' = Out_Bytes (bs @ take (nat (d_pos s) - R) rb)"
proof -
  define n where "n = R - off"
  define x where "x = nat (d_pos s) - R"
  note k = ring_okD [OF ok]
  have n: "min (if req \<noteq> 0 then req else 2 ^ 24) (min (nat (d_pos s)) R - off) = n"
    using req off beyond by (auto simp: n_def)
  have offn: "off + n = R" using off by (simp add: n_def)
  have wraps: "ring_wraps s R off n" using full beyond by (simp add: ring_wraps_def n_def)
  obtain rb' s1 where "s1 = s\<lparr>d_ringbuffer := Some rb', d_should_wrap_ringbuffer := False\<rparr>" "rb' = rb"
    and t: "BrotliDecoderTakeOutput s req = Some (Some (off mod R), n,
      if ring_wraps s R off n then ring_restarted s1 R n else ring_advanced s1 n)"
    using take_output_run [OF ok _ m wb e, of req, unfolded n] nw by blast
  then have "s1 = s" using k(1) nw by simp
  define t1 where "t1 = ring_restarted s R n"
  have t: "BrotliDecoderTakeOutput s req = Some (Some off, n, t1)"
    using t wraps off unfolding t1_def \<open>s1 = s\<close> by simp
  note p = ring_pending [OF ok nw rt offn less_imp_le [OF beyond], folded t1_def x_def]
  have pos: "d_pos t1 = int x" "x \<le> 42" "x < R" using beyond k(3,9)
    by (simp_all add: t1_def ring_restarted_def x_def)
  have f: "0 \<le> d_meta_block_remaining_len t1" "d_window_bits t1 < 31"
    using m wb by (simp_all add: t1_def ring_restarted_def ring_advanced_def)
  have len: "min (available_out out) (min (nat (d_pos t1)) R - 0) = x"
    using avail pos(3) unfolding pos(1) by (simp add: x_def)
  have nowrap: "\<not> ring_wraps t1 R 0 x" using pos(1,3) by (simp add: ring_wraps_def)
  define out' where "out' = out\<lparr>available_out := available_out out - x, next_out := Out_Bytes (bs @ take x rb),
    total_out := map_option (\<lambda>_. d_partial_pos_out t1 + of_nat x) (total_out out)\<rparr>"
  have w: "WriteRingBuffer t1 out False = Some (BROTLI_DECODER_SUCCESS, ring_advanced t1 x, out')"
    using WriteRingBuffer_bytes [OF p(1) f out, of False, unfolded len] nowrap pos(1,3)
    by (simp add: out'_def ring_advanced_def)
  have "ring_ok (ring_advanced t1 x) R rb (0 + x)"
  proof -
    have "unat (d_partial_pos_out t1 + of_nat x) = unat (d_rb_roundtrips t1) * R + (0 + x)"
      using ring_partial_pos [OF p(1)] pos(3) by simp
    then show ?thesis using p(1) pos by (simp add: ring_ok_def ring_advanced_def)
  qed
  from ring_wrap [OF this] pos obtain s2 where "WrapRingBuffer (ring_advanced t1 x) = Some s2" "d_window_bits s2 < 31"
    using f(2) by (auto simp: ring_advanced_def Let_def)
  then have "\<exists>s2. st_write t1 out inp = Some (Break BROTLI_DECODER_SUCCESS s2, out', inp)"
    by (simp add: st_write_def w window_size_def Let_def)
  then show ?thesis using t p(3) unfolding n_def x_def [symmetric] by (auto simp: out'_def)
qed

text \<open>A buffer whose first 1024 bytes are 7, with six bytes 9 beyond its end: the six bytes 9 are due, and
  the client gets six bytes 7.\<close>

definition stale_sample :: BrotliDecoderState where
  "stale_sample = ring_sample\<lparr>d_ringbuffer := Some (replicate 1024 7 @ replicate 6 9 @ replicate 36 0),
     d_state := BROTLI_STATE_COMMAND_POST_WRITE_2\<rparr>"

lemma stale_sample_ok: "ring_ok stale_sample 1024 (replicate 1024 7 @ replicate 6 9 @ replicate 36 0) 1000"
  using exI [of "\<lambda>k. (1024 :: nat) = 2 ^ k \<and> 10 \<le> k \<and> k \<le> 30" 10]
  by (simp add: ring_ok_def stale_sample_def ring_sample_def)

lemma stale_sample_fields:
  "\<not> d_should_wrap_ringbuffer stale_sample" "(unat (d_rb_roundtrips stale_sample) + 3) * 1024 < 2 ^ 64"
  "0 \<le> d_meta_block_remaining_len stale_sample" "d_window_bits stale_sample < 31" "0 \<le> d_error_code stale_sample"
  "int 1024 = 2 ^ unat (d_window_bits stale_sample)" "(1000 :: nat) < 1024" "int 1024 < d_pos stale_sample"
  "d_pos stale_sample = 1030"
  by (simp_all add: stale_sample_def ring_sample_def sample_state_def BrotliDecoderStateInit_def)

theorem take_output_then_write_repeats_witness:
  "\<exists>s1 s2 out'. BrotliDecoderTakeOutput stale_sample 100 = Some (Some 1000, 24, s1) \<and>
    ring_unwritten s1 1024 (replicate 1024 7 @ replicate 6 9 @ replicate 36 0) 0 = replicate 6 9 \<and>
    st_write s1 \<lparr>available_out = 50, next_out = Out_Bytes [], total_out = None\<rparr> \<lparr>in_buf = [], in_next = 0, in_avail = 0\<rparr>
      = Some (Break BROTLI_DECODER_SUCCESS s2, out', \<lparr>in_buf = [], in_next = 0, in_avail = 0\<rparr>) \<and>
    next_out out' = Out_Bytes (replicate 6 7)"
proof -
  define out where "out = \<lparr>available_out = 50, next_out = Out_Bytes [], total_out = None\<rparr>"
  have o: "next_out out = Out_Bytes []" "nat (d_pos stale_sample) - 1024 \<le> available_out out" "1024 - 1000 \<le> (100 :: nat)"
    by (simp_all add: out_def stale_sample_fields(9))
  have r: "take (nat 1030 - 1024) (drop 1024 (replicate 1024 7 @ replicate 6 9 @ replicate 36 0)) = replicate 6 (9 :: uint8)"
    "take (nat 1030 - 1024) (replicate 1024 7 @ replicate 6 9 @ replicate 36 0) = replicate 6 (7 :: uint8)"
    "(1024 :: nat) - 1000 = 24" "[] @ replicate 6 7 = replicate 6 (7 :: uint8)"
    by (simp_all)
  show ?thesis
    using take_output_then_write_repeats [OF stale_sample_ok stale_sample_fields(1-8) o(3,1,2),
      unfolded stale_sample_fields(9), unfolded r] unfolding out_def .
qed

end
