(* ===== verification/Write_Bits.thy ===== *)
theory Write_Bits
  imports Brotli_Prelude
begin

text \<open>
  The bit writer of \<^verbatim>\<open>enc/write_bits.h\<close>.  The two pointers \<open>storage_ix\<close> and \<open>storage\<close> that every writer of
  the encoder threads through its calls are the record \<open>bit_storage\<close>: a position in bits, and the byte
  array.  A write outside the array is \<open>None\<close>.

  \<open>written\<close> is the string of bits before the position, \<open>storage_ok\<close> the invariant the writer relies on:
  the byte at the position exists, and its bits from the position on are zero.
\<close>

record bit_storage =
  storage_ix :: nat
  storage :: "uint8 list"

section \<open>Operations\<close>

definition le_bytes :: "nat \<Rightarrow> 'a::len word \<Rightarrow> uint8 list" where
  "le_bytes n w = map (\<lambda>i. ucast (drop_bit (8 * i) w)) [0..<n]"

text \<open>\<open>BROTLI_UNALIGNED_STORE64LE\<close>\<close>

definition store64le :: "uint8 list \<Rightarrow> nat \<Rightarrow> uint64 \<Rightarrow> uint8 list option" where
  "store64le a p v = arr_copy a p (le_bytes 8 v) 0 8"

definition BrotliWriteBits :: "nat \<Rightarrow> uint64 \<Rightarrow> bit_storage \<Rightarrow> bit_storage option" where
  "BrotliWriteBits n_bits bits st = do {
     let p = storage_ix st div 8;
     b \<leftarrow> arr_get (storage st) p;
     a \<leftarrow> store64le (storage st) p (ucast b OR push_bit (storage_ix st mod 8) bits);
     Some \<lparr>storage_ix = storage_ix st + n_bits, storage = a\<rparr> }"

text \<open>The variant for other byte orders: \<open>bits_left_to_write\<close> counts down by eight.\<close>

fun write_bytes :: "nat \<Rightarrow> uint64 \<Rightarrow> nat \<Rightarrow> uint8 list \<Rightarrow> (nat \<times> uint8 list) option" where
  "write_bytes left bits p a =
     (if left \<ge> 9 then do {
        let bits = drop_bit 8 bits;
        a \<leftarrow> arr_set a p (ucast bits);
        write_bytes (left - 8) bits (p + 1) a }
      else Some (p, a))"

declare write_bytes.simps [simp del]

definition BrotliWriteBits_bytes :: "nat \<Rightarrow> uint64 \<Rightarrow> bit_storage \<Rightarrow> bit_storage option" where
  "BrotliWriteBits_bytes n_bits bits st = do {
     let p = storage_ix st div 8;
     let reserved = storage_ix st mod 8;
     let bits = push_bit reserved bits;
     b \<leftarrow> arr_get (storage st) p;
     a \<leftarrow> arr_set (storage st) p (b OR ucast bits);
     (p, a) \<leftarrow> write_bytes (n_bits + reserved) bits (p + 1) a;
     a \<leftarrow> arr_set a p 0;
     Some \<lparr>storage_ix = storage_ix st + n_bits, storage = a\<rparr> }"

definition BrotliWriteBitsPrepareStorage :: "bit_storage \<Rightarrow> bit_storage option" where
  "BrotliWriteBitsPrepareStorage st = do {
     a \<leftarrow> arr_set (storage st) (storage_ix st div 8) 0;
     Some (st\<lparr>storage := a\<rparr>) }"

text \<open>\<open>JumpToByteBoundary\<close> of \<^verbatim>\<open>enc/brotli_bit_stream.c\<close>; its \<open>~7u\<close> is a mask of 32 bits.\<close>

definition JumpToByteBoundary :: "bit_storage \<Rightarrow> bit_storage option" where
  "JumpToByteBoundary st =
     BrotliWriteBitsPrepareStorage (st\<lparr>storage_ix := (storage_ix st + 7) AND 0xFFFFFFF8\<rparr>)"

section \<open>What is written\<close>

definition written :: "bit_storage \<Rightarrow> bits" where
  "written st = take (storage_ix st) (bytes_bits (storage st))"

definition storage_ok :: "bit_storage \<Rightarrow> bool" where
  "storage_ok st \<longleftrightarrow> storage_ix st div 8 < length (storage st) \<and>
     drop_bit (storage_ix st mod 8) (storage st ! (storage_ix st div 8)) = 0"

text \<open>Room for \<open>n\<close> more bits, and the seven bytes beyond that a 64-bit store may clear.\<close>

definition room :: "bit_storage \<Rightarrow> nat \<Rightarrow> bool" where
  "room st n \<longleftrightarrow> storage_ok st \<and> (storage_ix st + n) div 8 + 8 \<le> length (storage st)"

lemma room_ok: "room st n \<Longrightarrow> storage_ok st"
  by (simp add: room_def)

lemma room_mono: "room st n \<Longrightarrow> m \<le> n \<Longrightarrow> room st m"
  by (auto simp: room_def elim!: order_trans [rotated] intro!: div_le_mono)

lemma length_le_bytes [simp]: "length (le_bytes n w) = n"
  by (simp add: le_bytes_def)

lemma word_bits_byte: "byte_bits (ucast (drop_bit k (w :: 'a::len word))) = word_bits w k (k + 8)"
  by (rule nth_equalityI) (auto simp: byte_bits_def word_bits_def bit_simps dest: bit_imp_le_length)

lemma bytes_bits_le_bytes: "bytes_bits (le_bytes n (w :: 'a::len word)) = word_bits w 0 (8 * n)"
proof (induction n)
  case (Suc n)
  have "le_bytes (Suc n) w = le_bytes n w @ [ucast (drop_bit (8 * n) w)]" by (simp add: le_bytes_def)
  then show ?case
    using Suc word_bits_byte [of "8 * n" w] word_bits_append [of 0 "8 * n" "8 * n + 8" w]
    by (simp add: add.commute)
qed (simp add: le_bytes_def word_bits_def)

text \<open>A word that holds \<open>n\<close> bits above the \<open>k\<close> bits of a byte.\<close>

lemma word_bits_or_push:
  assumes "drop_bit k b = (0 :: uint8)" and "k < 8" and "n \<le> 56" and "unat (v :: uint64) < 2 ^ n"
  shows "word_bits (ucast b OR push_bit k v) 0 64 =
    word_bits b 0 k @ val_bits n (unat v) @ replicate (64 - (k + n)) False"
proof (rule nth_equalityI)
  fix i assume "i < length (word_bits (ucast b OR push_bit k v :: uint64) 0 64)"
  then have i: "i < 64" by simp
  have b: "bit b i \<Longrightarrow> i < k" for i
  proof -
    assume "bit b i"
    moreover have "\<not> bit (drop_bit k b) (i - k)" using assms(1) by simp
    ultimately show "i < k" by (cases "i < k") (simp_all add: bit_drop_bit_eq)
  qed
  have v: "bit v j \<Longrightarrow> j < n" for j
  proof -
    assume "bit v j"
    then have "bit (unat v) j" by (simp add: unat_bit_iff)
    moreover have "take_bit n (unat v) = unat v" using assms(4) by (simp add: take_bit_nat_eq_self)
    ultimately show "j < n" by (metis bit_take_bit_iff)
  qed
  show "word_bits (ucast b OR push_bit k v :: uint64) 0 64 ! i =
      (word_bits b 0 k @ val_bits n (unat v) @ replicate (64 - (k + n)) False) ! i"
  proof -
    consider "i < k" | "k \<le> i" "i < k + n" | "k + n \<le> i" by linarith
    then show ?thesis
    proof cases
      case 1
      then show ?thesis using i by (simp add: word_bits_def nth_append bit_simps)
    next
      case 2
      then have "i - k < n" by linarith
      then show ?thesis using 2 i b [of i]
        by (auto simp: word_bits_def val_bits_def nth_append bit_simps unat_bit_iff)
    next
      case 3
      then have "\<not> i - k < n" by linarith
      then show ?thesis using 3 i b [of i] v [of "i - k"]
        by (auto simp: word_bits_def val_bits_def nth_append bit_simps)
    qed
  qed
qed (use assms in simp)

section \<open>Both variants append\<close>

lemma written_split:
  assumes "storage_ix st div 8 < length (storage st)"
  shows "written st = bytes_bits (take (storage_ix st div 8) (storage st)) @
    word_bits (storage st ! (storage_ix st div 8)) 0 (storage_ix st mod 8)"
proof -
  define p where "p = storage_ix st div 8"
  define k where "k = storage_ix st mod 8"
  have ix: "storage_ix st = 8 * p + k" "k < 8" by (simp_all add: p_def k_def)
  have "take (8 * p + k) (bytes_bits (storage st)) =
      take (8 * p) (bytes_bits (storage st)) @ take k (drop (8 * p) (bytes_bits (storage st)))"
    by (rule take_add)
  moreover have "drop p (storage st) = storage st ! p # drop (Suc p) (storage st)"
    using assms by (simp add: p_def Cons_nth_drop_Suc)
  ultimately show ?thesis using ix
    by (simp add: written_def take_bytes_bits drop_bytes_bits byte_bits_def take_word_bits
        flip: p_def k_def)
qed

lemma storage_ok_iff:
  "storage_ok st \<longleftrightarrow> storage_ix st div 8 < length (storage st) \<and>
    (\<forall>i. storage_ix st mod 8 \<le> i \<longrightarrow> \<not> bit (storage st ! (storage_ix st div 8)) i)"
proof -
  have "drop_bit k (w :: uint8) = 0 \<longleftrightarrow> (\<forall>i. k \<le> i \<longrightarrow> \<not> bit w i)" for k w
  proof
    show "\<forall>i. k \<le> i \<longrightarrow> \<not> bit w i" if "drop_bit k w = 0"
    proof (intro allI impI)
      fix i assume "k \<le> i"
      have "\<not> bit (drop_bit k w) (i - k)" using that by simp
      then show "\<not> bit w i" using \<open>k \<le> i\<close> by (simp add: bit_drop_bit_eq)
    qed
  next
    assume "\<forall>i. k \<le> i \<longrightarrow> \<not> bit w i"
    then show "drop_bit k w = 0" by (intro bit_eqI) (simp add: bit_drop_bit_eq)
  qed
  then show ?thesis by (simp add: storage_ok_def)
qed

lemma nth_bytes_bits:
  assumes "q < length a" and "j < 8"
  shows "bytes_bits a ! (8 * q + j) \<longleftrightarrow> bit (a ! q) j"
proof -
  have "bytes_bits a ! (8 * q + j) = drop (8 * q) (bytes_bits a) ! j" using assms by simp
  also have "\<dots> = (byte_bits (a ! q) @ bytes_bits (drop (Suc q) a)) ! j"
    using assms by (simp add: drop_bytes_bits Cons_nth_drop_Suc [symmetric])
  also have "\<dots> = bit (a ! q) j"
    using assms by (simp add: nth_append byte_bits_def word_bits_def del: upt_rec_numeral)
  finally show ?thesis .
qed

text \<open>What replacing the bytes from the position on must achieve, for the position to move by \<open>n\<close>.\<close>

lemma write_effect:
  assumes ok: "storage_ix st div 8 < length (storage st)" and len: "length a = length (storage st)"
    and pre: "take (storage_ix st div 8) a = take (storage_ix st div 8) (storage st)"
    and new: "bytes_bits (drop (storage_ix st div 8) a) =
      word_bits (storage st ! (storage_ix st div 8)) 0 (storage_ix st mod 8) @ w @ replicate x False @ rest"
    and x: "8 * ((storage_ix st mod 8 + length w) div 8 + 1) \<le> storage_ix st mod 8 + length w + x"
  shows "written \<lparr>storage_ix = storage_ix st + length w, storage = a\<rparr> = written st @ w"
    and "storage_ok \<lparr>storage_ix = storage_ix st + length w, storage = a\<rparr>"
proof -
  define p where "p = storage_ix st div 8"
  define k where "k = storage_ix st mod 8"
  define n where "n = length w"
  have ix: "storage_ix st = 8 * p + k" "k < 8" by (simp_all add: p_def k_def)
  define b where "b = word_bits (storage st ! p) 0 k"
  have lb: "length b = k" by (simp add: b_def)
  have ws: "written st = bytes_bits (take p (storage st)) @ b"
    using written_split [OF ok] by (simp add: p_def k_def b_def)
  have all: "bytes_bits a = bytes_bits (take p a) @ b @ w @ replicate x False @ rest"
    using new append_take_drop_id [of p a] bytes_bits_append [of "take p a" "drop p a"] by (simp add: p_def k_def b_def)
  have lp: "length (bytes_bits (take p a)) = 8 * p" using ok len by (simp add: p_def)
  have "take (8 * p + k + n) (bytes_bits a) = bytes_bits (take p a) @ b @ w"
    unfolding all using lp lb by (simp add: n_def)
  then show "written \<lparr>storage_ix = storage_ix st + length w, storage = a\<rparr> = written st @ w"
    using ws pre [folded p_def] unfolding written_def ix(1) by (simp add: n_def add.assoc flip: p_def)
  define j where "j = (k + n) div 8"
  have q: "(8 * p + k + n) div 8 = p + j" "(8 * p + k + n) mod 8 = (k + n) mod 8"
    unfolding j_def by presburger+
  have total: "length (bytes_bits a) = 8 * p + (k + n + x + length rest)" unfolding all using lp lb by (simp add: n_def)
  then have la: "8 * (p + j + 1) \<le> 8 * length a" using x by (simp add: j_def k_def n_def)
  have "\<not> bit (a ! (p + j)) i" if "(k + n) mod 8 \<le> i" for i
  proof (cases "i < 8")
    case True
    have x': "8 * (j + 1) \<le> k + n + x" using x by (simp add: j_def k_def n_def)
    have "8 * j + i \<ge> k + n" using that mult_div_mod_eq [of 8 "k + n", folded j_def] by linarith
    moreover have "8 * j + i < k + n + x" using x' True by (simp add: algebra_simps)
    ultimately obtain m where m: "8 * j + i = length (b @ w) + m" "m < x"
      using le_Suc_ex [of "k + n" "8 * j + i"] lb by (auto simp: n_def)
    have "bytes_bits a ! (8 * (p + j) + i) = ((b @ w) @ replicate x False @ rest) ! (8 * j + i)"
      unfolding all using lp by (simp add: nth_append)
    also have "\<dots> = (replicate x False @ rest) ! m" unfolding m(1) by (rule nth_append_length_plus)
    also have "\<dots> = False" using m(2) by (simp add: nth_append)
    finally show ?thesis using nth_bytes_bits [of "p + j" a i] True la by simp
  next
    case False
    then show ?thesis by (auto dest: bit_imp_le_length)
  qed
  then show "storage_ok \<lparr>storage_ix = storage_ix st + length w, storage = a\<rparr>"
    using la by (simp add: storage_ok_iff ix(1) q flip: n_def)
qed

lemma BrotliWriteBits_spec:
  assumes r: "room st (n + m)" and n: "n \<le> 56" and b: "unat b < 2 ^ n"
  shows "\<exists>st'. BrotliWriteBits n b st = Some st' \<and> written st' = written st @ val_bits n (unat b) \<and>
    room st' m \<and> length (storage st') = length (storage st) \<and> storage_ix st' = storage_ix st + n"
proof -
  define p where "p = storage_ix st div 8"
  define k where "k = storage_ix st mod 8"
  define a where "a = storage st"
  define v where "v = (ucast (a ! p) OR push_bit k b :: uint64)"
  define a' where "a' = take p a @ le_bytes 8 v @ drop (p + 8) a"
  have k: "k < 8" "k + n \<le> 63" using n by (simp_all add: k_def)
  have "storage_ix st div 8 \<le> (storage_ix st + (n + m)) div 8" by (rule div_le_mono) simp
  then have p: "p + 8 \<le> length a" using r unfolding room_def p_def a_def by linarith
  have z: "drop_bit k (a ! p) = 0" using r by (simp add: room_def storage_ok_def a_def p_def k_def)
  have run: "BrotliWriteBits n b st = Some \<lparr>storage_ix = storage_ix st + n, storage = a'\<rparr>"
    using p by (simp add: BrotliWriteBits_def store64le_def arr_copy_def a'_def v_def Let_def flip: p_def k_def a_def)
  have la: "length a' = length a" using p by (simp add: a'_def)
  have "bytes_bits (drop p a') = word_bits v 0 64 @ bytes_bits (drop (p + 8) a)"
    using p bytes_bits_le_bytes [of 8 v] by (simp add: a'_def)
  also have "word_bits v 0 64 = word_bits (a ! p) 0 k @ val_bits n (unat b) @ replicate (64 - (k + n)) False"
    unfolding v_def by (rule word_bits_or_push [OF z k(1) n b])
  finally have new: "bytes_bits (drop p a') = word_bits (a ! p) 0 k @ val_bits n (unat b) @
    replicate (64 - (k + n)) False @ bytes_bits (drop (p + 8) a)" by simp
  have "(k + n) div 8 < 8" using k(2) by (simp add: less_mult_imp_div_less)
  then have x: "8 * ((k + n) div 8 + 1) \<le> k + n + (64 - (k + n))" using k(2) by simp
  note eff = write_effect [of st a' "val_bits n (unat b)" "64 - (k + n)" "bytes_bits (drop (p + 8) a)",
      folded p_def k_def a_def]
  have pl: "p < length a" "take p a' = take p a" using p by (simp_all add: a'_def)
  have "written \<lparr>storage_ix = storage_ix st + n, storage = a'\<rparr> = written st @ val_bits n (unat b)"
    "storage_ok \<lparr>storage_ix = storage_ix st + n, storage = a'\<rparr>"
    using eff [OF pl(1) la pl(2) new] x by simp_all
  then show ?thesis using run r la by (simp add: room_def a_def add.assoc)
qed

text \<open>The portable variant writes the same bytes up to the one the position is in, one at a time.\<close>

lemma write_bytes_spec:
  assumes "q + (left - 1) div 8 \<le> length a"
  shows "write_bytes left v q a = Some (q + (left - 1) div 8,
    take q a @ map (\<lambda>i. ucast (drop_bit (8 * (i + 1)) v)) [0..<(left - 1) div 8] @ drop (q + (left - 1) div 8) a)"
  using assms
proof (induction left v q a rule: write_bytes.induct)
  case (1 left v q a)
  show ?case
  proof (cases "left \<ge> 9")
    case True
    define c where "c = (left - 8 - 1) div 8"
    have c: "(left - 1) div 8 = Suc c" using True by (simp add: c_def div_if [of "left - 1"])
    define a1 where "a1 = a[q := ucast (drop_bit 8 v)]"
    have q: "q < length a" "q + 1 + c \<le> length a1" using 1(2) unfolding c a1_def by simp_all
    have a1: "arr_set a q (ucast (drop_bit 8 v)) = Some a1" using q(1) by (simp add: a1_def)
    have IH: "write_bytes (left - 8) (drop_bit 8 v) (q + 1) a1 = Some (q + 1 + c,
        take (q + 1) a1 @ map (\<lambda>i. ucast (drop_bit (8 * (i + 1)) (drop_bit 8 v))) [0..<c] @ drop (q + 1 + c) a1)"
      using 1(1) [OF True refl a1] q(2) unfolding c_def by simp
    have "take (q + 1) a1 = take q a @ [ucast (drop_bit 8 v)]"
      using q(1) by (simp add: a1_def take_Suc_conv_app_nth)
    moreover have "drop (q + 1 + c) a1 = drop (q + 1 + c) a" by (simp add: a1_def)
    moreover have "map (\<lambda>i. ucast (drop_bit (8 * (i + 1)) v)) [0..<Suc c] =
        ucast (drop_bit 8 v) # map (\<lambda>i. ucast (drop_bit (8 * (i + 1)) (drop_bit 8 v)) :: uint8) [0..<c]"
      by (simp add: map_upt_Suc add.commute del: upt_Suc)
    ultimately show ?thesis using IH True a1 unfolding c by (simp add: write_bytes.simps [of left])
  next
    case False
    then show ?thesis by (simp add: write_bytes.simps [of left])
  qed
qed

lemma BrotliWriteBits_bytes_spec:
  assumes r: "room st (n + m)" and n: "n \<le> 56" and b: "unat b < 2 ^ n"
  shows "\<exists>st'. BrotliWriteBits_bytes n b st = Some st' \<and> written st' = written st @ val_bits n (unat b) \<and>
    room st' m \<and> length (storage st') = length (storage st) \<and> storage_ix st' = storage_ix st + n"
proof -
  define p where "p = storage_ix st div 8"
  define k where "k = storage_ix st mod 8"
  define a where "a = storage st"
  define w where "w = (ucast (a ! p) OR push_bit k b :: uint64)"
  define c where "c = (n + k - 1) div 8"
  define a' where "a' = take p a @ le_bytes (Suc c) w @ [0] @ drop (p + c + 2) a"
  have k: "k < 8" "k + n \<le> 63" using n by (simp_all add: k_def)
  have c: "c \<le> 7" "8 * c \<le> n + k" "n + k \<le> 8 * c + 8"
    using k mult_div_mod_eq [of 8 "n + k - 1", folded c_def] mod_less_divisor [of 8 "n + k - 1"] by linarith+
  have p: "p + c + 2 \<le> length a"
  proof -
    have "8 * p + k = storage_ix st" by (simp add: p_def k_def)
    moreover have "c \<le> (n + k) div 8" unfolding c_def by (rule div_le_mono) simp
    moreover have "(8 * p + (n + k)) div 8 = p + (n + k) div 8" by simp
    moreover have "(8 * p + (n + k)) div 8 \<le> (8 * p + k + (n + m)) div 8" by (rule div_le_mono) simp
    ultimately have "p + c \<le> (storage_ix st + (n + m)) div 8" by linarith
    then show ?thesis using r unfolding room_def a_def by simp
  qed
  have z: "drop_bit k (a ! p) = 0" using r by (simp add: room_def storage_ok_def a_def p_def k_def)
  have low: "\<not> bit (a ! p) i" if "k \<le> i" for i
    using r that by (simp add: room_def storage_ok_iff a_def p_def k_def)
  have hi: "drop_bit (8 + 8 * i) w = drop_bit (8 + 8 * i) (push_bit k b)" for i
    using k(1) by (intro bit_eqI) (auto simp: w_def bit_simps low)
  have first: "a ! p OR ucast (push_bit k b) = (ucast (drop_bit 0 w) :: uint8)"
    by (rule bit_eqI) (auto simp: w_def bit_simps)
  have bytes: "(ucast (drop_bit 0 w) :: uint8) # map (\<lambda>i. ucast (drop_bit (8 * (i + 1)) (push_bit k b))) [0..<c]
      = le_bytes (Suc c) w"
    by (simp add: le_bytes_def map_upt_Suc hi del: upt_Suc)
  define a1 where "a1 = a[p := a ! p OR ucast (push_bit k b)]"
  have tk: "take (p + 1) a1 = take p a @ [ucast (drop_bit 0 w)]" "drop (p + 1 + c) a1 = drop (p + 1 + c) a"
    "length a1 = length a" "p + 1 + c \<le> length a1"
    using p by (simp_all add: a1_def first take_Suc_conv_app_nth)
  have l: "take (p + 1) a1 @ map (\<lambda>i. ucast (drop_bit (8 * (i + 1)) (push_bit k b))) [0..<c] @ drop (p + 1 + c) a1
      = take p a @ le_bytes (Suc c) w @ drop (p + 1 + c) a"
    unfolding tk(1,2) by (simp flip: bytes)
  have "write_bytes (n + k) (push_bit k b) (p + 1) a1 =
      Some (p + 1 + c, take p a @ le_bytes (Suc c) w @ drop (p + 1 + c) a)"
    using write_bytes_spec [of "p + 1" "n + k" a1 "push_bit k b", folded c_def, unfolded l] tk(4) by simp
  moreover have "(take p a @ le_bytes (Suc c) w @ drop (p + 1 + c) a)[p + 1 + c := 0] = a'"
    using p by (simp add: a'_def list_update_append Cons_nth_drop_Suc [symmetric])
  ultimately have run: "BrotliWriteBits_bytes n b st = Some \<lparr>storage_ix = storage_ix st + n, storage = a'\<rparr>"
    using p by (simp add: BrotliWriteBits_bytes_def Let_def a1_def flip: p_def k_def a_def)
  have la: "length a' = length a" using p by (simp add: a'_def)
  have w64: "word_bits w 0 64 = word_bits (a ! p) 0 k @ val_bits n (unat b) @ replicate (64 - (k + n)) False"
    unfolding w_def by (rule word_bits_or_push [OF z k(1) n b])
  have "word_bits w 0 (8 * Suc c) = take (8 * Suc c) (word_bits w 0 64)"
    using c(1) take_word_bits [of 0 "8 * Suc c" 64 w] by simp
  also have "\<dots> = word_bits (a ! p) 0 k @ val_bits n (unat b) @ replicate (8 * Suc c - (k + n)) False"
  proof -
    have "8 * Suc c - (k + n) \<le> 64 - (k + n)" by (rule diff_le_mono) (use c in simp)
    moreover have le: "k + n \<le> 8 * Suc c" using c(3) by simp
    moreover have "k \<le> 8 * Suc c" "n \<le> 8 * Suc c - k" using le by linarith+
    ultimately show ?thesis unfolding w64 by (simp del: mult_Suc_right)
  qed
  finally have "bytes_bits (drop p a') = word_bits (a ! p) 0 k @ val_bits n (unat b) @
      replicate (8 * Suc c - (k + n)) False @ byte_bits 0 @ bytes_bits (drop (p + c + 2) a)"
    using p bytes_bits_le_bytes [of "Suc c" w] by (simp add: a'_def)
  moreover have "byte_bits 0 = replicate 8 False" by (simp add: byte_bits_def word_bits_def list_eq_iff_nth_eq del: upt_rec_numeral)
  ultimately have new: "bytes_bits (drop p a') = word_bits (a ! p) 0 k @ val_bits n (unat b) @
      replicate (8 * Suc c - (k + n) + 8) False @ bytes_bits (drop (p + c + 2) a)"
    by (simp add: replicate_add)
  have x: "8 * ((k + n) div 8 + 1) \<le> k + n + (8 * Suc c - (k + n) + 8)"
  proof -
    have "(k + n) div 8 \<le> (8 * (c + 1)) div 8" by (rule div_le_mono) (use c in simp)
    then have "8 * ((k + n) div 8 + 1) \<le> 8 * c + 16" by simp
    also have "\<dots> = k + n + (8 * Suc c - (k + n) + 8)" using c by simp
    finally show ?thesis .
  qed
  note eff = write_effect [of st a' "val_bits n (unat b)" "8 * Suc c - (k + n) + 8" "bytes_bits (drop (p + c + 2) a)",
      folded p_def k_def a_def]
  have pl: "p < length a" "take p a' = take p a" using p by (simp_all add: a'_def)
  have "written \<lparr>storage_ix = storage_ix st + n, storage = a'\<rparr> = written st @ val_bits n (unat b)"
    "storage_ok \<lparr>storage_ix = storage_ix st + n, storage = a'\<rparr>"
    using eff [OF pl(1) la pl(2) new] x by simp_all
  then show ?thesis using run r la by (simp add: room_def a_def add.assoc)
qed

section \<open>The writer as an interface\<close>

text \<open>
  What the rest of the encoder relies on: a write of at most 56 bits, where there is room, appends the bits
  of the number and leaves room for what is to follow.
\<close>

locale bit_sink =
  fixes wr :: "nat \<Rightarrow> uint64 \<Rightarrow> 's \<Rightarrow> 's option"
    and out :: "'s \<Rightarrow> bits"
    and has_room :: "'s \<Rightarrow> nat \<Rightarrow> bool"
  assumes wr_appends: "\<lbrakk>has_room s (n + m); n \<le> 56; unat b < 2 ^ n\<rbrakk> \<Longrightarrow>
      \<exists>s'. wr n b s = Some s' \<and> out s' = out s @ val_bits n (unat b) \<and> has_room s' m"
begin

lemma wr_nat:
  assumes "has_room s (n + m)" and "n \<le> 56" and "v < 2 ^ n"
  shows "\<exists>s'. wr n (of_nat v) s = Some s' \<and> out s' = out s @ val_bits n v \<and> has_room s' m"
proof -
  have "(2 :: nat) ^ n \<le> 2 ^ 56" using assms(2) by (rule power_increasing) simp
  then have "unat (of_nat v :: uint64) = v" using assms(3) by (simp add: unat_of_nat take_bit_nat_eq_self)
  then show ?thesis using wr_appends [of s n m "of_nat v"] assms by simp
qed

lemma wr_fields:
  assumes "has_room s (sum_list (map fst fs) + m)" and "list_all (\<lambda>(n, v). n \<le> 56 \<and> v < 2 ^ n) fs"
  shows "\<exists>s'. foldM (\<lambda>(n, v). wr n (of_nat v)) fs s = Some s' \<and>
    out s' = out s @ concat (map (\<lambda>(n, v). val_bits n v) fs) \<and> has_room s' m"
  using assms
proof (induction fs arbitrary: s)
  case (Cons f fs)
  obtain n v where f: "f = (n, v)" by (cases f)
  have "has_room s (n + (sum_list (map fst fs) + m))" "n \<le> 56" "v < 2 ^ n"
    using Cons.prems by (simp_all add: f add.assoc)
  from wr_nat [OF this] obtain s1 where s1: "wr n (of_nat v) s = Some s1" "out s1 = out s @ val_bits n v"
    "has_room s1 (sum_list (map fst fs) + m)" by blast
  have "list_all (\<lambda>(n, v). n \<le> 56 \<and> v < 2 ^ n) fs" using Cons.prems(2) by simp
  from Cons.IH [OF s1(3) this] show ?case by (auto simp: f s1)
qed simp

end

interpretation le64: bit_sink BrotliWriteBits written room
  by unfold_locales (use BrotliWriteBits_spec in blast)

interpretation portable: bit_sink BrotliWriteBits_bytes written room
  by unfold_locales (use BrotliWriteBits_bytes_spec in blast)

end
