(* ===== verification/Enc_Commands.thy ===== *)
theory Enc_Commands
  imports Brotli_Constants Write_Bits
begin

text \<open>
  The commands of the encoder: \<^verbatim>\<open>enc/command.h\<close>, \<^verbatim>\<open>enc/command.c\<close>, \<^verbatim>\<open>enc/prefix.h\<close>, \<open>Log2FloorNonZero\<close> of
  \<^verbatim>\<open>enc/fast_log.h\<close>, and the part of \<^verbatim>\<open>enc/brotli_bit_stream.c\<close> that turns lengths and block types into
  codes.  A \<open>size_t\<close> is a \<open>nat\<close>; the sums the code forms of them stay below \<open>2^64\<close>.
\<close>

section \<open>Logarithms\<close>

fun log2_floor :: "nat \<Rightarrow> nat" where
  "log2_floor n = (if n < 2 then 0 else Suc (log2_floor (n div 2)))"

declare log2_floor.simps [simp del]

text \<open>\<open>BROTLI_BSR32((uint32_t)n)\<close>; \<open>__builtin_clz(0)\<close> is undefined.\<close>

definition Log2FloorNonZero :: "nat \<Rightarrow> nat option" where
  "Log2FloorNonZero n = (let x = n mod 2 ^ 32 in if x = 0 then None else Some (log2_floor x))"

text \<open>The variant without the builtin: \<open>while (n >>= 1) result++;\<close>\<close>

definition Log2FloorNonZero_loop :: "nat \<Rightarrow> nat" where
  "Log2FloorNonZero_loop n = log2_floor n"

section \<open>Length codes\<close>

definition kBrotliInsBase :: "uint32 list" where
  "kBrotliInsBase = [
     0, 1, 2, 3, 4, 5, 6, 8, 10, 14, 18, 26,
     34, 50, 66, 98, 130, 194, 322, 578, 1090, 2114, 6210, 22594]"

definition kBrotliInsExtra :: "uint32 list" where
  "kBrotliInsExtra = [0, 0, 0, 0, 0, 0, 1, 1, 2, 2, 3, 3, 4, 4, 5, 5, 6, 7, 8, 9, 10, 12, 14, 24]"

definition kBrotliCopyBase :: "uint32 list" where
  "kBrotliCopyBase = [
     2, 3, 4, 5, 6, 7, 8, 9, 10, 12, 14, 18,
     22, 30, 38, 54, 70, 102, 134, 198, 326, 582, 1094, 2118]"

definition kBrotliCopyExtra :: "uint32 list" where
  "kBrotliCopyExtra = [0, 0, 0, 0, 0, 0, 0, 0, 1, 1, 2, 2, 3, 3, 4, 4, 5, 5, 6, 7, 8, 9, 10, 24]"

definition GetInsertLengthCode :: "nat \<Rightarrow> uint16 option" where
  "GetInsertLengthCode insertlen =
     (if insertlen < 6 then Some (of_nat insertlen)
      else if insertlen < 130 then do {
        l \<leftarrow> Log2FloorNonZero (insertlen - 2);
        let nbits = l - 1;
        Some (of_nat (2 * nbits + drop_bit nbits (insertlen - 2) + 2)) }
      else if insertlen < 2114 then do {
        l \<leftarrow> Log2FloorNonZero (insertlen - 66);
        Some (of_nat (l + 10)) }
      else if insertlen < 6210 then Some 21
      else if insertlen < 22594 then Some 22
      else Some 23)"

definition GetCopyLengthCode :: "nat \<Rightarrow> uint16 option" where
  "GetCopyLengthCode copylen =
     (if copylen < 10 then Some (of_nat copylen - 2)
      else if copylen < 134 then do {
        l \<leftarrow> Log2FloorNonZero (copylen - 6);
        let nbits = l - 1;
        Some (of_nat (2 * nbits + drop_bit nbits (copylen - 6) + 4)) }
      else if copylen < 2118 then do {
        l \<leftarrow> Log2FloorNonZero (copylen - 70);
        Some (of_nat (l + 12)) }
      else Some 23)"

definition CombineLengthCodes :: "uint16 \<Rightarrow> uint16 \<Rightarrow> bool \<Rightarrow> uint16 option" where
  "CombineLengthCodes inscode copycode use_last_distance =
     (let bits64 = (copycode AND 0x7) OR push_bit 3 (inscode AND 0x7) in
      if use_last_distance \<and> inscode < 8 \<and> copycode < 16 then
        Some (if copycode < 8 then bits64 else bits64 OR 64)
      else do {
        let offset = (2 * (ucast (drop_bit 3 copycode) + 3 * ucast (drop_bit 3 inscode)) :: uint32);
        magic \<leftarrow> shr32 0x520D40 offset;
        let offset = push_bit 5 offset + 0x40 + (magic AND 0xC0);
        Some (ucast (offset OR ucast bits64)) })"

definition GetLengthCode :: "nat \<Rightarrow> nat \<Rightarrow> bool \<Rightarrow> uint16 option" where
  "GetLengthCode insertlen copylen use_last_distance = do {
     inscode \<leftarrow> GetInsertLengthCode insertlen;
     copycode \<leftarrow> GetCopyLengthCode copylen;
     CombineLengthCodes inscode copycode use_last_distance }"

definition GetInsertBase :: "uint16 \<Rightarrow> uint32 option" where
  "GetInsertBase inscode = arr_get kBrotliInsBase (unat inscode)"

definition GetInsertExtra :: "uint16 \<Rightarrow> uint32 option" where
  "GetInsertExtra inscode = arr_get kBrotliInsExtra (unat inscode)"

definition GetCopyBase :: "uint16 \<Rightarrow> uint32 option" where
  "GetCopyBase copycode = arr_get kBrotliCopyBase (unat copycode)"

definition GetCopyExtra :: "uint16 \<Rightarrow> uint32 option" where
  "GetCopyExtra copycode = arr_get kBrotliCopyExtra (unat copycode)"

section \<open>Distance codes\<close>

record BrotliDistanceParams =
  distance_postfix_bits :: uint32
  num_direct_distance_codes :: uint32
  dp_alphabet_size_max :: uint32
  dp_alphabet_size_limit :: uint32
  dp_max_distance :: nat

text \<open>The code with its number of extra bits in the six high bits, and the extra bits.\<close>

definition PrefixEncodeCopyDistance :: "nat \<Rightarrow> nat \<Rightarrow> nat \<Rightarrow> (uint16 \<times> uint32) option" where
  "PrefixEncodeCopyDistance distance_code num_direct_codes postfix_bits =
     (if distance_code < 16 + num_direct_codes then Some (of_nat distance_code, 0)
      else do {
        let dist = 2 ^ (postfix_bits + 2) + (distance_code - 16 - num_direct_codes);
        l \<leftarrow> Log2FloorNonZero dist;
        let bucket = l - 1;
        let postfix_mask = 2 ^ postfix_bits - 1;
        let postfix = dist AND postfix_mask;
        let prefix = drop_bit bucket dist AND 1;
        let offset = (2 + prefix) * 2 ^ bucket;
        let nbits = bucket - postfix_bits;
        Some (of_nat (push_bit 10 nbits OR
                (16 + num_direct_codes + (2 * (nbits - 1) + prefix) * 2 ^ postfix_bits + postfix)),
              of_nat (drop_bit postfix_bits (dist - offset))) })"

section \<open>Commands\<close>

record Command =
  insert_len :: uint32
  copy_len :: uint32      \<comment> \<open>\<open>copy_len\<close> in the low 25 bits, \<open>copy_code - copy_len\<close> in the high 7\<close>
  dist_extra :: uint32
  cmd_prefix :: uint16
  dist_prefix :: uint16   \<comment> \<open>the distance code in the low 10 bits, the number of extra bits in the high 6\<close>

definition InitCommand :: "BrotliDistanceParams \<Rightarrow> nat \<Rightarrow> nat \<Rightarrow> int \<Rightarrow> nat \<Rightarrow> Command option" where
  "InitCommand dist insertlen copylen copylen_code_delta distance_code = do {
     let delta = (ucast (of_int copylen_code_delta :: uint8) :: uint32);
     (prefix, extra) \<leftarrow> PrefixEncodeCopyDistance distance_code
        (unat (num_direct_distance_codes dist)) (unat (distance_postfix_bits dist));
     code \<leftarrow> GetLengthCode insertlen
       (nat ((sint (of_nat copylen :: uint32) + copylen_code_delta) mod 2 ^ 64)) (prefix AND 0x3FF = 0);
     Some \<lparr>insert_len = of_nat insertlen, copy_len = of_nat copylen OR push_bit 25 delta,
           dist_extra = extra, cmd_prefix = code, dist_prefix = prefix\<rparr> }"

definition InitInsertCommand :: "nat \<Rightarrow> Command option" where
  "InitInsertCommand insertlen = do {
     code \<leftarrow> GetLengthCode insertlen 4 False;
     Some \<lparr>insert_len = of_nat insertlen, copy_len = push_bit 25 4, dist_extra = 0,
           cmd_prefix = code, dist_prefix = 16\<rparr> }"

definition CommandRestoreDistanceCode :: "Command \<Rightarrow> BrotliDistanceParams \<Rightarrow> uint32 option" where
  "CommandRestoreDistanceCode c dist = do {
     let dcode = (ucast (dist_prefix c AND 0x3FF) :: uint32);
     if dcode < BROTLI_NUM_DISTANCE_SHORT_CODES + num_direct_distance_codes dist then Some dcode
     else do {
       let nbits = (ucast (drop_bit 10 (dist_prefix c)) :: uint32);
       p \<leftarrow> shl32 1 (distance_postfix_bits dist);
       let postfix_mask = p - 1;
       let d = dcode - num_direct_distance_codes dist - BROTLI_NUM_DISTANCE_SHORT_CODES;
       hcode \<leftarrow> shr32 d (distance_postfix_bits dist);
       let lcode = d AND postfix_mask;
       o2 \<leftarrow> shl32 (2 + (hcode AND 1)) nbits;
       let offset = o2 - 4;
       x \<leftarrow> shl32 (offset + dist_extra c) (distance_postfix_bits dist);
       Some (x + lcode + num_direct_distance_codes dist + BROTLI_NUM_DISTANCE_SHORT_CODES) } }"

definition CommandDistanceContext :: "Command \<Rightarrow> uint32" where
  "CommandDistanceContext c =
     (let r = drop_bit 6 (cmd_prefix c); x = cmd_prefix c AND 7
      in if (r = 0 \<or> r = 2 \<or> r = 4 \<or> r = 7) \<and> x \<le> 2 then ucast x else 3)"

definition CommandCopyLen :: "Command \<Rightarrow> uint32" where
  "CommandCopyLen c = copy_len c AND 0x1FFFFFF"

definition CommandCopyLenCode :: "Command \<Rightarrow> uint32" where
  "CommandCopyLenCode c =
     (let modifier = drop_bit 25 (copy_len c);
          delta = ucast (modifier OR push_bit 1 (modifier AND 0x40)) :: uint8
      in (copy_len c AND 0x1FFFFFF) + scast delta)"

text \<open>\<^verbatim>\<open>enc/brotli_bit_stream.c\<close>\<close>

definition StoreCommandExtra :: "Command \<Rightarrow> bit_storage \<Rightarrow> bit_storage option" where
  "StoreCommandExtra c st = do {
     let copylen_code = CommandCopyLenCode c;
     inscode \<leftarrow> GetInsertLengthCode (unat (insert_len c));
     copycode \<leftarrow> GetCopyLengthCode (unat copylen_code);
     insnumextra \<leftarrow> GetInsertExtra inscode;
     insbase \<leftarrow> GetInsertBase inscode;
     copybase \<leftarrow> GetCopyBase copycode;
     copynumextra \<leftarrow> GetCopyExtra copycode;
     let insextraval = (ucast (insert_len c - insbase) :: uint64);
     let copyextraval = (ucast (copylen_code - copybase) :: uint64);
     let bits = push_bit (unat insnumextra) copyextraval OR insextraval;
     BrotliWriteBits (unat (insnumextra + copynumextra)) bits st }"

section \<open>Block lengths and types\<close>

function block_length_loop :: "nat \<Rightarrow> nat \<Rightarrow> nat option" where
  "block_length_loop len code =
     (if code < 25 then do {
        r \<leftarrow> arr_get kBrotliPrefixCodeRanges (code + 1);
        if len \<ge> unat (pcr_offset r) then block_length_loop len (code + 1) else Some code }
      else Some code)"
  by pat_completeness auto
termination
  by (relation "measure (\<lambda>(l, c). 25 - c)") auto

declare block_length_loop.simps [simp del]

definition BlockLengthPrefixCode :: "nat \<Rightarrow> nat option" where
  "BlockLengthPrefixCode len =
     block_length_loop len (if len \<ge> 177 then (if len \<ge> 753 then 20 else 14) else (if len \<ge> 41 then 7 else 0))"

text \<open>The code, the number of extra bits and the extra bits.\<close>

definition GetBlockLengthPrefixCode :: "nat \<Rightarrow> (nat \<times> nat \<times> uint32) option" where
  "GetBlockLengthPrefixCode len = do {
     code \<leftarrow> BlockLengthPrefixCode len;
     r \<leftarrow> arr_get kBrotliPrefixCodeRanges code;
     Some (code, unat (pcr_nbits r), of_nat len - ucast (pcr_offset r)) }"

record BlockTypeCodeCalculator =
  last_type :: nat
  second_last_type :: nat

definition InitBlockTypeCodeCalculator :: BlockTypeCodeCalculator where
  "InitBlockTypeCodeCalculator = \<lparr>last_type = 1, second_last_type = 0\<rparr>"

definition NextBlockTypeCode :: "BlockTypeCodeCalculator \<Rightarrow> uint8 \<Rightarrow> nat \<times> BlockTypeCodeCalculator" where
  "NextBlockTypeCode c type =
     (let t = unat type;
          code = (if t = last_type c + 1 then 1 else if t = second_last_type c then 0 else t + 2)
      in (code, \<lparr>last_type = t, second_last_type = last_type c\<rparr>))"

section \<open>Meta-block headers\<close>

text \<open>The bits of \<open>length - 1\<close>, their number, and the two bits for \<open>MNIBBLES\<close>.\<close>

definition BrotliEncodeMlen :: "nat \<Rightarrow> (uint64 \<times> nat \<times> uint64) option" where
  "BrotliEncodeMlen len = do {
     lg \<leftarrow> (if len = 1 then Some 1 else do { l \<leftarrow> Log2FloorNonZero (len - 1); Some (l + 1) });
     let mnibbles = (if lg < 16 then 16 else lg + 3) div 4;
     Some (of_nat (len - 1), mnibbles * 4, of_nat mnibbles - 4) }"

definition StoreVarLenUint8 :: "nat \<Rightarrow> bit_storage \<Rightarrow> bit_storage option" where
  "StoreVarLenUint8 n st =
     (if n = 0 then BrotliWriteBits 1 0 st
      else do {
        nbits \<leftarrow> Log2FloorNonZero n;
        st \<leftarrow> BrotliWriteBits 1 1 st;
        st \<leftarrow> BrotliWriteBits 3 (of_nat nbits) st;
        BrotliWriteBits nbits (of_nat (n - 2 ^ nbits)) st })"

definition StoreCompressedMetaBlockHeader :: "bool \<Rightarrow> nat \<Rightarrow> bit_storage \<Rightarrow> bit_storage option" where
  "StoreCompressedMetaBlockHeader is_final_block len st = do {
     st \<leftarrow> BrotliWriteBits 1 (of_bool is_final_block) st;
     st \<leftarrow> (if is_final_block then BrotliWriteBits 1 0 st else Some st);
     (lenbits, nlenbits, nibblesbits) \<leftarrow> BrotliEncodeMlen len;
     st \<leftarrow> BrotliWriteBits 2 nibblesbits st;
     st \<leftarrow> BrotliWriteBits nlenbits lenbits st;
     if \<not> is_final_block then BrotliWriteBits 1 0 st else Some st }"

definition BrotliStoreUncompressedMetaBlockHeader :: "nat \<Rightarrow> bit_storage \<Rightarrow> bit_storage option" where
  "BrotliStoreUncompressedMetaBlockHeader len st = do {
     st \<leftarrow> BrotliWriteBits 1 0 st;
     (lenbits, nlenbits, nibblesbits) \<leftarrow> BrotliEncodeMlen len;
     st \<leftarrow> BrotliWriteBits 2 nibblesbits st;
     st \<leftarrow> BrotliWriteBits nlenbits lenbits st;
     BrotliWriteBits 1 1 st }"

end
