(* ===== verification/Entropy_Encode.thy ===== *)
theory Entropy_Encode
  imports Brotli_Constants
begin

text \<open>
  \<^verbatim>\<open>enc/entropy_encode.h\<close> and \<^verbatim>\<open>enc/entropy_encode.c\<close>: Huffman trees for a histogram, the run-length form of
  their depths, and the code words.

  A \<open>HuffmanTree*\<close> is an array of nodes; \<open>int16_t\<close> members are \<open>int\<close>.  An uninitialised cell of the stack of
  \<open>BrotliSetDepth\<close> is \<open>None\<close>, and reading it, like any access outside an array, makes the result \<open>None\<close>; so
  does a loop that does not end.
\<close>

section \<open>Trees\<close>

record HuffmanTree =
  total_count :: uint32
  index_left :: int
  index_right_or_value :: int

definition int16_of :: "nat \<Rightarrow> int" where
  "int16_of n = sint (of_nat n :: 16 word)"

definition InitHuffmanTree :: "uint32 \<Rightarrow> int \<Rightarrow> int \<Rightarrow> HuffmanTree" where
  "InitHuffmanTree count left right =
     \<lparr>total_count = count, index_left = left, index_right_or_value = right\<rparr>"

text \<open>\<open>while (level >= 0 && stack[level] == -1) level--;\<close>\<close>

function pop_level :: "int option list \<Rightarrow> int \<Rightarrow> int option" where
  "pop_level stack level =
     (if level \<ge> 0 then do {
        c \<leftarrow> arr_geti stack level;
        v \<leftarrow> c;
        if v = - 1 then pop_level stack (level - 1) else Some level }
      else Some level)"
  by pat_completeness auto
termination
  by (relation "measure (\<lambda>(s, l). nat (l + 1))") auto

declare pop_level.simps [simp del]

partial_function (option) set_depth_loop ::
  "HuffmanTree list \<Rightarrow> int \<Rightarrow> int \<Rightarrow> int \<Rightarrow> int option list \<Rightarrow> uint8 list \<Rightarrow> (bool \<times> uint8 list) option" where
  [code]: "set_depth_loop pool max_depth p level stack depth = do {
     node \<leftarrow> arr_geti pool p;
     if index_left node \<ge> 0 then
       (let level = level + 1 in
        if level > max_depth then Some (False, depth)
        else do {
          stack \<leftarrow> arr_seti stack level (Some (index_right_or_value node));
          set_depth_loop pool max_depth (index_left node) level stack depth })
     else do {
       depth \<leftarrow> arr_seti depth (index_right_or_value node) (of_int level);
       level \<leftarrow> pop_level stack level;
       if level < 0 then Some (True, depth)
       else do {
         c \<leftarrow> arr_geti stack level;
         p \<leftarrow> c;
         stack \<leftarrow> arr_seti stack level (Some (- 1));
         set_depth_loop pool max_depth p level stack depth } } }"

definition BrotliSetDepth ::
  "int \<Rightarrow> HuffmanTree list \<Rightarrow> uint8 list \<Rightarrow> int \<Rightarrow> (bool \<times> uint8 list) option" where
  "BrotliSetDepth p0 pool depth max_depth =
     set_depth_loop pool max_depth p0 0 (Some (- 1) # replicate 15 None) depth"

section \<open>Sorting\<close>

definition SortHuffmanTree :: "HuffmanTree \<Rightarrow> HuffmanTree \<Rightarrow> bool" where
  "SortHuffmanTree v0 v1 =
     (if total_count v0 \<noteq> total_count v1 then total_count v0 < total_count v1
      else index_right_or_value v0 > index_right_or_value v1)"

text \<open>The comparator of \<^verbatim>\<open>enc/brotli_bit_stream.c\<close>\<close>

definition SortHuffmanTree_fast :: "HuffmanTree \<Rightarrow> HuffmanTree \<Rightarrow> bool" where
  "SortHuffmanTree_fast v0 v1 \<longleftrightarrow> total_count v0 < total_count v1"

definition kBrotliShellGaps :: "nat list" where
  "kBrotliShellGaps = [132, 57, 23, 10, 4, 1]"

text \<open>\<open>while (comparator(&tmp, &items[j])) { items[k] = items[j]; k = j; if (!j--) break; }\<close>\<close>

fun insertion_loop ::
  "('a \<Rightarrow> 'a \<Rightarrow> bool) \<Rightarrow> 'a \<Rightarrow> nat \<Rightarrow> nat \<Rightarrow> 'a list \<Rightarrow> (nat \<times> 'a list) option" where
  "insertion_loop cmp tmp j k items = do {
     x \<leftarrow> arr_get items j;
     if cmp tmp x then do {
       items \<leftarrow> arr_set items k x;
       (case j of 0 \<Rightarrow> Some (j, items) | Suc j' \<Rightarrow> insertion_loop cmp tmp j' j items) }
     else Some (k, items) }"

declare insertion_loop.simps [simp del]

definition insertion_step :: "('a \<Rightarrow> 'a \<Rightarrow> bool) \<Rightarrow> nat \<Rightarrow> 'a list \<Rightarrow> 'a list option" where
  "insertion_step cmp i items = do {
     tmp \<leftarrow> arr_get items i;
     (k, items) \<leftarrow> insertion_loop cmp tmp (i - 1) i items;
     arr_set items k tmp }"

text \<open>\<open>for (; j >= gap && comparator(&tmp, &items[j - gap]); j -= gap) items[j] = items[j - gap];\<close>\<close>

function shell_loop ::
  "('a \<Rightarrow> 'a \<Rightarrow> bool) \<Rightarrow> nat \<Rightarrow> 'a \<Rightarrow> nat \<Rightarrow> 'a list \<Rightarrow> (nat \<times> 'a list) option" where
  "shell_loop cmp gap tmp j items =
     (if gap = 0 then None
      else if j \<ge> gap then do {
        x \<leftarrow> arr_get items (j - gap);
        if cmp tmp x then do {
          items \<leftarrow> arr_set items j x;
          shell_loop cmp gap tmp (j - gap) items }
        else Some (j, items) }
      else Some (j, items))"
  by pat_completeness auto
termination
  by (relation "measure (\<lambda>(c, g, t, j, xs). j)") auto

declare shell_loop.simps [simp del]

definition shell_step :: "('a \<Rightarrow> 'a \<Rightarrow> bool) \<Rightarrow> nat \<Rightarrow> nat \<Rightarrow> 'a list \<Rightarrow> 'a list option" where
  "shell_step cmp gap i items = do {
     tmp \<leftarrow> arr_get items i;
     (j, items) \<leftarrow> shell_loop cmp gap tmp i items;
     arr_set items j tmp }"

definition SortHuffmanTreeItems ::
  "('a \<Rightarrow> 'a \<Rightarrow> bool) \<Rightarrow> nat \<Rightarrow> 'a list \<Rightarrow> 'a list option" where
  "SortHuffmanTreeItems cmp n items =
     (if n < 13 then foldM (insertion_step cmp) [1..<n] items
      else foldM (\<lambda>g items. do {
               gap \<leftarrow> arr_get kBrotliShellGaps g;
               foldM (shell_step cmp gap) [gap..<n] items })
             [(if n < 57 then 2 else 0)..<6] items)"

section \<open>Huffman's algorithm\<close>

definition tree_sentinel :: HuffmanTree where
  "tree_sentinel = InitHuffmanTree 0xFFFFFFFF (- 1) (- 1)"

text \<open>The leaves, from the last symbol to the first; \<open>n\<close> have been made.\<close>

definition tree_leaf ::
  "uint32 list \<Rightarrow> uint32 \<Rightarrow> nat \<Rightarrow> nat \<times> HuffmanTree list \<Rightarrow> (nat \<times> HuffmanTree list) option" where
  "tree_leaf data count_limit i nt = (case nt of (n, tree) \<Rightarrow> do {
     d \<leftarrow> arr_get data i;
     if d \<noteq> 0 then do {
       tree \<leftarrow> arr_set tree n (InitHuffmanTree (max d count_limit) (- 1) (int16_of i));
       Some (n + 1, tree) }
     else Some (n, tree) })"

text \<open>The smaller of the next leaf \<open>i\<close> and the next parent \<open>j\<close>, with the two positions moved on.\<close>

definition tree_pick :: "HuffmanTree list \<Rightarrow> nat \<Rightarrow> nat \<Rightarrow> (nat \<times> nat \<times> nat) option" where
  "tree_pick tree i j = do {
     a \<leftarrow> arr_get tree i;
     b \<leftarrow> arr_get tree j;
     Some (if total_count a \<le> total_count b then (i, i + 1, j) else (j, i, j + 1)) }"

definition tree_parent ::
  "nat \<Rightarrow> nat \<Rightarrow> nat \<times> nat \<times> HuffmanTree list \<Rightarrow> (nat \<times> nat \<times> HuffmanTree list) option" where
  "tree_parent n k ijt = (case ijt of (i, j, tree) \<Rightarrow> do {
     (left, i, j) \<leftarrow> tree_pick tree i j;
     (right, i, j) \<leftarrow> tree_pick tree i j;
     l \<leftarrow> arr_get tree left;
     r \<leftarrow> arr_get tree right;
     let j_end = 2 * n - k;
     tree \<leftarrow> arr_set tree j_end (InitHuffmanTree (total_count l + total_count r) (int16_of left) (int16_of right));
     tree \<leftarrow> arr_set tree (j_end + 1) tree_sentinel;
     Some (i, j, tree) })"

text \<open>One round of the outer loop: whether the tree fits, the tree and the depths.  With no leaf \<open>k\<close> would
  start at \<open>SIZE_MAX\<close>.\<close>

definition huffman_round ::
  "uint32 list \<Rightarrow> nat \<Rightarrow> int \<Rightarrow> uint32 \<Rightarrow> HuffmanTree list \<Rightarrow> uint8 list \<Rightarrow>
     (bool \<times> HuffmanTree list \<times> uint8 list) option" where
  "huffman_round data len tree_limit count_limit tree depth = do {
     (n, tree) \<leftarrow> foldM (tree_leaf data count_limit) (rev [0..<len]) (0, tree);
     if n = 0 then None
     else if n = 1 then do {
       t \<leftarrow> arr_get tree 0;
       depth \<leftarrow> arr_seti depth (index_right_or_value t) 1;
       Some (True, tree, depth) }
     else do {
       tree \<leftarrow> SortHuffmanTreeItems SortHuffmanTree n tree;
       tree \<leftarrow> arr_set tree n tree_sentinel;
       tree \<leftarrow> arr_set tree (n + 1) tree_sentinel;
       (i, j, tree) \<leftarrow> foldM (tree_parent n) (rev [1..<n]) (0, n + 1, tree);
       (ok, depth) \<leftarrow> BrotliSetDepth (int (2 * n - 1)) tree depth tree_limit;
       Some (ok, tree, depth) } }"

partial_function (option) huffman_rounds ::
  "uint32 list \<Rightarrow> nat \<Rightarrow> int \<Rightarrow> uint32 \<Rightarrow> HuffmanTree list \<Rightarrow> uint8 list \<Rightarrow> (HuffmanTree list \<times> uint8 list) option" where
  [code]: "huffman_rounds data len tree_limit count_limit tree depth = do {
     (ok, tree, depth) \<leftarrow> huffman_round data len tree_limit count_limit tree depth;
     if ok then Some (tree, depth) else huffman_rounds data len tree_limit (count_limit * 2) tree depth }"

definition BrotliCreateHuffmanTree ::
  "uint32 list \<Rightarrow> nat \<Rightarrow> int \<Rightarrow> HuffmanTree list \<Rightarrow> uint8 list \<Rightarrow> (HuffmanTree list \<times> uint8 list) option" where
  "BrotliCreateHuffmanTree data len tree_limit tree depth = huffman_rounds data len tree_limit 1 tree depth"

section \<open>Run lengths of the depths\<close>

record rle_buffer =
  rle_size :: nat
  rle_tree :: "uint8 list"
  rle_extra :: "uint8 list"

definition rle_put :: "uint8 \<Rightarrow> uint8 \<Rightarrow> rle_buffer \<Rightarrow> rle_buffer option" where
  "rle_put code extra b = do {
     t \<leftarrow> arr_set (rle_tree b) (rle_size b) code;
     x \<leftarrow> arr_set (rle_extra b) (rle_size b) extra;
     Some \<lparr>rle_size = rle_size b + 1, rle_tree = t, rle_extra = x\<rparr> }"

text \<open>\<open>Reverse\<close> swaps from both ends, \<open>end\<close> having been decremented.\<close>

function reverse_loop :: "'a list \<Rightarrow> nat \<Rightarrow> nat \<Rightarrow> 'a list option" where
  "reverse_loop v start fin =
     (if start < fin then do {
        tmp \<leftarrow> arr_get v start;
        x \<leftarrow> arr_get v fin;
        v \<leftarrow> arr_set v start x;
        v \<leftarrow> arr_set v fin tmp;
        reverse_loop v (start + 1) (fin - 1) }
      else Some v)"
  by pat_completeness auto
termination
  by (relation "measure (\<lambda>(v, s, e). e - s)") auto

declare reverse_loop.simps [simp del]

definition Reverse :: "'a list \<Rightarrow> nat \<Rightarrow> nat \<Rightarrow> 'a list option" where
  "Reverse v start fin = (if fin = 0 then None else reverse_loop v start (fin - 1))"

text \<open>The loop that writes the digits of a long run, \<open>w\<close> bits each.\<close>

function rle_digits :: "nat \<Rightarrow> uint8 \<Rightarrow> nat \<Rightarrow> rle_buffer \<Rightarrow> rle_buffer option" where
  "rle_digits w code reps b = do {
     b \<leftarrow> rle_put code (of_nat (take_bit w reps)) b;
     if drop_bit w reps = 0 then Some b else rle_digits w code (drop_bit w reps - 1) b }"
  by pat_completeness auto
termination
proof (relation "measure (\<lambda>(w, s, r, b). r)")
  fix w :: nat and code :: uint8 and reps :: nat and b b' :: rle_buffer
  assume "drop_bit w reps \<noteq> 0"
  moreover have "drop_bit w reps \<le> reps" by (simp add: drop_bit_eq_div div_le_dividend)
  ultimately have "drop_bit w reps - 1 < reps" by linarith
  then show "((w, code, drop_bit w reps - 1, b'), w, code, reps, b) \<in> measure (\<lambda>(w, s, r, b). r)" by simp
qed simp

declare rle_digits.simps [simp del]

fun rle_repeat :: "nat \<Rightarrow> uint8 \<Rightarrow> rle_buffer \<Rightarrow> rle_buffer option" where
  "rle_repeat 0 v b = Some b"
| "rle_repeat (Suc n) v b = Option.bind (rle_put v 0 b) (rle_repeat n v)"

definition rle_run :: "nat \<Rightarrow> uint8 \<Rightarrow> uint8 \<Rightarrow> nat \<Rightarrow> rle_buffer \<Rightarrow> rle_buffer option" where
  "rle_run w code v reps b =
     (if reps < 3 then rle_repeat reps v b
      else do {
        let start = rle_size b;
        b \<leftarrow> rle_digits w code (reps - 3) b;
        t \<leftarrow> Reverse (rle_tree b) start (rle_size b);
        x \<leftarrow> Reverse (rle_extra b) start (rle_size b);
        Some (b\<lparr>rle_tree := t, rle_extra := x\<rparr>) })"

definition BrotliWriteHuffmanTreeRepetitions ::
  "uint8 \<Rightarrow> uint8 \<Rightarrow> nat \<Rightarrow> rle_buffer \<Rightarrow> rle_buffer option" where
  "BrotliWriteHuffmanTreeRepetitions previous_value v repetitions b = do {
     (r, b) \<leftarrow> (if previous_value \<noteq> v then do { b \<leftarrow> rle_put v 0 b; Some (repetitions - 1, b) }
               else Some (repetitions, b));
     (r, b) \<leftarrow> (if r = 7 then do { b \<leftarrow> rle_put v 0 b; Some (r - 1, b) } else Some (r, b));
     rle_run 2 16 v r b }"

definition BrotliWriteHuffmanTreeRepetitionsZeros :: "nat \<Rightarrow> rle_buffer \<Rightarrow> rle_buffer option" where
  "BrotliWriteHuffmanTreeRepetitionsZeros repetitions b = do {
     (r, b) \<leftarrow> (if repetitions = 11 then do { b \<leftarrow> rle_put 0 0 b; Some (repetitions - 1, b) }
               else Some (repetitions, b));
     rle_run 3 17 0 r b }"

text \<open>\<open>for (k = i + 1; k < length && depth[k] == value; ++k) ++reps;\<close>\<close>

definition run_length_at :: "uint8 list \<Rightarrow> nat \<Rightarrow> nat \<Rightarrow> nat" where
  "run_length_at depth len i =
     Suc (length (takeWhile (\<lambda>d. d = depth ! i) (drop (Suc i) (take len depth))))"

text \<open>The four counters of \<open>DecideOverRleUse\<close>: total and number of the runs of zeros, of the others.\<close>

function rle_counts :: "uint8 list \<Rightarrow> nat \<Rightarrow> nat \<Rightarrow> nat \<times> nat \<times> nat \<times> nat \<Rightarrow> (nat \<times> nat \<times> nat \<times> nat) option" where
  "rle_counts depth len i c =
     (if i < len then do {
        v \<leftarrow> arr_get depth i;
        let reps = run_length_at depth len i;
        let (tz, cz, tn, cn) = c;
        let (tz, cz) = (if reps \<ge> 3 \<and> v = 0 then (tz + reps, cz + 1) else (tz, cz));
        let (tn, cn) = (if reps \<ge> 4 \<and> v \<noteq> 0 then (tn + reps, cn + 1) else (tn, cn));
        rle_counts depth len (i + reps) (tz, cz, tn, cn) }
      else Some c)"
  by pat_completeness auto
termination
  by (relation "measure (\<lambda>(d, l, i, c). l - i)") (auto simp: run_length_at_def)

declare rle_counts.simps [simp del]

text \<open>\<open>(use_rle_for_non_zero, use_rle_for_zero)\<close>\<close>

definition DecideOverRleUse :: "uint8 list \<Rightarrow> nat \<Rightarrow> (bool \<times> bool) option" where
  "DecideOverRleUse depth len = do {
     (tz, cz, tn, cn) \<leftarrow> rle_counts depth len 0 (0, 1, 0, 1);
     Some (tn > cn * 2, tz > cz * 2) }"

function write_runs ::
  "uint8 list \<Rightarrow> nat \<Rightarrow> bool \<Rightarrow> bool \<Rightarrow> nat \<Rightarrow> uint8 \<Rightarrow> rle_buffer \<Rightarrow> rle_buffer option" where
  "write_runs depth len rle_nz rle_z i previous_value b =
     (if i < len then do {
        v \<leftarrow> arr_get depth i;
        let reps = (if (v \<noteq> 0 \<and> rle_nz) \<or> (v = 0 \<and> rle_z) then run_length_at depth len i else 1);
        if v = 0 then do {
          b \<leftarrow> BrotliWriteHuffmanTreeRepetitionsZeros reps b;
          write_runs depth len rle_nz rle_z (i + reps) previous_value b }
        else do {
          b \<leftarrow> BrotliWriteHuffmanTreeRepetitions previous_value v reps b;
          write_runs depth len rle_nz rle_z (i + reps) v b } }
      else Some b)"
  by pat_completeness auto
termination
  by (relation "measure (\<lambda>(d, l, nz, z, i, p, b). l - i)") (auto simp: run_length_at_def)

declare write_runs.simps [simp del]

definition BrotliWriteHuffmanTree :: "uint8 list \<Rightarrow> nat \<Rightarrow> rle_buffer \<Rightarrow> rle_buffer option" where
  "BrotliWriteHuffmanTree depth len b =
     (if len \<le> length depth then do {
        let new_length = len - length (takeWhile (\<lambda>d. d = 0) (rev (take len depth)));
        (nz, z) \<leftarrow> (if len > 50 then DecideOverRleUse depth new_length else Some (False, False));
        write_runs depth new_length nz z 0 8 b }
      else None)"

section \<open>Code words\<close>

definition kLut :: "uint64 list" where
  "kLut = [0x00, 0x08, 0x04, 0x0C, 0x02, 0x0A, 0x06, 0x0E, 0x01, 0x09, 0x05, 0x0D, 0x03, 0x0B, 0x07, 0x0F]"

function reverse_nibbles :: "nat \<Rightarrow> nat \<Rightarrow> uint16 \<Rightarrow> uint64 \<Rightarrow> uint64 option" where
  "reverse_nibbles num_bits i bits retval =
     (if i < num_bits then do {
        let bits = drop_bit 4 bits;
        x \<leftarrow> arr_get kLut (unat (bits AND 0x0F));
        reverse_nibbles num_bits (i + 4) bits (push_bit 4 retval OR x) }
      else Some retval)"
  by pat_completeness auto
termination
  by (relation "measure (\<lambda>(n, i, b, r). n - i)") auto

declare reverse_nibbles.simps [simp del]

definition BrotliReverseBits_enc :: "nat \<Rightarrow> uint16 \<Rightarrow> uint16 option" where
  "BrotliReverseBits_enc num_bits bits = do {
     x \<leftarrow> arr_get kLut (unat (bits AND 0x0F));
     retval \<leftarrow> reverse_nibbles num_bits 4 bits x;
     Some (ucast (drop_bit (nat (- int num_bits mod 4)) retval)) }"

abbreviation (input) MAX_HUFFMAN_BITS :: nat where "MAX_HUFFMAN_BITS \<equiv> 16"

definition count_depths :: "uint8 list \<Rightarrow> nat \<Rightarrow> uint16 list option" where
  "count_depths depth len = foldM (\<lambda>i bl. do {
     d \<leftarrow> arr_get depth i;
     c \<leftarrow> arr_get bl (unat d);
     arr_set bl (unat d) (c + 1) }) [0..<len] (replicate MAX_HUFFMAN_BITS 0)"

text \<open>The first code of each length; \<open>code\<close> is a C \<open>int\<close>.\<close>

definition first_codes :: "uint16 list \<Rightarrow> uint16 list option" where
  "first_codes bl = do {
     (code, nxt) \<leftarrow> foldM (\<lambda>i (code, nxt). do {
       c \<leftarrow> arr_get bl (i - 1);
       let code = (code + uint c) * 2;
       nxt \<leftarrow> arr_set nxt i (of_int code);
       Some (code, nxt) }) [1..<MAX_HUFFMAN_BITS] (0 :: int, replicate MAX_HUFFMAN_BITS 0);
     Some nxt }"

definition assign_code :: "uint8 list \<Rightarrow> nat \<Rightarrow> uint16 list \<times> uint16 list \<Rightarrow> (uint16 list \<times> uint16 list) option" where
  "assign_code depth i nb = (case nb of (nxt, bits) \<Rightarrow> do {
     d \<leftarrow> arr_get depth i;
     if d \<noteq> 0 then do {
       c \<leftarrow> arr_get nxt (unat d);
       r \<leftarrow> BrotliReverseBits_enc (unat d) c;
       bits \<leftarrow> arr_set bits i r;
       nxt \<leftarrow> arr_set nxt (unat d) (c + 1);
       Some (nxt, bits) }
     else Some (nxt, bits) })"

definition BrotliConvertBitDepthsToSymbols :: "uint8 list \<Rightarrow> nat \<Rightarrow> uint16 list \<Rightarrow> uint16 list option" where
  "BrotliConvertBitDepthsToSymbols depth len bits = do {
     bl \<leftarrow> count_depths depth len;
     bl \<leftarrow> arr_set bl 0 0;
     nxt \<leftarrow> first_codes bl;
     (nxt, bits) \<leftarrow> foldM (assign_code depth) [0..<len] (nxt, bits);
     Some bits }"

end
