(* ===== verification/Entropy_Static.thy ===== *)
theory Entropy_Static
  imports Write_Bits
begin

text \<open>
  \<^verbatim>\<open>enc/entropy_encode_static.h\<close>: the fixed code for the code lengths, for runs of zero and of repeated
  lengths, and for commands and distances, with the bit patterns that store them.
\<close>

definition kCodeLengthDepth :: "uint8 list" where
  "kCodeLengthDepth = [
     4, 4, 4, 4, 4, 4, 4, 4, 4, 4, 4, 4, 4, 5, 5, 0, 4, 4]"

definition kStaticCommandCodeDepth_0 :: "uint8 list" where
  "kStaticCommandCodeDepth_0 = [
     9, 9, 9, 9, 9, 9, 9, 9, 9, 9, 9, 9, 9, 9, 9, 9, 9, 9, 9, 9, 9, 9, 9, 9, 9, 9, 9, 9, 9, 9, 9, 9, 9, 9, 9,
     9, 9, 9, 9, 9, 9, 9, 9, 9, 9, 9, 9, 9, 9, 9, 9, 9, 9, 9, 9, 9, 9, 9, 9, 9, 9, 9, 9, 9, 9, 9, 9, 9, 9, 9,
     9, 9, 9, 9, 9, 9, 9, 9, 9, 9, 9, 9, 9, 9, 9, 9, 9, 9, 9, 9, 9, 9, 9, 9, 9, 9, 9, 9, 9, 9, 9, 9, 9, 9, 9,
     9, 9, 9, 9, 9, 9, 9, 9, 9, 9, 9, 9, 9, 9, 9, 9, 9, 9, 9, 9, 9, 9, 9, 9, 9, 9, 9, 9, 9, 9, 9, 9, 9, 9, 9,
     9, 9, 9, 9, 9, 9, 9, 9, 9, 9, 9, 9, 9, 9, 9, 9, 9, 9, 9, 9, 9, 9, 9, 9, 9, 9, 9, 9, 9, 9, 9, 9, 9, 9, 9,
     9]"

definition kStaticCommandCodeDepth_176 :: "uint8 list" where
  "kStaticCommandCodeDepth_176 = [
     9, 9, 9, 9, 9, 9, 9, 9, 9, 9, 9, 9, 9, 9, 9, 9, 9, 9, 9, 9, 9, 9, 9, 9, 9, 9, 9, 9, 9, 9, 9, 9, 9, 9, 9,
     9, 9, 9, 9, 9, 9, 9, 9, 9, 9, 9, 9, 9, 9, 9, 9, 9, 9, 9, 9, 9, 9, 9, 9, 9, 9, 9, 9, 9, 9, 9, 9, 9, 9, 9,
     9, 9, 9, 9, 9, 9, 9, 9, 9, 9, 9, 9, 9, 9, 9, 9, 9, 9, 9, 9, 9, 9, 9, 9, 9, 9, 9, 9, 9, 9, 9, 9, 9, 9, 9,
     9, 9, 9, 9, 9, 9, 9, 9, 9, 9, 9, 9, 9, 9, 9, 9, 9, 9, 9, 9, 9, 9, 9, 9, 9, 9, 9, 9, 9, 9, 9, 9, 9, 9, 9,
     9, 9, 9, 9, 9, 9, 9, 9, 9, 9, 9, 9, 9, 9, 9, 9, 9, 9, 9, 9, 9, 9, 9, 9, 9, 9, 9, 9, 9, 9, 9, 9, 9, 9, 9,
     9]"

definition kStaticCommandCodeDepth_352 :: "uint8 list" where
  "kStaticCommandCodeDepth_352 = [
     9, 9, 9, 9, 9, 9, 9, 9, 9, 9, 9, 9, 9, 9, 9, 9, 9, 9, 9, 9, 9, 9, 9, 9, 9, 9, 9, 9, 9, 9, 9, 9, 9, 9, 9,
     9, 9, 9, 9, 9, 9, 9, 9, 9, 9, 9, 9, 9, 9, 9, 9, 9, 9, 9, 9, 9, 9, 9, 9, 9, 9, 9, 9, 9, 9, 9, 9, 9, 9, 9,
     9, 9, 9, 9, 9, 9, 9, 9, 9, 9, 9, 9, 9, 9, 9, 9, 9, 9, 9, 9, 9, 9, 9, 9, 9, 9, 11, 11, 11, 11, 11, 11,
     11, 11, 11, 11, 11, 11, 11, 11, 11, 11, 11, 11, 11, 11, 11, 11, 11, 11, 11, 11, 11, 11, 11, 11, 11, 11,
     11, 11, 11, 11, 11, 11, 11, 11, 11, 11, 11, 11, 11, 11, 11, 11, 11, 11, 11, 11, 11, 11, 11, 11, 11, 11,
     11, 11, 11, 11, 11, 11, 11, 11, 11, 11, 11, 11, 11, 11, 11, 11, 11, 11, 11, 11, 11, 11]"

definition kStaticCommandCodeDepth_528 :: "uint8 list" where
  "kStaticCommandCodeDepth_528 = [
     11, 11, 11, 11, 11, 11, 11, 11, 11, 11, 11, 11, 11, 11, 11, 11, 11, 11, 11, 11, 11, 11, 11, 11, 11, 11,
     11, 11, 11, 11, 11, 11, 11, 11, 11, 11, 11, 11, 11, 11, 11, 11, 11, 11, 11, 11, 11, 11, 11, 11, 11, 11,
     11, 11, 11, 11, 11, 11, 11, 11, 11, 11, 11, 11, 11, 11, 11, 11, 11, 11, 11, 11, 11, 11, 11, 11, 11, 11,
     11, 11, 11, 11, 11, 11, 11, 11, 11, 11, 11, 11, 11, 11, 11, 11, 11, 11, 11, 11, 11, 11, 11, 11, 11, 11,
     11, 11, 11, 11, 11, 11, 11, 11, 11, 11, 11, 11, 11, 11, 11, 11, 11, 11, 11, 11, 11, 11, 11, 11, 11, 11,
     11, 11, 11, 11, 11, 11, 11, 11, 11, 11, 11, 11, 11, 11, 11, 11, 11, 11, 11, 11, 11, 11, 11, 11, 11, 11,
     11, 11, 11, 11, 11, 11, 11, 11, 11, 11, 11, 11, 11, 11, 11, 11, 11, 11, 11, 11]"

definition kStaticCommandCodeDepth :: "uint8 list" where
  "kStaticCommandCodeDepth = kStaticCommandCodeDepth_0 @ kStaticCommandCodeDepth_176 @ kStaticCommandCodeDepth_352 @ kStaticCommandCodeDepth_528"

definition kStaticDistanceCodeDepth :: "uint8 list" where
  "kStaticDistanceCodeDepth = [
     6, 6, 6, 6, 6, 6, 6, 6, 6, 6, 6, 6, 6, 6, 6, 6, 6, 6, 6, 6, 6, 6, 6, 6, 6, 6, 6, 6, 6, 6, 6, 6, 6, 6, 6,
     6, 6, 6, 6, 6, 6, 6, 6, 6, 6, 6, 6, 6, 6, 6, 6, 6, 6, 6, 6, 6, 6, 6, 6, 6, 6, 6, 6, 6]"

definition kCodeLengthBits :: "uint32 list" where
  "kCodeLengthBits = [
     0, 8, 4, 12, 2, 10, 6, 14, 1, 9, 5, 13, 3, 15, 31, 0, 11, 7]"

definition kZeroRepsBits_0 :: "uint64 list" where
  "kZeroRepsBits_0 = [
     0, 0, 0, 7, 23, 39, 55, 71, 87, 103, 119, 1904, 2951, 4999, 7047, 9095, 11143, 13191, 15239, 919, 2967,
     5015, 7063, 9111, 11159, 13207, 15255, 935, 2983, 5031, 7079, 9127, 11175, 13223, 15271, 951, 2999,
     5047, 7095, 9143, 11191, 13239, 15287, 967, 3015, 5063, 7111, 9159, 11207, 13255, 15303, 983, 3031,
     5079, 7127, 9175, 11223, 13271, 15319, 999, 3047, 5095, 7143, 9191, 11239, 13287, 15335, 1015, 3063,
     5111, 7159, 9207, 11255, 13303, 15351, 115591, 377735, 639879, 902023, 1164167, 1426311, 1688455,
     1950599, 117639, 379783, 641927, 904071, 1166215, 1428359, 1690503, 1952647, 119687, 381831, 643975,
     906119, 1168263, 1430407, 1692551, 1954695, 121735, 383879, 646023, 908167, 1170311, 1432455, 1694599,
     1956743, 123783, 385927, 648071, 910215, 1172359, 1434503, 1696647, 1958791, 125831, 387975, 650119,
     912263, 1174407, 1436551, 1698695, 1960839, 127879, 390023, 652167, 914311, 1176455, 1438599, 1700743,
     1962887, 129927, 392071, 654215, 916359, 1178503, 1440647, 1702791, 1964935, 115607, 377751, 639895,
     902039, 1164183, 1426327, 1688471, 1950615, 117655, 379799, 641943, 904087, 1166231, 1428375, 1690519,
     1952663, 119703, 381847, 643991, 906135, 1168279, 1430423, 1692567, 1954711, 121751, 383895, 646039,
     908183, 1170327, 1432471, 1694615, 1956759, 123799, 385943, 648087, 910231, 1172375, 1434519, 1696663,
     1958807, 125847]"

definition kZeroRepsBits_180 :: "uint64 list" where
  "kZeroRepsBits_180 = [
     387991, 650135, 912279, 1174423, 1436567, 1698711, 1960855, 127895, 390039, 652183, 914327, 1176471,
     1438615, 1700759, 1962903, 129943, 392087, 654231, 916375, 1178519, 1440663, 1702807, 1964951, 115623,
     377767, 639911, 902055, 1164199, 1426343, 1688487, 1950631, 117671, 379815, 641959, 904103, 1166247,
     1428391, 1690535, 1952679, 119719, 381863, 644007, 906151, 1168295, 1430439, 1692583, 1954727, 121767,
     383911, 646055, 908199, 1170343, 1432487, 1694631, 1956775, 123815, 385959, 648103, 910247, 1172391,
     1434535, 1696679, 1958823, 125863, 388007, 650151, 912295, 1174439, 1436583, 1698727, 1960871, 127911,
     390055, 652199, 914343, 1176487, 1438631, 1700775, 1962919, 129959, 392103, 654247, 916391, 1178535,
     1440679, 1702823, 1964967, 115639, 377783, 639927, 902071, 1164215, 1426359, 1688503, 1950647, 117687,
     379831, 641975, 904119, 1166263, 1428407, 1690551, 1952695, 119735, 381879, 644023, 906167, 1168311,
     1430455, 1692599, 1954743, 121783, 383927, 646071, 908215, 1170359, 1432503, 1694647, 1956791, 123831,
     385975, 648119, 910263, 1172407, 1434551, 1696695, 1958839, 125879, 388023, 650167, 912311, 1174455,
     1436599, 1698743, 1960887, 127927, 390071, 652215, 914359, 1176503, 1438647, 1700791, 1962935, 129975,
     392119, 654263, 916407, 1178551, 1440695, 1702839, 1964983, 115655, 377799, 639943, 902087, 1164231,
     1426375, 1688519, 1950663, 117703, 379847, 641991, 904135, 1166279, 1428423, 1690567, 1952711, 119751,
     381895, 644039, 906183, 1168327, 1430471, 1692615, 1954759, 121799, 383943, 646087, 908231, 1170375]"

definition kZeroRepsBits_360 :: "uint64 list" where
  "kZeroRepsBits_360 = [
     1432519, 1694663, 1956807, 123847, 385991, 648135, 910279, 1172423, 1434567, 1696711, 1958855, 125895,
     388039, 650183, 912327, 1174471, 1436615, 1698759, 1960903, 127943, 390087, 652231, 914375, 1176519,
     1438663, 1700807, 1962951, 129991, 392135, 654279, 916423, 1178567, 1440711, 1702855, 1964999, 115671,
     377815, 639959, 902103, 1164247, 1426391, 1688535, 1950679, 117719, 379863, 642007, 904151, 1166295,
     1428439, 1690583, 1952727, 119767, 381911, 644055, 906199, 1168343, 1430487, 1692631, 1954775, 121815,
     383959, 646103, 908247, 1170391, 1432535, 1694679, 1956823, 123863, 386007, 648151, 910295, 1172439,
     1434583, 1696727, 1958871, 125911, 388055, 650199, 912343, 1174487, 1436631, 1698775, 1960919, 127959,
     390103, 652247, 914391, 1176535, 1438679, 1700823, 1962967, 130007, 392151, 654295, 916439, 1178583,
     1440727, 1702871, 1965015, 115687, 377831, 639975, 902119, 1164263, 1426407, 1688551, 1950695, 117735,
     379879, 642023, 904167, 1166311, 1428455, 1690599, 1952743, 119783, 381927, 644071, 906215, 1168359,
     1430503, 1692647, 1954791, 121831, 383975, 646119, 908263, 1170407, 1432551, 1694695, 1956839, 123879,
     386023, 648167, 910311, 1172455, 1434599, 1696743, 1958887, 125927, 388071, 650215, 912359, 1174503,
     1436647, 1698791, 1960935, 127975, 390119, 652263, 914407, 1176551, 1438695, 1700839, 1962983, 130023,
     392167, 654311, 916455, 1178599, 1440743, 1702887, 1965031, 115703, 377847, 639991, 902135, 1164279,
     1426423, 1688567, 1950711, 117751, 379895, 642039, 904183, 1166327, 1428471, 1690615, 1952759, 119799]"

definition kZeroRepsBits_540 :: "uint64 list" where
  "kZeroRepsBits_540 = [
     381943, 644087, 906231, 1168375, 1430519, 1692663, 1954807, 121847, 383991, 646135, 908279, 1170423,
     1432567, 1694711, 1956855, 123895, 386039, 648183, 910327, 1172471, 1434615, 1696759, 1958903, 125943,
     388087, 650231, 912375, 1174519, 1436663, 1698807, 1960951, 127991, 390135, 652279, 914423, 1176567,
     1438711, 1700855, 1962999, 130039, 392183, 654327, 916471, 1178615, 1440759, 1702903, 1965047, 14795655,
     48350087, 81904519, 115458951, 149013383, 182567815, 216122247, 249676679, 15057799, 48612231, 82166663,
     115721095, 149275527, 182829959, 216384391, 249938823, 15319943, 48874375, 82428807, 115983239,
     149537671, 183092103, 216646535, 250200967, 15582087, 49136519, 82690951, 116245383, 149799815,
     183354247, 216908679, 250463111, 15844231, 49398663, 82953095, 116507527, 150061959, 183616391,
     217170823, 250725255, 16106375, 49660807, 83215239, 116769671, 150324103, 183878535, 217432967,
     250987399, 16368519, 49922951, 83477383, 117031815, 150586247, 184140679, 217695111, 251249543,
     16630663, 50185095, 83739527, 117293959, 150848391, 184402823, 217957255, 251511687, 14797703, 48352135,
     81906567, 115460999, 149015431, 182569863, 216124295, 249678727, 15059847, 48614279, 82168711,
     115723143, 149277575, 182832007, 216386439, 249940871, 15321991, 48876423, 82430855, 115985287,
     149539719, 183094151, 216648583, 250203015, 15584135, 49138567, 82692999, 116247431, 149801863,
     183356295, 216910727, 250465159, 15846279, 49400711, 82955143, 116509575, 150064007, 183618439,
     217172871, 250727303, 16108423, 49662855, 83217287, 116771719, 150326151, 183880583, 217435015,
     250989447, 16370567, 49924999, 83479431, 117033863, 150588295]"

definition kZeroRepsBits :: "uint64 list" where
  "kZeroRepsBits = kZeroRepsBits_0 @ kZeroRepsBits_180 @ kZeroRepsBits_360 @ kZeroRepsBits_540"

definition kZeroRepsDepth_0 :: "uint32 list" where
  "kZeroRepsDepth_0 = [
     0, 4, 8, 7, 7, 7, 7, 7, 7, 7, 7, 11, 14, 14, 14, 14, 14, 14, 14, 14, 14, 14, 14, 14, 14, 14, 14, 14, 14,
     14, 14, 14, 14, 14, 14, 14, 14, 14, 14, 14, 14, 14, 14, 14, 14, 14, 14, 14, 14, 14, 14, 14, 14, 14, 14,
     14, 14, 14, 14, 14, 14, 14, 14, 14, 14, 14, 14, 14, 14, 14, 14, 14, 14, 14, 14, 21, 21, 21, 21, 21, 21,
     21, 21, 21, 21, 21, 21, 21, 21, 21, 21, 21, 21, 21, 21, 21, 21, 21, 21, 21, 21, 21, 21, 21, 21, 21, 21,
     21, 21, 21, 21, 21, 21, 21, 21, 21, 21, 21, 21, 21, 21, 21, 21, 21, 21, 21, 21, 21, 21, 21, 21, 21, 21,
     21, 21, 21, 21, 21, 21, 21, 21, 21, 21, 21, 21, 21, 21, 21, 21, 21, 21, 21, 21, 21, 21, 21, 21, 21, 21,
     21, 21, 21, 21, 21, 21, 21, 21, 21, 21, 21, 21, 21, 21, 21, 21, 21]"

definition kZeroRepsDepth_176 :: "uint32 list" where
  "kZeroRepsDepth_176 = [
     21, 21, 21, 21, 21, 21, 21, 21, 21, 21, 21, 21, 21, 21, 21, 21, 21, 21, 21, 21, 21, 21, 21, 21, 21, 21,
     21, 21, 21, 21, 21, 21, 21, 21, 21, 21, 21, 21, 21, 21, 21, 21, 21, 21, 21, 21, 21, 21, 21, 21, 21, 21,
     21, 21, 21, 21, 21, 21, 21, 21, 21, 21, 21, 21, 21, 21, 21, 21, 21, 21, 21, 21, 21, 21, 21, 21, 21, 21,
     21, 21, 21, 21, 21, 21, 21, 21, 21, 21, 21, 21, 21, 21, 21, 21, 21, 21, 21, 21, 21, 21, 21, 21, 21, 21,
     21, 21, 21, 21, 21, 21, 21, 21, 21, 21, 21, 21, 21, 21, 21, 21, 21, 21, 21, 21, 21, 21, 21, 21, 21, 21,
     21, 21, 21, 21, 21, 21, 21, 21, 21, 21, 21, 21, 21, 21, 21, 21, 21, 21, 21, 21, 21, 21, 21, 21, 21, 21,
     21, 21, 21, 21, 21, 21, 21, 21, 21, 21, 21, 21, 21, 21, 21, 21, 21, 21, 21, 21]"

definition kZeroRepsDepth_352 :: "uint32 list" where
  "kZeroRepsDepth_352 = [
     21, 21, 21, 21, 21, 21, 21, 21, 21, 21, 21, 21, 21, 21, 21, 21, 21, 21, 21, 21, 21, 21, 21, 21, 21, 21,
     21, 21, 21, 21, 21, 21, 21, 21, 21, 21, 21, 21, 21, 21, 21, 21, 21, 21, 21, 21, 21, 21, 21, 21, 21, 21,
     21, 21, 21, 21, 21, 21, 21, 21, 21, 21, 21, 21, 21, 21, 21, 21, 21, 21, 21, 21, 21, 21, 21, 21, 21, 21,
     21, 21, 21, 21, 21, 21, 21, 21, 21, 21, 21, 21, 21, 21, 21, 21, 21, 21, 21, 21, 21, 21, 21, 21, 21, 21,
     21, 21, 21, 21, 21, 21, 21, 21, 21, 21, 21, 21, 21, 21, 21, 21, 21, 21, 21, 21, 21, 21, 21, 21, 21, 21,
     21, 21, 21, 21, 21, 21, 21, 21, 21, 21, 21, 21, 21, 21, 21, 21, 21, 21, 21, 21, 21, 21, 21, 21, 21, 21,
     21, 21, 21, 21, 21, 21, 21, 21, 21, 21, 21, 21, 21, 21, 21, 21, 21, 21, 21, 21]"

definition kZeroRepsDepth_528 :: "uint32 list" where
  "kZeroRepsDepth_528 = [
     21, 21, 21, 21, 21, 21, 21, 21, 21, 21, 21, 21, 21, 21, 21, 21, 21, 21, 21, 21, 21, 21, 21, 21, 21, 21,
     21, 21, 21, 21, 21, 21, 21, 21, 21, 21, 21, 21, 21, 21, 21, 21, 21, 21, 21, 21, 21, 21, 21, 21, 21, 21,
     21, 21, 21, 21, 21, 21, 21, 28, 28, 28, 28, 28, 28, 28, 28, 28, 28, 28, 28, 28, 28, 28, 28, 28, 28, 28,
     28, 28, 28, 28, 28, 28, 28, 28, 28, 28, 28, 28, 28, 28, 28, 28, 28, 28, 28, 28, 28, 28, 28, 28, 28, 28,
     28, 28, 28, 28, 28, 28, 28, 28, 28, 28, 28, 28, 28, 28, 28, 28, 28, 28, 28, 28, 28, 28, 28, 28, 28, 28,
     28, 28, 28, 28, 28, 28, 28, 28, 28, 28, 28, 28, 28, 28, 28, 28, 28, 28, 28, 28, 28, 28, 28, 28, 28, 28,
     28, 28, 28, 28, 28, 28, 28, 28, 28, 28, 28, 28, 28, 28, 28, 28, 28, 28, 28, 28]"

definition kZeroRepsDepth :: "uint32 list" where
  "kZeroRepsDepth = kZeroRepsDepth_0 @ kZeroRepsDepth_176 @ kZeroRepsDepth_352 @ kZeroRepsDepth_528"

definition kNonZeroRepsBits_0 :: "uint64 list" where
  "kNonZeroRepsBits_0 = [
     11, 27, 43, 59, 715, 1739, 2763, 3787, 731, 1755, 2779, 3803, 747, 1771, 2795, 3819, 763, 1787, 2811,
     3835, 45771, 111307, 176843, 242379, 46795, 112331, 177867, 243403, 47819, 113355, 178891, 244427,
     48843, 114379, 179915, 245451, 45787, 111323, 176859, 242395, 46811, 112347, 177883, 243419, 47835,
     113371, 178907, 244443, 48859, 114395, 179931, 245467, 45803, 111339, 176875, 242411, 46827, 112363,
     177899, 243435, 47851, 113387, 178923, 244459, 48875, 114411, 179947, 245483, 45819, 111355, 176891,
     242427, 46843, 112379, 177915, 243451, 47867, 113403, 178939, 244475, 48891, 114427, 179963, 245499,
     2929355, 7123659, 11317963, 15512267, 2994891, 7189195, 11383499, 15577803, 3060427, 7254731, 11449035,
     15643339, 3125963, 7320267, 11514571, 15708875, 2930379, 7124683, 11318987, 15513291, 2995915, 7190219,
     11384523, 15578827, 3061451, 7255755, 11450059, 15644363, 3126987, 7321291, 11515595, 15709899, 2931403,
     7125707, 11320011, 15514315, 2996939, 7191243, 11385547, 15579851, 3062475, 7256779, 11451083, 15645387,
     3128011, 7322315, 11516619, 15710923, 2932427, 7126731, 11321035, 15515339, 2997963, 7192267, 11386571,
     15580875, 3063499, 7257803, 11452107, 15646411, 3129035, 7323339, 11517643, 15711947, 2929371, 7123675,
     11317979, 15512283, 2994907, 7189211, 11383515, 15577819, 3060443, 7254747, 11449051, 15643355, 3125979,
     7320283, 11514587, 15708891, 2930395, 7124699, 11319003, 15513307, 2995931, 7190235, 11384539, 15578843,
     3061467, 7255771, 11450075, 15644379, 3127003, 7321307, 11515611, 15709915]"

definition kNonZeroRepsBits_180 :: "uint64 list" where
  "kNonZeroRepsBits_180 = [
     2931419, 7125723, 11320027, 15514331, 2996955, 7191259, 11385563, 15579867, 3062491, 7256795, 11451099,
     15645403, 3128027, 7322331, 11516635, 15710939, 2932443, 7126747, 11321051, 15515355, 2997979, 7192283,
     11386587, 15580891, 3063515, 7257819, 11452123, 15646427, 3129051, 7323355, 11517659, 15711963, 2929387,
     7123691, 11317995, 15512299, 2994923, 7189227, 11383531, 15577835, 3060459, 7254763, 11449067, 15643371,
     3125995, 7320299, 11514603, 15708907, 2930411, 7124715, 11319019, 15513323, 2995947, 7190251, 11384555,
     15578859, 3061483, 7255787, 11450091, 15644395, 3127019, 7321323, 11515627, 15709931, 2931435, 7125739,
     11320043, 15514347, 2996971, 7191275, 11385579, 15579883, 3062507, 7256811, 11451115, 15645419, 3128043,
     7322347, 11516651, 15710955, 2932459, 7126763, 11321067, 15515371, 2997995, 7192299, 11386603, 15580907,
     3063531, 7257835, 11452139, 15646443, 3129067, 7323371, 11517675, 15711979, 2929403, 7123707, 11318011,
     15512315, 2994939, 7189243, 11383547, 15577851, 3060475, 7254779, 11449083, 15643387, 3126011, 7320315,
     11514619, 15708923, 2930427, 7124731, 11319035, 15513339, 2995963, 7190267, 11384571, 15578875, 3061499,
     7255803, 11450107, 15644411, 3127035, 7321339, 11515643, 15709947, 2931451, 7125755, 11320059, 15514363,
     2996987, 7191291, 11385595, 15579899, 3062523, 7256827, 11451131, 15645435, 3128059, 7322363, 11516667,
     15710971, 2932475, 7126779, 11321083, 15515387, 2998011, 7192315, 11386619, 15580923, 3063547, 7257851,
     11452155, 15646459, 3129083, 7323387, 11517691, 15711995, 187478731, 455914187, 724349643, 992785099,
     191673035, 460108491, 728543947, 996979403, 195867339, 464302795, 732738251, 1001173707, 200061643,
     468497099, 736932555, 1005368011, 187544267, 455979723, 724415179, 992850635]"

definition kNonZeroRepsBits_360 :: "uint64 list" where
  "kNonZeroRepsBits_360 = [
     191738571, 460174027, 728609483, 997044939, 195932875, 464368331, 732803787, 1001239243, 200127179,
     468562635, 736998091, 1005433547, 187609803, 456045259, 724480715, 992916171, 191804107, 460239563,
     728675019, 997110475, 195998411, 464433867, 732869323, 1001304779, 200192715, 468628171, 737063627,
     1005499083, 187675339, 456110795, 724546251, 992981707, 191869643, 460305099, 728740555, 997176011,
     196063947, 464499403, 732934859, 1001370315, 200258251, 468693707, 737129163, 1005564619, 187479755,
     455915211, 724350667, 992786123, 191674059, 460109515, 728544971, 996980427, 195868363, 464303819,
     732739275, 1001174731, 200062667, 468498123, 736933579, 1005369035, 187545291, 455980747, 724416203,
     992851659, 191739595, 460175051, 728610507, 997045963, 195933899, 464369355, 732804811, 1001240267,
     200128203, 468563659, 736999115, 1005434571, 187610827, 456046283, 724481739, 992917195, 191805131,
     460240587, 728676043, 997111499, 195999435, 464434891, 732870347, 1001305803, 200193739, 468629195,
     737064651, 1005500107, 187676363, 456111819, 724547275, 992982731, 191870667, 460306123, 728741579,
     997177035, 196064971, 464500427, 732935883, 1001371339, 200259275, 468694731, 737130187, 1005565643,
     187480779, 455916235, 724351691, 992787147, 191675083, 460110539, 728545995, 996981451, 195869387,
     464304843, 732740299, 1001175755, 200063691, 468499147, 736934603, 1005370059, 187546315, 455981771,
     724417227, 992852683, 191740619, 460176075, 728611531, 997046987, 195934923, 464370379, 732805835,
     1001241291, 200129227, 468564683, 737000139, 1005435595, 187611851, 456047307, 724482763, 992918219,
     191806155, 460241611, 728677067, 997112523, 196000459, 464435915, 732871371, 1001306827, 200194763,
     468630219, 737065675, 1005501131, 187677387, 456112843, 724548299, 992983755, 191871691, 460307147,
     728742603, 997178059, 196065995, 464501451, 732936907, 1001372363, 200260299, 468695755, 737131211,
     1005566667, 187481803, 455917259, 724352715, 992788171, 191676107, 460111563, 728547019, 996982475]"

definition kNonZeroRepsBits_540 :: "uint64 list" where
  "kNonZeroRepsBits_540 = [
     195870411, 464305867, 732741323, 1001176779, 200064715, 468500171, 736935627, 1005371083, 187547339,
     455982795, 724418251, 992853707, 191741643, 460177099, 728612555, 997048011, 195935947, 464371403,
     732806859, 1001242315, 200130251, 468565707, 737001163, 1005436619, 187612875, 456048331, 724483787,
     992919243, 191807179, 460242635, 728678091, 997113547, 196001483, 464436939, 732872395, 1001307851,
     200195787, 468631243, 737066699, 1005502155, 187678411, 456113867, 724549323, 992984779, 191872715,
     460308171, 728743627, 997179083, 196067019, 464502475, 732937931, 1001373387, 200261323, 468696779,
     737132235, 1005567691, 187478747, 455914203, 724349659, 992785115, 191673051, 460108507, 728543963,
     996979419, 195867355, 464302811, 732738267, 1001173723, 200061659, 468497115, 736932571, 1005368027,
     187544283, 455979739, 724415195, 992850651, 191738587, 460174043, 728609499, 997044955, 195932891,
     464368347, 732803803, 1001239259, 200127195, 468562651, 736998107, 1005433563, 187609819, 456045275,
     724480731, 992916187, 191804123, 460239579, 728675035, 997110491, 195998427, 464433883, 732869339,
     1001304795, 200192731, 468628187, 737063643, 1005499099, 187675355, 456110811, 724546267, 992981723,
     191869659, 460305115, 728740571, 997176027, 196063963, 464499419, 732934875, 1001370331, 200258267,
     468693723, 737129179, 1005564635, 187479771, 455915227, 724350683, 992786139, 191674075, 460109531,
     728544987, 996980443, 195868379, 464303835, 732739291, 1001174747, 200062683, 468498139, 736933595,
     1005369051, 187545307, 455980763, 724416219, 992851675, 191739611, 460175067, 728610523, 997045979,
     195933915, 464369371, 732804827, 1001240283, 200128219, 468563675, 736999131, 1005434587, 187610843,
     456046299, 724481755, 992917211, 191805147, 460240603, 728676059, 997111515, 195999451, 464434907,
     732870363, 1001305819]"

definition kNonZeroRepsBits :: "uint64 list" where
  "kNonZeroRepsBits = kNonZeroRepsBits_0 @ kNonZeroRepsBits_180 @ kNonZeroRepsBits_360 @ kNonZeroRepsBits_540"

definition kNonZeroRepsDepth_0 :: "uint32 list" where
  "kNonZeroRepsDepth_0 = [
     6, 6, 6, 6, 12, 12, 12, 12, 12, 12, 12, 12, 12, 12, 12, 12, 12, 12, 12, 12, 18, 18, 18, 18, 18, 18, 18,
     18, 18, 18, 18, 18, 18, 18, 18, 18, 18, 18, 18, 18, 18, 18, 18, 18, 18, 18, 18, 18, 18, 18, 18, 18, 18,
     18, 18, 18, 18, 18, 18, 18, 18, 18, 18, 18, 18, 18, 18, 18, 18, 18, 18, 18, 18, 18, 18, 18, 18, 18, 18,
     18, 18, 18, 18, 18, 24, 24, 24, 24, 24, 24, 24, 24, 24, 24, 24, 24, 24, 24, 24, 24, 24, 24, 24, 24, 24,
     24, 24, 24, 24, 24, 24, 24, 24, 24, 24, 24, 24, 24, 24, 24, 24, 24, 24, 24, 24, 24, 24, 24, 24, 24, 24,
     24, 24, 24, 24, 24, 24, 24, 24, 24, 24, 24, 24, 24, 24, 24, 24, 24, 24, 24, 24, 24, 24, 24, 24, 24, 24,
     24, 24, 24, 24, 24, 24, 24, 24, 24, 24, 24, 24, 24, 24, 24, 24, 24, 24, 24]"

definition kNonZeroRepsDepth_176 :: "uint32 list" where
  "kNonZeroRepsDepth_176 = [
     24, 24, 24, 24, 24, 24, 24, 24, 24, 24, 24, 24, 24, 24, 24, 24, 24, 24, 24, 24, 24, 24, 24, 24, 24, 24,
     24, 24, 24, 24, 24, 24, 24, 24, 24, 24, 24, 24, 24, 24, 24, 24, 24, 24, 24, 24, 24, 24, 24, 24, 24, 24,
     24, 24, 24, 24, 24, 24, 24, 24, 24, 24, 24, 24, 24, 24, 24, 24, 24, 24, 24, 24, 24, 24, 24, 24, 24, 24,
     24, 24, 24, 24, 24, 24, 24, 24, 24, 24, 24, 24, 24, 24, 24, 24, 24, 24, 24, 24, 24, 24, 24, 24, 24, 24,
     24, 24, 24, 24, 24, 24, 24, 24, 24, 24, 24, 24, 24, 24, 24, 24, 24, 24, 24, 24, 24, 24, 24, 24, 24, 24,
     24, 24, 24, 24, 24, 24, 24, 24, 24, 24, 24, 24, 24, 24, 24, 24, 24, 24, 24, 24, 24, 24, 24, 24, 24, 24,
     24, 24, 24, 24, 24, 24, 24, 24, 30, 30, 30, 30, 30, 30, 30, 30, 30, 30, 30, 30]"

definition kNonZeroRepsDepth_352 :: "uint32 list" where
  "kNonZeroRepsDepth_352 = [
     30, 30, 30, 30, 30, 30, 30, 30, 30, 30, 30, 30, 30, 30, 30, 30, 30, 30, 30, 30, 30, 30, 30, 30, 30, 30,
     30, 30, 30, 30, 30, 30, 30, 30, 30, 30, 30, 30, 30, 30, 30, 30, 30, 30, 30, 30, 30, 30, 30, 30, 30, 30,
     30, 30, 30, 30, 30, 30, 30, 30, 30, 30, 30, 30, 30, 30, 30, 30, 30, 30, 30, 30, 30, 30, 30, 30, 30, 30,
     30, 30, 30, 30, 30, 30, 30, 30, 30, 30, 30, 30, 30, 30, 30, 30, 30, 30, 30, 30, 30, 30, 30, 30, 30, 30,
     30, 30, 30, 30, 30, 30, 30, 30, 30, 30, 30, 30, 30, 30, 30, 30, 30, 30, 30, 30, 30, 30, 30, 30, 30, 30,
     30, 30, 30, 30, 30, 30, 30, 30, 30, 30, 30, 30, 30, 30, 30, 30, 30, 30, 30, 30, 30, 30, 30, 30, 30, 30,
     30, 30, 30, 30, 30, 30, 30, 30, 30, 30, 30, 30, 30, 30, 30, 30, 30, 30, 30, 30]"

definition kNonZeroRepsDepth_528 :: "uint32 list" where
  "kNonZeroRepsDepth_528 = [
     30, 30, 30, 30, 30, 30, 30, 30, 30, 30, 30, 30, 30, 30, 30, 30, 30, 30, 30, 30, 30, 30, 30, 30, 30, 30,
     30, 30, 30, 30, 30, 30, 30, 30, 30, 30, 30, 30, 30, 30, 30, 30, 30, 30, 30, 30, 30, 30, 30, 30, 30, 30,
     30, 30, 30, 30, 30, 30, 30, 30, 30, 30, 30, 30, 30, 30, 30, 30, 30, 30, 30, 30, 30, 30, 30, 30, 30, 30,
     30, 30, 30, 30, 30, 30, 30, 30, 30, 30, 30, 30, 30, 30, 30, 30, 30, 30, 30, 30, 30, 30, 30, 30, 30, 30,
     30, 30, 30, 30, 30, 30, 30, 30, 30, 30, 30, 30, 30, 30, 30, 30, 30, 30, 30, 30, 30, 30, 30, 30, 30, 30,
     30, 30, 30, 30, 30, 30, 30, 30, 30, 30, 30, 30, 30, 30, 30, 30, 30, 30, 30, 30, 30, 30, 30, 30, 30, 30,
     30, 30, 30, 30, 30, 30, 30, 30, 30, 30, 30, 30, 30, 30, 30, 30, 30, 30, 30, 30]"

definition kNonZeroRepsDepth :: "uint32 list" where
  "kNonZeroRepsDepth = kNonZeroRepsDepth_0 @ kNonZeroRepsDepth_176 @ kNonZeroRepsDepth_352 @ kNonZeroRepsDepth_528"

definition kStaticCommandCodeBits_0 :: "uint16 list" where
  "kStaticCommandCodeBits_0 = [
     0, 256, 128, 384, 64, 320, 192, 448, 32, 288, 160, 416, 96, 352, 224, 480, 16, 272, 144, 400, 80, 336,
     208, 464, 48, 304, 176, 432, 112, 368, 240, 496, 8, 264, 136, 392, 72, 328, 200, 456, 40, 296, 168, 424,
     104, 360, 232, 488, 24, 280, 152, 408, 88, 344, 216, 472, 56, 312, 184, 440, 120, 376, 248, 504, 4, 260,
     132, 388, 68, 324, 196, 452, 36, 292, 164, 420, 100, 356, 228, 484, 20, 276, 148, 404, 84, 340, 212,
     468, 52, 308, 180, 436, 116, 372, 244, 500, 12, 268, 140, 396, 76, 332, 204, 460, 44, 300, 172, 428,
     108, 364, 236, 492, 28, 284, 156, 412, 92, 348, 220, 476, 60, 316, 188, 444, 124, 380, 252, 508, 2, 258,
     130, 386, 66, 322, 194, 450, 34, 290, 162, 418, 98, 354, 226, 482, 18, 274, 146, 402, 82, 338, 210, 466,
     50, 306, 178, 434, 114, 370, 242, 498, 10, 266, 138, 394, 74, 330, 202, 458, 42, 298, 170, 426, 106,
     362, 234, 490]"

definition kStaticCommandCodeBits_176 :: "uint16 list" where
  "kStaticCommandCodeBits_176 = [
     26, 282, 154, 410, 90, 346, 218, 474, 58, 314, 186, 442, 122, 378, 250, 506, 6, 262, 134, 390, 70, 326,
     198, 454, 38, 294, 166, 422, 102, 358, 230, 486, 22, 278, 150, 406, 86, 342, 214, 470, 54, 310, 182,
     438, 118, 374, 246, 502, 14, 270, 142, 398, 78, 334, 206, 462, 46, 302, 174, 430, 110, 366, 238, 494,
     30, 286, 158, 414, 94, 350, 222, 478, 62, 318, 190, 446, 126, 382, 254, 510, 1, 257, 129, 385, 65, 321,
     193, 449, 33, 289, 161, 417, 97, 353, 225, 481, 17, 273, 145, 401, 81, 337, 209, 465, 49, 305, 177, 433,
     113, 369, 241, 497, 9, 265, 137, 393, 73, 329, 201, 457, 41, 297, 169, 425, 105, 361, 233, 489, 25, 281,
     153, 409, 89, 345, 217, 473, 57, 313, 185, 441, 121, 377, 249, 505, 5, 261, 133, 389, 69, 325, 197, 453,
     37, 293, 165, 421, 101, 357, 229, 485, 21, 277, 149, 405, 85, 341, 213, 469, 53, 309, 181, 437, 117,
     373, 245, 501]"

definition kStaticCommandCodeBits_352 :: "uint16 list" where
  "kStaticCommandCodeBits_352 = [
     13, 269, 141, 397, 77, 333, 205, 461, 45, 301, 173, 429, 109, 365, 237, 493, 29, 285, 157, 413, 93, 349,
     221, 477, 61, 317, 189, 445, 125, 381, 253, 509, 3, 259, 131, 387, 67, 323, 195, 451, 35, 291, 163, 419,
     99, 355, 227, 483, 19, 275, 147, 403, 83, 339, 211, 467, 51, 307, 179, 435, 115, 371, 243, 499, 11, 267,
     139, 395, 75, 331, 203, 459, 43, 299, 171, 427, 107, 363, 235, 491, 27, 283, 155, 411, 91, 347, 219,
     475, 59, 315, 187, 443, 123, 379, 251, 507, 7, 1031, 519, 1543, 263, 1287, 775, 1799, 135, 1159, 647,
     1671, 391, 1415, 903, 1927, 71, 1095, 583, 1607, 327, 1351, 839, 1863, 199, 1223, 711, 1735, 455, 1479,
     967, 1991, 39, 1063, 551, 1575, 295, 1319, 807, 1831, 167, 1191, 679, 1703, 423, 1447, 935, 1959, 103,
     1127, 615, 1639, 359, 1383, 871, 1895, 231, 1255, 743, 1767, 487, 1511, 999, 2023, 23, 1047, 535, 1559,
     279, 1303, 791, 1815, 151, 1175, 663, 1687, 407, 1431, 919, 1943]"

definition kStaticCommandCodeBits_528 :: "uint16 list" where
  "kStaticCommandCodeBits_528 = [
     87, 1111, 599, 1623, 343, 1367, 855, 1879, 215, 1239, 727, 1751, 471, 1495, 983, 2007, 55, 1079, 567,
     1591, 311, 1335, 823, 1847, 183, 1207, 695, 1719, 439, 1463, 951, 1975, 119, 1143, 631, 1655, 375, 1399,
     887, 1911, 247, 1271, 759, 1783, 503, 1527, 1015, 2039, 15, 1039, 527, 1551, 271, 1295, 783, 1807, 143,
     1167, 655, 1679, 399, 1423, 911, 1935, 79, 1103, 591, 1615, 335, 1359, 847, 1871, 207, 1231, 719, 1743,
     463, 1487, 975, 1999, 47, 1071, 559, 1583, 303, 1327, 815, 1839, 175, 1199, 687, 1711, 431, 1455, 943,
     1967, 111, 1135, 623, 1647, 367, 1391, 879, 1903, 239, 1263, 751, 1775, 495, 1519, 1007, 2031, 31, 1055,
     543, 1567, 287, 1311, 799, 1823, 159, 1183, 671, 1695, 415, 1439, 927, 1951, 95, 1119, 607, 1631, 351,
     1375, 863, 1887, 223, 1247, 735, 1759, 479, 1503, 991, 2015, 63, 1087, 575, 1599, 319, 1343, 831, 1855,
     191, 1215, 703, 1727, 447, 1471, 959, 1983, 127, 1151, 639, 1663, 383, 1407, 895, 1919, 255, 1279, 767,
     1791, 511, 1535, 1023, 2047]"

definition kStaticCommandCodeBits :: "uint16 list" where
  "kStaticCommandCodeBits = kStaticCommandCodeBits_0 @ kStaticCommandCodeBits_176 @ kStaticCommandCodeBits_352 @ kStaticCommandCodeBits_528"

definition kStaticDistanceCodeBits :: "uint16 list" where
  "kStaticDistanceCodeBits = [
     0, 32, 16, 48, 8, 40, 24, 56, 4, 36, 20, 52, 12, 44, 28, 60, 2, 34, 18, 50, 10, 42, 26, 58, 6, 38, 22,
     54, 14, 46, 30, 62, 1, 33, 17, 49, 9, 41, 25, 57, 5, 37, 21, 53, 13, 45, 29, 61, 3, 35, 19, 51, 11, 43,
     27, 59, 7, 39, 23, 55, 15, 47, 31, 63]"

definition StoreStaticCodeLengthCode :: "bit_storage \<Rightarrow> bit_storage option" where
  "StoreStaticCodeLengthCode st = BrotliWriteBits 40 0xFF55555554 st"

definition StoreStaticCommandHuffmanTree :: "bit_storage \<Rightarrow> bit_storage option" where
  "StoreStaticCommandHuffmanTree st = do {
     st \<leftarrow> BrotliWriteBits 56 0x92624416307003 st;
     BrotliWriteBits 3 0 st }"

definition StoreStaticDistanceHuffmanTree :: "bit_storage \<Rightarrow> bit_storage option" where
  "StoreStaticDistanceHuffmanTree st = BrotliWriteBits 28 0x0369DC03 st"

end
