(* ===== verification/Enc_Trees.thy ===== *)
theory Enc_Trees
  imports Entropy_Encode Entropy_Static Enc_Commands
begin

text \<open>
  \<^verbatim>\<open>enc/brotli_bit_stream.c\<close>: how the encoder stores a Huffman code.

  In the default build (\<open>BROTLI_ENCODER_EXIT_ON_OOM\<close>) a failing allocation ends the process, and
  \<open>BROTLI_IS_OOM\<close> is constantly false, so an allocation here is an array of the requested size.  Arrays that
  the C code leaves uninitialised start as zeros; the cells it reads are those it has set.
\<close>

section \<open>The code for the code lengths\<close>

definition kStorageOrder :: "nat list" where
  "kStorageOrder = [1, 2, 3, 4, 0, 5, 17, 6, 16, 7, 8, 9, 10, 11, 12, 13, 14, 15]"

definition kHuffmanBitLengthHuffmanCodeSymbols :: "uint8 list" where
  "kHuffmanBitLengthHuffmanCodeSymbols = [0, 7, 3, 2, 1, 15]"

definition kHuffmanBitLengthHuffmanCodeBitLengths :: "uint8 list" where
  "kHuffmanBitLengthHuffmanCodeBitLengths = [2, 4, 3, 2, 2, 4]"

definition stored_length :: "uint8 list \<Rightarrow> nat \<Rightarrow> uint8 option" where
  "stored_length bitdepth i = do {
     k \<leftarrow> arr_get kStorageOrder i;
     arr_get bitdepth k }"

fun codes_to_store :: "uint8 list \<Rightarrow> nat \<Rightarrow> nat option" where
  "codes_to_store bitdepth 0 = Some 0"
| "codes_to_store bitdepth (Suc n) = do {
     d \<leftarrow> stored_length bitdepth n;
     if d \<noteq> 0 then Some (Suc n) else codes_to_store bitdepth n }"

definition skip_some :: "uint8 list \<Rightarrow> nat option" where
  "skip_some bitdepth = do {
     d0 \<leftarrow> stored_length bitdepth 0;
     d1 \<leftarrow> stored_length bitdepth 1;
     d2 \<leftarrow> stored_length bitdepth 2;
     Some (if d0 = 0 \<and> d1 = 0 then (if d2 = 0 then 3 else 2) else 0) }"

definition BrotliStoreHuffmanTreeOfHuffmanTreeToBitMask ::
  "nat \<Rightarrow> uint8 list \<Rightarrow> bit_storage \<Rightarrow> bit_storage option" where
  "BrotliStoreHuffmanTreeOfHuffmanTreeToBitMask num_codes bitdepth st = do {
     to_store \<leftarrow> (if num_codes > 1 then codes_to_store bitdepth 18 else Some 18);
     skip \<leftarrow> skip_some bitdepth;
     st \<leftarrow> BrotliWriteBits 2 (of_nat skip) st;
     foldM (\<lambda>i st. do {
       l \<leftarrow> stored_length bitdepth i;
       n \<leftarrow> arr_get kHuffmanBitLengthHuffmanCodeBitLengths (unat l);
       b \<leftarrow> arr_get kHuffmanBitLengthHuffmanCodeSymbols (unat l);
       BrotliWriteBits (unat n) (ucast b) st }) [skip..<to_store] st }"

text \<open>One symbol of the run-length form, with the code of the code lengths.\<close>

definition store_rle_symbol ::
  "uint8 list \<Rightarrow> uint16 list \<Rightarrow> uint8 \<Rightarrow> uint8 \<Rightarrow> bit_storage \<Rightarrow> bit_storage option" where
  "store_rle_symbol bitdepth symbols ix extra st = do {
     n \<leftarrow> arr_get bitdepth (unat ix);
     b \<leftarrow> arr_get symbols (unat ix);
     st \<leftarrow> BrotliWriteBits (unat n) (ucast b) st;
     if ix = 16 then BrotliWriteBits 2 (ucast extra) st
     else if ix = 17 then BrotliWriteBits 3 (ucast extra) st
     else Some st }"

definition BrotliStoreHuffmanTreeToBitMask ::
  "nat \<Rightarrow> uint8 list \<Rightarrow> uint8 list \<Rightarrow> uint8 list \<Rightarrow> uint16 list \<Rightarrow> bit_storage \<Rightarrow> bit_storage option" where
  "BrotliStoreHuffmanTreeToBitMask tree_size tree extra bitdepth symbols st =
     foldM (\<lambda>i st. do {
       ix \<leftarrow> arr_get tree i;
       x \<leftarrow> arr_get extra i;
       store_rle_symbol bitdepth symbols ix x st }) [0..<tree_size] st"

section \<open>Simple codes\<close>

definition sort_symbols_step :: "uint8 list \<Rightarrow> nat \<Rightarrow> nat \<Rightarrow> nat list \<Rightarrow> nat list option" where
  "sort_symbols_step depths i j symbols = do {
     si \<leftarrow> arr_get symbols i;
     sj \<leftarrow> arr_get symbols j;
     di \<leftarrow> arr_get depths si;
     dj \<leftarrow> arr_get depths sj;
     Some (if dj < di then symbols[i := sj, j := si] else symbols) }"

definition sort_symbols :: "uint8 list \<Rightarrow> nat \<Rightarrow> nat list \<Rightarrow> nat list option" where
  "sort_symbols depths n symbols =
     foldM (\<lambda>i. foldM (sort_symbols_step depths i) [i + 1..<n]) [0..<n] symbols"

definition write_symbol :: "nat \<Rightarrow> nat list \<Rightarrow> nat \<Rightarrow> bit_storage \<Rightarrow> bit_storage option" where
  "write_symbol max_bits symbols k st = do {
     s \<leftarrow> arr_get symbols k;
     BrotliWriteBits max_bits (of_nat s) st }"

definition StoreSimpleHuffmanTree ::
  "uint8 list \<Rightarrow> nat list \<Rightarrow> nat \<Rightarrow> nat \<Rightarrow> bit_storage \<Rightarrow> bit_storage option" where
  "StoreSimpleHuffmanTree depths symbols num_symbols max_bits st = do {
     st \<leftarrow> BrotliWriteBits 2 1 st;
     st \<leftarrow> BrotliWriteBits 2 (of_nat num_symbols - 1) st;
     symbols \<leftarrow> sort_symbols depths num_symbols symbols;
     if num_symbols = 2 then foldM (write_symbol max_bits symbols) [0..<2] st
     else if num_symbols = 3 then foldM (write_symbol max_bits symbols) [0..<3] st
     else do {
       st \<leftarrow> foldM (write_symbol max_bits symbols) [0..<4] st;
       s0 \<leftarrow> arr_get symbols 0;
       d \<leftarrow> arr_get depths s0;
       BrotliWriteBits 1 (if d = 1 then 1 else 0) st } }"

section \<open>Complex codes\<close>

text \<open>\<open>(num_codes, code)\<close>: whether none, one or more lengths occur, and the first that does.\<close>

fun count_codes :: "uint32 list \<Rightarrow> nat \<Rightarrow> nat \<Rightarrow> nat \<Rightarrow> nat \<times> nat" where
  "count_codes [] i num_codes code = (num_codes, code)"
| "count_codes (h # hs) i num_codes code =
     (if h \<noteq> 0 then
        (if num_codes = 0 then count_codes hs (i + 1) 1 i
         else (2, code))
      else count_codes hs (i + 1) num_codes code)"

definition rle_histogram :: "uint8 list \<Rightarrow> nat \<Rightarrow> uint32 list option" where
  "rle_histogram tree tree_size = foldM (\<lambda>i h. do {
     x \<leftarrow> arr_get tree i;
     c \<leftarrow> arr_get h (unat x);
     arr_set h (unat x) (c + 1) }) [0..<tree_size] (replicate BROTLI_CODE_LENGTH_CODES 0)"

definition BrotliStoreHuffmanTree ::
  "uint8 list \<Rightarrow> nat \<Rightarrow> HuffmanTree list \<Rightarrow> bit_storage \<Rightarrow> (HuffmanTree list \<times> bit_storage) option" where
  "BrotliStoreHuffmanTree depths num tree st = do {
     b \<leftarrow> BrotliWriteHuffmanTree depths num
       \<lparr>rle_size = 0, rle_tree = replicate BROTLI_NUM_COMMAND_SYMBOLS 0,
        rle_extra = replicate BROTLI_NUM_COMMAND_SYMBOLS 0\<rparr>;
     histogram \<leftarrow> rle_histogram (rle_tree b) (rle_size b);
     let (num_codes, code) = count_codes histogram 0 0 0;
     (tree, bitdepth) \<leftarrow> BrotliCreateHuffmanTree histogram BROTLI_CODE_LENGTH_CODES 5 tree
       (replicate BROTLI_CODE_LENGTH_CODES 0);
     symbols \<leftarrow> BrotliConvertBitDepthsToSymbols bitdepth BROTLI_CODE_LENGTH_CODES
       (replicate BROTLI_CODE_LENGTH_CODES 0);
     st \<leftarrow> BrotliStoreHuffmanTreeOfHuffmanTreeToBitMask num_codes bitdepth st;
     bitdepth \<leftarrow> (if num_codes = 1 then arr_set bitdepth code 0 else Some bitdepth);
     st \<leftarrow> BrotliStoreHuffmanTreeToBitMask (rle_size b) (rle_tree b) (rle_extra b) bitdepth symbols st;
     Some (tree, st) }"

section \<open>From a histogram\<close>

text \<open>The number of symbols that occur, counted up to five, and the first four of them.\<close>

fun first_symbols :: "uint32 list \<Rightarrow> nat \<Rightarrow> nat \<Rightarrow> nat list \<Rightarrow> nat \<times> nat list" where
  "first_symbols [] i count s4 = (count, s4)"
| "first_symbols (h # hs) i count s4 =
     (if h \<noteq> 0 then
        (if count < 4 then first_symbols hs (i + 1) (count + 1) (s4[count := i])
         else if count > 4 then (count, s4)
         else first_symbols hs (i + 1) (count + 1) s4)
      else first_symbols hs (i + 1) count s4)"

text \<open>\<open>while (max_bits_counter) { max_bits_counter >>= 1; ++max_bits; }\<close>\<close>

fun bit_count :: "nat \<Rightarrow> nat" where
  "bit_count n = (if n = 0 then 0 else Suc (bit_count (n div 2)))"

declare bit_count.simps [simp del]

text \<open>The result is the scratch tree, the depths, the code words, and the storage.\<close>

definition BuildAndStoreHuffmanTree ::
  "uint32 list \<Rightarrow> nat \<Rightarrow> nat \<Rightarrow> HuffmanTree list \<Rightarrow> uint8 list \<Rightarrow> uint16 list \<Rightarrow> bit_storage \<Rightarrow>
     (HuffmanTree list \<times> uint8 list \<times> uint16 list \<times> bit_storage) option" where
  "BuildAndStoreHuffmanTree histogram histogram_length alphabet_size tree depth bits st =
     (if histogram_length \<le> length histogram \<and> histogram_length \<le> length depth \<and> 0 < alphabet_size then do {
        let (count, s4) = first_symbols (take histogram_length histogram) 0 0 [0, 0, 0, 0];
        let max_bits = bit_count (alphabet_size - 1);
        if count \<le> 1 then do {
          st \<leftarrow> BrotliWriteBits 4 1 st;
          st \<leftarrow> BrotliWriteBits max_bits (of_nat (s4 ! 0)) st;
          depth \<leftarrow> arr_set depth (s4 ! 0) 0;
          bits \<leftarrow> arr_set bits (s4 ! 0) 0;
          Some (tree, depth, bits, st) }
        else do {
          let depth = replicate histogram_length 0 @ drop histogram_length depth;
          (tree, depth) \<leftarrow> BrotliCreateHuffmanTree histogram histogram_length 15 tree depth;
          bits \<leftarrow> BrotliConvertBitDepthsToSymbols depth histogram_length bits;
          if count \<le> 4 then do {
            st \<leftarrow> StoreSimpleHuffmanTree depth s4 count max_bits st;
            Some (tree, depth, bits, st) }
          else do {
            (tree, st) \<leftarrow> BrotliStoreHuffmanTree depth histogram_length tree st;
            Some (tree, depth, bits, st) } } }
      else None)"

section \<open>The fast variant\<close>

text \<open>The symbols up to where the histogram's total is used up; \<open>rest\<close> is a \<open>size_t\<close> that may wrap.\<close>

function fast_symbols :: "uint32 list \<Rightarrow> nat \<Rightarrow> nat \<Rightarrow> nat \<Rightarrow> nat list \<Rightarrow> (nat \<times> nat \<times> nat list) option" where
  "fast_symbols histogram rest len count symbols =
     (if rest = 0 then Some (len, count, symbols)
      else if len < length histogram then
        (let h = unat (histogram ! len) in
         if h \<noteq> 0 then
           fast_symbols histogram (nat ((int rest - int h) mod 2 ^ 64)) (len + 1) (count + 1)
             (if count < 4 then symbols[count := len] else symbols)
         else fast_symbols histogram rest (len + 1) count symbols)
      else None)"
  by pat_completeness auto
termination
  by (relation "measure (\<lambda>(h, t, l, c, s). length h - l)") auto

declare fast_symbols.simps [simp del]

definition fast_round ::
  "uint32 list \<Rightarrow> nat \<Rightarrow> uint32 \<Rightarrow> HuffmanTree list \<Rightarrow> uint8 list \<Rightarrow>
     (bool \<times> HuffmanTree list \<times> uint8 list) option" where
  "fast_round histogram len count_limit tree depth = do {
     (n, tree) \<leftarrow> foldM (tree_leaf histogram count_limit) (rev [0..<len]) (0, tree);
     tree \<leftarrow> SortHuffmanTreeItems SortHuffmanTree_fast n tree;
     tree \<leftarrow> arr_set tree n tree_sentinel;
     tree \<leftarrow> arr_set tree (n + 1) tree_sentinel;
     (i, j, tree) \<leftarrow> foldM (tree_parent n) (rev [1..<n]) (0, n + 1, tree);
     (ok, depth) \<leftarrow> BrotliSetDepth (int (2 * n) - 1) tree depth 14;
     Some (ok, tree, depth) }"

partial_function (option) fast_rounds ::
  "uint32 list \<Rightarrow> nat \<Rightarrow> uint32 \<Rightarrow> HuffmanTree list \<Rightarrow> uint8 list \<Rightarrow> uint8 list option" where
  [code]: "fast_rounds histogram len count_limit tree depth = do {
     (ok, tree, depth) \<leftarrow> fast_round histogram len count_limit tree depth;
     if ok then Some depth else fast_rounds histogram len (count_limit * 2) tree depth }"

definition store_code_length :: "uint8 \<Rightarrow> bit_storage \<Rightarrow> bit_storage option" where
  "store_code_length v st = do {
     n \<leftarrow> arr_get kCodeLengthDepth (unat v);
     b \<leftarrow> arr_get kCodeLengthBits (unat v);
     BrotliWriteBits (unat n) (ucast b) st }"

text \<open>The run-length coding of the depths with the static code.\<close>

function fast_runs :: "uint8 list \<Rightarrow> nat \<Rightarrow> nat \<Rightarrow> uint8 \<Rightarrow> bit_storage \<Rightarrow> bit_storage option" where
  "fast_runs depth len i previous_value st =
     (if i < len then do {
        v \<leftarrow> arr_get depth i;
        let reps = run_length_at depth len i;
        if v = 0 then do {
          n \<leftarrow> arr_get kZeroRepsDepth reps;
          b \<leftarrow> arr_get kZeroRepsBits reps;
          st \<leftarrow> BrotliWriteBits (unat n) b st;
          fast_runs depth len (i + reps) previous_value st }
        else do {
          (r, st) \<leftarrow> (if previous_value \<noteq> v then do { st \<leftarrow> store_code_length v st; Some (reps - 1, st) }
                     else Some (reps, st));
          st \<leftarrow> (if r < 3 then foldM (\<lambda>_. store_code_length v) [0..<r] st
                else do {
                  n \<leftarrow> arr_get kNonZeroRepsDepth (r - 3);
                  b \<leftarrow> arr_get kNonZeroRepsBits (r - 3);
                  BrotliWriteBits (unat n) b st });
          fast_runs depth len (i + reps) v st } }
      else Some st)"
  by pat_completeness auto
termination
  by (relation "measure (\<lambda>(d, l, i, p, s). l - i)") (auto simp: run_length_at_def)

declare fast_runs.simps [simp del]

text \<open>The result is the depths, the code words, and the storage.\<close>

definition BrotliBuildAndStoreHuffmanTreeFast ::
  "uint32 list \<Rightarrow> nat \<Rightarrow> nat \<Rightarrow> uint8 list \<Rightarrow> uint16 list \<Rightarrow> bit_storage \<Rightarrow>
     (uint8 list \<times> uint16 list \<times> bit_storage) option" where
  "BrotliBuildAndStoreHuffmanTreeFast histogram histogram_total max_bits depth bits st = do {
     (len, count, symbols) \<leftarrow> fast_symbols histogram histogram_total 0 0 [0, 0, 0, 0];
     if count \<le> 1 then do {
       st \<leftarrow> BrotliWriteBits 4 1 st;
       st \<leftarrow> BrotliWriteBits max_bits (of_nat (symbols ! 0)) st;
       depth \<leftarrow> arr_set depth (symbols ! 0) 0;
       bits \<leftarrow> arr_set bits (symbols ! 0) 0;
       Some (depth, bits, st) }
     else if len \<le> length depth then do {
       let depth = replicate len 0 @ drop len depth;
       depth \<leftarrow> fast_rounds histogram len 1 (replicate (2 * len + 1) (InitHuffmanTree 0 0 0)) depth;
       bits \<leftarrow> BrotliConvertBitDepthsToSymbols depth len bits;
       if count \<le> 4 then do {
         st \<leftarrow> StoreSimpleHuffmanTree depth symbols count max_bits st;
         Some (depth, bits, st) }
       else do {
         st \<leftarrow> StoreStaticCodeLengthCode st;
         st \<leftarrow> fast_runs depth len 0 8 st;
         Some (depth, bits, st) } }
     else None }"

end
