(* ===== verification/Enc_Context_Map.thy ===== *)
theory Enc_Context_Map
  imports Enc_Trees
begin

text \<open>
  \<^verbatim>\<open>enc/brotli_bit_stream.c\<close>: how the encoder stores context maps and block switches.
\<close>

section \<open>Move to front\<close>

fun IndexOf :: "uint8 list \<Rightarrow> nat \<Rightarrow> uint8 \<Rightarrow> nat \<Rightarrow> nat option" where
  "IndexOf v 0 x i = Some i"
| "IndexOf v (Suc n) x i = do {
     y \<leftarrow> arr_get v i;
     if y = x then Some i else IndexOf v n x (i + 1) }"

fun shift_up :: "uint8 list \<Rightarrow> nat \<Rightarrow> uint8 list option" where
  "shift_up v 0 = Some v"
| "shift_up v (Suc i) = do {
     y \<leftarrow> arr_get v i;
     v \<leftarrow> arr_set v (Suc i) y;
     shift_up v i }"

definition MoveToFront :: "uint8 list \<Rightarrow> nat \<Rightarrow> uint8 list option" where
  "MoveToFront v index = do {
     x \<leftarrow> arr_get v index;
     v \<leftarrow> shift_up v index;
     arr_set v 0 x }"

definition mtf_encode_step ::
  "uint32 list \<Rightarrow> nat \<Rightarrow> nat \<Rightarrow> uint8 list \<times> uint32 list \<Rightarrow> (uint8 list \<times> uint32 list) option" where
  "mtf_encode_step v_in mtf_size i mo = (case mo of (mtf, v_out) \<Rightarrow> do {
     x \<leftarrow> arr_get v_in i;
     index \<leftarrow> IndexOf mtf mtf_size (ucast x) 0;
     v_out \<leftarrow> arr_set v_out i (of_nat index);
     mtf \<leftarrow> MoveToFront mtf index;
     Some (mtf, v_out) })"

definition MoveToFrontTransform :: "uint32 list \<Rightarrow> nat \<Rightarrow> uint32 list \<Rightarrow> uint32 list option" where
  "MoveToFrontTransform v_in v_size v_out =
     (if v_size = 0 then Some v_out
      else if v_size \<le> length v_in then do {
        let max_value = unat (foldl max (v_in ! 0) (take (v_size - 1) (drop 1 v_in)));
        mtf \<leftarrow> foldM (\<lambda>i mtf. arr_set mtf i (of_nat i)) [0..<max_value + 1] (replicate 256 0);
        (mtf, v_out) \<leftarrow> foldM (mtf_encode_step v_in (max_value + 1)) [0..<v_size] (mtf, v_out);
        Some v_out }
      else None)"

section \<open>Runs of zeros\<close>

text \<open>The number of zeros from \<open>i\<close> on, and of other values.\<close>

definition zeros_at :: "uint32 list \<Rightarrow> nat \<Rightarrow> nat \<Rightarrow> nat" where
  "zeros_at v n i = length (takeWhile (\<lambda>x. x = 0) (drop i (take n v)))"

definition nonzeros_at :: "uint32 list \<Rightarrow> nat \<Rightarrow> nat \<Rightarrow> nat" where
  "nonzeros_at v n i = length (takeWhile (\<lambda>x. x \<noteq> 0) (drop i (take n v)))"

lemma zeros_or_nonzeros: "i < n \<Longrightarrow> n \<le> length v \<Longrightarrow> 0 < nonzeros_at v n i + zeros_at v n (i + nonzeros_at v n i)"
  by (cases "v ! i = 0") (simp_all add: zeros_at_def nonzeros_at_def Cons_nth_drop_Suc [symmetric])

function max_zero_run :: "uint32 list \<Rightarrow> nat \<Rightarrow> nat \<Rightarrow> nat \<Rightarrow> nat" where
  "max_zero_run v n i max_reps =
     (if i < n \<and> n \<le> length v then
        (let i = i + nonzeros_at v n i; reps = zeros_at v n i
         in max_zero_run v n (i + reps) (max reps max_reps))
      else max_reps)"
  by pat_completeness auto
termination
proof (relation "measure (\<lambda>(v, n, i, m). n - i)")
  fix v :: "uint32 list" and n i m k reps :: nat
  assume "i < n \<and> n \<le> length v" "k = i + nonzeros_at v n i" "reps = zeros_at v n k"
  then have "i < k + reps" using zeros_or_nonzeros [of i n v] by simp
  then show "((v, n, k + reps, max reps m), v, n, i, m) \<in> measure (\<lambda>(v, n, i, m). n - i)"
    using \<open>i < n \<and> n \<le> length v\<close> by (simp add: diff_less_mono2)
qed simp

declare max_zero_run.simps [simp del]

text \<open>The prefix codes of one run of \<open>reps\<close> zeros, written to \<open>v\<close> from \<open>out_size\<close> on.\<close>

function put_zero_run :: "nat \<Rightarrow> nat \<Rightarrow> uint32 list \<times> nat \<Rightarrow> (uint32 list \<times> nat) option" where
  "put_zero_run max_prefix reps vo =
     (if reps = 0 then Some vo
      else if reps < 2 * 2 ^ max_prefix then do {
        l \<leftarrow> Log2FloorNonZero reps;
        v \<leftarrow> arr_set (fst vo) (snd vo) (of_nat l + push_bit 9 (of_nat (reps - 2 ^ l)));
        Some (v, snd vo + 1) }
      else do {
        v \<leftarrow> arr_set (fst vo) (snd vo) (of_nat max_prefix + push_bit 9 (of_nat (2 ^ max_prefix - 1)));
        put_zero_run max_prefix (reps - (2 * 2 ^ max_prefix - 1)) (v, snd vo + 1) })"
  by pat_completeness auto
termination
proof (relation "measure (\<lambda>(m, r, vo). r)")
  fix p reps :: nat and vo :: "uint32 list \<times> nat" and v
  assume "reps \<noteq> 0"
  moreover have "1 < 2 * 2 ^ p - (0 :: nat)" using one_le_power [of "2 :: nat" p] by linarith
  ultimately have "reps - (2 * 2 ^ p - 1) < reps" by linarith
  then show "((p, reps - (2 * 2 ^ p - 1), v, snd vo + 1), p, reps, vo) \<in> measure (\<lambda>(m, r, vo). r)" by simp
qed simp

declare put_zero_run.simps [simp del]

text \<open>The second pass, in place: \<open>i\<close> reads, \<open>out_size\<close> writes.\<close>

function code_zeros :: "nat \<Rightarrow> nat \<Rightarrow> nat \<Rightarrow> uint32 list \<times> nat \<Rightarrow> (uint32 list \<times> nat) option" where
  "code_zeros in_size max_prefix i vo =
     (if i < in_size then do {
        x \<leftarrow> arr_get (fst vo) i;
        if x \<noteq> 0 then do {
          v \<leftarrow> arr_set (fst vo) (snd vo) (x + of_nat max_prefix);
          code_zeros in_size max_prefix (i + 1) (v, snd vo + 1) }
        else do {
          let reps = Suc (zeros_at (fst vo) in_size (i + 1));
          vo \<leftarrow> put_zero_run max_prefix reps vo;
          code_zeros in_size max_prefix (i + reps) vo } }
      else Some vo)"
  by pat_completeness auto
termination
  by (relation "measure (\<lambda>(n, m, i, vo). n - i)") auto

declare code_zeros.simps [simp del]

text \<open>The result is the array, \<open>*out_size\<close> and \<open>*max_run_length_prefix\<close>.\<close>

definition RunLengthCodeZeros :: "nat \<Rightarrow> uint32 list \<Rightarrow> nat \<Rightarrow> (uint32 list \<times> nat \<times> nat) option" where
  "RunLengthCodeZeros in_size v max_run_length_prefix =
     (if in_size \<le> length v then do {
        let max_reps = max_zero_run v in_size 0 0;
        max_prefix \<leftarrow> (if max_reps > 0 then Log2FloorNonZero max_reps else Some 0);
        let max_prefix = min max_prefix max_run_length_prefix;
        (v, out_size) \<leftarrow> code_zeros in_size max_prefix 0 (v, 0);
        Some (v, out_size, max_prefix) }
      else None)"

section \<open>Context maps\<close>

abbreviation (input) BROTLI_MAX_CONTEXT_MAP_SYMBOLS :: nat where "BROTLI_MAX_CONTEXT_MAP_SYMBOLS \<equiv> 272"

definition count_rle_symbols :: "uint32 list \<Rightarrow> nat \<Rightarrow> uint32 list option" where
  "count_rle_symbols rle n = foldM (\<lambda>i h. do {
     x \<leftarrow> arr_get rle i;
     c \<leftarrow> arr_get h (unat (x AND 0x1FF));
     arr_set h (unat (x AND 0x1FF)) (c + 1) }) [0..<n] (replicate BROTLI_MAX_CONTEXT_MAP_SYMBOLS 0)"

definition write_code :: "uint8 list \<Rightarrow> uint16 list \<Rightarrow> nat \<Rightarrow> bit_storage \<Rightarrow> bit_storage option" where
  "write_code depths bits k st = do {
     n \<leftarrow> arr_get depths k;
     b \<leftarrow> arr_get bits k;
     BrotliWriteBits (unat n) (ucast b) st }"

definition store_map_symbol ::
  "uint8 list \<Rightarrow> uint16 list \<Rightarrow> nat \<Rightarrow> uint32 list \<Rightarrow> nat \<Rightarrow> bit_storage \<Rightarrow> bit_storage option" where
  "store_map_symbol depths bits max_prefix rle i st = do {
     x \<leftarrow> arr_get rle i;
     let rle_symbol = unat (x AND 0x1FF);
     st \<leftarrow> write_code depths bits rle_symbol st;
     if rle_symbol > 0 \<and> rle_symbol \<le> max_prefix
     then BrotliWriteBits rle_symbol (ucast (drop_bit 9 x)) st
     else Some st }"

definition EncodeContextMap ::
  "uint32 list \<Rightarrow> nat \<Rightarrow> nat \<Rightarrow> HuffmanTree list \<Rightarrow> bit_storage \<Rightarrow> (HuffmanTree list \<times> bit_storage) option" where
  "EncodeContextMap context_map context_map_size num_clusters tree st = do {
     st \<leftarrow> StoreVarLenUint8 (num_clusters - 1) st;
     if num_clusters = 1 then Some (tree, st)
     else do {
       rle \<leftarrow> MoveToFrontTransform context_map context_map_size (replicate context_map_size 0);
       (rle, n, max_prefix) \<leftarrow> RunLengthCodeZeros context_map_size rle 6;
       histogram \<leftarrow> count_rle_symbols rle n;
       st \<leftarrow> BrotliWriteBits 1 (of_bool (max_prefix > 0)) st;
       st \<leftarrow> (if max_prefix > 0 then BrotliWriteBits 4 (of_nat max_prefix - 1) st else Some st);
       (tree, depths, bits, st) \<leftarrow> BuildAndStoreHuffmanTree histogram (num_clusters + max_prefix)
          (num_clusters + max_prefix) tree (replicate BROTLI_MAX_CONTEXT_MAP_SYMBOLS 0)
          (replicate BROTLI_MAX_CONTEXT_MAP_SYMBOLS 0) st;
       st \<leftarrow> foldM (store_map_symbol depths bits max_prefix rle) [0..<n] st;
       st \<leftarrow> BrotliWriteBits 1 1 st;
       Some (tree, st) } }"

text \<open>A context map that maps every context of a block type to the type.\<close>

definition StoreTrivialContextMap ::
  "nat \<Rightarrow> nat \<Rightarrow> HuffmanTree list \<Rightarrow> bit_storage \<Rightarrow> (HuffmanTree list \<times> bit_storage) option" where
  "StoreTrivialContextMap num_types context_bits tree st = do {
     st \<leftarrow> StoreVarLenUint8 (num_types - 1) st;
     if num_types > 1 then do {
       let repeat_code = context_bits - 1;
       let repeat_bits = 2 ^ repeat_code - 1;
       let alphabet_size = num_types + repeat_code;
       st \<leftarrow> BrotliWriteBits 1 1 st;
       st \<leftarrow> BrotliWriteBits 4 (of_nat repeat_code - 1) st;
       let histogram = replicate BROTLI_MAX_CONTEXT_MAP_SYMBOLS 0;
       histogram \<leftarrow> arr_set histogram repeat_code (of_nat num_types);
       histogram \<leftarrow> arr_set histogram 0 1;
       histogram \<leftarrow> foldM (\<lambda>i h. arr_set h i 1) [context_bits..<alphabet_size] histogram;
       (tree, depths, bits, st) \<leftarrow> BuildAndStoreHuffmanTree histogram alphabet_size alphabet_size tree
         (replicate BROTLI_MAX_CONTEXT_MAP_SYMBOLS 0) (replicate BROTLI_MAX_CONTEXT_MAP_SYMBOLS 0) st;
       st \<leftarrow> foldM (\<lambda>i st. do {
         let code = (if i = 0 then 0 else i + context_bits - 1);
         st \<leftarrow> write_code depths bits code st;
         st \<leftarrow> write_code depths bits repeat_code st;
         BrotliWriteBits repeat_code (of_nat repeat_bits) st }) [0..<num_types] st;
       st \<leftarrow> BrotliWriteBits 1 1 st;
       Some (tree, st) }
     else Some (tree, st) }"

section \<open>Block switches\<close>

abbreviation (input) BROTLI_MAX_BLOCK_TYPE_SYMBOLS :: nat where "BROTLI_MAX_BLOCK_TYPE_SYMBOLS \<equiv> 258"

record BlockSplitCode =
  type_code_calculator :: BlockTypeCodeCalculator
  type_depths :: "uint8 list"
  type_bits :: "uint16 list"
  length_depths :: "uint8 list"
  length_bits :: "uint16 list"

definition StoreBlockSwitch ::
  "BlockSplitCode \<Rightarrow> uint32 \<Rightarrow> uint8 \<Rightarrow> bool \<Rightarrow> bit_storage \<Rightarrow> (BlockSplitCode \<times> bit_storage) option" where
  "StoreBlockSwitch code block_len block_type is_first_block st = do {
     let (typecode, calc) = NextBlockTypeCode (type_code_calculator code) block_type;
     let code = code\<lparr>type_code_calculator := calc\<rparr>;
     st \<leftarrow> (if \<not> is_first_block then write_code (type_depths code) (type_bits code) typecode st else Some st);
     (lencode, len_nextra, len_extra) \<leftarrow> GetBlockLengthPrefixCode (unat block_len);
     st \<leftarrow> write_code (length_depths code) (length_bits code) lencode st;
     st \<leftarrow> BrotliWriteBits len_nextra (ucast len_extra) st;
     Some (code, st) }"

definition count_block ::
  "uint8 list \<Rightarrow> uint32 list \<Rightarrow> nat \<Rightarrow> uint32 list \<times> uint32 list \<times> BlockTypeCodeCalculator \<Rightarrow>
     (uint32 list \<times> uint32 list \<times> BlockTypeCodeCalculator) option" where
  "count_block types lengths i hs = (case hs of (type_histo, length_histo, calc) \<Rightarrow> do {
     t \<leftarrow> arr_get types i;
     l \<leftarrow> arr_get lengths i;
     let (type_code, calc) = NextBlockTypeCode calc t;
     type_histo \<leftarrow> (if i \<noteq> 0 then do { c \<leftarrow> arr_get type_histo type_code; arr_set type_histo type_code (c + 1) }
                   else Some type_histo);
     k \<leftarrow> BlockLengthPrefixCode (unat l);
     c \<leftarrow> arr_get length_histo k;
     length_histo \<leftarrow> arr_set length_histo k (c + 1);
     Some (type_histo, length_histo, calc) })"

definition BuildAndStoreBlockSplitCode ::
  "uint8 list \<Rightarrow> uint32 list \<Rightarrow> nat \<Rightarrow> nat \<Rightarrow> HuffmanTree list \<Rightarrow> BlockSplitCode \<Rightarrow> bit_storage \<Rightarrow>
     (HuffmanTree list \<times> BlockSplitCode \<times> bit_storage) option" where
  "BuildAndStoreBlockSplitCode types lengths num_blocks num_types tree code st = do {
     (type_histo, length_histo, calc) \<leftarrow> foldM (count_block types lengths) [0..<num_blocks]
       (replicate BROTLI_MAX_BLOCK_TYPE_SYMBOLS 0, replicate BROTLI_NUM_BLOCK_LEN_SYMBOLS 0, InitBlockTypeCodeCalculator);
     st \<leftarrow> StoreVarLenUint8 (num_types - 1) st;
     if num_types > 1 then do {
       (tree, td, tb, st) \<leftarrow> BuildAndStoreHuffmanTree type_histo (num_types + 2) (num_types + 2) tree
         (type_depths code) (type_bits code) st;
       (tree, ld, lb, st) \<leftarrow> BuildAndStoreHuffmanTree length_histo BROTLI_NUM_BLOCK_LEN_SYMBOLS
         BROTLI_NUM_BLOCK_LEN_SYMBOLS tree (length_depths code) (length_bits code) st;
       l0 \<leftarrow> arr_get lengths 0;
       t0 \<leftarrow> arr_get types 0;
       (code, st) \<leftarrow> StoreBlockSwitch
         (code\<lparr>type_depths := td, type_bits := tb, length_depths := ld, length_bits := lb\<rparr>) l0 t0 True st;
       Some (tree, code, st) }
     else Some (tree, code, st) }"

end
