(* ===== verification/Enc_Meta_Block.thy ===== *)
theory Enc_Meta_Block
  imports Enc_Context_Map Context_Lut
begin

text \<open>
  \<^verbatim>\<open>enc/brotli_bit_stream.c\<close> and \<^verbatim>\<open>enc/block_encoder_inc.h\<close>: the writers of whole meta-blocks.  The input is
  the encoder's ring buffer, of which \<open>pos & mask\<close> is an index; a histogram is its array of counts
  (\<open>data_\<close>) with its total, without the floating-point cost that only the block splitter uses.
\<close>

section \<open>Data\<close>

record Histogram =
  hist_data :: "uint32 list"
  hist_total :: nat

definition HistogramClear :: "nat \<Rightarrow> Histogram" where
  "HistogramClear data_size = \<lparr>hist_data = replicate data_size 0, hist_total = 0\<rparr>"

definition HistogramAdd :: "nat \<Rightarrow> Histogram \<Rightarrow> Histogram option" where
  "HistogramAdd val h = do {
     c \<leftarrow> arr_get (hist_data h) val;
     d \<leftarrow> arr_set (hist_data h) val (c + 1);
     Some \<lparr>hist_data = d, hist_total = hist_total h + 1\<rparr> }"

record BlockSplit =
  num_types :: nat
  num_blocks :: nat
  types :: "uint8 list"
  lengths :: "uint32 list"

record MetaBlockSplit =
  literal_split :: BlockSplit
  command_split :: BlockSplit
  distance_split :: BlockSplit
  literal_context_map :: "uint32 list"
  literal_context_map_size :: nat
  distance_context_map :: "uint32 list"
  distance_context_map_size :: nat
  literal_histograms :: "Histogram list"
  literal_histograms_size :: nat
  command_histograms :: "Histogram list"
  command_histograms_size :: nat
  distance_histograms :: "Histogram list"
  distance_histograms_size :: nat

section \<open>The encoder of one block category\<close>

record BlockEncoder =
  histogram_length :: nat
  be_num_block_types :: nat
  be_block_types :: "uint8 list"
  be_block_lengths :: "uint32 list"
  be_num_blocks :: nat
  block_split_code :: BlockSplitCode
  block_ix :: nat
  block_len :: nat
  entropy_ix :: nat
  be_depths :: "uint8 list"
  be_bits :: "uint16 list"

definition InitBlockEncoder :: "nat \<Rightarrow> BlockSplit \<Rightarrow> BlockEncoder option" where
  "InitBlockEncoder hist_len split = do {
     l0 \<leftarrow> (if num_blocks split = 0 then Some 0 else arr_get (lengths split) 0);
     Some \<lparr>histogram_length = hist_len, be_num_block_types = num_types split,
       be_block_types = types split, be_block_lengths = lengths split, be_num_blocks = num_blocks split,
       block_split_code = \<lparr>type_code_calculator = InitBlockTypeCodeCalculator,
         type_depths = replicate BROTLI_MAX_BLOCK_TYPE_SYMBOLS 0, type_bits = replicate BROTLI_MAX_BLOCK_TYPE_SYMBOLS 0,
         length_depths = replicate BROTLI_NUM_BLOCK_LEN_SYMBOLS 0, length_bits = replicate BROTLI_NUM_BLOCK_LEN_SYMBOLS 0\<rparr>,
       block_ix = 0, block_len = unat l0, entropy_ix = 0, be_depths = [], be_bits = []\<rparr> }"

definition BuildAndStoreBlockSwitchEntropyCodes ::
  "BlockEncoder \<Rightarrow> HuffmanTree list \<Rightarrow> bit_storage \<Rightarrow> (BlockEncoder \<times> HuffmanTree list \<times> bit_storage) option" where
  "BuildAndStoreBlockSwitchEntropyCodes be tree st = do {
     (tree, code, st) \<leftarrow> BuildAndStoreBlockSplitCode (be_block_types be) (be_block_lengths be)
       (be_num_blocks be) (be_num_block_types be) tree (block_split_code be) st;
     Some (be\<lparr>block_split_code := code\<rparr>, tree, st) }"

text \<open>The start of the next block, when the current one is used up; \<open>ix\<close> is the entropy index of its type.\<close>

definition next_block :: "(uint8 \<Rightarrow> nat) \<Rightarrow> BlockEncoder \<Rightarrow> bit_storage \<Rightarrow> (BlockEncoder \<times> bit_storage) option" where
  "next_block ix be st =
     (if block_len be = 0 then do {
        let i = block_ix be + 1;
        len \<leftarrow> arr_get (be_block_lengths be) i;
        t \<leftarrow> arr_get (be_block_types be) i;
        (code, st) \<leftarrow> StoreBlockSwitch (block_split_code be) len t False st;
        Some (be\<lparr>block_ix := i, block_len := unat len, entropy_ix := ix t, block_split_code := code\<rparr>, st) }
      else Some (be, st))"

definition StoreSymbol :: "BlockEncoder \<Rightarrow> nat \<Rightarrow> bit_storage \<Rightarrow> (BlockEncoder \<times> bit_storage) option" where
  "StoreSymbol be symbol st = do {
     (be, st) \<leftarrow> next_block (\<lambda>t. unat t * histogram_length be) be st;
     let be = be\<lparr>block_len := nat ((int (block_len be) - 1) mod 2 ^ 64)\<rparr>;
     st \<leftarrow> write_code (be_depths be) (be_bits be) (entropy_ix be + symbol) st;
     Some (be, st) }"

definition StoreSymbolWithContext ::
  "BlockEncoder \<Rightarrow> nat \<Rightarrow> nat \<Rightarrow> uint32 list \<Rightarrow> bit_storage \<Rightarrow> nat \<Rightarrow> (BlockEncoder \<times> bit_storage) option" where
  "StoreSymbolWithContext be symbol context_id context_map st context_bits = do {
     (be, st) \<leftarrow> next_block (\<lambda>t. unat t * 2 ^ context_bits) be st;
     let be = be\<lparr>block_len := nat ((int (block_len be) - 1) mod 2 ^ 64)\<rparr>;
     histo_ix \<leftarrow> arr_get context_map (entropy_ix be + context_id);
     st \<leftarrow> write_code (be_depths be) (be_bits be) (unat histo_ix * histogram_length be + symbol) st;
     Some (be, st) }"

text \<open>\<open>BuildAndStoreEntropyCodesLiteral\<close>, \<open>..Command\<close> and \<open>..Distance\<close>: one code per histogram, side by
  side in \<open>depths_\<close> and \<open>bits_\<close>.\<close>

definition store_entropy_code ::
  "Histogram list \<Rightarrow> nat \<Rightarrow> nat \<Rightarrow> nat \<Rightarrow> HuffmanTree list \<times> uint8 list \<times> uint16 list \<times> bit_storage \<Rightarrow>
     (HuffmanTree list \<times> uint8 list \<times> uint16 list \<times> bit_storage) option" where
  "store_entropy_code histograms hist_len alphabet_size i s = (case s of (tree, depths, bits, st) \<Rightarrow> do {
     h \<leftarrow> arr_get histograms i;
     let ix = i * hist_len;
     (tree, d, b, st) \<leftarrow> BuildAndStoreHuffmanTree (hist_data h) hist_len alphabet_size tree
       (drop ix depths) (drop ix bits) st;
     Some (tree, take ix depths @ d, take ix bits @ b, st) })"

definition BuildAndStoreEntropyCodes ::
  "BlockEncoder \<Rightarrow> Histogram list \<Rightarrow> nat \<Rightarrow> nat \<Rightarrow> HuffmanTree list \<Rightarrow> bit_storage \<Rightarrow>
     (BlockEncoder \<times> HuffmanTree list \<times> bit_storage) option" where
  "BuildAndStoreEntropyCodes be histograms histograms_size alphabet_size tree st = do {
     let table_size = histograms_size * histogram_length be;
     (tree, depths, bits, st) \<leftarrow> foldM (store_entropy_code histograms (histogram_length be) alphabet_size)
       [0..<histograms_size] (tree, replicate table_size 0, replicate table_size 0, st);
     Some (be\<lparr>be_depths := depths, be_bits := bits\<rparr>, tree, st) }"

section \<open>Compressed meta-blocks\<close>

definition in_byte :: "uint8 list \<Rightarrow> nat \<Rightarrow> nat \<Rightarrow> uint8 option" where
  "in_byte inp rmask pos = arr_get inp ((pos mod 2 ^ 64) AND rmask)"

record block_encoders =
  literal_enc :: BlockEncoder
  command_enc :: BlockEncoder
  distance_enc :: BlockEncoder

record store_pos =
  sp_pos :: nat
  prev_byte :: uint8
  prev_byte2 :: uint8

text \<open>The literals of a command, without and with a context map.\<close>

fun store_literals ::
  "nat \<Rightarrow> uint8 list \<Rightarrow> nat \<Rightarrow> nat \<Rightarrow> BlockEncoder \<Rightarrow> bit_storage \<Rightarrow> (nat \<times> BlockEncoder \<times> bit_storage) option" where
  "store_literals 0 inp rmask pos be st = Some (pos, be, st)"
| "store_literals (Suc n) inp rmask pos be st = do {
     x \<leftarrow> in_byte inp rmask pos;
     (be, st) \<leftarrow> StoreSymbol be (unat x) st;
     store_literals n inp rmask (pos + 1) be st }"

fun store_literals_context ::
  "nat \<Rightarrow> uint8 list \<Rightarrow> nat \<Rightarrow> ContextLut \<Rightarrow> uint32 list \<Rightarrow> store_pos \<Rightarrow> BlockEncoder \<Rightarrow> bit_storage \<Rightarrow>
     (store_pos \<times> BlockEncoder \<times> bit_storage) option" where
  "store_literals_context 0 inp rmask lut cmap p be st = Some (p, be, st)"
| "store_literals_context (Suc n) inp rmask lut cmap p be st = do {
     ctx \<leftarrow> BROTLI_CONTEXT (prev_byte p) (prev_byte2 p) lut;
     x \<leftarrow> in_byte inp rmask (sp_pos p);
     (be, st) \<leftarrow> StoreSymbolWithContext be (unat x) (unat ctx) cmap st BROTLI_LITERAL_CONTEXT_BITS;
     store_literals_context n inp rmask lut cmap
       \<lparr>sp_pos = sp_pos p + 1, prev_byte = x, prev_byte2 = prev_byte p\<rparr> be st }"

definition store_distance ::
  "MetaBlockSplit \<Rightarrow> Command \<Rightarrow> BlockEncoder \<Rightarrow> bit_storage \<Rightarrow> (BlockEncoder \<times> bit_storage) option" where
  "store_distance mb c be st = do {
     let dist_code = unat (dist_prefix c AND 0x3FF);
     let distnumextra = unat (drop_bit 10 (dist_prefix c));
     (be, st) \<leftarrow> (if distance_context_map_size mb = 0 then StoreSymbol be dist_code st
                 else StoreSymbolWithContext be dist_code (unat (CommandDistanceContext c))
                        (distance_context_map mb) st BROTLI_DISTANCE_CONTEXT_BITS);
     st \<leftarrow> BrotliWriteBits distnumextra (ucast (dist_extra c)) st;
     Some (be, st) }"

definition store_command ::
  "uint8 list \<Rightarrow> nat \<Rightarrow> ContextLut \<Rightarrow> MetaBlockSplit \<Rightarrow> Command \<Rightarrow>
     store_pos \<times> block_encoders \<times> bit_storage \<Rightarrow> (store_pos \<times> block_encoders \<times> bit_storage) option" where
  "store_command inp rmask lut mb c s = (case s of (p, e, st) \<Rightarrow> do {
     (be, st) \<leftarrow> StoreSymbol (command_enc e) (unat (cmd_prefix c)) st;
     let e = e\<lparr>command_enc := be\<rparr>;
     st \<leftarrow> StoreCommandExtra c st;
     (p, be, st) \<leftarrow> (if literal_context_map_size mb = 0 then do {
         (pos, be, st) \<leftarrow> store_literals (unat (insert_len c)) inp rmask (sp_pos p) (literal_enc e) st;
         Some (p\<lparr>sp_pos := pos\<rparr>, be, st) }
       else store_literals_context (unat (insert_len c)) inp rmask lut (literal_context_map mb) p (literal_enc e) st);
     let e = e\<lparr>literal_enc := be\<rparr>;
     let p = p\<lparr>sp_pos := sp_pos p + unat (CommandCopyLen c)\<rparr>;
     if CommandCopyLen c \<noteq> 0 then do {
       b2 \<leftarrow> in_byte inp rmask (sp_pos p + 2 ^ 64 - 2);
       b1 \<leftarrow> in_byte inp rmask (sp_pos p + 2 ^ 64 - 1);
       let p = p\<lparr>prev_byte2 := b2, prev_byte := b1\<rparr>;
       if cmd_prefix c \<ge> 128 then do {
         (be, st) \<leftarrow> store_distance mb c (distance_enc e) st;
         Some (p, e\<lparr>distance_enc := be\<rparr>, st) }
       else Some (p, e, st) }
     else Some (p, e, st) })"

text \<open>The size of the array for the nodes, \<open>MAX_HUFFMAN_TREE_SIZE\<close>.\<close>

definition fresh_tree :: "HuffmanTree list" where
  "fresh_tree = replicate (2 * BROTLI_NUM_COMMAND_SYMBOLS + 1) (InitHuffmanTree 0 0 0)"

definition BrotliStoreMetaBlock ::
  "uint8 list \<Rightarrow> nat \<Rightarrow> nat \<Rightarrow> nat \<Rightarrow> uint8 \<Rightarrow> uint8 \<Rightarrow> bool \<Rightarrow> BrotliDistanceParams \<Rightarrow> nat \<Rightarrow>
     Command list \<Rightarrow> MetaBlockSplit \<Rightarrow> bit_storage \<Rightarrow> bit_storage option" where
  "BrotliStoreMetaBlock inp start_pos len rmask prev prev2 is_last dist mode commands mb st = do {
     st \<leftarrow> StoreCompressedMetaBlockHeader is_last len st;
     lit \<leftarrow> InitBlockEncoder BROTLI_NUM_LITERAL_SYMBOLS (literal_split mb);
     cmd \<leftarrow> InitBlockEncoder BROTLI_NUM_COMMAND_SYMBOLS (command_split mb);
     dst \<leftarrow> InitBlockEncoder (unat (dp_alphabet_size_limit dist)) (distance_split mb);
     (lit, tree, st) \<leftarrow> BuildAndStoreBlockSwitchEntropyCodes lit fresh_tree st;
     (cmd, tree, st) \<leftarrow> BuildAndStoreBlockSwitchEntropyCodes cmd tree st;
     (dst, tree, st) \<leftarrow> BuildAndStoreBlockSwitchEntropyCodes dst tree st;
     st \<leftarrow> BrotliWriteBits 2 (ucast (distance_postfix_bits dist)) st;
     nd \<leftarrow> shr32 (num_direct_distance_codes dist) (distance_postfix_bits dist);
     st \<leftarrow> BrotliWriteBits 4 (ucast nd) st;
     st \<leftarrow> foldM (\<lambda>_. BrotliWriteBits 2 (of_nat mode)) [0..<num_types (literal_split mb)] st;
     (tree, st) \<leftarrow> (if literal_context_map_size mb = 0
       then StoreTrivialContextMap (literal_histograms_size mb) BROTLI_LITERAL_CONTEXT_BITS tree st
       else EncodeContextMap (literal_context_map mb) (literal_context_map_size mb)
              (literal_histograms_size mb) tree st);
     (tree, st) \<leftarrow> (if distance_context_map_size mb = 0
       then StoreTrivialContextMap (distance_histograms_size mb) BROTLI_DISTANCE_CONTEXT_BITS tree st
       else EncodeContextMap (distance_context_map mb) (distance_context_map_size mb)
              (distance_histograms_size mb) tree st);
     (lit, tree, st) \<leftarrow> BuildAndStoreEntropyCodes lit (literal_histograms mb) (literal_histograms_size mb)
       BROTLI_NUM_LITERAL_SYMBOLS tree st;
     (cmd, tree, st) \<leftarrow> BuildAndStoreEntropyCodes cmd (command_histograms mb) (command_histograms_size mb)
       BROTLI_NUM_COMMAND_SYMBOLS tree st;
     (dst, tree, st) \<leftarrow> BuildAndStoreEntropyCodes dst (distance_histograms mb) (distance_histograms_size mb)
       (unat (dp_alphabet_size_max dist)) tree st;
     (p, e, st) \<leftarrow> foldM (store_command inp rmask (BROTLI_CONTEXT_LUT mode) mb) commands
       (\<lparr>sp_pos = start_pos, prev_byte = prev, prev_byte2 = prev2\<rparr>,
        \<lparr>literal_enc = lit, command_enc = cmd, distance_enc = dst\<rparr>, st);
     if is_last then JumpToByteBoundary st else Some st }"

section \<open>Meta-blocks without block splits\<close>

record three_histograms =
  lit_histo :: Histogram
  cmd_histo :: Histogram
  dist_histo :: Histogram

fun add_literals :: "nat \<Rightarrow> uint8 list \<Rightarrow> nat \<Rightarrow> nat \<times> Histogram \<Rightarrow> (nat \<times> Histogram) option" where
  "add_literals 0 inp rmask ph = Some ph"
| "add_literals (Suc n) inp rmask ph = do {
     x \<leftarrow> in_byte inp rmask (fst ph);
     h \<leftarrow> HistogramAdd (unat x) (snd ph);
     add_literals n inp rmask (fst ph + 1, h) }"

definition add_command ::
  "uint8 list \<Rightarrow> nat \<Rightarrow> Command \<Rightarrow> nat \<times> three_histograms \<Rightarrow> (nat \<times> three_histograms) option" where
  "add_command inp rmask c s = (case s of (pos, h) \<Rightarrow> do {
     hc \<leftarrow> HistogramAdd (unat (cmd_prefix c)) (cmd_histo h);
     (pos, hl) \<leftarrow> add_literals (unat (insert_len c)) inp rmask (pos, lit_histo h);
     let pos = pos + unat (CommandCopyLen c);
     hd \<leftarrow> (if CommandCopyLen c \<noteq> 0 \<and> cmd_prefix c \<ge> 128
           then HistogramAdd (unat (dist_prefix c AND 0x3FF)) (dist_histo h) else Some (dist_histo h));
     Some (pos, \<lparr>lit_histo = hl, cmd_histo = hc, dist_histo = hd\<rparr>) })"

definition BuildHistograms ::
  "uint8 list \<Rightarrow> nat \<Rightarrow> nat \<Rightarrow> Command list \<Rightarrow> three_histograms \<Rightarrow> three_histograms option" where
  "BuildHistograms inp start_pos rmask commands h = do {
     (pos, h) \<leftarrow> foldM (add_command inp rmask) commands (start_pos, h);
     Some h }"

definition clear_histograms :: three_histograms where
  "clear_histograms = \<lparr>lit_histo = HistogramClear BROTLI_NUM_LITERAL_SYMBOLS,
     cmd_histo = HistogramClear BROTLI_NUM_COMMAND_SYMBOLS, dist_histo = HistogramClear 544\<rparr>"

record code_tables =
  lit_depth :: "uint8 list"
  lit_bits :: "uint16 list"
  cmd_depth :: "uint8 list"
  cmd_bits :: "uint16 list"
  dist_depth :: "uint8 list"
  dist_bits :: "uint16 list"

fun store_bytes ::
  "nat \<Rightarrow> uint8 list \<Rightarrow> nat \<Rightarrow> code_tables \<Rightarrow> nat \<Rightarrow> bit_storage \<Rightarrow> (nat \<times> bit_storage) option" where
  "store_bytes 0 inp rmask t pos st = Some (pos, st)"
| "store_bytes (Suc n) inp rmask t pos st = do {
     x \<leftarrow> in_byte inp rmask pos;
     st \<leftarrow> write_code (lit_depth t) (lit_bits t) (unat x) st;
     store_bytes n inp rmask t (pos + 1) st }"

definition store_data_command ::
  "uint8 list \<Rightarrow> nat \<Rightarrow> code_tables \<Rightarrow> Command \<Rightarrow> nat \<times> bit_storage \<Rightarrow> (nat \<times> bit_storage) option" where
  "store_data_command inp rmask t c s = (case s of (pos, st) \<Rightarrow> do {
     st \<leftarrow> write_code (cmd_depth t) (cmd_bits t) (unat (cmd_prefix c)) st;
     st \<leftarrow> StoreCommandExtra c st;
     (pos, st) \<leftarrow> store_bytes (unat (insert_len c)) inp rmask t pos st;
     let pos = pos + unat (CommandCopyLen c);
     if CommandCopyLen c \<noteq> 0 \<and> cmd_prefix c \<ge> 128 then do {
       st \<leftarrow> write_code (dist_depth t) (dist_bits t) (unat (dist_prefix c AND 0x3FF)) st;
       st \<leftarrow> BrotliWriteBits (unat (drop_bit 10 (dist_prefix c))) (ucast (dist_extra c)) st;
       Some (pos, st) }
     else Some (pos, st) })"

definition StoreDataWithHuffmanCodes ::
  "uint8 list \<Rightarrow> nat \<Rightarrow> nat \<Rightarrow> Command list \<Rightarrow> code_tables \<Rightarrow> bit_storage \<Rightarrow> bit_storage option" where
  "StoreDataWithHuffmanCodes inp start_pos rmask commands t st = do {
     (pos, st) \<leftarrow> foldM (store_data_command inp rmask t) commands (start_pos, st);
     Some st }"

definition BrotliStoreMetaBlockTrivial ::
  "uint8 list \<Rightarrow> nat \<Rightarrow> nat \<Rightarrow> nat \<Rightarrow> bool \<Rightarrow> BrotliDistanceParams \<Rightarrow> Command list \<Rightarrow> bit_storage \<Rightarrow>
     bit_storage option" where
  "BrotliStoreMetaBlockTrivial inp start_pos len rmask is_last dist commands st = do {
     st \<leftarrow> StoreCompressedMetaBlockHeader is_last len st;
     h \<leftarrow> BuildHistograms inp start_pos rmask commands clear_histograms;
     st \<leftarrow> BrotliWriteBits 13 0 st;
     (tree, ld, lb, st) \<leftarrow> BuildAndStoreHuffmanTree (hist_data (lit_histo h)) BROTLI_NUM_LITERAL_SYMBOLS
       BROTLI_NUM_LITERAL_SYMBOLS fresh_tree (replicate BROTLI_NUM_LITERAL_SYMBOLS 0)
       (replicate BROTLI_NUM_LITERAL_SYMBOLS 0) st;
     (tree, cd, cb, st) \<leftarrow> BuildAndStoreHuffmanTree (hist_data (cmd_histo h)) BROTLI_NUM_COMMAND_SYMBOLS
       BROTLI_NUM_COMMAND_SYMBOLS tree (replicate BROTLI_NUM_COMMAND_SYMBOLS 0)
       (replicate BROTLI_NUM_COMMAND_SYMBOLS 0) st;
     (tree, dd, db, st) \<leftarrow> BuildAndStoreHuffmanTree (hist_data (dist_histo h)) 140
       (unat (dp_alphabet_size_max dist)) tree (replicate 140 0) (replicate 140 0) st;
     st \<leftarrow> StoreDataWithHuffmanCodes inp start_pos rmask commands
       \<lparr>lit_depth = ld, lit_bits = lb, cmd_depth = cd, cmd_bits = cb, dist_depth = dd, dist_bits = db\<rparr> st;
     if is_last then JumpToByteBoundary st else Some st }"

definition BrotliStoreMetaBlockFast ::
  "uint8 list \<Rightarrow> nat \<Rightarrow> nat \<Rightarrow> nat \<Rightarrow> bool \<Rightarrow> BrotliDistanceParams \<Rightarrow> Command list \<Rightarrow> bit_storage \<Rightarrow>
     bit_storage option" where
  "BrotliStoreMetaBlockFast inp start_pos len rmask is_last dist commands st = do {
     l \<leftarrow> Log2FloorNonZero (unat (dp_alphabet_size_max dist - 1));
     let distance_alphabet_bits = l + 1;
     st \<leftarrow> StoreCompressedMetaBlockHeader is_last len st;
     st \<leftarrow> BrotliWriteBits 13 0 st;
     st \<leftarrow> (if length commands \<le> 128 then do {
         (pos, h) \<leftarrow> foldM (\<lambda>c (pos, h). do {
           (pos, h) \<leftarrow> add_literals (unat (insert_len c)) inp rmask (pos, h);
           Some (pos + unat (CommandCopyLen c), h) }) commands (start_pos, HistogramClear BROTLI_NUM_LITERAL_SYMBOLS);
         (ld, lb, st) \<leftarrow> BrotliBuildAndStoreHuffmanTreeFast (hist_data h) (hist_total h) 8
           (replicate BROTLI_NUM_LITERAL_SYMBOLS 0) (replicate BROTLI_NUM_LITERAL_SYMBOLS 0) st;
         st \<leftarrow> StoreStaticCommandHuffmanTree st;
         st \<leftarrow> StoreStaticDistanceHuffmanTree st;
         StoreDataWithHuffmanCodes inp start_pos rmask commands
           \<lparr>lit_depth = ld, lit_bits = lb, cmd_depth = kStaticCommandCodeDepth, cmd_bits = kStaticCommandCodeBits,
            dist_depth = kStaticDistanceCodeDepth, dist_bits = kStaticDistanceCodeBits\<rparr> st }
       else do {
         h \<leftarrow> BuildHistograms inp start_pos rmask commands clear_histograms;
         (ld, lb, st) \<leftarrow> BrotliBuildAndStoreHuffmanTreeFast (hist_data (lit_histo h)) (hist_total (lit_histo h)) 8
           (replicate BROTLI_NUM_LITERAL_SYMBOLS 0) (replicate BROTLI_NUM_LITERAL_SYMBOLS 0) st;
         (cd, cb, st) \<leftarrow> BrotliBuildAndStoreHuffmanTreeFast (hist_data (cmd_histo h)) (hist_total (cmd_histo h)) 10
           (replicate BROTLI_NUM_COMMAND_SYMBOLS 0) (replicate BROTLI_NUM_COMMAND_SYMBOLS 0) st;
         (dd, db, st) \<leftarrow> BrotliBuildAndStoreHuffmanTreeFast (hist_data (dist_histo h)) (hist_total (dist_histo h))
           distance_alphabet_bits (replicate 140 0) (replicate 140 0) st;
         StoreDataWithHuffmanCodes inp start_pos rmask commands
           \<lparr>lit_depth = ld, lit_bits = lb, cmd_depth = cd, cmd_bits = cb, dist_depth = dd, dist_bits = db\<rparr> st });
     if is_last then JumpToByteBoundary st else Some st }"

section \<open>Uncompressed meta-blocks\<close>

definition store_raw :: "uint8 list \<Rightarrow> nat \<Rightarrow> nat \<Rightarrow> bit_storage \<Rightarrow> bit_storage option" where
  "store_raw inp fro n st = do {
     a \<leftarrow> arr_copy (storage st) (storage_ix st div 8) inp fro n;
     Some \<lparr>storage_ix = storage_ix st + 8 * n, storage = a\<rparr> }"

definition BrotliStoreUncompressedMetaBlock ::
  "bool \<Rightarrow> uint8 list \<Rightarrow> nat \<Rightarrow> nat \<Rightarrow> nat \<Rightarrow> bit_storage \<Rightarrow> bit_storage option" where
  "BrotliStoreUncompressedMetaBlock is_final_block inp position rmask len st = do {
     let masked_pos = position AND rmask;
     st \<leftarrow> BrotliStoreUncompressedMetaBlockHeader len st;
     st \<leftarrow> JumpToByteBoundary st;
     (masked_pos, len, st) \<leftarrow> (if masked_pos + len > rmask + 1 then do {
         let len1 = rmask + 1 - masked_pos;
         st \<leftarrow> store_raw inp masked_pos len1 st;
         Some (0, len - len1, st) }
       else Some (masked_pos, len, st));
     st \<leftarrow> store_raw inp masked_pos len st;
     st \<leftarrow> BrotliWriteBitsPrepareStorage st;
     if is_final_block then do {
       st \<leftarrow> BrotliWriteBits 1 1 st;
       st \<leftarrow> BrotliWriteBits 1 1 st;
       JumpToByteBoundary st }
     else Some st }"

end
