(* ===== verification/Enc_Ring_Buffer.thy ===== *)
theory Enc_Ring_Buffer
  imports Brotli_Prelude
begin

text \<open>
  \<^verbatim>\<open>enc/ringbuffer.h\<close>: the ring buffer in which the encoder keeps its input.  \<open>data_\<close> is an array, \<open>None\<close>
  for \<open>NULL\<close>; \<open>buffer_\<close> points to its third byte, so \<open>buffer_[i]\<close> is \<open>data_[i + 2]\<close>.  The bytes a fresh
  allocation holds are the parameter \<open>fresh\<close>.
\<close>

record RingBuffer =
  rb_size :: uint32
  rb_mask :: uint32
  rb_tail_size :: uint32
  rb_total_size :: uint32
  rb_cur_size :: uint32
  rb_pos :: uint32
  rb_data :: "uint8 list option"

definition RingBufferInit :: "RingBuffer \<Rightarrow> RingBuffer" where
  "RingBufferInit rb = rb\<lparr>rb_cur_size := 0, rb_pos := 0, rb_data := None\<rparr>"

text \<open>\<open>ComputeRbBits\<close> of \<^verbatim>\<open>enc/quality.h\<close>, and the sizes it gives.\<close>

definition ComputeRbBits :: "int \<Rightarrow> int \<Rightarrow> int" where
  "ComputeRbBits lgwin lgblock = 1 + max lgwin lgblock"

definition RingBufferSetup :: "int \<Rightarrow> int \<Rightarrow> RingBuffer \<Rightarrow> RingBuffer option" where
  "RingBufferSetup lgwin lgblock rb =
     (let window_bits = ComputeRbBits lgwin lgblock in
      if 0 \<le> window_bits \<and> window_bits < 32 \<and> 0 \<le> lgblock \<and> lgblock < 32 then
        Some (rb\<lparr>rb_size := push_bit (nat window_bits) 1, rb_mask := push_bit (nat window_bits) 1 - 1,
                 rb_tail_size := push_bit (nat lgblock) 1,
                 rb_total_size := push_bit (nat window_bits) 1 + push_bit (nat lgblock) 1\<rparr>)
      else None)"

definition RingBufferInitBuffer :: "(nat \<Rightarrow> uint8) \<Rightarrow> uint32 \<Rightarrow> RingBuffer \<Rightarrow> RingBuffer option" where
  "RingBufferInitBuffer fresh buflen rb = do {
     let new_data = map fresh [0..<2 + unat buflen + 7];
     new_data \<leftarrow> (case rb_data rb of
                    None \<Rightarrow> Some new_data
                  | Some old \<Rightarrow> arr_copy new_data 0 old 0 (2 + unat (rb_cur_size rb) + 7));
     new_data \<leftarrow> arr_copy new_data 0 [0, 0] 0 2;
     new_data \<leftarrow> arr_copy new_data (2 + unat buflen) (replicate 7 0) 0 7;
     Some (rb\<lparr>rb_data := Some new_data, rb_cur_size := buflen\<rparr>) }"

definition RingBufferWriteTail :: "uint8 list \<Rightarrow> nat \<Rightarrow> RingBuffer \<Rightarrow> RingBuffer option" where
  "RingBufferWriteTail bytes n rb = do {
     let masked_pos = unat (rb_pos rb AND rb_mask rb);
     if masked_pos < unat (rb_tail_size rb) then do {
       d \<leftarrow> rb_data rb;
       d \<leftarrow> arr_copy d (2 + unat (rb_size rb) + masked_pos) bytes 0 (min n (unat (rb_tail_size rb) - masked_pos));
       Some (rb\<lparr>rb_data := Some d\<rparr>) }
     else Some rb }"

text \<open>The two copies of the bytes, and the two bytes before the start.\<close>

definition rb_copy_in :: "uint8 list \<Rightarrow> nat \<Rightarrow> RingBuffer \<Rightarrow> RingBuffer option" where
  "rb_copy_in bytes n rb = do {
     let masked_pos = unat (rb_pos rb AND rb_mask rb);
     let size = unat (rb_size rb);
     d \<leftarrow> rb_data rb;
     d \<leftarrow> (if masked_pos + n \<le> size then arr_copy d (2 + masked_pos) bytes 0 n
          else do {
            d \<leftarrow> arr_copy d (2 + masked_pos) bytes 0 (min n (unat (rb_total_size rb) - masked_pos));
            arr_copy d 2 bytes (size - masked_pos) (n - (size - masked_pos)) });
     d \<leftarrow> arr_copy d 0 d size 2;
     Some (rb\<lparr>rb_data := Some d\<rparr>) }"

definition rb_advance :: "nat \<Rightarrow> RingBuffer \<Rightarrow> RingBuffer" where
  "rb_advance n rb =
     (let pos = (rb_pos rb AND 0x7FFFFFFF) + (of_nat n AND 0x7FFFFFFF)
      in rb\<lparr>rb_pos := (if rb_pos rb AND 0x80000000 \<noteq> 0 then pos OR 0x80000000 else pos)\<rparr>)"

text \<open>\<open>bytes\<close> is what the pointer \<open>bytes\<close> points to, at least \<open>n\<close> bytes.\<close>

definition RingBufferWrite :: "(nat \<Rightarrow> uint8) \<Rightarrow> uint8 list \<Rightarrow> nat \<Rightarrow> RingBuffer \<Rightarrow> RingBuffer option" where
  "RingBufferWrite fresh bytes n rb =
     (if rb_pos rb = 0 \<and> n < unat (rb_tail_size rb) then do {
        rb \<leftarrow> RingBufferInitBuffer fresh (of_nat n) (rb\<lparr>rb_pos := of_nat n\<rparr>);
        d \<leftarrow> rb_data rb;
        d \<leftarrow> arr_copy d 2 bytes 0 n;
        Some (rb\<lparr>rb_data := Some d\<rparr>) }
      else do {
        rb \<leftarrow> (if rb_cur_size rb < rb_total_size rb then do {
                 rb \<leftarrow> RingBufferInitBuffer fresh (rb_total_size rb) rb;
                 d \<leftarrow> rb_data rb;
                 d \<leftarrow> arr_copy d (unat (rb_size rb)) [0, 0, 241] 0 3;
                 Some (rb\<lparr>rb_data := Some d\<rparr>) }
               else Some rb);
        rb \<leftarrow> RingBufferWriteTail bytes n rb;
        rb \<leftarrow> rb_copy_in bytes n rb;
        Some (rb_advance n rb) })"

end
