(* ===== verification/Enc_Stream.thy ===== *)
theory Enc_Stream
  imports Write_Bits
begin

text \<open>
  \<^verbatim>\<open>enc/encode.c\<close>: the window-size code of a stream, the bound on the size of the output, and the stream of
  uncompressed meta-blocks that \<open>BrotliEncoderCompress\<close> falls back to.
\<close>

section \<open>Window bits\<close>

text \<open>\<open>(*last_bytes, *last_bytes_bits)\<close>\<close>

definition EncodeWindowBits :: "int \<Rightarrow> bool \<Rightarrow> uint16 \<times> uint8" where
  "EncodeWindowBits lgwin large_window =
     (if large_window then (of_int (((lgwin AND 0x3F) * 2 ^ 8) OR 0x11), 14)
      else if lgwin = 16 then (0, 1)
      else if lgwin = 17 then (1, 7)
      else if lgwin > 17 then (of_int (((lgwin - 17) * 2) OR 0x01), 4)
      else (of_int (((lgwin - 8) * 2 ^ 4) OR 0x01), 7))"

section \<open>The bound on the output\<close>

text \<open>\<open>result\<close> is a \<open>size_t\<close> sum that may wrap.\<close>

definition BrotliEncoderMaxCompressedSize :: "uint64 \<Rightarrow> uint64" where
  "BrotliEncoderMaxCompressedSize input_size =
     (let num_large_blocks = drop_bit 14 input_size;
          overhead = 2 + (4 * num_large_blocks) + 3 + 1;
          result = input_size + overhead
      in if input_size = 0 then 2 else if result < input_size then 0 else result)"

section \<open>Uncompressed streams\<close>

definition chunk_nibbles :: "nat \<Rightarrow> nat" where
  "chunk_nibbles chunk_size = (if chunk_size > 2 ^ 16 then (if chunk_size > 2 ^ 20 then 2 else 1) else 0)"

definition chunk_bits :: "nat \<Rightarrow> uint32" where
  "chunk_bits chunk_size =
     (let nibbles = chunk_nibbles chunk_size
      in push_bit 1 (of_nat nibbles) OR push_bit 3 (of_nat chunk_size - 1) OR push_bit (19 + 4 * nibbles) 1)"

definition put_byte :: "uint8 \<Rightarrow> nat \<times> uint8 list \<Rightarrow> (nat \<times> uint8 list) option" where
  "put_byte b ra = do {
     a \<leftarrow> arr_set (snd ra) (fst ra) b;
     Some (fst ra + 1, a) }"

text \<open>The header of a chunk, its bytes, and the rest; \<open>result\<close> and the output are a pair.\<close>

function uncompressed_chunks ::
  "uint8 list \<Rightarrow> nat \<Rightarrow> nat \<Rightarrow> nat \<times> uint8 list \<Rightarrow> (nat \<times> uint8 list) option" where
  "uncompressed_chunks inp offset n ra =
     (if n > 0 then do {
        let chunk_size = (if n > 2 ^ 24 then 2 ^ 24 else n);
        let bits = chunk_bits chunk_size;
        ra \<leftarrow> put_byte (ucast bits) ra;
        ra \<leftarrow> put_byte (ucast (drop_bit 8 bits)) ra;
        ra \<leftarrow> put_byte (ucast (drop_bit 16 bits)) ra;
        ra \<leftarrow> (if chunk_nibbles chunk_size = 2 then put_byte (ucast (drop_bit 24 bits)) ra else Some ra);
        a \<leftarrow> arr_copy (snd ra) (fst ra) inp offset chunk_size;
        uncompressed_chunks inp (offset + chunk_size) (n - chunk_size) (fst ra + chunk_size, a) }
      else Some ra)"
  by pat_completeness auto
termination
  by (relation "measure (\<lambda>(i, f, n, r). n)") auto

declare uncompressed_chunks.simps [simp del]

text \<open>The result is the length of the stream and the output array.\<close>

definition MakeUncompressedStream :: "uint8 list \<Rightarrow> nat \<Rightarrow> uint8 list \<Rightarrow> (nat \<times> uint8 list) option" where
  "MakeUncompressedStream inp input_size outp =
     (if input_size = 0 then do {
        a \<leftarrow> arr_set outp 0 6;
        Some (1, a) }
      else do {
        ra \<leftarrow> put_byte 0x21 (0, outp);
        ra \<leftarrow> put_byte 0x03 ra;
        ra \<leftarrow> uncompressed_chunks inp 0 input_size ra;
        put_byte 3 ra })"

end
