(* ===== verification/Enc_Header_Facts.thy ===== *)
theory Enc_Header_Facts
  imports Enc_Commands Enc_Stream Metablock_Header_Facts
begin

text \<open>
  The code words of the headers, as strings of bits, and the two sides that agree on them: the encoder
  of \<^verbatim>\<open>enc/brotli_bit_stream.c\<close> appends them to its output, the decoder's grammar reads them back.
  The encoder's lemmas rest on the contract \<open>bit_sink\<close> of the bit writer, the decoder's on \<open>mlh_parse\<close>
  and \<open>varlen_parse\<close>.
\<close>

section \<open>Logarithms\<close>

lemma log2_floor_bounds: "0 < n \<Longrightarrow> 2 ^ log2_floor n \<le> n \<and> n < 2 ^ Suc (log2_floor n)"
proof (induction n rule: log2_floor.induct)
  case (1 n)
  show ?case
  proof (cases "n < 2")
    case True
    then show ?thesis using 1 by (subst (1 2) log2_floor.simps) simp
  next
    case False
    define l where "l = log2_floor (n div 2)"
    have "2 ^ l \<le> n div 2 \<and> n div 2 < 2 ^ Suc l" using 1 False by (simp add: l_def)
    then have "2 * 2 ^ l \<le> n \<and> n < 2 * 2 ^ Suc l" by (simp only: power_Suc) linarith
    then show ?thesis using False by (subst (1 2) log2_floor.simps) (simp add: l_def)
  qed
qed

lemma log2_floor_less:
  assumes "0 < n" and "n < 2 ^ k"
  shows "log2_floor n < k"
proof -
  have "(2 :: nat) ^ log2_floor n < 2 ^ k" using log2_floor_bounds [OF assms(1)] assms(2) by linarith
  then show ?thesis by (rule power_less_imp_less_exp [rotated]) simp
qed

lemma log2_floor_eq: "2 ^ k \<le> n \<Longrightarrow> n < 2 ^ Suc k \<Longrightarrow> log2_floor n = k"
proof -
  assume a: "2 ^ k \<le> n" "n < 2 ^ Suc k"
  then have n: "0 < n" by (metis less_le_trans zero_less_numeral zero_less_power)
  then have "log2_floor n < Suc k" using a(2) by (rule log2_floor_less)
  moreover have "\<not> log2_floor n < k"
  proof
    assume "log2_floor n < k"
    then have "(2::nat) ^ Suc (log2_floor n) \<le> 2 ^ k" by (intro power_increasing) simp_all
    then show False using log2_floor_bounds [OF n] a(1) by linarith
  qed
  ultimately show ?thesis by simp
qed

lemma Log2FloorNonZero_some: "0 < n \<Longrightarrow> n < 2 ^ 32 \<Longrightarrow> Log2FloorNonZero n = Some (log2_floor n)"
  by (simp add: Log2FloorNonZero_def)

section \<open>Variable-length uint8\<close>

definition varlen_code :: "nat \<Rightarrow> bits" where
  "varlen_code n =
     (if n = 0 then val_bits 1 0
      else val_bits 1 1 @ val_bits 3 (log2_floor n) @ val_bits (log2_floor n) (n - 2 ^ log2_floor n))"

lemma val_bits_one: "val_bits (Suc 0) 0 = [False]" "val_bits (Suc 0) (Suc 0) = [True]"
  by (simp_all add: val_bits_def bit_Suc_0_iff)

lemma varlen_parse_code:
  assumes "n \<le> 255"
  shows "varlen_parse (varlen_code n @ rest) = Some (n, rest)"
proof (cases "n = 0")
  case False
  define l where "l = log2_floor n"
  have l: "2 ^ l \<le> n" "n - 2 ^ l < 2 ^ l" "l < 8"
    using log2_floor_bounds [of n] log2_floor_less [of n 8] assms False by (auto simp: l_def)
  then show ?thesis using False by (simp add: varlen_code_def val_bits_one flip: l_def)
qed (simp add: varlen_code_def val_bits_one)

lemma StoreVarLenUint8_spec:
  assumes "room st (11 + m)" and "n \<le> 255"
  shows "\<exists>st'. StoreVarLenUint8 n st = Some st' \<and> written st' = written st @ varlen_code n \<and> room st' m"
proof (cases "n = 0")
  case True
  then show ?thesis using le64.wr_nat [of st 1 m 0] room_mono [OF assms(1), of "1 + m"]
    by (simp add: StoreVarLenUint8_def varlen_code_def)
next
  case False
  define l where "l = log2_floor n"
  have l: "2 ^ l \<le> n" "n - 2 ^ l < 2 ^ l" "l < 8"
    using log2_floor_bounds [of n] log2_floor_less [of n 8] assms(2) False by (auto simp: l_def)
  have "room st (1 + (3 + (l + m)))" by (rule room_mono [OF assms(1)]) (use l in simp)
  from le64.wr_nat [OF this, of 1] obtain s1 where s1: "BrotliWriteBits 1 1 st = Some s1"
    "written s1 = written st @ val_bits 1 1" "room s1 (3 + (l + m))" by auto
  from le64.wr_nat [OF s1(3), of l] l obtain s2 where s2: "BrotliWriteBits 3 (of_nat l) s1 = Some s2"
    "written s2 = written s1 @ val_bits 3 l" "room s2 (l + m)" by auto
  from le64.wr_nat [OF s2(3), of "n - 2 ^ l"] l obtain s3 where
    s3: "BrotliWriteBits l (of_nat (n - 2 ^ l)) s2 = Some s3"
    "written s3 = written s2 @ val_bits l (n - 2 ^ l)" "room s3 m" by auto
  show ?thesis using False s1 s2 s3 Log2FloorNonZero_some [of n] assms(2)
    by (simp add: StoreVarLenUint8_def varlen_code_def flip: l_def)
qed

section \<open>Lengths of meta-blocks\<close>

definition mlen_nibbles :: "nat \<Rightarrow> nat" where
  "mlen_nibbles len = (if len \<le> 2 ^ 16 then 4 else if len \<le> 2 ^ 20 then 5 else 6)"

definition mlen_code :: "nat \<Rightarrow> bits" where
  "mlen_code len = val_bits 2 (mlen_nibbles len - 4) @ val_bits (4 * mlen_nibbles len) (len - 1)"

lemma mlen_range:
  assumes "0 < len" and "len \<le> 2 ^ 24"
  shows "len - 1 < 2 ^ (4 * mlen_nibbles len)" and "4 \<le> mlen_nibbles len" "mlen_nibbles len \<le> 6"
    and "4 < mlen_nibbles len \<Longrightarrow> 2 ^ (4 * (mlen_nibbles len - 1)) \<le> len - 1"
  using assms by (auto simp: mlen_nibbles_def)

lemma BrotliEncodeMlen_spec:
  assumes "0 < len" and "len \<le> 2 ^ 24"
  shows "BrotliEncodeMlen len =
    Some (of_nat (len - 1), 4 * mlen_nibbles len, of_nat (mlen_nibbles len - 4))"
proof -
  define lg where "lg = (if len = 1 then 1 else log2_floor (len - 1) + 1)"
  have lg: "(if len = 1 then Some 1 else do { l \<leftarrow> Log2FloorNonZero (len - 1); Some (l + 1) }) = Some lg"
    using assms Log2FloorNonZero_some [of "len - 1"] by (auto simp: lg_def)
  have u: "len - 1 < 2 ^ k \<Longrightarrow> 1 \<le> k \<Longrightarrow> lg \<le> k" for k
    using log2_floor_less [of "len - 1" k] assms(1) by (auto simp: lg_def)
  have d: "2 ^ k \<le> len - 1 \<Longrightarrow> k < lg" for k
  proof -
    assume a: "2 ^ k \<le> len - 1"
    have "(0 :: nat) < 2 ^ k" by simp
    with a have "0 < len - 1" by linarith
    note b = log2_floor_bounds [OF this]
    have "(2 :: nat) ^ k < 2 ^ Suc (log2_floor (len - 1))" using a b by linarith
    then have "k < Suc (log2_floor (len - 1))" by (rule power_less_imp_less_exp [rotated]) simp
    then show "k < lg" using \<open>0 < len - 1\<close> by (simp add: lg_def)
  qed
  consider "len \<le> 2 ^ 16" | "2 ^ 16 < len" "len \<le> 2 ^ 20" | "2 ^ 20 < len" by linarith
  then have "(if lg < 16 then 16 else lg + 3) div 4 = mlen_nibbles len"
  proof cases
    case 1
    then show ?thesis using u [of 16] assms by (auto simp: mlen_nibbles_def)
  next
    case 2
    then have "lg \<le> 20" "16 < lg" using u [of 20] d [of 16] by simp_all
    then have "(lg + 3) div 4 = 5" by presburger
    then show ?thesis using 2 \<open>16 < lg\<close> by (simp add: mlen_nibbles_def)
  next
    case 3
    then have "lg \<le> 24" "20 < lg" using u [of 24] d [of 20] assms(2) by simp_all
    then have "(lg + 3) div 4 = 6" by presburger
    then show ?thesis using 3 \<open>20 < lg\<close> by (simp add: mlen_nibbles_def)
  qed
  moreover have "(of_nat (mlen_nibbles len) - 4 :: uint64) = of_nat (mlen_nibbles len - 4)"
    using mlen_range(2) [OF assms] by (simp add: of_nat_diff)
  ultimately show ?thesis unfolding BrotliEncodeMlen_def lg Let_def
    by (simp only: bind.bind_lunit mult.commute [of 4])
qed

lemma parse_mlen_code:
  assumes "0 < len" and "len \<le> 2 ^ 24"
  shows "parse_nibbles lst (mlen_code len @ bs) = parse_uncompressed lst (len - 1) bs"
proof -
  note m = mlen_range [OF assms]
  have "mlen_nibbles len - 4 < 3" "mlen_nibbles len - 4 + 4 = mlen_nibbles len" using m(2,3) by simp_all
  moreover have "\<not> (4 < mlen_nibbles len \<and> len - 1 < 2 ^ (4 * (mlen_nibbles len - 1)))"
    using m(4) by linarith
  ultimately show ?thesis using m(1)
    by (auto simp add: mlen_code_def parse_nibbles_val_bits parse_digits_def simp del: One_nat_def)
qed

lemma write_mlen:
  assumes "room st (26 + m)" and "0 < len" and "len \<le> 2 ^ 24"
  shows "\<exists>s1 s2. BrotliWriteBits 2 (of_nat (mlen_nibbles len - 4)) st = Some s1 \<and>
    BrotliWriteBits (4 * mlen_nibbles len) (of_nat (len - 1)) s1 = Some s2 \<and>
    written s2 = written st @ mlen_code len \<and> room s2 m"
proof -
  note n = mlen_range [OF assms(2,3)]
  have "room st (2 + (4 * mlen_nibbles len + m))" by (rule room_mono [OF assms(1)]) (use n in simp)
  moreover have "mlen_nibbles len - 4 < 2 ^ 2" using n by simp
  ultimately obtain s1 where
    s1: "BrotliWriteBits 2 (of_nat (mlen_nibbles len - 4)) st = Some s1"
    "written s1 = written st @ val_bits 2 (mlen_nibbles len - 4)" "room s1 (4 * mlen_nibbles len + m)"
    using le64.wr_nat [of st 2 "4 * mlen_nibbles len + m" "mlen_nibbles len - 4"] by force
  have "4 * mlen_nibbles len \<le> 56" using n by simp
  from le64.wr_nat [OF s1(3) this n(1)] obtain s2 where
    s2: "BrotliWriteBits (4 * mlen_nibbles len) (of_nat (len - 1)) s1 = Some s2"
    "written s2 = written s1 @ val_bits (4 * mlen_nibbles len) (len - 1)" "room s2 m" by blast
  show ?thesis using s1 s2 by (simp add: mlen_code_def)
qed

section \<open>Meta-block headers\<close>

definition compressed_header_code :: "bool \<Rightarrow> nat \<Rightarrow> bits" where
  "compressed_header_code fin len = last_flag fin @ mlen_code len @ (if fin then [] else [False])"

definition uncompressed_header_code :: "nat \<Rightarrow> bits" where
  "uncompressed_header_code len = last_flag False @ mlen_code len @ [True]"

lemma parse_compressed_header:
  assumes "0 < len" and "len \<le> 2 ^ 24"
  shows "mlh_parse (compressed_header_code fin len @ rest) = Mlh_Header fin False False len rest"
  using assms by (simp add: compressed_header_code_def parse_mlen_code parse_uncompressed_def)

lemma parse_stored_header:
  assumes "0 < len" and "len \<le> 2 ^ 24"
  shows "mlh_parse (uncompressed_header_code len @ rest) = Mlh_Header False True False len rest"
  using assms by (simp add: uncompressed_header_code_def parse_mlen_code parse_uncompressed_def)

lemma write_bit:
  assumes "room st (Suc m)"
  shows "\<exists>st'. BrotliWriteBits (Suc 0) (of_bool b) st = Some st' \<and> written st' = written st @ [b] \<and> room st' m"
  using le64.wr_nat [of st 1 m "of_bool b"] assms val_bits_one by (cases b) auto

lemma StoreCompressedMetaBlockHeader_spec:
  assumes "room st (29 + m)" and "0 < len" and "len \<le> 2 ^ 24"
  shows "\<exists>st'. StoreCompressedMetaBlockHeader fin len st = Some st' \<and>
    written st' = written st @ compressed_header_code fin len \<and> room st' m"
proof -
  have "room st (Suc (28 + m))" by (rule room_mono [OF assms(1)]) simp
  from write_bit [OF this, of fin] obtain s1 where s1: "BrotliWriteBits 1 (of_bool fin) st = Some s1"
    "written s1 = written st @ [fin]" "room s1 (28 + m)" by auto
  have "room s1 (Suc (27 + m))" by (rule room_mono [OF s1(3)]) simp
  from write_bit [OF this, of False] obtain s2 where
    s2: "(if fin then BrotliWriteBits 1 0 s1 else Some s1) = Some s2"
    "written s2 = written st @ last_flag fin" "room s2 (27 + m)"
    using s1 room_mono [OF s1(3), of "27 + m"] by (cases fin) (auto simp: last_flag_def)
  have "room s2 (26 + Suc m)" by (rule room_mono [OF s2(3)]) simp
  from write_mlen [OF this assms(2,3)] obtain s3 s4 where
    s4: "BrotliWriteBits 2 (of_nat (mlen_nibbles len - 4)) s2 = Some s3"
    "BrotliWriteBits (4 * mlen_nibbles len) (of_nat (len - 1)) s3 = Some s4"
    "written s4 = written s2 @ mlen_code len" "room s4 (Suc m)" by blast
  from write_bit [OF s4(4), of False] obtain s5 where
    s5: "(if \<not> fin then BrotliWriteBits 1 0 s4 else Some s4) = Some s5"
    "written s5 = written s4 @ (if fin then [] else [False])" "room s5 m"
    using s4(4) room_mono [OF s4(4), of m] by (cases fin) auto
  show ?thesis unfolding StoreCompressedMetaBlockHeader_def BrotliEncodeMlen_spec [OF assms(2,3)]
    by (intro exI [of _ s5]) (simp add: s1 s2 s4 s5 compressed_header_code_def del: One_nat_def of_nat_diff)
qed

lemma BrotliStoreUncompressedMetaBlockHeader_spec:
  assumes "room st (28 + m)" and "0 < len" and "len \<le> 2 ^ 24"
  shows "\<exists>st'. BrotliStoreUncompressedMetaBlockHeader len st = Some st' \<and>
    written st' = written st @ uncompressed_header_code len \<and> room st' m"
proof -
  have "room st (Suc (27 + m))" by (rule room_mono [OF assms(1)]) simp
  from write_bit [OF this, of False] obtain s2 where s2: "BrotliWriteBits 1 0 st = Some s2"
    "written s2 = written st @ last_flag False" "room s2 (27 + m)" by (auto simp: last_flag_def)
  have "room s2 (26 + Suc m)" by (rule room_mono [OF s2(3)]) simp
  from write_mlen [OF this assms(2,3)] obtain s3 s4 where
    s4: "BrotliWriteBits 2 (of_nat (mlen_nibbles len - 4)) s2 = Some s3"
    "BrotliWriteBits (4 * mlen_nibbles len) (of_nat (len - 1)) s3 = Some s4"
    "written s4 = written s2 @ mlen_code len" "room s4 (Suc m)" by blast
  from write_bit [OF s4(4), of True] obtain s5 where
    s5: "BrotliWriteBits 1 1 s4 = Some s5" "written s5 = written s4 @ [True]" "room s5 m" by auto
  show ?thesis unfolding BrotliStoreUncompressedMetaBlockHeader_def BrotliEncodeMlen_spec [OF assms(2,3)]
    by (intro exI [of _ s5]) (simp add: s2 s4 s5 uncompressed_header_code_def del: One_nat_def of_nat_diff)
qed

end
