(* ===== verification/Enc_Command_Facts.thy ===== *)
theory Enc_Command_Facts
  imports Enc_Header_Facts Command_Table_Facts
begin

text \<open>
  The encoder's insert-and-copy codes against the rules of RFC 7932, section 5: a length falls in the
  range of the length code it gets, and the code combined of an insert and a copy code is the position of
  their row in the decoder's table \<open>kCmdLut\<close>.
\<close>

section \<open>Length codes\<close>

definition insert_base :: "nat \<Rightarrow> nat" where
  "insert_base i = nat (range_offsets 0 insert_extra ! i)"

definition copy_base :: "nat \<Rightarrow> nat" where
  "copy_base i = nat (range_offsets 2 copy_extra ! i)"

lemma insert_base_table:
  "map insert_base [0..<24] = [0, 1, 2, 3, 4, 5, 6, 8, 10, 14, 18, 26,
     34, 50, 66, 98, 130, 194, 322, 578, 1090, 2114, 6210, 22594]"
  by (simp add: insert_base_def insert_extra_def upt_rec)

lemma copy_base_table:
  "map copy_base [0..<24] = [2, 3, 4, 5, 6, 7, 8, 9, 10, 12, 14, 18,
     22, 30, 38, 54, 70, 102, 134, 198, 326, 582, 1094, 2118]"
  by (simp add: copy_base_def copy_extra_def upt_rec)

lemma nth_of_table: "map f [0..<n] = xs \<Longrightarrow> i < n \<Longrightarrow> f i = xs ! i"
  by (metis add_0 diff_zero length_upt nth_map nth_upt)

lemmas insert_base_at = nth_of_table [OF insert_base_table]
lemmas copy_base_at = nth_of_table [OF copy_base_table]

definition in_insert_range :: "nat \<Rightarrow> nat \<Rightarrow> bool" where
  "in_insert_range i n \<longleftrightarrow> i < 24 \<and> insert_base i \<le> n \<and> n < insert_base i + 2 ^ (insert_extra ! i)"

definition in_copy_range :: "nat \<Rightarrow> nat \<Rightarrow> bool" where
  "in_copy_range i n \<longleftrightarrow> i < 24 \<and> copy_base i \<le> n \<and> n < copy_base i + 2 ^ (copy_extra ! i)"

text \<open>The middle ranges come in pairs of \<open>2 ^ nbits\<close> lengths each.\<close>

lemma log_pair:
  assumes "2 \<le> m" and "m < 2 ^ k"
  defines "nb \<equiv> log2_floor m - 1"
  obtains l h where "log2_floor m = Suc l" "l + 1 < k" "h \<in> {0, 1}" "drop_bit nb m = 2 + h"
    "(2 + h) * 2 ^ l \<le> m" "m < (3 + h) * 2 ^ l" "nb = l"
proof -
  have l1: "1 \<le> log2_floor m" using assms(1) log2_floor.simps [of m] by simp
  then obtain l where l: "log2_floor m = Suc l" by (cases "log2_floor m") auto
  have b: "2 ^ Suc l \<le> m" "m < 2 ^ Suc (Suc l)" using log2_floor_bounds [of m] assms(1) l by simp_all
  define q where "q = m div 2 ^ l"
  have q: "q * 2 ^ l \<le> m" "m < Suc q * 2 ^ l"
    unfolding q_def using div_times_less_eq_dividend [of m "2 ^ l"] dividend_less_div_times [of "2 ^ l" m]
    by simp_all
  have "2 \<le> q" using b(1) div_le_mono [of "2 * 2 ^ l" m "2 ^ l"] by (simp add: q_def)
  moreover have "q < 4" using b(2) less_mult_imp_div_less [of m 4 "2 ^ l"] by (simp add: q_def)
  ultimately obtain h where h: "q = 2 + h" "h \<in> {0, 1}" using that [of "q - 2"] by fastforce
  have "Suc l < k" using log2_floor_less [of m k] assms(1,2) l by simp
  moreover have "Suc q = 3 + h" using h(1) by simp
  then have "(2 + h) * 2 ^ l \<le> m" "m < (3 + h) * 2 ^ l" using q unfolding h(1) by (simp_all only:)
  ultimately show thesis using that [of l h] l h(2) h(1) [unfolded q_def]
    by (simp add: nb_def drop_bit_eq_div del: add_Suc add_2_eq_Suc add_2_eq_Suc')
qed

lemma GetInsertLengthCode_spec:
  assumes "n < 22594 + 2 ^ 24"
  shows "\<exists>i. GetInsertLengthCode n = Some (of_nat i) \<and> in_insert_range i n"
proof -
  consider "n < 6" | "6 \<le> n" "n < 130" | "130 \<le> n" "n < 2114" | "2114 \<le> n" by linarith
  then show ?thesis
  proof cases
    case 1
    then have "n \<in> {0, 1, 2, 3, 4, 5}" by auto
    then show ?thesis
      by (intro exI [of _ n]) (auto simp: GetInsertLengthCode_def in_insert_range_def insert_base_at insert_extra_def)
  next
    case 2
    obtain l h where l: "log2_floor (n - 2) = Suc l" "l + 1 < 7" "h \<in> {0, 1}"
      "drop_bit (log2_floor (n - 2) - 1) (n - 2) = 2 + h" "(2 + h) * 2 ^ l \<le> n - 2" "n - 2 < (3 + h) * 2 ^ l"
      by (rule log_pair [of "n - 2" 7]) (use 2 in simp_all)
    have "GetInsertLengthCode n = Some (of_nat (2 * l + (2 + h) + 2))"
      using 2 l(1,4) by (simp add: GetInsertLengthCode_def Log2FloorNonZero_some)
    moreover have "2 * l + (2 + h) + 2 = 2 * l + h + 4" by simp
    ultimately have c: "GetInsertLengthCode n = Some (of_nat (2 * l + h + 4))" by (simp only:)
    have "l \<noteq> 0" using l(3,6) 2 by (cases l) auto
    then have "l \<in> {1, 2, 3, 4, 5}" using l(2) by auto
    then have "in_insert_range (2 * l + h + 4) n" using l(3,5,6) 2
      by (auto simp: in_insert_range_def insert_base_at insert_extra_def)
    then show ?thesis using c by blast
  next
    case 3
    define l where "l = log2_floor (n - 66)"
    have b: "2 ^ l \<le> n - 66" "n - 66 < 2 ^ Suc l" using log2_floor_bounds [of "n - 66"] 3 by (simp_all add: l_def)
    have "l < 11" using log2_floor_less [of "n - 66" 11] 3 by (simp add: l_def)
    moreover have "\<not> l < 6"
    proof
      assume "l < 6"
      then have "(2::nat) ^ Suc l \<le> 2 ^ 6" by (intro power_increasing) simp_all
      then show False using b(2) 3(1) by simp
    qed
    ultimately have "l \<in> {6, 7, 8, 9, 10}" by auto
    then have "in_insert_range (l + 10) n" using b 3
      by (auto simp: in_insert_range_def insert_base_at insert_extra_def)
    moreover have "GetInsertLengthCode n = Some (of_nat (l + 10))"
      using 3 by (simp add: GetInsertLengthCode_def Log2FloorNonZero_some l_def)
    ultimately show ?thesis by blast
  next
    case 4
    then have "in_insert_range (if n < 6210 then 21 else if n < 22594 then 22 else 23) n"
      using assms by (auto simp: in_insert_range_def insert_base_at insert_extra_def)
    moreover have "GetInsertLengthCode n = Some (of_nat (if n < 6210 then 21 else if n < 22594 then 22 else 23))"
      using 4 by (simp add: GetInsertLengthCode_def)
    ultimately show ?thesis by blast
  qed
qed

lemma GetCopyLengthCode_spec:
  assumes "2 \<le> n" and "n < 2118 + 2 ^ 24"
  shows "\<exists>i. GetCopyLengthCode n = Some (of_nat i) \<and> in_copy_range i n"
proof -
  consider "n < 10" | "10 \<le> n" "n < 134" | "134 \<le> n" "n < 2118" | "2118 \<le> n" by linarith
  then show ?thesis
  proof cases
    case 1
    then have "n \<in> {2, 3, 4, 5, 6, 7, 8, 9}" using assms(1) by auto
    then show ?thesis
      by (intro exI [of _ "n - 2"]) (auto simp: GetCopyLengthCode_def in_copy_range_def copy_base_at copy_extra_def)
  next
    case 2
    obtain l h where l: "log2_floor (n - 6) = Suc l" "l + 1 < 7" "h \<in> {0, 1}"
      "drop_bit (log2_floor (n - 6) - 1) (n - 6) = 2 + h" "(2 + h) * 2 ^ l \<le> n - 6" "n - 6 < (3 + h) * 2 ^ l"
      by (rule log_pair [of "n - 6" 7]) (use 2 in simp_all)
    have "GetCopyLengthCode n = Some (of_nat (2 * l + (2 + h) + 4))"
      using 2 l(1,4) by (simp add: GetCopyLengthCode_def Log2FloorNonZero_some)
    moreover have "2 * l + (2 + h) + 4 = 2 * l + h + 6" by simp
    ultimately have c: "GetCopyLengthCode n = Some (of_nat (2 * l + h + 6))" by (simp only:)
    have "l \<noteq> 0" using l(3,6) 2 by (cases l) auto
    then have "l \<in> {1, 2, 3, 4, 5}" using l(2) by auto
    then have "in_copy_range (2 * l + h + 6) n" using l(3,5,6) 2
      by (auto simp: in_copy_range_def copy_base_at copy_extra_def)
    then show ?thesis using c by blast
  next
    case 3
    define l where "l = log2_floor (n - 70)"
    have b: "2 ^ l \<le> n - 70" "n - 70 < 2 ^ Suc l" using log2_floor_bounds [of "n - 70"] 3 by (simp_all add: l_def)
    have "l < 11" using log2_floor_less [of "n - 70" 11] 3 by (simp add: l_def)
    moreover have "\<not> l < 6"
    proof
      assume "l < 6"
      then have "(2::nat) ^ Suc l \<le> 2 ^ 6" by (intro power_increasing) simp_all
      then show False using b(2) 3(1) by simp
    qed
    ultimately have "l \<in> {6, 7, 8, 9, 10}" by auto
    then have "in_copy_range (l + 12) n" using b 3
      by (auto simp: in_copy_range_def copy_base_at copy_extra_def)
    moreover have "GetCopyLengthCode n = Some (of_nat (l + 12))"
      using 3 by (simp add: GetCopyLengthCode_def Log2FloorNonZero_some l_def)
    ultimately show ?thesis by blast
  next
    case 4
    then have "in_copy_range 23 n" using assms by (simp add: in_copy_range_def copy_base_at copy_extra_def)
    moreover have "GetCopyLengthCode n = Some (of_nat 23)" using 4 by (simp add: GetCopyLengthCode_def)
    ultimately show ?thesis by blast
  qed
qed

section \<open>Combined codes\<close>

text \<open>The cell of \<open>command_cells\<close> a pair of codes falls in, and the position in the table.\<close>

definition command_cell :: "bool \<Rightarrow> nat \<Rightarrow> nat \<Rightarrow> nat" where
  "command_cell ul i j =
     (if ul \<and> i < 8 \<and> j < 16 then j div 8
      else [[2, 3, 6], [4, 5, 8], [7, 9, 10]] ! (i div 8) ! (j div 8))"

definition command_position :: "bool \<Rightarrow> nat \<Rightarrow> nat \<Rightarrow> nat" where
  "command_position ul i j = 64 * command_cell ul i j + 8 * (i mod 8) + j mod 8"

lemma command_cell_spec:
  assumes "i < 24" and "j < 24"
  shows "command_cell ul i j < 11 \<and>
    command_cells ! command_cell ul i j = (ul \<and> i < 8 \<and> j < 16, 8 * (i div 8), 8 * (j div 8))"
proof -
  have "i div 8 < 3" "j div 8 < 3" using assms by (simp_all add: less_mult_imp_div_less)
  then have "i div 8 \<in> {0, 1, 2}" "j div 8 \<in> {0, 1, 2}" by auto
  moreover have "i < 8 \<longleftrightarrow> i div 8 = 0" "j < 16 \<longleftrightarrow> j div 8 < 2" by (simp_all add: div_less_iff_less_mult div_eq_0_iff)
  ultimately show ?thesis by (auto simp: command_cell_def command_cells_def)
qed

lemma command_position_row:
  assumes "i < 24" and "j < 24"
  shows "command_position ul i j < 704 \<and>
    kCmdLut ! command_position ul i j = rfc_command (ul \<and> i < 8 \<and> j < 16) i j"
proof -
  note c = command_cell_spec [OF assms, of ul]
  have "i mod 8 < 8" "j mod 8 < 8" by simp_all
  moreover have "command_position ul i j < 704"
    using c \<open>i mod 8 < 8\<close> \<open>j mod 8 < 8\<close> unfolding command_position_def by linarith
  ultimately show ?thesis using kCmdLut_nth [of "command_cell ul i j" "i mod 8" "j mod 8"] c
    by (simp add: command_position_def)
qed

lemma CombineLengthCodes_rows:
  "list_all (\<lambda>i. list_all (\<lambda>j.
     CombineLengthCodes (of_nat i) (of_nat j) ul = Some (of_nat (command_position ul i j))) [0..<24]) [0..<8]"
  "list_all (\<lambda>i. list_all (\<lambda>j.
     CombineLengthCodes (of_nat i) (of_nat j) ul = Some (of_nat (command_position ul i j))) [0..<24]) [8..<16]"
  "list_all (\<lambda>i. list_all (\<lambda>j.
     CombineLengthCodes (of_nat i) (of_nat j) ul = Some (of_nat (command_position ul i j))) [0..<24]) [16..<24]"
  subgoal by (cases ul)
      (simp_all add: CombineLengthCodes_def command_position_def command_cell_def shr32_def upt_rec)
  subgoal by (cases ul)
      (simp_all add: CombineLengthCodes_def command_position_def command_cell_def shr32_def upt_rec)
  subgoal by (cases ul)
      (simp_all add: CombineLengthCodes_def command_position_def command_cell_def shr32_def upt_rec)
  done

lemma CombineLengthCodes_spec:
  assumes "i < 24" and "j < 24"
  shows "CombineLengthCodes (of_nat i) (of_nat j) ul = Some (of_nat (command_position ul i j))"
proof -
  consider "i < 8" | "8 \<le> i" "i < 16" | "16 \<le> i" by linarith
  then show ?thesis using assms CombineLengthCodes_rows [of ul, unfolded list_all_iff set_upt]
    by cases simp_all
qed

end
