(* ===== verification/Enc_Distance_Facts.thy ===== *)
theory Enc_Distance_Facts
  imports Enc_Command_Facts Distance_Properties
begin

text \<open>
  The distance codes of \<^verbatim>\<open>enc/prefix.h\<close>: \<open>PrefixEncodeCopyDistance\<close> in closed form, in terms of the groups
  of \<open>2 ^ np\<close> codes that the decoder's table is built of.
\<close>

section \<open>The bucket of a distance\<close>

text \<open>
  A distance code \<open>d\<close> past the direct ones is written as \<open>2 ^ (np + 2)\<close> plus what is left of it: the two
  top bits choose the group \<open>2 * (nbits - 1) + h\<close>, the \<open>np\<close> low bits the code in the group, and the
  \<open>nbits\<close> bits between are the extra bits.
\<close>

definition dist_value :: "nat \<Rightarrow> nat \<Rightarrow> nat \<Rightarrow> nat" where
  "dist_value np nd d = 2 ^ (np + 2) + (d - 16 - nd)"

definition dist_nbits :: "nat \<Rightarrow> nat \<Rightarrow> nat \<Rightarrow> nat" where
  "dist_nbits np nd d = log2_floor (dist_value np nd d) - 1 - np"

definition dist_half :: "nat \<Rightarrow> nat \<Rightarrow> nat \<Rightarrow> nat" where
  "dist_half np nd d = dist_value np nd d div 2 ^ (dist_nbits np nd d + np) - 2"

definition dist_code :: "nat \<Rightarrow> nat \<Rightarrow> nat \<Rightarrow> nat" where
  "dist_code np nd d = group_start np nd (2 * (dist_nbits np nd d - 1) + dist_half np nd d) +
     dist_value np nd d mod 2 ^ np"

definition dist_extra_val :: "nat \<Rightarrow> nat \<Rightarrow> nat \<Rightarrow> nat" where
  "dist_extra_val np nd d =
     (dist_value np nd d - (2 + dist_half np nd d) * 2 ^ (dist_nbits np nd d + np)) div 2 ^ np"

lemma dist_bucket:
  assumes "dist_value np nd d < 2 ^ 32"
  shows "log2_floor (dist_value np nd d) = Suc (dist_nbits np nd d + np)"
    and "1 \<le> dist_nbits np nd d" and "dist_nbits np nd d + np \<le> 30"
    and "dist_half np nd d \<le> 1"
    and "drop_bit (dist_nbits np nd d + np) (dist_value np nd d) = 2 + dist_half np nd d"
    and "(2 + dist_half np nd d) * 2 ^ (dist_nbits np nd d + np) \<le> dist_value np nd d"
    and "dist_value np nd d < (3 + dist_half np nd d) * 2 ^ (dist_nbits np nd d + np)"
proof -
  define v where "v = dist_value np nd d"
  have v: "2 ^ (np + 2) \<le> v" by (simp add: v_def dist_value_def)
  have "(2::nat) ^ 1 \<le> 2 ^ (np + 2)" by (rule power_increasing) simp_all
  also note v
  finally have "2 \<le> v" by simp
  then obtain l h where l: "log2_floor v = Suc l" "l + 1 < 32" "h \<in> {0, 1}"
    "drop_bit (log2_floor v - 1) v = 2 + h" "(2 + h) * 2 ^ l \<le> v" "v < (3 + h) * 2 ^ l" "log2_floor v - 1 = l"
    by (rule log_pair [of v 32]) (use assms in \<open>simp_all add: v_def\<close>)
  have "np + 2 \<le> Suc l"
  proof (rule ccontr)
    assume "\<not> np + 2 \<le> Suc l"
    then have "(2::nat) ^ Suc (Suc l) \<le> 2 ^ (np + 2)" by (intro power_increasing) simp_all
    moreover have "v < 2 ^ Suc (Suc l)" using log2_floor_bounds [of v] \<open>2 \<le> v\<close> unfolding l(1) by linarith
    ultimately show False using v by linarith
  qed
  then have n: "dist_nbits np nd d + np = l" "1 \<le> dist_nbits np nd d"
    using l(7) by (simp_all add: dist_nbits_def flip: v_def)
  have h: "dist_half np nd d = h"
    using l(4,7) unfolding dist_half_def n(1) v_def [symmetric] by (simp add: drop_bit_eq_div)
  show "log2_floor (dist_value np nd d) = Suc (dist_nbits np nd d + np)"
    "1 \<le> dist_nbits np nd d" "dist_nbits np nd d + np \<le> 30" "dist_half np nd d \<le> 1"
    "drop_bit (dist_nbits np nd d + np) (dist_value np nd d) = 2 + dist_half np nd d"
    "(2 + dist_half np nd d) * 2 ^ (dist_nbits np nd d + np) \<le> dist_value np nd d"
    "dist_value np nd d < (3 + dist_half np nd d) * 2 ^ (dist_nbits np nd d + np)"
    unfolding n(1) h v_def [symmetric] using l n(2) by (simp_all add: flip: l(7)) auto
qed

lemma dist_split:
  assumes "dist_value np nd d < 2 ^ 32"
  shows "dist_value np nd d = (2 + dist_half np nd d) * 2 ^ (dist_nbits np nd d + np) +
      dist_extra_val np nd d * 2 ^ np + dist_value np nd d mod 2 ^ np"
    and "dist_extra_val np nd d < 2 ^ dist_nbits np nd d"
proof -
  note b = dist_bucket [OF assms]
  define v where "v = dist_value np nd d"
  define t where "t = (2 + dist_half np nd d) * 2 ^ (dist_nbits np nd d + np)"
  have t: "t = ((2 + dist_half np nd d) * 2 ^ dist_nbits np nd d) * 2 ^ np"
    unfolding t_def power_add by (rule mult.assoc [symmetric])
  have le: "t \<le> v" "v < t + 2 ^ (dist_nbits np nd d + np)" using b(6,7) by (simp_all add: t_def v_def algebra_simps)
  have "(v - t) mod 2 ^ np = v mod 2 ^ np"
    using le(1) unfolding t by (metis le_add_diff_inverse mod_mult_self4 mult.commute)
  moreover have "(v - t) div 2 ^ np * 2 ^ np + (v - t) mod 2 ^ np = v - t" by (rule div_mult_mod_eq)
  ultimately show "dist_value np nd d = (2 + dist_half np nd d) * 2 ^ (dist_nbits np nd d + np) +
      dist_extra_val np nd d * 2 ^ np + dist_value np nd d mod 2 ^ np"
    using le(1) unfolding dist_extra_val_def v_def [symmetric] t_def [symmetric] by linarith
  have "v - t < 2 ^ dist_nbits np nd d * 2 ^ np" using le by (simp add: power_add)
  then show "dist_extra_val np nd d < 2 ^ dist_nbits np nd d"
    unfolding dist_extra_val_def v_def [symmetric] t_def [symmetric] by (rule less_mult_imp_div_less)
qed

lemma dist_code_less:
  assumes "dist_value np nd d < 2 ^ 32" and "np \<le> 3" and "nd \<le> 120"
  shows "dist_code np nd d < 1024"
proof -
  note b = dist_bucket [OF assms(1)]
  have p: "(2::nat) ^ np \<le> 2 ^ 3" by (rule power_increasing) (use assms(2) in simp_all)
  have "dist_value np nd d mod 2 ^ np < 2 ^ np" by simp
  also note p
  finally have "dist_value np nd d mod 2 ^ np < 8" by simp
  moreover have "(2 * (dist_nbits np nd d - 1) + dist_half np nd d) * 2 ^ np \<le> 61 * 8"
    by (rule mult_le_mono) (use b(3,4) p in simp_all)
  ultimately show ?thesis using assms(3) by (simp add: dist_code_def group_start_def)
qed

section \<open>The encoder's routine\<close>

lemma PrefixEncodeCopyDistance_direct:
  "d < 16 + nd \<Longrightarrow> PrefixEncodeCopyDistance d nd np = Some (of_nat d, 0)"
  by (simp add: PrefixEncodeCopyDistance_def)

lemma PrefixEncodeCopyDistance_bucket:
  assumes "16 + nd \<le> d" and "dist_value np nd d < 2 ^ 32"
  shows "PrefixEncodeCopyDistance d nd np =
    Some (of_nat (push_bit 10 (dist_nbits np nd d) OR dist_code np nd d), of_nat (dist_extra_val np nd d))"
proof -
  note b = dist_bucket [OF assms(2)]
  have lg: "Log2FloorNonZero (dist_value np nd d) = Some (Suc (dist_nbits np nd d + np))"
    using assms(2) Log2FloorNonZero_some [of "dist_value np nd d"] b(1)
    by (simp add: dist_value_def)
  have m: "x AND (2 ^ np - 1) = x mod 2 ^ np" for x :: nat
    using take_bit_eq_mask [of np x] by (simp only: take_bit_eq_mod mask_eq_exp_minus_1)
  have h: "(2 + dist_half np nd d) AND 1 = dist_half np nd d"
  proof -
    have "dist_half np nd d \<in> {0, 1}" using b(4) by auto
    then show ?thesis by auto
  qed
  have v: "2 ^ (np + 2) + (d - 16 - nd) = dist_value np nd d" by (simp only: dist_value_def)
  have l: "Suc (dist_nbits np nd d + np) - 1 = dist_nbits np nd d + np"
    "dist_nbits np nd d + np - np = dist_nbits np nd d" by simp_all
  have c: "16 + nd + (2 * (dist_nbits np nd d - 1) + dist_half np nd d) * 2 ^ np + dist_value np nd d mod 2 ^ np =
      dist_code np nd d" by (simp only: dist_code_def group_start_def)
  have e: "drop_bit np (dist_value np nd d - (2 + dist_half np nd d) * 2 ^ (dist_nbits np nd d + np)) =
      dist_extra_val np nd d" by (simp only: dist_extra_val_def drop_bit_eq_div)
  have n: "\<not> d < 16 + nd" using assms(1) by simp
  show ?thesis
    unfolding PrefixEncodeCopyDistance_def if_not_P [OF n] Let_def v lg bind.bind_lunit l b(5) h m c e ..
qed

text \<open>The two fields of \<open>dist_prefix\<close>.\<close>

lemma dist_prefix_fields:
  assumes "c < 1024" and "n < 64"
  shows "(of_nat (push_bit 10 n OR c) :: uint16) AND 0x3FF = of_nat c"
    and "drop_bit 10 (of_nat (push_bit 10 n OR c) :: uint16) = of_nat n"
proof -
  have u: "unat (of_nat k :: uint16) = k" if "k < 2 ^ 16" for k
    using that by (simp add: unat_of_nat take_bit_nat_eq_self)
  have or: "push_bit 10 n OR c = n * 1024 + c"
  proof -
    have "push_bit 10 n AND c = 0"
    proof (rule bit_eqI)
      fix i
      have "\<not> bit c i" if "10 \<le> i"
      proof -
        have "(2::nat) ^ 10 \<le> 2 ^ i" by (rule power_increasing) (use that in simp_all)
        then have "c < 2 ^ i" using assms(1) by simp
        then show ?thesis by (simp add: bit_iff_odd div_less)
      qed
      then show "bit (push_bit 10 n AND c) i = bit 0 i" by (auto simp: bit_simps)
    qed
    then show ?thesis using disjunctive_add_eq_or [of "push_bit 10 n" c] by (simp add: push_bit_eq_mult)
  qed
  have lt: "n * 1024 + c < 2 ^ 16" using assms by simp
  have "unat ((of_nat (n * 1024 + c) :: uint16) AND mask 10) = c"
    using lt assms(1) unfolding take_bit_eq_mask [symmetric]
    by (simp add: unsigned_take_bit_eq u del: of_nat_add of_nat_mult) (simp add: take_bit_eq_mod)
  moreover have "c < 2 ^ 16" using assms(1) by simp
  ultimately show "(of_nat (push_bit 10 n OR c) :: uint16) AND 0x3FF = of_nat c"
    unfolding or by (simp add: word_unat_eq_iff u mask_eq_exp_minus_1 del: of_nat_add of_nat_mult)
  have "unat (drop_bit 10 (of_nat (n * 1024 + c) :: uint16)) = n"
    using assms(1) unfolding unat_drop_bit_div u [OF lt] by simp
  moreover have "n < 2 ^ 16" using assms(2) by simp
  ultimately show "drop_bit 10 (of_nat (push_bit 10 n OR c) :: uint16) = of_nat n"
    unfolding or by (simp add: word_unat_eq_iff u del: of_nat_add of_nat_mult)
qed

section \<open>The decoder's side\<close>

lemma dist_group:
  assumes "dist_value np nd d < 2 ^ 32"
  shows "(2 * (dist_nbits np nd d - 1) + dist_half np nd d) div 2 = dist_nbits np nd d - 1"
    and "(2 * (dist_nbits np nd d - 1) + dist_half np nd d) mod 2 = dist_half np nd d"
proof -
  have h: "dist_half np nd d < 2" using dist_bucket(4) [OF assms] by simp
  show "(2 * (dist_nbits np nd d - 1) + dist_half np nd d) div 2 = dist_nbits np nd d - 1"
    using h by (subst div_mult_self4) simp_all
  show "(2 * (dist_nbits np nd d - 1) + dist_half np nd d) mod 2 = dist_half np nd d"
    using h by simp
qed

text \<open>The table the decoder computes gives the number of extra bits and the distance back.\<close>

lemma dist_code_rfc:
  assumes "16 + nd \<le> d" and "dist_value np nd d < 2 ^ 32"
  shows "rfc_extra_bits np nd (dist_code np nd d) = dist_nbits np nd d"
    and "rfc_offset np nd (dist_code np nd d) + int (dist_extra_val np nd d) * 2 ^ np = int d - 15"
proof -
  note b = dist_bucket [OF assms(2)] and s = dist_split [OF assms(2)] and g = dist_group [OF assms(2)]
  have j: "dist_value np nd d mod 2 ^ np < 2 ^ np" by simp
  note c = group_code [OF j, of nd "2 * (dist_nbits np nd d - 1) + dist_half np nd d", folded dist_code_def, unfolded g]
  have n1: "1 + (dist_nbits np nd d - 1) = dist_nbits np nd d" using b(2) by simp
  show "rfc_extra_bits np nd (dist_code np nd d) = dist_nbits np nd d" using c(1) n1 by simp
  have "int (dist_value np nd d) = 4 * 2 ^ np + (int d - 16 - int nd)"
    using assms(1) by (simp add: dist_value_def power_add of_nat_diff)
  moreover have "int (dist_value np nd d) = (2 + int (dist_half np nd d)) * (2 ^ dist_nbits np nd d * 2 ^ np) +
      int (dist_extra_val np nd d) * 2 ^ np + int (dist_value np nd d mod 2 ^ np)"
    using arg_cong [OF s(1), of int] by (simp add: power_add algebra_simps)
  ultimately show "rfc_offset np nd (dist_code np nd d) + int (dist_extra_val np nd d) * 2 ^ np = int d - 15"
    unfolding c(2) n1 by (simp add: algebra_simps)
qed

section \<open>The encoder's inverse\<close>

lemma CommandRestoreDistanceCode_direct:
  assumes "d < 16 + nd" and "nd \<le> 120" and "unat (num_direct_distance_codes dp) = nd"
    and "dist_prefix c = of_nat d"
  shows "CommandRestoreDistanceCode c dp = Some (of_nat d)"
proof -
  have d: "(of_nat d :: uint16) AND 0x3FF = of_nat d"
    using dist_prefix_fields(1) [of d 0] assms(1,2) by simp
  have u: "unat (ucast (of_nat d :: uint16) :: uint32) = d"
    using assms(1,2) by (simp add: unsigned_ucast_eq unat_of_nat take_bit_nat_eq_self)
  have "unat (16 + num_direct_distance_codes dp) = 16 + nd"
    using assms(2,3) by (simp add: unat_word_ariths)
  then show ?thesis using assms(1) u
    by (simp add: CommandRestoreDistanceCode_def d assms(4) word_less_nat_alt word_of_natI [OF u])
qed

lemma CommandRestoreDistanceCode_bucket:
  assumes "16 + nd \<le> d" and "dist_value np nd d < 2 ^ 32" and "np \<le> 3" and "nd \<le> 120"
    and "unat (num_direct_distance_codes dp) = nd" and "unat (distance_postfix_bits dp) = np"
    and "dist_prefix c = of_nat (push_bit 10 (dist_nbits np nd d) OR dist_code np nd d)"
    and "dist_extra c = of_nat (dist_extra_val np nd d)"
  shows "CommandRestoreDistanceCode c dp = Some (of_nat d)"
proof -
  note b = dist_bucket [OF assms(2)] and s = dist_split [OF assms(2)] and g = dist_group [OF assms(2)]
  define n where "n = dist_nbits np nd d"
  define h where "h = dist_half np nd d"
  define e where "e = dist_extra_val np nd d"
  define j where "j = dist_value np nd d mod 2 ^ np"
  define m where "m = 2 * (n - 1) + h"
  have j: "j < 2 ^ np" by (simp add: j_def)
  have cl: "dist_code np nd d < 1024" by (rule dist_code_less) (use assms in simp_all)
  have cd: "dist_code np nd d = 16 + nd + (m * 2 ^ np + j)"
    by (simp add: dist_code_def group_start_def m_def n_def h_def j_def)
  have n: "1 \<le> n" "n < 32" "n < 64" using b(2,3) by (simp_all add: n_def)
  note f = dist_prefix_fields [OF cl n(3), folded n_def]
  have f1: "ucast (dist_prefix c AND 0x3FF) = (of_nat (dist_code np nd d) :: uint32)"
    and f2: "ucast (drop_bit 10 (dist_prefix c)) = (of_nat n :: uint32)"
    using cl n(2) unfolding assms(7) n_def [symmetric] f
    by (simp_all add: word_unat_eq_iff unsigned_ucast_eq unat_of_nat take_bit_nat_eq_self)
  have u: "unat (of_nat k :: uint32) = k" if "k < 2 ^ 32" for k
    using that by (simp add: unat_of_nat take_bit_nat_eq_self)
  have nd: "num_direct_distance_codes dp = of_nat nd" using assms(5) by (rule word_of_natI)
  have ge: "\<not> (of_nat (dist_code np nd d) :: uint32) < 16 + num_direct_distance_codes dp"
  proof -
    have "unat (of_nat (dist_code np nd d) :: uint32) = dist_code np nd d" by (rule u) (use cl in simp)
    then show ?thesis using assms(4,5) cd by (simp add: word_less_nat_alt unat_word_ariths del: of_nat_add of_nat_mult)
  qed
  have np: "distance_postfix_bits dp < 32" using assms(3,6) by (simp add: word_less_nat_alt)
  have x: "(of_nat (dist_code np nd d) :: uint32) - num_direct_distance_codes dp - 16 = of_nat (m * 2 ^ np + j)"
    by (simp add: cd nd)
  have xl: "m * 2 ^ np + j < 1024" using cl cd by simp
  have hc: "drop_bit np (of_nat (m * 2 ^ np + j) :: uint32) AND 1 = of_nat h"
  proof -
    have "unat (drop_bit np (of_nat (m * 2 ^ np + j) :: uint32)) = m"
      using j xl u [of "m * 2 ^ np + j"] unfolding unat_drop_bit_div by simp
    then have "drop_bit np (of_nat (m * 2 ^ np + j) :: uint32) = of_nat m" by (rule word_of_natI)
    moreover have "unat ((of_nat m :: uint32) AND 1) = m mod 2"
    proof -
      have "m \<le> m * 2 ^ np" by simp
      then have "m < 1024" using xl by linarith
      then show ?thesis by (simp add: u unsigned_take_bit_eq and_one_eq mod_2_eq_odd flip: take_bit_eq_mask)
    qed
    moreover have "m mod 2 = h" using g(2) by (simp add: m_def n_def h_def)
    ultimately show ?thesis by (simp only: word_of_natI)
  qed
  have lc: "(of_nat (m * 2 ^ np + j) :: uint32) AND (push_bit np 1 - 1) = of_nat j"
  proof -
    have mk: "push_bit np 1 - 1 = (mask np :: uint32)" by (simp add: mask_eq_exp_minus_1 push_bit_eq_mult)
    have "unat ((of_nat (m * 2 ^ np + j) :: uint32) AND mask np) = j"
      using xl j unfolding take_bit_eq_mask [symmetric]
      by (simp add: unsigned_take_bit_eq u del: of_nat_add of_nat_mult) (simp add: take_bit_eq_mod)
    then show ?thesis unfolding mk by (rule word_of_natI)
  qed
  have lc': "(of_nat (m * 2 ^ np + j) :: uint32) AND (2 ^ np - 1) = of_nat j"
    using lc by (simp add: push_bit_eq_mult del: of_nat_add of_nat_mult)
  have nn: "(of_nat n :: uint32) < 32" "unat (of_nat n :: uint32) = n" using n by (simp_all add: word_less_nat_alt u)
  have s': "dist_value np nd d = (2 + h) * 2 ^ n * 2 ^ np + e * 2 ^ np + j"
    using s(1) unfolding h_def n_def e_def j_def power_add mult.assoc .
  have "of_nat (dist_value np nd d) = (4 * 2 ^ np + (of_nat d - 16 - of_nat nd) :: uint32)"
    using assms(1) by (simp add: dist_value_def power_add of_nat_diff)
  then have "push_bit np (push_bit n (2 + of_nat h) - 4 + of_nat e) + of_nat j + of_nat nd + 16 = (of_nat d :: uint32)"
    unfolding s' by (simp add: push_bit_eq_mult algebra_simps)
  then show ?thesis
    using ge np nn unfolding CommandRestoreDistanceCode_def Let_def f1 f2 x
    by (simp add: assms(6,8) hc lc' nd e_def del: of_nat_add of_nat_mult)
qed

end
