(* ===== verification/Enc_Extra_Facts.thy ===== *)
theory Enc_Extra_Facts
  imports Enc_Command_Facts Decode_Distance
begin

text \<open>
  The extra bits of a command: what \<open>StoreCommandExtra\<close> of \<^verbatim>\<open>enc/brotli_bit_stream.c\<close> writes, and what the
  decoder's \<open>ReadCommandInternal\<close> makes of these bits with the row of \<open>kCmdLut\<close>.
\<close>

section \<open>The code word\<close>

text \<open>The length code of a length is the last one whose range starts at or before it.\<close>

definition insert_code :: "nat \<Rightarrow> nat" where
  "insert_code n = length (filter (\<lambda>i. insert_base i \<le> n) [0..<24]) - 1"

definition copy_code :: "nat \<Rightarrow> nat" where
  "copy_code n = length (filter (\<lambda>i. copy_base i \<le> n) [0..<24]) - 1"

definition length_extra_code :: "nat \<Rightarrow> nat \<Rightarrow> bits" where
  "length_extra_code n m =
     val_bits (insert_extra ! insert_code n) (n - insert_base (insert_code n)) @
     val_bits (copy_extra ! copy_code m) (m - copy_base (copy_code m))"

text \<open>In a table whose ranges tile, only the range's own code is the last to start before.\<close>

lemma length_filter_upto:
  assumes "i < k" and "\<And>j. j < k \<Longrightarrow> P j \<longleftrightarrow> j \<le> i"
  shows "length (filter P [0..<k]) = Suc i"
proof -
  have "[0..<k] = [0..<Suc i] @ [Suc i..<k]"
    using assms(1) upt_add_eq_append [of 0 "Suc i" "k - Suc i"] by simp
  moreover have "filter P [0..<Suc i] = [0..<Suc i]" using assms by (intro filter_True) auto
  moreover have "filter P [Suc i..<k] = []" using assms by (intro filter_False) auto
  ultimately have "filter P [0..<k] = [0..<Suc i]" by (simp only: filter_append append_Nil2)
  then show ?thesis by (simp only: length_upt diff_zero)
qed

lemma insert_base_mono: "i \<le> j \<Longrightarrow> j < 24 \<Longrightarrow> insert_base i \<le> insert_base j"
  and insert_base_step: "i < j \<Longrightarrow> j < 24 \<Longrightarrow> insert_base i + 2 ^ (insert_extra ! i) \<le> insert_base j"
proof -
  have s: "insert_base (Suc k) = insert_base k + 2 ^ (insert_extra ! k)" if "k < 23" for k
  proof -
    have "list_all (\<lambda>k. insert_base (Suc k) = insert_base k + 2 ^ (insert_extra ! k)) [0..<23]"
      by (simp add: insert_base_at insert_extra_def upt_rec)
    then show ?thesis using that by (simp add: list_all_iff del: upt_rec_numeral)
  qed
  have mono: "insert_base i \<le> insert_base j" if "i \<le> j" "j < 24" for i j
    using that by (induction j rule: dec_induct) (auto simp: s intro: order_trans)
  show "i \<le> j \<Longrightarrow> j < 24 \<Longrightarrow> insert_base i \<le> insert_base j" by (rule mono)
  show "i < j \<Longrightarrow> j < 24 \<Longrightarrow> insert_base i + 2 ^ (insert_extra ! i) \<le> insert_base j"
    using mono [of "Suc i" j] s [of i] by simp
qed

lemma copy_base_mono: "i \<le> j \<Longrightarrow> j < 24 \<Longrightarrow> copy_base i \<le> copy_base j"
  and copy_base_step: "i < j \<Longrightarrow> j < 24 \<Longrightarrow> copy_base i + 2 ^ (copy_extra ! i) \<le> copy_base j"
proof -
  have s: "copy_base (Suc k) = copy_base k + 2 ^ (copy_extra ! k)" if "k < 23" for k
  proof -
    have "list_all (\<lambda>k. copy_base (Suc k) = copy_base k + 2 ^ (copy_extra ! k)) [0..<23]"
      by (simp add: copy_base_at copy_extra_def upt_rec)
    then show ?thesis using that by (simp add: list_all_iff del: upt_rec_numeral)
  qed
  have mono: "copy_base i \<le> copy_base j" if "i \<le> j" "j < 24" for i j
    using that by (induction j rule: dec_induct) (auto simp: s intro: order_trans)
  show "i \<le> j \<Longrightarrow> j < 24 \<Longrightarrow> copy_base i \<le> copy_base j" by (rule mono)
  show "i < j \<Longrightarrow> j < 24 \<Longrightarrow> copy_base i + 2 ^ (copy_extra ! i) \<le> copy_base j"
    using mono [of "Suc i" j] s [of i] by simp
qed

lemma insert_code_eq:
  assumes "in_insert_range i n"
  shows "insert_code n = i"
proof -
  have "insert_base j \<le> n \<longleftrightarrow> j \<le> i" if "j < 24" for j
    using insert_base_mono [of j i] insert_base_step [of i j] assms that unfolding in_insert_range_def
    by linarith
  then show ?thesis using assms length_filter_upto [of i 24 "\<lambda>j. insert_base j \<le> n"]
    by (simp add: insert_code_def in_insert_range_def del: upt_rec_numeral)
qed

lemma copy_code_eq:
  assumes "in_copy_range i n"
  shows "copy_code n = i"
proof -
  have "copy_base j \<le> n \<longleftrightarrow> j \<le> i" if "j < 24" for j
    using copy_base_mono [of j i] copy_base_step [of i j] assms that unfolding in_copy_range_def
    by linarith
  then show ?thesis using assms length_filter_upto [of i 24 "\<lambda>j. copy_base j \<le> n"]
    by (simp add: copy_code_def in_copy_range_def del: upt_rec_numeral)
qed

section \<open>The encoder\<close>

lemma encoder_length_tables:
  "kBrotliInsBase = map (\<lambda>i. of_nat (insert_base i)) [0..<24]"
  "kBrotliInsExtra = map (\<lambda>i. of_nat (insert_extra ! i)) [0..<24]"
  "kBrotliCopyBase = map (\<lambda>i. of_nat (copy_base i)) [0..<24]"
  "kBrotliCopyExtra = map (\<lambda>i. of_nat (copy_extra ! i)) [0..<24]"
proof -
  have "map (\<lambda>i. of_nat (insert_base i)) [0..<24] = map (of_nat :: nat \<Rightarrow> uint32) (map insert_base [0..<24])"
    "map (\<lambda>i. of_nat (copy_base i)) [0..<24] = map (of_nat :: nat \<Rightarrow> uint32) (map copy_base [0..<24])" by simp_all
  then show "kBrotliInsBase = map (\<lambda>i. of_nat (insert_base i)) [0..<24]"
    "kBrotliCopyBase = map (\<lambda>i. of_nat (copy_base i)) [0..<24]"
    unfolding insert_base_table copy_base_table by (simp_all add: kBrotliInsBase_def kBrotliCopyBase_def)
  show "kBrotliInsExtra = map (\<lambda>i. of_nat (insert_extra ! i)) [0..<24]"
    "kBrotliCopyExtra = map (\<lambda>i. of_nat (copy_extra ! i)) [0..<24]"
    by (simp_all add: kBrotliInsExtra_def kBrotliCopyExtra_def insert_extra_def copy_extra_def upt_rec)
qed

lemma arr_get_table: "i < n \<Longrightarrow> arr_get (map f [0..<n]) i = Some (f i)"
  by (simp add: arr_get_def)

lemma extra_bounds:
  assumes "i < 24"
  shows "insert_extra ! i \<le> 24" and "copy_extra ! i \<le> 24"
    and "insert_base i \<le> 22594" and "copy_base i \<le> 2118"
proof -
  have "list_all (\<lambda>i. insert_extra ! i \<le> 24 \<and> copy_extra ! i \<le> 24) [0..<24]"
    by (simp add: insert_extra_def copy_extra_def upt_rec)
  then show "insert_extra ! i \<le> 24" "copy_extra ! i \<le> 24"
    using assms by (auto simp: list_all_iff simp del: upt_rec_numeral)
  show "insert_base i \<le> 22594" "copy_base i \<le> 2118"
    using assms insert_base_mono [of i 23] copy_base_mono [of i 23] by (simp_all add: insert_base_at copy_base_at)
qed

lemma extra_value:
  assumes "base \<le> n" and "n < 2 ^ 32"
  shows "(ucast (of_nat n - of_nat base :: uint32) :: uint64) = of_nat (n - base)"
proof -
  have "(of_nat n - of_nat base :: uint32) = of_nat (n - base)" using assms(1) by (simp add: of_nat_diff)
  then have "unat (of_nat n - of_nat base :: uint32) = n - base"
    using assms(2) by (simp add: unat_of_nat_small)
  then show ?thesis
    by (simp add: word_unat_eq_iff unsigned_ucast_eq unat_of_nat)
      (use assms(2) in \<open>simp add: take_bit_nat_eq_self\<close>)
qed

lemma StoreCommandExtra_spec:
  assumes "room st (48 + m)" and "insert_len c = of_nat n" and "CommandCopyLenCode c = of_nat l"
    and "n < 22594 + 2 ^ 24" and "2 \<le> l" and "l < 2118 + 2 ^ 24"
  shows "\<exists>st'. StoreCommandExtra c st = Some st' \<and>
    written st' = written st @ length_extra_code n l \<and> room st' m"
proof -
  obtain i where i: "GetInsertLengthCode n = Some (of_nat i)" "in_insert_range i n"
    using GetInsertLengthCode_spec [OF assms(4)] by blast
  obtain j where j: "GetCopyLengthCode l = Some (of_nat j)" "in_copy_range j l"
    using GetCopyLengthCode_spec [OF assms(5,6)] by blast
  have ij: "i < 24" "j < 24" using i j by (simp_all add: in_insert_range_def in_copy_range_def)
  define x where "x = n - insert_base i"
  define y where "y = l - copy_base j"
  define e1 where "e1 = insert_extra ! i"
  define e2 where "e2 = copy_extra ! j"
  have x: "x < 2 ^ e1" "y < 2 ^ e2"
    using i(2) j(2) by (auto simp: in_insert_range_def in_copy_range_def x_def y_def e1_def e2_def)
  have e: "e1 \<le> 24" "e2 \<le> 24" using extra_bounds ij by (simp_all add: e1_def e2_def)
  have u: "unat (of_nat n :: uint32) = n" "unat (of_nat l :: uint32) = l"
    using assms(4,6) by (simp_all add: unat_of_nat_small)
  have ui: "unat (of_nat i :: uint16) = i" "unat (of_nat j :: uint16) = j"
    using ij by (simp_all add: unat_of_nat_small)
  have t: "GetInsertExtra (of_nat i) = Some (of_nat e1)" "GetInsertBase (of_nat i) = Some (of_nat (insert_base i))"
    "GetCopyBase (of_nat j) = Some (of_nat (copy_base j))" "GetCopyExtra (of_nat j) = Some (of_nat e2)"
    using ij by (simp_all only: GetInsertExtra_def GetInsertBase_def GetCopyBase_def GetCopyExtra_def
        encoder_length_tables ui arr_get_table e1_def e2_def)
  have v: "ucast (of_nat n - of_nat (insert_base i) :: uint32) = (of_nat x :: uint64)"
    "ucast (of_nat l - of_nat (copy_base j) :: uint32) = (of_nat y :: uint64)"
    unfolding x_def y_def using i(2) j(2) assms(4,6)
    by (intro extra_value; simp add: in_insert_range_def in_copy_range_def)+
  have sum: "unat (of_nat e1 :: uint32) = e1" "unat (of_nat e1 + of_nat e2 :: uint32) = e1 + e2"
    using e by (simp_all add: unat_word_ariths unat_of_nat_small)
  have b: "push_bit e1 (of_nat y) OR of_nat x = (of_nat (x + 2 ^ e1 * y) :: uint64)"
    by (rule of_nat_or_shift [OF x(1)])
  have run: "StoreCommandExtra c st = BrotliWriteBits (e1 + e2) (of_nat (x + 2 ^ e1 * y)) st"
    unfolding StoreCommandExtra_def Let_def assms(2,3) u i(1) j(1) bind.bind_lunit t v sum b ..
  have r: "room st ((e1 + e2) + m)" by (rule room_mono [OF assms(1)]) (use e in simp)
  have lt: "x + 2 ^ e1 * y < 2 ^ (e1 + e2)"
  proof -
    have "2 ^ e1 * Suc y \<le> 2 ^ e1 * 2 ^ e2" using x(2) by (intro mult_le_mono2) simp
    then show ?thesis using x(1) by (simp add: power_add)
  qed
  have code: "length_extra_code n l = val_bits (e1 + e2) (x + 2 ^ e1 * y)"
    unfolding val_bits_append [OF x(1)] length_extra_code_def insert_code_eq [OF i(2)] copy_code_eq [OF j(2)]
    by (simp only: x_def y_def e1_def e2_def)
  from le64.wr_nat [OF r _ lt] e show ?thesis unfolding run code by simp
qed

section \<open>The decoder\<close>

text \<open>\<open>SafeReadBits\<close> keeps the contract of the safe readers and also accepts zero bits.\<close>

definition zero_ready :: "BrotliBitReader \<Rightarrow> uint32 \<Rightarrow> bool" where
  "zero_ready br n \<longleftrightarrow> n \<le> 32"

interpretation safe0: bit_source SafeReadBits br_bits br_ok zero_ready
proof
  fix br n assume a: "br_ok br" "zero_ready br n"
  have r: "br_ready br n" if "n \<noteq> 0" using a(2) that by (simp add: zero_ready_def br_ready_def word_neq_0_conv)
  show "unat n \<le> length (br_bits br) \<Longrightarrow> \<exists>v br'. SafeReadBits br n = Some (Some v, br') \<and> br_ok br' \<and>
      unat v = bits_val (take (unat n) (br_bits br)) \<and> br_bits br' = drop (unat n) (br_bits br)"
    using safe.rd_enough [OF a(1) r] a(1) by (cases "n = 0") (simp_all add: SafeReadBits_def)
  show "length (br_bits br) < unat n \<Longrightarrow>
      \<exists>br'. SafeReadBits br n = Some (None, br') \<and> br_ok br' \<and> br_bits br' = br_bits br"
    using safe.rd_short [OF a(1) r] by (cases "n = 0") (simp_all add: SafeReadBits_def)
qed

lemma rfc_command_fields:
  assumes "i < 24" and "j < 24"
  shows "ucast (insert_len_extra_bits (rfc_command b i j)) = (of_nat (insert_extra ! i) :: uint32)"
    and "ucast (copy_len_extra_bits (rfc_command b i j)) = (of_nat (copy_extra ! j) :: uint32)"
    and "uint (insert_len_offset (rfc_command b i j)) = int (insert_base i)"
    and "uint (copy_len_offset (rfc_command b i j)) = int (copy_base j)"
proof -
  note e = extra_bounds [OF assms(1)] extra_bounds [OF assms(2)]
  have o: "0 \<le> range_offsets 0 insert_extra ! i" "0 \<le> range_offsets 2 copy_extra ! j"
  proof -
    have "list_all (\<lambda>i. 0 \<le> range_offsets 0 insert_extra ! i \<and> 0 \<le> range_offsets 2 copy_extra ! i) [0..<24]"
      by (simp add: insert_extra_def copy_extra_def upt_rec)
    then show "0 \<le> range_offsets 0 insert_extra ! i" "0 \<le> range_offsets 2 copy_extra ! j"
      using assms by (simp_all add: list_all_iff del: upt_rec_numeral)
  qed
  show "ucast (insert_len_extra_bits (rfc_command b i j)) = (of_nat (insert_extra ! i) :: uint32)"
    "ucast (copy_len_extra_bits (rfc_command b i j)) = (of_nat (copy_extra ! j) :: uint32)"
    using e(1,6)
    by (simp_all add: rfc_command_def Let_def word_unat_eq_iff unsigned_ucast_eq unat_of_nat take_bit_nat_eq_self)
  have "range_offsets 0 insert_extra ! i = int (insert_base i)" "range_offsets 2 copy_extra ! j = int (copy_base j)"
    using o by (simp_all add: insert_base_def copy_base_def)
  then show "uint (insert_len_offset (rfc_command b i j)) = int (insert_base i)"
    "uint (copy_len_offset (rfc_command b i j)) = int (copy_base j)"
    using e(3,8) by (simp_all add: rfc_command_def Let_def uint_nat unat_of_nat take_bit_nat_eq_self)
qed

lemma rci_extra_spec:
  assumes "br_ok br" and "br_bits br = length_extra_code n l @ rest"
    and "in_insert_range i n" and "in_copy_range j l"
  shows "\<exists>ins cpy br'. rci_extra True (rfc_command b i j) br = Some (Some (ins, cpy), br') \<and>
    br_ok br' \<and> br_bits br' = rest \<and>
    uint (insert_len_offset (rfc_command b i j)) + sint ins = int n \<and>
    sint cpy + uint (copy_len_offset (rfc_command b i j)) = int l"
proof -
  have ij: "i < 24" "j < 24" using assms by (simp_all add: in_insert_range_def in_copy_range_def)
  note f = rfc_command_fields [OF ij, of b] and e = extra_bounds [OF ij(1)] extra_bounds [OF ij(2)]
  define x where "x = n - insert_base i"
  define y where "y = l - copy_base j"
  have x: "x < 2 ^ (insert_extra ! i)" "y < 2 ^ (copy_extra ! j)" "n = insert_base i + x" "l = copy_base j + y"
    using assms(3,4) by (auto simp: in_insert_range_def in_copy_range_def x_def y_def)
  have bits: "br_bits br = val_bits (insert_extra ! i) x @ val_bits (copy_extra ! j) y @ rest"
    using assms(2) by (simp add: length_extra_code_def insert_code_eq [OF assms(3)] copy_code_eq [OF assms(4)] x_def y_def)
  have rdy: "zero_ready br' (of_nat (insert_extra ! i))" "zero_ready br' (of_nat (copy_extra ! j))"
    and u: "unat (of_nat (insert_extra ! i) :: uint32) = insert_extra ! i"
      "unat (of_nat (copy_extra ! j) :: uint32) = copy_extra ! j" for br'
    using e(1,6) by (simp_all add: zero_ready_def word_le_nat_alt unat_of_nat_small)
  from safe0.rd_val_bits [OF assms(1) rdy(1), unfolded u, OF bits x(1)] obtain ins b1 where
    r1: "SafeReadBits br (of_nat (insert_extra ! i)) = Some (Some ins, b1)" "br_ok b1" "unat ins = x"
      "br_bits b1 = val_bits (copy_extra ! j) y @ rest" by blast
  from safe0.rd_val_bits [OF r1(2) rdy(2), unfolded u, OF r1(4) x(2)] obtain cpy b2 where
    r2: "SafeReadBits b1 (of_nat (copy_extra ! j)) = Some (Some cpy, b2)" "br_ok b2" "unat cpy = y"
      "br_bits b2 = rest" by blast
  have "(2::nat) ^ (insert_extra ! i) \<le> 2 ^ 24" "(2::nat) ^ (copy_extra ! j) \<le> 2 ^ 24"
    by (rule power_increasing; use e in simp)+
  then have s: "sint ins = int x" "sint cpy = int y"
    using sint_eq_unat [of ins] sint_eq_unat [of cpy] r1(3) r2(3) x(1,2) by simp_all
  show ?thesis using r1 r2 by (simp add: rci_extra_def f s x(3,4))
qed

section \<open>The command record\<close>

lemma copy_len_modifiers:
  "list_all (\<lambda>d. let m = drop_bit 25 (push_bit 25 (ucast (of_int d :: uint8) :: uint32))
     in scast (ucast (m OR push_bit 1 (m AND 0x40)) :: uint8) = (of_int d :: uint32)) [-64..63]"
  by code_simp

text \<open>The two fields of \<open>copy_len\<close> give the length of the copy and the length its code stands for.\<close>

lemma CommandCopyLenCode_spec:
  assumes "copy_len c = of_nat l OR push_bit 25 (ucast (of_int d :: uint8))" and "l < 2 ^ 25"
    and "-64 \<le> d" and "d < 64" and "int l + d = int k"
  shows "CommandCopyLenCode c = of_nat k" and "CommandCopyLen c = of_nat l"
proof -
  define m :: uint32 where "m = drop_bit 25 (push_bit 25 (ucast (of_int d :: uint8)))"
  have bit: "i < 25" if "bit l i" for i
  proof (rule ccontr)
    assume "\<not> i < 25"
    then have "(2::nat) ^ 25 \<le> 2 ^ i" by (intro power_increasing) simp_all
    then have "l < 2 ^ i" using assms(2) by linarith
    then show False using that by (simp add: bit_iff_odd)
  qed
  have low: "copy_len c AND 0x1FFFFFF = of_nat l"
  proof -
    have "copy_len c AND mask 25 = of_nat l"
      by (rule bit_word_eqI) (use bit in \<open>auto simp: assms(1) bit_simps not_less\<close>)
    then show ?thesis by (simp add: mask_eq_exp_minus_1)
  qed
  have high: "drop_bit 25 (copy_len c) = m"
    unfolding m_def by (rule bit_word_eqI) (use bit in \<open>fastforce simp: assms(1) bit_simps\<close>)
  have "scast (ucast (m OR push_bit 1 (m AND 0x40)) :: uint8) = (of_int d :: uint32)"
    using copy_len_modifiers [unfolded list_all_iff Let_def set_upto, rule_format, of d] assms(3,4)
    unfolding m_def by simp
  then have "CommandCopyLenCode c = of_nat l + of_int d"
    unfolding CommandCopyLenCode_def Let_def low high by simp
  also have "\<dots> = of_int (int l + d)" by simp
  finally show "CommandCopyLenCode c = of_nat k" by (simp add: assms(5))
  show "CommandCopyLen c = of_nat l" by (simp add: CommandCopyLen_def low)
qed

end
