(* ===== verification/Roundtrip_Properties.thy ===== *)
theory Roundtrip_Properties
  imports Enc_Extra_Facts Enc_Distance_Facts Header_Properties
begin

text \<open>
  The encoder against the decoder: what the one writes, the other reads back.  A statement has two halves
  over the same code word: the encoder's routine appends the word to its output, and the decoder's
  routine, on a stream that starts with the word, returns the value and leaves the rest of the stream.
\<close>

section \<open>Samples\<close>

definition blank_storage :: bit_storage where
  "blank_storage = \<lparr>storage_ix = 3, storage = replicate 24 0\<rparr>"

lemma blank_storage_room: "n \<le> 120 \<Longrightarrow> room blank_storage n"
proof -
  assume "n \<le> 120"
  then have "(3 + n) div 8 \<le> (3 + 120) div 8" by (intro div_le_mono) simp
  then show ?thesis by (simp add: room_def storage_ok_def blank_storage_def nth_append)
qed

section \<open>Headers\<close>

text \<open>C27: \<open>StoreVarLenUint8\<close> and \<open>DecodeVarLenUint8\<close> are inverse for every number of a byte: the
  encoder appends the number's code word, and the decoder returns the number from any stream that starts
  with it and consumes exactly the word.\<close>

theorem varlen_uint8_roundtrip:
  assumes "n \<le> 255" and "room st (11 + m)" and "varlen_ok s v"
    and "d_substate_decode_uint8 s = BROTLI_STATE_DECODE_UINT8_NONE"
    and "br_bits (d_br s) = varlen_code n @ rest"
  shows "(\<exists>st'. StoreVarLenUint8 n st = Some st' \<and> written st' = written st @ varlen_code n \<and> room st' m) \<and>
    (\<exists>s'. DecodeVarLenUint8 s v = Some (BROTLI_DECODER_SUCCESS, of_nat n, s') \<and> br_bits (d_br s') = rest)"
  using StoreVarLenUint8_spec [OF assms(2,1)] DecodeVarLenUint8_result [OF assms(3)] varlen_parse_code [OF assms(1)]
    assms(4,5) by (auto simp: varlen_result_def varlen_pending_def)

lemma varlen_uint8_roundtrip_witness:
  "(\<exists>st'. StoreVarLenUint8 22 blank_storage = Some st' \<and>
      written st' = written blank_storage @ varlen_code 22 \<and> room st' 5) \<and>
   (\<exists>s'. DecodeVarLenUint8 (with_input [0x69]) 0 = Some (BROTLI_DECODER_SUCCESS, of_nat 22, s') \<and>
      br_bits (d_br s') = [])"
proof (rule varlen_uint8_roundtrip)
  show "br_bits (d_br (with_input [0x69])) = varlen_code 22 @ []" unfolding with_input_bits by code_simp
qed (simp_all add: blank_storage_room varlen_ok_def with_input_ok with_input_fields)

definition header_code :: "bool \<Rightarrow> bool \<Rightarrow> nat \<Rightarrow> bits" where
  "header_code unc fin len = (if unc then uncompressed_header_code len else compressed_header_code fin len)"

definition store_header :: "bool \<Rightarrow> bool \<Rightarrow> nat \<Rightarrow> bit_storage \<Rightarrow> bit_storage option" where
  "store_header unc fin len st =
     (if unc then BrotliStoreUncompressedMetaBlockHeader len st else StoreCompressedMetaBlockHeader fin len st)"

text \<open>C11: The header of a meta-block of 1 to \<open>2^24\<close> bytes that \<open>StoreCompressedMetaBlockHeader\<close> or
  \<open>BrotliStoreUncompressedMetaBlockHeader\<close> writes is the one \<open>DecodeMetaBlockLength\<close> reads back: the
  same length, the same two flags, and not a bit more or less.\<close>

theorem metablock_header_roundtrip:
  assumes "0 < len" and "len \<le> 2 ^ 24" and "\<not> (unc \<and> fin)" and "room st (29 + m)" and "mlh_ok s"
    and "d_substate_metablock_header s = BROTLI_STATE_METABLOCK_HEADER_NONE"
    and "br_bits (d_br s) = header_code unc fin len @ rest"
  shows "(\<exists>st'. store_header unc fin len st = Some st' \<and>
      written st' = written st @ header_code unc fin len \<and> room st' m) \<and>
    (\<exists>s'. DecodeMetaBlockLength s = Some (BROTLI_DECODER_SUCCESS, s') \<and> br_bits (d_br s') = rest \<and>
      d_meta_block_remaining_len s' = int len \<and> d_is_last_metablock s' = fin \<and>
      d_is_uncompressed s' = unc \<and> \<not> d_is_metadata s')"
proof
  have "room st (28 + m)" by (rule room_mono [OF assms(4)]) simp
  then show "\<exists>st'. store_header unc fin len st = Some st' \<and>
      written st' = written st @ header_code unc fin len \<and> room st' m"
    using BrotliStoreUncompressedMetaBlockHeader_spec [OF _ assms(1,2)]
      StoreCompressedMetaBlockHeader_spec [OF assms(4,1,2)]
    by (simp add: store_header_def header_code_def)
  have "mlh_parse (header_code unc fin len @ rest) = Mlh_Header fin unc False len rest"
    using parse_compressed_header [OF assms(1,2)] parse_stored_header [OF assms(1,2)] assms(3)
    by (simp add: header_code_def)
  then show "\<exists>s'. DecodeMetaBlockLength s = Some (BROTLI_DECODER_SUCCESS, s') \<and> br_bits (d_br s') = rest \<and>
      d_meta_block_remaining_len s' = int len \<and> d_is_last_metablock s' = fin \<and>
      d_is_uncompressed s' = unc \<and> \<not> d_is_metadata s'"
    using DecodeMetaBlockLength_result [OF assms(5)] assms(6,7) by (auto simp: mlh_result_def mlh_pending_def)
qed

lemma metablock_header_roundtrip_witness:
  "(\<exists>st'. store_header True False 40 blank_storage = Some st' \<and>
      written st' = written blank_storage @ header_code True False 40 \<and> room st' 5) \<and>
    (\<exists>s'. DecodeMetaBlockLength (with_input [0x38, 0x01, 0x08]) = Some (BROTLI_DECODER_SUCCESS, s') \<and>
      br_bits (d_br s') = [False, False, False, False] \<and>
      d_meta_block_remaining_len s' = int 40 \<and> d_is_last_metablock s' = False \<and>
      d_is_uncompressed s' = True \<and> \<not> d_is_metadata s')"
proof (rule metablock_header_roundtrip)
  show "br_bits (d_br (with_input [0x38, 0x01, 0x08])) = header_code True False 40 @ [False, False, False, False]"
  proof -
    have "mlen_nibbles 40 = 4" by (simp add: mlen_nibbles_def)
    then have "header_code True False 40 = [False] @ val_bits 2 0 @ val_bits 16 39 @ [True]"
      by (simp add: header_code_def uncompressed_header_code_def mlen_code_def last_flag_def)
    moreover have "bytes_bits [0x38, 0x01, 0x08] =
        ([False] @ val_bits 2 0 @ val_bits 16 39 @ [True]) @ [False, False, False, False]"
      by (simp add: val_bits_def byte_bits_def word_bits_def upt_rec bit_Suc_0_iff)
    ultimately show ?thesis unfolding with_input_bits by (simp only:)
  qed
qed (simp_all add: blank_storage_room mlh_ok_def with_input_ok with_input_fields)

section \<open>Window bits\<close>

lemma EncodeWindowBits_code:
  "list_all (\<lambda>w. let (b, n) = EncodeWindowBits (int w) False in word_bits b 0 (unat n) = wbits_code w) [10..<25]"
  by code_simp

text \<open>C28: For every window size from 10 to 24 bits, \<open>DecodeWindowBits\<close> reads back the size that
  \<open>EncodeWindowBits\<close> put in the first bits of the stream.\<close>

theorem window_bits_roundtrip:
  assumes "w \<in> {10..24}" and "EncodeWindowBits (int w) False = (b, n)" and "br_ok (d_br s)"
    and "8 \<le> BrotliGetAvailableBits (d_br s)" and "br_bits (d_br s) = word_bits b 0 (unat n) @ rest"
  shows "\<exists>s'. DecodeWindowBits s = Some (BROTLI_DECODER_SUCCESS, s') \<and> br_bits (d_br s') = rest \<and>
    d_window_bits s' = of_nat w \<and> \<not> d_large_window s'"
proof -
  have "w \<in> set [10..<25]" using assms(1) by (simp del: upt_rec_numeral)
  then have code: "word_bits b 0 (unat n) = wbits_code w"
    using EncodeWindowBits_code assms(2) by (auto simp only: list_all_iff Let_def prod.case)
  show ?thesis using DecodeWindowBits_code [OF assms(1,3,4)] assms(5) unfolding code by blast
qed

lemma window_bits_roundtrip_witness:
  "\<exists>s'. DecodeWindowBits (with_input [0x3B]) = Some (BROTLI_DECODER_SUCCESS, s') \<and>
    br_bits (d_br s') = [True, True, False, False] \<and> d_window_bits s' = of_nat 22 \<and> \<not> d_large_window s'"
proof (rule window_bits_roundtrip [where b = "0xB" and n = 4])
  show "br_bits (d_br (with_input [0x3B])) = word_bits (0xB :: uint16) 0 (unat (4 :: uint8)) @ [True, True, False, False]"
    unfolding with_input_bits by (simp add: byte_bits_def word_bits_def upt_rec)
  show "br_ok (d_br (with_input [0x3B]))" by (rule with_input_ok)
qed (simp_all add: EncodeWindowBits_def with_input_def BrotliGetAvailableBits_def)

section \<open>Commands\<close>

text \<open>C10: A command that \<open>InitCommand\<close> builds for any insert length, and any copy length with a
  \<open>copylen_code_delta\<close>, comes back from the decoder: its symbol \<open>cmd_prefix\<close> is one of the 704 rows of
  \<open>kCmdLut\<close>, \<open>StoreCommandExtra\<close> appends the extra bits of the two lengths, and \<open>ReadCommandInternal\<close>'s
  reading of these bits with that row restores both lengths and leaves the rest of the stream.\<close>

theorem command_roundtrip:
  assumes "n < 22594 + 2 ^ 24" and "l < 2 ^ 25" and "-64 \<le> d" "d < 64"
    and "int l + d = int k" and "2 \<le> k" and "k < 2118 + 2 ^ 24"
    and "PrefixEncodeCopyDistance dc (unat (num_direct_distance_codes dp)) (unat (distance_postfix_bits dp)) = Some (p, x)"
    and "room st (48 + m)" and "br_ok br" and "br_bits br = length_extra_code n k @ rest"
  shows "\<exists>c st' ins cpy br'. InitCommand dp n l d dc = Some c \<and> CommandCopyLen c = of_nat l \<and>
    unat (cmd_prefix c) < 704 \<and>
    StoreCommandExtra c st = Some st' \<and> written st' = written st @ length_extra_code n k \<and> room st' m \<and>
    rci_extra True (kCmdLut ! unat (cmd_prefix c)) br = Some (Some (ins, cpy), br') \<and>
    br_ok br' \<and> br_bits br' = rest \<and>
    uint (insert_len_offset (kCmdLut ! unat (cmd_prefix c))) + sint ins = int n \<and>
    sint cpy + uint (copy_len_offset (kCmdLut ! unat (cmd_prefix c))) = int k"
proof -
  define ul where "ul \<longleftrightarrow> p AND 0x3FF = 0"
  obtain i where i: "GetInsertLengthCode n = Some (of_nat i)" "in_insert_range i n"
    using GetInsertLengthCode_spec [OF assms(1)] by blast
  obtain j where j: "GetCopyLengthCode k = Some (of_nat j)" "in_copy_range j k"
    using GetCopyLengthCode_spec [OF assms(6,7)] by blast
  have ij: "i < 24" "j < 24" using i j by (simp_all add: in_insert_range_def in_copy_range_def)
  note row = command_position_row [OF ij, of ul]
  have "sint (of_nat l :: uint32) = int l" using assms(2) sint_eq_unat [of "of_nat l"] by (simp add: unat_of_nat_small)
  then have k: "nat ((sint (of_nat l :: uint32) + d) mod 2 ^ 64) = k" using assms(5,7) by simp
  define c where "c = \<lparr>insert_len = of_nat n, copy_len = of_nat l OR push_bit 25 (ucast (of_int d :: uint8)),
           dist_extra = x, cmd_prefix = of_nat (command_position ul i j), dist_prefix = p\<rparr>"
  have init: "InitCommand dp n l d dc = Some c"
    unfolding InitCommand_def assms(8) Let_def k bind.bind_lunit prod.case GetLengthCode_def i(1) j(1)
      CombineLengthCodes_spec [OF ij] ul_def [symmetric] c_def ..
  have pos: "unat (cmd_prefix c) = command_position ul i j" using row by (simp add: c_def unat_of_nat_small)
  have cl: "CommandCopyLenCode c = of_nat k" "CommandCopyLen c = of_nat l"
    using CommandCopyLenCode_spec [of c l d k] assms(2-5) by (simp_all add: c_def)
  have "insert_len c = of_nat n" by (simp add: c_def)
  from StoreCommandExtra_spec [OF assms(9) this cl(1) assms(1,6,7)]
    rci_extra_spec [OF assms(10,11) i(2) j(2), of "ul \<and> i < 8 \<and> j < 16"] init cl(2) pos row
  show ?thesis by fastforce
qed

lemma command_roundtrip_witness:
  "\<exists>c st' ins cpy br'. InitCommand \<lparr>distance_postfix_bits = 0, num_direct_distance_codes = 0,
      dp_alphabet_size_max = 64, dp_alphabet_size_limit = 64, dp_max_distance = 0x3FFFFFC\<rparr> 7 13 0 4 = Some c \<and>
    CommandCopyLen c = of_nat 13 \<and> unat (cmd_prefix c) < 704 \<and>
    StoreCommandExtra c blank_storage = Some st' \<and>
    written st' = written blank_storage @ length_extra_code 7 13 \<and> room st' 5 \<and>
    rci_extra True (kCmdLut ! unat (cmd_prefix c)) (d_br (with_input [0xFB])) = Some (Some (ins, cpy), br') \<and>
    br_ok br' \<and> br_bits br' = [False, True, True, True, True, True] \<and>
    uint (insert_len_offset (kCmdLut ! unat (cmd_prefix c))) + sint ins = int 7 \<and>
    sint cpy + uint (copy_len_offset (kCmdLut ! unat (cmd_prefix c))) = int 13"
proof (rule command_roundtrip [where p = 4 and x = 0])
  have "length_extra_code 7 13 = [True, True]"
    by (simp add: length_extra_code_def insert_code_eq [of 6] copy_code_eq [of 9] in_insert_range_def
        in_copy_range_def insert_base_at copy_base_at insert_extra_def copy_extra_def val_bits_one)
  then show "br_bits (d_br (with_input [0xFB])) = length_extra_code 7 13 @ [False, True, True, True, True, True]"
    unfolding with_input_bits by (simp add: byte_bits_def word_bits_def upt_rec)
qed (simp_all add: with_input_ok blank_storage_room PrefixEncodeCopyDistance_def)

section \<open>Distances\<close>

lemma dist_value_bound:
  assumes "np \<le> 3" and "d \<le> 2 ^ 26 + 11"
  shows "dist_value np nd d < 2 ^ (np + 26)" and "dist_value np nd d < 2 ^ 32"
proof -
  have "(2::nat) ^ 0 \<le> 2 ^ np" by (rule power_increasing) simp_all
  then have "4 * 2 ^ np + (2 ^ 26 - 4) \<le> 2 ^ 26 * (2::nat) ^ np" by simp
  moreover have "d - 16 - nd < 2 ^ 26 - 4" using assms(2) by simp
  moreover have "dist_value np nd d = 4 * 2 ^ np + (d - 16 - nd)" by (simp add: dist_value_def)
  moreover have "(2::nat) ^ (np + 26) = 2 ^ 26 * 2 ^ np" by (simp only: power_add mult.commute)
  ultimately show lt: "dist_value np nd d < 2 ^ (np + 26)" by linarith
  have "(2::nat) ^ (np + 26) \<le> 2 ^ 32" by (rule power_increasing) (use assms(1) in simp_all)
  with lt show "dist_value np nd d < 2 ^ 32" by linarith
qed

lemma dist_code_in_table:
  assumes "dist_value np nd d < 2 ^ (np + 26)" and "dist_value np nd d < 2 ^ 32"
  shows "dist_code np nd d < 16 + nd + 48 * 2 ^ np"
proof -
  note b = dist_bucket [OF assms(2)]
  have "0 < dist_value np nd d" by (simp add: dist_value_def)
  then have "log2_floor (dist_value np nd d) < np + 26" using assms(1) by (rule log2_floor_less)
  then have "2 * (dist_nbits np nd d - 1) + dist_half np nd d \<le> 47" using b(1,4) by linarith
  then have "(2 * (dist_nbits np nd d - 1) + dist_half np nd d) * 2 ^ np \<le> 47 * 2 ^ np" by (rule mult_le_mono1)
  moreover have "dist_value np nd d mod 2 ^ np < 2 ^ np" by simp
  ultimately show ?thesis unfolding dist_code_def group_start_def by linarith
qed

text \<open>C18: A distance code past the sixteen short ones that \<open>PrefixEncodeCopyDistance\<close> splits into a
  symbol, a number of extra bits and their value comes back from the table \<open>CalculateDistanceLut\<close>
  builds: the entry of the symbol has the same number of extra bits, the value fits them, and the
  entry's offset with the value shifted by the postfix bits is the distance, for every number of direct
  codes and postfix bits and every distance up to \<open>2^26 - 4\<close>.\<close>

theorem distance_roundtrip:
  assumes "unat (d_distance_postfix_bits s) = np" and "np \<le> 3"
    and "unat (d_num_direct_distance_codes s) = nd" and "nd \<le> 120"
    and "unat (alphabet_size_limit (d_distance_hgroup s)) = 16 + nd + 48 * 2 ^ np"
    and "16 + nd + 48 * 2 ^ np \<le> 544"
    and "length (b_dist_extra_bits (d_body s)) = 544" and "length (b_dist_offset (d_body s)) = 544"
    and "16 \<le> d" and "d \<le> 2 ^ 26 + 11"
  shows "\<exists>p x s' off. PrefixEncodeCopyDistance d nd np = Some (p, x) \<and> CalculateDistanceLut s = Some s' \<and>
    arr_get (b_dist_extra_bits (d_body s')) (unat (p AND 0x3FF)) = Some (ucast (drop_bit 10 p)) \<and>
    unat x < 2 ^ unat (drop_bit 10 p) \<and>
    arr_get (b_dist_offset (d_body s')) (unat (p AND 0x3FF)) = Some off \<and>
    sint (off + push_bit np x) = int d - 15"
proof -
  obtain s' where s': "CalculateDistanceLut s = Some s'"
    "length (b_dist_extra_bits (d_body s')) = 544" "length (b_dist_offset (d_body s')) = 544"
    "\<And>c. 16 \<le> c \<Longrightarrow> c < 16 + nd + 48 * 2 ^ np \<Longrightarrow>
       b_dist_extra_bits (d_body s') ! c = of_nat (rfc_extra_bits np nd c) \<and>
       b_dist_offset (d_body s') ! c = of_int (rfc_offset np nd c)"
    using CalculateDistanceLut_spec [OF assms(1-3,5,6) _ assms(7,8)] by auto
  note v = dist_value_bound [OF assms(2,10), of nd]
  define c where "c = (if d < 16 + nd then d else dist_code np nd d)"
  define n where "n = (if d < 16 + nd then 0 else dist_nbits np nd d)"
  define e where "e = (if d < 16 + nd then 0 else dist_extra_val np nd d)"
  have c: "16 \<le> c" "c < 16 + nd + 48 * 2 ^ np" "c < 1024"
    using assms(6,9) dist_code_in_table [OF v] by (auto simp: c_def dist_code_def group_start_def)
  have n: "n < 64" "e < 2 ^ n" "n \<le> 30"
    using dist_bucket(3) [OF v(2)] dist_split(2) [OF v(2)] by (auto simp: n_def e_def)
  have rfc: "rfc_extra_bits np nd c = n" "rfc_offset np nd c + int e * 2 ^ np = int d - 15"
    using dist_code_rfc [OF _ v(2)]
    by (auto simp: c_def n_def e_def) (simp_all add: rfc_extra_bits_def rfc_offset_def)
  have enc: "PrefixEncodeCopyDistance d nd np = Some (of_nat (push_bit 10 n OR c), of_nat e)"
    using PrefixEncodeCopyDistance_direct [of d nd np] PrefixEncodeCopyDistance_bucket [OF _ v(2)]
    by (auto simp: c_def n_def e_def not_less)
  note f = dist_prefix_fields [OF c(3) n(1)]
  have u: "unat (of_nat c :: uint16) = c" "unat (of_nat n :: uint16) = n" "ucast (of_nat n :: uint16) = (of_nat n :: uint8)"
    using c(3) n(1) by (simp_all add: unat_of_nat_small word_unat_eq_iff unsigned_ucast_eq unat_of_nat take_bit_nat_eq_self)
  have "(2::nat) ^ n \<le> 2 ^ 30" by (rule power_increasing) (use n(3) in simp_all)
  then have e: "unat (of_nat e :: uint32) = e" using n(2) by (simp add: unat_of_nat_small)
  have "of_int (rfc_offset np nd c) + push_bit np (of_nat e) = (of_int (rfc_offset np nd c + int e * 2 ^ np) :: uint32)"
    by (simp add: push_bit_eq_mult)
  also have "\<dots> = of_nat (d - 15)"
  proof -
    have "int d - 15 = int (d - 15)" using assms(9) by simp
    then show ?thesis unfolding rfc(2) by (simp only: of_int_of_nat_eq)
  qed
  finally have off: "of_int (rfc_offset np nd c) + push_bit np (of_nat e) = (of_nat (d - 15) :: uint32)" .
  have "unat (of_nat (d - 15) :: uint32) = d - 15" using assms(10) by (simp add: unat_of_nat_small)
  then have "sint (of_nat (d - 15) :: uint32) = int d - 15"
    using assms(9,10) sint_eq_unat [of "of_nat (d - 15)"] by simp
  then have val: "sint (of_int (rfc_offset np nd c) + push_bit np (of_nat e :: uint32)) = int d - 15"
    unfolding off .
  have lt: "c < 544" using c(2) assms(6) by linarith
  have ex: "arr_get (b_dist_extra_bits (d_body s')) c = Some (of_nat n)"
    and of: "arr_get (b_dist_offset (d_body s')) c = Some (of_int (rfc_offset np nd c))"
    using s'(4) [OF c(1,2)] lt s'(2,3) rfc(1) by (simp_all add: arr_get_def)
  show ?thesis
    by (intro exI conjI, rule enc, rule s'(1), unfold f u e) (rule ex n(2) of val)+
qed

lemma distance_roundtrip_witness:
  "\<exists>p x s' off. PrefixEncodeCopyDistance 1000 12 2 = Some (p, x) \<and>
    CalculateDistanceLut (sample_state\<lparr>d_distance_postfix_bits := 2, d_num_direct_distance_codes := 12,
      d_distance_hgroup := zero_group\<lparr>alphabet_size_limit := 220\<rparr>\<rparr>) = Some s' \<and>
    arr_get (b_dist_extra_bits (d_body s')) (unat (p AND 0x3FF)) = Some (ucast (drop_bit 10 p)) \<and>
    unat x < 2 ^ unat (drop_bit 10 p) \<and>
    arr_get (b_dist_offset (d_body s')) (unat (p AND 0x3FF)) = Some off \<and>
    sint (off + push_bit 2 x) = int 1000 - 15"
  by (rule distance_roundtrip)
    (simp_all add: sample_state_def BrotliDecoderStateInit_def zero_state_def zero_body_def zero_group_def)

text \<open>C26: \<open>CommandRestoreDistanceCode\<close> undoes \<open>PrefixEncodeCopyDistance\<close>: from the symbol, the number of
  extra bits and their value, as a command stores them, it computes the distance code they came from,
  for every number of direct codes and postfix bits a stream can have.\<close>

theorem restore_distance_code:
  assumes "unat (num_direct_distance_codes dp) \<le> 120" and "unat (distance_postfix_bits dp) \<le> 3"
    and "d < 2 ^ 31"
  shows "\<exists>p x. PrefixEncodeCopyDistance d (unat (num_direct_distance_codes dp)) (unat (distance_postfix_bits dp)) =
      Some (p, x) \<and>
    CommandRestoreDistanceCode (c\<lparr>dist_prefix := p, dist_extra := x\<rparr>) dp = Some (of_nat d)"
proof -
  define nd where "nd = unat (num_direct_distance_codes dp)"
  define np where "np = unat (distance_postfix_bits dp)"
  have b: "np \<le> 3" "nd \<le> 120" using assms by (simp_all add: np_def nd_def)
  show ?thesis
  proof (cases "d < 16 + nd")
    case True
    show ?thesis unfolding nd_def [symmetric] np_def [symmetric] PrefixEncodeCopyDistance_direct [OF True]
      using CommandRestoreDistanceCode_direct [OF True b(2), of dp "c\<lparr>dist_prefix := of_nat d, dist_extra := 0\<rparr>"]
      by (simp add: nd_def)
  next
    case False
    then have d: "16 + nd \<le> d" by simp
    have "(2::nat) ^ (np + 2) \<le> 2 ^ 5" by (rule power_increasing) (use b in simp_all)
    then have v: "dist_value np nd d < 2 ^ 32" using assms(3) unfolding dist_value_def by simp
    show ?thesis unfolding nd_def [symmetric] np_def [symmetric] PrefixEncodeCopyDistance_bucket [OF d v]
      using CommandRestoreDistanceCode_bucket [OF d v b, of dp
          "c\<lparr>dist_prefix := of_nat (push_bit 10 (dist_nbits np nd d) OR dist_code np nd d),
             dist_extra := of_nat (dist_extra_val np nd d)\<rparr>"]
      by (simp add: nd_def np_def)
  qed
qed

definition sample_command :: Command where
  "sample_command = \<lparr>insert_len = 3, copy_len = 5, dist_extra = 0, cmd_prefix = 0, dist_prefix = 0\<rparr>"

lemma restore_distance_code_witness:
  "\<exists>p x. PrefixEncodeCopyDistance 70000 (unat (4 :: uint32)) (unat (1 :: uint32)) = Some (p, x) \<and>
    CommandRestoreDistanceCode (sample_command\<lparr>dist_prefix := p, dist_extra := x\<rparr>)
      \<lparr>distance_postfix_bits = 1, num_direct_distance_codes = 4, dp_alphabet_size_max = 116,
       dp_alphabet_size_limit = 116, dp_max_distance = 0x7FFFFFC\<rparr> = Some (of_nat 70000)"
  using restore_distance_code [of "\<lparr>distance_postfix_bits = 1, num_direct_distance_codes = 4,
      dp_alphabet_size_max = 116, dp_alphabet_size_limit = 116, dp_max_distance = 0x7FFFFFC\<rparr>" 70000 sample_command]
  by simp

section \<open>The bit writer\<close>

text \<open>C25: The two builds of \<open>BrotliWriteBits\<close>, one storing 64 bits at once and one storing byte by
  byte, append the same bits: the \<open>n\<close> low bits of the value, lowest first, and neither touches the bits
  already written nor leaves the room it was given.\<close>

theorem write_bits_variants_agree:
  assumes "room st (n + m)" and "n \<le> 56" and "unat b < 2 ^ n"
  shows "\<exists>s1 s2. BrotliWriteBits n b st = Some s1 \<and> BrotliWriteBits_bytes n b st = Some s2 \<and>
    written s1 = written st @ val_bits n (unat b) \<and> written s2 = written s1 \<and> room s1 m \<and> room s2 m"
  using le64.wr_appends [OF assms] portable.wr_appends [OF assms] by auto

lemma write_bits_variants_agree_witness:
  "\<exists>s1 s2. BrotliWriteBits 11 0x5A3 blank_storage = Some s1 \<and> BrotliWriteBits_bytes 11 0x5A3 blank_storage = Some s2 \<and>
    written s1 = written blank_storage @ val_bits 11 (unat (0x5A3 :: uint64)) \<and> written s2 = written s1 \<and>
    room s1 5 \<and> room s2 5"
  by (rule write_bits_variants_agree) (simp_all add: blank_storage_room)

end
