(* ===== verification/Enc_Uncompressed_Facts.thy ===== *)
theory Enc_Uncompressed_Facts
  imports Enc_Header_Facts
begin

text \<open>
  The stream of uncompressed meta-blocks as a list of bytes: \<open>MakeUncompressedStream\<close> of \<^verbatim>\<open>enc/encode.c\<close>
  writes exactly these, a header of three or four bytes per chunk of up to \<open>2^24\<close> bytes.
\<close>

section \<open>The bytes of the stream\<close>

definition chunk_header :: "nat \<Rightarrow> uint8 list" where
  "chunk_header len = le_bytes (if chunk_nibbles len = 2 then 4 else 3) (chunk_bits len)"

function chunk_stream :: "uint8 list \<Rightarrow> uint8 list" where
  "chunk_stream xs =
     (if xs = [] then []
      else let n = min (length xs) (2 ^ 24) in chunk_header n @ take n xs @ chunk_stream (drop n xs))"
  by pat_completeness auto
termination
  by (relation "measure length") (auto simp: neq_Nil_conv)

declare chunk_stream.simps [simp del]

definition uncompressed_stream :: "uint8 list \<Rightarrow> uint8 list" where
  "uncompressed_stream xs = (if xs = [] then [6] else [0x21, 0x03] @ chunk_stream xs @ [3])"

section \<open>The header of a chunk\<close>

lemma chunk_nibbles_mlen: "chunk_nibbles len + 4 = mlen_nibbles len"
  by (auto simp: chunk_nibbles_def mlen_nibbles_def)

lemma val_bits_zero: "val_bits n 0 = replicate n False"
  by (rule nth_equalityI) (simp_all add: val_bits_def)

definition chunk_pad :: "nat \<Rightarrow> nat" where
  "chunk_pad len = (if chunk_nibbles len = 1 then 0 else 4)"

lemma chunk_bits_value:
  assumes "0 < len" and "len \<le> 2 ^ 24"
  shows "unat (chunk_bits len) =
    0 + 2 ^ 1 * (chunk_nibbles len + 2 ^ 2 * (len - 1 + 2 ^ (4 * mlen_nibbles len) * (1 + 2 * 0)))"
proof -
  define k where "k = chunk_nibbles len"
  have k: "k \<le> 2" by (simp add: k_def chunk_nibbles_def)
  have m: "4 * mlen_nibbles len = 16 + 4 * k" using chunk_nibbles_mlen [of len] by (simp add: k_def)
  have r: "len - 1 < 2 ^ (16 + 4 * k)" using mlen_range(1) [OF assms] by (simp only: m)
  define v1 where "v1 = 2 * k + 2 ^ 3 * (len - 1)"
  have w: "push_bit 1 (of_nat k) = (of_nat (2 * k) :: uint32)" "(of_nat len - 1 :: uint32) = of_nat (len - 1)"
    using assms(1) by (simp_all add: push_bit_eq_mult of_nat_diff mult.commute)
  have o1: "push_bit 3 (of_nat (len - 1)) OR of_nat (2 * k) = (of_nat v1 :: uint32)"
    unfolding v1_def by (rule of_nat_or_shift) (use k in simp)
  have v1: "v1 < 2 ^ (19 + 4 * k)"
  proof -
    have "Suc (len - 1) * 2 ^ 3 \<le> 2 ^ (16 + 4 * k) * 2 ^ 3" using r by (intro mult_le_mono1) simp
    also have "\<dots> = 2 ^ (19 + 4 * k)" by (simp only: power_add [symmetric]) (simp add: add.commute)
    finally show ?thesis using k unfolding v1_def by simp
  qed
  then have o2: "push_bit (19 + 4 * k) 1 OR of_nat v1 = (of_nat (v1 + 2 ^ (19 + 4 * k)) :: uint32)"
    using of_nat_or_shift [of v1 "19 + 4 * k" 1] unfolding of_nat_1 mult_1_right by blast
  have "of_nat (2 * k) OR push_bit 3 (of_nat (len - 1)) OR push_bit (19 + 4 * k) 1 =
      push_bit (19 + 4 * k) 1 OR push_bit 3 (of_nat (len - 1)) OR (of_nat (2 * k) :: uint32)"
    by (simp only: or.assoc or.commute or.left_commute)
  then have "chunk_bits len = of_nat (v1 + 2 ^ (19 + 4 * k))"
    unfolding chunk_bits_def Let_def k_def [symmetric] w o1 o2 .
  moreover have "v1 + 2 ^ (19 + 4 * k) < 2 ^ 32"
  proof -
    have "(2::nat) ^ (19 + 4 * k) \<le> 2 ^ 27" by (rule power_increasing) (use k in simp_all)
    then show ?thesis using v1 by simp
  qed
  ultimately have "unat (chunk_bits len) = v1 + 2 ^ (19 + 4 * k)"
    using unat_of_nat_small [of "v1 + 2 ^ (19 + 4 * k)", where 'a = 32] by (simp del: of_nat_add)
  also have "(2::nat) ^ (19 + 4 * k) = 2 ^ 3 * 2 ^ (16 + 4 * k)"
    by (simp only: power_add [symmetric]) simp
  finally show ?thesis unfolding m k_def [symmetric] by (simp add: v1_def algebra_simps)
qed

lemma chunk_header_bits:
  assumes "0 < len" and "len \<le> 2 ^ 24"
  shows "bytes_bits (chunk_header len) = uncompressed_header_code len @ replicate (chunk_pad len) False"
proof -
  define k where "k = chunk_nibbles len"
  have k: "k < 2 ^ 2" "k \<in> {0, 1, 2}" by (simp_all add: k_def chunk_nibbles_def)
  have m: "mlen_nibbles len = k + 4" using chunk_nibbles_mlen [of len] by (simp add: k_def)
  define h where "h = (if k = 2 then 4 else (3::nat))"
  have h: "8 * h = 1 + (2 + (4 * (k + 4) + (1 + chunk_pad len)))"
    using k(2) by (auto simp: h_def chunk_pad_def simp flip: k_def)
  have r: "len - 1 < 2 ^ (4 * (k + 4))" using mlen_range(1) [OF assms] by (simp only: m)
  have "bytes_bits (chunk_header len) = val_bits (8 * h) (unat (chunk_bits len))"
    by (simp only: chunk_header_def bytes_bits_le_bytes word_bits_val_bits k_def [symmetric] h_def)
  also have "\<dots> = val_bits 1 0 @ val_bits 2 k @ val_bits (4 * (k + 4)) (len - 1) @ val_bits 1 1 @
      val_bits (chunk_pad len) 0"
  proof -
    have "val_bits (1 + chunk_pad len) (1 + 2 ^ 1 * 0) = val_bits 1 1 @ val_bits (chunk_pad len) 0"
      by (rule val_bits_append) simp
    moreover have "val_bits (4 * (k + 4) + (1 + chunk_pad len)) (len - 1 + 2 ^ (4 * (k + 4)) * (1 + 2 ^ 1 * 0)) =
        val_bits (4 * (k + 4)) (len - 1) @ val_bits (1 + chunk_pad len) (1 + 2 ^ 1 * 0)"
      by (rule val_bits_append [OF r])
    moreover have "val_bits (2 + (4 * (k + 4) + (1 + chunk_pad len)))
        (k + 2 ^ 2 * (len - 1 + 2 ^ (4 * (k + 4)) * (1 + 2 ^ 1 * 0))) =
        val_bits 2 k @ val_bits (4 * (k + 4) + (1 + chunk_pad len)) (len - 1 + 2 ^ (4 * (k + 4)) * (1 + 2 ^ 1 * 0))"
      by (rule val_bits_append [OF k(1)])
    moreover have "val_bits (1 + (2 + (4 * (k + 4) + (1 + chunk_pad len))))
        (0 + 2 ^ 1 * (k + 2 ^ 2 * (len - 1 + 2 ^ (4 * (k + 4)) * (1 + 2 ^ 1 * 0)))) =
        val_bits 1 0 @ val_bits (2 + (4 * (k + 4) + (1 + chunk_pad len)))
          (k + 2 ^ 2 * (len - 1 + 2 ^ (4 * (k + 4)) * (1 + 2 ^ 1 * 0)))"
      by (rule val_bits_append) simp
    ultimately show ?thesis
      unfolding h chunk_bits_value [OF assms] m k_def [symmetric] power_one_right by (simp only:)
  qed
  also have "\<dots> = uncompressed_header_code len @ replicate (chunk_pad len) False"
    using val_bits_one by (simp add: uncompressed_header_code_def last_flag_def mlen_code_def m val_bits_zero)
  finally show ?thesis .
qed

section \<open>What the encoder writes\<close>

lemma put_byte_spec:
  assumes "r < length a"
  shows "put_byte b (r, a) = Some (r + 1, a[r := b])" and "take (r + 1) (a[r := b]) = take r a @ [b]"
  using assms by (simp_all add: put_byte_def take_Suc_conv_app_nth)

text \<open>Bytes put one after the other.\<close>

lemma put_bytes_spec:
  assumes "r + length bs \<le> length a"
  shows "\<exists>a'. foldM put_byte bs (r, a) = Some (r + length bs, a') \<and>
    take (r + length bs) a' = take r a @ bs \<and> length a' = length a"
  using assms
proof (induction bs arbitrary: r a)
  case (Cons b bs)
  then have "r < length a" by simp
  note p = put_byte_spec [OF this, of b]
  from Cons.IH [of "r + 1" "a[r := b]"] Cons.prems obtain a' where
    "foldM put_byte bs (r + 1, a[r := b]) = Some (r + 1 + length bs, a')"
    "take (r + 1 + length bs) a' = take (r + 1) (a[r := b]) @ bs" "length a' = length a" by auto
  then show ?case using p by auto
qed simp

lemma foldM_eta: "foldM f [] = Some" "foldM f (x # xs) = (\<lambda>s. Option.bind (f x s) (foldM f xs))"
  by (simp_all add: fun_eq_iff)

lemma chunk_header_run:
  "do { ra \<leftarrow> put_byte (ucast (chunk_bits n)) ra;
        ra \<leftarrow> put_byte (ucast (drop_bit 8 (chunk_bits n))) ra;
        ra \<leftarrow> put_byte (ucast (drop_bit 16 (chunk_bits n))) ra;
        if chunk_nibbles n = 2 then put_byte (ucast (drop_bit 24 (chunk_bits n))) ra else Some ra } =
   foldM put_byte (chunk_header n) ra"
  by (simp add: chunk_header_def le_bytes_def upt_rec foldM_eta)

lemma uncompressed_chunks_step:
  assumes "0 < n" and "m = min n (2 ^ 24)"
  shows "uncompressed_chunks inp off n ra = do {
     ra \<leftarrow> foldM put_byte (chunk_header m) ra;
     a \<leftarrow> arr_copy (snd ra) (fst ra) inp off m;
     uncompressed_chunks inp (off + m) (n - m) (fst ra + m, a) }"
proof -
  have m: "(if n > 2 ^ 24 then 2 ^ 24 else n) = m" by (simp add: assms(2))
  show ?thesis unfolding chunk_header_run [symmetric]
    using assms(1) by (subst uncompressed_chunks.simps) (simp only: m Let_def if_True bind_assoc simp_thms)
qed

lemma uncompressed_chunks_spec:
  assumes "off + n \<le> length inp" and "r + length (chunk_stream (take n (drop off inp))) \<le> length a"
  shows "\<exists>a'. uncompressed_chunks inp off n (r, a) = Some (r + length (chunk_stream (take n (drop off inp))), a') \<and>
    take (r + length (chunk_stream (take n (drop off inp)))) a' = take r a @ chunk_stream (take n (drop off inp)) \<and>
    length a' = length a"
  using assms
proof (induction n arbitrary: off r a rule: less_induct)
  case (less n)
  define xs where "xs = take n (drop off inp)"
  have lx: "length xs = n" using less.prems(1) by (simp add: xs_def)
  show ?case
  proof (cases "n = 0")
    case True
    then show ?thesis using lx by (simp add: uncompressed_chunks.simps chunk_stream.simps)
  next
    case False
    define m where "m = min n (2 ^ 24)"
    have m: "0 < m" "m \<le> n" using False by (simp_all add: m_def)
    define h where "h = chunk_header m"
    have "xs \<noteq> []" using lx False by auto
    then have cs: "chunk_stream xs = h @ take m xs @ chunk_stream (drop m xs)"
      by (subst chunk_stream.simps) (simp add: lx m_def h_def Let_def)
    have tx: "take m xs = take m (drop off inp)" using m by (simp add: xs_def)
    have dx: "drop m xs = take (n - m) (drop (off + m) inp)" by (simp add: xs_def drop_take add.commute)
    have lt: "length (take m xs) = m" using m lx by simp
    have fit: "r + length h + m + length (chunk_stream (drop m xs)) \<le> length a"
      using less.prems(2) unfolding xs_def [symmetric] cs using lt by simp
    obtain a1 where a1: "foldM put_byte h (r, a) = Some (r + length h, a1)"
      "take (r + length h) a1 = take r a @ h" "length a1 = length a"
      using put_bytes_spec [of r h a] fit by auto
    define a2 where "a2 = take (r + length h) a1 @ take m xs @ drop (r + length h + m) a1"
    have a2: "arr_copy a1 (r + length h) inp off m = Some a2" "length a2 = length a"
      "take (r + length h + m) a2 = take r a @ h @ take m xs"
      using fit less.prems(1) m a1(2,3) lt by (simp_all add: arr_copy_def a2_def tx)
    obtain a3 where a3: "uncompressed_chunks inp (off + m) (n - m) (r + length h + m, a2) =
        Some (r + length h + m + length (chunk_stream (drop m xs)), a3)"
      "take (r + length h + m + length (chunk_stream (drop m xs))) a3 = take (r + length h + m) a2 @ chunk_stream (drop m xs)"
      "length a3 = length a2"
      using less.IH [of "n - m" "off + m" "r + length h + m" a2] m less.prems(1) fit a2(2) unfolding dx by auto
    have "uncompressed_chunks inp off n (r, a) =
        Some (r + length h + m + length (chunk_stream (drop m xs)), a3)"
      using False a1(1) a2(1) a3(1)
      by (simp add: uncompressed_chunks_step [OF _ m_def] flip: h_def)
    moreover have "r + length h + m + length (chunk_stream (drop m xs)) = r + length (chunk_stream xs)"
      using lt by (simp add: cs)
    ultimately show ?thesis using a3(2,3) a2(2,3) unfolding xs_def [symmetric]
      by (intro exI [of _ a3]) (simp add: cs add.assoc)
  qed
qed

lemma MakeUncompressedStream_spec:
  assumes "length (uncompressed_stream inp) \<le> length outp"
  shows "\<exists>a. MakeUncompressedStream inp (length inp) outp = Some (length (uncompressed_stream inp), a) \<and>
    take (length (uncompressed_stream inp)) a = uncompressed_stream inp"
proof (cases "inp = []")
  case True
  then have "outp \<noteq> []" using assms by (auto simp: uncompressed_stream_def)
  then show ?thesis using True
    by (cases outp) (simp_all add: MakeUncompressedStream_def uncompressed_stream_def arr_set_def)
next
  case False
  have us: "uncompressed_stream inp = [0x21, 0x03] @ chunk_stream inp @ [3]"
    using False by (simp add: uncompressed_stream_def)
  have l: "2 + length (chunk_stream inp) + 1 \<le> length outp" using assms us by simp
  obtain a1 where a1: "foldM put_byte [0x21, 0x03] (0, outp) = Some (2, a1)" "take 2 a1 = [0x21, 0x03]"
    "length a1 = length outp"
    using put_bytes_spec [of 0 "[0x21, 0x03]" outp] l by (auto simp: numeral_2_eq_2)
  obtain a2 where a2: "uncompressed_chunks inp 0 (length inp) (2, a1) = Some (2 + length (chunk_stream inp), a2)"
    "take (2 + length (chunk_stream inp)) a2 = take 2 a1 @ chunk_stream inp" "length a2 = length a1"
    using uncompressed_chunks_spec [of 0 "length inp" inp 2 a1] l a1(3) by auto
  have "2 + length (chunk_stream inp) < length a2" using a1(3) a2(3) l by simp
  note p = put_byte_spec [OF this, of 3]
  have run: "MakeUncompressedStream inp (length inp) outp =
      do { ra \<leftarrow> foldM put_byte [0x21, 0x03] (0, outp);
           ra \<leftarrow> uncompressed_chunks inp 0 (length inp) ra;
           put_byte 3 ra }"
    using False by (simp add: MakeUncompressedStream_def foldM_eta)
  have "MakeUncompressedStream inp (length inp) outp =
      Some (2 + length (chunk_stream inp) + 1, a2[2 + length (chunk_stream inp) := 3])"
    unfolding run a1(1) bind.bind_lunit a2(1) p(1) ..
  then show ?thesis using a1(2) a2(2) p(2) us by simp
qed

section \<open>The size of the stream\<close>

lemma length_chunk_header: "length (chunk_header n) = (if chunk_nibbles n = 2 then 4 else 3)"
  by (simp add: chunk_header_def)

lemma length_chunk_stream:
  "length (chunk_stream xs) \<le> length xs + 4 * (length xs div 2 ^ 14) + 3"
proof (induction xs rule: chunk_stream.induct)
  case (1 xs)
  show ?case
  proof (cases "xs = []")
    case True
    then show ?thesis by (simp add: chunk_stream.simps)
  next
    case False
    define n where "n = min (length xs) (2 ^ 24)"
    have cs: "chunk_stream xs = chunk_header n @ take n xs @ chunk_stream (drop n xs)"
      using False by (subst chunk_stream.simps) (simp add: n_def Let_def)
    have n: "n \<le> length xs" by (simp add: n_def)
    have l: "length (chunk_stream xs) = length (chunk_header n) + n + length (chunk_stream (drop n xs))"
      using n by (simp add: cs)
    show ?thesis
    proof (cases "length xs \<le> 2 ^ 24")
      case True
      then have n: "n = length xs" by (simp add: n_def)
      have "length (chunk_header n) \<le> 4 * (length xs div 2 ^ 14) + 3"
      proof (cases "chunk_nibbles n = 2")
        case True
        then have "2 ^ 20 < length xs" unfolding n by (simp add: chunk_nibbles_def split: if_splits)
        then have "2 ^ 20 div 2 ^ 14 \<le> length xs div 2 ^ 14" by (intro div_le_mono) simp
        then show ?thesis using True by (simp add: length_chunk_header)
      qed (simp add: length_chunk_header)
      moreover have "chunk_stream (drop n xs) = []" by (simp add: n chunk_stream.simps)
      ultimately show ?thesis using l n by simp
    next
      case False
      then have n: "n = 2 ^ 24" by (simp add: n_def)
      define m where "m = length xs - n"
      have m: "length xs = m + 2 ^ 24" using False n by (simp add: m_def)
      have "length (chunk_stream (drop n xs)) \<le> m + 4 * (m div 2 ^ 14) + 3"
        using 1 [OF \<open>xs \<noteq> []\<close> n_def] by (simp add: m_def)
      moreover have "length xs div 2 ^ 14 = m div 2 ^ 14 + 2 ^ 10" unfolding m by simp
      moreover have "length (chunk_header n) \<le> 4" by (simp add: length_chunk_header)
      ultimately show ?thesis using l m n by simp
    qed
  qed
qed

end
