(* ===== verification/Decode_Uncompressed_Facts.thy ===== *)
theory Decode_Uncompressed_Facts
  imports Enc_Uncompressed_Facts Stream_Properties Header_Properties
begin

text \<open>
  The decoder on a stream of uncompressed meta-blocks.  Between two meta-blocks \<open>at_block\<close> describes the
  state: the bits still to come, and the bytes decoded so far, part of them with the client and the rest
  in the ring buffer.  Each lemma runs the state machine over one piece of the stream.
\<close>

section \<open>What the header readers leave alone\<close>

definition ring_view :: "BrotliDecoderState \<Rightarrow>
    uint8 list option \<times> int \<times> int \<times> int \<times> int \<times> int \<times> uint64 \<times> uint64 \<times> bool" where
  "ring_view s = (d_ringbuffer s, d_ringbuffer_size s, d_new_ringbuffer_size s, d_ringbuffer_mask s,
     d_ringbuffer_end s, d_pos s, d_rb_roundtrips s, d_partial_pos_out s, d_should_wrap_ringbuffer s)"

definition misc_view :: "BrotliDecoderState \<Rightarrow>
    uint32 \<times> uint32 \<times> allocator \<times> bool \<times> int \<times> BrotliRunningUncompressedState" where
  "misc_view s = (d_window_bits s, d_buffer_length s, d_alloc s, d_canny_ringbuffer_allocation s,
     d_error_code s, d_substate_uncompressed s)"

lemmas views = ring_view_def misc_view_def

lemma s_read_views: "s_read s n = Some (r, s') \<Longrightarrow> ring_view s' = ring_view s \<and> misc_view s' = misc_view s"
  by (auto simp: s_read_def views bind_eq_Some_conv)

lemma mlh_digits_views:
  "mlh_digits w m e sz i s = Some (r, s') \<Longrightarrow> ring_view s' = ring_view s \<and> misc_view s' = misc_view s"
proof (induction w m e sz i s arbitrary: r s' rule: mlh_digits.induct)
  case (1 w m e sz i s)
  show ?case
  proof (cases "i < uint sz")
    case False
    then show ?thesis using 1(2) by (simp add: mlh_digits.simps)
  next
    case True
    obtain o1 s1 where r1: "s_read s (of_nat w) = Some (o1, s1)"
      using 1(2) True by (subst (asm) mlh_digits.simps) (auto simp: bind_eq_Some_conv)
    note v1 = s_read_views [OF r1]
    show ?thesis
    proof (cases o1)
      case None
      then show ?thesis using 1(2) True r1 v1 by (subst (asm) mlh_digits.simps) (auto simp: views)
    next
      case (Some bits)
      show ?thesis
      proof (cases "i + 1 = uint sz \<and> sz > m \<and> bits = 0")
        case True
        then show ?thesis using 1(2) \<open>i < uint sz\<close> r1 v1 Some by (subst (asm) mlh_digits.simps) auto
      next
        case False
        obtain d where d: "shl32 bits (of_int (i * int w)) = Some d"
          "mlh_digits w m e sz (i + 1) (s1\<lparr>d_meta_block_remaining_len := d_meta_block_remaining_len s1 OR sint d\<rparr>) = Some (r, s')"
          using 1(2) \<open>i < uint sz\<close> r1 Some False
          by (subst (asm) mlh_digits.simps) (auto simp: bind_eq_Some_conv split: if_splits)
        from 1(1) [OF True r1 refl Some False d] v1 show ?thesis by (simp add: views)
      qed
    qed
  qed
qed

text \<open>Result equations as disjunctions, for following a function's branches.\<close>

lemma case_eq_Some_conv:
  "(case y of None \<Rightarrow> a | Some x \<Rightarrow> f x) = Some z \<longleftrightarrow> y = None \<and> a = Some z \<or> (\<exists>x. y = Some x \<and> f x = Some z)"
  by (cases y) auto

lemma if_eq_Some_conv:
  "(if c then a else b) = Some z \<longleftrightarrow> c \<and> a = Some z \<or> \<not> c \<and> b = Some z"
  by simp

lemmas branch_convs = bind_eq_Some_conv case_eq_Some_conv if_eq_Some_conv

lemma DecodeMetaBlockLength_views:
  assumes "DecodeMetaBlockLength s = Some (r, s')"
  shows "ring_view s' = ring_view s \<and> misc_view s' = misc_view s"
proof -
  note b = branch_convs
  have unc: "ring_view s' = ring_view s \<and> misc_view s' = misc_view s"
    if "mlh_uncompressed s = Some (r, s')" for s r s'
    using that by (auto simp: mlh_uncompressed_def b Let_def dest!: s_read_views)
      (simp_all add: views)
  have sz: "ring_view s' = ring_view s \<and> misc_view s' = misc_view s"
    if "mlh_size s = Some (r, s')" for s r s'
    using that by (auto simp: mlh_size_def b dest!: mlh_digits_views unc) (simp_all add: views)
  have md: "ring_view s' = ring_view s \<and> misc_view s' = misc_view s"
    if "mlh_metadata s = Some (r, s')" for s r s'
    using that by (auto simp: mlh_metadata_def b dest!: mlh_digits_views) (simp_all add: views)
  have bt: "ring_view s' = ring_view s \<and> misc_view s' = misc_view s"
    if "mlh_bytes s = Some (r, s')" for s r s'
    using that by (auto simp: mlh_bytes_def b dest!: s_read_views md) (simp_all add: views)
  have rs: "ring_view s' = ring_view s \<and> misc_view s' = misc_view s"
    if "mlh_reserved s = Some (r, s')" for s r s'
    using that by (auto simp: mlh_reserved_def b dest!: s_read_views bt) (simp_all add: views)
  have nb: "ring_view s' = ring_view s \<and> misc_view s' = misc_view s"
    if "mlh_nibbles s = Some (r, s')" for s r s'
    using that by (auto simp: mlh_nibbles_def b Let_def dest!: s_read_views rs sz)
      (simp_all add: views)
  have em: "ring_view s' = ring_view s \<and> misc_view s' = misc_view s"
    if "mlh_empty s = Some (r, s')" for s r s'
    using that by (auto simp: mlh_empty_def b dest!: s_read_views nb) (simp_all add: views)
  have no: "ring_view s' = ring_view s \<and> misc_view s' = misc_view s"
    if "mlh_none s = Some (r, s')" for s r s'
    using that by (auto simp: mlh_none_def b Let_def dest!: s_read_views nb em)
      (simp_all add: views)
  show ?thesis using assms unc sz md bt rs nb em no
    by (simp add: DecodeMetaBlockLength_def split: BrotliRunningMetablockHeaderState.splits)
qed

section \<open>The decoded bytes\<close>

text \<open>
  The stream has the smallest window, so the ring buffer has 1024 bytes.  \<open>bs\<close> are whole turns of the
  buffer, already with the client, who has room for \<open>cap\<close> bytes in all.
\<close>

definition ring_started :: "BrotliDecoderState \<Rightarrow> output_io \<Rightarrow> nat \<Rightarrow> uint8 list \<Rightarrow> bool" where
  "ring_started s out cap dec \<longleftrightarrow>
     (\<exists>bs rb. next_out out = Out_Bytes bs \<and> total_out out = Some (d_partial_pos_out s) \<and>
       available_out out + length bs = cap \<and> ring_ok s 1024 rb 0 \<and> \<not> d_should_wrap_ringbuffer s \<and>
       d_new_ringbuffer_size s = 1024 \<and> d_pos s < 1024 \<and> length bs = unat (d_rb_roundtrips s) * 1024 \<and>
       bs @ take (nat (d_pos s)) rb = dec)"

definition out_fresh :: "output_io \<Rightarrow> nat \<Rightarrow> bool" where
  "out_fresh out cap \<longleftrightarrow> next_out out = Out_Bytes [] \<and> total_out out = Some 0 \<and> available_out out = cap"

definition ring_fresh :: "BrotliDecoderState \<Rightarrow> bool" where
  "ring_fresh s \<longleftrightarrow>
     d_ringbuffer s = None \<and> d_ringbuffer_size s = 0 \<and> d_pos s = 0 \<and> d_rb_roundtrips s = 0 \<and>
     d_partial_pos_out s = 0 \<and> \<not> d_should_wrap_ringbuffer s"

definition holds :: "BrotliDecoderState \<Rightarrow> output_io \<Rightarrow> nat \<Rightarrow> uint8 list \<Rightarrow> bool" where
  "holds s out cap dec \<longleftrightarrow> ring_started s out cap dec \<or> ring_fresh s \<and> out_fresh out cap \<and> dec = []"

lemma ring_started_view: "ring_view s' = ring_view s \<Longrightarrow> ring_started s out cap dec \<Longrightarrow> ring_started s' out cap dec"
  by (simp add: ring_started_def ring_ok_def ring_view_def)

lemma ring_fresh_view: "ring_view s' = ring_view s \<Longrightarrow> ring_fresh s \<Longrightarrow> ring_fresh s'"
  by (simp add: ring_fresh_def ring_view_def)

lemma holds_view: "ring_view s' = ring_view s \<Longrightarrow> holds s out cap dec \<Longrightarrow> holds s' out cap dec"
  using ring_started_view ring_fresh_view by (auto simp: holds_def)

section \<open>Copying a meta-block\<close>

lemma bytes_bits_inj: "bytes_bits xs = bytes_bits ys \<Longrightarrow> xs = ys"
proof (induction xs arbitrary: ys)
  case Nil
  then have "length (bytes_bits ys) = 0" by simp
  then show ?case by simp
next
  case (Cons x xs)
  then obtain y ys' where ys: "ys = y # ys'" by (cases ys) (auto dest: arg_cong [of _ _ length])
  then have "byte_bits x = byte_bits y" "bytes_bits xs = bytes_bits ys'" using Cons.prems by simp_all
  then show ?case using Cons.IH byte_bits_inj ys by auto
qed

definition kept :: "BrotliDecoderState \<Rightarrow>
    uint32 \<times> uint32 \<times> allocator \<times> bool \<times> int \<times> int \<times> bool \<times> BrotliRunningMetablockHeaderState" where
  "kept s = (d_window_bits s, d_buffer_length s, d_alloc s, d_canny_ringbuffer_allocation s,
     d_error_code s, d_new_ringbuffer_size s, d_is_last_metablock s, d_substate_metablock_header s)"

lemma remaining_bytes:
  assumes "br_ok br" and "br_bits br = bytes_bits (xs @ rest)" and "length xs \<le> 2 ^ 24"
  shows "(64 - unat (br_bit_pos br)) mod 8 = 0"
    and "length xs \<le> (64 - unat (br_bit_pos br)) div 8 + avail_in br"
    and "length xs \<le> BrotliGetRemainingBytes br"
proof -
  define k where "k = 64 - unat (br_bit_pos br)"
  have l: "8 * (length xs + length rest) = k + 8 * avail_in br"
    using length_br_bits [OF assms(1)] assms(2) by (simp add: k_def)
  then show m: "k mod 8 = 0" by presburger
  then have e: "length xs + length rest = k div 8 + avail_in br" using l by presburger
  then show b: "length xs \<le> k div 8 + avail_in br" by linarith
  have "unat (drop_bit 3 (BrotliGetAvailableBits br)) = k div 8"
    by (simp add: unat_drop_3 unat_avail_bits [OF assms(1)] k_def)
  then show "length xs \<le> BrotliGetRemainingBytes br"
    using b assms(3) by (simp add: BrotliGetRemainingBytes_def BROTLI_LARGE_MAX_WBITS_cap_def)
qed

lemma cub_copy_run:
  assumes rb: "d_ringbuffer s = Some rb" "length rb = 1066" and sz: "d_ringbuffer_size s = 1024"
    and p: "d_pos s = int p" "p < 1024" and w: "d_window_bits s = 10"
    and rem: "d_meta_block_remaining_len s = int (length xs)"
    and br: "s_ok s" "s_bits s = bytes_bits (xs @ rest)" and xs: "length xs \<le> 2 ^ 24"
  defines "n \<equiv> min (length xs) (1024 - p)"
  defines "s1 \<equiv> \<lambda>br. s\<lparr>d_ringbuffer := Some (take p rb @ take n xs @ drop (p + n) rb), d_br := br,
    d_pos := int (p + n), d_meta_block_remaining_len := int (length xs - n)\<rparr>"
  shows "\<exists>br. br_ok br \<and> br_bits br = bytes_bits (drop n xs @ rest) \<and>
    cub_copy s = Some (if p + n < 1024 then (Some BROTLI_DECODER_SUCCESS, s1 br)
      else (None, (s1 br)\<lparr>d_substate_uncompressed := BROTLI_STATE_UNCOMPRESSED_WRITE\<rparr>))"
proof -
  note r = remaining_bytes [OF br xs]
  have n: "n \<le> length xs" "p + n \<le> 1024" using p(2) by (simp_all add: n_def)
  have "n \<le> (64 - unat (br_bit_pos (d_br s))) div 8 + avail_in (d_br s)" "p + n \<le> length rb"
    using n r(2) rb(2) by linarith+
  from BrotliCopyBytes_spec [OF br(1) r(1) this] obtain ys br' where c:
    "BrotliCopyBytes rb p (d_br s) n = Some (take p rb @ ys @ drop (p + n) rb, br')" "length ys = n"
    "bytes_bits ys = take (8 * n) (s_bits s)" "br_ok br'" "br_bits br' = drop (8 * n) (s_bits s)" by blast
  have "bytes_bits ys = bytes_bits (take n xs)"
    using c(3) n(1) by (simp only: br(2) take_bytes_bits) simp
  then have ys: "ys = take n xs" by (rule bytes_bits_inj)
  have bits: "br_bits br' = bytes_bits (drop n xs @ rest)"
    using c(5) n(1) by (simp only: br(2) drop_bytes_bits) simp
  have nb: "(if int (BrotliGetRemainingBytes (d_br s)) > int (length xs) then int (length xs)
      else int (BrotliGetRemainingBytes (d_br s))) = int (length xs)" using r(3) by simp
  have nb2: "(if int p + int (length xs) > 1024 then 1024 - int p else int (length xs)) = int n"
    using p(2) by (simp add: n_def)

  have z: "length xs - n = 0" if "p + n < 1024" using that by (simp add: n_def)
  show ?thesis
    unfolding cub_copy_def Let_def rem nb p(1) sz nb2 rb(1) bind.bind_lunit
    using c(1,4) bits ys n z w
    by (intro exI [of _ br']) (auto simp: s1_def of_nat_diff window_size_def)
qed

text \<open>A turn of the buffer that ends at its end goes to the client, and the buffer starts anew.\<close>

lemma write_full_turn:
  fixes out :: output_io
  assumes ok: "ring_ok s 1024 rb 0" and p: "d_pos s = 1024" and w: "d_window_bits s = 10"
    and m: "0 \<le> d_meta_block_remaining_len s" and o: "next_out out = Out_Bytes bs"
    and av: "1024 \<le> available_out out"
  shows "WriteRingBuffer s out False = Some (BROTLI_DECODER_SUCCESS,
    s\<lparr>d_partial_pos_out := d_partial_pos_out s + 1024, d_pos := 0, d_rb_roundtrips := d_rb_roundtrips s + 1,
      d_should_wrap_ringbuffer := False\<rparr>,
    out\<lparr>available_out := available_out out - 1024, next_out := Out_Bytes (bs @ take 1024 rb),
        total_out := map_option (\<lambda>_. d_partial_pos_out s + 1024) (total_out out)\<rparr>)"
proof -
  have n: "min (available_out out) (min (nat (d_pos s)) 1024 - 0) = 1024" using p av by simp
  have wr: "ring_wraps s 1024 0 1024" using p w by (simp add: ring_wraps_def)
  have "d_window_bits s < 31" using w by simp
  from WriteRingBuffer_bytes [OF ok m this o, of False] show ?thesis
    unfolding n using wr p by simp
qed

lemma ring_ok_turn:
  assumes ok: "ring_ok s 1024 rb 0" and r: "(unat (d_rb_roundtrips s) + 3) * 1024 < 2 ^ 64"
    and p: "d_pos s = 1024"
  shows "ring_ok (s\<lparr>d_partial_pos_out := d_partial_pos_out s + 1024, d_pos := 0,
    d_rb_roundtrips := d_rb_roundtrips s + 1, d_should_wrap_ringbuffer := False\<rparr>) 1024 rb 0"
proof -
  have "unat (d_rb_roundtrips s + 1) = unat (d_rb_roundtrips s) + 1" by (rule roundtrips_step [OF ok])
  moreover have "unat (d_partial_pos_out s + 1024) = unat (d_rb_roundtrips s) * 1024 + 1024"
    using ring_partial_pos [OF ok, of 1024] by simp
  ultimately show ?thesis using ok r by (simp add: ring_ok_def)
qed

lemma cub_loop_run:
  assumes "ring_started s out cap dec" and "d_window_bits s = 10"
    and "d_substate_uncompressed s = BROTLI_STATE_UNCOMPRESSED_NONE"
    and "d_meta_block_remaining_len s = int (length xs)"
    and "s_ok s" and "s_bits s = bytes_bits (xs @ rest)" and "length xs \<le> 2 ^ 24"
    and "length dec + length xs \<le> cap" and "length dec + length xs < 2 ^ 62"
  shows "\<exists>s' out'. cub_loop s out = Some (BROTLI_DECODER_SUCCESS, s', out') \<and>
    ring_started s' out' cap (dec @ xs) \<and> s_ok s' \<and> s_bits s' = bytes_bits rest \<and>
    d_meta_block_remaining_len s' = 0 \<and> d_substate_uncompressed s' = BROTLI_STATE_UNCOMPRESSED_NONE \<and>
    kept s' = kept s"
  using assms
proof (induction "length xs" arbitrary: s out dec xs rule: less_induct)
  case less
  obtain bs rb where st: "next_out out = Out_Bytes bs" "total_out out = Some (d_partial_pos_out s)"
    "available_out out + length bs = cap" "ring_ok s 1024 rb 0" "\<not> d_should_wrap_ringbuffer s"
    "d_new_ringbuffer_size s = 1024" "d_pos s < 1024" "length bs = unat (d_rb_roundtrips s) * 1024"
    "bs @ take (nat (d_pos s)) rb = dec"
    using less.prems(1) by (auto simp: ring_started_def)
  note k = ring_okD [OF st(4)]
  define p where "p = nat (d_pos s)"
  have p: "d_pos s = int p" "p < 1024" using k(8) st(7) by (simp_all add: p_def)
  define n where "n = min (length xs) (1024 - p)"
  define rb' where "rb' = take p rb @ take n xs @ drop (p + n) rb"
  define s1 where "s1 = (\<lambda>br. s\<lparr>d_ringbuffer := Some rb', d_br := br,
    d_pos := int (p + n), d_meta_block_remaining_len := int (length xs - n)\<rparr>)"
  have lrb: "length rb = 1066" "d_ringbuffer_size s = 1024" using k(2,5) by simp_all
  obtain br where br: "br_ok br" "br_bits br = bytes_bits (drop n xs @ rest)"
    "cub_copy s = Some (if p + n < 1024 then (Some BROTLI_DECODER_SUCCESS, s1 br)
      else (None, (s1 br)\<lparr>d_substate_uncompressed := BROTLI_STATE_UNCOMPRESSED_WRITE\<rparr>))"
    using cub_copy_run [OF k(1) lrb p less.prems(2,4-7)] unfolding n_def s1_def rb'_def by blast
  have n: "n \<le> length xs" "p + n \<le> 1024" using p(2) by (simp_all add: n_def)
  have rb': "length rb' = 1066" "take (p + n) rb' = take p rb @ take n xs" using n lrb(1) p(2) by (simp_all add: rb'_def)
  have dec: "dec @ take n xs = bs @ take (p + n) rb'" using st(9) rb'(2) by (simp add: p_def)
  have ok1: "ring_ok (s1 br) 1024 rb' 0" using st(4) n(2) rb'(1) by (simp add: ring_ok_def s1_def)
  show ?case
  proof (cases "p + n < 1024")
    case True
    then have n2: "n = length xs" by (simp add: n_def)
    have run: "cub_loop s out = Some (BROTLI_DECODER_SUCCESS, s1 br, out)"
      using less.prems(3) br(3) True by (subst cub_loop.simps) simp
    have "ring_started (s1 br) out cap (dec @ xs)" unfolding ring_started_def
      using st ok1 True dec n2 by (intro exI [of _ bs] exI [of _ rb']) (simp add: s1_def nat_int_add)
    then show ?thesis using run br(1,2) n2 less.prems(3)
      by (intro exI [of _ "s1 br"] exI [of _ out]) (simp add: s1_def kept_def)
  next
    case False
    then have pn: "p + n = 1024" using n(2) by simp
    define s2 where "s2 = (s1 br)\<lparr>d_substate_uncompressed := BROTLI_STATE_UNCOMPRESSED_WRITE\<rparr>"
    have ok2: "ring_ok s2 1024 rb' 0" using ok1 by (simp add: ring_ok_def s2_def)
    have ld: "length (dec @ take n xs) = length bs + 1024" using rb'(1) pn unfolding dec by simp
    then have room: "length bs + 1024 \<le> cap" "length bs + 1024 < 2 ^ 62"
      using less.prems(8,9) n(1) by simp_all
    have f2: "d_pos s2 = 1024" "d_window_bits s2 = 10" "0 \<le> d_meta_block_remaining_len s2"
      "d_rb_roundtrips s2 = d_rb_roundtrips s" "d_partial_pos_out s2 = d_partial_pos_out s"
      using pn less.prems(2) by (simp_all add: s2_def s1_def flip: of_nat_add)
    have av: "1024 \<le> available_out out" using st(3) room(1) by linarith
    define s3 where "s3 = s2\<lparr>d_partial_pos_out := d_partial_pos_out s + 1024, d_pos := 0,
      d_rb_roundtrips := d_rb_roundtrips s + 1, d_should_wrap_ringbuffer := False\<rparr>"
    define out3 where "out3 = out\<lparr>available_out := available_out out - 1024,
      next_out := Out_Bytes (bs @ take 1024 rb'), total_out := Some (d_partial_pos_out s + 1024)\<rparr>"
    have wr: "WriteRingBuffer s2 out False = Some (BROTLI_DECODER_SUCCESS, s3, out3)"
      using write_full_turn [OF ok2 f2(1-3) st(1) av] st(2) f2(4,5) by (simp add: s3_def out3_def)
    have "(unat (d_rb_roundtrips s2) + 3) * 1024 < 2 ^ 64" using st(8) room(2) f2(4) by simp
    from ring_ok_turn [OF ok2 this f2(1)] have ok3: "ring_ok s3 1024 rb' 0" by (simp add: s3_def f2)
    define s4 where "s4 = s3\<lparr>d_max_distance := d_max_backward_distance s3,
      d_substate_uncompressed := BROTLI_STATE_UNCOMPRESSED_NONE\<rparr>"
    have ws: "window_size s3 = Some 1024" "d_ringbuffer_size s3 = 1024"
      using less.prems(2) lrb(2) by (simp_all add: window_size_def s3_def s2_def s1_def)
    have run: "cub_loop s out = cub_loop s4 out3"
      using less.prems(3) br(3) False wr ws by (subst cub_loop.simps) (simp add: s2_def s4_def)
    have ok4: "ring_ok s4 1024 rb' 0" using ok3 by (simp add: ring_ok_def s4_def)
    have rr: "unat (d_rb_roundtrips s + 1) = unat (d_rb_roundtrips s) + 1"
      using roundtrips_step [OF ok2] f2(4) by simp
    have started: "ring_started s4 out3 cap (dec @ take n xs)" unfolding ring_started_def
      using ok4 st(3,6,8) dec pn room(1) rr rb'(1)
      by (intro exI [of _ "bs @ take 1024 rb'"] exI [of _ rb'])
        (simp add: s4_def s3_def s2_def s1_def out3_def)
    have "0 < n" using p(2) pn by simp
    then have lt: "length (drop n xs) < length xs" using n(1) by simp
    have f4: "d_window_bits s4 = 10" "d_substate_uncompressed s4 = BROTLI_STATE_UNCOMPRESSED_NONE"
      "d_meta_block_remaining_len s4 = int (length (drop n xs))" "s_ok s4"
      "s_bits s4 = bytes_bits (drop n xs @ rest)" "length (drop n xs) \<le> 2 ^ 24"
      "length (dec @ take n xs) + length (drop n xs) \<le> cap"
      "length (dec @ take n xs) + length (drop n xs) < 2 ^ 62" "kept s4 = kept s"
      using less.prems(2,7-9) br(1,2) n(1) by (simp_all add: s4_def s3_def s2_def s1_def kept_def)
    from less.hyps [OF lt started f4(1-8)] f4(9) show ?thesis unfolding run by simp
  qed
qed

text \<open>The buffer is there, or is made now.\<close>

lemma BrotliEnsureRingBuffer_run:
  assumes h: "holds s out cap dec" and new: "d_new_ringbuffer_size s = 1024" and al: "\<And>k m. d_alloc s k m \<noteq> None"
  shows "\<exists>s'. BrotliEnsureRingBuffer s = Some (True, s') \<and> ring_started s' out cap dec \<and> d_br s' = d_br s \<and>
    d_meta_block_remaining_len s' = d_meta_block_remaining_len s \<and>
    d_substate_uncompressed s' = d_substate_uncompressed s \<and> kept s' = kept s"
  using h unfolding holds_def
proof
  assume st: "ring_started s out cap dec"
  then have "d_ringbuffer_size s = 1024" by (auto simp: ring_started_def ring_ok_def)
  then show ?thesis using st new by (simp add: BrotliEnsureRingBuffer_def)
next
  assume "ring_fresh s \<and> out_fresh out cap \<and> dec = []"
  then have f: "next_out out = Out_Bytes []" "total_out out = Some 0" "available_out out = cap"
    "d_ringbuffer s = None" "d_ringbuffer_size s = 0" "d_pos s = 0" "d_rb_roundtrips s = 0"
    "d_partial_pos_out s = 0" "\<not> d_should_wrap_ringbuffer s" "dec = []"
    by (simp_all add: ring_fresh_def out_fresh_def)
  obtain c where c: "d_alloc s (d_alloc_calls s) 1066 = Some c" using al by fastforce
  define rb where "rb = (map c [0..<1066])[1022 := 0, 1023 := 0]"
  have rb: "length rb = 1066" by (simp add: rb_def del: upt_rec_numeral)
  define s' where "s' = s\<lparr>d_alloc_calls := d_alloc_calls s + 1, d_ringbuffer := Some rb, d_ringbuffer_size := 1024,
    d_ringbuffer_mask := 1023, d_ringbuffer_end := 1024\<rparr>"
  have "BrotliEnsureRingBuffer s = Some (True, s')"
    using f c new by (simp add: BrotliEnsureRingBuffer_def BROTLI_DECODER_ALLOC_def arr_seti_def rb_def s'_def
        del: upt_rec_numeral)
  moreover have "ring_ok s' 1024 rb 0"
    using f rb by (simp add: ring_ok_def s'_def) (rule exI [of _ 10], simp)
  then have "ring_started s' out cap dec"
    using f new unfolding ring_started_def by (intro exI [of _ "[]"] exI [of _ rb]) (simp add: s'_def)
  ultimately show ?thesis by (intro exI [of _ s']) (simp add: s'_def kept_def)
qed

end
