(* ===== verification/Stream_Roundtrip.thy ===== *)
theory Stream_Roundtrip
  imports Decode_Uncompressed_Facts
begin

text \<open>
  The decoder run over a whole stream of uncompressed meta-blocks, round by round of the loop of
  \<open>BrotliDecoderDecompressStream\<close>, and the theorem that it restores the input of the encoder.
\<close>

section \<open>Between two meta-blocks\<close>

definition plain :: "BrotliDecoderState \<Rightarrow> bool" where
  "plain s \<longleftrightarrow> d_window_bits s = 10 \<and> d_buffer_length s = 0 \<and> d_canny_ringbuffer_allocation s \<and>
     (\<forall>k m. d_alloc s k m \<noteq> None) \<and> d_substate_uncompressed s = BROTLI_STATE_UNCOMPRESSED_NONE"

lemma plain_view: "misc_view s' = misc_view s \<Longrightarrow> plain s \<Longrightarrow> plain s'"
  by (simp add: plain_def misc_view_def)

definition at_block :: "BrotliDecoderState \<Rightarrow> output_io \<Rightarrow> nat \<Rightarrow> uint8 list \<Rightarrow> bits \<Rightarrow> bool" where
  "at_block s out cap dec bs \<longleftrightarrow> d_state s = BROTLI_STATE_METABLOCK_BEGIN \<and> plain s \<and> s_ok s \<and> s_bits s = bs \<and>
     d_substate_metablock_header s = BROTLI_STATE_METABLOCK_HEADER_NONE \<and> holds s out cap dec"

section \<open>The header of a meta-block\<close>

lemma header_run:
  assumes "s_ok s" and "d_substate_metablock_header s = BROTLI_STATE_METABLOCK_HEADER_NONE"
    and "mlh_parse (s_bits s) = Mlh_Header lst unc meta len rest"
  shows "\<exists>s'. DecodeMetaBlockLength s = Some (BROTLI_DECODER_SUCCESS, s') \<and> s_ok s' \<and> s_bits s' = rest \<and>
    d_is_last_metablock s' = lst \<and> d_is_uncompressed s' = unc \<and> d_is_metadata s' = meta \<and>
    d_meta_block_remaining_len s' = int len \<and>
    d_substate_metablock_header s' = BROTLI_STATE_METABLOCK_HEADER_NONE \<and>
    ring_view s' = ring_view s \<and> misc_view s' = misc_view s"
proof -
  have "mlh_ok s" "mlh_pending s = []" using assms(1,2) by (simp_all add: mlh_ok_def mlh_pending_def)
  then show ?thesis using DecodeMetaBlockLength_result [of s] assms(3) DecodeMetaBlockLength_views [of s]
    by (auto simp: mlh_result_def)
qed

lemma jump_run:
  assumes "br_ok br" and "br_bits br = replicate k False @ bytes_bits bs" and "k < 8"
  shows "\<exists>br'. BrotliJumpToByteBoundary br = Some (True, br') \<and> br_ok br' \<and> br_bits br' = bytes_bits bs"
proof -
  define pad where "pad = (64 - unat (br_bit_pos br)) mod 8"
  have l: "k + 8 * length bs = (64 - unat (br_bit_pos br)) + 8 * avail_in br"
    using length_br_bits [OF assms(1)] assms(2) by simp
  then have "(k + 8 * length bs) mod 8 = pad" by (simp add: pad_def)
  then have k: "pad = k" using assms(3) by simp
  have "bits_val (replicate k False) = 0" using bits_val_val_bits [of k 0] by (simp add: val_bits_zero)
  then show ?thesis using BrotliJumpToByteBoundary_spec [OF assms(1)] assms(2) k by (auto simp: pad_def)
qed

lemma ring_size_run:
  assumes h: "holds s out cap dec" and p: "plain s" and m: "\<not> d_is_metadata s"
  shows "BrotliCalculateRingBufferSize s = Some (s\<lparr>d_new_ringbuffer_size := 1024\<rparr>)"
proof -
  have ws: "window_size s = Some 1024" using p by (simp add: plain_def window_size_def)
  have hw: "halve_while 1024 k = Some 1024" if "1024 \<le> k" for k
    using that by (simp add: halve_while.simps)
  show ?thesis using h unfolding holds_def
  proof
    assume st: "ring_started s out cap dec"
    then have "d_ringbuffer_size s = 1024" "d_new_ringbuffer_size s = 1024" by (auto simp: ring_started_def ring_ok_def)
    moreover from this have "s\<lparr>d_new_ringbuffer_size := 1024\<rparr> = s" by simp
    ultimately show ?thesis using ws by (simp add: BrotliCalculateRingBufferSize_def)
  next
    assume "ring_fresh s \<and> out_fresh out cap \<and> dec = []"
    then show ?thesis using ws m p hw
      by (simp add: BrotliCalculateRingBufferSize_def ring_fresh_def plain_def Let_def)
  qed
qed

lemma holds_new_size: "holds s out cap dec \<Longrightarrow> holds (s\<lparr>d_new_ringbuffer_size := 1024\<rparr>) out cap dec"
  by (auto simp: holds_def ring_started_def ring_fresh_def ring_ok_def)

lemma stream_loop_break:
  assumes "stream_switch s out inp = Some (Break r s', out', inp')"
  shows "stream_loop BROTLI_DECODER_SUCCESS s out inp = stream_loop r s' out' inp'"
  using assms by (subst stream_loop.simps) (simp add: stream_round_def)

lemma stream_loop_return:
  assumes "stream_switch s out inp = Some (Return r s', out', inp')"
  shows "stream_loop BROTLI_DECODER_SUCCESS s out inp = Some (r, s', out', inp')"
  using assms by (subst stream_loop.simps) (simp add: stream_round_def)

section \<open>An uncompressed meta-block\<close>

lemma begin_views:
  "ring_view (BrotliDecoderStateMetablockBegin s) = ring_view s"
  "misc_view (BrotliDecoderStateMetablockBegin s) = misc_view s"
  "d_br (BrotliDecoderStateMetablockBegin s) = d_br s"
  "d_substate_metablock_header (BrotliDecoderStateMetablockBegin s) = d_substate_metablock_header s"
  by (simp_all add: BrotliDecoderStateMetablockBegin_def views)

lemma uncompressed_header_run:
  assumes a: "at_block s out cap dec (uncompressed_header_code len @ replicate k False @ bytes_bits bs)"
    and len: "0 < len" "len \<le> 2 ^ 24" and k: "k < 8"
  shows "\<exists>s'. stream_switch s out inp = Some (Break BROTLI_DECODER_SUCCESS s', out, inp) \<and>
    d_state s' = BROTLI_STATE_UNCOMPRESSED \<and> plain s' \<and> s_ok s' \<and> s_bits s' = bytes_bits bs \<and>
    d_meta_block_remaining_len s' = int len \<and> \<not> d_is_last_metablock s' \<and>
    d_substate_metablock_header s' = BROTLI_STATE_METABLOCK_HEADER_NONE \<and>
    d_new_ringbuffer_size s' = 1024 \<and> holds s' out cap dec"
proof -
  define s0 where "s0 = (BrotliDecoderStateMetablockBegin s)\<lparr>d_state := BROTLI_STATE_METABLOCK_HEADER\<rparr>"
  have v0: "ring_view s0 = ring_view s" "misc_view s0 = misc_view s"
    using begin_views by (simp_all add: s0_def views)
  have f0: "s_ok s0" "d_substate_metablock_header s0 = BROTLI_STATE_METABLOCK_HEADER_NONE"
    "mlh_parse (s_bits s0) = Mlh_Header False True False len (replicate k False @ bytes_bits bs)"
    using a parse_stored_header [OF len] by (simp_all add: s0_def begin_views at_block_def)
  obtain s1 where s1: "DecodeMetaBlockLength s0 = Some (BROTLI_DECODER_SUCCESS, s1)" "s_ok s1"
    "s_bits s1 = replicate k False @ bytes_bits bs" "\<not> d_is_last_metablock s1" "d_is_uncompressed s1"
    "\<not> d_is_metadata s1" "d_meta_block_remaining_len s1 = int len"
    "d_substate_metablock_header s1 = BROTLI_STATE_METABLOCK_HEADER_NONE"
    "ring_view s1 = ring_view s0" "misc_view s1 = misc_view s0"
    using header_run [OF f0] by blast
  obtain br where br: "BrotliJumpToByteBoundary (d_br s1) = Some (True, br)" "br_ok br" "br_bits br = bytes_bits bs"
    using jump_run [OF s1(2,3) k] by blast
  define s2 where "s2 = s1\<lparr>d_br := br\<rparr>"
  have v2: "ring_view s2 = ring_view s" "misc_view s2 = misc_view s" "\<not> d_is_metadata s2"
    using s1 v0 by (simp_all add: s2_def views)
  have h2: "holds s2 out cap dec" "plain s2"
    using a holds_view [OF v2(1)] plain_view [OF v2(2)] by (simp_all add: at_block_def)
  have "stream_switch s out inp = Some (Break BROTLI_DECODER_SUCCESS
      (s2\<lparr>d_new_ringbuffer_size := 1024, d_state := BROTLI_STATE_UNCOMPRESSED\<rparr>), out, inp)"
    using a s1 br(1) len(1) ring_size_run [OF h2 v2(3)]
    by (simp add: at_block_def stream_switch_def st_metablock_begin_def st_metablock_header_def s2_def flip: s0_def)
  then show ?thesis using holds_new_size [OF h2(1)] h2(2) s1 br
    by (intro exI [of _ "s2\<lparr>d_new_ringbuffer_size := 1024, d_state := BROTLI_STATE_UNCOMPRESSED\<rparr>"])
      (auto simp: s2_def plain_def elim: holds_view [rotated] simp: views)
qed

lemma uncompressed_body_run:
  assumes s: "d_state s = BROTLI_STATE_UNCOMPRESSED" "plain s" "s_ok s" "s_bits s = bytes_bits (xs @ rest)"
    "d_meta_block_remaining_len s = int (length xs)" "d_new_ringbuffer_size s = 1024" "holds s out cap dec"
    and n: "length xs \<le> 2 ^ 24" "length dec + length xs \<le> cap" "length dec + length xs < 2 ^ 62"
  shows "\<exists>s' out'. stream_switch s out inp = Some (Break BROTLI_DECODER_SUCCESS s', out', inp) \<and>
    d_state s' = BROTLI_STATE_METABLOCK_DONE \<and> plain s' \<and> s_ok s' \<and> s_bits s' = bytes_bits rest \<and>
    d_meta_block_remaining_len s' = 0 \<and> kept s' = kept s \<and> holds s' out' cap (dec @ xs)"
proof -
  have p: "d_window_bits s = 10" "d_substate_uncompressed s = BROTLI_STATE_UNCOMPRESSED_NONE"
    "\<And>k m. d_alloc s k m \<noteq> None" using s(2) by (simp_all add: plain_def)
  obtain s1 where s1: "BrotliEnsureRingBuffer s = Some (True, s1)" "ring_started s1 out cap dec" "d_br s1 = d_br s"
    "d_meta_block_remaining_len s1 = d_meta_block_remaining_len s"
    "d_substate_uncompressed s1 = d_substate_uncompressed s" "kept s1 = kept s"
    using BrotliEnsureRingBuffer_run [OF s(7,6) p(3)] by blast
  have f1: "d_window_bits s1 = 10" using s1(6) p(1) by (simp add: kept_def)
  obtain s2 out2 where s2: "cub_loop s1 out = Some (BROTLI_DECODER_SUCCESS, s2, out2)"
    "ring_started s2 out2 cap (dec @ xs)" "s_ok s2" "s_bits s2 = bytes_bits rest"
    "d_meta_block_remaining_len s2 = 0" "d_substate_uncompressed s2 = BROTLI_STATE_UNCOMPRESSED_NONE"
    "kept s2 = kept s1"
    using cub_loop_run [OF s1(2) f1 _ _ _ _ n, of rest] s1(3-5) s(3-5) p(2) by auto
  define s3 where "s3 = s2\<lparr>d_state := BROTLI_STATE_METABLOCK_DONE\<rparr>"
  have "stream_switch s out inp = Some (Break BROTLI_DECODER_SUCCESS s3, out2, inp)"
    using s(1) s1(1) s2(1)
    by (simp add: stream_switch_def st_uncompressed_def CopyUncompressedBlockToOutput_def s3_def)
  moreover have "kept s3 = kept s" using s2(7) s1(6) by (simp add: s3_def kept_def)
  moreover from this have "plain s3" using s(2) s2(6) by (simp add: plain_def kept_def s3_def)
  moreover have "holds s3 out2 cap (dec @ xs)"
    using ring_started_view [OF _ s2(2), of s3] by (simp add: holds_def s3_def ring_view_def)
  ultimately show ?thesis using s2 by (intro exI [of _ s3] exI [of _ out2]) (simp add: s3_def)
qed

lemma cleanup_views:
  "ring_view (BrotliDecoderStateCleanupAfterMetablock s) = ring_view s"
  "misc_view (BrotliDecoderStateCleanupAfterMetablock s) = misc_view s"
  "d_br (BrotliDecoderStateCleanupAfterMetablock s) = d_br s"
  "d_is_last_metablock (BrotliDecoderStateCleanupAfterMetablock s) = d_is_last_metablock s"
  "d_substate_metablock_header (BrotliDecoderStateCleanupAfterMetablock s) = d_substate_metablock_header s"
  by (simp_all add: BrotliDecoderStateCleanupAfterMetablock_def views)

lemma block_done_run:
  assumes "d_state s = BROTLI_STATE_METABLOCK_DONE" "plain s" "s_ok s" "s_bits s = bs"
    "d_meta_block_remaining_len s = 0" "\<not> d_is_last_metablock s"
    "d_substate_metablock_header s = BROTLI_STATE_METABLOCK_HEADER_NONE" "holds s out cap dec"
  shows "\<exists>s'. stream_switch s out inp = Some (Break BROTLI_DECODER_SUCCESS s', out, inp) \<and> at_block s' out cap dec bs"
proof -
  define s' where "s' = (BrotliDecoderStateCleanupAfterMetablock s)\<lparr>d_state := BROTLI_STATE_METABLOCK_BEGIN\<rparr>"
  have v: "ring_view s' = ring_view s" "misc_view s' = misc_view s" using cleanup_views by (simp_all add: s'_def views)
  have "stream_switch s out inp = Some (Break BROTLI_DECODER_SUCCESS s', out, inp)"
    using assms(1,5,6) cleanup_views by (simp add: stream_switch_def st_metablock_done_def s'_def Let_def)
  then show ?thesis using assms holds_view [OF v(1)] plain_view [OF v(2)] cleanup_views
    by (intro exI [of _ s']) (simp add: at_block_def s'_def)
qed

text \<open>Three rounds for a chunk, and all chunks.\<close>

lemma chunk_run:
  assumes a: "at_block s out cap dec (bytes_bits (chunk_header (length xs) @ xs @ rest))"
    and n: "xs \<noteq> []" "length xs \<le> 2 ^ 24" "length dec + length xs \<le> cap" "length dec + length xs < 2 ^ 62"
  shows "\<exists>s' out'. stream_loop BROTLI_DECODER_SUCCESS s out inp = stream_loop BROTLI_DECODER_SUCCESS s' out' inp \<and>
    at_block s' out' cap (dec @ xs) (bytes_bits rest)"
proof -
  have l: "0 < length xs" using n(1) by simp
  have "chunk_pad (length xs) < 8" by (simp add: chunk_pad_def)
  moreover have "at_block s out cap dec (uncompressed_header_code (length xs) @
      replicate (chunk_pad (length xs)) False @ bytes_bits (xs @ rest))"
    using a chunk_header_bits [OF l n(2)] by simp
  ultimately obtain s1 where s1: "stream_switch s out inp = Some (Break BROTLI_DECODER_SUCCESS s1, out, inp)"
    "d_state s1 = BROTLI_STATE_UNCOMPRESSED" "plain s1" "s_ok s1" "s_bits s1 = bytes_bits (xs @ rest)"
    "d_meta_block_remaining_len s1 = int (length xs)" "\<not> d_is_last_metablock s1"
    "d_substate_metablock_header s1 = BROTLI_STATE_METABLOCK_HEADER_NONE"
    "d_new_ringbuffer_size s1 = 1024" "holds s1 out cap dec"
    using uncompressed_header_run [OF _ l n(2)] by blast
  obtain s2 out2 where s2: "stream_switch s1 out inp = Some (Break BROTLI_DECODER_SUCCESS s2, out2, inp)"
    "d_state s2 = BROTLI_STATE_METABLOCK_DONE" "plain s2" "s_ok s2" "s_bits s2 = bytes_bits rest"
    "d_meta_block_remaining_len s2 = 0" "kept s2 = kept s1" "holds s2 out2 cap (dec @ xs)"
    using uncompressed_body_run [OF s1(2-6,9,10) n(2-4)] by blast
  have "\<not> d_is_last_metablock s2" "d_substate_metablock_header s2 = BROTLI_STATE_METABLOCK_HEADER_NONE"
    using s1(7,8) s2(7) by (simp_all add: kept_def)
  from block_done_run [OF s2(2-6) this s2(8)] obtain s3 where
    s3: "stream_switch s2 out2 inp = Some (Break BROTLI_DECODER_SUCCESS s3, out2, inp)"
    "at_block s3 out2 cap (dec @ xs) (bytes_bits rest)" by blast
  have "stream_loop BROTLI_DECODER_SUCCESS s out inp = stream_loop BROTLI_DECODER_SUCCESS s3 out2 inp"
    using stream_loop_break [OF s1(1)] stream_loop_break [OF s2(1)] stream_loop_break [OF s3(1)] by simp
  then show ?thesis using s3(2) by blast
qed

lemma chunk_stream_run:
  assumes "at_block s out cap dec (bytes_bits (chunk_stream xs @ rest))"
    and "length dec + length xs \<le> cap" and "length dec + length xs < 2 ^ 62"
  shows "\<exists>s' out'. stream_loop BROTLI_DECODER_SUCCESS s out inp = stream_loop BROTLI_DECODER_SUCCESS s' out' inp \<and>
    at_block s' out' cap (dec @ xs) (bytes_bits rest)"
  using assms
proof (induction xs arbitrary: s out dec rule: chunk_stream.induct)
  case (1 xs)
  show ?case
  proof (cases "xs = []")
    case True
    then show ?thesis using 1(2) by (intro exI [of _ s] exI [of _ out]) (simp add: chunk_stream.simps)
  next
    case False
    define n where "n = min (length xs) (2 ^ 24)"
    have n: "length (take n xs) = n" "n \<le> 2 ^ 24" "n + length (drop n xs) = length xs" "take n xs \<noteq> []"
      using False by (simp_all add: n_def)
    have "chunk_stream xs = chunk_header n @ take n xs @ chunk_stream (drop n xs)"
      using False by (subst chunk_stream.simps) (simp add: n_def Let_def)
    then have a: "at_block s out cap dec
        (bytes_bits (chunk_header (length (take n xs)) @ take n xs @ chunk_stream (drop n xs) @ rest))"
      using 1(2) n(1) by simp
    have "length (take n xs) \<le> 2 ^ 24" "length dec + length (take n xs) \<le> cap"
      "length dec + length (take n xs) < 2 ^ 62" using 1(3,4) n(1-3) by linarith+
    from chunk_run [OF a n(4) this] obtain s1 out1 where
      s1: "stream_loop BROTLI_DECODER_SUCCESS s out inp = stream_loop BROTLI_DECODER_SUCCESS s1 out1 inp"
      "at_block s1 out1 cap (dec @ take n xs) (bytes_bits (chunk_stream (drop n xs) @ rest))" by blast
    have "length (dec @ take n xs) + length (drop n xs) \<le> cap"
      "length (dec @ take n xs) + length (drop n xs) < 2 ^ 62" using 1(3,4) n(1,3) by simp_all
    from 1(1) [OF False n_def s1(2) this] s1(1) show ?thesis by simp
  qed
qed

section \<open>The last meta-block\<close>

lemma last_header_run:
  assumes "s_ok s" and "s_bits s = True # True # replicate k False"
    and "d_substate_metablock_header s = BROTLI_STATE_METABLOCK_HEADER_NONE"
  shows "\<exists>s'. st_metablock_begin s = Some (Break BROTLI_DECODER_SUCCESS s') \<and>
    d_state s' = BROTLI_STATE_METABLOCK_DONE \<and> s_ok s' \<and> s_bits s' = replicate k False \<and>
    d_is_last_metablock s' \<and> d_meta_block_remaining_len s' = 0 \<and>
    ring_view s' = ring_view s \<and> misc_view s' = misc_view s"
proof -
  define s0 where "s0 = (BrotliDecoderStateMetablockBegin s)\<lparr>d_state := BROTLI_STATE_METABLOCK_HEADER\<rparr>"
  have v0: "ring_view s0 = ring_view s" "misc_view s0 = misc_view s"
    using begin_views by (simp_all add: s0_def views)
  have "s_ok s0" "d_substate_metablock_header s0 = BROTLI_STATE_METABLOCK_HEADER_NONE"
    "mlh_parse (s_bits s0) = Mlh_Header True False False 0 (replicate k False)"
    using assms by (simp_all add: s0_def begin_views)
  from header_run [OF this] obtain s1 where s1: "DecodeMetaBlockLength s0 = Some (BROTLI_DECODER_SUCCESS, s1)"
    "s_ok s1" "s_bits s1 = replicate k False" "d_is_last_metablock s1" "\<not> d_is_uncompressed s1"
    "\<not> d_is_metadata s1" "d_meta_block_remaining_len s1 = 0"
    "ring_view s1 = ring_view s0" "misc_view s1 = misc_view s0" by auto
  have same: "s1\<lparr>d_br := d_br s1\<rparr> = s1" by simp
  have "st_metablock_begin s = Some (Break BROTLI_DECODER_SUCCESS (s1\<lparr>d_state := BROTLI_STATE_METABLOCK_DONE\<rparr>))"
    using s1 same by (simp add: st_metablock_begin_def st_metablock_header_def flip: s0_def)
  then show ?thesis using s1 v0
    by (intro exI [of _ "s1\<lparr>d_state := BROTLI_STATE_METABLOCK_DONE\<rparr>"]) (simp add: views)
qed

text \<open>What is left in the ring buffer goes to the client.\<close>

lemma flush_run:
  assumes h: "ring_started s out cap dec" and w: "d_window_bits s < 31"
    and m: "d_meta_block_remaining_len s = 0" and cap: "length dec \<le> cap"
  shows "\<exists>s' out'. WriteRingBuffer s out True = Some (BROTLI_DECODER_SUCCESS, s', out') \<and>
    next_out out' = Out_Bytes dec \<and> total_out out' = Some (of_nat (length dec))"
proof -
  obtain bs rb where st: "next_out out = Out_Bytes bs" "total_out out = Some (d_partial_pos_out s)"
    "available_out out + length bs = cap" "ring_ok s 1024 rb 0" "\<not> d_should_wrap_ringbuffer s"
    "d_pos s < 1024" "length bs = unat (d_rb_roundtrips s) * 1024" "bs @ take (nat (d_pos s)) rb = dec"
    using h by (auto simp: ring_started_def)
  note k = ring_okD [OF st(4)]
  define p where "p = nat (d_pos s)"
  have p: "p < 1024" "d_pos s = int p" using st(6) k(8) by (simp_all add: p_def)
  have ld: "length dec = length bs + p" using st(8) [folded p_def] k(2) p(1) by auto
  then have av: "p \<le> available_out out" using cap st(3) by linarith
  have n: "min (available_out out) (min (nat (d_pos s)) 1024 - 0) = p" using p av by simp
  have nw: "\<not> ring_wraps s 1024 0 p" using p by (simp add: ring_wraps_def)
  have "d_partial_pos_out s + of_nat p = of_nat (length dec)"
  proof -
    have "d_partial_pos_out s = of_nat (unat (d_partial_pos_out s))" by simp
    also have "unat (d_partial_pos_out s) = length bs" using k(12) st(7) by simp
    finally show ?thesis using ld by simp
  qed
  moreover have "0 \<le> d_meta_block_remaining_len s" using m by simp
  ultimately show ?thesis using WriteRingBuffer_bytes [OF st(4) _ w st(1), of True] st(2,8) p nw unfolding n by simp
qed

lemma last_switch_run:
  assumes "d_state s = BROTLI_STATE_METABLOCK_DONE" and "s_ok s" and "s_bits s = replicate k False" and "k < 8"
    and "d_is_last_metablock s" and "d_meta_block_remaining_len s = 0" and "d_buffer_length s = 0"
  shows "\<exists>s1 inp'. stream_switch s out inp = st_done s1 out inp' \<and> ring_view s1 = ring_view s \<and>
    d_window_bits s1 = d_window_bits s \<and> d_meta_block_remaining_len s1 = 0"
proof -
  define s0 where "s0 = BrotliDecoderStateCleanupAfterMetablock s"
  have f0: "d_br s0 = d_br s" "d_is_last_metablock s0" "d_buffer_length s0 = 0" "ring_view s0 = ring_view s"
    "d_window_bits s0 = d_window_bits s" "d_meta_block_remaining_len s0 = 0"
    using cleanup_views(2) [of s] assms(5-7) cleanup_views
    by (simp_all add: s0_def misc_view_def BrotliDecoderStateCleanupAfterMetablock_def)
  obtain br where br: "BrotliJumpToByteBoundary (d_br s) = Some (True, br)" "br_ok br"
    using jump_run [of "d_br s" k "[]"] assms(2-4) by auto
  obtain br2 where br2: "BrotliBitReaderUnload br = Some br2" using BrotliBitReaderUnload_spec [OF br(2)] by blast
  have "stream_switch s out inp = st_done (s0\<lparr>d_br := br2, d_state := BROTLI_STATE_DONE\<rparr>) out
      (inp\<lparr>in_avail := avail_in br2, in_next := next_in br2\<rparr>)"
    using assms(1,6) f0 br(1) br2
    by (simp add: stream_switch_def st_metablock_done_def Let_def flip: s0_def)
  then show ?thesis using f0
    by (intro exI [of _ "s0\<lparr>d_br := br2, d_state := BROTLI_STATE_DONE\<rparr>"] exI) (simp add: ring_view_def)
qed

lemma last_done_run:
  assumes "d_state s = BROTLI_STATE_METABLOCK_DONE" and "s_ok s" and "s_bits s = replicate k False" and "k < 8"
    and "d_is_last_metablock s" and "d_meta_block_remaining_len s = 0" and "d_buffer_length s = 0"
    and "d_window_bits s < 31" and "ring_started s out cap dec" and "length dec \<le> cap"
  shows "\<exists>s' out' inp'. stream_loop BROTLI_DECODER_SUCCESS s out inp = Some (BROTLI_DECODER_SUCCESS, s', out', inp') \<and>
    next_out out' = Out_Bytes dec \<and> total_out out' = Some (of_nat (length dec))"
proof -
  obtain s1 inp' where s1: "stream_switch s out inp = st_done s1 out inp'" "ring_view s1 = ring_view s"
    "d_window_bits s1 = d_window_bits s" "d_meta_block_remaining_len s1 = 0"
    using last_switch_run [OF assms(1-7)] by blast
  have st: "ring_started s1 out cap dec" by (rule ring_started_view [OF s1(2) assms(9)])
  have "d_window_bits s1 < 31" using s1(3) assms(8) by simp
  from flush_run [OF st this s1(4) assms(10)] obtain s2 out2 where
    w: "WriteRingBuffer s1 out True = Some (BROTLI_DECODER_SUCCESS, s2, out2)"
    "next_out out2 = Out_Bytes dec" "total_out out2 = Some (of_nat (length dec))" by blast
  have "d_ringbuffer s1 \<noteq> None" using st by (auto simp: ring_started_def ring_ok_def)
  then have "stream_switch s out inp = Some (Return BROTLI_DECODER_SUCCESS s2, out2, inp')"
    using s1(1) w(1) by (simp add: st_done_def)
  from stream_loop_return [OF this] w(2,3) show ?thesis by blast
qed

lemma last_done_fresh_run:
  assumes "d_state s = BROTLI_STATE_METABLOCK_DONE" and "s_ok s" and "s_bits s = replicate k False" and "k < 8"
    and "d_is_last_metablock s" and "d_meta_block_remaining_len s = 0" and "d_buffer_length s = 0"
    and "ring_fresh s"
  shows "\<exists>s' inp'. stream_loop BROTLI_DECODER_SUCCESS s out inp = Some (BROTLI_DECODER_SUCCESS, s', out, inp')"
proof -
  obtain s1 inp' where s1: "stream_switch s out inp = st_done s1 out inp'" "ring_view s1 = ring_view s"
    using last_switch_run [OF assms(1-7)] by blast
  have "d_ringbuffer s1 = None" using ring_fresh_view [OF s1(2) assms(8)] by (simp add: ring_fresh_def)
  then have "stream_switch s out inp = Some (Return BROTLI_DECODER_SUCCESS s1, out, inp')"
    using s1(1) by (simp add: st_done_def)
  from stream_loop_return [OF this] show ?thesis by blast
qed

section \<open>The start of a stream\<close>

lemma DecodeWindowBits_frame:
  "DecodeWindowBits s = Some (r, s') \<Longrightarrow>
    s' = s\<lparr>d_br := d_br s', d_large_window := d_large_window s', d_window_bits := d_window_bits s'\<rparr>"
  by (auto simp: DecodeWindowBits_def Let_def branch_convs s_take_def)

text \<open>A fresh instance connected to its input, before the first round.\<close>

definition at_start :: "BrotliDecoderState \<Rightarrow> bits \<Rightarrow> bool" where
  "at_start s bs \<longleftrightarrow> d_state s = BROTLI_STATE_UNINITED \<and> s_ok s \<and> s_bits s = bs \<and>
     d_buffer_length s = 0 \<and> d_canny_ringbuffer_allocation s \<and> (\<forall>k m. d_alloc s k m \<noteq> None) \<and>
     d_substate_uncompressed s = BROTLI_STATE_UNCOMPRESSED_NONE \<and>
     d_substate_metablock_header s = BROTLI_STATE_METABLOCK_HEADER_NONE \<and> ring_fresh s"

lemma uninited_run:
  assumes a: "at_start s (wbits_code w @ bits)" and w: "w \<in> {10..24}"
    and l: "8 dvd length (wbits_code w @ bits)"
  shows "\<exists>s'. stream_switch s out inp = Some (Break BROTLI_DECODER_SUCCESS s', out, inp) \<and>
    d_state s' = BROTLI_STATE_INITIALIZE \<and> s_ok s' \<and> s_bits s' = bits \<and> d_window_bits s' = of_nat w \<and>
    d_buffer_length s' = 0 \<and> d_canny_ringbuffer_allocation s' \<and> (\<forall>k m. d_alloc s' k m \<noteq> None) \<and>
    d_substate_uncompressed s' = BROTLI_STATE_UNCOMPRESSED_NONE \<and>
    d_substate_metablock_header s' = BROTLI_STATE_METABLOCK_HEADER_NONE \<and> ring_fresh s'"
proof -
  note f = a [unfolded at_start_def]
  have ne: "s_bits s \<noteq> []" using f by (auto simp: wbits_code_def val_bits_def)
  obtain br where br: "BrotliWarmupBitReader (d_br s) = Some (True, br)" "br_ok br" "br_bits br = s_bits s" "br_warm br"
    using BrotliWarmupBitReader_spec [of "d_br s"] f ne by auto
  define s0 where "s0 = s\<lparr>d_br := br\<rparr>"
  have "8 \<le> BrotliGetAvailableBits br"
  proof -
    have "8 dvd length (br_bits br)" using l br(3) f by simp
    then have "8 dvd (64 - unat (br_bit_pos br)) + 8 * avail_in br" using length_br_bits [OF br(2)] by simp
    then have "8 dvd 64 - unat (br_bit_pos br)" by (subst (asm) dvd_add_left_iff) simp_all
    moreover have "0 < 64 - unat (br_bit_pos br)" using br(4) by (simp add: br_warm_def)
    ultimately have "8 \<le> 64 - unat (br_bit_pos br)" by (rule dvd_imp_le)
    then show ?thesis by (simp add: word_le_nat_alt unat_avail_bits [OF br(2)])
  qed
  then have "br_ok (d_br s0)" "8 \<le> BrotliGetAvailableBits (d_br s0)" "br_bits (d_br s0) = wbits_code w @ bits"
    using br f by (simp_all add: s0_def)
  from DecodeWindowBits_code [OF w this] obtain s1 where s1: "DecodeWindowBits s0 = Some (BROTLI_DECODER_SUCCESS, s1)"
    "br_ok (d_br s1)" "br_bits (d_br s1) = bits" "d_window_bits s1 = of_nat w" "\<not> d_large_window s1" by blast
  obtain br1 lw wb where e: "s1 = s0\<lparr>d_br := br1, d_large_window := lw, d_window_bits := wb\<rparr>"
    by (rule that [OF DecodeWindowBits_frame [OF s1(1)]])
  define s2 where "s2 = s1\<lparr>d_state := BROTLI_STATE_INITIALIZE\<rparr>"
  have "stream_switch s out inp = Some (Break BROTLI_DECODER_SUCCESS s2, out, inp)"
    using f br(1) s1(1,5) by (simp add: stream_switch_def st_uninited_def s2_def flip: s0_def)
  moreover have "ring_fresh s2" using f by (simp add: ring_fresh_def s2_def e s0_def)
  ultimately show ?thesis using f s1 by (intro exI [of _ s2]) (simp add: s2_def, simp add: e s0_def)
qed

lemma initialize_run:
  assumes w: "d_window_bits s < 31" and al: "\<forall>k m. d_alloc s k m \<noteq> None"
  shows "\<exists>s1. st_initialize s = st_metablock_begin s1 \<and> d_br s1 = d_br s \<and> ring_view s1 = ring_view s \<and>
    misc_view s1 = misc_view s \<and> d_substate_metablock_header s1 = d_substate_metablock_header s"
proof -
  have ws: "window_size s = Some (2 ^ unat (d_window_bits s))" using w by (simp add: window_size_def)
  obtain c where "d_alloc s (d_alloc_calls s) (4 * 3 * (BROTLI_HUFFMAN_MAX_SIZE_258 + BROTLI_HUFFMAN_MAX_SIZE_26)) = Some c"
    using al by fastforce
  then show ?thesis
    by (simp add: st_initialize_def ws BROTLI_DECODER_ALLOC_def Let_def del: upt_rec_numeral)
      (rule exI, rule conjI [OF refl], simp add: views)
qed

text \<open>The first bytes of a stream that is not empty: a window of ten bits, and an empty metadata block
  that fills up the second byte.\<close>

lemma start_bits: "bytes_bits [0x21, 0x03] = wbits_code 10 @ last_flag False @ [True, True, False, False, False, False, False, False]"
  by code_simp

lemma start_run:
  assumes a: "at_start s (bytes_bits ([0x21, 0x03] @ bs))" and o: "out_fresh out cap"
  shows "\<exists>s'. stream_loop BROTLI_DECODER_SUCCESS s out inp = stream_loop BROTLI_DECODER_SUCCESS s' out inp \<and>
    at_block s' out cap [] (bytes_bits bs)"
proof -
  define hd where "hd = last_flag False @ [True, True, False, False, False, False, False, False] @ bytes_bits bs"
  have bits: "bytes_bits ([0x21, 0x03] @ bs) = wbits_code 10 @ hd"
    using start_bits by (simp add: hd_def)
  have w: "(10 :: nat) \<in> {10..24}" by simp
  have "8 dvd length (wbits_code 10 @ hd)" unfolding bits [symmetric] by simp
  from uninited_run [OF a [unfolded bits] w this] obtain s1 where
    s1: "stream_switch s out inp = Some (Break BROTLI_DECODER_SUCCESS s1, out, inp)"
    "d_state s1 = BROTLI_STATE_INITIALIZE" "s_ok s1" "s_bits s1 = hd" "d_window_bits s1 = of_nat 10"
    "d_buffer_length s1 = 0" "d_canny_ringbuffer_allocation s1" "\<forall>k m. d_alloc s1 k m \<noteq> None"
    "d_substate_uncompressed s1 = BROTLI_STATE_UNCOMPRESSED_NONE"
    "d_substate_metablock_header s1 = BROTLI_STATE_METABLOCK_HEADER_NONE" "ring_fresh s1" by blast
  have p1: "plain s1" using s1 by (simp add: plain_def)
  obtain s2 where s2: "st_initialize s1 = st_metablock_begin s2" "d_br s2 = d_br s1" "ring_view s2 = ring_view s1"
    "misc_view s2 = misc_view s1" "d_substate_metablock_header s2 = d_substate_metablock_header s1"
    using initialize_run [of s1] s1(5,8) by auto
  define s3 where "s3 = (BrotliDecoderStateMetablockBegin s2)\<lparr>d_state := BROTLI_STATE_METABLOCK_HEADER\<rparr>"
  have v3: "ring_view s3 = ring_view s1" "misc_view s3 = misc_view s1"
    using begin_views s2(3,4) by (simp_all add: s3_def views)
  have "mlh_parse hd = Mlh_Header False False True 0 (replicate 3 False @ bytes_bits bs)"
    unfolding hd_def mlh_parse_flag
    by (simp add: parse_nibbles_def parse_reserved_def parse_bytes_def bits_val_Cons numeral_3_eq_3)
  then have ps: "mlh_parse (s_bits s3) = Mlh_Header False False True 0 (replicate 3 False @ bytes_bits bs)"
    using s1(4) s2(2) by (simp add: s3_def begin_views)
  have "s_ok s3" "d_substate_metablock_header s3 = BROTLI_STATE_METABLOCK_HEADER_NONE"
    using s1(3,10) s2(2,5) by (simp_all add: s3_def begin_views)
  from header_run [OF this ps] obtain s4 where s4: "DecodeMetaBlockLength s3 = Some (BROTLI_DECODER_SUCCESS, s4)" "s_ok s4"
    "s_bits s4 = replicate 3 False @ bytes_bits bs" "\<not> d_is_last_metablock s4" "d_is_metadata s4"
    "d_meta_block_remaining_len s4 = 0" "d_substate_metablock_header s4 = BROTLI_STATE_METABLOCK_HEADER_NONE"
    "ring_view s4 = ring_view s3" "misc_view s4 = misc_view s3"
    by auto
  obtain br where br: "BrotliJumpToByteBoundary (d_br s4) = Some (True, br)" "br_ok br" "br_bits br = bytes_bits bs"
    using jump_run [OF s4(2,3)] by auto
  define s5 where "s5 = s4\<lparr>d_br := br, d_state := BROTLI_STATE_METADATA\<rparr>"
  have r2: "stream_switch s1 out inp = Some (Break BROTLI_DECODER_SUCCESS s5, out, inp)"
    using s1(2) s2(1) s4 br(1)
    by (simp add: stream_switch_def st_metablock_begin_def st_metablock_header_def s5_def flip: s3_def)
  define s6 where "s6 = s5\<lparr>d_meta_block_remaining_len := 0, d_state := BROTLI_STATE_METABLOCK_DONE\<rparr>"
  have r3: "stream_switch s5 out inp = Some (Break BROTLI_DECODER_SUCCESS s6, out, inp)"
    using s4(6) by (simp add: stream_switch_def st_metadata_def metadata_loop.simps s5_def s6_def)
  have v6: "ring_view s6 = ring_view s1" "misc_view s6 = misc_view s1"
    using v3 s4(8,9) by (simp_all add: s6_def s5_def views)
  have "plain s6" by (rule plain_view [OF v6(2) p1])
  moreover have "holds s6 out cap []" using ring_fresh_view [OF v6(1) s1(11)] o by (simp add: holds_def)
  ultimately obtain s7 where s7: "stream_switch s6 out inp = Some (Break BROTLI_DECODER_SUCCESS s7, out, inp)"
    "at_block s7 out cap [] (bytes_bits bs)"
    using block_done_run [of s6 "bytes_bits bs" out cap "[]" inp] s4(4,7) br(2,3) by (auto simp: s6_def s5_def)
  have "stream_loop BROTLI_DECODER_SUCCESS s out inp = stream_loop BROTLI_DECODER_SUCCESS s7 out inp"
    using stream_loop_break [OF s1(1)] stream_loop_break [OF r2] stream_loop_break [OF r3] stream_loop_break [OF s7(1)]
    by simp
  then show ?thesis using s7(2) by blast
qed

section \<open>The whole stream\<close>

lemma loop_nonempty:
  assumes "at_start s (bytes_bits (uncompressed_stream xs))" and "xs \<noteq> []" and "out_fresh out cap"
    and "length xs \<le> cap" and "length xs < 2 ^ 62"
  shows "\<exists>s' out' inp'. stream_loop BROTLI_DECODER_SUCCESS s out inp = Some (BROTLI_DECODER_SUCCESS, s', out', inp') \<and>
    next_out out' = Out_Bytes xs \<and> total_out out' = Some (of_nat (length xs))"
proof -
  have us: "uncompressed_stream xs = [0x21, 0x03] @ chunk_stream xs @ [3]"
    using assms(2) by (simp add: uncompressed_stream_def)
  obtain s1 where s1: "stream_loop BROTLI_DECODER_SUCCESS s out inp = stream_loop BROTLI_DECODER_SUCCESS s1 out inp"
    "at_block s1 out cap [] (bytes_bits (chunk_stream xs @ [3]))"
    using start_run [OF assms(1) [unfolded us] assms(3)] by blast
  have "length ([] :: uint8 list) + length xs \<le> cap" "length ([] :: uint8 list) + length xs < 2 ^ 62"
    using assms(4,5) by simp_all
  from chunk_stream_run [OF s1(2) this] obtain s2 out2 where
    s2: "stream_loop BROTLI_DECODER_SUCCESS s1 out inp = stream_loop BROTLI_DECODER_SUCCESS s2 out2 inp"
    "at_block s2 out2 cap xs (bytes_bits [3])"
    unfolding append_Nil by blast
  note f = s2(2) [unfolded at_block_def]
  have "bytes_bits [3] = True # True # replicate 6 False" by code_simp
  then have "s_bits s2 = True # True # replicate 6 False" using f by simp
  from last_header_run [OF _ this] f obtain s3 where
    s3: "st_metablock_begin s2 = Some (Break BROTLI_DECODER_SUCCESS s3)" "d_state s3 = BROTLI_STATE_METABLOCK_DONE"
    "s_ok s3" "s_bits s3 = replicate 6 False" "d_is_last_metablock s3" "d_meta_block_remaining_len s3 = 0"
    "ring_view s3 = ring_view s2" "misc_view s3 = misc_view s2" by blast
  have sw: "stream_switch s2 out2 inp = Some (Break BROTLI_DECODER_SUCCESS s3, out2, inp)"
    using f s3(1) by (simp add: stream_switch_def)
  have "plain s3" using plain_view [OF s3(8)] f by blast
  then have p3: "d_buffer_length s3 = 0" "d_window_bits s3 < 31" by (simp_all add: plain_def)
  have h3: "holds s3 out2 cap xs" using holds_view [OF s3(7)] f by blast
  then have "ring_started s3 out2 cap xs" using assms(2) by (auto simp: holds_def)
  from last_done_run [OF s3(2-4) _ s3(5,6) p3 this assms(4), of inp] stream_loop_break [OF sw] s1(1) s2(1)
  show ?thesis by simp
qed

lemma start_bits_empty: "bytes_bits [6] = wbits_code 16 @ True # True # replicate 5 False"
  by code_simp

lemma loop_empty:
  assumes a: "at_start s (bytes_bits [6])"
  shows "\<exists>s' inp'. stream_loop BROTLI_DECODER_SUCCESS s out inp = Some (BROTLI_DECODER_SUCCESS, s', out, inp')"
proof -
  have w: "(16 :: nat) \<in> {10..24}" by simp
  have "8 dvd length (wbits_code 16 @ True # True # replicate 5 False)" unfolding start_bits_empty [symmetric] by simp
  from uninited_run [OF a [unfolded start_bits_empty] w this] obtain s1 where
    s1: "stream_switch s out inp = Some (Break BROTLI_DECODER_SUCCESS s1, out, inp)"
    "d_state s1 = BROTLI_STATE_INITIALIZE" "s_ok s1" "s_bits s1 = True # True # replicate 5 False"
    "d_window_bits s1 = of_nat 16" "d_buffer_length s1 = 0" "\<forall>k m. d_alloc s1 k m \<noteq> None"
    "d_substate_metablock_header s1 = BROTLI_STATE_METABLOCK_HEADER_NONE" "ring_fresh s1" by blast
  obtain s2 where s2: "st_initialize s1 = st_metablock_begin s2" "d_br s2 = d_br s1" "ring_view s2 = ring_view s1"
    "misc_view s2 = misc_view s1" "d_substate_metablock_header s2 = d_substate_metablock_header s1"
    using initialize_run [of s1] s1(5,7) by auto
  have "s_ok s2" "s_bits s2 = True # True # replicate 5 False"
    "d_substate_metablock_header s2 = BROTLI_STATE_METABLOCK_HEADER_NONE" using s1(3,4,8) s2(2,5) by simp_all
  from last_header_run [OF this] obtain s3 where
    s3: "st_metablock_begin s2 = Some (Break BROTLI_DECODER_SUCCESS s3)" "d_state s3 = BROTLI_STATE_METABLOCK_DONE"
    "s_ok s3" "s_bits s3 = replicate 5 False" "d_is_last_metablock s3" "d_meta_block_remaining_len s3 = 0"
    "ring_view s3 = ring_view s2" "misc_view s3 = misc_view s2" by blast
  have sw: "stream_switch s1 out inp = Some (Break BROTLI_DECODER_SUCCESS s3, out, inp)"
    using s1(2) s2(1) s3(1) by (simp add: stream_switch_def)
  have "d_buffer_length s3 = 0" using s1(6) s2(4) s3(8) by (simp add: misc_view_def)
  moreover have "ring_fresh s3" using ring_fresh_view [of s3 s1] s1(9) s2(3) s3(7) by simp
  ultimately show ?thesis
    using last_done_fresh_run [OF s3(2-4) _ s3(5,6)] stream_loop_break [OF s1(1)] stream_loop_break [OF sw] by simp
qed

lemma max_compressed_size:
  assumes "length xs < 2 ^ 62"
  shows "length (uncompressed_stream xs) \<le> unat (BrotliEncoderMaxCompressedSize (of_nat (length xs)))"
proof (cases "xs = []")
  case False
  define n where "n = length xs"
  have n: "0 < n" "n < 2 ^ 62" using False assms by (simp_all add: n_def)
  have u: "unat (of_nat n :: uint64) = n" using n by (simp add: unat_of_nat_small)
  have b: "drop_bit 14 (of_nat n :: uint64) = of_nat (n div 2 ^ 14)"
    by (rule word_of_natI) (simp only: unat_drop_bit_div u)
  define m where "m = n + (2 + 4 * (n div 2 ^ 14) + 3 + 1)"
  have m: "of_nat n + (6 + 4 * of_nat (n div 16384)) = (of_nat m :: uint64)" by (simp add: m_def)
  have "n div 2 ^ 14 \<le> n div 1" by (rule div_le_mono2) simp_all
  then have lt: "m < 2 ^ 64" using n by (simp add: m_def)
  then have um: "unat (of_nat m :: uint64) = m" by (simp add: unat_of_nat_small)
  have "(of_nat n :: uint64) \<noteq> 0" using n u by (metis less_numeral_extra(3) unat_0)
  moreover have "n \<le> m" by (simp add: m_def)
  then have "\<not> (of_nat m :: uint64) < of_nat n" by (simp add: word_less_nat_alt um u del: of_nat_add)
  ultimately have "BrotliEncoderMaxCompressedSize (of_nat n) = of_nat m"
    by (simp add: BrotliEncoderMaxCompressedSize_def Let_def b m del: of_nat_add)
  then show ?thesis
    using False length_chunk_stream [of xs] um by (simp add: uncompressed_stream_def m_def flip: n_def)
qed (simp add: uncompressed_stream_def BrotliEncoderMaxCompressedSize_def)

lemma fresh_instance_start:
  fixes words :: "uint8 list option" and fresh :: BrotliDecoderState
  assumes "\<forall>k m. malloc k m \<noteq> None"
  defines "s \<equiv> (BrotliDecoderStateInit words malloc None fresh)\<lparr>d_alloc_calls := 0\<rparr>"
  shows "at_start (connect_input \<lparr>in_buf = bs, in_next = 0, in_avail = length bs\<rparr> s) (bytes_bits bs)"
  using assms(1)
  by (simp add: at_start_def s_def connect_input_def BrotliDecoderStateInit_def BrotliInitBitReader_def br_ok_def
      br_linked_drained br_bits_def br_rest_def word_bits_def ring_fresh_def)

text \<open>C1: The encoder's fallback and the decoder are inverse.  For every input of fewer than \<open>2^62\<close> bytes
  and an output buffer of the size \<open>BrotliEncoderMaxCompressedSize\<close> promises, \<open>MakeUncompressedStream\<close>
  stays in the buffer, and \<open>BrotliDecoderDecompress\<close> of the stream it wrote returns success, the length
  of the input and the input itself, whatever the memory it starts on, if its allocator does not fail
  and \<open>decoded_buffer\<close> has room.  The loop of \<open>BrotliDecoderDecompressStream\<close> ends.\<close>

theorem uncompressed_stream_roundtrip:
  assumes "\<forall>k m. malloc k m \<noteq> None" and "length xs < 2 ^ 62" and "length xs \<le> decoded_size"
    and "unat (BrotliEncoderMaxCompressedSize (of_nat (length xs))) \<le> length outp"
  shows "\<exists>n a. MakeUncompressedStream xs (length xs) outp = Some (n, a) \<and>
    n \<le> unat (BrotliEncoderMaxCompressedSize (of_nat (length xs))) \<and>
    BrotliDecoderDecompress words malloc fresh (take n a) decoded_size =
      Some (BROTLI_DECODER_RESULT_SUCCESS, of_nat (length xs), xs)"
proof -
  note fits = max_compressed_size [OF assms(2)]
  obtain a where a: "MakeUncompressedStream xs (length xs) outp = Some (length (uncompressed_stream xs), a)"
    "take (length (uncompressed_stream xs)) a = uncompressed_stream xs"
    using MakeUncompressedStream_spec [OF order_trans [OF fits assms(4)]] by blast
  define bs where "bs = uncompressed_stream xs"
  define s where "s = (BrotliDecoderStateInit words malloc None fresh)\<lparr>d_alloc_calls := 0\<rparr>"
  define inp where "inp = \<lparr>in_buf = bs, in_next = 0, in_avail = length bs\<rparr>"
  define out where "out = \<lparr>available_out = decoded_size, next_out = Out_Bytes [], total_out = Some (0 :: uint64)\<rparr>"
  define out1 where "out1 = (if decoded_size = 0 then out\<lparr>next_out := Out_None\<rparr> else out)"
  have start: "at_start (connect_input inp s) (bytes_bits bs)"
    unfolding inp_def s_def by (rule fresh_instance_start [OF assms(1)])
  have s: "d_error_code s = 0" "d_buffer_length s = 0" "d_partial_pos_out s = 0"
    by (simp_all add: s_def BrotliDecoderStateInit_def)
  have "\<exists>s' out' inp'. stream_loop BROTLI_DECODER_SUCCESS (connect_input inp s) out1 inp =
      Some (BROTLI_DECODER_SUCCESS, s', out', inp') \<and> total_out out' = Some (of_nat (length xs)) \<and>
      (if decoded_size = 0 then xs = [] else next_out out' = Out_Bytes xs)"
  proof (cases "xs = []")
    case True
    then have "at_start (connect_input inp s) (bytes_bits [6])" using start by (simp add: bs_def uncompressed_stream_def)
    from loop_empty [OF this, of out1 inp] show ?thesis using True by (auto simp: out1_def out_def)
  next
    case False
    then have "0 < length xs" by simp
    then have "0 < decoded_size" using assms(3) by (rule less_le_trans)
    moreover from this have "out_fresh out1 decoded_size" by (simp add: out_fresh_def out1_def out_def)
    ultimately show ?thesis using loop_nonempty [OF start [unfolded bs_def] False _ assms(3,2)] False by fastforce
  qed
  then obtain s' out' inp' where r: "stream_loop BROTLI_DECODER_SUCCESS (connect_input inp s) out1 inp =
      Some (BROTLI_DECODER_SUCCESS, s', out', inp')" "total_out out' = Some (of_nat (length xs))"
    "if decoded_size = 0 then xs = [] else next_out out' = Out_Bytes xs" by blast
  have o: "out\<lparr>total_out := Some 0\<rparr> = out" by (simp add: out_def)
  have oa: "available_out out = decoded_size" "next_out out = Out_Bytes []" "total_out out = Some 0"
    by (simp_all add: out_def)
  have "BrotliDecoderDecompressStream s inp out = Some (BROTLI_DECODER_RESULT_SUCCESS,
      snd (SaveErrorCode s' BROTLI_DECODER_SUCCESS), inp',
      if decoded_size = 0 then out'\<lparr>next_out := Out_Bytes []\<rparr> else out')"
    using r(1) s oa
    by (cases "decoded_size = 0") (simp_all add: BrotliDecoderDecompressStream_def Let_def SaveErrorCode_def out1_def o)
  then have "BrotliDecoderDecompress words malloc fresh bs decoded_size =
      Some (BROTLI_DECODER_RESULT_SUCCESS, of_nat (length xs), xs)"
    using r(2,3) unfolding BrotliDecoderDecompress_def Let_def s_def [symmetric] inp_def [symmetric] out_def [symmetric]
    by (auto split: if_splits)
  then show ?thesis using a fits by (intro exI [of _ "length (uncompressed_stream xs)"] exI [of _ a]) (simp add: bs_def)
qed

lemma uncompressed_stream_roundtrip_witness:
  "\<exists>n a. MakeUncompressedStream [66, 114, 111] 3 (replicate 40 0) = Some (n, a) \<and>
    n \<le> unat (BrotliEncoderMaxCompressedSize 3) \<and>
    BrotliDecoderDecompress None sample_alloc zero_state (take n a) 5 =
      Some (BROTLI_DECODER_RESULT_SUCCESS, 3, [66, 114, 111])"
  using uncompressed_stream_roundtrip [of sample_alloc "[66, 114, 111]" 5 "replicate 40 0" None zero_state]
  by (simp add: sample_alloc_def BrotliEncoderMaxCompressedSize_def numeral_3_eq_3)

end
