(* ===== verification/Huffman_Second_Level.thy ===== *)
theory Huffman_Second_Level
  imports Huffman_Table_Facts
begin

text \<open>
  The second-level tables of \<open>BrotliBuildHuffmanTable\<close>.  All codes of more than eight bits with the same
  first eight bits share one table, which has an index bit for each further bit of its longest code; the
  tables follow the root table in the order of the prefixes.  \<open>table_off\<close> and \<open>sub_bits\<close> are that layout,
  stated of the code alone; the loops are shown to produce it.
\<close>

section \<open>The layout\<close>

definition sub_syms :: "nat list \<Rightarrow> nat \<Rightarrow> nat list" where
  "sub_syms lens P = filter (\<lambda>s. 8 < lens ! s \<and> code_of lens s div 2 ^ (lens ! s - 8) = P) [0..<length lens]"

definition sub_bits :: "nat list \<Rightarrow> nat \<Rightarrow> nat" where
  "sub_bits lens P = fold max (map (\<lambda>s. lens ! s - 8) (sub_syms lens P)) 0"

fun table_off :: "nat list \<Rightarrow> nat \<Rightarrow> nat" where
  "table_off lens 0 = 256"
| "table_off lens (Suc P) = table_off lens P + (if sub_syms lens P = [] then 0 else 2 ^ sub_bits lens P)"

text \<open>The number of cells of all tables of a code.\<close>

abbreviation table_cells :: "nat list \<Rightarrow> nat" where
  "table_cells lens \<equiv> table_off lens 256"

lemma fold_max: "fold max (xs :: nat list) m = Max (insert m (set xs))"
  using Max.set_eq_fold [of m xs] by simp

lemma sub_bits_ge: "s \<in> set (sub_syms lens P) \<Longrightarrow> lens ! s - 8 \<le> sub_bits lens P"
  unfolding sub_bits_def fold_max by (intro Max_ge) auto

lemma sub_bits_in:
  assumes "sub_syms lens P \<noteq> []"
  shows "\<exists>s \<in> set (sub_syms lens P). sub_bits lens P = lens ! s - 8"
proof -
  have "sub_bits lens P \<in> insert 0 (set (map (\<lambda>s. lens ! s - 8) (sub_syms lens P)))"
    unfolding sub_bits_def fold_max by (rule Max_in) simp_all
  moreover have "sub_bits lens P \<noteq> 0"
  proof -
    obtain s where s: "s \<in> set (sub_syms lens P)" using assms by (cases "sub_syms lens P") auto
    then have "8 < lens ! s" by (simp add: sub_syms_def)
    then show ?thesis using sub_bits_ge [OF s] by simp
  qed
  ultimately show ?thesis by auto
qed

lemma table_off_mono: "P \<le> Q \<Longrightarrow> table_off lens P \<le> table_off lens Q"
  by (rule lift_Suc_mono_le) simp_all

lemma table_off_ge: "256 \<le> table_off lens P"
  using table_off_mono [of 0 P lens] by simp

lemma table_off_next: "sub_syms lens P \<noteq> [] \<Longrightarrow> table_off lens (Suc P) = table_off lens P + 2 ^ sub_bits lens P"
  by simp

declare table_off.simps(2) [simp del]

lemma sub_syms_entry:
  assumes "8 < l" and "k < len_count lens l"
  shows "syms lens l ! k \<in> set (sub_syms lens (code_at lens l k div 2 ^ (l - 8)))"
  using syms_nth [OF assms(2)] assms(1) by (simp add: sub_syms_def)

lemma sub_syms_cases:
  assumes "s \<in> set (sub_syms lens P)"
  obtains l k where "8 < l" "k < len_count lens l" "s = syms lens l ! k" "lens ! s = l"
    "code_at lens l k div 2 ^ (l - 8) = P"
proof -
  have s: "s < length lens" "8 < lens ! s" "code_of lens s div 2 ^ (lens ! s - 8) = P"
    using assms by (simp_all add: sub_syms_def)
  then show ?thesis using that syms_index [OF s(1)] by metis
qed

lemma sub_bits_le:
  assumes "complete_code lens"
  shows "sub_bits lens P \<le> 7"
proof (cases "sub_syms lens P = []")
  case False
  then obtain s where "s \<in> set (sub_syms lens P)" "sub_bits lens P = lens ! s - 8" using sub_bits_in by blast
  moreover from this have "lens ! s \<in> set lens" by (simp add: sub_syms_def)
  then have "lens ! s \<le> 15" using assms unfolding complete_code_def list_all_iff by blast
  ultimately show ?thesis by simp
qed (simp add: sub_bits_def)

lemma table_off_le:
  assumes "complete_code lens"
  shows "table_off lens P \<le> 256 + 128 * P"
proof (induction P)
  case (Suc P)
  have "(2::nat) ^ sub_bits lens P \<le> 2 ^ 7" by (rule power_increasing) (use sub_bits_le [OF assms] in simp_all)
  then show ?case using Suc by (simp add: table_off.simps(2))
qed simp

text \<open>The lengths of the codes with a prefix: one that a level does not exhaust goes on, one it
  exhausts does not.\<close>

lemma prefix_reaches:
  assumes "8 < m" and "P * 2 ^ (m - 8) \<le> y" and "y < (P + 1) * 2 ^ (m - 8)"
    and "first_code lens m \<le> y" and "y < code_at lens m (len_count lens m)"
  shows "m \<le> 8 + sub_bits lens P" and "sub_syms lens P \<noteq> []"
proof -
  define k where "k = y - first_code lens m"
  have k: "k < len_count lens m" "code_at lens m k = y" using assms(4,5) by (auto simp: k_def)
  have "y div 2 ^ (m - 8) = P" using assms(2,3) by (intro div_nat_eqI) (simp_all add: mult.commute)
  then have s: "syms lens m ! k \<in> set (sub_syms lens P)" using sub_syms_entry [OF assms(1) k(1)] k(2) by simp
  then show "m \<le> 8 + sub_bits lens P" using sub_bits_ge [OF s] syms_nth(2) [OF k(1)] by simp
  show "sub_syms lens P \<noteq> []" using s by auto
qed

lemma prefix_ends:
  assumes "8 \<le> m" and "sub_syms lens P \<noteq> []" and "(P + 1) * 2 ^ (m - 8) \<le> code_at lens m (len_count lens m)"
  shows "8 + sub_bits lens P \<le> m"
proof (rule ccontr)
  assume "\<not> 8 + sub_bits lens P \<le> m"
  moreover obtain s where s: "s \<in> set (sub_syms lens P)" "sub_bits lens P = lens ! s - 8"
    using sub_bits_in [OF assms(2)] by blast
  moreover obtain l k where l: "8 < l" "lens ! s = l" "code_at lens l k div 2 ^ (l - 8) = P"
    by (rule sub_syms_cases [OF s(1)])
  ultimately have ml: "m < l" by simp
  then have "2 ^ (m - 8) * 2 ^ (l - m) = (2::nat) ^ (l - 8)" using assms(1) by (simp flip: power_add)
  then have "(P + 1) * 2 ^ (l - 8) = (P + 1) * 2 ^ (m - 8) * 2 ^ (l - m)" by (simp only: mult.assoc)
  also have "\<dots> \<le> code_at lens m (len_count lens m) * 2 ^ (l - m)" using assms(3) by (rule mult_le_mono1)
  also have "\<dots> \<le> code_at lens l k" using first_code_step [of m l lens] assms(1) ml by simp
  finally have "P + 1 \<le> code_at lens l k div 2 ^ (l - 8)" by (simp add: less_eq_div_iff_mult_less_eq)
  then show False using l(3) by simp
qed

section \<open>The size of a table\<close>

definition left_count :: "nat list \<Rightarrow> nat \<Rightarrow> nat \<Rightarrow> nat \<Rightarrow> nat" where
  "left_count lens l i m = (if m = l then len_count lens l - i else len_count lens m)"

definition left_counts_ok :: "uint16 list \<Rightarrow> nat list \<Rightarrow> nat \<Rightarrow> nat \<Rightarrow> bool" where
  "left_counts_ok count lens l i \<longleftrightarrow> length count = 16 \<and> (\<forall>m \<in> {l..15}. count ! m = of_nat (left_count lens l i m))"

lemma left_counts_okD:
  assumes "left_counts_ok count lens l i" and "length lens < 2 ^ 16" and "l \<le> m" and "m \<le> 15"
  shows "arr_geti count (int m) = Some (of_nat (left_count lens l i m))"
    and "uint (of_nat (left_count lens l i m) :: uint16) = int (left_count lens l i m)"
proof -
  have "left_count lens l i m \<le> len_count lens m" by (simp add: left_count_def)
  then have "left_count lens l i m < 2 ^ 16" using assms(2) len_count_le [of lens m] by simp
  then show "uint (of_nat (left_count lens l i m) :: uint16) = int (left_count lens l i m)"
    unfolding uint_nat by (simp add: unat_of_nat_small)
  show "arr_geti count (int m) = Some (of_nat (left_count lens l i m))"
    using assms(1,3,4) by (simp add: left_counts_ok_def arr_geti_def)
qed

lemma level_start:
  assumes "8 < l" and "i < len_count lens l" and "code_at lens l i = P * 2 ^ (l - 8)"
    and "l \<le> m" and "y = (if m = l then code_at lens l i else first_code lens m)"
  shows "P * 2 ^ (m - 8) \<le> y" and "first_code lens m \<le> y" and "y + left_count lens l i m = code_at lens m (len_count lens m)"
proof -
  show "first_code lens m \<le> y" "y + left_count lens l i m = code_at lens m (len_count lens m)"
    using assms(2,5) by (auto simp: left_count_def)
  show "P * 2 ^ (m - 8) \<le> y"
  proof (cases "m = l")
    case False
    then have lm: "l < m" using assms(4) by simp
    then have "2 ^ (l - 8) * 2 ^ (m - l) = (2::nat) ^ (m - 8)" using assms(1) by (simp flip: power_add)
    then have "P * 2 ^ (m - 8) = code_at lens l i * 2 ^ (m - l)" unfolding assms(3) by (simp only: mult.assoc)
    also have "\<dots> \<le> code_at lens l (len_count lens l) * 2 ^ (m - l)" using assms(2) by (intro mult_le_mono1) simp
    also have "\<dots> \<le> first_code lens m" using first_code_step [of l m lens] assms(1) lm by simp
    finally show ?thesis using False assms(5) by simp
  qed (use assms(3,5) in simp)
qed

lemma next_table_loop_spec:
  assumes "complete_code lens" and "length lens < 2 ^ 16" and "left_counts_ok count lens l i"
    and "8 < l" and "i < len_count lens l" and "code_at lens l i = P * 2 ^ (l - 8)" and "P < 256"
    and "l \<le> m" and "m \<le> 15" and "y = (if m = l then code_at lens l i else first_code lens m)"
    and "y < (P + 1) * 2 ^ (m - 8)"
  shows "next_table_loop count (int m) (int ((P + 1) * 2 ^ (m - 8) - y)) = Some (int (8 + sub_bits lens P))"
  using assms(8-11)
proof (induction "15 - m" arbitrary: m y)
  case (0 m y)
  then have m: "m = 15" by simp
  note y = level_start [OF assms(4-6) 0(2,4)]
  have "(P + 1) * 2 ^ (m - 8) \<le> 256 * 2 ^ (m - 8)" using assms(7) by (intro mult_le_mono1) simp
  also have "\<dots> = code_at lens m (len_count lens m)" using assms(1) m by (simp add: complete_code_def)
  finally have "y < code_at lens m (len_count lens m)" using 0(5) by linarith
  then have "m \<le> 8 + sub_bits lens P"
    using assms(4) 0(2) by (intro prefix_reaches(1) [OF _ y(1) 0(5) y(2)]) simp_all
  then have "8 + sub_bits lens P = 15" using sub_bits_le [OF assms(1), of P] m by simp
  then show ?case using m by (subst next_table_loop.simps) simp
next
  case (Suc n m y)
  then have m: "m < 15" "n = 15 - Suc m" "8 < m" using assms(4) by simp_all
  note y = level_start [OF assms(4-6) Suc(3,5)]
  note c = left_counts_okD [OF assms(3,2) Suc(3,4)]
  define d where "d = (P + 1) * 2 ^ (m - 8)"
  have "0 < m" using m(3) by simp
  have left: "int (d - y) - uint (of_nat (left_count lens l i m) :: uint16) = int d - int (code_at lens m (len_count lens m))"
    unfolding c(2) y(3) [symmetric] using Suc.prems(4) by (simp add: d_def)
  have d2: "(P + 1) * 2 ^ (Suc m - 8) = 2 * d"
  proof -
    have "Suc m - 8 = Suc (m - 8)" using m(3) by simp
    then show ?thesis by (simp add: d_def)
  qed
  show ?case
  proof (cases "d \<le> code_at lens m (len_count lens m)")
    case True
    then have "y < code_at lens m (len_count lens m)" using Suc.prems(4) by (simp add: d_def)
    note r = prefix_reaches [OF m(3) y(1) Suc.prems(4) y(2) this]
    have "8 + sub_bits lens P \<le> m" using True r(2) m(3) by (intro prefix_ends) (simp_all add: d_def)
    then have eq: "8 + sub_bits lens P = m" using r(1) by simp
    have "int (d - y) - uint (of_nat (left_count lens l i m) :: uint16) \<le> 0" unfolding left using True by simp
    then show ?thesis
      unfolding d_def [symmetric] eq using c(1) m(1) by (subst next_table_loop.simps) (simp add: Let_def)
  next
    case False
    have f: "first_code lens (Suc m) = 2 * code_at lens m (len_count lens m)" by (rule first_code_Suc [OF \<open>0 < m\<close>])
    have "first_code lens (Suc m) < (P + 1) * 2 ^ (Suc m - 8)" unfolding d2 f using False by simp
    from Suc.hyps(1) [OF m(2) _ _ _ this] have
      "next_table_loop count (int (Suc m)) (int (2 * d - first_code lens (Suc m))) = Some (int (8 + sub_bits lens P))"
      using Suc.prems(1) m(1) unfolding d2 by simp
    moreover have "int (2 * d - first_code lens (Suc m)) = (int d - int (code_at lens m (len_count lens m))) * 2"
      unfolding f using False by simp
    ultimately show ?thesis
      using c(1) left False m(1) unfolding d_def [symmetric]
      by (subst next_table_loop.simps) (simp add: Let_def add.commute del: first_code.simps)
  qed
qed

lemma NextTableBitSize_spec:
  assumes "complete_code lens" and "length lens < 2 ^ 16" and "left_counts_ok count lens l i"
    and "8 < l" and "l \<le> 15" and "i < len_count lens l" and "code_at lens l i = P * 2 ^ (l - 8)" and "P < 256"
  shows "NextTableBitSize count (int l) 8 = Some (int (sub_bits lens P))"
proof -
  have "(P + 1) * 2 ^ (l - 8) - code_at lens l i = 2 ^ (l - 8)" unfolding assms(7) by simp
  moreover have "code_at lens l i < (P + 1) * 2 ^ (l - 8)" unfolding assms(7) by simp
  ultimately have "next_table_loop count (int l) (2 ^ (l - 8)) = Some (int (8 + sub_bits lens P))"
    using next_table_loop_spec [OF assms(1-4,6-8) order_refl assms(5), of "code_at lens l i"] by simp
  moreover have "nat (int l - 8) = l - 8" by (simp add: nat_diff_distrib)
  ultimately show ?thesis using assms(4) by (simp add: NextTableBitSize_def)
qed

section \<open>The cells\<close>

definition pointer :: "nat list \<Rightarrow> nat \<Rightarrow> HuffmanCode" where
  "pointer lens P = ConstructHuffmanCode (of_nat (8 + sub_bits lens P)) (of_nat (table_off lens P - rev_bits 8 P))"

definition pointers :: "nat list \<Rightarrow> nat \<Rightarrow> HuffmanCode list \<Rightarrow> nat \<Rightarrow> bool" where
  "pointers lens base tbl key \<longleftrightarrow> (\<forall>P < key. sub_syms lens P \<noteq> [] \<longrightarrow> tbl ! (base + rev_bits 8 P) = pointer lens P)"

definition long_cells :: "nat list \<Rightarrow> nat \<Rightarrow> HuffmanCode list \<Rightarrow> nat \<Rightarrow> nat \<Rightarrow> bool" where
  "long_cells lens base tbl l i \<longleftrightarrow> (\<forall>j k P q. before lens l i j k \<longrightarrow> 8 < j \<longrightarrow> P = code_at lens j k div 2 ^ (j - 8) \<longrightarrow>
     q < 2 ^ sub_bits lens P \<longrightarrow> rev_bits (j - 8) q = code_at lens j k mod 2 ^ (j - 8) \<longrightarrow>
     tbl ! (base + table_off lens P + q) = cell lens (j - 8) j k)"

definition cells_ok :: "nat list \<Rightarrow> nat \<Rightarrow> HuffmanCode list \<Rightarrow> nat \<Rightarrow> nat \<Rightarrow> nat \<Rightarrow> bool" where
  "cells_ok lens base tbl l i key \<longleftrightarrow>
     root_cells lens 8 base tbl 9 0 \<and> pointers lens base tbl key \<and> long_cells lens base tbl l i"

lemma rev_bits_8_less: "rev_bits 8 P < 256"
  using rev_bits_less [of 8 P] by simp

lemma open_cells:
  assumes "cells_ok lens base tbl l i key" and "8 < l" and "i < len_count lens l"
    and "code_at lens l i = key * 2 ^ (l - 8)" and "key < 256" and "base + 256 \<le> length tbl"
  shows "cells_ok lens base (tbl[base + rev_bits 8 key := pointer lens key]) l i (Suc key)"
proof -
  define t where "t = tbl[base + rev_bits 8 key := pointer lens key]"
  have lt: "base + rev_bits 8 key < length tbl" using rev_bits_8_less [of key] assms(6) by linarith
  have rr: "rev_bits 8 (rev_bits 8 key) = key" unfolding rev_bits_rev_bits using assms(5) by simp
  have same: "t ! (base + q) = tbl ! (base + q)" if "q \<noteq> rev_bits 8 key" for q using that by (simp add: t_def)
  have "root_cells lens 8 base t 9 0"
    unfolding root_cells_def
  proof (intro allI impI)
    fix j k p assume b: "before lens 9 0 j k" and p: "p < 2 ^ 8" "rev_bits j p = code_at lens j k"
    then have j: "0 < j" "j \<le> 8" "k < len_count lens j" "j \<le> l" "j \<noteq> l"
      using assms(2) by (auto simp: before_def)
    have "p \<noteq> rev_bits 8 key"
    proof
      assume "p = rev_bits 8 key"
      then have "code_at lens j k = key div 2 ^ (8 - j)" using p(2) rr rev_bits_prefix [OF j(2), of p] by simp
      also have "\<dots> = code_at lens l i div 2 ^ (l - j)"
      proof -
        have "l - j = (l - 8) + (8 - j)" using j(2) assms(2) by simp
        then show ?thesis unfolding assms(4) by (simp only: power_add div_mult2_eq nonzero_mult_div_cancel_right power_not_zero)
            (simp add: div_mult2_eq)
      qed
      finally show False using code_prefix_free [OF j(1,4,3), of i] j(5) by simp
    qed
    then show "t ! (base + p) = cell lens j j k" using same b p assms(1) by (simp add: cells_ok_def root_cells_def)
  qed
  moreover have "pointers lens base t (Suc key)"
    unfolding pointers_def
  proof (intro allI impI)
    fix P assume P: "P < Suc key" "sub_syms lens P \<noteq> []"
    show "t ! (base + rev_bits 8 P) = pointer lens P"
    proof (cases "P = key")
      case True
      then show ?thesis using lt by (simp add: t_def)
    next
      case False
      then have "rev_bits 8 P \<noteq> rev_bits 8 key" using P(1) rr assms(5) rev_bits_rev_bits [of 8 P] by auto
      then show ?thesis using same P False assms(1) by (simp add: cells_ok_def pointers_def)
    qed
  qed
  moreover have "long_cells lens base t l i"
  proof -
    have "t ! (base + table_off lens P + q) = tbl ! (base + table_off lens P + q)" for P q
      using same [of "table_off lens P + q"] table_off_ge [of lens P] rev_bits_8_less [of key] by (simp add: add.assoc)
    then show ?thesis using assms(1) by (simp add: cells_ok_def long_cells_def)
  qed
  ultimately show ?thesis by (simp add: cells_ok_def t_def)
qed

lemma table_range:
  assumes "sub_syms lens P \<noteq> []" and "q < 2 ^ sub_bits lens P" and "P < Q"
  shows "table_off lens P + q < table_off lens Q"
  using table_off_next [OF assms(1)] table_off_mono [of "Suc P" Q lens] assms(2,3) by simp

lemma code_split:
  assumes "j \<le> l" and "8 < j" and "c div 2 ^ (l - 8) = P" and "d div 2 ^ (j - 8) = P"
    and "rev_bits (l - 8) q = c mod 2 ^ (l - 8)" and "rev_bits (j - 8) q = d mod 2 ^ (j - 8)"
  shows "c div 2 ^ (l - j) = (d :: nat)"
proof -
  have e: "l - 8 - (j - 8) = l - j" "l - 8 = (j - 8) + (l - j)" using assms(1,2) by simp_all
  have "c = P * 2 ^ (l - 8) + c mod 2 ^ (l - 8)" using div_mult_mod_eq [of c "2 ^ (l - 8)"] assms(3) by simp
  then have c: "c = (P * 2 ^ (j - 8)) * 2 ^ (l - j) + c mod 2 ^ (l - 8)" unfolding e(2) power_add by (simp only: mult.assoc)
  have "c div 2 ^ (l - j) = P * 2 ^ (j - 8) + (c mod 2 ^ (l - 8)) div 2 ^ (l - j)"
    by (subst c) simp
  also have "(c mod 2 ^ (l - 8)) div 2 ^ (l - j) = d mod 2 ^ (j - 8)"
    using rev_bits_prefix [of "j - 8" "l - 8" q] diff_le_mono [OF assms(1), of 8] unfolding assms(5,6) e(1) by simp
  also have "P * 2 ^ (j - 8) + d mod 2 ^ (j - 8) = d" using div_mult_mod_eq [of d "2 ^ (j - 8)"] assms(4) by simp
  finally show ?thesis .
qed

lemma code_prefix_less:
  assumes "complete_code lens" and "8 < j" and "j \<le> 15" and "k < len_count lens j"
  shows "code_at lens j k div 2 ^ (j - 8) < 256"
proof -
  have "code_at lens j k < 2 ^ j" using code_strict [OF assms(1) _ assms(3,4)] assms(2) by simp
  also have "(2::nat) ^ j = 256 * 2 ^ (j - 8)" using power_add [of "2 :: nat" 8 "j - 8"] assms(2) by simp
  finally show ?thesis by (rule less_mult_imp_div_less)
qed

lemma fill_cells:
  assumes "cells_ok lens base tbl l i (Suc P)" and "8 < l" and "i < len_count lens l"
    and "code_at lens l i div 2 ^ (l - 8) = P" and "P < 256" and "base + table_cells lens \<le> length tbl"
    and "complete_code lens" and "l \<le> 15"
  shows "\<exists>t. ReplicateValue tbl (int (base + table_off lens P) + int (rev_bits (l - 8) (code_at lens l i mod 2 ^ (l - 8))))
        (2 ^ (l - 8)) (2 ^ sub_bits lens P) (cell lens (l - 8) l i) = Some t \<and>
      frame base (base + table_cells lens) tbl t \<and> cells_ok lens base t l (Suc i) (Suc P)"
proof -
  define c where "c = code_at lens l i"
  note s = sub_syms_entry [OF assms(2,3)]
  have ne: "sub_syms lens P \<noteq> []" using s unfolding assms(4) by auto
  have l: "l - 8 \<le> sub_bits lens P" using sub_bits_ge [OF s] syms_nth(2) [OF assms(3)] unfolding assms(4) by simp
  have off: "table_off lens P + 2 ^ sub_bits lens P \<le> table_cells lens"
    using table_off_next [OF ne] table_off_mono [of "Suc P" 256 lens] assms(5) by simp
  have "c mod 2 ^ (l - 8) < 2 ^ (l - 8)" by simp
  moreover have "base + table_off lens P + 2 ^ sub_bits lens P \<le> length tbl" using off assms(6) by simp
  ultimately obtain t where t: "ReplicateValue tbl (int (base + table_off lens P) + int (rev_bits (l - 8) (c mod 2 ^ (l - 8))))
        (2 ^ (l - 8)) (2 ^ sub_bits lens P) (cell lens (l - 8) l i) = Some t"
    "frame (base + table_off lens P) (base + table_off lens P + 2 ^ sub_bits lens P) tbl t"
    "\<And>q. q < 2 ^ sub_bits lens P \<Longrightarrow> t ! (base + table_off lens P + q) =
       (if rev_bits (l - 8) q = c mod 2 ^ (l - 8) then cell lens (l - 8) l i else tbl ! (base + table_off lens P + q))"
    using replicate_code [OF _ l, of "c mod 2 ^ (l - 8)" "base + table_off lens P" tbl "cell lens (l - 8) l i"] by auto
  have fr: "frame base (base + table_cells lens) tbl t" by (rule frame_mono [OF t(2)]) (use off in simp_all)
  have low: "t ! (base + q) = tbl ! (base + q)" if "q < 256" for q
    using t(2) that table_off_ge [of lens P] table_off_ge [of lens 256] assms(6) by (simp add: frame_def)
  have "root_cells lens 8 base t 9 0" "pointers lens base t (Suc P)"
    using assms(1) low rev_bits_8_less by (simp_all add: cells_ok_def root_cells_def pointers_def)
  moreover have "long_cells lens base t l (Suc i)"
    unfolding long_cells_def
  proof (intro allI impI)
    fix j k Q q
    assume b: "before lens l (Suc i) j k" and j: "8 < j" and Q: "Q = code_at lens j k div 2 ^ (j - 8)"
      and q: "q < 2 ^ sub_bits lens Q" "rev_bits (j - 8) q = code_at lens j k mod 2 ^ (j - 8)"
    show "t ! (base + table_off lens Q + q) = cell lens (j - 8) j k"
    proof (cases "j = l \<and> k = i")
      case True
      then show ?thesis using t(3) [of q] q Q assms(4) by (simp add: c_def)
    next
      case False
      then have b': "before lens l i j k" using b by (auto simp: before_def)
      then have jl: "0 < j" "j \<le> l" "k < len_count lens j" "j = l \<Longrightarrow> k < i" using assms(3) by (auto simp: before_def)
      have neQ: "sub_syms lens Q \<noteq> []" using sub_syms_entry [OF j jl(3)] Q by auto
      have "t ! (base + table_off lens Q + q) = tbl ! (base + table_off lens Q + q)"
      proof (cases "Q = P")
        case True
        have "rev_bits (l - 8) q \<noteq> c mod 2 ^ (l - 8)"
        proof
          assume "rev_bits (l - 8) q = c mod 2 ^ (l - 8)"
          from code_split [OF jl(2) j _ _ this q(2), of P] show False
            using code_prefix_free [OF jl] assms(4) Q True by (simp add: c_def)
        qed
        then show ?thesis using t(3) [of q] q(1) True by simp
      next
        case False
        then consider "table_off lens Q + q < table_off lens P" | "table_off lens P + 2 ^ sub_bits lens P \<le> table_off lens Q"
          using table_range [OF neQ q(1), of P] table_off_next [OF ne] table_off_mono [of "Suc P" Q lens]
          by (metis Suc_leI linorder_neqE_nat)
        moreover have "base + table_off lens Q + q < length tbl"
          using table_range [OF neQ q(1) code_prefix_less [OF assms(7) j _ jl(3), folded Q]] jl(2) assms(6,8) by simp
        ultimately show ?thesis using t(2) by (cases, simp_all add: frame_def)
      qed
      then show ?thesis using assms(1) b' j Q q by (simp add: cells_ok_def long_cells_def)
    qed
  qed
  ultimately show ?thesis using t(1) fr by (intro exI [of _ t]) (simp add: c_def cells_ok_def)
qed

section \<open>The loops\<close>

text \<open>The place of the next code: \<open>key\<close> tables of prefixes are open, and of the last one \<open>sub\<close> of 256
  parts are full.\<close>

definition place :: "nat list \<Rightarrow> nat \<Rightarrow> nat \<Rightarrow> nat \<Rightarrow> nat \<Rightarrow> bool" where
  "place lens l i key sub \<longleftrightarrow> sub \<le> 256 \<and> key * 256 + sub = code_at lens l i * 2 ^ (16 - l) + 256"

definition hb_inv :: "nat list \<Rightarrow> nat \<Rightarrow> HuffmanCode list \<Rightarrow> nat \<Rightarrow> nat \<Rightarrow> nat \<Rightarrow> nat \<Rightarrow> hb_state \<Rightarrow> bool" where
  "hb_inv lens base tbl0 l i key sub st \<longleftrightarrow> place lens l i key sub \<and>
     hb_key st = of_nat key \<and> hb_sub_key st = of_nat sub \<and>
     hb_table st + hb_table_size st = table_off lens key \<and> hb_total_size st = table_off lens key \<and>
     (sub < 256 \<longrightarrow> hb_table st = table_off lens (key - 1) \<and> hb_table_size st = 2 ^ sub_bits lens (key - 1)) \<and>
     frame base (base + table_cells lens) tbl0 (hb_tbl st) \<and> cells_ok lens base (hb_tbl st) l i key"

lemma place_full:
  assumes "place lens l i key 256" and "8 < l" and "l \<le> 16"
  shows "code_at lens l i = key * 2 ^ (l - 8)"
proof -
  have w: "2 ^ (l - 8) * 2 ^ (16 - l) = (256::nat)" using assms(2,3) by (simp flip: power_add)
  have "code_at lens l i * 2 ^ (16 - l) = key * (2 ^ (l - 8) * 2 ^ (16 - l))"
    unfolding w using assms(1) by (simp add: place_def)
  also have "\<dots> = key * 2 ^ (l - 8) * 2 ^ (16 - l)" by (rule mult.assoc [symmetric])
  finally show ?thesis by simp
qed

lemma place_part:
  assumes "place lens l i key sub" and "sub < 256" and "8 < l" and "l \<le> 16"
  shows "key = Suc (code_at lens l i div 2 ^ (l - 8))" and "sub = code_at lens l i mod 2 ^ (l - 8) * 2 ^ (16 - l)"
proof -
  define P where "P = key - 1"
  have key: "key = Suc P" using assms(1,2) by (cases key) (simp_all add: place_def P_def)
  then have c: "code_at lens l i * 2 ^ (16 - l) = P * 256 + sub" using assms(1) by (simp add: place_def)
  have w: "(256::nat) = 2 ^ (l - 8) * 2 ^ (16 - l)" using assms(3,4) by (simp flip: power_add)
  have "code_at lens l i div 2 ^ (l - 8) = code_at lens l i * 2 ^ (16 - l) div 256" unfolding w by simp
  also have "\<dots> = P" unfolding c using assms(2) by simp
  finally show "key = Suc (code_at lens l i div 2 ^ (l - 8))" using key by simp
  have "code_at lens l i mod 2 ^ (l - 8) * 2 ^ (16 - l) = code_at lens l i * 2 ^ (16 - l) mod 256"
    unfolding w by (rule mod_mult_mult2 [symmetric])
  also have "\<dots> = sub" unfolding c using assms(2) by simp
  finally show "sub = code_at lens l i mod 2 ^ (l - 8) * 2 ^ (16 - l)" by simp
qed

lemma place_next:
  assumes "place lens l i key sub" and "sub < 256" and "8 < l" and "l \<le> 16"
  shows "place lens l (Suc i) key (sub + 2 ^ (16 - l))"
proof -
  have "(code_at lens l i mod 2 ^ (l - 8) + 1) * 2 ^ (16 - l) \<le> 2 ^ (l - 8) * 2 ^ (16 - l)"
    by (intro mult_le_mono1) (simp add: Suc_leI)
  also have "\<dots> = 256" using assms(3,4) by (simp flip: power_add)
  finally have "sub + 2 ^ (16 - l) \<le> 256" using place_part(2) [OF assms] by simp
  then show ?thesis using assms(1) by (simp add: place_def)
qed

lemma place_key_le:
  assumes "place lens l i key sub" and "complete_code lens" and "0 < l" and "l \<le> 15" and "i < len_count lens l"
  shows "key \<le> 256" and "sub = 256 \<Longrightarrow> key < 256"
proof -
  have "code_at lens l i * 2 ^ (16 - l) < 2 ^ l * 2 ^ (16 - l)" using code_strict [OF assms(2-5)] by simp
  also have "\<dots> = (65536::nat)" using assms(4) by (simp flip: power_add)
  finally have "key * 256 + sub < 65536 + 256" using assms(1) by (simp add: place_def)
  then show "key \<le> 256" "sub = 256 \<Longrightarrow> key < 256" by simp_all
qed

lemma ucast_small: "x < 2 ^ 16 \<Longrightarrow> ucast (of_nat x :: uint64) = (of_nat x :: uint16)"
  by (rule word_of_natI) (simp add: unsigned_ucast_eq unat_of_nat_small take_bit_nat_eq_self)

lemma hb_open_spec:
  assumes "hb_inv lens base tbl0 l i key sub st" and "complete_code lens" and "length lens < 2 ^ 16"
    and "left_counts_ok (hb_count st) lens l i" and "8 < l" and "l \<le> 15" and "i < len_count lens l"
    and "base + table_cells lens \<le> length tbl0"
  shows "\<exists>key' sub' st'. hb_open_table base 8 (int l) 1 st = Some st' \<and> sub' < 256 \<and>
    hb_inv lens base tbl0 l i key' sub' st' \<and> hb_count st' = hb_count st \<and> hb_symbol st' = hb_symbol st"
proof (cases "sub = 256")
  case False
  have pl: "sub < 256" using assms(1) False by (simp add: hb_inv_def place_def)
  then have "unat (of_nat sub :: uint64) = sub" by (simp add: unat_of_nat_small)
  then have "hb_sub_key st \<noteq> push_bit 1 BROTLI_REVERSE_BITS_LOWEST"
    using assms(1) pl by (auto simp: hb_inv_def BROTLI_REVERSE_BITS_LOWEST_def word_unat_eq_iff)
  then show ?thesis using assms(1) pl by (intro exI [of _ key] exI [of _ sub] exI [of _ st]) (simp add: hb_open_table_def)
next
  case True
  note inv = assms(1) [unfolded hb_inv_def True]
  have pl: "place lens l i key 256" using inv by simp
  have c: "code_at lens l i = key * 2 ^ (l - 8)" using place_full [OF pl assms(5)] assms(6) by simp
  have key: "key < 256" using place_key_le(2) [OF pl assms(2) _ assms(6,7)] assms(5) by simp
  have ne: "sub_syms lens key \<noteq> []" using sub_syms_entry [OF assms(5,7)] c by auto
  note bits = NextTableBitSize_spec [OF assms(2-7) c key]
  obtain r where r: "BrotliReverseBits (of_nat key) = Some r" "unat r = rev_bits 8 key"
    using BrotliReverseBits_spec [OF key] by blast
  define v where "v = table_off lens key - rev_bits 8 key"
  have "table_off lens key \<le> 256 + 128 * 256" using table_off_le [OF assms(2), of key] key by simp
  then have v: "v < 2 ^ 16" "table_off lens key = v + rev_bits 8 key"
    using table_off_ge [of lens key] rev_bits_8_less [of key] by (simp_all add: v_def)
  have "(of_nat (table_off lens key) :: uint64) - r = of_nat v"
    unfolding v(2) word_of_natI [OF r(2)] of_nat_add by (rule add_diff_cancel_right')
  then have val: "ucast ((of_nat (table_off lens key) :: uint64) - r) = (of_nat v :: uint16)"
    using ucast_small [OF v(1)] by simp
  have len: "base + 256 \<le> length (hb_tbl st)"
    using inv assms(8) table_off_ge [of lens 256] by (simp add: frame_def)
  define st' where "st' = st\<lparr>hb_tbl := (hb_tbl st)[base + rev_bits 8 key := pointer lens key],
      hb_table := table_off lens key, hb_table_size := 2 ^ sub_bits lens key,
      hb_total_size := table_off lens key + 2 ^ sub_bits lens key, hb_key := of_nat key + 1, hb_sub_key := 0\<rparr>"
  have "base + rev_bits 8 key < length (hb_tbl st)" using len rev_bits_8_less [of key] by linarith
  then have set: "arr_set (hb_tbl st) (base + unat r) (pointer lens key) = Some ((hb_tbl st)[base + rev_bits 8 key := pointer lens key])"
    unfolding r(2) by (rule arr_set_Some)
  have sk: "hb_sub_key st = push_bit 1 BROTLI_REVERSE_BITS_LOWEST"
    using inv by (simp add: BROTLI_REVERSE_BITS_LOWEST_def)
  have f: "hb_key st = of_nat key" "hb_table st + hb_table_size st = table_off lens key" "hb_total_size st = table_off lens key"
    using inv by simp_all
  have ptr: "ConstructHuffmanCode (of_int (int (sub_bits lens key) + 8)) (of_nat v) = pointer lens key"
    by (simp add: pointer_def v_def add.commute)
  have run: "hb_open_table base 8 (int l) 1 st = Some st'"
    unfolding hb_open_table_def if_P [OF sk] Let_def f bits bind.bind_lunit r(1) val ptr set st'_def nat_int ..
  have "frame base (base + table_cells lens) (hb_tbl st) (hb_tbl st')"
    using rev_bits_8_less [of key] table_off_ge [of lens 256] by (auto simp: frame_def st'_def nth_list_update)
  moreover have "cells_ok lens base (hb_tbl st') l i (Suc key)"
    using open_cells [OF _ assms(5,7) c key len] inv by (simp add: st'_def)
  moreover have "place lens l i (Suc key) 0" using pl by (simp add: place_def)
  ultimately have "hb_inv lens base tbl0 l i (Suc key) 0 st'"
    using inv table_off_next [OF ne] frame_trans [of base "base + table_cells lens" tbl0 "hb_tbl st"]
    by (simp add: hb_inv_def st'_def)
  then show ?thesis using run by (intro exI [of _ "Suc key"] exI [of _ 0] exI [of _ st']) (simp add: st'_def)
qed

lemma hb_second_step_spec:
  assumes "hb_inv lens base tbl0 l i key sub st" and "complete_code lens" and "chain_ok sl lens"
    and "left_counts_ok (hb_count st) lens l i" and "8 < l" and "l \<le> 15" and "i < len_count lens l"
    and "base + table_cells lens \<le> length tbl0" and "hb_symbol st = link lens l i"
  shows "\<exists>key' sub' st'. hb_second_step sl base 8 (int l) (2 ^ (l - 8)) 1 (of_nat (2 ^ (16 - l))) st = Some st' \<and>
    hb_inv lens base tbl0 l (Suc i) key' sub' st' \<and> 0 < sub' \<and> hb_count st' = hb_count st \<and>
    hb_symbol st' = link lens l (Suc i)"
proof -
  have ll: "length lens < 2 ^ 16" using assms(3) by (simp add: chain_ok_def)
  obtain k s st1 where o: "hb_open_table base 8 (int l) 1 st = Some st1" "s < 256"
    "hb_inv lens base tbl0 l i k s st1" "hb_count st1 = hb_count st" "hb_symbol st1 = hb_symbol st"
    using hb_open_spec [OF assms(1,2) ll assms(4-8)] by blast
  define c where "c = code_at lens l i"
  define P where "P = c div 2 ^ (l - 8)"
  have l16: "l \<le> 16" using assms(6) by simp
  note inv = o(3) [unfolded hb_inv_def]
  have pl: "place lens l i k s" using inv by simp
  have ks: "k = Suc P" "s = c mod 2 ^ (l - 8) * 2 ^ (8 - (l - 8))"
    using place_part [OF pl o(2) assms(5) l16] assms(5,6) by (simp_all add: P_def c_def)
  have P: "P < 256" using code_prefix_less [OF assms(2,5,6,7)] by (simp add: P_def c_def)
  note ch = chain_okD [OF assms(3) _ assms(6,7)]
  obtain r where r: "BrotliReverseBits (of_nat s) = Some r" "uint r = int (rev_bits (l - 8) (c mod 2 ^ (l - 8)))"
    using BrotliReverseBits_spec [OF o(2)] rev_bits_shift [of "l - 8" 8 "c mod 2 ^ (l - 8)"] assms(6) unfolding ks(2) by auto
  have fields: "hb_sub_key st1 = of_nat s" "hb_table st1 = table_off lens P" "hb_table_size st1 = 2 ^ sub_bits lens P"
    "cells_ok lens base (hb_tbl st1) l i (Suc P)" "frame base (base + table_cells lens) tbl0 (hb_tbl st1)"
    using inv o(2) ks(1) by simp_all
  have len: "base + table_cells lens \<le> length (hb_tbl st1)" using fields(5) assms(8) by (simp add: frame_def)
  obtain t where t: "ReplicateValue (hb_tbl st1) (int (base + table_off lens P) + int (rev_bits (l - 8) (c mod 2 ^ (l - 8))))
        (2 ^ (l - 8)) (2 ^ sub_bits lens P) (cell lens (l - 8) l i) = Some t"
    "frame base (base + table_cells lens) (hb_tbl st1) t" "cells_ok lens base t l (Suc i) (Suc P)"
    using fill_cells [OF fields(4) assms(5,7) _ P len assms(2,6)] unfolding P_def c_def by blast
  have code: "ConstructHuffmanCode (of_int (int l - 8)) (of_nat (syms lens l ! i)) = cell lens (l - 8) l i"
  proof -
    have "int l - 8 = int (l - 8)" using assms(5) by simp
    then show ?thesis by (simp only: of_int_of_nat_eq)
  qed
  have size: "int (2 ^ sub_bits lens P) = 2 ^ sub_bits lens P" by simp
  have ch: "symbol_list_get sl (hb_symbol st1) = Some (of_nat (syms lens l ! i))"
    "uint (of_nat (syms lens l ! i) :: uint16) = link lens l (Suc i)"
    using chain_okD [OF assms(3) _ assms(6,7)] assms(5,9) o(5) by simp_all
  define st' where "st' = st1\<lparr>hb_tbl := t, hb_symbol := link lens l (Suc i),
      hb_sub_key := of_nat s + of_nat (2 ^ (16 - l))\<rparr>"
  have "hb_second_step sl base 8 (int l) (2 ^ (l - 8)) 1 (of_nat (2 ^ (16 - l))) st = Some st'"
    unfolding hb_second_step_def o(1) bind.bind_lunit ch Let_def code fields(1-3) r t(1) size st'_def ..
  moreover have "hb_inv lens base tbl0 l (Suc i) k (s + 2 ^ (16 - l)) st'"
    using inv place_next [OF pl o(2) assms(5) l16] frame_trans [OF fields(5) t(2)] t(3) ks(1) o(2)
    by (simp add: hb_inv_def st'_def)
  ultimately show ?thesis using o(4)
    by (intro exI [of _ k] exI [of _ "s + 2 ^ (16 - l)"] exI [of _ st']) (simp add: st'_def)
qed

lemma hb_second_len_spec:
  assumes "hb_inv lens base tbl0 l i key sub st" and "0 < sub" and "complete_code lens" and "chain_ok sl lens"
    and "left_counts_ok (hb_count st) lens l i" and "8 < l" and "l \<le> 15" and "n + i = len_count lens l"
    and "base + table_cells lens \<le> length tbl0" and "hb_symbol st = link lens l i"
  shows "\<exists>key' sub' st'. hb_second_len sl base 8 (int l) (2 ^ (l - 8)) 1 (of_nat (2 ^ (16 - l))) n st = Some st' \<and>
    hb_inv lens base tbl0 l (len_count lens l) key' sub' st' \<and> 0 < sub' \<and>
    left_counts_ok (hb_count st') lens l (len_count lens l)"
  using assms(1,2,5,8,10)
proof (induction n arbitrary: i key sub st)
  case (Suc n)
  have i: "i < len_count lens l" using Suc.prems(4) by simp
  obtain k s st1 where s: "hb_second_step sl base 8 (int l) (2 ^ (l - 8)) 1 (of_nat (2 ^ (16 - l))) st = Some st1"
    "hb_inv lens base tbl0 l (Suc i) k s st1" "0 < s" "hb_count st1 = hb_count st" "hb_symbol st1 = link lens l (Suc i)"
    using hb_second_step_spec [OF Suc.prems(1) assms(3,4) Suc.prems(3) assms(6,7) i assms(9) Suc.prems(5)] by blast
  define cnt where "cnt = (hb_count st)[l := of_nat n :: uint16]"
  have n: "left_count lens l (Suc i) l = n" using Suc.prems(4) by (simp add: left_count_def)
  have set: "arr_seti (hb_count st1) (int l) (of_nat n) = Some cnt"
    using Suc.prems(3) assms(7) s(4) by (simp add: arr_seti_def cnt_def left_counts_ok_def)
  have "left_counts_ok cnt lens l (Suc i)"
    using Suc.prems(3) n by (auto simp: left_counts_ok_def cnt_def nth_list_update left_count_def)
  moreover have "hb_inv lens base tbl0 l (Suc i) k s (st1\<lparr>hb_count := cnt\<rparr>)" using s(2) by (simp add: hb_inv_def)
  ultimately show ?case
    using Suc.IH [of "Suc i" k s "st1\<lparr>hb_count := cnt\<rparr>"] s(1,3,5) set Suc.prems(4) by simp
qed auto

lemma hb_next_length:
  assumes "hb_inv lens base tbl0 l (len_count lens l) key sub st" and "left_counts_ok (hb_count st) lens l (len_count lens l)"
    and "8 < l" and "l \<le> 15"
  shows "hb_inv lens base tbl0 (Suc l) 0 key sub st" and "left_counts_ok (hb_count st) lens (Suc l) 0"
proof -
  have "(2::nat) ^ (16 - l) = 2 * 2 ^ (16 - Suc l)" using assms(4) by (simp flip: power_Suc)
  then have "place lens (Suc l) 0 key sub" using assms(1,3) by (simp add: hb_inv_def place_def)
  moreover have "long_cells lens base t (Suc l) 0" if "long_cells lens base t l (len_count lens l)" for t
    using that by (auto simp: long_cells_def before_def less_Suc_eq)
  ultimately show "hb_inv lens base tbl0 (Suc l) 0 key sub st"
    using assms(1) by (simp add: hb_inv_def cells_ok_def)
  show "left_counts_ok (hb_count st) lens (Suc l) 0"
    using assms(2) by (auto simp: left_counts_ok_def left_count_def)
qed

end
