(* ===== verification/Huffman_Build_Facts.thy ===== *)
theory Huffman_Build_Facts
  imports Huffman_Second_Level
begin

text \<open>
  \<open>BrotliBuildHuffmanTable\<close> as a whole: for the chains and counts of a complete code it fills the root
  table and the second-level tables, stays inside them, and returns their number of cells.
\<close>

section \<open>The longest length\<close>

definition longest :: "nat list \<Rightarrow> nat \<Rightarrow> bool" where
  "longest lens M \<longleftrightarrow> 0 < M \<and> M \<le> 15 \<and> 0 < len_count lens M \<and> (\<forall>l. M < l \<longrightarrow> len_count lens l = 0)"

lemma len_count_zero: "l \<notin> set lens \<Longrightarrow> len_count lens l = 0"
  by (force simp: syms_def in_set_conv_nth)

lemma longest_exists:
  assumes "complete_code lens"
  shows "\<exists>M. longest lens M"
proof -
  have le: "l \<le> 15" if "0 < len_count lens l" for l
    using that len_count_zero [of l lens] assms unfolding complete_code_def list_all_iff by blast
  have "\<exists>l. 0 < l \<and> 0 < len_count lens l"
  proof (rule ccontr)
    assume "\<not> (\<exists>l. 0 < l \<and> 0 < len_count lens l)"
    then have z: "len_count lens l = 0" if "0 < l" for l using that by blast
    have "first_code lens l = 0" for l by (induction l) (simp_all add: z)
    then show False using z [of 15] assms by (simp add: complete_code_def)
  qed
  then have ne: "{l. 0 < l \<and> 0 < len_count lens l} \<noteq> {}" by blast
  have sub: "{l. 0 < l \<and> 0 < len_count lens l} \<subseteq> {..15}" using le by blast
  then have fin: "finite {l. 0 < l \<and> 0 < len_count lens l}" by (rule finite_subset) simp
  define M where "M = Max {l. 0 < l \<and> 0 < len_count lens l}"
  have "M \<in> {l. 0 < l \<and> 0 < len_count lens l}" unfolding M_def by (rule Max_in [OF fin ne])
  moreover have "len_count lens l = 0" if "M < l" for l
  proof (rule ccontr)
    assume "len_count lens l \<noteq> 0"
    then have "l \<le> M" unfolding M_def using that by (intro Max_ge [OF fin]) simp
    then show False using that by simp
  qed
  ultimately show ?thesis using le by (intro exI [of _ M]) (simp add: longest_def)
qed

lemma max_length_loop_spec:
  assumes "chain_ok sl lens" and "longest lens M" and "M \<le> L" and "L \<le> 15"
  shows "max_length_loop sl (int L - 16) = Some (int M - 16)"
  using assms(3,4)
proof (induction L)
  case (Suc L)
  show ?case
  proof (cases "Suc L = M")
    case True
    have M: "0 < len_count lens M" "0 < M" "M \<le> 15" using assms(2) by (simp_all add: longest_def)
    note ch = chain_okD [OF assms(1) M(2,3,1)]
    have "syms lens M ! 0 < 2 ^ 16 - 1" using syms_nth(1) [OF M(1)] assms(1) by (simp add: chain_ok_def)
    then have "unat (of_nat (syms lens M ! 0) :: uint16) < 65535" by (simp add: unat_of_nat_small)
    then have "(of_nat (syms lens M ! 0) :: uint16) \<noteq> 0xFFFF" by (auto simp: word_unat_eq_iff)
    then show ?thesis unfolding True using ch(1) by (subst max_length_loop.simps) (simp add: link_def)
  next
    case False
    then have L: "M < Suc L" "M \<le> L" "L \<le> 15" using Suc.prems by simp_all
    have "len_count lens (Suc L) = 0" "Suc L \<in> {1..15}" using assms(2) L(1) Suc.prems(2) by (simp_all add: longest_def)
    then have "symbol_list_get sl (int (Suc L) - 16) = Some 0xFFFF"
      using assms(1) unfolding chain_ok_def by blast
    moreover have "int (Suc L) - 16 - 1 = int L - 16" by simp
    ultimately show ?thesis using Suc.IH [OF L(2,3)] by (subst max_length_loop.simps) simp
  qed
qed (use assms(2) in \<open>simp add: longest_def\<close>)

section \<open>The table\<close>

definition table_ok :: "nat list \<Rightarrow> nat \<Rightarrow> HuffmanCode list \<Rightarrow> bool" where
  "table_ok lens base tbl \<longleftrightarrow> cells_ok lens base tbl 16 0 256"

lemma before_longest:
  assumes "longest lens M" and "before lens l 0 j k"
  shows "before lens (Suc M) 0 j k"
proof -
  have "0 < len_count lens j" "0 < j" using assms(2) by (auto simp: before_def)
  then have "j \<le> M" using assms(1) unfolding longest_def by (metis not_less less_irrefl)
  then show ?thesis using assms(2) by (auto simp: before_def)
qed

lemma no_sub_syms:
  assumes "longest lens M" and "M \<le> 8"
  shows "sub_syms lens P = []"
proof (rule ccontr)
  assume "sub_syms lens P \<noteq> []"
  then obtain s where "s \<in> set (sub_syms lens P)" by (cases "sub_syms lens P") auto
  then obtain l k where "8 < l" "k < len_count lens l" by (rule sub_syms_cases)
  then show False using assms unfolding longest_def by (metis le_less_trans not_less0)
qed

lemma no_early_syms:
  assumes "P < code_at lens 8 (len_count lens 8)"
  shows "sub_syms lens P = []"
proof (rule ccontr)
  assume "sub_syms lens P \<noteq> []"
  then obtain s where "s \<in> set (sub_syms lens P)" by (cases "sub_syms lens P") auto
  then obtain l k where l: "8 < l" "code_at lens l k div 2 ^ (l - 8) = P" by (rule sub_syms_cases)
  have "code_at lens 8 (len_count lens 8) * 2 ^ (l - 8) \<le> code_at lens l k"
    using first_code_step [of 8 l lens] l(1) by simp
  then have "code_at lens 8 (len_count lens 8) \<le> P" unfolding l(2) [symmetric] by (simp add: less_eq_div_iff_mult_less_eq)
  then show False using assms by simp
qed

lemma table_off_empty: "(\<And>P. P < Q \<Longrightarrow> sub_syms lens P = []) \<Longrightarrow> table_off lens Q = 256"
  by (induction Q) (simp_all add: table_off.simps(2))

lemma root_table_spec:
  assumes "complete_code lens" and "chain_ok sl lens" and "counts_ok count lens" and "longest lens M"
    and "base + 256 \<le> length tbl" and "tb = min 8 M"
  shows "\<exists>t1 t K. hb_root tbl base tb sl count (2 ^ tb) = Some (t1, of_nat K) \<and>
    double_table t1 base 256 (2 ^ tb) = Some t \<and>
    K * 2 ^ Suc tb = first_code lens (Suc tb) * 256 \<and> frame base (base + 256) tbl t \<and> root_cells lens 8 base t 9 0"
proof -
  have tb: "0 < tb" "tb \<le> 8" using assms(4,6) by (simp_all add: longest_def)
  have p: "(2::nat) ^ tb \<le> 2 ^ 8" by (rule power_increasing) (use tb in simp_all)
  then have "base + 2 ^ tb \<le> length tbl" using assms(5) by simp
  from hb_root_spec [OF assms(1-3) tb this] obtain t1 K where
    t1: "hb_root tbl base tb sl count (2 ^ tb) = Some (t1, of_nat K)" "K * 2 ^ Suc tb = first_code lens (Suc tb) * 256"
    "frame base (base + 2 ^ tb) tbl t1" "root_cells lens tb base t1 (Suc tb) 0" by blast
  have f1: "frame base (base + 256) tbl t1" by (rule frame_mono [OF t1(3)]) (use p in simp_all)
  then have "base + 2 ^ 8 \<le> length t1" using assms(5) by (simp add: frame_def)
  from double_table_spec [OF tb(2) this] obtain t where
    t: "double_table t1 base 256 (2 ^ tb) = Some t" "frame base (base + 256) t1 t"
    "\<And>p. p < 256 \<Longrightarrow> t ! (base + p) = t1 ! (base + p mod 2 ^ tb)" by auto
  have "root_cells lens 8 base t 9 0"
    unfolding root_cells_def
  proof (intro allI impI)
    fix j k p assume b: "before lens 9 0 j k" and p: "p < 2 ^ 8" "rev_bits j p = code_at lens j k"
    have "before lens (Suc M) 0 j k" by (rule before_longest [OF assms(4) b])
    then have b': "before lens (Suc tb) 0 j k" and j: "j \<le> tb"
      using b unfolding assms(6) by (auto simp: before_def min_def)
    have "rev_bits j (p mod 2 ^ tb) = rev_bits j p"
      using rev_bits_mod [of j "p mod 2 ^ tb"] rev_bits_mod [of j p] j by (simp add: mod_mod_cancel le_imp_power_dvd)
    then show "t ! (base + p) = cell lens j j k"
      using t1(4) b' p t(3) [of p] by (simp add: root_cells_def)
  qed
  then show ?thesis using t1(1,2) t(1) frame_trans [OF f1 t(2)] by blast
qed

lemma sub_key_steps:
  "list_all (\<lambda>l. drop_bit (l - 9) BROTLI_REVERSE_BITS_LOWEST = of_nat (2 ^ (16 - l))) [9..<16]"
  by code_simp

definition second_body ::
  "uint16 list \<Rightarrow> nat \<Rightarrow> nat \<Rightarrow> hb_state \<times> int \<times> uint64 \<Rightarrow> (hb_state \<times> int \<times> uint64) option" where
  "second_body sl base = (\<lambda>len (st, step, sub_key_step). do {
         n \<leftarrow> arr_get (hb_count st) len;
         st \<leftarrow> hb_second_len sl base 8 (int len) step 1 sub_key_step (unat n) (st\<lparr>hb_symbol := int len - 16\<rparr>);
         Some (st, step * 2, drop_bit 1 sub_key_step) })"

lemma second_levels_spec:
  assumes "complete_code lens" and "chain_ok sl lens" and "8 < M" and "M \<le> 15"
    and "hb_inv lens base tbl0 9 0 key sub st" and "0 < sub" and "left_counts_ok (hb_count st) lens 9 0"
    and "base + table_cells lens \<le> length tbl0"
  shows "\<exists>key' sub' st' step ks. foldM (second_body sl base) [9..<Suc M] (st, 2, BROTLI_REVERSE_BITS_LOWEST) = Some (st', step, ks) \<and>
    hb_inv lens base tbl0 (Suc M) 0 key' sub' st' \<and> 0 < sub'"
proof -
  define P where "P m x \<longleftrightarrow> (\<exists>key sub st. x = (st, 2 ^ (m - 8), drop_bit (m - 9) BROTLI_REVERSE_BITS_LOWEST) \<and>
    hb_inv lens base tbl0 m 0 key sub st \<and> 0 < sub \<and> left_counts_ok (hb_count st) lens m 0)"
    for m and x :: "hb_state \<times> int \<times> uint64"
  have ll: "length lens < 2 ^ 16" using assms(2) by (simp add: chain_ok_def)
  have "\<exists>x. foldM (second_body sl base) [9..<Suc M] (st, 2, BROTLI_REVERSE_BITS_LOWEST) = Some x \<and> P (Suc M) x"
  proof (rule foldM_upt [where P = P])
    show "P 9 (st, 2, BROTLI_REVERSE_BITS_LOWEST)" using assms(5-7) by (auto simp: P_def)
  next
    fix m x assume m: "9 \<le> m" "m < Suc M" and "P m x"
    then obtain k s st where x: "x = (st, 2 ^ (m - 8), drop_bit (m - 9) BROTLI_REVERSE_BITS_LOWEST)"
      "hb_inv lens base tbl0 m 0 k s st" "0 < s" "left_counts_ok (hb_count st) lens m 0" unfolding P_def by blast
    have m15: "8 < m" "m \<le> 15" "0 < m" using m assms(4) by simp_all
    have "m \<in> set [9..<16]" using m(1) m15(2) by (simp del: upt_rec_numeral)
    then have ks: "drop_bit (m - 9) BROTLI_REVERSE_BITS_LOWEST = of_nat (2 ^ (16 - m))"
      using sub_key_steps unfolding list_all_iff by blast
    have "left_count lens m 0 m = len_count lens m" by (simp add: left_count_def)
    then have n: "arr_get (hb_count st) m = Some (of_nat (len_count lens m))" "unat (of_nat (len_count lens m) :: uint16) = len_count lens m"
      using x(4) m15(2) len_count_le [of lens m] ll by (simp_all add: left_counts_ok_def unat_of_nat_small)
    define st0 where "st0 = st\<lparr>hb_symbol := int m - 16\<rparr>"
    have st0: "hb_inv lens base tbl0 m 0 k s st0" "left_counts_ok (hb_count st0) lens m 0" "hb_symbol st0 = link lens m 0"
      using x(2,4) by (simp_all add: st0_def hb_inv_def link_def)
    obtain k' s' st' where s: "hb_second_len sl base 8 (int m) (2 ^ (m - 8)) 1 (of_nat (2 ^ (16 - m))) (len_count lens m) st0 = Some st'"
      "hb_inv lens base tbl0 m (len_count lens m) k' s' st'" "0 < s'" "left_counts_ok (hb_count st') lens m (len_count lens m)"
      using hb_second_len_spec [OF st0(1) x(3) assms(1,2) st0(2) m15(1,2) _ assms(8) st0(3), of "len_count lens m"] by auto
    have e: "Suc m - 8 = Suc (m - 8)" "Suc m - 9 = Suc (m - 9)" using m(1) by simp_all
    have stp: "(2::int) ^ (m - 8) * 2 = 2 ^ (Suc m - 8)"
      and dd: "drop_bit 1 (drop_bit (m - 9) BROTLI_REVERSE_BITS_LOWEST) = drop_bit (Suc m - 9) BROTLI_REVERSE_BITS_LOWEST"
      using e by (simp_all add: drop_bit_drop_bit del: diff_Suc_Suc)
    have "second_body sl base m x = Some (st', 2 ^ (Suc m - 8), drop_bit (Suc m - 9) BROTLI_REVERSE_BITS_LOWEST)"
      unfolding x(1) second_body_def prod.case n bind.bind_lunit st0_def [symmetric] s(1) [folded ks] stp dd ..
    then show "\<exists>x'. second_body sl base m x = Some x' \<and> P (Suc m) x'"
      using hb_next_length [OF s(2,4) m15(1,2)] s(3) unfolding P_def by blast
  qed (use assms(3) in simp)
  then show ?thesis unfolding P_def by blast
qed

text \<open>The codes of the longest length fill the last table.\<close>

lemma longest_full:
  assumes "complete_code lens" and "longest lens M"
  shows "first_code lens (Suc M) * 2 ^ (15 - M) = 2 ^ 16"
proof -
  have M: "0 < M" "M \<le> 15" "\<And>l. M < l \<Longrightarrow> len_count lens l = 0" using assms(2) by (simp_all add: longest_def)
  have "code_at lens l (len_count lens l) = code_at lens M (len_count lens M) * 2 ^ (l - M)" if "M \<le> l" for l
    using that
  proof (induction l)
    case (Suc l)
    show ?case
    proof (cases "M = Suc l")
      case False
      then have l: "M \<le> l" "0 < l" "Suc l - M = Suc (l - M)" "len_count lens (Suc l) = 0"
        using Suc.prems M(1) M(3) [of "Suc l"] by simp_all
      then show ?thesis using Suc.IH [OF l(1)] unfolding first_code_Suc [OF l(2)] l(3,4) by simp
    qed simp
  qed (use M(1) in simp)
  from this [OF M(2)] have "code_at lens M (len_count lens M) * 2 ^ (15 - M) = 2 ^ 15"
    using assms(1) by (simp add: complete_code_def)
  then show ?thesis unfolding first_code_Suc [OF M(1)] mult.assoc by simp
qed

lemma cells_ok_table:
  assumes "longest lens M" and "cells_ok lens base t (Suc M) 0 256"
  shows "table_ok lens base t"
proof -
  have "long_cells lens base t 16 0"
    unfolding long_cells_def
  proof (intro allI impI)
    fix j k P q
    assume "before lens 16 0 j k"
    then have "before lens (Suc M) 0 j k" by (rule before_longest [OF assms(1)])
    moreover assume "8 < j" "P = code_at lens j k div 2 ^ (j - 8)" "q < 2 ^ sub_bits lens P"
      "rev_bits (j - 8) q = code_at lens j k mod 2 ^ (j - 8)"
    ultimately show "t ! (base + table_off lens P + q) = cell lens (j - 8) j k"
      using assms(2) by (simp add: cells_ok_def long_cells_def)
  qed
  then show ?thesis using assms(2) by (simp add: table_ok_def cells_ok_def)
qed

lemma BrotliBuildHuffmanTable_spec:
  assumes "complete_code lens" and "chain_ok sl lens" and "counts_ok count lens"
    and "base + table_cells lens \<le> length tbl"
  shows "\<exists>t count'. BrotliBuildHuffmanTable tbl base 8 sl count = Some (of_nat (table_cells lens), t, count') \<and>
    frame base (base + table_cells lens) tbl t \<and> table_ok lens base t"
proof -
  obtain M where M: "longest lens M" using longest_exists [OF assms(1)] ..
  then have M15: "M \<le> 15" "0 < M" by (simp_all add: longest_def)
  have len: "base + 256 \<le> length tbl" using assms(4) table_off_ge [of lens 256] by simp
  define tb where "tb = min 8 M"
  obtain t1 t K where r: "hb_root tbl base tb sl count (2 ^ tb) = Some (t1, of_nat K)" "double_table t1 base 256 (2 ^ tb) = Some t"
    "K * 2 ^ Suc tb = first_code lens (Suc tb) * 256" "frame base (base + 256) tbl t" "root_cells lens 8 base t 9 0"
    using root_table_spec [OF assms(1-3) M len tb_def] by blast
  have max: "max_length_loop sl (- 1) = Some (int M - 16)"
    using max_length_loop_spec [OF assms(2) M M15(1) order_refl] by simp
  define st where "st = \<lparr>hb_tbl = t, hb_count = count, hb_table = 0, hb_table_size = 256,
        hb_total_size = 256, hb_key = of_nat K,
        hb_sub_key = push_bit 1 BROTLI_REVERSE_BITS_LOWEST, hb_symbol = 0\<rparr>"
  have tb': "(if int 8 > int M then M else 8) = tb" by (simp add: tb_def min_def)
  have ks: "drop_bit (8 - 1) BROTLI_REVERSE_BITS_LOWEST = 1" by (simp add: BROTLI_REVERSE_BITS_LOWEST_def)
  have unfold: "BrotliBuildHuffmanTable tbl base 8 sl count =
      Option.bind (foldM (second_body sl base) [9..<Suc M] (st, 2, BROTLI_REVERSE_BITS_LOWEST))
        (\<lambda>(st, step, ks). Some (of_nat (hb_total_size st), hb_tbl st, hb_count st))"
  proof -
    have n: "int M - 16 + 16 = int M" "(2::nat) ^ 8 = 256" "Suc 8 = 9" by simp_all
    show ?thesis
      unfolding BrotliBuildHuffmanTable_def max bind.bind_lunit Let_def n tb' r(1) prod.case r(2) ks second_body_def
        nat_int st_def by simp
  qed
  show ?thesis
  proof (cases "M \<le> 8")
    case True
    note no = no_sub_syms [OF M True]
    have cells: "table_cells lens = 256" by (rule table_off_empty) (rule no)
    have "root_cells lens 8 base t 9 0" by (rule r(5))
    moreover have "pointers lens base t 256" by (simp add: pointers_def no)
    moreover have "long_cells lens base t (Suc M) 0" using True by (auto simp: long_cells_def before_def)
    ultimately have "table_ok lens base t" by (intro cells_ok_table [OF M]) (simp add: cells_ok_def)
    moreover have "[9..<Suc M] = []" using True by simp
    ultimately show ?thesis unfolding unfold cells using r(4) by (simp add: st_def)
  next
    case False
    then have M8: "8 < M" "tb = 8" by (simp_all add: tb_def)
    have K: "K = code_at lens 8 (len_count lens 8)" "K * 256 + 256 = code_at lens 9 0 * 2 ^ (16 - 9) + 256"
      using r(3) first_code_Suc [of 8 lens] unfolding M8(2) by simp_all
    have early: "sub_syms lens P = []" if "P < K" for P using no_early_syms that unfolding K(1) .
    have "hb_inv lens base tbl 9 0 K 256 st"
      unfolding hb_inv_def
    proof (intro conjI)
      show "place lens 9 0 K 256" using K(2) by (simp add: place_def)
      show "frame base (base + table_cells lens) tbl (hb_tbl st)"
        using frame_mono [OF r(4)] table_off_ge [of lens 256] by (simp add: st_def)
      have "pointers lens base t K" using early by (simp add: pointers_def)
      moreover have "long_cells lens base t 9 0" by (auto simp: long_cells_def before_def)
      ultimately show "cells_ok lens base (hb_tbl st) 9 0 K" using r(5) by (simp add: cells_ok_def st_def)
    qed (use table_off_empty [of K lens] early in \<open>simp_all add: st_def BROTLI_REVERSE_BITS_LOWEST_def\<close>)
    moreover have "left_counts_ok (hb_count st) lens 9 0"
      using assms(3) by (auto simp: counts_ok_def left_counts_ok_def left_count_def st_def)
    ultimately obtain k s st' step ks where f: "foldM (second_body sl base) [9..<Suc M] (st, 2, BROTLI_REVERSE_BITS_LOWEST) = Some (st', step, ks)"
      "hb_inv lens base tbl (Suc M) 0 k s st'" "0 < s"
      using second_levels_spec [OF assms(1,2) M8(1) M15(1) _ _ _ assms(4)] by (metis zero_less_numeral)
    have "k * 256 + s = 2 ^ 16 + 256" "s \<le> 256"
      using f(2) longest_full [OF assms(1) M] by (simp_all add: hb_inv_def place_def)
    then have k: "k = 256" using f(3) by simp
    note inv = f(2) [unfolded hb_inv_def k]
    have "table_ok lens base (hb_tbl st')" using cells_ok_table [OF M] inv by blast
    then show ?thesis unfolding unfold f(1) using inv by simp
  qed
qed

end
