(* ===== verification/Huffman_Decode_Facts.thy ===== *)
theory Huffman_Decode_Facts
  imports Huffman_Build_Facts Decode_Symbols Bit_Reader_Facts
begin

text \<open>
  Decoding a symbol with a table that \<open>BrotliBuildHuffmanTable\<close> built is decoding its canonical code: the
  three decoders of \<^verbatim>\<open>dec/decode.c\<close> against \<open>decode_code\<close>, which searches the symbol whose code the stream
  starts with.
\<close>

section \<open>Decoding without a table\<close>

definition decode_code :: "nat list \<Rightarrow> bits \<Rightarrow> (nat \<times> bits) option" where
  "decode_code lens bs = map_option (\<lambda>s. (s, drop (lens ! s) bs))
     (find (\<lambda>s. 0 < lens ! s \<and> take (lens ! s) bs = code_bits lens s) [0..<length lens])"

definition has_code :: "nat list \<Rightarrow> nat \<Rightarrow> bool" where
  "has_code lens s \<longleftrightarrow> s < length lens \<and> 0 < lens ! s"

lemma has_codeD:
  assumes "complete_code lens" and "has_code lens s"
  shows "0 < lens ! s" and "lens ! s \<le> 15" and "code_of lens s < 2 ^ (lens ! s)"
    and "\<exists>k < len_count lens (lens ! s). syms lens (lens ! s) ! k = s \<and> code_of lens s = code_at lens (lens ! s) k"
proof -
  have s: "s < length lens" "0 < lens ! s" using assms(2) by (simp_all add: has_code_def)
  then have "lens ! s \<in> set lens" by simp
  then show l: "lens ! s \<le> 15" using assms(1) unfolding complete_code_def list_all_iff by blast
  show "0 < lens ! s" by (rule s(2))
  show ex: "\<exists>k < len_count lens (lens ! s). syms lens (lens ! s) ! k = s \<and> code_of lens s = code_at lens (lens ! s) k"
    by (rule syms_index [OF s(1)])
  then show "code_of lens s < 2 ^ (lens ! s)" using code_strict [OF assms(1) s(2) l] by auto
qed

text \<open>A code is read off the first bits of a window of the stream.\<close>

lemma code_window:
  assumes "complete_code lens" and "has_code lens s"
  shows "val_bits (lens ! s) W = code_bits lens s \<longleftrightarrow> rev_bits (lens ! s) W = code_of lens s"
proof
  assume "rev_bits (lens ! s) W = code_of lens s"
  then have "rev (val_bits (lens ! s) W) = val_bits (lens ! s) (code_of lens s)" using val_bits_rev_bits [of "lens ! s" W] by simp
  then show "val_bits (lens ! s) W = code_bits lens s" unfolding code_bits_def by (metis rev_rev_ident)
qed (use code_bits_rev has_codeD(3) [OF assms] in simp)

lemma window_exists:
  assumes "complete_code lens"
  shows "\<exists>s. has_code lens s \<and> rev_bits (lens ! s) W = code_of lens s"
proof -
  have ex: "\<exists>j k. 0 < j \<and> j \<le> l \<and> k < len_count lens j \<and> x div 2 ^ (15 - j) = code_at lens j k"
    if "0 < l" "l \<le> 15" "x < code_at lens l (len_count lens l) * 2 ^ (15 - l)" for l x
    using that
  proof (induction l)
    case (Suc l)
    show ?case
    proof (cases "first_code lens (Suc l) * 2 ^ (15 - Suc l) \<le> x")
      case True
      define k where "k = x div 2 ^ (15 - Suc l) - first_code lens (Suc l)"
      have "first_code lens (Suc l) \<le> x div 2 ^ (15 - Suc l)" using True by (simp add: less_eq_div_iff_mult_less_eq)
      moreover have "x div 2 ^ (15 - Suc l) < code_at lens (Suc l) (len_count lens (Suc l))"
        using Suc.prems(3) by (simp only: less_mult_imp_div_less)
      ultimately have "k < len_count lens (Suc l)" "x div 2 ^ (15 - Suc l) = code_at lens (Suc l) k" by (simp_all add: k_def)
      then show ?thesis by (intro exI [of _ "Suc l"] exI [of _ k]) simp
    next
      case False
      then have l: "0 < l" by (cases l) simp_all
      have "(2::nat) ^ (15 - l) = 2 * 2 ^ (15 - Suc l)" using Suc.prems(2) by (simp flip: power_Suc)
      then have "code_at lens l (len_count lens l) * 2 ^ (15 - l) = first_code lens (Suc l) * 2 ^ (15 - Suc l)"
        unfolding first_code_Suc [OF l] by (simp only: mult.commute mult.left_commute)
      then have "x < code_at lens l (len_count lens l) * 2 ^ (15 - l)" using False by (simp only: not_le)
      then show ?thesis using Suc.IH [OF l] Suc.prems(2) by (meson Suc_leD le_SucI)
    qed
  qed simp
  have "rev_bits 15 W < code_at lens 15 (len_count lens 15) * 2 ^ (15 - 15)"
    using rev_bits_less [of 15 W] assms by (simp add: complete_code_def)
  from ex [OF _ _ this] obtain j k where
    j: "0 < j" "j \<le> 15" "k < len_count lens j" "rev_bits 15 W div 2 ^ (15 - j) = code_at lens j k" by auto
  have "rev_bits j W = code_at lens j k" using rev_bits_prefix [OF j(2), of W] j(4) by simp
  then show ?thesis using syms_nth [OF j(3)] j(1) by (intro exI [of _ "syms lens j ! k"]) (simp add: has_code_def)
qed

lemma code_unique:
  assumes "complete_code lens" and "has_code lens s" and "has_code lens t"
    and "rev_bits (lens ! s) W = code_of lens s" and "rev_bits (lens ! t) W = code_of lens t"
  shows "s = t"
proof -
  have main: "s = t" if st: "has_code lens s" "has_code lens t" "lens ! s \<le> lens ! t"
    "rev_bits (lens ! s) W = code_of lens s" "rev_bits (lens ! t) W = code_of lens t" for s t
  proof -
    obtain j where j: "j < len_count lens (lens ! s)" "syms lens (lens ! s) ! j = s" "code_of lens s = code_at lens (lens ! s) j"
      using has_codeD(4) [OF assms(1) st(1)] by blast
    obtain k where k: "k < len_count lens (lens ! t)" "syms lens (lens ! t) ! k = t" "code_of lens t = code_at lens (lens ! t) k"
      using has_codeD(4) [OF assms(1) st(2)] by blast
    have eq: "code_at lens (lens ! t) k div 2 ^ (lens ! t - lens ! s) = code_at lens (lens ! s) j"
      using rev_bits_prefix [OF st(3), of W] st(4,5) j(3) k(3) by simp
    have "lens ! s = lens ! t \<and> k \<le> j"
      using code_prefix_free [OF has_codeD(1) [OF assms(1) st(1)] st(3) j(1), of k] eq by (metis not_less)
    then show ?thesis using eq j(2) k(2) by auto
  qed
  show ?thesis
  proof (cases "lens ! s \<le> lens ! t")
    case True
    then show ?thesis using main assms by blast
  next
    case False
    then show ?thesis using main [of t s] assms by simp
  qed
qed

text \<open>The search finds the symbol if the stream reaches to the end of its code.\<close>

lemma decode_code_window:
  assumes "complete_code lens" and "has_code lens s" and "rev_bits (lens ! s) W = code_of lens s"
    and "\<And>k. k \<le> length bs \<Longrightarrow> k \<le> 15 \<Longrightarrow> take k bs = val_bits k W"
  shows "decode_code lens bs = (if lens ! s \<le> length bs then Some (s, drop (lens ! s) bs) else None)"
proof -
  have only: "t = s \<and> lens ! s \<le> length bs" if t: "has_code lens t" "take (lens ! t) bs = code_bits lens t" for t
  proof -
    have "length (take (lens ! t) bs) = lens ! t" unfolding t(2) by simp
    then have le: "lens ! t \<le> length bs" by simp
    have "val_bits (lens ! t) W = code_bits lens t"
      by (rule trans [OF assms(4) [OF le has_codeD(2) [OF assms(1) t(1)], symmetric] t(2)])
    then have "t = s" using code_window [OF assms(1) t(1)] code_unique [OF assms(1) t(1) assms(2)] assms(3) by blast
    then show ?thesis using le by simp
  qed
  show ?thesis
  proof (cases "lens ! s \<le> length bs")
    case True
    have "take (lens ! s) bs = code_bits lens s"
      by (rule trans [OF assms(4) [OF True has_codeD(2) [OF assms(1,2)]] iffD2 [OF code_window [OF assms(1,2)] assms(3)]])
    then have p: "s < length lens \<and> 0 < lens ! s \<and> take (lens ! s) bs = code_bits lens s"
      using assms(2) by (simp add: has_code_def)
    have first: "\<not> (0 < lens ! t \<and> take (lens ! t) bs = code_bits lens t)" if "t < s" for t
    proof
      assume "0 < lens ! t \<and> take (lens ! t) bs = code_bits lens t"
      then have "t = s" using only [of t] that p by (simp add: has_code_def)
      then show False using that by simp
    qed
    have "find (\<lambda>s. 0 < lens ! s \<and> take (lens ! s) bs = code_bits lens s) [0..<length lens] = Some s"
      unfolding find_Some_iff using p first by (intro exI [of _ s]) simp
    then show ?thesis using True by (simp add: decode_code_def)
  next
    case False
    have "\<not> (0 < lens ! t \<and> take (lens ! t) bs = code_bits lens t)" if "t < length lens" for t
    proof
      assume "0 < lens ! t \<and> take (lens ! t) bs = code_bits lens t"
      then show False using only [of t] that False by (simp add: has_code_def)
    qed
    then have "find (\<lambda>s. 0 < lens ! s \<and> take (lens ! s) bs = code_bits lens s) [0..<length lens] = None"
      unfolding find_None_iff by simp
    then show ?thesis using False by (simp add: decode_code_def)
  qed
qed

lemma decode_code_bits:
  assumes "complete_code lens" and "has_code lens s"
  shows "decode_code lens (code_bits lens s @ rest) = Some (s, rest)"
proof -
  define bs where "bs = code_bits lens s @ rest"
  define W where "W = bits_val bs"
  have w: "take k bs = val_bits k W" if "k \<le> length bs" for k
  proof -
    have "val_bits (length bs) W = bs" by (simp add: W_def)
    moreover have "take k (val_bits (length bs) W) = val_bits k W" using that by (simp add: val_bits_def take_map)
    ultimately show ?thesis by simp
  qed
  have "take (lens ! s) bs = code_bits lens s" "lens ! s \<le> length bs" by (simp_all add: bs_def)
  then have "rev_bits (lens ! s) W = code_of lens s"
    using w [of "lens ! s"] code_window [OF assms, of W] by metis
  from decode_code_window [OF assms this, of bs] w show ?thesis by (simp add: bs_def)
qed

section \<open>Looking up a window\<close>

definition long_lookup :: "nat list \<Rightarrow> nat \<Rightarrow> HuffmanCode list \<Rightarrow> nat \<Rightarrow> nat \<Rightarrow> nat \<Rightarrow> bool" where
  "long_lookup lens base tbl W s P \<longleftrightarrow>
     tbl ! (base + W mod 256) = ConstructHuffmanCode (of_nat (8 + sub_bits lens P)) (of_nat (table_off lens P - W mod 256)) \<and>
     lens ! s \<le> 8 + sub_bits lens P \<and> sub_bits lens P \<le> 7 \<and> W mod 256 < table_off lens P \<and> table_off lens P < 2 ^ 16 \<and>
     table_off lens P + W div 256 mod 2 ^ sub_bits lens P < table_cells lens \<and>
     tbl ! (base + table_off lens P + W div 256 mod 2 ^ sub_bits lens P) = ConstructHuffmanCode (of_nat (lens ! s - 8)) (of_nat s)"

lemma short_lookup:
  assumes "complete_code lens" and "table_ok lens base tbl" and "has_code lens s" and "lens ! s \<le> 8"
    and "rev_bits (lens ! s) W = code_of lens s"
  shows "tbl ! (base + W mod 256) = ConstructHuffmanCode (of_nat (lens ! s)) (of_nat s)"
proof -
  obtain k where k: "k < len_count lens (lens ! s)" "syms lens (lens ! s) ! k = s" "code_of lens s = code_at lens (lens ! s) k"
    using has_codeD(4) [OF assms(1,3)] by blast
  have "before lens 9 0 (lens ! s) k" using k(1) has_codeD(1) [OF assms(1,3)] assms(4) by (simp add: before_def)
  moreover have "(2::nat) ^ lens ! s dvd 2 ^ 8" by (rule le_imp_power_dvd [OF assms(4)])
  then have "rev_bits (lens ! s) (W mod 256) = rev_bits (lens ! s) W"
    using rev_bits_mod [of "lens ! s" "W mod 256"] rev_bits_mod [of "lens ! s" W] by (simp add: mod_mod_cancel)
  ultimately show ?thesis
    using assms(2,5) k(2,3) by (simp add: table_ok_def cells_ok_def root_cells_def)
qed

lemma long_lookup_exists:
  assumes "complete_code lens" and "table_ok lens base tbl" and "has_code lens s" and "8 < lens ! s"
    and "rev_bits (lens ! s) W = code_of lens s"
  shows "\<exists>P. long_lookup lens base tbl W s P"
proof -
  define l where "l = lens ! s"
  obtain k where k: "k < len_count lens l" "syms lens l ! k = s" "code_of lens s = code_at lens l k"
    using has_codeD(4) [OF assms(1,3)] unfolding l_def by blast
  have l: "8 < l" "l \<le> 15" using assms(4) has_codeD(2) [OF assms(1,3)] by (simp_all add: l_def)
  define P where "P = code_at lens l k div 2 ^ (l - 8)"
  have c: "rev_bits l W = code_at lens l k" using assms(5) k(3) by (simp add: l_def)
  have P: "P < 256" unfolding P_def by (rule code_prefix_less [OF assms(1) l k(1)])
  have s: "s \<in> set (sub_syms lens P)" using sub_syms_entry [OF l(1) k(1)] k(2) by (simp add: P_def)
  then have ne: "sub_syms lens P \<noteq> []" by auto
  have "rev_bits 8 W = P" using rev_bits_prefix [of 8 l W] l(1) c by (simp add: P_def)
  then have root: "W mod 256 = rev_bits 8 P" using rev_bits_rev_bits [of 8 W] by simp
  have bits: "l - 8 \<le> sub_bits lens P" using sub_bits_ge [OF s] by (simp add: l_def)
  define q where "q = W div 256 mod 2 ^ sub_bits lens P"
  have q: "q < 2 ^ sub_bits lens P" by (simp add: q_def)
  have "(2::nat) ^ (l - 8) dvd 2 ^ sub_bits lens P" by (rule le_imp_power_dvd [OF bits])
  then have "rev_bits (l - 8) q = rev_bits (l - 8) (W div 256)"
    using rev_bits_mod [of "l - 8" q] rev_bits_mod [of "l - 8" "W div 256"] by (simp add: q_def mod_mod_cancel)
  also have "\<dots> = code_at lens l k mod 2 ^ (l - 8)" using rev_bits_suffix [of 8 l W] l(1) c by simp
  finally have rq: "rev_bits (l - 8) q = code_at lens l k mod 2 ^ (l - 8)" .
  have b: "before lens 16 0 l k" using k(1) l by (simp add: before_def)
  have "long_cells lens base tbl 16 0" using assms(2) by (simp add: table_ok_def cells_ok_def)
  then have "tbl ! (base + table_off lens P + q) = cell lens (l - 8) l k"
    unfolding long_cells_def using b l(1) P_def q rq by blast
  then have "tbl ! (base + table_off lens P + q) = ConstructHuffmanCode (of_nat (l - 8)) (of_nat s)" unfolding k(2) .
  moreover have "tbl ! (base + rev_bits 8 P) = pointer lens P"
    using assms(2) P ne by (simp add: table_ok_def cells_ok_def pointers_def)
  moreover have "table_off lens P < 2 ^ 16" using table_off_le [OF assms(1), of P] P by simp
  moreover have "W mod 256 < table_off lens P" using table_off_ge [of lens P] by (rule less_le_trans [rotated]) simp
  ultimately show ?thesis
    using bits sub_bits_le [OF assms(1), of P] table_range [OF ne q P] unfolding long_lookup_def root l_def [symmetric] q_def
    by (intro exI [of _ P]) (simp add: pointer_def)
qed

section \<open>The decoders\<close>

lemma mask_table: "HUFFMAN_TABLE_MASK = mask 8"
  by (simp add: mask_eq_exp_minus_1)

lemma ucast_of_nat_up: "n < 2 ^ LENGTH('a) \<Longrightarrow> ucast (of_nat n :: 'a::len word) = (of_nat n :: 'b::len word)"
  by (metis of_nat_unat unat_of_nat_small)

lemma code_fields:
  "n < 256 \<Longrightarrow> fast_bits (ConstructHuffmanCode (of_nat n) v) = of_nat n"
  "n < 2 ^ 16 \<Longrightarrow> fast_value (ConstructHuffmanCode b (of_nat n)) = of_nat n"
  by (simp_all add: ConstructHuffmanCode_def ucast_of_nat_up)

lemma small_le: "n < 2 ^ 32 \<Longrightarrow> m < 2 ^ 32 \<Longrightarrow> (of_nat n :: uint32) \<le> of_nat m \<longleftrightarrow> n \<le> m"
  by (simp add: word_le_nat_alt unat_of_nat_small)

lemma small_less: "n < 2 ^ 32 \<Longrightarrow> m < 2 ^ 32 \<Longrightarrow> (of_nat n :: uint32) < of_nat m \<longleftrightarrow> n < m"
  by (simp add: word_less_nat_alt unat_of_nat_small)

lemma long_fields:
  assumes "long_lookup lens base tbl W s P"
  shows "fast_value (tbl ! (base + W mod 256)) = of_nat (table_off lens P - W mod 256)"
    and "fast_bits (tbl ! (base + W mod 256)) = of_nat (8 + sub_bits lens P)"
proof -
  have e: "tbl ! (base + W mod 256) =
      ConstructHuffmanCode (of_nat (8 + sub_bits lens P)) (of_nat (table_off lens P - W mod 256))"
    using assms unfolding long_lookup_def by blast
  have lt: "table_off lens P < 2 ^ 16" "sub_bits lens P \<le> 7" using assms by (simp_all add: long_lookup_def)
  then have "table_off lens P - W mod 256 < 2 ^ 16" by (simp add: less_imp_diff_less)
  then show "fast_value (tbl ! (base + W mod 256)) = of_nat (table_off lens P - W mod 256)"
    unfolding e by (rule code_fields(2))
  show "fast_bits (tbl ! (base + W mod 256)) = of_nat (8 + sub_bits lens P)"
    unfolding e by (rule code_fields(1)) (use lt(2) in simp)
qed

text \<open>The index of the second lookup.\<close>

lemma second_index:
  fixes x :: uint32
  assumes "long_lookup lens base tbl W s P" and "unat x = W div 256 mod 2 ^ sub_bits lens P"
  shows "base + W mod 256 + unat (of_nat (table_off lens P - W mod 256) + x) =
    base + table_off lens P + W div 256 mod 2 ^ sub_bits lens P"
proof -
  define v where "v = table_off lens P - W mod 256"
  define q where "q = W div 256 mod 2 ^ sub_bits lens P"
  have "q < 2 ^ sub_bits lens P" by (simp add: q_def)
  also have "(2::nat) ^ sub_bits lens P \<le> 2 ^ 7"
    by (rule power_increasing) (use assms(1) in \<open>simp_all add: long_lookup_def\<close>)
  finally have q: "q < 128" by simp
  have v: "v < 2 ^ 16" "table_off lens P = v + W mod 256"
    using assms(1) by (simp_all add: v_def long_lookup_def less_imp_diff_less)
  have "of_nat v + x = of_nat (v + q)" using word_of_natI [OF assms(2)] by (simp add: q_def)
  then have "unat (of_nat v + x) = v + q" using v(1) q by (simp add: unat_of_nat_small del: of_nat_add)
  then show ?thesis unfolding v_def [symmetric] q_def [symmetric] v(2) by simp
qed

lemma drop_bits_twice: "BrotliDropBits (BrotliDropBits br m) n = BrotliDropBits br (m + n)"
  by (simp add: BrotliDropBits_def add.assoc)

lemma DecodeSymbol_spec:
  assumes "complete_code lens" and "table_ok lens base tbl" and "base + table_cells lens \<le> length tbl"
    and "length lens < 2 ^ 16" and "has_code lens s" and "rev_bits (lens ! s) (unat w) = code_of lens s"
  shows "DecodeSymbol w tbl base br = Some (of_nat s, BrotliDropBits br (of_nat (lens ! s)))"
proof -
  have s: "s < 2 ^ 16" using assms(4,5) by (simp add: has_code_def)
  have p: "unat (w AND HUFFMAN_TABLE_MASK) = unat w mod 256" unfolding mask_table unat_and_mask by simp
  have "unat w mod 256 < table_cells lens" using table_off_ge [of lens 256] by (rule less_le_trans [rotated]) simp
  then have get: "arr_get tbl (base + unat w mod 256) = Some (tbl ! (base + unat w mod 256))" using assms(3) by simp
  show ?thesis
  proof (cases "lens ! s \<le> 8")
    case True
    then have "\<not> (of_nat (lens ! s) :: uint32) > 8" using small_le [of "lens ! s" 8] by (simp add: not_less)
    then show ?thesis
      using short_lookup [OF assms(1,2,5) True assms(6)] get True s by (simp add: DecodeSymbol_def p code_fields)
  next
    case False
    obtain P where P: "long_lookup lens base tbl (unat w) s P"
      using long_lookup_exists [OF assms(1,2,5) _ assms(6)] False by auto
    define sb where "sb = sub_bits lens P"
    have sb: "sb \<le> 7" "lens ! s \<le> 8 + sb" using P by (simp_all add: long_lookup_def sb_def)
    have gt: "(of_nat (8 + sb) :: uint32) > 8" using small_less [of 8 "8 + sb"] sb False by simp
    have m: "BitMask (of_nat (8 + sb) - 8) = Some (mask sb)" using sb(1) by (simp add: BitMask_mask unat_of_nat_small)
    have x: "unat (drop_bit 8 w AND mask sb) = unat w div 256 mod 2 ^ sub_bits lens P"
      unfolding unat_and_mask unat_drop_bit_div sb_def by simp
    note ix = second_index [OF P x]
    note v = long_fields(1) [OF P] and b = long_fields(2) [OF P, folded sb_def]
    have get2: "arr_get tbl (base + table_off lens P + unat w div 256 mod 2 ^ sub_bits lens P) =
        Some (ConstructHuffmanCode (of_nat (lens ! s - 8)) (of_nat s))"
      using P assms(3) by (simp add: long_lookup_def)
    have d: "8 + of_nat (lens ! s - 8) = (of_nat (lens ! s) :: uint32)" using False by (simp add: of_nat_diff)
    have l: "lens ! s - 8 < 256" using sb by simp
    show ?thesis
      unfolding DecodeSymbol_def Let_def p get bind.bind_lunit v b if_P [OF gt] m ix get2 prod.case
        code_fields(1) [OF l] code_fields(2) [OF s] drop_bits_twice d ..
  qed
qed

text \<open>Near the end of the input fewer than fifteen bits are left, and the window is padded with zeros.\<close>

lemma mod_div_shift: "w mod 2 ^ (8 + n) div 256 = w div 256 mod (2 :: nat) ^ n"
proof -
  have "w mod (2 ^ 8 * 2 ^ n) = 2 ^ 8 * (w div 2 ^ 8 mod 2 ^ n) + w mod 2 ^ 8" by (rule mod_mult2_eq)
  then show ?thesis by (simp add: power_add)
qed

lemma root_bits_positive:
  assumes "complete_code lens" and "table_ok lens base tbl" and "has_code lens s"
    and "rev_bits (lens ! s) W = code_of lens s"
  shows "fast_bits (tbl ! (base + W mod 256)) \<noteq> 0"
proof (cases "lens ! s \<le> 8")
  case True
  have "fast_bits (tbl ! (base + W mod 256)) = of_nat (lens ! s)"
    unfolding short_lookup [OF assms(1-3) True assms(4)] by (rule code_fields(1)) (use True in simp)
  moreover have "unat (of_nat (lens ! s) :: uint32) = lens ! s" using True by (simp add: unat_of_nat_small)
  ultimately show ?thesis using has_codeD(1) [OF assms(1,3)] by (metis unat_0 less_irrefl)
next
  case False
  then obtain P where P: "long_lookup lens base tbl W s P" using long_lookup_exists [OF assms(1-3) _ assms(4)] by auto
  then have "unat (of_nat (8 + sub_bits lens P) :: uint32) = 8 + sub_bits lens P"
    by (simp add: unat_of_nat_small long_lookup_def del: of_nat_add)
  then show ?thesis unfolding long_fields(2) [OF P] by (metis unat_0 add_is_0 zero_neq_numeral)
qed

lemma SafeDecodeSymbol_spec:
  assumes "complete_code lens" and "table_ok lens base tbl" and "base + table_cells lens \<le> length tbl"
    and "length lens < 2 ^ 16" and "has_code lens s" and "rev_bits (lens ! s) W = code_of lens s"
    and "br_ok br" and "a = 64 - unat (br_bit_pos br)" and "a < 15"
    and "W = unat (ucast (drop_bit (unat (br_bit_pos br)) (br_val br)) :: uint32)"
  shows "SafeDecodeSymbol tbl base br =
    Some (if lens ! s \<le> a then (Some (of_nat s), BrotliDropBits br (of_nat (lens ! s))) else (None, br))"
proof -
  have l: "0 < lens ! s" "lens ! s \<le> 15" using has_codeD [OF assms(1,5)] by simp_all
  have s: "s < 2 ^ 16" using assms(4,5) by (simp add: has_code_def)
  have a: "BrotliGetAvailableBits br = of_nat a" using unat_avail_bits [OF assms(7)] assms(8) by (simp add: word_of_natI)
  have cells: "W mod 256 < table_cells lens" using table_off_ge [of lens 256] by (rule less_le_trans [rotated]) simp
  then have get: "arr_get tbl (base + W mod 256) = Some (tbl ! (base + W mod 256))" using assms(3) by simp
  note nz = root_bits_positive [OF assms(1,2,5,6)]
  show ?thesis
  proof (cases "a = 0")
    case True
    have "unat (br_bit_pos br) = 64" using assms(7,8) True by (simp add: br_ok_def)
    then have "drop_bit (unat (br_bit_pos br)) (br_val br) = 0" by simp
    then have "W = 0" unfolding assms(10) by simp
    then show ?thesis using a True get nz l(1) by (simp add: SafeDecodeSymbol_def)
  next
    case False
    define w where "w = (ucast (drop_bit (unat (br_bit_pos br)) (br_val br)) :: uint32)"
    have W: "W = unat w" using assms(10) by (simp add: w_def)
    have "unat (of_nat a :: uint32) = a" using assms(9) by (simp add: unat_of_nat_small)
    then have nza: "BrotliGetAvailableBits br \<noteq> 0" using a False by (metis unat_0)
    have "br_bit_pos br < 64" using False assms(8) by (simp add: word_less_nat_alt)
    then have v: "BrotliGetBitsUnmasked br = Some (drop_bit (unat (br_bit_pos br)) (br_val br))"
      by (simp add: BrotliGetBitsUnmasked_def)
    have p: "unat (w AND HUFFMAN_TABLE_MASK) = W mod 256" unfolding mask_table unat_and_mask W by simp
    have step: "SafeDecodeSymbol tbl base br =
       (if fast_bits (tbl ! (base + W mod 256)) \<le> HUFFMAN_TABLE_BITS then
          (if fast_bits (tbl ! (base + W mod 256)) \<le> of_nat a
           then Some (Some (fast_value (tbl ! (base + W mod 256))), BrotliDropBits br (fast_bits (tbl ! (base + W mod 256))))
           else Some (None, br))
        else if of_nat a \<le> HUFFMAN_TABLE_BITS then Some (None, br)
        else do {
          m \<leftarrow> BitMask (fast_bits (tbl ! (base + W mod 256)));
          c \<leftarrow> arr_get tbl (base + W mod 256 + unat (fast_value (tbl ! (base + W mod 256)) + drop_bit 8 (w AND m)));
          if of_nat a - HUFFMAN_TABLE_BITS < fast_bits c then Some (None, br)
          else Some (Some (fast_value c), BrotliDropBits br (HUFFMAN_TABLE_BITS + fast_bits c)) })"
      unfolding SafeDecodeSymbol_def Let_def if_not_P [OF nza] v bind.bind_lunit w_def [symmetric] p get
      by (simp only: a)
    show ?thesis
    proof (cases "lens ! s \<le> 8")
      case True
      note c = short_lookup [OF assms(1,2,5) True assms(6)]
      have f: "fast_bits (tbl ! (base + W mod 256)) = of_nat (lens ! s)" "fast_value (tbl ! (base + W mod 256)) = of_nat s"
        unfolding c using code_fields(1) [of "lens ! s"] code_fields(2) [OF s] True by simp_all
      show ?thesis unfolding step f using small_le [of "lens ! s" 8] small_le [of "lens ! s" a] True assms(9) by simp
    next
      case False
      then obtain P where P: "long_lookup lens base tbl W s P" using long_lookup_exists [OF assms(1,2,5) _ assms(6)] by auto
      define sb where "sb = sub_bits lens P"
      have sb: "sb \<le> 7" "lens ! s \<le> 8 + sb" using P by (simp_all add: long_lookup_def sb_def)
      have m: "BitMask (of_nat (8 + sb)) = Some (mask (8 + sb))" using sb(1) BitMask_mask [of "of_nat (8 + sb)"]
        by (simp add: unat_of_nat_small del: of_nat_add)
      have x: "unat (drop_bit 8 (w AND mask (8 + sb))) = W div 256 mod 2 ^ sub_bits lens P"
        unfolding unat_drop_bit_div unat_and_mask W sb_def [symmetric] using mod_div_shift [of "unat w" sb] by simp
      note ix = second_index [OF P x]
      have get2: "arr_get tbl (base + table_off lens P + W div 256 mod 2 ^ sub_bits lens P) =
          Some (ConstructHuffmanCode (of_nat (lens ! s - 8)) (of_nat s))"
        using P assms(3) by (simp add: long_lookup_def)
      have d: "8 + of_nat (lens ! s - 8) = (of_nat (lens ! s) :: uint32)" using False by (simp add: of_nat_diff)
      have l8: "lens ! s - 8 < 256" using l by simp
      have gt: "\<not> (of_nat (8 + sb) :: uint32) \<le> 8" using small_le [of "8 + sb" 8] sb False by simp
      show ?thesis
      proof (cases "a \<le> 8")
        case True
        then have "(of_nat a :: uint32) \<le> 8" using small_le [of a 8] by simp
        then show ?thesis unfolding step long_fields(2) [OF P] sb_def [symmetric] if_not_P [OF gt] using True False by simp
      next
        case a8: False
        then have na: "\<not> (of_nat a :: uint32) \<le> 8" using small_le [of a 8] assms(9) by simp
        have "of_nat a - 8 = (of_nat (a - 8) :: uint32)" using a8 by (simp add: of_nat_diff)
        moreover have "(of_nat (a - 8) :: uint32) < of_nat (lens ! s - 8) \<longleftrightarrow> a - 8 < lens ! s - 8"
          using assms(9) l(2) by (intro small_less) simp_all
        ultimately have cmp: "of_nat a - 8 < (of_nat (lens ! s - 8) :: uint32) \<longleftrightarrow> \<not> lens ! s \<le> a" using a8 False by auto
        show ?thesis
          unfolding step long_fields [OF P] sb_def [symmetric] if_not_P [OF gt] if_not_P [OF na] m bind.bind_lunit
            ix [folded sb_def] get2 [folded sb_def] code_fields(1) [OF l8] code_fields(2) [OF s] cmp d by simp
      qed
    qed
  qed
qed

section \<open>Reading from the stream\<close>

definition symbol_result :: "nat list \<Rightarrow> bits \<Rightarrow> uint32 option \<times> bits" where
  "symbol_result lens bs = (case decode_code lens bs of None \<Rightarrow> (None, bs) | Some (s, rest) \<Rightarrow> (Some (of_nat s), rest))"

lemma take_window:
  assumes "n \<le> length bs" and "k \<le> n"
  shows "take k bs = val_bits k (bits_val (take n bs))"
proof -
  have "val_bits n (bits_val (take n bs)) = take n bs" using assms(1) by (intro val_bits_eqI) simp
  moreover have "take k (val_bits n (bits_val (take n bs))) = val_bits k (bits_val (take n bs))"
    using assms(2) by (simp add: val_bits_def take_map)
  ultimately show ?thesis using assms(2) by (simp add: min_def)
qed

lemma SafeReadSymbol_spec:
  assumes "complete_code lens" and "table_ok lens base tbl" and "base + table_cells lens \<le> length tbl"
    and "length lens < 2 ^ 16" and "br_ok br"
  shows "\<exists>r br'. SafeReadSymbol tbl base br = Some (r, br') \<and> br_ok br' \<and> br_same br br' \<and>
    (r, br_bits br') = symbol_result lens (br_bits br)"
proof -
  have u15: "unat (15 :: uint32) = 15" by simp
  have "br_ready br 15" by (simp add: br_ready_def)
  then obtain r b1 where b1: "BrotliSafeGetBits br 15 = Some (r, b1)" "br_ok b1" "br_same br b1" "br_bits b1 = br_bits br"
    "if 15 \<le> length (br_bits br) then (\<exists>v. r = Some v \<and> unat v = bits_val (take 15 (br_bits br))) \<and> 15 \<le> 64 - unat (br_bit_pos b1)
     else r = None \<and> avail_in b1 = 0"
    using BrotliSafeGetBits_spec [OF assms(5), of 15] unfolding u15 by blast
  show ?thesis
  proof (cases "15 \<le> length (br_bits br)")
    case True
    then obtain v where v: "r = Some v" "unat v = bits_val (take 15 (br_bits br))" "15 \<le> 64 - unat (br_bit_pos b1)"
      using b1(5) by auto
    obtain s where s: "has_code lens s" "rev_bits (lens ! s) (unat v) = code_of lens s"
      using window_exists [OF assms(1)] by blast
    have l: "lens ! s \<le> 15" by (rule has_codeD(2) [OF assms(1) s(1)])
    have "decode_code lens (br_bits br) = (if lens ! s \<le> length (br_bits br) then Some (s, drop (lens ! s) (br_bits br)) else None)"
      using take_window [OF True] unfolding v(2) [symmetric] by (intro decode_code_window [OF assms(1) s])
    then have res: "symbol_result lens (br_bits br) = (Some (of_nat s), drop (lens ! s) (br_bits br))"
      using True l by (simp add: symbol_result_def)
    have u: "unat (of_nat (lens ! s) :: uint32) = lens ! s" using l by (simp add: unat_of_nat_small)
    then have le: "unat (of_nat (lens ! s) :: uint32) \<le> 64 - unat (br_bit_pos b1)" using l v(3) by simp
    note d = BrotliDropBits_spec [OF b1(2) le]
    have "SafeReadSymbol tbl base br = Some (Some (of_nat s), BrotliDropBits b1 (of_nat (lens ! s)))"
      unfolding SafeReadSymbol_def b1(1) v(1) using DecodeSymbol_spec [OF assms(1-4) s] by simp
    then show ?thesis using d res u b1(3,4) br_same_trans by (intro exI conjI) (assumption | simp | blast)+
  next
    case False
    then have b: "r = None" "avail_in b1 = 0" using b1(5) by auto
    define a where "a = 64 - unat (br_bit_pos b1)"
    define W where "W = unat (ucast (drop_bit (unat (br_bit_pos b1)) (br_val b1)) :: uint32)"
    have bs: "br_bits b1 = word_bits (br_val b1) (unat (br_bit_pos b1)) 64"
      using b(2) b1(2) by (simp add: br_bits_def br_rest_def)
    then have len: "length (br_bits br) = a" unfolding b1(4) [symmetric] a_def by simp
    have a: "a < 15" using False len by simp
    have win: "take k (br_bits br) = val_bits k W" if "k \<le> length (br_bits br)" for k
    proof (rule nth_equalityI)
      fix i assume "i < length (take k (br_bits br))"
      then have i: "i < k" "i < a" "i < 32" using that len a by simp_all
      then show "take k (br_bits br) ! i = val_bits k W ! i"
        unfolding b1(4) [symmetric] bs
        by (simp add: word_bits_def val_bits_def W_def unat_bit_iff bit_simps a_def add.commute)
    qed (use that in simp)
    obtain s where s: "has_code lens s" "rev_bits (lens ! s) W = code_of lens s" using window_exists [OF assms(1)] by blast
    have "decode_code lens (br_bits br) = (if lens ! s \<le> length (br_bits br) then Some (s, drop (lens ! s) (br_bits br)) else None)"
      using win by (intro decode_code_window [OF assms(1) s])
    then have res: "symbol_result lens (br_bits br) = (if lens ! s \<le> a then (Some (of_nat s), drop (lens ! s) (br_bits br)) else (None, br_bits br))"
      by (simp add: symbol_result_def len)
    have run: "SafeReadSymbol tbl base br = Some (if lens ! s \<le> a then (Some (of_nat s), BrotliDropBits b1 (of_nat (lens ! s))) else (None, b1))"
      using SafeDecodeSymbol_spec [OF assms(1-4) s b1(2) a_def a W_def] unfolding SafeReadSymbol_def b1(1) b(1) by simp
    have u: "unat (of_nat (lens ! s) :: uint32) = lens ! s"
      using has_codeD(2) [OF assms(1) s(1)] by (simp add: unat_of_nat_small)
    show ?thesis
    proof (cases "lens ! s \<le> a")
      case True
      then have "unat (of_nat (lens ! s) :: uint32) \<le> 64 - unat (br_bit_pos b1)" using u by (simp add: a_def)
      from BrotliDropBits_spec [OF b1(2) this] show ?thesis
        using run res u True b1(3,4) br_same_trans by (intro exI conjI) (assumption | simp | blast)+
    next
      case False
      then show ?thesis using run res b1 by simp
    qed
  qed
qed

lemma ReadSymbol_spec:
  assumes "complete_code lens" and "table_ok lens base tbl" and "base + table_cells lens \<le> length tbl"
    and "length lens < 2 ^ 16" and "br_warm br" and "8 \<le> avail_in br"
  shows "\<exists>v br'. ReadSymbol tbl base br = Some (v, br') \<and> br_warm br' \<and> br_same br br' \<and>
    (Some v, br_bits br') = symbol_result lens (br_bits br)"
proof -
  obtain w b1 where b1: "BrotliGet16BitsUnmasked br = Some (w, b1)" "br_warm b1" "br_same br b1" "br_bits b1 = br_bits br"
    "16 < 64 - unat (br_bit_pos b1)" "\<And>k. k \<le> 16 \<Longrightarrow> bits_val (take k (br_bits br)) = take_bit k (unat w)"
    using BrotliGet16BitsUnmasked_spec [OF assms(5,6)] by blast
  have ok: "br_ok br" using assms(5) by (simp add: br_warm_def)
  then have len: "64 \<le> length (br_bits br)" using length_br_bits [OF ok] assms(6) by simp
  have win: "take k (br_bits br) = val_bits k (unat w)" if "k \<le> 15" for k
  proof -
    have "val_bits k (bits_val (take k (br_bits br))) = val_bits k (unat w)"
      using b1(6) [of k] that val_bits_mod [of k "unat w"] by (simp add: take_bit_eq_mod)
    then show ?thesis using take_window [of k "br_bits br" k] len that by simp
  qed
  obtain s where s: "has_code lens s" "rev_bits (lens ! s) (unat w) = code_of lens s"
    using window_exists [OF assms(1)] by blast
  have l: "lens ! s \<le> 15" by (rule has_codeD(2) [OF assms(1) s(1)])
  have "decode_code lens (br_bits br) = (if lens ! s \<le> length (br_bits br) then Some (s, drop (lens ! s) (br_bits br)) else None)"
    using win by (intro decode_code_window [OF assms(1) s])
  then have res: "symbol_result lens (br_bits br) = (Some (of_nat s), drop (lens ! s) (br_bits br))"
    using len l by (simp add: symbol_result_def)
  have u: "unat (of_nat (lens ! s) :: uint32) = lens ! s" using l by (simp add: unat_of_nat_small)
  then have le: "unat (of_nat (lens ! s) :: uint32) \<le> 64 - unat (br_bit_pos b1)" using l b1(5) by simp
  have "br_ok b1" using b1(2) by (simp add: br_warm_def)
  note d = BrotliDropBits_spec [OF this le]
  then have "br_warm (BrotliDropBits b1 (of_nat (lens ! s)))" using u l b1(5) by (simp add: br_warm_def)
  moreover have "ReadSymbol tbl base br = Some (of_nat s, BrotliDropBits b1 (of_nat (lens ! s)))"
    unfolding ReadSymbol_def b1(1) using DecodeSymbol_spec [OF assms(1-4) s] by simp
  ultimately show ?thesis using d res u b1(3,4) br_same_trans by (intro exI conjI) (assumption | simp | blast)+
qed

end
