(* ===== verification/Enc_Code_Facts.thy ===== *)
theory Enc_Code_Facts
  imports Canonical_Codes Entropy_Encode
begin

text \<open>
  The code words of \<^verbatim>\<open>enc/entropy_encode.c\<close>: \<open>BrotliConvertBitDepthsToSymbols\<close> gives each symbol its
  canonical code, reversed, so that writing it least significant bit first puts the code into the stream
  with its most significant bit first.
\<close>

section \<open>Reversing a code\<close>

lemma kLut_table: "list_all (\<lambda>j. kLut ! j = of_nat (rev_bits 4 j)) [0..<16]" "length kLut = 16"
  by code_simp+

lemma kLut_nth:
  assumes "j = unat (bits AND 0xF)"
  shows "arr_get kLut j = Some (of_nat (rev_bits 4 (unat (bits :: uint16))))"
proof -
  have "0xF = (mask 4 :: uint16)" by (simp add: mask_eq_exp_minus_1)
  then have j: "j = unat bits mod 2 ^ 4" unfolding assms by (simp only: unat_and_mask)
  then have "j < 16" by simp
  then have "j \<in> set [0..<16]" by (simp del: upt_rec_numeral)
  then have "kLut ! j = of_nat (rev_bits 4 j)" using kLut_table(1) unfolding list_all_iff by blast
  then show ?thesis using kLut_table(2) \<open>j < 16\<close> rev_bits_mod [of 4 "unat bits"] unfolding j by simp
qed

lemma reverse_nibbles_spec:
  assumes "0 < k" and "4 * k < n + 4" and "n \<le> 16"
  shows "\<exists>K. n \<le> 4 * K \<and> 4 * K < n + 4 \<and>
    reverse_nibbles n (4 * k) (drop_bit (4 * (k - 1)) B) (of_nat (rev_bits (4 * k) (unat B))) =
      Some (of_nat (rev_bits (4 * K) (unat B)))"
  using assms
proof (induction "n - 4 * k" arbitrary: k rule: less_induct)
  case less
  show ?case
  proof (cases "4 * k < n")
    case False
    then show ?thesis using less.prems by (intro exI [of _ k]) (subst reverse_nibbles.simps, simp)
  next
    case True
    define b where "b = drop_bit 4 (drop_bit (4 * (k - 1)) B)"
    have k4: "4 * Suc (k - 1) = 4 * k" using less.prems(1) by simp
    then have b: "b = drop_bit (4 * (Suc k - 1)) B" unfolding b_def drop_bit_drop_bit by simp
    then have u: "unat b = unat B div 2 ^ (4 * k)" by (simp add: unat_drop_bit_div)
    have e: "4 * k + 4 = 4 * Suc k" by simp
    have "push_bit 4 (of_nat (rev_bits (4 * k) (unat B))) OR of_nat (rev_bits 4 (unat b)) =
        (of_nat (rev_bits 4 (unat b) + 2 ^ 4 * rev_bits (4 * k) (unat B)) :: uint64)"
      by (rule of_nat_or_shift) (rule rev_bits_less)
    also have "rev_bits 4 (unat b) + 2 ^ 4 * rev_bits (4 * k) (unat B) = rev_bits (4 * Suc k) (unat B)"
      using rev_bits_split [of "4 * k" 4 "unat B"] unfolding e u by simp
    finally have r: "push_bit 4 (of_nat (rev_bits (4 * k) (unat B))) OR of_nat (rev_bits 4 (unat b)) =
        (of_nat (rev_bits (4 * Suc k) (unat B)) :: uint64)" .
    have step: "reverse_nibbles n (4 * k) (drop_bit (4 * (k - 1)) B) (of_nat (rev_bits (4 * k) (unat B))) =
        reverse_nibbles n (4 * Suc k) b (of_nat (rev_bits (4 * Suc k) (unat B)))"
      using True unfolding reverse_nibbles.simps [of n "4 * k"] Let_def b_def [symmetric] kLut_nth [OF refl] bind.bind_lunit r e
      by simp
    have "n - 4 * Suc k < n - 4 * k" "4 * Suc k < n + 4" using True by simp_all
    from less.hyps [OF this(1) _ this(2) less.prems(3)] show ?thesis unfolding step b by simp
  qed
qed

lemma BrotliReverseBits_enc_spec:
  assumes "0 < n" and "n \<le> 16" and "c < 2 ^ n"
  shows "BrotliReverseBits_enc n (of_nat c) = Some (of_nat (rev_bits n c))"
proof -
  have le: "(2::nat) ^ n \<le> 2 ^ 16" by (rule power_increasing) (use assms(2) in simp_all)
  then have c: "unat (of_nat c :: uint16) = c" using assms(3) by (simp add: unat_of_nat_small)
  obtain K where K: "n \<le> 4 * K" "4 * K < n + 4"
    "reverse_nibbles n 4 (of_nat c) (of_nat (rev_bits 4 c)) = Some (of_nat (rev_bits (4 * K) c))"
    using reverse_nibbles_spec [of 1 n "of_nat c"] assms(1,2) c by auto
  have "4 * int K - int n = - int n mod 4"
    using K(1,2) by presburger
  then have sh: "nat (- int n mod 4) = 4 * K - n" using K(1) by simp
  have "(2::nat) ^ (4 * K) \<le> 2 ^ 19" by (rule power_increasing) (use K(2) assms(2) in simp_all)
  then have "unat (of_nat (rev_bits (4 * K) c) :: uint64) = rev_bits (4 * K) c"
    using rev_bits_less [of "4 * K" c] by (simp add: unat_of_nat_small)
  then have d: "drop_bit (4 * K - n) (of_nat (rev_bits (4 * K) c) :: uint64) = of_nat (rev_bits n c)"
    using rev_bits_prefix [OF K(1), of c] by (intro word_of_natI) (simp add: unat_drop_bit_div)
  have "rev_bits n c < 2 ^ 16" using rev_bits_less [of n c] le by simp
  then have "ucast (of_nat (rev_bits n c) :: uint64) = (of_nat (rev_bits n c) :: uint16)"
    by (intro word_of_natI) (simp add: unsigned_ucast_eq unat_of_nat_small take_bit_nat_eq_self)
  then show ?thesis
    using kLut_nth [of _ "of_nat c"] c K(3) by (simp add: BrotliReverseBits_enc_def sh d)
qed

section \<open>Assigning the codes\<close>

lemma filter_upt_Suc: "length (filter P [0..<Suc i]) = length (filter P [0..<i]) + (if P i then 1 else 0)"
  by simp

lemma count_depths_spec:
  assumes "lens = map unat (take len depth)" and "len \<le> length depth" and "\<forall>l \<in> set lens. l \<le> 15"
  shows "\<exists>bl. count_depths depth len = Some bl \<and> length bl = 16 \<and> (\<forall>l < 16. bl ! l = of_nat (len_count lens l))"
proof -
  have len: "length lens = len" using assms(1,2) by simp
  have "\<exists>bl. foldM (\<lambda>i bl. do {
     d \<leftarrow> arr_get depth i;
     c \<leftarrow> arr_get bl (unat d);
     arr_set bl (unat d) (c + 1) }) [0..<len] (replicate 16 0) = Some bl \<and>
    (length bl = 16 \<and> (\<forall>l < 16. bl ! l = (of_nat (length (filter (\<lambda>s. lens ! s = l) [0..<len])) :: uint16)))"
  proof (rule foldM_upt [where P = "\<lambda>i bl. length bl = 16 \<and>
      (\<forall>l < 16. bl ! l = of_nat (length (filter (\<lambda>s. lens ! s = l) [0..<i])))"])
    fix i and bl :: "uint16 list"
    assume i: "i < len" and bl: "length bl = 16 \<and> (\<forall>l < 16. bl ! l = of_nat (length (filter (\<lambda>s. lens ! s = l) [0..<i])))"
    have d: "arr_get depth i = Some (depth ! i)" "unat (depth ! i) = lens ! i" "lens ! i < 16"
      using i assms len nth_mem [of i lens] by (auto simp: less_Suc_eq_le)
    have "length (bl[lens ! i := bl ! (lens ! i) + 1]) = 16" using bl by simp
    moreover have "bl[lens ! i := bl ! (lens ! i) + 1] ! l = of_nat (length (filter (\<lambda>s. lens ! s = l) [0..<Suc i]))" if "l < 16" for l
      using bl that d(3) unfolding filter_upt_Suc by (simp add: nth_list_update)
    ultimately show "\<exists>bl'. (do { d \<leftarrow> arr_get depth i; c \<leftarrow> arr_get bl (unat d); arr_set bl (unat d) (c + 1) }) = Some bl' \<and>
      (length bl' = 16 \<and> (\<forall>l < 16. bl' ! l = of_nat (length (filter (\<lambda>s. lens ! s = l) [0..<Suc i]))))"
      using d bl by (intro exI [of _ "bl[lens ! i := bl ! (lens ! i) + 1]"]) (simp del: upt_Suc)
  qed simp_all
  then show ?thesis unfolding count_depths_def syms_def len by simp
qed

lemma first_codes_spec:
  assumes "length bl = 16" and "bl ! 0 = 0" and "\<forall>l. 0 < l \<and> l < 16 \<longrightarrow> bl ! l = of_nat (len_count lens l)"
    and "length lens < 2 ^ 16"
  shows "\<exists>nxt. first_codes bl = Some nxt \<and> length nxt = 16 \<and> (\<forall>l. 0 < l \<and> l < 16 \<longrightarrow> nxt ! l = of_nat (first_code lens l))"
proof -
  define P where "P i st \<longleftrightarrow> fst st = int (first_code lens (i - 1)) \<and> length (snd st) = 16 \<and>
    (\<forall>l. 0 < l \<and> l < i \<longrightarrow> snd st ! l = of_nat (first_code lens l))" for i and st :: "int \<times> uint16 list"
  have "\<exists>st. foldM (\<lambda>i (code, nxt). do {
       c \<leftarrow> arr_get bl (i - 1);
       let code = (code + uint c) * 2;
       nxt \<leftarrow> arr_set nxt i (of_int code);
       Some (code, nxt) }) [1..<16] (0 :: int, replicate 16 0) = Some st \<and> P 16 st"
  proof (rule foldM_upt [where P = P])
    show "P 1 (0, replicate 16 0)" by (simp add: P_def)
  next
    fix i st assume i: "1 \<le> i" "i < 16" and st: "P i st"
    obtain code nxt where cn: "st = (code, nxt)" by (cases st)
    have g: "arr_get bl (i - 1) = Some (bl ! (i - 1))" using i assms(1) by simp
    have set: "arr_set nxt i v = Some (nxt[i := v])" for v using st i(2) by (simp add: P_def cn)
    have c: "(code + uint (bl ! (i - 1))) * 2 = int (first_code lens i)"
    proof (cases "i = 1")
      case False
      then have j: "0 < i - 1" "i = Suc (i - 1)" using i by simp_all
      have "len_count lens (i - 1) < 2 ^ 16" using len_count_le [of lens "i - 1"] assms(4) by simp
      then have "uint (bl ! (i - 1)) = int (len_count lens (i - 1))"
        using assms(3) i j(1) unfolding uint_nat by (simp add: unat_of_nat_small)
      then show ?thesis using st first_code_Suc [OF j(1), of lens] j(2) by (simp add: P_def cn)
    qed (use assms(2) st in \<open>simp add: P_def cn\<close>)
    have "P (Suc i) (int (first_code lens i), nxt[i := of_nat (first_code lens i)])"
      using st i by (auto simp: P_def cn nth_list_update less_Suc_eq)
    then show "\<exists>st'. (case st of (code, nxt) \<Rightarrow> do {
       c \<leftarrow> arr_get bl (i - 1);
       let code = (code + uint c) * 2;
       nxt \<leftarrow> arr_set nxt i (of_int code);
       Some (code, nxt) }) = Some st' \<and> P (Suc i) st'"
      unfolding cn prod.case g bind.bind_lunit Let_def c of_int_of_nat_eq set by blast
  qed simp
  then show ?thesis by (auto simp: first_codes_def P_def)
qed

lemma assign_codes_spec:
  assumes "lens = map unat (take len depth)" and "len \<le> length depth" and "complete_code lens" and "length lens < 2 ^ 16"
    and "length nxt = 16" and "\<forall>l. 0 < l \<and> l < 16 \<longrightarrow> nxt ! l = of_nat (first_code lens l)" and "len \<le> length bits"
  shows "\<exists>nxt' bits'. foldM (assign_code depth) [0..<len] (nxt, bits) = Some (nxt', bits') \<and> length bits' = length bits \<and>
    (\<forall>s < len. 0 < lens ! s \<longrightarrow> bits' ! s = of_nat (rev_bits (lens ! s) (code_of lens s)))"
proof -
  have len: "length lens = len" using assms(1,2) by simp
  define P where "P i st \<longleftrightarrow> length (fst st) = 16 \<and> length (snd st) = length bits \<and>
    (\<forall>l. 0 < l \<and> l < 16 \<longrightarrow> fst st ! l = of_nat (first_code lens l + length (filter (\<lambda>t. lens ! t = l) [0..<i]))) \<and>
    (\<forall>s < i. 0 < lens ! s \<longrightarrow> snd st ! s = of_nat (rev_bits (lens ! s) (code_of lens s)))" for i and st :: "uint16 list \<times> uint16 list"
  have "\<exists>st. foldM (assign_code depth) [0..<len] (nxt, bits) = Some st \<and> P len st"
  proof (rule foldM_upt [where P = P])
    show "P 0 (nxt, bits)" using assms(5,6) by (simp add: P_def)
  next
    fix i st assume i: "i < len" and st: "P i st"
    obtain nx bs where nb: "st = (nx, bs)" by (cases st)
    have d: "arr_get depth i = Some (depth ! i)" "unat (depth ! i) = lens ! i" using i assms(1,2) by simp_all
    show "\<exists>st'. assign_code depth i st = Some st' \<and> P (Suc i) st'"
    proof (cases "lens ! i = 0")
      case True
      then have "depth ! i = 0" using d(2) by (simp add: unat_eq_zero)
      then have "assign_code depth i st = Some st" using d(1) by (simp add: assign_code_def nb)
      moreover have "P (Suc i) st" using st True unfolding P_def filter_upt_Suc by (auto simp: less_Suc_eq)
      ultimately show ?thesis by blast
    next
      case False
      define l where "l = lens ! i"
      define c where "c = code_of lens i"
      have "lens ! i \<in> set lens" using i len by simp
      then have le: "lens ! i \<le> 15" using assms(3) unfolding complete_code_def list_all_iff by blast
      have l: "0 < l" "l < 16" "l \<le> 16" "l \<le> 15"
        using False le by (simp_all add: l_def)
      obtain k where k: "k < len_count lens l" "c = code_at lens l k"
        using syms_index [of i lens] i len unfolding l_def c_def by blast
      have c: "c < 2 ^ l" using code_strict [OF assms(3) l(1,4) k(1)] k(2) by simp
      have nx: "nx ! l = of_nat c" using st l by (simp add: P_def nb c_def code_of_def l_def)
      define st' where "st' = (nx[l := of_nat c + 1], bs[i := of_nat (rev_bits l c)])"
      have "depth ! i \<noteq> 0" using False d(2) by auto
      then have "assign_code depth i st = Some st'"
        using d st l(2) nx BrotliReverseBits_enc_spec [OF l(1,3) c] i assms(7)
        by (simp add: assign_code_def nb P_def st'_def flip: l_def)
      moreover have "P (Suc i) st'"
        unfolding P_def
      proof (intro conjI allI impI)
        fix m :: nat assume m: "0 < m \<and> m < 16"
        show "fst st' ! m = of_nat (first_code lens m + length (filter (\<lambda>t. lens ! t = m) [0..<Suc i]))"
        proof (cases "m = l")
          case True
          then show ?thesis using st l(2) unfolding filter_upt_Suc
            by (simp add: st'_def P_def nb c_def code_of_def l_def add.commute)
        next
          case neq: False
          then show ?thesis using st m unfolding filter_upt_Suc by (simp add: st'_def P_def nb l_def)
        qed
      next
        fix s assume "s < Suc i" "0 < lens ! s"
        then show "snd st' ! s = of_nat (rev_bits (lens ! s) (code_of lens s))"
          using st i assms(7) by (cases "s = i") (simp_all add: st'_def P_def nb l_def c_def)
      qed (use st in \<open>simp_all add: st'_def P_def nb\<close>)
      ultimately show ?thesis by blast
    qed
  qed simp
  then show ?thesis by (auto simp: P_def)
qed

lemma BrotliConvertBitDepthsToSymbols_spec:
  assumes "lens = map unat (take len depth)" and "len \<le> length depth" and "complete_code lens" and "length lens < 2 ^ 16"
    and "len \<le> length bits"
  shows "\<exists>bits'. BrotliConvertBitDepthsToSymbols depth len bits = Some bits' \<and> length bits' = length bits \<and>
    (\<forall>s < len. 0 < lens ! s \<longrightarrow> bits' ! s = of_nat (rev_bits (lens ! s) (code_of lens s)))"
proof -
  have "\<forall>l \<in> set lens. l \<le> 15" using assms(3) unfolding complete_code_def list_all_iff by blast
  from count_depths_spec [OF assms(1,2) this] obtain bl where
    bl: "count_depths depth len = Some bl" "length bl = 16" "\<And>l. l < 16 \<Longrightarrow> bl ! l = of_nat (len_count lens l)" by blast
  have "length (bl[0 := 0]) = 16" "bl[0 := 0] ! 0 = 0" "\<forall>l. 0 < l \<and> l < 16 \<longrightarrow> bl[0 := 0] ! l = of_nat (len_count lens l)"
    using bl(2,3) by simp_all
  from first_codes_spec [OF this assms(4)] obtain nxt where
    nxt: "first_codes (bl[0 := 0]) = Some nxt" "length nxt = 16" "\<forall>l. 0 < l \<and> l < 16 \<longrightarrow> nxt ! l = of_nat (first_code lens l)" by blast
  obtain nxt' bits' where "foldM (assign_code depth) [0..<len] (nxt, bits) = Some (nxt', bits')" "length bits' = length bits"
    "\<forall>s < len. 0 < lens ! s \<longrightarrow> bits' ! s = of_nat (rev_bits (lens ! s) (code_of lens s))"
    using assign_codes_spec [OF assms(1-4) nxt(2,3) assms(5)] by blast
  then show ?thesis using bl(1,2) nxt(1) by (simp add: BrotliConvertBitDepthsToSymbols_def)
qed

end
