(* ===== verification/Code_Length_Facts.thy ===== *)
theory Code_Length_Facts
  imports Huffman_Decode_Facts Decode_Huffman Decode_Header_Facts
begin

text \<open>
  Reading the code lengths of a prefix code.  \<open>lengths_inv\<close> says what the arena's variables mean after the
  lengths \<open>lens\<close> have been read: the chains and counts of these symbols, as the table builder expects
  them, and the code space that is left.  A further length and a run of lengths keep it; when no space is left,
  \<open>lens\<close> is a complete code.  What the loops do with these variables is in \<^verbatim>\<open>Enc_Length_Facts\<close> and
  \<^verbatim>\<open>Code_Length_Reading\<close>.
\<close>

section \<open>One more symbol\<close>

lemma syms_snoc: "syms (lens @ [l]) j = syms lens j @ (if j = l then [length lens] else [])"
proof -
  have "filter (\<lambda>s. (lens @ [l]) ! s = j) [0..<length lens] = filter (\<lambda>s. lens ! s = j) [0..<length lens]"
    by (rule filter_cong) (simp_all add: nth_append)
  then show ?thesis by (simp add: syms_def)
qed

lemma link_snoc: "k \<le> len_count lens j \<Longrightarrow> link (lens @ [l]) j k = link lens j k"
  by (cases k) (simp_all add: link_def syms_snoc nth_append)

lemma link_new: "link (lens @ [l]) l (len_count (lens @ [l]) l) = int (length lens)"
  by (simp add: link_def syms_snoc)

lemma link_range:
  assumes "0 < j" and "j \<le> 15" and "k \<le> len_count lens j"
  shows "-16 < link lens j k" and "link lens j k < int (length lens)"
proof -
  have "syms lens j ! (k - 1) < length lens" if "0 < k" using syms_nth(1) [of "k - 1" lens j] that assms(3) by simp
  then show "-16 < link lens j k" "link lens j k < int (length lens)" using assms by (auto simp: link_def)
qed

lemma distinct_syms: "distinct (syms lens j)"
  by (simp add: syms_def)

text \<open>The cell after the end of a chain is no cell of a chain.\<close>

lemma link_end:
  assumes "0 < j" and "j \<le> 15" and "0 < l" and "l \<le> 15" and "k < len_count lens j \<or> k = 0 \<and> j \<noteq> l"
  shows "link lens j k \<noteq> link lens l (len_count lens l)"
proof
  assume eq: "link lens j k = link lens l (len_count lens l)"
  show False
  proof (cases "k = 0")
    case True
    then show False using eq assms by (auto simp: link_def split: if_splits)
  next
    case False
    then have k: "k < len_count lens j" "k - 1 < len_count lens j" using assms(5) by auto
    have l: "len_count lens l \<noteq> 0" using eq False assms(4) by (auto simp: link_def)
    then have l1: "len_count lens l - 1 < len_count lens l" by simp
    have s: "syms lens j ! (k - 1) = syms lens l ! (len_count lens l - 1)"
      using eq False l by (simp add: link_def split: if_splits)
    then have "j = l" using syms_nth(2) [OF k(2)] syms_nth(2) [OF l1] by simp
    then have "k - 1 = len_count lens l - 1" using s distinct_syms [of lens l] k(2) l1 by (simp add: nth_eq_iff_index_eq)
    then show False using k False \<open>j = l\<close> by simp
  qed
qed

definition chains_inv :: "nat list \<Rightarrow> uint16 list \<Rightarrow> bool" where
  "chains_inv lens sl \<longleftrightarrow> (\<forall>l \<in> {1..15}.
     (len_count lens l = 0 \<longrightarrow> symbol_list_get sl (int l - 16) = Some 0xFFFF) \<and>
     (\<forall>k < len_count lens l. symbol_list_get sl (link lens l k) = Some (of_nat (syms lens l ! k))))"

lemma chain_ok_iff: "chain_ok sl lens \<longleftrightarrow> length lens < 2 ^ 16 \<and> chains_inv lens sl"
  by (simp add: chain_ok_def chains_inv_def)

lemma symbol_list_get_set:
  assumes "symbol_list_set sl i v = Some sl'" and "-16 \<le> i" and "-16 \<le> j"
  shows "symbol_list_get sl' j = (if i = j then Some v else symbol_list_get sl j)"
proof -
  have n: "nat (i + 16) < length sl" "sl' = sl[nat (i + 16) := v]"
    using assms(1,2) by (auto simp: symbol_list_set_def arr_seti_def arr_set_eq_Some)
  show ?thesis
  proof (cases "i = j")
    case False
    then have "nat (i + 16) \<noteq> nat (j + 16)" using assms(2,3) by simp
    then show ?thesis using n assms(3) False by (simp add: symbol_list_get_def arr_geti_def arr_get_def)
  qed (use n assms(3) in \<open>simp add: symbol_list_get_def arr_geti_def\<close>)
qed

lemma chains_snoc:
  assumes "chains_inv lens sl" and "0 < l" and "l \<le> 15" and "16 + length lens \<le> length sl"
  shows "\<exists>sl'. symbol_list_set sl (link lens l (len_count lens l)) (of_nat (length lens)) = Some sl' \<and>
    length sl' = length sl \<and> chains_inv (lens @ [l]) sl'"
proof -
  note r = link_range [OF assms(2,3) order_refl, of lens]
  have i: "-16 \<le> link lens l (len_count lens l)" using r(1) by simp
  have "nat (link lens l (len_count lens l) + 16) < length sl" using r assms(4) by simp
  then obtain sl' where s: "symbol_list_set sl (link lens l (len_count lens l)) (of_nat (length lens)) = Some sl'"
    using i by (simp add: symbol_list_set_def arr_seti_def)
  then have len: "length sl' = length sl" unfolding symbol_list_set_def by (rule arr_seti_length)
  have "(len_count (lens @ [l]) j = 0 \<longrightarrow> symbol_list_get sl' (int j - 16) = Some 0xFFFF) \<and>
      (\<forall>k < len_count (lens @ [l]) j. symbol_list_get sl' (link (lens @ [l]) j k) = Some (of_nat (syms (lens @ [l]) j ! k)))"
    if "j \<in> {1..15}" for j
  proof (intro conjI impI allI)
    have j: "0 < j" "j \<le> 15" using that by simp_all
    note inv = assms(1) [unfolded chains_inv_def, rule_format, OF that]
    {
      assume z: "len_count (lens @ [l]) j = 0"
      then have jl: "j \<noteq> l" "len_count lens j = 0" by (auto simp: syms_snoc)
      have "link lens j 0 \<noteq> link lens l (len_count lens l)" by (rule link_end) (use j assms jl in simp_all)
      then have "link lens l (len_count lens l) \<noteq> int j - 16" by (simp add: link_def)
      then show "symbol_list_get sl' (int j - 16) = Some 0xFFFF"
        using symbol_list_get_set [OF s i, of "int j - 16"] j inv jl(2) by simp
    next
      fix k assume k: "k < len_count (lens @ [l]) j"
      then have kle: "k \<le> len_count lens j" by (simp add: syms_snoc split: if_splits)
      have b: "-16 \<le> link lens j k" using link_range(1) [OF j kle] by simp
      show "symbol_list_get sl' (link (lens @ [l]) j k) = Some (of_nat (syms (lens @ [l]) j ! k))"
      proof (cases "k < len_count lens j")
        case True
        then have "link lens j k \<noteq> link lens l (len_count lens l)" by (intro link_end) (use j assms in simp_all)
        then show ?thesis using symbol_list_get_set [OF s i b] inv True unfolding link_snoc [OF kle]
          by (auto simp: syms_snoc nth_append)
      next
        case False
        then have "j = l" "k = len_count lens l" using k kle by (auto simp: syms_snoc split: if_splits)
        then show ?thesis using symbol_list_get_set [OF s i b] unfolding link_snoc [OF kle] by (simp add: syms_snoc nth_append)
      qed
    }
  qed
  then have "chains_inv (lens @ [l]) sl'" unfolding chains_inv_def by blast
  then show ?thesis using s len by blast
qed

lemma snoc_replicate: "lens @ replicate (Suc n) l = (lens @ [l]) @ replicate n l"
  by (simp add: replicate_append_same)

lemma ucast_of_nat_down:
  assumes "LENGTH('b) \<le> LENGTH('a)"
  shows "ucast (of_nat n :: 'a::len word) = (of_nat n :: 'b::len word)"
  by (rule bit_word_eqI) (use assms in \<open>auto simp: bit_simps\<close>)

lemma sint_of_nat: "n < 2 ^ 31 \<Longrightarrow> sint (of_nat n :: uint32) = int n"
  using sint_eq_unat [of "of_nat n"] by (simp add: unat_of_nat_small)

lemma extend_chain_spec:
  assumes "chains_inv lens sl" and "0 < l" and "l \<le> 15" and "16 + (length lens + n) < length sl"
    and "length lens + n < 2 ^ 31 - 1"
  shows "\<exists>sl'. extend_chain sl (link lens l (len_count lens l)) (of_nat (length lens)) (of_nat (length lens + Suc n)) =
      Some (sl', int (length lens + n), of_nat (length lens + Suc n)) \<and>
    length sl' = length sl \<and> chains_inv (lens @ replicate (Suc n) l) sl'"
  using assms
proof (induction n arbitrary: lens sl)
  case (0 lens sl)
  obtain sl' where s: "symbol_list_set sl (link lens l (len_count lens l)) (of_nat (length lens)) = Some sl'"
    "length sl' = length sl" "chains_inv (lens @ [l]) sl'"
    using chains_snoc [OF 0(1-3)] 0(4) by auto
  have w: "ucast (of_nat (length lens) :: uint32) = (of_nat (length lens) :: uint16)" by (rule ucast_of_nat_down) simp
  have "sint (of_nat (length lens) :: uint32) = int (length lens)" using 0(5) by (intro sint_of_nat) simp
  then show ?case using s w by (subst extend_chain.simps) (simp add: add.commute)
next
  case (Suc n lens sl)
  obtain sl1 where s: "symbol_list_set sl (link lens l (len_count lens l)) (of_nat (length lens)) = Some sl1"
    "length sl1 = length sl" "chains_inv (lens @ [l]) sl1"
    using chains_snoc [OF Suc.prems(1-3)] Suc.prems(4) by auto
  have w: "ucast (of_nat (length lens) :: uint32) = (of_nat (length lens) :: uint16)" by (rule ucast_of_nat_down) simp
  have si: "sint (of_nat (length lens) :: uint32) = int (length lens)" using Suc.prems(5) by (intro sint_of_nat) simp
  have nx: "of_nat (length lens) + 1 = (of_nat (length (lens @ [l])) :: uint32)" by simp
  have en: "length lens + Suc (Suc n) = length (lens @ [l]) + Suc n" by simp
  have "16 + (length (lens @ [l]) + n) < length sl1" "length (lens @ [l]) + n < 2 ^ 31 - 1"
    using Suc.prems(4,5) s(2) by simp_all
  from Suc.IH [OF s(3) Suc.prems(2,3) this] obtain sl' where
    e: "extend_chain sl1 (int (length lens)) (of_nat (length (lens @ [l]))) (of_nat (length (lens @ [l]) + Suc n)) =
      Some (sl', int (length (lens @ [l]) + n), of_nat (length (lens @ [l]) + Suc n))"
    "length sl' = length sl1" "chains_inv ((lens @ [l]) @ replicate (Suc n) l) sl'"
    unfolding link_new by blast
  have ne: "of_nat (length (lens @ [l])) \<noteq> (of_nat (length (lens @ [l]) + Suc n) :: uint32)"
  proof
    assume "of_nat (length (lens @ [l])) = (of_nat (length (lens @ [l]) + Suc n) :: uint32)"
    then have "unat (of_nat (length (lens @ [l])) :: uint32) = unat (of_nat (length (lens @ [l]) + Suc n) :: uint32)"
      by (rule arg_cong)
    then show False using Suc.prems(5) by (simp add: unat_of_nat_small del: of_nat_add of_nat_Suc)
  qed
  have "extend_chain sl (link lens l (len_count lens l)) (of_nat (length lens)) (of_nat (length lens + Suc (Suc n))) =
      Some (sl', int (length lens + Suc n), of_nat (length lens + Suc (Suc n)))"
    unfolding extend_chain.simps [of sl] w s(1) bind.bind_lunit nx en if_P [OF ne] si e(1) by simp
  then show ?case using e(2,3) s(2) unfolding snoc_replicate by auto
qed

section \<open>Repeated symbols\<close>

lemma syms_replicate: "syms (lens @ replicate n l) j = syms lens j @ (if j = l then [length lens..<length lens + n] else [])"
proof (induction n arbitrary: lens)
  case (Suc n)
  show ?case unfolding snoc_replicate Suc syms_snoc by (auto simp: upt_conv_Cons)
qed simp

text \<open>The share of the code space that symbols take, in units of the longest code.\<close>

definition kraft :: "nat list \<Rightarrow> nat" where
  "kraft lens = first_code lens 15 + len_count lens 15"

lemma first_code_snoc: "first_code (lens @ [l]) m = first_code lens m + (if 0 < l \<and> l < m then 2 ^ (m - l) else 0)"
proof (induction m)
  case (Suc m)
  then show ?case by (auto simp: syms_snoc Suc_diff_le)
qed simp

lemma kraft_replicate:
  assumes "l \<le> 15"
  shows "kraft (lens @ replicate n l) = kraft lens + (if l = 0 then 0 else n * 2 ^ (15 - l))"
proof (induction n arbitrary: lens)
  case (Suc n)
  have "kraft (lens @ [l]) = kraft lens + (if l = 0 then 0 else 2 ^ (15 - l))"
    using assms unfolding kraft_def first_code_snoc by (auto simp: syms_snoc)
  then show ?case unfolding snoc_replicate Suc by simp
qed simp

lemma kraft_le: "kraft lens \<le> length lens * 2 ^ 14" if "list_all (\<lambda>l. l \<le> 15) lens"
  using that
proof (induction lens rule: rev_induct)
  case Nil
  have "first_code [] m = 0" for m by (induction m) (simp_all add: syms_def)
  then show ?case by (simp add: kraft_def syms_def)
next
  case (snoc l lens)
  have "(if l = 0 then 0 else 2 ^ (15 - l)) \<le> (2::nat) ^ 14"
    using power_increasing [of "15 - l" 14 "2::nat"] by auto
  then show ?case using kraft_replicate [of l lens 1] snoc by (cases "l = 0") simp_all
qed

definition chain_state :: "nat list \<Rightarrow> uint16 list \<Rightarrow> int list \<Rightarrow> uint16 list \<Rightarrow> bool" where
  "chain_state lens sl ns histo \<longleftrightarrow> chains_inv lens sl \<and> length histo = 16 \<and> 16 \<le> length ns \<and>
     (\<forall>l \<in> {1..15}. ns ! l = link lens l (len_count lens l) \<and> histo ! l = of_nat (len_count lens l))"

lemma chain_state_ext:
  assumes "chain_state lens sl ns histo" and "0 < l" and "l \<le> 15" and "chains_inv (lens @ replicate (Suc n) l) sl'"
  shows "chain_state (lens @ replicate (Suc n) l) sl' (ns[l := int (length lens + n)])
    (histo[l := of_nat (len_count lens l + Suc n)])"
proof -
  have "ns[l := int (length lens + n)] ! j = link (lens @ replicate (Suc n) l) j (len_count (lens @ replicate (Suc n) l) j) \<and>
      histo[l := of_nat (len_count lens l + Suc n)] ! j = of_nat (len_count (lens @ replicate (Suc n) l) j)"
    if "j \<in> {1..15}" for j
  proof (cases "j = l")
    case True
    then show ?thesis using assms(1-3) unfolding link_def syms_replicate
      by (simp add: chain_state_def nth_append del: replicate.simps upt_Suc)
  next
    case False
    then show ?thesis using assms(1) that unfolding link_def syms_replicate by (simp add: chain_state_def link_def)
  qed
  then show ?thesis using assms(1,4) by (simp add: chain_state_def del: of_nat_Suc of_nat_add replicate.simps)
qed

lemma chain_state_zero:
  assumes "chain_state lens sl ns histo"
  shows "chain_state (lens @ replicate n 0) sl ns histo"
proof -
  have s: "syms (lens @ replicate n 0) j = syms lens j" "link (lens @ replicate n 0) j k = link lens j k"
    if "j \<in> {Suc 0..15}" for j k
    using that by (simp_all add: link_def syms_replicate)
  show ?thesis using assms unfolding chain_state_def chains_inv_def by (simp add: s cong: ball_cong_simp)
qed

section \<open>The step functions\<close>

definition lengths_inv :: "nat \<Rightarrow> nat list \<Rightarrow> code_lengths \<Rightarrow> bool" where
  "lengths_inv N lens c \<longleftrightarrow> length lens \<le> N \<and> list_all (\<lambda>l. l \<le> 15) lens \<and> 16 + N \<le> length (cl_symbol_lists c) \<and>
     chain_state lens (cl_symbol_lists c) (cl_next_symbol c) (cl_histo c) \<and>
     cl_symbol c = of_nat (length lens) \<and> cl_space c = 32768 - of_nat (kraft lens) \<and>
     unat (cl_prev_code_len c) \<le> 15 \<and> unat (cl_repeat_code_len c) \<le> 15 \<and>
     (cl_repeat c = 0 \<or> 3 \<le> unat (cl_repeat c)) \<and> unat (cl_repeat c) \<le> length lens"

text \<open>Lengths beyond the alphabet end the loops with a space that is not used up.\<close>

definition overrun :: "nat \<Rightarrow> code_lengths \<Rightarrow> bool" where
  "overrun N c \<longleftrightarrow> cl_symbol c = of_nat N \<and> cl_space c = 0xFFFFF"

lemma space_table: "list_all (\<lambda>l. drop_bit l (32768 :: uint32) = of_nat (2 ^ (15 - l))) [1..<16]"
  by (simp add: upt_rec)

lemma ProcessSingleCodeLength_exact:
  assumes "lengths_inv N lens c" and "length lens < N" and "unat code_len \<le> 15" and "N < 2 ^ 16"
  shows "\<exists>c'. ProcessSingleCodeLength code_len c = Some c' \<and> lengths_inv N (lens @ [unat code_len]) c' \<and> cl_repeat c' = 0 \<and>
    cl_prev_code_len c' = (if code_len = 0 then cl_prev_code_len c else code_len) \<and> cl_repeat_code_len c' = cl_repeat_code_len c"
proof (cases "code_len = 0")
  case True
  have "kraft (lens @ [0]) = kraft lens" using kraft_replicate [of 0 lens 1] by simp
  then show ?thesis using assms chain_state_zero [of lens _ _ _ 1] True
    by (simp add: ProcessSingleCodeLength_def lengths_inv_def)
next
  case False
  define l where "l = unat code_len"
  have l: "0 < l" "l \<le> 15" "l < 16" using False assms(3) by (simp_all add: l_def unat_gt_0)
  note inv = assms(1) [unfolded lengths_inv_def]
  note cs = inv [THEN conjunct2, THEN conjunct2, THEN conjunct2, THEN conjunct1, unfolded chain_state_def]
  have "chains_inv lens (cl_symbol_lists c)" "16 + length lens \<le> length (cl_symbol_lists c)" using cs inv assms(2) by simp_all
  from chains_snoc [OF this(1) l(1,2) this(2)] obtain sl where
    sl: "symbol_list_set (cl_symbol_lists c) (link lens l (len_count lens l)) (of_nat (length lens)) = Some sl"
    "length sl = length (cl_symbol_lists c)" "chains_inv (lens @ [l]) sl" by blast
  have w: "ucast (of_nat (length lens) :: uint32) = (of_nat (length lens) :: uint16)" by (rule ucast_of_nat_down) simp
  have "l \<in> {1..15}" using l by simp
  then have f: "arr_get (cl_next_symbol c) l = Some (link lens l (len_count lens l))"
    "arr_get (cl_histo c) l = Some (of_nat (len_count lens l))"
    "l < length (cl_next_symbol c)" "l < length (cl_histo c)" using cs l(3) by simp_all
  have "l \<in> set [1..<16]" using l by (simp del: upt_rec_numeral)
  then have d: "shr32 32768 code_len = Some (of_nat (2 ^ (15 - l)))"
    using space_table l(3) unfolding list_all_iff by (simp add: shr32_def l_def word_less_nat_alt del: upt_rec_numeral)
  define c' where "c' = c\<lparr>cl_repeat := 0, cl_symbol_lists := sl, cl_next_symbol := (cl_next_symbol c)[l := sint (cl_symbol c)],
     cl_prev_code_len := code_len, cl_space := cl_space c - of_nat (2 ^ (15 - l)),
     cl_histo := (cl_histo c)[l := of_nat (len_count lens l) + 1], cl_symbol := cl_symbol c + 1\<rparr>"
  have "ProcessSingleCodeLength code_len c = Some c'"
    using False f sl(1) w d inv by (simp add: ProcessSingleCodeLength_def c'_def flip: l_def)
  moreover have "lengths_inv N (lens @ [l]) c'"
  proof -
    have "chain_state (lens @ [l]) sl ((cl_next_symbol c)[l := int (length lens)]) ((cl_histo c)[l := of_nat (len_count lens l + 1)])"
      using chain_state_ext [of lens "cl_symbol_lists c" "cl_next_symbol c" "cl_histo c" l 0 sl] inv l sl(3) by simp
    moreover have "sint (cl_symbol c) = int (length lens)" using inv assms(2,4) by (simp add: sint_of_nat)
    moreover have "kraft (lens @ [l]) = kraft lens + 2 ^ (15 - l)" using kraft_replicate [of l lens 1] l by simp
    ultimately show ?thesis using inv assms(2) l sl(2) by (simp add: lengths_inv_def c'_def add.commute flip: l_def)
  qed
  moreover have "cl_repeat c' = 0" "cl_prev_code_len c' = code_len" "cl_repeat_code_len c' = cl_repeat_code_len c"
    by (simp_all add: c'_def)
  ultimately show ?thesis using False by (simp add: l_def)
qed

text \<open>The count a repeat code extends an earlier one to.\<close>

definition repeat_to :: "nat \<Rightarrow> nat \<Rightarrow> nat \<Rightarrow> nat" where
  "repeat_to e delta r = (if 0 < r then (r - 2) * 2 ^ e else 0) + delta + 3"

lemma repeat_to_bounds:
  assumes "e \<in> {2, 3}" and "r = 0 \<or> 3 \<le> r" and "delta \<le> 7" and "r < 2 ^ 16"
  shows "r + 3 \<le> repeat_to e delta r" and "repeat_to e delta r < 2 ^ 20"
  using assms by (auto simp: repeat_to_def)

definition repeated :: "uint32 \<Rightarrow> uint32 \<Rightarrow> uint32 \<Rightarrow> uint32 \<Rightarrow> code_lengths \<Rightarrow> code_lengths option" where
  "repeated new_len rep repeat_delta alphabet_size c =
     (let c = c\<lparr>cl_repeat := rep, cl_repeat_code_len := new_len\<rparr>
      in if cl_symbol c + repeat_delta > alphabet_size
         then Some (c\<lparr>cl_symbol := alphabet_size, cl_space := 0xFFFFF\<rparr>)
         else if new_len \<noteq> 0 then do {
           next \<leftarrow> arr_get (cl_next_symbol c) (unat new_len);
           (sl, next, symbol) \<leftarrow> extend_chain (cl_symbol_lists c) next (cl_symbol c) (cl_symbol c + repeat_delta);
           ns \<leftarrow> arr_set (cl_next_symbol c) (unat new_len) next;
           d \<leftarrow> shl32 repeat_delta (15 - new_len);
           n \<leftarrow> arr_get (cl_histo c) (unat new_len);
           histo \<leftarrow> arr_set (cl_histo c) (unat new_len) (ucast (ucast n + repeat_delta));
           Some (c\<lparr>cl_symbol := symbol, cl_symbol_lists := sl, cl_next_symbol := ns,
                   cl_space := cl_space c - d, cl_histo := histo\<rparr>) }
         else Some (c\<lparr>cl_symbol := cl_symbol c + repeat_delta\<rparr>))"

lemma ProcessRepeated_exact:
  assumes "code_len = 16 \<or> code_len = 17" and "unat delta \<le> 7"
    and "cl_repeat c = 0 \<or> 3 \<le> unat (cl_repeat c)" and "unat (cl_repeat c) < 2 ^ 16"
    and e_def: "e = (if code_len = 16 then 2 else 3 :: nat)"
    and nl_def: "nl = (if code_len = 16 then cl_prev_code_len c else 0)"
    and r_def: "r = (if cl_repeat_code_len c \<noteq> nl then 0 else unat (cl_repeat c))"
  shows "ProcessRepeatedCodeLength code_len delta A c =
      repeated nl (of_nat (repeat_to e (unat delta) r)) (of_nat (repeat_to e (unat delta) r - r)) A c"
proof -
  have r: "r = 0 \<or> 3 \<le> r" "r < 2 ^ 16" "e \<in> {2, 3}" using assms(3,4) by (auto simp: r_def e_def)
  note b = repeat_to_bounds [OF r(3,1) assms(2) r(2)]
  have rep: "(if (of_nat r :: uint32) > 0 then push_bit e (of_nat r - 2) else of_nat r) + (delta + 3) =
      of_nat (repeat_to e (unat delta) r)"
  proof (cases "r = 0")
    case False
    then have "0 < r" "2 \<le> r" using r(1) by simp_all
    then have "of_nat r - 2 = (of_nat (r - 2) :: uint32)" "(of_nat r :: uint32) > 0"
      using r(2) by (simp_all add: of_nat_diff word_less_nat_alt unat_of_nat_small)
    then show ?thesis using False by (simp add: repeat_to_def push_bit_eq_mult mult.commute)
  qed (simp add: repeat_to_def)
  have diff: "of_nat (repeat_to e (unat delta) r) - of_nat r = (of_nat (repeat_to e (unat delta) r - r) :: uint32)"
    using b(1) by (simp add: of_nat_diff)
  show ?thesis
  proof -
    have pair: "(if code_len = BROTLI_REPEAT_PREVIOUS_CODE_LENGTH then (cl_prev_code_len c, 2) else (0, 3)) = (nl, e)"
      by (simp add: nl_def e_def)
    have c1: "(if cl_repeat_code_len c \<noteq> nl then c\<lparr>cl_repeat := 0, cl_repeat_code_len := nl\<rparr> else c) =
        c\<lparr>cl_repeat := of_nat r, cl_repeat_code_len := nl\<rparr>"
      by (auto simp: r_def)
    have c2: "c\<lparr>cl_repeat_code_len := a, cl_repeat := b\<rparr> = c\<lparr>cl_repeat := b, cl_repeat_code_len := a\<rparr>" for a b
      by simp
    show ?thesis
    proof (cases "(of_nat r :: uint32) > 0")
      case True
      then have rep': "push_bit e (of_nat r - 2) + (delta + 3) = of_nat (repeat_to e (unat delta) r)" using rep by simp
      show ?thesis
        unfolding ProcessRepeatedCodeLength_def pair Let_def prod.case c1
        by (simp add: True rep' diff repeated_def Let_def c2)
    next
      case False
      then have rep': "of_nat r + (delta + 3) = of_nat (repeat_to e (unat delta) r)" using rep by simp
      show ?thesis
        unfolding ProcessRepeatedCodeLength_def pair Let_def prod.case c1
        by (simp add: False rep' diff repeated_def Let_def c2)
    qed
  qed
qed

lemma repeated_exact:
  assumes "lengths_inv N lens c" and "N < 2 ^ 16" and "unat nl \<le> 15" and "k < 2 ^ 20"
    and "R = r + Suc k" and "3 \<le> R" and "r \<le> length lens"
  shows "\<exists>c'. repeated nl (of_nat R) (of_nat (Suc k)) (of_nat N) c = Some c' \<and>
    (if N < length lens + Suc k then overrun N c'
     else lengths_inv N (lens @ replicate (Suc k) (unat nl)) c' \<and> cl_repeat c' = of_nat R \<and>
       cl_prev_code_len c' = cl_prev_code_len c \<and> cl_repeat_code_len c' = nl)"
proof -
  note inv = assms(1) [unfolded lengths_inv_def]
  define c1 where "c1 = c\<lparr>cl_repeat := of_nat R, cl_repeat_code_len := nl\<rparr>"
  define L where "L = length lens"
  have sum: "cl_symbol c1 + of_nat (Suc k) = of_nat (L + Suc k)" using inv by (simp add: c1_def L_def)
  have over: "(of_nat (L + Suc k) :: uint32) > of_nat N \<longleftrightarrow> N < L + Suc k"
    using inv assms(2,4) by (intro small_less) (simp_all add: L_def)
  show ?thesis
  proof (cases "N < L + Suc k")
    case True
    then show ?thesis using over unfolding repeated_def Let_def c1_def [symmetric] sum by (simp add: overrun_def L_def)
  next
    case False
    then have fit: "L + Suc k \<le> N" by simp
    have no: "\<not> (of_nat (L + Suc k) :: uint32) > of_nat N" using over False by simp
    have "R < 2 ^ LENGTH(32)" using assms(2,4,5,7) inv by simp
    then have R: "unat (of_nat R :: uint32) = R" by (rule unat_of_nat_small)
    have Rlen: "R \<le> length (lens @ replicate (Suc k) (unat nl))" using assms(5,7) by simp
    show ?thesis
    proof (cases "nl = 0")
      case True
      define c' where "c' = c1\<lparr>cl_symbol := of_nat (L + Suc k)\<rparr>"
      have "repeated nl (of_nat R) (of_nat (Suc k)) (of_nat N) c = Some c'"
        unfolding repeated_def Let_def c1_def [symmetric] sum if_not_P [OF no] c'_def using True by simp
      moreover have "lengths_inv N (lens @ replicate (Suc k) 0) c'"
        using inv chain_state_zero [of lens _ _ _ "Suc k"] kraft_replicate [of 0 lens "Suc k"] fit R Rlen assms(6) True
        unfolding lengths_inv_def by (simp add: c'_def c1_def L_def list_all_iff del: replicate.simps)
      moreover have "cl_repeat c' = of_nat R" "cl_prev_code_len c' = cl_prev_code_len c" "cl_repeat_code_len c' = nl"
        by (simp_all add: c'_def c1_def)
      ultimately show ?thesis using True fit unfolding L_def by auto
    next
      case False
      define l where "l = unat nl"
      have l: "0 < l" "l \<le> 15" "l < 16" using False assms(3) by (simp_all add: l_def unat_gt_0)
      have cs: "chain_state lens (cl_symbol_lists c1) (cl_next_symbol c1) (cl_histo c1)" using inv by (simp add: c1_def)
      note cs' = cs [unfolded chain_state_def]
      have "16 + (length lens + k) < length (cl_symbol_lists c1)" "length lens + k < 2 ^ 31 - 1"
        using inv fit assms(2) by (simp_all add: c1_def L_def)
      from extend_chain_spec [OF _ l(1,2) this] cs' obtain sl where
        sl: "extend_chain (cl_symbol_lists c1) (link lens l (len_count lens l)) (of_nat L) (of_nat (L + Suc k)) =
          Some (sl, int (L + k), of_nat (L + Suc k))"
        "length sl = length (cl_symbol_lists c1)" "chains_inv (lens @ replicate (Suc k) l) sl" unfolding L_def by blast
      have "l \<in> {1..15}" using l by simp
      then have f: "arr_get (cl_next_symbol c1) l = Some (link lens l (len_count lens l))"
        "arr_get (cl_histo c1) l = Some (of_nat (len_count lens l))"
        "arr_set (cl_next_symbol c1) l x = Some ((cl_next_symbol c1)[l := x])"
        "arr_set (cl_histo c1) l y = Some ((cl_histo c1)[l := y])" for x y using cs' l(3) by simp_all
      have "unat (15 - nl) = 15 - l" using l(2) unfolding l_def by (subst unat_sub) (simp_all add: word_le_nat_alt)
      moreover have "15 - l < 32" by simp
      moreover have "push_bit (15 - l) (of_nat (Suc k)) = (of_nat (Suc k * 2 ^ (15 - l)) :: uint32)"
        by (simp add: push_bit_eq_mult del: of_nat_Suc mult_Suc)
      ultimately have d: "shl32 (of_nat (Suc k)) (15 - nl) = Some (of_nat (Suc k * 2 ^ (15 - l)))"
        by (simp add: shl32_def word_less_nat_alt del: of_nat_Suc mult_Suc)
      have h: "ucast (ucast (of_nat (len_count lens l) :: uint16) + (of_nat (Suc k) :: uint32)) =
          (of_nat (len_count lens l + Suc k) :: uint16)"
      proof -
        have "len_count lens l < 2 ^ 16" using len_count_le [of lens l] inv assms(2) by simp
        then have "ucast (of_nat (len_count lens l) :: uint16) = (of_nat (len_count lens l) :: uint32)"
          by (simp add: ucast_of_nat_up)
        then show ?thesis
          by (simp only: of_nat_add [symmetric]) (rule ucast_of_nat_down, simp)
      qed
      have sym: "cl_symbol c1 = of_nat L" using inv by (simp add: c1_def L_def)
      define c' where "c' = c1\<lparr>cl_symbol := of_nat (L + Suc k), cl_symbol_lists := sl,
         cl_next_symbol := (cl_next_symbol c1)[l := int (L + k)], cl_space := cl_space c1 - of_nat (Suc k * 2 ^ (15 - l)),
         cl_histo := (cl_histo c1)[l := of_nat (len_count lens l + Suc k)]\<rparr>"
      have "repeated nl (of_nat R) (of_nat (Suc k)) (of_nat N) c = Some c'"
        unfolding repeated_def Let_def c1_def [symmetric] sum if_not_P [OF no] if_P [OF False] l_def [symmetric]
        unfolding f bind.bind_lunit sym sl(1) prod.case d h c'_def ..
      moreover have "chain_state (lens @ replicate (Suc k) l) sl ((cl_next_symbol c1)[l := int (L + k)])
          ((cl_histo c1)[l := of_nat (len_count lens l + Suc k)])"
        unfolding L_def by (rule chain_state_ext [OF cs l(1,2) sl(3)])
      moreover have "kraft (lens @ replicate (Suc k) l) = kraft lens + Suc k * 2 ^ (15 - l)"
        using kraft_replicate [OF l(2), of lens "Suc k"] l(1) by (simp del: replicate.simps)
      ultimately have "lengths_inv N (lens @ replicate (Suc k) l) c'"
        using inv fit R Rlen assms(6) sl(2) l(2) unfolding lengths_inv_def
        by (simp add: c'_def c1_def L_def list_all_iff l_def [symmetric] diff_diff_add del: replicate.simps of_nat_Suc)
      moreover have "cl_repeat c' = of_nat R" "cl_prev_code_len c' = cl_prev_code_len c" "cl_repeat_code_len c' = nl"
        by (simp_all add: c'_def c1_def)
      ultimately show ?thesis using \<open>repeated _ _ _ _ _ = _\<close> fit unfolding L_def l_def by auto
    qed
  qed
qed

section \<open>The loops\<close>

text \<open>What the loops do with a symbol of the code-length code and its extra bits.\<close>

definition length_step :: "uint32 \<Rightarrow> uint32 \<Rightarrow> uint32 \<Rightarrow> code_lengths \<Rightarrow> code_lengths option" where
  "length_step code_len delta alphabet_size c =
     (if code_len < BROTLI_REPEAT_PREVIOUS_CODE_LENGTH then ProcessSingleCodeLength code_len c
      else ProcessRepeatedCodeLength code_len delta alphabet_size c)"

lemma loop_condition:
  assumes "lengths_inv N lens c" and "N < 2 ^ 16"
  shows "cl_symbol c < of_nat N \<longleftrightarrow> length lens < N"
proof -
  have "length lens \<le> N" using assms(1) by (simp add: lengths_inv_def)
  then show ?thesis using assms by (simp add: lengths_inv_def small_less)
qed

definition lengths_done :: "nat \<Rightarrow> code_lengths \<Rightarrow> bool" where
  "lengths_done N c \<longleftrightarrow> \<not> (cl_symbol c < of_nat N \<and> cl_space c > 0)"

lemma overrun_done: "overrun N c \<Longrightarrow> lengths_done N c"
  by (simp add: overrun_def lengths_done_def)

lemma BrotliFillBitWindow16_spec:
  assumes "br_warm br" and "4 \<le> avail_in br"
  shows "\<exists>br'. BrotliFillBitWindow16 br = Some br' \<and> br_warm br' \<and> unat (br_bit_pos br') < 32 \<and>
    br_same br br' \<and> br_bits br' = br_bits br"
proof (cases "32 \<le> unat (br_bit_pos br)")
  case True
  then show ?thesis using br_refill_spec [OF assms, of 4] assms(1)
    by (auto simp: BrotliFillBitWindow16_def BrotliFillBitWindow_def word_le_nat_alt br_warm_def)
next
  case False
  then show ?thesis using assms(1) by (simp add: BrotliFillBitWindow16_def BrotliFillBitWindow_def word_le_nat_alt)
qed

text \<open>A round of the safe loop that does not get further asks for a byte, which the next round pulls.\<close>

definition hungry :: "bool \<Rightarrow> BrotliBitReader \<Rightarrow> bool" where
  "hungry get_byte br \<longleftrightarrow> br_ok br \<and> (get_byte \<longrightarrow> 8 \<le> unat (br_bit_pos br))"

section \<open>The code that was read\<close>

text \<open>When the code space is used up, the lengths are those of a complete code, in the builder's form.\<close>

lemma lengths_complete:
  assumes "lengths_inv N lens c" and "N < 2 ^ 16" and "cl_space c = 0"
  shows "complete_code lens" and "chain_ok (cl_symbol_lists c) lens" and "counts_ok (cl_histo c) lens"
proof -
  note inv = assms(1) [unfolded lengths_inv_def]
  have "kraft lens \<le> length lens * 2 ^ 14" using inv by (intro kraft_le) simp
  also have "\<dots> < 2 ^ 16 * 2 ^ 14" using inv assms(2) by (intro mult_strict_right_mono) simp_all
  finally have "unat (of_nat (kraft lens) :: uint32) = kraft lens" by (simp add: unat_of_nat_small)
  moreover have "of_nat (kraft lens) = (32768 :: uint32)" using inv assms(3) by simp
  then have "unat (of_nat (kraft lens) :: uint32) = 32768" by simp
  ultimately show "complete_code lens" using inv by (simp add: complete_code_def kraft_def)
  show "chain_ok (cl_symbol_lists c) lens" "counts_ok (cl_histo c) lens"
    using inv assms(2) by (auto simp: chain_ok_iff chain_state_def counts_ok_def)
qed

lemma lengths_inv_start:
  assumes "16 + N \<le> length sl" and "\<forall>l \<in> {1..15}. sl ! l = 0xFFFF \<and> ns ! l = int l - 16" and "16 \<le> length ns"
  shows "lengths_inv N [] \<lparr>cl_symbol = 0, cl_repeat = 0, cl_space = 32768, cl_prev_code_len = 8, cl_repeat_code_len = 0,
    cl_symbol_lists = sl, cl_histo = replicate 16 0, cl_next_symbol = ns\<rparr>"
proof -
  have "first_code [] m = 0" for m by (induction m) (simp_all add: syms_def)
  then have "kraft [] = 0" by (simp add: kraft_def syms_def)
  moreover have "chain_state [] sl ns (replicate 16 0)"
    using assms by (auto simp: chain_state_def chains_inv_def link_def syms_def symbol_list_get_def arr_geti_def)
  ultimately show ?thesis using assms(1) by (simp add: lengths_inv_def)
qed

definition lengths_of :: "BrotliDecoderState \<Rightarrow> code_lengths" where
  "lengths_of s = h_lengths (d_header s)"

lemma lengths_of_put:
  "h_lengths (h_put_lengths c h) = c"
  "h_table (h_put_lengths c h) = h_table h"
  "h_lengths ((h_put_arrays c h)\<lparr>h_space := cl_space c\<rparr>) =
     c\<lparr>cl_symbol := h_symbol h, cl_repeat := h_repeat h, cl_prev_code_len := h_prev_code_len h, cl_repeat_code_len := h_repeat_code_len h\<rparr>"
  by (simp_all add: h_lengths_def h_put_lengths_def h_put_arrays_def)

end
