(* ===== verification/Huffman_Properties.thy ===== *)
theory Huffman_Properties
  imports Huffman_Decode_Facts Enc_Code_Facts Code_Length_Facts Decoder_Samples Write_Bits
begin

text \<open>
  Prefix codes from end to end: the tables the decoder builds decode the canonical code of the code
  lengths, and the code words the encoder assigns are that code.
\<close>

section \<open>A sample code\<close>

text \<open>Lengths 2, 10, 3, 1, 10, 9, 8, 7, 6, 5, 4: short codes, and two levels for the prefix of eight ones.\<close>

definition sample_lens :: "nat list" where
  "sample_lens = [2, 10, 3, 1, 10, 9, 8, 7, 6, 5, 4]"

definition sample_chains :: "uint16 list" where
  "sample_chains = [0xFFFF, 3, 0, 2, 10, 9, 8, 7, 6, 5, 1, 0xFFFF, 0xFFFF, 0xFFFF, 0xFFFF, 0xFFFF] @ [0, 4, 0, 0, 0, 0, 0, 0, 0, 0, 0]"

definition sample_counts :: "uint16 list" where
  "sample_counts = [0, 1, 1, 1, 1, 1, 1, 1, 1, 1, 2, 0, 0, 0, 0, 0]"

lemma sample_counts_eq: "map (len_count sample_lens) [0..<16] = map unat sample_counts"
  by (simp add: syms_def sample_lens_def sample_counts_def upt_rec)

lemma sample_code: "complete_code sample_lens"
proof -
  have "first_code sample_lens 15 = 2 ^ 15"
    using sample_counts_eq first_code_fold [of sample_lens 14] by (simp add: sample_counts_def upt_rec)
  moreover have "syms sample_lens 15 = []" by (simp add: syms_def sample_lens_def upt_rec)
  ultimately show ?thesis by (simp add: complete_code_def) (simp add: sample_lens_def)
qed

lemma sample_chain_cells:
  "list_all (\<lambda>l. (len_count sample_lens l = 0 \<longrightarrow> symbol_list_get sample_chains (int l - 16) = Some 0xFFFF) \<and>
     list_all (\<lambda>k. symbol_list_get sample_chains (link sample_lens l k) = Some (of_nat (syms sample_lens l ! k)))
       [0..<len_count sample_lens l]) [1..<16]"
  by code_simp

lemma sample_chains_ok: "chain_ok sample_chains sample_lens" "counts_ok sample_counts sample_lens"
proof -
  have s: "{1..15} = set [1..<16]" by auto
  show "chain_ok sample_chains sample_lens"
    using sample_chain_cells unfolding chain_ok_def s list_all_iff by (simp add: sample_lens_def)
  have "list_all (\<lambda>l. sample_counts ! l = of_nat (len_count sample_lens l)) [1..<16]" by code_simp
  then show "counts_ok sample_counts sample_lens"
    unfolding counts_ok_def s list_all_iff by (simp add: sample_counts_def)
qed

definition sample_cells :: "HuffmanCode list" where
  "sample_cells = replicate 40000 \<lparr>hc_bits = 0, hc_value = 0\<rparr>"

lemma sample_cells_room: "100 + table_cells sample_lens \<le> length sample_cells"
  using table_off_le [OF sample_code, of 256] by (simp add: sample_cells_def)

section \<open>Properties\<close>

text \<open>C3: \<open>BrotliBuildHuffmanTable\<close> is correct for every complete code of at most 15 bits, given the chains of
  its symbols and the counts of its lengths: with room for the root table and, for each prefix of eight
  bits, a table as wide as its longest code needs, it stays inside that room and returns its size, and
  \<open>SafeReadSymbol\<close> with the table decodes the canonical code from any stream, fewer than 15 bits before
  its end included: it returns the symbol whose code the stream starts with and consumes that code, or
  asks for more input and keeps every bit when no code is complete.\<close>

theorem huffman_table_decodes:
  assumes "complete_code lens" and "chain_ok sl lens" and "counts_ok count lens"
    and "base + table_cells lens \<le> length tbl"
  shows "\<exists>t count'. BrotliBuildHuffmanTable tbl base 8 sl count = Some (of_nat (table_cells lens), t, count') \<and>
    frame base (base + table_cells lens) tbl t \<and>
    (\<forall>br. br_ok br \<longrightarrow> (\<exists>r br'. SafeReadSymbol t base br = Some (r, br') \<and> br_ok br' \<and>
      (r, br_bits br') = symbol_result lens (br_bits br)))"
proof -
  obtain t count' where t: "BrotliBuildHuffmanTable tbl base 8 sl count = Some (of_nat (table_cells lens), t, count')"
    "frame base (base + table_cells lens) tbl t" "table_ok lens base t"
    using BrotliBuildHuffmanTable_spec [OF assms] by blast
  have "base + table_cells lens \<le> length t" "length lens < 2 ^ 16"
    using t(2) assms(2,4) by (simp_all add: frame_def chain_ok_def)
  from SafeReadSymbol_spec [OF assms(1) t(3) this] show ?thesis using t(1,2) by blast
qed

lemma huffman_table_decodes_witness:
  "\<exists>t count'. BrotliBuildHuffmanTable sample_cells 100 8 sample_chains sample_counts =
      Some (of_nat (table_cells sample_lens), t, count') \<and>
    frame 100 (100 + table_cells sample_lens) sample_cells t \<and>
    (\<forall>br. br_ok br \<longrightarrow> (\<exists>r br'. SafeReadSymbol t 100 br = Some (r, br') \<and> br_ok br' \<and>
      (r, br_bits br') = symbol_result sample_lens (br_bits br)))"
  by (rule huffman_table_decodes [OF sample_code sample_chains_ok sample_cells_room])

text \<open>C14: With a table \<open>BrotliBuildHuffmanTable\<close> built, the fast \<open>ReadSymbol\<close>, which may only be used while the
  input has more bytes, and \<open>SafeReadSymbol\<close> return the same symbol and consume the same bits.\<close>

theorem fast_symbol_equals_safe:
  assumes "complete_code lens" and "chain_ok sl lens" and "counts_ok count lens"
    and "base + table_cells lens \<le> length tbl"
    and "BrotliBuildHuffmanTable tbl base 8 sl count = Some (cells, t, count')"
    and "br_warm br" and "8 \<le> avail_in br"
  shows "\<exists>v b1 b2. ReadSymbol t base br = Some (v, b1) \<and> SafeReadSymbol t base br = Some (Some v, b2) \<and>
    br_warm b1 \<and> br_bits b1 = br_bits b2"
proof -
  have t: "frame base (base + table_cells lens) tbl t" "table_ok lens base t"
    using BrotliBuildHuffmanTable_spec [OF assms(1-4)] assms(5) by auto
  have l: "base + table_cells lens \<le> length t" "length lens < 2 ^ 16"
    using t(1) assms(2,4) by (simp_all add: frame_def chain_ok_def)
  have "br_ok br" using assms(6) by (simp add: br_warm_def)
  from SafeReadSymbol_spec [OF assms(1) t(2) l this] ReadSymbol_spec [OF assms(1) t(2) l assms(6,7)]
  show ?thesis by (metis prod.inject)
qed

lemma fast_symbol_equals_safe_witness:
  "\<exists>n t count' v b1 b2. BrotliBuildHuffmanTable sample_cells 100 8 sample_chains sample_counts = Some (n, t, count') \<and>
    ReadSymbol t 100 (d_br (with_input [1, 2, 3, 4, 5, 6, 7, 8, 9])) = Some (v, b1) \<and>
    SafeReadSymbol t 100 (d_br (with_input [1, 2, 3, 4, 5, 6, 7, 8, 9])) = Some (Some v, b2) \<and>
    br_warm b1 \<and> br_bits b1 = br_bits b2"
proof -
  obtain n t count' where t: "BrotliBuildHuffmanTable sample_cells 100 8 sample_chains sample_counts = Some (n, t, count')"
    using BrotliBuildHuffmanTable_spec [OF sample_code sample_chains_ok sample_cells_room] by blast
  have "br_warm (d_br (with_input [1, 2, 3, 4, 5, 6, 7, 8, 9]))" "8 \<le> avail_in (d_br (with_input [1, 2, 3, 4, 5, 6, 7, 8, 9]))"
    unfolding br_warm_def by (rule conjI [OF with_input_ok]) (simp_all add: with_input_def)
  from fast_symbol_equals_safe [OF sample_code sample_chains_ok sample_cells_room t this] t show ?thesis by blast
qed

text \<open>C4: Prefix codes round-trip.  For every complete code, \<open>BrotliConvertBitDepthsToSymbols\<close> assigns code
  words to the depths such that writing the word of a symbol with its depth appends the symbol's
  canonical code, and the table \<open>BrotliBuildHuffmanTable\<close> makes of the same depths gives the symbol back
  from any stream that starts with that code, and leaves the rest of the stream.\<close>

theorem symbol_roundtrip:
  assumes "lens = map unat (take len depth)" and "len \<le> length depth" and "len \<le> length bits" and "complete_code lens"
    and "chain_ok sl lens" and "counts_ok count lens" and "base + table_cells lens \<le> length tbl"
    and "s < len" and "0 < lens ! s" and "room st (lens ! s + m)"
    and "br_ok br" and "br_bits br = code_bits lens s @ rest"
  shows "\<exists>bits' st' n t count' br'. BrotliConvertBitDepthsToSymbols depth len bits = Some bits' \<and>
    BrotliWriteBits (unat (depth ! s)) (ucast (bits' ! s)) st = Some st' \<and>
    written st' = written st @ code_bits lens s \<and> room st' m \<and>
    BrotliBuildHuffmanTable tbl base 8 sl count = Some (n, t, count') \<and>
    SafeReadSymbol t base br = Some (Some (of_nat s), br') \<and> br_bits br' = rest"
proof -
  have len: "length lens = len" "length lens < 2 ^ 16" using assms(1,2,5) by (simp_all add: chain_ok_def)
  have s: "has_code lens s" using assms(8,9) len(1) by (simp add: has_code_def)
  note l = has_codeD(2,3) [OF assms(4) s]
  have d: "unat (depth ! s) = lens ! s" using assms(1,2,8) by simp
  obtain bits' where b: "BrotliConvertBitDepthsToSymbols depth len bits = Some bits'"
    "bits' ! s = of_nat (rev_bits (lens ! s) (code_of lens s))"
    using BrotliConvertBitDepthsToSymbols_spec [OF assms(1,2,4) len(2) assms(3)] assms(8,9) by blast
  define c where "c = rev_bits (lens ! s) (code_of lens s)"
  have "c < 2 ^ (lens ! s)" unfolding c_def by (rule rev_bits_less)
  moreover have "(2::nat) ^ (lens ! s) \<le> 2 ^ 15" by (rule power_increasing) (use l(1) in simp_all)
  ultimately have c: "c < 2 ^ 16" "c < 2 ^ (lens ! s)" by simp_all
  have word: "ucast (bits' ! s) = (of_nat c :: uint64)" unfolding b(2) c_def [symmetric] using c(1) by (simp add: ucast_of_nat_up)
  have "lens ! s \<le> 56" using l(1) by simp
  from le64.wr_nat [OF assms(10) this c(2)] obtain st' where
    w: "BrotliWriteBits (lens ! s) (of_nat c) st = Some st'" "written st' = written st @ val_bits (lens ! s) c" "room st' m"
    by blast
  have code: "val_bits (lens ! s) c = code_bits lens s" unfolding c_def val_bits_rev_bits code_bits_def ..
  obtain t count' where t: "BrotliBuildHuffmanTable tbl base 8 sl count = Some (of_nat (table_cells lens), t, count')"
    "frame base (base + table_cells lens) tbl t" "table_ok lens base t"
    using BrotliBuildHuffmanTable_spec [OF assms(4-7)] by blast
  have "base + table_cells lens \<le> length t" using t(2) assms(7) by (simp add: frame_def)
  from SafeReadSymbol_spec [OF assms(4) t(3) this len(2) assms(11)] obtain r br' where
    r: "SafeReadSymbol t base br = Some (r, br')" "(r, br_bits br') = symbol_result lens (br_bits br)" by blast
  have "symbol_result lens (br_bits br) = (Some (of_nat s), rest)"
    unfolding assms(12) symbol_result_def decode_code_bits [OF assms(4) s] by simp
  then have "r = Some (of_nat s)" "br_bits br' = rest" using r(2) by simp_all
  moreover have "BrotliWriteBits (unat (depth ! s)) (ucast (bits' ! s)) st = Some st'" unfolding d word by (rule w(1))
  ultimately show ?thesis using b(1) w(2,3) t(1) r(1) unfolding code by blast
qed


definition sample_storage :: bit_storage where
  "sample_storage = \<lparr>storage_ix = 3, storage = replicate 24 0\<rparr>"

lemma sample_storage_room: "room sample_storage 20"
  by (simp add: room_def storage_ok_def sample_storage_def nth_append)

text \<open>Symbol 4, the second of length 10, has the code of ten ones.\<close>

lemma sample_bits: "code_bits sample_lens 4 = [True, True, True, True, True, True, True, True, True, True]"
proof -
  have "syms sample_lens 10 = [1, 4]" by (simp add: syms_def sample_lens_def upt_rec)
  moreover have "first_code sample_lens 10 = 2 ^ 10 - 2"
    using sample_counts_eq first_code_fold [of sample_lens 9] by (simp add: sample_counts_def upt_rec)
  ultimately have "code_of sample_lens 4 = 1023"
    using syms_nth(3) [of 1 sample_lens 10] by simp
  moreover have "rev (val_bits 10 1023) = [True, True, True, True, True, True, True, True, True, True]" by code_simp
  moreover have "sample_lens ! 4 = 10" by (simp add: sample_lens_def)
  ultimately show ?thesis by (simp only: code_bits_def)
qed

lemma symbol_roundtrip_witness:
  "\<exists>bits' st' n t count' br'. BrotliConvertBitDepthsToSymbols (map of_nat sample_lens) 11 (replicate 11 0) = Some bits' \<and>
    BrotliWriteBits (unat ((map of_nat sample_lens :: uint8 list) ! 4)) (ucast (bits' ! 4)) sample_storage = Some st' \<and>
    written st' = written sample_storage @ code_bits sample_lens 4 \<and> room st' 10 \<and>
    BrotliBuildHuffmanTable sample_cells 100 8 sample_chains sample_counts = Some (n, t, count') \<and>
    SafeReadSymbol t 100 (d_br (with_input [0xFF, 0x2B])) = Some (Some (of_nat 4), br') \<and>
    br_bits br' = [False, True, False, True, False, False]"
proof (rule symbol_roundtrip [OF _ _ _ sample_code sample_chains_ok sample_cells_room])
  show "br_bits (d_br (with_input [0xFF, 0x2B])) = code_bits sample_lens 4 @ [False, True, False, True, False, False]"
    unfolding with_input_bits sample_bits by (simp add: byte_bits_def word_bits_def upt_rec)
  show "room sample_storage (sample_lens ! 4 + 10)" using sample_storage_room by (simp add: sample_lens_def)
qed (simp_all add: sample_lens_def with_input_ok)

section \<open>Room for a code\<close>

text \<open>The table array has room for every complete code over the alphabet.\<close>

definition room_for_codes :: "nat \<Rightarrow> nat \<Rightarrow> nat \<Rightarrow> bool" where
  "room_for_codes N base n \<longleftrightarrow> (\<forall>lens. complete_code lens \<and> length lens \<le> N \<longrightarrow> base + table_cells lens \<le> n)"

lemma sample_cells_room_for: "room_for_codes N 100 (length sample_cells)"
  using table_off_le [of _ 256] by (fastforce simp: room_for_codes_def sample_cells_def)

end
