(* ===== verification/Block_Facts.thy ===== *)
theory Block_Facts
  imports Decode_Blocks Enc_Context_Map Huffman_Decode_Facts Enc_Code_Facts Enc_Header_Facts
begin

text \<open>
  Block switches as code words: the code of a block type among the recent ones, the code of a block length
  and its extra bits.  \<open>block_switch_parse\<close> is the grammar of RFC 7932, section 6, over a bit string;
  \<open>DecodeBlockTypeAndLength\<close> implements it and \<open>StoreBlockSwitch\<close> writes its words.
\<close>

section \<open>Block lengths\<close>

definition block_len_offset :: "nat \<Rightarrow> nat" where
  "block_len_offset k = unat (pcr_offset (kBrotliPrefixCodeRanges ! k))"

definition block_len_bits :: "nat \<Rightarrow> nat" where
  "block_len_bits k = unat (pcr_nbits (kBrotliPrefixCodeRanges ! k))"

lemma length_ranges [simp]: "length kBrotliPrefixCodeRanges = 26"
  by (simp add: kBrotliPrefixCodeRanges_def)

definition len_offsets :: "int list" where
  "len_offsets = [1, 5, 9, 13, 17, 25, 33, 41, 49, 65, 81, 97, 113, 145, 177, 209, 241, 305, 369, 497, 753, 1265, 2289,
     4337, 8433, 16625]"

definition len_widths :: "nat list" where
  "len_widths = [2, 2, 2, 2, 3, 3, 3, 3, 4, 4, 4, 4, 5, 5, 5, 5, 6, 6, 7, 8, 9, 10, 11, 12, 13, 24]"

lemma len_table_fields:
  "map (\<lambda>r. uint (pcr_offset r)) kBrotliPrefixCodeRanges = len_offsets"
  "map (\<lambda>r. unat (pcr_nbits r)) kBrotliPrefixCodeRanges = len_widths"
  by (simp_all add: kBrotliPrefixCodeRanges_def len_offsets_def len_widths_def)

lemma len_table_tile:
  "list_all (\<lambda>k. 0 < len_widths ! k \<and> len_widths ! k \<le> 24 \<and>
     (k < 25 \<longrightarrow> len_offsets ! Suc k = len_offsets ! k + 2 ^ (len_widths ! k))) [0..<26]"
  by code_simp

lemma block_len_fields:
  assumes "k < 26"
  shows "int (block_len_offset k) = len_offsets ! k" and "block_len_bits k = len_widths ! k"
  unfolding len_table_fields [symmetric] using assms by (simp_all add: block_len_offset_def block_len_bits_def)

lemma block_len_tile:
  assumes "k < 26"
  shows "0 < block_len_bits k" and "block_len_bits k \<le> 24"
    and "k < 25 \<Longrightarrow> block_len_offset (Suc k) = block_len_offset k + 2 ^ block_len_bits k"
proof -
  note t = bspec [OF len_table_tile [unfolded list_all_iff], of k]
  show "0 < block_len_bits k" "block_len_bits k \<le> 24"
    using t assms by (simp_all add: block_len_fields)
  show "block_len_offset (Suc k) = block_len_offset k + 2 ^ block_len_bits k" if "k < 25"
  proof -
    have "int (block_len_offset (Suc k)) = int (block_len_offset k + 2 ^ block_len_bits k)"
      using t assms that block_len_fields [of k] block_len_fields [of "Suc k"] by simp
    then show ?thesis by (simp only: of_nat_eq_iff)
  qed
qed

lemma block_len_values:
  "block_len_offset 0 = 1" "block_len_offset 7 = 41" "block_len_offset 14 = 177" "block_len_offset 20 = 753"
  "block_len_offset 25 = 16625" "block_len_bits 25 = 24"
  by (simp_all add: block_len_offset_def block_len_bits_def kBrotliPrefixCodeRanges_def)

lemma block_length_loop_spec:
  assumes "c < 26" and "block_len_offset c \<le> len"
  shows "\<exists>k. block_length_loop len c = Some k \<and> k < 26 \<and> block_len_offset k \<le> len \<and>
    (k < 25 \<longrightarrow> len < block_len_offset (Suc k))"
  using assms
proof (induction "25 - c" arbitrary: c)
  case 0
  then have "c = 25" by simp
  then show ?case using 0 by (subst block_length_loop.simps) simp
next
  case (Suc n)
  then have c: "c < 25" by simp
  have "unat (pcr_offset (kBrotliPrefixCodeRanges ! Suc c)) = block_len_offset (Suc c)" by (simp add: block_len_offset_def)
  then have run: "block_length_loop len c = (if block_len_offset (Suc c) \<le> len then block_length_loop len (Suc c) else Some c)"
    using c by (subst block_length_loop.simps) simp
  show ?case
  proof (cases "block_len_offset (Suc c) \<le> len")
    case True
    then show ?thesis using Suc.hyps(1) [of "Suc c"] Suc.hyps(2) c by (simp add: run)
  next
    case False
    then show ?thesis using c Suc.prems by (simp add: run)
  qed
qed

lemma BlockLengthPrefixCode_spec:
  assumes "1 \<le> len" and "len < 16625 + 2 ^ 24"
  shows "\<exists>k. BlockLengthPrefixCode len = Some k \<and> k < 26 \<and> block_len_offset k \<le> len \<and>
    len < block_len_offset k + 2 ^ block_len_bits k"
proof -
  define c where "c = (if len \<ge> 177 then (if len \<ge> 753 then 20 else 14) else (if len \<ge> 41 then 7 else 0 :: nat))"
  have "c < 26" "block_len_offset c \<le> len" using assms(1) by (auto simp: c_def block_len_values)
  from block_length_loop_spec [OF this] obtain k where
    k: "block_length_loop len c = Some k" "k < 26" "block_len_offset k \<le> len" "k < 25 \<longrightarrow> len < block_len_offset (Suc k)"
    by blast
  have "len < block_len_offset k + 2 ^ block_len_bits k"
  proof (cases "k < 25")
    case True
    then show ?thesis using k(4) block_len_tile(3) [OF k(2)] by simp
  next
    case False
    then have "k = 25" using k(2) by simp
    then show ?thesis using assms(2) by (simp add: block_len_values)
  qed
  then show ?thesis using k by (simp add: BlockLengthPrefixCode_def c_def)
qed

text \<open>The code of a length, and the number the extra bits carry.\<close>

definition block_len_code :: "nat \<Rightarrow> nat" where
  "block_len_code len = the (BlockLengthPrefixCode len)"

definition block_len_extra :: "nat \<Rightarrow> nat" where
  "block_len_extra len = len - block_len_offset (block_len_code len)"

lemma block_len_code:
  assumes "1 \<le> len" and "len < 16625 + 2 ^ 24"
  shows "BlockLengthPrefixCode len = Some (block_len_code len)" and "block_len_code len < 26"
    and "block_len_offset (block_len_code len) + block_len_extra len = len"
    and "block_len_extra len < 2 ^ block_len_bits (block_len_code len)"
  using BlockLengthPrefixCode_spec [OF assms] by (auto simp: block_len_code_def block_len_extra_def)

lemma GetBlockLengthPrefixCode_spec:
  assumes "1 \<le> len" and "len < 16625 + 2 ^ 24"
  shows "GetBlockLengthPrefixCode len =
    Some (block_len_code len, block_len_bits (block_len_code len), of_nat (block_len_extra len))"
proof -
  note c = block_len_code [OF assms]
  have "(ucast (pcr_offset (kBrotliPrefixCodeRanges ! block_len_code len)) :: uint32) = of_nat (block_len_offset (block_len_code len))"
    by (simp add: block_len_offset_def unsigned_ucast_eq)
  then have "of_nat len - (ucast (pcr_offset (kBrotliPrefixCodeRanges ! block_len_code len)) :: uint32) = of_nat (block_len_extra len)"
    using c(3) by (metis add_diff_cancel_left' of_nat_add)
  then show ?thesis using c(1,2) by (simp add: GetBlockLengthPrefixCode_def block_len_bits_def)
qed

section \<open>Block types\<close>

text \<open>The encoder's calculator holds the types of the last two blocks, as the decoder's ring does.\<close>

lemma block_type_code:
  assumes "unat ty < n" and "n \<le> 256" and "last_type c < n" and "second_last_type c < n"
    and "NextBlockTypeCode c ty = (code, c')"
  shows "code < n + 2" and "last_type c' = unat ty" and "second_last_type c' = last_type c"
    and "next_block_type (of_nat code) (of_nat n) (of_nat (second_last_type c)) (of_nat (last_type c)) = of_nat (unat ty)"
proof -
  show "code < n + 2" "last_type c' = unat ty" "second_last_type c' = last_type c"
    using assms by (auto simp: NextBlockTypeCode_def Let_def split: if_splits)
  have small: "\<And>k. k \<le> 258 \<Longrightarrow> unat (of_nat k :: uint32) = k" by (rule unat_of_nat_small) simp
  have ge: "\<And>k. k < n \<Longrightarrow> \<not> (of_nat n :: uint32) \<le> of_nat k"
    using assms(2) small by (simp add: word_le_nat_alt)
  consider "unat ty = last_type c + 1" "code = 1" | "unat ty = second_last_type c" "code = 0"
    | "code = unat ty + 2" using assms(5) by (auto simp: NextBlockTypeCode_def Let_def split: if_splits)
  then show "next_block_type (of_nat code) (of_nat n) (of_nat (second_last_type c)) (of_nat (last_type c)) = of_nat (unat ty)"
  proof cases
    case 1
    then show ?thesis using ge [OF assms(1)] by (simp add: next_block_type_def Let_def add.commute)
  next
    case 2
    then show ?thesis using ge [OF assms(1)] by (simp add: next_block_type_def)
  next
    case 3
    have "unat (of_nat code :: uint32) = unat ty + 2" using small [of code] 3 assms(1,2) by simp
    then have "(of_nat code :: uint32) \<noteq> 1" "(of_nat code :: uint32) \<noteq> 0" by auto
    then show ?thesis using ge [OF assms(1)] 3 by (simp add: next_block_type_def)
  qed
qed

text \<open>Every code of the alphabet stays inside the types.\<close>

lemma next_block_type_less:
  assumes "code < n + 2" and "n \<le> 256" and "2 \<le> n" and "unat rb0 < n" and "unat rb1 < n"
  shows "unat (next_block_type (of_nat code) (of_nat n) rb0 rb1) < n"
proof -
  have small: "\<And>k. k \<le> 258 \<Longrightarrow> unat (of_nat k :: uint32) = k" by (rule unat_of_nat_small) simp
  define b where "b = (if (of_nat code :: uint32) = 1 then rb1 + 1 else if (of_nat code :: uint32) = 0 then rb0 else of_nat code - 2)"
  have "unat b \<le> n"
  proof -
    have "unat (rb1 + 1) \<le> n" using assms(5) mod_less_eq_dividend [of "unat rb1 + 1" "2 ^ 32"]
      by (simp add: unat_word_ariths(1))
    moreover have "unat (of_nat code - 2 :: uint32) \<le> n" if "(of_nat code :: uint32) \<noteq> 1" "(of_nat code :: uint32) \<noteq> 0"
    proof -
      have "code \<noteq> 0" using that(2) by (cases "code = 0") simp_all
      moreover have "code \<noteq> 1" using that(1) by (cases "code = 1") simp_all
      ultimately have c: "2 \<le> code" by simp
      have "(of_nat code - 2 :: uint32) = of_nat (code - 2)" using of_nat_diff [OF c, where ?'a = uint32] by simp
      moreover have "unat (of_nat (code - 2) :: uint32) = code - 2" by (rule small) (use assms(1,2) in simp)
      ultimately show ?thesis using assms(1) c by simp
    qed
    moreover have "unat rb0 \<le> n" using assms(4) by simp
    ultimately show ?thesis unfolding b_def by presburger
  qed
  moreover have "next_block_type (of_nat code) (of_nat n) rb0 rb1 = (if of_nat n \<le> b then b - of_nat n else b)"
    unfolding next_block_type_def Let_def b_def ..
  moreover have le: "of_nat n \<le> b \<longleftrightarrow> n \<le> unat b" using small [of n] assms(2) by (simp add: word_le_nat_alt)
  ultimately have "unat b \<le> n" "unat (next_block_type (of_nat code) (of_nat n) rb0 rb1) = (if n \<le> unat b then unat b - n else unat b)"
    using small [of n] assms(2) by (auto simp: unat_sub)
  then show ?thesis using assms(3) by (cases "n \<le> unat b") simp_all
qed

section \<open>Reading a block switch\<close>

text \<open>What a client needs of a table: \<open>SafeReadSymbol\<close> decodes the code of the lengths with it.\<close>

definition decodes :: "nat list \<Rightarrow> nat \<Rightarrow> HuffmanCode list \<Rightarrow> bool" where
  "decodes lens base t \<longleftrightarrow> complete_code lens \<and> length lens < 2 ^ 16 \<and>
     (\<forall>br. br_ok br \<longrightarrow> (\<exists>r br'. SafeReadSymbol t base br = Some (r, br') \<and> br_ok br' \<and>
        (r, br_bits br') = symbol_result lens (br_bits br)))"

lemma decodesI:
  assumes "complete_code lens" and "table_ok lens base tbl" and "base + table_cells lens \<le> length tbl" and "length lens < 2 ^ 16"
  shows "decodes lens base tbl"
  using SafeReadSymbol_spec [OF assms] assms(1,4) unfolding decodes_def by blast

lemma decodes_cases [consumes 2, case_names symbol short]:
  assumes "decodes lens base t" and "br_ok br"
  obtains (symbol) k rest br' where "decode_code lens (br_bits br) = Some (k, rest)" "k < length lens"
      "SafeReadSymbol t base br = Some (Some (of_nat k), br')" "br_ok br'" "br_bits br' = rest" "unat (of_nat k :: uint32) = k"
    | (short) br' where "decode_code lens (br_bits br) = None" "SafeReadSymbol t base br = Some (None, br')" "br_ok br'"
      "br_bits br' = br_bits br"
proof -
  obtain r br' where r: "SafeReadSymbol t base br = Some (r, br')" "br_ok br'"
    "(r, br_bits br') = symbol_result lens (br_bits br)" using assms unfolding decodes_def by blast
  show ?thesis
  proof (cases "decode_code lens (br_bits br)")
    case None
    then show ?thesis using short r by (simp add: symbol_result_def)
  next
    case (Some p)
    obtain k rest where p: "p = (k, rest)" by (cases p)
    have "k < length lens" using Some by (auto simp: decode_code_def p find_Some_iff)
    moreover from this have "unat (of_nat k :: uint32) = k"
      using assms(1) by (intro unat_of_nat_small) (simp add: decodes_def)
    ultimately show ?thesis using symbol Some r by (simp add: symbol_result_def p)
  qed
qed

definition block_len_parse :: "nat list \<Rightarrow> bits \<Rightarrow> (nat \<times> bits) option" where
  "block_len_parse lens bs = do {
     (k, bs) \<leftarrow> decode_code lens bs;
     if block_len_bits k \<le> length bs
     then Some (block_len_offset k + bits_val (take (block_len_bits k) bs), drop (block_len_bits k) bs)
     else None }"

definition block_switch_parse :: "nat list \<Rightarrow> nat list \<Rightarrow> bits \<Rightarrow> (nat \<times> nat \<times> bits) option" where
  "block_switch_parse type_lens len_lens bs = do {
     (code, bs) \<leftarrow> decode_code type_lens bs;
     (len, bs) \<leftarrow> block_len_parse len_lens bs;
     Some (code, len, bs) }"

lemma SafeReadBlockLength_spec:
  assumes "decodes lens base t" and "length lens \<le> 26" and "s_ok s"
    and "d_substate_read_block_length s = BROTLI_STATE_READ_BLOCK_LENGTH_NONE"
  shows "\<exists>br i. br_ok br \<and> (case block_len_parse lens (s_bits s) of
      None \<Rightarrow> \<exists>u. SafeReadBlockLength s t base =
        Some (None, s\<lparr>d_br := br, d_block_length_index := i, d_substate_read_block_length := u\<rparr>)
    | Some (len, rest) \<Rightarrow> SafeReadBlockLength s t base = Some (Some (of_nat len), s\<lparr>d_br := br\<rparr>) \<and> br_bits br = rest)"
  using assms(1,3)
proof (cases rule: decodes_cases)
  case (short br)
  then show ?thesis using assms(4)
    by (intro exI [of _ br] exI [of _ "d_block_length_index s"])
      (auto simp: block_len_parse_def SafeReadBlockLength_def intro!: exI [of _ "d_substate_read_block_length s"])
next
  case (symbol k rest b1)
  have k: "k < 26" using symbol(2) assms(2) by simp
  define s1 where "s1 = s\<lparr>d_br := b1\<rparr>"
  define n :: uint32 where "n = ucast (pcr_nbits (kBrotliPrefixCodeRanges ! k))"
  have n: "unat n = block_len_bits k" "0 < n \<and> n \<le> 32"
  proof -
    show u: "unat n = block_len_bits k"
      using block_len_tile(2) [OF k] by (simp add: n_def block_len_bits_def unsigned_ucast_eq take_bit_nat_eq_self)
    show "0 < n \<and> n \<le> 32" using block_len_tile(1,2) [OF k] u by (simp add: word_less_nat_alt word_le_nat_alt)
  qed
  have run: "SafeReadBlockLength s t base = do {
      (r, s) \<leftarrow> s_read s1 n;
      (case r of
         None \<Rightarrow> Some (None, s\<lparr>d_block_length_index := of_nat k, d_substate_read_block_length := BROTLI_STATE_READ_BLOCK_LENGTH_SUFFIX\<rparr>)
       | Some bits \<Rightarrow> Some (Some (ucast (pcr_offset (kBrotliPrefixCodeRanges ! k)) + bits),
            s\<lparr>d_substate_read_block_length := BROTLI_STATE_READ_BLOCK_LENGTH_NONE\<rparr>)) }"
    using symbol k assms(4) by (simp add: SafeReadBlockLength_def s1_def n_def)
  have ok: "s_ok s1" using symbol(4) by (simp add: s1_def)
  from ok n(2) show ?thesis
  proof (cases rule: s_read_cases)
    case (enough v br)
    have p: "block_len_parse lens (s_bits s) = Some (block_len_offset k + unat v, br_bits br)"
      using enough(3-5) symbol(1,5) n(1) by (simp add: block_len_parse_def s1_def)
    have v: "(ucast (pcr_offset (kBrotliPrefixCodeRanges ! k)) :: uint32) + v = of_nat (block_len_offset k + unat v)"
      by (simp add: block_len_offset_def)
    have "s\<lparr>d_br := br\<rparr> = s\<lparr>d_br := br, d_substate_read_block_length := BROTLI_STATE_READ_BLOCK_LENGTH_NONE\<rparr>"
      using assms(4) by (cases s) simp
    then have "SafeReadBlockLength s t base = Some (Some (of_nat (block_len_offset k + unat v)), s\<lparr>d_br := br\<rparr>)"
      using enough(1) v by (simp add: run s1_def)
    then show ?thesis using enough(2) p by (intro exI [of _ br]) simp
  next
    case (short br)
    have "block_len_parse lens (s_bits s) = None"
      using short(3) symbol(1,5) n(1) by (simp add: block_len_parse_def s1_def)
    then show ?thesis using short(1,2)
      by (intro exI [of _ br] exI [of _ "of_nat k"]) (auto simp: run s1_def)
  qed
qed

text \<open>One category of blocks, of \<open>n\<close> types, whose two tables decode the codes of the given lengths.\<close>

definition switch_ready :: "nat \<Rightarrow> nat \<Rightarrow> nat list \<Rightarrow> nat list \<Rightarrow> BrotliDecoderState \<Rightarrow> bool" where
  "switch_ready t n type_lens len_lens s \<longleftrightarrow> t < 3 \<and> 2 \<le> n \<and> n \<le> 256 \<and>
     length (d_num_block_types s) = 3 \<and> d_num_block_types s ! t = of_nat n \<and>
     length (d_block_length s) = 3 \<and> length (d_block_type_rb s) = 6 \<and>
     unat (d_block_type_rb s ! (t * 2)) < n \<and> unat (d_block_type_rb s ! (t * 2 + 1)) < n \<and>
     length type_lens \<le> n + 2 \<and> length len_lens \<le> 26 \<and>
     (\<exists>tt. d_block_type_trees s = Some tt \<and> decodes type_lens (t * BROTLI_HUFFMAN_MAX_SIZE_258) tt) \<and>
     (\<exists>lt. d_block_len_trees s = Some lt \<and> decodes len_lens (t * BROTLI_HUFFMAN_MAX_SIZE_26) lt) \<and>
     d_substate_read_block_length s = BROTLI_STATE_READ_BLOCK_LENGTH_NONE"

definition switched :: "nat \<Rightarrow> nat \<Rightarrow> nat \<Rightarrow> nat \<Rightarrow> BrotliDecoderState \<Rightarrow> BrotliDecoderState" where
  "switched t n code len s =
     (let rb = d_block_type_rb s;
          ty = next_block_type (of_nat code) (of_nat n) (rb ! (t * 2)) (rb ! (t * 2 + 1))
      in s\<lparr>d_block_length := (d_block_length s)[t := of_nat len],
           d_block_type_rb := rb[t * 2 := rb ! (t * 2 + 1), t * 2 + 1 := ty]\<rparr>)"

lemma DecodeBlockTypeAndLength_spec:
  assumes "switch_ready t n type_lens len_lens s" and "s_ok s"
  shows "\<exists>br i. br_ok br \<and> (case block_switch_parse type_lens len_lens (s_bits s) of
      None \<Rightarrow> DecodeBlockTypeAndLength True s t = Some (False, s\<lparr>d_br := br, d_block_length_index := i\<rparr>) \<and> br_bits br = s_bits s
    | Some (code, len, rest) \<Rightarrow> DecodeBlockTypeAndLength True s t = Some (True, switched t n code len (s\<lparr>d_br := br\<rparr>)) \<and>
        br_bits br = rest \<and> code < n + 2)"
proof -
  obtain tt lt where r: "t < 3" "2 \<le> n" "n \<le> 256" "length (d_num_block_types s) = 3" "d_num_block_types s ! t = of_nat n"
    "length (d_block_length s) = 3" "length (d_block_type_rb s) = 6" "length type_lens \<le> n + 2" "length len_lens \<le> 26"
    "d_block_type_trees s = Some tt" "decodes type_lens (t * BROTLI_HUFFMAN_MAX_SIZE_258) tt"
    "d_block_len_trees s = Some lt" "decodes len_lens (t * BROTLI_HUFFMAN_MAX_SIZE_26) lt"
    "d_substate_read_block_length s = BROTLI_STATE_READ_BLOCK_LENGTH_NONE"
    using assms(1) unfolding switch_ready_def by blast
  have "unat (of_nat n :: uint32) = n" by (rule unat_of_nat_small) (use r(3) in simp)
  then have many: "\<not> (of_nat n :: uint32) \<le> 1" using r(2) by (simp add: word_le_nat_alt)
  have none: "s\<lparr>d_br := br, d_substate_read_block_length := BROTLI_STATE_READ_BLOCK_LENGTH_NONE\<rparr> = s\<lparr>d_br := br\<rparr>"
    "s\<lparr>d_br := br, d_block_length_index := d_block_length_index s\<rparr> = s\<lparr>d_br := br\<rparr>" for br
    using r(14) by (cases s; simp)+
  note start = DecodeBlockTypeAndLength_def dbtl_read_def r(1,4,5,10,12) many Let_def
  from r(11) assms(2) show ?thesis
  proof (cases rule: decodes_cases)
    case (short br)
    have "DecodeBlockTypeAndLength True s t = Some (False, s\<lparr>d_br := br\<rparr>)"
      using short(2) by (simp add: start)
    then show ?thesis using short(1,3,4) none(2)
      by (intro exI [of _ br] exI [of _ "d_block_length_index s"]) (simp add: block_switch_parse_def)
  next
    case (symbol code rest b1)
    define s1 where "s1 = s\<lparr>d_br := b1\<rparr>"
    have s1: "s_ok s1" "d_substate_read_block_length s1 = BROTLI_STATE_READ_BLOCK_LENGTH_NONE" "s_bits s1 = rest"
      using symbol(4,5) r(14) by (simp_all add: s1_def)
    from SafeReadBlockLength_spec [OF r(13,9) s1(1,2)] obtain br i where b: "br_ok br"
      "case block_len_parse len_lens rest of
          None \<Rightarrow> \<exists>u. SafeReadBlockLength s1 lt (t * BROTLI_HUFFMAN_MAX_SIZE_26) =
            Some (None, s1\<lparr>d_br := br, d_block_length_index := i, d_substate_read_block_length := u\<rparr>)
        | Some (len, rest) \<Rightarrow> SafeReadBlockLength s1 lt (t * BROTLI_HUFFMAN_MAX_SIZE_26) = Some (Some (of_nat len), s1\<lparr>d_br := br\<rparr>) \<and>
            br_bits br = rest"
      unfolding s1(3) by blast
    show ?thesis
    proof (cases "block_len_parse len_lens rest")
      case None
      then obtain u where u: "SafeReadBlockLength (s\<lparr>d_br := b1\<rparr>) lt (t * BROTLI_HUFFMAN_MAX_SIZE_26) =
            Some (None, s1\<lparr>d_br := br, d_block_length_index := i, d_substate_read_block_length := u\<rparr>)"
        using b(2) by (auto simp: s1_def)
      have "s\<lparr>d_br := d_br s, d_block_length_index := i, d_substate_read_block_length := BROTLI_STATE_READ_BLOCK_LENGTH_NONE\<rparr>
          = s\<lparr>d_br := d_br s, d_block_length_index := i\<rparr>" using r(14) by (cases s) simp
      then have "DecodeBlockTypeAndLength True s t = Some (False, s\<lparr>d_br := d_br s, d_block_length_index := i\<rparr>)"
        using symbol(3) u by (simp add: start s1_def)
      then show ?thesis using None symbol(1) assms(2)
        by (intro exI [of _ "d_br s"] exI [of _ i]) (simp add: block_switch_parse_def)
    next
      case (Some p)
      obtain len rest' where p: "p = (len, rest')" by (cases p)
      have len: "SafeReadBlockLength (s\<lparr>d_br := b1\<rparr>) lt (t * BROTLI_HUFFMAN_MAX_SIZE_26) = Some (Some (of_nat len), s1\<lparr>d_br := br\<rparr>)"
        "br_bits br = rest'" using b(2) Some by (simp_all add: p s1_def)
      have i: "t * 2 < 6" "Suc (t * 2) < 6" using r(1) by simp_all
      then have rb: "arr_get (d_block_type_rb s) (Suc (t * 2)) = Some (d_block_type_rb s ! Suc (t * 2))"
        "\<And>x y. arr_set ((d_block_type_rb s)[t * 2 := x]) (Suc (t * 2)) y = Some ((d_block_type_rb s)[t * 2 := x, Suc (t * 2) := y])"
        using r(7) by (simp_all only: arr_get_Some arr_set_Some length_list_update)
      have "DecodeBlockTypeAndLength True s t = Some (True, switched t n code len (s\<lparr>d_br := br\<rparr>))"
        using symbol(3) len(1) i(1) r(1,6,7) by (simp add: start s1_def switched_def rb)
      moreover have "block_switch_parse type_lens len_lens (s_bits s) = Some (code, len, rest')"
        using symbol(1) Some by (simp add: block_switch_parse_def p)
      ultimately show ?thesis using b(1) len(2) symbol(2) r(8) by (intro exI [of _ br] exI) simp
    qed
  qed
qed

lemma switched_ready:
  assumes "switch_ready t n type_lens len_lens s" and "code < n + 2"
  shows "switch_ready t n type_lens len_lens (switched t n code len (s\<lparr>d_br := br\<rparr>))"
proof -
  have r: "t * 2 + 1 < 6" "n \<le> 256" "2 \<le> n" "unat (d_block_type_rb s ! (t * 2)) < n" "unat (d_block_type_rb s ! (t * 2 + 1)) < n"
    using assms(1) by (simp_all add: switch_ready_def)
  note less = next_block_type_less [OF assms(2) r(2-5)]
  show ?thesis using assms(1) less r by (simp add: switch_ready_def switched_def Let_def)
qed

section \<open>Writing a block switch\<close>

text \<open>The depths and words with which a writer codes symbols, as \<open>BrotliConvertBitDepthsToSymbols\<close> makes them.\<close>

definition encodes :: "nat list \<Rightarrow> uint8 list \<Rightarrow> uint16 list \<Rightarrow> bool" where
  "encodes lens depths bits \<longleftrightarrow> complete_code lens \<and> length lens \<le> length depths \<and> length lens \<le> length bits \<and>
     (\<forall>k < length lens. unat (depths ! k) = lens ! k \<and>
        (0 < lens ! k \<longrightarrow> bits ! k = of_nat (rev_bits (lens ! k) (code_of lens k))))"

lemma write_code_spec:
  assumes "encodes lens depths bits" and "has_code lens k" and "room st (lens ! k + m)"
  shows "\<exists>st'. write_code depths bits k st = Some st' \<and> written st' = written st @ code_bits lens k \<and> room st' m"
proof -
  have cc: "complete_code lens" using assms(1) by (simp add: encodes_def)
  have k: "k < length lens" "0 < lens ! k" using assms(2) by (simp_all add: has_code_def)
  have e: "k < length depths" "k < length bits" "unat (depths ! k) = lens ! k"
    "bits ! k = of_nat (rev_bits (lens ! k) (code_of lens k))"
    using assms(1) k by (auto simp: encodes_def)
  note l = has_codeD(2) [OF cc assms(2)]
  define c where "c = rev_bits (lens ! k) (code_of lens k)"
  have c: "c < 2 ^ (lens ! k)" unfolding c_def by (rule rev_bits_less)
  moreover have "(2::nat) ^ (lens ! k) \<le> 2 ^ 15" by (rule power_increasing) (use l in simp_all)
  ultimately have "c < 2 ^ 16" by simp
  then have word: "ucast (bits ! k) = (of_nat c :: uint64)" unfolding e(4) c_def [symmetric] by (simp add: ucast_of_nat_up)
  have "lens ! k \<le> 56" using l by simp
  from le64.wr_nat [OF assms(3) this c] obtain st' where
    w: "BrotliWriteBits (lens ! k) (of_nat c) st = Some st'" "written st' = written st @ val_bits (lens ! k) c" "room st' m"
    by blast
  have "val_bits (lens ! k) c = code_bits lens k" unfolding c_def val_bits_rev_bits code_bits_def ..
  then show ?thesis using w e(1-3) by (simp add: write_code_def word)
qed

lemma encodes_convert:
  assumes "lens = map unat (take len depth)" and "len \<le> length depth" and "complete_code lens" and "length lens < 2 ^ 16"
    and "len \<le> length bits" and "BrotliConvertBitDepthsToSymbols depth len bits = Some bits'"
  shows "encodes lens depth bits'"
  using BrotliConvertBitDepthsToSymbols_spec [OF assms(1-5)] assms by (simp add: encodes_def)

definition block_switch_word :: "nat list \<Rightarrow> nat list \<Rightarrow> nat \<Rightarrow> nat \<Rightarrow> bits" where
  "block_switch_word type_lens len_lens code len = code_bits type_lens code @ code_bits len_lens (block_len_code len) @
     val_bits (block_len_bits (block_len_code len)) (block_len_extra len)"

lemma parse_block_switch_word:
  assumes "complete_code type_lens" and "complete_code len_lens" and "has_code type_lens code"
    and "has_code len_lens (block_len_code len)" and "1 \<le> len" and "len < 16625 + 2 ^ 24"
  shows "block_switch_parse type_lens len_lens (block_switch_word type_lens len_lens code len @ rest) = Some (code, len, rest)"
proof -
  note c = block_len_code [OF assms(5,6)]
  show ?thesis
    using decode_code_bits [OF assms(1,3)] decode_code_bits [OF assms(2,4)] c(3,4)
    by (simp add: block_switch_parse_def block_len_parse_def block_switch_word_def)
qed

definition block_coder :: "nat list \<Rightarrow> nat list \<Rightarrow> BlockSplitCode \<Rightarrow> bool" where
  "block_coder type_lens len_lens c \<longleftrightarrow> encodes type_lens (type_depths c) (type_bits c) \<and>
     encodes len_lens (length_depths c) (length_bits c)"

lemma StoreBlockSwitch_spec:
  assumes "block_coder type_lens len_lens c" and "NextBlockTypeCode (type_code_calculator c) ty = (code, calc)"
    and "has_code type_lens code" and "has_code len_lens (block_len_code (unat len))"
    and "1 \<le> unat len" and "unat len < 16625 + 2 ^ 24" and "room st (54 + m)"
  shows "\<exists>st'. StoreBlockSwitch c len ty False st = Some (c\<lparr>type_code_calculator := calc\<rparr>, st') \<and>
    written st' = written st @ block_switch_word type_lens len_lens code (unat len) \<and> room st' m"
proof -
  define k where "k = block_len_code (unat len)"
  note lc = block_len_code [OF assms(5,6)]
  have e: "encodes type_lens (type_depths c) (type_bits c)" "encodes len_lens (length_depths c) (length_bits c)"
    using assms(1) by (simp_all add: block_coder_def)
  have cc: "complete_code type_lens" "complete_code len_lens" using e by (simp_all add: encodes_def)
  have n: "type_lens ! code \<le> 15" "len_lens ! k \<le> 15" "block_len_bits k \<le> 24" "k < 26"
    using has_codeD(2) [OF cc(1) assms(3)] has_codeD(2) [OF cc(2) assms(4)] lc(2) block_len_tile(2) by (simp_all add: k_def)
  have "room st (type_lens ! code + (len_lens ! k + (block_len_bits k + m)))"
    by (rule room_mono [OF assms(7)]) (use n in simp)
  from write_code_spec [OF e(1) assms(3) this] obtain s1 where
    s1: "write_code (type_depths c) (type_bits c) code st = Some s1" "written s1 = written st @ code_bits type_lens code"
    "room s1 (len_lens ! k + (block_len_bits k + m))" by blast
  from write_code_spec [OF e(2) assms(4) [folded k_def] s1(3)] obtain s2 where
    s2: "write_code (length_depths c) (length_bits c) k s1 = Some s2" "written s2 = written s1 @ code_bits len_lens k"
    "room s2 (block_len_bits k + m)" by blast
  have x: "block_len_extra (unat len) < 2 ^ block_len_bits k" using lc(4) by (simp add: k_def)
  have "block_len_bits k \<le> 56" using n(3) by simp
  from le64.wr_nat [OF s2(3) this x] obtain s3 where
    s3: "BrotliWriteBits (block_len_bits k) (of_nat (block_len_extra (unat len))) s2 = Some s3"
    "written s3 = written s2 @ val_bits (block_len_bits k) (block_len_extra (unat len))" "room s3 m" by blast
  have "(2::nat) ^ block_len_bits k \<le> 2 ^ 24" by (rule power_increasing) (use n(3) in simp_all)
  then have "block_len_extra (unat len) < 2 ^ 32" using x by simp
  then have word: "ucast (of_nat (block_len_extra (unat len)) :: uint32) = (of_nat (block_len_extra (unat len)) :: uint64)"
    by (simp add: ucast_of_nat_up)
  show ?thesis
    using s1(1,2) s2(1,2) s3 assms(2) GetBlockLengthPrefixCode_spec [OF assms(5,6)]
    by (simp add: StoreBlockSwitch_def block_switch_word_def word flip: k_def)
qed

end
