(* ===== verification/Block_Properties.thy ===== *)
theory Block_Properties
  imports Block_Facts Huffman_Properties
begin

text \<open>
  Block switches of \<^verbatim>\<open>enc/brotli_bit_stream.c\<close> and \<^verbatim>\<open>dec/decode.c\<close>, end to end: a sequence of switches the
  encoder writes is read back by the decoder, and block types stay inside their number whatever
  the input.
\<close>

section \<open>Sequences of switches\<close>

fun store_switches ::
  "(uint8 \<times> uint32) list \<Rightarrow> BlockSplitCode \<Rightarrow> bit_storage \<Rightarrow> (BlockSplitCode \<times> bit_storage) option" where
  "store_switches [] c st = Some (c, st)"
| "store_switches ((ty, len) # bs) c st = do {
     (c, st) \<leftarrow> StoreBlockSwitch c len ty False st;
     store_switches bs c st }"

text \<open>The new type is the second of the pair in \<open>d_block_type_rb\<close>.\<close>

fun read_switches ::
  "nat \<Rightarrow> nat \<Rightarrow> BrotliDecoderState \<Rightarrow> ((uint32 \<times> uint32) list \<times> BrotliDecoderState) option" where
  "read_switches t 0 s = Some ([], s)"
| "read_switches t (Suc k) s = do {
     (ok, s) \<leftarrow> DecodeBlockTypeAndLength True s t;
     if \<not> ok then None
     else do {
       ty \<leftarrow> arr_get (d_block_type_rb s) (t * 2 + 1);
       len \<leftarrow> arr_get (d_block_length s) t;
       (bs, s) \<leftarrow> read_switches t k s;
       Some ((ty, len) # bs, s) } }"

text \<open>The switches can be coded: every code they need has a word, and the lengths are in range.\<close>

fun switches_coded ::
  "nat \<Rightarrow> nat list \<Rightarrow> nat list \<Rightarrow> BlockTypeCodeCalculator \<Rightarrow> (uint8 \<times> uint32) list \<Rightarrow> bool" where
  "switches_coded n type_lens len_lens calc [] \<longleftrightarrow> True"
| "switches_coded n type_lens len_lens calc ((ty, len) # bs) \<longleftrightarrow>
     (let (code, calc') = NextBlockTypeCode calc ty
      in unat ty < n \<and> 1 \<le> unat len \<and> unat len < 16625 + 2 ^ 24 \<and> has_code type_lens code \<and>
         has_code len_lens (block_len_code (unat len)) \<and> switches_coded n type_lens len_lens calc' bs)"

fun switch_words :: "nat list \<Rightarrow> nat list \<Rightarrow> BlockTypeCodeCalculator \<Rightarrow> (uint8 \<times> uint32) list \<Rightarrow> bits" where
  "switch_words type_lens len_lens calc [] = []"
| "switch_words type_lens len_lens calc ((ty, len) # bs) =
     (let (code, calc') = NextBlockTypeCode calc ty
      in block_switch_word type_lens len_lens code (unat len) @ switch_words type_lens len_lens calc' bs)"

definition types_match :: "nat \<Rightarrow> BlockTypeCodeCalculator \<Rightarrow> BrotliDecoderState \<Rightarrow> bool" where
  "types_match t calc s \<longleftrightarrow> d_block_type_rb s ! (t * 2) = of_nat (second_last_type calc) \<and>
     d_block_type_rb s ! (t * 2 + 1) = of_nat (last_type calc)"

lemma store_switches_spec:
  assumes "block_coder type_lens len_lens c" and "switches_coded n type_lens len_lens (type_code_calculator c) bs"
    and "room st (54 * length bs + m)"
  shows "\<exists>c' st'. store_switches bs c st = Some (c', st') \<and>
    written st' = written st @ switch_words type_lens len_lens (type_code_calculator c) bs \<and> room st' m"
  using assms
proof (induction bs arbitrary: c st)
  case (Cons b bs)
  obtain ty len where b: "b = (ty, len)" by (cases b)
  obtain code calc where n: "NextBlockTypeCode (type_code_calculator c) ty = (code, calc)"
    by (cases "NextBlockTypeCode (type_code_calculator c) ty")
  have c: "has_code type_lens code" "has_code len_lens (block_len_code (unat len))" "1 \<le> unat len"
    "unat len < 16625 + 2 ^ 24" "switches_coded n type_lens len_lens calc bs"
    using Cons.prems(2) by (simp_all add: b n)
  have "room st (54 + (54 * length bs + m))" using Cons.prems(3) by (simp add: add.assoc)
  from StoreBlockSwitch_spec [OF Cons.prems(1) n c(1-4) this] obtain s1 where
    s1: "StoreBlockSwitch c len ty False st = Some (c\<lparr>type_code_calculator := calc\<rparr>, s1)"
    "written s1 = written st @ block_switch_word type_lens len_lens code (unat len)" "room s1 (54 * length bs + m)" by blast
  have "block_coder type_lens len_lens (c\<lparr>type_code_calculator := calc\<rparr>)"
    using Cons.prems(1) by (simp add: block_coder_def)
  from Cons.IH [OF this _ s1(3)] c(5) show ?case using s1(1,2) by (auto simp: b n)
qed simp

lemma switch_step:
  assumes "switch_ready t n type_lens len_lens s" and "s_ok s" and "types_match t calc s"
    and "last_type calc < n" and "second_last_type calc < n"
    and "NextBlockTypeCode calc ty = (code, calc')" and "unat ty < n"
    and "has_code type_lens code" and "has_code len_lens (block_len_code len)" and "1 \<le> len" and "len < 16625 + 2 ^ 24"
    and "s_bits s = block_switch_word type_lens len_lens code len @ rest"
  shows "\<exists>s'. DecodeBlockTypeAndLength True s t = Some (True, s') \<and> s_ok s' \<and> s_bits s' = rest \<and>
    switch_ready t n type_lens len_lens s' \<and> types_match t calc' s' \<and> last_type calc' < n \<and> second_last_type calc' < n \<and>
    d_block_type_rb s' ! (t * 2 + 1) = of_nat (unat ty) \<and> d_block_length s' ! t = of_nat len"
proof -
  have cc: "complete_code type_lens" "complete_code len_lens"
    using assms(1) by (auto simp: switch_ready_def decodes_def)
  have n: "n \<le> 256" "t < 3" "length (d_block_type_rb s) = 6" "length (d_block_length s) = 3"
    using assms(1) by (simp_all add: switch_ready_def)
  note ty = block_type_code [OF assms(7) n(1) assms(4,5,6)]
  have "block_switch_parse type_lens len_lens (s_bits s) = Some (code, len, rest)"
    unfolding assms(12) by (rule parse_block_switch_word [OF cc assms(8-11)])
  with DecodeBlockTypeAndLength_spec [OF assms(1,2)] obtain br where
    br: "br_ok br" "DecodeBlockTypeAndLength True s t = Some (True, switched t n code len (s\<lparr>d_br := br\<rparr>))" "br_bits br = rest"
    "code < n + 2" by auto
  have m: "d_block_type_rb s ! (t * 2) = of_nat (second_last_type calc)" "d_block_type_rb s ! Suc (t * 2) = of_nat (last_type calc)"
    using assms(3) by (simp_all add: types_match_def)
  have i: "t * 2 < 6" "Suc (t * 2) < 6" using n(2) by simp_all
  let ?s = "switched t n code len (s\<lparr>d_br := br\<rparr>)"
  have "d_block_type_rb ?s ! (t * 2) = of_nat (last_type calc)" "d_block_type_rb ?s ! Suc (t * 2) = of_nat (unat ty)"
    "d_block_length ?s ! t = of_nat len" "d_br ?s = br"
    using i n(2-4) m ty(4) by (simp_all add: switched_def Let_def nth_list_update)
  then show ?thesis
    using br switched_ready [OF assms(1) br(4), of len br] ty assms(4,7)
    by (intro exI [of _ ?s]) (simp add: types_match_def)
qed

lemma read_switches_spec:
  assumes "switch_ready t n type_lens len_lens s" and "s_ok s" and "types_match t calc s"
    and "last_type calc < n" and "second_last_type calc < n" and "switches_coded n type_lens len_lens calc bs"
    and "s_bits s = switch_words type_lens len_lens calc bs @ rest"
  shows "\<exists>s'. read_switches t (length bs) s = Some (map (\<lambda>(ty, len). (ucast ty, len)) bs, s') \<and> s_bits s' = rest"
  using assms
proof (induction bs arbitrary: s calc)
  case (Cons b bs)
  obtain ty len where b: "b = (ty, len)" by (cases b)
  obtain code calc' where c: "NextBlockTypeCode calc ty = (code, calc')" by (cases "NextBlockTypeCode calc ty")
  have w: "unat ty < n" "has_code type_lens code" "has_code len_lens (block_len_code (unat len))" "1 \<le> unat len"
    "unat len < 16625 + 2 ^ 24" "switches_coded n type_lens len_lens calc' bs"
    "s_bits s = block_switch_word type_lens len_lens code (unat len) @ switch_words type_lens len_lens calc' bs @ rest"
    using Cons.prems(6,7) by (simp_all add: b c)
  from switch_step [OF Cons.prems(1-5) c w(1-5) w(7)] obtain s1 where
    s1: "DecodeBlockTypeAndLength True s t = Some (True, s1)" "s_ok s1"
    "s_bits s1 = switch_words type_lens len_lens calc' bs @ rest" "switch_ready t n type_lens len_lens s1"
    "types_match t calc' s1" "last_type calc' < n" "second_last_type calc' < n"
    "d_block_type_rb s1 ! (t * 2 + 1) = of_nat (unat ty)" "d_block_length s1 ! t = of_nat (unat len)" by blast
  from Cons.IH [OF s1(4,2,5-7) w(6) s1(3)] obtain s2 where
    s2: "read_switches t (length bs) s1 = Some (map (\<lambda>(ty, len). (ucast ty, len)) bs, s2)" "s_bits s2 = rest" by blast
  have "t * 2 + 1 < length (d_block_type_rb s1)" "t < length (d_block_length s1)"
    using s1(4) by (auto simp: switch_ready_def)
  then show ?case using s1(1,8,9) s2 by (simp add: b)
qed simp

section \<open>A sample\<close>

lemma sample_has_code: "k < 11 \<Longrightarrow> has_code sample_lens k"
proof -
  have "list_all (\<lambda>k. 0 < sample_lens ! k) [0..<11]" by code_simp
  then show "k < 11 \<Longrightarrow> has_code sample_lens k" by (simp add: has_code_def list_all_iff) (simp add: sample_lens_def)
qed

lemma sample_words:
  "code_bits sample_lens 3 = [False]" "code_bits sample_lens 0 = [True, False]" "code_bits sample_lens 2 = [True, True, False]"
proof -
  have s: "syms sample_lens 1 = [3]" "syms sample_lens 2 = [0]" "syms sample_lens 3 = [2]"
    by (simp_all add: syms_def sample_lens_def upt_rec)
  have f: "first_code sample_lens 1 = 0" "first_code sample_lens 2 = 2" "first_code sample_lens 3 = 6"
    using sample_counts_eq first_code_fold [of sample_lens 0] first_code_fold [of sample_lens 1] first_code_fold [of sample_lens 2]
    by (simp_all add: sample_counts_def upt_rec eval_nat_numeral)
  have "code_of sample_lens 3 = 0" "code_of sample_lens 0 = 2" "code_of sample_lens 2 = 6"
    using syms_nth(3) [of 0 sample_lens 1] syms_nth(3) [of 0 sample_lens 2] syms_nth(3) [of 0 sample_lens 3] s f by simp_all
  moreover have "sample_lens ! 3 = 1" "sample_lens ! 0 = 2" "sample_lens ! 2 = 3" by (simp_all add: sample_lens_def)
  moreover have "rev (val_bits 1 0) = [False]" "rev (val_bits 2 2) = [True, False]" "rev (val_bits 3 6) = [True, True, False]"
    by code_simp+
  ultimately show "code_bits sample_lens 3 = [False]" "code_bits sample_lens 0 = [True, False]"
    "code_bits sample_lens 2 = [True, True, False]" by (simp_all only: code_bits_def)
qed

text \<open>Both tables of the category are the sample code's; the ring holds the types 0 and 1 of nine.\<close>

definition switch_sample :: "HuffmanCode list \<Rightarrow> uint8 list \<Rightarrow> BrotliDecoderState" where
  "switch_sample t bs = (with_input bs)\<lparr>d_num_block_types := [9, 1, 1], d_block_length := [0, 0, 0],
     d_block_type_rb := [0, 1, 1, 0, 1, 0], d_block_type_trees := Some t, d_block_len_trees := Some t\<rparr>"

lemma sample_tables: "\<exists>t. decodes sample_lens 0 t"
proof -
  have room: "0 + table_cells sample_lens \<le> length sample_cells"
    using table_off_le [OF sample_code, of 256] by (simp add: sample_cells_def)
  from BrotliBuildHuffmanTable_spec [OF sample_code sample_chains_ok room] obtain t where
    t: "table_ok sample_lens 0 t" "frame 0 (0 + table_cells sample_lens) sample_cells t" by blast
  have "decodes sample_lens 0 t"
    by (rule decodesI [OF sample_code t(1)]) (use t(2) room in \<open>simp_all add: frame_def sample_lens_def\<close>)
  then show ?thesis ..
qed

lemma switch_sample_fields:
  assumes "decodes sample_lens 0 t"
  shows "switch_ready 0 9 sample_lens sample_lens (switch_sample t (b # bs))" and "s_ok (switch_sample t (b # bs))"
    and "s_bits (switch_sample t (b # bs)) = bytes_bits (b # bs)"
proof -
  have "d_substate_read_block_length (with_input (b # bs)) = BROTLI_STATE_READ_BLOCK_LENGTH_NONE"
    by (simp add: with_input_def sample_state_def BrotliDecoderStateInit_def)
  moreover have "length sample_lens = 11" by (simp add: sample_lens_def)
  ultimately show "switch_ready 0 9 sample_lens sample_lens (switch_sample t (b # bs))"
    using assms by (simp add: switch_ready_def switch_sample_def)
  show "s_ok (switch_sample t (b # bs))" "s_bits (switch_sample t (b # bs)) = bytes_bits (b # bs)"
    using with_input_ok with_input_bits by (simp_all add: switch_sample_def)
qed

definition sample_switches :: "(uint8 \<times> uint32) list" where
  "sample_switches = [(1, 14), (1, 3), (0, 9)]"

definition sample_calc :: BlockTypeCodeCalculator where
  "sample_calc = \<lparr>last_type = 1, second_last_type = 0\<rparr>"

lemma sample_len_codes: "block_len_code 14 = 3" "block_len_code 3 = 0" "block_len_code 9 = 2"
  by (simp_all add: block_len_code_def BlockLengthPrefixCode_def block_length_loop.simps kBrotliPrefixCodeRanges_def)

lemma sample_switches_coded: "switches_coded 9 sample_lens sample_lens sample_calc sample_switches"
  using sample_has_code by (simp add: sample_switches_def sample_calc_def NextBlockTypeCode_def sample_len_codes)

lemma sample_switch_words:
  "bytes_bits [0x54, 0x6E, 0x00] = switch_words sample_lens sample_lens sample_calc sample_switches @ replicate 6 False"
proof -
  have x: "block_len_offset 3 = 13" "block_len_offset 2 = 9" "block_len_bits 3 = 2" "block_len_bits 0 = 2" "block_len_bits 2 = 2"
    by (simp_all add: block_len_offset_def block_len_bits_def kBrotliPrefixCodeRanges_def)
  have e: "block_len_extra 14 = 1" "block_len_extra 3 = 2" "block_len_extra 9 = 0"
    by (simp_all add: block_len_extra_def sample_len_codes x block_len_values)
  have v: "val_bits 2 1 = [True, False]" "val_bits 2 2 = [False, True]" "val_bits 2 0 = [False, False]" by code_simp+
  have "bytes_bits [0x54, 0x6E, 0x00] = [False, False, True, False, True, False, True, False,
      False, True, True, True, False, True, True, False] @ replicate 8 False" by code_simp
  moreover have "switch_words sample_lens sample_lens sample_calc sample_switches =
      block_switch_word sample_lens sample_lens 3 14 @ block_switch_word sample_lens sample_lens 0 3 @
      block_switch_word sample_lens sample_lens 2 9"
    by (simp add: sample_switches_def sample_calc_def NextBlockTypeCode_def) (simp add: numeral_3_eq_3 numeral_2_eq_2)
  moreover have "block_switch_word sample_lens sample_lens 3 14 = [False] @ [False] @ [True, False]"
    "block_switch_word sample_lens sample_lens 0 3 = [True, False] @ [True, False] @ [False, True]"
    "block_switch_word sample_lens sample_lens 2 9 = [True, True, False] @ [True, True, False] @ [False, False]"
    by (simp_all only: block_switch_word_def sample_len_codes e x v sample_words)
  moreover have "replicate 8 False = [False, False] @ replicate 6 False" by (simp add: numeral_eq_Suc)
  ultimately show ?thesis by simp
qed

section \<open>Properties\<close>

text \<open>C7: Block switches round-trip.  Any sequence of block types below the number of types and of block lengths
  that the format can express, written by \<open>StoreBlockSwitch\<close> with the words of two complete codes, is read
  back by \<open>DecodeBlockTypeAndLength\<close>, type by type and length by length, when the decoder's ring
  starts with the two types the encoder's calculator holds; the rest of the stream is left.\<close>

theorem block_switch_roundtrip:
  assumes "block_coder type_lens len_lens c" and "switches_coded n type_lens len_lens (type_code_calculator c) bs"
    and "room st (54 * length bs + m)"
    and "switch_ready t n type_lens len_lens s" and "s_ok s" and "types_match t (type_code_calculator c) s"
    and "last_type (type_code_calculator c) < n" and "second_last_type (type_code_calculator c) < n"
    and "s_bits s = switch_words type_lens len_lens (type_code_calculator c) bs @ rest"
  shows "\<exists>c' st' s'. store_switches bs c st = Some (c', st') \<and> room st' m \<and>
    written st' = written st @ switch_words type_lens len_lens (type_code_calculator c) bs \<and>
    read_switches t (length bs) s = Some (map (\<lambda>(ty, len). (ucast ty, len)) bs, s') \<and> s_bits s' = rest"
  using store_switches_spec [OF assms(1-3)] read_switches_spec [OF assms(4-8,2,9)] by blast

lemma block_switch_roundtrip_witness:
  "\<exists>c t c' st' s'. decodes sample_lens 0 t \<and> store_switches sample_switches c (\<lparr>storage_ix = 3, storage = replicate 40 0\<rparr>) = Some (c', st') \<and>
    room st' 20 \<and> written st' = written (\<lparr>storage_ix = 3, storage = replicate 40 0\<rparr>) @
      switch_words sample_lens sample_lens sample_calc sample_switches \<and>
    read_switches 0 3 (switch_sample t [0x54, 0x6E, 0x00]) = Some ([(1, 14), (1, 3), (0, 9)], s') \<and> s_bits s' = replicate 6 False"
proof -
  obtain t where t: "decodes sample_lens 0 t" using sample_tables by blast
  have "length sample_lens = 11" "map unat (take 11 (map of_nat sample_lens :: uint8 list)) = sample_lens"
    by (simp_all add: sample_lens_def)
  moreover from this obtain bits where "BrotliConvertBitDepthsToSymbols (map of_nat sample_lens) 11 (replicate 11 0) = Some bits"
    using BrotliConvertBitDepthsToSymbols_spec [OF _ _ sample_code, of 11 "map of_nat sample_lens" "replicate 11 0"] by auto
  ultimately have e: "encodes sample_lens (map of_nat sample_lens) bits"
    by (intro encodes_convert [OF _ _ sample_code]) simp_all
  define c where "c = \<lparr>type_code_calculator = sample_calc, type_depths = map of_nat sample_lens, type_bits = bits,
    length_depths = map of_nat sample_lens, length_bits = bits\<rparr>"
  have c: "block_coder sample_lens sample_lens c" "type_code_calculator c = sample_calc"
    using e by (simp_all add: block_coder_def c_def)
  have room: "room (\<lparr>storage_ix = 3, storage = replicate 40 0\<rparr>) (54 * length sample_switches + 20)"
    by (simp add: room_def storage_ok_def sample_switches_def nth_append)
  have m: "types_match 0 sample_calc (switch_sample t [0x54, 0x6E, 0x00])"
    by (simp add: types_match_def switch_sample_def sample_calc_def)
  have "last_type sample_calc < 9" "second_last_type sample_calc < 9" by (simp_all add: sample_calc_def)
  moreover have l: "length sample_switches = 3" "map (\<lambda>(ty, len). (ucast ty :: uint32, len)) sample_switches = [(1, 14), (1, 3), (0, 9)]"
    by (simp_all add: sample_switches_def)
  ultimately show ?thesis
    using block_switch_roundtrip [OF c(1) _ room switch_sample_fields(1,2) [OF t], unfolded c(2), OF sample_switches_coded m _ _
        switch_sample_fields(3) [OF t, of "0x54" "[0x6E, 0x00]", unfolded sample_switch_words]] t
    unfolding l by blast
qed

text \<open>C17: Block types stay in range, whatever the input.  For a category with \<open>n\<close> types whose table codes no
  more than the \<open>n + 2\<close> symbols of its alphabet, \<open>DecodeBlockTypeAndLength\<close> returns, with both remembered
  types below \<open>n\<close> and those of the other categories untouched; when the input ends before the switch is
  complete it says so, and neither the stream nor a type has moved.\<close>

theorem block_types_in_range:
  assumes "switch_ready t n type_lens len_lens s" and "s_ok s"
  shows "\<exists>ok s'. DecodeBlockTypeAndLength True s t = Some (ok, s') \<and> s_ok s' \<and>
    switch_ready t n type_lens len_lens s' \<and>
    unat (d_block_type_rb s' ! (t * 2)) < n \<and> unat (d_block_type_rb s' ! (t * 2 + 1)) < n \<and>
    (\<forall>i. i \<noteq> t * 2 \<and> i \<noteq> t * 2 + 1 \<longrightarrow> d_block_type_rb s' ! i = d_block_type_rb s ! i) \<and>
    (\<not> ok \<longrightarrow> s_bits s' = s_bits s \<and> d_block_type_rb s' = d_block_type_rb s \<and> d_block_length s' = d_block_length s)"
proof (cases "block_switch_parse type_lens len_lens (s_bits s)")
  case None
  then obtain br i where "DecodeBlockTypeAndLength True s t = Some (False, s\<lparr>d_br := br, d_block_length_index := i\<rparr>)"
    "br_ok br" "br_bits br = s_bits s" using DecodeBlockTypeAndLength_spec [OF assms] by auto
  then show ?thesis using assms(1)
    by (intro exI [of _ False] exI [of _ "s\<lparr>d_br := br, d_block_length_index := i\<rparr>"]) (simp add: switch_ready_def)
next
  case (Some p)
  then obtain code len br where r: "DecodeBlockTypeAndLength True s t = Some (True, switched t n code len (s\<lparr>d_br := br\<rparr>))"
    "br_ok br" "code < n + 2" using DecodeBlockTypeAndLength_spec [OF assms] by (cases p) auto
  have s: "switch_ready t n type_lens len_lens (switched t n code len (s\<lparr>d_br := br\<rparr>))"
    by (rule switched_ready [OF assms(1) r(3)])
  then have "unat (d_block_type_rb (switched t n code len (s\<lparr>d_br := br\<rparr>)) ! (t * 2)) < n"
    "unat (d_block_type_rb (switched t n code len (s\<lparr>d_br := br\<rparr>)) ! (t * 2 + 1)) < n" by (simp_all add: switch_ready_def)
  with s r show ?thesis by (intro exI conjI) (assumption | simp add: switched_def Let_def)+
qed

lemma block_types_in_range_witness:
  "\<exists>t ok s'. decodes sample_lens 0 t \<and> DecodeBlockTypeAndLength True (switch_sample t [0xFF, 0xA0]) 0 = Some (ok, s') \<and> s_ok s' \<and>
    unat (d_block_type_rb s' ! 0) < 9 \<and> unat (d_block_type_rb s' ! 1) < 9"
proof -
  obtain t where t: "decodes sample_lens 0 t" using sample_tables by blast
  from block_types_in_range [OF switch_sample_fields(1,2) [OF t]] t show ?thesis by fastforce
qed

end
