(* ===== verification/Enc_Context_Map_Facts.thy ===== *)
theory Enc_Context_Map_Facts
  imports Context_Map_Properties Block_Facts
begin

text \<open>
  How the encoder of \<^verbatim>\<open>enc/brotli_bit_stream.c\<close> prepares a context map: the move-to-front transform, undone
  by the abstract inverse transform \<open>imtf\<close>, and the coding of runs of zeros, undone by \<open>expand\<close>.
\<close>

section \<open>Move to front\<close>

lemma shift_up_spec: "i < length v \<Longrightarrow> shift_up v i = Some (v ! 0 # take i v @ drop (Suc i) v)"
proof (induction i arbitrary: v)
  case 0
  then show ?case by (cases v) simp_all
next
  case (Suc i)
  define w where "w = v[Suc i := v ! i]"
  have w: "w ! 0 = v ! 0" "take i w = take i v" "drop (Suc i) w = v ! i # drop (Suc (Suc i)) v"
    using Suc.prems by (simp_all add: w_def drop_update_swap Cons_nth_drop_Suc [symmetric])
  have "shift_up v (Suc i) = shift_up w i" using Suc.prems by (simp add: w_def)
  also have "\<dots> = Some (w ! 0 # take i w @ drop (Suc i) w)" by (rule Suc.IH) (use Suc.prems in \<open>simp add: w_def\<close>)
  finally show ?case using Suc.prems by (simp add: w take_Suc_conv_app_nth)
qed

lemma MoveToFront_spec: "i < length v \<Longrightarrow> MoveToFront v i = Some (move_front v i)"
  by (simp add: MoveToFront_def shift_up_spec move_front.simps)

lemma IndexOf_spec:
  assumes "x \<in> set (take n (drop i v))" and "i + n \<le> length v"
  shows "\<exists>k. IndexOf v n x i = Some k \<and> i \<le> k \<and> k < i + n \<and> v ! k = x"
  using assms
proof (induction n arbitrary: i)
  case (Suc n)
  have d: "take (Suc n) (drop i v) = v ! i # take n (drop (Suc i) v)"
    using Suc.prems(2) by (simp add: Cons_nth_drop_Suc [symmetric])
  show ?case
  proof (cases "v ! i = x")
    case True
    then show ?thesis using Suc.prems(2) by simp
  next
    case False
    then have "x \<in> set (take n (drop (Suc i) v))" using Suc.prems(1) by (auto simp: d)
    from Suc.IH [OF this] Suc.prems(2) False show ?thesis by auto
  qed
qed simp

lemma move_front_take: "i < n \<Longrightarrow> n \<le> length T \<Longrightarrow> take n (move_front T i) = move_front (take n T) i"
  by (cases n) (auto simp: move_front.simps min_def drop_take less_Suc_eq_le dest: le_antisym)

lemma set_move_front: "i < length T \<Longrightarrow> set (move_front T i) = set T"
  using id_take_nth_drop [of i T] by (metis Un_insert_right list.set(2) move_front.simps set_append)

text \<open>After \<open>i\<close> values: the first \<open>n\<close> places of the table are those of the decoder's, and decoding the
  codes so far gives the values back.\<close>

definition mtf_enc_inv :: "uint32 list \<Rightarrow> nat \<Rightarrow> nat \<Rightarrow> uint32 list \<Rightarrow> nat \<Rightarrow> uint8 list \<times> uint32 list \<Rightarrow> bool" where
  "mtf_enc_inv v sz n out0 i = (\<lambda>(mtf, out).
     let cs = map (ucast :: uint32 \<Rightarrow> uint8) (take i out)
     in length mtf = 256 \<and> length out = length out0 \<and> drop sz out = drop sz out0 \<and>
        take n mtf = take n (imtf_table identity_table cs) \<and>
        set (take n mtf) = set (take n identity_table) \<and>
        imtf identity_table cs = map ucast (take i v) \<and> (\<forall>x \<in> set (take i out). unat x < n))"

lemma mtf_encode_step_spec:
  assumes "mtf_enc_inv v sz n out0 i st" and "i < sz" and "sz \<le> length v" and "sz \<le> length out0"
    and "\<forall>x \<in> set (take sz v). unat x < n" and "n \<le> 256"
  shows "\<exists>st'. mtf_encode_step v n i st = Some st' \<and> mtf_enc_inv v sz n out0 (Suc i) st'"
proof -
  obtain mtf out where st: "st = (mtf, out)" by (cases st)
  define cs where "cs = map (ucast :: uint32 \<Rightarrow> uint8) (take i out)"
  define T where "T = imtf_table identity_table cs"
  have inv: "length mtf = 256" "length out = length out0" "drop sz out = drop sz out0" "take n mtf = take n T"
    "set (take n mtf) = set (take n identity_table)" "imtf identity_table cs = map ucast (take i v)"
    "\<forall>x \<in> set (take i out). unat x < n"
    using assms(1) unfolding st mtf_enc_inv_def Let_def cs_def T_def prod.case by - (elim conjE, assumption)+
  define x where "x = v ! i"
  have i: "i < length v" "i < length out" using assms(2-4) inv(2) by simp_all
  have "x \<in> set (take sz v)" using assms(2,3) by (auto simp: x_def in_set_conv_nth)
  then have x: "unat x < n" using assms(5) by blast
  have "identity_table ! unat x = ucast x"
    using x assms(6) by (simp add: identity_table_nth)
  then have "ucast x \<in> set (take n identity_table)"
    using x assms(6) by (auto simp: in_set_conv_nth intro!: exI [of _ "unat x"])
  then have "ucast x \<in> set (take n (drop 0 mtf))" using inv(5) by simp
  from IndexOf_spec [OF this] assms(6) inv(1) obtain k where
    k: "IndexOf mtf n (ucast x) 0 = Some k" "k < n" "mtf ! k = ucast x" by auto
  have kT: "T ! k = ucast x" using k(2,3) inv(4) by (metis nth_take)
  have lT: "length T = 256" by (simp add: T_def)
  have u: "unat (of_nat k :: uint32) = k" by (rule unat_of_nat_small) (use k(2) assms(6) in simp)
  have u8: "unat (ucast (of_nat k :: uint32) :: uint8) = k"
    using k(2) assms(6) u by (simp add: unsigned_ucast_eq take_bit_nat_eq_self)
  let ?out = "out[i := of_nat k]" and ?mtf = "move_front mtf k"
  have step: "mtf_encode_step v n i st = Some (?mtf, ?out)"
    using i k assms(6) inv(1) by (simp add: st mtf_encode_step_def MoveToFront_spec flip: x_def)
  have t: "take (Suc i) ?out = take i out @ [of_nat k]" "take (Suc i) v = take i v @ [x]"
    using i by (simp_all add: take_Suc_conv_app_nth x_def)
  have km: "k < length mtf" "n \<le> length mtf" "n \<le> length T" using k(2) assms(6) inv(1) lT by simp_all
  have "take n ?mtf = take n (move_front T k)"
    using move_front_take [OF k(2) km(2)] move_front_take [OF k(2) km(3)] inv(4) by simp
  moreover have "set (take n ?mtf) = set (take n mtf)"
    unfolding move_front_take [OF k(2) km(2)] by (rule set_move_front) (use k(2) km in simp)
  moreover have "map (ucast :: uint32 \<Rightarrow> uint8) (take (Suc i) ?out) = cs @ [ucast (of_nat k :: uint32)]"
    by (simp add: t cs_def)
  moreover have "imtf_table identity_table (cs @ [ucast (of_nat k :: uint32)]) = move_front T k"
    "imtf identity_table (cs @ [ucast (of_nat k :: uint32)]) = map ucast (take (Suc i) v)"
    by (simp_all add: imtf_table_snoc imtf_snoc u8 t(2) inv(6) kT flip: T_def)
  moreover have "length ?mtf = 256" "length ?out = length out0" "drop sz ?out = drop sz out0"
    "\<forall>x \<in> set (take (Suc i) ?out). unat x < n"
    using km(1) inv(1-3,7) assms(2) u k(2) by (simp_all add: t(1))
  ultimately have "mtf_enc_inv v sz n out0 (Suc i) (?mtf, ?out)"
    using inv(5) unfolding mtf_enc_inv_def Let_def prod.case by simp
  with step show ?thesis by blast
qed

lemma foldl_max_ge: "a \<le> foldl max (a :: uint32) xs"
  by (induction xs arbitrary: a) (auto intro: order_trans [OF max.cobounded1])

lemma foldl_max: "x \<in> insert a (set xs) \<Longrightarrow> x \<le> foldl max (a :: uint32) xs"
proof (induction xs arbitrary: a)
  case (Cons y xs)
  then consider "x \<in> set xs" | "x \<le> max a y" by auto
  then show ?case
  proof cases
    case 2
    then show ?thesis using foldl_max_ge [of "max a y" xs] by (simp only: foldl_Cons order_trans)
  qed (use Cons.IH in auto)
qed simp

lemma foldl_max_in: "foldl max (a :: uint32) xs \<in> insert a (set xs)"
  by (induction xs arbitrary: a) (auto simp: max_def)

lemma init_table_spec:
  assumes "n \<le> 256"
  shows "\<exists>m. foldM (\<lambda>i mtf. arr_set mtf i (of_nat i)) [0..<n] (replicate 256 (0 :: uint8)) = Some m \<and> length m = 256 \<and>
    take n m = take n identity_table"
proof -
  have "\<exists>m. foldM (\<lambda>i mtf. arr_set mtf i (of_nat i)) [0..<n] (replicate 256 (0 :: uint8)) = Some m \<and>
      length m = 256 \<and> (\<forall>j < n. m ! j = of_nat j)"
    by (rule foldM_upt [where P = "\<lambda>i m. length m = 256 \<and> (\<forall>j < i. m ! j = of_nat j)"])
      (use assms in \<open>auto simp: nth_list_update less_Suc_eq\<close>)
  then show ?thesis using assms by (auto intro!: nth_equalityI simp: identity_table_nth)
qed

text \<open>The transform as a whole: decoding its result gives the input back.\<close>

lemma MoveToFrontTransform_spec:
  assumes "n = length v" and "n \<le> length out" and "\<forall>x \<in> set v. unat x < m" and "m \<le> 256"
  shows "\<exists>out'. MoveToFrontTransform v n out = Some out' \<and> length out' = length out \<and> drop n out' = drop n out \<and>
    (\<forall>x \<in> set (take n out'). unat x < m) \<and>
    imtf identity_table (map ucast (take n out')) = map ucast v"
proof (cases "n = 0")
  case True
  then show ?thesis using assms(1) by (simp add: MoveToFrontTransform_def)
next
  case False
  define mx where "mx = foldl max (v ! 0) (take (n - 1) (drop 1 v))"
  have d: "take (n - 1) (drop 1 v) = tl v" "insert (v ! 0) (set (tl v)) = set v"
    using False assms(1) by (cases v; simp)+
  have le: "x \<le> mx" if "x \<in> set v" for x using foldl_max [of x "v ! 0" "tl v"] that unfolding mx_def d by blast
  have "mx \<in> set v" using foldl_max_in [of "v ! 0" "tl v"] unfolding mx_def d .
  then have mx: "unat mx < m" using assms(3) by blast
  define k where "k = unat mx + 1"
  have k: "k \<le> 256" "k \<le> m" using mx assms(4) by (simp_all add: k_def)
  have small: "\<forall>x \<in> set (take n v). unat x < k" using le assms(1) by (auto simp: k_def word_le_nat_alt less_Suc_eq_le)
  obtain t0 where t0: "foldM (\<lambda>i mtf. arr_set mtf i (of_nat i)) [0..<k] (replicate 256 (0 :: uint8)) = Some t0"
    "length t0 = 256" "take k t0 = take k identity_table" using init_table_spec [OF k(1)] by blast
  have "mtf_enc_inv v n k out 0 (t0, out)" using t0 by (simp add: mtf_enc_inv_def)
  then obtain st where st: "foldM (mtf_encode_step v k) [0..<n] (t0, out) = Some st" "mtf_enc_inv v n k out n st"
    using foldM_upt [of 0 n "mtf_enc_inv v n k out" "(t0, out)" "mtf_encode_step v k"]
      mtf_encode_step_spec [of v n k out] small k(1) assms(1,2) by auto
  obtain t1 out' where p: "st = (t1, out')" by (cases st)
  have "MoveToFrontTransform v n out = Some out'"
    using False assms(1) t0(1) st(1) by (simp add: MoveToFrontTransform_def p flip: mx_def k_def [unfolded Suc_eq_plus1 [symmetric]])
      (simp add: k_def mx_def)
  then show ?thesis using st(2) k(2) assms(1) by (auto simp: p mtf_enc_inv_def Let_def)
qed

section \<open>Runs of zeros\<close>

text \<open>A code with nine bits of symbol and its extra bits above, and what a list of codes stands for.\<close>

definition token :: "uint32 \<Rightarrow> nat \<times> nat" where
  "token x = (unat x mod 512, unat x div 512)"

fun expand :: "nat \<Rightarrow> (nat \<times> nat) list \<Rightarrow> nat list" where
  "expand mp [] = []"
| "expand mp ((c, e) # ts) = (if c = 0 then [0] else if c \<le> mp then replicate (2 ^ c + e) 0 else [c - mp]) @ expand mp ts"

definition token_ok :: "nat \<Rightarrow> nat \<times> nat \<Rightarrow> bool" where
  "token_ok mp = (\<lambda>(c, e). if 0 < c \<and> c \<le> mp then e < 2 ^ c else e = 0)"

lemma expand_append: "expand mp (ts @ us) = expand mp ts @ expand mp us"
  by (induction mp ts rule: expand.induct) simp_all

lemma token_of:
  assumes "c < 512" and "e < 2 ^ 23"
  shows "token (of_nat c + push_bit 9 (of_nat e)) = (c, e)"
proof -
  have e: "push_bit 9 (of_nat e :: uint32) = of_nat (512 * e)" by (simp add: push_bit_eq_mult)
  have "unat (of_nat c + push_bit 9 (of_nat e) :: uint32) = c + 512 * e"
    unfolding e of_nat_add [symmetric] by (rule unat_of_nat_small) (use assms in simp)
  then show ?thesis using assms(1) by (simp add: token_def)
qed

text \<open>\<open>vo\<close> is the array and the place of the next code; a step appends codes for \<open>xs\<close>.\<close>

definition coded :: "nat \<Rightarrow> nat list \<Rightarrow> uint32 list \<times> nat \<Rightarrow> uint32 list \<times> nat \<Rightarrow> bool" where
  "coded mp xs = (\<lambda>(v, out) (v', out'). length v' = length v \<and> out \<le> out' \<and> out' \<le> out + length xs \<and>
     take out v' = take out v \<and> drop out' v' = drop out' v \<and>
     expand mp (map token (drop out (take out' v'))) = xs \<and>
     list_all (token_ok mp) (map token (drop out (take out' v'))))"

lemma coded_one:
  assumes "out < length v" and "expand mp [token x] = xs" and "token_ok mp (token x)" and "1 \<le> length xs"
  shows "coded mp xs (v, out) (v[out := x], Suc out)"
  using assms by (simp add: coded_def take_Suc_conv_app_nth)

lemma coded_trans:
  assumes "coded mp xs a b" and "coded mp ys b c" and "snd c \<le> length (fst c)"
  shows "coded mp (xs @ ys) a c"
proof -
  obtain u i v j w k where abc: "a = (u, i)" "b = (v, j)" "c = (w, k)" by (cases a; cases b; cases c)
  have a: "length v = length u" "i \<le> j" "j \<le> i + length xs" "take i v = take i u" "drop j v = drop j u"
    "expand mp (map token (drop i (take j v))) = xs" "list_all (token_ok mp) (map token (drop i (take j v)))"
    using assms(1) by (simp_all add: coded_def abc)
  have b: "length w = length v" "j \<le> k" "k \<le> j + length ys" "take j w = take j v" "drop k w = drop k v"
    "expand mp (map token (drop j (take k w))) = ys" "list_all (token_ok mp) (map token (drop j (take k w)))"
    using assms(2) by (simp_all add: coded_def abc)
  have "take k w = take j v @ drop j (take k w)" using b(2,4) by (metis append_take_drop_id min.absorb1 take_take)
  moreover have "drop i (take j v @ drop j (take k w)) = drop i (take j v) @ drop j (take k w)"
    using a(1,2) b(1,2) assms(3) by (simp add: abc)
  ultimately have t: "drop i (take k w) = drop i (take j v) @ drop j (take k w)" by metis
  have i: "take i w = take i u" using a(2,4) b(4) by (metis min.absorb1 take_take)
  have "drop k v = drop k u" using a(5) b(2) by (metis drop_drop le_add_diff_inverse2)
  then show ?thesis using a b i by (simp add: coded_def abc t expand_append)
qed

lemma put_zero_run_spec:
  assumes "snd vo + reps \<le> length (fst vo)" and "mp < 16" and "reps < 2 ^ 23"
  shows "\<exists>vo'. put_zero_run mp reps vo = Some vo' \<and> coded mp (replicate reps 0) vo vo'"
  using assms
proof (induction mp reps vo rule: put_zero_run.induct)
  case (1 mp reps vo)
  obtain v out where vo: "vo = (v, out)" by (cases vo)
  consider "reps = 0" | "0 < reps" "reps < 2 * 2 ^ mp" | "0 < reps" "2 * 2 ^ mp \<le> reps" by linarith
  then show ?case
  proof cases
    case 1
    then show ?thesis by (subst put_zero_run.simps) (simp add: coded_def vo)
  next
    case 2
    define l where "l = log2_floor reps"
    have l: "2 ^ l \<le> reps" "reps < 2 ^ Suc l" "Log2FloorNonZero reps = Some l"
      using log2_floor_bounds [OF 2(1)] Log2FloorNonZero_some [OF 2(1)] "1.prems"(3) by (simp_all add: l_def)
    have l0: "l = 0 \<Longrightarrow> reps = 1" using l(1,2) by simp
    have lm: "l \<le> mp" using log2_floor_less [OF 2(1), of "Suc mp"] 2(2) by (simp add: l_def)
    have "token (of_nat l + push_bit 9 (of_nat (reps - 2 ^ l))) = (l, reps - 2 ^ l)"
      by (rule token_of) (use lm "1.prems"(2,3) in simp_all)
    then have "coded mp (replicate reps 0) (v, out) (v[out := of_nat l + push_bit 9 (of_nat (reps - 2 ^ l))], Suc out)"
      using "1.prems"(1) 2(1) l(1,2) lm l0 by (intro coded_one) (auto simp: vo token_ok_def)
    then show ?thesis using 2 l(3) "1.prems"(1) by (subst put_zero_run.simps) (simp add: vo)
  next
    case 3
    define x :: uint32 where "x = of_nat mp + push_bit 9 (of_nat (2 ^ mp - 1))"
    have p: "(2::nat) ^ mp \<le> 2 ^ 15" by (rule power_increasing) (use "1.prems"(2) in simp_all)
    have tx: "token x = (mp, 2 ^ mp - 1)" unfolding x_def by (rule token_of) (use "1.prems"(2) p in simp_all)
    let ?c = "2 * 2 ^ mp - 1 :: nat"
    have c: "1 \<le> ?c" "?c \<le> reps" "replicate reps (0::nat) = replicate ?c 0 @ replicate (reps - ?c) 0"
      using 3 one_le_power [of "2::nat" mp] by (linarith, linarith, simp add: replicate_add [symmetric])
    have one: "coded mp (replicate ?c 0) (v, out) (v[out := x], Suc out)"
      by (rule coded_one) (use "1.prems"(1) 3(1) c(1) in \<open>simp_all add: vo tx token_ok_def mult_2\<close>)
    have set: "arr_set v out x = Some (v[out := x])" using "1.prems"(1) 3(1) by (simp add: vo)
    have "\<exists>vo'. put_zero_run mp (reps - ?c) (v[out := x], snd vo + 1) = Some vo' \<and>
        coded mp (replicate (reps - ?c) 0) (v[out := x], snd vo + 1) vo'"
      by (rule "1.IH" [of "v[out := x]"]) (use 3 set "1.prems" c in \<open>simp_all add: vo x_def\<close>)
    then obtain vo' where vo': "put_zero_run mp (reps - ?c) (v[out := x], Suc out) = Some vo'"
      "coded mp (replicate (reps - ?c) 0) (v[out := x], Suc out) vo'" by (auto simp: vo)
    have "snd vo' \<le> length (fst vo')" using vo'(2) "1.prems"(1) c by (cases vo') (auto simp: coded_def vo)
    from coded_trans [OF one vo'(2) this] have "coded mp (replicate reps 0) vo vo'" unfolding c(3) vo .
    then show ?thesis using 3 set vo'(1) by (subst put_zero_run.simps) (simp add: vo x_def)
  qed
qed

lemma zeros_at_run:
  assumes "i \<le> n" and "n \<le> length v"
  shows "i + zeros_at v n i \<le> n" and "take (zeros_at v n i) (drop i v) = replicate (zeros_at v n i) 0"
proof -
  define w where "w = takeWhile (\<lambda>x. x = 0) (drop i (take n v))"
  have len: "length w \<le> n - i" using length_takeWhile_le [of "\<lambda>x. x = 0" "drop i (take n v)"] assms by (simp add: w_def)
  then show "i + zeros_at v n i \<le> n" using assms(1) by (simp add: zeros_at_def w_def)
  have "w = take (length w) (drop i (take n v))" unfolding w_def by (rule takeWhile_eq_take)
  also have "\<dots> = take (length w) (drop i v)" using len by (simp add: drop_take)
  finally have "take (length w) (drop i v) = w" by simp
  moreover have "w = replicate (length w) 0" by (rule replicate_length_same [symmetric]) (auto simp: w_def dest: set_takeWhileD)
  ultimately show "take (zeros_at v n i) (drop i v) = replicate (zeros_at v n i) 0" by (simp add: zeros_at_def w_def)
qed

lemma zeros_at_cong: "drop i v = drop i w \<Longrightarrow> zeros_at v n i = zeros_at w n i"
  by (simp add: zeros_at_def drop_take)

lemma code_zeros_spec:
  assumes "coded mp (map unat (take i v0)) (v0, 0) (v, out)" and "i \<le> n" and "n \<le> length v0" and "n < 2 ^ 23"
    and "\<forall>x \<in> set (take n v0). unat x < 256" and "mp < 16"
  shows "\<exists>vo'. code_zeros n mp i (v, out) = Some vo' \<and> coded mp (map unat (take n v0)) (v0, 0) vo'"
  using assms(1,2)
proof (induction "n - i" arbitrary: i v out rule: less_induct)
  case less
  have len: "length v = length v0" "out \<le> i" "drop out v = drop out v0"
    using less.prems assms(3) by (simp_all add: coded_def)
  show ?case
  proof (cases "i < n")
    case False
    then have "i = n" using less.prems by simp
    then show ?thesis using less.prems by (subst code_zeros.simps) simp
  next
    case True
    have same: "drop j v = drop j v0" if "i \<le> j" for j
      using len(2,3) that by (metis drop_drop le_add_diff_inverse2 le_trans)
    define x where "x = v ! i"
    have i: "i < length v" "i < length v0" using True assms(3) len(1) by simp_all
    have x0: "x = v0 ! i" using same [of i] i by (metis hd_drop_conv_nth order_refl x_def)
    have "take n v0 ! i \<in> set (take n v0)" by (rule nth_mem) (use True assms(3) in simp)
    then have x: "unat x < 256" using assms(5) True x0 by simp
    have t: "map unat (take (Suc i) v0) = map unat (take i v0) @ [unat x]" using i(2) by (simp add: take_Suc_conv_app_nth x0)
    show ?thesis
    proof (cases "x = 0")
      case False
      define y where "y = x + of_nat mp"
      have "token (of_nat (unat x + mp) + push_bit 9 (of_nat 0)) = (unat x + mp, 0)"
        by (rule token_of) (use x assms(6) in simp_all)
      then have y: "token y = (unat x + mp, 0)" by (simp add: y_def)
      have "0 < unat x" using False by (simp add: unat_gt_0)
      then have "coded mp [unat x] (v, out) (v[out := y], Suc out)"
        using i(1) len(2) by (intro coded_one) (simp_all add: y token_ok_def)
      from coded_trans [OF less.prems(1) this] i(1) len(2) have
        c: "coded mp (map unat (take (Suc i) v0)) (v0, 0) (v[out := y], Suc out)" by (simp add: t)
      have "n - Suc i < n - i" "Suc i \<le> n" using True by simp_all
      from less.hyps [OF this(1) c this(2)] show ?thesis
        using True False i(1) len(2) by (subst code_zeros.simps) (simp add: y_def flip: x_def)
    next
      case zero: True
      define z where "z = zeros_at v0 n (Suc i)"
      have z: "Suc i + z \<le> n" "take z (drop (Suc i) v0) = replicate z 0"
        using zeros_at_run [of "Suc i" n v0] True assms(3) by (simp_all add: z_def)
      have zv: "zeros_at v n (i + 1) = z" using zeros_at_cong [OF same [of "Suc i"]] by (simp add: z_def)
      have r: "snd (v, out) + Suc z \<le> length (fst (v, out))" "Suc z < 2 ^ 23" using z(1) len(1,2) assms(3,4) by simp_all
      from put_zero_run_spec [OF r(1) assms(6) r(2)] obtain vo' where
        p: "put_zero_run mp (Suc z) (v, out) = Some vo'" "coded mp (replicate (Suc z) 0) (v, out) vo'" by blast
      obtain v' out' where vo': "vo' = (v', out')" by (cases vo')
      have "take (i + Suc z) v0 = take (Suc i) v0 @ take z (drop (Suc i) v0)" using take_add [of "Suc i" z v0] by simp
      then have "map unat (take (i + Suc z) v0) = map unat (take i v0) @ replicate (Suc z) 0"
        using t zero by (simp add: z(2) replicate_app_Cons_same)
      moreover have "snd vo' \<le> length (fst vo')" using p(2) r(1) by (simp add: coded_def vo')
      ultimately have c: "coded mp (map unat (take (i + Suc z) v0)) (v0, 0) (v', out')"
        using coded_trans [OF less.prems(1) p(2)] by (simp add: vo')
      have "n - (i + Suc z) < n - i" "i + Suc z \<le> n" using True z(1) by simp_all
      from less.hyps [OF this(1) c this(2)] show ?thesis
        using True zero i(1) p(1) zv by (subst code_zeros.simps) (simp add: vo' flip: x_def)
    qed
  qed
qed

lemma max_zero_run_le: "n \<le> length v \<Longrightarrow> max_zero_run v n i m \<le> max m n"
proof (induction v n i m rule: max_zero_run.induct)
  case (1 v n i m)
  show ?case
  proof (cases "i < n")
    case True
    define j where "j = i + nonzeros_at v n i"
    have "length (takeWhile (\<lambda>x. x \<noteq> 0) (drop i (take n v))) \<le> n - i"
      using length_takeWhile_le [of "\<lambda>x. x \<noteq> 0" "drop i (take n v)"] 1(2) by simp
    then have "j \<le> n" using True by (simp add: j_def nonzeros_at_def)
    then have z: "zeros_at v n j \<le> n" using zeros_at_run(1) [of j n v] 1(2) by simp
    have "max_zero_run v n (j + zeros_at v n j) (max (zeros_at v n j) m) \<le> max (max (zeros_at v n j) m) n"
      by (rule "1.IH" [of j]) (use True 1(2) in \<open>simp_all add: j_def\<close>)
    moreover have "max_zero_run v n i m = max_zero_run v n (j + zeros_at v n j) (max (zeros_at v n j) m)"
      using True 1(2) by (subst max_zero_run.simps) (simp add: Let_def j_def)
    ultimately show ?thesis using z by simp
  qed (subst max_zero_run.simps, simp)
qed

lemma RunLengthCodeZeros_spec:
  assumes "n \<le> length v" and "n < 2 ^ 23" and "\<forall>x \<in> set (take n v). unat x < 256" and "m < 16"
  shows "\<exists>v' k mp. RunLengthCodeZeros n v m = Some (v', k, mp) \<and> mp \<le> m \<and> k \<le> n \<and> length v' = length v \<and>
    expand mp (map token (take k v')) = map unat (take n v) \<and> list_all (token_ok mp) (map token (take k v'))"
proof -
  define r where "r = max_zero_run v n 0 0"
  define p where "p = (if 0 < r then log2_floor r else 0)"
  have "r \<le> n" using max_zero_run_le [OF assms(1), of 0 0] by (simp add: r_def)
  then have p: "(if r > 0 then Log2FloorNonZero r else Some 0) = Some p"
    using Log2FloorNonZero_some [of r] assms(2) by (simp add: p_def)
  have "coded (min p m) (map unat (take 0 v)) (v, 0) (v, 0)" by (simp add: coded_def)
  moreover have "min p m < 16" using assms(4) by simp
  ultimately obtain vo' where
    c: "code_zeros n (min p m) 0 (v, 0) = Some vo'" "coded (min p m) (map unat (take n v)) (v, 0) vo'"
    using code_zeros_spec [of "min p m" 0 v v 0 n] assms(1-3) by blast
  obtain v' k where vo': "vo' = (v', k)" by (cases vo')
  have "RunLengthCodeZeros n v m = Some (v', k, min p m)"
    using assms(1) p c(1) by (simp add: RunLengthCodeZeros_def Let_def vo' flip: r_def)
  then show ?thesis using c(2) assms(1) by (auto simp: coded_def vo')
qed

end
