(* ===== verification/Context_Map_Roundtrip.thy ===== *)
theory Context_Map_Roundtrip
  imports Enc_Context_Map_Facts Block_Properties
begin

text \<open>
  Context maps from the encoder to the decoder: the codes that \<open>EncodeContextMap\<close> writes after the prefix
  code of a map, and the \<open>DECODE\<close> and \<open>TRANSFORM\<close> states of \<open>DecodeContextMap\<close> that read them.
\<close>

section \<open>The words of the codes\<close>

definition token_bits :: "nat list \<Rightarrow> nat \<Rightarrow> nat \<times> nat \<Rightarrow> bits" where
  "token_bits lens mp = (\<lambda>(c, e). code_bits lens c @ (if 0 < c \<and> c \<le> mp then val_bits c e else []))"

definition map_words :: "nat list \<Rightarrow> nat \<Rightarrow> (nat \<times> nat) list \<Rightarrow> bits" where
  "map_words lens mp ts = concat (map (token_bits lens mp) ts)"

lemma map_words_simps [simp]:
  "map_words lens mp [] = []"
  "map_words lens mp (t # ts) = token_bits lens mp t @ map_words lens mp ts"
  "map_words lens mp (ts @ us) = map_words lens mp ts @ map_words lens mp us"
  by (simp_all add: map_words_def)

lemma store_map_symbol_spec:
  assumes "encodes lens depths bits" and "i < length rle" and "token (rle ! i) = (c, e)" and "has_code lens c"
    and "token_ok mp (c, e)" and "mp \<le> 6" and "room st (21 + m)"
  shows "\<exists>st'. store_map_symbol depths bits mp rle i st = Some st' \<and>
    written st' = written st @ token_bits lens mp (c, e) \<and> room st' m"
proof -
  define x where "x = rle ! i"
  have x: "unat x mod 512 = c" "unat x div 512 = e" using assms(3) by (simp_all add: x_def token_def)
  have sym: "unat (x AND 0x1FF) = c"
  proof -
    have m: "(0x1FF :: uint32) = mask 9" by (simp add: mask_eq_exp_minus_1)
    have "unat (x AND mask 9) = unat x mod 2 ^ 9" by (rule unat_and_mask)
    then show ?thesis unfolding m using x(1) by simp
  qed
  have extra: "ucast (drop_bit 9 x) = (of_nat e :: uint64)"
  proof -
    have d: "unat (drop_bit 9 x) = e" using x(2) by (simp add: unat_drop_bit_div)
    then have "e < 2 ^ 32" using unsigned_less [of "drop_bit 9 x", where ?'a = nat] by simp
    moreover have "drop_bit 9 x = of_nat e" using d by (rule word_of_natI)
    ultimately show ?thesis by (simp add: ucast_of_nat_up)
  qed
  have cc: "complete_code lens" using assms(1) by (simp add: encodes_def)
  have l: "lens ! c \<le> 15" by (rule has_codeD(2) [OF cc assms(4)])
  define k where "k = (if 0 < c \<and> c \<le> mp then c else 0)"
  have "room st (lens ! c + (k + m))" by (rule room_mono [OF assms(7)]) (use l assms(6) in \<open>simp add: k_def\<close>)
  from write_code_spec [OF assms(1,4) this] obtain s1 where
    s1: "write_code depths bits c st = Some s1" "written s1 = written st @ code_bits lens c" "room s1 (k + m)" by blast
  show ?thesis
  proof (cases "0 < c \<and> c \<le> mp")
    case True
    then have e: "e < 2 ^ c" "c \<le> 56" "k = c" using assms(5,6) by (simp_all add: token_ok_def k_def)
    from le64.wr_nat [OF s1(3) [unfolded e(3)] e(2,1)] obtain s2 where
      s2: "BrotliWriteBits c (of_nat e) s1 = Some s2" "written s2 = written s1 @ val_bits c e" "room s2 m" by blast
    then show ?thesis using s1 True assms(2)
      by (simp add: store_map_symbol_def token_bits_def sym extra flip: x_def)
  next
    case False
    then show ?thesis using s1 assms(2)
      by (auto simp: store_map_symbol_def token_bits_def sym k_def simp flip: x_def)
  qed
qed

lemma store_map_spec:
  assumes "encodes lens depths bits" and "k \<le> length rle" and "\<forall>x \<in> set (take k rle). has_code lens (fst (token x))"
    and "list_all (token_ok mp) (map token (take k rle))" and "mp \<le> 6" and "room st (21 * k + m)"
  shows "\<exists>st'. foldM (store_map_symbol depths bits mp rle) [0..<k] st = Some st' \<and>
    written st' = written st @ map_words lens mp (map token (take k rle)) \<and> room st' m"
proof -
  define P where "P i s \<longleftrightarrow> written s = written st @ map_words lens mp (map token (take i rle)) \<and> room s (21 * (k - i) + m)" for i s
  have step: "\<exists>s'. store_map_symbol depths bits mp rle i s = Some s' \<and> P (Suc i) s'" if "i < k" "P i s" for i s
  proof -
    obtain c e where t: "token (rle ! i) = (c, e)" by (cases "token (rle ! i)")
    have i: "i < length rle" "take k rle ! i \<in> set (take k rle)" using that(1) assms(2) by (simp, intro nth_mem, simp)
    then have h: "has_code lens c" "token_ok mp (c, e)"
      using assms(3,4) t that(1) by (auto simp: list_all_iff dest!: bspec)
    have "21 * (k - i) + m = 21 + (21 * (k - Suc i) + m)" using that(1) by linarith
    then have "room s (21 + (21 * (k - Suc i) + m))" using that(2) unfolding P_def by metis
    from store_map_symbol_spec [OF assms(1) i(1) t h assms(5) this] that(2) i(1) show ?thesis
      by (auto simp: P_def take_Suc_conv_app_nth t)
  qed
  have "P 0 st" using assms(6) by (simp add: P_def)
  from foldM_upt [of 0 k P st "store_map_symbol depths bits mp rle"] this step show ?thesis by (auto simp: P_def)
qed

section \<open>The decoder's loop\<close>

lemma zero_run_spec:
  assumes "unat i + unat r \<le> length cmap" and "r \<noteq> 0"
  shows "zero_run cmap i r = Some (take (unat i) cmap @ replicate (unat r) 0 @ drop (unat i + unat r) cmap)"
proof -
  define P where "P k m \<longleftrightarrow> length m = length cmap \<and>
    m = take (unat i) cmap @ replicate (k - unat i) 0 @ drop k cmap" for k m
  have "\<exists>m'. foldM (\<lambda>k cmap. arr_set cmap k 0) [unat i..<unat i + unat r] cmap = Some m' \<and> P (unat i + unat r) m'"
  proof (rule foldM_upt [where P = P])
    show "P (unat i) cmap" by (simp add: P_def)
    fix k m assume k: "unat i \<le> k" "k < unat i + unat r" "P k m"
    then have "k < length cmap" using assms(1) by simp
    then have "m[k := 0] = take (unat i) cmap @ replicate (Suc k - unat i) 0 @ drop (Suc k) cmap"
      using k by (simp add: P_def list_update_append Cons_nth_drop_Suc [symmetric] Suc_diff_le replicate_app_Cons_same)
    then show "\<exists>m'. arr_set m k 0 = Some m' \<and> P (Suc k) m'"
      using k(3) \<open>k < length cmap\<close> unfolding P_def by (metis arr_set_Some length_list_update)
  qed simp
  then show ?thesis using assms(2) by (auto simp: zero_run_def P_def)
qed

lemma dcm_decode_loop_spec:
  assumes "decodes lens 0 (h_context_map_table (d_header s))" and "s_ok s" and "length cmap = n" and "n < 2 ^ 23"
    and "mp \<le> 16" and "\<forall>t \<in> set ts. has_code lens (fst t)" and "list_all (token_ok mp) ts"
    and "i + length (expand mp ts) = n" and "s_bits s = map_words lens mp ts @ rest"
  shows "\<exists>br. dcm_decode_loop (of_nat n) (of_nat mp) (of_nat i) False cmap code s =
      Some (None, take i cmap @ map of_nat (expand mp ts), s\<lparr>d_br := br\<rparr>) \<and> br_ok br \<and> br_bits br = rest"
  using assms
proof (induction ts arbitrary: i cmap code s)
  case Nil
  then show ?case by (intro exI [of _ "d_br s"]) (subst dcm_decode_loop.simps, simp)
next
  case (Cons t ts)
  obtain c e where t: "t = (c, e)" by (cases t)
  have cc: "complete_code lens" "length lens < 2 ^ 16" using Cons.prems(1) by (simp_all add: decodes_def)
  have h: "has_code lens c" "token_ok mp (c, e)" using Cons.prems(6,7) by (simp_all add: t)
  have c: "c < 2 ^ 16" using h(1) cc(2) by (simp add: has_code_def)
  have uc: "unat (of_nat c :: uint32) = c" by (rule unat_of_nat_small) (use c in simp)
  have ump: "unat (of_nat mp :: uint32) = mp" by (rule unat_of_nat_small) (use Cons.prems(5) in simp)
  define xs where "xs = expand mp [(c, e)]"
  have ne: "1 \<le> length xs" by (auto simp: xs_def Suc_le_eq)
  have ex: "expand mp (t # ts) = xs @ expand mp ts" using expand_append [of mp "[(c, e)]" ts] by (simp add: t xs_def)
  have i: "i + length xs \<le> n" "i < n" using Cons.prems(8) ne by (simp_all add: ex)
  have ui: "unat (of_nat i :: uint32) = i" "unat (of_nat n :: uint32) = n"
    by (rule unat_of_nat_small, use i Cons.prems(4) in simp)+
  have lt: "(of_nat i :: uint32) < of_nat n" using i(2) ui by (simp add: word_less_nat_alt)
  have bits: "s_bits s = code_bits lens c @ (if 0 < c \<and> c \<le> mp then val_bits c e else []) @ map_words lens mp ts @ rest"
    using Cons.prems(9) by (simp add: t token_bits_def)
  have dc: "decode_code lens (s_bits s) = Some (c, (if 0 < c \<and> c \<le> mp then val_bits c e else []) @ map_words lens mp ts @ rest)"
    unfolding bits by (rule decode_code_bits [OF cc(1) h(1)])
  from Cons.prems(1,2) obtain b1 where b1: "SafeReadSymbol (h_context_map_table (d_header s)) 0 (d_br s) = Some (Some (of_nat c), b1)"
    "br_ok b1" "br_bits b1 = (if 0 < c \<and> c \<le> mp then val_bits c e else []) @ map_words lens mp ts @ rest"
    by (cases rule: decodes_cases) (use dc in auto)
  have more: "\<exists>br. dcm_decode_loop (of_nat n) (of_nat mp) (of_nat (i + length xs)) False cmap' code' (s\<lparr>d_br := b\<rparr>) =
      Some (None, take i cmap @ map of_nat (expand mp (t # ts)), s\<lparr>d_br := br\<rparr>) \<and> br_ok br \<and> br_bits br = rest"
    if "cmap' = take i cmap @ map of_nat xs @ drop (i + length xs) cmap" "br_ok b" "br_bits b = map_words lens mp ts @ rest"
    for cmap' code' b
  proof -
    have "length cmap' = n" "take (i + length xs) cmap' = take i cmap @ map of_nat xs"
      using that(1) Cons.prems(3) i(1) by simp_all
    moreover have "i + length xs + length (expand mp ts) = n" using Cons.prems(8) by (simp add: ex)
    ultimately show ?thesis
      using Cons.IH [of "s\<lparr>d_br := b\<rparr>" cmap' "i + length xs" code'] Cons.prems that(2,3) by (simp add: ex)
  qed
  have u: "(of_nat c :: uint32) = 0 \<longleftrightarrow> c = 0" "(of_nat c :: uint32) \<le> of_nat mp \<longleftrightarrow> c \<le> mp"
    using uc ump by (simp_all add: word_le_nat_alt word_unat_eq_iff)
  consider "c = 0" | "mp < c" | "0 < c" "c \<le> mp" by linarith
  then show ?case
  proof cases
    case 1
    have x: "xs = [0]" by (simp add: xs_def 1)
    have "cmap[i := 0] = take i cmap @ map of_nat xs @ drop (i + length xs) cmap"
      using i(2) Cons.prems(3) by (simp add: x upd_conv_take_nth_drop)
    from more [OF this b1(2), of "of_nat c"] b1(3) 1 show ?thesis
      using lt b1(1) i(2) Cons.prems(3) ui(1) by (subst dcm_decode_loop.simps) (simp add: x add.commute)
  next
    case 2
    have x: "xs = [c - mp]" using 2 by (simp add: xs_def)
    have "(of_nat c - of_nat mp :: uint32) = of_nat (c - mp)" using 2 by (simp add: of_nat_diff)
    then have v: "(ucast (of_nat c - of_nat mp :: uint32) :: uint8) = of_nat (c - mp)" by (simp add: ucast_of_nat_down)
    have "cmap[i := of_nat (c - mp)] = take i cmap @ map of_nat xs @ drop (i + length xs) cmap"
      using i(2) Cons.prems(3) by (simp add: x upd_conv_take_nth_drop)
    from more [OF this b1(2), of "of_nat c"] b1(3) 2 show ?thesis
      using lt b1(1) i(2) Cons.prems(3) ui(1) u v by (subst dcm_decode_loop.simps) (simp add: x add.commute not_le)
  next
    case 3
    have e: "e < 2 ^ c" using h(2) 3 by (simp add: token_ok_def)
    have x: "xs = replicate (2 ^ c + e) 0" using 3 by (simp add: xs_def)
    define s1 where "s1 = s\<lparr>d_br := b1\<rparr>"
    have s1: "s_ok s1" "s_bits s1 = val_bits c e @ map_words lens mp ts @ rest" using b1(2,3) 3 by (simp_all add: s1_def)
    have n32: "0 < (of_nat c :: uint32) \<and> (of_nat c :: uint32) \<le> 32"
      using 3 uc Cons.prems(5) by (simp add: word_less_nat_alt word_le_nat_alt)
    from s1(1) n32 obtain v b2 where r: "s_read s1 (of_nat c) = Some (Some v, s\<lparr>d_br := b2\<rparr>)" "br_ok b2" "unat v = e"
      "br_bits b2 = map_words lens mp ts @ rest"
      by (cases rule: s_read_cases) (use uc e s1(2) in \<open>auto simp: s1_def\<close>)
    have p: "(2::nat) ^ c \<le> 2 ^ 16" by (rule power_increasing) (use 3 Cons.prems(5) in simp_all)
    define w :: uint32 where "w = v + 2 ^ c"
    have "w = of_nat (2 ^ c + e)" unfolding w_def r(3) [symmetric] by simp
    moreover have "unat (of_nat (2 ^ c + e) :: uint32) = 2 ^ c + e" by (rule unat_of_nat_small) (use p e in simp)
    ultimately have w: "w = of_nat (2 ^ c + e)" "unat w = 2 ^ c + e" by simp_all
    have sh: "shl32 1 (of_nat c :: uint32) = Some (2 ^ c)"
      using uc 3 Cons.prems(5) by (simp add: shl32_def push_bit_eq_mult word_less_nat_alt)
    have iw: "of_nat i + w = of_nat (i + length xs)" by (simp add: w(1) x)
    have "unat (of_nat (i + length xs) :: uint32) = i + length xs"
      by (rule unat_of_nat_small) (use i(1) Cons.prems(4) in simp)
    then have fit: "\<not> of_nat n < of_nat i + w" unfolding iw using i(1) ui(2) by (simp add: word_less_nat_alt)
    have "w \<noteq> 0" using w(2) by auto
    then have z: "zero_run cmap (of_nat i) w = Some (take i cmap @ map of_nat xs @ drop (i + length xs) cmap)"
      using zero_run_spec [of "of_nat i" w cmap] i(1) Cons.prems(3) ui(1) w(2) by (simp add: x)
    have nl: "\<not> (of_nat mp :: uint32) < of_nat c" using u(2) 3 by (simp add: not_less)
    have "dcm_decode_loop (of_nat n) (of_nat mp) (of_nat i) False cmap code s =
      dcm_decode_loop (of_nat n) (of_nat mp) (of_nat (i + length xs)) False
        (take i cmap @ map of_nat xs @ drop (i + length xs) cmap) (of_nat c) (s\<lparr>d_br := b2\<rparr>)"
      using lt b1(1) 3 u nl r(1) sh fit z iw
      by (subst dcm_decode_loop.simps) (simp add: s1_def not_le flip: w_def)
    then show ?thesis using more [OF refl r(2,4)] by simp
  qed
qed

section \<open>Properties\<close>

text \<open>C24: The two transforms of a context map lose nothing.  For every map of values below \<open>m \<le> 256\<close>, the
  move-to-front transform and the coding of zero runs return; the codes, at most as many as the map
  has entries, expand to the transformed map, with extra bits that fit their code, and the inverse
  transform of \<open>RFC 7932\<close>, section 7.3, makes the map of it.\<close>

theorem context_map_coding_lossless:
  assumes "n = length v" and "n < 2 ^ 23" and "\<forall>x \<in> set v. unat x < m" and "m \<le> 256"
  shows "\<exists>mtf rle k mp. MoveToFrontTransform v n (replicate n 0) = Some mtf \<and>
    RunLengthCodeZeros n mtf 6 = Some (rle, k, mp) \<and> mp \<le> 6 \<and> k \<le> n \<and> list_all (token_ok mp) (map token (take k rle)) \<and>
    imtf identity_table (map of_nat (expand mp (map token (take k rle)))) = map ucast v"
proof -
  obtain mtf where mtf: "MoveToFrontTransform v n (replicate n 0) = Some mtf" "length mtf = n"
    "\<forall>x \<in> set (take n mtf). unat x < m" "imtf identity_table (map ucast (take n mtf)) = map ucast v"
    using MoveToFrontTransform_spec [OF assms(1) _ assms(3,4), of "replicate n 0"] by auto
  have "\<forall>x \<in> set (take n mtf). unat x < 256" using mtf(3) assms(4) by force
  with RunLengthCodeZeros_spec [of n mtf 6] mtf(2) assms(2) obtain rle k mp where
    r: "RunLengthCodeZeros n mtf 6 = Some (rle, k, mp)" "mp \<le> 6" "k \<le> n"
    "expand mp (map token (take k rle)) = map unat (take n mtf)" "list_all (token_ok mp) (map token (take k rle))" by auto
  have "map of_nat (expand mp (map token (take k rle))) = (map ucast (take n mtf) :: uint8 list)"
    by (simp add: r(4))
  then have "imtf identity_table (map of_nat (expand mp (map token (take k rle)))) = map ucast v"
    using mtf(4) by (simp only:)
  then show ?thesis using mtf(1) r(1-3,5) by blast
qed

lemma context_map_coding_lossless_witness:
  "\<exists>mtf rle k mp. MoveToFrontTransform [0, 0, 0, 0, 1] 5 (replicate 5 0) = Some mtf \<and>
    RunLengthCodeZeros 5 mtf 6 = Some (rle, k, mp) \<and> mp \<le> 6 \<and> k \<le> 5 \<and> list_all (token_ok mp) (map token (take k rle)) \<and>
    imtf identity_table (map of_nat (expand mp (map token (take k rle)))) = map ucast [0, 0, 0, 0, 1 :: uint32]"
  by (rule context_map_coding_lossless [where m = 2]) simp_all

text \<open>C8: Context maps round-trip.  When the code words of a complete code are at hand and cover the codes of a
  map, the codes are written by \<open>store_map_symbol\<close> one after the other, followed by the bit that
  asks for the inverse transform, and \<open>DecodeContextMap\<close>, in its state \<open>DECODE\<close> with a table of the same code, restores
  the map in one go, reports success and leaves the rest of the stream.\<close>

theorem context_map_roundtrip:
  assumes "n = length v" and "n < 2 ^ 23" and "\<forall>x \<in> set v. unat x < m" and "m \<le> 256"
    and "MoveToFrontTransform v n (replicate n 0) = Some mtf" and "RunLengthCodeZeros n mtf 6 = Some (rle, k, mp)"
    and "encodes lens depths bits" and "\<forall>x \<in> set (take k rle). has_code lens (fst (token x))"
    and "room st (21 * k + (1 + r))"
    and "decodes lens 0 (h_context_map_table (d_header s))" and "s_ok s" and "mtf_ok s" and "length cmap = n"
    and "h_max_run_length_prefix (d_header s) = of_nat mp" and "h_context_index (d_header s) = 0" and "h_code (d_header s) = 0xFFFF"
    and "h_substate_context_map (d_header s) = BROTLI_STATE_CONTEXT_MAP_DECODE"
    and "s_bits s = map_words lens mp (map token (take k rle)) @ [True] @ rest"
  shows "\<exists>st1 st2 s'. foldM (store_map_symbol depths bits mp rle) [0..<k] st = Some st1 \<and> BrotliWriteBits 1 1 st1 = Some st2 \<and>
    written st2 = written st @ map_words lens mp (map token (take k rle)) @ [True] \<and> room st2 r \<and>
    DecodeContextMap (of_nat n) num_trees (Some cmap) s = Some (BROTLI_DECODER_SUCCESS, num_trees, Some (map ucast v), s') \<and>
    s_bits s' = rest \<and> mtf_ok s'"
proof -
  let ?ts = "map token (take k rle)"
  have mtf: "length mtf = n" "\<forall>x \<in> set (take n mtf). unat x < m" "imtf identity_table (map ucast (take n mtf)) = map ucast v"
    using MoveToFrontTransform_spec [OF assms(1) _ assms(3,4), of "replicate n 0"] assms(5) by auto
  have "\<forall>x \<in> set (take n mtf). unat x < 256" using mtf(2) assms(4) by force
  with RunLengthCodeZeros_spec [of n mtf 6] mtf(1) assms(2,6) have rle: "mp \<le> 6" "k \<le> n" "length rle = n"
    "expand mp ?ts = map unat (take n mtf)" "list_all (token_ok mp) ?ts" by auto
  have "k \<le> length rle" using rle(2,3) by simp
  from store_map_spec [OF assms(7) this assms(8) rle(5,1) assms(9)] obtain st1 where
    st1: "foldM (store_map_symbol depths bits mp rle) [0..<k] st = Some st1" "written st1 = written st @ map_words lens mp ?ts"
    "room st1 (1 + r)" by blast
  from le64.wr_nat [OF st1(3), of 1] obtain st2 where
    st2: "BrotliWriteBits 1 1 st1 = Some st2" "written st2 = written st1 @ [True]" "room st2 r"
    by (auto simp: val_bits_one)
  have "\<forall>t \<in> set ?ts. has_code lens (fst t)" using assms(8) by simp
  moreover have "0 + length (expand mp ?ts) = n" using rle(4) mtf(1) by simp
  moreover have "mp \<le> 16" using rle(1) by simp
  ultimately obtain br where br: "dcm_decode_loop (of_nat n) (of_nat mp) 0 False cmap 0xFFFF s =
      Some (None, map of_nat (expand mp ?ts), s\<lparr>d_br := br\<rparr>)" "br_ok br" "br_bits br = [True] @ rest"
    using dcm_decode_loop_spec [OF assms(10,11,13,2) _ _ rle(5), of 0 "[True] @ rest" "0xFFFF"] assms(18) by auto
  define s1 where "s1 = s\<lparr>d_br := br\<rparr>"
  have s1: "s_ok s1" "s_bits s1 = [True] @ rest" "mtf_ok s1" using br(2,3) assms(12) by (simp_all add: s1_def mtf_ok_def)
  from s1(1) obtain w b2 where r: "s_read s1 1 = Some (Some w, s1\<lparr>d_br := b2\<rparr>)" "br_ok b2" "br_bits b2 = rest" "w \<noteq> 0"
    by (cases rule: s_read_bit) (use s1(2) in auto)
  define s2 where "s2 = s1\<lparr>d_br := b2\<rparr>"
  have un: "unat (of_nat n :: uint32) = n" by (rule unat_of_nat_small) (use assms(2) in simp)
  let ?xs = "map ucast (take n mtf) :: uint8 list"
  have xs: "map of_nat (expand mp ?ts) = ?xs" by (simp add: rle(4))
  have "mtf_ok s2" "n \<le> length ?xs" using s1(3) mtf(1) by (simp_all add: s2_def mtf_ok_def)
  from InverseMoveToFrontTransform_spec [OF this] obtain s3 a b where
    s3: "InverseMoveToFrontTransform ?xs n s2 = Some (imtf identity_table (take n ?xs) @ drop n ?xs, s3)"
    "s3 = s2\<lparr>d_mtf := a, d_mtf_upper_bound := b\<rparr>" "mtf_ok s3" by blast
  have "DecodeContextMap (of_nat n) num_trees (Some cmap) s =
      Some (BROTLI_DECODER_SUCCESS, num_trees, Some (map ucast v), h_upd (\<lambda>h. h\<lparr>h_substate_context_map := BROTLI_STATE_CONTEXT_MAP_NONE\<rparr>) s3)"
    using br(1) r(1,4) s3(1) assms(14-17)
    by (simp add: DecodeContextMap_def dcm_decode_def dcm_transform_def un xs mtf(3) flip: s1_def s2_def)
  moreover have "s_bits (h_upd (\<lambda>h. h\<lparr>h_substate_context_map := BROTLI_STATE_CONTEXT_MAP_NONE\<rparr>) s3) = rest"
    "mtf_ok (h_upd (\<lambda>h. h\<lparr>h_substate_context_map := BROTLI_STATE_CONTEXT_MAP_NONE\<rparr>) s3)"
    using r(3) s3(2,3) by (simp_all add: s2_def mtf_ok_def)
  ultimately show ?thesis using st1(1,2) st2 by (intro exI conjI) (assumption | simp)+
qed

text \<open>Four zeros and a one: a run with the code 2, and the value 1 with the code 3.\<close>

definition map_sample :: "HuffmanCode list \<Rightarrow> BrotliDecoderState" where
  "map_sample t = h_upd (\<lambda>h. h\<lparr>h_context_map_table := t, h_max_run_length_prefix := 2, h_context_index := 0, h_code := 0xFFFF,
     h_substate_context_map := BROTLI_STATE_CONTEXT_MAP_DECODE\<rparr>) (with_input [0x43])"

lemma map_sample_coded:
  "MoveToFrontTransform [0, 0, 0, 0, 1] 5 (replicate 5 0) = Some [0, 0, 0, 0, 1]"
  "RunLengthCodeZeros 5 [0, 0, 0, 0, 1] 6 = Some ([2, 3, 0, 0, 1], 2, 2)"
proof -
  show "MoveToFrontTransform [0, 0, 0, 0, 1] 5 (replicate 5 0) = Some [0, 0, 0, 0, 1]"
    by (simp add: MoveToFrontTransform_def upt_rec mtf_encode_step_def MoveToFront_def numeral_eq_Suc)
  show "RunLengthCodeZeros 5 [0, 0, 0, 0, 1] 6 = Some ([2, 3, 0, 0, 1], 2, 2)"
    by (simp add: RunLengthCodeZeros_def max_zero_run.simps code_zeros.simps put_zero_run.simps zeros_at_def nonzeros_at_def
        Log2FloorNonZero_def log2_floor.simps)
qed

lemma map_sample_words:
  "map token (take 2 [2, 3, 0, 0, 1]) = [(2, 0), (3, 0)]"
  "bytes_bits [0x43] = map_words sample_lens 2 [(2, 0), (3, 0)] @ [True] @ [False]"
proof -
  show "map token (take 2 [2, 3, 0, 0, 1]) = [(2, 0), (3, 0)]" by (simp add: token_def)
  have "val_bits 2 0 = [False, False]" "bytes_bits [0x43] = [True, True, False, False, False, False, True, False]" by code_simp+
  then show "bytes_bits [0x43] = map_words sample_lens 2 [(2, 0), (3, 0)] @ [True] @ [False]"
    by (simp add: token_bits_def sample_words)
qed

lemma with_input_mtf: "d_mtf (with_input bs) = d_mtf sample_state" "d_mtf_upper_bound (with_input bs) = d_mtf_upper_bound sample_state"
  by (simp_all add: with_input_def)

lemma sample_encodes: "\<exists>bits. encodes sample_lens (map of_nat sample_lens) bits"
proof -
  have l: "length sample_lens = 11" "map unat (take 11 (map of_nat sample_lens :: uint8 list)) = sample_lens"
    by (simp_all add: sample_lens_def)
  then obtain bits where "BrotliConvertBitDepthsToSymbols (map of_nat sample_lens) 11 (replicate 11 0) = Some bits"
    using BrotliConvertBitDepthsToSymbols_spec [OF _ _ sample_code, of 11 "map of_nat sample_lens" "replicate 11 0"] by auto
  with l have "encodes sample_lens (map of_nat sample_lens) bits" by (intro encodes_convert [OF _ _ sample_code]) simp_all
  then show ?thesis ..
qed

lemma context_map_roundtrip_witness:
  "\<exists>bits t st1 st2 s'. foldM (store_map_symbol (map of_nat sample_lens) bits 2 [2, 3, 0, 0, 1]) [0..<2] \<lparr>storage_ix = 3, storage = replicate 40 0\<rparr> = Some st1 \<and>
    BrotliWriteBits 1 1 st1 = Some st2 \<and>
    written st2 = written \<lparr>storage_ix = 3, storage = replicate 40 0\<rparr> @ map_words sample_lens 2 [(2, 0), (3, 0)] @ [True] \<and> room st2 20 \<and>
    DecodeContextMap 5 2 (Some [9, 9, 9, 9, 9]) (map_sample t) = Some (BROTLI_DECODER_SUCCESS, 2, Some [0, 0, 0, 0, 1], s') \<and>
    s_bits s' = [False] \<and> mtf_ok s'"
proof -
  obtain t where t: "decodes sample_lens 0 t" using sample_tables by blast
  obtain bits where e: "encodes sample_lens (map of_nat sample_lens) bits" using sample_encodes by blast
  note w = map_sample_words
  have h: "\<forall>x \<in> set (take 2 [2, 3, 0, 0, 1]). has_code sample_lens (fst (token x))"
    using sample_has_code [of 2] sample_has_code [of 3] by (simp add: token_def)
  have room: "room \<lparr>storage_ix = 3, storage = replicate 40 0\<rparr> (21 * 2 + (1 + 20))"
    by (simp add: room_def storage_ok_def nth_append)
  have s: "decodes sample_lens 0 (h_context_map_table (d_header (map_sample t)))" "s_ok (map_sample t)" "mtf_ok (map_sample t)"
    "h_max_run_length_prefix (d_header (map_sample t)) = of_nat 2" "h_context_index (d_header (map_sample t)) = 0"
    "h_code (d_header (map_sample t)) = 0xFFFF"
    "h_substate_context_map (d_header (map_sample t)) = BROTLI_STATE_CONTEXT_MAP_DECODE"
    "s_bits (map_sample t) = bytes_bits [0x43]"
    using t with_input_ok [of "0x43" "[]"] with_input_bits [of "0x43" "[]"] sample_mtf_ok with_input_mtf [of "[0x43]"]
    by (simp_all add: map_sample_def mtf_ok_def)
  have small: "\<forall>x \<in> set [0, 0, 0, 0, 1 :: uint32]. unat x < 2" by simp
  have "\<exists>st1 st2 s'. foldM (store_map_symbol (map of_nat sample_lens) bits 2 [2, 3, 0, 0, 1]) [0..<2] \<lparr>storage_ix = 3, storage = replicate 40 0\<rparr> = Some st1 \<and>
    BrotliWriteBits 1 1 st1 = Some st2 \<and>
    written st2 = written \<lparr>storage_ix = 3, storage = replicate 40 0\<rparr> @ map_words sample_lens 2 (map token (take 2 [2, 3, 0, 0, 1])) @ [True] \<and> room st2 20 \<and>
    DecodeContextMap (of_nat 5) 2 (Some [9, 9, 9, 9, 9]) (map_sample t) = Some (BROTLI_DECODER_SUCCESS, 2, Some (map ucast [0, 0, 0, 0, 1 :: uint32]), s') \<and>
    s_bits s' = [False] \<and> mtf_ok s'"
    by (rule context_map_roundtrip [OF _ _ small _ map_sample_coded e h room s(1-3) _ s(4-7)])
      (unfold s(8) w(1), simp, simp, simp, simp, rule w(2))
  then show ?thesis unfolding w(1) by (simp only: of_nat_numeral list.map unsigned_0 unsigned_1) blast
qed

end
