(* ===== verification/Enc_Length_Facts.thy ===== *)
theory Enc_Length_Facts
  imports Entropy_Encode Code_Length_Facts
begin

text \<open>
  The run-length form of code lengths: \<open>BrotliWriteHuffmanTree\<close> of \<^verbatim>\<open>enc/entropy_encode.c\<close> against the rules by
  which a decoder expands it.  \<open>len_step\<close> is the rule of RFC 7932, section 3.5, for one code: a length by
  itself, code 16 for the last non-zero length again, code 17 for zeros; a repeat right after a
  repeat of the same length multiplies the count.
\<close>

section \<open>The rule\<close>

type_synonym len_state = "nat list \<times> nat \<times> nat \<times> nat"

text \<open>The lengths so far, the last non-zero one, the count of the repeat and its length.\<close>

fun len_step :: "nat \<times> nat \<Rightarrow> len_state \<Rightarrow> len_state" where
  "len_step (code, x) (ls, prev, rep, rl) =
     (if code < 16 then (ls @ [code], if code = 0 then prev else code, 0, rl)
      else (let nl = (if code = 16 then prev else 0);
                e = (if code = 16 then 2 else 3);
                r = (if rl \<noteq> nl then 0 else rep);
                R = repeat_to e x r
            in (ls @ replicate (R - r) nl, prev, R, nl)))"

declare len_step.simps [simp del]

lemma single_step: "v < 16 \<Longrightarrow> len_step (v, x) (ls, prev, rep, rl) = (ls @ [v], if v = 0 then prev else v, 0, rl)"
  by (simp add: len_step.simps)

lemma single_steps:
  "v < 16 \<Longrightarrow> fold len_step (replicate n (v, 0)) (ls, prev, rep, rl) =
    (ls @ replicate n v, if v = 0 \<or> n = 0 then prev else v, if n = 0 then rep else 0, rl)"
proof (induction n arbitrary: ls prev rep)
  case (Suc n)
  then show ?case by (cases "v = 0") (simp_all add: single_step replicate_app_Cons_same)
qed simp

text \<open>The digits of a count, the last one first.\<close>

function digits :: "nat \<Rightarrow> nat \<Rightarrow> nat list" where
  "digits w n = n mod 2 ^ w # (if n div 2 ^ w = 0 then [] else digits w (n div 2 ^ w - 1))"
  by pat_completeness auto
termination
proof (relation "measure snd")
  fix w n :: nat
  assume "n div 2 ^ w \<noteq> 0"
  moreover have "n div 2 ^ w \<le> n" by (rule div_le_dividend)
  ultimately have "n div 2 ^ w - 1 < n" by linarith
  then show "((w, n div 2 ^ w - 1), w, n) \<in> measure snd" by simp
qed simp

declare digits.simps [simp del]

lemma length_digits: "length (digits w n) \<le> n + 1"
proof (induction w n rule: digits.induct)
  case (1 w n)
  show ?case using 1 by (subst digits.simps) (auto intro: order_trans [OF _ div_le_dividend])
qed

lemma digits_small: "0 < w \<Longrightarrow> d \<in> set (digits w n) \<Longrightarrow> d < 2 ^ w"
proof (induction w n rule: digits.induct)
  case (1 w n)
  then show ?case by (subst (asm) (2) digits.simps) (auto split: if_splits)
qed

lemma repeat_steps:
  assumes "code = 16 \<and> w = 2 \<and> nl = prev \<or> code = 17 \<and> w = 3 \<and> nl = 0" and "rep = 0 \<or> rl \<noteq> nl"
  shows "fold len_step (map (Pair code) (rev (digits w n))) (ls, prev, rep, rl) = (ls @ replicate (n + 3) nl, prev, n + 3, nl)"
  using assms(1)
proof (induction w n rule: digits.induct)
  case (1 w n)
  define d where "d = n mod 2 ^ w"
  define q where "q = n div 2 ^ w"
  have n: "n = q * 2 ^ w + d" unfolding q_def d_def by (rule div_mult_mod_eq [symmetric])
  have one: "len_step (code, x) (ls', prev, rep', rl') = (ls' @ replicate (repeat_to w x (if rl' \<noteq> nl then 0 else rep') -
      (if rl' \<noteq> nl then 0 else rep')) nl, prev, repeat_to w x (if rl' \<noteq> nl then 0 else rep'), nl)" for x ls' rep' rl'
    using 1(2) by (auto simp: len_step.simps Let_def)
  show ?case
  proof (cases "q = 0")
    case True
    then have "digits w n = [d]" by (subst digits.simps) (simp add: d_def q_def)
    then show ?thesis using assms(2) True n by (auto simp: one repeat_to_def)
  next
    case False
    then have dg: "digits w n = d # digits w (q - 1)" by (subst digits.simps) (simp add: d_def q_def)
    have "fold len_step (map (Pair code) (rev (digits w (q - 1)))) (ls, prev, rep, rl) =
        (ls @ replicate (q - 1 + 3) nl, prev, q - 1 + 3, nl)"
      using "1.IH" 1(2) False by (simp add: q_def)
    moreover have r: "repeat_to w d (q - 1 + 3) = n + 3" "q - 1 + 3 \<le> n + 3"
    proof -
      have "q \<le> n" unfolding q_def by (rule div_le_dividend)
      then show "q - 1 + 3 \<le> n + 3" by linarith
      show "repeat_to w d (q - 1 + 3) = n + 3" using False n by (simp add: repeat_to_def)
    qed
    moreover have "replicate (q - 1 + 3) nl @ replicate (n + 3 - (q - 1 + 3)) nl = replicate (n + 3) nl"
      unfolding replicate_add [symmetric] using r(2) by simp
    ultimately show ?thesis by (simp only: dg rev.simps map_append list.map fold_append fold.simps one comp_apply id_apply
        append_assoc if_False simp_thms)
  qed
qed

section \<open>The buffer\<close>

definition rle_tokens :: "rle_buffer \<Rightarrow> (nat \<times> nat) list" where
  "rle_tokens b = zip (map unat (take (rle_size b) (rle_tree b))) (map unat (take (rle_size b) (rle_extra b)))"

text \<open>\<open>b'\<close> is \<open>b\<close> with the codes \<open>ts\<close> appended, in arrays of the same lengths.\<close>

definition emits :: "(nat \<times> nat) list \<Rightarrow> rle_buffer \<Rightarrow> rle_buffer \<Rightarrow> bool" where
  "emits ts b b' \<longleftrightarrow> rle_tokens b' = rle_tokens b @ ts \<and> rle_size b' = rle_size b + length ts \<and>
     length (rle_tree b') = length (rle_tree b) \<and> length (rle_extra b') = length (rle_extra b) \<and>
     take (rle_size b) (rle_tree b') = take (rle_size b) (rle_tree b) \<and>
     take (rle_size b) (rle_extra b') = take (rle_size b) (rle_extra b)"

definition rle_room :: "nat \<Rightarrow> rle_buffer \<Rightarrow> bool" where
  "rle_room n b \<longleftrightarrow> rle_size b + n \<le> length (rle_tree b) \<and> rle_size b + n \<le> length (rle_extra b)"

lemma emits_refl: "emits [] b b"
  by (simp add: emits_def)

lemma take_take_less: "take m xs = take m ys \<Longrightarrow> k \<le> m \<Longrightarrow> take k xs = take k ys"
  by (metis min.absorb1 take_take)

lemma emits_trans: "emits ts a b \<Longrightarrow> emits us b c \<Longrightarrow> emits (ts @ us) a c"
  unfolding emits_def by (auto intro: take_take_less [THEN trans])

lemma emits_room: "emits ts b b' \<Longrightarrow> rle_room (length ts + n) b \<Longrightarrow> rle_room n b'"
  by (simp add: emits_def rle_room_def add.assoc)

lemma rle_room_mono: "rle_room n b \<Longrightarrow> k \<le> n \<Longrightarrow> rle_room k b"
  by (simp add: rle_room_def)

lemma rle_put_spec:
  assumes "rle_room 1 b"
  shows "\<exists>b'. rle_put code extra b = Some b' \<and> emits [(unat code, unat extra)] b b'"
  using assms by (simp add: rle_put_def emits_def rle_room_def rle_tokens_def take_Suc_conv_app_nth)

lemma rle_repeat_spec: "rle_room n b \<Longrightarrow> \<exists>b'. rle_repeat n v b = Some b' \<and> emits (replicate n (unat v, 0)) b b'"
proof (induction n arbitrary: b)
  case (Suc n)
  obtain b1 where b1: "rle_put v 0 b = Some b1" "emits [(unat v, 0)] b b1"
    using rle_put_spec [of b v 0] rle_room_mono [OF Suc.prems] by auto
  have "rle_room n b1" using emits_room [OF b1(2)] Suc.prems by simp
  from Suc.IH [OF this] obtain b2 where "rle_repeat n v b1 = Some b2" "emits (replicate n (unat v, 0)) b1 b2" by blast
  then show ?case using b1 emits_trans [OF b1(2)] by auto
qed (simp add: emits_refl)

lemma rle_digits_spec:
  assumes "rle_room (length (digits w n)) b" and "0 < w" and "w \<le> 8"
  shows "\<exists>b'. rle_digits w code n b = Some b' \<and> emits (map (Pair (unat code)) (digits w n)) b b'"
  using assms
proof (induction w n arbitrary: b rule: digits.induct)
  case (1 w n)
  have "(2::nat) ^ w \<le> 2 ^ 8" by (rule power_increasing) (use 1(4) in simp_all)
  then have "n mod 2 ^ w < 2 ^ 8" by (metis less_le_trans mod_less_divisor zero_less_numeral zero_less_power)
  then have x: "unat (of_nat (take_bit w n) :: uint8) = n mod 2 ^ w"
    unfolding take_bit_eq_mod by (intro unat_of_nat_small) simp
  have "rle_room 1 b" using rle_room_mono [OF 1(2)] by (subst (asm) digits.simps) simp
  from rle_put_spec [OF this, of code "of_nat (take_bit w n)"] obtain b1 where
    b1: "rle_put code (of_nat (take_bit w n)) b = Some b1" "emits [(unat code, n mod 2 ^ w)] b b1" unfolding x by blast
  show ?case
  proof (cases "n div 2 ^ w = 0")
    case True
    then have "digits w n = [n mod 2 ^ w]" by (subst digits.simps) simp
    then show ?thesis using True b1 by (subst rle_digits.simps) (simp add: drop_bit_eq_div)
  next
    case False
    then have dg: "digits w n = n mod 2 ^ w # digits w (n div 2 ^ w - 1)" by (subst digits.simps) simp
    have "rle_room (length (digits w (n div 2 ^ w - 1))) b1" using emits_room [OF b1(2)] 1(2) by (simp add: dg)
    from "1.IH" [OF False this 1(3,4)] obtain b2 where
      b2: "rle_digits w code (n div 2 ^ w - 1) b1 = Some b2"
      "emits (map (Pair (unat code)) (digits w (n div 2 ^ w - 1))) b1 b2" by blast
    have "rle_digits w code n b = Some b2" using False b1(1) b2(1) by (subst rle_digits.simps) (simp add: drop_bit_eq_div)
    then show ?thesis using emits_trans [OF b1(2) b2(2)] by (simp add: dg)
  qed
qed

lemma reverse_loop_spec:
  assumes "start \<le> Suc fin" and "fin < length v"
  shows "reverse_loop v start fin = Some (take start v @ rev (drop start (take (Suc fin) v)) @ drop (Suc fin) v)"
  using assms
proof (induction v start fin rule: reverse_loop.induct)
  case (1 v s f)
  show ?case
  proof (cases "s < f")
    case False
    then consider "s = f" | "s = Suc f" using 1(2) by linarith
    then show ?thesis
    proof cases
      case 1
      then show ?thesis using "1.prems"(2) by (subst reverse_loop.simps) (simp add: take_Suc_conv_app_nth Cons_nth_drop_Suc id_take_nth_drop [symmetric])
    next
      case 2
      then show ?thesis by (subst reverse_loop.simps) simp
    qed
  next
    case True
    define w where "w = v[s := v ! f, f := v ! s]"
    obtain g where g: "f = Suc g" "s \<le> g" using True by (cases f) auto
    have "reverse_loop v s f = reverse_loop w (s + 1) (f - 1)"
      using True 1(3) by (subst reverse_loop.simps) (simp add: w_def)
    also have "\<dots> = Some (take (s + 1) w @ rev (drop (s + 1) (take (Suc (f - 1)) w)) @ drop (Suc (f - 1)) w)"
      by (rule "1.IH" [of "v ! s" "v ! f" "v[s := v ! f]"]) (use True 1(3) in \<open>simp_all add: w_def\<close>)
    also have "take (s + 1) w = take s v @ [v ! f]"
      using True 1(3) by (simp add: w_def take_Suc_conv_app_nth)
    also have "drop (Suc (f - 1)) w = v ! s # drop (Suc f) v"
      using True 1(3) by (simp add: w_def Cons_nth_drop_Suc [symmetric] drop_update_cancel)
    also have "drop (s + 1) (take (Suc (f - 1)) w) = drop (s + 1) (take f v)"
      using True 1(3) by (intro nth_equalityI) (simp_all add: w_def)
    also have "(take s v @ [v ! f]) @ rev (drop (s + 1) (take f v)) @ v ! s # drop (Suc f) v =
        take s v @ rev (drop s (take (Suc f) v)) @ drop (Suc f) v"
      using True 1(3) by (simp add: take_Suc_conv_app_nth Cons_nth_drop_Suc [of s "take f v", symmetric])
    finally show ?thesis .
  qed
qed

lemma Reverse_spec:
  assumes "start \<le> fin" and "0 < fin" and "fin \<le> length v"
  shows "Reverse v start fin = Some (take start v @ rev (drop start (take fin v)) @ drop fin v)"
  using reverse_loop_spec [of start "fin - 1" v] assms by (simp add: Reverse_def)

section \<open>Runs\<close>

text \<open>Reversing the codes just appended.\<close>

lemma emits_reverse:
  assumes "emits (map (Pair (unat code)) ds) b b'" and "ds \<noteq> []" and "rle_room (length ds) b"
  shows "\<exists>t x. Reverse (rle_tree b') (rle_size b) (rle_size b') = Some t \<and> Reverse (rle_extra b') (rle_size b) (rle_size b') = Some x \<and>
    emits (map (Pair (unat code)) (rev ds)) b (b'\<lparr>rle_tree := t, rle_extra := x\<rparr>)"
proof -
  define m n where "m = rle_size b" and "n = rle_size b'"
  let ?t = "rle_tree b'" and ?x = "rle_extra b'"
  have e: "rle_tokens b' = rle_tokens b @ map (Pair (unat code)) ds" "n = m + length ds" "length ?t = length (rle_tree b)"
    "length ?x = length (rle_extra b)" "take m ?t = take m (rle_tree b)" "take m ?x = take m (rle_extra b)"
    using assms(1) by (simp_all add: emits_def m_def n_def)
  have l: "n \<le> length ?t" "n \<le> length ?x" "m \<le> n" "0 < n" using assms(2,3) e(2-4) by (auto simp: rle_room_def m_def)
  define t where "t = take m ?t @ rev (drop m (take n ?t)) @ drop n ?t"
  define x where "x = take m ?x @ rev (drop m (take n ?x)) @ drop n ?x"
  have R: "Reverse ?t m n = Some t" "Reverse ?x m n = Some x"
    using Reverse_spec [OF l(3,4)] l(1,2) by (simp_all add: t_def x_def)
  define A B where "A = map unat (drop m (take n ?t))" and "B = map unat (drop m (take n ?x))"
  have "map unat (take n ?t) = map unat (take m ?t) @ A" "map unat (take n ?x) = map unat (take m ?x) @ B"
    using l(3) by (simp_all add: A_def B_def flip: map_append) (metis append_take_drop_id min.absorb1 take_take)+
  then have "rle_tokens b' = rle_tokens b @ zip A B"
    using l by (simp add: rle_tokens_def n_def [symmetric] m_def [symmetric] e(5,6) [symmetric])
  then have z: "zip A B = map (Pair (unat code)) ds" using e(1) by simp
  have AB: "length A = length B" using l by (simp add: A_def B_def)
  have "map unat (take n t) = map unat (take m ?t) @ rev A" "map unat (take n x) = map unat (take m ?x) @ rev B"
    using l by (simp_all add: t_def x_def A_def B_def rev_map)
  then have "zip (map unat (take n t)) (map unat (take n x)) = rle_tokens b @ rev (zip A B)"
    using l AB by (simp add: rle_tokens_def m_def [symmetric] e(5,6) [symmetric] zip_rev)
  then have "emits (map (Pair (unat code)) (rev ds)) b (b'\<lparr>rle_tree := t, rle_extra := x\<rparr>)"
    using e l by (simp add: emits_def rle_tokens_def n_def [symmetric] m_def [symmetric] z rev_map t_def x_def)
  then show ?thesis using R by (auto simp: m_def n_def)
qed

lemma rle_run_spec:
  assumes "rle_room reps b" and "0 < w" and "w \<le> 8"
  shows "\<exists>b'. rle_run w code v reps b = Some b' \<and>
    emits (if reps < 3 then replicate reps (unat v, 0) else map (Pair (unat code)) (rev (digits w (reps - 3)))) b b'"
proof (cases "reps < 3")
  case True
  then show ?thesis using rle_repeat_spec [OF assms(1)] by (simp add: rle_run_def)
next
  case False
  have "length (digits w (reps - 3)) \<le> reps" using length_digits [of w "reps - 3"] False by simp
  then have room: "rle_room (length (digits w (reps - 3))) b" using assms(1) by (rule rle_room_mono [rotated])
  from rle_digits_spec [OF this assms(2,3)] obtain b1 where
    b1: "rle_digits w code (reps - 3) b = Some b1" "emits (map (Pair (unat code)) (digits w (reps - 3))) b b1" by blast
  have "digits w (reps - 3) \<noteq> []" by (subst digits.simps) simp
  from emits_reverse [OF b1(2) this room] show ?thesis using False b1(1) by (auto simp: rle_run_def)
qed

text \<open>What a run leaves behind: its lengths, and a repeat that only the same length would continue.\<close>

definition run_done :: "nat \<Rightarrow> nat \<Rightarrow> len_state \<Rightarrow> len_state \<Rightarrow> bool" where
  "run_done v n = (\<lambda>(ls, prev, rep, rl) (ls', prev', rep', rl').
     ls' = ls @ replicate n v \<and> prev' = (if v = 0 then prev else v) \<and> (rep' = 0 \<or> 3 \<le> n \<and> rl' = v))"

lemma run_steps:
  assumes "code = 16 \<and> w = 2 \<and> v = prev \<and> v \<noteq> 0 \<or> code = 17 \<and> w = 3 \<and> v = 0" and "v < 16" and "rep = 0 \<or> rl \<noteq> v"
    and "0 < reps \<or> rep = 0"
  shows "run_done v reps (ls, prev, rep, rl)
    (fold len_step (if reps < 3 then replicate reps (v, 0) else map (Pair code) (rev (digits w (reps - 3)))) (ls, prev, rep, rl))"
proof (cases "reps < 3")
  case True
  have "fold len_step (replicate reps (v, 0)) (ls, prev, rep, rl) =
      (ls @ replicate reps v, if v = 0 \<or> reps = 0 then prev else v, if reps = 0 then rep else 0, rl)"
    by (rule single_steps [OF assms(2)])
  then show ?thesis using True assms by (auto simp: run_done_def simp del: fold_replicate)
next
  case False
  have "code = 16 \<and> w = 2 \<and> v = prev \<or> code = 17 \<and> w = 3 \<and> v = 0" using assms(1) by blast
  from repeat_steps [OF this assms(3), of "reps - 3" ls] show ?thesis
    using False assms(1) by (auto simp: run_done_def)
qed

lemma run_done_add: "run_done v m S T \<Longrightarrow> run_done v n T U \<Longrightarrow> run_done v (m + n) S U"
  by (auto simp: run_done_def replicate_add split: prod.splits)

lemma run_done_single: "v < 16 \<Longrightarrow> run_done v 1 (ls, prev, rep, rl) (ls @ [v], if v = 0 then prev else v, 0, rl)"
  by (simp add: run_done_def)

text \<open>At most \<open>n\<close> codes of the alphabet, with extra bits that fit.\<close>

definition code_ok :: "nat \<times> nat \<Rightarrow> bool" where
  "code_ok t \<longleftrightarrow> fst t \<le> 17 \<and> snd t \<le> 7 \<and> (fst t = 16 \<longrightarrow> snd t < 4)"

definition few_codes :: "nat \<Rightarrow> (nat \<times> nat) list \<Rightarrow> bool" where
  "few_codes n ts \<longleftrightarrow> length ts \<le> n \<and> (\<forall>t \<in> set ts. code_ok t)"

text \<open>A length written by itself, and what is left of the run.\<close>

lemma put_then_run:
  assumes "rle_room (Suc r) b" and "unat v < 16"
    and "\<And>b. rle_room r b \<Longrightarrow> \<exists>b' ts. f b = Some b' \<and> emits ts b b' \<and> few_codes r ts \<and>
      run_done (unat v) r (ls @ [unat v], if v = 0 then prev else unat v, 0, rl)
        (fold len_step ts (ls @ [unat v], if v = 0 then prev else unat v, 0, rl))"
  shows "\<exists>b' ts. Option.bind (rle_put v 0 b) f = Some b' \<and> emits ts b b' \<and> few_codes (Suc r) ts \<and>
    run_done (unat v) (Suc r) (ls, prev, rep, rl) (fold len_step ts (ls, prev, rep, rl))"
proof -
  obtain b1 where b1: "rle_put v 0 b = Some b1" "emits [(unat v, 0)] b b1"
    using rle_put_spec [of b v 0] rle_room_mono [OF assms(1)] by auto
  have "rle_room r b1" using emits_room [OF b1(2), of r] assms(1) by simp
  from assms(3) [OF this] obtain b2 ts where b2: "f b1 = Some b2" "emits ts b1 b2" "few_codes r ts"
    "run_done (unat v) r (ls @ [unat v], if v = 0 then prev else unat v, 0, rl)
       (fold len_step ts (ls @ [unat v], if v = 0 then prev else unat v, 0, rl))" by blast
  have "emits ((unat v, 0) # ts) b b2" using emits_trans [OF b1(2) b2(2)] by simp
  moreover have "run_done (unat v) (Suc r) (ls, prev, rep, rl) (fold len_step ((unat v, 0) # ts) (ls, prev, rep, rl))"
    using run_done_add [OF run_done_single [OF assms(2), of ls prev rep rl] b2(4) [unfolded word_unat_eq_iff [of v 0] unat_0]]
    by (simp add: single_step [OF assms(2)] word_unat_eq_iff)
  moreover have "few_codes (Suc r) ((unat v, 0) # ts)" using b2(3) assms(2) by (simp add: few_codes_def code_ok_def)
  ultimately show ?thesis using b1(1) b2(1) by (intro exI [of _ b2] exI [of _ "(unat v, 0) # ts"]) simp
qed

lemma rle_run_steps:
  assumes "rle_room reps b" and "code = 16 \<and> w = 2 \<and> unat v = prev \<and> v \<noteq> 0 \<or> code = 17 \<and> w = 3 \<and> v = 0" and "unat v < 16"
    and "rep = 0 \<or> rl \<noteq> unat v" and "0 < reps \<or> rep = 0"
  shows "\<exists>b' ts. rle_run w code v reps b = Some b' \<and> emits ts b b' \<and> few_codes reps ts \<and>
    run_done (unat v) reps (ls, prev, rep, rl) (fold len_step ts (ls, prev, rep, rl))"
proof -
  let ?ts = "if reps < 3 then replicate reps (unat v, 0) else map (Pair (unat code)) (rev (digits w (reps - 3)))"
  have w: "0 < w" "w \<le> 8" using assms(2) by auto
  from rle_run_spec [OF assms(1) w, of code v] obtain b' where b': "rle_run w code v reps b = Some b'" "emits ?ts b b'" by blast
  have "unat code = 16 \<and> w = 2 \<and> unat v = prev \<and> unat v \<noteq> 0 \<or> unat code = 17 \<and> w = 3 \<and> unat v = 0"
    using assms(2) by (auto simp: word_unat_eq_iff)
  from run_steps [OF this assms(3-5)] have "run_done (unat v) reps (ls, prev, rep, rl) (fold len_step ?ts (ls, prev, rep, rl))" .
  moreover have "few_codes reps ?ts"
  proof -
    have "(2::nat) ^ w \<le> 8" "unat code \<le> 17" "unat code = 16 \<longrightarrow> w = 2" using assms(2) by auto
    then have "d \<le> 7 \<and> (unat code = 16 \<longrightarrow> d < 4)" if "d \<in> set (digits w (reps - 3))" for d
      using digits_small [OF w(1) that] by auto
    then show ?thesis using length_digits [of w "reps - 3"] assms(3) \<open>unat code \<le> 17\<close> by (auto simp: few_codes_def code_ok_def)
  qed
  ultimately show ?thesis using b' by blast
qed

lemma Zeros_spec:
  assumes "rle_room reps b" and "0 < reps" and "rep = 0 \<or> rl \<noteq> 0"
  shows "\<exists>b' ts. BrotliWriteHuffmanTreeRepetitionsZeros reps b = Some b' \<and> emits ts b b' \<and> few_codes reps ts \<and>
    run_done 0 reps (ls, prev, rep, rl) (fold len_step ts (ls, prev, rep, rl))"
proof (cases "reps = 11")
  case False
  then show ?thesis using rle_run_steps [of reps b 17 3 0 prev rep rl ls] assms
    by (simp add: BrotliWriteHuffmanTreeRepetitionsZeros_def)
next
  case True
  have eq: "BrotliWriteHuffmanTreeRepetitionsZeros reps b = Option.bind (rle_put 0 0 b) (rle_run 3 17 0 10)"
    by (simp add: BrotliWriteHuffmanTreeRepetitionsZeros_def True bind_assoc)
  have "\<exists>b' ts. Option.bind (rle_put 0 0 b) (rle_run 3 17 0 10) = Some b' \<and> emits ts b b' \<and> few_codes (Suc 10) ts \<and>
    run_done (unat (0 :: uint8)) (Suc 10) (ls, prev, rep, rl) (fold len_step ts (ls, prev, rep, rl))"
    by (rule put_then_run) (use assms True rle_run_steps [of 10 _ 17 3 0 prev 0 rl "ls @ [0]"] in simp_all)
  then show ?thesis by (simp add: eq [unfolded True] True)
qed

lemma Repetitions_spec:
  assumes "rle_room reps b" and "0 < reps" and "v \<noteq> 0" and "unat v < 16" and "rep = 0 \<or> rl \<noteq> unat v"
  shows "\<exists>b' ts. BrotliWriteHuffmanTreeRepetitions prev v reps b = Some b' \<and> emits ts b b' \<and> few_codes reps ts \<and>
    run_done (unat v) reps (ls, unat prev, rep, rl) (fold len_step ts (ls, unat prev, rep, rl))"
proof -
  define g where "g r = (\<lambda>b. if r = 7 then Option.bind (rle_put v 0 b) (rle_run 2 16 v 6) else rle_run 2 16 v r b)" for r
  have g: "\<exists>b' ts. g r b = Some b' \<and> emits ts b b' \<and> few_codes r ts \<and>
      run_done (unat v) r (ls, unat v, rep, rl) (fold len_step ts (ls, unat v, rep, rl))"
    if "rle_room r b" "rep = 0 \<or> rl \<noteq> unat v" "0 < r \<or> rep = 0" for r b ls rep
  proof (cases "r = 7")
    case False
    then show ?thesis using rle_run_steps [of r b 16 2 v "unat v" rep rl ls] that assms(3,4) by (simp add: g_def)
  next
    case True
    have "\<exists>b' ts. Option.bind (rle_put v 0 b) (rle_run 2 16 v 6) = Some b' \<and> emits ts b b' \<and> few_codes (Suc 6) ts \<and>
      run_done (unat v) (Suc 6) (ls, unat v, rep, rl) (fold len_step ts (ls, unat v, rep, rl))"
      by (rule put_then_run)
        (use assms(3,4) that(1) True rle_run_steps [of 6 _ 16 2 v "unat v" 0 rl "ls @ [unat v]"] in simp_all)
    then show ?thesis by (simp add: g_def True)
  qed
  show ?thesis
  proof (cases "prev = v")
    case True
    have "BrotliWriteHuffmanTreeRepetitions prev v reps b = g reps b"
      by (simp add: BrotliWriteHuffmanTreeRepetitions_def g_def True bind_assoc)
    then show ?thesis using g [OF assms(1,5)] assms(2) True by simp
  next
    case False
    obtain r where r: "reps = Suc r" using assms(2) by (cases reps) auto
    have eq: "BrotliWriteHuffmanTreeRepetitions prev v reps b = Option.bind (rle_put v 0 b) (g r)"
      using False by (cases "r = 7") (simp_all add: BrotliWriteHuffmanTreeRepetitions_def g_def r bind_assoc)
    have "\<exists>b' ts. Option.bind (rle_put v 0 b) (g r) = Some b' \<and> emits ts b b' \<and> few_codes (Suc r) ts \<and>
      run_done (unat v) (Suc r) (ls, unat prev, rep, rl) (fold len_step ts (ls, unat prev, rep, rl))"
      by (rule put_then_run) (use assms(1,3,4) g [of r _ 0 "ls @ [unat v]"] r in simp_all)
    then show ?thesis by (simp add: eq [unfolded r] r)
  qed
qed

section \<open>The whole list\<close>

lemma run_length_at_spec:
  assumes "i < len" and "len \<le> length depth"
  defines "n \<equiv> run_length_at depth len i"
  shows "1 \<le> n" and "i + n \<le> len" and "take n (drop i depth) = replicate n (depth ! i)"
    and "i + n < len \<Longrightarrow> depth ! (i + n) \<noteq> depth ! i"
proof -
  define w where "w = takeWhile (\<lambda>d. d = depth ! i) (drop (Suc i) (take len depth))"
  have n: "n = Suc (length w)" by (simp add: n_def run_length_at_def w_def)
  have lw: "length w \<le> len - Suc i"
    using length_takeWhile_le [of "\<lambda>d. d = depth ! i" "drop (Suc i) (take len depth)"] assms(2) by (simp add: w_def)
  show "1 \<le> n" "i + n \<le> len" using n lw assms(1) by simp_all
  have "w = take (length w) (drop (Suc i) (take len depth))" unfolding w_def by (rule takeWhile_eq_take)
  also have "\<dots> = take (length w) (drop (Suc i) depth)" using lw by (simp add: drop_take)
  finally have "take (length w) (drop (Suc i) depth) = w" by simp
  moreover have "w = replicate (length w) (depth ! i)"
    by (rule replicate_length_same [symmetric]) (auto simp: w_def dest: set_takeWhileD)
  ultimately show "take n (drop i depth) = replicate n (depth ! i)"
    using assms(1,2) by (simp add: n Cons_nth_drop_Suc [symmetric])
  assume "i + n < len"
  then have "length w < length (drop (Suc i) (take len depth))" using assms(2) by (simp add: n)
  then have "drop (Suc i) (take len depth) ! length w \<noteq> depth ! i"
    unfolding w_def by (rule nth_length_takeWhile)
  then show "depth ! (i + n) \<noteq> depth ! i" using \<open>i + n < len\<close> assms(2) by (simp add: n)
qed

definition len_start :: len_state where
  "len_start = ([], 8, 0, 0)"

definition buffer_grows :: "nat \<Rightarrow> rle_buffer \<Rightarrow> rle_buffer \<Rightarrow> bool" where
  "buffer_grows n b b' \<longleftrightarrow> (\<exists>ts. emits ts b b' \<and> few_codes n ts)"

lemma write_runs_spec:
  assumes "fold len_step (rle_tokens b) len_start = (map unat (take i depth), unat prev, rep, rl)"
    and "i \<le> len" and "len \<le> length depth" and "\<forall>d \<in> set (take len depth). unat d < 16"
    and "rep = 0 \<or> (i < len \<longrightarrow> rl \<noteq> unat (depth ! i))" and "rle_room (len - i) b"
  shows "\<exists>b' p r l. write_runs depth len nz z i prev b = Some b' \<and> buffer_grows (len - i) b b' \<and>
    fold len_step (rle_tokens b') len_start = (map unat (take len depth), p, r, l)"
  using assms(1,2,5,6)
proof (induction "len - i" arbitrary: i prev b rep rl rule: less_induct)
  case less
  show ?case
  proof (cases "i < len")
    case False
    then have "i = len" using less.prems(2) by simp
    then show ?thesis using less.prems(1)
      by (subst write_runs.simps) (auto simp: buffer_grows_def few_codes_def intro!: exI [of _ "[]"] emits_refl)
  next
    case True
    define v where "v = depth ! i"
    define n where "n = (if (v \<noteq> 0 \<and> nz) \<or> (v = 0 \<and> z) then run_length_at depth len i else 1)"
    note rl = run_length_at_spec [OF True assms(3)]
    have one: "take 1 (drop i depth) = [v]" using True assms(3) by (simp add: v_def Cons_nth_drop_Suc [symmetric])
    have n: "0 < n" "i + n \<le> len" "take n (drop i depth) = replicate n v"
      using rl(1-3) True one by (auto simp: n_def v_def)
    have max: "3 \<le> n \<and> i + n < len \<longrightarrow> depth ! (i + n) \<noteq> v" using rl(4) by (auto simp: n_def v_def)
    have "take len depth ! i \<in> set (take len depth)" by (rule nth_mem) (use True assms(3) in simp)
    then have v: "unat v < 16" using assms(4) True by (simp add: v_def)
    have rep: "rep = 0 \<or> rl \<noteq> unat v" using less.prems(3) True by (simp add: v_def)
    have room: "rle_room n b" by (rule rle_room_mono [OF less.prems(4)]) (use n(2) in linarith)
    define run where "run = (\<lambda>b. if v = 0 then BrotliWriteHuffmanTreeRepetitionsZeros n b else BrotliWriteHuffmanTreeRepetitions prev v n b)"
    have "\<exists>b' ts. run b = Some b' \<and> emits ts b b' \<and> few_codes n ts \<and>
        run_done (unat v) n (map unat (take i depth), unat prev, rep, rl) (fold len_step ts (map unat (take i depth), unat prev, rep, rl))"
    proof (cases "v = 0")
      case True
      then show ?thesis using Zeros_spec [OF room n(1), of rep rl "map unat (take i depth)" "unat prev"] rep by (simp add: run_def)
    next
      case False
      then show ?thesis using Repetitions_spec [OF room n(1) False v rep, of prev "map unat (take i depth)"] by (simp add: run_def)
    qed
    then obtain b1 ts where b1: "run b = Some b1" "emits ts b b1" "few_codes n ts"
      "run_done (unat v) n (map unat (take i depth), unat prev, rep, rl) (fold len_step ts (map unat (take i depth), unat prev, rep, rl))"
      by blast
    define prev' where "prev' = (if v = 0 then prev else v)"
    have "take (i + n) depth = take i depth @ replicate n v" by (simp add: take_add n(3))
    then have "map unat (take (i + n) depth) = map unat (take i depth) @ replicate n (unat v)" by simp
    moreover have "rle_tokens b1 = rle_tokens b @ ts" using b1(2) by (simp add: emits_def)
    ultimately obtain rep' rl' where s1: "fold len_step (rle_tokens b1) len_start = (map unat (take (i + n) depth), unat prev', rep', rl')"
      "rep' = 0 \<or> 3 \<le> n \<and> rl' = unat v"
      using b1(4) less.prems(1) by (cases "fold len_step (rle_tokens b1) len_start")
        (auto simp: run_done_def prev'_def word_unat_eq_iff split: if_splits)
    have "length ts \<le> n" using b1(3) by (simp add: few_codes_def)
    then have room1: "rle_room (len - (i + n)) b1"
      by (intro emits_room [OF b1(2)] rle_room_mono [OF less.prems(4)]) (use n(2) in linarith)
    have next1: "rep' = 0 \<or> (i + n < len \<longrightarrow> rl' \<noteq> unat (depth ! (i + n)))"
      using s1(2) max by (auto simp: word_unat_eq_iff)
    have "len - (i + n) < len - i" using n(1,2) by linarith
    from less.hyps [OF this s1(1) n(2) next1 room1] obtain b' p r l where
      b': "write_runs depth len nz z (i + n) prev' b1 = Some b'" "buffer_grows (len - (i + n)) b1 b'"
      "fold len_step (rle_tokens b') len_start = (map unat (take len depth), p, r, l)" by blast
    obtain us where us: "emits us b1 b'" "few_codes (len - (i + n)) us" using b'(2) by (auto simp: buffer_grows_def)
    have "buffer_grows (len - i) b b'"
      unfolding buffer_grows_def using emits_trans [OF b1(2) us(1)] b1(3) us(2) n(2)
      by (intro exI [of _ "ts @ us"]) (auto simp: few_codes_def)
    moreover have "write_runs depth len nz z i prev b = Option.bind (run b) (write_runs depth len nz z (i + n) prev')"
    proof -
      have "arr_get depth i = Some v" using True assms(3) by (simp add: v_def)
      then show ?thesis using True
        by (subst write_runs.simps) (simp only: bind.bind_lunit Let_def if_True n_def [symmetric] run_def prev'_def, cases "v = 0", simp_all only: if_True if_False simp_thms)
    qed
    ultimately show ?thesis using b1(1) b'(1,3) by simp
  qed
qed

lemma rle_counts_some: "len \<le> length depth \<Longrightarrow> \<exists>c'. rle_counts depth len i c = Some c'"
proof (induction "len - i" arbitrary: i c rule: less_induct)
  case less
  show ?case
  proof (cases "i < len")
    case True
    have "\<exists>c2. rle_counts depth len i c = rle_counts depth len (i + run_length_at depth len i) c2"
      using True less.prems by (subst rle_counts.simps) (cases c, simp add: Let_def case_prod_unfold, blast)
    moreover have "len - (i + run_length_at depth len i) < len - i" using True by (simp add: run_length_at_def)
    ultimately show ?thesis using less.hyps less.prems by metis
  qed (subst rle_counts.simps, cases c, simp)
qed

text \<open>The lengths without the zeros at the end.\<close>

definition strip_zeros :: "nat list \<Rightarrow> nat list" where
  "strip_zeros ls = rev (dropWhile (\<lambda>l. l = 0) (rev ls))"

lemma strip_zeros_append: "\<exists>k. ls = strip_zeros ls @ replicate k 0"
proof -
  define w where "w = takeWhile (\<lambda>l. l = 0) (rev ls)"
  have "rev ls = w @ dropWhile (\<lambda>l. l = 0) (rev ls)" by (simp add: w_def)
  then have "ls = strip_zeros ls @ rev w" unfolding strip_zeros_def by (metis rev_append rev_rev_ident)
  moreover have "w = replicate (length w) 0"
    by (rule replicate_length_same [symmetric]) (auto simp: w_def dest: set_takeWhileD)
  then have "rev w = replicate (length w) 0" by (metis rev_replicate)
  ultimately show ?thesis by metis
qed

lemma strip_zeros_take:
  assumes "len \<le> length depth"
  defines "n \<equiv> len - length (takeWhile (\<lambda>d. d = 0) (rev (take len depth)))"
  shows "n \<le> len" and "map unat (take n (depth :: uint8 list)) = strip_zeros (map unat (take len depth))"
proof -
  define w where "w = takeWhile (\<lambda>d. d = 0) (rev (take len depth))"
  have w: "length w \<le> len" using length_takeWhile_le [of "\<lambda>d. d = 0" "rev (take len depth)"] assms(1) by (simp add: w_def)
  show "n \<le> len" by (simp add: n_def)
  have d: "dropWhile (\<lambda>d. d = 0) (rev (take len depth)) = rev (take n depth)"
    using assms(1) w by (simp add: dropWhile_eq_drop n_def rev_take [symmetric] drop_rev min_def flip: w_def)
  have "dropWhile (\<lambda>l. l = 0) (map unat (rev (take len depth))) = map unat (dropWhile (\<lambda>d. d = 0) (rev (take len depth)))"
    by (simp add: dropWhile_map comp_def unat_eq_0)
  then show "map unat (take n depth) = strip_zeros (map unat (take len depth))"
    by (simp add: strip_zeros_def rev_map d)
qed

lemma BrotliWriteHuffmanTree_spec:
  assumes "len \<le> length depth" and "\<forall>d \<in> set (take len depth). unat d < 16"
    and "rle_size b = 0" and "len \<le> length (rle_tree b)" and "len \<le> length (rle_extra b)"
  shows "\<exists>b' p r l. BrotliWriteHuffmanTree depth len b = Some b' \<and> rle_size b' \<le> len \<and>
    rle_size b' \<le> length (rle_tree b') \<and> rle_size b' \<le> length (rle_extra b') \<and>
    (\<forall>t \<in> set (rle_tokens b'). code_ok t) \<and>
    fold len_step (rle_tokens b') len_start = (strip_zeros (map unat (take len depth)), p, r, l)"
proof -
  define n where "n = len - length (takeWhile (\<lambda>d. d = 0) (rev (take len depth)))"
  note n = strip_zeros_take [OF assms(1), folded n_def]
  have nd: "n \<le> length depth" using n(1) assms(1) by simp
  obtain nz z where dec: "(if len > 50 then DecideOverRleUse depth n else Some (False, False)) = Some (nz, z)"
    using rle_counts_some [OF nd, of 0 "(0, 1, 0, 1)"] by (cases "len > 50") (auto simp: DecideOverRleUse_def split: prod.splits)
  have start: "fold len_step (rle_tokens b) len_start = (map unat (take 0 depth), unat (8 :: uint8), 0, 0)"
    by (simp add: rle_tokens_def assms(3) len_start_def)
  have "set (take n depth) \<subseteq> set (take len depth)" by (rule set_take_subset_set_take [OF n(1)])
  then have small: "\<forall>d \<in> set (take n depth). unat d < 16" using assms(2) by blast
  have room: "rle_room (n - 0) b" using assms(3-5) n(1) by (simp add: rle_room_def)
  from write_runs_spec [OF start _ nd small _ room, of nz z] obtain b' p r l where
    b': "write_runs depth n nz z 0 8 b = Some b'" "buffer_grows (n - 0) b b'"
    "fold len_step (rle_tokens b') len_start = (map unat (take n depth), p, r, l)" by auto
  obtain ts where ts: "emits ts b b'" "few_codes n ts" using b'(2) by (auto simp: buffer_grows_def)
  have "rle_tokens b = []" by (simp add: rle_tokens_def assms(3))
  then have "rle_tokens b' = ts" "rle_size b' = length ts" using ts(1) assms(3) by (simp_all add: emits_def)
  moreover have "length ts \<le> length (rle_tree b')" "length ts \<le> length (rle_extra b')"
    using ts n(1) assms(4,5) by (simp_all add: emits_def few_codes_def)
  ultimately show ?thesis using b'(1,3) ts(2) n dec assms(1)
    by (auto simp: BrotliWriteHuffmanTree_def Let_def few_codes_def simp flip: n_def)
qed

section \<open>The decoder follows the rule\<close>

definition follows :: "nat \<Rightarrow> len_state \<Rightarrow> code_lengths \<Rightarrow> bool" where
  "follows N = (\<lambda>(ls, prev, rep, rl) c. lengths_inv N ls c \<and> unat (cl_prev_code_len c) = prev \<and>
     unat (cl_repeat c) = rep \<and> unat (cl_repeat_code_len c) = rl)"

lemma len_step_grows: "length (fst S) \<le> length (fst (len_step t S))"
  by (cases t; cases S) (simp add: len_step.simps Let_def)

lemma len_steps_grow: "length (fst S) \<le> length (fst (fold len_step ts S))"
proof (induction ts arbitrary: S)
  case (Cons t ts)
  show ?case using len_step_grows [of S t] Cons.IH [of "len_step t S"] by simp
qed simp

text \<open>One code: the reader's variables follow the lengths, unless these leave the alphabet.\<close>

lemma length_step_exact:
  assumes "follows N S c" and "code \<le> 17" and "x \<le> 7" and "length (fst S) < N" and "N < 2 ^ 16"
  shows "\<exists>c'. length_step (of_nat code) (of_nat x) (of_nat N) c = Some c' \<and>
    (if length (fst (len_step (code, x) S)) \<le> N then follows N (len_step (code, x) S) c' else overrun N c')"
proof -
  obtain ls prev rep rl where S: "S = (ls, prev, rep, rl)" by (cases S)
  have c: "lengths_inv N ls c" "unat (cl_prev_code_len c) = prev" "unat (cl_repeat c) = rep" "unat (cl_repeat_code_len c) = rl"
    using assms(1) by (simp_all add: follows_def S)
  note inv = c(1) [unfolded lengths_inv_def]
  have u: "unat (of_nat code :: uint32) = code" "unat (of_nat x :: uint32) = x"
    by (rule unat_of_nat_small, use assms(2,3) in simp)+
  show ?thesis
  proof (cases "code < 16")
    case True
    then have lt: "(of_nat code :: uint32) < 16" using u(1) by (simp add: word_less_nat_alt)
    have len: "length ls < N" using assms(4) by (simp add: S)
    moreover have "unat (of_nat code :: uint32) \<le> 15" using u(1) True by simp
    ultimately obtain c' where "ProcessSingleCodeLength (of_nat code) c = Some c'" "lengths_inv N (ls @ [code]) c'"
      "cl_repeat c' = 0" "cl_prev_code_len c' = (if (of_nat code :: uint32) = 0 then cl_prev_code_len c else of_nat code)"
      "cl_repeat_code_len c' = cl_repeat_code_len c"
      using ProcessSingleCodeLength_exact [OF c(1) _ _ assms(5)] u(1) by metis
    then show ?thesis using True lt u(1) c(2,4) len
      by (auto simp: length_step_def follows_def S len_step.simps word_unat_eq_iff)
  next
    case False
    define nlw where "nlw = (if (of_nat code :: uint32) = 16 then cl_prev_code_len c else 0)"
    define e where "e = (if (of_nat code :: uint32) = 16 then 2 else 3 :: nat)"
    define r where "r = (if cl_repeat_code_len c \<noteq> nlw then 0 else unat (cl_repeat c))"
    define nl where "nl = (if code = 16 then prev else 0)"
    have code: "(of_nat code :: uint32) = 16 \<longleftrightarrow> code = 16" "(of_nat code :: uint32) = 16 \<or> (of_nat code :: uint32) = 17"
    proof -
      have "code = 16 \<or> code = 17" using False assms(2) by linarith
      then show "(of_nat code :: uint32) = 16 \<longleftrightarrow> code = 16" "(of_nat code :: uint32) = 16 \<or> (of_nat code :: uint32) = 17" by auto
    qed
    have nl: "unat nlw = nl" using c(2) by (simp add: nlw_def nl_def code(1))
    have r': "r = (if rl \<noteq> nl then 0 else rep)" using c(3,4) nl by (simp add: r_def word_unat_eq_iff)
    have rr: "cl_repeat c = 0 \<or> 3 \<le> unat (cl_repeat c)" "unat (cl_repeat c) < 2 ^ 16" "r \<le> length ls"
      using inv assms(5) by (auto simp: r_def)
    have "unat (of_nat x :: uint32) \<le> 7" using u(2) assms(3) by simp
    note run = ProcessRepeated_exact [OF code(2) this rr(1,2) e_def nlw_def r_def, of "of_nat N", unfolded u(2)]
    have "e \<in> {2, 3}" "r = 0 \<or> 3 \<le> r" "r < 2 ^ 16" using rr by (auto simp: e_def r_def)
    note b = repeat_to_bounds [OF this(1,2) assms(3) this(3)]
    define k where "k = repeat_to e x r - r - 1"
    have k: "repeat_to e x r - r = Suc k" "repeat_to e x r = r + Suc k" "k < 2 ^ 20" "3 \<le> repeat_to e x r"
      using b by (simp_all add: k_def)
    have step: "len_step (code, x) S = (ls @ replicate (Suc k) nl, prev, repeat_to e x r, nl)"
    proof -
      have e': "e = (if code = 16 then 2 else 3)" by (simp add: e_def code(1))
      show ?thesis unfolding S len_step.simps Let_def nl_def [symmetric] e' [symmetric] r' [symmetric] k(1) using False by simp
    qed
    have nl15: "unat nlw \<le> 15" using inv c(2) by (auto simp: nlw_def)
    have R: "unat (of_nat (repeat_to e x r) :: uint32) = repeat_to e x r" by (rule unat_of_nat_small) (use b(2) in simp)
    obtain c' where c': "repeated nlw (of_nat (repeat_to e x r)) (of_nat (Suc k)) (of_nat N) c = Some c'"
      "if N < length ls + Suc k then overrun N c'
       else lengths_inv N (ls @ replicate (Suc k) (unat nlw)) c' \<and> cl_repeat c' = of_nat (repeat_to e x r) \<and>
         cl_prev_code_len c' = cl_prev_code_len c \<and> cl_repeat_code_len c' = nlw"
      using repeated_exact [OF c(1) assms(5) nl15 k(3,2,4) rr(3)] by blast
    have "\<not> (of_nat code :: uint32) < 16" using False u(1) by (simp add: word_less_nat_alt)
    then have "length_step (of_nat code) (of_nat x) (of_nat N) c = Some c'"
      unfolding length_step_def run k(1) using c'(1) by simp
    then show ?thesis using c'(2) R nl c(2) unfolding step by (auto simp: follows_def not_less simp del: replicate.simps)
  qed
qed

lemma length_step_follows:
  assumes "follows N S c" and "code \<le> 17" and "x \<le> 7" and "length (fst (len_step (code, x) S)) \<le> N" and "N < 2 ^ 16"
  shows "\<exists>c'. length_step (of_nat code) (of_nat x) (of_nat N) c = Some c' \<and> follows N (len_step (code, x) S) c'"
proof -
  obtain ls prev rep rl where S: "S = (ls, prev, rep, rl)" by (cases S)
  have "rep = 0 \<or> 3 \<le> rep" using assms(1) by (auto simp: follows_def lengths_inv_def S)
  then have "length (fst S) < length (fst (len_step (code, x) S))" by (auto simp: S len_step.simps Let_def repeat_to_def)
  then have "length (fst S) < N" using assms(4) by simp
  from length_step_exact [OF assms(1-3) this assms(5)] assms(4) show ?thesis by simp
qed

lemma length_steps_follow:
  assumes "follows N S c" and "\<forall>t \<in> set ts. code_ok t" and "length (fst (fold len_step ts S)) \<le> N" and "N < 2 ^ 16"
  shows "\<exists>c'. foldM (\<lambda>(code, x). length_step (of_nat code) (of_nat x) (of_nat N)) ts c = Some c' \<and> follows N (fold len_step ts S) c'"
  using assms(1-3)
proof (induction ts arbitrary: S c)
  case (Cons t ts)
  obtain code x where t: "t = (code, x)" by (cases t)
  have "length (fst (len_step t S)) \<le> N" using Cons.prems(3) len_steps_grow [of "len_step t S" ts] by simp
  then obtain c1 where "length_step (of_nat code) (of_nat x) (of_nat N) c = Some c1" "follows N (len_step t S) c1"
    using length_step_follows [OF Cons.prems(1), of code x] Cons.prems(2) assms(4) by (auto simp: t code_ok_def)
  then show ?case using Cons.IH [of "len_step t S" c1] Cons.prems(2,3) by (auto simp: t)
qed simp

end
