(* ===== verification/Code_Length_Decode.thy ===== *)
theory Code_Length_Decode
  imports Enc_Length_Facts Block_Facts
begin

text \<open>
  Reading code lengths back: \<open>ReadSymbolCodeLengths\<close> and \<open>SafeReadSymbolCodeLengths\<close> on a stream of code words
  for the run-length form, however the input is split between the fast loop and the safe one.
\<close>

section \<open>The code of the code lengths\<close>

text \<open>
  The words of the codes in use, and a table of all windows of five bits for them.  A code that is
  alone has the empty word.
\<close>

type_synonym code_words = "nat \<Rightarrow> bits option"

definition window_table :: "code_words \<Rightarrow> HuffmanCode list \<Rightarrow> bool" where
  "window_table ws tbl \<longleftrightarrow> 32 \<le> length tbl \<and>
     (\<forall>W. \<exists>k w. ws k = Some w \<and> take (length w) (val_bits 5 W) = w) \<and>
     (\<forall>k w. ws k = Some w \<longrightarrow> k \<le> 17 \<and> length w \<le> 5 \<and>
        (\<forall>W. take (length w) (val_bits 5 W) = w \<longrightarrow> tbl ! (W mod 32) = ConstructHuffmanCode (of_nat (length w)) (of_nat k)))"

text \<open>The entry for a window that shows the first bits of a stream, complete words or not.\<close>

lemma window_entry:
  assumes "window_table ws tbl" and "ws k = Some w" and "take (length w) bs = w" and "length w \<le> length bs"
    and "\<And>j. j \<le> a \<Longrightarrow> j \<le> 5 \<Longrightarrow> take j bs = val_bits j W" and "a \<le> length bs"
  shows "\<exists>p. arr_get tbl (W mod 32) = Some p \<and> unat (fast_bits p) \<le> 5 \<and>
    (if length w \<le> a then fast_bits p = of_nat (length w) \<and> fast_value p = of_nat k
     else a < unat (fast_bits p))"
proof -
  note wt = assms(1) [unfolded window_table_def]
  have "W mod 32 < 32" by simp
  also have "32 \<le> length tbl" using wt by (rule conjunct1)
  finally have get: "arr_get tbl (W mod 32) = Some (tbl ! (W mod 32))" by simp
  have small: "length v \<le> 5" "j \<le> 17" if "ws j = Some v" for j v using wt that by blast+
  have entry: "tbl ! (V mod 32) = ConstructHuffmanCode (of_nat (length v)) (of_nat j)"
    if "ws j = Some v" "take (length v) (val_bits 5 V) = v" for j v V using wt that by blast
  have fields: "unat (fast_bits (ConstructHuffmanCode (of_nat (length v)) (of_nat j))) = length v"
    "fast_bits (ConstructHuffmanCode (of_nat (length v)) (of_nat j)) = of_nat (length v)"
    "fast_value (ConstructHuffmanCode (of_nat (length v)) (of_nat j)) = of_nat j" if "ws j = Some v" for j v
    using small [OF that] by (simp_all add: code_fields unat_of_nat_small)
  have cut: "take n (val_bits 5 V) = val_bits n V" if "n \<le> 5" for n V using that by (simp add: val_bits_def take_map)
  show ?thesis
  proof (cases "length w \<le> a")
    case True
    then have "take (length w) (val_bits 5 W) = w" using assms(3,5) small(1) [OF assms(2)] cut by simp
    from entry [OF assms(2) this] show ?thesis using True get fields [OF assms(2)] small(1) [OF assms(2)] by simp
  next
    case False
    obtain j v where v: "ws j = Some v" "take (length v) (val_bits 5 W) = v" using wt by blast
    have "a < length v"
    proof (rule ccontr)
      assume "\<not> a < length v"
      then have le: "length v \<le> a" by simp
      have w5: "take (length w) (val_bits 5 (bits_val w)) = w"
        using cut [OF small(1) [OF assms(2)], of "bits_val w"] by simp
      have "v = take (length v) bs" using assms(5) [OF le small(1) [OF v(1)]] cut [OF small(1) [OF v(1)]] v(2) by simp
      also have "\<dots> = take (length v) w" using le False assms(3) by (metis min.absorb1 le_trans nat_le_linear take_take)
      also have "\<dots> = take (length v) (val_bits 5 (bits_val w))"
        using w5 le False by (metis min.absorb1 le_trans nat_le_linear take_take)
      finally have "take (length v) (val_bits 5 (bits_val w)) = v" by simp
      from entry [OF v(1) this] entry [OF assms(2) w5] have "length v = length w"
        using fields(1) [OF v(1)] fields(1) [OF assms(2)] by metis
      then show False using le False by simp
    qed
    then show ?thesis using False get entry [OF v] fields [OF v(1)] small(1) [OF v(1)] by simp
  qed
qed

text \<open>A code with its extra bits.\<close>

definition extra_width :: "nat \<Rightarrow> nat" where
  "extra_width code = (if code = 16 then 2 else if code = 17 then 3 else 0)"

definition length_word :: "code_words \<Rightarrow> nat \<times> nat \<Rightarrow> bits" where
  "length_word ws t = the (ws (fst t)) @ val_bits (extra_width (fst t)) (snd t)"

text \<open>A repeat fits its extra bits and its code has a word.\<close>

definition word_ok :: "code_words \<Rightarrow> nat \<times> nat \<Rightarrow> bool" where
  "word_ok ws t \<longleftrightarrow> code_ok t \<and> ws (fst t) \<noteq> None"

lemma extra_bits_of_window:
  assumes "take (n + e) bs = val_bits (n + e) W" and "bs = w @ val_bits e x @ rest" and "length w = n" and "x < 2 ^ e"
  shows "W div 2 ^ n mod 2 ^ e = x"
proof -
  have "val_bits (n + e) W = w @ val_bits e x" using assms(1-3) by simp
  moreover have "drop n (val_bits (n + e) W) = val_bits e (W div 2 ^ n)"
    by (rule nth_equalityI) (simp_all add: val_bits_def flip: drop_bit_eq_div add: bit_drop_bit_eq)
  ultimately have "val_bits e (W div 2 ^ n) = val_bits e x" using assms(3) by simp
  then show ?thesis using bits_val_val_bits [of e "W div 2 ^ n"] assms(4) by simp
qed

section \<open>The safe loop\<close>

lemma safe_window_bits:
  assumes "br_ok br"
  shows "\<exists>bits. (if BrotliGetAvailableBits br \<noteq> 0 then map_option ucast (BrotliGetBitsUnmasked br) else Some 0) = Some (bits :: uint32) \<and>
    (\<forall>j \<le> 64 - unat (br_bit_pos br). j \<le> 32 \<longrightarrow> take j (br_bits br) = val_bits j (unat bits))"
proof (cases "BrotliGetAvailableBits br = 0")
  case True
  then have "unat (br_bit_pos br) = 64" using avail_bits_eq_0_iff [OF assms] by simp
  then show ?thesis using True by (simp add: val_bits_def)
next
  case False
  then have p: "unat (br_bit_pos br) < 64" using avail_bits_eq_0_iff [OF assms] assms by (simp add: br_ok_def)
  define bits where "bits = (ucast (drop_bit (unat (br_bit_pos br)) (br_val br)) :: uint32)"
  have "BrotliGetBitsUnmasked br = Some (drop_bit (unat (br_bit_pos br)) (br_val br))"
    using p by (simp add: BrotliGetBitsUnmasked_def word_less_nat_alt)
  moreover have "take j (br_bits br) = val_bits j (unat bits)" if j: "j \<le> 64 - unat (br_bit_pos br)" "j \<le> 32" for j
  proof (rule nth_equalityI)
    fix i assume "i < length (take j (br_bits br))"
    then have i: "i < j" "i < 64 - unat (br_bit_pos br)" "i < 32" using j by simp_all
    then show "take j (br_bits br) ! i = val_bits j (unat bits) ! i"
      by (simp add: br_bits_def nth_append word_bits_def val_bits_def bits_def unat_bit_iff bit_simps add.commute)
  qed (use j length_br_bits [OF assms] in simp)
  ultimately show ?thesis using False by (simp add: bits_def)
qed

text \<open>One round at a code word: the word is used up, or a byte more is asked for.\<close>

lemma safe_step_word:
  assumes "window_table ws tbl" and "word_ok ws (code, x)" and "hungry gb br" and "br_bits br = length_word ws (code, x) @ rest"
    and "gb \<longrightarrow> 64 - unat (br_bit_pos br) < length (length_word ws (code, x))"
    and "length_step (of_nat code) (of_nat x) (of_nat N) c = Some c1"
  shows "\<exists>gb' br' c'. safe_rscl_step tbl (of_nat N) gb br c = Some (gb', True, br', c') \<and>
    (\<not> gb' \<and> br_ok br' \<and> br_bits br' = rest \<and> c' = c1 \<or>
     gb' \<and> hungry True br' \<and> br_bits br' = br_bits br \<and> c' = c \<and> avail_in br' \<le> avail_in br \<and>
       (gb \<longrightarrow> avail_in br' < avail_in br) \<and> 64 - unat (br_bit_pos br') < length (length_word ws (code, x)))"
proof -
  obtain w where w: "ws code = Some w" using assms(2) by (auto simp: word_ok_def)
  have code: "code \<le> 17" "x \<le> 7" "code = 16 \<longrightarrow> x < 4" using assms(2) by (simp_all add: word_ok_def code_ok_def)
  have w5: "length w \<le> 5" using assms(1) w by (auto simp: window_table_def)
  define L where "L = length (length_word ws (code, x))"
  have word: "length_word ws (code, x) = w @ val_bits (extra_width code) x" "L = length w + extra_width code"
    by (simp_all add: length_word_def w L_def)
  have "\<exists>b1. (if gb then BrotliPullByte br else Some (True, br)) = Some (True, b1) \<and> br_ok b1 \<and> br_bits b1 = br_bits br \<and>
      avail_in b1 \<le> avail_in br \<and> (gb \<longrightarrow> avail_in b1 < avail_in br)"
  proof (cases gb)
    case True
    have ok: "br_ok br" "8 \<le> unat (br_bit_pos br)" using assms(3) True by (simp_all add: hungry_def)
    have "0 < avail_in br" using length_br_bits [OF ok(1)] assms(4,5) True by (cases "avail_in br") simp_all
    with BrotliPullByte_spec [OF ok this] True show ?thesis by auto
  qed (use assms(3) in \<open>simp add: hungry_def\<close>)
  then obtain b1 where b1: "(if gb then BrotliPullByte br else Some (True, br)) = Some (True, b1)" "br_ok b1"
    "br_bits b1 = br_bits br" "avail_in b1 \<le> avail_in br" "gb \<longrightarrow> avail_in b1 < avail_in br" by blast
  define a where "a = 64 - unat (br_bit_pos b1)"
  obtain bits where bits: "(if BrotliGetAvailableBits b1 \<noteq> 0 then map_option ucast (BrotliGetBitsUnmasked b1) else Some 0) =
      Some (bits :: uint32)" and win: "\<And>j. j \<le> a \<Longrightarrow> j \<le> 32 \<Longrightarrow> take j (br_bits br) = val_bits j (unat bits)"
    using safe_window_bits [OF b1(2)] unfolding b1(3) a_def by blast
  have m: "BitMask 5 = Some (mask 5)" by (simp add: BitMask_mask)
  have ix: "unat (bits AND mask 5) = unat bits mod 32" unfolding unat_and_mask by simp
  have bs: "br_bits br = w @ val_bits (extra_width code) x @ rest" using assms(4) word(1) by simp
  have len: "length (br_bits br) = a + 8 * avail_in b1" using length_br_bits [OF b1(2)] by (simp add: b1(3) a_def)
  have "\<exists>p. arr_get tbl (unat bits mod 32) = Some p \<and> unat (fast_bits p) \<le> 5 \<and>
    (if length w \<le> a then fast_bits p = of_nat (length w) \<and> fast_value p = of_nat code else a < unat (fast_bits p))"
    by (rule window_entry [OF assms(1) w, where bs = "br_bits br"]) (use win len bs in simp_all)
  then obtain p where p: "arr_get tbl (unat (bits AND mask 5)) = Some p" "unat (fast_bits p) \<le> 5"
    "if length w \<le> a then fast_bits p = of_nat (length w) \<and> fast_value p = of_nat code else a < unat (fast_bits p)"
    unfolding ix by blast
  have av: "unat (BrotliGetAvailableBits b1) = a" unfolding a_def by (rule unat_avail_bits [OF b1(2)])
  note step = safe_rscl_step_def b1(1) bits m p(1) bind.bind_lunit Let_def prod.case
  have wait: ?thesis if run: "safe_rscl_step tbl (of_nat N) gb br c = Some (True, True, b1, c)" and a: "a < L"
  proof -
    have "L \<le> 8" using word(2) w5 by (simp add: extra_width_def)
    then have "hungry True b1" using b1(2) a by (simp add: hungry_def a_def)
    then show ?thesis using run a b1(3-5) by (auto simp: a_def L_def)
  qed
  have drop: "br_ok (BrotliDropBits b1 n) \<and> br_bits (BrotliDropBits b1 n) = rest" if "unat n = L" "L \<le> a" for n
    using BrotliDropBits_spec [OF b1(2), of n] that by (simp add: b1(3) a_def assms(4) L_def)
  have u: "unat (of_nat code :: uint32) = code" "unat (of_nat (length w) :: uint32) = length w"
    using code(1) w5 by (simp_all add: unat_of_nat_small)
  show ?thesis
  proof (cases "length w \<le> a")
    case False
    then have "BrotliGetAvailableBits b1 < fast_bits p" using p(3) av by (simp add: word_less_nat_alt)
    then have "safe_rscl_step tbl (of_nat N) gb br c = Some (True, True, b1, c)" by (simp add: step)
    then show ?thesis using False word(2) by (intro wait) simp_all
  next
    case True
    then have pf: "fast_bits p = of_nat (length w)" "fast_value p = of_nat code" using p(3) by simp_all
    have fits: "\<not> fast_bits p > BrotliGetAvailableBits b1" using True av u(2) by (simp add: pf word_less_nat_alt)
    show ?thesis
    proof (cases "code < 16")
      case single: True
      then have lt: "fast_value p < 16" using u(1) by (simp add: pf word_less_nat_alt)
      have "ProcessSingleCodeLength (of_nat code) c = Some c1" using assms(6) lt by (simp add: length_step_def pf)
      then have "safe_rscl_step tbl (of_nat N) gb br c = Some (False, True, BrotliDropBits b1 (fast_bits p), c1)"
        using fits lt by (simp add: step pf)
      moreover have "L = length w" using single by (simp add: word(2) extra_width_def)
      ultimately show ?thesis using drop [of "fast_bits p"] True u(2) by (intro exI [of _ False]) (simp add: pf)
    next
      case False
      then have nlt: "\<not> fast_value p < 16" using u(1) by (simp add: pf word_less_nat_alt)
      define e where "e = extra_width code"
      have c2: "code = 16 \<or> code = 17" using False code(1) by linarith
      have e: "fast_value p - 14 = of_nat e" "e \<le> 3" "unat (of_nat e :: uint32) = e" "x < 2 ^ e"
        using c2 code by (auto simp: e_def extra_width_def pf)
      have me: "BitMask (of_nat e) = Some (mask e)" using e(2,3) by (simp add: BitMask_mask)
      have sh: "shr32 bits (fast_bits p) = Some (drop_bit (length w) bits)"
        using w5 u(2) by (simp add: shr32_def word_less_nat_alt pf)
      have sum: "unat (fast_bits p + of_nat e) = L"
        unfolding unat_word_ariths pf u(2) e(3) using w5 e(2) by (simp add: word(2) e_def)
      show ?thesis
      proof (cases "a < L")
        case True
        then have "BrotliGetAvailableBits b1 < fast_bits p + of_nat e" using sum av by (simp add: word_less_nat_alt)
        then have "safe_rscl_step tbl (of_nat N) gb br c = Some (True, True, b1, c)"
          unfolding step if_not_P [OF fits] if_not_P [OF nlt] e(1) sh me by simp
        then show ?thesis using True by (intro wait)
      next
        case enough: False
        have "take (length w + e) (br_bits br) = val_bits (length w + e) (unat bits)"
          using enough w5 e(2) by (intro win) (simp_all add: word(2) e_def)
        from extra_bits_of_window [OF this bs [folded e_def] refl e(4)]
        have "unat (drop_bit (length w) bits AND mask e) = x" unfolding unat_and_mask unat_drop_bit_div .
        then have x: "drop_bit (length w) bits AND mask e = of_nat x" by (metis of_nat_unat ucast_id)
        have "ProcessRepeatedCodeLength (of_nat code) (of_nat x) (of_nat N) c = Some c1"
          using assms(6) nlt by (simp add: length_step_def pf)
        moreover have "\<not> BrotliGetAvailableBits b1 < fast_bits p + of_nat e" using enough sum av by (simp add: word_less_nat_alt)
        ultimately have "safe_rscl_step tbl (of_nat N) gb br c = Some (False, True, BrotliDropBits b1 (fast_bits p + of_nat e), c1)"
          unfolding step if_not_P [OF fits] if_not_P [OF nlt] e(1) sh me x by (simp add: pf(2))
        then show ?thesis using drop [OF sum] enough by (intro exI [of _ False]) simp
      qed
    qed
  qed
qed

text \<open>The words that take \<open>c\<close> to \<open>c'\<close>, where the loops end.\<close>

fun words_run :: "nat \<Rightarrow> (nat \<times> nat) list \<Rightarrow> code_lengths \<Rightarrow> code_lengths \<Rightarrow> bool" where
  "words_run N [] c c' \<longleftrightarrow> c' = c \<and> lengths_done N c"
| "words_run N ((code, x) # ts) c c' \<longleftrightarrow> \<not> lengths_done N c \<and>
     (\<exists>c1. length_step (of_nat code) (of_nat x) (of_nat N) c = Some c1 \<and> words_run N ts c1 c')"

definition length_words :: "code_words \<Rightarrow> (nat \<times> nat) list \<Rightarrow> bits" where
  "length_words ws ts = concat (map (length_word ws) ts)"

lemma length_words_simps [simp]:
  "length_words ws [] = []" "length_words ws (t # ts) = length_word ws t @ length_words ws ts"
  "length_words ws (ts @ us) = length_words ws ts @ length_words ws us"
  by (simp_all add: length_words_def)

lemma safe_loop_word:
  assumes "window_table ws tbl" and "word_ok ws (code, x)" and "\<not> lengths_done N c"
    and "length_step (of_nat code) (of_nat x) (of_nat N) c = Some c1"
    and "hungry gb br" and "br_bits br = length_word ws (code, x) @ rest"
    and "gb \<longrightarrow> 64 - unat (br_bit_pos br) < length (length_word ws (code, x))"
  shows "\<exists>br'. safe_rscl_loop tbl (of_nat N) gb br c = safe_rscl_loop tbl (of_nat N) False br' c1 \<and> br_ok br' \<and> br_bits br' = rest"
  using assms(5-7)
proof (induction "avail_in br + (if gb then 0 else 1)" arbitrary: gb br rule: less_induct)
  case less
  from safe_step_word [OF assms(1,2) less.prems assms(4)] obtain gb' b c' where
    s: "safe_rscl_step tbl (of_nat N) gb br c = Some (gb', True, b, c')"
    "\<not> gb' \<and> br_ok b \<and> br_bits b = rest \<and> c' = c1 \<or>
     gb' \<and> hungry True b \<and> br_bits b = br_bits br \<and> c' = c \<and> avail_in b \<le> avail_in br \<and>
       (gb \<longrightarrow> avail_in b < avail_in br) \<and> 64 - unat (br_bit_pos b) < length (length_word ws (code, x))" by blast
  have step: "safe_rscl_loop tbl (of_nat N) gb br c = safe_rscl_loop tbl (of_nat N) gb' b c'"
    using assms(3) s(1) by (subst safe_rscl_loop.simps) (auto simp: lengths_done_def)
  from s(2) show ?case
  proof (elim disjE conjE)
    assume "\<not> gb'" "br_ok b" "br_bits b = rest" "c' = c1"
    then show ?case using step by auto
  next
    assume b: "gb'" "hungry True b" "br_bits b = br_bits br" "c' = c" "avail_in b \<le> avail_in br"
      "gb \<longrightarrow> avail_in b < avail_in br" "64 - unat (br_bit_pos b) < length (length_word ws (code, x))"
    have "avail_in b + (if gb' then 0 else 1) < avail_in br + (if gb then 0 else 1)" using b(1,5,6) by auto
    from less.hyps [OF this] b(1-3,7) less.prems(2) show ?case unfolding step b(4) by simp
  qed
qed

lemma safe_loop_words:
  assumes "window_table ws tbl" and "list_all (word_ok ws) ts" and "words_run N ts c c'" and "br_ok br"
    and "br_bits br = length_words ws ts @ rest"
  shows "\<exists>br'. safe_rscl_loop tbl (of_nat N) False br c = Some (True, br', c') \<and> br_ok br' \<and> br_bits br' = rest"
  using assms(2-5)
proof (induction ts arbitrary: c br)
  case Nil
  then show ?case by (subst safe_rscl_loop.simps) (auto simp: lengths_done_def)
next
  case (Cons t ts)
  obtain code x where t: "t = (code, x)" by (cases t)
  obtain c1 where c1: "\<not> lengths_done N c" "length_step (of_nat code) (of_nat x) (of_nat N) c = Some c1" "words_run N ts c1 c'"
    using Cons.prems(2) by (auto simp: t)
  have "word_ok ws (code, x)" "hungry False br" "br_bits br = length_word ws (code, x) @ length_words ws ts @ rest"
    using Cons.prems by (simp_all add: t hungry_def)
  from safe_loop_word [OF assms(1) this(1) c1(1,2) this(2,3)] obtain b where
    "safe_rscl_loop tbl (of_nat N) False br c = safe_rscl_loop tbl (of_nat N) False b c1" "br_ok b"
    "br_bits b = length_words ws ts @ rest" by auto
  then show ?case using Cons.IH [OF _ c1(3)] Cons.prems(1) by simp
qed

section \<open>The fast loop\<close>

lemma warm_window_bits:
  assumes "br_warm br"
  shows "\<exists>v. BrotliGetBitsUnmasked br = Some v \<and>
    (\<forall>j \<le> 64 - unat (br_bit_pos br). take j (br_bits br) = val_bits j (unat v))"
proof -
  define v where "v = drop_bit (unat (br_bit_pos br)) (br_val br)"
  have ok: "br_ok br" "unat (br_bit_pos br) < 64" using assms by (simp_all add: br_warm_def)
  have "BrotliGetBitsUnmasked br = Some v" using ok(2) by (simp add: BrotliGetBitsUnmasked_def word_less_nat_alt v_def)
  moreover have "take j (br_bits br) = val_bits j (unat v)" if j: "j \<le> 64 - unat (br_bit_pos br)" for j
  proof (rule nth_equalityI)
    fix i assume "i < length (take j (br_bits br))"
    then have i: "i < j" "i < 64 - unat (br_bit_pos br)" using j by simp_all
    then show "take j (br_bits br) ! i = val_bits j (unat v) ! i"
      by (simp add: br_bits_def nth_append word_bits_def val_bits_def v_def unat_bit_iff bit_simps add.commute)
  qed (use j length_br_bits [OF ok(1)] in simp)
  ultimately show ?thesis by blast
qed

lemma rscl_step_word:
  assumes "window_table ws tbl" and "word_ok ws (code, x)" and "br_warm br" and "4 \<le> avail_in br"
    and "br_bits br = length_word ws (code, x) @ rest"
    and "length_step (of_nat code) (of_nat x) (of_nat N) c = Some c1"
  shows "\<exists>br'. rscl_step tbl (of_nat N) br c = Some (br', c1) \<and> br_warm br' \<and> br_bits br' = rest"
proof -
  obtain w where w: "ws code = Some w" using assms(2) by (auto simp: word_ok_def)
  have code: "code \<le> 17" "x \<le> 7" "code = 16 \<longrightarrow> x < 4" using assms(2) by (simp_all add: word_ok_def code_ok_def)
  have w5: "length w \<le> 5" using assms(1) w by (auto simp: window_table_def)
  have bs: "br_bits br = w @ val_bits (extra_width code) x @ rest" using assms(5) by (simp add: length_word_def w)
  obtain b1 where b1: "BrotliFillBitWindow16 br = Some b1" "br_warm b1" "unat (br_bit_pos b1) < 32" "br_bits b1 = br_bits br"
    using BrotliFillBitWindow16_spec [OF assms(3,4)] by blast
  have ok: "br_ok b1" using b1(2) by (simp add: br_warm_def)
  obtain v where v: "BrotliGetBitsUnmasked b1 = Some v" and win: "\<And>j. j \<le> 32 \<Longrightarrow> take j (br_bits br) = val_bits j (unat v)"
    using warm_window_bits [OF b1(2)] b1(3,4) by auto
  have m: "BitMask 5 = Some (mask 5)" by (simp add: BitMask_mask)
  have m64: "ucast (mask 5 :: uint32) = (mask 5 :: uint64)" by (simp add: mask_eq_exp_minus_1)
  have ix: "unat (v AND ucast (mask 5 :: uint32)) = unat v mod 32" unfolding m64 unat_and_mask by simp
  have long: "32 \<le> length (br_bits br)" using length_br_bits [OF ok] b1(3,4) by simp
  have "\<exists>p. arr_get tbl (unat v mod 32) = Some p \<and> unat (fast_bits p) \<le> 5 \<and>
    (if length w \<le> 5 then fast_bits p = of_nat (length w) \<and> fast_value p = of_nat code else 5 < unat (fast_bits p))"
    by (rule window_entry [OF assms(1) w, where bs = "br_bits br"]) (use win bs long in simp_all)
  then obtain p where p: "arr_get tbl (unat (v AND ucast (mask 5 :: uint32))) = Some p"
    "fast_bits p = of_nat (length w)" "fast_value p = of_nat code" unfolding ix using w5 by auto
  have u: "unat (of_nat code :: uint32) = code" "unat (of_nat (length w) :: uint32) = length w"
    using code(1) w5 by (simp_all add: unat_of_nat_small)
  define b2 where "b2 = BrotliDropBits b1 (of_nat (length w))"
  have b2: "br_ok b2" "unat (br_bit_pos b2) < 37" "br_bits b2 = val_bits (extra_width code) x @ rest"
    using BrotliDropBits_spec [OF ok, of "of_nat (length w)"] u(2) w5 b1(3,4) bs by (simp_all add: b2_def)
  then have w2: "br_warm b2" by (simp add: br_warm_def)
  show ?thesis
  proof (cases "code < 16")
    case True
    then have lt: "(of_nat code :: uint32) < 16" using u(1) by (simp add: word_less_nat_alt)
    then have "ProcessSingleCodeLength (of_nat code) c = Some c1" using assms(6) by (simp add: length_step_def)
    then have "rscl_step tbl (of_nat N) br c = Some (b2, c1)"
      unfolding rscl_step_def b1(1) v m p(1) bind.bind_lunit Let_def p(2,3) b2_def [symmetric] if_P [OF lt] by simp
    moreover have "br_bits b2 = rest" using b2(3) True by (simp add: extra_width_def)
    ultimately show ?thesis using w2 by blast
  next
    case False
    then have nlt: "\<not> (of_nat code :: uint32) < 16" using u(1) by (simp add: word_less_nat_alt)
    define e where "e = extra_width code"
    have c2: "code = 16 \<or> code = 17" using False code(1) by linarith
    have e: "(if (of_nat code :: uint32) = 16 then 2 else 3) = (of_nat e :: uint32)" "e \<le> 3" "unat (of_nat e :: uint32) = e" "x < 2 ^ e"
      using c2 code by (auto simp: e_def extra_width_def)
    obtain v2 where v2: "BrotliGetBitsUnmasked b2 = Some v2" and win2: "\<And>j. j \<le> 20 \<Longrightarrow> take j (br_bits b2) = val_bits j (unat v2)"
      using warm_window_bits [OF w2] b2(2) by auto
    have me: "BitMask (of_nat e) = Some (mask e)" using e(2,3) by (simp add: BitMask_mask)
    have "val_bits e (unat v2) = val_bits e x" using win2 [of e] e(2) b2(3) by (simp add: e_def)
    then have "unat v2 mod 2 ^ e = x" using bits_val_val_bits [of e "unat v2"] e(4) by simp
    moreover have "(2 :: nat) ^ e dvd 2 ^ 32" by (rule le_imp_power_dvd) (use e(2) in simp)
    ultimately have "unat v2 mod 2 ^ 32 mod 2 ^ e = x" by (simp add: mod_mod_cancel del: power.simps)
    moreover have "unat (ucast v2 :: uint32) = unat v2 mod 2 ^ 32" by (simp add: unsigned_ucast_eq take_bit_eq_mod)
    ultimately have "unat (ucast v2 AND mask e :: uint32) = x" unfolding unat_and_mask by simp
    then have x: "ucast v2 AND mask e = (of_nat x :: uint32)" by (metis of_nat_unat ucast_id)
    have b3: "br_warm (BrotliDropBits b2 (of_nat e))" "br_bits (BrotliDropBits b2 (of_nat e)) = rest"
      using BrotliDropBits_spec [OF b2(1), of "of_nat e"] e(2,3) b2(2,3) by (simp_all add: br_warm_def e_def)
    have "ProcessRepeatedCodeLength (of_nat code) (of_nat x) (of_nat N) c = Some c1"
      using assms(6) nlt by (simp add: length_step_def)
    then have "rscl_step tbl (of_nat N) br c = Some (BrotliDropBits b2 (of_nat e), c1)"
      unfolding rscl_step_def b1(1) v m p(1) bind.bind_lunit Let_def p(2,3) b2_def [symmetric] if_not_P [OF nlt] e(1) v2 me x by simp
    then show ?thesis using b3 by blast
  qed
qed

lemma rscl_loop_words:
  assumes "window_table ws tbl" and "list_all (word_ok ws) ts" and "words_run N ts c c'" and "br_warm br"
    and "br_bits br = length_words ws ts @ rest"
  shows "\<exists>don br' c2 us. rscl_loop tbl (of_nat N) br c = Some (don, br', c2) \<and> br_ok br' \<and>
    br_bits br' = length_words ws us @ rest \<and> list_all (word_ok ws) us \<and> words_run N us c2 c' \<and> (don \<longrightarrow> us = [])"
  using assms(2-5)
proof (induction ts arbitrary: c br)
  case Nil
  then have "rscl_loop tbl (of_nat N) br c = Some (True, br, c)"
    by (subst rscl_loop.simps) (auto simp: lengths_done_def)
  then show ?case using Nil by (intro exI [of _ True] exI [of _ br] exI [of _ c] exI [of _ "[]"]) (simp add: br_warm_def)
next
  case (Cons t ts)
  obtain code x where t: "t = (code, x)" by (cases t)
  obtain c1 where c1: "\<not> lengths_done N c" "length_step (of_nat code) (of_nat x) (of_nat N) c = Some c1" "words_run N ts c1 c'"
    using Cons.prems(2) by (auto simp: t)
  have open_loop: "cl_symbol c < of_nat N \<and> cl_space c > 0" using c1(1) by (simp add: lengths_done_def)
  show ?case
  proof (cases "BrotliCheckInputAmount br 4")
    case False
    then have "rscl_loop tbl (of_nat N) br c = Some (False, br, c)" using open_loop by (subst rscl_loop.simps) simp
    then show ?thesis using Cons.prems
      by (intro exI [of _ False] exI [of _ br] exI [of _ c] exI [of _ "t # ts"]) (simp add: br_warm_def)
  next
    case True
    then have av: "4 \<le> avail_in br" by (simp add: BrotliCheckInputAmount_def)
    have "word_ok ws (code, x)" "br_bits br = length_word ws (code, x) @ length_words ws ts @ rest"
      using Cons.prems by (simp_all add: t)
    from rscl_step_word [OF assms(1) this(1) Cons.prems(3) av this(2) c1(2)] obtain b where
      b: "rscl_step tbl (of_nat N) br c = Some (b, c1)" "br_warm b" "br_bits b = length_words ws ts @ rest" by blast
    have "rscl_loop tbl (of_nat N) br c = rscl_loop tbl (of_nat N) b c1"
      using open_loop True b(1) by (subst rscl_loop.simps) simp
    then show ?thesis using Cons.IH [OF _ c1(3) b(2,3)] Cons.prems(1) by simp
  qed
qed

section \<open>A complete code ends the loops\<close>

lemma kraft_append_le: "list_all (\<lambda>l. l \<le> 15) ext \<Longrightarrow> kraft ls \<le> kraft (ls @ ext)"
proof (induction ext rule: rev_induct)
  case (snoc l ext)
  have "kraft (ls @ ext) \<le> kraft ((ls @ ext) @ replicate 1 l)" using snoc.prems by (subst kraft_replicate) simp_all
  then show ?case using snoc by simp
qed simp

lemma kraft_append_less:
  assumes "list_all (\<lambda>l. l \<le> 15) ext" and "ext \<noteq> []" and "List.last ext \<noteq> 0"
  shows "kraft ls < kraft (ls @ ext)"
proof -
  obtain es l where ext: "ext = es @ [l]" using assms(2) by (cases ext rule: rev_cases) auto
  have "kraft ((ls @ es) @ replicate 1 l) = kraft (ls @ es) + 1 * 2 ^ (15 - l)"
    using assms by (subst kraft_replicate) (simp_all add: ext)
  moreover have "kraft ls \<le> kraft (ls @ es)" by (rule kraft_append_le) (use assms(1) in \<open>simp add: ext\<close>)
  moreover have "(0 :: nat) < 2 ^ (15 - l)" by simp
  ultimately have "kraft ls < kraft ((ls @ es) @ replicate 1 l)" by linarith
  then show ?thesis by (simp add: ext)
qed

lemma len_step_extends: "\<exists>ext. fst (len_step t S) = fst S @ ext"
  by (cases t; cases S) (simp add: len_step.simps Let_def)

lemma len_steps_extend: "\<exists>ext. fst (fold len_step ts S) = fst S @ ext"
proof (induction ts arbitrary: S)
  case (Cons t ts)
  then show ?case using len_step_extends [of t S] by (metis append.assoc comp_apply fold.simps(2))
qed simp

text \<open>Every code adds a length, a repeat at least one.\<close>

lemma len_step_adds:
  assumes "code_ok (code, x)" and "rep = 0 \<or> 3 \<le> rep"
  shows "fst (len_step (code, x) (ls, prev, rep, rl)) \<noteq> ls"
proof (cases "code < 16")
  case False
  define nl e where "nl = (if code = 16 then prev else 0)" and "e = (if code = 16 then 2 else 3 :: nat)"
  define r where "r = (if rl \<noteq> nl then 0 else rep)"
  have "r < repeat_to e x r" using assms by (auto simp: repeat_to_def r_def e_def)
  then show ?thesis using False by (simp add: len_step.simps Let_def nl_def e_def r_def)
qed (simp add: len_step.simps)

text \<open>Lengths that do not end with zero leave no code space before the last of them.\<close>

lemma words_run_complete:
  assumes "follows N S c" and "list_all code_ok ts" and "N < 2 ^ 16"
    and "fst (fold len_step ts S) = ls" and "complete_code ls" and "List.last ls \<noteq> 0" and "length ls \<le> N"
  shows "\<exists>c'. words_run N ts c c' \<and> follows N (fold len_step ts S) c'"
  using assms(1,2,4)
proof (induction ts arbitrary: S c)
  case Nil
  have inv: "lengths_inv N ls c" using Nil.prems(1,3) by (cases S) (simp add: follows_def)
  then have "kraft ls = 32768" using assms(5) by (simp add: complete_code_def kraft_def)
  then have "cl_space c = 0" using inv by (simp add: lengths_inv_def)
  then show ?case using Nil by (simp add: lengths_done_def)
next
  case (Cons t ts)
  obtain code x where t: "t = (code, x)" by (cases t)
  have inv: "lengths_inv N (fst S) c" using Cons.prems(1) by (cases S) (simp add: follows_def)
  obtain sl prev rep rl where S: "S = (sl, prev, rep, rl)" by (cases S)
  have "rep = 0 \<or> 3 \<le> rep" using Cons.prems(1) inv by (auto simp: follows_def lengths_inv_def S)
  moreover have "code_ok (code, x)" using Cons.prems(2) by (simp add: t)
  ultimately have adds: "fst (len_step t S) \<noteq> fst S" using len_step_adds by (simp add: t S)
  obtain e0 where e0: "fst (len_step t S) = fst S @ e0" using len_step_extends by blast
  obtain ext1 where e1: "ls = fst (len_step t S) @ ext1" using len_steps_extend [of ts "len_step t S"] Cons.prems(3) by auto
  define ext where "ext = e0 @ ext1"
  have ext: "ls = fst S @ ext" by (simp add: ext_def e0 e1)
  have ne: "ext \<noteq> []" using adds by (simp add: ext_def e0)
  have all: "list_all (\<lambda>l. l \<le> 15) ext" using assms(5) by (simp add: complete_code_def ext)
  have full: "kraft ls = 32768" using assms(5) by (simp add: complete_code_def kraft_def)
  have "kraft (fst S) < 32768" using kraft_append_less [OF all ne, of "fst S"] assms(6) ne full by (simp add: ext)
  then have "(of_nat (kraft (fst S)) :: uint32) < 32768"
    by (simp add: word_less_nat_alt unat_of_nat_small)
  then have "cl_space c > 0" using inv by (auto simp: lengths_inv_def word_gt_0)
  moreover have "cl_symbol c < of_nat N" using loop_condition [OF inv assms(3)] ne assms(7) by (cases ext) (simp_all add: ext)
  ultimately have open_loop: "\<not> lengths_done N c" by (simp add: lengths_done_def)
  have small: "length (fst (len_step (code, x) S)) \<le> N" using assms(7) e1 by (simp add: t)
  have "code \<le> 17" "x \<le> 7" using Cons.prems(2) by (simp_all add: t code_ok_def)
  from length_step_follows [OF Cons.prems(1) this small assms(3)] obtain c1 where
    c1: "length_step (of_nat code) (of_nat x) (of_nat N) c = Some c1" "follows N (len_step t S) c1" unfolding t by blast
  from Cons.IH [OF c1(2)] obtain c' where "words_run N ts c1 c'" "follows N (fold len_step ts (len_step t S)) c'"
    using Cons.prems(2,3) by auto
  then show ?case using open_loop c1(1) by (auto simp: t)
qed

section \<open>The readers\<close>

text \<open>Whichever of the two readers comes to the end, it has read the words and kept the rest.\<close>

lemma read_length_words:
  assumes "window_table ws (h_table (d_header s))" and "list_all (word_ok ws) ts" and "words_run N ts (lengths_of s) c'"
    and "s_ok s" and "s_bits s = length_words ws ts @ rest"
  shows "\<exists>r s1 s'. ReadSymbolCodeLengths (of_nat N) s = Some (r, s1) \<and>
    (if r = BROTLI_DECODER_NEEDS_MORE_INPUT then SafeReadSymbolCodeLengths (of_nat N) s1 else Some (r, s1)) =
      Some (BROTLI_DECODER_SUCCESS, s') \<and> s_ok s' \<and> s_bits s' = rest \<and>
    h_space (d_header s') = cl_space c' \<and> h_symbols_lists_array (d_header s') = cl_symbol_lists c' \<and>
    h_code_length_histo (d_header s') = cl_histo c'"
proof -
  have safe: "\<exists>s'. SafeReadSymbolCodeLengths (of_nat N) s1 = Some (BROTLI_DECODER_SUCCESS, s') \<and> s_ok s' \<and> s_bits s' = rest \<and>
      h_space (d_header s') = cl_space c' \<and> h_symbols_lists_array (d_header s') = cl_symbol_lists c' \<and>
      h_code_length_histo (d_header s') = cl_histo c'"
    if s1: "h_table (d_header s1) = h_table (d_header s)" "list_all (word_ok ws) us" "words_run N us (lengths_of s1) c'" "s_ok s1"
      "s_bits s1 = length_words ws us @ rest" for s1 us
  proof -
    have "window_table ws (h_table (d_header s1))" using assms(1) s1(1) by simp
    from safe_loop_words [OF this s1(2-5)] obtain b where
      "safe_rscl_loop (h_table (d_header s1)) (of_nat N) False (d_br s1) (lengths_of s1) = Some (True, b, c')" "br_ok b" "br_bits b = rest" by blast
    then show ?thesis by (simp add: SafeReadSymbolCodeLengths_def lengths_of_def h_put_lengths_def h_put_arrays_def)
  qed
  obtain b1 where b1: "BrotliWarmupBitReader (d_br s) = Some (s_bits s \<noteq> [], b1)" "br_ok b1" "br_bits b1 = s_bits s" "s_bits s \<noteq> [] \<longrightarrow> br_warm b1"
    using BrotliWarmupBitReader_spec [OF assms(4)] by blast
  show ?thesis
  proof (cases "s_bits s = []")
    case True
    define s1 where "s1 = s\<lparr>d_br := b1\<rparr>"
    have r: "ReadSymbolCodeLengths (of_nat N) s = Some (BROTLI_DECODER_NEEDS_MORE_INPUT, s1)"
      using b1(1) True by (simp add: ReadSymbolCodeLengths_def s1_def)
    have "\<exists>s'. SafeReadSymbolCodeLengths (of_nat N) s1 = Some (BROTLI_DECODER_SUCCESS, s') \<and> s_ok s' \<and> s_bits s' = rest \<and>
      h_space (d_header s') = cl_space c' \<and> h_symbols_lists_array (d_header s') = cl_symbol_lists c' \<and>
      h_code_length_histo (d_header s') = cl_histo c'"
      by (rule safe [of _ ts]) (use b1 assms in \<open>simp_all add: s1_def lengths_of_def\<close>)
    then show ?thesis using r by auto
  next
    case False
    then have "br_warm b1" "br_bits b1 = length_words ws ts @ rest" using b1(3,4) assms(5) by simp_all
    from rscl_loop_words [OF assms(1-3) this] obtain don b2 c2 us where
      l: "rscl_loop (h_table (d_header s)) (of_nat N) b1 (lengths_of s) = Some (don, b2, c2)" "br_ok b2" "br_bits b2 = length_words ws us @ rest"
      "list_all (word_ok ws) us" "words_run N us c2 c'" "don \<longrightarrow> us = []" by blast
    show ?thesis
    proof (cases don)
      case True
      then have "c' = c2" "br_bits b2 = rest" using l(3,5,6) by simp_all
      then show ?thesis using b1(1) False l(1,2) True
        by (simp add: ReadSymbolCodeLengths_def lengths_of_def h_put_arrays_def)
    next
      case nd: False
      define s1 where "s1 = h_upd (h_put_lengths c2) (s\<lparr>d_br := b2\<rparr>)"
      have r: "ReadSymbolCodeLengths (of_nat N) s = Some (BROTLI_DECODER_NEEDS_MORE_INPUT, s1)"
        using b1(1) False l(1) nd by (simp add: ReadSymbolCodeLengths_def s1_def lengths_of_def)
      have "\<exists>s'. SafeReadSymbolCodeLengths (of_nat N) s1 = Some (BROTLI_DECODER_SUCCESS, s') \<and> s_ok s' \<and> s_bits s' = rest \<and>
        h_space (d_header s') = cl_space c' \<and> h_symbols_lists_array (d_header s') = cl_symbol_lists c' \<and>
        h_code_length_histo (d_header s') = cl_histo c'"
        by (rule safe [of _ us]) (use l in \<open>simp_all add: s1_def lengths_of_def lengths_of_put\<close>)
      then show ?thesis using r by auto
    qed
  qed
qed

text \<open>Then the table of the lengths is built.\<close>

lemma rhc_length_symbols_words:
  assumes "window_table ws (h_table (d_header s))" and "list_all (word_ok ws) ts" and "s_ok s" and "s_bits s = length_words ws ts @ rest"
    and "follows N S (lengths_of s)" and "fst (fold len_step ts S) = ls" and "N < 2 ^ 16"
    and "complete_code ls" and "List.last ls \<noteq> 0" and "length ls \<le> N" and "base + table_cells ls \<le> length tbl"
  shows "\<exists>t s'. rhc_length_symbols (of_nat N) tbl base s = Some (BROTLI_DECODER_SUCCESS, Some (of_nat (table_cells ls)), t, s') \<and>
    frame base (base + table_cells ls) tbl t \<and> decodes ls base t \<and> s_ok s' \<and> s_bits s' = rest"
proof -
  have codes: "list_all code_ok ts" using assms(2) by (auto simp: list_all_iff word_ok_def)
  obtain c' where c': "words_run N ts (lengths_of s) c'" "follows N (fold len_step ts S) c'"
    using words_run_complete [OF assms(5) codes assms(7,6,8-10)] by blast
  have inv: "lengths_inv N ls c'" using c'(2) assms(6) by (cases "fold len_step ts S") (simp add: follows_def)
  have "kraft ls = 32768" using assms(8) by (simp add: complete_code_def kraft_def)
  then have space: "cl_space c' = 0" using inv by (simp add: lengths_inv_def)
  note code = lengths_complete [OF inv assms(7) space]
  obtain r s1 s2 where r: "ReadSymbolCodeLengths (of_nat N) s = Some (r, s1)"
    "(if r = BROTLI_DECODER_NEEDS_MORE_INPUT then SafeReadSymbolCodeLengths (of_nat N) s1 else Some (r, s1)) = Some (BROTLI_DECODER_SUCCESS, s2)"
    "s_ok s2" "s_bits s2 = rest" "h_space (d_header s2) = cl_space c'" "h_symbols_lists_array (d_header s2) = cl_symbol_lists c'"
    "h_code_length_histo (d_header s2) = cl_histo c'"
    using read_length_words [OF assms(1,2) c'(1) assms(3,4)] by blast
  obtain t histo where t: "BrotliBuildHuffmanTable tbl base 8 (cl_symbol_lists c') (cl_histo c') = Some (of_nat (table_cells ls), t, histo)"
    "frame base (base + table_cells ls) tbl t" "table_ok ls base t"
    using BrotliBuildHuffmanTable_spec [OF code assms(11)] by blast
  have "base + table_cells ls \<le> length t" "length ls < 2 ^ 16" using t(2) assms(7,10,11) by (simp_all add: frame_def)
  then have "decodes ls base t" by (intro decodesI [OF assms(8) t(3)])
  moreover have "rhc_length_symbols (of_nat N) tbl base s = Some (BROTLI_DECODER_SUCCESS, Some (of_nat (table_cells ls)), t,
      h_upd (\<lambda>h. h\<lparr>h_code_length_histo := histo, h_substate_huffman := BROTLI_STATE_HUFFMAN_NONE\<rparr>) s2)"
    unfolding rhc_length_symbols_def r(1) bind.bind_lunit prod.case r(2) using r(5-7) space t(1) by simp
  ultimately show ?thesis using t(2) r(3,4) by (intro exI conjI) (assumption | simp)+
qed

end
