(* ===== verification/Code_Length_Table.thy ===== *)
theory Code_Length_Table
  imports Code_Length_Decode
begin

text \<open>
  \<open>BrotliBuildCodeLengthsHuffmanTable\<close> of \<^verbatim>\<open>dec/huffman.c\<close>: from the lengths of the 18 codes to the table of windows
  of five bits, for a complete code and for a code that is alone.
\<close>

section \<open>The sorted symbols\<close>

text \<open>By length, then by index; the unused symbols at the end.\<close>

definition sorted_symbols :: "nat list \<Rightarrow> nat list" where
  "sorted_symbols lens = concat (map (syms lens) [1..<6]) @ syms lens 0"

definition sorted_base :: "nat list \<Rightarrow> nat \<Rightarrow> nat" where
  "sorted_base lens l = length (concat (map (syms lens) [1..<if l = 0 then 6 else l]))"

definition short_lens :: "nat list \<Rightarrow> bool" where
  "short_lens lens \<longleftrightarrow> length lens = 18 \<and> list_all (\<lambda>l. l \<le> 5) lens"

definition short_counts :: "uint16 list \<Rightarrow> nat list \<Rightarrow> bool" where
  "short_counts count lens \<longleftrightarrow> 6 \<le> length count \<and> (\<forall>l \<in> {1..5}. unat (count ! l) = len_count lens l)"

lemma short_lens_nth: "short_lens lens \<Longrightarrow> s < 18 \<Longrightarrow> lens ! s \<le> 5"
  by (simp add: short_lens_def list_all_length)

lemma sorted_base_Suc: "0 < l \<Longrightarrow> sorted_base lens (Suc l) = sorted_base lens l + len_count lens l"
  by (simp add: sorted_base_def)

lemma sorted_base_simps: "sorted_base lens 1 = 0" "sorted_base lens 0 = sorted_base lens 6"
  by (simp_all add: sorted_base_def)

lemma sorted_symbols_facts:
  assumes "short_lens lens"
  shows "length (sorted_symbols lens) = 18" and "distinct (sorted_symbols lens)" and "set (sorted_symbols lens) = {0..<18}"
proof -
  have syms: "set (syms lens j) = {s. s < 18 \<and> lens ! s = j}" for j
    using assms by (auto simp: syms_def short_lens_def)
  have "sorted_symbols lens = syms lens 1 @ syms lens 2 @ syms lens 3 @ syms lens 4 @ syms lens 5 @ syms lens 0"
    by (simp add: sorted_symbols_def upt_rec eval_nat_numeral)
  note all = this
  show d: "distinct (sorted_symbols lens)" unfolding all distinct_append set_append syms
    by (intro conjI distinct_syms) auto
  have "lens ! s \<in> {0, 1, 2, 3, 4, 5}" if "s < 18" for s
    using short_lens_nth [OF assms that] by (simp only: insert_iff empty_iff) linarith
  then have "lens ! s = 1 \<or> lens ! s = 2 \<or> lens ! s = 3 \<or> lens ! s = 4 \<or> lens ! s = 5 \<or> lens ! s = 0" if "s < 18" for s
    using that by (metis insert_iff empty_iff)
  then show s: "set (sorted_symbols lens) = {0..<18}" unfolding all set_append syms by (intro set_eqI) (simp, blast)
  show "length (sorted_symbols lens) = 18" using distinct_card [OF d] s by simp
qed

lemma sorted_symbols_nth:
  assumes "l \<le> 5" and "i < len_count lens l"
  shows "sorted_base lens l + i < length (sorted_symbols lens)" and "sorted_symbols lens ! (sorted_base lens l + i) = syms lens l ! i"
proof -
  have "sorted_base lens l + i < length (sorted_symbols lens) \<and> sorted_symbols lens ! (sorted_base lens l + i) = syms lens l ! i"
  proof (cases "l = 0")
    case True
    then show ?thesis using assms(2) by (simp add: sorted_symbols_def sorted_base_def)
  next
    case False
    then have "[1..<6] = [1..<l] @ l # [Suc l..<6]" using assms(1) upt_add_eq_append [of 1 l "6 - l"] by (simp add: upt_conv_Cons)
    then have "sorted_symbols lens = concat (map (syms lens) [1..<l]) @ syms lens l @ concat (map (syms lens) [Suc l..<6]) @ syms lens 0"
      by (simp add: sorted_symbols_def)
    then show ?thesis using False assms(2) by (simp add: sorted_base_def nth_append)
  qed
  then show "sorted_base lens l + i < length (sorted_symbols lens)" "sorted_symbols lens ! (sorted_base lens l + i) = syms lens l ! i"
    by simp_all
qed

lemma sorted_total:
  assumes "short_lens lens"
  shows "sorted_base lens 0 + len_count lens 0 = 18"
  using sorted_symbols_facts(1) [OF assms] by (simp add: sorted_symbols_def sorted_base_def)

section \<open>Sorting\<close>

lemma clh_offsets_spec:
  assumes "short_lens lens" and "short_counts count lens"
  shows "\<exists>symbol offset. clh_offsets count = Some (symbol, offset) \<and> length offset = 6 \<and>
    (\<forall>l \<le> 5. offset ! l = int (sorted_base lens l + len_count lens l) - 1)"
proof -
  define P where "P b st \<longleftrightarrow> (case st of (symbol, offset) \<Rightarrow> symbol = int (sorted_base lens b) - 1 \<and> length offset = 6 \<and> offset ! 0 = 17 \<and>
    (\<forall>l. 0 < l \<longrightarrow> l < b \<longrightarrow> offset ! l = int (sorted_base lens (Suc l)) - 1))" for b and st :: "int \<times> int list"
  have "\<exists>st. clh_offsets count = Some st \<and> P 6 st"
    unfolding clh_offsets_def
  proof (rule foldM_upt [where P = P])
    show "P 1 (- 1, [17, 0, 0, 0, 0, 0])" by (simp add: P_def sorted_base_def)
  next
    fix b :: nat and st assume b: "1 \<le> b" "b < 6" and P: "P b st"
    obtain symbol offset where st: "st = (symbol, offset)" by (cases st)
    have c: "unat (count ! b) = len_count lens b" "b < length count" using assms(2) b by (simp_all add: short_counts_def)
    have p: "symbol = int (sorted_base lens b) - 1" "length offset = 6" "offset ! 0 = 17"
      "\<And>l. 0 < l \<Longrightarrow> l < b \<Longrightarrow> offset ! l = int (sorted_base lens (Suc l)) - 1" using P by (simp_all add: st P_def)
    have s1: "symbol + uint (count ! b) = int (sorted_base lens (Suc b)) - 1"
      using b(1) by (simp add: p(1) c(1) sorted_base_Suc uint_nat)
    have "P (Suc b) (symbol + uint (count ! b), offset[b := symbol + uint (count ! b)])"
      unfolding P_def s1 prod.case
    proof (intro conjI allI impI)
      fix l assume "0 < l" "l < Suc b"
      then show "offset[b := int (sorted_base lens (Suc b)) - 1] ! l = int (sorted_base lens (Suc l)) - 1"
        using p(2,4) b by (cases "l = b") simp_all
    qed (use p b in simp_all)
    then show "\<exists>s'. (case st of (symbol, offset) \<Rightarrow> do { c \<leftarrow> arr_get count b; let symbol = symbol + uint c;
        offset \<leftarrow> arr_set offset b symbol; Some (symbol, offset) }) = Some s' \<and> P (Suc b) s'"
      using c(2) p(2) b by (simp add: st Let_def)
  qed simp
  then obtain symbol offset where o: "clh_offsets count = Some (symbol, offset)" "length offset = 6" "offset ! 0 = 17"
    "\<forall>l. 0 < l \<longrightarrow> l < 6 \<longrightarrow> offset ! l = int (sorted_base lens (Suc l)) - 1" unfolding P_def by auto
  have "offset ! l = int (sorted_base lens l + len_count lens l) - 1" if "l \<le> 5" for l
    using o(3,4) that sorted_total [OF assms(1)] sorted_base_Suc [of l lens] by (cases "l = 0") simp_all
  then show ?thesis using o(1,2) by blast
qed

definition sort_inv :: "nat list \<Rightarrow> nat \<Rightarrow> int list \<times> int option list \<Rightarrow> bool" where
  "sort_inv lens n st \<longleftrightarrow> (case st of (offset, srt) \<Rightarrow> length offset = 6 \<and> length srt = 18 \<and>
     (\<forall>l \<le> 5. offset ! l = int (sorted_base lens l + length (filter (\<lambda>t. lens ! t = l) [0..<n])) - 1) \<and>
     (\<forall>p < 18. srt ! p = (if n \<le> sorted_symbols lens ! p then Some (int (sorted_symbols lens ! p)) else None)))"

lemma clh_sort_loop:
  assumes "short_lens lens" and "map unat code_lengths = lens" and "n \<le> 18" and "sort_inv lens n st"
  shows "\<exists>st'. foldM (\<lambda>symbol (offset, sorted_syms). do {
       l \<leftarrow> arr_get code_lengths symbol;
       off \<leftarrow> arr_get offset (unat l);
       sorted_syms \<leftarrow> arr_seti sorted_syms off (Some (int symbol));
       offset \<leftarrow> arr_set offset (unat l) (off - 1);
       Some (offset, sorted_syms) }) (rev [0..<n]) st = Some st' \<and> sort_inv lens 0 st'"
  using assms(3,4)
proof (induction n arbitrary: st)
  case (Suc n)
  obtain offset srt where st: "st = (offset, srt)" by (cases st)
  define l where "l = lens ! n"
  define i where "i = length (filter (\<lambda>t. lens ! t = l) [0..<n])"
  have n: "n < length lens" using Suc.prems(1) assms(1) by (simp add: short_lens_def)
  have l: "l \<le> 5" using short_lens_nth [OF assms(1)] Suc.prems(1) by (simp add: l_def)
  obtain k where k: "k < len_count lens l" "syms lens l ! k = n" using syms_index [OF n] by (auto simp: l_def)
  have "k = i" using filter_upt_nth(1) [of k "\<lambda>s. lens ! s = l" "length lens"] k by (simp add: i_def syms_def)
  then have i: "i < len_count lens l" "syms lens l ! i = n" using k by simp_all
  note p = sorted_symbols_nth [OF l i(1)]
  have p18: "sorted_base lens l + i < 18" using p(1) sorted_symbols_facts(1) [OF assms(1)] by simp
  have inv: "length offset = 6" "length srt = 18"
    "\<And>j. j \<le> 5 \<Longrightarrow> offset ! j = int (sorted_base lens j + length (filter (\<lambda>t. lens ! t = j) [0..<Suc n])) - 1"
    "\<And>q. q < 18 \<Longrightarrow> srt ! q = (if Suc n \<le> sorted_symbols lens ! q then Some (int (sorted_symbols lens ! q)) else None)"
    using Suc.prems(2) by (auto simp: sort_inv_def st)
  have off: "offset ! l = int (sorted_base lens l + i)" using inv(3) [OF l] by (simp add: i_def l_def)
  have cl: "arr_get code_lengths n = Some (code_lengths ! n)" "unat (code_lengths ! n) = l"
    using n assms(2) by (auto simp: l_def)
  define st1 where "st1 = (offset[l := int (sorted_base lens l + i) - 1], srt[sorted_base lens l + i := Some (int n)])"
  have "sort_inv lens n st1"
    unfolding sort_inv_def st1_def prod.case
  proof (intro conjI allI impI)
    fix j :: nat assume j: "j \<le> 5"
    show "offset[l := int (sorted_base lens l + i) - 1] ! j = int (sorted_base lens j + length (filter (\<lambda>t. lens ! t = j) [0..<n])) - 1"
      using inv(1) inv(3) [OF j] j l by (cases "j = l") (auto simp: i_def l_def)
  next
    fix q :: nat assume q: "q < 18"
    show "srt[sorted_base lens l + i := Some (int n)] ! q =
        (if n \<le> sorted_symbols lens ! q then Some (int (sorted_symbols lens ! q)) else None)"
    proof (cases "q = sorted_base lens l + i")
      case True
      then show ?thesis using inv(2) q p(2) i(2) by simp
    next
      case False
      have "sorted_symbols lens ! q \<noteq> sorted_symbols lens ! (sorted_base lens l + i)"
        using False q p18 sorted_symbols_facts(1,2) [OF assms(1)] by (simp add: nth_eq_iff_index_eq)
      then have "sorted_symbols lens ! q \<noteq> n" using p(2) i(2) by simp
      then show ?thesis using False inv(4) [OF q] by auto
    qed
  qed (use inv in simp_all)
  from Suc.IH [OF _ this] Suc.prems(1) obtain st' where
    "foldM (\<lambda>symbol (offset, sorted_syms). do {
       l \<leftarrow> arr_get code_lengths symbol;
       off \<leftarrow> arr_get offset (unat l);
       sorted_syms \<leftarrow> arr_seti sorted_syms off (Some (int symbol));
       offset \<leftarrow> arr_set offset (unat l) (off - 1);
       Some (offset, sorted_syms) }) (rev [0..<n]) st1 = Some st'" "sort_inv lens 0 st'" by auto
  moreover have "nat (int (sorted_base lens l + i)) = sorted_base lens l + i" by (rule nat_int)
  ultimately show ?case using cl inv(1,2) l off p18 by (auto simp: st st1_def arr_seti_def)
qed (simp add: sort_inv_def)

lemma clh_sort_spec:
  assumes "short_lens lens" and "map unat code_lengths = lens" and "length offset = 6"
    and "\<forall>l \<le> 5. offset ! l = int (sorted_base lens l + len_count lens l) - 1"
  shows "\<exists>offset' srt. clh_sort code_lengths offset = Some (offset', srt) \<and> length offset' = 6 \<and>
    offset' ! 0 = int (sorted_base lens 0) - 1 \<and>
    (\<forall>p < 18. sorted_get srt (int p) = Some (int (sorted_symbols lens ! p)))"
proof -
  have "sort_inv lens 18 (offset, replicate 18 None)"
    using assms(1,3,4) nth_mem [of _ "sorted_symbols lens"] sorted_symbols_facts [OF assms(1)]
    by (auto simp: sort_inv_def syms_def short_lens_def simp del: upt_rec_numeral) (metis atLeastLessThan_iff not_less)+
  from clh_sort_loop [OF assms(1,2) _ this] obtain offset' srt where
    "clh_sort code_lengths offset = Some (offset', srt)" "sort_inv lens 0 (offset', srt)"
    unfolding clh_sort_def by auto
  then show ?thesis by (auto simp: sort_inv_def sorted_get_def arr_geti_def)
qed

section \<open>The table\<close>

lemma clh_fill_spec:
  assumes "complete_code lens" and "0 < l" and "l \<le> 5" and "n + i = len_count lens l" and "root_cells lens 5 0 tbl l i"
    and "32 \<le> length tbl" and "\<And>k. k < len_count lens l \<Longrightarrow> sorted_get srt (int (sorted_base lens l + k)) = Some (int (syms lens l ! k))"
  shows "\<exists>t. clh_fill_len (int l) (2 ^ l) (2 ^ 5) (of_nat (2 ^ (8 - l))) srt n
      (tbl, of_nat (code_at lens l i * 2 ^ (8 - l)), int (sorted_base lens l + i)) =
        Some (t, of_nat (code_at lens l (len_count lens l) * 2 ^ (8 - l)), int (sorted_base lens l + len_count lens l)) \<and>
    length t = length tbl \<and> root_cells lens 5 0 t l (len_count lens l)"
  using assms(4-6)
proof (induction n arbitrary: i tbl)
  case (Suc n)
  define c where "c = code_at lens l i"
  have i: "i < len_count lens l" using Suc.prems(1) by simp
  have l: "l \<le> 15" "l \<le> 8" using assms(3) by simp_all
  have c: "c < 2 ^ l" using code_strict [OF assms(1,2) l(1) i] by (simp add: c_def)
  have "c * 2 ^ (8 - l) < 2 ^ l * 2 ^ (8 - l)" using c by simp
  also have "\<dots> = (256 :: nat)" using l(2) by (simp flip: power_add)
  finally obtain r where r: "BrotliReverseBits (of_nat (c * 2 ^ (8 - l))) = Some r" "uint r = int (rev_bits l c)"
    using BrotliReverseBits_spec [of "c * 2 ^ (8 - l)"] rev_bits_shift [OF l(2), of c] by auto
  have room: "0 + 2 ^ 5 \<le> length tbl" using Suc.prems(3) by simp
  obtain t where t: "ReplicateValue tbl (int (rev_bits l c)) (2 ^ l) (2 ^ 5) (cell lens l l i) = Some t"
    "frame 0 (0 + 2 ^ 5) tbl t" "root_cells lens 5 0 t l (Suc i)"
    using root_cells_step [OF Suc.prems(2) i assms(2,3) _ c [unfolded c_def] room] unfolding c_def by auto
  have key: "of_nat (c * 2 ^ (8 - l)) + of_nat (2 ^ (8 - l)) = (of_nat (code_at lens l (Suc i) * 2 ^ (8 - l)) :: uint64)"
    by (simp add: c_def algebra_simps)
  have sy: "int (sorted_base lens l + i) + 1 = int (sorted_base lens l + Suc i)" by simp
  have "n + Suc i = len_count lens l" "32 \<le> length t" using Suc.prems(1,3) t(2) by (simp_all add: frame_def)
  from Suc.IH [OF this(1) t(3) this(2)] obtain t' where
    t': "clh_fill_len (int l) (2 ^ l) (2 ^ 5) (of_nat (2 ^ (8 - l))) srt n
      (t, of_nat (code_at lens l (Suc i) * 2 ^ (8 - l)), int (sorted_base lens l + Suc i)) =
        Some (t', of_nat (code_at lens l (len_count lens l) * 2 ^ (8 - l)), int (sorted_base lens l + len_count lens l))"
    "length t' = length t" "root_cells lens 5 0 t' l (len_count lens l)" by blast
  have "clh_fill_len (int l) (2 ^ l) (2 ^ 5) (of_nat (2 ^ (8 - l))) srt (Suc n)
      (tbl, of_nat (c * 2 ^ (8 - l)), int (sorted_base lens l + i)) =
        Some (t', of_nat (code_at lens l (len_count lens l) * 2 ^ (8 - l)), int (sorted_base lens l + len_count lens l))"
    unfolding clh_fill_len.simps assms(7) [OF i] bind.bind_lunit Let_def r of_int_of_nat_eq t(1) key sy t'(1) ..
  moreover have "length t' = length tbl" using t'(2) t(2) by (simp add: frame_def)
  ultimately show ?case using t'(3) unfolding c_def by blast
qed auto

text \<open>The words of the codes: of a complete code, or the empty word of one alone.\<close>

definition code_words :: "nat list \<Rightarrow> code_words" where
  "code_words lens k = (if has_code lens k then Some (code_bits lens k) else None)"

definition single_word :: "nat \<Rightarrow> code_words" where
  "single_word k = [k \<mapsto> []]"

lemma window_table_complete:
  assumes "complete_code lens" and "short_lens lens" and "root_cells lens 5 0 tbl 6 0" and "32 \<le> length tbl"
  shows "window_table (code_words lens) tbl"
proof -
  have cut: "take n (val_bits 5 V) = val_bits n V" if "n \<le> 5" for n V using that by (simp add: val_bits_def take_map)
  have k: "k < 18" "0 < lens ! k" "lens ! k \<le> 5" if "has_code lens k" for k
    using that assms(2) short_lens_nth [OF assms(2)] by (auto simp: has_code_def short_lens_def)
  have word: "take (lens ! k) (val_bits 5 W) = code_bits lens k \<longleftrightarrow> rev_bits (lens ! k) W = code_of lens k" if "has_code lens k" for k W
    using code_window [OF assms(1) that, of W] cut k(3) [OF that] by simp
  have entry: "tbl ! (W mod 32) = ConstructHuffmanCode (of_nat (lens ! k)) (of_nat k)"
    if h: "has_code lens k" and W: "rev_bits (lens ! k) W = code_of lens k" for k W
  proof -
    obtain i where i: "i < len_count lens (lens ! k)" "syms lens (lens ! k) ! i = k" "code_of lens k = code_at lens (lens ! k) i"
      using has_codeD(4) [OF assms(1) h] by blast
    have "rev_bits (lens ! k) (W mod 2 ^ 5) = rev_bits (lens ! k) (W mod 2 ^ 5 mod 2 ^ (lens ! k))"
      by (rule rev_bits_mod [symmetric])
    also have "\<dots> = rev_bits (lens ! k) (W mod 2 ^ (lens ! k))"
      using k(3) [OF h] by (simp only: mod_mod_cancel le_imp_power_dvd)
    also have "\<dots> = code_at lens (lens ! k) i" unfolding rev_bits_mod W i(3) ..
    finally have "rev_bits (lens ! k) (W mod 32) = code_at lens (lens ! k) i" by simp
    moreover have "before lens 6 0 (lens ! k) i" using k [OF h] i(1) by (simp add: before_def)
    moreover have "W mod 32 < 2 ^ 5" by simp
    ultimately have "tbl ! (0 + W mod 32) = cell lens (lens ! k) (lens ! k) i" using assms(3) unfolding root_cells_def by blast
    then show ?thesis by (simp add: i(2))
  qed
  show ?thesis
    unfolding window_table_def
  proof (intro conjI allI impI)
    fix W :: nat
    obtain k where h: "has_code lens k" "rev_bits (lens ! k) W = code_of lens k" using window_exists [OF assms(1)] by blast
    then show "\<exists>k w. code_words lens k = Some w \<and> take (length w) (val_bits 5 W) = w"
      using word [OF h(1)] by (intro exI [of _ k] exI [of _ "code_bits lens k"]) (simp add: code_words_def)
  next
    fix k w assume "code_words lens k = Some w"
    then have h: "has_code lens k" and w: "w = code_bits lens k" by (simp_all add: code_words_def split: if_splits)
    show "k \<le> 17" "length w \<le> 5" using k [OF h] by (simp_all add: w)
    fix W assume "take (length w) (val_bits 5 W) = w"
    then have "rev_bits (lens ! k) W = code_of lens k" using word [OF h] by (simp add: w)
    from entry [OF h this] show "tbl ! (W mod 32) = ConstructHuffmanCode (of_nat (length w)) (of_nat k)" by (simp add: w)
  qed (rule assms(4))
qed

lemma build_complete:
  assumes "complete_code lens" and "short_lens lens" and "map unat code_lengths = lens" and "short_counts count lens"
    and "sorted_base lens 0 \<noteq> 1" and "32 \<le> length tbl"
  shows "\<exists>t. BrotliBuildCodeLengthsHuffmanTable tbl code_lengths count = Some t \<and> length t = length tbl \<and>
    window_table (code_words lens) t"
proof -
  obtain sy offset where o: "clh_offsets count = Some (sy, offset)" "length offset = 6"
    "\<forall>l \<le> 5. offset ! l = int (sorted_base lens l + len_count lens l) - 1"
    using clh_offsets_spec [OF assms(2,4)] by blast
  obtain offset' srt where s: "clh_sort code_lengths offset = Some (offset', srt)" "length offset' = 6"
    "offset' ! 0 = int (sorted_base lens 0) - 1" "\<forall>p < 18. sorted_get srt (int p) = Some (int (sorted_symbols lens ! p))"
    using clh_sort_spec [OF assms(2,3) o(2,3)] by blast
  have get: "sorted_get srt (int (sorted_base lens l + k)) = Some (int (syms lens l ! k))"
    if "l \<le> 5" "k < len_count lens l" for l k
    using s(4) sorted_symbols_nth [OF that] sorted_symbols_facts(1) [OF assms(2)] by (simp del: of_nat_add)
  define P where "P b st \<longleftrightarrow> (\<exists>t. st = (t, of_nat (code_at lens b 0 * 2 ^ (8 - b)), int (sorted_base lens b), (2 :: int) ^ b,
      drop_bit (b - 1) BROTLI_REVERSE_BITS_LOWEST) \<and> length t = length tbl \<and> root_cells lens 5 0 t b 0)"
    for b :: nat and st :: "HuffmanCode list \<times> uint64 \<times> int \<times> int \<times> uint64"
  define body where "body = (\<lambda>bits (tbl, key, symbol, step, key_step). do {
           n \<leftarrow> arr_get count bits;
           (tbl, key, symbol) \<leftarrow>
             clh_fill_len (int bits) step (int (2 ^ 5)) key_step srt (unat n) (tbl, key, symbol);
           Some (tbl, key, symbol, step * 2, drop_bit 1 key_step) })"
  have "\<exists>st'. foldM body [1..<6] (tbl, 0, 0, 2, BROTLI_REVERSE_BITS_LOWEST) = Some st' \<and> P 6 st'"
  proof (rule foldM_upt [where P = P])
    show "P 1 (tbl, 0, 0, 2, BROTLI_REVERSE_BITS_LOWEST)"
      unfolding P_def by (rule exI [of _ tbl]) (simp add: root_cells_def before_def sorted_base_def)
  next
    fix b :: nat and st assume b: "1 \<le> b" "b < 6" and "P b st"
    then obtain t where st: "st = (t, of_nat (code_at lens b 0 * 2 ^ (8 - b)), int (sorted_base lens b), (2 :: int) ^ b,
      drop_bit (b - 1) BROTLI_REVERSE_BITS_LOWEST)" and t: "length t = length tbl" "root_cells lens 5 0 t b 0"
      unfolding P_def by blast
    have b5: "0 < b" "b \<le> 5" using b by simp_all
    have "b \<in> set [1..<9]" using b by (simp del: upt_rec_numeral)
    then have ks: "drop_bit (b - 1) BROTLI_REVERSE_BITS_LOWEST = of_nat (2 ^ (8 - b))"
      using root_key_step unfolding list_all_iff by blast
    have dd: "drop_bit 1 (drop_bit (b - 1) BROTLI_REVERSE_BITS_LOWEST) = drop_bit (Suc b - 1) BROTLI_REVERSE_BITS_LOWEST"
      unfolding drop_bit_drop_bit using b5(1) by simp
    have c: "arr_get count b = Some (count ! b)" "unat (count ! b) = len_count lens b"
      using assms(4) b by (simp_all add: short_counts_def)
    have room: "32 \<le> length t" using assms(6) t(1) by simp
    from clh_fill_spec [OF assms(1) b5 _ t(2) room get [OF b5(2)], of "len_count lens b"] obtain t' where
      t': "clh_fill_len (int b) (2 ^ b) (2 ^ 5) (of_nat (2 ^ (8 - b))) srt (len_count lens b)
        (t, of_nat (code_at lens b 0 * 2 ^ (8 - b)), int (sorted_base lens b)) =
          Some (t', of_nat (code_at lens b (len_count lens b) * 2 ^ (8 - b)), int (sorted_base lens b + len_count lens b))"
      "length t' = length t" "root_cells lens 5 0 t' b (len_count lens b)" by auto
    have "(2::nat) ^ (8 - b) = 2 * 2 ^ (8 - Suc b)" using b by (simp flip: power_Suc)
    then have "code_at lens b (len_count lens b) * 2 ^ (8 - b) = code_at lens (Suc b) 0 * 2 ^ (8 - Suc b)"
      using first_code_Suc [OF b5(1), of lens] by simp
    note key = this
    have "int (2 ^ 5) = 2 ^ 5" by simp
    then have "body b st = Some (t', of_nat (code_at lens (Suc b) 0 * 2 ^ (8 - Suc b)), int (sorted_base lens (Suc b)), 2 ^ Suc b,
        drop_bit (Suc b - 1) BROTLI_REVERSE_BITS_LOWEST)"
      unfolding st body_def prod.case c bind.bind_lunit ks using t'(1) dd [unfolded ks]
      unfolding key sorted_base_Suc [OF b5(1)] by simp
    then show "\<exists>st'. body b st = Some st' \<and> P (Suc b) st'"
      unfolding P_def using t(1) t'(2) root_cells_next [OF b5(1) t'(3)] by auto
  qed simp
  then obtain t key symbol step ks where r: "foldM body [1..<6] (tbl, 0, 0, 2, BROTLI_REVERSE_BITS_LOWEST) = Some (t, key, symbol, step, ks)"
    "length t = length tbl" "root_cells lens 5 0 t 6 0" unfolding P_def by blast
  have off0: "offset' ! 0 \<noteq> 0" using s(3) assms(5) by simp
  have "arr_get offset' 0 = Some (offset' ! 0)" using s(2) by simp
  then have "BrotliBuildCodeLengthsHuffmanTable tbl code_lengths count = Some t"
    unfolding BrotliBuildCodeLengthsHuffmanTable_def o(1) bind.bind_lunit prod.case s(1) Let_def if_not_P [OF off0] body_def [symmetric] r(1)
    by (simp add: off0)
  moreover have "window_table (code_words lens) t"
    by (rule window_table_complete [OF assms(1,2) r(3)]) (use assms(6) r(2) in simp)
  ultimately show ?thesis using r(2) by blast
qed

text \<open>A code that is alone takes no bits.\<close>

lemma build_single:
  assumes "short_lens lens" and "map unat code_lengths = lens" and "short_counts count lens"
    and "k < 18" and "\<forall>j < 18. lens ! j = 0 \<longleftrightarrow> j \<noteq> k" and "32 \<le> length tbl"
  shows "\<exists>t. BrotliBuildCodeLengthsHuffmanTable tbl code_lengths count = Some t \<and> length t = length tbl \<and>
    window_table (single_word k) t"
proof -
  obtain sy offset where o: "clh_offsets count = Some (sy, offset)" "length offset = 6"
    "\<forall>l \<le> 5. offset ! l = int (sorted_base lens l + len_count lens l) - 1"
    using clh_offsets_spec [OF assms(1,3)] by blast
  obtain offset' srt where s: "clh_sort code_lengths offset = Some (offset', srt)" "length offset' = 6"
    "offset' ! 0 = int (sorted_base lens 0) - 1" "\<forall>p < 18. sorted_get srt (int p) = Some (int (sorted_symbols lens ! p))"
    using clh_sort_spec [OF assms(1,2) o(2,3)] by blast
  have len: "length lens = 18" using assms(1) by (simp add: short_lens_def)
  define F where "F = concat (map (syms lens) [1..<6])"
  have "set F = {k}"
  proof -
    have "j \<in> set F \<longleftrightarrow> j < 18 \<and> lens ! j \<in> {1..<6}" for j by (auto simp: F_def syms_def len)
    moreover have "lens ! j \<le> 5" if "j < 18" for j using short_lens_nth [OF assms(1) that] .
    ultimately show ?thesis using assms(4,5) by (fastforce simp: Suc_le_eq)
  qed
  moreover have "distinct F" using sorted_symbols_facts(2) [OF assms(1)] by (simp add: sorted_symbols_def F_def)
  ultimately have "set F = {k}" "length F = 1" using distinct_card [of F] by simp_all
  then have F: "F = [k]" by (cases F) simp_all
  have "length F = 1" "(F @ syms lens 0) ! 0 = k" by (simp_all add: F)
  then have base: "sorted_base lens 0 = 1" "sorted_symbols lens ! 0 = k"
    unfolding sorted_base_def sorted_symbols_def F_def if_P [OF refl] by blast+
  have off: "arr_get offset' 0 = Some 0" using s(2,3) base(1) by simp
  have get: "sorted_get srt 0 = Some (int k)" using s(4) [rule_format, of 0] base(2) by simp
  define code where "code = ConstructHuffmanCode 0 (of_nat k)"
  have "\<exists>t. foldM (\<lambda>key tbl. arr_set tbl key code) [0..<32] tbl = Some t \<and> length t = length tbl \<and> (\<forall>p < 32. t ! p = code)"
    by (rule foldM_upt [where P = "\<lambda>n t. length t = length tbl \<and> (\<forall>p < n. t ! p = code)"])
      (use assms(6) in \<open>auto simp: nth_list_update less_Suc_eq\<close>)
  then obtain t where t: "foldM (\<lambda>key tbl. arr_set tbl key code) [0..<32] tbl = Some t" "length t = length tbl" "\<forall>p < 32. t ! p = code"
    by blast
  have "BrotliBuildCodeLengthsHuffmanTable tbl code_lengths count = Some t"
    unfolding BrotliBuildCodeLengthsHuffmanTable_def o(1) bind.bind_lunit prod.case s(1) Let_def off if_P [OF refl] get
    using t(1) by (simp add: code_def)
  moreover have "window_table (single_word k) t"
    using assms(4,6) t(2,3) by (auto simp: window_table_def single_word_def code_def)
  ultimately show ?thesis using t(2) by blast
qed

end
