(* ===== verification/Code_Length_Code.thy ===== *)
theory Code_Length_Code
  imports Code_Length_Table Enc_Trees
begin

text \<open>
  The code of the code lengths on the wire: \<open>BrotliStoreHuffmanTreeOfHuffmanTreeToBitMask\<close> of
  \<^verbatim>\<open>enc/brotli_bit_stream.c\<close> writes its 18 lengths with a fixed code, in an order that puts the unlikely ones
  last and leaves them out; \<open>ReadCodeLengthCodeLengths\<close> of \<^verbatim>\<open>dec/decode.c\<close> reads them.
\<close>

lemma unat_byte_up: "unat (ucast (x :: uint8) :: uint32) = unat x"
proof -
  have "unat x < 2 ^ 8" using unsigned_less [of x, where ?'a = nat] by simp
  then show ?thesis by (simp add: unsigned_ucast_eq take_bit_nat_eq_self)
qed

section \<open>One length\<close>

text \<open>The fixed words of the lengths 0 to 5.\<close>

definition fixed_word :: "nat \<Rightarrow> bits" where
  "fixed_word l = val_bits (unat (kHuffmanBitLengthHuffmanCodeBitLengths ! l)) (unat (kHuffmanBitLengthHuffmanCodeSymbols ! l))"

lemma fixed_table:
  "list_all (\<lambda>l. list_all (\<lambda>W. take (length (fixed_word l)) (val_bits 4 W) = fixed_word l \<longrightarrow>
     kCodeLengthPrefixLength ! W = kHuffmanBitLengthHuffmanCodeBitLengths ! l \<and> unat (kCodeLengthPrefixValue ! W) = l) [0..<16]) [0..<6]"
  by code_simp

lemma fixed_lengths:
  "list_all (\<lambda>l. 0 < kHuffmanBitLengthHuffmanCodeBitLengths ! l \<and> unat (kHuffmanBitLengthHuffmanCodeBitLengths ! l) \<le> 4 \<and>
     unat (kHuffmanBitLengthHuffmanCodeSymbols ! l) < 2 ^ unat (kHuffmanBitLengthHuffmanCodeBitLengths ! l)) [0..<6]"
  by code_simp

lemma fixed_word_facts:
  assumes "l \<le> 5"
  shows "length (fixed_word l) = unat (kHuffmanBitLengthHuffmanCodeBitLengths ! l)" and "length (fixed_word l) \<le> 4"
    and "0 < length (fixed_word l)"
    and "unat (kHuffmanBitLengthHuffmanCodeSymbols ! l) < 2 ^ length (fixed_word l)"
    and "\<And>W. W < 16 \<Longrightarrow> take (length (fixed_word l)) (val_bits 4 W) = fixed_word l \<Longrightarrow>
      unat (kCodeLengthPrefixLength ! W) = length (fixed_word l) \<and> unat (kCodeLengthPrefixValue ! W) = l"
proof -
  have l: "l \<in> set [0..<6]" using assms by (simp del: upt_rec_numeral)
  note f = fixed_lengths [unfolded list_all_iff, rule_format, OF l]
  show "length (fixed_word l) = unat (kHuffmanBitLengthHuffmanCodeBitLengths ! l)" "length (fixed_word l) \<le> 4"
    "0 < length (fixed_word l)" "unat (kHuffmanBitLengthHuffmanCodeSymbols ! l) < 2 ^ length (fixed_word l)"
    using f by (simp_all add: fixed_word_def unat_gt_0 word_gt_0)
  fix W :: nat assume W: "W < 16" and t: "take (length (fixed_word l)) (val_bits 4 W) = fixed_word l"
  have "W \<in> set [0..<16]" using W by (simp del: upt_rec_numeral)
  from fixed_table [unfolded list_all_iff, rule_format, OF l this] t
  show "unat (kCodeLengthPrefixLength ! W) = length (fixed_word l) \<and> unat (kCodeLengthPrefixValue ! W) = l"
    by (simp add: fixed_word_def)
qed

text \<open>The bits in the accumulator, padded with zeros, when the input is used up.\<close>

lemma drained_window:
  assumes "br_ok br" and "unat (br_bit_pos br) < 64"
  shows "\<exists>v. BrotliGetBitsUnmasked br = Some v \<and>
    (\<forall>j \<le> 64 - unat (br_bit_pos br). take j (br_bits br) = val_bits j (unat v))"
  by (rule warm_window_bits) (use assms in \<open>simp add: br_warm_def\<close>)

lemma rclcl_peek_word:
  assumes "br_ok br" and "l \<le> 5" and "br_bits br = fixed_word l @ rest"
  shows "\<exists>ix n br'. rclcl_peek br = Some (Some (ix, n), br') \<and> unat n = length (fixed_word l) \<and> unat ix < 16 \<and>
    unat (kCodeLengthPrefixValue ! unat ix) = l \<and> br_ok br' \<and> br_bits br' = br_bits br \<and> length (fixed_word l) \<le> 64 - unat (br_bit_pos br')"
proof -
  note w = fixed_word_facts [OF assms(2)]
  define n where "n = length (fixed_word l)"
  have pre: "take n (br_bits br) = fixed_word l" by (simp add: assms(3) n_def)
  have ks: "length kCodeLengthPrefixLength = 16" "length kCodeLengthPrefixValue = 16"
    by (simp_all add: kCodeLengthPrefixLength_def kCodeLengthPrefixValue_def)
  have u4: "unat (4 :: uint32) = 4" by simp
  have "br_ready br 4" by (simp add: br_ready_def)
  then obtain r b1 where b1: "BrotliSafeGetBits br 4 = Some (r, b1)" "br_ok b1" "br_bits b1 = br_bits br"
    "if 4 \<le> length (br_bits br) then (\<exists>v. r = Some v \<and> unat v = bits_val (take 4 (br_bits br))) \<and> 4 \<le> 64 - unat (br_bit_pos b1)
     else r = None \<and> avail_in b1 = 0"
    using BrotliSafeGetBits_spec [OF assms(1), of 4] unfolding u4 by blast
  have use: "unat (kCodeLengthPrefixLength ! W) = n \<and> unat (kCodeLengthPrefixValue ! W) = l"
    if "W < 16" "val_bits n W = take n (br_bits br)" for W
  proof -
    have "take n (val_bits 4 W) = val_bits n W" using w(2) by (simp add: val_bits_def take_map n_def)
    then show ?thesis using w(5) [OF that(1)] that(2) pre by (simp add: n_def)
  qed
  show ?thesis
  proof (cases "4 \<le> length (br_bits br)")
    case True
    then obtain v where v: "r = Some v" "unat v = bits_val (take 4 (br_bits br))" "4 \<le> 64 - unat (br_bit_pos b1)"
      using b1(4) by auto
    have lt: "unat v < 16" using bits_val_less [of "take 4 (br_bits br)"] True by (simp add: v(2))
    have "val_bits n (unat v) = take n (br_bits br)"
      unfolding v(2) using w(2) by (intro take_window [OF True, symmetric]) (simp add: n_def)
    from use [OF lt this] have k: "unat (kCodeLengthPrefixLength ! unat v) = n" "unat (kCodeLengthPrefixValue ! unat v) = l" by simp_all
    have "rclcl_peek br = Some (Some (v, kCodeLengthPrefixLength ! unat v), b1)"
      using lt ks by (simp add: rclcl_peek_def b1(1) v(1))
    then show ?thesis using k lt b1(2,3) v(3) w(2) by (intro exI conjI) (assumption | simp add: n_def)+
  next
    case False
    then have r: "r = None" "avail_in b1 = 0" using b1(4) by auto
    have len: "length (br_bits br) = 64 - unat (br_bit_pos b1)" using length_br_bits [OF b1(2)] r(2) by (simp add: b1(3))
    then have n: "n \<le> 64 - unat (br_bit_pos b1)" using assms(3) by (simp add: n_def)
    then have pos: "unat (br_bit_pos b1) < 64" using w(3) unfolding n_def by linarith
    from drained_window [OF b1(2) this] obtain v where
      v: "BrotliGetBitsUnmasked b1 = Some v" "take n (br_bits br) = val_bits n (unat v)" using n b1(3) by auto
    define ix where "ix = (ucast (v AND 0xF) :: uint32)"
    have "unat (v AND 0xF) = unat v mod 16" using unat_and_mask [of v 4] by (simp add: mask_eq_exp_minus_1)
    moreover have "unat (ucast (v AND 0xF) :: uint32) = unat (v AND 0xF)"
      using calculation by (simp add: unsigned_ucast_eq take_bit_nat_eq_self)
    ultimately have ix: "unat ix = unat v mod 2 ^ 4" by (simp add: ix_def)
    have "val_bits n (unat v mod 2 ^ 4) = val_bits n (unat v)"
    proof -
      have "val_bits n (unat v mod 2 ^ 4) = val_bits n (unat v mod 2 ^ 4 mod 2 ^ n)" by (rule val_bits_mod [symmetric])
      also have "\<dots> = val_bits n (unat v mod 2 ^ n)" using w(2) by (simp only: mod_mod_cancel le_imp_power_dvd n_def)
      finally show ?thesis unfolding val_bits_mod .
    qed
    then have "val_bits n (unat ix) = take n (br_bits br)" by (simp add: ix v(2))
    moreover have lt: "unat ix < 16" by (simp add: ix)
    ultimately have k: "unat (kCodeLengthPrefixLength ! unat ix) = n" "unat (kCodeLengthPrefixValue ! unat ix) = l" using use by simp_all
    have "unat (ucast (kCodeLengthPrefixLength ! unat ix) :: uint32) = n"
      using k(1) by (simp add: unat_byte_up)
    then have fits: "\<not> ucast (kCodeLengthPrefixLength ! unat ix) > BrotliGetAvailableBits b1"
      using n unat_avail_bits [OF b1(2)] by (simp add: word_less_nat_alt)
    have av: "BrotliGetAvailableBits b1 \<noteq> 0" using pos avail_bits_eq_0_iff [OF b1(2)] by simp
    have "rclcl_peek br = Some (Some (ix, kCodeLengthPrefixLength ! unat ix), b1)"
      unfolding rclcl_peek_def b1(1) bind.bind_lunit prod.case r(1) option.case Let_def if_P [OF av] v(1) option.map ix_def [symmetric]
      using lt ks(1) fits by simp
    then show ?thesis using k lt b1(2,3) n by (intro exI conjI) (assumption | simp add: n_def)+
  qed
qed

section \<open>The loop of the decoder\<close>

lemma storage_order:
  "kCodeLengthCodeOrder = map of_nat kStorageOrder" "length kStorageOrder = 18" "distinct kStorageOrder" "set kStorageOrder = {0..<18}"
proof -
  show d: "distinct kStorageOrder" and "kCodeLengthCodeOrder = map of_nat kStorageOrder" and l: "length kStorageOrder = 18"
    by (simp_all add: kStorageOrder_def kCodeLengthCodeOrder_def)
  have "set kStorageOrder \<subseteq> {0..<18}" by (simp add: kStorageOrder_def)
  moreover have "card (set kStorageOrder) = 18" using distinct_card [OF d] l by simp
  ultimately show "set kStorageOrder = {0..<18}" by (intro card_subset_eq) simp_all
qed

text \<open>The codes whose length was read, the code space they use, and the state that holds them.\<close>

definition stored_codes :: "nat \<Rightarrow> nat set" where
  "stored_codes i = set (take i kStorageOrder)"

definition len_space :: "nat \<Rightarrow> nat" where
  "len_space l = (if l = 0 then 0 else 2 ^ (5 - l))"

definition used_space :: "nat list \<Rightarrow> nat \<Rightarrow> nat" where
  "used_space lens i = (\<Sum>k \<in> stored_codes i. len_space (lens ! k))"

definition codes_used :: "nat list \<Rightarrow> nat \<Rightarrow> nat" where
  "codes_used lens i = card {k \<in> stored_codes i. lens ! k \<noteq> 0}"

definition codes_read :: "nat list \<Rightarrow> nat \<Rightarrow> uint32 \<Rightarrow> uint32 \<Rightarrow> BrotliMetablockHeaderArena \<Rightarrow> bool" where
  "codes_read lens i n space h \<longleftrightarrow> length (h_code_length_code_lengths h) = 18 \<and> 6 \<le> length (h_code_length_histo h) \<and>
     (\<forall>k < 18. unat (h_code_length_code_lengths h ! k) = (if k \<in> stored_codes i then lens ! k else 0)) \<and>
     (\<forall>l \<in> {1..5}. unat (h_code_length_histo h ! l) = card {k \<in> stored_codes i. lens ! k = l}) \<and>
     n = of_nat (codes_used lens i) \<and> space = 32 - of_nat (used_space lens i)"

lemma stored_codes_Suc:
  assumes "i < 18"
  shows "stored_codes (Suc i) = insert (kStorageOrder ! i) (stored_codes i)" and "kStorageOrder ! i \<notin> stored_codes i"
    and "finite (stored_codes i)" and "kStorageOrder ! i < 18"
proof -
  have i: "i < length kStorageOrder" using assms storage_order(2) by simp
  show "stored_codes (Suc i) = insert (kStorageOrder ! i) (stored_codes i)" using i by (simp add: stored_codes_def take_Suc_conv_app_nth)
  show "kStorageOrder ! i \<notin> stored_codes i"
  proof
    assume "kStorageOrder ! i \<in> stored_codes i"
    then obtain j where j: "j < i" "kStorageOrder ! i = kStorageOrder ! j" using i by (auto simp: stored_codes_def in_set_conv_nth)
    then show False using nth_eq_iff_index_eq [OF storage_order(3) i, of j] i by simp
  qed
  show "finite (stored_codes i)" by (simp add: stored_codes_def)
  show "kStorageOrder ! i < 18" using nth_mem [OF i] storage_order(4) by simp
qed

lemma stored_codes_iff: "k \<in> stored_codes i \<longleftrightarrow> (\<exists>j < i. j < 18 \<and> k = kStorageOrder ! j)"
  using storage_order(2) by (auto simp: stored_codes_def in_set_conv_nth)

lemma stored_codes_all: "stored_codes 18 = {0..<18}"
  using storage_order(2,4) by (simp add: stored_codes_def)

lemma used_space_Suc: "i < 18 \<Longrightarrow> used_space lens (Suc i) = used_space lens i + len_space (lens ! (kStorageOrder ! i))"
  using stored_codes_Suc [of i] by (simp add: used_space_def)

lemma card_insert_filter:
  assumes "finite S" and "a \<notin> S"
  shows "card {k \<in> insert a S. P k} = card {k \<in> S. P k} + (if P a then 1 else 0)"
proof -
  have "{k \<in> insert a S. P k} = (if P a then insert a {k \<in> S. P k} else {k \<in> S. P k})" by auto
  then show ?thesis using assms by simp
qed

lemma codes_used_Suc: "i < 18 \<Longrightarrow> codes_used lens (Suc i) = codes_used lens i + (if lens ! (kStorageOrder ! i) \<noteq> 0 then 1 else 0)"
  using stored_codes_Suc [of i] card_insert_filter [of "stored_codes i" "kStorageOrder ! i" "\<lambda>k. lens ! k \<noteq> 0"]
  by (simp add: codes_used_def)

text \<open>One length more.\<close>

lemma codes_read_zero:
  assumes "codes_read lens i n space h" and "i < 18" and "lens ! (kStorageOrder ! i) = 0" and "unat v = 0"
  shows "codes_read lens (Suc i) n space (h\<lparr>h_code_length_code_lengths := (h_code_length_code_lengths h)[kStorageOrder ! i := v]\<rparr>)"
proof -
  note s = stored_codes_Suc [OF assms(2)]
  have c: "card {k \<in> stored_codes (Suc i). lens ! k = l} = card {k \<in> stored_codes i. lens ! k = l}" if "l \<in> {1..5}" for l
    using card_insert_filter [OF s(3,2), of "\<lambda>k. lens ! k = l"] assms(3) that by (simp add: s(1))
  show ?thesis using assms s c codes_used_Suc [OF assms(2)] used_space_Suc [OF assms(2)]
    by (auto simp: codes_read_def nth_list_update len_space_def)
qed

lemma codes_read_length:
  assumes "codes_read lens i n space h" and "i < 18" and "lens ! (kStorageOrder ! i) = l" and "0 < l" and "l \<le> 5" and "unat v = l"
  shows "codes_read lens (Suc i) (n + 1) (space - of_nat (len_space l))
    (h\<lparr>h_code_length_code_lengths := (h_code_length_code_lengths h)[kStorageOrder ! i := v],
       h_code_length_histo := (h_code_length_histo h)[l := h_code_length_histo h ! l + 1]\<rparr>)"
proof -
  note s = stored_codes_Suc [OF assms(2)]
  have c: "card {k \<in> stored_codes (Suc i). lens ! k = j} = card {k \<in> stored_codes i. lens ! k = j} + (if l = j then 1 else 0)" for j
    using card_insert_filter [OF s(3,2), of "\<lambda>k. lens ! k = j"] assms(3) by (simp add: s(1))
  have "card {k \<in> stored_codes i. lens ! k = l} \<le> card (stored_codes i)" by (rule card_mono) (use s(3) in auto)
  also have "\<dots> \<le> 18" using card_length [of "take i kStorageOrder"] storage_order(2) by (simp add: stored_codes_def)
  finally have small: "card {k \<in> stored_codes i. lens ! k = l} \<le> 18" .
  have h: "unat (h_code_length_histo h ! l + 1) = card {k \<in> stored_codes (Suc i). lens ! k = l}"
  proof -
    have "unat (h_code_length_histo h ! l) = card {k \<in> stored_codes i. lens ! k = l}" using assms(1,4,5) by (simp add: codes_read_def)
    then show ?thesis using small c [of l] by (simp add: unat_word_ariths)
  qed
  show ?thesis
    using assms s h c codes_used_Suc [OF assms(2)] used_space_Suc [OF assms(2)] unfolding codes_read_def
    by (auto simp: nth_list_update)
qed

text \<open>The words of the lengths from position \<open>i\<close> of the order up to \<open>m\<close>.\<close>

definition fixed_words :: "nat list \<Rightarrow> nat \<Rightarrow> nat \<Rightarrow> bits" where
  "fixed_words lens i m = concat (map (\<lambda>j. fixed_word (lens ! (kStorageOrder ! j))) [i..<m])"

lemma fixed_words_Cons: "i < m \<Longrightarrow> fixed_words lens i m = fixed_word (lens ! (kStorageOrder ! i)) @ fixed_words lens (Suc i) m"
  by (simp add: fixed_words_def upt_conv_Cons)

text \<open>The loop ends where the code space is used up, or after all 18.\<close>

definition stops_at :: "nat list \<Rightarrow> nat \<Rightarrow> bool" where
  "stops_at lens m \<longleftrightarrow> m \<le> 18 \<and> (\<forall>j < m. used_space lens j < 32) \<and> (used_space lens m = 32 \<or> m = 18 \<and> used_space lens m < 32)"

definition same_tables :: "BrotliDecoderState \<Rightarrow> BrotliDecoderState \<Rightarrow> bool" where
  "same_tables s s' \<longleftrightarrow> h_table (d_header s') = h_table (d_header s) \<and>
     h_symbols_lists_array (d_header s') = h_symbols_lists_array (d_header s) \<and> h_next_symbol (d_header s') = h_next_symbol (d_header s)"

lemma space_minus_one:
  assumes "S \<le> 32"
  shows "(32 - of_nat S :: uint32) - 1 \<ge> 32 \<longleftrightarrow> S = 32"
proof (cases "S = 32")
  case False
  then have "(32 - of_nat S :: uint32) - 1 = of_nat (31 - S)" using assms by (simp add: of_nat_diff)
  moreover have "31 - S < 32" by simp
  ultimately show ?thesis using False by (simp add: word_le_nat_alt unat_of_nat_small)
qed simp

lemma space_shift: "list_all (\<lambda>l. drop_bit l (32 :: uint32) = of_nat (len_space l)) [1..<6]"
  by (simp add: len_space_def upt_rec)

lemma rclcl_loop_words:
  assumes "short_lens lens" and "stops_at lens m" and "i < m \<or> i = 18 \<and> m = 18" and "codes_read lens i n space (d_header s)"
    and "s_ok s" and "s_bits s = fixed_words lens i m @ rest"
  shows "\<exists>n' space' s'. rclcl_loop i n space s = Some (True, n', space', s') \<and> codes_read lens m n' space' (d_header s') \<and>
    s_ok s' \<and> s_bits s' = rest \<and> same_tables s s'"
  using assms(3-6)
proof (induction "18 - i" arbitrary: i n space s)
  case 0
  then have "i = 18" "m = 18" using assms(2) by (auto simp: stops_at_def)
  then show ?case using 0 by (subst rclcl_loop.simps) (auto simp: fixed_words_def same_tables_def)
next
  case (Suc d)
  have im: "i < m" "i < 18" using Suc.prems(1) Suc.hyps(2) assms(2) by (auto simp: stops_at_def)
  define k where "k = kStorageOrder ! i"
  define l where "l = lens ! k"
  have k: "k < 18" using stored_codes_Suc(4) [OF im(2)] by (simp add: k_def)
  have l: "l \<le> 5" using short_lens_nth [OF assms(1) k] by (simp add: l_def)
  have ord: "arr_get kCodeLengthCodeOrder i = Some (of_nat k)" "unat (of_nat k :: uint8) = k"
    unfolding storage_order(1) using storage_order(2) im(2) k by (simp_all add: k_def [symmetric] unat_of_nat_small)
  have bs: "br_bits (d_br s) = fixed_word l @ fixed_words lens (Suc i) m @ rest"
    using Suc.prems(4) fixed_words_Cons [OF im(1), of lens] by (simp add: l_def k_def)
  obtain ix b br where peek: "rclcl_peek (d_br s) = Some (Some (ix, b), br)" "unat b = length (fixed_word l)" "unat ix < 16"
    "unat (kCodeLengthPrefixValue ! unat ix) = l" "br_ok br" "br_bits br = br_bits (d_br s)" "length (fixed_word l) \<le> 64 - unat (br_bit_pos br)"
    using rclcl_peek_word [OF Suc.prems(3) l bs] by blast
  define v where "v = kCodeLengthPrefixValue ! unat ix"
  have v: "arr_get kCodeLengthPrefixValue (unat ix) = Some v" "unat v = l"
    using peek(3,4) by (simp_all add: v_def kCodeLengthPrefixValue_def)
  define br1 where "br1 = BrotliDropBits br (ucast b)"
  have "unat (ucast b :: uint32) = length (fixed_word l)" using peek(2) by (simp add: unat_byte_up)
  then have br1: "br_ok br1" "br_bits br1 = fixed_words lens (Suc i) m @ rest"
    using BrotliDropBits_spec [OF peek(5), of "ucast b"] peek(6,7) bs by (simp_all add: br1_def)
  define h where "h = d_header s"
  have read: "codes_read lens i n space h" using Suc.prems(2) by (simp add: h_def)
  have cl: "arr_set (h_code_length_code_lengths h) k v = Some ((h_code_length_code_lengths h)[k := v])"
    using read k by (simp add: codes_read_def)
  define s1 where "s1 = s\<lparr>d_br := br1, d_header := h\<lparr>h_code_length_code_lengths := (h_code_length_code_lengths h)[k := v]\<rparr>\<rparr>"
  have d: "d = 18 - Suc i" using Suc.hyps(2) by simp
  have le: "used_space lens (Suc i) \<le> 32" "Suc i < m \<Longrightarrow> used_space lens (Suc i) < 32" "Suc i = m \<Longrightarrow> used_space lens m = 32 \<or> m = 18"
    using assms(2) im by (cases "Suc i = m"; auto simp: stops_at_def less_imp_le)+
  show ?case
  proof (cases "l = 0")
    case True
    have read1: "codes_read lens (Suc i) n space (d_header s1)"
      using codes_read_zero [OF read im(2)] True v(2) by (simp add: s1_def l_def k_def)
    have step: "rclcl_loop i n space s = rclcl_loop (Suc i) n space s1"
      using im(2) ord peek(1) v cl True by (subst rclcl_loop.simps) (simp add: s1_def h_def br1_def unat_eq_zero)
    have "used_space lens (Suc i) = used_space lens i" using used_space_Suc [OF im(2), of lens] True by (simp add: l_def k_def len_space_def)
    then have "used_space lens (Suc i) < 32" using assms(2) im(1) by (simp add: stops_at_def)
    then have nxt: "Suc i < m \<or> Suc i = 18 \<and> m = 18" using le(3) im(1) by (cases "Suc i = m") auto
    have "s_ok s1" "s_bits s1 = fixed_words lens (Suc i) m @ rest" using br1 by (simp_all add: s1_def)
    from Suc.hyps(1) [OF d nxt read1 this] obtain n' space' s' where
      "rclcl_loop (Suc i) n space s1 = Some (True, n', space', s')" "codes_read lens m n' space' (d_header s')"
      "s_ok s'" "s_bits s' = rest" "same_tables s1 s'" by blast
    then show ?thesis unfolding step by (auto simp: same_tables_def s1_def h_def)
  next
    case False
    define s2 where "s2 = s1\<lparr>d_header := (d_header s1)\<lparr>h_code_length_histo := (h_code_length_histo h)[l := h_code_length_histo h ! l + 1]\<rparr>\<rparr>"
    have read2: "codes_read lens (Suc i) (n + 1) (space - of_nat (len_space l)) (d_header s2)"
      using codes_read_length [OF read im(2) _ _ l v(2)] False by (simp add: s1_def s2_def l_def k_def)
    have "l \<in> set [1..<6]" using l False by (simp del: upt_rec_numeral)
    then have sp: "drop_bit l (32 :: uint32) = of_nat (len_space l)" using space_shift unfolding list_all_iff by blast
    have sh: "shr32 32 (ucast v) = Some (of_nat (len_space l))"
    proof -
      have "unat (ucast v :: uint32) = l" using v(2) by (simp add: unat_byte_up)
      then show ?thesis using l sp by (simp add: shr32_def word_less_nat_alt)
    qed
    have histo: "l < length (h_code_length_histo h)" using read l by (simp add: codes_read_def)
    have v0: "v \<noteq> 0" using v(2) False by auto
    have space: "space - of_nat (len_space l) = 32 - of_nat (used_space lens (Suc i))" using read2 by (simp add: codes_read_def)
    have step: "rclcl_loop i n space s = (if used_space lens (Suc i) = 32 then Some (True, n + 1, space - of_nat (len_space l), s2)
        else rclcl_loop (Suc i) (n + 1) (space - of_nat (len_space l)) s2)"
      unfolding space_minus_one [OF le(1), symmetric] space [symmetric]
      using im(2) ord peek(1) v cl v0 sh histo by (subst rclcl_loop.simps) (simp add: s1_def s2_def h_def br1_def)
    have ok: "s_ok s2" "s_bits s2 = fixed_words lens (Suc i) m @ rest" using br1 by (simp_all add: s1_def s2_def)
    have same: "same_tables s s2" by (simp add: same_tables_def s1_def s2_def h_def)
    show ?thesis
    proof (cases "used_space lens (Suc i) = 32")
      case True
      then have "Suc i = m" using le(2) im(1) by fastforce
      then show ?thesis using step True read2 ok same by (simp add: fixed_words_def)
    next
      case f: False
      then have nxt: "Suc i < m \<or> Suc i = 18 \<and> m = 18" using le(3) im(1) by (cases "Suc i = m") auto
      from Suc.hyps(1) [OF d nxt read2 ok] obtain n' space' s' where
        "rclcl_loop (Suc i) (n + 1) (space - of_nat (len_space l)) s2 = Some (True, n', space', s')"
        "codes_read lens m n' space' (d_header s')" "s_ok s'" "s_bits s' = rest" "same_tables s2 s'" by blast
      then show ?thesis using step f same by (auto simp: same_tables_def)
    qed
  qed
qed

section \<open>Complete codes\<close>

lemma kraft_sum: "list_all (\<lambda>l. l \<le> 15) lens \<Longrightarrow> kraft lens = (\<Sum>l\<leftarrow>lens. if l = 0 then 0 else 2 ^ (15 - l))"
proof (induction lens rule: rev_induct)
  case Nil
  have "first_code [] m = 0" for m by (induction m) (simp_all add: syms_def)
  then show ?case by (simp add: kraft_def syms_def)
next
  case (snoc l lens)
  then have "kraft (lens @ replicate 1 l) = kraft lens + (if l = 0 then 0 else 1 * 2 ^ (15 - l))"
    by (intro kraft_replicate) simp
  then show ?case using snoc by simp
qed

lemma complete_code_sum:
  assumes "list_all (\<lambda>l. l \<le> 15) lens"
  shows "complete_code lens \<longleftrightarrow> (\<Sum>l\<leftarrow>lens. if l = 0 then 0 else 2 ^ (15 - l)) = (2 ^ 15 :: nat)"
  using assms kraft_sum [OF assms] by (simp add: complete_code_def kraft_def)

lemma used_space_complete:
  assumes "short_lens lens"
  shows "complete_code lens \<longleftrightarrow> used_space lens 18 = 32"
proof -
  have len: "length lens = 18" and five: "\<forall>l \<in> set lens. l \<le> 5" using assms by (simp_all add: short_lens_def list_all_iff)
  have "(if l = 0 then 0 else 2 ^ (15 - l)) = 1024 * len_space l" if "l \<le> 5" for l :: nat
  proof -
    have "15 - l = 10 + (5 - l)" using that by simp
    then have "(2::nat) ^ (15 - l) = 2 ^ 10 * 2 ^ (5 - l)" by (simp only: power_add)
    then show ?thesis by (simp add: len_space_def)
  qed
  then have "(\<Sum>l\<leftarrow>lens. if l = 0 then 0 else 2 ^ (15 - l)) = (\<Sum>l\<leftarrow>lens. 1024 * len_space l)"
    using five by (intro arg_cong [of _ _ sum_list] map_cong) simp_all
  also have "\<dots> = 1024 * used_space lens 18"
    unfolding used_space_def stored_codes_all by (simp add: sum_list_const_mult sum_list_sum_nth len sum_distrib_left)
  finally have "(\<Sum>l\<leftarrow>lens. if l = 0 then 0 else 2 ^ (15 - l)) = 1024 * used_space lens 18" .
  moreover have "list_all (\<lambda>l. l \<le> 15) lens" using five by (auto simp: list_all_iff)
  ultimately show ?thesis by (simp add: complete_code_sum)
qed

lemma used_space_mono: "i \<le> j \<Longrightarrow> j \<le> 18 \<Longrightarrow> used_space lens i \<le> used_space lens j"
proof (induction j)
  case (Suc j)
  then show ?case using used_space_Suc [of j lens] by (cases "i = Suc j") auto
qed simp

text \<open>What is read when the loop has stopped: all the lengths, and the counts the table needs.\<close>

definition rest_unused :: "nat list \<Rightarrow> nat \<Rightarrow> bool" where
  "rest_unused lens m \<longleftrightarrow> (\<forall>k < 18. k \<notin> stored_codes m \<longrightarrow> lens ! k = 0)"

lemma codes_read_all:
  assumes "short_lens lens" and "codes_read lens m n space h" and "rest_unused lens m"
  shows "map unat (h_code_length_code_lengths h) = lens" and "short_counts (h_code_length_histo h) lens"
    and "n = of_nat (card {k. k < 18 \<and> lens ! k \<noteq> 0})"
proof -
  have len: "length lens = 18" using assms(1) by (simp add: short_lens_def)
  note r = assms(2) [unfolded codes_read_def]
  have sub: "stored_codes m \<subseteq> {k. k < 18}"
    using storage_order(4) set_take_subset [of m kStorageOrder] by (auto simp: stored_codes_def)
  have same: "{k \<in> stored_codes m. P (lens ! k)} = {k. k < 18 \<and> P (lens ! k)}" if "\<not> P 0" for P
  proof (rule set_eqI)
    fix k
    have "lens ! k = 0" if "k < 18" "k \<notin> stored_codes m" using assms(3) that by (simp add: rest_unused_def)
    then show "k \<in> {k \<in> stored_codes m. P (lens ! k)} \<longleftrightarrow> k \<in> {k. k < 18 \<and> P (lens ! k)}"
      using sub that by (cases "k \<in> stored_codes m") auto
  qed
  show "map unat (h_code_length_code_lengths h) = lens"
    using r assms(3) len by (intro nth_equalityI) (simp_all add: rest_unused_def)
  have "len_count lens l = card {k. k < 18 \<and> lens ! k = l}" for l
  proof -
    have "len_count lens l = card (set (syms lens l))" by (rule distinct_card [OF distinct_syms, symmetric])
    then show ?thesis by (simp add: syms_def len)
  qed
  then show "short_counts (h_code_length_histo h) lens" using r same [of "\<lambda>l'. l' = _"] by (auto simp: short_counts_def)
  show "n = of_nat (card {k. k < 18 \<and> lens ! k \<noteq> 0})" using r same [of "\<lambda>l. l \<noteq> 0"] by (simp add: codes_used_def)
qed

lemma codes_read_start:
  assumes "\<And>k. k \<in> stored_codes i \<Longrightarrow> lens ! k = 0" and "6 \<le> length (h_code_length_histo h)"
  shows "codes_read lens i 0 32 (h\<lparr>h_code_length_histo := replicate 6 0 @ drop 6 (h_code_length_histo h),
    h_code_length_code_lengths := replicate 18 0\<rparr>)"
proof -
  have "{k \<in> stored_codes i. lens ! k \<noteq> 0} = {}" "used_space lens i = 0" using assms(1) by (auto simp: used_space_def len_space_def)
  then have "codes_used lens i = 0" "used_space lens i = 0" by (simp_all only: codes_used_def card.empty)
  moreover have "card {k \<in> stored_codes i. lens ! k = l} = 0" if "l \<in> {1..5}" for l
  proof -
    have "{k \<in> stored_codes i. lens ! k = l} = {}" using assms(1) that by auto
    then show ?thesis by (simp only: card.empty)
  qed
  ultimately show ?thesis using assms by (auto simp: codes_read_def nth_append)
qed

section \<open>The writer\<close>

lemma stored_length_spec:
  assumes "18 \<le> length bitdepth" and "i < 18"
  shows "stored_length bitdepth i = Some (bitdepth ! (kStorageOrder ! i))"
  using assms storage_order(2) stored_codes_Suc(4) [OF assms(2)] by (simp add: stored_length_def)

lemma codes_to_store_spec:
  assumes "18 \<le> length bitdepth" and "n \<le> 18"
  shows "\<exists>m \<le> n. codes_to_store bitdepth n = Some m \<and> (\<forall>j. m \<le> j \<longrightarrow> j < n \<longrightarrow> bitdepth ! (kStorageOrder ! j) = 0) \<and>
    (m \<noteq> 0 \<longrightarrow> bitdepth ! (kStorageOrder ! (m - 1)) \<noteq> 0)"
  using assms(2)
proof (induction n)
  case (Suc n)
  show ?case
  proof (cases "bitdepth ! (kStorageOrder ! n) = 0")
    case False
    then show ?thesis using stored_length_spec [OF assms(1), of n] Suc.prems by (intro exI [of _ "Suc n"]) simp
  next
    case True
    obtain m where "m \<le> n" "codes_to_store bitdepth n = Some m" "\<forall>j. m \<le> j \<longrightarrow> j < n \<longrightarrow> bitdepth ! (kStorageOrder ! j) = 0"
      "m \<noteq> 0 \<longrightarrow> bitdepth ! (kStorageOrder ! (m - 1)) \<noteq> 0" using Suc by auto
    then show ?thesis using True stored_length_spec [OF assms(1), of n] Suc.prems
      by (intro exI [of _ m]) (auto simp: less_Suc_eq)
  qed
qed simp

lemma skip_some_spec:
  assumes "18 \<le> length bitdepth"
  shows "\<exists>k \<in> {0, 2, 3}. skip_some bitdepth = Some k \<and> (\<forall>j < k. bitdepth ! (kStorageOrder ! j) = 0)"
  using stored_length_spec [OF assms, of 0] stored_length_spec [OF assms, of 1] stored_length_spec [OF assms, of 2]
  by (auto simp: skip_some_def less_Suc_eq numeral_2_eq_2 numeral_3_eq_3)

lemma fixed_words_step: "i \<le> m \<Longrightarrow> fixed_words lens i (Suc m) = fixed_words lens i m @ fixed_word (lens ! (kStorageOrder ! m))"
  by (simp add: fixed_words_def)

lemma length_fixed_words: 
  assumes "short_lens lens" and "m \<le> 18"
  shows "length (fixed_words lens i m) \<le> 4 * (m - i)"
proof -
  have "length (fixed_word (lens ! (kStorageOrder ! j))) \<le> 4" if "j \<in> set [i..<m]" for j
    using that assms(2) by (intro fixed_word_facts(2) short_lens_nth [OF assms(1)] stored_codes_Suc(4)) simp
  then have "(\<Sum>j\<leftarrow>[i..<m]. length (fixed_word (lens ! (kStorageOrder ! j)))) \<le> (\<Sum>j\<leftarrow>[i..<m]. 4)"
    by (intro sum_list_mono) simp
  then show ?thesis by (simp add: fixed_words_def length_concat comp_def sum_list_triv mult.commute)
qed

lemma store_lengths_spec:
  assumes "18 \<le> length bitdepth" and "map unat (take 18 bitdepth) = lens" and "short_lens lens" and "skip \<le> m" and "m \<le> 18"
    and "room st (4 * (m - skip) + r)"
  shows "\<exists>st'. foldM (\<lambda>i st. do {
       l \<leftarrow> stored_length bitdepth i;
       n \<leftarrow> arr_get kHuffmanBitLengthHuffmanCodeBitLengths (unat l);
       b \<leftarrow> arr_get kHuffmanBitLengthHuffmanCodeSymbols (unat l);
       BrotliWriteBits (unat n) (ucast b) st }) [skip..<m] st = Some st' \<and>
    written st' = written st @ fixed_words lens skip m \<and> room st' r"
proof -
  have "\<exists>st'. foldM (\<lambda>i st. do {
       l \<leftarrow> stored_length bitdepth i;
       n \<leftarrow> arr_get kHuffmanBitLengthHuffmanCodeBitLengths (unat l);
       b \<leftarrow> arr_get kHuffmanBitLengthHuffmanCodeSymbols (unat l);
       BrotliWriteBits (unat n) (ucast b) st }) [skip..<m] st = Some st' \<and>
    (written st' = written st @ fixed_words lens skip m \<and> room st' (4 * (m - m) + r))"
  proof (rule foldM_upt [where P = "\<lambda>i st'. written st' = written st @ fixed_words lens skip i \<and> room st' (4 * (m - i) + r)"])
    show "written st = written st @ fixed_words lens skip skip \<and> room st (4 * (m - skip) + r)"
      using assms(6) by (simp add: fixed_words_def)
  next
    fix i s assume i: "skip \<le> i" "i < m" and s: "written s = written st @ fixed_words lens skip i \<and> room s (4 * (m - i) + r)"
    define k where "k = kStorageOrder ! i"
    have k: "k < 18" using stored_codes_Suc(4) [of i] i assms(5) by (simp add: k_def)
    define l where "l = lens ! k"
    have l: "l \<le> 5" using short_lens_nth [OF assms(3) k] by (simp add: l_def)
    have d: "stored_length bitdepth i = Some (bitdepth ! k)" "unat (bitdepth ! k) = l"
      using stored_length_spec [OF assms(1), of i] i assms(1,2,5) k by (auto simp: k_def l_def)
    note w = fixed_word_facts [OF l]
    define n b where "n = kHuffmanBitLengthHuffmanCodeBitLengths ! l" and "b = kHuffmanBitLengthHuffmanCodeSymbols ! l"
    have get: "arr_get kHuffmanBitLengthHuffmanCodeBitLengths l = Some n" "arr_get kHuffmanBitLengthHuffmanCodeSymbols l = Some b"
      using l by (simp_all add: n_def b_def kHuffmanBitLengthHuffmanCodeBitLengths_def kHuffmanBitLengthHuffmanCodeSymbols_def)
    have nb: "unat n \<le> 4" "unat b < 2 ^ unat n" using w(1,2,4) by (simp_all add: n_def b_def)
    have "4 * (m - i) + r = unat n + (4 * (m - Suc i) + r + (4 - unat n))" using nb(1) i(2) by simp
    then have "room s (unat n + (4 * (m - Suc i) + r + (4 - unat n)))" using s by metis
    from le64.wr_nat [OF this _ nb(2)] obtain s' where s': "BrotliWriteBits (unat n) (of_nat (unat b)) s = Some s'"
      "written s' = written s @ val_bits (unat n) (unat b)" "room s' (4 * (m - Suc i) + r + (4 - unat n))" using nb(1) by auto
    have "fixed_words lens skip (Suc i) = fixed_words lens skip i @ val_bits (unat n) (unat b)"
      using fixed_words_step [OF i(1), of lens] by (simp add: fixed_word_def n_def b_def l_def k_def)
    then have "written s' = written st @ fixed_words lens skip (Suc i)" using s s'(2) by simp
    moreover have "room s' (4 * (m - Suc i) + r)" by (rule room_mono [OF s'(3)]) simp
    moreover have "ucast b = (of_nat (unat b) :: uint64)" by simp
    ultimately show "\<exists>s'. do { l \<leftarrow> stored_length bitdepth i;
         n \<leftarrow> arr_get kHuffmanBitLengthHuffmanCodeBitLengths (unat l);
         b \<leftarrow> arr_get kHuffmanBitLengthHuffmanCodeSymbols (unat l);
         BrotliWriteBits (unat n) (ucast b) s } = Some s' \<and>
      written s' = written st @ fixed_words lens skip (Suc i) \<and> room s' (4 * (m - Suc i) + r)"
      using d get s'(1) by simp
  qed (rule assms(4))
  then show ?thesis by simp
qed

text \<open>A code that is alone, and the words of either kind.\<close>

definition lone_code :: "nat list \<Rightarrow> nat \<Rightarrow> bool" where
  "lone_code lens k \<longleftrightarrow> k < 18 \<and> (\<forall>j < 18. lens ! j = 0 \<longleftrightarrow> j \<noteq> k)"

definition length_code :: "nat list \<Rightarrow> code_words \<Rightarrow> bool" where
  "length_code lens ws \<longleftrightarrow> short_lens lens \<and>
     (complete_code lens \<and> ws = code_words lens \<or> (\<exists>k. lone_code lens k \<and> ws = single_word k))"

lemma lone_space:
  assumes "short_lens lens" and "lone_code lens k" and "i \<le> 18"
  shows "used_space lens i < 32"
proof -
  have k: "k < 18" "0 < lens ! k" using assms(2) by (auto simp: lone_code_def)
  have other: "len_space (lens ! j) = 0" if "j < 18" "j \<noteq> k" for j using assms(2) that by (simp add: lone_code_def len_space_def)
  have "used_space lens 18 = (\<Sum>j \<in> {0..<18}. len_space (lens ! j))" by (simp add: used_space_def stored_codes_all)
  also have "\<dots> = len_space (lens ! k) + (\<Sum>j \<in> {0..<18} - {k}. len_space (lens ! j))" using k(1) by (intro sum.remove) simp_all
  also have "(\<Sum>j \<in> {0..<18} - {k}. len_space (lens ! j)) = 0" using other by simp
  also have "len_space (lens ! k) + 0 \<le> 2 ^ 4" using k(2) power_increasing [of "5 - lens ! k" 4 "2::nat"] by (simp add: len_space_def)
  finally show ?thesis using used_space_mono [OF assms(3), of lens] by simp
qed

lemma complete_not_lone: "short_lens lens \<Longrightarrow> complete_code lens \<Longrightarrow> \<not> lone_code lens k"
  using lone_space [of lens k 18] used_space_complete [of lens] by auto

lemma complete_many:
  assumes "short_lens lens" and "complete_code lens"
  shows "sorted_base lens 0 \<noteq> 1"
proof
  assume one: "sorted_base lens 0 = 1"
  define F where "F = concat (map (syms lens) [1..<6])"
  have len: "length lens = 18" using assms(1) by (simp add: short_lens_def)
  have "length F = 1" using one by (simp add: sorted_base_def F_def)
  then obtain k where F: "F = [k]" by (cases F) auto
  have "j \<in> set F \<longleftrightarrow> j < 18 \<and> lens ! j \<in> {1..<6}" for j by (auto simp: F_def syms_def len)
  moreover have "lens ! j \<in> {1..<6} \<longleftrightarrow> lens ! j \<noteq> 0" if "j < 18" for j
    using short_lens_nth [OF assms(1) that] unfolding atLeastLessThan_iff by linarith
  moreover have "j \<in> set F \<longleftrightarrow> j = k" for j by (simp add: F)
  ultimately have "j = k \<longleftrightarrow> j < 18 \<and> lens ! j \<noteq> 0" for j by blast
  then have "lone_code lens k" unfolding lone_code_def by blast
  then show False using complete_not_lone [OF assms] by blast
qed

text \<open>Where the writer starts and stops.\<close>

definition code_span :: "nat list \<Rightarrow> nat \<Rightarrow> nat \<Rightarrow> bool" where
  "code_span lens skip m \<longleftrightarrow> skip \<in> {0, 2, 3} \<and> skip < m \<and> stops_at lens m \<and> rest_unused lens m \<and>
     (\<forall>k \<in> stored_codes skip. lens ! k = 0)"

lemma rest_unusedI:
  assumes "\<forall>j. m \<le> j \<longrightarrow> j < 18 \<longrightarrow> lens ! (kStorageOrder ! j) = 0"
  shows "rest_unused lens m"
  unfolding rest_unused_def
proof (intro allI impI)
  fix k assume k: "k < 18" "k \<notin> stored_codes m"
  obtain j where j: "j < 18" "kStorageOrder ! j = k" using k(1) storage_order(2,4) by (metis atLeastLessThan_iff in_set_conv_nth zero_le)
  have "\<not> j < m" using k(2) j unfolding stored_codes_iff by blast
  then show "lens ! k = 0" using assms [rule_format, of j] j by simp
qed

lemma rest_unused_space: "rest_unused lens m \<Longrightarrow> m \<le> 18 \<Longrightarrow> used_space lens 18 = used_space lens m"
proof -
  assume r: "rest_unused lens m" and m: "m \<le> 18"
  have "stored_codes m \<subseteq> {0..<18}" using storage_order(4) set_take_subset [of m kStorageOrder] by (simp add: stored_codes_def)
  moreover have "\<forall>k \<in> {0..<18} - stored_codes m. len_space (lens ! k) = 0" using r by (simp add: rest_unused_def len_space_def)
  ultimately show ?thesis unfolding used_space_def stored_codes_all by (intro sum.mono_neutral_right) simp_all
qed

lemma StoreHuffmanTreeOfHuffmanTree_spec:
  assumes "length_code lens ws" and "18 \<le> length bitdepth" and "map unat (take 18 bitdepth) = lens"
    and "num_codes > 1 \<longleftrightarrow> complete_code lens" and "room st (74 + r)"
  shows "\<exists>skip m st'. BrotliStoreHuffmanTreeOfHuffmanTreeToBitMask num_codes bitdepth st = Some st' \<and> code_span lens skip m \<and>
    written st' = written st @ val_bits 2 skip @ fixed_words lens skip m \<and> room st' r"
proof -
  have short: "short_lens lens" using assms(1) by (simp add: length_code_def)
  have bd: "bitdepth ! (kStorageOrder ! j) = 0 \<longleftrightarrow> lens ! (kStorageOrder ! j) = 0" if "j < 18" for j
    using stored_codes_Suc(4) [OF that] assms(2,3) by (auto simp: unat_eq_zero)
  obtain skip where skip: "skip \<in> {0, 2, 3}" "skip_some bitdepth = Some skip" "\<forall>j < skip. bitdepth ! (kStorageOrder ! j) = 0"
    using skip_some_spec [OF assms(2)] by blast
  have "\<exists>m. (if num_codes > 1 then codes_to_store bitdepth 18 else Some 18) = Some m \<and> m \<le> 18 \<and> stops_at lens m \<and> rest_unused lens m"
  proof (cases "num_codes > 1")
    case True
    then have full: "used_space lens 18 = 32" using assms(4) used_space_complete [OF short] by simp
    obtain m where m: "m \<le> 18" "codes_to_store bitdepth 18 = Some m" "\<forall>j. m \<le> j \<longrightarrow> j < 18 \<longrightarrow> bitdepth ! (kStorageOrder ! j) = 0"
      "m \<noteq> 0 \<longrightarrow> bitdepth ! (kStorageOrder ! (m - 1)) \<noteq> 0" using codes_to_store_spec [OF assms(2) order.refl] by blast
    have r: "rest_unused lens m" by (rule rest_unusedI) (use m(3) bd in blast)
    have u: "used_space lens m = 32" using rest_unused_space [OF r m(1)] full by simp
    have "used_space lens j < 32" if "j < m" for j
    proof -
      have "lens ! (kStorageOrder ! (m - 1)) \<noteq> 0" using m(1,4) bd [of "m - 1"] that by auto
      then have "0 < len_space (lens ! (kStorageOrder ! (m - 1)))" by (simp add: len_space_def)
      then have "used_space lens (m - 1) < used_space lens m" using used_space_Suc [of "m - 1" lens] m(1) that by (simp add: Suc_diff_1)
      moreover have "used_space lens j \<le> used_space lens (m - 1)" using that m(1) by (intro used_space_mono) simp_all
      ultimately show ?thesis using u by simp
    qed
    then show ?thesis using True m(1,2) r u by (auto simp: stops_at_def)
  next
    case False
    then obtain k where "lone_code lens k" using assms(1,4) by (auto simp: length_code_def)
    from lone_space [OF short this] have "stops_at lens 18" by (auto simp: stops_at_def)
    moreover have "rest_unused lens 18" by (simp add: rest_unused_def stored_codes_all)
    ultimately show ?thesis using False by auto
  qed
  then obtain m where m: "(if num_codes > 1 then codes_to_store bitdepth 18 else Some 18) = Some m" "m \<le> 18" "stops_at lens m" "rest_unused lens m"
    by blast
  have zero: "lens ! k = 0" if k: "k \<in> stored_codes skip" for k
  proof -
    have s3: "skip \<le> 3" using skip(1) by auto
    obtain j where j: "j < skip" "k = kStorageOrder ! j" using k unfolding stored_codes_iff by blast
    then show ?thesis using skip(3) bd [of j] s3 by simp
  qed
  have "skip < m"
  proof (rule ccontr)
    assume "\<not> skip < m"
    then have "m \<le> skip" by simp
    then have "stored_codes m \<subseteq> stored_codes skip" unfolding stored_codes_def by (rule set_take_subset_set_take)
    then have none: "lens ! k = 0" if "k < 18" for k using zero m(4) that by (auto simp: rest_unused_def)
    then have "used_space lens 18 = 0" by (simp add: used_space_def stored_codes_all len_space_def)
    then have "\<not> complete_code lens" using used_space_complete [OF short] by simp
    then obtain k where "lone_code lens k" using assms(1) by (auto simp: length_code_def)
    then show False using none by (auto simp: lone_code_def)
  qed
  then have span: "code_span lens skip m" using skip(1) m(3,4) zero by (simp add: code_span_def)
  have s4: "skip < 2 ^ 2" using skip(1) by auto
  have "room st (2 + (72 + r))" using assms(5) by simp
  from le64.wr_nat [OF this _ s4] obtain s1 where
    s1: "BrotliWriteBits 2 (of_nat skip) st = Some s1" "written s1 = written st @ val_bits 2 skip" "room s1 (72 + r)" by auto
  have "room s1 (4 * (m - skip) + r)" by (rule room_mono [OF s1(3)]) (use m(2) in simp)
  from store_lengths_spec [OF assms(2,3) short _ m(2) this] \<open>skip < m\<close> obtain st' where
    st': "foldM (\<lambda>i st. do {
       l \<leftarrow> stored_length bitdepth i;
       n \<leftarrow> arr_get kHuffmanBitLengthHuffmanCodeBitLengths (unat l);
       b \<leftarrow> arr_get kHuffmanBitLengthHuffmanCodeSymbols (unat l);
       BrotliWriteBits (unat n) (ucast b) st }) [skip..<m] s1 = Some st'" "written st' = written s1 @ fixed_words lens skip m" "room st' r"
    by auto
  have "BrotliStoreHuffmanTreeOfHuffmanTreeToBitMask num_codes bitdepth st = Some st'"
    unfolding BrotliStoreHuffmanTreeOfHuffmanTreeToBitMask_def m(1) bind.bind_lunit skip(2) s1(1) by (rule st'(1))
  then show ?thesis using span st'(2,3) s1(2) by auto
qed

end
