(* ===== verification/Enc_Sort_Facts.thy ===== *)
theory Enc_Sort_Facts
  imports Entropy_Encode "HOL-Library.Multiset"
begin

text \<open>
  \<open>SortHuffmanTreeItems\<close> of \<^verbatim>\<open>enc/entropy_encode.h\<close> sorts: insertion for few items, Shell's gaps ending with one for
  more.
\<close>

section \<open>Insertion\<close>

text \<open>A step that puts the item after \<open>xs\<close> where it belongs among them.\<close>

definition inserts :: "('a \<Rightarrow> 'a \<Rightarrow> bool) \<Rightarrow> (nat \<Rightarrow> 'a list \<Rightarrow> 'a list option) \<Rightarrow> bool" where
  "inserts cmp step \<longleftrightarrow> (\<forall>xs x ys. xs \<noteq> [] \<longrightarrow> (\<exists>as bs. xs = as @ bs \<and> (\<forall>b \<in> set bs. cmp x b) \<and>
     (as \<noteq> [] \<longrightarrow> \<not> cmp x (List.last as)) \<and> step (length xs) (xs @ x # ys) = Some (as @ x # bs @ ys)))"

lemma insertion_loop_spec:
  assumes "xs \<noteq> []"
  shows "\<exists>as bs h'. xs = as @ bs \<and> (\<forall>b \<in> set bs. cmp x b) \<and> (as \<noteq> [] \<longrightarrow> \<not> cmp x (List.last as)) \<and>
    insertion_loop cmp x (length xs - 1) (length xs) (xs @ h # ys) = Some (length as, as @ h' # bs @ ys)"
  using assms
proof (induction xs arbitrary: h ys rule: rev_induct)
  case (snoc y xs)
  show ?case
  proof (cases "cmp x y")
    case False
    then have "insertion_loop cmp x (length xs) (Suc (length xs)) ((xs @ [y]) @ h # ys) = Some (Suc (length xs), (xs @ [y]) @ h # ys)"
      by (subst insertion_loop.simps) (simp add: nth_append)
    then show ?thesis using False by (intro exI [of _ "xs @ [y]"] exI [of _ "[]"] exI [of _ h]) simp
  next
    case True
    show ?thesis
    proof (cases "xs = []")
      case e: True
      have "insertion_loop cmp x 0 1 ([y] @ h # ys) = Some (0, y # y # ys)"
        using True by (subst insertion_loop.simps) simp
      then show ?thesis using True e by (intro exI [of _ "[]"] exI [of _ "[y]"] exI [of _ y]) simp
    next
      case False
      from snoc.IH [OF False, of y "y # ys"] obtain as bs h' where ab: "xs = as @ bs" "\<forall>b \<in> set bs. cmp x b" "as \<noteq> [] \<longrightarrow> \<not> cmp x (List.last as)"
        "insertion_loop cmp x (length xs - 1) (length xs) (xs @ y # y # ys) = Some (length as, as @ h' # bs @ y # ys)" by blast
      have "insertion_loop cmp x (length xs) (Suc (length xs)) ((xs @ [y]) @ h # ys) =
          insertion_loop cmp x (length xs - 1) (length xs) (xs @ y # y # ys)"
        using True False by (subst insertion_loop.simps) (cases "length xs"; simp add: nth_append list_update_append)
      then show ?thesis using ab True by (intro exI [of _ as] exI [of _ "bs @ [y]"] exI [of _ h']) simp
    qed
  qed
qed simp

lemma inserts_insertion: "inserts cmp (insertion_step cmp)"
  unfolding inserts_def
proof (intro allI impI)
  fix xs :: "'a list" and x ys assume ne: "xs \<noteq> []"
  from insertion_loop_spec [OF ne, of cmp x x ys] obtain as bs h' where ab: "xs = as @ bs" "\<forall>b \<in> set bs. cmp x b"
    "as \<noteq> [] \<longrightarrow> \<not> cmp x (List.last as)"
    "insertion_loop cmp x (length xs - 1) (length xs) (xs @ x # ys) = Some (length as, as @ h' # bs @ ys)" by blast
  then have "insertion_step cmp (length xs) (xs @ x # ys) = Some (as @ x # bs @ ys)"
    by (simp add: insertion_step_def nth_append)
  then show "\<exists>as bs. xs = as @ bs \<and> (\<forall>b \<in> set bs. cmp x b) \<and> (as \<noteq> [] \<longrightarrow> \<not> cmp x (List.last as)) \<and>
      insertion_step cmp (length xs) (xs @ x # ys) = Some (as @ x # bs @ ys)" using ab by blast
qed

lemma shell_loop_one_spec:
  "\<exists>as bs h'. xs = as @ bs \<and> (\<forall>b \<in> set bs. cmp x b) \<and> (as \<noteq> [] \<longrightarrow> \<not> cmp x (List.last as)) \<and>
    shell_loop cmp 1 x (length xs) (xs @ h # ys) = Some (length as, as @ h' # bs @ ys)"
proof (induction xs arbitrary: h ys rule: rev_induct)
  case Nil
  have "shell_loop cmp 1 x 0 (h # ys) = Some (0, h # ys)" by (subst shell_loop.simps) simp
  then show ?case by simp
next
  case (snoc y xs)
  show ?case
  proof (cases "cmp x y")
    case False
    then have "shell_loop cmp 1 x (Suc (length xs)) ((xs @ [y]) @ h # ys) = Some (Suc (length xs), (xs @ [y]) @ h # ys)"
      by (subst shell_loop.simps) (simp add: nth_append)
    then show ?thesis using False by (intro exI [of _ "xs @ [y]"] exI [of _ "[]"] exI [of _ h]) simp
  next
    case True
    from snoc.IH [of y "y # ys"] obtain as bs h' where ab: "xs = as @ bs" "\<forall>b \<in> set bs. cmp x b" "as \<noteq> [] \<longrightarrow> \<not> cmp x (List.last as)"
      "shell_loop cmp 1 x (length xs) (xs @ y # y # ys) = Some (length as, as @ h' # bs @ y # ys)" by blast
    have "shell_loop cmp 1 x (Suc (length xs)) ((xs @ [y]) @ h # ys) = shell_loop cmp 1 x (length xs) (xs @ y # y # ys)"
      using True by (subst shell_loop.simps) (simp add: nth_append list_update_append)
    then show ?thesis using ab True by (intro exI [of _ as] exI [of _ "bs @ [y]"] exI [of _ h']) simp
  qed
qed

lemma inserts_shell_one: "inserts cmp (shell_step cmp 1)"
  unfolding inserts_def
proof (intro allI impI)
  fix xs :: "'a list" and x ys
  from shell_loop_one_spec [of xs cmp x x ys] obtain as bs h' where ab: "xs = as @ bs" "\<forall>b \<in> set bs. cmp x b"
    "as \<noteq> [] \<longrightarrow> \<not> cmp x (List.last as)"
    "shell_loop cmp 1 x (length xs) (xs @ x # ys) = Some (length as, as @ h' # bs @ ys)" by blast
  then have "shell_step cmp 1 (length xs) (xs @ x # ys) = Some (as @ x # bs @ ys)"
    by (simp add: shell_step_def nth_append)
  then show "\<exists>as bs. xs = as @ bs \<and> (\<forall>b \<in> set bs. cmp x b) \<and> (as \<noteq> [] \<longrightarrow> \<not> cmp x (List.last as)) \<and>
      shell_step cmp 1 (length xs) (xs @ x # ys) = Some (as @ x # bs @ ys)" using ab by blast
qed

text \<open>A pass over all positions sorts.\<close>

definition permutes_front :: "nat \<Rightarrow> 'a list \<Rightarrow> 'a list \<Rightarrow> bool" where
  "permutes_front n xs ys \<longleftrightarrow> length ys = length xs \<and> mset (take n ys) = mset (take n xs) \<and> drop n ys = drop n xs"

lemma permutes_front_refl: "permutes_front n xs xs"
  by (simp add: permutes_front_def)

lemma permutes_front_trans: "permutes_front n xs ys \<Longrightarrow> permutes_front n ys zs \<Longrightarrow> permutes_front n xs zs"
  by (simp add: permutes_front_def)

definition agrees :: "('a \<Rightarrow> 'a \<Rightarrow> bool) \<Rightarrow> ('a \<Rightarrow> 'b::linorder) \<Rightarrow> bool" where
  "agrees cmp f \<longleftrightarrow> (\<forall>x y. (cmp x y \<longrightarrow> f x \<le> f y) \<and> (\<not> cmp x y \<longrightarrow> f y \<le> f x))"

lemma pass_sorts:
  assumes "inserts cmp step" and "agrees cmp f" and "n \<le> length items"
  shows "\<exists>items'. foldM step [1..<n] items = Some items' \<and> permutes_front n items items' \<and> sorted (map f (take n items'))"
proof (cases "n = 0")
  case True
  then show ?thesis by (simp add: permutes_front_refl)
next
  case False
  have "\<exists>items'. foldM step [1..<n] items = Some items' \<and> (permutes_front n items items' \<and> sorted (map f (take n items')))"
  proof (rule foldM_upt [where P = "\<lambda>i t. permutes_front n items t \<and> sorted (map f (take i t))"])
    show "permutes_front n items items \<and> sorted (map f (take 1 items))"
      by (cases items) (simp_all add: permutes_front_refl)
  next
    fix i t assume i: "1 \<le> i" "i < n" and t: "permutes_front n items t \<and> sorted (map f (take i t))"
    define xs x ys where "xs = take i t" and "x = t ! i" and "ys = drop (Suc i) t"
    have len: "length t = length items" "i < length t" using t i assms(3) by (simp_all add: permutes_front_def)
    have t_eq: "t = xs @ x # ys" "length xs = i" "xs \<noteq> []" using len(2) i(1) by (auto simp: xs_def x_def ys_def id_take_nth_drop)
    then obtain as bs where ab: "xs = as @ bs" "\<forall>b \<in> set bs. cmp x b" "as \<noteq> [] \<longrightarrow> \<not> cmp x (List.last as)"
      "step i t = Some (as @ x # bs @ ys)" using assms(1) unfolding inserts_def by blast
    have sx: "sorted (map f (as @ bs))" using t by (simp add: xs_def [symmetric] ab(1))
    have "f a \<le> f x" if a: "a \<in> set as" for a
    proof -
      obtain as0 y where as: "as = as0 @ [y]" using a by (cases as rule: rev_cases) auto
      have "f a \<le> f y" using sx a by (auto simp: as sorted_append)
      also have "f y \<le> f x" using ab(3) assms(2) by (simp add: as agrees_def)
      finally show ?thesis .
    qed
    moreover have "f x \<le> f b" if "b \<in> set bs" for b using ab(2) that assms(2) by (simp add: agrees_def)
    ultimately have sorted: "sorted (map f (as @ x # bs))" using sx by (auto simp: sorted_append)
    have lab: "length (as @ x # bs) = Suc i" using ab(1) t_eq(2) by simp
    have "permutes_front n t (as @ x # bs @ ys)"
    proof -
      obtain q where q: "n = Suc i + q" using i(2) by (metis Suc_leI le_Suc_ex)
      have "take n (as @ x # bs @ ys) = (as @ x # bs) @ take q ys" "drop n (as @ x # bs @ ys) = drop q ys"
      proof -
        have "n = length as + Suc (length bs + q)" using lab by (simp add: q)
        then show "take n (as @ x # bs @ ys) = (as @ x # bs) @ take q ys" "drop n (as @ x # bs @ ys) = drop q ys" by simp_all
      qed
      moreover have "take n t = xs @ x # take q ys" "drop n t = drop q ys" using t_eq(1,2) by (simp_all add: q)
      ultimately show ?thesis using t_eq(1) ab(1) by (simp add: permutes_front_def)
    qed
    moreover have "take (Suc i) (as @ x # bs @ ys) = as @ x # bs" unfolding lab [symmetric] by simp
    ultimately show "\<exists>s'. step i t = Some s' \<and> permutes_front n items s' \<and> sorted (map f (take (Suc i) s'))"
      using ab(4) t sorted permutes_front_trans by (metis (no_types, lifting))
  qed (use False in simp)
  then show ?thesis by simp
qed

section \<open>Larger gaps\<close>

text \<open>Any other gap only permutes.\<close>

lemma shell_loop_permutes:
  assumes "0 < gap" and "j < n" and "n \<le> length items"
  shows "\<exists>j' items'. shell_loop cmp gap x j items = Some (j', items') \<and> j' < n \<and> length items' = length items \<and>
    permutes_front n (items[j := x]) (items'[j' := x])"
  using assms(2,3)
proof (induction j arbitrary: items rule: less_induct)
  case (less j)
  show ?case
  proof (cases "gap \<le> j \<and> cmp x (items ! (j - gap))")
    case False
    have "shell_loop cmp gap x j items = Some (j, items)"
      using assms(1) False less.prems by (subst shell_loop.simps) auto
    then show ?thesis using less.prems by (auto simp: permutes_front_refl)
  next
    case True
    define k where "k = j - gap"
    have k: "k < j" "k < n" using True assms(1) less.prems(1) by (simp_all add: k_def)
    define items1 where "items1 = items[j := items ! k]"
    have step: "shell_loop cmp gap x j items = shell_loop cmp gap x k items1"
      using assms(1) True less.prems k by (subst shell_loop.simps) (simp add: k_def items1_def)
    have len: "n \<le> length items1" using less.prems(2) by (simp add: items1_def)
    from less.IH [OF k(1,2) len] obtain j' items' where r: "shell_loop cmp gap x k items1 = Some (j', items')" "j' < n"
      "length items' = length items1" "permutes_front n (items1[k := x]) (items'[j' := x])" by blast
    have "items1[k := x] = (items[j := x])[j := items[j := x] ! k, k := items[j := x] ! j]"
      using k less.prems by (simp add: items1_def list_update_swap)
    then have "take n (items1[k := x]) = (take n (items[j := x]))[j := take n (items[j := x]) ! k, k := take n (items[j := x]) ! j]"
      using k less.prems by (simp add: take_update_swap)
    moreover have "j < length (take n (items[j := x]))" "k < length (take n (items[j := x]))" using k less.prems by simp_all
    ultimately have "mset (take n (items1[k := x])) = mset (take n (items[j := x]))"
      by (simp only: mset_swap)
    moreover have "drop n (items1[k := x]) = drop n (items[j := x])" using k less.prems by (simp add: items1_def)
    ultimately have "permutes_front n (items[j := x]) (items1[k := x])" by (simp add: permutes_front_def items1_def)
    then show ?thesis using step r permutes_front_trans by (auto simp: items1_def)
  qed
qed

lemma shell_step_permutes:
  assumes "0 < gap" and "i < n" and "n \<le> length items"
  shows "\<exists>items'. shell_step cmp gap i items = Some items' \<and> permutes_front n items items'"
  using shell_loop_permutes [OF assms, of cmp "items ! i"] assms by (auto simp: shell_step_def)

lemma shell_pass_permutes:
  assumes "0 < gap" and "n \<le> length items"
  shows "\<exists>items'. foldM (shell_step cmp gap) [gap..<n] items = Some items' \<and> permutes_front n items items'"
proof (cases "gap \<le> n")
  case True
  then show ?thesis
  proof (intro foldM_upt [where P = "\<lambda>i t. permutes_front n items t"])
    fix i t assume "gap \<le> i" "i < n" and t: "permutes_front n items t"
    then have "n \<le> length t" using assms(2) by (simp add: permutes_front_def)
    from shell_step_permutes [OF assms(1) \<open>i < n\<close> this, of cmp] show "\<exists>s'. shell_step cmp gap i t = Some s' \<and> permutes_front n items s'"
      using t permutes_front_trans by blast
  qed (simp_all add: permutes_front_refl)
qed (simp add: permutes_front_refl)

lemma SortHuffmanTreeItems_spec:
  assumes "agrees cmp f" and "n \<le> length items"
  shows "\<exists>items'. SortHuffmanTreeItems cmp n items = Some items' \<and> permutes_front n items items' \<and> sorted (map f (take n items'))"
proof (cases "n < 13")
  case True
  then show ?thesis using pass_sorts [OF inserts_insertion assms] by (simp add: SortHuffmanTreeItems_def)
next
  case False
  define step where "step = (\<lambda>g items. do { gap \<leftarrow> arr_get kBrotliShellGaps g; foldM (shell_step cmp gap) [gap..<n] items })"
  define lo where "lo = (if n < 57 then 2 else 0 :: nat)"
  have gaps: "arr_get kBrotliShellGaps g = Some (kBrotliShellGaps ! g)" "0 < kBrotliShellGaps ! g" if "g < 6" for g
    using that by (auto simp: kBrotliShellGaps_def less_Suc_eq numeral_eq_Suc)
  have upt: "[lo..<6] = [lo..<5] @ [5]" by (simp add: lo_def upt_rec)
  have "\<exists>t. foldM step [lo..<5] items = Some t \<and> permutes_front n items t"
  proof (rule foldM_upt [where P = "\<lambda>i t. permutes_front n items t"])
    fix g t assume g: "lo \<le> g" "g < 5" and t: "permutes_front n items t"
    then have "n \<le> length t" using assms(2) by (simp add: permutes_front_def)
    from shell_pass_permutes [OF gaps(2) this, of g cmp] g gaps(1) [of g] show "\<exists>s'. step g t = Some s' \<and> permutes_front n items s'"
      using t permutes_front_trans by (fastforce simp: step_def)
  qed (simp_all add: permutes_front_refl lo_def)
  then obtain t where t: "foldM step [lo..<5] items = Some t" "permutes_front n items t" by blast
  have "n \<le> length t" using t(2) assms(2) by (simp add: permutes_front_def)
  from pass_sorts [OF inserts_shell_one assms(1) this] obtain u where
    u: "foldM (shell_step cmp 1) [1..<n] t = Some u" "permutes_front n t u" "sorted (map f (take n u))" by blast
  have "step 5 t = Some u" using u(1) by (simp add: step_def kBrotliShellGaps_def)
  then have "SortHuffmanTreeItems cmp n items = Some u"
    using False t(1) by (simp add: SortHuffmanTreeItems_def lo_def [symmetric] step_def [symmetric] upt foldM_append)
  then show ?thesis using u(3) permutes_front_trans [OF t(2) u(2)] by blast
qed

lemma SortHuffmanTree_agrees: "agrees SortHuffmanTree total_count" "agrees SortHuffmanTree_fast total_count"
  by (auto simp: agrees_def SortHuffmanTree_def SortHuffmanTree_fast_def)

end
