(* ===== verification/Enc_Tree_Facts.thy ===== *)
theory Enc_Tree_Facts
  imports Enc_Sort_Facts
begin

text \<open>
  One round of \<open>BrotliCreateHuffmanTree\<close> of \<^verbatim>\<open>enc/entropy_encode.c\<close>: its array holds a tree, the tree is Huffman's,
  and \<open>BrotliSetDepth\<close> writes the depths of the leaves or tells that one is too deep.
\<close>

section \<open>Trees\<close>

text \<open>A leaf has a weight and a symbol.\<close>

datatype htree = HLeaf nat nat | HNode htree htree

fun weight :: "htree \<Rightarrow> nat" where
  "weight (HLeaf w s) = w"
| "weight (HNode l r) = weight l + weight r"

fun height :: "htree \<Rightarrow> nat" where
  "height (HLeaf w s) = 0"
| "height (HNode l r) = Suc (max (height l) (height r))"

fun leaves :: "htree \<Rightarrow> (nat \<times> nat) multiset" where
  "leaves (HLeaf w s) = {#(w, s)#}"
| "leaves (HNode l r) = leaves l + leaves r"

lemma weight_leaves: "weight t = \<Sum>\<^sub># (image_mset fst (leaves t))"
  by (induction t) simp_all

text \<open>The array from index \<open>p\<close>, all nodes below \<open>B\<close>.\<close>

fun tree_at :: "HuffmanTree list \<Rightarrow> nat \<Rightarrow> nat \<Rightarrow> htree \<Rightarrow> bool" where
  "tree_at pool B p (HLeaf w s) \<longleftrightarrow> p < B \<and> p < length pool \<and> pool ! p = InitHuffmanTree (of_nat w) (- 1) (int s)"
| "tree_at pool B p (HNode l r) \<longleftrightarrow> p < B \<and> p < length pool \<and> (\<exists>a b. tree_at pool B a l \<and> tree_at pool B b r \<and>
     pool ! p = InitHuffmanTree (of_nat (weight l + weight r)) (int a) (int b))"

lemma tree_at_frame:
  assumes "tree_at pool B p t" and "B \<le> B'" and "length pool' = length pool" and "\<forall>q < B. pool' ! q = pool ! q"
  shows "tree_at pool' B' p t"
  using assms(1)
proof (induction t arbitrary: p)
  case (HNode l r)
  then show ?case using assms(2-4) by (auto simp: less_le_trans)
qed (use assms(2-4) in \<open>auto simp: less_le_trans\<close>)

lemma tree_at_count: "tree_at pool B p t \<Longrightarrow> p < B \<and> p < length pool \<and> total_count (pool ! p) = of_nat (weight t)"
  by (cases t) (auto simp: InitHuffmanTree_def)

section \<open>Depths\<close>

fun put_depths :: "nat \<Rightarrow> htree \<Rightarrow> uint8 list \<Rightarrow> uint8 list" where
  "put_depths d (HLeaf w s) depth = depth[s := of_nat d]"
| "put_depths d (HNode l r) depth = put_depths (Suc d) r (put_depths (Suc d) l depth)"

lemma length_put_depths [simp]: "length (put_depths d t depth) = length depth"
  by (induction d t depth rule: put_depths.induct) simp_all

lemma put_depths_other: "(\<forall>w. (w, s) \<notin># leaves t) \<Longrightarrow> put_depths d t depth ! s = depth ! s"
  by (induction d t depth rule: put_depths.induct) auto

text \<open>What the loop does after a leaf: it goes on with the right sibling of the last level that has one.\<close>

definition set_depth_next :: "HuffmanTree list \<Rightarrow> int \<Rightarrow> int \<Rightarrow> int option list \<Rightarrow> uint8 list \<Rightarrow> (bool \<times> uint8 list) option" where
  "set_depth_next pool m level stack depth = do {
     level \<leftarrow> pop_level stack level;
     if level < 0 then Some (True, depth)
     else do {
       c \<leftarrow> arr_geti stack level;
       p \<leftarrow> c;
       stack \<leftarrow> arr_seti stack level (Some (- 1));
       set_depth_loop pool m p level stack depth } }"

lemma set_depth_next_taken:
  assumes "length stack = 16" and "d < 16" and "stack ! d = Some (int b)"
  shows "set_depth_next pool m (int d) stack depth = set_depth_loop pool m (int b) (int d) (stack[d := Some (- 1)]) depth"
  using assms by (simp add: set_depth_next_def arr_geti_def arr_seti_def pop_level.simps [of stack "int d"])

lemma set_depth_next_done:
  assumes "length stack = 16" and "Suc d < 16" and "stack ! Suc d = Some (- 1)"
  shows "set_depth_next pool m (int (Suc d)) stack depth = set_depth_next pool m (int d) stack depth"
proof -
  have "nat (1 + int d) = Suc d" by simp
  then have "pop_level stack (int (Suc d)) = pop_level stack (int d)"
    using assms by (subst pop_level.simps) (simp add: arr_geti_def)
  then show ?thesis by (simp only: set_depth_next_def)
qed

lemma set_depth_leaf:
  assumes "tree_at pool B p (HLeaf w s)" and "s < length depth"
  shows "set_depth_loop pool m (int p) (int d) stack depth = set_depth_next pool m (int d) stack (depth[s := of_nat d])"
  using assms by (subst set_depth_loop.simps) (simp add: arr_geti_def arr_seti_def InitHuffmanTree_def set_depth_next_def)

lemma set_depth_node:
  assumes "p < length pool" and "pool ! p = InitHuffmanTree c (int a) (int b)" and "length stack = 16" and "m \<le> 15"
  shows "set_depth_loop pool (int m) (int p) (int d) stack depth =
    (if Suc d > m then Some (False, depth) else set_depth_loop pool (int m) (int a) (int (Suc d)) (stack[Suc d := Some (int b)]) depth)"
proof -
  have i: "nat (1 + int d) = Suc d" "1 + int d = int (Suc d)" by simp_all
  show ?thesis using assms by (subst set_depth_loop.simps) (simp add: arr_geti_def arr_seti_def InitHuffmanTree_def add.commute i(1))
qed

definition leaves_in :: "htree \<Rightarrow> nat \<Rightarrow> bool" where
  "leaves_in t n \<longleftrightarrow> (\<forall>(w, s) \<in># leaves t. s < n)"

lemma leaves_in_simps [simp]: "leaves_in (HLeaf w s) n \<longleftrightarrow> s < n" "leaves_in (HNode l r) n \<longleftrightarrow> leaves_in l n \<and> leaves_in r n"
  by (auto simp: leaves_in_def)

lemma set_depth_fits:
  assumes "tree_at pool B p t" and "d + height t \<le> m" and "m \<le> 15" and "leaves_in t (length depth)" and "length stack = 16"
  shows "\<exists>stack'. set_depth_loop pool (int m) (int p) (int d) stack depth = set_depth_next pool (int m) (int d) stack' (put_depths d t depth) \<and>
    length stack' = 16 \<and> (\<forall>k \<le> d. stack' ! k = stack ! k)"
  using assms(1,2,4,5)
proof (induction t arbitrary: p d depth stack)
  case (HLeaf w s)
  then show ?case using set_depth_leaf [OF HLeaf.prems(1)] by auto
next
  case (HNode l r)
  obtain a b where node: "p < length pool" "tree_at pool B a l" "tree_at pool B b r"
    "pool ! p = InitHuffmanTree (of_nat (weight l + weight r)) (int a) (int b)" using HNode.prems(1) by auto
  have h: "Suc d + height l \<le> m" "Suc d + height r \<le> m" "Suc d \<le> m" "Suc d < 16" using HNode.prems(2) assms(3) by simp_all
  have s1: "set_depth_loop pool (int m) (int p) (int d) stack depth =
      set_depth_loop pool (int m) (int a) (int (Suc d)) (stack[Suc d := Some (int b)]) depth"
    using set_depth_node [OF node(1,4) HNode.prems(4) assms(3)] h(3) by simp
  from HNode.IH(1) [OF node(2) h(1), of depth "stack[Suc d := Some (int b)]"] HNode.prems(3,4) obtain st1 where
    st1: "set_depth_loop pool (int m) (int a) (int (Suc d)) (stack[Suc d := Some (int b)]) depth =
      set_depth_next pool (int m) (int (Suc d)) st1 (put_depths (Suc d) l depth)" "length st1 = 16"
    "\<forall>k \<le> Suc d. st1 ! k = stack[Suc d := Some (int b)] ! k" by auto
  have s2: "set_depth_next pool (int m) (int (Suc d)) st1 (put_depths (Suc d) l depth) =
      set_depth_loop pool (int m) (int b) (int (Suc d)) (st1[Suc d := Some (- 1)]) (put_depths (Suc d) l depth)"
    by (rule set_depth_next_taken [OF st1(2) h(4)]) (use st1(3) h(4) HNode.prems(4) in simp)
  from HNode.IH(2) [OF node(3) h(2), of "put_depths (Suc d) l depth" "st1[Suc d := Some (- 1)]"] HNode.prems(3) st1(2) obtain st2 where
    st2: "set_depth_loop pool (int m) (int b) (int (Suc d)) (st1[Suc d := Some (- 1)]) (put_depths (Suc d) l depth) =
      set_depth_next pool (int m) (int (Suc d)) st2 (put_depths (Suc d) r (put_depths (Suc d) l depth))" "length st2 = 16"
    "\<forall>k \<le> Suc d. st2 ! k = st1[Suc d := Some (- 1)] ! k" by auto
  have s3: "set_depth_next pool (int m) (int (Suc d)) st2 (put_depths (Suc d) r (put_depths (Suc d) l depth)) =
      set_depth_next pool (int m) (int d) st2 (put_depths (Suc d) r (put_depths (Suc d) l depth))"
    by (rule set_depth_next_done [OF st2(2) h(4)]) (use st2(3) h(4) st1(2) in simp)
  have "\<forall>k \<le> d. st2 ! k = stack ! k" using st1(3) st2(3) by simp
  then show ?case using s1 st1(1) s2 st2(1,2) s3 by (intro exI [of _ st2]) simp
qed

lemma set_depth_fails:
  assumes "tree_at pool B p t" and "d \<le> m" and "m < d + height t" and "m \<le> 15" and "leaves_in t (length depth)" and "length stack = 16"
  shows "\<exists>depth'. set_depth_loop pool (int m) (int p) (int d) stack depth = Some (False, depth') \<and> length depth' = length depth \<and>
    (\<forall>s. (\<forall>w. (w, s) \<notin># leaves t) \<longrightarrow> depth' ! s = depth ! s)"
  using assms(1,2,3,5,6)
proof (induction t arbitrary: p d depth stack)
  case (HNode l r)
  obtain a b where node: "p < length pool" "tree_at pool B a l" "tree_at pool B b r"
    "pool ! p = InitHuffmanTree (of_nat (weight l + weight r)) (int a) (int b)" using HNode.prems(1) by auto
  note s1 = set_depth_node [OF node(1,4) HNode.prems(5) assms(4)]
  show ?case
  proof (cases "Suc d > m")
    case True
    then show ?thesis using s1 by simp
  next
    case False
    then have d: "Suc d \<le> m" "Suc d < 16" using assms(4) by simp_all
    have s2: "set_depth_loop pool (int m) (int p) (int d) stack depth =
        set_depth_loop pool (int m) (int a) (int (Suc d)) (stack[Suc d := Some (int b)]) depth"
      using s1 False by simp
    have in_l: "leaves_in l (length depth)" and in_r: "leaves_in r (length (put_depths (Suc d) l depth))" using HNode.prems(4) by simp_all
    have len: "length (stack[Suc d := Some (int b)]) = 16" using HNode.prems(5) by simp
    show ?thesis
    proof (cases "m < Suc d + height l")
      case True
      from HNode.IH(1) [OF node(2) d(1) True in_l len] show ?thesis unfolding s2 by auto
    next
      case fit: False
      then have "Suc d + height l \<le> m" by simp
      from set_depth_fits [OF node(2) this assms(4) in_l len] obtain st1 where
        st1: "set_depth_loop pool (int m) (int a) (int (Suc d)) (stack[Suc d := Some (int b)]) depth =
          set_depth_next pool (int m) (int (Suc d)) st1 (put_depths (Suc d) l depth)" "length st1 = 16"
        "\<forall>k \<le> Suc d. st1 ! k = stack[Suc d := Some (int b)] ! k" by blast
      have s3: "set_depth_next pool (int m) (int (Suc d)) st1 (put_depths (Suc d) l depth) =
          set_depth_loop pool (int m) (int b) (int (Suc d)) (st1[Suc d := Some (- 1)]) (put_depths (Suc d) l depth)"
        by (rule set_depth_next_taken [OF st1(2) d(2)]) (use st1(3) d(2) HNode.prems(5) in simp)
      have r: "m < Suc d + height r" using HNode.prems(3) fit by (auto simp: max_def split: if_splits)
      have len1: "length (st1[Suc d := Some (- 1)]) = 16" using st1(2) by simp
      from HNode.IH(2) [OF node(3) d(1) r in_r len1] obtain depth' where
        "set_depth_loop pool (int m) (int b) (int (Suc d)) (st1[Suc d := Some (- 1)]) (put_depths (Suc d) l depth) = Some (False, depth')"
        "length depth' = length depth" "\<forall>s. (\<forall>w. (w, s) \<notin># leaves r) \<longrightarrow> depth' ! s = put_depths (Suc d) l depth ! s" by auto
      then show ?thesis unfolding s2 st1(1) s3 by (auto simp: put_depths_other)
    qed
  qed
qed simp

lemma BrotliSetDepth_spec:
  assumes "tree_at pool B p t" and "m \<le> 15" and "leaves_in t (length depth)"
  shows "\<exists>ok depth'. BrotliSetDepth (int p) pool depth (int m) = Some (ok, depth') \<and> (ok \<longleftrightarrow> height t \<le> m) \<and> length depth' = length depth \<and>
    (\<forall>s. (\<forall>w. (w, s) \<notin># leaves t) \<longrightarrow> depth' ! s = depth ! s) \<and> (ok \<longrightarrow> depth' = put_depths 0 t depth)"
proof -
  define stack where "stack = Some (- 1 :: int) # replicate 15 None"
  have len: "length stack = 16" by (simp add: stack_def)
  show ?thesis
  proof (cases "height t \<le> m")
    case True
    then have "0 + height t \<le> m" by simp
    from set_depth_fits [OF assms(1) this assms(2,3) len] obtain st where
      st: "set_depth_loop pool (int m) (int p) (int 0) stack depth = set_depth_next pool (int m) (int 0) st (put_depths 0 t depth)"
      "length st = 16" "st ! 0 = stack ! 0" by blast
    have "st ! 0 = Some (- 1)" using st(3) by (simp add: stack_def)
    then have "pop_level st 0 = Some (- 1)"
      using st(2) by (subst pop_level.simps, subst pop_level.simps) (simp add: arr_geti_def)
    then have "BrotliSetDepth (int p) pool depth (int m) = Some (True, put_depths 0 t depth)"
      using st(1) by (simp add: BrotliSetDepth_def stack_def set_depth_next_def)
    then show ?thesis using True by (intro exI [of _ True]) (simp add: put_depths_other)
  next
    case False
    then have "m < 0 + height t" by simp
    from set_depth_fails [OF assms(1) _ this assms(2,3) len] show ?thesis
      using False by (auto simp: BrotliSetDepth_def stack_def)
  qed
qed

section \<open>Two queues\<close>

text \<open>The leaves left and the parents left, each in the order of the array; the lighter head is next.\<close>

fun pick :: "htree list \<times> htree list \<Rightarrow> htree \<times> htree list \<times> htree list" where
  "pick (l # ls, []) = (l, ls, [])"
| "pick ([], p # ps) = (p, [], ps)"
| "pick (l # ls, p # ps) = (if weight l \<le> weight p then (l, ls, p # ps) else (p, l # ls, ps))"
| "pick ([], []) = (HLeaf 0 0, [], [])"

lemma pick_leaves:
  assumes "pick (ls, ps) = (t, ls', ps')" and "ls \<noteq> [] \<or> ps \<noteq> []"
  shows "mset (ls @ ps) = add_mset t (mset (ls' @ ps'))" and "length ls + length ps = Suc (length ls' + length ps')"
  using assms by (cases "(ls, ps)" rule: pick.cases; auto split: if_splits)+

text \<open>Huffman's order.  No node weighs less than its nephews, so a deep tree is heavy.\<close>

fun children_le :: "htree \<Rightarrow> nat \<Rightarrow> bool" where
  "children_le (HLeaf w s) b \<longleftrightarrow> True"
| "children_le (HNode l r) b \<longleftrightarrow> weight l \<le> b \<and> weight r \<le> b"

fun huffman_tree :: "nat \<Rightarrow> htree \<Rightarrow> bool" where
  "huffman_tree c (HLeaf w s) \<longleftrightarrow> c \<le> w"
| "huffman_tree c (HNode l r) \<longleftrightarrow> huffman_tree c l \<and> huffman_tree c r \<and> children_le l (weight r) \<and> children_le r (weight l)"

lemma children_le_mono: "children_le t a \<Longrightarrow> a \<le> b \<Longrightarrow> children_le t b"
  by (cases t) simp_all

fun fibonacci :: "nat \<Rightarrow> nat" where
  "fibonacci 0 = 0"
| "fibonacci (Suc 0) = 1"
| "fibonacci (Suc (Suc n)) = fibonacci (Suc n) + fibonacci n"

lemma fibonacci_mono_Suc: "fibonacci (Suc n) \<le> fibonacci (Suc (Suc n))"
  by simp

lemma fibonacci_mono: "0 < m \<Longrightarrow> m \<le> n \<Longrightarrow> fibonacci m \<le> fibonacci n"
proof (induction n)
  case (Suc n)
  show ?case
  proof (cases "m = Suc n")
    case False
    then have "0 < n" "fibonacci m \<le> fibonacci n" using Suc by simp_all
    then show ?thesis by (cases n) simp_all
  qed simp
qed simp

lemma huffman_tree_child:
  assumes "huffman_tree c t" and "0 < height t" and "children_le t b"
    and "\<And>u. huffman_tree c u \<Longrightarrow> height u < height t \<Longrightarrow> c * fibonacci (height u + 2) \<le> weight u"
  shows "c * fibonacci (height t + 1) \<le> b"
proof -
  obtain l r where t: "t = HNode l r" using assms(2) by (cases t) auto
  define u where "u = (if height l \<le> height r then r else l)"
  have u: "u \<in> {l, r}" "height t = Suc (height u)" by (auto simp: t u_def)
  then have "c * fibonacci (height u + 2) \<le> weight u" using assms(1) by (intro assms(4)) (auto simp: t)
  also have "\<dots> \<le> b" using assms(3) u(1) by (auto simp: t)
  finally show ?thesis using u(2) by simp
qed

lemma huffman_tree_weight: "huffman_tree c t \<Longrightarrow> c * fibonacci (height t + 2) \<le> weight t"
proof (induction "height t" arbitrary: t rule: less_induct)
  case less
  show ?case
  proof (cases t)
    case (HLeaf w s)
    then show ?thesis using less.prems by simp
  next
    case (HNode l r)
    have main: "c * fibonacci (Suc (height a) + 2) \<le> weight a + weight b"
      if ab: "huffman_tree c a" "huffman_tree c b" "children_le a (weight b)" "height a < height t" "height b \<le> height a" for a b
    proof -
      have wa: "c * fibonacci (height a + 2) \<le> weight a" by (rule less.hyps [OF ab(4,1)])
      have "c * fibonacci (height a + 1) \<le> weight b"
      proof (cases "height a = 0")
        case True
        then have "c * fibonacci (height b + 2) \<le> weight b" using ab by (intro less.hyps) simp_all
        then show ?thesis using True ab(5) by simp
      next
        case False
        then show ?thesis using ab(1,3,4) less.hyps by (intro huffman_tree_child) auto
      qed
      then have "c * fibonacci (height a + 2) + c * fibonacci (height a + 1) \<le> weight a + weight b" using wa by (rule add_mono [rotated])
      then show ?thesis by (simp add: distrib_left)
    qed
    show ?thesis
    proof (cases "height r \<le> height l")
      case True
      then show ?thesis using main [of l r] less.prems by (simp add: HNode max_def)
    next
      case False
      then show ?thesis using main [of r l] less.prems by (simp add: HNode max_def add.commute)
    qed
  qed
qed

text \<open>The state of the two queues after picks up to the weight \<open>M\<close>.\<close>

definition queues_ok :: "nat \<Rightarrow> nat \<Rightarrow> htree list \<Rightarrow> htree list \<Rightarrow> bool" where
  "queues_ok c M ls ps \<longleftrightarrow> sorted (map weight ls) \<and> sorted (map weight ps) \<and>
     (\<forall>t \<in> set (ls @ ps). M \<le> weight t \<and> huffman_tree c t \<and> children_le t M) \<and> (\<forall>p \<in> set ps. weight p \<le> 2 * M)"

lemma pick_queues:
  assumes "queues_ok c M ls ps" and "pick (ls, ps) = (t, ls', ps')" and "ls \<noteq> [] \<or> ps \<noteq> []"
  shows "M \<le> weight t" and "huffman_tree c t" and "children_le t M" and "sorted (map weight ls')" and "sorted (map weight ps')"
    and "\<forall>u \<in> set (ls' @ ps'). weight t \<le> weight u \<and> huffman_tree c u \<and> children_le u M" and "\<forall>p \<in> set ps'. weight p \<le> 2 * M"
  using assms by (cases "(ls, ps)" rule: pick.cases; fastforce simp: queues_ok_def split: if_splits)+

lemma merge_queues:
  assumes "queues_ok c M ls ps" and "pick (ls, ps) = (t, ls1, ps1)" and "pick (ls1, ps1) = (u, ls2, ps2)"
    and "ls \<noteq> [] \<or> ps \<noteq> []" and "ls1 \<noteq> [] \<or> ps1 \<noteq> []"
  shows "queues_ok c (weight u) ls2 (ps2 @ [HNode t u])"
proof -
  note p = pick_queues [OF assms(1,2,4)]
  have "u \<in> set (ls1 @ ps1)" using pick_leaves(1) [OF assms(3,5)] by (metis in_multiset_in_set union_single_eq_member add_mset_add_single add.commute)
  then have u: "weight t \<le> weight u" "huffman_tree c u" "children_le u M" using p(6) by blast+
  have q1: "queues_ok c (weight t) ls1 ps1"
    using p children_le_mono [OF _ p(1)] unfolding queues_ok_def by (auto intro: order_trans [of _ "2 * M"])
  note q = pick_queues [OF q1 assms(3,5)]
  have small: "weight p \<le> weight t + weight u" if "p \<in> set ps2" for p
  proof -
    have "p \<in> set ps1"
    proof -
      have "set ps2 \<subseteq> set ps1" using assms(3,5) by (cases "(ls1, ps1)" rule: pick.cases) (auto split: if_splits)
      then show ?thesis using that by blast
    qed
    then have "weight p \<le> 2 * M" using p(7) by blast
    then show ?thesis using p(1) u(1) by simp
  qed
  have node: "huffman_tree c (HNode t u)" "children_le (HNode t u) (weight u)"
    using p(1-3) u children_le_mono by auto
  have "sorted (map weight (ps2 @ [HNode t u]))" using q(5) small by (auto simp: sorted_append)
  moreover have "\<forall>v \<in> set (ls2 @ ps2). weight u \<le> weight v \<and> huffman_tree c v \<and> children_le v (weight u)"
    using q(6) u(1) children_le_mono by blast
  moreover have "\<forall>p \<in> set ps2. weight p \<le> 2 * weight u" using small u(1) by fastforce
  ultimately show ?thesis using q(4) node u(1) by (auto simp: queues_ok_def)
qed

section \<open>The queues in the array\<close>

definition queue_at :: "HuffmanTree list \<Rightarrow> nat \<Rightarrow> nat \<Rightarrow> htree list \<Rightarrow> bool" where
  "queue_at pool B p ts \<longleftrightarrow> (\<forall>k < length ts. tree_at pool B (p + k) (ts ! k))"

lemma queue_at_simps:
  "queue_at pool B p []"
  "queue_at pool B p (t # ts) \<longleftrightarrow> tree_at pool B p t \<and> queue_at pool B (Suc p) ts"
  "queue_at pool B p (ts @ [t]) \<longleftrightarrow> queue_at pool B p ts \<and> tree_at pool B (p + length ts) t"
proof -
  show "queue_at pool B p []" by (simp add: queue_at_def)
  show "queue_at pool B p (t # ts) \<longleftrightarrow> tree_at pool B p t \<and> queue_at pool B (Suc p) ts" by (simp add: queue_at_def All_less_Suc2)
  show "queue_at pool B p (ts @ [t]) \<longleftrightarrow> queue_at pool B p ts \<and> tree_at pool B (p + length ts) t"
    by (auto simp: queue_at_def All_less_Suc nth_append)
qed

lemma queue_at_frame:
  "queue_at pool B p ts \<Longrightarrow> B \<le> B' \<Longrightarrow> length pool' = length pool \<Longrightarrow> \<forall>q < B. pool' ! q = pool ! q \<Longrightarrow> queue_at pool' B' p ts"
  using tree_at_frame by (fastforce simp: queue_at_def)

lemma tree_pick_spec:
  assumes "queue_at pool B i ls" and "queue_at pool B j ps"
    and "pool ! (i + length ls) = tree_sentinel" and "pool ! (j + length ps) = tree_sentinel"
    and "i + length ls < length pool" and "j + length ps < length pool"
    and "\<forall>t \<in> set (ls @ ps). weight t < 2 ^ 32 - 1" and "ls \<noteq> [] \<or> ps \<noteq> []" and "pick (ls, ps) = (t, ls', ps')"
  shows "\<exists>p i' j'. tree_pick pool i j = Some (p, i', j') \<and> tree_at pool B p t \<and> queue_at pool B i' ls' \<and> queue_at pool B j' ps' \<and>
    i' + length ls' = i + length ls \<and> j' + length ps' = j + length ps"
proof -
  have s: "total_count tree_sentinel = 0xFFFFFFFF" by (simp add: tree_sentinel_def InitHuffmanTree_def)
  have u: "unat (of_nat (weight v) :: uint32) = weight v" if "v \<in> set (ls @ ps)" for v
    using assms(7) that by (intro unat_of_nat_small) fastforce
  have get: "arr_get pool i = Some (pool ! i)" "arr_get pool j = Some (pool ! j)" using assms(5,6) by simp_all
  consider (leaf) l ls1 where "ls = l # ls1" "ps = []" | (parent) p ps1 where "ls = []" "ps = p # ps1"
    | (both) l ls1 p ps1 where "ls = l # ls1" "ps = p # ps1" using assms(8) by (cases ls; cases ps) auto
  then show ?thesis
  proof cases
    case leaf
    have l: "tree_at pool B i l" "queue_at pool B (Suc i) ls1" using assms(1) by (simp_all add: leaf queue_at_simps)
    have "(0xFFFFFFFF :: uint32) = - 1" by simp
    then have "(of_nat (weight l) :: uint32) \<le> 0xFFFFFFFF" by (simp only: word_n1_ge)
    then have "tree_pick pool i j = Some (i, i + 1, j)"
      using get tree_at_count [OF l(1)] assms(4) s by (simp add: tree_pick_def leaf)
    then show ?thesis using l assms(9) by (simp add: leaf queue_at_simps)
  next
    case parent
    have p: "tree_at pool B j p" "queue_at pool B (Suc j) ps1" using assms(2) by (simp_all add: parent queue_at_simps)
    have "weight p < 2 ^ 32 - 1" "unat (of_nat (weight p) :: uint32) = weight p" using assms(7) u by (simp_all add: parent)
    then have "\<not> 0xFFFFFFFF \<le> (of_nat (weight p) :: uint32)" by (simp add: word_le_nat_alt)
    then have "tree_pick pool i j = Some (j, i, j + 1)"
      using get tree_at_count [OF p(1)] assms(3) s by (simp add: tree_pick_def parent)
    then show ?thesis using p assms(9) by (simp add: parent queue_at_simps)
  next
    case both
    have l: "tree_at pool B i l" "queue_at pool B (Suc i) ls1" using assms(1) by (simp_all add: both queue_at_simps)
    have p: "tree_at pool B j p" "queue_at pool B (Suc j) ps1" using assms(2) by (simp_all add: both queue_at_simps)
    have "(of_nat (weight l) :: uint32) \<le> of_nat (weight p) \<longleftrightarrow> weight l \<le> weight p"
      using u [of l] u [of p] by (simp add: word_le_nat_alt both)
    then have "tree_pick pool i j = Some (if weight l \<le> weight p then (i, i + 1, j) else (j, i, j + 1))"
      using get tree_at_count [OF l(1)] tree_at_count [OF p(1)] by (simp add: tree_pick_def)
    then show ?thesis using l p assms(9) by (cases "weight l \<le> weight p") (auto simp: both queue_at_simps)
  qed
qed

definition all_leaves :: "htree list \<Rightarrow> (nat \<times> nat) multiset" where
  "all_leaves ts = \<Sum>\<^sub># (image_mset leaves (mset ts))"

lemma all_leaves_simps [simp]:
  "all_leaves [] = {#}" "all_leaves (t # ts) = leaves t + all_leaves ts" "all_leaves (ts @ us) = all_leaves ts + all_leaves us"
  by (simp_all add: all_leaves_def)

definition total_weight :: "(nat \<times> nat) multiset \<Rightarrow> nat" where
  "total_weight A = \<Sum>\<^sub># (image_mset fst A)"

lemma total_weight_simps [simp]: "total_weight (A + B) = total_weight A + total_weight B" "total_weight (leaves t) = weight t"
  by (simp_all add: total_weight_def weight_leaves)

lemma weight_le_total: "t \<in> set ts \<Longrightarrow> weight t \<le> total_weight (all_leaves ts)"
  by (induction ts) auto

lemma all_leaves_pick:
  assumes "pick (ls, ps) = (t, ls', ps')" and "ls \<noteq> [] \<or> ps \<noteq> []"
  shows "all_leaves (ls @ ps) = leaves t + all_leaves (ls' @ ps')"
  using pick_leaves(1) [OF assms] by (simp only: all_leaves_def image_mset_add_mset sum_mset.add_mset)

text \<open>What the array holds after \<open>q\<close> rounds: \<open>n\<close> leaves, a sentinel, \<open>q\<close> parents, a sentinel.\<close>

definition merged :: "nat \<Rightarrow> nat \<Rightarrow> nat \<Rightarrow> (nat \<times> nat) multiset \<Rightarrow> nat \<Rightarrow> nat \<times> nat \<times> HuffmanTree list \<Rightarrow> bool" where
  "merged n L c A q st \<longleftrightarrow> (case st of (i, j, pool) \<Rightarrow> \<exists>ls ps M. queue_at pool (n + 1 + q) i ls \<and> queue_at pool (n + 1 + q) j ps \<and>
     i + length ls = n \<and> j + length ps = n + 1 + q \<and> pool ! n = tree_sentinel \<and> pool ! (n + 1 + q) = tree_sentinel \<and>
     length pool = L \<and> queues_ok c M ls ps \<and> all_leaves (ls @ ps) = A \<and> length ls + length ps = n - q \<and> (0 < q \<longrightarrow> ps \<noteq> []))"

lemma int16_of_small: "k < 2 ^ 15 \<Longrightarrow> int16_of k = int k"
  by (simp add: int16_of_def signed_of_nat signed_take_bit_int_eq_self)

lemma tree_parent_spec:
  assumes "merged n L c A q st" and "Suc q < n" and "2 * n < L" and "2 * n < 2 ^ 15" and "total_weight A < 2 ^ 32 - 1"
  shows "\<exists>st'. tree_parent n (n - 1 - q) st = Some st' \<and> merged n L c A (Suc q) st'"
proof -
  obtain i j pool where st: "st = (i, j, pool)" by (cases st)
  define e where "e = n + 1 + q"
  obtain ls ps M where m: "queue_at pool e i ls" "queue_at pool e j ps" "i + length ls = n" "j + length ps = e" "pool ! n = tree_sentinel"
    "pool ! e = tree_sentinel" "length pool = L" "queues_ok c M ls ps" "all_leaves (ls @ ps) = A" "length ls + length ps = n - q"
    using assms(1) by (auto simp: merged_def st e_def)
  have e: "n < e" "Suc e \<le> 2 * n" "Suc e < L" "2 * n - (n - 1 - q) = e" using assms(2,3) by (simp_all add: e_def)
  obtain t ls1 ps1 where p1: "pick (ls, ps) = (t, ls1, ps1)" by (cases "pick (ls, ps)")
  obtain u ls2 ps2 where p2: "pick (ls1, ps1) = (u, ls2, ps2)" by (cases "pick (ls1, ps1)")
  have ne1: "ls \<noteq> [] \<or> ps \<noteq> []" using m(10) assms(2) by auto
  note l1 = pick_leaves(2) [OF p1 ne1]
  have ne2: "ls1 \<noteq> [] \<or> ps1 \<noteq> []" using m(10) l1 assms(2) by auto
  note l2 = pick_leaves(2) [OF p2 ne2]
  note a1 = all_leaves_pick [OF p1 ne1] and a2 = all_leaves_pick [OF p2 ne2]
  have w1: "\<forall>v \<in> set (ls @ ps). weight v < 2 ^ 32 - 1"
    using weight_le_total assms(5) unfolding m(9) [symmetric] by (meson le_less_trans)
  have "total_weight (all_leaves (ls1 @ ps1)) \<le> total_weight A" unfolding m(9) [symmetric] a1 by simp
  then have w2: "\<forall>v \<in> set (ls1 @ ps1). weight v < 2 ^ 32 - 1"
    using weight_le_total assms(5) by (meson le_less_trans)
  have lt: "i + length ls < length pool" "j + length ps < length pool" using m(3,4,7) e by simp_all
  from tree_pick_spec [OF m(1,2) m(5) [folded m(3)] m(6) [folded m(4)] lt w1 ne1 p1] obtain a i1 j1 where
    k1: "tree_pick pool i j = Some (a, i1, j1)" "tree_at pool e a t" "queue_at pool e i1 ls1" "queue_at pool e j1 ps1"
    "i1 + length ls1 = n" "j1 + length ps1 = e" using m(3,4) by auto
  have lt1: "i1 + length ls1 < length pool" "j1 + length ps1 < length pool" using k1(5,6) m(7) e by simp_all
  from tree_pick_spec [OF k1(3,4) m(5) [folded k1(5)] m(6) [folded k1(6)] lt1 w2 ne2 p2] obtain b i2 j2 where
    k2: "tree_pick pool i1 j1 = Some (b, i2, j2)" "tree_at pool e b u" "queue_at pool e i2 ls2" "queue_at pool e j2 ps2"
    "i2 + length ls2 = n" "j2 + length ps2 = e" using k1(5,6) by auto
  have ab: "a < e" "b < e" "a < length pool" "b < length pool" "total_count (pool ! a) = of_nat (weight t)" "total_count (pool ! b) = of_nat (weight u)"
    using tree_at_count [OF k1(2)] tree_at_count [OF k2(2)] by simp_all
  have small: "int16_of a = int a" "int16_of b = int b" using ab(1,2) e(2) assms(4) by (auto intro!: int16_of_small)
  define node where "node = InitHuffmanTree (of_nat (weight t + weight u)) (int a) (int b)"
  define pool' where "pool' = pool[e := node, Suc e := tree_sentinel]"
  have run: "tree_parent n (n - 1 - q) st = Some (i2, j2, pool')"
    using k1(1) k2(1) ab(3-6) e(3,4) m(7) small by (simp add: tree_parent_def st Let_def pool'_def node_def)
  have same: "\<forall>x < e. pool' ! x = pool ! x" "length pool' = length pool" "pool' ! e = node" "pool' ! Suc e = tree_sentinel" "pool' ! n = tree_sentinel"
    using e m(5,7) by (simp_all add: pool'_def)
  have q2: "queue_at pool' (Suc e) i2 ls2" "queue_at pool' (Suc e) j2 ps2"
    using queue_at_frame [OF k2(3) _ same(2,1)] queue_at_frame [OF k2(4) _ same(2,1)] by simp_all
  have "tree_at pool' (Suc e) a t" "tree_at pool' (Suc e) b u"
    using tree_at_frame [OF k1(2) _ same(2,1)] tree_at_frame [OF k2(2) _ same(2,1)] by simp_all
  then have "tree_at pool' (Suc e) e (HNode t u)" using same(2,3) e(3) m(7) by (auto simp: node_def)
  then have "queue_at pool' (Suc e) j2 (ps2 @ [HNode t u])" using q2(2) k2(6) by (simp add: queue_at_simps)
  moreover have "queues_ok c (weight u) ls2 (ps2 @ [HNode t u])" by (rule merge_queues [OF m(8) p1 p2 ne1 ne2])
  moreover have "A = leaves t + (leaves u + all_leaves (ls2 @ ps2))" unfolding m(9) [symmetric] a1 a2 ..
  then have "all_leaves (ls2 @ ps2 @ [HNode t u]) = A" by (simp add: add_ac)
  moreover have "length ls2 + length (ps2 @ [HNode t u]) = n - Suc q" using l1 l2 m(10) by simp
  ultimately have "merged n L c A (Suc q) (i2, j2, pool')"
    using q2(1) k2(5,6) same m(7) unfolding merged_def prod.case e_def [symmetric]
    by (intro exI [of _ ls2] exI [of _ "ps2 @ [HNode t u]"] exI [of _ "weight u"]) (simp add: e_def)
  then show ?thesis using run by blast
qed

end
