(* ===== verification/Enc_Tree_Rounds.thy ===== *)
theory Enc_Tree_Rounds
  imports Enc_Tree_Facts Code_Length_Code
begin

text \<open>
  \<open>BrotliCreateHuffmanTree\<close> of \<^verbatim>\<open>enc/entropy_encode.c\<close> as a whole: each round builds a Huffman tree over weights of
  at least \<open>count_limit\<close>, and a round whose tree is too deep doubles the limit.  A deep tree is heavy, so
  the rounds end; the depths of the last one are a complete code.
\<close>

section \<open>Leaves\<close>

definition used_symbols :: "uint32 list \<Rightarrow> nat \<Rightarrow> nat list" where
  "used_symbols data len = filter (\<lambda>i. data ! i \<noteq> 0) (rev [0..<len])"

definition leaf_cell :: "uint32 list \<Rightarrow> uint32 \<Rightarrow> nat \<Rightarrow> HuffmanTree" where
  "leaf_cell data c i = InitHuffmanTree (max (data ! i) c) (- 1) (int i)"

definition leaf_of :: "uint32 list \<Rightarrow> nat \<Rightarrow> nat \<Rightarrow> nat \<times> nat" where
  "leaf_of data c = (\<lambda>i. (max (unat (data ! i)) c, i))"

lemma tree_leaf_loop:
  assumes "\<forall>i \<in> set xs. i < length data \<and> i < 2 ^ 15" and "k + length (filter (\<lambda>i. data ! i \<noteq> 0) xs) \<le> length tree"
  shows "\<exists>tree'. foldM (tree_leaf data c) xs (k, tree) = Some (k + length (filter (\<lambda>i. data ! i \<noteq> 0) xs), tree') \<and>
    length tree' = length tree \<and> take (k + length (filter (\<lambda>i. data ! i \<noteq> 0) xs)) tree' =
      take k tree @ map (leaf_cell data c) (filter (\<lambda>i. data ! i \<noteq> 0) xs)"
  using assms
proof (induction xs arbitrary: k tree)
  case (Cons i xs)
  have i: "i < length data" "int16_of i = int i" using Cons.prems(1) by (auto intro: int16_of_small)
  show ?case
  proof (cases "data ! i = 0")
    case True
    then show ?thesis using Cons.IH [of k tree] Cons.prems i by (simp add: tree_leaf_def)
  next
    case False
    then have k: "k < length tree" using Cons.prems(2) by simp
    define t1 where "t1 = tree[k := leaf_cell data c i]"
    have "tree_leaf data c i (k, tree) = Some (Suc k, t1)" using i k False by (simp add: tree_leaf_def t1_def leaf_cell_def)
    moreover have "take (Suc k) t1 = take k tree @ [leaf_cell data c i]" using k by (simp add: t1_def take_Suc_conv_app_nth)
    moreover have "length t1 = length tree" by (simp add: t1_def)
    ultimately show ?thesis using Cons.IH [of "Suc k" t1] Cons.prems False by simp
  qed
qed simp

lemma tree_leaves_spec:
  assumes "len \<le> length data" and "len \<le> 2 ^ 15" and "length (used_symbols data len) \<le> length tree"
  shows "\<exists>tree'. foldM (tree_leaf data c) (rev [0..<len]) (0, tree) = Some (length (used_symbols data len), tree') \<and>
    length tree' = length tree \<and> take (length (used_symbols data len)) tree' = map (leaf_cell data c) (used_symbols data len)"
  using tree_leaf_loop [of "rev [0..<len]" data 0 tree c] assms by (simp add: used_symbols_def)

text \<open>The sorted leaves as a queue.\<close>

definition cell_leaf :: "HuffmanTree \<Rightarrow> htree" where
  "cell_leaf x = HLeaf (unat (total_count x)) (nat (index_right_or_value x))"

lemma cell_leaf_cell: "c < 2 ^ 32 \<Longrightarrow> cell_leaf (leaf_cell data (of_nat c) i) = HLeaf (fst (leaf_of data c i)) i"
  by (simp add: cell_leaf_def leaf_cell_def InitHuffmanTree_def leaf_of_def unat_of_nat_small max_def word_le_nat_alt)

lemma all_leaves_HLeaf: "all_leaves (map (\<lambda>i. HLeaf (f i) (g i)) xs) = mset (map (\<lambda>i. (f i, g i)) xs)"
  by (induction xs) simp_all

lemma all_leaves_mset: "mset ts = mset us \<Longrightarrow> all_leaves ts = all_leaves us"
  by (simp add: all_leaves_def)

lemma sorted_leaves_spec:
  assumes "length tree = L" and "n = length (used_symbols data len)" and "n < L"
    and "take n tree = map (leaf_cell data (of_nat c)) (used_symbols data len)" and "c < 2 ^ 32"
  shows "\<exists>tree' ls. SortHuffmanTreeItems SortHuffmanTree n tree = Some tree' \<and> length tree' = L \<and> length ls = n \<and>
    queue_at tree' n 0 ls \<and> queues_ok c c ls [] \<and> all_leaves ls = mset (map (leaf_of data c) (used_symbols data len))"
proof -
  have "n \<le> length tree" using assms(1,3) by simp
  from SortHuffmanTreeItems_spec [OF SortHuffmanTree_agrees(1) this] obtain tree' where
    s: "SortHuffmanTreeItems SortHuffmanTree n tree = Some tree'" "permutes_front n tree tree'" "sorted (map total_count (take n tree'))" by blast
  have len: "length tree' = L" using s(2) assms(1) by (simp add: permutes_front_def)
  have perm: "mset (take n tree') = mset (map (leaf_cell data (of_nat c)) (used_symbols data len))"
    using s(2) assms(4) by (simp add: permutes_front_def)
  define ls where "ls = map cell_leaf (take n tree')"
  have ln: "length ls = n" using len assms(3) by (simp add: ls_def)
  have "mset ls = image_mset cell_leaf (mset (take n tree'))" by (simp add: ls_def)
  also have "\<dots> = mset (map (\<lambda>i. HLeaf (fst (leaf_of data c i)) i) (used_symbols data len))"
    unfolding perm by (simp add: image_mset.compositionality comp_def cell_leaf_cell [OF assms(5)])
  finally have ms: "mset ls = mset (map (\<lambda>i. HLeaf (fst (leaf_of data c i)) i) (used_symbols data len))" .
  have all: "all_leaves ls = mset (map (leaf_of data c) (used_symbols data len))"
    using all_leaves_mset [OF ms] all_leaves_HLeaf [of "\<lambda>i. fst (leaf_of data c i)" "\<lambda>i. i"] by (simp add: leaf_of_def)
  have "queue_at tree' n 0 ls"
    unfolding queue_at_def
  proof (intro allI impI)
    fix k assume k: "k < length ls"
    then have kn: "k < n" "k < length tree'" using ln len assms(3) by simp_all
    have "tree' ! k \<in> set (take n tree')" using kn by (metis in_set_conv_nth length_take min_less_iff_conj nth_take)
    also have "\<dots> = set (map (leaf_cell data (of_nat c)) (used_symbols data len))" using perm by (metis set_mset_mset)
    finally obtain i where i: "tree' ! k = leaf_cell data (of_nat c) i" by auto
    have "ls ! k = HLeaf (fst (leaf_of data c i)) i" using kn by (simp add: ls_def i cell_leaf_cell [OF assms(5)])
    moreover have "of_nat (fst (leaf_of data c i)) = max (data ! i) (of_nat c)"
      using assms(5) by (auto simp: leaf_of_def max_def word_le_nat_alt unat_of_nat_small)
    ultimately show "tree_at tree' n (0 + k) (ls ! k)" using kn by (simp add: i leaf_cell_def)
  qed
  moreover have "queues_ok c c ls []"
  proof -
    have "map weight ls = map unat (map total_count (take n tree'))" by (simp add: ls_def cell_leaf_def)
    then have "sorted (map weight ls)" using s(3) by (simp add: sorted_iff_nth_mono word_le_nat_alt)
    moreover have "\<exists>w i. t = HLeaf w i \<and> c \<le> w" if "t \<in> set ls" for t
    proof -
      have "t \<in> set (map (\<lambda>i. HLeaf (fst (leaf_of data c i)) i) (used_symbols data len))" using that ms by (metis set_mset_mset)
      then show ?thesis by (auto simp: leaf_of_def)
    qed
    ultimately show ?thesis by (fastforce simp: queues_ok_def)
  qed
  ultimately show ?thesis using s(1) len ln all by blast
qed

section \<open>One round\<close>

lemma foldM_map: "foldM f (map g xs) s = foldM (\<lambda>x. f (g x)) xs s"
  by (induction xs arbitrary: s) (simp_all add: fun_eq_iff cong: Option.bind_cong)

lemma rev_upt_map: "rev [1..<n] = map (\<lambda>q. n - 1 - q) [0..<n - 1]"
  by (rule nth_equalityI) (auto simp: rev_nth)

definition limited_leaves :: "uint32 list \<Rightarrow> nat \<Rightarrow> nat \<Rightarrow> (nat \<times> nat) multiset" where
  "limited_leaves data len c = mset (map (leaf_of data c) (used_symbols data len))"

lemma huffman_round_spec:
  assumes "len \<le> length data" and "n = length (used_symbols data len)" and "2 \<le> n" and "2 * n < length tree" and "len < 2 ^ 14"
    and "c < 2 ^ 32" and "total_weight (limited_leaves data len c) < 2 ^ 32 - 1" and "limit \<le> 15" and "len \<le> length depth"
  shows "\<exists>ok tree' depth' t. huffman_round data len (int limit) (of_nat c) tree depth = Some (ok, tree', depth') \<and>
    length tree' = length tree \<and> huffman_tree c t \<and> leaves t = limited_leaves data len c \<and> (ok \<longleftrightarrow> height t \<le> limit) \<and>
    length depth' = length depth \<and> (\<forall>s. s \<notin> set (used_symbols data len) \<longrightarrow> depth' ! s = depth ! s) \<and> (ok \<longrightarrow> depth' = put_depths 0 t depth)"
proof -
  define L where "L = length tree"
  have nl: "n \<le> len" unfolding assms(2) used_symbols_def using length_filter_le [of _ "rev [0..<len]"] by simp
  have "len \<le> 2 ^ 15" "n \<le> length tree" using assms(4,5) by simp_all
  from tree_leaves_spec [OF assms(1) this(1), of tree "of_nat c"] this(2) obtain t1 where
    t1: "foldM (tree_leaf data (of_nat c)) (rev [0..<len]) (0, tree) = Some (n, t1)" "length t1 = L"
    "take n t1 = map (leaf_cell data (of_nat c)) (used_symbols data len)" unfolding assms(2) [symmetric] L_def by blast
  have "n < L" using assms(4) by (simp add: L_def)
  from sorted_leaves_spec [OF t1(2) assms(2) this t1(3) assms(6)] obtain t2 ls where
    t2: "SortHuffmanTreeItems SortHuffmanTree n t1 = Some t2" "length t2 = L" "length ls = n" "queue_at t2 n 0 ls" "queues_ok c c ls []"
    "all_leaves ls = limited_leaves data len c" unfolding limited_leaves_def by blast
  define t3 where "t3 = t2[n := tree_sentinel, n + 1 := tree_sentinel]"
  have n2: "n + 1 < L" using assms(3,4) by (simp add: L_def)
  have "merged n L c (limited_leaves data len c) 0 (0, n + 1, t3)"
    unfolding merged_def prod.case
  proof (rule exI [of _ ls], rule exI [of _ "[]"], rule exI [of _ c], intro conjI)
    show "queue_at t3 (n + 1 + 0) 0 ls" by (rule queue_at_frame [OF t2(4)]) (simp_all add: t3_def)
  qed (use t2 n2 in \<open>simp_all add: t3_def queue_at_simps\<close>)
  then have "\<exists>st. foldM (\<lambda>q. tree_parent n (n - 1 - q)) [0..<n - 1] (0, n + 1, t3) = Some st \<and>
      merged n L c (limited_leaves data len c) (n - 1) st"
    using assms(3-5,7) nl by (intro foldM_upt [where P = "merged n L c (limited_leaves data len c)"] tree_parent_spec) (simp_all add: L_def)
  then obtain i j t4 where t4: "foldM (tree_parent n) (rev [1..<n]) (0, n + 1, t3) = Some (i, j, t4)"
    "merged n L c (limited_leaves data len c) (n - 1) (i, j, t4)"
    unfolding rev_upt_map foldM_map by auto
  obtain ls' ps' M where m: "queue_at t4 (n + 1 + (n - 1)) j ps'" "j + length ps' = n + 1 + (n - 1)" "length t4 = L" "queues_ok c M ls' ps'"
    "all_leaves (ls' @ ps') = limited_leaves data len c" "length ls' + length ps' = n - (n - 1)" "ps' \<noteq> []"
    using t4(2) assms(3) by (auto simp: merged_def)
  then obtain t where t: "ls' = []" "ps' = [t]" using assms(3) by (cases ps') auto
  have root: "tree_at t4 (2 * n) (2 * n - 1) t" "huffman_tree c t" "leaves t = limited_leaves data len c"
  proof -
    have "j = 2 * n - 1" "n + 1 + (n - 1) = 2 * n" using m(2) assms(3) by (simp_all add: t)
    note e = this
    show "tree_at t4 (2 * n) (2 * n - 1) t" using m(1) unfolding e t queue_at_simps by (rule conjunct1)
    show "huffman_tree c t" "leaves t = limited_leaves data len c" using m(4,5) by (simp_all add: t queues_ok_def)
  qed
  have sym: "(w, s) \<in># leaves t \<Longrightarrow> s \<in> set (used_symbols data len)" for w s
    unfolding root(3) limited_leaves_def by (auto simp: leaf_of_def)
  have "s < len" if "s \<in> set (used_symbols data len)" for s using that by (simp add: used_symbols_def)
  then have "leaves_in t (length depth)" using sym assms(9) unfolding leaves_in_def by (fastforce intro: less_le_trans)
  from BrotliSetDepth_spec [OF root(1) assms(8) this] obtain ok depth' where
    d: "BrotliSetDepth (int (2 * n - 1)) t4 depth (int limit) = Some (ok, depth')" "ok \<longleftrightarrow> height t \<le> limit" "length depth' = length depth"
    "\<forall>s. (\<forall>w. (w, s) \<notin># leaves t) \<longrightarrow> depth' ! s = depth ! s" "ok \<longrightarrow> depth' = put_depths 0 t depth" by blast
  have n01: "n \<noteq> 0" "n \<noteq> 1" using assms(3) by simp_all
  have set1: "arr_set t2 n tree_sentinel = Some (t2[n := tree_sentinel])"
    "arr_set (t2[n := tree_sentinel]) (n + 1) tree_sentinel = Some t3" using t2(2) n2 by (simp_all add: t3_def)
  have "huffman_round data len (int limit) (of_nat c) tree depth = Some (ok, t4, depth')"
    unfolding huffman_round_def t1(1) bind.bind_lunit prod.case if_not_P [OF n01(1)] if_not_P [OF n01(2)] t2(1) set1 t4(1) d(1) ..
  moreover have "\<forall>s. s \<notin> set (used_symbols data len) \<longrightarrow> depth' ! s = depth ! s" using d(4) sym by blast
  ultimately show ?thesis using m(3) root(2,3) d(2,3,5) unfolding L_def by blast
qed

section \<open>The depths are a complete code\<close>

fun symbols_of :: "htree \<Rightarrow> nat set" where
  "symbols_of (HLeaf w s) = {s}"
| "symbols_of (HNode l r) = symbols_of l \<union> symbols_of r"

fun distinct_leaves :: "htree \<Rightarrow> bool" where
  "distinct_leaves (HLeaf w s) \<longleftrightarrow> True"
| "distinct_leaves (HNode l r) \<longleftrightarrow> distinct_leaves l \<and> distinct_leaves r \<and> symbols_of l \<inter> symbols_of r = {}"

lemma symbols_of_leaves: "symbols_of t = snd ` set_mset (leaves t)"
  by (induction t) (auto simp: image_Un)

lemma finite_symbols_of [simp]: "finite (symbols_of t)"
  by (induction t) simp_all

lemma distinct_leavesI: "(\<And>s. count (image_mset snd (leaves t)) s \<le> 1) \<Longrightarrow> distinct_leaves t"
proof (induction t)
  case (HNode l r)
  have c: "count (image_mset snd (leaves l)) s + count (image_mset snd (leaves r)) s \<le> 1" for s using HNode.prems [of s] by simp
  have "count (image_mset snd (leaves l)) s \<le> 1" "count (image_mset snd (leaves r)) s \<le> 1" for s
    using c [of s] by linarith+
  then have "distinct_leaves l" "distinct_leaves r" using HNode.IH by blast+
  moreover have "\<not> (s \<in> symbols_of l \<and> s \<in> symbols_of r)" for s
  proof
    assume "s \<in> symbols_of l \<and> s \<in> symbols_of r"
    then have "s \<in># image_mset snd (leaves l)" "s \<in># image_mset snd (leaves r)" by (auto simp: symbols_of_leaves)
    then have "0 < count (image_mset snd (leaves l)) s" "0 < count (image_mset snd (leaves r)) s"
      unfolding count_greater_zero_iff by simp_all
    then show False using c [of s] by linarith
  qed
  ultimately show ?case by auto
qed simp

lemma put_depths_symbols: "s \<notin> symbols_of t \<Longrightarrow> put_depths d t depth ! s = depth ! s"
  by (rule put_depths_other) (force simp: symbols_of_leaves)

definition depth_space :: "nat \<Rightarrow> nat" where
  "depth_space l = (if l = 0 then 0 else 2 ^ (15 - l))"

lemma put_depths_range:
  assumes "distinct_leaves t" and "\<forall>s \<in> symbols_of t. s < length depth" and "d + height t \<le> 15" and "s \<in> symbols_of t"
  shows "d \<le> unat (put_depths d t depth ! s) \<and> unat (put_depths d t depth ! s) \<le> d + height t \<and>
    (0 < height t \<longrightarrow> d < unat (put_depths d t depth ! s))"
  using assms
proof (induction t arbitrary: d depth)
  case (HLeaf w k)
  then show ?case by (simp add: unat_of_nat_small)
next
  case (HNode l r)
  have h: "Suc d + height l \<le> 15" "Suc d + height r \<le> 15" using HNode.prems(3) by simp_all
  show ?case
  proof (cases "s \<in> symbols_of r")
    case True
    then show ?thesis using HNode.IH(2) [OF _ _ h(2), of "put_depths (Suc d) l depth"] HNode.prems by auto
  next
    case False
    then have "put_depths d (HNode l r) depth ! s = put_depths (Suc d) l depth ! s" by (simp add: put_depths_symbols)
    then show ?thesis using HNode.IH(1) [OF _ _ h(1), of depth] HNode.prems False by auto
  qed
qed

lemma put_depths_space:
  assumes "distinct_leaves t" and "\<forall>s \<in> symbols_of t. s < length depth" and "d + height t \<le> 15" and "0 < d \<or> 0 < height t"
  shows "(\<Sum>s \<in> symbols_of t. depth_space (unat (put_depths d t depth ! s))) = 2 ^ (15 - d)"
  using assms
proof (induction t arbitrary: d depth)
  case (HLeaf w k)
  then show ?case by (simp add: depth_space_def unat_of_nat_small)
next
  case (HNode l r)
  have h: "Suc d + height l \<le> 15" "Suc d + height r \<le> 15" using HNode.prems(3) by simp_all
  have dis: "symbols_of l \<inter> symbols_of r = {}" "distinct_leaves l" "distinct_leaves r" using HNode.prems(1) by simp_all
  have "(\<Sum>s \<in> symbols_of (HNode l r). depth_space (unat (put_depths d (HNode l r) depth ! s))) =
      (\<Sum>s \<in> symbols_of l. depth_space (unat (put_depths (Suc d) r (put_depths (Suc d) l depth) ! s))) +
      (\<Sum>s \<in> symbols_of r. depth_space (unat (put_depths (Suc d) r (put_depths (Suc d) l depth) ! s)))"
    by (simp add: sum.union_disjoint dis(1))
  also have "(\<Sum>s \<in> symbols_of l. depth_space (unat (put_depths (Suc d) r (put_depths (Suc d) l depth) ! s))) =
      (\<Sum>s \<in> symbols_of l. depth_space (unat (put_depths (Suc d) l depth ! s)))"
  proof (rule sum.cong [OF refl])
    fix s assume "s \<in> symbols_of l"
    then have s: "s \<notin> symbols_of r" using dis(1) by blast
    show "depth_space (unat (put_depths (Suc d) r (put_depths (Suc d) l depth) ! s)) = depth_space (unat (put_depths (Suc d) l depth ! s))"
      unfolding put_depths_symbols [OF s] ..
  qed
  also have "\<dots> = 2 ^ (15 - Suc d)" using HNode.IH(1) [OF dis(2) _ h(1), of depth] HNode.prems(2) by simp
  also have "(\<Sum>s \<in> symbols_of r. depth_space (unat (put_depths (Suc d) r (put_depths (Suc d) l depth) ! s))) = 2 ^ (15 - Suc d)"
    using HNode.IH(2) [OF dis(3) _ h(2), of "put_depths (Suc d) l depth"] HNode.prems(2) by simp
  also have "(2::nat) ^ (15 - Suc d) + 2 ^ (15 - Suc d) = 2 ^ (15 - d)"
  proof -
    have "15 - d = Suc (15 - Suc d)" using h(1) by simp
    then show ?thesis by simp
  qed
  finally show ?case .
qed

text \<open>What the caller gets: a depth for each symbol in use, and a complete code if there are two.\<close>

definition depths_for :: "uint32 list \<Rightarrow> nat \<Rightarrow> nat \<Rightarrow> uint8 list \<Rightarrow> bool" where
  "depths_for data len limit depth \<longleftrightarrow> (\<forall>i < len. (depth ! i = 0 \<longleftrightarrow> data ! i = 0) \<and> unat (depth ! i) \<le> limit) \<and>
     (if length (used_symbols data len) = 1 then \<forall>i < len. data ! i \<noteq> 0 \<longrightarrow> depth ! i = 1
      else complete_code (map unat (take len depth)))"

lemma depths_for_tree:
  assumes "leaves t = limited_leaves data len c" and "2 \<le> length (used_symbols data len)" and "height t \<le> limit" and "limit \<le> 15"
    and "len \<le> length depth" and "\<forall>i < len. data ! i = 0 \<longrightarrow> depth ! i = 0"
  shows "depths_for data len limit (put_depths 0 t depth)"
proof -
  define D where "D = put_depths 0 t depth"
  have "image_mset snd (leaves t) = mset (used_symbols data len)"
    by (simp add: assms(1) limited_leaves_def leaf_of_def image_mset.compositionality comp_def)
  note snds = this
  have "distinct (used_symbols data len)" by (simp add: used_symbols_def)
  then have dl: "distinct_leaves t" by (intro distinct_leavesI) (simp add: snds distinct_count_atmost_1)
  have sy: "symbols_of t = {i. i < len \<and> data ! i \<noteq> 0}"
  proof -
    have "symbols_of t = set_mset (image_mset snd (leaves t))" by (simp add: symbols_of_leaves)
    then show ?thesis by (auto simp: snds used_symbols_def)
  qed
  have inr: "\<forall>s \<in> symbols_of t. s < length depth" using assms(5) by (auto simp: sy)
  have h: "0 + height t \<le> 15" using assms(3,4) by simp
  have "0 < height t"
  proof (rule ccontr)
    assume "\<not> 0 < height t"
    then obtain w s where "t = HLeaf w s" by (cases t) auto
    then have "size (image_mset snd (leaves t)) = 1" by simp
    then show False using assms(2) by (simp add: snds)
  qed
  note pos = this
  have used: "0 < unat (D ! i) \<and> unat (D ! i) \<le> limit" if "i < len" "data ! i \<noteq> 0" for i
    using put_depths_range [OF dl inr h, of i] that pos assms(3) by (simp add: sy D_def)
  have unused: "D ! i = 0" if "i < len" "data ! i = 0" for i
    using put_depths_symbols [of i t 0 depth] that assms(6) by (simp add: sy D_def)
  have D: "\<forall>i < len. (D ! i = 0 \<longleftrightarrow> data ! i = 0) \<and> unat (D ! i) \<le> limit"
    using used unused by (metis bot_nat_0.extremum unat_0 less_irrefl)
  have len: "len \<le> length D" using assms(5) by (simp add: D_def)
  have "(\<Sum>l\<leftarrow>map unat (take len D). if l = 0 then 0 else 2 ^ (15 - l)) = (\<Sum>i \<in> {0..<len}. depth_space (unat (D ! i)))"
    using len by (simp add: sum_list_sum_nth depth_space_def)
  also have "\<dots> = (\<Sum>i \<in> symbols_of t. depth_space (unat (D ! i)))"
    by (rule sum.mono_neutral_right) (use unused in \<open>auto simp: sy depth_space_def\<close>)
  also have "\<dots> = 2 ^ 15" using put_depths_space [OF dl inr h] pos by (simp add: D_def)
  finally have "(\<Sum>l\<leftarrow>map unat (take len D). if l = 0 then 0 else 2 ^ (15 - l)) = (2 ^ 15 :: nat)" .
  moreover have "list_all (\<lambda>l. l \<le> 15) (map unat (take len D))"
    using D assms(4) len by (auto simp: list_all_length intro: order_trans)
  ultimately have "complete_code (map unat (take len D))" by (simp only: complete_code_sum)
  then show ?thesis using D assms(2) by (simp add: depths_for_def D_def)
qed

section \<open>The rounds end\<close>

text \<open>The sum of the histogram, and the slack between the alphabet and the weight of a tree that is too deep.\<close>

definition data_sum :: "uint32 list \<Rightarrow> nat \<Rightarrow> nat" where
  "data_sum data len = (\<Sum>i\<leftarrow>used_symbols data len. unat (data ! i))"

definition round_slack :: "nat \<Rightarrow> nat \<Rightarrow> nat" where
  "round_slack limit n = fibonacci (limit + 3) - n"

lemma total_weight_limited:
  "total_weight (limited_leaves data len c) = (\<Sum>i\<leftarrow>used_symbols data len. max (unat (data ! i)) c)"
  by (simp add: total_weight_def limited_leaves_def leaf_of_def image_mset.compositionality comp_def flip: sum_mset_sum_list)

lemma limited_weight_le: "total_weight (limited_leaves data len c) \<le> data_sum data len + length (used_symbols data len) * c"
proof -
  have "(\<Sum>i\<leftarrow>xs. max (unat (data ! i)) c) \<le> (\<Sum>i\<leftarrow>xs. unat (data ! i)) + length xs * c" for xs
    by (induction xs) auto
  then show ?thesis by (simp add: total_weight_limited data_sum_def)
qed

lemma limited_weight_one: "total_weight (limited_leaves data len 1) = data_sum data len"
proof -
  have "max (unat (data ! i)) 1 = unat (data ! i)" if "i \<in> set (used_symbols data len)" for i
  proof -
    have "0 < unat (data ! i)" using that by (simp add: used_symbols_def unat_gt_0)
    then show ?thesis by (cases "unat (data ! i)") simp_all
  qed
  then have "map (\<lambda>i. max (unat (data ! i)) 1) (used_symbols data len) = map (\<lambda>i. unat (data ! i)) (used_symbols data len)"
    by simp
  then show ?thesis unfolding total_weight_limited data_sum_def by (rule arg_cong)
qed

lemma deep_round:
  assumes "huffman_tree c t" and "leaves t = limited_leaves data len c" and "limit < height t"
    and "length (used_symbols data len) < fibonacci (limit + 3)"
  shows "c \<le> data_sum data len div round_slack limit (length (used_symbols data len))"
proof -
  define n where "n = length (used_symbols data len)"
  have "fibonacci (limit + 3) \<le> fibonacci (height t + 2)" by (rule fibonacci_mono) (use assms(3) in simp_all)
  then have "c * fibonacci (limit + 3) \<le> c * fibonacci (height t + 2)" by simp
  also have "\<dots> \<le> weight t" by (rule huffman_tree_weight [OF assms(1)])
  also have "\<dots> = total_weight (limited_leaves data len c)" using assms(2) total_weight_simps(2) by metis
  also have "\<dots> \<le> data_sum data len + n * c" using limited_weight_le by (simp add: n_def)
  finally have "c * (fibonacci (limit + 3) - n) \<le> data_sum data len" by (simp add: diff_mult_distrib2 mult.commute)
  then show ?thesis using assms(4) by (simp add: round_slack_def n_def less_eq_div_iff_mult_less_eq)
qed

definition rounds_ready :: "uint32 list \<Rightarrow> nat \<Rightarrow> nat \<Rightarrow> HuffmanTree list \<Rightarrow> uint8 list \<Rightarrow> bool" where
  "rounds_ready data len limit tree depth \<longleftrightarrow> len \<le> length data \<and> len < 2 ^ 14 \<and> limit \<le> 15 \<and> len \<le> length depth \<and>
     (\<forall>i < len. data ! i = 0 \<longrightarrow> depth ! i = 0) \<and> 2 * length (used_symbols data len) < length tree"

text \<open>The counts are small enough for the sums in the nodes, whatever the limit comes to.\<close>

definition counts_fit :: "uint32 list \<Rightarrow> nat \<Rightarrow> nat \<Rightarrow> bool" where
  "counts_fit data len limit \<longleftrightarrow> length (used_symbols data len) < fibonacci (limit + 3) \<and>
     data_sum data len + 2 * length (used_symbols data len) *
       (data_sum data len div round_slack limit (length (used_symbols data len))) < 2 ^ 32 - 1"

lemma huffman_rounds_spec:
  assumes "2 \<le> length (used_symbols data len)" and "counts_fit data len limit"
    and "c = 1 \<or> c \<le> 2 * (data_sum data len div round_slack limit (length (used_symbols data len)))" and "0 < c"
    and "rounds_ready data len limit tree depth"
  shows "\<exists>tree' depth'. huffman_rounds data len (int limit) (of_nat c) tree depth = Some (tree', depth') \<and> length tree' = length tree \<and>
    length depth' = length depth \<and> (\<forall>i. len \<le> i \<longrightarrow> depth' ! i = depth ! i) \<and> depths_for data len limit depth'"
  using assms(3-5)
proof (induction "2 * (data_sum data len div round_slack limit (length (used_symbols data len))) + 1 - c" arbitrary: c tree depth rule: less_induct)
  case less
  define n where "n = length (used_symbols data len)"
  define T where "T = data_sum data len"
  define K where "K = T div round_slack limit n"
  have fit: "n < fibonacci (limit + 3)" "T + 2 * n * K < 2 ^ 32 - 1" using assms(2) by (simp_all add: counts_fit_def n_def T_def K_def)
  have n2: "2 \<le> n" using assms(1) by (simp add: n_def)
  have c: "c = 1 \<or> c \<le> 2 * K" using less.prems(1) by (simp add: K_def T_def n_def)
  have w: "total_weight (limited_leaves data len c) < 2 ^ 32 - 1"
  proof (cases "c = 1")
    case True
    then show ?thesis using fit(2) limited_weight_one [of data len] by (simp add: T_def)
  next
    case False
    then have "n * c \<le> n * (2 * K)" using c by (intro mult_le_mono2) simp
    also have "\<dots> = 2 * n * K" by simp
    finally have "n * c \<le> 2 * n * K" .
    moreover have "total_weight (limited_leaves data len c) \<le> T + n * c"
      using limited_weight_le [of data len c] by (simp only: n_def T_def)
    ultimately show ?thesis using fit(2) by linarith
  qed
  have "c \<le> 2 * n * K \<or> c = 1"
  proof -
    have "2 * K \<le> 2 * n * K" using n2 by simp
    then show ?thesis using c by linarith
  qed
  then have c32: "c < 2 ^ 32" using fit(2) by auto
  note ready = less.prems(3) [unfolded rounds_ready_def, folded n_def]
  from huffman_round_spec [OF _ n_def n2 _ _ c32 w, of tree limit depth] ready obtain ok t1 d1 t where
    r: "huffman_round data len (int limit) (of_nat c) tree depth = Some (ok, t1, d1)" "length t1 = length tree" "huffman_tree c t"
    "leaves t = limited_leaves data len c" "ok \<longleftrightarrow> height t \<le> limit" "length d1 = length depth"
    "\<forall>s. s \<notin> set (used_symbols data len) \<longrightarrow> d1 ! s = depth ! s" "ok \<longrightarrow> d1 = put_depths 0 t depth" by auto
  have other: "\<forall>i. len \<le> i \<longrightarrow> d1 ! i = depth ! i" using r(7) by (auto simp: used_symbols_def)
  show ?case
  proof (cases ok)
    case True
    then have "huffman_rounds data len (int limit) (of_nat c) tree depth = Some (t1, d1)"
      using r(1) by (subst huffman_rounds.simps) simp
    moreover have "depths_for data len limit d1"
      using depths_for_tree [OF r(4) assms(1), of limit depth] True r(5,8) ready by simp
    ultimately show ?thesis using r(2,6) other by blast
  next
    case False
    then have deep: "c \<le> K"
      using deep_round [OF r(3,4), of limit] r(5) fit(1) by (simp add: K_def T_def n_def)
    have step: "huffman_rounds data len (int limit) (of_nat c) tree depth = huffman_rounds data len (int limit) (of_nat (2 * c)) t1 d1"
      using r(1) False by (subst huffman_rounds.simps) (simp add: mult.commute)
    have "d1 ! i = 0" if "i < len" "data ! i = 0" for i
      using r(7) that ready by (simp add: used_symbols_def)
    then have ready1: "rounds_ready data len limit t1 d1" using ready r(2,6) by (simp add: rounds_ready_def n_def [symmetric])
    have "2 * K + 1 - 2 * c < 2 * K + 1 - c" using deep less.prems(2) by linarith
    moreover have "2 * c = 1 \<or> 2 * c \<le> 2 * K" using deep by simp
    moreover have "0 < 2 * c" using less.prems(2) by simp
    ultimately obtain t2 d2 where "huffman_rounds data len (int limit) (of_nat (2 * c)) t1 d1 = Some (t2, d2)"
      "length t2 = length t1" "length d2 = length d1" "\<forall>i. len \<le> i \<longrightarrow> d2 ! i = d1 ! i" "depths_for data len limit d2"
      using less.hyps [of "2 * c" t1 d1] ready1 unfolding K_def T_def n_def by blast
    then show ?thesis using step r(2,6) other by (intro exI [of _ t2] exI [of _ d2]) simp
  qed
qed

lemma single_round:
  assumes "used_symbols data len = [k]" and "rounds_ready data len limit tree depth" and "0 < limit"
  shows "\<exists>tree'. BrotliCreateHuffmanTree data len (int limit) tree depth = Some (tree', depth[k := 1]) \<and> length tree' = length tree \<and>
    depths_for data len limit (depth[k := 1])"
proof -
  have k: "k < len" "data ! k \<noteq> 0" and only: "\<And>i. i < len \<Longrightarrow> data ! i \<noteq> 0 \<Longrightarrow> i = k"
  proof -
    have "set (used_symbols data len) = {k}" by (simp add: assms(1))
    then have *: "i < len \<and> data ! i \<noteq> 0 \<longleftrightarrow> i = k" for i by (auto simp: used_symbols_def)
    then show "k < len" "data ! k \<noteq> 0" "\<And>i. i < len \<Longrightarrow> data ! i \<noteq> 0 \<Longrightarrow> i = k" by blast+
  qed
  note ready = assms(2) [unfolded rounds_ready_def]
  have "len \<le> 2 ^ 15" "length (used_symbols data len) \<le> length tree" using ready by simp_all
  from tree_leaves_spec [OF _ this, of 1] ready assms(1) obtain t1 where
    t1: "foldM (tree_leaf data 1) (rev [0..<len]) (0, tree) = Some (1, t1)" "length t1 = length tree" "take 1 t1 = [leaf_cell data 1 k]" by auto
  have t0: "arr_get t1 0 = Some (leaf_cell data 1 k)" using t1(3) by (cases t1) simp_all
  have d: "arr_seti depth (int k) 1 = Some (depth[k := 1])" using k(1) ready by (simp add: arr_seti_def)
  have "huffman_round data len (int limit) 1 tree depth = Some (True, t1, depth[k := 1])"
    unfolding huffman_round_def t1(1) using t0 d by (simp add: leaf_cell_def InitHuffmanTree_def)
  then have "BrotliCreateHuffmanTree data len (int limit) tree depth = Some (t1, depth[k := 1])"
    unfolding BrotliCreateHuffmanTree_def by (subst huffman_rounds.simps) simp
  moreover have "depths_for data len limit (depth[k := 1])"
  proof -
    have kl: "k < length depth" using k(1) ready by simp
    have d0: "data ! i = 0 \<longleftrightarrow> i \<noteq> k" if "i < len" for i using only [OF that] k(2) by blast
    moreover have "\<forall>i < len. data ! i = 0 \<longrightarrow> depth ! i = 0" using ready by (elim conjE)
    ultimately have "depth[k := 1] ! i = (if i = k then 1 else 0)" if "i < len" for i
      using that kl by (cases "i = k") simp_all
    then show ?thesis unfolding depths_for_def assms(1) using d0 assms(3) by simp
  qed
  ultimately show ?thesis using t1(2) by blast
qed

lemma BrotliCreateHuffmanTree_spec:
  assumes "rounds_ready data len limit tree depth" and "counts_fit data len limit" and "used_symbols data len \<noteq> []" and "0 < limit"
  shows "\<exists>tree' depth'. BrotliCreateHuffmanTree data len (int limit) tree depth = Some (tree', depth') \<and> length tree' = length tree \<and>
    length depth' = length depth \<and> (\<forall>i. len \<le> i \<longrightarrow> depth' ! i = depth ! i) \<and> depths_for data len limit depth'"
proof (cases "length (used_symbols data len) = 1")
  case True
  then obtain k where k: "used_symbols data len = [k]" by (cases "used_symbols data len") auto
  have "k \<in> set (used_symbols data len)" by (simp add: k)
  then have "k < len" by (simp add: used_symbols_def)
  then have "\<forall>i. len \<le> i \<longrightarrow> (depth[k := 1]) ! i = depth ! i" by simp
  then show ?thesis using single_round [OF k assms(1,4)] by force
next
  case False
  then have "2 \<le> length (used_symbols data len)" using assms(3) by (cases "used_symbols data len" rule: remdups_adj.cases) simp_all
  from huffman_rounds_spec [OF this assms(2) _ _ assms(1), of 1] show ?thesis
    by (simp add: BrotliCreateHuffmanTree_def)
qed

end
