(* ===== verification/Code_Length_Reading.thy ===== *)
theory Code_Length_Reading
  imports Code_Length_Decode Huffman_Properties
begin

text \<open>
  Reading code lengths from any stream: the two readers take the codes that the stream begins with, one after the
  other, until the lengths are those of a complete code, or fill the alphabet, or no whole code is left.  What they
  report, and the state in which they can go on, is a function of the codes taken.
\<close>

section \<open>When reading ends\<close>

definition lengths_full :: "nat \<Rightarrow> nat list \<Rightarrow> bool" where
  "lengths_full N ls \<longleftrightarrow> complete_code ls \<or> N \<le> length ls"

text \<open>The reader's variables, after codes that give the state \<open>S\<close>.\<close>

definition step_result :: "nat \<Rightarrow> len_state \<Rightarrow> code_lengths \<Rightarrow> bool" where
  "step_result N S c \<longleftrightarrow> (if length (fst S) \<le> N then follows N S c else overrun N c)"

lemma follows_inv: "follows N S c \<Longrightarrow> lengths_inv N (fst S) c"
  by (cases S) (simp add: follows_def)

lemma space_left:
  assumes "lengths_inv N ls c" and "N < 2 ^ 16"
  shows "cl_space c = 0 \<longleftrightarrow> complete_code ls"
proof
  show "complete_code ls" if "cl_space c = 0" by (rule lengths_complete(1) [OF assms that])
  assume "complete_code ls"
  then have "kraft ls = 32768" by (simp add: complete_code_def kraft_def)
  then show "cl_space c = 0" using assms(1) by (simp add: lengths_inv_def)
qed

lemma follows_done:
  assumes "follows N S c" and "N < 2 ^ 16"
  shows "lengths_done N c \<longleftrightarrow> lengths_full N (fst S)"
proof -
  note inv = follows_inv [OF assms(1)]
  show ?thesis
    using loop_condition [OF inv assms(2)] space_left [OF inv assms(2)]
    by (auto simp: lengths_done_def lengths_full_def word_gt_0)
qed

lemma step_result_done:
  assumes "step_result N S c" and "N < 2 ^ 16"
  shows "lengths_done N c \<longleftrightarrow> lengths_full N (fst S)"
  using assms follows_done [of N S c] overrun_done [of N c]
  by (cases "length (fst S) \<le> N") (simp_all add: step_result_def lengths_full_def)

lemma step_result_open:
  assumes "step_result N S c" and "\<not> lengths_full N (fst S)"
  shows "follows N S c" and "length (fst S) < N"
  using assms by (auto simp: step_result_def lengths_full_def)

lemma code_step:
  assumes "step_result N S c" and "\<not> lengths_full N (fst S)" and "code_ok (code, x)" and "N < 2 ^ 16"
  shows "\<exists>c'. length_step (of_nat code) (of_nat x) (of_nat N) c = Some c' \<and> step_result N (len_step (code, x) S) c'"
  using length_step_exact [OF step_result_open(1) [OF assms(1,2)] _ _ step_result_open(2) [OF assms(1,2)] assms(4)] assms(3)
  by (simp add: code_ok_def step_result_def)

lemma code_step_grows:
  assumes "follows N S c" and "code_ok t"
  shows "length (fst S) < length (fst (len_step t S))"
proof -
  obtain ls prev rep rl where S: "S = (ls, prev, rep, rl)" by (cases S)
  have "rep = 0 \<or> 3 \<le> rep" using assms(1) by (auto simp: follows_def lengths_inv_def S)
  then show ?thesis using assms(2) by (cases t) (auto simp: S len_step.simps Let_def repeat_to_def)
qed

section \<open>A stream without a whole code\<close>

definition starts :: "code_words \<Rightarrow> bits \<Rightarrow> bool" where
  "starts ws bs \<longleftrightarrow> (\<exists>t rest. word_ok ws t \<and> bs = length_word ws t @ rest)"

lemma startsI:
  assumes "ws k = Some w" and "k \<le> 17" and "bs = w @ rest" and "extra_width k \<le> length rest"
  shows "starts ws bs"
proof -
  define x where "x = bits_val (take (extra_width k) rest)"
  have "x < 2 ^ extra_width k" unfolding x_def using bits_val_less [of "take (extra_width k) rest"] assms(4) by simp
  moreover have "k \<noteq> 16 \<Longrightarrow> k \<noteq> 17 \<Longrightarrow> extra_width k = 0" "extra_width 16 = 2" "extra_width 17 = 3" by (simp_all add: extra_width_def)
  ultimately have "code_ok (k, x)" using assms(2) by (cases "k = 16"; cases "k = 17") (auto simp: code_ok_def)
  then have "word_ok ws (k, x)" using assms(1) by (simp add: word_ok_def)
  moreover have "val_bits (extra_width k) x = take (extra_width k) rest"
    unfolding x_def by (rule val_bits_eqI) (use assms(4) in simp)
  then have "bs = length_word ws (k, x) @ drop (extra_width k) rest" by (simp add: length_word_def assms(1,3))
  ultimately show ?thesis unfolding starts_def by blast
qed

text \<open>Eight bits are enough for a code.\<close>

lemma long_stream_starts:
  assumes "window_table ws tbl" and "8 \<le> length bs"
  shows "starts ws bs"
proof -
  define W where "W = bits_val (take 5 bs)"
  obtain k w where k: "ws k = Some w" "take (length w) (val_bits 5 W) = w" using assms(1) unfolding window_table_def by blast
  have small: "k \<le> 17" "length w \<le> 5" using assms(1) k(1) by (auto simp: window_table_def)
  have "val_bits 5 W = take 5 bs" unfolding W_def by (rule val_bits_eqI) (use assms(2) in simp)
  then have "take (length w) bs = w" using k(2) small(2) by (simp add: min_def)
  then have "bs = w @ drop (length w) bs" by (metis append_take_drop_id)
  then show ?thesis by (rule startsI [where ws = ws and k = k, OF k(1) small(1)]) (use assms(2) small(2) in \<open>auto simp: extra_width_def\<close>)
qed

text \<open>Without a whole code the safe reader waits, and leaves the stream as it is.\<close>

lemma no_word_step:
  assumes "window_table ws tbl" and "hungry gb br" and "\<not> starts ws (br_bits br)"
  shows "\<exists>gb' ok br'. safe_rscl_step tbl (of_nat N) gb br c = Some (gb', ok, br', c) \<and> br_ok br' \<and> br_bits br' = br_bits br \<and>
    (ok \<longrightarrow> gb' \<and> hungry True br' \<and> avail_in br' \<le> avail_in br \<and> (gb \<longrightarrow> avail_in br' < avail_in br))"
proof (cases "gb \<and> avail_in br = 0")
  case True
  then have "safe_rscl_step tbl (of_nat N) gb br c = Some (gb, False, br, c)"
    by (simp add: safe_rscl_step_def BrotliPullByte_def)
  then show ?thesis using assms(2) by (auto simp: hungry_def)
next
  case False
  have "\<exists>b1. (if gb then BrotliPullByte br else Some (True, br)) = Some (True, b1) \<and> br_ok b1 \<and> br_bits b1 = br_bits br \<and>
      avail_in b1 \<le> avail_in br \<and> (gb \<longrightarrow> avail_in b1 < avail_in br)"
    using BrotliPullByte_spec [of br] assms(2) False by (cases gb) (auto simp: hungry_def)
  then obtain b1 where b1: "(if gb then BrotliPullByte br else Some (True, br)) = Some (True, b1)" "br_ok b1"
    "br_bits b1 = br_bits br" "avail_in b1 \<le> avail_in br" "gb \<longrightarrow> avail_in b1 < avail_in br" by blast
  define a where "a = 64 - unat (br_bit_pos b1)"
  obtain bits where bits: "(if BrotliGetAvailableBits b1 \<noteq> 0 then map_option ucast (BrotliGetBitsUnmasked b1) else Some 0) =
      Some (bits :: uint32)" and win: "\<And>j. j \<le> a \<Longrightarrow> j \<le> 32 \<Longrightarrow> take j (br_bits br) = val_bits j (unat bits)"
    using safe_window_bits [OF b1(2)] unfolding b1(3) a_def by blast
  have m: "BitMask 5 = Some (mask 5)" by (simp add: BitMask_mask)
  have ix: "unat (bits AND mask 5) = unat bits mod 32" unfolding unat_and_mask by simp
  have len: "a \<le> length (br_bits br)" using length_br_bits [OF b1(2)] by (simp add: b1(3) a_def)
  obtain k v where v: "ws k = Some v" "take (length v) (val_bits 5 (unat bits)) = v"
    using assms(1) unfolding window_table_def by blast
  have small: "k \<le> 17" "length v \<le> 5" "32 \<le> length tbl"
    "tbl ! (unat bits mod 32) = ConstructHuffmanCode (of_nat (length v)) (of_nat k)"
    using assms(1) v unfolding window_table_def by blast+
  define p where "p = ConstructHuffmanCode (of_nat (length v)) (of_nat k)"
  have "unat bits mod 32 < length tbl" using small(3) by (rule less_le_trans [rotated]) simp
  then have get: "arr_get tbl (unat (bits AND mask 5)) = Some p" by (simp add: ix small(4) p_def)
  have p: "fast_bits p = of_nat (length v)" "fast_value p = of_nat k" using small(1,2) by (simp_all add: p_def code_fields)
  have u: "unat (of_nat k :: uint32) = k" "unat (of_nat (length v) :: uint32) = length v"
    using small(1,2) by (simp_all add: unat_of_nat_small)
  have av: "unat (BrotliGetAvailableBits b1) = a" unfolding a_def by (rule unat_avail_bits [OF b1(2)])
  note step = safe_rscl_step_def b1(1) bits m get bind.bind_lunit Let_def prod.case p
  have wait: ?thesis if run: "safe_rscl_step tbl (of_nat N) gb br c = Some (True, True, b1, c)" and a: "a < 9"
  proof -
    have "hungry True b1" using b1(2) a by (simp add: hungry_def a_def)
    then show ?thesis using run b1 by blast
  qed
  show ?thesis
  proof (cases "length v \<le> a")
    case False
    then have "BrotliGetAvailableBits b1 < (of_nat (length v) :: uint32)" using av u(2) by (simp add: word_less_nat_alt)
    then have "safe_rscl_step tbl (of_nat N) gb br c = Some (True, True, b1, c)" by (simp add: step)
    then show ?thesis using False small(2) by (intro wait) simp_all
  next
    case True
    have "val_bits (length v) (unat bits) = take (length v) (val_bits 5 (unat bits))"
      using small(2) by (simp add: val_bits_def take_map)
    then have "take (length v) (br_bits br) = v" using win [OF True] small(2) v(2) by simp
    then have bs: "br_bits br = v @ drop (length v) (br_bits br)" by (metis append_take_drop_id)
    have short: "a < length v + extra_width k"
    proof (rule ccontr)
      assume "\<not> a < length v + extra_width k"
      then have "extra_width k \<le> length (drop (length v) (br_bits br))" using len by simp
      then have "starts ws (br_bits br)" by (rule startsI [where ws = ws and k = k, OF v(1) small(1) bs])
      then show False using assms(3) by simp
    qed
    then have k16: "16 \<le> k" using True by (auto simp: extra_width_def split: if_splits)
    then have k2: "k = 16 \<or> k = 17" using small(1) by linarith
    have fits: "\<not> (of_nat (length v) :: uint32) > BrotliGetAvailableBits b1" using True av u(2) by (simp add: word_less_nat_alt)
    have nlt: "\<not> (of_nat k :: uint32) < 16" using u(1) k16 by (simp add: word_less_nat_alt)
    have e: "of_nat k - 14 = (of_nat (extra_width k) :: uint32)" "extra_width k \<le> 3" using k2 by (auto simp: extra_width_def)
    have ue: "unat (of_nat (extra_width k) :: uint32) = extra_width k" using e(2) by (simp add: unat_of_nat_small)
    have me: "BitMask (of_nat (extra_width k)) = Some (mask (extra_width k))" using e(2) ue by (simp add: BitMask_mask)
    have sh: "shr32 bits (of_nat (length v)) = Some (drop_bit (length v) bits)"
      using small(2) u(2) by (simp add: shr32_def word_less_nat_alt)
    have "unat (of_nat (length v) + of_nat (extra_width k) :: uint32) = length v + extra_width k"
      unfolding unat_word_ariths u(2) ue using small(2) e(2) by simp
    then have few: "BrotliGetAvailableBits b1 < (of_nat (length v) + of_nat (extra_width k) :: uint32)"
      using short av by (simp add: word_less_nat_alt)
    have "safe_rscl_step tbl (of_nat N) gb br c = Some (True, True, b1, c)"
      unfolding step if_not_P [OF fits] if_not_P [OF nlt] e(1) sh me if_P [OF few] if_not_P [of "\<not> True", simplified] by simp
    then show ?thesis using short small(2) e(2) by (intro wait) simp_all
  qed
qed

lemma no_word_loop:
  assumes "window_table ws tbl" and "\<not> lengths_done N c" and "hungry gb br" and "\<not> starts ws (br_bits br)"
  shows "\<exists>br'. safe_rscl_loop tbl (of_nat N) gb br c = Some (False, br', c) \<and> br_ok br' \<and> br_bits br' = br_bits br"
  using assms(3,4)
proof (induction "avail_in br + (if gb then 0 else 1)" arbitrary: gb br rule: less_induct)
  case less
  obtain gb' ok b where s: "safe_rscl_step tbl (of_nat N) gb br c = Some (gb', ok, b, c)" "br_ok b" "br_bits b = br_bits br"
    "ok \<longrightarrow> gb' \<and> hungry True b \<and> avail_in b \<le> avail_in br \<and> (gb \<longrightarrow> avail_in b < avail_in br)"
    using no_word_step [OF assms(1) less.prems] by blast
  have step: "safe_rscl_loop tbl (of_nat N) gb br c = (if \<not> ok then Some (False, b, c) else safe_rscl_loop tbl (of_nat N) gb' b c)"
    using assms(2) s(1) by (subst safe_rscl_loop.simps) (auto simp: lengths_done_def)
  show ?case
  proof (cases ok)
    case True
    then have b: "gb'" "hungry True b" "avail_in b \<le> avail_in br" "gb \<longrightarrow> avail_in b < avail_in br" using s(4) by simp_all
    then have "avail_in b + (if gb' then 0 else 1) < avail_in br + (if gb then 0 else 1)" by auto
    from less.hyps [OF this] b(1,2) s(3) less.prems(2) show ?thesis unfolding step using True by simp
  next
    case False
    then show ?thesis using step s(2,3) by simp
  qed
qed

section \<open>The loops\<close>

text \<open>What a loop has read: codes one by one, none after the lengths were full.\<close>

definition codes_taken :: "nat \<Rightarrow> code_words \<Rightarrow> len_state \<Rightarrow> (nat \<times> nat) list \<Rightarrow> bits \<Rightarrow> bits \<Rightarrow> bool" where
  "codes_taken N ws S ts bs rest \<longleftrightarrow> list_all (word_ok ws) ts \<and> bs = length_words ws ts @ rest \<and>
     (\<forall>n < length ts. \<not> lengths_full N (fst (fold len_step (take n ts) S)))"

lemma codes_taken_Nil [simp]: "codes_taken N ws S [] bs bs"
  by (simp add: codes_taken_def)

lemma codes_taken_Cons:
  assumes "word_ok ws t" and "\<not> lengths_full N (fst S)" and "codes_taken N ws (len_step t S) ts rest end"
  shows "codes_taken N ws S (t # ts) (length_word ws t @ rest) end"
  using assms by (auto simp: codes_taken_def less_Suc_eq_0_disj)

lemma codes_taken_append:
  assumes "codes_taken N ws S ts bs mid" and "codes_taken N ws (fold len_step ts S) us mid end"
  shows "codes_taken N ws S (ts @ us) bs end"
proof -
  have "\<not> lengths_full N (fst (fold len_step (take n (ts @ us)) S))" if "n < length (ts @ us)" for n
  proof (cases "n < length ts")
    case True
    then show ?thesis using assms(1) by (simp add: codes_taken_def)
  next
    case False
    then have "n - length ts < length us" using that by simp
    then show ?thesis using assms(2) False by (simp add: codes_taken_def)
  qed
  then show ?thesis using assms by (simp add: codes_taken_def)
qed

lemma safe_loop_reads:
  assumes "window_table ws tbl" and "step_result N S c" and "br_ok br" and "N < 2 ^ 16"
  shows "\<exists>don br' c' ts. safe_rscl_loop tbl (of_nat N) False br c = Some (don, br', c') \<and> br_ok br' \<and>
    codes_taken N ws S ts (br_bits br) (br_bits br') \<and> step_result N (fold len_step ts S) c' \<and>
    (don \<longleftrightarrow> lengths_full N (fst (fold len_step ts S))) \<and> (\<not> don \<longrightarrow> \<not> starts ws (br_bits br'))"
  using assms(2,3)
proof (induction "N - length (fst S)" arbitrary: S c br rule: less_induct)
  case less
  show ?case
  proof (cases "lengths_full N (fst S)")
    case True
    then have "lengths_done N c" using step_result_done [OF less.prems(1) assms(4)] by simp
    then have "safe_rscl_loop tbl (of_nat N) False br c = Some (True, br, c)"
      by (subst safe_rscl_loop.simps) (auto simp: lengths_done_def)
    then show ?thesis using less.prems True by (intro exI [of _ True] exI [of _ br] exI [of _ c] exI [of _ "[]"]) simp
  next
    case False
    then have nd: "\<not> lengths_done N c" using step_result_done [OF less.prems(1) assms(4)] by simp
    have hg: "hungry False br" using less.prems(2) by (simp add: hungry_def)
    show ?thesis
    proof (cases "starts ws (br_bits br)")
      case st: False
      from no_word_loop [OF assms(1) nd hg st] obtain b where
        "safe_rscl_loop tbl (of_nat N) False br c = Some (False, b, c)" "br_ok b" "br_bits b = br_bits br" by blast
      then show ?thesis using less.prems False st by (intro exI [of _ False] exI [of _ b] exI [of _ c] exI [of _ "[]"]) simp
    next
      case True
      then obtain code x rest where t: "word_ok ws (code, x)" "br_bits br = length_word ws (code, x) @ rest"
        unfolding starts_def by auto
      have ok: "code_ok (code, x)" using t(1) by (simp add: word_ok_def)
      obtain c1 where c1: "length_step (of_nat code) (of_nat x) (of_nat N) c = Some c1" "step_result N (len_step (code, x) S) c1"
        using code_step [OF less.prems(1) False ok assms(4)] by blast
      obtain b where b: "safe_rscl_loop tbl (of_nat N) False br c = safe_rscl_loop tbl (of_nat N) False b c1" "br_ok b" "br_bits b = rest"
        using safe_loop_word [OF assms(1) t(1) nd c1(1) hg t(2)] by blast
      note o = step_result_open [OF less.prems(1) False]
      have "N - length (fst (len_step (code, x) S)) < N - length (fst S)"
        using code_step_grows [OF o(1) ok] o(2) by linarith
      from less.hyps [OF this c1(2) b(2)] obtain don b' c' ts where
        r: "safe_rscl_loop tbl (of_nat N) False b c1 = Some (don, b', c')" "br_ok b'"
        "codes_taken N ws (len_step (code, x) S) ts rest (br_bits b')" "step_result N (fold len_step ts (len_step (code, x) S)) c'"
        "don \<longleftrightarrow> lengths_full N (fst (fold len_step ts (len_step (code, x) S)))" "\<not> don \<longrightarrow> \<not> starts ws (br_bits b')"
        unfolding b(3) by blast
      have "codes_taken N ws S ((code, x) # ts) (br_bits br) (br_bits b')"
        unfolding t(2) by (rule codes_taken_Cons [OF t(1) False r(3)])
      then show ?thesis using r b(1) by (intro exI [of _ don] exI [of _ b'] exI [of _ c'] exI [of _ "(code, x) # ts"]) simp
    qed
  qed
qed

lemma fast_loop_reads:
  assumes "window_table ws tbl" and "step_result N S c" and "br_warm br" and "N < 2 ^ 16"
  shows "\<exists>don br' c' ts. rscl_loop tbl (of_nat N) br c = Some (don, br', c') \<and> br_ok br' \<and>
    codes_taken N ws S ts (br_bits br) (br_bits br') \<and> step_result N (fold len_step ts S) c' \<and>
    (don \<longleftrightarrow> lengths_full N (fst (fold len_step ts S)))"
  using assms(2,3)
proof (induction "N - length (fst S)" arbitrary: S c br rule: less_induct)
  case less
  have ok: "br_ok br" using less.prems(2) by (simp add: br_warm_def)
  show ?case
  proof (cases "lengths_full N (fst S)")
    case True
    then have "lengths_done N c" using step_result_done [OF less.prems(1) assms(4)] by simp
    then have "rscl_loop tbl (of_nat N) br c = Some (True, br, c)"
      by (subst rscl_loop.simps) (auto simp: lengths_done_def)
    then show ?thesis using less.prems ok True by (intro exI [of _ True] exI [of _ br] exI [of _ c] exI [of _ "[]"]) simp
  next
    case False
    then have cond: "cl_symbol c < of_nat N \<and> cl_space c > 0"
      using step_result_done [OF less.prems(1) assms(4)] by (simp add: lengths_done_def)
    show ?thesis
    proof (cases "BrotliCheckInputAmount br 4")
      case few: False
      then have "rscl_loop tbl (of_nat N) br c = Some (False, br, c)" using cond by (subst rscl_loop.simps) simp
      then show ?thesis using less.prems ok False by (intro exI [of _ False] exI [of _ br] exI [of _ c] exI [of _ "[]"]) simp
    next
      case True
      then have av: "4 \<le> avail_in br" by (simp add: BrotliCheckInputAmount_def)
      then have "8 \<le> length (br_bits br)" using length_br_bits [OF ok] by simp
      then obtain code x rest where t: "word_ok ws (code, x)" "br_bits br = length_word ws (code, x) @ rest"
        using long_stream_starts [OF assms(1)] unfolding starts_def by fastforce
      have cok: "code_ok (code, x)" using t(1) by (simp add: word_ok_def)
      obtain c1 where c1: "length_step (of_nat code) (of_nat x) (of_nat N) c = Some c1" "step_result N (len_step (code, x) S) c1"
        using code_step [OF less.prems(1) False cok assms(4)] by blast
      obtain b where b: "rscl_step tbl (of_nat N) br c = Some (b, c1)" "br_warm b" "br_bits b = rest"
        using rscl_step_word [OF assms(1) t(1) less.prems(2) av t(2) c1(1)] by blast
      have step: "rscl_loop tbl (of_nat N) br c = rscl_loop tbl (of_nat N) b c1"
        using cond True b(1) by (subst rscl_loop.simps) simp
      note o = step_result_open [OF less.prems(1) False]
      have "N - length (fst (len_step (code, x) S)) < N - length (fst S)"
        using code_step_grows [OF o(1) cok] o(2) by linarith
      from less.hyps [OF this c1(2) b(2)] obtain don b' c' ts where
        r: "rscl_loop tbl (of_nat N) b c1 = Some (don, b', c')" "br_ok b'"
        "codes_taken N ws (len_step (code, x) S) ts rest (br_bits b')" "step_result N (fold len_step ts (len_step (code, x) S)) c'"
        "don \<longleftrightarrow> lengths_full N (fst (fold len_step ts (len_step (code, x) S)))"
        unfolding b(3) by blast
      have "codes_taken N ws S ((code, x) # ts) (br_bits br) (br_bits b')"
        unfolding t(2) by (rule codes_taken_Cons [OF t(1) False r(3)])
      then show ?thesis using r step by (intro exI [of _ don] exI [of _ b'] exI [of _ c'] exI [of _ "(code, x) # ts"]) simp
    qed
  qed
qed

section \<open>The readers\<close>

text \<open>What the two readers leave, one after the other.\<close>

definition lengths_read :: "nat \<Rightarrow> code_words \<Rightarrow> len_state \<Rightarrow> HuffmanCode list \<Rightarrow> BrotliDecoderErrorCode \<Rightarrow> BrotliDecoderState \<Rightarrow> bool" where
  "lengths_read N ws S tbl r s \<longleftrightarrow>
     (if lengths_full N (fst S)
      then r = BROTLI_DECODER_SUCCESS \<and> (\<exists>c. step_result N S c \<and> h_space (d_header s) = cl_space c \<and>
        h_symbols_lists_array (d_header s) = cl_symbol_lists c \<and> h_code_length_histo (d_header s) = cl_histo c)
      else r = BROTLI_DECODER_NEEDS_MORE_INPUT \<and> h_table (d_header s) = tbl \<and> follows N S (lengths_of s) \<and> \<not> starts ws (s_bits s))"

lemma safe_reader_reads:
  assumes "window_table ws (h_table (d_header s))" and "step_result N S (lengths_of s)" and "s_ok s" and "N < 2 ^ 16"
  shows "\<exists>r s' ts. SafeReadSymbolCodeLengths (of_nat N) s = Some (r, s') \<and> s_ok s' \<and>
    codes_taken N ws S ts (s_bits s) (s_bits s') \<and> lengths_read N ws (fold len_step ts S) (h_table (d_header s)) r s'"
proof -
  from safe_loop_reads [OF assms] obtain don b c ts where
    l: "safe_rscl_loop (h_table (d_header s)) (of_nat N) False (d_br s) (lengths_of s) = Some (don, b, c)" "br_ok b"
    "codes_taken N ws S ts (s_bits s) (br_bits b)" "step_result N (fold len_step ts S) c"
    "don \<longleftrightarrow> lengths_full N (fst (fold len_step ts S))" "\<not> don \<longrightarrow> \<not> starts ws (br_bits b)" by blast
  define s' where "s' = h_upd (h_put_lengths c) (s\<lparr>d_br := b\<rparr>)"
  have "SafeReadSymbolCodeLengths (of_nat N) s =
      Some (if don then BROTLI_DECODER_SUCCESS else BROTLI_DECODER_NEEDS_MORE_INPUT, s')"
    using l(1) by (simp add: SafeReadSymbolCodeLengths_def lengths_of_def s'_def)
  moreover have "s_ok s'" "s_bits s' = br_bits b" using l(2) by (simp_all add: s'_def)
  moreover have "lengths_read N ws (fold len_step ts S) (h_table (d_header s))
      (if don then BROTLI_DECODER_SUCCESS else BROTLI_DECODER_NEEDS_MORE_INPUT) s'"
  proof (cases don)
    case True
    have "h_space (d_header s') = cl_space c" "h_symbols_lists_array (d_header s') = cl_symbol_lists c"
      "h_code_length_histo (d_header s') = cl_histo c" by (simp_all add: s'_def h_put_lengths_def h_put_arrays_def)
    then show ?thesis using True l(4,5) by (auto simp: lengths_read_def)
  next
    case False
    then have "follows N (fold len_step ts S) c" using step_result_open(1) [OF l(4)] l(5) by simp
    then show ?thesis using False l(5,6) by (simp add: lengths_read_def s'_def lengths_of_def lengths_of_put)
  qed
  ultimately show ?thesis using l(3) by metis
qed

lemma readers_read:
  assumes "window_table ws (h_table (d_header s))" and "follows N S (lengths_of s)" and "s_ok s" and "N < 2 ^ 16"
  shows "\<exists>r1 s1 r s' ts. ReadSymbolCodeLengths (of_nat N) s = Some (r1, s1) \<and>
    (if r1 = BROTLI_DECODER_NEEDS_MORE_INPUT then SafeReadSymbolCodeLengths (of_nat N) s1 else Some (r1, s1)) = Some (r, s') \<and>
    s_ok s' \<and> codes_taken N ws S ts (s_bits s) (s_bits s') \<and> lengths_read N ws (fold len_step ts S) (h_table (d_header s)) r s'"
proof -
  have start: "step_result N S (lengths_of s)"
    using assms(2) follows_inv [OF assms(2)] by (simp add: step_result_def lengths_inv_def)
  obtain b1 where b1: "BrotliWarmupBitReader (d_br s) = Some (s_bits s \<noteq> [], b1)" "br_ok b1" "br_bits b1 = s_bits s" "s_bits s \<noteq> [] \<longrightarrow> br_warm b1"
    using BrotliWarmupBitReader_spec [OF assms(3)] by blast
  have more: ?thesis if s1: "ReadSymbolCodeLengths (of_nat N) s = Some (BROTLI_DECODER_NEEDS_MORE_INPUT, s1)" "s_ok s1"
    "h_table (d_header s1) = h_table (d_header s)" "step_result N (fold len_step ts S) (lengths_of s1)"
    "codes_taken N ws S ts (s_bits s) (s_bits s1)" for s1 ts
  proof -
    have "window_table ws (h_table (d_header s1))" using assms(1) s1(3) by simp
    from safe_reader_reads [OF this s1(4,2) assms(4)] obtain r s' us where
      r: "SafeReadSymbolCodeLengths (of_nat N) s1 = Some (r, s')" "s_ok s'"
      "codes_taken N ws (fold len_step ts S) us (s_bits s1) (s_bits s')"
      "lengths_read N ws (fold len_step us (fold len_step ts S)) (h_table (d_header s)) r s'" unfolding s1(3) by blast
    have "codes_taken N ws S (ts @ us) (s_bits s) (s_bits s')" by (rule codes_taken_append [OF s1(5) r(3)])
    then show ?thesis using s1(1) r
      by (intro exI [of _ BROTLI_DECODER_NEEDS_MORE_INPUT] exI [of _ s1] exI [of _ r] exI [of _ s'] exI [of _ "ts @ us"]) simp
  qed
  show ?thesis
  proof (cases "s_bits s = []")
    case True
    define s1 where "s1 = s\<lparr>d_br := b1\<rparr>"
    have "ReadSymbolCodeLengths (of_nat N) s = Some (BROTLI_DECODER_NEEDS_MORE_INPUT, s1)"
      using b1(1) True by (simp add: ReadSymbolCodeLengths_def s1_def)
    then show ?thesis by (rule more [of _ "[]"]) (use b1 start in \<open>simp_all add: s1_def lengths_of_def\<close>)
  next
    case False
    then have w: "br_warm b1" using b1(4) by simp
    from fast_loop_reads [OF assms(1) start w assms(4)] obtain don b c ts where
      l: "rscl_loop (h_table (d_header s)) (of_nat N) b1 (lengths_of s) = Some (don, b, c)" "br_ok b"
      "codes_taken N ws S ts (s_bits s) (br_bits b)" "step_result N (fold len_step ts S) c"
      "don \<longleftrightarrow> lengths_full N (fst (fold len_step ts S))" unfolding b1(3) by blast
    show ?thesis
    proof (cases don)
      case True
      define s1 where "s1 = h_upd (\<lambda>h. (h_put_arrays c h)\<lparr>h_space := cl_space c\<rparr>) (s\<lparr>d_br := b\<rparr>)"
      have r: "ReadSymbolCodeLengths (of_nat N) s = Some (BROTLI_DECODER_SUCCESS, s1)"
        using b1(1) False l(1) True by (simp add: ReadSymbolCodeLengths_def s1_def lengths_of_def)
      have "h_space (d_header s1) = cl_space c" "h_symbols_lists_array (d_header s1) = cl_symbol_lists c"
        "h_code_length_histo (d_header s1) = cl_histo c" by (simp_all add: s1_def h_put_arrays_def)
      then have "lengths_read N ws (fold len_step ts S) (h_table (d_header s)) BROTLI_DECODER_SUCCESS s1"
        using l(4,5) True by (auto simp: lengths_read_def)
      moreover have "s_ok s1" "s_bits s1 = br_bits b" using l(2) by (simp_all add: s1_def)
      ultimately show ?thesis using r l(3)
        by (intro exI [of _ BROTLI_DECODER_SUCCESS] exI [of _ s1] exI [of _ BROTLI_DECODER_SUCCESS] exI [of _ s1] exI [of _ ts]) simp
    next
      case nd: False
      define s1 where "s1 = h_upd (h_put_lengths c) (s\<lparr>d_br := b\<rparr>)"
      have "ReadSymbolCodeLengths (of_nat N) s = Some (BROTLI_DECODER_NEEDS_MORE_INPUT, s1)"
        using b1(1) False l(1) nd by (simp add: ReadSymbolCodeLengths_def s1_def lengths_of_def)
      then show ?thesis by (rule more [of _ ts]) (use l in \<open>simp_all add: s1_def lengths_of_def lengths_of_put\<close>)
    qed
  qed
qed

text \<open>How the reader of a code answers to the lengths it has read.\<close>

definition code_answer :: "nat \<Rightarrow> code_words \<Rightarrow> len_state \<Rightarrow> nat \<Rightarrow> HuffmanCode list \<Rightarrow> HuffmanCode list \<Rightarrow>
    BrotliDecoderErrorCode \<Rightarrow> uint32 option \<Rightarrow> HuffmanCode list \<Rightarrow> BrotliDecoderState \<Rightarrow> bool" where
  "code_answer N ws S base table tbl r n t s \<longleftrightarrow>
     (if \<not> lengths_full N (fst S) then
        r = BROTLI_DECODER_NEEDS_MORE_INPUT \<and> n = None \<and> t = tbl \<and> \<not> starts ws (s_bits s) \<and>
        h_table (d_header s) = table \<and> follows N S (lengths_of s)
      else if complete_code (fst S) \<and> length (fst S) \<le> N then
        r = BROTLI_DECODER_SUCCESS \<and> n = Some (of_nat (table_cells (fst S))) \<and> decodes (fst S) base t \<and>
        frame base (base + table_cells (fst S)) tbl t
      else r = BROTLI_DECODER_ERROR_FORMAT_HUFFMAN_SPACE \<and> n = None \<and> t = tbl)"

lemma rhc_length_symbols_reads:
  assumes "window_table ws (h_table (d_header s))" and "follows N S (lengths_of s)" and "s_ok s" and "N < 2 ^ 16"
    and "room_for_codes N base (length tbl)"
  shows "\<exists>r n t s' ts. rhc_length_symbols (of_nat N) tbl base s = Some (r, n, t, s') \<and> s_ok s' \<and>
    codes_taken N ws S ts (s_bits s) (s_bits s') \<and>
    code_answer N ws (fold len_step ts S) base (h_table (d_header s)) tbl r n t s'"
proof -
  obtain r1 s1 r2 s2 ts where r: "ReadSymbolCodeLengths (of_nat N) s = Some (r1, s1)"
    "(if r1 = BROTLI_DECODER_NEEDS_MORE_INPUT then SafeReadSymbolCodeLengths (of_nat N) s1 else Some (r1, s1)) = Some (r2, s2)"
    "s_ok s2" "codes_taken N ws S ts (s_bits s) (s_bits s2)" "lengths_read N ws (fold len_step ts S) (h_table (d_header s)) r2 s2"
    using readers_read [OF assms(1-4)] by blast
  define ls where "ls = fst (fold len_step ts S)"
  note run = rhc_length_symbols_def r(1) bind.bind_lunit prod.case r(2)
  show ?thesis
  proof (cases "lengths_full N ls")
    case False
    then have "r2 = BROTLI_DECODER_NEEDS_MORE_INPUT" "h_table (d_header s2) = h_table (d_header s)"
      "follows N (fold len_step ts S) (lengths_of s2)" "\<not> starts ws (s_bits s2)"
      using r(5) by (simp_all add: lengths_read_def ls_def)
    moreover from this have "rhc_length_symbols (of_nat N) tbl base s = Some (BROTLI_DECODER_NEEDS_MORE_INPUT, None, tbl, s2)"
      unfolding run by simp
    moreover from calculation have "code_answer N ws (fold len_step ts S) base (h_table (d_header s)) tbl BROTLI_DECODER_NEEDS_MORE_INPUT None tbl s2"
      using False by (simp add: code_answer_def ls_def)
    ultimately show ?thesis using r(3,4) by blast
  next
    case True
    obtain c where c: "r2 = BROTLI_DECODER_SUCCESS" "step_result N (fold len_step ts S) c" "h_space (d_header s2) = cl_space c"
      "h_symbols_lists_array (d_header s2) = cl_symbol_lists c" "h_code_length_histo (d_header s2) = cl_histo c"
      using r(5) True by (auto simp: lengths_read_def ls_def)
    show ?thesis
    proof (cases "complete_code ls \<and> length ls \<le> N")
      case False
      have "cl_space c \<noteq> 0"
      proof (cases "length ls \<le> N")
        case True
        then have "lengths_inv N ls c" using c(2) follows_inv [of N _ c] by (simp add: step_result_def ls_def)
        then show ?thesis using space_left [OF _ assms(4)] False True by simp
      next
        case False
        then show ?thesis using c(2) by (simp add: step_result_def overrun_def ls_def)
      qed
      then have "rhc_length_symbols (of_nat N) tbl base s = Some (BROTLI_DECODER_ERROR_FORMAT_HUFFMAN_SPACE, None, tbl, s2)"
        unfolding run using c(1,3) by simp
      moreover have "code_answer N ws (fold len_step ts S) base (h_table (d_header s)) tbl BROTLI_DECODER_ERROR_FORMAT_HUFFMAN_SPACE None tbl s2"
        unfolding code_answer_def ls_def [symmetric] using True False by simp
      ultimately show ?thesis using r(3,4) by blast
    next
      case ok: True
      have inv: "lengths_inv N ls c" using c(2) ok follows_inv [of N _ c] by (simp add: step_result_def ls_def)
      then have sp: "cl_space c = 0" using space_left [OF _ assms(4)] ok by simp
      note code = lengths_complete [OF inv assms(4) sp]
      have room: "base + table_cells ls \<le> length tbl" using assms(5) ok by (simp add: room_for_codes_def)
      obtain t histo where t: "BrotliBuildHuffmanTable tbl base 8 (cl_symbol_lists c) (cl_histo c) = Some (of_nat (table_cells ls), t, histo)"
        "frame base (base + table_cells ls) tbl t" "table_ok ls base t"
        using BrotliBuildHuffmanTable_spec [OF code room] by blast
      have "base + table_cells ls \<le> length t" "length ls < 2 ^ 16" using t(2) ok assms(4) room by (simp_all add: frame_def)
      then have d: "decodes ls base t" using ok by (intro decodesI [OF _ t(3)]) simp_all
      define s3 where "s3 = h_upd (\<lambda>h. h\<lparr>h_code_length_histo := histo, h_substate_huffman := BROTLI_STATE_HUFFMAN_NONE\<rparr>) s2"
      have "rhc_length_symbols (of_nat N) tbl base s = Some (BROTLI_DECODER_SUCCESS, Some (of_nat (table_cells ls)), t, s3)"
        unfolding run using c(1,3-5) sp t(1) by (simp add: s3_def)
      moreover have "s_ok s3" "s_bits s3 = s_bits s2" using r(3) by (simp_all add: s3_def)
      ultimately show ?thesis using r(4) t(2) d True ok
        by (intro exI [of _ BROTLI_DECODER_SUCCESS] exI [of _ "Some (of_nat (table_cells ls))"] exI [of _ t] exI [of _ s3] exI [of _ ts])
          (simp add: code_answer_def ls_def)
    qed
  qed
qed

section \<open>The claim\<close>

text \<open>C9: Reading the code lengths of a prefix code, from any stream and in any state between two lengths, takes whole
  codes of the code-length code from the stream, one by one, and stops as soon as the lengths they give are those of a
  complete code or reach the end of the alphabet.  Lengths of a complete code within the alphabet are accepted, with a
  table that decodes that code; any other lengths that fill the alphabet are reported as a format error; and if
  the stream ends first, what is left of it does not begin with a whole code, the table of the code-length code is
  kept, and the variables follow the codes taken, so that the next call goes on from there.  This holds across the
  fast and the safe loop.  The table must have the entry of its word for each five-bit window, and the array of the
  new table must have room for every complete code over the alphabet.\<close>

theorem code_lengths_reading_correct:
  assumes "window_table ws (h_table (d_header s))" and "follows N S (lengths_of s)" and "s_ok s" and "N < 2 ^ 16"
    and "room_for_codes N base (length tbl)"
  shows "\<exists>r n t s' ts. rhc_length_symbols (of_nat N) tbl base s = Some (r, n, t, s') \<and> s_ok s' \<and>
    list_all (word_ok ws) ts \<and> s_bits s = length_words ws ts @ s_bits s' \<and>
    (\<forall>k < length ts. \<not> lengths_full N (fst (fold len_step (take k ts) S))) \<and>
    (if \<not> lengths_full N (fst (fold len_step ts S)) then
       r = BROTLI_DECODER_NEEDS_MORE_INPUT \<and> n = None \<and> t = tbl \<and> \<not> starts ws (s_bits s') \<and>
       h_table (d_header s') = h_table (d_header s) \<and> follows N (fold len_step ts S) (lengths_of s')
     else if complete_code (fst (fold len_step ts S)) \<and> length (fst (fold len_step ts S)) \<le> N then
       r = BROTLI_DECODER_SUCCESS \<and> n = Some (of_nat (table_cells (fst (fold len_step ts S)))) \<and>
       decodes (fst (fold len_step ts S)) base t \<and>
       frame base (base + table_cells (fst (fold len_step ts S))) tbl t
     else r = BROTLI_DECODER_ERROR_FORMAT_HUFFMAN_SPACE \<and> n = None \<and> t = tbl)"
  using rhc_length_symbols_reads [OF assms] unfolding codes_taken_def code_answer_def by blast

text \<open>A code-length code of two words, for the lengths 3 and 4, and no length read yet.\<close>

definition sample_words :: code_words where
  "sample_words = [3 \<mapsto> [False], 4 \<mapsto> [True]]"

definition length_sample :: BrotliDecoderState where
  "length_sample = h_upd (\<lambda>h. h\<lparr>h_table := map (\<lambda>i. ConstructHuffmanCode 1 (if even i then 3 else 4)) [0..<32],
     h_code_length_histo := replicate 16 0,
     h_next_symbol := map (\<lambda>l. int l - 16) [0..<16] @ replicate 16 0, h_symbols_lists_array := replicate 16 0xFFFF @ replicate 704 0,
     h_symbol := 0, h_prev_code_len := 8, h_repeat := 0, h_repeat_code_len := 0, h_space := 32768\<rparr>) (with_input [0xFF, 1, 2])"

lemma length_sample_fields:
  "lengths_inv 26 [] (lengths_of length_sample)" "s_ok length_sample" "window_table sample_words (h_table (d_header length_sample))"
proof -
  have "lengths_of length_sample = \<lparr>cl_symbol = 0, cl_repeat = 0, cl_space = 32768, cl_prev_code_len = 8, cl_repeat_code_len = 0,
    cl_symbol_lists = replicate 16 0xFFFF @ replicate 704 0, cl_histo = replicate 16 0,
    cl_next_symbol = map (\<lambda>l. int l - 16) [0..<16] @ replicate 16 0\<rparr>"
    by (simp add: lengths_of_def h_lengths_def length_sample_def)
  then show "lengths_inv 26 [] (lengths_of length_sample)"
    by (simp add: lengths_inv_start nth_append)
  show "s_ok length_sample" using with_input_ok by (simp add: length_sample_def)
  have bit0: "take (Suc 0) (val_bits 5 W) = [odd W]" for W by (simp add: val_bits_def upt_rec bit_0)
  have "even (W mod 32) = even W" for W :: nat by (simp add: even_mod_2_iff dvd_mod_iff)
  moreover have "\<exists>k w. sample_words k = Some w \<and> take (length w) (val_bits 5 W) = w" for W
    by (rule exI [of _ "if even W then 3 else 4"]) (simp add: sample_words_def bit0)
  ultimately show "window_table sample_words (h_table (d_header length_sample))"
    unfolding window_table_def by (auto simp: sample_words_def length_sample_def bit0 simp del: upt_rec_numeral split: if_splits)
qed

lemma length_sample_follows: "follows 26 len_start (lengths_of length_sample)"
  using length_sample_fields(1) by (simp add: follows_def len_start_def lengths_of_def h_lengths_def length_sample_def)

lemma code_lengths_reading_correct_witness:
  "\<exists>r n t s' ts. rhc_length_symbols (of_nat 26) sample_cells 100 length_sample = Some (r, n, t, s') \<and> s_ok s' \<and>
    list_all (word_ok sample_words) ts \<and> s_bits length_sample = length_words sample_words ts @ s_bits s' \<and>
    (\<forall>k < length ts. \<not> lengths_full 26 (fst (fold len_step (take k ts) len_start))) \<and>
    (if \<not> lengths_full 26 (fst (fold len_step ts len_start)) then
       r = BROTLI_DECODER_NEEDS_MORE_INPUT \<and> n = None \<and> t = sample_cells \<and> \<not> starts sample_words (s_bits s') \<and>
       h_table (d_header s') = h_table (d_header length_sample) \<and> follows 26 (fold len_step ts len_start) (lengths_of s')
     else if complete_code (fst (fold len_step ts len_start)) \<and> length (fst (fold len_step ts len_start)) \<le> 26 then
       r = BROTLI_DECODER_SUCCESS \<and> n = Some (of_nat (table_cells (fst (fold len_step ts len_start)))) \<and>
       decodes (fst (fold len_step ts len_start)) 100 t \<and>
       frame 100 (100 + table_cells (fst (fold len_step ts len_start))) sample_cells t
     else r = BROTLI_DECODER_ERROR_FORMAT_HUFFMAN_SPACE \<and> n = None \<and> t = sample_cells)"
  by (rule code_lengths_reading_correct [OF length_sample_fields(3) length_sample_follows length_sample_fields(2) _ sample_cells_room_for])
    simp

end
