(* ===== verification/Code_Length_Roundtrip.thy ===== *)
theory Code_Length_Roundtrip
  imports Code_Length_Code Huffman_Properties Enc_Tree_Rounds
begin

text \<open>
  A whole prefix code on the wire: what \<open>BrotliStoreHuffmanTree\<close> writes for the depths of a code,
  \<open>ReadHuffmanCode\<close> reads back, and the table it builds decodes that code.
\<close>

section \<open>Writing the run-length form\<close>

text \<open>The depths and symbols with which the words are written.\<close>

definition writes_words :: "code_words \<Rightarrow> uint8 list \<Rightarrow> uint16 list \<Rightarrow> bool" where
  "writes_words ws bitdepth symbols \<longleftrightarrow> (\<forall>k w. ws k = Some w \<longrightarrow> k \<le> 17 \<and> k < length bitdepth \<and> k < length symbols \<and>
     length w \<le> 5 \<and> unat (bitdepth ! k) = length w \<and> unat (symbols ! k) = bits_val w)"

lemma store_rle_symbol_spec:
  assumes "writes_words ws bitdepth symbols" and "word_ok ws (unat ix, unat extra)" and "room st (8 + m)"
  shows "\<exists>st'. store_rle_symbol bitdepth symbols ix extra st = Some st' \<and>
    written st' = written st @ length_word ws (unat ix, unat extra) \<and> room st' m"
proof -
  obtain w where w: "ws (unat ix) = Some w" using assms(2) by (auto simp: word_ok_def)
  have k: "unat ix \<le> 17" "unat ix < length bitdepth" "unat ix < length symbols" "length w \<le> 5"
    "unat (bitdepth ! unat ix) = length w" "unat (symbols ! unat ix) = bits_val w"
    using assms(1) w by (simp_all add: writes_words_def)
  have "8 + m = length w + (8 - length w + m)" using k(4) by simp
  then have "room st (length w + (8 - length w + m))" using assms(3) by simp
  from le64.wr_nat [OF this _ bits_val_less [of w]] k(4) obtain s1 where
    s1: "BrotliWriteBits (length w) (of_nat (bits_val w)) st = Some s1" "written s1 = written st @ w" "room s1 (8 - length w + m)" by auto
  have word: "ucast (symbols ! unat ix) = (of_nat (bits_val w) :: uint64)" unfolding k(6) [symmetric] by simp
  have ext: "unat extra \<le> 7" "unat ix = 16 \<longrightarrow> unat extra < 4" using assms(2) by (simp_all add: word_ok_def code_ok_def)
  have ix: "ix = 16 \<longleftrightarrow> unat ix = 16" "ix = 17 \<longleftrightarrow> unat ix = 17" by (auto simp: word_unat_eq_iff)
  define e where "e = extra_width (unat ix)"
  have e: "e \<le> 3" "unat ix = 16 \<or> unat ix = 17 \<Longrightarrow> unat extra < 2 ^ e" using ext by (auto simp: e_def extra_width_def)
  have "8 - length w + m = e + (8 - length w - e + m)" using e(1) k(4) by simp
  note room = s1(3) [unfolded this]
  have "\<exists>s2. (if ix = 16 then BrotliWriteBits 2 (ucast extra) s1 else if ix = 17 then BrotliWriteBits 3 (ucast extra) s1 else Some s1) = Some s2 \<and>
      written s2 = written s1 @ val_bits e (unat extra) \<and> room s2 m"
  proof (cases "unat ix = 16 \<or> unat ix = 17")
    case True
    have "e \<le> 56" using e(1) by simp
    from le64.wr_nat [OF room this e(2) [OF True]] obtain s2 where
      s2: "BrotliWriteBits e (of_nat (unat extra)) s1 = Some s2" "written s2 = written s1 @ val_bits e (unat extra)" "room s2 (8 - length w - e + m)"
      by blast
    have "room s2 m" by (rule room_mono [OF s2(3)]) simp
    moreover have "(if ix = 16 then BrotliWriteBits 2 (ucast extra) s1 else if ix = 17 then BrotliWriteBits 3 (ucast extra) s1 else Some s1) =
        BrotliWriteBits e (of_nat (unat extra)) s1" using True by (auto simp: ix e_def extra_width_def)
    ultimately show ?thesis using s2(1,2) by simp
  next
    case False
    then have "e = 0" by (simp add: e_def extra_width_def)
    moreover have "room s1 m" by (rule room_mono [OF s1(3)]) simp
    ultimately show ?thesis using False by (simp add: ix val_bits_def)
  qed
  then show ?thesis using k(2,3,5) s1(1,2) by (auto simp: store_rle_symbol_def word length_word_def w e_def)
qed

lemma rle_tokens_nth:
  assumes "i < rle_size b" and "rle_size b \<le> length (rle_tree b)" and "rle_size b \<le> length (rle_extra b)"
  shows "rle_tokens b ! i = (unat (rle_tree b ! i), unat (rle_extra b ! i))" and "length (rle_tokens b) = rle_size b"
  using assms by (simp_all add: rle_tokens_def)

lemma StoreHuffmanTreeToBitMask_spec:
  assumes "writes_words ws bitdepth symbols" and "list_all (word_ok ws) (rle_tokens b)"
    and "rle_size b \<le> length (rle_tree b)" and "rle_size b \<le> length (rle_extra b)" and "room st (8 * rle_size b + r)"
  shows "\<exists>st'. BrotliStoreHuffmanTreeToBitMask (rle_size b) (rle_tree b) (rle_extra b) bitdepth symbols st = Some st' \<and>
    written st' = written st @ length_words ws (rle_tokens b) \<and> room st' r"
proof -
  define n where "n = rle_size b"
  have len: "length (rle_tokens b) = n" using assms(3,4) by (simp add: rle_tokens_def n_def)
  have "\<exists>st'. foldM (\<lambda>i st. do { ix \<leftarrow> arr_get (rle_tree b) i; x \<leftarrow> arr_get (rle_extra b) i; store_rle_symbol bitdepth symbols ix x st }) [0..<n] st =
      Some st' \<and> (written st' = written st @ length_words ws (take n (rle_tokens b)) \<and> room st' (8 * (n - n) + r))"
  proof (rule foldM_upt [where P = "\<lambda>i s. written s = written st @ length_words ws (take i (rle_tokens b)) \<and> room s (8 * (n - i) + r)"])
    show "written st = written st @ length_words ws (take 0 (rle_tokens b)) \<and> room st (8 * (n - 0) + r)" using assms(5) by (simp add: n_def)
  next
    fix i s assume i: "0 \<le> i" "i < n" and s: "written s = written st @ length_words ws (take i (rle_tokens b)) \<and> room s (8 * (n - i) + r)"
    define ix x where "ix = rle_tree b ! i" and "x = rle_extra b ! i"
    have t: "rle_tokens b ! i = (unat ix, unat x)" using rle_tokens_nth(1) [OF _ assms(3,4)] i(2) by (simp add: ix_def x_def n_def)
    have ok: "word_ok ws (unat ix, unat x)" using assms(2) i(2) t len by (metis list_all_length)
    have "8 * (n - i) + r = 8 + (8 * (n - Suc i) + r)" using i(2) by simp
    then have "room s (8 + (8 * (n - Suc i) + r))" using s by metis
    from store_rle_symbol_spec [OF assms(1) ok this] obtain s' where
      s': "store_rle_symbol bitdepth symbols ix x s = Some s'" "written s' = written s @ length_word ws (unat ix, unat x)"
      "room s' (8 * (n - Suc i) + r)" by blast
    have "take (Suc i) (rle_tokens b) = take i (rle_tokens b) @ [(unat ix, unat x)]" using i(2) len t by (simp add: take_Suc_conv_app_nth)
    then have "written s' = written st @ length_words ws (take (Suc i) (rle_tokens b))" using s s'(2) by simp
    moreover have "arr_get (rle_tree b) i = Some ix" "arr_get (rle_extra b) i = Some x" using assms(3,4) i(2) by (simp_all add: n_def ix_def x_def)
    ultimately show "\<exists>s'. do { ix \<leftarrow> arr_get (rle_tree b) i; x \<leftarrow> arr_get (rle_extra b) i; store_rle_symbol bitdepth symbols ix x s } = Some s' \<and>
        written s' = written st @ length_words ws (take (Suc i) (rle_tokens b)) \<and> room s' (8 * (n - Suc i) + r)"
      using s'(1,3) by simp
  qed simp
  then show ?thesis using len by (simp add: BrotliStoreHuffmanTreeToBitMask_def n_def)
qed

section \<open>Reading\<close>

text \<open>A state in which the code of a tree can be read: the sizes of its arrays.\<close>

definition arena_ok :: "nat \<Rightarrow> BrotliMetablockHeaderArena \<Rightarrow> bool" where
  "arena_ok N h \<longleftrightarrow> 32 \<le> length (h_table h) \<and> 16 + N \<le> length (h_symbols_lists_array h) \<and> 16 \<le> length (h_next_symbol h) \<and>
     6 \<le> length (h_code_length_histo h)"

lemma start_lists:
  assumes "16 \<le> length ns" and "16 \<le> length sl"
  shows "\<exists>ns' sl'. foldM (\<lambda>i (ns, sl). do {
           ns \<leftarrow> arr_set ns i (int i - 16);
           sl \<leftarrow> symbol_list_set sl (int i - 16) 0xFFFF;
           Some (ns, sl) }) [0..<16] (ns, sl) = Some (ns', sl') \<and> length ns' = length ns \<and> length sl' = length sl \<and>
    (\<forall>l < 16. ns' ! l = int l - 16 \<and> sl' ! l = 0xFFFF)"
proof -
  have "\<exists>st. foldM (\<lambda>i (ns, sl). do {
           ns \<leftarrow> arr_set ns i (int i - 16);
           sl \<leftarrow> symbol_list_set sl (int i - 16) 0xFFFF;
           Some (ns, sl) }) [0..<16] (ns, sl) = Some st \<and> (length (fst st) = length ns \<and> length (snd st) = length sl \<and>
    (\<forall>l < 16. fst st ! l = int l - 16 \<and> snd st ! l = 0xFFFF))"
  proof (rule foldM_upt [where P = "\<lambda>i st. length (fst st) = length ns \<and> length (snd st) = length sl \<and>
      (\<forall>l < i. fst st ! l = int l - 16 \<and> snd st ! l = 0xFFFF)"])
    fix i and st :: "int list \<times> uint16 list"
    assume i: "0 \<le> i" "i < 16" and st: "length (fst st) = length ns \<and> length (snd st) = length sl \<and>
      (\<forall>l < i. fst st ! l = int l - 16 \<and> snd st ! l = 0xFFFF)"
    obtain a b where ab: "st = (a, b)" by (cases st)
    have "symbol_list_set b (int i - 16) 0xFFFF = Some (b[i := 0xFFFF])" "arr_set a i (int i - 16) = Some (a[i := int i - 16])"
      using st i assms by (simp_all add: ab symbol_list_set_def arr_seti_def)
    then show "\<exists>st'. (case st of (ns, sl) \<Rightarrow> do { ns \<leftarrow> arr_set ns i (int i - 16);
           sl \<leftarrow> symbol_list_set sl (int i - 16) 0xFFFF; Some (ns, sl) }) = Some st' \<and>
        (length (fst st') = length ns \<and> length (snd st') = length sl \<and> (\<forall>l < Suc i. fst st' ! l = int l - 16 \<and> snd st' ! l = 0xFFFF))"
      using st i assms by (auto simp: ab nth_list_update less_Suc_eq)
  qed simp_all
  then show ?thesis by auto
qed

text \<open>The code of the code lengths, then the lengths.\<close>

lemma rhc_complex_words:
  assumes "length_code lens ws" and "code_span lens skip m" and "list_all (word_ok ws) ts"
    and "codes_read lens skip 0 32 (d_header s)" and "h_sub_loop_counter (d_header s) = of_nat skip"
    and "h_repeat (d_header s) = 0" and "h_space (d_header s) = 32" and "arena_ok N (d_header s)" and "s_ok s"
    and "s_bits s = fixed_words lens skip m @ length_words ws ts @ rest"
    and "fst (fold len_step ts len_start) = ls" and "N < 2 ^ 16" and "complete_code ls" and "List.last ls \<noteq> 0" and "length ls \<le> N"
    and "base + table_cells ls \<le> length tbl"
  shows "\<exists>t s'. rhc_complex (of_nat N) tbl base s = Some (BROTLI_DECODER_SUCCESS, Some (of_nat (table_cells ls)), t, s') \<and>
    frame base (base + table_cells ls) tbl t \<and> decodes ls base t \<and> s_ok s' \<and> s_bits s' = rest"
proof -
  have short: "short_lens lens" using assms(1) by (simp add: length_code_def)
  have span: "skip < m" "stops_at lens m" "rest_unused lens m" "skip < 4" using assms(2) by (auto simp: code_span_def)
  have m18: "m \<le> 18" using span(2) by (simp add: stops_at_def)
  from rclcl_loop_words [OF short span(2) _ assms(4,9,10)] span(1) obtain n space s1 where
    s1: "rclcl_loop skip 0 32 s = Some (True, n, space, s1)" "codes_read lens m n space (d_header s1)" "s_ok s1"
    "s_bits s1 = length_words ws ts @ rest" "same_tables s s1" by blast
  note all = codes_read_all [OF short s1(2) span(3)]
  have fine: "n = 1 \<or> space = 0"
  proof (cases "complete_code lens")
    case True
    then have "used_space lens m = 32" using used_space_complete [OF short] rest_unused_space [OF span(3) m18] by simp
    then show ?thesis using s1(2) by (simp add: codes_read_def)
  next
    case False
    then obtain k where "lone_code lens k" using assms(1) by (auto simp: length_code_def)
    then have "{k. k < 18 \<and> lens ! k \<noteq> 0} = {k}" by (auto simp: lone_code_def)
    then show ?thesis using all(3) by simp
  qed
  have "unat (of_nat skip :: uint32) = skip" using span(4) by (simp add: unat_of_nat_small)
  then have read: "ReadCodeLengthCodeLengths s = Some (BROTLI_DECODER_SUCCESS, s1)"
    using s1(1) fine assms(5-7) by (simp add: ReadCodeLengthCodeLengths_def)
  note same = s1(5) [unfolded same_tables_def]
  have ar: "32 \<le> length (h_table (d_header s1))" "16 + N \<le> length (h_symbols_lists_array (d_header s1))" "16 \<le> length (h_next_symbol (d_header s1))"
    using assms(8) same by (simp_all add: arena_ok_def)
  have "\<exists>t. BrotliBuildCodeLengthsHuffmanTable (h_table (d_header s1)) (h_code_length_code_lengths (d_header s1)) (h_code_length_histo (d_header s1)) =
      Some t \<and> window_table ws t"
  proof (cases "complete_code lens")
    case True
    then have ws: "ws = code_words lens" using assms(1) complete_not_lone [OF short True] by (auto simp: length_code_def)
    show ?thesis using build_complete [OF True short all(1,2) complete_many [OF short True] ar(1)] unfolding ws by blast
  next
    case False
    then obtain k where k: "lone_code lens k" "ws = single_word k" using assms(1) by (auto simp: length_code_def)
    then have "k < 18" "\<forall>j < 18. lens ! j = 0 \<longleftrightarrow> j \<noteq> k" by (simp_all add: lone_code_def)
    from build_single [OF short all(1,2) this ar(1)] show ?thesis unfolding k(2) by blast
  qed
  then obtain table where table: "BrotliBuildCodeLengthsHuffmanTable (h_table (d_header s1)) (h_code_length_code_lengths (d_header s1))
      (h_code_length_histo (d_header s1)) = Some table" "window_table ws table" by blast
  have "16 \<le> length (h_symbols_lists_array (d_header s1))" using ar(2) by simp
  from start_lists [OF ar(3) this] obtain ns sl where
    l: "foldM (\<lambda>i (ns, sl). do {
           ns \<leftarrow> arr_set ns i (int i - 16);
           sl \<leftarrow> symbol_list_set sl (int i - 16) 0xFFFF;
           Some (ns, sl) }) [0..<16] (h_next_symbol (d_header s1), h_symbols_lists_array (d_header s1)) = Some (ns, sl)"
    "length ns = length (h_next_symbol (d_header s1))" "length sl = length (h_symbols_lists_array (d_header s1))"
    "\<forall>l < 16. ns ! l = int l - 16 \<and> sl ! l = 0xFFFF" by blast
  define s2 where "s2 = h_upd (\<lambda>h. h\<lparr>h_table := table, h_code_length_histo := replicate 16 0,
            h_next_symbol := ns, h_symbols_lists_array := sl,
            h_symbol := 0, h_prev_code_len := 8, h_repeat := 0, h_repeat_code_len := 0,
            h_space := 32768, h_substate_huffman := BROTLI_STATE_HUFFMAN_LENGTH_SYMBOLS\<rparr>) s1"
  have run: "rhc_complex (of_nat N) tbl base s = rhc_length_symbols (of_nat N) tbl base s2"
    unfolding rhc_complex_def read bind.bind_lunit prod.case s2_def using table(1) l(1) by simp
  have "lengths_of s2 = \<lparr>cl_symbol = 0, cl_repeat = 0, cl_space = 32768, cl_prev_code_len = 8, cl_repeat_code_len = 0,
    cl_symbol_lists = sl, cl_histo = replicate 16 0, cl_next_symbol = ns\<rparr>"
    by (simp add: s2_def lengths_of_def h_lengths_def)
  moreover have "16 + N \<le> length sl" "16 \<le> length ns" using l(2,3) ar(2,3) by simp_all
  moreover have "\<forall>j \<in> {1..15}. sl ! j = 0xFFFF \<and> ns ! j = int j - 16" using l(4) by auto
  ultimately have "lengths_inv N [] (lengths_of s2)" "unat (cl_prev_code_len (lengths_of s2)) = 8"
    "cl_repeat (lengths_of s2) = 0" "cl_repeat_code_len (lengths_of s2) = 0" using lengths_inv_start [of N sl ns] by simp_all
  then have start: "follows N len_start (lengths_of s2)" by (simp add: follows_def len_start_def)
  have "window_table ws (h_table (d_header s2))" "s_ok s2" "s_bits s2 = length_words ws ts @ rest"
    using table(2) s1(3,4) by (simp_all add: s2_def)
  from rhc_length_symbols_words [OF this(1) assms(3) this(2,3) start assms(11-16)] show ?thesis unfolding run .
qed

text \<open>A complex code: two bits tell where its lengths start.\<close>

lemma ReadHuffmanCode_words:
  assumes "length_code lens ws" and "code_span lens skip m" and "list_all (word_ok ws) ts"
    and "h_substate_huffman (d_header s) = BROTLI_STATE_HUFFMAN_NONE" and "arena_ok N (d_header s)" and "s_ok s"
    and "s_bits s = val_bits 2 skip @ fixed_words lens skip m @ length_words ws ts @ rest"
    and "fst (fold len_step ts len_start) = ls" and "N < 2 ^ 16" and "complete_code ls" and "List.last ls \<noteq> 0" and "length ls \<le> N"
    and "base + table_cells ls \<le> length tbl"
  shows "\<exists>t s'. ReadHuffmanCode alphabet_max (of_nat N) tbl base s = Some (BROTLI_DECODER_SUCCESS, Some (of_nat (table_cells ls)), t, s') \<and>
    frame base (base + table_cells ls) tbl t \<and> decodes ls base t \<and> s_ok s' \<and> s_bits s' = rest"
proof -
  have skip: "skip \<in> {0, 2, 3}" "\<And>k. k \<in> stored_codes skip \<Longrightarrow> lens ! k = 0" using assms(2) by (auto simp: code_span_def)
  have u2: "unat (2 :: uint32) = 2" by simp
  have s4: "skip < 2 ^ 2" using skip(1) by auto
  have "(0 :: uint32) < 2 \<and> (2 :: uint32) \<le> 32" by simp
  with assms(6) obtain v br where r: "s_read s 2 = Some (Some v, s\<lparr>d_br := br\<rparr>)" "br_ok br" "unat v = bits_val (take 2 (s_bits s))"
    "br_bits br = drop 2 (s_bits s)"
  proof (cases rule: s_read_cases)
    case (short br)
    then show ?thesis using assms(7) by simp
  qed (use that u2 in simp)
  have "unat v = skip" using r(3) s4 by (simp add: assms(7))
  then have v: "v = of_nat skip" by (rule word_of_natI)
  have ne: "(of_nat skip :: uint32) \<noteq> 1" using skip(1) by auto
  define s1 where "s1 = h_upd (\<lambda>h. h\<lparr>h_space := 32, h_repeat := 0,
                    h_code_length_histo := replicate 6 0 @ drop 6 (h_code_length_histo h),
                    h_code_length_code_lengths := replicate BROTLI_CODE_LENGTH_CODES 0,
                    h_substate_huffman := BROTLI_STATE_HUFFMAN_COMPLEX\<rparr>)
                 (h_upd (\<lambda>h. h\<lparr>h_sub_loop_counter := of_nat skip\<rparr>) (s\<lparr>d_br := br\<rparr>))"
  have run: "ReadHuffmanCode alphabet_max (of_nat N) tbl base s = rhc_complex (of_nat N) tbl base s1"
    unfolding ReadHuffmanCode_def assms(4) BrotliRunningHuffmanState.case rhc_none_def r(1) v bind.bind_lunit prod.case option.case Let_def if_P [OF ne] s1_def ..
  have six: "6 \<le> length (h_code_length_histo (d_header s))" using assms(5) by (simp add: arena_ok_def)
  have read: "codes_read lens skip 0 32 (d_header s1)"
    using codes_read_start [OF skip(2) six] by (simp add: s1_def codes_read_def)
  have f: "h_sub_loop_counter (d_header s1) = of_nat skip" "h_repeat (d_header s1) = 0" "h_space (d_header s1) = 32" "arena_ok N (d_header s1)"
    "s_ok s1" "s_bits s1 = fixed_words lens skip m @ length_words ws ts @ rest"
    using assms(5) six r(2,4) by (simp_all add: s1_def arena_ok_def assms(7))
  from rhc_complex_words [OF assms(1-3) read f assms(8-13)] show ?thesis unfolding run .
qed

section \<open>The histogram of the codes\<close>

lemma rle_histogram_spec:
  assumes "rle_size b \<le> length (rle_tree b)" and "rle_size b \<le> length (rle_extra b)" and "\<forall>t \<in> set (rle_tokens b). fst t < 18"
    and "rle_size b < 2 ^ 32"
  shows "\<exists>h. rle_histogram (rle_tree b) (rle_size b) = Some h \<and> length h = 18 \<and>
    (\<forall>k < 18. unat (h ! k) = length (filter (\<lambda>t. fst t = k) (rle_tokens b)))"
proof -
  define n where "n = rle_size b"
  define ts where "ts = rle_tokens b"
  have len: "length ts = n" using assms(1,2) by (simp add: rle_tokens_def n_def ts_def)
  have "\<exists>h. foldM (\<lambda>i h. do { x \<leftarrow> arr_get (rle_tree b) i; c \<leftarrow> arr_get h (unat x); arr_set h (unat x) (c + 1) }) [0..<n] (replicate 18 (0 :: uint32)) = Some h \<and>
      (length h = 18 \<and> (\<forall>k < 18. unat (h ! k) = length (filter (\<lambda>t. fst t = k) (take n ts))))"
  proof (rule foldM_upt [where P = "\<lambda>i h. length h = 18 \<and> (\<forall>k < 18. unat (h ! k) = length (filter (\<lambda>t. fst t = k) (take i ts)))"])
    fix i and h :: "uint32 list"
    assume i: "0 \<le> i" "i < n" and h: "length h = 18 \<and> (\<forall>k < 18. unat (h ! k) = length (filter (\<lambda>t. fst t = k) (take i ts)))"
    define x where "x = rle_tree b ! i"
    have t: "ts ! i = (unat x, unat (rle_extra b ! i))"
      using rle_tokens_nth(1) [OF _ assms(1,2)] i(2) by (simp add: x_def n_def ts_def)
    have "ts ! i \<in> set ts" using i(2) len by simp
    then have x: "unat x < 18" using assms(3) t by (auto simp: ts_def)
    have get: "arr_get (rle_tree b) i = Some x" using assms(1) i(2) by (simp add: x_def n_def)
    have "length (filter (\<lambda>t. fst t = unat x) (take i ts)) \<le> i" using length_filter_le [of _ "take i ts"] by (simp add: order_trans)
    then have "unat (h ! unat x) + 1 < 2 ^ 32" using h x i(2) assms(4) by (simp add: n_def)
    then have inc: "unat (h ! unat x + 1) = unat (h ! unat x) + 1" by (simp add: unat_word_ariths)
    have snoc: "take (Suc i) ts = take i ts @ [(unat x, unat (rle_extra b ! i))]" using i(2) len t by (simp add: take_Suc_conv_app_nth)
    have "\<forall>k < 18. unat (h[unat x := h ! unat x + 1] ! k) = length (filter (\<lambda>t. fst t = k) (take (Suc i) ts))"
      using h x inc by (auto simp: snoc nth_list_update)
    then show "\<exists>h'. do { x \<leftarrow> arr_get (rle_tree b) i; c \<leftarrow> arr_get h (unat x); arr_set h (unat x) (c + 1) } = Some h' \<and>
        length h' = 18 \<and> (\<forall>k < 18. unat (h' ! k) = length (filter (\<lambda>t. fst t = k) (take (Suc i) ts)))"
      using get h x by simp
  qed simp_all
  then show ?thesis using len by (auto simp: rle_histogram_def n_def ts_def)
qed

lemma count_codes_one: "count_codes hs i 1 code = (if \<forall>h \<in> set hs. h = 0 then 1 else 2, code)"
  by (induction hs arbitrary: i) simp_all

lemma count_codes_none:
  "count_codes hs i 0 code = (case filter (\<lambda>k. hs ! k \<noteq> 0) [0..<length hs] of [] \<Rightarrow> (0, code) | [k] \<Rightarrow> (1, i + k) | k # _ # _ \<Rightarrow> (2, i + k))"
proof (induction hs arbitrary: i)
  case (Cons h hs)
  have upt: "[0..<length (h # hs)] = 0 # map Suc [0..<length hs]" by (simp add: upt_conv_Cons map_Suc_upt del: upt_Suc)
  have f: "filter (\<lambda>k. (h # hs) ! k \<noteq> 0) [0..<length (h # hs)] =
      (if h \<noteq> 0 then [0] else []) @ map Suc (filter (\<lambda>k. hs ! k \<noteq> 0) [0..<length hs])"
    unfolding upt by (simp add: filter_map comp_def)
  show ?case
  proof (cases "h = 0")
    case True
    then show ?thesis unfolding f using Cons.IH [of "i + 1"] by (simp split: list.splits)
  next
    case False
    have "(\<forall>h \<in> set hs. h = 0) \<longleftrightarrow> filter (\<lambda>k. hs ! k \<noteq> 0) [0..<length hs] = []"
      unfolding filter_empty_conv all_set_conv_all_nth [of hs] by auto
    then show ?thesis unfolding f using False
      by (cases "filter (\<lambda>k. hs ! k \<noteq> 0) [0..<length hs]") (simp_all add: count_codes_one [unfolded One_nat_def] del: upt_Suc)
  qed
qed simp

lemma count_codes_used:
  assumes "length h = 18"
  shows "fst (count_codes h 0 0 0) > 1 \<longleftrightarrow> 2 \<le> length (used_symbols h 18)"
    and "fst (count_codes h 0 0 0) = 1 \<longleftrightarrow> length (used_symbols h 18) = 1"
    and "used_symbols h 18 = [k] \<Longrightarrow> count_codes h 0 0 0 = (1, k)"
proof -
  define L where "L = filter (\<lambda>k. h ! k \<noteq> 0) [0..<length h]"
  have u: "used_symbols h 18 = rev L" by (simp add: used_symbols_def rev_filter assms L_def)
  have c: "count_codes h 0 0 0 = (case L of [] \<Rightarrow> (0, 0) | [k] \<Rightarrow> (1, k) | k # _ # _ \<Rightarrow> (2, k))"
    unfolding L_def count_codes_none [of h 0 0] add_0 ..
  show "fst (count_codes h 0 0 0) > 1 \<longleftrightarrow> 2 \<le> length (used_symbols h 18)"
    "fst (count_codes h 0 0 0) = 1 \<longleftrightarrow> length (used_symbols h 18) = 1"
    unfolding c u length_rev by (cases L rule: remdups_adj.cases; simp)+
  show "used_symbols h 18 = [k] \<Longrightarrow> count_codes h 0 0 0 = (1, k)" unfolding c u by (simp add: rev_swap)
qed

section \<open>The writer of a complex code\<close>

text \<open>The words of the codes in use, and how they are written.\<close>

lemma lone_symbols:
  "list_all (\<lambda>k. case BrotliConvertBitDepthsToSymbols ((replicate 18 0)[k := 1]) 18 (replicate 18 0) of
     Some bits \<Rightarrow> length bits = 18 \<and> bits ! k = 0 | None \<Rightarrow> False) [0..<18]"
  by code_simp

lemma length_code_of_depths:
  assumes "depths_for h 18 5 bitdepth" and "length bitdepth = 18" and "length h = 18" and "used_symbols h 18 \<noteq> []"
  shows "\<exists>ws symbols. length_code (map unat bitdepth) ws \<and> (2 \<le> length (used_symbols h 18) \<longleftrightarrow> complete_code (map unat bitdepth)) \<and>
    BrotliConvertBitDepthsToSymbols bitdepth 18 (replicate 18 0) = Some symbols \<and> (\<forall>k < 18. h ! k \<noteq> 0 \<longrightarrow> ws k \<noteq> None) \<and>
    writes_words ws (if length (used_symbols h 18) = 1 then bitdepth[hd (used_symbols h 18) := 0] else bitdepth) symbols"
proof -
  define lens where "lens = map unat bitdepth"
  have len: "length lens = 18" by (simp add: lens_def assms(2))
  note d = assms(1) [unfolded depths_for_def]
  have short: "short_lens lens" using d len by (simp add: short_lens_def list_all_length lens_def)
  have used: "lens ! k \<noteq> 0 \<longleftrightarrow> h ! k \<noteq> 0" if "k < 18" for k using d that assms(2) by (simp add: lens_def unat_eq_zero)
  show ?thesis
  proof (cases "length (used_symbols h 18) = 1")
    case True
    then obtain k where k: "used_symbols h 18 = [k]" by (cases "used_symbols h 18") auto
    have "set (used_symbols h 18) = {k}" by (simp add: k)
    then have k1: "j < 18 \<and> h ! j \<noteq> 0 \<longleftrightarrow> j = k" for j by (auto simp: used_symbols_def)
    then have k18: "k < 18" by blast
    have lone: "lone_code lens k" using used k1 k18 unfolding lone_code_def by blast
    have b: "bitdepth = (replicate 18 0)[k := 1]"
    proof (rule nth_equalityI)
      fix j assume j: "j < length bitdepth"
      then have "j < 18" by (simp add: assms(2))
      then show "bitdepth ! j = (replicate 18 0)[k := 1] ! j" using d k1 [of j] True k18 by (cases "j = k") simp_all
    qed (simp add: assms(2))
    have "k \<in> set [0..<18]" using k18 by (simp del: upt_rec_numeral)
    from lone_symbols [unfolded list_all_iff, rule_format, OF this] obtain symbols where
      s: "BrotliConvertBitDepthsToSymbols bitdepth 18 (replicate 18 0) = Some symbols" "length symbols = 18" "symbols ! k = 0"
      unfolding b [symmetric] by (auto split: option.splits)
    have "writes_words (single_word k) (bitdepth[k := 0]) symbols"
      using k18 s(2,3) assms(2) by (simp add: writes_words_def single_word_def)
    moreover have "length_code lens (single_word k)" using short lone by (auto simp: length_code_def)
    moreover have "\<not> complete_code lens" using complete_not_lone [OF short] lone by blast
    moreover have "\<forall>j < 18. h ! j \<noteq> 0 \<longrightarrow> single_word k j \<noteq> None" using k1 by (auto simp: single_word_def)
    ultimately show ?thesis using s(1) k by (intro exI [of _ "single_word k"] exI [of _ symbols]) (simp add: lens_def)
  next
    case False
    then have many: "2 \<le> length (used_symbols h 18)" using assms(4) by (cases "used_symbols h 18" rule: remdups_adj.cases) simp_all
    have cc: "complete_code lens" using d False assms(2) by (simp add: lens_def)
    have l: "lens = map unat (take 18 bitdepth)" by (simp add: lens_def assms(2))
    obtain symbols where s: "BrotliConvertBitDepthsToSymbols bitdepth 18 (replicate 18 0) = Some symbols"
      using BrotliConvertBitDepthsToSymbols_spec [OF l _ cc, of "replicate 18 0"] len assms(2) by auto
    have enc: "encodes lens bitdepth symbols"
      by (rule encodes_convert [OF l _ cc _ _ s]) (simp_all add: len assms(2))
    have "writes_words (code_words lens) bitdepth symbols"
      unfolding writes_words_def
    proof (intro allI impI)
      fix k w assume "code_words lens k = Some w"
      then have h: "has_code lens k" and w: "w = code_bits lens k" by (auto simp: code_words_def split: if_splits)
      then have k: "k < 18" "0 < lens ! k" using len by (simp_all add: has_code_def)
      have l5: "lens ! k \<le> 5" by (rule short_lens_nth [OF short k(1)])
      have e: "k < length symbols" "unat (bitdepth ! k) = lens ! k" "symbols ! k = of_nat (rev_bits (lens ! k) (code_of lens k))"
        using enc k len by (auto simp: encodes_def)
      have lt: "rev_bits (lens ! k) (code_of lens k) < 2 ^ (lens ! k)" by (rule rev_bits_less)
      also have "(2::nat) ^ (lens ! k) \<le> 2 ^ 5" by (rule power_increasing) (use l5 in simp_all)
      finally have "unat (symbols ! k) = rev_bits (lens ! k) (code_of lens k)" unfolding e(3) by (intro unat_of_nat_small) simp
      also have "\<dots> = bits_val w" by (simp add: rev_bits_def code_bits_def w)
      finally show "k \<le> 17 \<and> k < length bitdepth \<and> k < length symbols \<and> length w \<le> 5 \<and> unat (bitdepth ! k) = length w \<and>
          unat (symbols ! k) = bits_val w" using k(1) e l5 by (simp add: w assms(2))
    qed
    moreover have "length_code lens (code_words lens)" using short cc by (simp add: length_code_def)
    moreover have "\<forall>k < 18. h ! k \<noteq> 0 \<longrightarrow> code_words lens k \<noteq> None" using used len by (simp add: code_words_def has_code_def)
    ultimately show ?thesis using s cc many False by (intro exI [of _ "code_words lens"] exI [of _ symbols]) (simp add: lens_def)
  qed
qed

text \<open>All that \<open>BrotliStoreHuffmanTree\<close> writes.\<close>

definition complex_code :: "nat list \<Rightarrow> bits \<Rightarrow> bool" where
  "complex_code ls w \<longleftrightarrow> (\<exists>lens ws skip m ts. length_code lens ws \<and> code_span lens skip m \<and> list_all (word_ok ws) ts \<and>
     fst (fold len_step ts len_start) = ls \<and> w = val_bits 2 skip @ fixed_words lens skip m @ length_words ws ts)"

lemma code_counts_fit:
  assumes "length h = 18" and "data_sum h 18 \<le> 704"
  shows "counts_fit h 18 5"
proof -
  define n where "n = length (used_symbols h 18)"
  have n: "n \<le> 18" using length_filter_le [of _ "rev [0..<18::nat]"] by (simp add: n_def used_symbols_def del: upt_rec_numeral)
  have f: "fibonacci (5 + 3) = 21" by code_simp
  have "data_sum h 18 div round_slack 5 n \<le> 704" using assms(2) div_le_dividend by (rule order_trans [rotated])
  then have "2 * n * (data_sum h 18 div round_slack 5 n) \<le> 2 * 18 * 704" using n by (intro mult_le_mono) simp_all
  then show ?thesis using assms(2) n unfolding counts_fit_def n_def [symmetric] f by simp
qed

lemma data_sum_tokens:
  assumes "\<forall>k < 18. unat (h ! k) = length (filter (\<lambda>t. fst t = k) (ts :: (nat \<times> nat) list))"
  shows "data_sum h 18 \<le> length ts"
proof -
  have "(\<Sum>k\<leftarrow>xs. unat (h ! k)) = length (filter (\<lambda>t. fst t \<in> set xs) ts)" if "distinct xs" "\<forall>k \<in> set xs. k < 18" for xs
    using that
  proof (induction xs)
    case (Cons k xs)
    have "length (filter (\<lambda>t. fst t \<in> set (k # xs)) us) = length (filter (\<lambda>t. fst t = k) us) + length (filter (\<lambda>t. fst t \<in> set xs) us)" for us :: "(nat \<times> nat) list"
      using Cons.prems(1) by (induction us) auto
    note split = this [of ts]
    show ?case unfolding split using Cons assms by simp
  qed simp
  moreover have "distinct (used_symbols h 18)" "\<forall>k \<in> set (used_symbols h 18). k < 18" by (simp_all add: used_symbols_def del: upt_rec_numeral)
  ultimately show ?thesis by (simp add: data_sum_def)
qed

lemma BrotliStoreHuffmanTree_spec:
  assumes "num \<le> length depths" and "num \<le> 704" and "complete_code (map unat (take num depths))" and "37 \<le> length tree"
    and "room st (74 + 8 * num + r)"
  shows "\<exists>tree' st' w. BrotliStoreHuffmanTree depths num tree st = Some (tree', st') \<and> length tree' = length tree \<and>
    written st' = written st @ w \<and> room st' r \<and> complex_code (strip_zeros (map unat (take num depths))) w"
proof -
  define lens where "lens = map unat (take num depths)"
  define b0 where "b0 = \<lparr>rle_size = 0, rle_tree = replicate BROTLI_NUM_COMMAND_SYMBOLS (0 :: uint8),
    rle_extra = replicate BROTLI_NUM_COMMAND_SYMBOLS (0 :: uint8)\<rparr>"
  have "\<forall>d \<in> set (take num depths). unat d < 16"
    using assms(3) by (auto simp: complete_code_def list_all_iff intro: le_imp_less_Suc)
  from BrotliWriteHuffmanTree_spec [OF assms(1) this, of b0] assms(2) obtain b p rr ll where
    b: "BrotliWriteHuffmanTree depths num b0 = Some b" "rle_size b \<le> num" "rle_size b \<le> length (rle_tree b)" "rle_size b \<le> length (rle_extra b)"
    "\<forall>t \<in> set (rle_tokens b). code_ok t" "fold len_step (rle_tokens b) len_start = (strip_zeros lens, p, rr, ll)"
    unfolding lens_def by (auto simp: b0_def)
  have ts: "length (rle_tokens b) = rle_size b" using b(3,4) by (simp add: rle_tokens_def)
  have ne: "rle_tokens b \<noteq> []"
  proof
    assume "rle_tokens b = []"
    then have "strip_zeros lens = []" using b(6) by (simp add: len_start_def)
    then obtain k where "lens = replicate k 0" using strip_zeros_append [of lens] by auto
    then have z: "(\<Sum>l\<leftarrow>lens. if l = 0 then 0 else 2 ^ (15 - l)) = (0 :: nat)" "list_all (\<lambda>l. l \<le> 15) lens"
      by (simp_all add: list_all_iff sum_list_replicate)
    have "complete_code lens" using assms(3) unfolding lens_def .
    then show False using z(1) unfolding complete_code_sum [OF z(2)] z(1) by simp
  qed
  have codes: "\<forall>t \<in> set (rle_tokens b). fst t < 18" using b(5) by (fastforce simp: code_ok_def)
  have "rle_size b < 2 ^ 32" using b(2) assms(2) by simp
  from rle_histogram_spec [OF b(3,4) codes this] obtain h where
    h: "rle_histogram (rle_tree b) (rle_size b) = Some h" "length h = 18" "\<forall>k < 18. unat (h ! k) = length (filter (\<lambda>t. fst t = k) (rle_tokens b))"
    by blast
  have used: "h ! fst t \<noteq> 0" if "t \<in> set (rle_tokens b)" for t
  proof
    assume "h ! fst t = 0"
    then have "filter (\<lambda>u. fst u = fst t) (rle_tokens b) = []" using h(3) codes that by (metis length_0_conv unat_0)
    then show False using that by (auto simp: filter_empty_conv)
  qed
  have some: "used_symbols h 18 \<noteq> []"
    using used [of "hd (rle_tokens b)"] codes ne by (auto simp: used_symbols_def filter_empty_conv simp del: upt_rec_numeral)
  have "data_sum h 18 \<le> 704" using data_sum_tokens [OF h(3)] ts b(2) assms(2) by simp
  then have fit: "counts_fit h 18 5" by (rule code_counts_fit [OF h(2)])
  have "length (used_symbols h 18) \<le> 18" using length_filter_le [of _ "rev [0..<18::nat]"] by (simp add: used_symbols_def del: upt_rec_numeral)
  then have "rounds_ready h 18 5 tree (replicate 18 0)" using h(2) assms(4) by (simp add: rounds_ready_def)
  from BrotliCreateHuffmanTree_spec [OF this fit some] obtain tree' bitdepth where
    d: "BrotliCreateHuffmanTree h 18 5 tree (replicate 18 0) = Some (tree', bitdepth)" "length tree' = length tree" "length bitdepth = 18"
    "depths_for h 18 5 bitdepth" by auto
  from length_code_of_depths [OF d(4,3) h(2) some] obtain ws symbols where
    ws: "length_code (map unat bitdepth) ws" "2 \<le> length (used_symbols h 18) \<longleftrightarrow> complete_code (map unat bitdepth)"
    "BrotliConvertBitDepthsToSymbols bitdepth 18 (replicate 18 0) = Some symbols" "\<forall>k < 18. h ! k \<noteq> 0 \<longrightarrow> ws k \<noteq> None"
    "writes_words ws (if length (used_symbols h 18) = 1 then bitdepth[hd (used_symbols h 18) := 0] else bitdepth) symbols" by blast
  obtain num_codes code where cc: "count_codes h 0 0 0 = (num_codes, code)" by (cases "count_codes h 0 0 0")
  have nc: "num_codes > 1 \<longleftrightarrow> complete_code (map unat bitdepth)" "num_codes = 1 \<longleftrightarrow> length (used_symbols h 18) = 1"
    using count_codes_used(1,2) [OF h(2)] ws(2) by (simp_all add: cc)
  have bit: "(if num_codes = 1 then arr_set bitdepth code 0 else Some bitdepth) =
      Some (if length (used_symbols h 18) = 1 then bitdepth[hd (used_symbols h 18) := 0] else bitdepth)"
  proof (cases "num_codes = 1")
    case True
    then obtain k where k: "used_symbols h 18 = [k]" using nc(2) by (cases "used_symbols h 18") auto
    have "k \<in> set (used_symbols h 18)" by (simp add: k)
    then have "k < 18" by (simp add: used_symbols_def)
    then show ?thesis using count_codes_used(3) [OF h(2) k] True k d(3) by (simp add: cc)
  qed (use nc(2) in simp)
  have words: "list_all (word_ok ws) (rle_tokens b)"
    using b(5) used codes ws(4) by (auto simp: list_all_iff word_ok_def)
  have l18: "18 \<le> length bitdepth" "map unat (take 18 bitdepth) = map unat bitdepth" using d(3) by simp_all
  have "74 + 8 * num + r = 74 + (8 * num + r)" by simp
  note room = assms(5) [unfolded this]
  from StoreHuffmanTreeOfHuffmanTree_spec [OF ws(1) l18 nc(1) room] obtain skip m st1 where
    s1: "BrotliStoreHuffmanTreeOfHuffmanTreeToBitMask num_codes bitdepth st = Some st1" "code_span (map unat bitdepth) skip m"
    "written st1 = written st @ val_bits 2 skip @ fixed_words (map unat bitdepth) skip m" "room st1 (8 * num + r)" by blast
  have "room st1 (8 * rle_size b + r)" by (rule room_mono [OF s1(4)]) (use b(2) in simp)
  from StoreHuffmanTreeToBitMask_spec [OF ws(5) words b(3,4) this] obtain st2 where
    s2: "BrotliStoreHuffmanTreeToBitMask (rle_size b) (rle_tree b) (rle_extra b)
      (if length (used_symbols h 18) = 1 then bitdepth[hd (used_symbols h 18) := 0] else bitdepth) symbols st1 = Some st2"
    "written st2 = written st1 @ length_words ws (rle_tokens b)" "room st2 r" by blast
  have "BrotliStoreHuffmanTree depths num tree st = Some (tree', st2)"
    unfolding BrotliStoreHuffmanTree_def b0_def [symmetric] b(1) bind.bind_lunit h(1) cc prod.case Let_def
      d(1) ws(3) s1(1) bit s2(1) ..
  moreover have "complex_code (strip_zeros lens) (val_bits 2 skip @ fixed_words (map unat bitdepth) skip m @ length_words ws (rle_tokens b))"
    unfolding complex_code_def using ws(1) s1(2) words b(6)
    by (intro exI [of _ "map unat bitdepth"] exI [of _ ws] exI [of _ skip] exI [of _ m] exI [of _ "rle_tokens b"]) simp
  ultimately show ?thesis using d(2) s2(2,3) s1(3) unfolding lens_def by (intro exI conjI) (assumption | simp)+
qed

text \<open>Zeros at the end belong to the code but are not written.\<close>

lemma syms_zeros: "0 < j \<Longrightarrow> syms (ls @ replicate k 0) j = syms ls j"
proof (induction k)
  case (Suc k)
  have "ls @ replicate (Suc k) 0 = (ls @ replicate k 0) @ [0]" by (simp add: replicate_append_same)
  then show ?case using Suc by (simp only: syms_snoc) simp
qed simp

lemma first_code_zeros: "first_code (ls @ replicate k 0) l = first_code ls l"
  by (induction l) (simp_all add: syms_zeros)

lemma complete_zeros: "complete_code (ls @ replicate k 0) \<longleftrightarrow> complete_code ls"
  by (auto simp: complete_code_def first_code_zeros syms_zeros list_all_iff)

lemma code_bits_zeros:
  assumes "s < length ls"
  shows "code_bits (ls @ replicate k 0) s = code_bits ls s"
proof -
  have "filter (\<lambda>t. (ls @ replicate k 0) ! t = (ls @ replicate k 0) ! s) [0..<s] = filter (\<lambda>t. ls ! t = ls ! s) [0..<s]"
    using assms by (intro filter_cong) (simp_all add: nth_append)
  then show ?thesis using assms by (simp add: code_bits_def code_of_def first_code_zeros nth_append)
qed

lemma find_append: "find P (xs @ ys) = (case find P xs of None \<Rightarrow> find P ys | Some x \<Rightarrow> Some x)"
  by (induction xs) simp_all

lemma decode_code_zeros: "decode_code (ls @ replicate k 0) bs = decode_code ls bs"
proof -
  define P where "P lens s \<longleftrightarrow> 0 < lens ! s \<and> take (lens ! s) bs = code_bits lens s" for lens s
  have same: "P (ls @ replicate k 0) s \<longleftrightarrow> P ls s" if "s < length ls" for s using that by (simp add: P_def code_bits_zeros nth_append)
  have none: "find (P (ls @ replicate k 0)) [length ls..<length ls + k] = None"
    unfolding find_None_iff by (simp add: P_def nth_append)
  have "[0..<length (ls @ replicate k 0)] = [0..<length ls] @ [length ls..<length ls + k]"
    using upt_add_eq_append [of 0 "length ls" k] by simp
  then have "find (P (ls @ replicate k 0)) [0..<length (ls @ replicate k 0)] = find (P (ls @ replicate k 0)) [0..<length ls]"
    using none by (cases "find (P (ls @ replicate k 0)) [0..<length ls]") (simp_all only: find_append option.case)
  also have "\<dots> = find (P ls) [0..<length ls]" by (rule find_cong) (simp_all add: same)
  finally have f: "find (P (ls @ replicate k 0)) [0..<length (ls @ replicate k 0)] = find (P ls) [0..<length ls]" .
  have "(ls @ replicate k 0) ! s = ls ! s" if "find (P ls) [0..<length ls] = Some s" for s
    using that by (auto simp: find_Some_iff nth_append)
  then show ?thesis using f unfolding decode_code_def P_def [symmetric] by (cases "find (P ls) [0..<length ls]") simp_all
qed

lemma decodes_zeros:
  assumes "decodes ls base t" and "length ls + k < 2 ^ 16"
  shows "decodes (ls @ replicate k 0) base t"
  using assms by (simp add: decodes_def complete_zeros symbol_result_def decode_code_zeros)

end
