(* ===== verification/Code_Length_Properties.thy ===== *)
theory Code_Length_Properties
  imports Code_Length_Roundtrip Code_Length_Reading
begin

text \<open>
  The claims about the encoder's Huffman codes: building one from a histogram, coding its lengths as runs,
  and sending it to the decoder.
\<close>

section \<open>A code from the encoder to the decoder\<close>

lemma strip_zeros_last: "strip_zeros ls \<noteq> [] \<Longrightarrow> List.last (strip_zeros ls) \<noteq> 0"
  using hd_dropWhile [of "\<lambda>l. l = 0" "rev ls"] by (simp add: strip_zeros_def last_rev)

lemma stored_code_is_read:
  assumes "complete_code (map unat (take num depths))" and "num \<le> length depths" and "num \<le> 704" and "num \<le> N" and "N < 2 ^ 16"
    and "room_for_codes N base (length tbl)" and "complex_code (strip_zeros (map unat (take num depths))) w"
    and "h_substate_huffman (d_header s) = BROTLI_STATE_HUFFMAN_NONE" and "arena_ok N (d_header s)" and "s_ok s" and "s_bits s = w @ rest"
  shows "\<exists>n t s'. ReadHuffmanCode alphabet_max (of_nat N) tbl base s = Some (BROTLI_DECODER_SUCCESS, Some n, t, s') \<and>
    decodes (map unat (take num depths)) base t \<and> s_ok s' \<and> s_bits s' = rest"
proof -
  define ls where "ls = strip_zeros (map unat (take num depths))"
  obtain k where k: "map unat (take num depths) = ls @ replicate k 0"
    using strip_zeros_append [of "map unat (take num depths)"] unfolding ls_def by blast
  have "length (ls @ replicate k 0) = num" unfolding k [symmetric] using assms(2) by simp
  then have len: "length ls + k = num" by simp
  have cc: "complete_code ls" using assms(1) unfolding k complete_zeros .
  have "ls \<noteq> []"
  proof
    assume "ls = []"
    then show False using cc complete_code_sum [of "[]"] by simp
  qed
  then have nz: "List.last ls \<noteq> 0" unfolding ls_def by (rule strip_zeros_last)
  have "length ls \<le> N" using len assms(4) by simp
  moreover have "base + table_cells ls \<le> length tbl" using assms(6) cc calculation by (simp add: room_for_codes_def)
  moreover obtain lens ws skip m ts where ts: "length_code lens ws" "code_span lens skip m" "list_all (word_ok ws) ts"
    "fst (fold len_step ts len_start) = ls" "w = val_bits 2 skip @ fixed_words lens skip m @ length_words ws ts"
    using assms(7) unfolding complex_code_def ls_def [symmetric] by blast
  moreover have "s_bits s = val_bits 2 skip @ fixed_words lens skip m @ length_words ws ts @ rest" using assms(11) ts(5) by simp
  ultimately obtain t s' where t: "ReadHuffmanCode alphabet_max (of_nat N) tbl base s =
      Some (BROTLI_DECODER_SUCCESS, Some (of_nat (table_cells ls)), t, s')" "decodes ls base t" "s_ok s'" "s_bits s' = rest"
    using ReadHuffmanCode_words [OF ts(1-3) assms(8-10) _ ts(4) assms(5) cc nz, of rest base tbl alphabet_max] by blast
  have "decodes (map unat (take num depths)) base t" unfolding k by (rule decodes_zeros [OF t(2)]) (use len assms(3) in simp)
  then show ?thesis using t by blast
qed

text \<open>C2: A Huffman code that the encoder stores is the code the decoder reads: whatever the lengths of a
  complete code over at most 704 symbols, \<open>BrotliStoreHuffmanTree\<close> terminates and appends bits from which
  \<open>ReadHuffmanCode\<close>, in any state before a code and whatever follows, builds a table that decodes exactly the
  code of these lengths, and it stops where the code ends.\<close>

theorem huffman_code_roundtrip:
  assumes "complete_code (map unat (take num depths))" and "num \<le> length depths" and "num \<le> 704" and "num \<le> N" and "N < 2 ^ 16"
    and "37 \<le> length tree" and "room st (74 + 8 * num + r)" and "room_for_codes N base (length tbl)"
  shows "\<exists>tree' st' w. BrotliStoreHuffmanTree depths num tree st = Some (tree', st') \<and>
    written st' = written st @ w \<and> room st' r \<and>
    (\<forall>s rest. h_substate_huffman (d_header s) = BROTLI_STATE_HUFFMAN_NONE \<longrightarrow> arena_ok N (d_header s) \<longrightarrow>
       s_ok s \<longrightarrow> s_bits s = w @ rest \<longrightarrow>
       (\<exists>n t s'. ReadHuffmanCode alphabet_max (of_nat N) tbl base s = Some (BROTLI_DECODER_SUCCESS, Some n, t, s') \<and>
          decodes (map unat (take num depths)) base t \<and> s_ok s' \<and> s_bits s' = rest))"
  using BrotliStoreHuffmanTree_spec [OF assms(2,3,1,6,7)] stored_code_is_read [OF assms(1-5,8)] by blast

lemma sample_depths:
  "complete_code (map unat (take 11 (map of_nat sample_lens :: uint8 list)))" "11 \<le> length (map of_nat sample_lens :: uint8 list)"
proof -
  have "map unat (take 11 (map of_nat sample_lens :: uint8 list)) = sample_lens" by (simp add: sample_lens_def)
  then show "complete_code (map unat (take 11 (map of_nat sample_lens :: uint8 list)))" using sample_code by simp
qed (simp add: sample_lens_def)

lemma huffman_code_roundtrip_witness:
  "\<exists>tree' st' w. BrotliStoreHuffmanTree (map of_nat sample_lens) 11 (replicate 53 tree_sentinel) \<lparr>storage_ix = 0, storage = replicate 100 0\<rparr> = Some (tree', st') \<and>
    written st' = written \<lparr>storage_ix = 0, storage = replicate 100 0\<rparr> @ w \<and> room st' 0 \<and>
    (\<forall>s rest. h_substate_huffman (d_header s) = BROTLI_STATE_HUFFMAN_NONE \<longrightarrow> arena_ok 26 (d_header s) \<longrightarrow>
       s_ok s \<longrightarrow> s_bits s = w @ rest \<longrightarrow>
       (\<exists>n t s'. ReadHuffmanCode 26 (of_nat 26) sample_cells 100 s = Some (BROTLI_DECODER_SUCCESS, Some n, t, s') \<and>
          decodes (map unat (take 11 (map of_nat sample_lens :: uint8 list))) 100 t \<and> s_ok s' \<and> s_bits s' = rest))"
  by (rule huffman_code_roundtrip [OF sample_depths _ _ _ _ _ sample_cells_room_for])
    (simp_all add: room_def storage_ok_def)

section \<open>Lengths as runs\<close>

text \<open>C6: Coding code lengths as runs loses nothing: whatever the depths, \<open>BrotliWriteHuffmanTree\<close> terminates, emits at
  most as many codes as there are lengths, and the decoder's steps for single and repeated lengths
  (\<open>ProcessSingleCodeLength\<close>, \<open>ProcessRepeatedCodeLength\<close>), taken over these codes, rebuild the lengths up to the
  zeros at their end.\<close>

theorem code_length_runs_lossless:
  assumes "len \<le> length depth" and "\<forall>d \<in> set (take len depth). unat d < 16"
    and "rle_size b = 0" and "len \<le> length (rle_tree b)" and "len \<le> length (rle_extra b)"
    and "lengths_inv N [] c" and "cl_prev_code_len c = 8" and "cl_repeat c = 0" and "cl_repeat_code_len c = 0"
    and "len \<le> N" and "N < 2 ^ 16"
  shows "\<exists>b' c'. BrotliWriteHuffmanTree depth len b = Some b' \<and> rle_size b' \<le> len \<and>
    foldM (\<lambda>(code, x). length_step (of_nat code) (of_nat x) (of_nat N)) (rle_tokens b') c = Some c' \<and>
    lengths_inv N (strip_zeros (map unat (take len depth))) c'"
proof -
  from BrotliWriteHuffmanTree_spec [OF assms(1-5)] obtain b' p r l where
    b': "BrotliWriteHuffmanTree depth len b = Some b'" "rle_size b' \<le> len" "\<forall>t \<in> set (rle_tokens b'). code_ok t"
    "fold len_step (rle_tokens b') len_start = (strip_zeros (map unat (take len depth)), p, r, l)" by blast
  have start: "follows N len_start c" using assms(6-9) by (simp add: follows_def len_start_def)
  obtain k where "map unat (take len depth) = strip_zeros (map unat (take len depth)) @ replicate k 0"
    using strip_zeros_append [of "map unat (take len depth)"] by blast
  then have "length (map unat (take len depth)) = length (strip_zeros (map unat (take len depth)) @ replicate k 0)" by (rule arg_cong)
  then have "length (strip_zeros (map unat (take len depth))) \<le> N" using assms(1,10) by simp
  then have "length (fst (fold len_step (rle_tokens b') len_start)) \<le> N" by (simp add: b'(4))
  from length_steps_follow [OF start b'(3) this assms(11)] show ?thesis using b' by (auto simp: follows_def)
qed

lemma code_length_runs_lossless_witness:
  "\<exists>b' c'. BrotliWriteHuffmanTree [3, 3, 3, 3, 3, 0, 0, 0, 0, 2, 0] 11 \<lparr>rle_size = 0, rle_tree = replicate 11 0, rle_extra = replicate 11 0\<rparr> = Some b' \<and> rle_size b' \<le> 11 \<and>
    foldM (\<lambda>(code, x). length_step (of_nat code) (of_nat x) (of_nat 26)) (rle_tokens b') (lengths_of length_sample) = Some c' \<and>
    lengths_inv 26 (strip_zeros (map unat (take 11 [3, 3, 3, 3, 3, 0, 0, 0, 0, 2, 0 :: uint8]))) c'"
  by (rule code_length_runs_lossless)
    (use length_sample_fields(1) in \<open>simp_all add: lengths_of_def h_lengths_def length_sample_def\<close>)

section \<open>A code from a histogram\<close>

text \<open>C5: \<open>BrotliCreateHuffmanTree\<close> always ends, although it starts over with larger counts for as long as the tree is too
  deep, and it returns depths within the limit, zero exactly for the symbols that do not occur, which are the lengths
  of a complete code, or the one depth 1 if only one symbol occurs.  Its conditions, for a limit of 1..15, arrays of the size of
  the alphabet and an alphabet below \<open>2 ^ 14\<close>, where \<open>k\<close> symbols occur and \<open>S\<close> is the sum of their counts: \<open>k\<close> is not 0;
  the scratch array has more than \<open>2 k\<close> nodes; the depths of symbols that do not occur start as zero; \<open>k\<close> is below the
  Fibonacci number \<open>F\<close> of the limit plus 3 (21 for the limit 5 of the code-length code, which has 18 symbols, and 2584 for
  the limit 15, more than any alphabet; with 40 symbols and limit 5 no code exists, so no round can succeed); and
  \<open>S + 2 k (S div (F - k))\<close>, a bound of the counts raised to the count limit of the last round, is below the sentinel's
  count \<open>2 ^ 32 - 1\<close>.\<close>

theorem create_huffman_tree_correct:
  assumes "used_symbols data len \<noteq> []" and "0 < limit" and "limit \<le> 15" and "len \<le> length data" and "len < 2 ^ 14"
    and "len \<le> length depth" and "\<forall>i < len. data ! i = 0 \<longrightarrow> depth ! i = 0" and "2 * length (used_symbols data len) < length tree"
    and "length (used_symbols data len) < fibonacci (limit + 3)"
    and "data_sum data len + 2 * length (used_symbols data len) *
      (data_sum data len div (fibonacci (limit + 3) - length (used_symbols data len))) < 2 ^ 32 - 1"
  shows "\<exists>tree' depth'. BrotliCreateHuffmanTree data len (int limit) tree depth = Some (tree', depth') \<and> length tree' = length tree \<and>
    length depth' = length depth \<and> (\<forall>i. len \<le> i \<longrightarrow> depth' ! i = depth ! i) \<and>
    (\<forall>i < len. (depth' ! i = 0 \<longleftrightarrow> data ! i = 0) \<and> unat (depth' ! i) \<le> limit) \<and>
    (if length (used_symbols data len) = 1 then \<forall>i < len. data ! i \<noteq> 0 \<longrightarrow> depth' ! i = 1
     else complete_code (map unat (take len depth')))"
proof -
  have "rounds_ready data len limit tree depth" using assms(3-8) by (simp add: rounds_ready_def)
  moreover have "counts_fit data len limit" using assms(9,10) by (simp add: counts_fit_def round_slack_def)
  ultimately show ?thesis using BrotliCreateHuffmanTree_spec [OF _ _ assms(1,2)] unfolding depths_for_def by blast
qed

text \<open>Counts that grow so fast that the first trees are deeper than 5.\<close>

lemma create_huffman_tree_correct_witness:
  "\<exists>tree' depth'. BrotliCreateHuffmanTree [1, 2, 0, 4, 8, 16, 32, 64] 8 (int 5) (replicate 17 tree_sentinel) (replicate 8 0) = Some (tree', depth') \<and>
    length tree' = length (replicate 17 tree_sentinel) \<and> length depth' = length (replicate 8 (0 :: uint8)) \<and>
    (\<forall>i. 8 \<le> i \<longrightarrow> depth' ! i = replicate 8 0 ! i) \<and>
    (\<forall>i < 8. (depth' ! i = 0 \<longleftrightarrow> [1, 2, 0, 4, 8, 16, 32, 64 :: uint32] ! i = 0) \<and> unat (depth' ! i) \<le> 5) \<and>
    (if length (used_symbols [1, 2, 0, 4, 8, 16, 32, 64] 8) = 1 then \<forall>i < 8. [1, 2, 0, 4, 8, 16, 32, 64 :: uint32] ! i \<noteq> 0 \<longrightarrow> depth' ! i = 1
     else complete_code (map unat (take 8 depth')))"
proof -
  have u: "used_symbols [1, 2, 0, 4, 8, 16, 32, 64] 8 = [7, 6, 5, 4, 3, 1, 0]" by (simp add: used_symbols_def upt_rec)
  have f: "fibonacci (5 + 3) = 21" by code_simp
  show ?thesis
  proof (rule create_huffman_tree_correct)
    show "\<forall>i < 8. [1, 2, 0, 4, 8, 16, 32, 64 :: uint32] ! i = 0 \<longrightarrow> replicate 8 (0 :: uint8) ! i = 0" by simp
  qed (simp_all add: u data_sum_def f [simplified])
qed

text \<open>A histogram of 4180 symbols whose first tree is deeper than 15, although the code says that below 64 kB there is no
  second round.\<close>

definition fibonacci_counts :: "uint32 list" where
  "fibonacci_counts = [1, 1, 2, 3, 5, 8, 13, 21, 34, 55, 89, 144, 233, 377, 610, 987, 1597]"

lemma second_round_below_64k:
  "(\<Sum>c\<leftarrow>fibonacci_counts. unat c) = 4180 \<and>
   map_option fst (huffman_round fibonacci_counts 17 15 1 (replicate 36 (InitHuffmanTree 0 0 0)) (replicate 17 0)) = Some False"
  by (rule conjI) (simp add: fibonacci_counts_def, code_simp)

end
