(* ===== verification/Enc_Count_Smoothing.thy ===== *)
theory Enc_Count_Smoothing
  imports Enc_Meta_Block
begin

text \<open>
  \<open>BrotliOptimizeHuffmanCountsForRle\<close> of \<^verbatim>\<open>enc/entropy_encode.c\<close>, which changes the counts of a histogram so that the
  depths of its code have longer runs, and \<open>BrotliOptimizeHistograms\<close> of \<^verbatim>\<open>enc/metablock.c\<close>, which does so for every
  histogram of a meta-block.  The counts are \<open>uint32_t\<close> and wrap where the code lets them; \<open>limit\<close> and \<open>stride_sum\<close>
  are \<open>size_t\<close>, kept as 64-bit words because the test of the streak relies on the wrap-around of \<open>limit\<close>.
\<close>

section \<open>Which histograms, and how long\<close>

definition count_nonzero :: "uint32 list \<Rightarrow> nat \<Rightarrow> nat option" where
  "count_nonzero counts len = foldM (\<lambda>i n. do {
     c \<leftarrow> arr_get counts i;
     Some (if c \<noteq> 0 then n + 1 else n) }) [0..<len] 0"

text \<open>\<open>while (length != 0 && counts[length - 1] == 0) --length;\<close>\<close>

fun trim_zeros :: "uint32 list \<Rightarrow> nat \<Rightarrow> nat option" where
  "trim_zeros counts 0 = Some 0"
| "trim_zeros counts (Suc n) = do {
     c \<leftarrow> arr_get counts n;
     if c = 0 then trim_zeros counts n else Some (Suc n) }"

text \<open>The number of counts that are not zero, and the smallest of them.\<close>

definition nonzero_stats :: "uint32 list \<Rightarrow> nat \<Rightarrow> (nat \<times> uint32) option" where
  "nonzero_stats counts len = foldM (\<lambda>i (nonzeros, smallest). do {
     c \<leftarrow> arr_get counts i;
     Some (if c \<noteq> 0 then (nonzeros + 1, if smallest > c then c else smallest) else (nonzeros, smallest)) })
     [0..<len] (0, 2 ^ 30)"

text \<open>A zero between two counts that are not zero becomes a one.\<close>

definition fill_single_zeros :: "uint32 list \<Rightarrow> nat \<Rightarrow> uint32 list option" where
  "fill_single_zeros counts len = foldM (\<lambda>i counts. do {
     a \<leftarrow> arr_get counts (i - 1);
     b \<leftarrow> arr_get counts i;
     c \<leftarrow> arr_get counts (i + 1);
     if a \<noteq> 0 \<and> b = 0 \<and> c \<noteq> 0 then arr_set counts i 1 else Some counts }) [1..<len - 1] counts"

section \<open>Runs that are good already\<close>

text \<open>\<open>for (k = 0; k < step; ++k) xs[i - k - 1] = v;\<close>\<close>

definition set_back :: "nat \<Rightarrow> nat \<Rightarrow> 'a \<Rightarrow> 'a list \<Rightarrow> 'a list option" where
  "set_back i step v xs = foldM (\<lambda>k xs. if k < i then arr_set xs (i - k - 1) v else None) [0..<step] xs"

definition mark_step :: "uint32 list \<Rightarrow> nat \<Rightarrow> nat \<Rightarrow> uint32 \<times> nat \<times> uint8 list \<Rightarrow> (uint32 \<times> nat \<times> uint8 list) option" where
  "mark_step counts len i = (\<lambda>(symbol, step, good). do {
     ends \<leftarrow> (if i = len then Some True else do { c \<leftarrow> arr_get counts i; Some (c \<noteq> symbol) });
     if ends then do {
       good \<leftarrow> (if symbol = 0 \<and> step \<ge> 5 \<or> symbol \<noteq> 0 \<and> step \<ge> 7 then set_back i step 1 good else Some good);
       symbol \<leftarrow> (if i \<noteq> len then arr_get counts i else Some symbol);
       Some (symbol, 1, good) }
     else Some (symbol, step + 1, good) })"

definition mark_runs :: "uint32 list \<Rightarrow> nat \<Rightarrow> uint8 list \<Rightarrow> uint8 list option" where
  "mark_runs counts len good = do {
     symbol \<leftarrow> arr_get counts 0;
     (symbol, step, good) \<leftarrow> foldM (mark_step counts len) [0..<len + 1] (symbol, 0, good);
     Some good }"

section \<open>Strides that become runs\<close>

abbreviation (input) streak_limit :: uint64 where "streak_limit \<equiv> 1240"

text \<open>\<open>256 * (counts[i] + counts[i + 1] + counts[i + 2]) / 3 + 420\<close>, in 32 bits.\<close>

definition stride_limit :: "uint32 list \<Rightarrow> nat \<Rightarrow> uint64 option" where
  "stride_limit counts i = do {
     a \<leftarrow> arr_get counts i;
     b \<leftarrow> arr_get counts (i + 1);
     c \<leftarrow> arr_get counts (i + 2);
     Some (ucast (256 * (a + b + c) div 3 + 420)) }"

text \<open>Whether the stride ends before \<open>i\<close>.\<close>

definition stride_ends :: "uint32 list \<Rightarrow> uint8 list \<Rightarrow> nat \<Rightarrow> nat \<Rightarrow> uint64 \<Rightarrow> bool option" where
  "stride_ends counts good len i limit =
     (if i = len then Some True
      else do {
        g \<leftarrow> arr_get good i;
        if g \<noteq> 0 then Some True
        else do {
          h \<leftarrow> (if i \<noteq> 0 then arr_get good (i - 1) else Some 0);
          if h \<noteq> 0 then Some True
          else do {
            c \<leftarrow> arr_get counts i;
            Some (ucast (256 * c) - limit + streak_limit \<ge> 2 * streak_limit) } } })"

definition stride_count :: "nat \<Rightarrow> uint64 \<Rightarrow> uint64" where
  "stride_count stride stride_sum =
     (let count = (stride_sum + of_nat (stride div 2)) div of_nat stride;
          count = (if count = 0 then 1 else count)
      in if stride_sum = 0 then 0 else count)"

definition smooth_step :: "uint8 list \<Rightarrow> nat \<Rightarrow> nat \<Rightarrow> uint32 list \<times> nat \<times> uint64 \<times> uint64 \<Rightarrow>
    (uint32 list \<times> nat \<times> uint64 \<times> uint64) option" where
  "smooth_step good len i = (\<lambda>(counts, stride, limit, stride_sum). do {
     ends \<leftarrow> stride_ends counts good len i limit;
     (counts, stride, limit, stride_sum) \<leftarrow> (if ends then do {
         counts \<leftarrow> (if stride \<ge> 4 \<or> stride \<ge> 3 \<and> stride_sum = 0
                    then set_back i stride (ucast (stride_count stride stride_sum)) counts else Some counts);
         limit \<leftarrow> (if i < len - 2 then stride_limit counts i
                   else if i < len then do { c \<leftarrow> arr_get counts i; Some (ucast (256 * c)) }
                   else Some 0);
         Some (counts, 0, limit, 0) }
       else Some (counts, stride, limit, stride_sum));
     let stride = stride + 1;
     if i \<noteq> len then do {
       c \<leftarrow> arr_get counts i;
       let stride_sum = stride_sum + ucast c;
       let limit = (if stride \<ge> 4 then (256 * stride_sum + of_nat (stride div 2)) div of_nat stride else limit);
       let limit = (if stride = 4 then limit + 120 else limit);
       Some (counts, stride, limit, stride_sum) }
     else Some (counts, stride, limit, stride_sum) })"

text \<open>The counts, and the scratch array.\<close>

definition BrotliOptimizeHuffmanCountsForRle ::
  "nat \<Rightarrow> uint32 list \<Rightarrow> uint8 list \<Rightarrow> (uint32 list \<times> uint8 list) option" where
  "BrotliOptimizeHuffmanCountsForRle len counts good = do {
     nonzero_count \<leftarrow> count_nonzero counts len;
     if nonzero_count < 16 then Some (counts, good)
     else do {
       len \<leftarrow> trim_zeros counts len;
       if len = 0 then Some (counts, good)
       else do {
         (nonzeros, smallest_nonzero) \<leftarrow> nonzero_stats counts len;
         if nonzeros < 5 then Some (counts, good)
         else do {
           counts \<leftarrow> (if smallest_nonzero < 4 \<and> len - nonzeros < 6 then fill_single_zeros counts len else Some counts);
           if nonzeros < 28 then Some (counts, good)
           else if len \<le> length good then do {
             let good = replicate len 0 @ drop len good;
             good \<leftarrow> mark_runs counts len good;
             limit \<leftarrow> stride_limit counts 0;
             (counts, stride, limit, stride_sum) \<leftarrow> foldM (smooth_step good len) [0..<len + 1] (counts, 0, limit, 0);
             Some (counts, good) }
           else None } } } }"

section \<open>All the histograms of a meta-block\<close>

definition optimize_histograms :: "nat \<Rightarrow> nat \<Rightarrow> Histogram list \<times> uint8 list \<Rightarrow> (Histogram list \<times> uint8 list) option" where
  "optimize_histograms n len hg = foldM (\<lambda>i (hs, good). do {
     h \<leftarrow> arr_get hs i;
     (counts, good) \<leftarrow> BrotliOptimizeHuffmanCountsForRle len (hist_data h) good;
     hs \<leftarrow> arr_set hs i (h\<lparr>hist_data := counts\<rparr>);
     Some (hs, good) }) [0..<n] hg"

definition BrotliOptimizeHistograms :: "nat \<Rightarrow> MetaBlockSplit \<Rightarrow> MetaBlockSplit option" where
  "BrotliOptimizeHistograms num_distance_codes mb = do {
     let good = replicate BROTLI_NUM_COMMAND_SYMBOLS (0 :: uint8);
     (lits, good) \<leftarrow> optimize_histograms (literal_histograms_size mb) 256 (literal_histograms mb, good);
     (cmds, good) \<leftarrow> optimize_histograms (command_histograms_size mb) BROTLI_NUM_COMMAND_SYMBOLS (command_histograms mb, good);
     (dists, good) \<leftarrow> optimize_histograms (distance_histograms_size mb) num_distance_codes (distance_histograms mb, good);
     Some (mb\<lparr>literal_histograms := lits, command_histograms := cmds, distance_histograms := dists\<rparr>) }"

end
