(* ===== verification/Enc_Count_Facts.thy ===== *)
theory Enc_Count_Facts
  imports Enc_Count_Smoothing
begin

text \<open>
  \<open>BrotliOptimizeHuffmanCountsForRle\<close> is safe and keeps what the writers rely on: every symbol that occurs keeps a
  count, so that it gets a code, and the sum of the counts stays bounded.
\<close>

section \<open>What may change\<close>

definition smoothed :: "nat \<Rightarrow> nat \<Rightarrow> uint32 list \<Rightarrow> uint32 list \<Rightarrow> bool" where
  "smoothed len k a b \<longleftrightarrow> length b = length a \<and> (\<forall>i < length a. a ! i \<noteq> 0 \<longrightarrow> b ! i \<noteq> 0) \<and> (\<forall>i. len \<le> i \<longrightarrow> b ! i = a ! i) \<and>
     (\<Sum>c\<leftarrow>b. unat c) \<le> (\<Sum>c\<leftarrow>a. unat c) + k"

lemma smoothed_refl [simp]: "smoothed len k a a"
  by (simp add: smoothed_def)

lemma smoothed_trans: "smoothed len k a b \<Longrightarrow> smoothed len l b c \<Longrightarrow> smoothed len (k + l) a c"
  by (auto simp: smoothed_def)

lemma smoothed_mono: "smoothed len k a b \<Longrightarrow> len \<le> len' \<Longrightarrow> k \<le> k' \<Longrightarrow> smoothed len' k' a b"
  by (auto simp: smoothed_def)

lemma smoothed_length: "smoothed len k a b \<Longrightarrow> length b = length a"
  by (simp add: smoothed_def)

section \<open>Looking at the counts\<close>

lemma count_nonzero_some: "len \<le> length counts \<Longrightarrow> \<exists>n. count_nonzero counts len = Some n"
  unfolding count_nonzero_def
  using foldM_upt [of 0 len "\<lambda>_ _. True" 0 "\<lambda>i n. do { c \<leftarrow> arr_get counts i; Some (if c \<noteq> 0 then n + 1 else n) }"] by auto

lemma trim_zeros_spec: "n \<le> length counts \<Longrightarrow> \<exists>m. trim_zeros counts n = Some m \<and> m \<le> n"
proof (induction n)
  case (Suc n)
  then show ?case by (cases "counts ! n = 0") (auto intro: le_SucI)
qed simp

lemma nonzero_stats_spec:
  assumes "len \<le> length counts"
  shows "\<exists>n s. nonzero_stats counts len = Some (n, s) \<and> n \<le> len"
proof -
  have "\<exists>ns. nonzero_stats counts len = Some ns \<and> fst ns \<le> len"
    unfolding nonzero_stats_def
    by (rule foldM_upt [where P = "\<lambda>i ns. fst ns \<le> i"]) (use assms in \<open>auto split: prod.splits\<close>)
  then show ?thesis by auto
qed

lemma fill_single_zeros_spec:
  assumes "2 \<le> len" and "len \<le> length counts"
  shows "\<exists>counts'. fill_single_zeros counts len = Some counts' \<and> smoothed len (len - 1) counts counts'"
  unfolding fill_single_zeros_def
proof (rule foldM_upt [where P = "\<lambda>i cs. smoothed len i counts cs"])
  fix i cs
  assume i: "1 \<le> i" "i < len - 1" and cs: "smoothed len i counts cs"
  have l: "i - 1 < length cs" "i < length cs" "i + 1 < length cs" using i assms(2) smoothed_length [OF cs] by simp_all
  show "\<exists>cs'. do { a \<leftarrow> arr_get cs (i - 1); b \<leftarrow> arr_get cs i; c \<leftarrow> arr_get cs (i + 1);
      if a \<noteq> 0 \<and> b = 0 \<and> c \<noteq> 0 then arr_set cs i 1 else Some cs } = Some cs' \<and> smoothed len (Suc i) counts cs'"
  proof (cases "cs ! (i - 1) \<noteq> 0 \<and> cs ! i = 0 \<and> cs ! (i + 1) \<noteq> 0")
    case True
    have split: "cs = take i cs @ cs ! i # drop (Suc i) cs" using l(2) by (rule id_take_nth_drop)
    have "(\<Sum>c\<leftarrow>cs[i := 1]. unat c) = (\<Sum>c\<leftarrow>take i cs. unat c) + 1 + (\<Sum>c\<leftarrow>drop (Suc i) cs. unat c)"
      using l(2) by (simp add: upd_conv_take_nth_drop)
    moreover have "(\<Sum>c\<leftarrow>cs. unat c) = (\<Sum>c\<leftarrow>take i cs. unat c) + unat (cs ! i) + (\<Sum>c\<leftarrow>drop (Suc i) cs. unat c)"
      by (subst split) (simp only: map_append sum_list_append list.map sum_list.Cons add.assoc)
    ultimately have "smoothed len 1 cs (cs[i := 1])" using True i(2) l(2) by (auto simp: smoothed_def nth_list_update)
    then have "smoothed len (i + 1) counts (cs[i := 1])" by (rule smoothed_trans [OF cs])
    then show ?thesis using True l by simp
  next
    case False
    have "smoothed len (Suc i) counts cs" by (rule smoothed_mono [OF cs]) simp_all
    then show ?thesis using False l by auto
  qed
qed (use assms in simp_all)

section \<open>Marking\<close>

lemma set_back_spec:
  assumes "step \<le> i" and "i \<le> length xs"
  shows "set_back i step v xs = Some (take (i - step) xs @ replicate step v @ drop i xs)"
proof -
  have "\<exists>ys. set_back i step v xs = Some ys \<and> ys = take (i - step) xs @ replicate step v @ drop i xs"
    unfolding set_back_def
  proof (rule foldM_upt [where P = "\<lambda>k ys. ys = take (i - k) xs @ replicate k v @ drop i xs"])
    fix k ys
    assume k: "0 \<le> k" "k < step" and ys: "ys = take (i - k) xs @ replicate k v @ drop i xs"
    define j where "j = i - k - 1"
    have j: "i - k = Suc j" "k < i" "j < length xs" using k assms by (simp_all add: j_def)
    have "ys = take j xs @ xs ! j # replicate k v @ drop i xs" using j(3) by (simp add: ys j(1) take_Suc_conv_app_nth)
    then have "ys[j := v] = take j xs @ replicate (Suc k) v @ drop i xs" "j < length ys"
      using j(3) by (simp_all add: list_update_append)
    then show "\<exists>ys'. (if k < i then arr_set ys (i - k - 1) v else None) = Some ys' \<and>
        ys' = take (i - Suc k) xs @ replicate (Suc k) v @ drop i xs" using j(2) by (simp add: j_def)
  qed (use assms in simp_all)
  then show ?thesis by simp
qed

lemma mark_step_spec:
  assumes "i \<le> len" and "step \<le> i" and "length g = length (good :: uint8 list)" and "len \<le> length counts" and "len \<le> length good"
  shows "\<exists>s' step' g'. mark_step counts len i (s, step, g) = Some (s', step', g') \<and> step' \<le> Suc i \<and> length g' = length good"
proof (cases "i \<noteq> len \<and> counts ! i = s")
  case True
  then show ?thesis using assms by (simp add: mark_step_def)
next
  case False
  define g1 where "g1 = (if s = 0 \<and> step \<ge> 5 \<or> s \<noteq> 0 \<and> step \<ge> 7 then take (i - step) g @ replicate step 1 @ drop i g else g)"
  have "i \<le> length g" using assms(1,3,5) by simp
  then have g1: "(if s = 0 \<and> step \<ge> 5 \<or> s \<noteq> 0 \<and> step \<ge> 7 then set_back i step 1 g else Some g) = Some g1" "length g1 = length good"
    using assms(2,3) by (simp_all add: g1_def set_back_spec)
  show ?thesis
  proof (cases "i = len")
    case True
    have "mark_step counts len i (s, step, g) = Some (s, 1, g1)"
      unfolding mark_step_def prod.case if_P [OF True] bind.bind_lunit if_True g1(1) using True by simp
    then show ?thesis using g1(2) by simp
  next
    case ne: False
    then have i: "i < length counts" using assms(1,4) by simp
    have "mark_step counts len i (s, step, g) = Some (counts ! i, 1, g1)"
      unfolding mark_step_def prod.case if_not_P [OF ne] if_P [OF ne] arr_get_Some [OF i] bind.bind_lunit g1(1)
      using False ne by simp
    then show ?thesis using g1(2) by simp
  qed
qed

lemma mark_runs_spec:
  assumes "0 < len" and "len \<le> length counts" and "len \<le> length good"
  shows "\<exists>good'. mark_runs counts len good = Some good' \<and> length good' = length good"
proof -
  have "\<exists>s. foldM (mark_step counts len) [0..<len + 1] (counts ! 0, 0, good) = Some s \<and>
      (case s of (symbol, step, g) \<Rightarrow> step \<le> len + 1 \<and> length g = length good)"
  proof (rule foldM_upt [where P = "\<lambda>i s. case s of (symbol, step, g) \<Rightarrow> step \<le> i \<and> length g = length good"])
    fix i and s :: "uint32 \<times> nat \<times> uint8 list"
    assume i: "0 \<le> i" "i < len + 1" and s: "case s of (symbol, step, g) \<Rightarrow> step \<le> i \<and> length g = length good"
    obtain symbol step g where e: "s = (symbol, step, g)" by (cases s)
    from mark_step_spec [of i len step g good counts symbol] i(2) s assms
    show "\<exists>s'. mark_step counts len i s = Some s' \<and> (case s' of (symbol, step, g) \<Rightarrow> step \<le> Suc i \<and> length g = length good)"
      by (force simp: e)
  qed simp_all
  then obtain symbol step g where "foldM (mark_step counts len) [0..<len + 1] (counts ! 0, 0, good) = Some (symbol, step, g)"
    "length g = length good" by auto
  moreover have "0 < length counts" using assms(1,2) by (rule less_le_trans)
  ultimately show ?thesis by (simp add: mark_runs_def del: upt_Suc)
qed

section \<open>Strides\<close>

lemma sum_list_words: "(\<Sum>c\<leftarrow>xs. unat (c :: uint32)) \<le> length xs * (2 ^ 32 - 1)"
proof (induction xs)
  case (Cons c xs)
  have "unat c \<le> 2 ^ 32 - 1" using unsigned_less [of c, where ?'a = nat] by simp
  then show ?case using Cons by simp
qed simp

lemma stride_count_spec:
  assumes "0 < n" and "n < 2 ^ 31" and "unat s \<le> n * (2 ^ 32 - 1)"
  shows "unat (ucast (stride_count n s) :: uint32) * n \<le> unat s + n" and "s \<noteq> 0 \<Longrightarrow> (ucast (stride_count n s) :: uint32) \<noteq> 0"
proof -
  define q where "q = (unat s + n div 2) div n"
  have "n * (2 ^ 32 - 1) \<le> 2 ^ 31 * (2 ^ 32 - 1)" using assms(2) by (intro mult_le_mono) simp_all
  then have less: "unat s + n div 2 < 2 ^ 64" using assms(2,3) by simp
  have u: "unat (of_nat (n div 2) :: uint64) = n div 2" "unat (of_nat n :: uint64) = n" using assms(2) by (simp_all add: unat_of_nat_small)
  have q: "unat ((s + of_nat (n div 2)) div of_nat n) = q"
    using less u by (simp add: q_def unat_div unat_plus_if_size word_size)
  have "unat s + n div 2 < n * 2 ^ 32" using assms(1,3) by (simp add: algebra_simps)
  then have q32: "q < 2 ^ 32" unfolding q_def using assms(1) by (simp add: less_mult_imp_div_less mult.commute)
  have qn: "q * n \<le> unat s + n" unfolding q_def using div_times_less_eq_dividend [of "unat s + n div 2" n] by linarith
  have c: "unat (stride_count n s) = (if s = 0 then 0 else if q = 0 then 1 else q)"
    using q by (simp add: stride_count_def Let_def unat_eq_zero flip: q)
  then have "unat (ucast (stride_count n s) :: uint32) = (if s = 0 then 0 else if q = 0 then 1 else q)"
    using q32 by (simp add: unsigned_ucast_eq take_bit_nat_eq_self)
  then show "unat (ucast (stride_count n s) :: uint32) * n \<le> unat s + n" and "s \<noteq> 0 \<Longrightarrow> (ucast (stride_count n s) :: uint32) \<noteq> 0"
    using qn by (auto simp flip: unat_eq_zero)
qed

lemma collapse_spec:
  assumes "n \<le> i" and "i \<le> len" and "len \<le> length a" and "0 < n" and "len < 2 ^ 31"
    and "unat s = (\<Sum>c\<leftarrow>take n (drop (i - n) a). unat c)"
  shows "\<exists>b. set_back i n (ucast (stride_count n s)) a = Some b \<and> smoothed len n a b"
proof -
  define v :: uint32 where "v = ucast (stride_count n s)"
  define m where "m = take n (drop (i - n) a)"
  define b where "b = take (i - n) a @ replicate n v @ drop i a"
  have len: "length m = n" using assms(1-3) by (simp add: m_def)
  have a: "a = take (i - n) a @ m @ drop i a"
    using append_take_drop_id [of "i - n" a] append_take_drop_id [of n "drop (i - n) a"] assms(1) by (simp add: m_def)
  have "unat s \<le> n * (2 ^ 32 - 1)" using sum_list_words [of m] assms(6) len by (simp add: m_def)
  note v = stride_count_spec [OF assms(4) _ this, folded v_def]
  have n31: "n < 2 ^ 31" using assms(1,2,5) by simp
  have "(\<Sum>c\<leftarrow>b. unat c) = (\<Sum>c\<leftarrow>take (i - n) a. unat c) + n * unat v + (\<Sum>c\<leftarrow>drop i a. unat c)"
    by (simp add: b_def sum_list_replicate)
  moreover have "(\<Sum>c\<leftarrow>a. unat c) = (\<Sum>c\<leftarrow>take (i - n) a. unat c) + unat s + (\<Sum>c\<leftarrow>drop i a. unat c)"
    by (subst a) (simp add: assms(6) m_def)
  ultimately have "(\<Sum>c\<leftarrow>b. unat c) \<le> (\<Sum>c\<leftarrow>a. unat c) + n" using v(1) [OF n31] by (simp add: mult.commute)
  moreover have "b ! j \<noteq> 0" if "j < length a" "a ! j \<noteq> 0" for j
  proof (cases "i - n \<le> j \<and> j < i")
    case True
    have "a ! j \<in> set m"
      using nth_mem [of "j - (i - n)" m] True len assms(1-3) by (auto simp: m_def)
    then have "unat (a ! j) \<le> unat s" unfolding assms(6) m_def by (intro member_le_sum_list) simp_all
    then have "s \<noteq> 0" using that(2) by (auto simp: unat_eq_zero)
    then have "v \<noteq> 0" using v(2) n31 by simp
    moreover have "j + n - i < n" using True assms(1) by linarith
    then have "b ! j = v" using True assms(1-3) by (simp add: b_def nth_append)
    ultimately show ?thesis by simp
  next
    case False
    then have "b ! j = a ! j" using that(1) assms(1-3) by (auto simp: b_def nth_append)
    then show ?thesis using that(2) by simp
  qed
  moreover have "b ! j = a ! j" if "len \<le> j" for j
  proof -
    have "\<not> j + n - i < n" "\<not> j < i - n" using that assms(1,2) by linarith+
    then show ?thesis using that assms(1-3) by (simp add: b_def nth_append)
  qed
  moreover have "length b = length a" using assms(1-3) by (simp add: b_def)
  ultimately have "smoothed len n a b" by (simp add: smoothed_def)
  moreover have "set_back i n v a = Some b" unfolding b_def by (rule set_back_spec) (use assms(1-3) in simp_all)
  ultimately show ?thesis by (simp add: v_def)
qed

section \<open>The smoothing loop\<close>

lemma stride_limit_some: "i + 2 < length counts \<Longrightarrow> \<exists>l. stride_limit counts i = Some l"
  by (simp add: stride_limit_def)

lemma stride_ends_some:
  assumes "i \<le> len" and "len \<le> length counts" and "len \<le> length good"
  shows "\<exists>e. stride_ends counts good len i limit = Some e \<and> (i = len \<longrightarrow> e)"
proof (cases "i = len")
  case True
  then show ?thesis by (auto simp: stride_ends_def intro: exI [of _ True])
next
  case False
  then have "i < length counts" "i < length good" "i - 1 < length good" using assms by simp_all
  then have "\<exists>e. stride_ends counts good len i limit = Some e"
    unfolding stride_ends_def if_not_P [OF False] by (cases "good ! i = 0"; cases "i = 0"; cases "good ! (i - 1) = 0") (auto intro: exI [of _ True])
  then show ?thesis using False by blast
qed

text \<open>Up to \<open>i\<close> every stride has added at most its length; the counts of the open stride add up to \<open>s\<close>.\<close>

fun smoothing :: "nat \<Rightarrow> uint32 list \<Rightarrow> nat \<Rightarrow> uint32 list \<times> nat \<times> uint64 \<times> uint64 \<Rightarrow> bool" where
  "smoothing len counts i (cs, n, l, s) \<longleftrightarrow> n \<le> i \<and> smoothed len (i - n) counts cs \<and>
     (i \<le> len \<longrightarrow> unat s = (\<Sum>c\<leftarrow>take n (drop (i - n) cs). unat c))"

lemma smooth_add:
  assumes "smoothing len counts i (cs, n, l, s)" and "i < len" and "len \<le> length counts" and "len < 2 ^ 31"
  shows "smoothing len counts (Suc i) (cs, n + 1, l', s + ucast (cs ! i))"
proof -
  have n: "n \<le> i" and sm: "smoothed len (i - n) counts cs" and s: "unat s = (\<Sum>c\<leftarrow>take n (drop (i - n) cs). unat c)"
    using assms(1,2) by simp_all
  have l: "i < length cs" using smoothed_length [OF sm] assms(2,3) by simp
  define m where "m = take (n + 1) (drop (i - n) cs)"
  have "m = take n (drop (i - n) cs) @ [cs ! i]" using l n by (simp add: m_def take_Suc_conv_app_nth)
  then have m: "(\<Sum>c\<leftarrow>m. unat c) = unat s + unat (cs ! i)" by (simp add: s)
  have "length m \<le> 2 ^ 31" using n assms(2,4) by (simp add: m_def)
  then have "length m * (2 ^ 32 - 1) \<le> 2 ^ 31 * (2 ^ 32 - 1)" by (intro mult_le_mono) simp_all
  then have "unat s + unat (cs ! i) < 2 ^ 64" using sum_list_words [of m] m by simp
  moreover have "unat (ucast (cs ! i) :: uint64) = unat (cs ! i)"     using unsigned_less [of "cs ! i", where ?'a = nat] by (simp add: unsigned_ucast_eq take_bit_nat_eq_self)
  ultimately have "unat (s + ucast (cs ! i)) = unat s + unat (cs ! i)" by (simp add: unat_plus_if_size word_size)
  then show ?thesis using n sm m by (simp add: m_def)
qed

lemma smooth_close:
  assumes "smoothing len counts i (cs, n, l, s)" and "i \<le> len" and "len \<le> length counts" and "len < 2 ^ 31"
  shows "\<exists>cs'. (if n \<ge> 4 \<or> n \<ge> 3 \<and> s = 0 then set_back i n (ucast (stride_count n s)) cs else Some cs) = Some cs' \<and>
    smoothed len i counts cs'"
proof -
  have n: "n \<le> i" and sm: "smoothed len (i - n) counts cs" and s: "unat s = (\<Sum>c\<leftarrow>take n (drop (i - n) cs). unat c)"
    using assms(1,2) by simp_all
  show ?thesis
  proof (cases "n \<ge> 4 \<or> n \<ge> 3 \<and> s = 0")
    case True
    then have "0 < n" by auto
    moreover have "len \<le> length cs" using smoothed_length [OF sm] assms(3) by simp
    ultimately obtain b where b: "set_back i n (ucast (stride_count n s)) cs = Some b" "smoothed len n cs b"
      using collapse_spec [OF n assms(2) _ _ assms(4) s] by blast
    have "smoothed len (i - n + n) counts b" by (rule smoothed_trans [OF sm b(2)])
    then show ?thesis using True b(1) n by simp
  next
    case False
    then show ?thesis using smoothed_mono [OF sm, of len i] by auto
  qed
qed

lemma smooth_step_spec:
  assumes "smoothing len counts i st" and "i \<le> len" and "3 \<le> len" and "len \<le> length counts" and "len \<le> length good" and "len < 2 ^ 31"
  shows "\<exists>st'. smooth_step good len i st = Some st' \<and> smoothing len counts (Suc i) st'"
proof -
  obtain cs n l s where st: "st = (cs, n, l, s)" by (cases st)
  have sm: "smoothing len counts i (cs, n, l, s)" using assms(1) by (simp add: st)
  have lc: "length cs = length counts" using sm by (auto dest: smoothed_length)
  obtain e where e: "stride_ends cs good len i l = Some e" "i = len \<longrightarrow> e"
    using stride_ends_some [OF assms(2) _ assms(5), of cs l] assms(4) lc by auto
  obtain cs1 n1 l1 s1 where t: "(if e then do {
         cs \<leftarrow> (if n \<ge> 4 \<or> n \<ge> 3 \<and> s = 0 then set_back i n (ucast (stride_count n s)) cs else Some cs);
         l \<leftarrow> (if i < len - 2 then stride_limit cs i
                   else if i < len then do { c \<leftarrow> arr_get cs i; Some (ucast (256 * c)) }
                   else Some 0);
         Some (cs, 0, l, 0) }
       else Some (cs, n, l, s)) = Some (cs1, n1, l1, s1)" "smoothing len counts i (cs1, n1, l1, s1)" "e \<longrightarrow> n1 = 0"
  proof (cases e)
    case True
    from smooth_close [OF sm assms(2,4,6)] obtain cs' where
      c: "(if n \<ge> 4 \<or> n \<ge> 3 \<and> s = 0 then set_back i n (ucast (stride_count n s)) cs else Some cs) = Some cs'"
      "smoothed len i counts cs'" by blast
    have l': "length cs' = length counts" by (rule smoothed_length [OF c(2)])
    obtain l1 where "(if i < len - 2 then stride_limit cs' i
        else if i < len then do { c \<leftarrow> arr_get cs' i; Some (ucast (256 * c)) } else Some 0) = Some l1"
    proof (cases "i < len - 2")
      case True
      then have "i + 2 < length cs'" using assms(4) l' by simp
      then show ?thesis using stride_limit_some [of i cs'] True that by auto
    next
      case False
      then show ?thesis using that assms(4) l' by (cases "i < len") auto
    qed
    then show ?thesis using c True by (intro that [of cs' 0 l1 0]) simp_all
  next
    case False
    then show ?thesis using sm by (intro that [of cs n l s]) simp_all
  qed
  have lc1: "length cs1 = length counts" using t(2) by (auto dest: smoothed_length)
  note run = smooth_step_def st prod.case e(1) bind.bind_lunit t(1) Let_def
  show ?thesis
  proof (cases "i = len")
    case True
    then have "n1 = 0" using t(3) e(2) by simp
    moreover have "smoothed len (Suc i - 1) counts cs1" using t(2) \<open>n1 = 0\<close> by simp
    ultimately show ?thesis unfolding run using True by simp
  next
    case False
    then have i: "i < len" "i < length cs1" using assms(2,4) lc1 by simp_all
    from smooth_add [OF t(2) i(1) assms(4,6)] show ?thesis
      unfolding run if_P [OF False] arr_get_Some [OF i(2)] by blast
  qed
qed

section \<open>The whole routine\<close>

lemma BrotliOptimizeHuffmanCountsForRle_spec:
  assumes "len \<le> length counts" and "len \<le> length good" and "len < 2 ^ 31"
  shows "\<exists>counts' good'. BrotliOptimizeHuffmanCountsForRle len counts good = Some (counts', good') \<and>
    length good' = length good \<and> smoothed len (2 * len) counts counts'"
proof -
  obtain nz where nz: "count_nonzero counts len = Some nz" using count_nonzero_some [OF assms(1)] by blast
  obtain m where m: "trim_zeros counts len = Some m" "m \<le> len" using trim_zeros_spec [OF assms(1)] by blast
  have ml: "m \<le> length counts" "m \<le> length good" "m < 2 ^ 31" using m(2) assms by simp_all
  obtain nonzeros smallest where ns: "nonzero_stats counts m = Some (nonzeros, smallest)" "nonzeros \<le> m"
    using nonzero_stats_spec [OF ml(1)] by blast
  note run = BrotliOptimizeHuffmanCountsForRle_def nz m(1) ns(1) bind.bind_lunit prod.case
  show ?thesis
  proof (cases "nz < 16 \<or> m = 0 \<or> nonzeros < 5")
    case True
    then show ?thesis unfolding run by auto
  next
    case False
    then have m5: "5 \<le> m" using ns(2) by simp
    obtain cs where cs: "(if smallest < 4 \<and> m - nonzeros < 6 then fill_single_zeros counts m else Some counts) = Some cs"
      "smoothed m (m - 1) counts cs"
      using fill_single_zeros_spec [of m counts] m5 ml(1) by (cases "smallest < 4 \<and> m - nonzeros < 6") auto
    have lcs: "m \<le> length cs" using smoothed_length [OF cs(2)] ml(1) by simp
    note run = run if_not_P [OF conjunct1 [OF False [unfolded de_Morgan_disj]]]
      if_not_P [OF conjunct1 [OF conjunct2 [OF False [unfolded de_Morgan_disj]]]]
      if_not_P [OF conjunct2 [OF conjunct2 [OF False [unfolded de_Morgan_disj]]]] cs(1)
    show ?thesis
    proof (cases "nonzeros < 28")
      case True
      then show ?thesis unfolding run using smoothed_mono [OF cs(2) m(2), of "2 * len"] m(2) by auto
    next
      case False
      define good0 where "good0 = replicate m 0 @ drop m good"
      have lg: "length good0 = length good" using ml(2) by (simp add: good0_def)
      obtain good1 where g1: "mark_runs cs m good0 = Some good1" "length good1 = length good"
        using mark_runs_spec [of m cs good0] m5 lcs lg ml(2) by auto
      obtain l where l: "stride_limit cs 0 = Some l" using stride_limit_some [of 0 cs] m5 lcs by auto
      have "\<exists>st. foldM (smooth_step good1 m) [0..<m + 1] (cs, 0, l, 0) = Some st \<and> smoothing m cs (m + 1) st"
      proof (rule foldM_upt)
        fix i st
        assume "0 \<le> i" "i < m + 1" "smoothing m cs i st"
        then show "\<exists>st'. smooth_step good1 m i st = Some st' \<and> smoothing m cs (Suc i) st'"
          using smooth_step_spec [of m cs i st good1] m5 lcs g1(2) ml(2,3) by simp
      qed simp_all
      then obtain cs' n l' s where st: "foldM (smooth_step good1 m) [0..<m + 1] (cs, 0, l, 0) = Some (cs', n, l', s)"
        "smoothing m cs (m + 1) (cs', n, l', s)" by (metis prod_cases4)
      have "smoothed m (m + 1) cs cs'" using st(2) smoothed_mono by auto
      from smoothed_trans [OF cs(2) this] have "smoothed m (2 * m) counts cs'" using m5 by (simp add: mult_2)
      then have "smoothed len (2 * len) counts cs'" by (rule smoothed_mono) (use m(2) in simp_all)
      then show ?thesis unfolding run if_not_P [OF False] if_P [OF ml(2)] Let_def good0_def [symmetric] g1(1) l st(1)
        using g1(2) by auto
    qed
  qed
qed

text \<open>C40: Smoothing the counts of a histogram is safe and loses no symbol: \<open>BrotliOptimizeHuffmanCountsForRle\<close> stays inside
  its arrays and ends, every symbol that occurs still has a count afterwards, although whole strides of counts are replaced
  by their rounded mean in 32 bits, counts beyond the alphabet are left alone, and the sum of all counts grows by
  at most two for each symbol of the alphabet.  Its conditions: an alphabet below \<open>2 ^ 31\<close>, no larger than the array
  of counts and the scratch array; the counts are any 32-bit numbers.\<close>

theorem smoothing_keeps_symbols:
  assumes "len \<le> length counts" and "len \<le> length good" and "len < 2 ^ 31"
  shows "\<exists>counts' good'. BrotliOptimizeHuffmanCountsForRle len counts good = Some (counts', good') \<and>
    length counts' = length counts \<and> length good' = length good \<and>
    (\<forall>i < length counts. counts ! i \<noteq> 0 \<longrightarrow> counts' ! i \<noteq> 0) \<and> (\<forall>i. len \<le> i \<longrightarrow> counts' ! i = counts ! i) \<and>
    (\<Sum>c\<leftarrow>counts'. unat c) \<le> (\<Sum>c\<leftarrow>counts. unat c) + 2 * len"
  using BrotliOptimizeHuffmanCountsForRle_spec [OF assms] unfolding smoothed_def by blast

text \<open>Counts with a plateau, a single zero and counts whose multiples wrap.\<close>

definition uneven_counts :: "uint32 list" where
  "uneven_counts = replicate 10 2000 @ 0 # replicate 10 7 @ replicate 19 0xFFFFFFFF @ [5]"

lemma smoothing_keeps_symbols_witness:
  "\<exists>counts' good'. BrotliOptimizeHuffmanCountsForRle 40 uneven_counts (replicate 704 0) = Some (counts', good') \<and>
    length counts' = length uneven_counts \<and> length good' = length (replicate 704 (0 :: uint8)) \<and>
    (\<forall>i < length uneven_counts. uneven_counts ! i \<noteq> 0 \<longrightarrow> counts' ! i \<noteq> 0) \<and> (\<forall>i. 40 \<le> i \<longrightarrow> counts' ! i = uneven_counts ! i) \<and>
    (\<Sum>c\<leftarrow>counts'. unat c) \<le> (\<Sum>c\<leftarrow>uneven_counts. unat c) + 2 * 40"
  by (rule smoothing_keeps_symbols) (simp_all add: uneven_counts_def)

end
