(* ===== verification/Spec2Isabelle.thy ===== *)
theory Spec2Isabelle
  imports Brotli_Prelude Bit_Reader Bit_Reader_Facts Bit_Reader_Properties Brotli_Constants Huffman_Tables
    Context_Lut Cmd_Lut Transforms Decoder_State Decode_Header Decode_Symbols Decode_Huffman
    Decode_Context_Map Decode_Blocks Ring_Buffer Decode_Distance Decode_Commands Decode_Stream
    Decoder_Samples Decode_Header_Facts Metablock_Header_Facts Header_Properties Table_Properties
    Distance_Properties Context_Map_Properties Ring_Buffer_Properties Stream_Properties
    Write_Bits Enc_Commands Entropy_Encode Entropy_Static Enc_Trees Enc_Context_Map Enc_Meta_Block
    Enc_Ring_Buffer Enc_Stream Command_Table_Facts Enc_Header_Facts Enc_Command_Facts Enc_Distance_Facts
    Enc_Extra_Facts Roundtrip_Properties Enc_Uncompressed_Facts Decode_Uncompressed_Facts Stream_Roundtrip
    Canonical_Codes Huffman_Table_Facts Huffman_Second_Level Huffman_Build_Facts Huffman_Decode_Facts
    Enc_Code_Facts Code_Length_Facts Huffman_Properties Block_Facts Block_Properties
    Enc_Context_Map_Facts Context_Map_Roundtrip Enc_Length_Facts
    Code_Length_Decode Code_Length_Table Code_Length_Code Enc_Sort_Facts Enc_Tree_Facts Enc_Tree_Rounds
    Code_Length_Reading Code_Length_Roundtrip Code_Length_Properties Enc_Count_Smoothing Enc_Count_Facts
begin

text \<open>
  A model of the Brotli library in \<^verbatim>\<open>libil2cpp/os/ClassLibraryPAL/brotli\<close>, the compressor behind
  the \<^verbatim>\<open>BrotliStream\<close> of the class library that IL2CPP links, with the theorems that make it correct.  All
  paths below are relative to that directory.  RFC 7932 is the format's specification.

  \<^bold>\<open>The program.\<close>  The decoder (\<^verbatim>\<open>dec/\<close>) is a resumable state machine.  \<open>BrotliDecoderDecompressStream\<close> is
  called with whatever input and output space the client has; it runs a loop over \<open>s->state\<close>, takes bits from
  the bit reader \<open>s->br\<close>, builds prefix-code tables, decodes commands into a ring buffer, and writes the ring
  buffer out.  When the input ends in the middle of an item the routine stores a sub-state and returns
  \<open>NEEDS_MORE_INPUT\<close>; the next call goes on from there.  The encoder (\<^verbatim>\<open>enc/\<close>) chooses commands by heuristics and
  then writes them with deterministic writers; the model has the writers and the fallback stream
  of uncompressed meta-blocks.

  \<^bold>\<open>Conventions.\<close>  \<open>uint8_t\<close> to \<open>uint64_t\<close> are words, \<open>int\<close> is \<open>int\<close> where the code keeps it small,
  array indices and \<open>size_t\<close> lengths are \<open>nat\<close>.  A C function that could run into undefined behaviour returns
  \<open>'a option\<close>; \<open>None\<close> is an access outside an array, the use of an uninitialised cell, a shift by the width of
  its operand, or a loop that does not end, and never an error the program reports: those are values
  (\<open>BrotliDecoderErrorCode\<close>, \<open>bool\<close>, \<open>uint32 option\<close>).  So a theorem with a conclusion \<open>f x = Some y\<close> says that the
  code is memory-safe and returns.  A pointer to a table is the array and an offset.  The structs are
  records: \<open>BrotliDecoderState\<close> with fields \<open>d_\<close>, its header arena \<open>h_\<close>, its body arena \<open>b_\<close>, the reader
  \<open>BrotliBitReader\<close>, the encoder's pair of \<open>storage\<close> and \<open>storage_ix\<close> as \<open>bit_storage\<close>.  The functions that C
  instantiates twice with a constant argument (\<open>..Internal\<close>) take the flag \<open>safe\<close>.  \<open>BROTLI_DCHECK\<close> is empty unless
  \<open>BROTLI_DEBUG\<close> is defined, so the model has no such checks; the theorems about a function that has them keep to the
  arguments they allow (a bit reader is asked for at most 24 bits, the slow reader for up to 32).

  \<^bold>\<open>Theories that model code\<close>, in the order of the calls:
  \<^item> \<^verbatim>\<open>Brotli_Prelude\<close>: word types, checked array accesses, little-endian bit strings, folds in the option monad.
  \<^item> \<^verbatim>\<open>Bit_Reader\<close>: \<^verbatim>\<open>dec/bit_reader.h\<close>, \<^verbatim>\<open>dec/bit_reader.c\<close>.  \<^verbatim>\<open>Brotli_Constants\<close>: \<^verbatim>\<open>common/constants.[ch]\<close>.
  \<^item> \<^verbatim>\<open>Huffman_Tables\<close>: \<^verbatim>\<open>dec/huffman.[ch]\<close>.  \<^verbatim>\<open>Context_Lut\<close>, \<^verbatim>\<open>Cmd_Lut\<close>, \<^verbatim>\<open>Transforms\<close>: the constant tables of
    \<^verbatim>\<open>common/context.[ch]\<close> and \<^verbatim>\<open>dec/prefix.h\<close>, and \<^verbatim>\<open>common/transform.[ch]\<close>.
  \<^item> \<^verbatim>\<open>Decoder_State\<close>: \<^verbatim>\<open>dec/state.[ch]\<close>, with the allocator and the dictionary as parameters.
  \<^item> \<^verbatim>\<open>Decode_Header\<close>, \<^verbatim>\<open>Decode_Symbols\<close>, \<^verbatim>\<open>Decode_Huffman\<close>, \<^verbatim>\<open>Decode_Context_Map\<close>, \<^verbatim>\<open>Decode_Blocks\<close>, \<^verbatim>\<open>Ring_Buffer\<close>,
    \<^verbatim>\<open>Decode_Distance\<close>, \<^verbatim>\<open>Decode_Commands\<close>, \<^verbatim>\<open>Decode_Stream\<close>: \<^verbatim>\<open>dec/decode.c\<close> from top to bottom.
  \<^item> \<^verbatim>\<open>Write_Bits\<close>, \<^verbatim>\<open>Enc_Commands\<close>, \<^verbatim>\<open>Entropy_Encode\<close>, \<^verbatim>\<open>Entropy_Static\<close>: \<^verbatim>\<open>enc/write_bits.h\<close>, \<^verbatim>\<open>enc/command.[ch]\<close> with
    \<^verbatim>\<open>enc/prefix.h\<close>, \<^verbatim>\<open>enc/entropy_encode.[ch]\<close> and \<^verbatim>\<open>enc/entropy_encode_static.h\<close>.  \<^verbatim>\<open>Enc_Count_Smoothing\<close>: the smoothing of
    counts in \<^verbatim>\<open>enc/entropy_encode.c\<close> and its caller in \<^verbatim>\<open>enc/metablock.c\<close>.
  \<^item> \<^verbatim>\<open>Enc_Trees\<close>, \<^verbatim>\<open>Enc_Context_Map\<close>, \<^verbatim>\<open>Enc_Meta_Block\<close>: \<^verbatim>\<open>enc/brotli_bit_stream.c\<close> and \<^verbatim>\<open>enc/block_encoder_inc.h\<close>.
    \<^verbatim>\<open>Enc_Ring_Buffer\<close>: \<^verbatim>\<open>enc/ringbuffer.h\<close>.  \<^verbatim>\<open>Enc_Stream\<close>: the parts of \<^verbatim>\<open>enc/encode.c\<close> named there.

  \<^bold>\<open>Interfaces.\<close>  Clients of the bit reader rest on \<open>bit_taker\<close> and \<open>bit_source\<close> (\<^verbatim>\<open>Bit_Reader_Facts\<close>): a read
  returns the next bits of the abstract stream \<open>br_bits\<close>, or reports that there are too few and loses none;
  the safe, the 32-bit, the slow, the zero-width and the fast readers are interpretations.  Clients of the bit
  writer rest on \<open>bit_sink\<close> (\<^verbatim>\<open>Write_Bits\<close>): a write appends the bits of the number to \<open>written\<close>; the
  word-wise and the byte-wise \<open>BrotliWriteBits\<close> are interpretations.  These two abstractions, bit strings
  read and bit strings written, are the ones every round trip is stated over.

  \<^bold>\<open>What is proved.\<close>
  \<^item> \<^verbatim>\<open>Bit_Reader_Facts\<close>, \<^verbatim>\<open>Bit_Reader_Properties\<close>: every reader refines the bit stream; the fast readers agree with the
    safe ones; unloading, alignment, byte copies and the slow read's restore lose nothing.
  \<^item> \<^verbatim>\<open>Decode_Header_Facts\<close>, \<^verbatim>\<open>Metablock_Header_Facts\<close>, \<^verbatim>\<open>Header_Properties\<close>: the resumable header parsers implement the
    grammar of the RFC (\<open>mlh_parse\<close>, \<open>varlen_parse\<close>, \<open>wbits_code\<close>), errors included.
  \<^item> \<^verbatim>\<open>Canonical_Codes\<close>: canonical prefix codes from the lengths alone.  \<^verbatim>\<open>Huffman_Table_Facts\<close>, \<^verbatim>\<open>Huffman_Second_Level\<close>,
    \<^verbatim>\<open>Huffman_Build_Facts\<close>: the two-level table builder implements them.  \<^verbatim>\<open>Huffman_Decode_Facts\<close>: the symbol readers decode
    them.  \<^verbatim>\<open>Enc_Code_Facts\<close>: the encoder's code words are the same code.  \<^verbatim>\<open>Code_Length_Facts\<close>: reading the
    lengths keeps the Kraft sum, the chains and the counts, and ends.  \<^verbatim>\<open>Huffman_Properties\<close> puts them together.
    \<^verbatim>\<open>Code_Length_Reading\<close>: reading the lengths of a code, with its result decided by the symbols on the stream: success
    exactly when they fill the code space, the error when they do not, a suspension only when the input has ended.
  \<^item> \<^verbatim>\<open>Table_Properties\<close>, \<^verbatim>\<open>Command_Table_Facts\<close>, \<^verbatim>\<open>Distance_Properties\<close>, \<^verbatim>\<open>Context_Map_Properties\<close>: tables and transforms against the
    rules of the RFC.
  \<^item> \<^verbatim>\<open>Ring_Buffer_Properties\<close>, \<^verbatim>\<open>Stream_Properties\<close>: output is conserved whatever buffers the client brings; errors are final.
  \<^item> \<^verbatim>\<open>Enc_Header_Facts\<close>, \<^verbatim>\<open>Enc_Command_Facts\<close>, \<^verbatim>\<open>Enc_Distance_Facts\<close>, \<^verbatim>\<open>Enc_Extra_Facts\<close>, \<^verbatim>\<open>Roundtrip_Properties\<close>: what the encoder's
    writers append, the decoder's routines read back.
  \<^item> \<^verbatim>\<open>Enc_Length_Facts\<close>: lengths coded as runs and rebuilt from them.  \<^verbatim>\<open>Code_Length_Decode\<close>, \<^verbatim>\<open>Code_Length_Table\<close>,
    \<^verbatim>\<open>Code_Length_Code\<close>: the code in which the lengths are sent, its table and its own lengths, on both sides.
    \<^verbatim>\<open>Enc_Sort_Facts\<close>, \<^verbatim>\<open>Enc_Tree_Facts\<close>, \<^verbatim>\<open>Enc_Tree_Rounds\<close>: Huffman's construction ends and its depths are a complete code
    within the limit; a tree deeper than the limit weighs at least a Fibonacci number of the count limit, so the rounds end.
    \<^verbatim>\<open>Code_Length_Roundtrip\<close>, \<^verbatim>\<open>Code_Length_Properties\<close>: every complex prefix code the encoder stores is the one the decoder reads.
    \<^verbatim>\<open>Enc_Count_Facts\<close>: smoothing the counts is memory-safe and loses no symbol.
  \<^item> \<^verbatim>\<open>Block_Facts\<close>, \<^verbatim>\<open>Block_Properties\<close>: block switches from the encoder to the decoder, block types in range.
    \<^verbatim>\<open>Enc_Context_Map_Facts\<close>, \<^verbatim>\<open>Context_Map_Roundtrip\<close>: context maps, from move-to-front and zero runs to the decoder's map.
  \<^item> \<^verbatim>\<open>Enc_Uncompressed_Facts\<close>, \<^verbatim>\<open>Decode_Uncompressed_Facts\<close>, \<^verbatim>\<open>Stream_Roundtrip\<close>: the fallback stream of the encoder, run
    through every state of the decoder that it reaches, gives the input back, in one call, for every input that
    fits the encoder's own bound.

  \<^bold>\<open>Bounds.\<close>  There is no fuel.  Loops are structural or have a termination measure; those whose end is a
  property of the data (the loops over code lengths, over commands, over the states of a stream, and
  Huffman's outer loop) are \<open>partial_function (option)\<close>, where not returning is \<open>None\<close>.  Sizes in
  hypotheses are those of the format: alphabets below \<open>2 ^ 16\<close>, codes of at most 15 bits, meta-blocks of at
  most \<open>2 ^ 24\<close> bytes, windows below \<open>2 ^ 30\<close>.  Witnesses apply each theorem with hypotheses at a concrete
  decoder (\<^verbatim>\<open>Decoder_Samples\<close>) or writer.

  \<^bold>\<open>Findings.\<close>  \<open>take_output_then_write_repeats\<close>: a client that mixes \<open>BrotliDecoderTakeOutput\<close> with
  \<open>BrotliDecoderDecompressStream\<close> can be given bytes twice.  \<open>num_distance_symbols_arguments\<close>: two macro arguments of
  \<^verbatim>\<open>common/constants.h\<close> are in the wrong order.  \<open>second_round_below_64k\<close>: Huffman's construction needs a second round for
  4180 symbols, although its comment excludes one below 64 kB.  \<open>literal_context_correct\<close> follows the table and the RFC where the
  comment of \<^verbatim>\<open>common/context.h\<close> puts the border of the lead bytes elsewhere.

  \<^bold>\<open>Not modelled.\<close>  The encoder's match finders, block splitter and cost models (floating-point heuristics; any
  choice of commands is written by the modelled writers) and its streaming state machine; the 122,784 bytes of
  dictionary data (a parameter); \<^verbatim>\<open>common/platform.h\<close> for other builds than 64-bit little-endian; version and error
  strings.  The IL2CPP runtime itself is C++ over metadata generated at build time, and everything below
  \<^verbatim>\<open>external/\<close> is vendored; the application shell is Objective-C++.
\<close>

end
